(* ===== verification/Prelude.thy ===== *)
theory Prelude
  imports Main "HOL-Library.Word"
begin

text \<open>
  Shared vocabulary of the development: the error codes and the machine integers of the C
  sources, byte buffers with in-place overwriting, and the state-and-error monad in which every
  fallible C function is written. A C function that returns a negative errno value is a
  computation that ends in \<open>Inl\<close>; the state it leaves behind is kept in that case too,
  because a C function that returns early does not undo what it has already done.
\<close>

named_theorems triple_rules "rules that compute the effect of a computation"
named_theorems keeps_rules "rules that show a computation keeps an invariant"

section \<open>Error codes and machine integers\<close>

datatype errno = ENOENT | EIO | ENOMEM | EACCES | EEXIST | ENOTDIR | EISDIR | EINVAL | EFBIG
  | ENOSPC | EROFS | ELOOP | ENAMETOOLONG | ENOTSUP | EUCLEAN | ECANCELED | EINTR | ENOTEMPTY
  | EPERM | EMLINK | ESTALE | EOVERFLOW

type_synonym byte = "8 word"

text \<open>
  Unsigned C integers are natural numbers; an operation that can wrap says so with
  \<open>u16\<close>, \<open>u32\<close> or \<open>u64\<close>, which reduce modulo the width. \<open>off_t\<close> is a signed 64-bit
  integer: \<open>to_off\<close> is the cast from \<open>uint64_t\<close>.
\<close>

definition u16 :: "nat \<Rightarrow> nat" where
  "u16 x = x mod 2 ^ 16"

definition u32 :: "nat \<Rightarrow> nat" where
  "u32 x = x mod 2 ^ 32"

definition u64 :: "nat \<Rightarrow> nat" where
  "u64 x = x mod 2 ^ 64"

text \<open>\<open>v + d\<close> for an unsigned 32-bit \<open>v\<close> and a signed 32-bit \<open>d\<close>, and \<open>v - w\<close>.\<close>

definition u32_add :: "nat \<Rightarrow> int \<Rightarrow> nat" where
  "u32_add v d = nat ((int v + d) mod 2 ^ 32)"

abbreviation u32_sub :: "nat \<Rightarrow> nat \<Rightarrow> nat" where
  "u32_sub v w \<equiv> u32_add v (- int w)"

definition u32_not :: "nat \<Rightarrow> nat" where
  "u32_not x = 2 ^ 32 - 1 - x mod 2 ^ 32"

definition to_off :: "nat \<Rightarrow> int" where
  "to_off x = (if u64 x < 2 ^ 63 then int (u64 x) else int (u64 x) - 2 ^ 64)"

definition INT32_MAX :: nat where
  "INT32_MAX = 2147483647"

lemma u16_less [simp]: "u16 x < 65536"
  by (simp add: u16_def)

lemma u32_less [simp]: "u32 x < 4294967296"
  by (simp add: u32_def)

lemma u32_id [simp]: "x < 4294967296 \<Longrightarrow> u32 x = x"
  by (simp add: u32_def)

lemma u64_id [simp]: "x < 18446744073709551616 \<Longrightarrow> u64 x = x"
  by (simp add: u64_def)

lemma to_off_id: "x < 9223372036854775808 \<Longrightarrow> to_off x = int x"
  by (simp add: to_off_def)

lemma u32_add_less [simp]: "u32_add v d < 4294967296"
proof -
  have "(int v + d) mod 2 ^ 32 < 2 ^ 32"
    by (rule pos_mod_bound) simp
  then show ?thesis
    by (simp add: u32_add_def)
qed

lemma u32_add_exact:
  assumes "0 \<le> int v + d" and "int v + d < 4294967296"
  shows "u32_add v d = nat (int v + d)"
  using assms by (simp add: u32_add_def)

lemma u32_sub_exact: "w \<le> v \<Longrightarrow> v < 4294967296 \<Longrightarrow> u32_sub v w = v - w"
  by (simp add: u32_add_exact nat_diff_distrib)

lemma u32_add_pos: "v + w < 4294967296 \<Longrightarrow> u32_add v (int w) = v + w"
  by (simp add: u32_add_exact nat_int_add)

lemma u32_add_sub_cancel: "v < 4294967296 \<Longrightarrow> u32_add (u32_add v d) (- d) = v"
proof -
  assume v: "v < 4294967296"
  have "(int v + d) mod 4294967296 + - d = (int v + d) mod 4294967296 - d" by simp
  then have "int (u32_add v d) + - d = (int v + d) mod 4294967296 - d"
    by (simp add: u32_add_def)
  then have "(int (u32_add v d) + - d) mod 4294967296 = int v mod 4294967296"
    by (simp add: mod_diff_left_eq)
  with v show ?thesis
    by (simp add: u32_add_def)
qed

section \<open>Byte buffers\<close>

text \<open>
  A buffer is a list of bytes. \<open>overlay off bs xs\<close> is \<open>memcpy(xs + off, bs, length bs)\<close> and
  \<open>bytes_at off n xs\<close> reads \<open>n\<close> elements from offset \<open>off\<close>.
\<close>

definition overlay :: "nat \<Rightarrow> 'a list \<Rightarrow> 'a list \<Rightarrow> 'a list" where
  "overlay off bs xs = take off xs @ bs @ drop (off + length bs) xs"

definition bytes_at :: "nat \<Rightarrow> nat \<Rightarrow> 'a list \<Rightarrow> 'a list" where
  "bytes_at off n xs = take n (drop off xs)"

lemma length_overlay [simp]:
  "off + length bs \<le> length xs \<Longrightarrow> length (overlay off bs xs) = length xs"
  by (simp add: overlay_def)

lemma nth_overlay:
  assumes "off + length bs \<le> length xs" and "i < length xs"
  shows "overlay off bs xs ! i =
    (if off \<le> i \<and> i < off + length bs then bs ! (i - off) else xs ! i)"
  using assms by (auto simp: overlay_def nth_append)

lemma length_bytes_at [simp]: "off + n \<le> length xs \<Longrightarrow> length (bytes_at off n xs) = n"
  by (simp add: bytes_at_def)

lemma length_bytes_at_le: "length (bytes_at off n xs) \<le> n"
  by (simp add: bytes_at_def)

lemma nth_bytes_at [simp]: "off + n \<le> length xs \<Longrightarrow> i < n \<Longrightarrow> bytes_at off n xs ! i = xs ! (off + i)"
  by (simp add: bytes_at_def)

lemma overlay_Nil [simp]: "off \<le> length xs \<Longrightarrow> overlay off [] xs = xs"
  by (simp add: overlay_def)

lemma bytes_at_overlay_same [simp]:
  "off + length bs \<le> length xs \<Longrightarrow> bytes_at off (length bs) (overlay off bs xs) = bs"
  by (simp add: bytes_at_def overlay_def)

lemma bytes_at_overlay_disjoint:
  assumes "off + length bs \<le> length xs" and "o2 + n \<le> length xs"
    and "o2 + n \<le> off \<or> off + length bs \<le> o2"
  shows "bytes_at o2 n (overlay off bs xs) = bytes_at o2 n xs"
  using assms by (intro nth_equalityI) (auto simp: nth_overlay)

text \<open>Two lists agree outside a range: what a failed write leaves.\<close>

definition agree_outside :: "nat \<Rightarrow> nat \<Rightarrow> 'a list \<Rightarrow> 'a list \<Rightarrow> bool" where
  "agree_outside off n xs ys \<longleftrightarrow> length xs = length ys \<and>
     (\<forall>i < length xs. i < off \<or> off + n \<le> i \<longrightarrow> xs ! i = ys ! i)"

lemma agree_outside_refl [simp]: "agree_outside off n xs xs"
  by (simp add: agree_outside_def)

lemma agree_outside_length: "agree_outside off n xs ys \<Longrightarrow> length xs = length ys"
  by (simp add: agree_outside_def)

lemma agree_outside_trans:
  "agree_outside off n xs ys \<Longrightarrow> agree_outside off n ys zs \<Longrightarrow> agree_outside off n xs zs"
  by (auto simp: agree_outside_def)

lemma agree_outside_mono:
  "agree_outside off n xs ys \<Longrightarrow> off' \<le> off \<Longrightarrow> off + n \<le> off' + n' \<Longrightarrow>
   agree_outside off' n' xs ys"
  by (auto simp: agree_outside_def)

lemma agree_outside_0 [simp]: "agree_outside off 0 xs ys \<longleftrightarrow> xs = ys"
  by (auto simp: agree_outside_def not_less [symmetric] intro: nth_equalityI)

lemma agree_outside_overlay:
  "off + length bs \<le> length xs \<Longrightarrow> agree_outside off (length bs) (overlay off bs xs) xs"
  by (auto simp: agree_outside_def nth_overlay)

text \<open>Writing back the old contents of a range repairs any change inside that range.\<close>

lemma overlay_restores:
  assumes "agree_outside off n ys xs" and "off + n \<le> length xs"
  shows "overlay off (bytes_at off n xs) ys = xs"
  using assms by (intro nth_equalityI) (auto simp: agree_outside_def nth_overlay)

section \<open>The state-and-error monad\<close>

type_synonym ('s, 'a) io = "'s \<Rightarrow> (errno + 'a) \<times> 's"

definition ret :: "'a \<Rightarrow> ('s, 'a) io" where
  "ret x s = (Inr x, s)"

definition fail :: "errno \<Rightarrow> ('s, 'a) io" where
  "fail e s = (Inl e, s)"

definition bind_io :: "('s, 'a) io \<Rightarrow> ('a \<Rightarrow> ('s, 'b) io) \<Rightarrow> ('s, 'b) io" where
  "bind_io m f s = (case m s of (Inl e, s') \<Rightarrow> (Inl e, s') | (Inr x, s') \<Rightarrow> f x s')"

definition get_io :: "('s, 's) io" where
  "get_io s = (Inr s, s)"

definition modify_io :: "('s \<Rightarrow> 's) \<Rightarrow> ('s, unit) io" where
  "modify_io f s = (Inr (), f s)"

text \<open>\<open>if (!b) return -e;\<close>\<close>

definition guard_io :: "bool \<Rightarrow> errno \<Rightarrow> ('s, unit) io" where
  "guard_io b e = (if b then ret () else fail e)"

text \<open>\<open>(void)m();\<close>, the result of \<open>m\<close> as a value, and another error code in place of its own.\<close>

definition try_io :: "('s, 'a) io \<Rightarrow> ('s, errno + 'a) io" where
  "try_io m s = (case m s of (r, s') \<Rightarrow> (Inr r, s'))"

definition map_err :: "errno \<Rightarrow> ('s, 'a) io \<Rightarrow> ('s, 'a) io" where
  "map_err e m s = (case m s of (Inl _, s') \<Rightarrow> (Inl e, s') | (Inr x, s') \<Rightarrow> (Inr x, s'))"

definition lift_res :: "errno + 'a \<Rightarrow> ('s, 'a) io" where
  "lift_res r s = (r, s)"

lemmas io_defs = ret_def fail_def bind_io_def get_io_def modify_io_def guard_io_def try_io_def
  map_err_def lift_res_def

lemma bind_io_Inr:
  "bind_io m f s = (Inr y, s') \<longleftrightarrow> (\<exists>x t. m s = (Inr x, t) \<and> f x t = (Inr y, s'))"
  by (auto simp: bind_io_def split: prod.splits sum.splits)

lemma bind_io_Inl:
  "bind_io m f s = (Inl e, s') \<longleftrightarrow>
     m s = (Inl e, s') \<or> (\<exists>x t. m s = (Inr x, t) \<and> f x t = (Inl e, s'))"
  by (auto simp: bind_io_def split: prod.splits sum.splits)

lemma bind_io_cong [fundef_cong]:
  assumes "m s = m' s'" and "s = s'" and "\<And>x t. m' s' = (Inr x, t) \<Longrightarrow> f x t = f' x t"
  shows "bind_io m f s = bind_io m' f' s'"
  using assms by (auto simp: bind_io_def split: prod.splits sum.splits)

text \<open>
  A computation keeps \<open>I\<close> when it ends in a state with \<open>I\<close> from any state with \<open>I\<close>,
  whether it succeeds or fails.
\<close>

definition keeps :: "('s \<Rightarrow> bool) \<Rightarrow> ('s, 'a) io \<Rightarrow> bool" where
  "keeps I m \<longleftrightarrow> (\<forall>s r t. I s \<longrightarrow> m s = (r, t) \<longrightarrow> I t)"

lemma keepsI: "(\<And>s r t. I s \<Longrightarrow> m s = (r, t) \<Longrightarrow> I t) \<Longrightarrow> keeps I m"
  by (auto simp: keeps_def)

lemma keepsD: "keeps I m \<Longrightarrow> I s \<Longrightarrow> m s = (r, t) \<Longrightarrow> I t"
  by (auto simp: keeps_def)

lemma keeps_ret [keeps_rules]: "keeps I (ret x)"
  by (auto simp: keeps_def ret_def)

lemma keeps_fail [keeps_rules]: "keeps I (fail e)"
  by (auto simp: keeps_def fail_def)

lemma keeps_get [keeps_rules]: "keeps I get_io"
  by (auto simp: keeps_def get_io_def)

lemma keeps_guard [keeps_rules]: "keeps I (guard_io b e)"
  by (auto simp: keeps_def io_defs)

lemma keeps_lift [keeps_rules]: "keeps I (lift_res r)"
  by (auto simp: keeps_def io_defs)

lemma keeps_bind [keeps_rules]:
  "keeps I m \<Longrightarrow> (\<And>x. keeps I (f x)) \<Longrightarrow> keeps I (bind_io m f)"
proof (rule keepsI)
  fix s r t
  assume m: "keeps I m" and f: "\<And>x. keeps I (f x)" and s: "I s" and b: "bind_io m f s = (r, t)"
  obtain r' u where u: "m s = (r', u)" by (cases "m s")
  with m s have "I u" by (rule keepsD)
  with u b f show "I t" by (cases r') (auto simp: bind_io_def dest: keepsD)
qed

lemma keeps_try [keeps_rules]: "keeps I m \<Longrightarrow> keeps I (try_io m)"
  by (auto simp: keeps_def try_io_def split: prod.splits)

lemma keeps_map_err [keeps_rules]: "keeps I m \<Longrightarrow> keeps I (map_err e m)"
  by (auto simp: keeps_def map_err_def split: prod.splits sum.splits)

lemma keeps_if [keeps_rules]: "keeps I m \<Longrightarrow> keeps I n \<Longrightarrow> keeps I (if b then m else n)"
  by simp

lemma keeps_case_sum [keeps_rules]:
  "(\<And>e. keeps I (m e)) \<Longrightarrow> (\<And>x. keeps I (n x)) \<Longrightarrow>
   keeps I (case r of Inl e \<Rightarrow> m e | Inr x \<Rightarrow> n x)"
  by (cases r) auto

lemma keeps_case_option [keeps_rules]:
  "keeps I m \<Longrightarrow> (\<And>x. keeps I (n x)) \<Longrightarrow>
   keeps I (case r of None \<Rightarrow> m | Some x \<Rightarrow> n x)"
  by (cases r) auto

lemma keeps_case_prod [keeps_rules]:
  "(\<And>a b. keeps I (m a b)) \<Longrightarrow> keeps I (case p of (a, b) \<Rightarrow> m a b)"
  by (cases p) auto

lemma keeps_case_prod_app [keeps_rules]:
  "(\<And>a b. keeps I (m a b x)) \<Longrightarrow> keeps I ((case p of (a, b) \<Rightarrow> m a b) x)"
  by (cases p) auto

lemma keeps_let [keeps_rules]: "(\<And>x. keeps I (f x)) \<Longrightarrow> keeps I (let x = v in f x)"
  by simp

end
