(* ===== verification/Bytes.thy ===== *)
theory Bytes
  imports Prelude
begin

text \<open>
  The integer codecs of the on-disk formats: big-endian reads and writes of
  \<^verbatim>\<open>src/core/layout.c\<close>, the 24-bit fields of \<^verbatim>\<open>src/core/label.c\<close>, and the little-endian
  and 64-bit readers of \<^verbatim>\<open>src/core/image.c\<close>. A pointer into a buffer is the buffer and an
  offset. The lemmas give each reader as a polynomial in its bytes, that it inverts its writer,
  and that a write leaves every disjoint field alone.
\<close>

unbundle bit_operations_syntax

section \<open>Readers\<close>

definition nextufs__read_be16 :: "byte list \<Rightarrow> nat \<Rightarrow> nat" where
  "nextufs__read_be16 b p = push_bit 8 (unat (b ! p)) OR unat (b ! (p + 1))"

definition nextufs__read_be32 :: "byte list \<Rightarrow> nat \<Rightarrow> nat" where
  "nextufs__read_be32 b p =
     push_bit 24 (unat (b ! p)) OR push_bit 16 (unat (b ! (p + 1))) OR
     push_bit 8 (unat (b ! (p + 2))) OR unat (b ! (p + 3))"

definition read_be24 :: "byte list \<Rightarrow> nat \<Rightarrow> nat" where
  "read_be24 b p =
     push_bit 16 (unat (b ! p)) OR push_bit 8 (unat (b ! (p + 1))) OR unat (b ! (p + 2))"

definition read_be64 :: "byte list \<Rightarrow> nat \<Rightarrow> nat" where
  "read_be64 b p = push_bit 32 (nextufs__read_be32 b p) OR nextufs__read_be32 b (p + 4)"

definition read_le32 :: "byte list \<Rightarrow> nat \<Rightarrow> nat" where
  "read_le32 b p =
     unat (b ! p) OR push_bit 8 (unat (b ! (p + 1))) OR
     push_bit 16 (unat (b ! (p + 2))) OR push_bit 24 (unat (b ! (p + 3)))"

definition read_le64 :: "byte list \<Rightarrow> nat \<Rightarrow> nat" where
  "read_le64 b p = read_le32 b p OR push_bit 32 (read_le32 b (p + 4))"

section \<open>Writers\<close>

text \<open>The cast \<open>(uint8_t)(v >> k)\<close>.\<close>

definition byte_at :: "nat \<Rightarrow> nat \<Rightarrow> byte" where
  "byte_at k v = word_of_nat (drop_bit k v)"

definition nextufs__write_be16 :: "byte list \<Rightarrow> nat \<Rightarrow> nat \<Rightarrow> byte list" where
  "nextufs__write_be16 b p v = overlay p [byte_at 8 v, byte_at 0 v] b"

definition write_be24 :: "byte list \<Rightarrow> nat \<Rightarrow> nat \<Rightarrow> byte list" where
  "write_be24 b p v = overlay p [byte_at 16 v, byte_at 8 v, byte_at 0 v] b"

definition nextufs__write_be32 :: "byte list \<Rightarrow> nat \<Rightarrow> nat \<Rightarrow> byte list" where
  "nextufs__write_be32 b p v =
     overlay p [byte_at 24 v, byte_at 16 v, byte_at 8 v, byte_at 0 v] b"

definition nextufs__write_be64 :: "byte list \<Rightarrow> nat \<Rightarrow> nat \<Rightarrow> byte list" where
  "nextufs__write_be64 b p v =
     nextufs__write_be32 (nextufs__write_be32 b p (u32 (drop_bit 32 v))) (p + 4) (u32 v)"

text \<open>The four bytes \<open>nextufs_vdi_write_le32\<close> puts on disk.\<close>

definition le32_bytes :: "nat \<Rightarrow> byte list" where
  "le32_bytes v = [byte_at 0 v, byte_at 8 v, byte_at 16 v, byte_at 24 v]"

section \<open>Readers as polynomials\<close>

lemma or_push_bit:
  fixes a b :: nat
  assumes "b < 2 ^ n"
  shows "push_bit n a OR b = a * 2 ^ n + b"
proof -
  have "push_bit n a AND b = 0"
  proof (rule bit_eqI)
    fix k
    have "\<not> bit b k" if "n \<le> k"
    proof -
      have "b < 2 ^ k"
        using assms that by (meson less_le_trans one_le_numeral power_increasing)
      then show ?thesis by (simp add: bit_iff_odd)
    qed
    then show "bit (push_bit n a AND b) k \<longleftrightarrow> bit (0 :: nat) k"
      by (auto simp: bit_and_iff bit_push_bit_iff)
  qed
  then have "push_bit n a + b = push_bit n a OR b"
    by (rule disjunctive_add_eq_or)
  then show ?thesis
    by (simp add: push_bit_eq_mult)
qed

lemma unat_byte_less [simp]: "unat (w :: byte) < 256"
  using unsigned_less [where ?'a = nat and w = w] by simp

lemma unat_byte_le: "unat (w :: byte) \<le> 255"
  using unat_byte_less [of w] by linarith

lemma bytes2_less:
  assumes "x \<le> 255" and "y \<le> (255 :: nat)"
  shows "x * 256 + y < 65536"
  using assms by linarith

lemma bytes3_less:
  assumes "x \<le> 255" and "y \<le> 255" and "z \<le> (255 :: nat)"
  shows "(x * 256 + y) * 256 + z < 16777216"
  using assms unfolding distrib_right mult.assoc by linarith

lemma bytes4_less:
  assumes "w \<le> 255" and "x \<le> 255" and "y \<le> 255" and "z \<le> (255 :: nat)"
  shows "((w * 256 + x) * 256 + y) * 256 + z < 4294967296"
  using assms unfolding distrib_right mult.assoc by linarith

lemma read_be16_eq: "nextufs__read_be16 b p = unat (b ! p) * 256 + unat (b ! (p + 1))"
  using or_push_bit [of "unat (b ! (p + 1))" 8 "unat (b ! p)"]
  by (simp add: nextufs__read_be16_def)

lemma or_three_bytes:
  fixes x y z :: byte
  shows "push_bit 16 (unat x) OR push_bit 8 (unat y) OR unat z = (unat x * 256 + unat y) * 256 + unat z"
proof -
  have lo: "push_bit 8 (unat y) OR unat z = unat y * 256 + unat z"
    using or_push_bit [of "unat z" 8 "unat y"] by simp
  have "unat y * 256 + unat z < 65536"
    by (intro bytes2_less unat_byte_le)
  then have "push_bit 16 (unat x) OR (unat y * 256 + unat z) = unat x * 65536 + (unat y * 256 + unat z)"
    using or_push_bit [of "unat y * 256 + unat z" 16 "unat x"] by simp
  with lo show ?thesis by (simp add: or.assoc)
qed

lemma or_four_bytes:
  fixes w x y z :: byte
  shows "push_bit 24 (unat w) OR push_bit 16 (unat x) OR push_bit 8 (unat y) OR unat z =
    ((unat w * 256 + unat x) * 256 + unat y) * 256 + unat z"
proof -
  have "(unat x * 256 + unat y) * 256 + unat z < 16777216"
    by (intro bytes3_less unat_byte_le)
  then have "push_bit 24 (unat w) OR ((unat x * 256 + unat y) * 256 + unat z) =
      unat w * 16777216 + ((unat x * 256 + unat y) * 256 + unat z)"
    using or_push_bit [of "(unat x * 256 + unat y) * 256 + unat z" 24 "unat w"] by simp
  then show ?thesis
    using or_three_bytes [of x y z] by (simp add: or.assoc)
qed

lemma read_be24_eq:
  "read_be24 b p = (unat (b ! p) * 256 + unat (b ! (p + 1))) * 256 + unat (b ! (p + 2))"
  unfolding read_be24_def by (rule or_three_bytes)

lemma read_be32_eq:
  "nextufs__read_be32 b p =
    ((unat (b ! p) * 256 + unat (b ! (p + 1))) * 256 + unat (b ! (p + 2))) * 256 + unat (b ! (p + 3))"
  unfolding nextufs__read_be32_def by (rule or_four_bytes)

lemma read_le32_eq:
  "read_le32 b p =
    ((unat (b ! (p + 3)) * 256 + unat (b ! (p + 2))) * 256 + unat (b ! (p + 1))) * 256 + unat (b ! p)"
  using or_four_bytes [of "b ! (p + 3)" "b ! (p + 2)" "b ! (p + 1)" "b ! p"]
  by (simp add: read_le32_def ac_simps)

lemma read_be16_less [simp]: "nextufs__read_be16 b p < 65536"
  unfolding read_be16_eq by (intro bytes2_less unat_byte_le)

lemma read_be24_less [simp]: "read_be24 b p < 16777216"
  unfolding read_be24_eq by (intro bytes3_less unat_byte_le)

lemma read_be32_less [simp]: "nextufs__read_be32 b p < 4294967296"
  unfolding read_be32_eq by (intro bytes4_less unat_byte_le)

lemma read_le32_less [simp]: "read_le32 b p < 4294967296"
  unfolding read_le32_eq by (intro bytes4_less unat_byte_le)

lemma u32_read_be32 [simp]: "u32 (nextufs__read_be32 b p) = nextufs__read_be32 b p"
  by simp

lemma read_be64_eq:
  "read_be64 b p = nextufs__read_be32 b p * 4294967296 + nextufs__read_be32 b (p + 4)"
  using or_push_bit [of "nextufs__read_be32 b (p + 4)" 32 "nextufs__read_be32 b p"]
  by (simp add: read_be64_def)

lemma read_le64_eq:
  "read_le64 b p = read_le32 b (p + 4) * 4294967296 + read_le32 b p"
  using or_push_bit [of "read_le32 b p" 32 "read_le32 b (p + 4)"]
  by (simp add: read_le64_def or.commute)

section \<open>Writing, then reading back\<close>

lemma unat_byte_at: "unat (byte_at k v) = v div 2 ^ k mod 256"
  by (simp add: byte_at_def unat_of_nat drop_bit_eq_div)

lemma bytes_sum2: "(v div 256 mod 256) * 256 + v mod 256 = v mod (65536 :: nat)"
  using mod_mult2_eq [of v 256 256] by simp

lemma bytes_sum3: "((v div 65536 mod 256) * 256 + v div 256 mod 256) * 256 + v mod 256 = v mod (16777216 :: nat)"
  using mod_mult2_eq [of v 256 65536] mod_mult2_eq [of "v div 256" 256 256]
  by (simp add: div_mult2_eq [symmetric])

lemma bytes_sum4:
  "(((v div 16777216 mod 256) * 256 + v div 65536 mod 256) * 256 + v div 256 mod 256) * 256 + v mod 256
    = v mod (4294967296 :: nat)"
  using mod_mult2_eq [of v 256 16777216] bytes_sum3 [of "v div 256"]
  by (simp add: div_mult2_eq [symmetric])

lemma length_write_be16 [simp]: "p + 2 \<le> length b \<Longrightarrow> length (nextufs__write_be16 b p v) = length b"
  by (simp add: nextufs__write_be16_def)

lemma length_write_be24 [simp]: "p + 3 \<le> length b \<Longrightarrow> length (write_be24 b p v) = length b"
  by (simp add: write_be24_def)

lemma length_write_be32 [simp]: "p + 4 \<le> length b \<Longrightarrow> length (nextufs__write_be32 b p v) = length b"
  by (simp add: nextufs__write_be32_def)

lemma length_write_be64 [simp]: "p + 8 \<le> length b \<Longrightarrow> length (nextufs__write_be64 b p v) = length b"
  by (simp add: nextufs__write_be64_def)

lemma length_le32_bytes [simp]: "length (le32_bytes v) = 4"
  by (simp add: le32_bytes_def)

lemma read_write_be16 [simp]:
  "p + 2 \<le> length b \<Longrightarrow> nextufs__read_be16 (nextufs__write_be16 b p v) p = u16 v"
  using bytes_sum2 [of v]
  by (simp add: read_be16_eq nextufs__write_be16_def nth_overlay unat_byte_at u16_def)

lemma read_write_be24 [simp]:
  "p + 3 \<le> length b \<Longrightarrow> read_be24 (write_be24 b p v) p = v mod 16777216"
  using bytes_sum3 [of v]
  by (simp add: read_be24_eq write_be24_def nth_overlay unat_byte_at)

lemma read_write_be32 [simp]:
  "p + 4 \<le> length b \<Longrightarrow> nextufs__read_be32 (nextufs__write_be32 b p v) p = u32 v"
  using bytes_sum4 [of v]
  by (simp add: read_be32_eq nextufs__write_be32_def nth_overlay unat_byte_at u32_def)

lemma read_le32_bytes:
  "p + 4 \<le> length b \<Longrightarrow> read_le32 (overlay p (le32_bytes v) b) p = u32 v"
  using bytes_sum4 [of v]
  by (simp add: read_le32_eq le32_bytes_def nth_overlay unat_byte_at u32_def)

lemma nth_write_be32:
  "p + 4 \<le> length b \<Longrightarrow> i < p \<or> p + 4 \<le> i \<Longrightarrow> i < length b \<Longrightarrow> nextufs__write_be32 b p v ! i = b ! i"
  by (auto simp: nextufs__write_be32_def nth_overlay)

lemma nth_write_be16:
  "p + 2 \<le> length b \<Longrightarrow> i < p \<or> p + 2 \<le> i \<Longrightarrow> i < length b \<Longrightarrow> nextufs__write_be16 b p v ! i = b ! i"
  by (auto simp: nextufs__write_be16_def nth_overlay)

lemma nth_write_be24:
  "p + 3 \<le> length b \<Longrightarrow> i < p \<or> p + 3 \<le> i \<Longrightarrow> i < length b \<Longrightarrow> write_be24 b p v ! i = b ! i"
  by (auto simp: write_be24_def nth_overlay)

lemma read_be32_cong:
  "(\<And>i. i < 4 \<Longrightarrow> b ! (p + i) = c ! (q + i)) \<Longrightarrow> nextufs__read_be32 b p = nextufs__read_be32 c q"
proof -
  assume eq: "\<And>i. i < 4 \<Longrightarrow> b ! (p + i) = c ! (q + i)"
  then show ?thesis
    using eq [of 0] eq [of 1] eq [of 2] eq [of 3] by (simp add: read_be32_eq)
qed

lemma read_be32_frame [simp]:
  "p + 4 \<le> length b \<Longrightarrow> q + 4 \<le> length b \<Longrightarrow> q + 4 \<le> p \<or> p + 4 \<le> q \<Longrightarrow>
   nextufs__read_be32 (nextufs__write_be32 b p v) q = nextufs__read_be32 b q"
  by (auto simp: read_be32_eq nth_write_be32)

lemma read_be32_frame16 [simp]:
  "p + 2 \<le> length b \<Longrightarrow> q + 4 \<le> length b \<Longrightarrow> q + 4 \<le> p \<or> p + 2 \<le> q \<Longrightarrow>
   nextufs__read_be32 (nextufs__write_be16 b p v) q = nextufs__read_be32 b q"
  by (auto simp: read_be32_eq nth_write_be16)

lemma read_be16_frame [simp]:
  "p + 2 \<le> length b \<Longrightarrow> q + 2 \<le> length b \<Longrightarrow> q + 2 \<le> p \<or> p + 2 \<le> q \<Longrightarrow>
   nextufs__read_be16 (nextufs__write_be16 b p v) q = nextufs__read_be16 b q"
  by (auto simp: read_be16_eq nth_write_be16)

lemma read_be16_frame32 [simp]:
  "p + 4 \<le> length b \<Longrightarrow> q + 2 \<le> length b \<Longrightarrow> q + 2 \<le> p \<or> p + 4 \<le> q \<Longrightarrow>
   nextufs__read_be16 (nextufs__write_be32 b p v) q = nextufs__read_be16 b q"
  by (auto simp: read_be16_eq nth_write_be32)

lemma u32_u32 [simp]: "u32 (u32 v) = u32 v"
  by (simp add: u32_def)

lemma read_write_be64:
  assumes "p + 8 \<le> length b" and "v < 2 ^ 64"
  shows "read_be64 (nextufs__write_be64 b p v) p = v"
proof -
  have "v div 4294967296 < 4294967296"
    using assms(2) by (simp add: less_mult_imp_div_less)
  then show ?thesis
    using assms by (simp add: read_be64_eq nextufs__write_be64_def drop_bit_eq_div u32_def)
qed

lemma read_be32_bytes_at:
  "off + n \<le> length b \<Longrightarrow> p + 4 \<le> n \<Longrightarrow> nextufs__read_be32 (bytes_at off n b) p = nextufs__read_be32 b (off + p)"
  by (simp add: read_be32_eq add.assoc)

end
