(* ===== verification/Posix_File.thy ===== *)
theory Posix_File
  imports Bytes
begin

text \<open>
  The host file under an image, as the sources use it: \<open>pread\<close>, \<open>pwrite\<close>, \<open>fsync\<close> and
  \<open>ftruncate\<close> on a descriptor, and the two retry loops of \<^verbatim>\<open>src/core/layout.c\<close> that turn them
  into exact transfers. The environment decides how each call ends: \<open>script\<close> lists the outcomes
  of the next system calls, a transfer of at most \<open>k\<close> bytes or an errno value; a call past the
  end of the script transfers everything. A negative offset fails with \<open>EINVAL\<close>, as POSIX says.
\<close>

datatype sysres = Xfer nat | Fails errno

record hostfile =
  content :: "byte list"
  script :: "sysres list"

text \<open>Writing past the end extends a file with zero bytes; writing nothing changes nothing.\<close>

definition file_put :: "nat \<Rightarrow> byte list \<Rightarrow> byte list \<Rightarrow> byte list" where
  "file_put off bs xs =
     (if bs = [] then xs else overlay off bs (xs @ replicate (off - length xs) 0))"

definition pread :: "nat \<Rightarrow> int \<Rightarrow> (hostfile, byte list) io" where
  "pread n off f =
     (if off < 0 then (Inl EINVAL, f)
      else case script f of
        [] \<Rightarrow> (Inr (bytes_at (nat off) n (content f)), f)
      | Xfer k # rest \<Rightarrow> (Inr (bytes_at (nat off) (min k n) (content f)), f\<lparr>script := rest\<rparr>)
      | Fails e # rest \<Rightarrow> (Inl e, f\<lparr>script := rest\<rparr>))"

definition pwrite :: "byte list \<Rightarrow> int \<Rightarrow> (hostfile, nat) io" where
  "pwrite bs off f =
     (if off < 0 then (Inl EINVAL, f)
      else case script f of
        [] \<Rightarrow> (Inr (length bs), f\<lparr>content := file_put (nat off) bs (content f)\<rparr>)
      | Xfer k # rest \<Rightarrow>
          (Inr (min k (length bs)),
           f\<lparr>content := file_put (nat off) (take k bs) (content f), script := rest\<rparr>)
      | Fails e # rest \<Rightarrow> (Inl e, f\<lparr>script := rest\<rparr>))"

definition fsync_fd :: "(hostfile, unit) io" where
  "fsync_fd f =
     (case script f of
        Fails e # rest \<Rightarrow> (Inl e, f\<lparr>script := rest\<rparr>)
      | _ # rest \<Rightarrow> (Inr (), f\<lparr>script := rest\<rparr>)
      | [] \<Rightarrow> (Inr (), f))"

definition ftruncate_fd :: "nat \<Rightarrow> (hostfile, unit) io" where
  "ftruncate_fd n f =
     (case script f of
        Fails e # rest \<Rightarrow> (Inl e, f\<lparr>script := rest\<rparr>)
      | s \<Rightarrow> (Inr (), f\<lparr>content := take n (content f @ replicate (n - length (content f)) 0),
                       script := tl s\<rparr>))"

lemma pread_Inl: "pread n off f = (Inl e, f') \<Longrightarrow> e = EINTR \<Longrightarrow> length (script f') < length (script f)"
  by (auto simp: pread_def split: if_splits list.splits sysres.splits)

lemma pread_Inr:
  assumes "pread n off f = (Inr bs, f')"
  shows "\<exists>k \<le> n. bs = bytes_at (nat off) k (content f) \<and> 0 \<le> off \<and> content f' = content f \<and>
    (length (script f') < length (script f) \<or> f' = f \<and> k = n)"
proof (cases "script f")
  case Nil
  with assms show ?thesis by (auto simp: pread_def split: if_splits)
next
  case (Cons r rest)
  with assms show ?thesis
    by (cases r) (auto simp: pread_def split: if_splits intro: exI [of _ "min _ n"])
qed

lemma pread_content: "pread n off f = (r, f') \<Longrightarrow> content f' = content f"
  by (auto simp: pread_def split: if_splits list.splits sysres.splits)

lemma pwrite_Inl:
  "pwrite bs off f = (Inl e, f') \<Longrightarrow> content f' = content f \<and>
   (e = EINTR \<longrightarrow> length (script f') < length (script f))"
  by (auto simp: pwrite_def split: if_splits list.splits sysres.splits)

lemma pwrite_Inr:
  assumes "pwrite bs off f = (Inr n, f')"
  shows "n \<le> length bs \<and> 0 \<le> off \<and> content f' = file_put (nat off) (take n bs) (content f) \<and>
    (length (script f') < length (script f) \<or> script f' = script f \<and> n = length bs)"
  using assms by (auto simp: pwrite_def min_def split: if_splits list.splits sysres.splits)

lemma fsync_fd_content: "fsync_fd f = (r, f') \<Longrightarrow> content f' = content f"
  by (auto simp: fsync_fd_def split: list.splits sysres.splits)

section \<open>Exact transfers\<close>

text \<open>\<open>out\<close> is what \<open>buf\<close> holds so far, so \<open>done\<close> is its length.\<close>

function read_fd_loop :: "nat \<Rightarrow> int \<Rightarrow> byte list \<Rightarrow> (hostfile, byte list) io" where
  "read_fd_loop sz offset out f =
     (if length out < sz then
        (case pread (sz - length out) (offset + int (length out)) f of
           (Inl e, f') \<Rightarrow>
             if e = EINTR then read_fd_loop sz offset out f' else (Inl e, f')
         | (Inr bs, f') \<Rightarrow>
             if bs = [] then (Inl EIO, f') else read_fd_loop sz offset (out @ bs) f')
      else (Inr out, f))"
  by pat_completeness auto
termination
proof (relation "measures [\<lambda>(sz, offset, out, f). length (script f),
    \<lambda>(sz, offset, out, f). sz - length out]", goal_cases)
  case 1
  show ?case by simp
next
  case (2 sz offset out f x f' e)
  then have "pread (sz - length out) (offset + int (length out)) f = (Inl e, f')" by simp
  from pread_Inl [OF this 2(4)] have "length (script f') < length (script f)" .
  then show ?case by simp
next
  case (3 sz offset out f x f' bs)
  then have "pread (sz - length out) (offset + int (length out)) f = (Inr bs, f')" by simp
  from pread_Inr [OF this] have "length (script f') < length (script f) \<or> f' = f" by blast
  moreover from 3(4) have "0 < length bs" by simp
  with 3(1) have "sz - length (out @ bs) < sz - length out"
    unfolding length_append by linarith
  ultimately show ?case by auto
qed

declare read_fd_loop.simps [simp del]

definition nextufs__read_exact_fd :: "nat \<Rightarrow> int \<Rightarrow> (hostfile, byte list) io" where
  "nextufs__read_exact_fd sz offset = read_fd_loop sz offset []"

function write_fd_loop :: "byte list \<Rightarrow> int \<Rightarrow> nat \<Rightarrow> (hostfile, unit) io" where
  "write_fd_loop buf offset done f =
     (if done < length buf then
        (case pwrite (drop done buf) (offset + int done) f of
           (Inl e, f') \<Rightarrow>
             if e = EINTR then write_fd_loop buf offset done f' else (Inl e, f')
         | (Inr n, f') \<Rightarrow>
             if n = 0 then (Inl EIO, f') else write_fd_loop buf offset (done + n) f')
      else (Inr (), f))"
  by pat_completeness auto
termination
proof (relation "measures [\<lambda>(buf, offset, done, f). length (script f),
    \<lambda>(buf, offset, done, f). length buf - done]", goal_cases)
  case 1
  show ?case by simp
next
  case (2 buf offset don f x f' e)
  then have "pwrite (drop don buf) (offset + int don) f = (Inl e, f')" by simp
  from pwrite_Inl [OF this] 2(4) have "length (script f') < length (script f)" by simp
  then show ?case by simp
next
  case (3 buf offset don f x f' n)
  then have "pwrite (drop don buf) (offset + int don) f = (Inr n, f')" by simp
  from pwrite_Inr [OF this] 3 show ?case by auto
qed

declare write_fd_loop.simps [simp del]

definition nextufs__write_exact_fd :: "byte list \<Rightarrow> int \<Rightarrow> (hostfile, unit) io" where
  "nextufs__write_exact_fd buf offset = write_fd_loop buf offset 0"

section \<open>What the transfers guarantee\<close>

lemma bytes_at_append_bytes_at:
  "off + n + k \<le> length xs \<Longrightarrow> bytes_at off n xs @ bytes_at (off + n) k xs = bytes_at off (n + k) xs"
  by (simp add: bytes_at_def take_add [symmetric] drop_drop [symmetric] add.commute [of off] del: drop_drop)

lemma bytes_at_short: "k \<le> n \<Longrightarrow> length (bytes_at off k xs) = k \<Longrightarrow> off + k \<le> length xs \<or> k = 0"
  by (auto simp: bytes_at_def)

lemma read_fd_loop_content: "read_fd_loop sz off out f = (r, f') \<Longrightarrow> content f' = content f"
proof (induction sz off out f arbitrary: r f' rule: read_fd_loop.induct)
  case (1 sz off out f)
  show ?case
  proof (cases "length out < sz")
    case False
    with "1.prems" show ?thesis by (simp add: read_fd_loop.simps)
  next
    case True
    obtain q g where q: "pread (sz - length out) (off + int (length out)) f = (q, g)"
      by (cases "pread (sz - length out) (off + int (length out)) f")
    note c = pread_content [OF q]
    show ?thesis
    proof (cases q)
      case (Inl e)
      show ?thesis
      proof (cases "e = EINTR")
        case True
        with "1.prems" \<open>length out < sz\<close> q Inl have "read_fd_loop sz off out g = (r, f')"
          by (simp add: read_fd_loop.simps [of sz off out f])
        with "1.IH"(1) [OF \<open>length out < sz\<close> q [symmetric] Inl True] c show ?thesis by simp
      next
        case False
        with "1.prems" \<open>length out < sz\<close> q Inl c show ?thesis
          by (simp add: read_fd_loop.simps [of sz off out f])
      qed
    next
      case (Inr bs)
      show ?thesis
      proof (cases "bs = []")
        case True
        with "1.prems" \<open>length out < sz\<close> q Inr c show ?thesis
          by (simp add: read_fd_loop.simps [of sz off out f])
      next
        case False
        with "1.prems" True q Inr have "read_fd_loop sz off (out @ bs) g = (r, f')"
          by (simp add: read_fd_loop.simps [of sz off out f])
        with "1.IH"(2) [OF True q [symmetric] Inr False] c show ?thesis by simp
      qed
    qed
  qed
qed

lemma bytes_at_clip: "bytes_at off k xs = bytes_at off (length (bytes_at off k xs)) xs"
  by (simp add: bytes_at_def min_def)

lemma bytes_at_nonempty_bound: "bytes_at off k xs \<noteq> [] \<Longrightarrow> off + length (bytes_at off k xs) \<le> length xs"
  by (auto simp: bytes_at_def)

lemma read_fd_loop_Inr:
  assumes "read_fd_loop sz off out f = (Inr bs, f')"
    and "out = bytes_at (nat off) (length out) (content f)"
    and "out \<noteq> [] \<longrightarrow> 0 \<le> off \<and> nat off + length out \<le> length (content f)"
    and "length out \<le> sz"
  shows "length bs = sz \<and> bs = bytes_at (nat off) sz (content f) \<and>
    (0 < sz \<longrightarrow> 0 \<le> off \<and> nat off + sz \<le> length (content f))"
  using assms
proof (induction sz off out f arbitrary: bs f' rule: read_fd_loop.induct)
  case (1 sz off out f)
  show ?case
  proof (cases "length out < sz")
    case False
    with "1.prems" have "bs = out" and "length out = sz" by (simp_all add: read_fd_loop.simps)
    with "1.prems" show ?thesis by auto
  next
    case True
    obtain q g where q: "pread (sz - length out) (off + int (length out)) f = (q, g)"
      by (cases "pread (sz - length out) (off + int (length out)) f")
    note c = pread_content [OF q]
    show ?thesis
    proof (cases q)
      case (Inl e)
      with "1.prems"(1) True q have "e = EINTR" and "read_fd_loop sz off out g = (Inr bs, f')"
        by (auto simp: read_fd_loop.simps [of sz off out f] split: if_splits)
      with "1.IH"(1) [OF True q [symmetric]] Inl c "1.prems" show ?thesis by simp
    next
      case (Inr cs)
      with "1.prems"(1) True q have ne: "cs \<noteq> []"
        and rec: "read_fd_loop sz off (out @ cs) g = (Inr bs, f')"
        by (auto simp: read_fd_loop.simps [of sz off out f] split: if_splits)
      from pread_Inr [of "sz - length out" "off + int (length out)" f cs g] q Inr obtain k
        where k: "k \<le> sz - length out" "cs = bytes_at (nat (off + int (length out))) k (content f)"
          "0 \<le> off + int (length out)" by auto
      have off: "0 \<le> off"
        using "1.prems"(3) k(3) by (cases "out = []") auto
      then have pos: "nat (off + int (length out)) = nat off + length out" by simp
      have lk: "length cs \<le> k" using k(2) length_bytes_at_le by metis
      have cs: "cs = bytes_at (nat off + length out) (length cs) (content f)"
        using k(2) bytes_at_clip unfolding pos by metis
      have bound: "nat off + length out + length cs \<le> length (content f)"
        using bytes_at_nonempty_bound [of "nat off + length out" k "content f"] k(2) ne pos by simp
      have "out @ cs = bytes_at (nat off) (length out) (content f) @ bytes_at (nat off + length out) (length cs) (content f)"
        using cs "1.prems"(2) by simp
      also have "\<dots> = bytes_at (nat off) (length (out @ cs)) (content f)"
        using bytes_at_append_bytes_at [OF bound] by simp
      finally show ?thesis
        using "1.IH"(2) [OF True q [symmetric] Inr ne rec] c off bound lk k(1) True by simp
    qed
  qed
qed

text \<open>A successful exact read returned the bytes of the range, and the range is inside the file.\<close>

lemma read_exact_fd_Inr:
  assumes "nextufs__read_exact_fd n off f = (Inr bs, f')"
  shows "length bs = n \<and> bs = bytes_at (nat off) n (content f) \<and> content f' = content f \<and>
    (0 < n \<longrightarrow> 0 \<le> off \<and> nat off + n \<le> length (content f))"
proof -
  from assms have "read_fd_loop n off [] f = (Inr bs, f')" by (simp add: nextufs__read_exact_fd_def)
  from read_fd_loop_Inr [OF this] read_fd_loop_content [OF this] show ?thesis
    by (auto simp: bytes_at_def)
qed

lemma read_exact_fd_content: "nextufs__read_exact_fd n off f = (r, f') \<Longrightarrow> content f' = content f"
  by (simp add: nextufs__read_exact_fd_def read_fd_loop_content)

text \<open>
  An environment is benign when every system call transfers something or is interrupted: then the
  exact read of a range inside the file succeeds, however the transfer was cut up.
\<close>

fun benign :: "sysres list \<Rightarrow> bool" where
  "benign [] = True"
| "benign (Xfer k # rest) = (0 < k \<and> benign rest)"
| "benign (Fails e # rest) = (e = EINTR \<and> benign rest)"

lemma pread_benign:
  assumes "benign (script f)" and "0 \<le> off" and "0 < n" and "nat off < length (content f)"
  shows "case pread n off f of (Inl e, f') \<Rightarrow> e = EINTR \<and> benign (script f')
    | (Inr bs, f') \<Rightarrow> bs \<noteq> [] \<and> length bs \<le> n \<and> benign (script f')"
proof (cases "script f")
  case Nil
  with assms show ?thesis by (simp add: pread_def bytes_at_def)
next
  case (Cons r rest)
  with assms show ?thesis by (cases r) (auto simp: pread_def bytes_at_def)
qed

lemma read_fd_loop_benign:
  "benign (script f) \<Longrightarrow> 0 \<le> off \<Longrightarrow> nat off + sz \<le> length (content f) \<Longrightarrow>
   \<exists>bs f'. read_fd_loop sz off out f = (Inr bs, f')"
proof (induction sz off out f rule: read_fd_loop.induct)
  case (1 sz off out f)
  show ?case
  proof (cases "length out < sz")
    case False
    then show ?thesis by (simp add: read_fd_loop.simps)
  next
    case True
    obtain q g where q: "pread (sz - length out) (off + int (length out)) f = (q, g)"
      by (cases "pread (sz - length out) (off + int (length out)) f")
    note c = pread_content [OF q]
    have "0 \<le> off + int (length out)" and "0 < sz - length out"
      and "nat (off + int (length out)) < length (content f)"
      using "1.prems" True by (simp_all add: nat_add_distrib)
    note b = pread_benign [OF "1.prems"(1) this, unfolded q]
    show ?thesis
    proof (cases q)
      case (Inl e)
      with b have e: "e = EINTR" and g: "benign (script g)" by simp_all
      show ?thesis
        using "1.IH"(1) [OF True q [symmetric] Inl e g] "1.prems" True q Inl e c
        by (simp add: read_fd_loop.simps [of sz off out f])
    next
      case (Inr bs)
      with b have ne: "bs \<noteq> []" and g: "benign (script g)" by simp_all
      show ?thesis
        using "1.IH"(2) [OF True q [symmetric] Inr ne g] "1.prems" True q Inr ne c
        by (simp add: read_fd_loop.simps [of sz off out f])
    qed
  qed
qed

text \<open>
  A write that fails has still replaced a prefix of the range; a write that succeeds has replaced
  all of it.
\<close>

lemma length_file_put: "length (file_put off bs xs) =
    (if bs = [] then length xs else max (length xs) (off + length bs))"
  by (auto simp: file_put_def overlay_def)

lemma file_put_inside: "off + length bs \<le> length xs \<Longrightarrow> file_put off bs xs = overlay off bs xs"
  by (auto simp: file_put_def)

lemma overlay_append:
  "overlay (off + length as) bs (overlay off as xs) = overlay off (as @ bs) xs"
  if "off \<le> length xs"
  using that by (auto simp: overlay_def min_def add.assoc add.commute [of "length bs"])

lemma overlay_extend:
  assumes "as \<noteq> []"
  shows "file_put (off + length as) bs (file_put off as xs) = file_put off (as @ bs) xs"
proof (cases "bs = []")
  case False
  let ?ys = "xs @ replicate (off - length xs) 0"
  have len: "off \<le> length ?ys" by simp
  have "file_put off as xs = overlay off as ?ys" using assms by (simp add: file_put_def)
  moreover have "off + length as \<le> length (overlay off as ?ys)"
    using len by (simp add: overlay_def)
  ultimately have "file_put (off + length as) bs (file_put off as xs) =
      overlay (off + length as) bs (overlay off as ?ys)"
    using False by (simp add: file_put_def)
  also have "\<dots> = overlay off (as @ bs) ?ys" by (rule overlay_append [OF len])
  finally show ?thesis using False by (simp add: file_put_def)
qed (simp add: file_put_def)

lemma write_fd_loop_effect:
  assumes "write_fd_loop buf off d f = (r, f')"
    and "d \<le> length buf" and "content f = file_put (nat off) (take d buf) c0"
    and "0 < d \<longrightarrow> 0 \<le> off"
  shows "\<exists>k \<le> length buf. content f' = file_put (nat off) (take k buf) c0 \<and>
    (r = Inr () \<longrightarrow> k = length buf) \<and> (0 < k \<longrightarrow> 0 \<le> off)"
  using assms
proof (induction buf off d f arbitrary: r f' rule: write_fd_loop.induct)
  case (1 buf off d f)
  show ?case
  proof (cases "d < length buf")
    case False
    with "1.prems" show ?thesis by (auto simp: write_fd_loop.simps)
  next
    case True
    obtain q g where q: "pwrite (drop d buf) (off + int d) f = (q, g)"
      by (cases "pwrite (drop d buf) (off + int d) f")
    show ?thesis
    proof (cases q)
      case (Inl e)
      from pwrite_Inl [of "drop d buf" "off + int d" f e g] q Inl
      have c: "content g = content f" by simp
      show ?thesis
      proof (cases "e = EINTR")
        case True
        with "1.prems"(1) \<open>d < length buf\<close> q Inl have "write_fd_loop buf off d g = (r, f')"
          by (simp add: write_fd_loop.simps [of buf off d f])
        from "1.IH"(1) [OF \<open>d < length buf\<close> q [symmetric] Inl True this] "1.prems" c
        show ?thesis by simp
      next
        case False
        with "1.prems"(1) \<open>d < length buf\<close> q Inl have "r = Inl e" and "f' = g"
          by (auto simp: write_fd_loop.simps [of buf off d f])
        with "1.prems" c show ?thesis by (intro exI [of _ d]) simp
      qed
    next
      case (Inr n)
      from pwrite_Inr [of "drop d buf" "off + int d" f n g] q Inr
      have n: "n \<le> length buf - d" "0 \<le> off + int d"
        and c: "content g = file_put (nat (off + int d)) (take n (drop d buf)) (content f)" by simp_all
      have off: "0 \<le> off" using n(2) "1.prems"(4) by (cases "d = 0") auto
      have cg: "content g = file_put (nat off) (take (d + n) buf) c0"
      proof (cases "d = 0")
        case True
        with c "1.prems"(3) show ?thesis by (simp add: file_put_def)
      next
        case False
        with True have ne: "take d buf \<noteq> []" and ld: "length (take d buf) = d" by auto
        have "nat (off + int d) = nat off + length (take d buf)" using off ld by (simp add: nat_add_distrib)
        with c "1.prems"(3) overlay_extend [OF ne, of "nat off" "take n (drop d buf)" c0]
        show ?thesis by (simp add: take_add)
      qed
      show ?thesis
      proof (cases "n = 0")
        case True
        with "1.prems"(1) \<open>d < length buf\<close> q Inr have "r = Inl EIO" and "f' = g"
          by (simp_all add: write_fd_loop.simps [of buf off d f])
        with True cg off "1.prems"(2) show ?thesis by (intro exI [of _ d]) simp
      next
        case False
        with "1.prems"(1) True q Inr have "write_fd_loop buf off (d + n) g = (r, f')"
          by (simp add: write_fd_loop.simps [of buf off d f])
        from "1.IH"(2) [OF True q [symmetric] Inr False this _ cg] n off True show ?thesis by simp
      qed
    qed
  qed
qed

lemma write_exact_fd_effect:
  assumes "nextufs__write_exact_fd buf off f = (r, f')"
  shows "\<exists>k \<le> length buf. content f' = file_put (nat off) (take k buf) (content f) \<and>
    (r = Inr () \<longrightarrow> k = length buf) \<and> (0 < k \<longrightarrow> 0 \<le> off)"
  using write_fd_loop_effect [of buf off 0 f r f' "content f"] assms
  by (simp add: nextufs__write_exact_fd_def file_put_def)

text \<open>Inside the file: success is an overlay, failure stays inside the range.\<close>

lemma write_exact_fd_inside:
  assumes "nextufs__write_exact_fd buf off f = (r, f')"
    and "nat off + length buf \<le> length (content f)"
  shows "agree_outside (nat off) (length buf) (content f') (content f) \<and>
    (r = Inr () \<longrightarrow> content f' = overlay (nat off) buf (content f))"
proof -
  from write_exact_fd_effect [OF assms(1)] obtain k where k: "k \<le> length buf"
    "content f' = file_put (nat off) (take k buf) (content f)" "r = Inr () \<longrightarrow> k = length buf" by blast
  from k(1,2) assms(2) have ov: "content f' = overlay (nat off) (take k buf) (content f)"
    by (simp add: file_put_inside)
  have "agree_outside (nat off) (length (take k buf)) (content f') (content f)"
    unfolding ov using k(1) assms(2) by (intro agree_outside_overlay) simp
  then have "agree_outside (nat off) (length buf) (content f') (content f)"
    using k(1) by (auto elim: agree_outside_mono)
  with ov k(3) show ?thesis by auto
qed

lemma pwrite_benign:
  assumes "benign (script f)" and "0 \<le> off" and "bs \<noteq> []"
  shows "case pwrite bs off f of (Inl e, f') \<Rightarrow> e = EINTR \<and> benign (script f')
    | (Inr n, f') \<Rightarrow> n \<noteq> 0 \<and> benign (script f')"
proof (cases "script f")
  case Nil
  with assms show ?thesis by (simp add: pwrite_def)
next
  case (Cons r rest)
  with assms show ?thesis by (cases r) (auto simp: pwrite_def min_def)
qed

lemma write_fd_loop_benign:
  "benign (script f) \<Longrightarrow> 0 \<le> off \<Longrightarrow> \<exists>f'. write_fd_loop buf off d f = (Inr (), f')"
proof (induction buf off d f rule: write_fd_loop.induct)
  case (1 buf off d f)
  show ?case
  proof (cases "d < length buf")
    case False
    then show ?thesis by (simp add: write_fd_loop.simps)
  next
    case True
    obtain q g where q: "pwrite (drop d buf) (off + int d) f = (q, g)"
      by (cases "pwrite (drop d buf) (off + int d) f")
    have "0 \<le> off + int d" and "drop d buf \<noteq> []" using "1.prems" True by simp_all
    note b = pwrite_benign [OF "1.prems"(1) this, unfolded q]
    show ?thesis
    proof (cases q)
      case (Inl e)
      with b have e: "e = EINTR" and g: "benign (script g)" by simp_all
      show ?thesis
        using "1.IH"(1) [OF True q [symmetric] Inl e g "1.prems"(2)] True q Inl e
        by (simp add: write_fd_loop.simps [of buf off d f])
    next
      case (Inr n)
      with b have ne: "n \<noteq> 0" and g: "benign (script g)" by simp_all
      show ?thesis
        using "1.IH"(2) [OF True q [symmetric] Inr ne g "1.prems"(2)] True q Inr ne
        by (simp add: write_fd_loop.simps [of buf off d f])
    qed
  qed
qed

section \<open>Properties\<close>

text \<open>
  C37. On any sequence of short transfers and interrupted calls, an exact write of a range
  inside the file followed by an exact read of it succeeds, returns the bytes written, and
  changes no byte outside the range.
\<close>

theorem exact_write_then_read:
  assumes "benign (script f)" and "0 \<le> off" and "nat off + length buf \<le> length (content f)"
    and "benign s'"
  shows "\<exists>f1 f2. nextufs__write_exact_fd buf off f = (Inr (), f1) \<and>
    nextufs__read_exact_fd (length buf) off (f1\<lparr>script := s'\<rparr>) = (Inr buf, f2) \<and>
    agree_outside (nat off) (length buf) (content f2) (content f)"
proof -
  from write_fd_loop_benign [OF assms(1,2)] obtain f1
    where w: "nextufs__write_exact_fd buf off f = (Inr (), f1)"
    unfolding nextufs__write_exact_fd_def by blast
  note e = write_exact_fd_inside [OF w assms(3)]
  let ?g = "f1\<lparr>script := s'\<rparr>"
  have "nat off + length buf \<le> length (content ?g)" using e assms(3) by simp
  with read_fd_loop_benign [of ?g off "length buf" "[]"] assms(2,4) obtain bs f2
    where r: "nextufs__read_exact_fd (length buf) off ?g = (Inr bs, f2)"
    unfolding nextufs__read_exact_fd_def by auto
  from read_exact_fd_Inr [OF r] e assms(3) have "bs = buf" by simp
  moreover have "agree_outside (nat off) (length buf) (content f2) (content f)"
    using read_exact_fd_content [OF r] conjunct1 [OF e] by simp
  ultimately show ?thesis using w r by blast
qed

theorem exact_write_then_read_witness:
  "\<exists>f1 f2. nextufs__write_exact_fd [1, 2] 1
      \<lparr>content = [0, 0, 0, 0], script = [Xfer 1, Fails EINTR]\<rparr> = (Inr (), f1) \<and>
    nextufs__read_exact_fd (length [1, 2 :: byte]) 1 (f1\<lparr>script := [Fails EINTR, Xfer 1]\<rparr>) = (Inr [1, 2], f2) \<and>
    agree_outside (nat 1) (length [1, 2 :: byte]) (content f2) [0, 0, 0, 0]"
  using exact_write_then_read [of "\<lparr>content = [0, 0, 0, 0], script = [Xfer 1, Fails EINTR]\<rparr>" 1 "[1, 2]"
    "[Fails EINTR, Xfer 1]"] by simp

text \<open>
  C38. An exact write that fails, at whatever point the environment stopped it, has replaced a
  prefix of the range by the new bytes and nothing else; one that succeeds has replaced it all.
\<close>

theorem exact_write_prefix:
  assumes "nextufs__write_exact_fd buf off f = (r, f')"
    and "nat off + length buf \<le> length (content f)"
  shows "\<exists>k \<le> length buf. content f' = overlay (nat off) (take k buf) (content f) \<and>
    (r = Inr () \<longrightarrow> k = length buf)"
proof -
  from write_exact_fd_effect [OF assms(1)] obtain k where k: "k \<le> length buf"
    "content f' = file_put (nat off) (take k buf) (content f)" "r = Inr () \<longrightarrow> k = length buf" by blast
  from k(1) assms(2) have "file_put (nat off) (take k buf) (content f) =
      overlay (nat off) (take k buf) (content f)"
    by (intro file_put_inside) simp
  with k show ?thesis by auto
qed

theorem exact_write_prefix_witness:
  "\<exists>k \<le> length [1, 2 :: byte]. content (snd (nextufs__write_exact_fd [1, 2] 1
      \<lparr>content = [0, 0, 0, 0], script = [Xfer 1, Fails ENOSPC]\<rparr>)) =
      overlay (nat 1) (take k [1, 2]) [0, 0, 0, 0] \<and>
    (fst (nextufs__write_exact_fd [1, 2] 1
      \<lparr>content = [0, 0, 0, 0], script = [Xfer 1, Fails ENOSPC]\<rparr>) = Inr () \<longrightarrow> k = length [1, 2 :: byte])"
  using exact_write_prefix [of "[1, 2]" 1 "\<lparr>content = [0, 0, 0, 0], script = [Xfer 1, Fails ENOSPC]\<rparr>",
    OF prod.collapse [symmetric]] by simp

end
