(* ===== verification/Image.thy ===== *)
theory Image
  imports Posix_File
begin

text \<open>
  The open image: the structures of \<^verbatim>\<open>include/nextufs_image.h\<close>, the backend vtable of
  \<^verbatim>\<open>include/nextufs_internal.h\<close>, the checked byte access of \<^verbatim>\<open>src/core/layout.c\<close> and the undo
  log of \<^verbatim>\<open>src/core/transaction.c\<close>. The type parameter is the type of the backend's context, the
  C \<open>void *backend_ctx\<close>. The fields after \<open>sb\<close> are the environment of the calls: whether the next
  allocations succeed, the clock, and how the undo log's temporary file behaves.
\<close>

section \<open>Data\<close>

record nextufs_superblock =
  sb_off :: nat
  cg_off :: nat
  ino_off :: nat
  data_off :: nat
  cg_delta :: nat
  cg_cyc_mask :: nat
  write_time :: nat
  frag_count :: nat
  data_frag_count :: nat
  cg_count :: nat
  block_size :: nat
  frag_size :: nat
  frags_per_block :: nat
  minfree :: nat
  rotdelay :: nat
  rps :: nat
  block_mask :: nat
  frag_mask :: nat
  block_shift :: nat
  frag_shift_calc :: nat
  maxcontig :: nat
  maxbpg :: nat
  frag_shift :: nat
  fsbtodb :: nat
  super_size :: nat
  csum_mask :: nat
  csum_shift :: nat
  nindir :: nat
  sectors_per_frag :: nat
  optim :: nat
  inodes_per_block :: nat
  cyl_summary_addr :: nat
  csum_size :: nat
  cg_size :: nat
  tracks_per_cyl :: nat
  sectors_per_track :: nat
  sectors_per_cyl :: nat
  ncyl :: nat
  cpg :: nat
  inodes_per_group :: nat
  frags_per_group :: nat
  dir_count :: nat
  free_block_count :: nat
  free_inode_count :: nat
  free_frag_count :: nat
  state :: nat
  fs_magic :: nat

datatype nextufs_source_format = NEXTUFS_SOURCE_RAW | NEXTUFS_SOURCE_VDI | NEXTUFS_SOURCE_QCOW2

text \<open>The vtable; a \<open>NULL\<close> entry is \<open>None\<close>.\<close>

record 'c nextufs_image_backend_ops =
  op_read :: "(nat \<Rightarrow> int \<Rightarrow> ('c, byte list) io) option"
  op_write :: "(byte list \<Rightarrow> int \<Rightarrow> ('c, unit) io) option"
  op_fsync :: "(('c, unit) io) option"

text \<open>
  The undo log: the temporary file's bytes, with the write position at their end, the committed
  length \<open>end\<close>, and the outcomes of the next calls on that file.
\<close>

record nextufs_transaction =
  tx_log :: "byte list"
  tx_end :: int
  tx_script :: "sysres list"

record 'c nextufs_image =
  backend_ops :: "'c nextufs_image_backend_ops option"
  backend_ctx :: 'c
  transaction :: "nextufs_transaction option"
  writable :: bool
  unprivileged :: bool
  restore_clean :: bool
  fs_write_active :: bool
  source_is_container :: bool
  source_format :: nextufs_source_format
  image_size :: int
  slice_base :: int
  slice_size :: int
  label_off :: int
  label_version :: nat
  label_secsize :: nat
  label_front :: nat
  label_name :: "byte list"
  rootpartition :: byte
  used_disk_label :: bool
  sb :: nextufs_superblock
  mallocs :: "bool list"
  clock :: nat
  tmpfile_errno :: "errno option"
  tmpfile_script :: "sysres list"

text \<open>The cast of an \<open>off_t\<close> to \<open>uint64_t\<close>.\<close>

definition of_off :: "int \<Rightarrow> nat" where
  "of_off x = nat (x mod 2 ^ 64)"

lemma of_off_id [simp]: "0 \<le> x \<Longrightarrow> x < 18446744073709551616 \<Longrightarrow> of_off x = nat x"
  by (simp add: of_off_def)

section \<open>Access to the environment and the backend\<close>

text \<open>\<open>malloc\<close> and \<open>calloc\<close>: no object can be larger than \<open>PTRDIFF_MAX\<close>.\<close>

definition malloc_io :: "nat \<Rightarrow> ('c nextufs_image, unit) io" where
  "malloc_io n img =
     (if 2 ^ 63 \<le> n then (Inl ENOMEM, img)
      else case mallocs img of
        [] \<Rightarrow> (Inr (), img)
      | ok # rest \<Rightarrow> (if ok then Inr () else Inl ENOMEM, img\<lparr>mallocs := rest\<rparr>))"

definition time_io :: "('c nextufs_image, nat) io" where
  "time_io img = (Inr (u32 (clock img)), img)"

definition ctx_io :: "('c, 'a) io \<Rightarrow> ('c nextufs_image, 'a) io" where
  "ctx_io m img = (case m (backend_ctx img) of (r, c) \<Rightarrow> (r, img\<lparr>backend_ctx := c\<rparr>))"

text \<open>The range check; after its first test the cast of \<open>off\<close> to \<open>uint64_t\<close> is the identity.\<close>

definition range_bad :: "'c nextufs_image \<Rightarrow> nat \<Rightarrow> int \<Rightarrow> bool" where
  "range_bad img n off \<longleftrightarrow> off < 0 \<or> of_off (image_size img) < nat off \<or>
     of_off (image_size img) - nat off < n"

definition nextufs__read_exact :: "nat \<Rightarrow> int \<Rightarrow> ('c nextufs_image, byte list) io" where
  "nextufs__read_exact n off = bind_io get_io (\<lambda>img.
     case backend_ops img of
       None \<Rightarrow> fail EINVAL
     | Some ops \<Rightarrow>
         if range_bad img n off then fail EINVAL
         else case op_read ops of
           None \<Rightarrow> fail EINVAL
         | Some rd \<Rightarrow> ctx_io (rd n off))"

section \<open>The undo log\<close>

definition le64_bytes :: "nat \<Rightarrow> byte list" where
  "le64_bytes v = le32_bytes (u32 v) @ le32_bytes (u32 (v div 2 ^ 32))"

text \<open>\<open>struct undo_record\<close>, an \<open>off_t\<close> and a \<open>size_t\<close>, as a 64-bit little-endian host stores it.\<close>

definition undo_record :: "int \<Rightarrow> nat \<Rightarrow> byte list" where
  "undo_record off n = le64_bytes (of_off off) @ le64_bytes n"

definition undo_record_size :: nat where
  "undo_record_size = 16"

text \<open>\<open>fwrite\<close> appends and returns how many bytes it accepted; \<open>fread\<close> at a position may be short.\<close>

definition log_fwrite :: "byte list \<Rightarrow> nextufs_transaction \<Rightarrow> nat \<times> nextufs_transaction" where
  "log_fwrite bs tx =
     (case tx_script tx of
        [] \<Rightarrow> (length bs, tx\<lparr>tx_log := tx_log tx @ bs\<rparr>)
      | Xfer k # rest \<Rightarrow>
          (min k (length bs), tx\<lparr>tx_log := tx_log tx @ take k bs, tx_script := rest\<rparr>)
      | Fails e # rest \<Rightarrow> (0, tx\<lparr>tx_script := rest\<rparr>))"

definition log_fread :: "int \<Rightarrow> nat \<Rightarrow> nextufs_transaction \<Rightarrow> byte list option \<times> nextufs_transaction" where
  "log_fread pos n tx =
     (if pos < 0 then (None, tx)
      else case tx_script tx of
        [] \<Rightarrow> (Some (bytes_at (nat pos) n (tx_log tx)), tx)
      | Xfer k # rest \<Rightarrow> (Some (bytes_at (nat pos) (min k n) (tx_log tx)), tx\<lparr>tx_script := rest\<rparr>)
      | Fails e # rest \<Rightarrow> (None, tx\<lparr>tx_script := rest\<rparr>))"

definition nextufs__transaction_begin :: "('c nextufs_image, unit) io" where
  "nextufs__transaction_begin =
     bind_io (malloc_io 16) (\<lambda>_.
     bind_io get_io (\<lambda>img.
     case tmpfile_errno img of
       Some e \<Rightarrow> fail e
     | None \<Rightarrow> modify_io (\<lambda>img. img\<lparr>transaction :=
         Some \<lparr>tx_log = [], tx_end = 0, tx_script = tmpfile_script img\<rparr>\<rparr>)))"

text \<open>Both \<open>fwrite\<close> calls, the second only after the first was complete; \<open>end\<close> moves only then.\<close>

definition log_append :: "byte list \<Rightarrow> int \<Rightarrow> nextufs_transaction \<Rightarrow> (errno + unit) \<times> nextufs_transaction" where
  "log_append buf off tx =
     (case log_fwrite buf tx of (n, tx1) \<Rightarrow>
        if n \<noteq> length buf then (Inl EIO, tx1)
        else case log_fwrite (undo_record off (length buf)) tx1 of (m, tx2) \<Rightarrow>
          if m \<noteq> undo_record_size then (Inl EIO, tx2)
          else (Inr (), tx2\<lparr>tx_end := int (length (tx_log tx2))\<rparr>))"

definition nextufs__transaction_record :: "nat \<Rightarrow> int \<Rightarrow> ('c nextufs_image, unit) io" where
  "nextufs__transaction_record n off = bind_io get_io (\<lambda>img.
     if transaction img = None \<or> n = 0 then ret ()
     else bind_io (malloc_io n) (\<lambda>_.
       bind_io (nextufs__read_exact n off) (\<lambda>buf img.
         case transaction img of
           None \<Rightarrow> (Inr (), img)
         | Some tx \<Rightarrow> (case log_append buf off tx of (r, tx') \<Rightarrow>
             (r, img\<lparr>transaction := Some tx'\<rparr>)))))"

definition nextufs__write_exact :: "byte list \<Rightarrow> int \<Rightarrow> ('c nextufs_image, unit) io" where
  "nextufs__write_exact buf off = bind_io get_io (\<lambda>img.
     case backend_ops img of
       None \<Rightarrow> fail EINVAL
     | Some ops \<Rightarrow>
         if \<not> writable img then fail EROFS
         else if range_bad img (length buf) off then fail EINVAL
         else case op_write ops of
           None \<Rightarrow> fail EROFS
         | Some wr \<Rightarrow>
             bind_io (nextufs__transaction_record (length buf) off) (\<lambda>_.
             ctx_io (wr buf off)))"

definition nextufs__image_fsync :: "('c nextufs_image, unit) io" where
  "nextufs__image_fsync = bind_io get_io (\<lambda>img.
     case backend_ops img of
       None \<Rightarrow> fail EINVAL
     | Some ops \<Rightarrow>
         if \<not> writable img then ret ()
         else case op_fsync ops of None \<Rightarrow> ret () | Some sy \<Rightarrow> ctx_io sy)"

lemma log_fread_end: "log_fread pos n tx = (r, tx') \<Longrightarrow> tx_end tx' = tx_end tx \<and> tx_log tx' = tx_log tx"
  by (auto simp: log_fread_def split: if_splits list.splits sysres.splits)

text \<open>
  The rollback loop. It returns whether it failed. \<open>end\<close> is an \<open>off_t\<close>; a record whose size does
  not fit the log makes the allocation or the next read fail before \<open>end\<close> is used again, so the
  subtraction is exact. A \<open>NULL\<close> write entry, which would be undefined in C, counts as a failure.
\<close>

function undo_loop :: "nextufs_transaction \<Rightarrow> ('c nextufs_image, bool) io" where
  "undo_loop tx img =
     (if tx_end tx \<le> 0 then (Inr False, img)
      else (case log_fread (tx_end tx - int undo_record_size) undo_record_size tx of
        (None, tx1) \<Rightarrow> (Inr True, img)
      | (Some rec, tx1) \<Rightarrow>
          (if length rec \<noteq> undo_record_size then (Inr True, img)
           else
            (let off = to_off (read_le64 rec 0);
                 n = read_le64 rec 8;
                 tx2 = tx1\<lparr>tx_end := tx_end tx - int (undo_record_size + n)\<rparr>
             in (case malloc_io n img of
              (Inl e, img1) \<Rightarrow> (Inr True, img1)
            | (Inr u, img1) \<Rightarrow>
                (case log_fread (tx_end tx2) n tx2 of
                   (None, tx3) \<Rightarrow> (Inr True, img1)
                 | (Some buf, tx3) \<Rightarrow>
                     (if length buf \<noteq> n then (Inr True, img1)
                      else (case backend_ops img1 of
                        None \<Rightarrow> (Inr True, img1)
                      | Some ops \<Rightarrow>
                         (case op_write ops of
                            None \<Rightarrow> (Inr True, img1)
                          | Some wr \<Rightarrow>
                              (case ctx_io (wr buf off) img1 of
                                 (Inl e, img2) \<Rightarrow> (Inr True, img2)
                               | (Inr u, img2) \<Rightarrow> undo_loop tx3 img2))))))))))"
  by pat_completeness auto

termination
  by (relation "measure (\<lambda>(tx, img). nat (tx_end tx))")
    (auto simp: undo_record_size_def dest!: log_fread_end [OF sym])

declare undo_loop.simps [simp del]

text \<open>\<open>status\<close> is the operation's result; a negative status is \<open>Inl\<close>.\<close>

definition nextufs__transaction_end :: "errno + 'a \<Rightarrow> ('c nextufs_image, 'a) io" where
  "nextufs__transaction_end status img =
     (case transaction img of
        None \<Rightarrow> (status, img)
      | Some tx \<Rightarrow>
          (let img = img\<lparr>transaction := None\<rparr> in
           case status of
             Inr x \<Rightarrow> (Inr x, img)
           | Inl e \<Rightarrow>
               (case undo_loop tx img of (r, img1) \<Rightarrow>
                (case backend_ops img1 of
                   None \<Rightarrow> (Inl EUCLEAN, img1)
                 | Some ops \<Rightarrow>
                     (case op_fsync ops of
                        None \<Rightarrow> (Inl EUCLEAN, img1)
                      | Some sy \<Rightarrow>
                          (case ctx_io sy img1 of (s, img2) \<Rightarrow>
                             (if r \<noteq> Inr False \<or> s \<noteq> Inr () then Inl EUCLEAN else Inl e,
                              img2)))))))"

definition nextufs_image_pread :: "nat \<Rightarrow> int \<Rightarrow> ('c nextufs_image, byte list) io" where
  "nextufs_image_pread n off = bind_io get_io (\<lambda>img.
     if off < 0 \<or> of_off (slice_size img) < nat off \<or> of_off (slice_size img) - nat off < n
     then fail EINVAL
     else nextufs__read_exact n (slice_base img + off))"

definition nextufs_image_pwrite :: "byte list \<Rightarrow> int \<Rightarrow> ('c nextufs_image, unit) io" where
  "nextufs_image_pwrite buf off = bind_io get_io (\<lambda>img.
     if off < 0 \<or> of_off (slice_size img) < nat off \<or>
        of_off (slice_size img) - nat off < length buf
     then fail EINVAL
     else nextufs__write_exact buf (slice_base img + off))"

end
