(* ===== verification/Undo_Log.thy ===== *)
theory Undo_Log
  imports Image
begin

text \<open>
  What a backend promises, as the interface \<open>backend\<close>: through its vtable an image is a flat
  array of bytes, the \<open>disk\<close>. Inside the interface the checked accessors get their laws and the
  undo log of \<^verbatim>\<open>src/core/transaction.c\<close> its correctness: whatever sequence of checked writes an
  operation made, and wherever it failed, \<open>nextufs__transaction_end\<close> either restores every byte
  or reports \<open>EUCLEAN\<close>.
\<close>

section \<open>The backend interface\<close>

text \<open>An open image over a backend: the recorded size is that of the disk.\<close>

definition image_on ::
  "'c nextufs_image_backend_ops \<Rightarrow> ('c \<Rightarrow> byte list) \<Rightarrow> ('c \<Rightarrow> bool) \<Rightarrow> 'c nextufs_image \<Rightarrow> bool" where
  "image_on ops disk binv img \<longleftrightarrow> backend_ops img = Some ops \<and> binv (backend_ctx img) \<and>
     image_size img = int (length (disk (backend_ctx img))) \<and>
     length (disk (backend_ctx img)) < 2 ^ 63"

locale backend =
  fixes ops :: "'c nextufs_image_backend_ops"
    and rd :: "nat \<Rightarrow> int \<Rightarrow> ('c, byte list) io"
    and wr :: "byte list \<Rightarrow> int \<Rightarrow> ('c, unit) io"
    and sy :: "('c, unit) io"
    and disk :: "'c \<Rightarrow> byte list"
    and binv :: "'c \<Rightarrow> bool"
  assumes vtable: "ops = \<lparr>op_read = Some rd, op_write = Some wr, op_fsync = Some sy\<rparr>"
    and read_law: "binv c \<Longrightarrow> 0 \<le> off \<Longrightarrow> nat off + n \<le> length (disk c) \<Longrightarrow> rd n off c = (rr, c') \<Longrightarrow>
      binv c' \<and> disk c' = disk c \<and> (\<forall>bs. rr = Inr bs \<longrightarrow> bs = bytes_at (nat off) n (disk c))"
    and write_law: "binv c \<Longrightarrow> 0 \<le> off \<Longrightarrow> nat off + length bs \<le> length (disk c) \<Longrightarrow>
      wr bs off c = (r, c') \<Longrightarrow> binv c' \<and> agree_outside (nat off) (length bs) (disk c') (disk c) \<and>
      (r = Inr () \<longrightarrow> disk c' = overlay (nat off) bs (disk c))"
    and sync_law: "binv c \<Longrightarrow> sy c = (r, c') \<Longrightarrow> binv c' \<and> disk c' = disk c"

section \<open>The log as a list of records\<close>

type_synonym undo_entry = "int \<times> byte list"

fun entry_bytes :: "undo_entry \<Rightarrow> byte list" where
  "entry_bytes (off, b) = b @ undo_record off (length b)"

definition log_of :: "undo_entry list \<Rightarrow> byte list" where
  "log_of recs = concat (map entry_bytes recs)"

text \<open>Undoing applies the last entry first.\<close>

definition undo_all :: "undo_entry list \<Rightarrow> byte list \<Rightarrow> byte list" where
  "undo_all recs d = foldr (\<lambda>(off, b). overlay (nat off) b) recs d"

fun entry_ok :: "nat \<Rightarrow> undo_entry \<Rightarrow> bool" where
  "entry_ok L (off, b) = (0 \<le> off \<and> nat off + length b \<le> L)"

lemma log_of_snoc: "log_of (recs @ [(off, b)]) = log_of recs @ b @ undo_record off (length b)"
  by (simp add: log_of_def)

lemma undo_all_snoc: "undo_all (recs @ [(off, b)]) d = undo_all recs (overlay (nat off) b d)"
  by (simp add: undo_all_def)

lemma length_undo_all: "list_all (entry_ok (length d)) recs \<Longrightarrow> length (undo_all recs d) = length d"
  by (induction recs) (auto simp: undo_all_def)

lemma length_le64_bytes [simp]: "length (le64_bytes v) = 8"
  by (simp add: le64_bytes_def)

lemma length_undo_record [simp]: "length (undo_record off n) = 16"
  by (simp add: undo_record_def)

lemma read_le32_append: "p + 4 \<le> length a \<Longrightarrow> read_le32 (a @ b) p = read_le32 a p"
  by (simp add: read_le32_eq nth_append)

lemma read_le32_append2: "length a \<le> p \<Longrightarrow> read_le32 (a @ b) p = read_le32 b (p - length a)"
  by (simp add: read_le32_eq nth_append Suc_diff_le)

lemma read_le32_bytes0 [simp]: "read_le32 (le32_bytes v) 0 = u32 v"
  using read_le32_bytes [of 0 "le32_bytes v" v] by (simp add: overlay_def)

lemma read_le64_bytes [simp]: "v < 18446744073709551616 \<Longrightarrow> read_le64 (le64_bytes v) 0 = v"
proof -
  assume v: "v < 18446744073709551616"
  then have "v div 4294967296 < 4294967296" by (simp add: less_mult_imp_div_less)
  then show ?thesis
    by (simp add: read_le64_eq le64_bytes_def read_le32_append read_le32_append2 u32_def)
qed

lemma read_le64_append: "p + 8 \<le> length a \<Longrightarrow> read_le64 (a @ b) p = read_le64 a p"
  by (simp add: read_le64_eq read_le32_append)

lemma read_le64_append2: "length a \<le> p \<Longrightarrow> read_le64 (a @ b) p = read_le64 b (p - length a)"
  by (simp add: read_le64_eq read_le32_append2)

lemma undo_record_fields:
  assumes "0 \<le> off" and "off < 9223372036854775808" and "n < 9223372036854775808"
  shows "to_off (read_le64 (undo_record off n) 0) = off \<and> read_le64 (undo_record off n) 8 = n"
  using assms by (simp add: undo_record_def read_le64_append read_le64_append2 to_off_id)

section \<open>The laws of the accessors, and the rollback\<close>

text \<open>
  During an operation: the log holds the entries of all writes made so far, and undoing them from
  the present disk gives the disk \<open>D\<close> the operation started from. The log's file takes every byte.
\<close>

definition log_inv ::
  "'c nextufs_image_backend_ops \<Rightarrow> ('c \<Rightarrow> byte list) \<Rightarrow> ('c \<Rightarrow> bool) \<Rightarrow> byte list \<Rightarrow> 'c nextufs_image \<Rightarrow> bool" where
  "log_inv ops disk binv D img \<longleftrightarrow> image_on ops disk binv img \<and>
     length D = length (disk (backend_ctx img)) \<and>
     (\<exists>tx recs. transaction img = Some tx \<and> tx_script tx = [] \<and> tx_log tx = log_of recs \<and>
        tx_end tx = int (length (log_of recs)) \<and> list_all (entry_ok (length D)) recs \<and>
        undo_all recs (disk (backend_ctx img)) = D)"

lemma log_fread_full:
  assumes "log_fread pos n tx = (Some b, tx')" and "length b = n"
  shows "b = bytes_at (nat pos) n (tx_log tx) \<and> tx_log tx' = tx_log tx \<and> tx_end tx' = tx_end tx"
proof (cases "tx_script tx")
  case Nil
  with assms show ?thesis by (auto simp: log_fread_def split: if_splits)
next
  case (Cons r rest)
  with assms show ?thesis
    by (cases r) (auto simp: log_fread_def bytes_at_def min_def split: if_splits)
qed

lemma malloc_frame: "malloc_io n img = (r, img') \<Longrightarrow> \<exists>ms. img' = img\<lparr>mallocs := ms\<rparr>"
  by (cases "mallocs img") (auto simp: malloc_io_def split: if_splits intro: exI [of _ "mallocs img"])

lemma image_on_mallocs [simp]: "image_on ops disk binv (img\<lparr>mallocs := ms\<rparr>) = image_on ops disk binv img"
  by (simp add: image_on_def)

lemma image_on_transaction [simp]:
  "image_on ops disk binv (img\<lparr>transaction := t\<rparr>) = image_on ops disk binv img"
  by (simp add: image_on_def)

text \<open>Everything but the backend's context, the log and the allocator: no checked access changes it.\<close>

definition static :: "'c nextufs_image \<Rightarrow> 'c nextufs_image" where
  "static img = img\<lparr>backend_ctx := undefined, transaction := None, mallocs := []\<rparr>"

lemma static_update [simp]:
  "static (img\<lparr>backend_ctx := c\<rparr>) = static img"
  "static (img\<lparr>transaction := t\<rparr>) = static img"
  "static (img\<lparr>mallocs := ms\<rparr>) = static img"
  by (simp_all add: static_def)

lemma staticD:
  assumes "static a = static b"
  shows "sb a = sb b" and "backend_ops a = backend_ops b" and "slice_base a = slice_base b"
    and "image_size a = image_size b" and "writable a = writable b" and "clock a = clock b"
    and "unprivileged a = unprivileged b" and "slice_size a = slice_size b"
    and "restore_clean a = restore_clean b"
  using arg_cong [OF assms, of sb] arg_cong [OF assms, of backend_ops]
    arg_cong [OF assms, of slice_base] arg_cong [OF assms, of image_size]
    arg_cong [OF assms, of writable] arg_cong [OF assms, of clock]
    arg_cong [OF assms, of unprivileged] arg_cong [OF assms, of slice_size]
    arg_cong [OF assms, of restore_clean]
  by (simp_all add: static_def)

context backend
begin

lemma image_onD:
  assumes "image_on ops disk binv img"
  shows "backend_ops img = Some ops" and "binv (backend_ctx img)"
    and "of_off (image_size img) = length (disk (backend_ctx img))"
    and "\<And>n off. \<not> range_bad img n off \<longleftrightarrow> 0 \<le> off \<and> nat off + n \<le> length (disk (backend_ctx img))"
proof -
  show "backend_ops img = Some ops" and "binv (backend_ctx img)"
    using assms by (simp_all add: image_on_def)
  show sz: "of_off (image_size img) = length (disk (backend_ctx img))"
    using assms by (simp add: image_on_def)
  fix n off
  show "\<not> range_bad img n off \<longleftrightarrow> 0 \<le> off \<and> nat off + n \<le> length (disk (backend_ctx img))"
    unfolding range_bad_def sz by auto
qed

lemma read_exact_effect:
  assumes "image_on ops disk binv img" and "nextufs__read_exact n off img = (r, img')"
  shows "image_on ops disk binv img' \<and> disk (backend_ctx img') = disk (backend_ctx img) \<and>
    static img' = static img \<and> transaction img' = transaction img \<and>
    (\<forall>bs. r = Inr bs \<longrightarrow> bs = bytes_at (nat off) n (disk (backend_ctx img)) \<and> 0 \<le> off \<and>
       nat off + n \<le> length (disk (backend_ctx img)))"
proof (cases "range_bad img n off")
  case True
  with assms image_onD(1) [OF assms(1)] show ?thesis
    by (auto simp: nextufs__read_exact_def io_defs)
next
  case False
  with image_onD(4) [OF assms(1)] have rng: "0 \<le> off" "nat off + n \<le> length (disk (backend_ctx img))"
    by blast+
  obtain c where c: "rd n off (backend_ctx img) = (r, c)" and img': "img' = img\<lparr>backend_ctx := c\<rparr>"
    using assms image_onD(1) [OF assms(1)] False
    by (auto simp: nextufs__read_exact_def io_defs ctx_io_def vtable split: prod.splits)
  from read_law [OF image_onD(2) [OF assms(1)] rng c] assms(1) img' rng show ?thesis
    by (auto simp: image_on_def)
qed

lemma ctx_write_effect:
  assumes "image_on ops disk binv img" and "ctx_io (wr buf off) img = (r, img')"
    and "0 \<le> off" and "nat off + length buf \<le> length (disk (backend_ctx img))"
  shows "image_on ops disk binv img' \<and> static img' = static img \<and> transaction img' = transaction img \<and>
    agree_outside (nat off) (length buf) (disk (backend_ctx img')) (disk (backend_ctx img)) \<and>
    (r = Inr () \<longrightarrow> disk (backend_ctx img') = overlay (nat off) buf (disk (backend_ctx img)))"
proof -
  obtain c where c: "wr buf off (backend_ctx img) = (r, c)" and img': "img' = img\<lparr>backend_ctx := c\<rparr>"
    using assms(2) by (auto simp: ctx_io_def split: prod.splits)
  from write_law [OF image_onD(2) [OF assms(1)] assms(3,4) c] img' assms(1) show ?thesis
    by (auto simp: image_on_def dest: agree_outside_length)
qed

text \<open>The writes of a rollback, one per entry.\<close>

lemma undo_loop_effect:
  assumes "undo_loop tx img = (z, img')"
    and "image_on ops disk binv img" and "list_all (entry_ok (length (disk (backend_ctx img)))) recs"
    and "tx_log tx = log_of recs @ rest" and "tx_end tx = int (length (log_of recs))"
  shows "image_on ops disk binv img' \<and> length (disk (backend_ctx img')) = length (disk (backend_ctx img)) \<and>
    static img' = static img \<and> transaction img' = transaction img \<and>
    (z = Inr False \<longrightarrow> disk (backend_ctx img') = undo_all recs (disk (backend_ctx img)))"
  using assms
proof (induction recs arbitrary: tx img rest rule: rev_induct)
  case Nil
  then show ?case
    by (auto simp: undo_loop.simps [of tx img] log_of_def undo_all_def)
next
  case (snoc e recs)
  obtain off b where e: "e = (off, b)" by (cases e)
  let ?L = "length (disk (backend_ctx img))"
  from snoc.prems(3) e have ok: "0 \<le> off" "nat off + length b \<le> ?L" by simp_all
  have small: "off < 9223372036854775808" "length b < 9223372036854775808"
    using ok snoc.prems(2) by (auto simp: image_on_def)
  note fields = undo_record_fields [OF ok(1) small]
  have log: "tx_log tx = log_of recs @ b @ undo_record off (length b) @ rest"
    and en: "tx_end tx = int (length (log_of recs) + length b + 16)"
    using snoc.prems(4,5) e by (simp_all add: log_of_snoc)
  have pos: "0 < tx_end tx" using en by simp
  have at_rec: "bytes_at (nat (tx_end tx - 16)) 16 (tx_log tx) = undo_record off (length b)"
    using log en by (simp add: bytes_at_def nat_diff_distrib nat_add_distrib)
  have at_buf: "bytes_at (length (log_of recs)) (length b) (tx_log tx) = b"
    using log by (simp add: bytes_at_def)
  obtain q tx1 where f1: "log_fread (tx_end tx - int undo_record_size) undo_record_size tx = (q, tx1)"
    by (cases "log_fread (tx_end tx - int undo_record_size) undo_record_size tx")
  show ?case
  proof (cases "\<exists>rc. q = Some rc \<and> length rc = undo_record_size")
    case False
    then have "z = Inr True \<and> img' = img"
      using snoc.prems(1) pos f1 by (auto simp: undo_loop.simps [of tx img] split: option.splits if_splits)
    then show ?thesis using snoc.prems(2) by simp
  next
    case True
    then obtain rc where rc: "q = Some rc" "length rc = undo_record_size" by blast
    from log_fread_full [OF f1 [unfolded rc(1)] rc(2)] at_rec
    have rcb: "rc = undo_record off (length b)" and tx1: "tx_log tx1 = tx_log tx" "tx_end tx1 = tx_end tx"
      by (simp_all add: undo_record_size_def)
    define tx2 where "tx2 = tx1\<lparr>tx_end := tx_end tx - (int undo_record_size + int (length b))\<rparr>"
    have en2: "tx_end tx2 = int (length (log_of recs))"
      by (simp add: tx2_def en undo_record_size_def)
    obtain mr img1 where m: "malloc_io (length b) img = (mr, img1)"
      by (cases "malloc_io (length b) img")
    obtain q2 tx3 where f2: "log_fread (tx_end tx2) (length b) tx2 = (q2, tx3)"
      by (cases "log_fread (tx_end tx2) (length b) tx2")
    from malloc_frame [OF m] snoc.prems(2) have on1: "image_on ops disk binv img1"
      and c1: "backend_ctx img1 = backend_ctx img" and s1: "static img1 = static img"
      and t1: "transaction img1 = transaction img" by auto
    have step0: "(case mr of Inl e \<Rightarrow> (Inr True, img1) | Inr u \<Rightarrow>
        (case q2 of None \<Rightarrow> (Inr True, img1) | Some buf \<Rightarrow>
          (if length buf \<noteq> length b then (Inr True, img1)
           else (case backend_ops img1 of None \<Rightarrow> (Inr True, img1) | Some ops \<Rightarrow>
             (case op_write ops of None \<Rightarrow> (Inr True, img1) | Some wr \<Rightarrow>
               (case ctx_io (wr buf off) img1 of (Inl e, img2) \<Rightarrow> (Inr True, img2)
                | (Inr u, img2) \<Rightarrow> undo_loop tx3 img2)))))) = (z, img')"
      using snoc.prems(1) pos f1 rc rcb fields m f2
      by (cases mr) (simp_all add: undo_loop.simps [of tx img] Let_def tx2_def [symmetric])
    have opw: "op_write ops = Some wr" by (simp add: vtable)
    have step: "(case mr of Inl e \<Rightarrow> (Inr True, img1) | Inr u \<Rightarrow>
        (case q2 of None \<Rightarrow> (Inr True, img1) | Some buf \<Rightarrow>
          (if length buf \<noteq> length b then (Inr True, img1)
           else (case ctx_io (wr buf off) img1 of (Inl e, img2) \<Rightarrow> (Inr True, img2)
                | (Inr u, img2) \<Rightarrow> undo_loop tx3 img2)))) = (z, img')"
      using step0 unfolding image_onD(1) [OF on1] option.case opw .
    show ?thesis
    proof (cases "(\<exists>u. mr = Inr u) \<and> (\<exists>buf. q2 = Some buf \<and> length buf = length b)")
      case False
      then have "z = Inr True \<and> img' = img1" using step by (auto split: sum.splits option.splits if_splits)
      then show ?thesis using on1 c1 s1 t1 by simp
    next
      case True
      then obtain u buf where mr: "mr = Inr u" and q2: "q2 = Some buf" "length buf = length b" by blast
      from log_fread_full [OF f2 [unfolded q2(1)] q2(2)] en2 at_buf tx1
      have buf: "buf = b" and tx3: "tx_log tx3 = tx_log tx" "tx_end tx3 = tx_end tx2"
        by (simp_all add: tx2_def)
      obtain w img2 where w: "ctx_io (wr b off) img1 = (w, img2)" by (cases "ctx_io (wr b off) img1")
      from ctx_write_effect [OF on1 w ok(1)] ok(2) c1 s1 t1
      have on2: "image_on ops disk binv img2" and s2: "static img2 = static img"
        and t2: "transaction img2 = transaction img"
        and ag: "agree_outside (nat off) (length b) (disk (backend_ctx img2)) (disk (backend_ctx img))"
        and d2: "w = Inr () \<Longrightarrow> disk (backend_ctx img2) = overlay (nat off) b (disk (backend_ctx img))"
        by auto
      note l2 = agree_outside_length [OF ag]
      show ?thesis
      proof (cases w)
        case (Inl e)
        then have "z = Inr True \<and> img' = img2" using step mr q2 buf w by simp
        then show ?thesis using on2 s2 t2 l2 by simp
      next
        case (Inr u)
        with step mr q2 buf w have rec: "undo_loop tx3 img2 = (z, img')" by simp
        have "list_all (entry_ok (length (disk (backend_ctx img2)))) recs"
          using snoc.prems(3) e l2 by simp
        note IH = snoc.IH [OF rec on2 this, of "b @ undo_record off (length b) @ rest"]
        show ?thesis using IH log tx3 en2 d2 Inr e s2 t2 l2 by (simp add: undo_all_snoc)
      qed
    qed
  qed
qed

text \<open>Whatever the end of a transaction reports, the image stays open and keeps its size.\<close>

lemma transaction_end_on:
  assumes "log_inv ops disk binv D img" and "nextufs__transaction_end rc img = (r, img')"
  shows "image_on ops disk binv img' \<and> length (disk (backend_ctx img')) = length D \<and> static img' = static img"
proof -
  from assms(1) obtain tx recs where on: "image_on ops disk binv img"
    and tx: "transaction img = Some tx" "tx_log tx = log_of recs" "tx_end tx = int (length (log_of recs))"
    and ok: "list_all (entry_ok (length D)) recs" and len: "length D = length (disk (backend_ctx img))"
    by (auto simp: log_inv_def)
  show ?thesis
  proof (cases rc)
    case (Inr x)
    then show ?thesis using assms(2) tx on len by (auto simp: nextufs__transaction_end_def)
  next
    case (Inl e)
    let ?img = "img\<lparr>transaction := None\<rparr>"
    obtain q img1 where u: "undo_loop tx ?img = (q, img1)" by (cases "undo_loop tx ?img")
    from undo_loop_effect [OF u, of recs "[]"] on ok len tx
    have i1: "image_on ops disk binv img1" "length (disk (backend_ctx img1)) = length D"
      "static img1 = static img" by auto
    obtain s c where s: "sy (backend_ctx img1) = (s, c)" by (cases "sy (backend_ctx img1)")
    from sync_law [OF image_onD(2) [OF i1(1)] s] have "binv c" "disk c = disk (backend_ctx img1)" by auto
    moreover have "img' = img1\<lparr>backend_ctx := c\<rparr>"
      using assms(2) Inl tx(1) u s image_onD(1) [OF i1(1)]
      by (simp add: nextufs__transaction_end_def vtable ctx_io_def)
    ultimately show ?thesis using i1 by (simp add: image_on_def)
  qed
qed

lemma log_inv_on: "log_inv ops disk binv D img \<Longrightarrow> image_on ops disk binv img"
  by (simp add: log_inv_def)

lemma transaction_end_restores:
  fixes r :: "errno + 'b"
  assumes "log_inv ops disk binv D img" and "nextufs__transaction_end (Inl e) img = (r, img')"
    and "r \<noteq> Inl EUCLEAN"
  shows "r = Inl e \<and> disk (backend_ctx img') = D \<and> image_on ops disk binv img' \<and> transaction img' = None"
proof -
  from assms(1) obtain tx recs where on: "image_on ops disk binv img"
    and tx: "transaction img = Some tx" "tx_log tx = log_of recs" "tx_end tx = int (length (log_of recs))"
    and ok: "list_all (entry_ok (length D)) recs" and len: "length D = length (disk (backend_ctx img))"
    and D: "undo_all recs (disk (backend_ctx img)) = D"
    by (auto simp: log_inv_def)
  let ?img = "img\<lparr>transaction := None\<rparr>"
  obtain q img1 where u: "undo_loop tx ?img = (q, img1)" by (cases "undo_loop tx ?img")
  have end_eq: "nextufs__transaction_end (Inl e :: errno + 'b) img =
      (case backend_ops img1 of None \<Rightarrow> (Inl EUCLEAN, img1) | Some ops \<Rightarrow>
        (case op_fsync ops of None \<Rightarrow> (Inl EUCLEAN, img1) | Some sy \<Rightarrow>
          (case ctx_io sy img1 of (s, img2) \<Rightarrow>
             (if q \<noteq> Inr False \<or> s \<noteq> Inr () then Inl EUCLEAN else Inl e, img2))))"
    by (simp add: nextufs__transaction_end_def tx(1) u)
  have "q = Inr False \<or> fst (nextufs__transaction_end (Inl e :: errno + 'b) img) = Inl EUCLEAN"
    unfolding end_eq by (auto split: option.splits prod.splits)
  with assms(2,3) have q: "q = Inr False" by auto
  from undo_loop_effect [OF u [unfolded q], of recs "[]"] on ok len tx
  have on1: "image_on ops disk binv img1" and d1: "disk (backend_ctx img1) = D"
    and t1: "transaction img1 = None" using D by auto
  obtain s c where sc: "sy (backend_ctx img1) = (s, c)" by (cases "sy (backend_ctx img1)")
  from sync_law [OF image_onD(2) [OF on1] sc] have c: "binv c" "disk c = disk (backend_ctx img1)" by auto
  from end_eq q assms(2,3) sc image_onD(1) [OF on1] have "r = Inl e" "img' = img1\<lparr>backend_ctx := c\<rparr>"
    by (auto simp: vtable ctx_io_def split: if_splits)
  with c d1 t1 on1 show ?thesis by (simp add: image_on_def)
qed

text \<open>A checked write during an operation adds its entry to the log before it touches the disk.\<close>

lemma log_append_clean:
  assumes "tx_script tx = []"
  shows "log_append buf off tx = (Inr (), tx\<lparr>tx_log := tx_log tx @ buf @ undo_record off (length buf),
    tx_end := int (length (tx_log tx) + length buf + 16)\<rparr>)"
  using assms by (simp add: log_append_def log_fwrite_def undo_record_size_def)

lemma transaction_record_effect:
  assumes "log_inv ops disk binv D img" and "\<not> range_bad img n off"
    and "nextufs__transaction_record n off img = (r, img')"
  shows "log_inv ops disk binv D img' \<and> disk (backend_ctx img') = disk (backend_ctx img) \<and>
    static img' = static img \<and>
    (r = Inr () \<longrightarrow> n = 0 \<or> (\<exists>tx recs. transaction img' = Some tx \<and> tx_script tx = [] \<and>
      tx_log tx = log_of (recs @ [(off, bytes_at (nat off) n (disk (backend_ctx img)))]) \<and>
      tx_end tx = int (length (tx_log tx)) \<and> list_all (entry_ok (length D)) recs \<and>
      undo_all recs (disk (backend_ctx img)) = D))"
proof -
  from assms(1) obtain tx recs where on: "image_on ops disk binv img"
    and tx: "transaction img = Some tx" "tx_script tx = []" "tx_log tx = log_of recs"
      "tx_end tx = int (length (log_of recs))"
    and ok: "list_all (entry_ok (length D)) recs" and len: "length D = length (disk (backend_ctx img))"
    and D: "undo_all recs (disk (backend_ctx img)) = D"
    by (auto simp: log_inv_def)
  from image_onD(4) [OF on] assms(2)
  have rng: "0 \<le> off" "nat off + n \<le> length (disk (backend_ctx img))" by blast+
  show ?thesis
  proof (cases "n = 0")
    case True
    with assms show ?thesis by (auto simp: nextufs__transaction_record_def io_defs)
  next
    case False
    obtain mr img1 where m: "malloc_io n img = (mr, img1)" by (cases "malloc_io n img")
    from malloc_frame [OF m] on tx(1) have on1: "image_on ops disk binv img1"
      and c1: "backend_ctx img1 = backend_ctx img" and t1: "transaction img1 = Some tx"
      and s1: "static img1 = static img" by auto
    have inv1: "log_inv ops disk binv D i"
      if "image_on ops disk binv i" "disk (backend_ctx i) = disk (backend_ctx img)"
        "transaction i = Some tx" for i
      using that tx ok len D by (auto simp: log_inv_def)
    show ?thesis
    proof (cases mr)
      case (Inl e)
      with assms(3) False tx(1) m have "r = Inl e" "img' = img1"
        by (auto simp: nextufs__transaction_record_def io_defs)
      with inv1 [OF on1 _ t1] c1 s1 show ?thesis by simp
    next
      case (Inr u)
      obtain q img2 where rd: "nextufs__read_exact n off img1 = (q, img2)"
        by (cases "nextufs__read_exact n off img1")
      from read_exact_effect [OF on1 rd] c1 t1 s1
      have on2: "image_on ops disk binv img2" and d2: "disk (backend_ctx img2) = disk (backend_ctx img)"
        and t2: "transaction img2 = Some tx" and s2: "static img2 = static img"
        and q: "\<And>bs. q = Inr bs \<Longrightarrow> bs = bytes_at (nat off) n (disk (backend_ctx img))" by auto
      show ?thesis
      proof (cases q)
        case (Inl e)
        with assms(3) False tx(1) m Inr rd have "r = Inl e" "img' = img2"
          by (auto simp: nextufs__transaction_record_def io_defs)
        with inv1 [OF on2 d2 t2] d2 s2 show ?thesis by simp
      next
        case q': (Inr bs)
        let ?recs = "recs @ [(off, bs)]"
        let ?tx = "tx\<lparr>tx_log := log_of ?recs, tx_end := int (length (log_of ?recs))\<rparr>"
        have bs: "bs = bytes_at (nat off) n (disk (backend_ctx img))" by (rule q [OF q'])
        then have lb: "length bs = n" using rng by simp
        have "log_append bs off tx = (Inr (), ?tx)"
          using log_append_clean [OF tx(2), of bs off] tx(3) by (simp add: log_of_snoc)
        with assms(3) False tx(1) m Inr rd q' t2 have r: "r = Inr ()"
          and img': "img' = img2\<lparr>transaction := Some ?tx\<rparr>"
          by (auto simp: nextufs__transaction_record_def io_defs)
        have "undo_all ?recs (disk (backend_ctx img)) = D"
          using overlay_restores [of "nat off" n "disk (backend_ctx img)" "disk (backend_ctx img)"] rng D bs
          by (simp add: undo_all_snoc)
        moreover have "list_all (entry_ok (length D)) ?recs" using ok rng len lb by simp
        ultimately have "log_inv ops disk binv D img'"
          using on2 img' len d2 tx(2)
          by (auto simp: log_inv_def intro!: exI [of _ ?recs])
        with r img' d2 s2 bs ok D tx(2) show ?thesis
          by (auto intro!: exI [of _ ?tx] exI [of _ recs])
      qed
    qed
  qed
qed

lemma write_exact_tx:
  assumes "log_inv ops disk binv D img" and "nextufs__write_exact buf off img = (r, img')"
  shows "log_inv ops disk binv D img' \<and> static img' = static img"
proof -
  from assms(1) have on: "image_on ops disk binv img" and len: "length D = length (disk (backend_ctx img))"
    by (auto simp: log_inv_def)
  show ?thesis
  proof (cases "writable img \<and> \<not> range_bad img (length buf) off")
    case False
    with assms image_onD(1) [OF on] show ?thesis
      by (auto simp: nextufs__write_exact_def io_defs split: if_splits)
  next
    case True
    then have nb: "\<not> range_bad img (length buf) off" by blast
    with image_onD(4) [OF on] have rng: "0 \<le> off" "nat off + length buf \<le> length (disk (backend_ctx img))"
      by blast+
    obtain q img1 where t: "nextufs__transaction_record (length buf) off img = (q, img1)"
      by (cases "nextufs__transaction_record (length buf) off img")
    note rec = transaction_record_effect [OF assms(1) nb t]
    show ?thesis
    proof (cases q)
      case (Inl e)
      with assms(2) True t image_onD(1) [OF on] rec show ?thesis
        by (auto simp: nextufs__write_exact_def io_defs vtable)
    next
      case (Inr u)
      with assms(2) True t image_onD(1) [OF on] have w: "ctx_io (wr buf off) img1 = (r, img')"
        by (auto simp: nextufs__write_exact_def io_defs vtable)
      from rec have inv1: "log_inv ops disk binv D img1"
        and d1: "disk (backend_ctx img1) = disk (backend_ctx img)" and s1: "static img1 = static img"
        by blast+
      from inv1 have on1: "image_on ops disk binv img1" by (simp add: log_inv_def)
      from ctx_write_effect [OF on1 w rng(1)] rng(2) d1
      have on': "image_on ops disk binv img'" and s': "static img' = static img"
        and t': "transaction img' = transaction img1"
        and ag: "agree_outside (nat off) (length buf) (disk (backend_ctx img')) (disk (backend_ctx img))"
        using s1 by auto
      note len' = agree_outside_length [OF ag]
      show ?thesis
      proof (cases "buf = []")
        case True
        with ag have "disk (backend_ctx img') = disk (backend_ctx img)" by simp
        with inv1 on' t' d1 s' len show ?thesis by (auto simp: log_inv_def)
      next
        case False
        with rec Inr obtain tx recs where tx: "transaction img1 = Some tx" "tx_script tx = []"
          "tx_log tx = log_of (recs @ [(off, bytes_at (nat off) (length buf) (disk (backend_ctx img)))])"
          "tx_end tx = int (length (tx_log tx))" "list_all (entry_ok (length D)) recs"
          "undo_all recs (disk (backend_ctx img)) = D" by auto
        let ?recs = "recs @ [(off, bytes_at (nat off) (length buf) (disk (backend_ctx img)))]"
        have "undo_all ?recs (disk (backend_ctx img')) = D"
          using overlay_restores [OF ag rng(2)] tx(6) by (simp add: undo_all_snoc)
        moreover have "list_all (entry_ok (length D)) ?recs" using tx(5) rng len by simp
        ultimately show ?thesis
          using on' t' tx len len' s' by (auto simp: log_inv_def intro!: exI [of _ ?recs])
      qed
    qed
  qed
qed

text \<open>
  Outside a transaction too, a checked write is an overlay of the disk when it succeeds and stays
  inside its range when it fails.
\<close>

lemma transaction_record_frame:
  assumes "image_on ops disk binv img" and "nextufs__transaction_record n off img = (r, img')"
  shows "image_on ops disk binv img' \<and> disk (backend_ctx img') = disk (backend_ctx img) \<and>
    static img' = static img"
proof (cases "transaction img = None \<or> n = 0")
  case True
  with assms show ?thesis by (auto simp: nextufs__transaction_record_def io_defs)
next
  case False
  obtain mr img1 where m: "malloc_io n img = (mr, img1)" by (cases "malloc_io n img")
  from malloc_frame [OF m] assms(1) have on1: "image_on ops disk binv img1"
    and c1: "backend_ctx img1 = backend_ctx img" and s1: "static img1 = static img" by auto
  obtain q img2 where rd: "nextufs__read_exact n off img1 = (q, img2)"
    by (cases "nextufs__read_exact n off img1")
  note r2 = read_exact_effect [OF on1 rd]
  from False assms(2) m rd on1 c1 s1 r2 show ?thesis
    by (cases mr; cases q)
      (auto simp: nextufs__transaction_record_def io_defs split: option.splits prod.splits)
qed

lemma write_exact_effect:
  assumes "image_on ops disk binv img" and "nextufs__write_exact buf off img = (r, img')"
  shows "image_on ops disk binv img' \<and> static img' = static img \<and>
    agree_outside (nat off) (length buf) (disk (backend_ctx img')) (disk (backend_ctx img)) \<and>
    (r = Inr () \<longrightarrow> disk (backend_ctx img') = overlay (nat off) buf (disk (backend_ctx img)) \<and>
       0 \<le> off \<and> nat off + length buf \<le> length (disk (backend_ctx img)) \<and> writable img)"
proof (cases "writable img \<and> \<not> range_bad img (length buf) off")
  case False
  with assms image_onD(1) [OF assms(1)] show ?thesis
    by (auto simp: nextufs__write_exact_def io_defs split: if_splits)
next
  case True
  with image_onD(4) [OF assms(1)]
  have rng: "0 \<le> off" "nat off + length buf \<le> length (disk (backend_ctx img))" by blast+
  obtain q img1 where t: "nextufs__transaction_record (length buf) off img = (q, img1)"
    by (cases "nextufs__transaction_record (length buf) off img")
  note rec = transaction_record_frame [OF assms(1) t]
  show ?thesis
  proof (cases q)
    case (Inl e)
    with assms(2) True t image_onD(1) [OF assms(1)] rec show ?thesis
      by (auto simp: nextufs__write_exact_def io_defs vtable)
  next
    case (Inr u)
    with assms(2) True t image_onD(1) [OF assms(1)] have w: "ctx_io (wr buf off) img1 = (r, img')"
      by (auto simp: nextufs__write_exact_def io_defs vtable)
    from rec have on1: "image_on ops disk binv img1" by blast
    from ctx_write_effect [OF on1 w rng(1)] rec rng True show ?thesis by auto
  qed
qed

end

end
