(* ===== verification/Superblock.thy ===== *)
theory Superblock
  imports Undo_Log
begin

text \<open>
  The superblock of \<^verbatim>\<open>src/core/image.c\<close>: its decoding, the geometry check that every writable
  open and every inode read goes through, the clean/dirty state byte around a mutation, and the
  address arithmetic of \<^verbatim>\<open>src/core/layout.c\<close>. The lemmas turn the accepted geometry into the
  bounds the rest of the code relies on.
\<close>

section \<open>Constants\<close>

definition UFS_FS_MAGIC :: nat where "UFS_FS_MAGIC = 0x00011954"
definition UFS_SBLOCK_OFFSET :: nat where "UFS_SBLOCK_OFFSET = 0x2000"
definition UFS_SUPER_MAGIC_OFFSET :: nat where "UFS_SUPER_MAGIC_OFFSET = 0x55c"
definition UFS_INODE_SIZE :: nat where "UFS_INODE_SIZE = 128"
definition CG_FREE_OFF :: nat where "CG_FREE_OFF = 984"

lemmas superblock_consts = UFS_FS_MAGIC_def UFS_SBLOCK_OFFSET_def UFS_SUPER_MAGIC_OFFSET_def
  UFS_INODE_SIZE_def CG_FREE_OFF_def

section \<open>Decoding\<close>

definition decode_superblock :: "byte list \<Rightarrow> nextufs_superblock" where
  "decode_superblock buf = \<lparr>
     sb_off = nextufs__read_be32 buf 0x08,
     cg_off = nextufs__read_be32 buf 0x0c,
     ino_off = nextufs__read_be32 buf 0x10,
     data_off = nextufs__read_be32 buf 0x14,
     cg_delta = nextufs__read_be32 buf 0x18,
     cg_cyc_mask = nextufs__read_be32 buf 0x1c,
     write_time = nextufs__read_be32 buf 0x20,
     frag_count = nextufs__read_be32 buf 0x24,
     data_frag_count = nextufs__read_be32 buf 0x28,
     cg_count = nextufs__read_be32 buf 0x2c,
     block_size = nextufs__read_be32 buf 0x30,
     frag_size = nextufs__read_be32 buf 0x34,
     frags_per_block = nextufs__read_be32 buf 0x38,
     minfree = nextufs__read_be32 buf 0x3c,
     rotdelay = nextufs__read_be32 buf 0x40,
     rps = nextufs__read_be32 buf 0x44,
     block_mask = nextufs__read_be32 buf 0x48,
     frag_mask = nextufs__read_be32 buf 0x4c,
     block_shift = nextufs__read_be32 buf 0x50,
     frag_shift_calc = nextufs__read_be32 buf 0x54,
     maxcontig = nextufs__read_be32 buf 0x58,
     maxbpg = nextufs__read_be32 buf 0x5c,
     frag_shift = nextufs__read_be32 buf 0x60,
     fsbtodb = nextufs__read_be32 buf 0x64,
     super_size = nextufs__read_be32 buf 0x68,
     csum_mask = nextufs__read_be32 buf 0x6c,
     csum_shift = nextufs__read_be32 buf 0x70,
     nindir = nextufs__read_be32 buf 0x74,
     sectors_per_frag = nextufs__read_be32 buf 0x7c,
     optim = nextufs__read_be32 buf 0x80,
     inodes_per_block = nextufs__read_be32 buf 0x78,
     cyl_summary_addr = nextufs__read_be32 buf 0x98,
     csum_size = nextufs__read_be32 buf 0x9c,
     cg_size = nextufs__read_be32 buf 0xa0,
     tracks_per_cyl = nextufs__read_be32 buf 0xa4,
     sectors_per_track = nextufs__read_be32 buf 0xa8,
     sectors_per_cyl = nextufs__read_be32 buf 0xac,
     ncyl = nextufs__read_be32 buf 0xb0,
     cpg = nextufs__read_be32 buf 0xb4,
     inodes_per_group = nextufs__read_be32 buf 0xb8,
     frags_per_group = nextufs__read_be32 buf 0xbc,
     dir_count = nextufs__read_be32 buf 0xc0,
     free_block_count = nextufs__read_be32 buf 0xc4,
     free_inode_count = nextufs__read_be32 buf 0xc8,
     free_frag_count = nextufs__read_be32 buf 0xcc,
     state = unat (buf ! 0xd1),
     fs_magic = nextufs__read_be32 buf UFS_SUPER_MAGIC_OFFSET\<rparr>"

section \<open>Addresses\<close>

text \<open>\<open>cg\<close> is an \<open>unsigned\<close>; the products and sums are 64-bit.\<close>

definition nextufs__cgstart :: "nextufs_superblock \<Rightarrow> nat \<Rightarrow> nat" where
  "nextufs__cgstart s cg =
     (let cgbase = u64 (frags_per_group s * cg);
          cyc_mask_bits = u32_not (cg_cyc_mask s)
      in u64 (cgbase + u64 (cg_delta s * (cg AND cyc_mask_bits))))"

definition nextufs__cg_block_offset :: "'c nextufs_image \<Rightarrow> nat \<Rightarrow> int" where
  "nextufs__cg_block_offset img cg =
     slice_base img +
     to_off (u64 (u64 (nextufs__cgstart (sb img) cg + cg_off (sb img)) * frag_size (sb img)))"

definition nextufs__inode_offset :: "'c nextufs_image \<Rightarrow> nat \<Rightarrow> int" where
  "nextufs__inode_offset img inode_no =
     (let s = sb img in
      if inodes_per_group s = 0 \<or> frags_per_group s = 0 \<or> inodes_per_block s = 0 then -1
      else
        let cg = inode_no div inodes_per_group s;
            inum_in_group = inode_no mod inodes_per_group s;
            cgbase = u64 (frags_per_group s * cg);
            cgstart = u64 (cgbase + u64 (cg_delta s * (cg AND u32_not (cg_cyc_mask s))));
            cgimin = u64 (cgstart + ino_off s);
            frag_addr = u64 (cgimin + u64 (push_bit (frag_shift s)
              (inum_in_group div inodes_per_block s)));
            inode_slot = inum_in_group mod inodes_per_block s
        in slice_base img + to_off (u64 (frag_addr * frag_size s)) +
           to_off (inode_slot * UFS_INODE_SIZE))"

section \<open>Validation\<close>

text \<open>
  The long condition of \<open>nextufs_image_validate\<close>. \<open>push_bit k 1\<close> is \<open>1U << k\<close>; every shift is
  guarded by the earlier tests, and a test that an earlier one made irrelevant cannot change the
  result.
\<close>

definition superblock_bad :: "nextufs_superblock \<Rightarrow> bool" where
  "superblock_bad s \<longleftrightarrow>
     fs_magic s \<noteq> UFS_FS_MAGIC \<or>
     32 \<le> block_shift s \<or> 32 \<le> frag_shift_calc s \<or>
     32 \<le> csum_shift s \<or>
     u32 (push_bit (block_shift s) 1) \<noteq> block_size s \<or>
     u32 (push_bit (frag_shift_calc s) 1) \<noteq> frag_size s \<or>
     block_mask s \<noteq> u32_not (u32_sub (block_size s) 1) \<or>
     frag_mask s \<noteq> u32_not (u32_sub (frag_size s) 1) \<or>
     u32 (push_bit (csum_shift s) 1) \<noteq> block_size s div 16 \<or>
     csum_mask s \<noteq> u32_not (u32_sub (block_size s div 16) 1) \<or>
     (sectors_per_frag s \<noteq> frag_size s div 1024 \<and>
      sectors_per_frag s \<noteq> frag_size s div 2048) \<or>
     cpg s * sectors_per_cyl s \<noteq> frags_per_group s * sectors_per_frag s \<or>
     ncyl s = 0 \<or> cg_count s * cpg s < ncyl s \<or>
     ncyl s \<le> u32_sub (cg_count s) 1 * cpg s \<or>
     frag_count s < data_frag_count s \<or>
     (inodes_per_block s = 0 \<or> inodes_per_group s mod inodes_per_block s \<noteq> 0) \<or>
     INT32_MAX < ncyl s * sectors_per_cyl s \<or>
     frags_per_group s < cg_delta s * u32_not (cg_cyc_mask s) + data_off s \<or>
     INT32_MAX < cg_count s * inodes_per_group s \<or>
     INT32_MAX < frag_count s * (frag_size s div 1024) \<or>
     block_size s < 4096 \<or> 8192 < block_size s \<or>
     block_size s AND u32_sub (block_size s) 1 \<noteq> 0 \<or> frag_size s < 1024 \<or>
     block_size s < frag_size s \<or>
     frag_size s AND u32_sub (frag_size s) 1 \<noteq> 0 \<or>
     frags_per_block s \<noteq> block_size s div frag_size s \<or>
     8 < frags_per_block s \<or> 3 < frag_shift s \<or>
     u32 (push_bit (frag_shift s) 1) \<noteq> frags_per_block s \<or>
     inodes_per_block s \<noteq> block_size s div UFS_INODE_SIZE \<or>
     nindir s \<noteq> block_size s div 4 \<or> inodes_per_group s = 0 \<or>
     2048 < inodes_per_group s \<or> frags_per_group s = 0 \<or>
     frag_count s = 0 \<or> cg_count s = 0 \<or>
     cg_count s \<noteq> (frag_count s + frags_per_group s - 1) div frags_per_group s \<or>
     cg_size s < CG_FREE_OFF \<or> block_size s < cg_size s \<or>
     cg_size s < CG_FREE_OFF + (frags_per_group s + 7) div 8 \<or>
     super_size s < 0x560 \<or> 8192 < super_size s \<or> cpg s = 0 \<or>
     32 < cpg s \<or> sectors_per_cyl s = 0 \<or> sectors_per_track s = 0 \<or>
     sectors_per_frag s = 0 \<or> 16 < sectors_per_frag s \<or>
     4 < fsbtodb s \<or> u32 (push_bit (fsbtodb s) 1) \<noteq> sectors_per_frag s \<or>
     csum_size s < cg_count s * 16 \<or>
     u32 (32 * block_size s) < csum_size s \<or> cg_off s < sb_off s \<or>
     ino_off s \<le> cg_off s \<or> data_off s \<le> ino_off s \<or>
     data_off s < ino_off s +
       (inodes_per_group s * UFS_INODE_SIZE + frag_size s - 1) div frag_size s"

definition nextufs_image_validate :: "'c nextufs_image \<Rightarrow> errno + unit" where
  "nextufs_image_validate img =
     (let s = sb img in
      if superblock_bad s then Inl EINVAL
      else
        let bytes = frag_count s * frag_size s;
            last = nextufs__cgstart s (u32_sub (cg_count s) 1)
        in if slice_base img < 0 \<or> slice_size img < 0 \<or>
              of_off (slice_size img) < bytes \<or>
              frag_count s < last + data_off s \<or>
              bytes < cyl_summary_addr s * frag_size s + csum_size s
           then Inl EINVAL else Inr ())"

definition nextufs__image_refresh :: "('c nextufs_image, unit) io" where
  "nextufs__image_refresh = bind_io get_io (\<lambda>img.
     bind_io (nextufs__read_exact 2048 (slice_base img + int UFS_SBLOCK_OFFSET)) (\<lambda>buf.
     bind_io (modify_io (\<lambda>img. img\<lparr>sb := decode_superblock buf\<rparr>)) (\<lambda>_.
     bind_io get_io (\<lambda>img. lift_res (nextufs_image_validate img)))))"

section \<open>The clean and dirty state byte\<close>

definition state_off :: "'c nextufs_image \<Rightarrow> int" where
  "state_off img = slice_base img + int UFS_SBLOCK_OFFSET + 0xd1"

definition nextufs__write_begin :: "('c nextufs_image, unit) io" where
  "nextufs__write_begin = bind_io get_io (\<lambda>img0.
     let original = state (sb img0);
         st = (if original = 1 then 2 else 3)
     in bind_io (modify_io (\<lambda>img. img\<lparr>restore_clean := (state (sb img) = 1)\<rparr>)) (\<lambda>_.
        bind_io (try_io (bind_io (nextufs__write_exact [word_of_nat st] (state_off img0))
                           (\<lambda>_. nextufs__image_fsync))) (\<lambda>rc.
        case rc of
          Inr _ \<Rightarrow> modify_io (\<lambda>img. img\<lparr>sb := (sb img)\<lparr>state := st\<rparr>, fs_write_active := True\<rparr>)
        | Inl e \<Rightarrow>
            bind_io (try_io (nextufs__write_exact [word_of_nat original] (state_off img0))) (\<lambda>_.
            bind_io (try_io nextufs__image_fsync) (\<lambda>_. fail e)))))"

definition nextufs__write_finish :: "bool \<Rightarrow> ('c nextufs_image, unit) io" where
  "nextufs__write_finish safe = bind_io get_io (\<lambda>img0.
     if \<not> safe \<or> \<not> restore_clean img0 then ret ()
     else bind_io nextufs__image_fsync (\<lambda>_.
       bind_io (try_io (bind_io (nextufs__write_exact [1] (state_off img0))
                          (\<lambda>_. nextufs__image_fsync))) (\<lambda>rc.
       case rc of
         Inl e \<Rightarrow>
           bind_io (try_io (nextufs__write_exact [2] (state_off img0))) (\<lambda>_.
           bind_io (try_io nextufs__image_fsync) (\<lambda>_. fail e))
       | Inr _ \<Rightarrow> modify_io (\<lambda>img. img\<lparr>sb := (sb img)\<lparr>state := 1\<rparr>, restore_clean := False\<rparr>))))"

end
