(* ===== verification/Access.thy ===== *)
theory Access
  imports Superblock
begin

text \<open>
  What the rest of the code may rely on when it goes through the checked accessors: every
  computation made of them keeps the undo log complete, so that each operation inherits the
  rollback; and over a calm environment, the contract \<open>calm_backend\<close>, reads and writes inside the
  image succeed.
\<close>

section \<open>Everything built from checked accesses can be rolled back\<close>

text \<open>
  The invariant of a running operation: the log can rebuild the disk of the start, and nothing of
  the image but its context, its log and its environment has changed. The parameter holds the disk
  and the static part of the image at the start.
\<close>

definition tx_inv ::
  "'c nextufs_image_backend_ops \<Rightarrow> ('c \<Rightarrow> byte list) \<Rightarrow> ('c \<Rightarrow> bool) \<Rightarrow>
   byte list \<times> 'c nextufs_image \<Rightarrow> 'c nextufs_image \<Rightarrow> bool" where
  "tx_inv ops disk binv D img \<longleftrightarrow> log_inv ops disk binv (fst D) img \<and> static img = snd D"

context backend
begin

lemma tx_inv_frame:
  assumes "tx_inv ops disk binv D img" and "image_on ops disk binv img'"
    and "disk (backend_ctx img') = disk (backend_ctx img)" and "transaction img' = transaction img"
    and "static img' = static img"
  shows "tx_inv ops disk binv D img'"
  using assms(1,2) unfolding tx_inv_def log_inv_def assms(3-5) by blast

lemma tx_inv_on: "tx_inv ops disk binv D img \<Longrightarrow> image_on ops disk binv img"
  by (simp add: tx_inv_def log_inv_def)

lemma read_exact_tx: "keeps (tx_inv ops disk binv D) (nextufs__read_exact n off)"
  by (rule keepsI) (blast intro: tx_inv_frame dest: tx_inv_on read_exact_effect)

lemma write_exact_keeps: "keeps (tx_inv ops disk binv D) (nextufs__write_exact buf off)"
proof (rule keepsI)
  fix img r img'
  assume t: "tx_inv ops disk binv D img" and r: "nextufs__write_exact buf off img = (r, img')"
  from t have "log_inv ops disk binv (fst D) img" by (simp add: tx_inv_def)
  from write_exact_tx [OF this r] t show "tx_inv ops disk binv D img'" by (simp add: tx_inv_def)
qed

lemma malloc_tx: "keeps (tx_inv ops disk binv D) (malloc_io n)"
proof (rule keepsI)
  fix img r img'
  assume t: "tx_inv ops disk binv D img" and r: "malloc_io n img = (r, img')"
  from malloc_frame [OF r] obtain ms where "img' = img\<lparr>mallocs := ms\<rparr>" ..
  with t tx_inv_on [OF t] show "tx_inv ops disk binv D img'" by (auto intro: tx_inv_frame)
qed

lemma time_tx: "keeps (tx_inv ops disk binv D) time_io"
  by (rule keepsI) (auto simp: time_io_def)

lemma fsync_effect:
  assumes "image_on ops disk binv img" and "nextufs__image_fsync img = (r, img')"
  shows "image_on ops disk binv img' \<and> disk (backend_ctx img') = disk (backend_ctx img) \<and>
    static img' = static img \<and> transaction img' = transaction img"
proof (cases "writable img")
  case False
  with assms image_onD(1) [OF assms(1)] show ?thesis by (auto simp: nextufs__image_fsync_def io_defs)
next
  case True
  obtain s c where s: "sy (backend_ctx img) = (s, c)" by (cases "sy (backend_ctx img)")
  from sync_law [OF image_onD(2) [OF assms(1)] s] have "binv c" "disk c = disk (backend_ctx img)" by auto
  moreover have "img' = img\<lparr>backend_ctx := c\<rparr>"
    using assms(2) True s image_onD(1) [OF assms(1)]
    by (simp add: nextufs__image_fsync_def io_defs vtable ctx_io_def)
  ultimately show ?thesis using assms(1) by (auto simp: image_on_def)
qed

lemma fsync_tx: "keeps (tx_inv ops disk binv D) nextufs__image_fsync"
  by (rule keepsI) (blast intro: tx_inv_frame dest: tx_inv_on fsync_effect)

lemma transaction_begin_tx:
  assumes "image_on ops disk binv img" and "tmpfile_script img = []"
    and "nextufs__transaction_begin img = (Inr (), img')"
  shows "tx_inv ops disk binv (disk (backend_ctx img), static img) img'"
proof -
  obtain q img1 where m: "malloc_io 16 img = (q, img1)" by (cases "malloc_io 16 img")
  from malloc_frame [OF m] obtain ms where img1: "img1 = img\<lparr>mallocs := ms\<rparr>" by blast
  from assms(2,3) m img1 have "img' = img1\<lparr>transaction := Some \<lparr>tx_log = [], tx_end = 0, tx_script = []\<rparr>\<rparr>"
    by (cases q) (auto simp: nextufs__transaction_begin_def io_defs split: option.splits)
  then show ?thesis
    using assms(1) img1 by (auto simp: tx_inv_def log_inv_def log_of_def undo_all_def intro!: exI [of _ "[]"])
qed

lemma transaction_begin_fails:
  assumes "image_on ops disk binv img" and "nextufs__transaction_begin img = (Inl e, img')"
  shows "image_on ops disk binv img' \<and> disk (backend_ctx img') = disk (backend_ctx img) \<and>
    static img' = static img \<and> transaction img' = transaction img"
proof -
  obtain q img1 where m: "malloc_io 16 img = (q, img1)" by (cases "malloc_io 16 img")
  from malloc_frame [OF m] obtain ms where img1: "img1 = img\<lparr>mallocs := ms\<rparr>" by blast
  from assms(2) m img1 have "img' = img1"
    by (cases q) (auto simp: nextufs__transaction_begin_def io_defs split: option.splits)
  with img1 assms(1) show ?thesis by simp
qed

lemmas tx_rules = keeps_rules read_exact_tx write_exact_keeps malloc_tx time_tx fsync_tx

end

section \<open>Calm environments\<close>

text \<open>
  A context is calm when its environment lets every access inside the image succeed. The
  allocator of the image is calm when no allocation fails.
\<close>

locale calm_backend = backend ops rd wr sy disk binv
  for ops :: "'c nextufs_image_backend_ops"
    and rd :: "nat \<Rightarrow> int \<Rightarrow> ('c, byte list) io"
    and wr :: "byte list \<Rightarrow> int \<Rightarrow> ('c, unit) io"
    and sy :: "('c, unit) io"
    and disk :: "'c \<Rightarrow> byte list"
    and binv :: "'c \<Rightarrow> bool" +
  fixes calm :: "'c \<Rightarrow> bool"
  assumes read_calm: "binv c \<Longrightarrow> calm c \<Longrightarrow> 0 \<le> off \<Longrightarrow> nat off + n \<le> length (disk c) \<Longrightarrow>
      rd n off c = (rr, c') \<Longrightarrow> calm c' \<and> (\<exists>bs. rr = Inr bs)"
    and write_calm: "binv c \<Longrightarrow> calm c \<Longrightarrow> 0 \<le> off \<Longrightarrow> nat off + length bs \<le> length (disk c) \<Longrightarrow>
      wr bs off c = (r, c') \<Longrightarrow> calm c' \<and> r = Inr ()"
    and sync_calm: "binv c \<Longrightarrow> calm c \<Longrightarrow> sy c = (r, c') \<Longrightarrow> calm c' \<and> r = Inr ()"

definition calm_image ::
  "'c nextufs_image_backend_ops \<Rightarrow> ('c \<Rightarrow> byte list) \<Rightarrow> ('c \<Rightarrow> bool) \<Rightarrow> ('c \<Rightarrow> bool) \<Rightarrow> 'c nextufs_image \<Rightarrow> bool" where
  "calm_image ops disk binv calm img \<longleftrightarrow> image_on ops disk binv img \<and> calm (backend_ctx img) \<and>
     mallocs img = [] \<and> transaction img = None"

context calm_backend
begin

lemma calm_image_on: "calm_image ops disk binv calm img \<Longrightarrow> image_on ops disk binv img"
  by (simp add: calm_image_def)

lemma read_exact_calm:
  assumes "calm_image ops disk binv calm img" and "0 \<le> off"
    and "nat off + n \<le> length (disk (backend_ctx img))"
  shows "\<exists>img'. nextufs__read_exact n off img = (Inr (bytes_at (nat off) n (disk (backend_ctx img))), img') \<and>
    calm_image ops disk binv calm img' \<and> disk (backend_ctx img') = disk (backend_ctx img) \<and>
    static img' = static img"
proof -
  note on = calm_image_on [OF assms(1)]
  have nb: "\<not> range_bad img n off" using image_onD(4) [OF on] assms(2,3) by blast
  obtain r c where rc: "rd n off (backend_ctx img) = (r, c)" by (cases "rd n off (backend_ctx img)")
  from assms(1) have "calm (backend_ctx img)" by (simp add: calm_image_def)
  from read_calm [OF image_onD(2) [OF on] this assms(2,3) rc] obtain bs where "calm c" "r = Inr bs" by blast
  with read_law [OF image_onD(2) [OF on] assms(2,3) rc] assms(1) rc nb image_onD(1) [OF on]
  show ?thesis
    by (auto simp: nextufs__read_exact_def io_defs ctx_io_def vtable calm_image_def image_on_def)
qed

lemma write_exact_calm:
  assumes "calm_image ops disk binv calm img" and "writable img" and "0 \<le> off"
    and "nat off + length buf \<le> length (disk (backend_ctx img))"
  shows "\<exists>img'. nextufs__write_exact buf off img = (Inr (), img') \<and>
    calm_image ops disk binv calm img' \<and>
    disk (backend_ctx img') = overlay (nat off) buf (disk (backend_ctx img)) \<and>
    static img' = static img"
proof -
  note on = calm_image_on [OF assms(1)]
  have nb: "\<not> range_bad img (length buf) off" using image_onD(4) [OF on] assms(3,4) by blast
  obtain r c where rc: "wr buf off (backend_ctx img) = (r, c)" by (cases "wr buf off (backend_ctx img)")
  from assms(1) have cm: "calm (backend_ctx img)" and tr: "transaction img = None" by (simp_all add: calm_image_def)
  from write_calm [OF image_onD(2) [OF on] cm assms(3,4) rc] have "calm c" "r = Inr ()" by auto
  with write_law [OF image_onD(2) [OF on] assms(3,4) rc] assms(1,2,3,4) rc nb image_onD(1) [OF on] tr
  show ?thesis
    by (auto simp: nextufs__write_exact_def nextufs__transaction_record_def io_defs ctx_io_def vtable
        calm_image_def image_on_def)
qed

lemma fsync_calm:
  assumes "calm_image ops disk binv calm img"
  shows "\<exists>img'. nextufs__image_fsync img = (Inr (), img') \<and> calm_image ops disk binv calm img' \<and>
    disk (backend_ctx img') = disk (backend_ctx img) \<and> static img' = static img"
proof -
  note on = calm_image_on [OF assms]
  obtain r c where rc: "sy (backend_ctx img) = (r, c)" by (cases "sy (backend_ctx img)")
  from assms have cm: "calm (backend_ctx img)" by (simp add: calm_image_def)
  from sync_calm [OF image_onD(2) [OF on] cm rc] sync_law [OF image_onD(2) [OF on] rc] assms rc
    image_onD(1) [OF on]
  show ?thesis
    by (cases "writable img")
      (auto simp: nextufs__image_fsync_def io_defs ctx_io_def vtable calm_image_def image_on_def)
qed

lemma malloc_calm:
  "calm_image ops disk binv calm img \<Longrightarrow> n < 2 ^ 63 \<Longrightarrow> malloc_io n img = (Inr (), img)"
  by (simp add: malloc_io_def calm_image_def)

end

end
