(* ===== verification/Raw_Backend.thy ===== *)
theory Raw_Backend
  imports Access
begin

text \<open>
  The raw backend of \<^verbatim>\<open>src/core/image.c\<close>: the image is the host file itself. It provides both
  backend contracts; the facts of the interpretations \<open>raw\<close> are what the properties of images
  over a plain file rest on.
\<close>

text \<open>\<open>struct nextufs_raw_backend\<close> holds the descriptor and nothing else.\<close>

type_synonym nextufs_raw_backend = hostfile

definition nextufs_raw_backend_read :: "nat \<Rightarrow> int \<Rightarrow> (nextufs_raw_backend, byte list) io" where
  "nextufs_raw_backend_read n off = nextufs__read_exact_fd n off"

definition nextufs_raw_backend_write :: "byte list \<Rightarrow> int \<Rightarrow> (nextufs_raw_backend, unit) io" where
  "nextufs_raw_backend_write buf off = nextufs__write_exact_fd buf off"

definition nextufs_raw_backend_fsync :: "(nextufs_raw_backend, unit) io" where
  "nextufs_raw_backend_fsync = fsync_fd"

definition nextufs_raw_backend_ops :: "nextufs_raw_backend nextufs_image_backend_ops" where
  "nextufs_raw_backend_ops = \<lparr>op_read = Some nextufs_raw_backend_read,
     op_write = Some nextufs_raw_backend_write, op_fsync = Some nextufs_raw_backend_fsync\<rparr>"

interpretation raw: backend nextufs_raw_backend_ops nextufs_raw_backend_read nextufs_raw_backend_write
  nextufs_raw_backend_fsync content "\<lambda>_. True"
proof unfold_locales
  show "nextufs_raw_backend_ops = \<lparr>op_read = Some nextufs_raw_backend_read,
     op_write = Some nextufs_raw_backend_write, op_fsync = Some nextufs_raw_backend_fsync\<rparr>"
    by (rule nextufs_raw_backend_ops_def)
next
  fix c c' :: nextufs_raw_backend and off n and rr :: "errno + byte list"
  assume "nextufs_raw_backend_read n off c = (rr, c')"
  then have r: "nextufs__read_exact_fd n off c = (rr, c')" by (simp add: nextufs_raw_backend_read_def)
  show "True \<and> content c' = content c \<and> (\<forall>bs. rr = Inr bs \<longrightarrow> bs = bytes_at (nat off) n (content c))"
    using read_exact_fd_content [OF r] r by (auto dest: read_exact_fd_Inr)
next
  fix c c' :: nextufs_raw_backend and off and bs :: "byte list" and r :: "errno + unit"
  assume "nat off + length bs \<le> length (content c)" and "nextufs_raw_backend_write bs off c = (r, c')"
  then show "True \<and> agree_outside (nat off) (length bs) (content c') (content c) \<and>
      (r = Inr () \<longrightarrow> content c' = overlay (nat off) bs (content c))"
    using write_exact_fd_inside by (simp add: nextufs_raw_backend_write_def)
next
  fix c c' :: nextufs_raw_backend and r :: "errno + unit"
  assume "nextufs_raw_backend_fsync c = (r, c')"
  then show "True \<and> content c' = content c"
    using fsync_fd_content by (simp add: nextufs_raw_backend_fsync_def)
qed

text \<open>A calm descriptor: every remaining system call transfers at least one byte.\<close>

fun transfers :: "sysres \<Rightarrow> bool" where
  "transfers (Xfer k) = (0 < k)"
| "transfers (Fails e) = False"

definition raw_calm :: "nextufs_raw_backend \<Rightarrow> bool" where
  "raw_calm f \<longleftrightarrow> list_all transfers (script f)"

lemma pread_raw_calm: "pread n off f = (q, f') \<Longrightarrow> raw_calm f \<Longrightarrow> raw_calm f'"
  by (auto simp: pread_def raw_calm_def split: if_splits list.splits sysres.splits)

lemma pwrite_raw_calm: "pwrite bs off f = (q, f') \<Longrightarrow> raw_calm f \<Longrightarrow> raw_calm f'"
  by (auto simp: pwrite_def raw_calm_def split: if_splits list.splits sysres.splits)

lemma transfers_benign: "list_all transfers s \<Longrightarrow> benign s"
proof (induction s)
  case (Cons r s)
  then show ?case by (cases r) auto
qed simp

lemma read_fd_loop_raw_calm:
  "read_fd_loop sz off out f = (r, f') \<Longrightarrow> raw_calm f \<Longrightarrow> raw_calm f'"
proof (induction sz off out f arbitrary: r f' rule: read_fd_loop.induct)
  case (1 sz off out f)
  then show ?case
    by (subst (asm) read_fd_loop.simps)
      (auto split: if_splits prod.splits sum.splits dest!: pread_raw_calm)
qed

lemma write_fd_loop_raw_calm:
  "write_fd_loop buf off d f = (r, f') \<Longrightarrow> raw_calm f \<Longrightarrow> raw_calm f'"
proof (induction buf off d f arbitrary: r f' rule: write_fd_loop.induct)
  case (1 buf off d f)
  then show ?case
    by (subst (asm) write_fd_loop.simps)
      (auto split: if_splits prod.splits sum.splits dest!: pwrite_raw_calm)
qed

interpretation raw: calm_backend nextufs_raw_backend_ops nextufs_raw_backend_read nextufs_raw_backend_write
  nextufs_raw_backend_fsync content "\<lambda>_. True" raw_calm
proof unfold_locales
  fix c c' :: nextufs_raw_backend and off n and rr :: "errno + byte list"
  assume calm: "raw_calm c" and rng: "0 \<le> off" "nat off + n \<le> length (content c)"
    and "nextufs_raw_backend_read n off c = (rr, c')"
  then have r: "read_fd_loop n off [] c = (rr, c')"
    by (simp add: nextufs_raw_backend_read_def nextufs__read_exact_fd_def)
  from calm have "benign (script c)" by (simp add: raw_calm_def transfers_benign)
  from read_fd_loop_benign [OF this rng, of "[]"] r have "\<exists>bs. rr = Inr bs" by auto
  with read_fd_loop_raw_calm [OF r calm] show "raw_calm c' \<and> (\<exists>bs. rr = Inr bs)" by blast
next
  fix c c' :: nextufs_raw_backend and off and bs :: "byte list" and r :: "errno + unit"
  assume calm: "raw_calm c" and rng: "0 \<le> off" and "nextufs_raw_backend_write bs off c = (r, c')"
  then have w: "write_fd_loop bs off 0 c = (r, c')"
    by (simp add: nextufs_raw_backend_write_def nextufs__write_exact_fd_def)
  from calm have "benign (script c)" by (simp add: raw_calm_def transfers_benign)
  from write_fd_loop_benign [OF this rng, of bs 0] w have "r = Inr ()" by auto
  with write_fd_loop_raw_calm [OF w calm] show "raw_calm c' \<and> r = Inr ()" by blast
next
  fix c c' :: nextufs_raw_backend and r :: "errno + unit"
  assume "raw_calm c" and "nextufs_raw_backend_fsync c = (r, c')"
  then show "raw_calm c' \<and> r = Inr ()"
    by (auto simp: nextufs_raw_backend_fsync_def fsync_fd_def raw_calm_def split: list.splits sysres.splits)
qed

abbreviation raw_on :: "nextufs_raw_backend nextufs_image \<Rightarrow> bool" where
  "raw_on \<equiv> image_on nextufs_raw_backend_ops content (\<lambda>_. True)"

abbreviation raw_image_calm :: "nextufs_raw_backend nextufs_image \<Rightarrow> bool" where
  "raw_image_calm \<equiv> calm_image nextufs_raw_backend_ops content (\<lambda>_. True) raw_calm"

section \<open>Sample images\<close>

text \<open>
  A small geometry that the validation accepts, one group of 32 fragments of 1024 bytes in blocks
  of four, over a file of 32768 bytes; the witnesses use it. \<open>sample_image\<close> is that image as the open code leaves it.
\<close>

definition sample_superblock :: nextufs_superblock where
  "sample_superblock = \<lparr>sb_off = 8, cg_off = 12, ino_off = 16, data_off = 20, cg_delta = 0,
     cg_cyc_mask = 0xffffffff, write_time = 0, frag_count = 32, data_frag_count = 12, cg_count = 1,
     block_size = 4096, frag_size = 1024, frags_per_block = 4, minfree = 0, rotdelay = 0, rps = 60,
     block_mask = 0xfffff000, frag_mask = 0xfffffc00, block_shift = 12, frag_shift_calc = 10,
     maxcontig = 1, maxbpg = 1, frag_shift = 2, fsbtodb = 0, super_size = 2048,
     csum_mask = 0xffffff00, csum_shift = 8, nindir = 1024, sectors_per_frag = 1, optim = 0,
     inodes_per_block = 32, cyl_summary_addr = 20, csum_size = 1024, cg_size = 1024,
     tracks_per_cyl = 1, sectors_per_track = 32, sectors_per_cyl = 32, ncyl = 1, cpg = 1,
     inodes_per_group = 32, frags_per_group = 32, dir_count = 1, free_block_count = 2,
     free_inode_count = 29, free_frag_count = 3, state = 1, fs_magic = 0x00011954\<rparr>"

definition sample_image :: "byte list \<Rightarrow> nextufs_raw_backend nextufs_image" where
  "sample_image xs = \<lparr>backend_ops = Some nextufs_raw_backend_ops,
     backend_ctx = \<lparr>content = xs, script = []\<rparr>, transaction = None, writable = True,
     unprivileged = False, restore_clean = False, fs_write_active = False,
     source_is_container = False, source_format = NEXTUFS_SOURCE_RAW,
     image_size = int (length xs), slice_base = 0, slice_size = int (length xs), label_off = 0,
     label_version = 0, label_secsize = 0, label_front = 0, label_name = [], rootpartition = 0,
     used_disk_label = False, sb = sample_superblock, mallocs = [], clock = 7,
     tmpfile_errno = None, tmpfile_script = []\<rparr>"

lemma sample_fields [simp]:
    "sb_off sample_superblock = 8" "cg_off sample_superblock = 12" "ino_off sample_superblock = 16"
    "data_off sample_superblock = 20" "cg_delta sample_superblock = 0"
    "cg_cyc_mask sample_superblock = 0xffffffff" "write_time sample_superblock = 0"
    "frag_count sample_superblock = 32" "data_frag_count sample_superblock = 12"
    "cg_count sample_superblock = 1" "block_size sample_superblock = 4096"
    "frag_size sample_superblock = 1024" "frags_per_block sample_superblock = 4"
    "minfree sample_superblock = 0" "rotdelay sample_superblock = 0" "rps sample_superblock = 60"
    "block_mask sample_superblock = 0xfffff000" "frag_mask sample_superblock = 0xfffffc00"
    "block_shift sample_superblock = 12" "frag_shift_calc sample_superblock = 10"
    "maxcontig sample_superblock = 1" "maxbpg sample_superblock = 1"
    "frag_shift sample_superblock = 2" "fsbtodb sample_superblock = 0"
    "super_size sample_superblock = 2048" "csum_mask sample_superblock = 0xffffff00"
    "csum_shift sample_superblock = 8" "nindir sample_superblock = 1024"
    "sectors_per_frag sample_superblock = 1" "optim sample_superblock = 0"
    "inodes_per_block sample_superblock = 32" "cyl_summary_addr sample_superblock = 20"
    "csum_size sample_superblock = 1024" "cg_size sample_superblock = 1024"
    "tracks_per_cyl sample_superblock = 1" "sectors_per_track sample_superblock = 32"
    "sectors_per_cyl sample_superblock = 32" "ncyl sample_superblock = 1"
    "cpg sample_superblock = 1" "inodes_per_group sample_superblock = 32"
    "frags_per_group sample_superblock = 32" "dir_count sample_superblock = 1"
    "free_block_count sample_superblock = 2" "free_inode_count sample_superblock = 29"
    "free_frag_count sample_superblock = 3" "state sample_superblock = 1"
    "fs_magic sample_superblock = 0x00011954"
  by (simp_all add: sample_superblock_def)

lemma sample_image_fields [simp]:
  "sb (sample_image xs) = sample_superblock" "backend_ctx (sample_image xs) = \<lparr>content = xs, script = []\<rparr>"
  "slice_base (sample_image xs) = 0" "slice_size (sample_image xs) = int (length xs)"
  "writable (sample_image xs)" "transaction (sample_image xs) = None" "tmpfile_script (sample_image xs) = []"
  "backend_ops (sample_image xs) = Some nextufs_raw_backend_ops" "mallocs (sample_image xs) = []"
  "image_size (sample_image xs) = int (length xs)" "tmpfile_errno (sample_image xs) = None"
  "clock (sample_image xs) = 7"
  by (simp_all add: sample_image_def)

lemma sample_not_bad: "\<not> superblock_bad sample_superblock"
  unfolding superblock_bad_def de_Morgan_disj
  by (intro conjI) (simp_all add: superblock_consts u32_add_def u32_not_def INT32_MAX_def)

lemma sample_valid: "length xs = 32768 \<Longrightarrow> nextufs_image_validate (sample_image xs) = Inr ()"
  using sample_not_bad by (simp add: nextufs_image_validate_def nextufs__cgstart_def u32_add_def Let_def)

lemma sample_calm: "length xs = 32768 \<Longrightarrow> raw_image_calm (sample_image xs)"
  by (simp add: calm_image_def image_on_def raw_calm_def)

end
