(* ===== verification/Geometry.thy ===== *)
theory Geometry
  imports Superblock
begin

text \<open>
  What an accepted superblock guarantees. \<open>valid_geometry\<close> lists the facts of
  \<open>nextufs_image_validate\<close> the rest of the development uses; from them the 64-bit address
  arithmetic is exact, every cylinder group block and every inode lies inside the slice, and
  distinct inodes occupy disjoint bytes.
\<close>

definition valid_geometry :: "nextufs_superblock \<Rightarrow> bool" where
  "valid_geometry s \<longleftrightarrow>
     1024 \<le> frag_size s \<and> block_size s = frags_per_block s * frag_size s \<and>
     4096 \<le> block_size s \<and> block_size s \<le> 8192 \<and>
     0 < frags_per_block s \<and> frags_per_block s \<le> 8 \<and> frags_per_block s = 2 ^ frag_shift s \<and>
     block_size s = inodes_per_block s * 128 \<and> inodes_per_group s mod inodes_per_block s = 0 \<and>
     0 < inodes_per_group s \<and> inodes_per_group s \<le> 2048 \<and>
     0 < frags_per_group s \<and> frags_per_group s \<le> 57664 \<and>
     0 < cg_count s \<and> cg_count s * inodes_per_group s \<le> INT32_MAX \<and>
     (cg_count s - 1) * frags_per_group s < frag_count s \<and>
     frag_count s \<le> cg_count s * frags_per_group s \<and> frag_count s \<le> INT32_MAX \<and>
     984 \<le> cg_size s \<and> cg_size s \<le> block_size s \<and>
     984 + (frags_per_group s + 7) div 8 \<le> cg_size s \<and>
     cg_off s < ino_off s \<and>
     ino_off s * frag_size s + inodes_per_group s * 128 \<le> data_off s * frag_size s \<and>
     cg_delta s * u32_not (cg_cyc_mask s) + data_off s \<le> frags_per_group s \<and>
     0 < sectors_per_frag s \<and> sectors_per_frag s \<le> 16 \<and>
     0 < sectors_per_cyl s \<and> 0 < sectors_per_track s \<and>
     cg_count s * 16 \<le> csum_size s"

lemma div_ceil_le: "0 < c \<Longrightarrow> (n :: nat) \<le> (n + c - 1) div c * c"
proof -
  assume c: "0 < c"
  have "n + c - 1 < ((n + c - 1) div c + 1) * c"
    using dividend_less_div_times [OF c, of "n + c - 1"] by simp
  with c show ?thesis by simp
qed

lemma div_ceil_less: "0 < c \<Longrightarrow> 0 < n \<Longrightarrow> ((n + c - 1) div c - 1) * c < (n :: nat)"
proof -
  assume c: "0 < c" and n: "0 < n"
  have "(n + c - 1) div c * c \<le> n + c - 1" by (rule div_times_less_eq_dividend)
  then have "(n + c - 1) div c * c - c \<le> n + c - 1 - c" by (rule diff_le_mono)
  with c n show ?thesis unfolding diff_mult_distrib by simp
qed

lemma u32_shift_power: "k < 32 \<Longrightarrow> u32 (push_bit k 1) = 2 ^ k"
proof -
  assume "k < 32"
  then have "(2 :: nat) ^ k < 2 ^ 32" by (rule power_strict_increasing) simp
  then show ?thesis by (simp add: push_bit_eq_mult)
qed

lemma power_div_exact: "(2 :: nat) ^ b \<le> 2 ^ a \<Longrightarrow> (2 :: nat) ^ a div 2 ^ b * 2 ^ b = 2 ^ a"
  by (rule dvd_div_mult_self) (simp add: le_imp_power_dvd)

lemma not_bad_geometry:
  assumes "\<not> superblock_bad s"
  shows "valid_geometry s"
proof -
  note b = assms [unfolded superblock_bad_def de_Morgan_disj not_not not_less not_le superblock_consts]
  from b have "block_shift s < 32" "u32 (push_bit (block_shift s) 1) = block_size s"
    "frag_shift_calc s < 32" "u32 (push_bit (frag_shift_calc s) 1) = frag_size s"
    "frag_shift s \<le> 3" "u32 (push_bit (frag_shift s) 1) = frags_per_block s"
    by blast+
  then have bs: "block_size s = 2 ^ block_shift s" and fs: "frag_size s = 2 ^ frag_shift_calc s"
    and fpb: "frags_per_block s = 2 ^ frag_shift s"
    using u32_shift_power [of "block_shift s"] u32_shift_power [of "frag_shift_calc s"]
      u32_shift_power [of "frag_shift s"] by simp_all
  have exact: "block_size s = frags_per_block s * frag_size s"
    using b power_div_exact [of "frag_shift_calc s" "block_shift s"] by (simp add: bs fs)
  have bshift: "12 \<le> block_shift s"
  proof (rule ccontr)
    assume "\<not> 12 \<le> block_shift s"
    then have "(2 :: nat) ^ block_shift s \<le> 2 ^ 11" by (intro power_increasing) auto
    with b bs show False by simp
  qed
  have "(2::nat) ^ 7 dvd 2 ^ block_shift s" using bshift by (intro le_imp_power_dvd) simp
  then have ipb: "block_size s = inodes_per_block s * 128" using b bs by simp
  have fc: "frag_count s \<le> INT32_MAX"
  proof -
    have "1 \<le> frag_size s div 1024" using b by (simp add: less_eq_div_iff_mult_less_eq)
    then have "frag_count s * 1 \<le> frag_count s * (frag_size s div 1024)" by (rule mult_le_mono2)
    with b show ?thesis by linarith
  qed
  from b have "cg_size s \<le> block_size s" "block_size s \<le> 8192"
    "984 + (frags_per_group s + 7) div 8 \<le> cg_size s" by blast+
  then have fpg: "frags_per_group s \<le> 57664" by linarith
  have pos: "0 < frags_per_group s" "0 < frag_size s" "0 < frag_count s" using b by auto
  have cgs: "(cg_count s - 1) * frags_per_group s < frag_count s"
    "frag_count s \<le> cg_count s * frags_per_group s"
    using div_ceil_less [OF pos(1,3)] div_ceil_le [OF pos(1), of "frag_count s"] b by simp_all
  have "0 < frags_per_block s" unfolding fpb by simp
  have "ino_off s + (inodes_per_group s * 128 + frag_size s - 1) div frag_size s \<le> data_off s"
    using b by simp
  then have "(ino_off s + (inodes_per_group s * 128 + frag_size s - 1) div frag_size s) * frag_size s
      \<le> data_off s * frag_size s" by (rule mult_le_mono1)
  then have ino: "ino_off s * frag_size s + inodes_per_group s * 128 \<le> data_off s * frag_size s"
    using div_ceil_le [OF pos(2), of "inodes_per_group s * 128"] by (simp add: distrib_right)
  from b have "1024 \<le> frag_size s" "4096 \<le> block_size s" "block_size s \<le> 8192"
    "frags_per_block s \<le> 8" "inodes_per_group s mod inodes_per_block s = 0"
    "inodes_per_group s \<noteq> 0" "inodes_per_group s \<le> 2048" "cg_count s \<noteq> 0"
    "cg_count s * inodes_per_group s \<le> INT32_MAX" "984 \<le> cg_size s" "cg_size s \<le> block_size s"
    "984 + (frags_per_group s + 7) div 8 \<le> cg_size s" "cg_off s < ino_off s"
    "cg_delta s * u32_not (cg_cyc_mask s) + data_off s \<le> frags_per_group s"
    "sectors_per_frag s \<noteq> 0" "sectors_per_frag s \<le> 16" "sectors_per_cyl s \<noteq> 0"
    "sectors_per_track s \<noteq> 0" "cg_count s * 16 \<le> csum_size s"
    by blast+
  then show ?thesis
    unfolding valid_geometry_def
    using exact ipb fc fpg pos cgs ino fpb \<open>0 < frags_per_block s\<close> by (intro conjI) linarith+
qed

lemma valid_geometryD:
  assumes "valid_geometry s"
  shows "1024 \<le> frag_size s" "0 < frag_size s" "block_size s = frags_per_block s * frag_size s"
    "block_size s \<le> 8192" "4096 \<le> block_size s" "0 < frags_per_block s" "frags_per_block s \<le> 8"
    "frags_per_block s = 2 ^ frag_shift s" "block_size s = inodes_per_block s * 128"
    "0 < inodes_per_block s" "inodes_per_group s mod inodes_per_block s = 0"
    "0 < inodes_per_group s" "inodes_per_group s \<le> 2048" "0 < frags_per_group s"
    "frags_per_group s \<le> 57664" "0 < cg_count s" "cg_count s * inodes_per_group s \<le> 2147483647"
    "(cg_count s - 1) * frags_per_group s < frag_count s"
    "frag_count s \<le> cg_count s * frags_per_group s" "frag_count s \<le> 2147483647"
    "984 \<le> cg_size s" "cg_size s \<le> block_size s"
    "984 + (frags_per_group s + 7) div 8 \<le> cg_size s" "cg_off s < ino_off s"
    "ino_off s * frag_size s + inodes_per_group s * 128 \<le> data_off s * frag_size s"
    "cg_delta s * u32_not (cg_cyc_mask s) + data_off s \<le> frags_per_group s"
    "frag_size s \<le> 8192" "cg_count s \<le> 2147483647"
proof -
  note g = assms [unfolded valid_geometry_def INT32_MAX_def]
  show "1024 \<le> frag_size s" "0 < frag_size s" "block_size s = frags_per_block s * frag_size s"
    "block_size s \<le> 8192" "4096 \<le> block_size s" "0 < frags_per_block s" "frags_per_block s \<le> 8"
    "frags_per_block s = 2 ^ frag_shift s" "block_size s = inodes_per_block s * 128"
    "inodes_per_group s mod inodes_per_block s = 0"
    "0 < inodes_per_group s" "inodes_per_group s \<le> 2048" "0 < frags_per_group s"
    "frags_per_group s \<le> 57664" "0 < cg_count s" "cg_count s * inodes_per_group s \<le> 2147483647"
    "(cg_count s - 1) * frags_per_group s < frag_count s"
    "frag_count s \<le> cg_count s * frags_per_group s" "frag_count s \<le> 2147483647"
    "984 \<le> cg_size s" "cg_size s \<le> block_size s"
    "984 + (frags_per_group s + 7) div 8 \<le> cg_size s" "cg_off s < ino_off s"
    "ino_off s * frag_size s + inodes_per_group s * 128 \<le> data_off s * frag_size s"
    "cg_delta s * u32_not (cg_cyc_mask s) + data_off s \<le> frags_per_group s"
    using g by linarith+
  show "0 < inodes_per_block s" using g by (cases "inodes_per_block s = 0") auto
  have "1 * frag_size s \<le> frags_per_block s * frag_size s" using g by (intro mult_le_mono1) linarith
  then show "frag_size s \<le> 8192" using g by linarith
  have "cg_count s * 1 \<le> cg_count s * inodes_per_group s" using g by (intro mult_le_mono2) linarith
  then show "cg_count s \<le> 2147483647" using g by linarith
qed

definition valid_image :: "'c nextufs_image \<Rightarrow> bool" where
  "valid_image img \<longleftrightarrow> valid_geometry (sb img) \<and> 0 \<le> slice_base img \<and>
     frag_count (sb img) * frag_size (sb img) \<le> of_off (slice_size img) \<and> 0 \<le> slice_size img \<and>
     nextufs__cgstart (sb img) (cg_count (sb img) - 1) + data_off (sb img) \<le> frag_count (sb img) \<and>
     cyl_summary_addr (sb img) * frag_size (sb img) + csum_size (sb img) \<le>
       frag_count (sb img) * frag_size (sb img)"

lemma validate_valid_image:
  assumes "nextufs_image_validate img = Inr ()"
  shows "valid_image img"
proof -
  from assms have nb: "\<not> superblock_bad (sb img)"
    by (auto simp: nextufs_image_validate_def Let_def split: if_splits)
  from not_bad_geometry [OF nb] have g: "valid_geometry (sb img)" .
  note v = valid_geometryD [OF g]
  have "u32_sub (cg_count (sb img)) 1 = cg_count (sb img) - 1"
    using v by (intro u32_sub_exact) linarith+
  with assms nb have "\<not> (slice_base img < 0 \<or> slice_size img < 0 \<or>
      of_off (slice_size img) < frag_count (sb img) * frag_size (sb img) \<or>
      frag_count (sb img) < nextufs__cgstart (sb img) (cg_count (sb img) - 1) + data_off (sb img) \<or>
      frag_count (sb img) * frag_size (sb img) < cyl_summary_addr (sb img) * frag_size (sb img) + csum_size (sb img))"
    by (simp add: nextufs_image_validate_def Let_def split: if_splits)
  with g show ?thesis unfolding valid_image_def by linarith
qed

section \<open>Exact addresses\<close>

lemma and_le_right_nat: "(a :: nat) AND b \<le> b"
proof -
  have "int a AND int b \<le> int b" by (rule AND_upper2) simp
  then show ?thesis by (simp add: of_nat_and_eq [symmetric] del: of_nat_and_eq)
qed

lemma cgstart_exact:
  assumes g: "valid_geometry s" and cg: "cg < cg_count s"
  shows "nextufs__cgstart s cg = frags_per_group s * cg + cg_delta s * (cg AND u32_not (cg_cyc_mask s))"
    and "frags_per_group s * cg \<le> nextufs__cgstart s cg"
    and "nextufs__cgstart s cg + data_off s \<le> frags_per_group s * (cg + 1)"
    and "nextufs__cgstart s cg + data_off s < 4294967296"
proof -
  let ?d = "cg_delta s * (cg AND u32_not (cg_cyc_mask s))"
  note v = valid_geometryD [OF g]
  have "?d \<le> cg_delta s * u32_not (cg_cyc_mask s)"
    by (intro mult_le_mono2 and_le_right_nat)
  then have d: "?d + data_off s \<le> frags_per_group s" using v(26) by linarith
  have "frags_per_group s * cg \<le> frags_per_group s * (cg_count s - 1)"
    using cg by (intro mult_le_mono2) simp
  also have "\<dots> < frag_count s" using v(18) by (simp add: mult.commute)
  finally have b: "frags_per_group s * cg < frag_count s" .
  have u1: "u64 (frags_per_group s * cg) = frags_per_group s * cg" and u2: "u64 ?d = ?d"
    and u3: "u64 (frags_per_group s * cg + ?d) = frags_per_group s * cg + ?d"
    using b d v(20,15) by (intro u64_id; linarith)+
  show eq: "nextufs__cgstart s cg = frags_per_group s * cg + ?d"
    unfolding nextufs__cgstart_def Let_def u1 u2 u3 ..
  show "frags_per_group s * cg \<le> nextufs__cgstart s cg" unfolding eq by simp
  show "nextufs__cgstart s cg + data_off s \<le> frags_per_group s * (cg + 1)"
    unfolding eq using d by simp
  show "nextufs__cgstart s cg + data_off s < 4294967296"
    unfolding eq using d b v(20,15) by linarith
qed

lemma cgstart_in_slice:
  assumes v: "valid_image img" and cg: "cg < cg_count (sb img)"
  shows "nextufs__cgstart (sb img) cg + data_off (sb img) \<le> frag_count (sb img)"
proof (cases "cg = cg_count (sb img) - 1")
  case True
  with v show ?thesis by (simp add: valid_image_def)
next
  case False
  from v have g: "valid_geometry (sb img)" by (simp add: valid_image_def)
  have "frags_per_group (sb img) * (cg + 1) \<le> frags_per_group (sb img) * (cg_count (sb img) - 1)"
    using False cg by (intro mult_le_mono2) simp
  also have "\<dots> < frag_count (sb img)" using valid_geometryD(18) [OF g] by (simp add: mult.commute)
  finally show ?thesis using cgstart_exact(3) [OF g cg] by simp
qed

lemma frag_bytes_bound:
  assumes "valid_geometry s" and "f \<le> frag_count s"
  shows "f * frag_size s \<le> 17592186036224"
proof -
  have "f \<le> 2147483647" using assms(2) valid_geometryD(20) [OF assms(1)] by linarith
  then have "f * frag_size s \<le> 2147483647 * 8192"
    using valid_geometryD(27) [OF assms(1)] by (rule mult_le_mono)
  then show ?thesis by simp
qed

lemma inode_frags_before_data:
  assumes g: "valid_geometry s"
  shows "frags_per_block s + ino_off s \<le> data_off s"
proof -
  note v = valid_geometryD [OF g]
  have "inodes_per_block s dvd inodes_per_group s" using v(11) by (simp add: mod_eq_0_iff_dvd)
  then have "inodes_per_block s \<le> inodes_per_group s" using v(12) by (rule dvd_imp_le)
  then have "block_size s \<le> inodes_per_group s * 128" using v(9) by simp
  then have "(frags_per_block s + ino_off s) * frag_size s \<le> data_off s * frag_size s"
    using v(3,25) unfolding distrib_right by linarith
  then show ?thesis using v(2) by simp
qed

lemma cg_block_offset_exact:
  assumes v: "valid_image img" and cg: "cg < cg_count (sb img)"
  shows "nextufs__cg_block_offset img cg =
    slice_base img + int ((nextufs__cgstart (sb img) cg + cg_off (sb img)) * frag_size (sb img))"
proof -
  from v have g: "valid_geometry (sb img)" by (simp add: valid_image_def)
  have le: "nextufs__cgstart (sb img) cg + cg_off (sb img) \<le> frag_count (sb img)"
    using cgstart_in_slice [OF v cg] inode_frags_before_data [OF g] valid_geometryD(24) [OF g] by linarith
  then have u: "u64 (nextufs__cgstart (sb img) cg + cg_off (sb img)) = nextufs__cgstart (sb img) cg + cg_off (sb img)"
    using valid_geometryD(20) [OF g] by (intro u64_id) linarith
  have "u64 ((nextufs__cgstart (sb img) cg + cg_off (sb img)) * frag_size (sb img)) =
      (nextufs__cgstart (sb img) cg + cg_off (sb img)) * frag_size (sb img)"
    using frag_bytes_bound [OF g le] by (intro u64_id) linarith
  moreover have "to_off ((nextufs__cgstart (sb img) cg + cg_off (sb img)) * frag_size (sb img)) =
      int ((nextufs__cgstart (sb img) cg + cg_off (sb img)) * frag_size (sb img))"
    using frag_bytes_bound [OF g le] by (intro to_off_id) linarith
  ultimately show ?thesis unfolding nextufs__cg_block_offset_def u by simp
qed

text \<open>The position of an inode is linear in its number within the group.\<close>

lemma inode_offset_exact:
  assumes v: "valid_image img" and i: "i < cg_count (sb img) * inodes_per_group (sb img)"
  shows "nextufs__inode_offset img i = slice_base img +
    int ((nextufs__cgstart (sb img) (i div inodes_per_group (sb img)) + ino_off (sb img)) * frag_size (sb img)
      + i mod inodes_per_group (sb img) * 128)"
proof -
  let ?s = "sb img" let ?cg = "i div inodes_per_group ?s" let ?n = "i mod inodes_per_group ?s"
  let ?b = "?n div inodes_per_block ?s" let ?r = "?n mod inodes_per_block ?s"
  from v have g: "valid_geometry ?s" by (simp add: valid_image_def)
  note vg = valid_geometryD [OF g]
  have cg: "?cg < cg_count ?s" using i by (simp add: less_mult_imp_div_less)
  have n: "?n < inodes_per_group ?s" using vg(12) by simp
  have "?b * inodes_per_block ?s * 128 \<le> ?n * 128" by (intro mult_le_mono1) simp
  then have blk: "?b * frags_per_block ?s * frag_size ?s \<le> inodes_per_group ?s * 128"
  proof -
    have "?b * frags_per_block ?s * frag_size ?s = ?b * inodes_per_block ?s * 128"
      using vg(3,9) by (simp add: mult.assoc)
    also have "\<dots> \<le> ?n * 128" by fact
    also have "\<dots> \<le> inodes_per_group ?s * 128" using n by simp
    finally show ?thesis .
  qed
  have addr: "(?b * frags_per_block ?s) * frag_size ?s + ?r * 128 = ?n * 128"
  proof -
    have "(?b * frags_per_block ?s) * frag_size ?s = ?b * inodes_per_block ?s * 128"
      using vg(3,9) by (simp add: mult.assoc)
    moreover have "?b * inodes_per_block ?s * 128 + ?r * 128 = ?n * 128"
      unfolding distrib_right [symmetric] by simp
    ultimately show ?thesis by linarith
  qed
  let ?f = "nextufs__cgstart ?s ?cg + ino_off ?s + ?b * frags_per_block ?s"
  have "?f * frag_size ?s \<le> (nextufs__cgstart ?s ?cg + data_off ?s) * frag_size ?s"
    using blk vg(25) unfolding distrib_right by linarith
  then have "?f \<le> nextufs__cgstart ?s ?cg + data_off ?s" using vg(2) by simp
  then have le: "?f \<le> frag_count ?s" using cgstart_in_slice [OF v cg] by linarith
  have eq: "u64 (u64 (frags_per_group ?s * ?cg) + u64 (cg_delta ?s * (?cg AND u32_not (cg_cyc_mask ?s))))
      = nextufs__cgstart ?s ?cg"
    by (simp add: nextufs__cgstart_def)
  have push: "push_bit (frag_shift ?s) ?b = ?b * frags_per_block ?s"
    using vg(8) by (simp add: push_bit_eq_mult)
  have u1: "u64 (nextufs__cgstart ?s ?cg + ino_off ?s) = nextufs__cgstart ?s ?cg + ino_off ?s"
    and u2: "u64 (?b * frags_per_block ?s) = ?b * frags_per_block ?s" and u3: "u64 ?f = ?f"
    using le vg(20) by (intro u64_id; linarith)+
  note fb = frag_bytes_bound [OF g le]
  have u4: "u64 (?f * frag_size ?s) = ?f * frag_size ?s"
    and o1: "to_off (?f * frag_size ?s) = int (?f * frag_size ?s)"
    using fb by (intro u64_id to_off_id; linarith)+
  have "?r * 128 \<le> ?n * 128" by simp
  then have o2: "to_off (?r * UFS_INODE_SIZE) = int (?r * 128)"
    unfolding UFS_INODE_SIZE_def using n vg(13) by (intro to_off_id) linarith
  have "nextufs__inode_offset img i = slice_base img + int (?f * frag_size ?s) + int (?r * 128)"
    unfolding nextufs__inode_offset_def Let_def eq push u1 u2 u3 u4 o1 o2 using vg(12,14,10) by simp
  moreover have "?f * frag_size ?s + ?r * 128 =
      (nextufs__cgstart ?s ?cg + ino_off ?s) * frag_size ?s + ?n * 128"
    using addr unfolding distrib_right by linarith
  ultimately show ?thesis by (metis add.assoc of_nat_add)
qed

end
