(* ===== verification/Inode.thy ===== *)
theory Inode
  imports Raw_Backend Geometry
begin

text \<open>
  On-disk inodes: the structure of \<^verbatim>\<open>include/nextufs_node.h\<close>, its codec in \<^verbatim>\<open>src/core/image.c\<close>
  and \<^verbatim>\<open>src/core/layout.c\<close>, and the summary counters that every allocation updates. The lemmas
  give the codec as a round trip, place the inodes of an accepted image at disjoint ranges of the
  slice, and lift the round trip to the disk.
\<close>

section \<open>Data\<close>

definition NEXTUFS_ROOT_INODE :: nat where "NEXTUFS_ROOT_INODE = 2"
definition NEXTUFS_IFMT :: nat where "NEXTUFS_IFMT = 0xf000"
definition NEXTUFS_IFIFO :: nat where "NEXTUFS_IFIFO = 0x1000"
definition NEXTUFS_IFCHR :: nat where "NEXTUFS_IFCHR = 0x2000"
definition NEXTUFS_IFDIR :: nat where "NEXTUFS_IFDIR = 0x4000"
definition NEXTUFS_IFBLK :: nat where "NEXTUFS_IFBLK = 0x6000"
definition NEXTUFS_IFREG :: nat where "NEXTUFS_IFREG = 0x8000"
definition NEXTUFS_IFLNK :: nat where "NEXTUFS_IFLNK = 0xa000"
definition NEXTUFS_IFSOCK :: nat where "NEXTUFS_IFSOCK = 0xc000"
definition NEXTUFS_IC_FASTLINK :: nat where "NEXTUFS_IC_FASTLINK = 1"

text \<open>The arrays \<open>db\<close> and \<open>ib\<close> have 12 and 3 elements.\<close>

record nextufs_inode =
  i_mode :: nat
  i_nlink :: nat
  i_uid :: nat
  i_gid :: nat
  i_size :: nat
  i_atime :: nat
  i_mtime :: nat
  i_ctime :: nat
  i_db :: "nat list"
  i_ib :: "nat list"
  i_flags :: nat
  i_blocks :: nat
  i_gen :: nat

lemmas mode_consts = NEXTUFS_IFMT_def NEXTUFS_IFIFO_def NEXTUFS_IFCHR_def NEXTUFS_IFDIR_def
  NEXTUFS_IFBLK_def NEXTUFS_IFREG_def NEXTUFS_IFLNK_def NEXTUFS_IFSOCK_def

section \<open>Codec\<close>

definition decode_inode :: "byte list \<Rightarrow> nextufs_inode" where
  "decode_inode buf = \<lparr>
     i_mode = nextufs__read_be16 buf 0x00,
     i_nlink = nextufs__read_be16 buf 0x02,
     i_uid = nextufs__read_be16 buf 0x04,
     i_gid = nextufs__read_be16 buf 0x06,
     i_size = read_be64 buf 0x08,
     i_atime = nextufs__read_be32 buf 0x10,
     i_mtime = nextufs__read_be32 buf 0x18,
     i_ctime = nextufs__read_be32 buf 0x20,
     i_db = map (\<lambda>i. nextufs__read_be32 buf (0x28 + i * 4)) [0..<12],
     i_ib = map (\<lambda>i. nextufs__read_be32 buf (0x58 + i * 4)) [0..<3],
     i_flags = nextufs__read_be32 buf 0x64,
     i_blocks = nextufs__read_be32 buf 0x68,
     i_gen = nextufs__read_be32 buf 0x6c\<rparr>"

text \<open>The loop that writes an array of words at \<open>p\<close>.\<close>

fun write_words :: "byte list \<Rightarrow> nat \<Rightarrow> nat list \<Rightarrow> byte list" where
  "write_words b p [] = b"
| "write_words b p (v # vs) = write_words (nextufs__write_be32 b p v) (p + 4) vs"

definition encode_inode :: "nextufs_inode \<Rightarrow> byte list" where
  "encode_inode ino =
     (let raw = replicate UFS_INODE_SIZE 0;
          raw = nextufs__write_be16 raw 0x00 (i_mode ino);
          raw = nextufs__write_be16 raw 0x02 (i_nlink ino);
          raw = nextufs__write_be16 raw 0x04 (i_uid ino);
          raw = nextufs__write_be16 raw 0x06 (i_gid ino);
          raw = nextufs__write_be64 raw 0x08 (i_size ino);
          raw = nextufs__write_be32 raw 0x10 (i_atime ino);
          raw = nextufs__write_be32 raw 0x18 (i_mtime ino);
          raw = nextufs__write_be32 raw 0x20 (i_ctime ino);
          raw = write_words raw 0x28 (i_db ino);
          raw = write_words raw 0x58 (i_ib ino);
          raw = nextufs__write_be32 raw 0x64 (i_flags ino);
          raw = nextufs__write_be32 raw 0x68 (i_blocks ino)
      in nextufs__write_be32 raw 0x6c (i_gen ino))"

definition nextufs__write_inode_raw :: "nat \<Rightarrow> nextufs_inode \<Rightarrow> ('c nextufs_image, unit) io" where
  "nextufs__write_inode_raw inode_no ino = bind_io get_io (\<lambda>img.
     let off = nextufs__inode_offset img inode_no in
     if off < 0 then fail EINVAL else nextufs__write_exact (encode_inode ino) off)"

definition nextufs_inode_read :: "nat \<Rightarrow> ('c nextufs_image, nextufs_inode \<times> int) io" where
  "nextufs_inode_read inode_no = bind_io get_io (\<lambda>img.
     if nextufs_image_validate img \<noteq> Inr () \<or>
        cg_count (sb img) * inodes_per_group (sb img) \<le> inode_no
     then fail EINVAL
     else
       let off = nextufs__inode_offset img inode_no in
       if off < 0 then fail EINVAL
       else bind_io (nextufs__read_exact UFS_INODE_SIZE off) (\<lambda>ibuf.
         let ino = decode_inode ibuf in
         if INT32_MAX < i_size ino then fail EFBIG else ret (ino, off)))"

section \<open>Summary counters\<close>

definition SB_TIME_OFF :: nat where "SB_TIME_OFF = 0x20"
definition SB_NDIR_OFF :: nat where "SB_NDIR_OFF = 0xc0"
definition SB_NBFREE_OFF :: nat where "SB_NBFREE_OFF = 0xc4"
definition SB_NIFREE_OFF :: nat where "SB_NIFREE_OFF = 0xc8"
definition SB_NFFREE_OFF :: nat where "SB_NFFREE_OFF = 0xcc"

lemmas sb_offsets = SB_TIME_OFF_def SB_NDIR_OFF_def SB_NBFREE_OFF_def SB_NIFREE_OFF_def SB_NFFREE_OFF_def

text \<open>\<open>v = read(p); write(p, (uint32_t)(v + d));\<close>\<close>

definition bump_be32 :: "byte list \<Rightarrow> nat \<Rightarrow> int \<Rightarrow> byte list" where
  "bump_be32 b p d = nextufs__write_be32 b p (u32_add (nextufs__read_be32 b p) d)"

definition nextufs__update_summary_counts ::
  "nat \<Rightarrow> int \<Rightarrow> int \<Rightarrow> int \<Rightarrow> int \<Rightarrow> ('c nextufs_image, unit) io" where
  "nextufs__update_summary_counts cg d_ndir d_nbfree d_nifree d_nffree = bind_io get_io (\<lambda>img.
     let sb_off = slice_base img + 0x2000 in
     bind_io (nextufs__read_exact 2048 sb_off) (\<lambda>sbuf.
     let sbuf = bump_be32 sbuf SB_NDIR_OFF d_ndir;
         sbuf = bump_be32 sbuf SB_NBFREE_OFF d_nbfree;
         sbuf = bump_be32 sbuf SB_NIFREE_OFF d_nifree;
         sbuf = bump_be32 sbuf SB_NFFREE_OFF d_nffree in
     bind_io time_io (\<lambda>now.
     bind_io (nextufs__write_exact (nextufs__write_be32 sbuf SB_TIME_OFF now) sb_off) (\<lambda>_.
     let cs_off = slice_base img + int (cyl_summary_addr (sb img) * frag_size (sb img)) + int cg * 16 in
     bind_io (nextufs__read_exact 16 cs_off) (\<lambda>csum_buf.
     let csum_buf = bump_be32 csum_buf 0 d_ndir;
         csum_buf = bump_be32 csum_buf 4 d_nbfree;
         csum_buf = bump_be32 csum_buf 8 d_nifree;
         csum_buf = bump_be32 csum_buf 12 d_nffree in
     nextufs__write_exact csum_buf cs_off)))))"

lemma length_bump [simp]: "p + 4 \<le> length b \<Longrightarrow> length (bump_be32 b p d) = length b"
  by (simp add: bump_be32_def)

lemma read_bump [simp]:
  "p + 4 \<le> length b \<Longrightarrow> nextufs__read_be32 (bump_be32 b p d) p = u32_add (nextufs__read_be32 b p) d"
  by (simp add: bump_be32_def)

lemma read_bump_frame [simp]:
  "p + 4 \<le> length b \<Longrightarrow> q + 4 \<le> length b \<Longrightarrow> q + 4 \<le> p \<or> p + 4 \<le> q \<Longrightarrow>
   nextufs__read_be32 (bump_be32 b p d) q = nextufs__read_be32 b q"
  by (simp add: bump_be32_def)

section \<open>The codec is a round trip\<close>

text \<open>The values an inode can hold in C.\<close>

definition inode_ok :: "nextufs_inode \<Rightarrow> bool" where
  "inode_ok ino \<longleftrightarrow> i_mode ino < 2 ^ 16 \<and> i_nlink ino < 2 ^ 16 \<and> i_uid ino < 2 ^ 16 \<and>
     i_gid ino < 2 ^ 16 \<and> i_size ino < 2 ^ 64 \<and> i_atime ino < 2 ^ 32 \<and> i_mtime ino < 2 ^ 32 \<and>
     i_ctime ino < 2 ^ 32 \<and> length (i_db ino) = 12 \<and> length (i_ib ino) = 3 \<and>
     list_all (\<lambda>v. v < 2 ^ 32) (i_db ino @ i_ib ino) \<and> i_flags ino < 2 ^ 32 \<and>
     i_blocks ino < 2 ^ 32 \<and> i_gen ino < 2 ^ 32"

lemma length_write_words [simp]:
  "p + 4 * length vs \<le> length b \<Longrightarrow> length (write_words b p vs) = length b"
  by (induction vs arbitrary: b p) auto

lemma nth_write_words:
  "p + 4 * length vs \<le> length b \<Longrightarrow> i < p \<or> p + 4 * length vs \<le> i \<Longrightarrow> i < length b \<Longrightarrow>
   write_words b p vs ! i = b ! i"
proof (induction vs arbitrary: b p)
  case (Cons v vs)
  then show ?case using nth_write_be32 [of p b i v] by auto
qed simp

lemma read_be32_words_frame [simp]:
  "p + 4 * length vs \<le> length b \<Longrightarrow> q + 4 \<le> length b \<Longrightarrow> q + 4 \<le> p \<or> p + 4 * length vs \<le> q \<Longrightarrow>
   nextufs__read_be32 (write_words b p vs) q = nextufs__read_be32 b q"
  by (auto simp: read_be32_eq nth_write_words)

lemma read_be16_words_frame [simp]:
  "p + 4 * length vs \<le> length b \<Longrightarrow> q + 2 \<le> length b \<Longrightarrow> q + 2 \<le> p \<or> p + 4 * length vs \<le> q \<Longrightarrow>
   nextufs__read_be16 (write_words b p vs) q = nextufs__read_be16 b q"
  by (auto simp: read_be16_eq nth_write_words)

lemma read_write_words:
  "p + 4 * length vs \<le> length b \<Longrightarrow> i < length vs \<Longrightarrow>
   nextufs__read_be32 (write_words b p vs) (p + i * 4) = u32 (vs ! i)"
proof (induction vs arbitrary: b p i)
  case (Cons v vs)
  show ?case
  proof (cases i)
    case 0
    then show ?thesis using Cons.prems by simp
  next
    case (Suc j)
    with Cons.IH [of "p + 4" "nextufs__write_be32 b p v" j] Cons.prems show ?thesis
      by (simp add: add.assoc)
  qed
qed simp

lemma read_back_words:
  assumes "p + 4 * length vs \<le> length b" and "list_all (\<lambda>v. v < 4294967296) vs"
  shows "map (\<lambda>i. nextufs__read_be32 (write_words b p vs) (p + i * 4)) [0..<length vs] = vs"
  using assms by (intro nth_equalityI) (auto simp: read_write_words list_all_length)

lemma length_encode_inode:
  "length (i_db ino) = 12 \<Longrightarrow> length (i_ib ino) = 3 \<Longrightarrow> length (encode_inode ino) = 128"
  by (simp add: encode_inode_def UFS_INODE_SIZE_def)

text \<open>
  The same facts with the length as a parameter: a chain of writes to one buffer is evaluated with
  the length fixed, so that each step costs one comparison.
\<close>

lemma length_writes:
  "length b = n \<Longrightarrow> p + 2 \<le> n \<Longrightarrow> length (nextufs__write_be16 b p v) = n"
  "length b = n \<Longrightarrow> p + 4 \<le> n \<Longrightarrow> length (nextufs__write_be32 b p v) = n"
  "length b = n \<Longrightarrow> p + 8 \<le> n \<Longrightarrow> length (nextufs__write_be64 b p v) = n"
  by simp_all

lemma read_be16_writes:
  "length b = n \<Longrightarrow> p + 2 \<le> n \<Longrightarrow> nextufs__read_be16 (nextufs__write_be16 b p v) p = u16 v"
  "length b = n \<Longrightarrow> p + 2 \<le> n \<Longrightarrow> q + 2 \<le> n \<Longrightarrow> q + 2 \<le> p \<or> p + 2 \<le> q \<Longrightarrow>
   nextufs__read_be16 (nextufs__write_be16 b p v) q = nextufs__read_be16 b q"
  "length b = n \<Longrightarrow> p + 4 \<le> n \<Longrightarrow> q + 2 \<le> n \<Longrightarrow> q + 2 \<le> p \<or> p + 4 \<le> q \<Longrightarrow>
   nextufs__read_be16 (nextufs__write_be32 b p v) q = nextufs__read_be16 b q"
  "length b = n \<Longrightarrow> p + 8 \<le> n \<Longrightarrow> q + 2 \<le> n \<Longrightarrow> q + 2 \<le> p \<or> p + 8 \<le> q \<Longrightarrow>
   nextufs__read_be16 (nextufs__write_be64 b p v) q = nextufs__read_be16 b q"
  by (auto simp: nextufs__write_be64_def)

lemma read_be32_writes:
  "length b = n \<Longrightarrow> p + 4 \<le> n \<Longrightarrow> nextufs__read_be32 (nextufs__write_be32 b p v) p = u32 v"
  "length b = n \<Longrightarrow> p + 2 \<le> n \<Longrightarrow> q + 4 \<le> n \<Longrightarrow> q + 4 \<le> p \<or> p + 2 \<le> q \<Longrightarrow>
   nextufs__read_be32 (nextufs__write_be16 b p v) q = nextufs__read_be32 b q"
  "length b = n \<Longrightarrow> p + 4 \<le> n \<Longrightarrow> q + 4 \<le> n \<Longrightarrow> q + 4 \<le> p \<or> p + 4 \<le> q \<Longrightarrow>
   nextufs__read_be32 (nextufs__write_be32 b p v) q = nextufs__read_be32 b q"
  "length b = n \<Longrightarrow> p + 8 \<le> n \<Longrightarrow> q + 4 \<le> n \<Longrightarrow> q + 4 \<le> p \<or> p + 8 \<le> q \<Longrightarrow>
   nextufs__read_be32 (nextufs__write_be64 b p v) q = nextufs__read_be32 b q"
  by (auto simp: nextufs__write_be64_def)

lemmas buffer_writes = length_writes read_be16_writes read_be32_writes

lemma length_words:
  "length b = n \<Longrightarrow> p + 4 * length vs \<le> n \<Longrightarrow> length (write_words b p vs) = n"
  by simp

lemma read_words_frame:
  "length b = n \<Longrightarrow> p + 4 * length vs \<le> n \<Longrightarrow> q + 4 \<le> n \<Longrightarrow> q + 4 \<le> p \<or> p + 4 * length vs \<le> q \<Longrightarrow>
   nextufs__read_be32 (write_words b p vs) q = nextufs__read_be32 b q"
  "length b = n \<Longrightarrow> p + 4 * length vs \<le> n \<Longrightarrow> q + 2 \<le> n \<Longrightarrow> q + 2 \<le> p \<or> p + 4 * length vs \<le> q \<Longrightarrow>
   nextufs__read_be16 (write_words b p vs) q = nextufs__read_be16 b q"
  by auto

lemma read_words_at:
  "length b = n \<Longrightarrow> p + 4 * length vs \<le> n \<Longrightarrow> i < length vs \<Longrightarrow>
   nextufs__read_be32 (write_words b p vs) (p + i * 4) = u32 (vs ! i)"
  by (simp add: read_write_words)

lemmas inode_writes = length_writes [where n = 128] read_be16_writes [where n = 128]
  read_be32_writes [where n = 128] length_words [where n = 128] read_words_frame [where n = 128]

lemmas slow_writes = length_write_be16 length_write_be32 length_write_be64 length_write_words
  read_write_be16 read_write_be32 read_be32_frame read_be32_frame16 read_be16_frame
  read_be16_frame32 read_be32_words_frame read_be16_words_frame

lemma decode_encode_inode:
  assumes "inode_ok ino"
  shows "decode_inode (encode_inode ino) = ino"
proof (rule nextufs_inode.equality)
  note ok = assms [unfolded inode_ok_def]
  have len: "length (i_db ino) = 12" "length (i_ib ino) = 3" using ok by simp_all
  note d = decode_inode_def encode_inode_def UFS_INODE_SIZE_def Let_def len
  show "i_mode (decode_inode (encode_inode ino)) = i_mode ino"
    "i_nlink (decode_inode (encode_inode ino)) = i_nlink ino"
    "i_uid (decode_inode (encode_inode ino)) = i_uid ino"
    "i_gid (decode_inode (encode_inode ino)) = i_gid ino"
    using ok by (simp_all add: d u16_def inode_writes del: slow_writes)
  have "i_size ino div 4294967296 < 4294967296" using ok by (simp add: less_mult_imp_div_less)
  then show "i_size (decode_inode (encode_inode ino)) = i_size ino"
    using ok by (simp add: d read_be64_eq nextufs__write_be64_def inode_writes drop_bit_eq_div u32_def
      del: slow_writes)
  show "i_atime (decode_inode (encode_inode ino)) = i_atime ino"
    "i_mtime (decode_inode (encode_inode ino)) = i_mtime ino"
    "i_ctime (decode_inode (encode_inode ino)) = i_ctime ino"
    "i_flags (decode_inode (encode_inode ino)) = i_flags ino"
    "i_blocks (decode_inode (encode_inode ino)) = i_blocks ino"
    "i_gen (decode_inode (encode_inode ino)) = i_gen ino"
    using ok by (simp_all add: d inode_writes del: slow_writes)
  have elem: "u32 (i_db ino ! k) = i_db ino ! k" if "k < 12" for k
  proof -
    from ok have "list_all (\<lambda>v. v < 4294967296) (i_db ino)" by simp
    with that len show ?thesis by (simp add: list_all_length)
  qed
  have elem3: "u32 (i_ib ino ! k) = i_ib ino ! k" if "k < 3" for k
  proof -
    from ok have "list_all (\<lambda>v. v < 4294967296) (i_ib ino)" by simp
    with that len show ?thesis by (simp add: list_all_length)
  qed
  show "i_db (decode_inode (encode_inode ino)) = i_db ino"
    by (rule nth_equalityI)
      (auto simp: d inode_writes read_words_at [where n = 128] elem simp del: slow_writes)
  show "i_ib (decode_inode (encode_inode ino)) = i_ib ino"
    by (rule nth_equalityI)
      (auto simp: d inode_writes read_words_at [where n = 128] elem3 simp del: slow_writes)
qed (simp add: decode_inode_def)

section \<open>Where the inodes are\<close>

definition inode_total :: "'c nextufs_image \<Rightarrow> nat" where
  "inode_total img = cg_count (sb img) * inodes_per_group (sb img)"

lemma inode_offset_in_group:
  assumes v: "valid_image img" and i: "i < inode_total img"
  defines "cg \<equiv> i div inodes_per_group (sb img)"
  shows "\<exists>a. nextufs__inode_offset img i = slice_base img + int a \<and> cg < cg_count (sb img) \<and>
    a = (nextufs__cgstart (sb img) cg + ino_off (sb img)) * frag_size (sb img) + i mod inodes_per_group (sb img) * 128 \<and>
    frags_per_group (sb img) * cg * frag_size (sb img) \<le> a \<and>
    a + 128 \<le> frags_per_group (sb img) * (cg + 1) * frag_size (sb img) \<and>
    a + 128 \<le> frag_count (sb img) * frag_size (sb img)"
proof -
  let ?s = "sb img" let ?n = "i mod inodes_per_group (sb img)"
  let ?a = "(nextufs__cgstart ?s cg + ino_off ?s) * frag_size ?s + ?n * 128"
  from v have g: "valid_geometry ?s" by (simp add: valid_image_def)
  note vg = valid_geometryD [OF g]
  have cg: "cg < cg_count ?s" using i by (simp add: cg_def inode_total_def less_mult_imp_div_less)
  have "?n < inodes_per_group ?s" using vg(12) by simp
  then have "?a + 128 \<le> (nextufs__cgstart ?s cg + data_off ?s) * frag_size ?s"
    using vg(25) unfolding distrib_right by linarith
  moreover have "(nextufs__cgstart ?s cg + data_off ?s) * frag_size ?s \<le> frags_per_group ?s * (cg + 1) * frag_size ?s"
    by (intro mult_le_mono1 cgstart_exact(3) [OF g cg])
  moreover have "(nextufs__cgstart ?s cg + data_off ?s) * frag_size ?s \<le> frag_count ?s * frag_size ?s"
    by (intro mult_le_mono1 cgstart_in_slice [OF v cg])
  moreover have "frags_per_group ?s * cg * frag_size ?s \<le> nextufs__cgstart ?s cg * frag_size ?s"
    by (intro mult_le_mono1 cgstart_exact(2) [OF g cg])
  then have "frags_per_group ?s * cg * frag_size ?s \<le> ?a" unfolding distrib_right by linarith
  moreover have "nextufs__inode_offset img i = slice_base img + int ?a"
    unfolding cg_def by (rule inode_offset_exact [OF v i [unfolded inode_total_def]])
  ultimately show ?thesis using cg by (intro exI [of _ ?a] conjI) (assumption | rule refl | linarith)+
qed

lemma inode_offset_disjoint:
  assumes v: "valid_image img" and i: "i < inode_total img" and j: "j < inode_total img" and ne: "i \<noteq> j"
  shows "nextufs__inode_offset img i + 128 \<le> nextufs__inode_offset img j \<or>
    nextufs__inode_offset img j + 128 \<le> nextufs__inode_offset img i"
proof -
  have less: "nextufs__inode_offset img x + 128 \<le> nextufs__inode_offset img y"
    if x: "x < inode_total img" and y: "y < inode_total img" and xy: "x < y" for x y
  proof -
    let ?s = "sb img" let ?g = "inodes_per_group ?s"
    from inode_offset_in_group [OF v x] obtain a where a: "nextufs__inode_offset img x = slice_base img + int a"
      "a = (nextufs__cgstart ?s (x div ?g) + ino_off ?s) * frag_size ?s + x mod ?g * 128"
      "a + 128 \<le> frags_per_group ?s * (x div ?g + 1) * frag_size ?s" by blast
    from inode_offset_in_group [OF v y] obtain b where b: "nextufs__inode_offset img y = slice_base img + int b"
      "b = (nextufs__cgstart ?s (y div ?g) + ino_off ?s) * frag_size ?s + y mod ?g * 128"
      "frags_per_group ?s * (y div ?g) * frag_size ?s \<le> b" by blast
    have "x div ?g \<le> y div ?g" using xy by (intro div_le_mono) simp
    then consider "x div ?g = y div ?g" | "x div ?g + 1 \<le> y div ?g" by linarith
    then have "a + 128 \<le> b"
    proof cases
      case 1
      have "x div ?g * ?g + x mod ?g = x" "y div ?g * ?g + y mod ?g = y" by simp_all
      with xy have "x div ?g * ?g + x mod ?g < y div ?g * ?g + y mod ?g" by linarith
      then have "x mod ?g < y mod ?g" unfolding 1 by linarith
      with a(2) b(2) 1 show ?thesis by simp
    next
      case 2
      then have "frags_per_group ?s * (x div ?g + 1) * frag_size ?s \<le> frags_per_group ?s * (y div ?g) * frag_size ?s"
        by (intro mult_le_mono1 mult_le_mono2)
      with a(3) b(3) show ?thesis by linarith
    qed
    with a(1) b(1) show ?thesis by simp
  qed
  show ?thesis using less [OF i j] less [OF j i] ne by (cases "i < j") auto
qed

text \<open>The slice lies inside the image, as every successful open establishes.\<close>

definition slice_inside :: "'c nextufs_image \<Rightarrow> bool" where
  "slice_inside img \<longleftrightarrow> 0 \<le> slice_base img \<and> 0 \<le> slice_size img \<and>
     slice_base img + slice_size img \<le> image_size img \<and> image_size img < 2 ^ 63"

lemma inode_offset_inside:
  assumes v: "valid_image img" and s: "slice_inside img" and i: "i < inode_total img"
  shows "0 \<le> nextufs__inode_offset img i" and "nat (nextufs__inode_offset img i) + 128 \<le> nat (image_size img)"
proof -
  from inode_offset_in_group [OF v i] obtain a where a: "nextufs__inode_offset img i = slice_base img + int a"
    "a + 128 \<le> frag_count (sb img) * frag_size (sb img)" by blast
  from s have b: "0 \<le> slice_base img" "slice_base img + slice_size img \<le> image_size img"
    "0 \<le> slice_size img" "image_size img < 2 ^ 63" by (simp_all add: slice_inside_def)
  from v have "frag_count (sb img) * frag_size (sb img) \<le> of_off (slice_size img)" by (simp add: valid_image_def)
  moreover have "of_off (slice_size img) = nat (slice_size img)" using b by (intro of_off_id) simp_all
  ultimately have "int a + 128 \<le> slice_size img" using a(2) b(3) by linarith
  then show "0 \<le> nextufs__inode_offset img i" "nat (nextufs__inode_offset img i) + 128 \<le> nat (image_size img)"
    using a(1) b by linarith+
qed

lemma static_geometry:
  assumes "static a = static b"
  shows "nextufs_image_validate a = nextufs_image_validate b" "nextufs__inode_offset a i = nextufs__inode_offset b i"
    "inode_total a = inode_total b" "valid_image a = valid_image b" "slice_inside a = slice_inside b"
    "nextufs__cg_block_offset a cg = nextufs__cg_block_offset b cg"
  unfolding nextufs_image_validate_def nextufs__inode_offset_def inode_total_def valid_image_def
    slice_inside_def nextufs__cg_block_offset_def staticD [OF assms] by (rule refl)+

context backend
begin

lemma summary_counts_tx:
  "keeps (tx_inv ops disk binv D) (nextufs__update_summary_counts cg a b c d)"
  unfolding nextufs__update_summary_counts_def Let_def by (intro tx_rules)

lemma write_inode_tx: "keeps (tx_inv ops disk binv D) (nextufs__write_inode_raw i ino)"
  unfolding nextufs__write_inode_raw_def Let_def by (intro tx_rules)

lemma inode_read_tx: "keeps (tx_inv ops disk binv D) (nextufs_inode_read i)"
  unfolding nextufs_inode_read_def Let_def by (intro tx_rules)

end

context calm_backend
begin

lemma inode_read_calm:
  assumes c: "calm_image ops disk binv calm img" and v: "nextufs_image_validate img = Inr ()"
    and s: "slice_inside img" and i: "i < inode_total img"
  defines "x \<equiv> decode_inode (bytes_at (nat (nextufs__inode_offset img i)) 128 (disk (backend_ctx img)))"
  shows "\<exists>img'. nextufs_inode_read i img =
    (if INT32_MAX < i_size x then Inl EFBIG else Inr (x, nextufs__inode_offset img i), img') \<and>
    calm_image ops disk binv calm img' \<and> disk (backend_ctx img') = disk (backend_ctx img) \<and>
    static img' = static img"
proof -
  note off = inode_offset_inside [OF validate_valid_image [OF v] s i]
  have "nat (image_size img) = length (disk (backend_ctx img))"
    using calm_image_on [OF c] by (simp add: image_on_def)
  with read_exact_calm [OF c off(1), of 128] off(2) obtain img' where
    "nextufs__read_exact 128 (nextufs__inode_offset img i) img =
       (Inr (bytes_at (nat (nextufs__inode_offset img i)) 128 (disk (backend_ctx img))), img')"
    "calm_image ops disk binv calm img'" "disk (backend_ctx img') = disk (backend_ctx img)"
    "static img' = static img" by auto
  then show ?thesis
    using v off(1) i unfolding x_def
    by (auto simp: nextufs_inode_read_def io_defs inode_total_def UFS_INODE_SIZE_def Let_def)
qed

lemma inode_write_then_read:
  assumes c: "calm_image ops disk binv calm img" and w: "writable img"
    and v: "nextufs_image_validate img = Inr ()" and s: "slice_inside img" and i: "i < inode_total img"
    and ok: "inode_ok ino" and sz: "i_size ino \<le> INT32_MAX"
  shows "\<exists>img1. nextufs__write_inode_raw i ino img = (Inr (), img1) \<and>
    fst (nextufs_inode_read i img1) = Inr (ino, nextufs__inode_offset img i) \<and>
    (\<forall>j < inode_total img. j \<noteq> i \<longrightarrow> fst (nextufs_inode_read j img1) = fst (nextufs_inode_read j img))"
proof -
  let ?o = "\<lambda>i. nat (nextufs__inode_offset img i)"
  note vi = validate_valid_image [OF v]
  note off = inode_offset_inside [OF vi s i]
  have sz_img: "nat (image_size img) = length (disk (backend_ctx img))"
    using calm_image_on [OF c] by (simp add: image_on_def)
  have le: "length (encode_inode ino) = 128" using ok by (simp add: length_encode_inode inode_ok_def)
  from write_exact_calm [OF c w off(1), of "encode_inode ino"] off(2) sz_img le obtain img1 where
    w1: "nextufs__write_exact (encode_inode ino) (nextufs__inode_offset img i) img = (Inr (), img1)"
    and c1: "calm_image ops disk binv calm img1"
    and d1: "disk (backend_ctx img1) = overlay (?o i) (encode_inode ino) (disk (backend_ctx img))"
    and s1: "static img1 = static img" by auto
  note g1 = static_geometry [OF s1]
  have w2: "nextufs__write_inode_raw i ino img = (Inr (), img1)"
    using w1 off(1) by (simp add: nextufs__write_inode_raw_def io_defs)
  have rd: "\<exists>img'. nextufs_inode_read j img1 =
      (let x = decode_inode (bytes_at (?o j) 128 (disk (backend_ctx img1)))
       in if INT32_MAX < i_size x then Inl EFBIG else Inr (x, nextufs__inode_offset img j), img')"
    if "j < inode_total img" for j
    using inode_read_calm [OF c1, of j] that v s by (auto simp: g1 Let_def)
  have same: "bytes_at (?o i) 128 (disk (backend_ctx img1)) = encode_inode ino"
    using bytes_at_overlay_same [of "?o i" "encode_inode ino" "disk (backend_ctx img)"] off(2) sz_img le d1 by simp
  have other: "bytes_at (?o j) 128 (disk (backend_ctx img1)) = bytes_at (?o j) 128 (disk (backend_ctx img))"
    if j: "j < inode_total img" "j \<noteq> i" for j
    unfolding d1
    using inode_offset_disjoint [OF vi j(1) i j(2)] inode_offset_inside [OF vi s j(1)] off sz_img le
    by (intro bytes_at_overlay_disjoint) auto
  have "fst (nextufs_inode_read j img1) = fst (nextufs_inode_read j img)" if "j < inode_total img" "j \<noteq> i" for j
    using rd [OF that(1)] inode_read_calm [OF c v s that(1)] other [OF that] by (auto simp: Let_def)
  moreover have "fst (nextufs_inode_read i img1) = Inr (ino, nextufs__inode_offset img i)"
    using rd [OF i] sz same decode_encode_inode [OF ok] by (auto simp: Let_def)
  ultimately show ?thesis using w2 by blast
qed

end

section \<open>Properties\<close>

text \<open>
  C35. In an image that passes the validation, every inode number of the file system has an
  address, the 128 bytes there lie inside the slice, and different inodes do not overlap.
\<close>

theorem inode_table_separate:
  assumes "nextufs_image_validate img = Inr ()"
    and "i < cg_count (sb img) * inodes_per_group (sb img)"
    and "j < cg_count (sb img) * inodes_per_group (sb img)"
  shows "slice_base img \<le> nextufs__inode_offset img i \<and>
    nextufs__inode_offset img i + 128 \<le> slice_base img + int (frag_count (sb img) * frag_size (sb img)) \<and>
    (i \<noteq> j \<longrightarrow> nextufs__inode_offset img i + 128 \<le> nextufs__inode_offset img j \<or>
       nextufs__inode_offset img j + 128 \<le> nextufs__inode_offset img i)"
proof -
  note v = validate_valid_image [OF assms(1)]
  from inode_offset_in_group [OF v assms(2) [folded inode_total_def]] obtain a where
    "nextufs__inode_offset img i = slice_base img + int a"
    "a + 128 \<le> frag_count (sb img) * frag_size (sb img)" by blast
  then have "slice_base img \<le> nextufs__inode_offset img i"
    "nextufs__inode_offset img i + 128 \<le> slice_base img + int (frag_count (sb img) * frag_size (sb img))"
    by linarith+
  with inode_offset_disjoint [OF v assms(2,3) [folded inode_total_def]] show ?thesis by blast
qed

theorem inode_table_separate_witness:
  "slice_base (sample_image (replicate 32768 0)) \<le> nextufs__inode_offset (sample_image (replicate 32768 0)) 2 \<and>
    nextufs__inode_offset (sample_image (replicate 32768 0)) 2 + 128 \<le> 32768 \<and>
    (nextufs__inode_offset (sample_image (replicate 32768 0)) 2 + 128 \<le>
       nextufs__inode_offset (sample_image (replicate 32768 0)) 31 \<or>
     nextufs__inode_offset (sample_image (replicate 32768 0)) 31 + 128 \<le>
       nextufs__inode_offset (sample_image (replicate 32768 0)) 2)"
  using inode_table_separate [of "sample_image (replicate 32768 0)" 2 31]
    sample_valid [of "replicate 32768 0"] by simp

text \<open>
  C34. Over a plain file whose system calls all transfer something, writing an inode of a
  validated image succeeds, reading it back gives the same inode, field by field, and every other
  inode of the file system reads as before.
\<close>

theorem inode_disk_roundtrip:
  assumes "raw_image_calm img" and "writable img" and "nextufs_image_validate img = Inr ()"
    and "slice_inside img" and "i < cg_count (sb img) * inodes_per_group (sb img)"
    and "inode_ok ino" and "i_size ino \<le> INT32_MAX"
  shows "\<exists>img1. nextufs__write_inode_raw i ino img = (Inr (), img1) \<and>
    fst (nextufs_inode_read i img1) = Inr (ino, nextufs__inode_offset img i) \<and>
    (\<forall>j < cg_count (sb img) * inodes_per_group (sb img). j \<noteq> i \<longrightarrow>
       fst (nextufs_inode_read j img1) = fst (nextufs_inode_read j img))"
  using raw.inode_write_then_read [OF assms(1-4) _ assms(6,7)] assms(5) by (simp add: inode_total_def)

definition sample_inode :: nextufs_inode where
  "sample_inode = \<lparr>i_mode = 0x81a4, i_nlink = 1, i_uid = 20, i_gid = 5, i_size = 70000, i_atime = 1,
     i_mtime = 2, i_ctime = 3, i_db = [7, 0, 0, 0, 0, 0, 0, 0, 0, 0, 0, 9], i_ib = [11, 0, 0],
     i_flags = 0, i_blocks = 12, i_gen = 4\<rparr>"

theorem inode_disk_roundtrip_witness:
  "\<exists>img1. nextufs__write_inode_raw 3 sample_inode (sample_image (replicate 32768 0)) = (Inr (), img1) \<and>
    fst (nextufs_inode_read 3 img1) =
      Inr (sample_inode, nextufs__inode_offset (sample_image (replicate 32768 0)) 3) \<and>
    (\<forall>j < 1 * 32. j \<noteq> 3 \<longrightarrow> fst (nextufs_inode_read j img1) =
       fst (nextufs_inode_read j (sample_image (replicate 32768 0))))"
  using inode_disk_roundtrip [of "sample_image (replicate 32768 0)" 3 sample_inode]
    sample_valid [of "replicate 32768 0"] sample_calm [of "replicate 32768 0"]
  by (simp add: slice_inside_def inode_ok_def sample_inode_def INT32_MAX_def)

end
