(* ===== verification/Cg_Map.thy ===== *)
theory Cg_Map
  imports Inode
begin

text \<open>
  The free-fragment and used-inode bitmaps of a cylinder group, as \<^verbatim>\<open>src/core/alloc.c\<close> reads
  and changes them, and the census of the free space of a group that its counters must match:
  whole free blocks, free fragments of partly used blocks, and how many maximal runs of each
  length these form. A map is the buffer of the group and the offset \<open>m\<close> of the map in it.
\<close>

section \<open>Bits\<close>

definition map_bit :: "byte list \<Rightarrow> nat \<Rightarrow> nat \<Rightarrow> bool" where
  "map_bit b m k \<longleftrightarrow> b ! (m + k div 8) AND push_bit (k mod 8) 1 \<noteq> 0"

definition map_set :: "byte list \<Rightarrow> nat \<Rightarrow> nat \<Rightarrow> byte list" where
  "map_set b m k = b[m + k div 8 := b ! (m + k div 8) OR push_bit (k mod 8) 1]"

definition map_clear :: "byte list \<Rightarrow> nat \<Rightarrow> nat \<Rightarrow> byte list" where
  "map_clear b m k = b[m + k div 8 := b ! (m + k div 8) AND NOT (push_bit (k mod 8) 1)]"

definition nextufs__block_is_free :: "byte list \<Rightarrow> nat \<Rightarrow> nat \<Rightarrow> nat \<Rightarrow> bool" where
  "nextufs__block_is_free b m frag_base frags = list_all (\<lambda>i. map_bit b m (frag_base + i)) [0..<frags]"

definition nextufs__clear_block_bits :: "byte list \<Rightarrow> nat \<Rightarrow> nat \<Rightarrow> nat \<Rightarrow> byte list" where
  "nextufs__clear_block_bits b m frag_base frags =
     fold (\<lambda>i b. map_clear b m (frag_base + i)) [0..<frags] b"

definition nextufs__set_run_bits :: "byte list \<Rightarrow> nat \<Rightarrow> nat \<Rightarrow> nat \<Rightarrow> bool" where
  "nextufs__set_run_bits b m frag_base frags = list_all (\<lambda>i. map_bit b m (frag_base + i)) [0..<frags]"

text \<open>The two nested loops of \<open>nextufs__count_free_runs_in_block\<close>.\<close>

function run_from :: "byte list \<Rightarrow> nat \<Rightarrow> nat \<Rightarrow> nat \<Rightarrow> nat \<Rightarrow> nat" where
  "run_from b m base fpb i =
     (if i < fpb \<and> map_bit b m (base + i) then 1 + run_from b m base fpb (i + 1) else 0)"
  by pat_completeness auto
termination by (relation "measure (\<lambda>(b, m, base, fpb, i). fpb - i)") auto

declare run_from.simps [simp del]

function count_runs :: "byte list \<Rightarrow> nat \<Rightarrow> nat \<Rightarrow> nat \<Rightarrow> nat \<Rightarrow> nat list \<Rightarrow> nat list" where
  "count_runs b m base fpb i counts =
     (if i < fpb then
        let run = run_from b m base fpb i;
            counts = (if 0 < run \<and> run < fpb then counts[run := counts ! run + 1] else counts)
        in count_runs b m base fpb (i + (if 0 < run then run else 1)) counts
      else counts)"
  by pat_completeness auto
termination by (relation "measure (\<lambda>(b, m, base, fpb, i, c). fpb - i)") (auto simp: diff_less_mono2)

declare count_runs.simps [simp del]

definition nextufs__count_free_runs_in_block :: "byte list \<Rightarrow> nat \<Rightarrow> nat \<Rightarrow> nat \<Rightarrow> nat list" where
  "nextufs__count_free_runs_in_block b m block_frag_base fpb =
     count_runs b m block_frag_base fpb 0 (replicate (fpb + 1) 0)"

text \<open>\<open>frsum\<close> is at byte 52 of the group; the entries of length 0 and of a whole block are not kept.\<close>

definition nextufs__apply_cg_frsum_delta :: "byte list \<Rightarrow> nat list \<Rightarrow> nat list \<Rightarrow> nat \<Rightarrow> byte list" where
  "nextufs__apply_cg_frsum_delta buf before after fpb =
     fold (\<lambda>i buf. let frsum_off = 52 + i * 4; delta = int (after ! i) - int (before ! i) in
       if delta \<noteq> 0 then bump_be32 buf frsum_off delta else buf) [1..<fpb] buf"

section \<open>Bit lemmas\<close>

lemma and_bit_iff: "j < 8 \<Longrightarrow> (w :: byte) AND push_bit j 1 \<noteq> 0 \<longleftrightarrow> bit w j"
  by (simp add: push_bit_eq_mult and_exp_eq_0_iff_not_bit)

lemma map_bit_iff: "map_bit b m k \<longleftrightarrow> bit (b ! (m + k div 8)) (k mod 8)"
  unfolding map_bit_def by (rule and_bit_iff) simp

lemma same_bit_iff: "k div 8 = l div 8 \<and> k mod 8 = l mod 8 \<longleftrightarrow> k = (l :: nat)"
  by (metis div_mult_mod_eq)

lemma length_map_set [simp]: "length (map_set b m k) = length b"
  by (simp add: map_set_def)

lemma length_map_clear [simp]: "length (map_clear b m k) = length b"
  by (simp add: map_clear_def)

lemma map_bit_set:
  "m + k div 8 < length b \<Longrightarrow> map_bit (map_set b m k) m l \<longleftrightarrow> l = k \<or> map_bit b m l"
  using same_bit_iff [of l k]
  by (cases "l div 8 = k div 8")
    (auto simp: map_bit_iff map_set_def bit_or_iff bit_exp_iff possible_bit_word nth_list_update)

lemma map_bit_clear:
  "m + k div 8 < length b \<Longrightarrow> map_bit (map_clear b m k) m l \<longleftrightarrow> l \<noteq> k \<and> map_bit b m l"
  using same_bit_iff [of l k]
  by (cases "l div 8 = k div 8")
    (auto simp: map_bit_iff map_clear_def bit_and_iff bit_not_iff bit_exp_iff possible_bit_word nth_list_update)


lemma nth_map_set: "i \<noteq> m + k div 8 \<Longrightarrow> map_set b m k ! i = b ! i"
  by (simp add: map_set_def)

lemma nth_map_clear: "i \<noteq> m + k div 8 \<Longrightarrow> map_clear b m k ! i = b ! i"
  by (simp add: map_clear_def)

lemma map_bit_cong: "b ! (m + k div 8) = c ! (m + k div 8) \<Longrightarrow> map_bit b m k = map_bit c m k"
  by (simp add: map_bit_def)

lemma block_is_free_iff: "nextufs__block_is_free b m base n \<longleftrightarrow> (\<forall>i < n. map_bit b m (base + i))"
  by (auto simp: nextufs__block_is_free_def list_all_iff)

lemma set_run_bits_iff: "nextufs__set_run_bits b m base n \<longleftrightarrow> (\<forall>i < n. map_bit b m (base + i))"
  by (auto simp: nextufs__set_run_bits_def list_all_iff)

lemma clear_block_bits_Suc:
  "nextufs__clear_block_bits b m base (Suc n) = map_clear (nextufs__clear_block_bits b m base n) m (base + n)"
  by (simp add: nextufs__clear_block_bits_def)

lemma length_clear_block_bits [simp]: "length (nextufs__clear_block_bits b m base n) = length b"
  by (induction n) (simp_all add: nextufs__clear_block_bits_def)

lemma nth_clear_block_bits: "i < m \<Longrightarrow> nextufs__clear_block_bits b m base n ! i = b ! i"
proof (induction n)
  case (Suc n)
  then show ?case by (simp add: clear_block_bits_Suc nth_map_clear)
qed (simp add: nextufs__clear_block_bits_def)

lemma map_bit_clear_block_bits:
  assumes "m + (base + n + 7) div 8 \<le> length b"
  shows "map_bit (nextufs__clear_block_bits b m base n) m k \<longleftrightarrow>
    map_bit b m k \<and> \<not> (base \<le> k \<and> k < base + n)"
  using assms
proof (induction n)
  case (Suc n)
  have "m + (base + n) div 8 < length b" using Suc.prems by linarith
  moreover have "m + (base + n + 7) div 8 \<le> length b" using Suc.prems by linarith
  ultimately show ?case using Suc.IH by (auto simp: clear_block_bits_Suc map_bit_clear)
qed (simp add: nextufs__clear_block_bits_def)

text \<open>A field of the group header, below the map, is not changed by an update of the map.\<close>

lemma read_be32_clear_block_bits:
  "p + 4 \<le> m \<Longrightarrow> nextufs__read_be32 (nextufs__clear_block_bits b m base n) p = nextufs__read_be32 b p"
  by (intro read_be32_cong) (simp add: nth_clear_block_bits)

lemma read_be32_map_set:
  "p + 4 \<le> m \<Longrightarrow> nextufs__read_be32 (map_set b m k) p = nextufs__read_be32 b p"
  by (intro read_be32_cong) (simp add: nth_map_set)

lemma map_bit_write_be32 [simp]:
  "p + 4 \<le> m \<Longrightarrow> p + 4 \<le> length b \<Longrightarrow> m + k div 8 < length b \<Longrightarrow>
   map_bit (nextufs__write_be32 b p v) m k = map_bit b m k"
  by (intro map_bit_cong) (simp add: nth_write_be32)

lemma map_bit_write_be16 [simp]:
  "p + 2 \<le> m \<Longrightarrow> p + 2 \<le> length b \<Longrightarrow> m + k div 8 < length b \<Longrightarrow>
   map_bit (nextufs__write_be16 b p v) m k = map_bit b m k"
  by (intro map_bit_cong) (simp add: nth_write_be16)

section \<open>Runs\<close>

text \<open>
  The specification of the run count: the positions in a block where a maximal run of exactly
  \<open>k\<close> free fragments starts.
\<close>

definition run_starts :: "(nat \<Rightarrow> bool) \<Rightarrow> nat \<Rightarrow> nat \<Rightarrow> nat set" where
  "run_starts P fpb k = {i. i + k \<le> fpb \<and> (\<forall>j < k. P (i + j)) \<and> (0 < i \<longrightarrow> \<not> P (i - 1)) \<and>
     (i + k < fpb \<longrightarrow> \<not> P (i + k))}"

lemma finite_run_starts [simp]: "finite (run_starts P fpb k)"
  by (rule finite_subset [of _ "{..fpb}"]) (auto simp: run_starts_def)

lemma run_from_spec:
  assumes "i \<le> fpb"
  shows "i + run_from b m base fpb i \<le> fpb \<and>
    (\<forall>j < run_from b m base fpb i. map_bit b m (base + (i + j))) \<and>
    (i + run_from b m base fpb i < fpb \<longrightarrow> \<not> map_bit b m (base + (i + run_from b m base fpb i)))"
  using assms
proof (induction b m base fpb i rule: run_from.induct)
  case (1 b m base fpb i)
  show ?case
  proof (cases "i < fpb \<and> map_bit b m (base + i)")
    case False
    then show ?thesis using 1(2) by (auto simp: run_from.simps [of b m base fpb i])
  next
    case True
    let ?r = "run_from b m base fpb (i + 1)"
    have eq: "run_from b m base fpb i = Suc ?r" using True by (simp add: run_from.simps [of b m base fpb i])
    from 1(1) [OF True] True have IH: "i + 1 + ?r \<le> fpb" "\<forall>j < ?r. map_bit b m (base + (i + 1 + j))"
      "i + 1 + ?r < fpb \<longrightarrow> \<not> map_bit b m (base + (i + 1 + ?r))" by simp_all
    have "map_bit b m (base + (i + j))" if "j < Suc ?r" for j
      using that True IH(2) by (cases j) auto
    then show ?thesis using IH by (simp add: eq)
  qed
qed

lemma run_starts_at:
  assumes P: "\<And>j. P j = map_bit b m (base + j)" and i: "i < fpb" and k: "1 \<le> k"
    and start: "0 < i \<longrightarrow> \<not> P (i - 1) \<or> \<not> P i"
  defines "r \<equiv> run_from b m base fpb i"
  defines "n \<equiv> i + (if 0 < r then r else 1)"
  shows "{s \<in> run_starts P fpb k. i \<le> s} = (if k = r then {i} else {}) \<union> {s \<in> run_starts P fpb k. n \<le> s}"
    and "0 < n" and "n < fpb \<longrightarrow> \<not> P (n - 1) \<or> \<not> P n" and "i < n" and "n \<le> fpb"
proof -
  from run_from_spec [of i fpb b m base] i
  have r: "i + r \<le> fpb" "\<And>j. j < r \<Longrightarrow> P (i + j)" "i + r < fpb \<Longrightarrow> \<not> P (i + r)"
    unfolding r_def P by auto
  show "0 < n" "i < n" "n \<le> fpb" using i r(1) by (auto simp: n_def)
  have r0: "0 < r \<longleftrightarrow> P i" using i P by (simp add: r_def run_from.simps [of b m base fpb i])
  show "n < fpb \<longrightarrow> \<not> P (n - 1) \<or> \<not> P n" using r(3) r0 by (auto simp: n_def)
  show "{s \<in> run_starts P fpb k. i \<le> s} = (if k = r then {i} else {}) \<union> {s \<in> run_starts P fpb k. n \<le> s}"
  proof (intro equalityI subsetI)
    fix s assume s: "s \<in> {s \<in> run_starts P fpb k. i \<le> s}"
    then have rs: "s + k \<le> fpb" "\<And>j. j < k \<Longrightarrow> P (s + j)" "0 < s \<Longrightarrow> \<not> P (s - 1)"
      "s + k < fpb \<Longrightarrow> \<not> P (s + k)" and le: "i \<le> s" by (auto simp: run_starts_def)
    show "s \<in> (if k = r then {i} else {}) \<union> {s \<in> run_starts P fpb k. n \<le> s}"
    proof (cases "n \<le> s")
      case False
      have Ps: "P s" using rs(2) [of 0] k by simp
      have si: "s = i"
      proof (rule ccontr)
        assume "s \<noteq> i"
        with le have "i < s" by simp
        with False have "s - 1 < i + r" "0 < s" by (auto simp: n_def split: if_splits)
        with \<open>i < s\<close> have "P (i + (s - 1 - i))" by (intro r(2)) simp
        with rs(3) \<open>i < s\<close> show False by simp
      qed
      have "k = r"
      proof (rule ccontr)
        assume "k \<noteq> r"
        then consider "k < r" | "r < k" by linarith
        then show False
        proof cases
          case 1
          then have "P (i + k)" by (rule r(2))
          with rs(4) si 1 r(1) show False by simp
        next
          case 2
          then have "P (i + r)" using rs(2) si by blast
          with r(3) 2 rs(1) si show False by simp
        qed
      qed
      with si show ?thesis by simp
    qed (use s in simp)
  next
    fix s assume s: "s \<in> (if k = r then {i} else {}) \<union> {s \<in> run_starts P fpb k. n \<le> s}"
    show "s \<in> {s \<in> run_starts P fpb k. i \<le> s}"
    proof (cases "s \<in> run_starts P fpb k \<and> n \<le> s")
      case True
      then show ?thesis using \<open>i < n\<close> by simp
    next
      case False
      with s have "s = i" "k = r" by (auto split: if_splits)
      with r r0 start k show ?thesis by (auto simp: run_starts_def)
    qed
  qed
qed

lemma count_runs_spec:
  assumes "\<And>j. P j = map_bit b m (base + j)" and "1 \<le> k" and "k < fpb" and "length c = fpb + 1"
    and "i < fpb \<and> 0 < i \<longrightarrow> \<not> P (i - 1) \<or> \<not> P i"
  shows "length (count_runs b m base fpb i c) = fpb + 1 \<and>
    count_runs b m base fpb i c ! k = c ! k + card {s \<in> run_starts P fpb k. i \<le> s}"
  using assms
proof (induction b m base fpb i c rule: count_runs.induct)
  case (1 b m base fpb i c)
  show ?case
  proof (cases "i < fpb")
    case False
    with "1.prems"(2) have "{s \<in> run_starts P fpb k. i \<le> s} = {}" by (auto simp: run_starts_def)
    then show ?thesis using False "1.prems"(4) by (simp add: count_runs.simps [of b m base fpb i c])
  next
    case True
    let ?r = "run_from b m base fpb i"
    let ?c = "if 0 < ?r \<and> ?r < fpb then c[?r := c ! ?r + 1] else c"
    let ?n = "i + (if 0 < ?r then ?r else 1)"
    note at = run_starts_at [OF "1.prems"(1) True "1.prems"(2)]
    have start: "0 < i \<longrightarrow> \<not> P (i - 1) \<or> \<not> P i" using "1.prems"(5) True by blast
    have len: "length ?c = fpb + 1" using "1.prems"(4) by simp
    have nxt: "?n < fpb \<and> 0 < ?n \<longrightarrow> \<not> P (?n - 1) \<or> \<not> P ?n" using at(3) [OF start] by blast
    note IH = "1.IH" [OF True refl refl "1.prems"(1-3) len nxt]
    have "i \<notin> {s \<in> run_starts P fpb k. ?n \<le> s}" using at(4) [OF start] by simp
    then have "card {s \<in> run_starts P fpb k. i \<le> s} =
        (if k = ?r then 1 else 0) + card {s \<in> run_starts P fpb k. ?n \<le> s}"
      unfolding at(1) [OF start] by simp
    moreover have "?c ! k = c ! k + (if k = ?r then 1 else 0)" using "1.prems"(2-4) by (auto simp: nth_list_update)
    moreover have "count_runs b m base fpb i c = count_runs b m base fpb ?n ?c"
      using True by (subst count_runs.simps) (simp add: Let_def)
    ultimately show ?thesis using IH by (simp only: add.assoc)
  qed
qed

lemma count_free_runs_spec:
  assumes "1 \<le> k" and "k < fpb"
  shows "nextufs__count_free_runs_in_block b m base fpb ! k =
    card (run_starts (\<lambda>i. map_bit b m (base + i)) fpb k)"
  using count_runs_spec [OF refl assms, of "replicate (fpb + 1) 0" 0 b m base] assms
  by (simp add: nextufs__count_free_runs_in_block_def del: replicate_Suc)

section \<open>The run-length summary\<close>

lemma frsum_delta_upto:
  fixes before after :: "nat list"
  assumes "n \<le> 8" and "84 \<le> length buf"
  defines "f \<equiv> (\<lambda>i buf. let frsum_off = 52 + i * 4; delta = int (after ! i) - int (before ! i) in
       if delta \<noteq> 0 then bump_be32 buf frsum_off delta else buf)"
  shows "length (fold f [1..<n] buf) = length buf \<and>
    (\<forall>i. (i < 52 \<or> 84 \<le> i) \<and> i < length buf \<longrightarrow> fold f [1..<n] buf ! i = buf ! i) \<and>
    (\<forall>k. 1 \<le> k \<and> k < 8 \<longrightarrow> nextufs__read_be32 (fold f [1..<n] buf) (52 + k * 4) =
       (if k < n then u32_add (nextufs__read_be32 buf (52 + k * 4)) (int (after ! k) - int (before ! k))
        else nextufs__read_be32 buf (52 + k * 4)))"
  using assms(1)
proof (induction n)
  case (Suc n)
  show ?case
  proof (cases "n = 0")
    case False
    let ?b = "fold f [1..<n] buf"
    from False have eq: "fold f [1..<Suc n] buf = f n ?b" by simp
    from Suc have len: "length ?b = length buf"
      and out: "\<And>i. (i < 52 \<or> 84 \<le> i) \<and> i < length buf \<Longrightarrow> ?b ! i = buf ! i"
      and rd: "\<And>k. 1 \<le> k \<Longrightarrow> k < 8 \<Longrightarrow> nextufs__read_be32 ?b (52 + k * 4) =
       (if k < n then u32_add (nextufs__read_be32 buf (52 + k * 4)) (int (after ! k) - int (before ! k))
        else nextufs__read_be32 buf (52 + k * 4))" by simp_all
    have n8: "52 + n * 4 + 4 \<le> length ?b" using Suc.prems assms(2) len by linarith
    have zero: "u32_add v 0 = v" if "v < 4294967296" for v using that by (simp add: u32_add_def)
    have "length (f n ?b) = length buf" using len n8 by (simp add: f_def Let_def)
    moreover have "f n ?b ! i = buf ! i" if "(i < 52 \<or> 84 \<le> i) \<and> i < length buf" for i
      using out [OF that] that n8 Suc.prems len
      by (auto simp: f_def Let_def bump_be32_def nth_write_be32)
    moreover have "nextufs__read_be32 (f n ?b) (52 + k * 4) =
       (if k < Suc n then u32_add (nextufs__read_be32 buf (52 + k * 4)) (int (after ! k) - int (before ! k))
        else nextufs__read_be32 buf (52 + k * 4))" if k: "1 \<le> k" "k < 8" for k
    proof (cases "k = n")
      case True
      then show ?thesis using rd [OF k] n8 zero by (simp add: f_def Let_def)
    next
      case False
      then have "52 + k * 4 + 4 \<le> 52 + n * 4 \<or> 52 + n * 4 + 4 \<le> 52 + k * 4" by linarith
      moreover have "52 + k * 4 + 4 \<le> length ?b" using k assms(2) len by linarith
      ultimately show ?thesis using rd [OF k] n8 False by (simp add: f_def Let_def)
    qed
    ultimately show ?thesis unfolding eq by blast
  qed simp
qed simp

lemma frsum_delta:
  assumes "fpb \<le> 8" and "84 \<le> length buf"
  shows "length (nextufs__apply_cg_frsum_delta buf before after fpb) = length buf"
    and "\<And>i. i < 52 \<or> 84 \<le> i \<Longrightarrow> i < length buf \<Longrightarrow>
      nextufs__apply_cg_frsum_delta buf before after fpb ! i = buf ! i"
    and "\<And>k. 1 \<le> k \<Longrightarrow> k < fpb \<Longrightarrow>
      nextufs__read_be32 (nextufs__apply_cg_frsum_delta buf before after fpb) (52 + k * 4) =
      u32_add (nextufs__read_be32 buf (52 + k * 4)) (int (after ! k) - int (before ! k))"
  using frsum_delta_upto [OF assms, of after before] assms(1)
  unfolding nextufs__apply_cg_frsum_delta_def by auto

section \<open>The census of a group\<close>

text \<open>
  \<open>P\<close> tells which fragments of a group of \<open>N\<close> blocks of \<open>fpb\<close> fragments are free. A block that is
  free as a whole counts as a block, any other by its free fragments.
\<close>

definition whole_free :: "(nat \<Rightarrow> bool) \<Rightarrow> nat \<Rightarrow> nat \<Rightarrow> bool" where
  "whole_free P fpb j \<longleftrightarrow> (\<forall>i < fpb. P (j * fpb + i))"

definition block_frags :: "(nat \<Rightarrow> bool) \<Rightarrow> nat \<Rightarrow> nat \<Rightarrow> nat" where
  "block_frags P fpb j = card {i. i < fpb \<and> P (j * fpb + i)}"

definition free_blocks :: "(nat \<Rightarrow> bool) \<Rightarrow> nat \<Rightarrow> nat \<Rightarrow> nat" where
  "free_blocks P fpb N = (\<Sum>j < N. if whole_free P fpb j then 1 else 0)"

definition free_frags :: "(nat \<Rightarrow> bool) \<Rightarrow> nat \<Rightarrow> nat \<Rightarrow> nat" where
  "free_frags P fpb N = (\<Sum>j < N. if whole_free P fpb j then 0 else block_frags P fpb j)"

definition free_runs :: "(nat \<Rightarrow> bool) \<Rightarrow> nat \<Rightarrow> nat \<Rightarrow> nat \<Rightarrow> nat" where
  "free_runs P fpb N k = (\<Sum>j < N. card (run_starts (\<lambda>i. P (j * fpb + i)) fpb k))"

lemma run_starts_cong:
  assumes "\<And>i. i < fpb \<Longrightarrow> Q i = P i"
  shows "run_starts Q fpb k = run_starts P fpb k"
  unfolding run_starts_def using assms by (intro Collect_cong conj_cong imp_cong all_cong refl) auto

lemma sum_change:
  fixes f g :: "nat \<Rightarrow> nat"
  assumes "j < N" and "\<And>i. i < N \<Longrightarrow> i \<noteq> j \<Longrightarrow> g i = f i"
  shows "(\<Sum>i < N. g i) + f j = (\<Sum>i < N. f i) + g j"
proof -
  have "(\<Sum>i < N. f i) = f j + (\<Sum>i \<in> {..<N} - {j}. f i)" "(\<Sum>i < N. g i) = g j + (\<Sum>i \<in> {..<N} - {j}. g i)"
    using assms(1) by (intro sum.remove; simp)+
  moreover have "(\<Sum>i \<in> {..<N} - {j}. g i) = (\<Sum>i \<in> {..<N} - {j}. f i)"
    using assms(2) by (intro sum.cong) auto
  ultimately show ?thesis by simp
qed

lemma block_of:
  fixes i :: nat
  assumes "i < fpb" and "j * fpb \<le> j' * fpb + i" and "j' * fpb + i < j * fpb + fpb"
  shows "j = j'"
proof -
  have "(j' * fpb + i) div fpb = j'" using assms(1) by simp
  moreover have "(j' * fpb + i) div fpb = j"
    using assms(2,3) by (intro div_nat_eqI) (simp_all add: mult.commute)
  ultimately show ?thesis by simp
qed

text \<open>A change confined to block \<open>j\<close> changes the census by the difference of that block.\<close>

lemma census_change:
  assumes j: "j < N" and same: "\<And>k. k < j * fpb \<or> j * fpb + fpb \<le> k \<Longrightarrow> Q k = P k"
  shows "free_blocks Q fpb N + (if whole_free P fpb j then 1 else 0) =
      free_blocks P fpb N + (if whole_free Q fpb j then 1 else 0)"
    and "free_frags Q fpb N + (if whole_free P fpb j then 0 else block_frags P fpb j) =
      free_frags P fpb N + (if whole_free Q fpb j then 0 else block_frags Q fpb j)"
    and "free_runs Q fpb N k + card (run_starts (\<lambda>i. P (j * fpb + i)) fpb k) =
      free_runs P fpb N k + card (run_starts (\<lambda>i. Q (j * fpb + i)) fpb k)"
proof -
  have eq: "Q (j' * fpb + i) = P (j' * fpb + i)" if "i < fpb" "j' \<noteq> j" for i j'
  proof (rule same, rule ccontr)
    assume "\<not> (j' * fpb + i < j * fpb \<or> j * fpb + fpb \<le> j' * fpb + i)"
    then have "j * fpb \<le> j' * fpb + i" "j' * fpb + i < j * fpb + fpb" by simp_all
    from block_of [OF that(1) this] that(2) show False by simp
  qed
  have wf: "whole_free Q fpb j' = whole_free P fpb j'" if "j' \<noteq> j" for j'
    using eq that by (auto simp: whole_free_def)
  have bf: "block_frags Q fpb j' = block_frags P fpb j'" if "j' \<noteq> j" for j'
    using eq that unfolding block_frags_def by (intro arg_cong [where f = card]) auto
  have rs: "run_starts (\<lambda>i. Q (j' * fpb + i)) fpb k = run_starts (\<lambda>i. P (j' * fpb + i)) fpb k" if "j' \<noteq> j" for j'
    using eq [OF _ that] by (intro run_starts_cong)
  show "free_blocks Q fpb N + (if whole_free P fpb j then 1 else 0) =
      free_blocks P fpb N + (if whole_free Q fpb j then 1 else 0)"
    unfolding free_blocks_def by (rule sum_change [OF j]) (simp add: wf)
  show "free_frags Q fpb N + (if whole_free P fpb j then 0 else block_frags P fpb j) =
      free_frags P fpb N + (if whole_free Q fpb j then 0 else block_frags Q fpb j)"
    unfolding free_frags_def by (rule sum_change [OF j]) (simp add: wf bf)
  show "free_runs Q fpb N k + card (run_starts (\<lambda>i. P (j * fpb + i)) fpb k) =
      free_runs P fpb N k + card (run_starts (\<lambda>i. Q (j * fpb + i)) fpb k)"
    unfolding free_runs_def by (rule sum_change [OF j]) (simp add: rs)
qed

end
