(* ===== verification/Alloc.thy ===== *)
theory Alloc
  imports Cg_Map
begin

text \<open>
  The allocators of \<^verbatim>\<open>src/core/alloc.c\<close>: inodes, runs of fragments, whole blocks. Each reads a
  cylinder group, changes its map and counters in memory, writes the group back and then the
  summary counters of the superblock and of the summary area. What an operation does to the buffer
  is a definition of its own, between the read and the write; the lemmas show that it keeps the
  counters equal to the census of the map.

  Indices into a group are at most \<open>frags_per_group\<close>, which every accepted geometry bounds by
  57664, so the 32-bit sums of indices are written without their reduction.
\<close>

section \<open>The cylinder group header\<close>

definition CG_MAGIC :: nat where "CG_MAGIC = 0x00090255"
definition NRPOS :: nat where "NRPOS = 8"
definition CG_TIME_OFF :: nat where "CG_TIME_OFF = 8"
definition CG_NDBLK_OFF :: nat where "CG_NDBLK_OFF = 20"
definition CG_CS_NDIR_OFF :: nat where "CG_CS_NDIR_OFF = 24"
definition CG_CS_NBFREE_OFF :: nat where "CG_CS_NBFREE_OFF = 28"
definition CG_CS_NIFREE_OFF :: nat where "CG_CS_NIFREE_OFF = 32"
definition CG_CS_NFFREE_OFF :: nat where "CG_CS_NFFREE_OFF = 36"
definition CG_ROTOR_OFF :: nat where "CG_ROTOR_OFF = 40"
definition CG_IROTOR_OFF :: nat where "CG_IROTOR_OFF = 48"
definition CG_BTOT_OFF :: nat where "CG_BTOT_OFF = 84"
definition CG_BPOS_OFF :: nat where "CG_BPOS_OFF = 212"
definition CG_IUSED_OFF :: nat where "CG_IUSED_OFF = 724"
definition CG_MAGIC_OFF :: nat where "CG_MAGIC_OFF = 980"

lemmas cg_offsets = CG_TIME_OFF_def CG_NDBLK_OFF_def CG_CS_NDIR_OFF_def CG_CS_NBFREE_OFF_def
  CG_CS_NIFREE_OFF_def CG_CS_NFFREE_OFF_def CG_ROTOR_OFF_def CG_IROTOR_OFF_def CG_BTOT_OFF_def
  CG_BPOS_OFF_def CG_IUSED_OFF_def CG_MAGIC_OFF_def CG_FREE_OFF_def

text \<open>Reading a group for an update: \<open>malloc\<close>, the exact read and the test of the magic number.\<close>

definition read_cg :: "nat \<Rightarrow> ('c nextufs_image, byte list) io" where
  "read_cg cg = bind_io get_io (\<lambda>img.
     bind_io (malloc_io (cg_size (sb img))) (\<lambda>_.
     bind_io (nextufs__read_exact (cg_size (sb img)) (nextufs__cg_block_offset img cg)) (\<lambda>buf.
     if nextufs__read_be32 buf CG_MAGIC_OFF \<noteq> CG_MAGIC then fail EINVAL else ret buf)))"

definition write_cg :: "nat \<Rightarrow> byte list \<Rightarrow> ('c nextufs_image, unit) io" where
  "write_cg cg buf = bind_io get_io (\<lambda>img.
     nextufs__write_exact buf (nextufs__cg_block_offset img cg))"

definition reserve_available :: "nat \<Rightarrow> ('c nextufs_image, unit) io" where
  "reserve_available needed = bind_io get_io (\<lambda>img.
     if \<not> unprivileged img then ret ()
     else if 99 < minfree (sb img) then fail EINVAL
     else bind_io (nextufs__read_exact 12 (slice_base img + 8192 + 0xc4)) (\<lambda>totals.
       let available = nextufs__read_be32 totals 0 * frags_per_block (sb img) +
             nextufs__read_be32 totals 8;
           reserve = data_frag_count (sb img) * minfree (sb img) div 100
       in if available < reserve \<or> available - reserve < needed then fail ENOSPC else ret ()))"

section \<open>Inodes\<close>

text \<open>The loop that looks for a free inode from the rotor on; inodes 0 and 1 are never handed out.\<close>

definition free_inode_search :: "byte list \<Rightarrow> nat \<Rightarrow> nat \<Rightarrow> nat \<Rightarrow> nat option" where
  "free_inode_search buf cg start ipg =
     find (\<lambda>idx. (cg \<noteq> 0 \<or> 2 \<le> idx) \<and> \<not> map_bit buf CG_IUSED_OFF idx)
       (map (\<lambda>i. (start + i) mod ipg) [0..<ipg])"

definition is_dir_mode :: "nat \<Rightarrow> bool" where
  "is_dir_mode mode \<longleftrightarrow> mode AND NEXTUFS_IFMT = NEXTUFS_IFDIR"

definition cg_take_inode :: "byte list \<Rightarrow> nat \<Rightarrow> nat \<Rightarrow> nat \<Rightarrow> byte list" where
  "cg_take_inode buf ipref mode now =
     (let buf = map_set buf CG_IUSED_OFF ipref;
          buf = nextufs__write_be32 buf CG_IROTOR_OFF ipref;
          buf = bump_be32 buf CG_CS_NIFREE_OFF (- 1);
          buf = nextufs__write_be32 buf CG_TIME_OFF now
      in if is_dir_mode mode then bump_be32 buf CG_CS_NDIR_OFF 1 else buf)"

definition allocate_inode_in_group :: "nat \<Rightarrow> nat \<Rightarrow> ('c nextufs_image, nat) io" where
  "allocate_inode_in_group cg mode = bind_io get_io (\<lambda>img.
     bind_io (read_cg cg) (\<lambda>buf.
     if nextufs__read_be32 buf CG_CS_NIFREE_OFF = 0 then fail ENOSPC
     else
       let ipg = inodes_per_group (sb img);
           start = nextufs__read_be32 buf CG_IROTOR_OFF;
           start = (if ipg \<le> start then 0 else start)
       in case free_inode_search buf cg start ipg of
            None \<Rightarrow> fail ENOSPC
          | Some ipref \<Rightarrow>
              bind_io time_io (\<lambda>now.
              bind_io (write_cg cg (cg_take_inode buf ipref mode now)) (\<lambda>_.
              bind_io (nextufs__update_summary_counts cg (if is_dir_mode mode then 1 else 0) 0 (- 1) 0) (\<lambda>_.
              ret (u32 (cg * ipg + ipref)))))))"

text \<open>
  Trying the groups in turn: the first result other than \<open>ENOSPC\<close> ends the loop. \<open>cg + i\<close> is a
  32-bit sum.
\<close>

fun first_not_full :: "('s, 'a) io list \<Rightarrow> ('s, 'a) io" where
  "first_not_full [] = fail ENOSPC"
| "first_not_full (m # ms) = (\<lambda>s. case m s of
     (Inl ENOSPC, s') \<Rightarrow> first_not_full ms s'
   | (r, s') \<Rightarrow> (r, s'))"

definition nextufs__allocate_inode_in_group :: "nat \<Rightarrow> nat \<Rightarrow> ('c nextufs_image, nat) io" where
  "nextufs__allocate_inode_in_group cg mode = bind_io get_io (\<lambda>img.
     first_not_full (map (\<lambda>i. allocate_inode_in_group (u32 (cg + i) mod cg_count (sb img)) mode)
       [0..<cg_count (sb img)]))"

definition cg_drop_inode :: "byte list \<Rightarrow> nat \<Rightarrow> nat \<Rightarrow> nat \<Rightarrow> byte list" where
  "cg_drop_inode buf local_ino mode now =
     (let buf = map_clear buf CG_IUSED_OFF local_ino;
          buf = bump_be32 buf CG_CS_NIFREE_OFF 1;
          buf = nextufs__write_be32 buf CG_TIME_OFF now
      in if is_dir_mode mode then bump_be32 buf CG_CS_NDIR_OFF (- 1) else buf)"

definition nextufs__free_inode_in_group :: "nat \<Rightarrow> nat \<Rightarrow> ('c nextufs_image, unit) io" where
  "nextufs__free_inode_in_group inode_no mode = bind_io get_io (\<lambda>img.
     let cg = inode_no div inodes_per_group (sb img);
         local_ino = inode_no mod inodes_per_group (sb img) in
     bind_io (read_cg cg) (\<lambda>buf.
     if \<not> map_bit buf CG_IUSED_OFF local_ino then fail EINVAL
     else bind_io time_io (\<lambda>now.
       bind_io (write_cg cg (cg_drop_inode buf local_ino mode now)) (\<lambda>_.
       nextufs__update_summary_counts cg (if is_dir_mode mode then - 1 else 0) 0 1 0))))"

section \<open>Fragments\<close>

definition bump_be16 :: "byte list \<Rightarrow> nat \<Rightarrow> int \<Rightarrow> byte list" where
  "bump_be16 b p d = nextufs__write_be16 b p (nat ((int (nextufs__read_be16 b p) + d) mod 2 ^ 16))"

text \<open>The rotational position table, updated when a whole block is taken or given back.\<close>

definition bump_rotational :: "nextufs_superblock \<Rightarrow> byte list \<Rightarrow> nat \<Rightarrow> int \<Rightarrow> byte list" where
  "bump_rotational s buf local_frag d =
     (let sector = u32 (local_frag * sectors_per_frag s);
          cylno = sector div sectors_per_cyl s;
          rotpos = u32 (sector mod sectors_per_cyl s mod sectors_per_track s * NRPOS) div sectors_per_track s
      in if cylno < 32 \<and> rotpos < NRPOS
         then bump_be16 (bump_be32 buf (CG_BTOT_OFF + cylno * 4) d)
                (CG_BPOS_OFF + (cylno * NRPOS + rotpos) * 2) d
         else buf)"

definition cg_take_partial ::
  "nextufs_superblock \<Rightarrow> byte list \<Rightarrow> nat \<Rightarrow> nat \<Rightarrow> nat \<Rightarrow> nat \<Rightarrow> byte list" where
  "cg_take_partial s buf local_frag start frags_needed now =
     (let fpb = frags_per_block s;
          before = nextufs__count_free_runs_in_block buf CG_FREE_OFF local_frag fpb;
          buf = nextufs__clear_block_bits buf CG_FREE_OFF start frags_needed;
          after = nextufs__count_free_runs_in_block buf CG_FREE_OFF local_frag fpb;
          buf = nextufs__apply_cg_frsum_delta buf before after fpb;
          buf = bump_be32 buf CG_CS_NFFREE_OFF (- int frags_needed)
      in nextufs__write_be32 buf CG_TIME_OFF now)"

definition cg_take_block :: "nextufs_superblock \<Rightarrow> byte list \<Rightarrow> nat \<Rightarrow> nat \<Rightarrow> nat \<Rightarrow> byte list" where
  "cg_take_block s buf local_frag frags_needed now =
     (let buf = nextufs__clear_block_bits buf CG_FREE_OFF local_frag frags_needed;
          buf = nextufs__write_be32 buf CG_ROTOR_OFF local_frag;
          buf = bump_be32 buf CG_CS_NBFREE_OFF (- 1);
          free_frags = frags_per_block s - frags_needed;
          buf = bump_be32 buf CG_CS_NFFREE_OFF (int free_frags);
          buf = (if 0 < free_frags then bump_be32 buf (52 + free_frags * 4) 1 else buf);
          buf = nextufs__write_be32 buf CG_TIME_OFF now
      in bump_rotational s buf local_frag (- 1))"

text \<open>The first element for which a search body does not \<open>continue\<close>.\<close>

fun first_some :: "('a \<Rightarrow> 'b option) \<Rightarrow> 'a list \<Rightarrow> 'b option" where
  "first_some f [] = None"
| "first_some f (x # xs) = (case f x of None \<Rightarrow> first_some f xs | Some y \<Rightarrow> Some y)"

text \<open>
  The two searches of \<open>nextufs__allocate_frags_in_group\<close>: a run in a partly used block, then a
  whole free block. The loops step by \<open>frags_per_block\<close>, from 0 while below \<open>limit\<close>.
\<close>

definition find_partial :: "nextufs_superblock \<Rightarrow> byte list \<Rightarrow> nat \<Rightarrow> nat \<Rightarrow> (nat \<times> nat) option" where
  "find_partial s buf limit frags_needed =
     (let fpb = frags_per_block s in
      first_some (\<lambda>local_frag.
        let end = min (local_frag + fpb) limit in
        if end - local_frag = fpb \<and> nextufs__block_is_free buf CG_FREE_OFF local_frag fpb then None
        else map_option (\<lambda>start. (local_frag, start))
          (find (\<lambda>start. nextufs__set_run_bits buf CG_FREE_OFF start frags_needed)
            [local_frag..<end + 1 - frags_needed]))
      (map (\<lambda>j. j * fpb) [0..<(limit + fpb - 1) div fpb]))"

definition find_whole :: "nextufs_superblock \<Rightarrow> byte list \<Rightarrow> nat \<Rightarrow> nat option" where
  "find_whole s buf limit =
     find (\<lambda>local_frag. nextufs__block_is_free buf CG_FREE_OFF local_frag (frags_per_block s))
       (map (\<lambda>j. j * frags_per_block s) [0..<limit div frags_per_block s])"

definition nextufs__allocate_frags_in_group :: "nat \<Rightarrow> nat \<Rightarrow> ('c nextufs_image, nat) io" where
  "nextufs__allocate_frags_in_group cg frags_needed = bind_io get_io (\<lambda>img.
     let s = sb img; fpb = frags_per_block s in
     if frags_needed = 0 \<or> fpb < frags_needed then fail EINVAL
     else bind_io (read_cg cg) (\<lambda>buf.
       let limit = nextufs__read_be32 buf CG_NDBLK_OFF in
       if frags_per_group s < limit \<or> frag_count s < cg * frags_per_group s + limit \<or>
          cg_size s < CG_FREE_OFF + u32 (limit + 7) div 8
       then fail EINVAL
       else
         case (if frags_needed < fpb \<and> frags_needed \<le> nextufs__read_be32 buf CG_CS_NFFREE_OFF
               then find_partial s buf limit frags_needed else None) of
           Some (local_frag, start) \<Rightarrow>
             bind_io time_io (\<lambda>now.
             bind_io (write_cg cg (cg_take_partial s buf local_frag start frags_needed now)) (\<lambda>_.
             bind_io (nextufs__update_summary_counts cg 0 0 0 (- int frags_needed)) (\<lambda>_.
             ret (u32 (cg * frags_per_group s + start)))))
         | None \<Rightarrow>
             if nextufs__read_be32 buf CG_CS_NBFREE_OFF = 0 then fail ENOSPC
             else case find_whole s buf limit of
               None \<Rightarrow> fail ENOSPC
             | Some local_frag \<Rightarrow>
                 bind_io time_io (\<lambda>now.
                 bind_io (write_cg cg (cg_take_block s buf local_frag frags_needed now)) (\<lambda>_.
                 bind_io (nextufs__update_summary_counts cg 0 (- 1) 0 (int (fpb - frags_needed))) (\<lambda>_.
                 ret (u32 (cg * frags_per_group s + local_frag)))))))"

definition nextufs__allocate_frags_anycg :: "nat \<Rightarrow> nat \<Rightarrow> ('c nextufs_image, nat) io" where
  "nextufs__allocate_frags_anycg preferred_cg frags_needed =
     bind_io (reserve_available frags_needed) (\<lambda>_.
     bind_io get_io (\<lambda>img.
     first_not_full (map (\<lambda>i. nextufs__allocate_frags_in_group
         (u32 (preferred_cg + i) mod cg_count (sb img)) frags_needed)
       [0..<cg_count (sb img)])))"

definition nextufs__allocate_full_block_anycg :: "nat \<Rightarrow> ('c nextufs_image, nat) io" where
  "nextufs__allocate_full_block_anycg preferred_cg = bind_io get_io (\<lambda>img.
     nextufs__allocate_frags_anycg preferred_cg (frags_per_block (sb img)))"

definition cg_extend :: "nextufs_superblock \<Rightarrow> byte list \<Rightarrow> nat \<Rightarrow> nat \<Rightarrow> nat \<Rightarrow> nat \<Rightarrow> byte list" where
  "cg_extend s buf local_frag old_frags added_frags now =
     (let fpb = frags_per_block s;
          block_frag_base = local_frag - local_frag mod fpb;
          before = nextufs__count_free_runs_in_block buf CG_FREE_OFF block_frag_base fpb;
          buf = nextufs__clear_block_bits buf CG_FREE_OFF (local_frag + old_frags) added_frags;
          after = nextufs__count_free_runs_in_block buf CG_FREE_OFF block_frag_base fpb;
          buf = nextufs__apply_cg_frsum_delta buf before after fpb;
          buf = bump_be32 buf CG_CS_NFFREE_OFF (- int added_frags)
      in nextufs__write_be32 buf CG_TIME_OFF now)"

definition nextufs__extend_fragment_run :: "nat \<Rightarrow> nat \<Rightarrow> nat \<Rightarrow> ('c nextufs_image, unit) io" where
  "nextufs__extend_fragment_run frag_base old_frags new_frags = bind_io get_io (\<lambda>img.
     let s = sb img in
     if new_frags \<le> old_frags \<or> frags_per_block s < new_frags then fail EINVAL
     else bind_io (reserve_available (new_frags - old_frags)) (\<lambda>_.
       let cg = frag_base div frags_per_group s;
           local_frag = frag_base mod frags_per_group s in
       if frags_per_block s < local_frag mod frags_per_block s + new_frags then fail ENOSPC
       else bind_io (read_cg cg) (\<lambda>buf.
         let added_frags = new_frags - old_frags in
         if \<not> nextufs__set_run_bits buf CG_FREE_OFF (local_frag + old_frags) added_frags
         then fail ENOSPC
         else bind_io time_io (\<lambda>now.
           bind_io (write_cg cg (cg_extend s buf local_frag old_frags added_frags now)) (\<lambda>_.
           nextufs__update_summary_counts cg 0 0 0 (- int added_frags))))))"

text \<open>The loop that marks a run free; a fragment that is free already stops the operation.\<close>

fun free_bits :: "byte list \<Rightarrow> nat \<Rightarrow> nat list \<Rightarrow> byte list option" where
  "free_bits buf m [] = Some buf"
| "free_bits buf m (k # ks) = (if map_bit buf m k then None else free_bits (map_set buf m k) m ks)"

text \<open>The group after freeing a run, with the changes of the free block and fragment counts.\<close>

definition cg_free_run ::
  "nextufs_superblock \<Rightarrow> byte list \<Rightarrow> nat \<Rightarrow> nat \<Rightarrow> nat \<Rightarrow> (byte list \<times> int \<times> int) option" where
  "cg_free_run s buf local_frag frags now =
     (let fpb = frags_per_block s;
          block_frag_base = local_frag - local_frag mod fpb;
          before = nextufs__count_free_runs_in_block buf CG_FREE_OFF block_frag_base fpb
      in case free_bits buf CG_FREE_OFF (map (\<lambda>i. local_frag + i) [0..<frags]) of
           None \<Rightarrow> None
         | Some buf \<Rightarrow>
             let after = nextufs__count_free_runs_in_block buf CG_FREE_OFF block_frag_base fpb;
                 buf = nextufs__apply_cg_frsum_delta buf before after fpb
             in if nextufs__block_is_free buf CG_FREE_OFF block_frag_base fpb
                then
                  let buf = bump_be32 buf CG_CS_NFFREE_OFF (int frags - int fpb);
                      buf = bump_be32 buf CG_CS_NBFREE_OFF 1;
                      buf = bump_rotational s buf block_frag_base 1
                  in Some (nextufs__write_be32 buf CG_TIME_OFF now, 1, int frags - int fpb)
                else
                  let buf = bump_be32 buf CG_CS_NFFREE_OFF (int frags)
                  in Some (nextufs__write_be32 buf CG_TIME_OFF now, 0, int frags))"

definition nextufs__free_fragment_run :: "nat \<Rightarrow> nat \<Rightarrow> ('c nextufs_image, unit) io" where
  "nextufs__free_fragment_run frag_base frags = bind_io get_io (\<lambda>img.
     let s = sb img in
     if frags = 0 \<or> frags_per_block s < frags then fail EINVAL
     else
       let cg = frag_base div frags_per_group s;
           local_frag = frag_base mod frags_per_group s in
       bind_io (read_cg cg) (\<lambda>buf.
       bind_io time_io (\<lambda>now.
       case cg_free_run s buf local_frag frags now of
         None \<Rightarrow> fail EINVAL
       | Some (buf, d_nbfree, d_nffree) \<Rightarrow>
           bind_io (write_cg cg buf) (\<lambda>_.
           nextufs__update_summary_counts cg 0 d_nbfree 0 d_nffree))))"

definition frag_off :: "'c nextufs_image \<Rightarrow> nat \<Rightarrow> int" where
  "frag_off img frag = slice_base img + int (frag * frag_size (sb img))"

definition nextufs__reallocate_fragment_run ::
  "nat \<Rightarrow> nat \<Rightarrow> nat \<Rightarrow> nat \<Rightarrow> ('c nextufs_image, nat) io" where
  "nextufs__reallocate_fragment_run old_frag old_frags new_frags preferred_cg = bind_io get_io (\<lambda>img.
     let old_bytes = old_frags * frag_size (sb img);
         new_bytes = new_frags * frag_size (sb img) in
     bind_io (malloc_io new_bytes) (\<lambda>_.
     bind_io (nextufs__read_exact old_bytes (frag_off img old_frag)) (\<lambda>old.
     bind_io (nextufs__allocate_frags_anycg preferred_cg new_frags) (\<lambda>new_frag.
     bind_io (nextufs__write_exact (take new_bytes (old @ replicate (new_bytes - old_bytes) 0))
       (frag_off img new_frag)) (\<lambda>_.
     bind_io (nextufs__free_fragment_run old_frag old_frags) (\<lambda>_.
     ret new_frag))))))"

section \<open>Every allocator can be rolled back\<close>

context backend
begin

lemma first_not_full_tx:
  "list_all (keeps (tx_inv ops disk binv D)) ms \<Longrightarrow> keeps (tx_inv ops disk binv D) (first_not_full ms)"
proof (induction ms)
  case (Cons m ms)
  show ?case
  proof (rule keepsI)
    fix s r t
    assume s: "tx_inv ops disk binv D s" and r: "first_not_full (m # ms) s = (r, t)"
    obtain q u where q: "m s = (q, u)" by (cases "m s")
    have u: "tx_inv ops disk binv D u" using Cons.prems s q by (auto dest: keepsD)
    have "(q = Inl ENOSPC \<and> first_not_full ms u = (r, t)) \<or> t = u"
      using r q by (cases q; cases "projl q") auto
    with u Cons show "tx_inv ops disk binv D t" by (auto dest: keepsD)
  qed
qed (auto intro: keeps_rules)

lemma read_cg_tx: "keeps (tx_inv ops disk binv D) (read_cg cg)"
  unfolding read_cg_def by (intro tx_rules)

lemma write_cg_tx: "keeps (tx_inv ops disk binv D) (write_cg cg buf)"
  unfolding write_cg_def by (intro tx_rules)

lemma reserve_tx: "keeps (tx_inv ops disk binv D) (reserve_available n)"
  unfolding reserve_available_def Let_def by (intro tx_rules)

lemmas cg_tx_rules = tx_rules read_cg_tx write_cg_tx reserve_tx summary_counts_tx write_inode_tx inode_read_tx

lemma allocate_inode_in_group_tx: "keeps (tx_inv ops disk binv D) (allocate_inode_in_group cg mode)"
  unfolding allocate_inode_in_group_def Let_def by (intro cg_tx_rules)

lemma allocate_inode_tx: "keeps (tx_inv ops disk binv D) (nextufs__allocate_inode_in_group cg mode)"
  unfolding nextufs__allocate_inode_in_group_def
  by (intro cg_tx_rules first_not_full_tx) (simp add: list_all_iff allocate_inode_in_group_tx)

lemma free_inode_tx: "keeps (tx_inv ops disk binv D) (nextufs__free_inode_in_group i mode)"
  unfolding nextufs__free_inode_in_group_def Let_def by (intro cg_tx_rules)

lemma allocate_frags_in_group_tx: "keeps (tx_inv ops disk binv D) (nextufs__allocate_frags_in_group cg n)"
  unfolding nextufs__allocate_frags_in_group_def Let_def by (intro cg_tx_rules)

lemma allocate_frags_tx: "keeps (tx_inv ops disk binv D) (nextufs__allocate_frags_anycg cg n)"
  unfolding nextufs__allocate_frags_anycg_def
  by (intro cg_tx_rules first_not_full_tx) (simp add: list_all_iff allocate_frags_in_group_tx)

lemma allocate_full_block_tx: "keeps (tx_inv ops disk binv D) (nextufs__allocate_full_block_anycg cg)"
  unfolding nextufs__allocate_full_block_anycg_def by (intro cg_tx_rules allocate_frags_tx)

lemma extend_tx: "keeps (tx_inv ops disk binv D) (nextufs__extend_fragment_run f m n)"
  unfolding nextufs__extend_fragment_run_def Let_def by (intro cg_tx_rules)

lemma free_run_tx: "keeps (tx_inv ops disk binv D) (nextufs__free_fragment_run f n)"
  unfolding nextufs__free_fragment_run_def Let_def by (intro cg_tx_rules)

lemma reallocate_tx: "keeps (tx_inv ops disk binv D) (nextufs__reallocate_fragment_run f m n cg)"
  unfolding nextufs__reallocate_fragment_run_def Let_def
  by (intro cg_tx_rules allocate_frags_tx free_run_tx)

lemmas alloc_tx_rules = cg_tx_rules allocate_inode_tx free_inode_tx allocate_frags_tx
  allocate_full_block_tx extend_tx free_run_tx reallocate_tx

end

end
