(* ===== verification/Block_Map.thy ===== *)
theory Block_Map
  imports Alloc
begin

text \<open>
  From file blocks to fragments: the indirect blocks, the block map of an inode, the storage of a
  whole file (\<^verbatim>\<open>src/core/alloc.c\<close>), and the read path with its own resolver, inline and
  out-of-line symbolic links (\<^verbatim>\<open>src/core/image.c\<close>).

  A block holds \<open>block_size / 4\<close> entries, 1024 or 2048 in an accepted geometry, so the spans of the
  three levels stay far below \<open>2 ^ 64\<close> and are written without their reduction. An operation that
  changes the inode of its caller even when it fails returns the pair of its result and the inode.
\<close>

section \<open>Indirect blocks\<close>

definition nextufs__entries_per_block :: "'c nextufs_image \<Rightarrow> nat" where
  "nextufs__entries_per_block img = block_size (sb img) div 4"

definition nextufs__read_indirect_entry :: "nat \<Rightarrow> nat \<Rightarrow> ('c nextufs_image, nat) io" where
  "nextufs__read_indirect_entry block_frag entry_index = bind_io get_io (\<lambda>img.
     if block_size (sb img) div 4 \<le> entry_index \<or> block_frag = 0 \<or>
        frag_count (sb img) < block_frag + frags_per_block (sb img)
     then fail EINVAL
     else bind_io (nextufs__read_exact 4 (frag_off img block_frag + int (entry_index * 4))) (\<lambda>raw.
       ret (nextufs__read_be32 raw 0)))"

definition nextufs__write_indirect_entry :: "nat \<Rightarrow> nat \<Rightarrow> nat \<Rightarrow> ('c nextufs_image, unit) io" where
  "nextufs__write_indirect_entry block_frag entry_index entry_value = bind_io get_io (\<lambda>img.
     if block_size (sb img) div 4 \<le> entry_index \<or> block_frag = 0 \<or>
        frag_count (sb img) < block_frag + frags_per_block (sb img)
     then fail EINVAL
     else nextufs__write_exact (nextufs__write_be32 (replicate 4 0) 0 entry_value)
       (frag_off img block_frag + int (entry_index * 4)))"

definition nextufs__allocate_zeroed_full_block :: "nat \<Rightarrow> ('c nextufs_image, nat) io" where
  "nextufs__allocate_zeroed_full_block preferred_cg = bind_io get_io (\<lambda>img.
     let undo = (\<lambda>frag. try_io (nextufs__free_fragment_run frag (frags_per_block (sb img)))) in
     bind_io (nextufs__allocate_full_block_anycg preferred_cg) (\<lambda>frag.
     bind_io (try_io (malloc_io (block_size (sb img)))) (\<lambda>m.
     case m of
       Inl e \<Rightarrow> bind_io (undo frag) (\<lambda>_. fail ENOMEM)
     | Inr _ \<Rightarrow>
         bind_io (try_io (nextufs__write_exact (replicate (block_size (sb img)) 0) (frag_off img frag))) (\<lambda>w.
         case w of
           Inl e \<Rightarrow> bind_io (undo frag) (\<lambda>_. fail e)
         | Inr _ \<Rightarrow> ret frag))))"

text \<open>The result is the number of fragments of new indirect blocks.\<close>

fun nextufs__set_indirect_data_block ::
  "nat \<Rightarrow> nat \<Rightarrow> nat \<Rightarrow> nat \<Rightarrow> nat \<Rightarrow> ('c nextufs_image, nat) io" where
  "nextufs__set_indirect_data_block block_frag 0 logical_index data_frag cg = fail EINVAL"
| "nextufs__set_indirect_data_block block_frag (Suc 0) logical_index data_frag cg =
     bind_io (nextufs__write_indirect_entry block_frag logical_index data_frag) (\<lambda>_. ret 0)"
| "nextufs__set_indirect_data_block block_frag (Suc (Suc l)) logical_index data_frag cg =
     bind_io get_io (\<lambda>img.
     let span = nextufs__entries_per_block img ^ Suc l;
         entry_index = logical_index div span;
         remainder = logical_index mod span;
         fpb = frags_per_block (sb img) in
     bind_io (nextufs__read_indirect_entry block_frag entry_index) (\<lambda>next_frag.
     if next_frag = 0 then
       bind_io (nextufs__allocate_zeroed_full_block cg) (\<lambda>next_frag.
       bind_io (try_io (nextufs__write_indirect_entry block_frag entry_index next_frag)) (\<lambda>w.
       case w of
         Inl e \<Rightarrow> bind_io (try_io (nextufs__free_fragment_run next_frag fpb)) (\<lambda>_. fail e)
       | Inr _ \<Rightarrow>
           bind_io (nextufs__set_indirect_data_block next_frag (Suc l) remainder data_frag cg) (\<lambda>n.
           ret (fpb + n))))
     else nextufs__set_indirect_data_block next_frag (Suc l) remainder data_frag cg))"

text \<open>The loop over the three indirect roots that both resolvers and the setter share.\<close>

fun indirect_walk :: "nat \<Rightarrow> nat \<Rightarrow> nat \<Rightarrow> nat list \<Rightarrow> (nat \<times> nat) option" where
  "indirect_walk entries local_index span [] = None"
| "indirect_walk entries local_index span (slot # slots) =
     (if local_index < span then Some (slot, local_index)
      else indirect_walk entries (local_index - span) (span * entries) slots)"

definition indirect_root :: "nat \<Rightarrow> nat \<Rightarrow> (nat \<times> nat) option" where
  "indirect_root entries local_index = indirect_walk entries local_index entries [0, 1, 2]"

definition nextufs__set_inode_data_block ::
  "nextufs_inode \<Rightarrow> nat \<Rightarrow> nat \<Rightarrow> nat \<Rightarrow> ('c nextufs_image, (errno + nat) \<times> nextufs_inode) io" where
  "nextufs__set_inode_data_block ino logical_block data_frag cg = bind_io get_io (\<lambda>img.
     if logical_block < 12
     then ret (Inr 0, ino\<lparr>i_db := (i_db ino)[logical_block := data_frag]\<rparr>)
     else case indirect_root (nextufs__entries_per_block img) (logical_block - 12) of
       None \<Rightarrow> ret (Inl EFBIG, ino)
     | Some (slot, local_index) \<Rightarrow>
         let root_frag = i_ib ino ! slot in
         bind_io (if root_frag = 0 then try_io (nextufs__allocate_zeroed_full_block cg)
                  else ret (Inr root_frag)) (\<lambda>root.
         case root of
           Inl e \<Rightarrow> ret (Inl e, ino)
         | Inr new_root \<Rightarrow>
             let ino' = (if root_frag = 0 then ino\<lparr>i_ib := (i_ib ino)[slot := new_root]\<rparr> else ino);
                 added = (if root_frag = 0 then frags_per_block (sb img) else 0) in
             bind_io (try_io (nextufs__set_indirect_data_block new_root (slot + 1) local_index data_frag cg)) (\<lambda>r.
             ret (map_sum id (\<lambda>n. added + n) r, ino'))))"

text \<open>The argument \<open>l\<close> is the level minus one.\<close>

primrec nextufs__resolve_indirect_data_block :: "nat \<Rightarrow> nat \<Rightarrow> nat \<Rightarrow> ('c nextufs_image, nat) io" where
  "nextufs__resolve_indirect_data_block 0 = (\<lambda>block_frag logical_index.
     if block_frag = 0 then ret 0
     else nextufs__read_indirect_entry block_frag logical_index)"
| "nextufs__resolve_indirect_data_block (Suc l) = (\<lambda>block_frag logical_index.
     if block_frag = 0 then ret 0
     else bind_io get_io (\<lambda>img.
       let span = nextufs__entries_per_block img ^ Suc l in
       bind_io (nextufs__read_indirect_entry block_frag (logical_index div span)) (\<lambda>next_frag.
       nextufs__resolve_indirect_data_block l next_frag (logical_index mod span))))"

definition nextufs__resolve_inode_data_block :: "nextufs_inode \<Rightarrow> nat \<Rightarrow> ('c nextufs_image, nat) io" where
  "nextufs__resolve_inode_data_block ino logical_block = bind_io get_io (\<lambda>img.
     if logical_block < 12 then ret (i_db ino ! logical_block)
     else case indirect_root (nextufs__entries_per_block img) (logical_block - 12) of
       None \<Rightarrow> fail EFBIG
     | Some (slot, local_index) \<Rightarrow>
         nextufs__resolve_indirect_data_block slot (i_ib ino ! slot) local_index)"

text \<open>A loop whose body may fail.\<close>

fun iter_io :: "('a \<Rightarrow> ('s, unit) io) \<Rightarrow> 'a list \<Rightarrow> ('s, unit) io" where
  "iter_io f [] = ret ()"
| "iter_io f (x # xs) = bind_io (f x) (\<lambda>_. iter_io f xs)"

primrec nextufs__free_indirect_metadata_tree :: "nat \<Rightarrow> nat \<Rightarrow> ('c nextufs_image, unit) io" where
  "nextufs__free_indirect_metadata_tree 0 = (\<lambda>block_frag.
     if block_frag = 0 then ret ()
     else bind_io get_io (\<lambda>img. nextufs__free_fragment_run block_frag (frags_per_block (sb img))))"
| "nextufs__free_indirect_metadata_tree (Suc l) = (\<lambda>block_frag.
     if block_frag = 0 then ret ()
     else bind_io get_io (\<lambda>img.
       bind_io (iter_io (\<lambda>i.
         bind_io (nextufs__read_indirect_entry block_frag i) (\<lambda>child_frag.
         if child_frag = 0 then ret () else nextufs__free_indirect_metadata_tree l child_frag))
         [0..<nextufs__entries_per_block img]) (\<lambda>_.
       nextufs__free_fragment_run block_frag (frags_per_block (sb img)))))"

section \<open>The storage of a file\<close>

definition frags_of_chunk :: "nextufs_superblock \<Rightarrow> nat \<Rightarrow> nat \<Rightarrow> nat" where
  "frags_of_chunk s logical_block chunk_bytes =
     (if 12 \<le> logical_block then frags_per_block s
      else (chunk_bytes + frag_size s - 1) div frag_size s)"

definition is_fastlink :: "nextufs_inode \<Rightarrow> bool" where
  "is_fastlink ino \<longleftrightarrow> i_mode ino AND NEXTUFS_IFMT = NEXTUFS_IFLNK \<and> i_flags ino AND NEXTUFS_IC_FASTLINK \<noteq> 0"

text \<open>
  The loop over the data blocks of a file, \<open>remaining\<close> bytes from block \<open>logical_block\<close> on. The
  test of \<open>block_size\<close> is not in the code: with a block size of 0, which no accepted geometry has,
  the loop would not end.
\<close>

function free_data_loop :: "nextufs_superblock \<Rightarrow> nextufs_inode \<Rightarrow> nat \<Rightarrow> nat \<Rightarrow> ('c nextufs_image, unit) io" where
  "free_data_loop s ino remaining logical_block =
     (if 0 < remaining \<and> 0 < block_size s then
        let chunk_bytes = min remaining (block_size s);
            frags = frags_of_chunk s logical_block chunk_bytes in
        bind_io (nextufs__resolve_inode_data_block ino logical_block) (\<lambda>data_frag.
        bind_io (if data_frag \<noteq> 0 then nextufs__free_fragment_run data_frag frags else ret ()) (\<lambda>_.
        free_data_loop s ino (remaining - chunk_bytes) (logical_block + 1)))
      else ret ())"
  by pat_completeness auto
termination by (relation "measure (\<lambda>(s, ino, remaining, logical_block). remaining)") auto

declare free_data_loop.simps [simp del]

text \<open>The loop over the roots; the roots released before a failure are cleared in the inode.\<close>

fun free_roots :: "nat list \<Rightarrow> nextufs_inode \<Rightarrow> ('c nextufs_image, (errno + unit) \<times> nextufs_inode) io" where
  "free_roots [] ino = ret (Inr (), ino)"
| "free_roots (slot # slots) ino =
     bind_io (try_io (nextufs__free_indirect_metadata_tree slot (i_ib ino ! slot))) (\<lambda>r.
     case r of
       Inl e \<Rightarrow> ret (Inl e, ino)
     | Inr _ \<Rightarrow> free_roots slots (ino\<lparr>i_ib := (i_ib ino)[slot := 0]\<rparr>))"

definition nextufs__free_file_storage ::
  "nextufs_inode \<Rightarrow> ('c nextufs_image, (errno + unit) \<times> nextufs_inode) io" where
  "nextufs__free_file_storage ino = bind_io get_io (\<lambda>img.
     if is_fastlink ino
     then ret (Inr (), ino\<lparr>i_db := replicate 12 0, i_ib := replicate 3 0,
       i_flags := i_flags ino AND u32_not NEXTUFS_IC_FASTLINK, i_size := 0, i_blocks := 0\<rparr>)
     else bind_io (try_io (free_data_loop (sb img) ino (i_size ino) 0)) (\<lambda>r.
       case r of
         Inl e \<Rightarrow> ret (Inl e, ino)
       | Inr _ \<Rightarrow>
           bind_io (free_roots [0, 1, 2] (ino\<lparr>i_db := replicate 12 0\<rparr>)) (\<lambda>(r, ino).
           case r of
             Inl e \<Rightarrow> ret (Inl e, ino)
           | Inr _ \<Rightarrow> ret (Inr (), ino\<lparr>i_size := 0, i_blocks := 0\<rparr>))))"

function alloc_data_loop ::
  "nextufs_superblock \<Rightarrow> nat \<Rightarrow> byte list \<Rightarrow> nat \<Rightarrow> nat \<Rightarrow> nat \<Rightarrow> nextufs_inode \<Rightarrow>
   ('c nextufs_image, (errno + nat) \<times> nextufs_inode) io" where
  "alloc_data_loop s cg data remaining logical_block total_frags ino =
     (if 0 < remaining \<and> 0 < block_size s then
        let chunk_bytes = min remaining (block_size s);
            frags_needed = frags_of_chunk s logical_block chunk_bytes;
            alloc_bytes = frags_needed * frag_size s in
        bind_io (try_io (nextufs__allocate_frags_anycg cg frags_needed)) (\<lambda>a.
        case a of
          Inl e \<Rightarrow> ret (Inl e, ino)
        | Inr alloc_frag \<Rightarrow>
            bind_io (nextufs__set_inode_data_block ino logical_block alloc_frag cg) (\<lambda>(m, ino).
            case m of
              Inl e \<Rightarrow> bind_io (try_io (nextufs__free_fragment_run alloc_frag frags_needed)) (\<lambda>_.
                ret (Inl e, ino))
            | Inr metadata \<Rightarrow>
                let total_frags = u32 (total_frags + metadata + frags_needed);
                    ino = ino\<lparr>i_size := logical_block * block_size s + chunk_bytes,
                              i_blocks := u32 (total_frags * sectors_per_frag s)\<rparr> in
                bind_io (try_io (malloc_io alloc_bytes)) (\<lambda>c.
                case c of
                  Inl e \<Rightarrow> ret (Inl ENOMEM, ino)
                | Inr _ \<Rightarrow>
                    bind_io get_io (\<lambda>img.
                    bind_io (try_io (nextufs__write_exact
                      (bytes_at (logical_block * block_size s) chunk_bytes data @
                       replicate (alloc_bytes - chunk_bytes) 0) (frag_off img alloc_frag))) (\<lambda>w.
                    case w of
                      Inl e \<Rightarrow> ret (Inl e, ino)
                    | Inr _ \<Rightarrow>
                        alloc_data_loop s cg data (remaining - chunk_bytes) (logical_block + 1) total_frags ino)))))
      else ret (Inr total_frags, ino))"
  by pat_completeness auto
termination by (relation "measure (\<lambda>(s, cg, data, remaining, logical_block, total_frags, ino). remaining)") auto

declare alloc_data_loop.simps [simp del]

definition nextufs__allocate_data_for_inode ::
  "nat \<Rightarrow> byte list \<Rightarrow> nextufs_inode \<Rightarrow> ('c nextufs_image, (errno + unit) \<times> nextufs_inode) io" where
  "nextufs__allocate_data_for_inode cg data ino = bind_io get_io (\<lambda>img.
     if INT32_MAX < length data then ret (Inl EFBIG, ino)
     else bind_io (alloc_data_loop (sb img) cg data (length data) 0 0 ino) (\<lambda>(r, ino).
       case r of
         Inr total_frags \<Rightarrow> ret (Inr (), ino\<lparr>i_size := length data,
           i_blocks := u32 (total_frags * sectors_per_frag (sb img))\<rparr>)
       | Inl e \<Rightarrow> bind_io (nextufs__free_file_storage ino) (\<lambda>(_, ino). ret (Inl e, ino))))"

section \<open>The read path\<close>

text \<open>
  The read path has a resolver of its own. Its argument \<open>l\<close> is the level minus one, and the spans
  are products of \<open>entries_per_block\<close> with itself.
\<close>

primrec resolve_indirect_block_frag :: "nat \<Rightarrow> nat \<Rightarrow> nat \<Rightarrow> ('c nextufs_image, nat) io" where
  "resolve_indirect_block_frag 0 = (\<lambda>block_frag logical_index. bind_io get_io (\<lambda>img.
     if block_size (sb img) div 4 = 0 then fail EINVAL
     else if block_frag = 0 then ret 0
     else map_err EIO (nextufs__read_indirect_entry block_frag logical_index)))"
| "resolve_indirect_block_frag (Suc l) = (\<lambda>block_frag logical_index. bind_io get_io (\<lambda>img.
     let entries_per_block = block_size (sb img) div 4 in
     if entries_per_block = 0 then fail EINVAL
     else if block_frag = 0 then ret 0
     else
       let span = entries_per_block ^ Suc l in
       bind_io (map_err EIO (nextufs__read_indirect_entry block_frag (logical_index div span))) (\<lambda>next_frag.
       if next_frag = 0 then ret 0
       else resolve_indirect_block_frag l next_frag (logical_index mod span))))"

definition resolve_file_block_frag :: "nextufs_inode \<Rightarrow> nat \<Rightarrow> ('c nextufs_image, nat) io" where
  "resolve_file_block_frag ino logical_block_index = bind_io get_io (\<lambda>img.
     if logical_block_index < 12 then ret (i_db ino ! logical_block_index)
     else case indirect_root (block_size (sb img) div 4) (logical_block_index - 12) of
       None \<Rightarrow> fail EINVAL
     | Some (slot, local_index) \<Rightarrow> resolve_indirect_block_frag slot (i_ib ino ! slot) local_index)"

text \<open>
  The loop of \<open>nextufs_inode_read_data\<close>; it returns the bytes read. In the code \<open>block_offset\<close> is
  always below the block size, as the test says that makes the recursion end.
\<close>

function read_data_loop ::
  "nextufs_superblock \<Rightarrow> nextufs_inode \<Rightarrow> nat \<Rightarrow> nat \<Rightarrow> nat \<Rightarrow> ('c nextufs_image, byte list) io" where
  "read_data_loop s ino file_remaining logical_block_index block_offset =
     (if 0 < file_remaining \<and> block_offset < block_size s then
        let chunk_size = min (block_size s - block_offset) file_remaining in
        bind_io (resolve_file_block_frag ino logical_block_index) (\<lambda>data_frag.
        bind_io (if data_frag = 0 then ret (replicate chunk_size 0)
                 else if frag_count s * frag_size s < data_frag * frag_size s + block_offset + chunk_size
                 then fail EIO
                 else bind_io get_io (\<lambda>img.
                   nextufs__read_exact chunk_size (frag_off img data_frag + int block_offset))) (\<lambda>chunk.
        bind_io (read_data_loop s ino (file_remaining - chunk_size) (logical_block_index + 1) 0) (\<lambda>rest.
        ret (chunk @ rest))))
      else ret [])"
  by pat_completeness auto
termination
  by (relation "measure (\<lambda>(s, ino, file_remaining, logical_block_index, block_offset). file_remaining)") auto

declare read_data_loop.simps [simp del]

definition nextufs_inode_read_data ::
  "nextufs_inode \<Rightarrow> nat \<Rightarrow> nat \<Rightarrow> ('c nextufs_image, byte list) io" where
  "nextufs_inode_read_data ino start buf_size = bind_io get_io (\<lambda>img.
     if nextufs_image_validate img \<noteq> Inr () then fail EINVAL
     else if i_size ino \<le> start then ret []
     else read_data_loop (sb img) ino (min (i_size ino - start) buf_size)
       (start div block_size (sb img)) (start mod block_size (sb img)))"

text \<open>
  A symbolic link of at most 60 bytes lives in the 15 block pointers. The result is the text the
  function puts before the terminating zero byte, empty when the link is not inline.
\<close>

definition be32_bytes :: "nat \<Rightarrow> byte list" where
  "be32_bytes v = [byte_at 24 v, byte_at 16 v, byte_at 8 v, byte_at 0 v]"

definition decode_inline_symlink :: "nextufs_inode \<Rightarrow> nat \<Rightarrow> byte list" where
  "decode_inline_symlink ino out_size =
     (if i_mode ino AND NEXTUFS_IFMT \<noteq> NEXTUFS_IFLNK \<or> i_flags ino AND NEXTUFS_IC_FASTLINK = 0 \<or>
         i_size ino = 0 \<or> 60 < i_size ino \<or> out_size = 0
      then []
      else take (if out_size \<le> i_size ino then out_size - 1 else i_size ino)
        (concat (map be32_bytes (i_db ino)) @ concat (map be32_bytes (i_ib ino))))"

definition nextufs_inode_readlink :: "nextufs_inode \<Rightarrow> nat \<Rightarrow> ('c nextufs_image, byte list) io" where
  "nextufs_inode_readlink ino out_size =
     (if i_mode ino AND NEXTUFS_IFMT \<noteq> NEXTUFS_IFLNK \<or> out_size = 0 then fail EINVAL
      else if decode_inline_symlink ino out_size \<noteq> [] then ret (decode_inline_symlink ino out_size)
      else map_err EIO (nextufs_inode_read_data ino 0 (out_size - 1)))"


section \<open>Block maps and reads can be rolled back\<close>

context backend
begin

lemma read_entry_tx: "keeps (tx_inv ops disk binv D) (nextufs__read_indirect_entry f i)"
  unfolding nextufs__read_indirect_entry_def by (intro alloc_tx_rules)

lemma write_entry_tx: "keeps (tx_inv ops disk binv D) (nextufs__write_indirect_entry f i v)"
  unfolding nextufs__write_indirect_entry_def by (intro alloc_tx_rules)

lemma zeroed_block_tx: "keeps (tx_inv ops disk binv D) (nextufs__allocate_zeroed_full_block cg)"
  unfolding nextufs__allocate_zeroed_full_block_def Let_def by (intro alloc_tx_rules)

lemma set_indirect_tx:
  "keeps (tx_inv ops disk binv D) (nextufs__set_indirect_data_block f l i v cg)"
proof (induction l arbitrary: f i)
  case (Suc l)
  show ?case
  proof (cases l)
    case (Suc k)
    with Suc.IH show ?thesis
      by (simp only: nextufs__set_indirect_data_block.simps Let_def)
        (intro alloc_tx_rules read_entry_tx write_entry_tx zeroed_block_tx, simp_all)
  qed (auto intro!: alloc_tx_rules write_entry_tx)
qed (auto intro!: tx_rules)

lemma set_block_tx: "keeps (tx_inv ops disk binv D) (nextufs__set_inode_data_block ino b f cg)"
  unfolding nextufs__set_inode_data_block_def Let_def
  by (intro alloc_tx_rules zeroed_block_tx set_indirect_tx)

lemma resolve_indirect_tx:
  "keeps (tx_inv ops disk binv D) (nextufs__resolve_indirect_data_block l f i)"
  by (induction l arbitrary: f i)
    (auto simp: Let_def intro!: alloc_tx_rules read_entry_tx)

lemma resolve_block_tx: "keeps (tx_inv ops disk binv D) (nextufs__resolve_inode_data_block ino b)"
  unfolding nextufs__resolve_inode_data_block_def
  by (intro alloc_tx_rules resolve_indirect_tx)

lemma iter_tx:
  "(\<And>x. keeps (tx_inv ops disk binv D) (f x)) \<Longrightarrow> keeps (tx_inv ops disk binv D) (iter_io f xs)"
  by (induction xs) (auto intro!: tx_rules)

lemma free_tree_tx:
  "keeps (tx_inv ops disk binv D) (nextufs__free_indirect_metadata_tree l f)"
proof (induction l arbitrary: f)
  case (Suc l)
  show ?case by (simp only: nextufs__free_indirect_metadata_tree.simps)
    (intro alloc_tx_rules iter_tx read_entry_tx Suc)
qed (simp only: nextufs__free_indirect_metadata_tree.simps, intro alloc_tx_rules)

lemma free_data_loop_tx: "keeps (tx_inv ops disk binv D) (free_data_loop s ino n b)"
proof (induction n arbitrary: b rule: less_induct)
  case (less n)
  show ?case
    by (subst free_data_loop.simps, cases "0 < n \<and> 0 < block_size s")
      (auto simp: Let_def intro!: alloc_tx_rules resolve_block_tx less.IH)
qed

lemma free_roots_tx: "keeps (tx_inv ops disk binv D) (free_roots slots ino)"
  by (induction slots arbitrary: ino) (auto intro!: alloc_tx_rules free_tree_tx)

lemma free_storage_tx: "keeps (tx_inv ops disk binv D) (nextufs__free_file_storage ino)"
  unfolding nextufs__free_file_storage_def
  by (intro alloc_tx_rules free_data_loop_tx free_roots_tx)

lemma alloc_data_loop_tx:
  "keeps (tx_inv ops disk binv D) (alloc_data_loop s cg data n b tot ino)"
proof (induction n arbitrary: b tot ino rule: less_induct)
  case (less n)
  show ?case
  proof (cases "0 < n \<and> 0 < block_size s")
    case True
    show ?thesis
      by (subst alloc_data_loop.simps, simp only: True Let_def if_True)
        (intro alloc_tx_rules set_block_tx less.IH, simp add: True)
  qed (subst alloc_data_loop.simps, auto intro!: tx_rules)
qed

lemma allocate_data_tx: "keeps (tx_inv ops disk binv D) (nextufs__allocate_data_for_inode cg data ino)"
  unfolding nextufs__allocate_data_for_inode_def
  by (intro alloc_tx_rules alloc_data_loop_tx free_storage_tx)

lemma resolve_indirect_frag_tx: "keeps (tx_inv ops disk binv D) (resolve_indirect_block_frag l f i)"
  by (induction l arbitrary: f i) (auto simp: Let_def intro!: alloc_tx_rules read_entry_tx)

lemma resolve_file_frag_tx: "keeps (tx_inv ops disk binv D) (resolve_file_block_frag ino b)"
  unfolding resolve_file_block_frag_def by (intro alloc_tx_rules resolve_indirect_frag_tx)

lemma read_data_loop_tx: "keeps (tx_inv ops disk binv D) (read_data_loop s ino n b o')"
proof (induction n arbitrary: b o' rule: less_induct)
  case (less n)
  show ?case
    by (subst read_data_loop.simps, cases "0 < n \<and> o' < block_size s")
      (auto simp: Let_def intro!: alloc_tx_rules resolve_file_frag_tx less.IH)
qed

lemma read_data_tx: "keeps (tx_inv ops disk binv D) (nextufs_inode_read_data ino start n)"
  unfolding nextufs_inode_read_data_def by (intro alloc_tx_rules read_data_loop_tx)

lemma readlink_tx: "keeps (tx_inv ops disk binv D) (nextufs_inode_readlink ino n)"
  unfolding nextufs_inode_readlink_def by (intro alloc_tx_rules read_data_tx)

lemmas map_tx_rules = alloc_tx_rules zeroed_block_tx set_block_tx resolve_block_tx free_tree_tx
  free_storage_tx allocate_data_tx read_data_tx readlink_tx

end

end
