(* ===== verification/Node.thy ===== *)
theory Node
  imports Block_Map
begin

text \<open>
  Nodes: an inode with its number, its place and the unit of its block count, the file types, the
  permission check, \<open>stat\<close> and \<open>statvfs\<close> (\<^verbatim>\<open>src/core/node.c\<close>).
\<close>

record nextufs_node =
  n_sector_size :: nat
  n_inode_no :: nat
  n_inode_off :: int
  n_inode :: nextufs_inode

definition node_sector_size :: "nextufs_superblock \<Rightarrow> nat" where
  "node_sector_size s = (if sectors_per_frag s \<noteq> 0 then frag_size s div sectors_per_frag s else 0)"

definition nextufs_node_get_by_inode :: "nat \<Rightarrow> ('c nextufs_image, nextufs_node) io" where
  "nextufs_node_get_by_inode ino_no = bind_io get_io (\<lambda>img.
     bind_io (nextufs_inode_read ino_no) (\<lambda>(ino, ino_at).
     ret \<lparr>n_sector_size = node_sector_size (sb img), n_inode_no = ino_no, n_inode_off = ino_at,
          n_inode = ino\<rparr>))"

definition file_type :: "nextufs_node \<Rightarrow> nat" where
  "file_type node = i_mode (n_inode node) AND NEXTUFS_IFMT"

definition nextufs_node_is_dir :: "nextufs_node \<Rightarrow> bool" where
  "nextufs_node_is_dir node \<longleftrightarrow> file_type node = NEXTUFS_IFDIR"

definition nextufs_node_is_reg :: "nextufs_node \<Rightarrow> bool" where
  "nextufs_node_is_reg node \<longleftrightarrow> file_type node = NEXTUFS_IFREG"

definition nextufs_node_is_lnk :: "nextufs_node \<Rightarrow> bool" where
  "nextufs_node_is_lnk node \<longleftrightarrow> file_type node = NEXTUFS_IFLNK"

record posix_stat =
  st_ino :: nat
  st_mode :: nat
  st_nlink :: nat
  st_uid :: nat
  st_gid :: nat
  st_size :: int
  st_blocks :: nat
  st_rdev :: nat
  st_atime :: nat
  st_mtime :: nat
  st_ctime :: nat

definition nextufs_node_stat :: "nextufs_node \<Rightarrow> posix_stat" where
  "nextufs_node_stat node = (let ino = n_inode node in
     \<lparr>st_ino = n_inode_no node, st_mode = i_mode ino,
      st_nlink = (if i_nlink ino \<noteq> 0 then i_nlink ino else 1),
      st_uid = i_uid ino, st_gid = i_gid ino, st_size = to_off (i_size ino),
      st_blocks = i_blocks ino * (n_sector_size node div 512),
      st_rdev = (if file_type node = NEXTUFS_IFCHR \<or> file_type node = NEXTUFS_IFBLK
                 then i_db ino ! 0 else 0),
      st_atime = i_atime ino, st_mtime = i_mtime ino, st_ctime = i_ctime ino\<rparr>)"

section \<open>Permissions\<close>

definition R_OK :: nat where "R_OK = 4"
definition W_OK :: nat where "W_OK = 2"
definition X_OK :: nat where "X_OK = 1"

lemmas access_consts = R_OK_def W_OK_def X_OK_def

definition nextufs__node_check_access ::
  "nextufs_node \<Rightarrow> nat \<Rightarrow> nat \<Rightarrow> nat list \<Rightarrow> nat \<Rightarrow> bool \<Rightarrow> errno + unit" where
  "nextufs__node_check_access node uid gid groups want allow_write = (let ino = n_inode node in
     if \<not> allow_write \<and> want AND W_OK \<noteq> 0 then Inl EROFS
     else if want = 0 then Inr ()
     else if uid = 0 then
       (if want AND X_OK \<noteq> 0 \<and> i_mode ino AND 0x49 = 0 then Inl EACCES else Inr ())
     else
       let perms = (if uid = i_uid ino then drop_bit 6 (i_mode ino) AND 7
                    else if gid = i_gid ino \<or> i_gid ino \<in> set groups then drop_bit 3 (i_mode ino) AND 7
                    else i_mode ino AND 7);
           bits = (if want AND R_OK \<noteq> 0 then 4 else 0) OR (if want AND W_OK \<noteq> 0 then 2 else 0) OR
                  (if want AND X_OK \<noteq> 0 then 1 else 0)
       in if perms AND bits \<noteq> bits then Inl EACCES else Inr ())"

definition nextufs_node_check_access :: "nextufs_node \<Rightarrow> nat \<Rightarrow> nat \<Rightarrow> nat \<Rightarrow> errno + unit" where
  "nextufs_node_check_access node uid gid want = nextufs__node_check_access node uid gid [] want False"

section \<open>File system statistics\<close>

record posix_statvfs =
  f_bsize :: nat
  f_frsize :: nat
  f_blocks :: nat
  f_bfree :: nat
  f_bavail :: nat
  f_files :: nat
  f_ffree :: nat
  f_favail :: nat
  f_namemax :: nat

definition nextufs_fs_statvfs :: "nextufs_superblock \<Rightarrow> errno + posix_statvfs" where
  "nextufs_fs_statvfs s =
     (if frag_size s = 0 \<or> block_size s = 0 \<or> frags_per_block s = 0 then Inl EINVAL
      else let free_frags = free_block_count s * frags_per_block s + free_frag_count s;
               reserved_frags = data_frag_count s * minfree s div 100;
               avail_frags = (if reserved_frags < free_frags then free_frags - reserved_frags else 0)
           in Inr \<lparr>f_bsize = block_size s, f_frsize = frag_size s, f_blocks = data_frag_count s,
                   f_bfree = free_frags, f_bavail = avail_frags,
                   f_files = cg_count s * inodes_per_group s, f_ffree = free_inode_count s,
                   f_favail = free_inode_count s, f_namemax = 255\<rparr>)"

context backend
begin

lemma node_get_tx: "keeps (tx_inv ops disk binv D) (nextufs_node_get_by_inode i)"
  unfolding nextufs_node_get_by_inode_def by (intro map_tx_rules)

end

end
