(* ===== verification/File_Mutate.thy ===== *)
theory File_Mutate
  imports Node
begin

text \<open>
  Growing, shrinking and writing a file in place (\<^verbatim>\<open>src/mutate/file_mutate.c\<close>). The functions take
  the node and return it updated. No caller uses the node of a call that failed, so a failure
  carries none.
\<close>

definition file_frags :: "nextufs_superblock \<Rightarrow> nat \<Rightarrow> nat \<Rightarrow> nat" where
  "file_frags s sz block = (let base = block * block_size s; bytes = sz - base in
     if sz \<le> base then 0
     else if 12 \<le> block \<or> block_size s \<le> bytes then frags_per_block s
     else u32 ((bytes + frag_size s - 1) div frag_size s))"

definition size_valid :: "nat \<Rightarrow> errno + unit" where
  "size_valid sz = (if sz \<le> INT32_MAX then Inr () else Inl EFBIG)"

text \<open>\<open>keep\<close> is a \<open>size_t\<close> and wraps when the block begins after the old end.\<close>

definition grow_block :: "nextufs_node \<Rightarrow> nat \<Rightarrow> nat \<Rightarrow> nat \<Rightarrow> ('c nextufs_image, nextufs_node) io" where
  "grow_block node logical old_size new_size = bind_io get_io (\<lambda>img.
     let s = sb img;
         cg = n_inode_no node div inodes_per_group s;
         after = file_frags s new_size logical in
     bind_io (nextufs__resolve_inode_data_block (n_inode node) logical) (\<lambda>old.
     let before = (if old = 0 then 0 else file_frags s old_size logical);
         keep = min (u64 (old_size + (2 ^ 64 - logical * block_size s))) (before * frag_size s) in
     bind_io (malloc_io (after * frag_size s)) (\<lambda>_.
     bind_io (if old \<noteq> 0 then nextufs__read_exact keep (frag_off img old) else ret []) (\<lambda>kept.
     bind_io
       (if before < after then
          bind_io (if old \<noteq> 0 then try_io (nextufs__extend_fragment_run old before after)
                   else ret (Inl ENOSPC)) (\<lambda>x.
          case x of
            Inr _ \<Rightarrow> ret old
          | Inl e \<Rightarrow> if e = ENOSPC then nextufs__allocate_frags_anycg cg after else fail e)
        else ret old) (\<lambda>allocated.
     bind_io (nextufs__write_exact (take (after * frag_size s) (kept @ replicate (after * frag_size s - length kept) 0))
       (frag_off img allocated)) (\<lambda>_.
     bind_io (nextufs__set_inode_data_block (n_inode node) logical allocated cg) (\<lambda>(m, ino).
     bind_io (lift_res m) (\<lambda>metadata.
     bind_io (if old \<noteq> 0 \<and> allocated \<noteq> old then nextufs__free_fragment_run old before else ret ()) (\<lambda>_.
     ret (node\<lparr>n_inode := ino\<lparr>i_blocks := u32_add (i_blocks ino)
       ((int after - int before + int metadata) * int (sectors_per_frag s))\<rparr>\<rparr>))))))))))"

text \<open>A loop that carries a value.\<close>

fun fold_io :: "('a \<Rightarrow> 'b \<Rightarrow> ('s, 'b) io) \<Rightarrow> 'a list \<Rightarrow> 'b \<Rightarrow> ('s, 'b) io" where
  "fold_io f [] b = ret b"
| "fold_io f (x # xs) b = bind_io (f x b) (fold_io f xs)"

text \<open>
  The body of \<open>prune_tree\<close> around the treatment of one nonzero child, which returns what the child
  becomes and the new count of released fragments. The result is the same for the root.
\<close>

definition prune_node ::
  "(nat \<Rightarrow> nat \<Rightarrow> nat \<Rightarrow> ('c nextufs_image, nat \<times> nat) io) \<Rightarrow> nat \<Rightarrow> nat \<Rightarrow>
   ('c nextufs_image, nat \<times> nat) io" where
  "prune_node prune_child root released =
     (if root = 0 then ret (0, released)
      else bind_io get_io (\<lambda>img.
        let fpb = frags_per_block (sb img) in
        bind_io (malloc_io (block_size (sb img))) (\<lambda>_.
        bind_io (nextufs__read_exact (block_size (sb img)) (frag_off img root)) (\<lambda>buf.
        bind_io (fold_io (\<lambda>i (buf, released, any).
          let child = nextufs__read_be32 buf (i * 4) in
          if child = 0 then ret (buf, released, any)
          else bind_io (prune_child i child released) (\<lambda>(child, released).
            ret (nextufs__write_be32 buf (i * 4) child, released, any \<or> child \<noteq> 0)))
          [0..<block_size (sb img) div 4] (buf, released, False)) (\<lambda>(buf, released, any).
        if any then bind_io (nextufs__write_exact buf (frag_off img root)) (\<lambda>_. ret (root, released))
        else bind_io (nextufs__free_fragment_run root fpb) (\<lambda>_. ret (0, u32 (released + fpb))))))))"

text \<open>The first argument is the level minus one.\<close>

primrec prune_tree :: "nat \<Rightarrow> nat \<Rightarrow> nat \<Rightarrow> nat \<Rightarrow> nat \<Rightarrow> ('c nextufs_image, nat \<times> nat) io" where
  "prune_tree 0 = (\<lambda>root base keep released. bind_io get_io (\<lambda>img.
     prune_node (\<lambda>i child released.
       if keep \<le> base + i
       then bind_io (nextufs__free_fragment_run child (frags_per_block (sb img))) (\<lambda>_.
         ret (0, u32 (released + frags_per_block (sb img))))
       else ret (child, released)) root released))"
| "prune_tree (Suc l) = (\<lambda>root base keep released. bind_io get_io (\<lambda>img.
     let span = (block_size (sb img) div 4) ^ Suc l in
     prune_node (\<lambda>i child released. prune_tree l child (base + i * span) keep released) root released))"

text \<open>\<open>~x\<close> cut to 16 bits, as in \<open>mode &= ~x\<close>.\<close>

definition u16_not :: "nat \<Rightarrow> nat" where
  "u16_not x = 2 ^ 16 - 1 - x mod 2 ^ 16"

definition finish_inode :: "nextufs_node \<Rightarrow> ('c nextufs_image, nextufs_node) io" where
  "finish_inode node = bind_io get_io (\<lambda>img.
     let ino = n_inode node;
         ino = (if unprivileged img \<and> nextufs_node_is_reg node
                then ino\<lparr>i_mode := i_mode ino AND u16_not (0x800 OR 0x400)\<rparr> else ino) in
     bind_io time_io (\<lambda>now.
     let ino = ino\<lparr>i_mtime := now, i_ctime := now\<rparr> in
     bind_io (nextufs__write_inode_raw (n_inode_no node) ino) (\<lambda>_.
     ret (node\<lparr>n_inode := ino\<rparr>))))"

text \<open>The two halves of \<open>nextufs__file_resize\<close>, before the new size is stored.\<close>

definition resize_grow :: "nextufs_node \<Rightarrow> nat \<Rightarrow> ('c nextufs_image, nextufs_node) io" where
  "resize_grow node sz = bind_io get_io (\<lambda>img.
     let old_size = i_size (n_inode node);
         bs = block_size (sb img);
         last_block = u32 ((sz - 1) div bs);
         tail = u32 (old_size div bs) in
     bind_io
       (if old_size mod bs \<noteq> 0 \<and> old_size div bs \<noteq> last_block then
          bind_io (nextufs__resolve_inode_data_block (n_inode node) tail) (\<lambda>frag.
          if frag \<noteq> 0 then grow_block node tail old_size sz else ret node)
        else ret node) (\<lambda>node.
     grow_block node last_block old_size sz))"

definition shrink_direct ::
  "nextufs_superblock \<Rightarrow> nat \<Rightarrow> nat \<Rightarrow> nat \<Rightarrow> nextufs_inode \<times> nat \<Rightarrow>
   ('c nextufs_image, nextufs_inode \<times> nat) io" where
  "shrink_direct s old_size sz i = (\<lambda>(ino, released).
     let before = file_frags s old_size i; after = file_frags s sz i in
     if i_db ino ! i = 0 then ret (ino, released)
     else if after < before then
       bind_io (nextufs__free_fragment_run (u32 (i_db ino ! i + after)) (before - after)) (\<lambda>_.
       ret (if after = 0 then ino\<lparr>i_db := (i_db ino)[i := 0]\<rparr> else ino, u32 (released + (before - after))))
     else ret (ino, released))"

definition resize_shrink :: "nextufs_node \<Rightarrow> nat \<Rightarrow> ('c nextufs_image, nextufs_node) io" where
  "resize_shrink node sz = bind_io get_io (\<lambda>img.
     let s = sb img;
         old_size = i_size (n_inode node);
         bs = block_size s;
         entries = bs div 4;
         keep = (sz + bs - 1) div bs in
     bind_io (fold_io (shrink_direct s old_size sz) [0..<12] (n_inode node, 0)) (\<lambda>(ino, released).
     bind_io (fold_io (\<lambda>(l, base) (ino, released).
         bind_io (prune_tree l (i_ib ino ! l) base keep released) (\<lambda>(root, released).
         ret (ino\<lparr>i_ib := (i_ib ino)[l := root]\<rparr>, released)))
       [(0, 12), (1, 12 + entries), (2, 12 + entries + entries ^ 2)] (ino, released)) (\<lambda>(ino, released).
     if i_blocks ino < released * sectors_per_frag s then fail EINVAL
     else
       let ino = ino\<lparr>i_blocks := i_blocks ino - released * sectors_per_frag s\<rparr>;
           logical = u32 (sz div bs);
           within = sz mod bs in
       bind_io
         (if within \<noteq> 0 then
            bind_io (nextufs__resolve_inode_data_block ino logical) (\<lambda>frag.
            if frag \<noteq> 0
            then nextufs__write_exact (replicate (file_frags s sz logical * frag_size s - within) 0)
              (frag_off img frag + int within)
            else ret ())
          else ret ()) (\<lambda>_.
       ret (node\<lparr>n_inode := ino\<rparr>)))))"

definition nextufs__file_resize :: "nextufs_node \<Rightarrow> nat \<Rightarrow> ('c nextufs_image, nextufs_node) io" where
  "nextufs__file_resize node sz =
     bind_io (lift_res (size_valid sz)) (\<lambda>_.
     if sz = i_size (n_inode node) then ret node
     else bind_io (if i_size (n_inode node) < sz then resize_grow node sz else resize_shrink node sz) (\<lambda>node.
       finish_inode (node\<lparr>n_inode := (n_inode node)\<lparr>i_size := sz\<rparr>\<rparr>)))"

text \<open>The test of \<open>block_size\<close> makes the recursion end; no accepted geometry has a block size of 0.\<close>

function file_write_loop ::
  "nextufs_superblock \<Rightarrow> nextufs_node \<Rightarrow> byte list \<Rightarrow> nat \<Rightarrow> ('c nextufs_image, nextufs_node) io" where
  "file_write_loop s node data offset =
     (if data \<noteq> [] \<and> 0 < block_size s then
        let logical = u32 (offset div block_size s);
            within = offset mod block_size s;
            bytes = min (block_size s - within) (length data) in
        bind_io (nextufs__resolve_inode_data_block (n_inode node) logical) (\<lambda>frag.
        bind_io
          (if frag = 0 then
             bind_io (grow_block node logical (logical * block_size s) (i_size (n_inode node))) (\<lambda>node.
             bind_io (nextufs__resolve_inode_data_block (n_inode node) logical) (\<lambda>frag.
             ret (node, frag)))
           else ret (node, frag)) (\<lambda>(node, frag).
        bind_io get_io (\<lambda>img.
        bind_io (nextufs__write_exact (take bytes data) (frag_off img frag + int within)) (\<lambda>_.
        file_write_loop s node (drop bytes data) (offset + bytes)))))
      else ret node)"
  by pat_completeness auto
termination by (relation "measure (\<lambda>(s, node, data, offset). length data)") auto

declare file_write_loop.simps [simp del]

definition nextufs__file_write ::
  "nextufs_node \<Rightarrow> byte list \<Rightarrow> nat \<Rightarrow> ('c nextufs_image, nextufs_node) io" where
  "nextufs__file_write node data offset =
     (if data = [] then ret node
      else if 2 ^ 64 - 1 - length data < offset then fail EFBIG
      else bind_io (lift_res (size_valid (offset + length data))) (\<lambda>_.
        bind_io (if i_size (n_inode node) < offset + length data
                 then nextufs__file_resize node (offset + length data) else ret node) (\<lambda>node.
        bind_io get_io (\<lambda>img.
        bind_io (file_write_loop (sb img) node data offset) finish_inode))))"

section \<open>File updates can be rolled back\<close>

context backend
begin

lemma fold_tx:
  "(\<And>x b. keeps (tx_inv ops disk binv D) (f x b)) \<Longrightarrow> keeps (tx_inv ops disk binv D) (fold_io f xs b)"
  by (induction xs arbitrary: b) (auto intro!: tx_rules)

lemma grow_block_tx: "keeps (tx_inv ops disk binv D) (grow_block node b m n)"
  unfolding grow_block_def Let_def by (intro map_tx_rules)

lemma prune_node_tx:
  assumes "\<And>i c r. keeps (tx_inv ops disk binv D) (f i c r)"
  shows "keeps (tx_inv ops disk binv D) (prune_node f root released)"
  unfolding prune_node_def Let_def by (intro map_tx_rules fold_tx assms)

lemma prune_tree_tx: "keeps (tx_inv ops disk binv D) (prune_tree l root base keep released)"
proof (induction l arbitrary: root base released)
  case 0
  show ?case by (simp only: prune_tree.simps) (intro map_tx_rules prune_node_tx)
next
  case (Suc l)
  show ?case by (simp only: prune_tree.simps Let_def) (intro map_tx_rules prune_node_tx Suc)
qed

lemma finish_inode_tx: "keeps (tx_inv ops disk binv D) (finish_inode node)"
  unfolding finish_inode_def Let_def by (intro map_tx_rules)

lemma file_resize_tx: "keeps (tx_inv ops disk binv D) (nextufs__file_resize node sz)"
  unfolding nextufs__file_resize_def resize_grow_def resize_shrink_def shrink_direct_def Let_def
  by (intro map_tx_rules grow_block_tx fold_tx prune_tree_tx finish_inode_tx)

lemma file_write_loop_tx: "keeps (tx_inv ops disk binv D) (file_write_loop s node data offset)"
proof (induction data arbitrary: node offset rule: length_induct)
  case (1 data)
  show ?case
  proof (cases "data \<noteq> [] \<and> 0 < block_size s")
    case True
    have less: "length (drop (min (block_size s - offset mod block_size s) (length data)) data) < length data"
      using True mod_less_divisor [of "block_size s" offset] by (auto simp: min_def)
    show ?thesis
      by (subst file_write_loop.simps, simp only: True Let_def if_True)
        (intro map_tx_rules grow_block_tx "1.IH" [rule_format] less)
  qed (subst file_write_loop.simps, auto intro!: tx_rules)
qed

lemma file_write_tx: "keeps (tx_inv ops disk binv D) (nextufs__file_write node data offset)"
  unfolding nextufs__file_write_def
  by (intro map_tx_rules file_resize_tx file_write_loop_tx finish_inode_tx)

lemmas file_tx_rules = map_tx_rules node_get_tx file_resize_tx file_write_tx

end

end
