(* ===== verification/Directory.thy ===== *)
theory Directory
  imports File_Mutate
begin

text \<open>
  Directories: the entry records of a directory block (\<^verbatim>\<open>src/core/layout.c\<close>), the iteration over
  the entries and the search for a name (\<^verbatim>\<open>src/core/directory.c\<close>), and the insertion and removal
  of entries, new directory blocks, the parent links and inline symbolic links
  (\<^verbatim>\<open>src/mutate/dir_mutate.c\<close>). A C string is the list of its bytes before the terminating zero.
\<close>

section \<open>Entries\<close>

definition DIRBLKSIZ :: nat where "DIRBLKSIZ = 1024"

type_synonym cstring = "byte list"

definition slash :: byte where "slash = 0x2f"
definition dot :: byte where "dot = 0x2e"

lemmas char_consts = slash_def dot_def

record nextufs_dirent_view =
  d_ino :: nat
  d_reclen :: nat
  d_namlen :: nat
  d_name :: cstring

text \<open>The mask \<open>~3U\<close> is 32 bits wide.\<close>

definition nextufs__dirent_size :: "nat \<Rightarrow> nat" where
  "nextufs__dirent_size name_len = 8 + ((name_len + 4) AND 0xfffffffc)"

text \<open>
  The view keeps the \<open>namlen\<close> bytes of the name, of which the buffer may hold fewer when the record
  is unused.
\<close>

definition nextufs__read_dirent :: "byte list \<Rightarrow> nat \<Rightarrow> nextufs_dirent_view option" where
  "nextufs__read_dirent buf off =
     (if length buf < off \<or> length buf - off < 8 then None
      else
        let ino = nextufs__read_be32 buf off;
            reclen = nextufs__read_be16 buf (off + 4);
            namlen = nextufs__read_be16 buf (off + 6);
            name = bytes_at (off + 8) namlen buf in
        if reclen < 8 \<or> reclen AND 3 \<noteq> 0 \<or> length buf - off < reclen \<or>
           DIRBLKSIZ - off mod DIRBLKSIZ < reclen
        then None
        else if ino \<noteq> 0 \<and> (namlen = 0 \<or> 255 < namlen \<or> reclen < nextufs__dirent_size namlen \<or>
           0 \<in> set name \<or> slash \<in> set name \<or> buf ! (off + 8 + namlen) \<noteq> 0)
        then None
        else Some \<lparr>d_ino = ino, d_reclen = reclen, d_namlen = namlen, d_name = name\<rparr>)"

lemma read_dirent_reclen:
  assumes "nextufs__read_dirent buf off = Some ent"
  shows "8 \<le> d_reclen ent" and "off + d_reclen ent \<le> length buf" and "off < length buf"
  using assms by (auto simp: nextufs__read_dirent_def Let_def split: if_splits)

text \<open>\<open>nextufs__write_dirent_raw(block + p, ino, reclen, name)\<close>.\<close>

definition nextufs__write_dirent_raw ::
  "byte list \<Rightarrow> nat \<Rightarrow> nat \<Rightarrow> nat \<Rightarrow> cstring \<Rightarrow> errno + byte list" where
  "nextufs__write_dirent_raw block p ino reclen name =
     (if 255 < length name then Inl ENAMETOOLONG
      else if DIRBLKSIZ < reclen \<or> reclen AND 3 \<noteq> 0 \<or>
         reclen < nextufs__dirent_size (length name) \<or> slash \<in> set name
      then Inl EINVAL
      else
        let block = overlay p (replicate reclen 0) block;
            block = nextufs__write_be32 block p ino;
            block = nextufs__write_be16 block (p + 4) reclen;
            block = nextufs__write_be16 block (p + 6) (u16 (length name))
        in Inr (overlay (p + 8) name block))"

section \<open>Iteration\<close>

text \<open>
  The loop over the records of one buffer. A callback gets the inode number and the name and may
  stop the iteration with a value; it runs in the monad, so it may read the image.
\<close>

function dir_entries ::
  "(nat \<Rightarrow> cstring \<Rightarrow> ('s, 'a option) io) \<Rightarrow> byte list \<Rightarrow> nat \<Rightarrow> ('s, 'a option) io" where
  "dir_entries cb buf off =
     (if off < length buf then
        case nextufs__read_dirent buf off of
          None \<Rightarrow> fail EIO
        | Some ent \<Rightarrow>
            bind_io (if d_ino ent \<noteq> 0 \<and> d_namlen ent \<noteq> 0 then cb (d_ino ent) (d_name ent) else ret None) (\<lambda>r.
            case r of
              Some x \<Rightarrow> ret (Some x)
            | None \<Rightarrow> dir_entries cb buf (off + d_reclen ent))
      else ret None)"
  by pat_completeness auto
termination
  by (relation "measure (\<lambda>(cb, buf, off). length buf - off)") (auto dest: read_dirent_reclen)

declare dir_entries.simps [simp del]

text \<open>
  The loop over the blocks; a block size of 0, which no accepted geometry has, would not end. The
  chunk lies inside the file, so that the read returns \<open>chunk_size\<close> bytes.
\<close>

function dir_blocks ::
  "nextufs_superblock \<Rightarrow> (nat \<Rightarrow> cstring \<Rightarrow> ('c nextufs_image, 'a option) io) \<Rightarrow> nextufs_inode \<Rightarrow>
   nat \<Rightarrow> nat \<Rightarrow> ('c nextufs_image, 'a option) io" where
  "dir_blocks s cb dirino remaining block_index =
     (if 0 < remaining \<and> 0 < block_size s then
        let chunk_size = min remaining (block_size s) in
        bind_io (map_err EIO (nextufs_inode_read_data dirino (block_index * block_size s) chunk_size)) (\<lambda>buf.
        bind_io (dir_entries cb buf 0) (\<lambda>r.
        case r of
          Some x \<Rightarrow> ret (Some x)
        | None \<Rightarrow> dir_blocks s cb dirino (remaining - chunk_size) (block_index + 1)))
      else ret None)"
  by pat_completeness auto
termination
  by (relation "measure (\<lambda>(s, cb, dirino, remaining, block_index). remaining)") auto

declare dir_blocks.simps [simp del]

definition nextufs_directory_iterate ::
  "nextufs_inode \<Rightarrow> (nat \<Rightarrow> cstring \<Rightarrow> ('c nextufs_image, 'a option) io) \<Rightarrow> ('c nextufs_image, 'a option) io" where
  "nextufs_directory_iterate dirino cb = bind_io get_io (\<lambda>img.
     bind_io (malloc_io (block_size (sb img))) (\<lambda>_.
     dir_blocks (sb img) cb dirino (i_size dirino) 0))"

definition nextufs_directory_iterate_nodes ::
  "nextufs_inode \<Rightarrow> (nextufs_node \<Rightarrow> cstring \<Rightarrow> ('c nextufs_image, 'a option) io) \<Rightarrow>
   ('c nextufs_image, 'a option) io" where
  "nextufs_directory_iterate_nodes dirino cb = nextufs_directory_iterate dirino (\<lambda>ino name.
     bind_io (nextufs_node_get_by_inode ino) (\<lambda>node. cb node name))"

text \<open>The inode number 0 says that the name was not found.\<close>

definition nextufs__find_name_in_directory :: "nextufs_inode \<Rightarrow> cstring \<Rightarrow> ('c nextufs_image, nat) io" where
  "nextufs__find_name_in_directory dirino target_name =
     bind_io (nextufs_directory_iterate dirino (\<lambda>ino name.
       ret (if name = target_name then Some ino else None))) (\<lambda>r.
     ret (case r of Some ino \<Rightarrow> ino | None \<Rightarrow> 0))"

section \<open>Insertion\<close>

definition nextufs__update_node_times :: "nextufs_node \<Rightarrow> ('c nextufs_image, nextufs_node) io" where
  "nextufs__update_node_times node = bind_io time_io (\<lambda>now.
     bind_io (nextufs__write_inode_raw (n_inode_no node)
       ((n_inode node)\<lparr>i_mtime := now, i_ctime := now, i_atime := now\<rparr>)) (\<lambda>_.
     nextufs_node_get_by_inode (n_inode_no node)))"

text \<open>The node, and where the new directory block is on the disk.\<close>

definition nextufs__grow_directory_by_dirblk ::
  "nextufs_node \<Rightarrow> ('c nextufs_image, nextufs_node \<times> int) io" where
  "nextufs__grow_directory_by_dirblk dirnode = (let old_size = i_size (n_inode dirnode) in
     if old_size mod DIRBLKSIZ \<noteq> 0 then fail EINVAL
     else bind_io (nextufs__file_resize dirnode (old_size + DIRBLKSIZ)) (\<lambda>dirnode.
       bind_io get_io (\<lambda>img.
       bind_io (nextufs__resolve_inode_data_block (n_inode dirnode)
         (u32 (old_size div block_size (sb img)))) (\<lambda>frag.
       if frag = 0 then fail EIO
       else ret (dirnode, frag_off img frag + int (old_size mod block_size (sb img)))))))"

text \<open>
  The search for room in one buffer. The result is the buffer with the new entry, or \<open>None\<close> when no
  record has room.
\<close>

function insert_scan :: "nat \<Rightarrow> cstring \<Rightarrow> byte list \<Rightarrow> nat \<Rightarrow> errno + byte list option" where
  "insert_scan new_inode name block off =
     (if off < length block then
        case nextufs__read_dirent block off of
          None \<Rightarrow> Inl EIO
        | Some ent \<Rightarrow>
            let need = nextufs__dirent_size (length name);
                used = (if d_ino ent = 0 then 0 else nextufs__dirent_size (d_namlen ent));
                slack = d_reclen ent - used in
            if d_ino ent = 0 \<and> need \<le> d_reclen ent then
              (case nextufs__write_dirent_raw block off new_inode (d_reclen ent) name of
                 Inl e \<Rightarrow> Inl EINVAL | Inr b \<Rightarrow> Inr (Some b))
            else if d_ino ent \<noteq> 0 \<and> need \<le> slack then
              (case nextufs__write_dirent_raw (nextufs__write_be16 block (off + 4) (u16 used))
                      (off + used) new_inode (u16 slack) name of
                 Inl e \<Rightarrow> Inl EINVAL | Inr b \<Rightarrow> Inr (Some b))
            else insert_scan new_inode name block (off + d_reclen ent)
      else Inr None)"
  by pat_completeness auto
termination
  by (relation "measure (\<lambda>(new_inode, name, block, off). length block - off)")
    (auto dest: read_dirent_reclen)

declare insert_scan.simps [simp del]

function insert_blocks ::
  "nextufs_superblock \<Rightarrow> nextufs_node \<Rightarrow> cstring \<Rightarrow> nat \<Rightarrow> nat \<Rightarrow> nat \<Rightarrow>
   ('c nextufs_image, nextufs_node option) io" where
  "insert_blocks s dirnode name new_inode remaining block_index =
     (if 0 < remaining \<and> 0 < block_size s then
        let chunk_size = min remaining (block_size s) in
        bind_io (map_err EIO (nextufs_inode_read_data (n_inode dirnode) (block_index * block_size s) chunk_size)) (\<lambda>block.
        bind_io (lift_res (insert_scan new_inode name block 0)) (\<lambda>r.
        case r of
          None \<Rightarrow> insert_blocks s dirnode name new_inode (remaining - chunk_size) (block_index + 1)
        | Some block \<Rightarrow>
            bind_io (map_err EIO (nextufs__resolve_inode_data_block (n_inode dirnode) (u32 block_index))) (\<lambda>data_frag.
            if data_frag = 0 then fail EIO
            else bind_io get_io (\<lambda>img.
              bind_io (map_err EIO (nextufs__write_exact block (frag_off img data_frag))) (\<lambda>_.
              bind_io (nextufs__update_node_times dirnode) (\<lambda>dirnode. ret (Some dirnode)))))))
      else ret None)"
  by pat_completeness auto
termination
  by (relation "measure (\<lambda>(s, dirnode, name, new_inode, remaining, block_index). remaining)") auto

declare insert_blocks.simps [simp del]

text \<open>The node comes back updated; no caller uses the node of a call that failed.\<close>

definition nextufs__insert_dirent ::
  "nextufs_node \<Rightarrow> cstring \<Rightarrow> nat \<Rightarrow> ('c nextufs_image, nextufs_node) io" where
  "nextufs__insert_dirent dirnode name new_inode = bind_io get_io (\<lambda>img.
     bind_io (malloc_io (block_size (sb img))) (\<lambda>_.
     bind_io (insert_blocks (sb img) dirnode name new_inode (i_size (n_inode dirnode)) 0) (\<lambda>r.
     case r of
       Some dirnode \<Rightarrow> ret dirnode
     | None \<Rightarrow>
         if DIRBLKSIZ < nextufs__dirent_size (length name) then fail ENOSPC
         else bind_io (map_err ENOSPC (nextufs__grow_directory_by_dirblk dirnode)) (\<lambda>(dirnode, new_block_off).
           bind_io (map_err EINVAL (lift_res
             (nextufs__write_dirent_raw (replicate DIRBLKSIZ 0) 0 new_inode DIRBLKSIZ name))) (\<lambda>new_dirblk.
           bind_io (map_err EIO (nextufs__write_exact new_dirblk new_block_off)) (\<lambda>_.
           ret dirnode))))))"

section \<open>Removal\<close>

text \<open>
  The search in one directory block, with the offset of the last used record before \<open>off\<close>. The
  result is the inode number of the removed entry and the block without it.
\<close>

function remove_scan :: "cstring \<Rightarrow> byte list \<Rightarrow> nat \<Rightarrow> nat option \<Rightarrow> errno + (nat \<times> byte list) option" where
  "remove_scan name dirblk off prev_off =
     (if off < length dirblk then
        case nextufs__read_dirent dirblk off of
          None \<Rightarrow> Inl EIO
        | Some ent \<Rightarrow>
            if d_ino ent \<noteq> 0 \<and> d_namlen ent = length name \<and> d_name ent = name then
              if name = [dot] \<or> name = [dot, dot] then Inl EINVAL
              else case prev_off of
                Some p \<Rightarrow>
                  (case nextufs__read_dirent dirblk p of
                     None \<Rightarrow> Inl EINVAL
                   | Some prev_ent \<Rightarrow> Inr (Some (d_ino ent,
                       nextufs__write_be16 dirblk (p + 4) (u16 (d_reclen prev_ent + d_reclen ent)))))
              | None \<Rightarrow> Inr (Some (d_ino ent, nextufs__write_be32 dirblk off 0))
            else remove_scan name dirblk (off + d_reclen ent) (if d_ino ent \<noteq> 0 then Some off else prev_off)
      else Inr None)"
  by pat_completeness auto
termination
  by (relation "measure (\<lambda>(name, dirblk, off, prev_off). length dirblk - off)")
    (auto dest: read_dirent_reclen)

declare remove_scan.simps [simp del]

text \<open>The loop over the directory blocks of one buffer.\<close>

function remove_dirblks :: "cstring \<Rightarrow> byte list \<Rightarrow> nat \<Rightarrow> errno + (nat \<times> byte list) option" where
  "remove_dirblks name block dirblk_base =
     (if dirblk_base < length block then
        case remove_scan name (bytes_at dirblk_base DIRBLKSIZ block) 0 None of
          Inl e \<Rightarrow> Inl e
        | Inr (Some (ino, dirblk)) \<Rightarrow> Inr (Some (ino, overlay dirblk_base dirblk block))
        | Inr None \<Rightarrow> remove_dirblks name block (dirblk_base + DIRBLKSIZ)
      else Inr None)"
  by pat_completeness auto
termination
  by (relation "measure (\<lambda>(name, block, dirblk_base). length block - dirblk_base)")
    (auto simp: DIRBLKSIZ_def)

declare remove_dirblks.simps [simp del]

function remove_blocks ::
  "nextufs_superblock \<Rightarrow> nextufs_node \<Rightarrow> cstring \<Rightarrow> nat \<Rightarrow> nat \<Rightarrow>
   ('c nextufs_image, nextufs_node \<times> nat) io" where
  "remove_blocks s dirnode name remaining block_index =
     (if 0 < remaining \<and> 0 < block_size s then
        let chunk_size = min remaining (block_size s) in
        bind_io (map_err EIO (nextufs_inode_read_data (n_inode dirnode) (block_index * block_size s) chunk_size)) (\<lambda>block.
        bind_io (map_err EINVAL (nextufs__resolve_inode_data_block (n_inode dirnode) (u32 block_index))) (\<lambda>data_frag.
        if data_frag = 0 then fail EINVAL
        else bind_io (lift_res (remove_dirblks name block 0)) (\<lambda>r.
        case r of
          None \<Rightarrow> remove_blocks s dirnode name (remaining - chunk_size) (block_index + 1)
        | Some (ino, block) \<Rightarrow>
            bind_io get_io (\<lambda>img.
            bind_io (map_err EIO (nextufs__write_exact block (frag_off img data_frag))) (\<lambda>_.
            bind_io (nextufs__update_node_times dirnode) (\<lambda>dirnode. ret (dirnode, ino)))))))
      else fail ENOENT)"
  by pat_completeness auto
termination
  by (relation "measure (\<lambda>(s, dirnode, name, remaining, block_index). remaining)") auto

declare remove_blocks.simps [simp del]

definition nextufs__remove_dirent ::
  "nextufs_node \<Rightarrow> cstring \<Rightarrow> ('c nextufs_image, nextufs_node \<times> nat) io" where
  "nextufs__remove_dirent dirnode name = bind_io get_io (\<lambda>img.
     bind_io (malloc_io (block_size (sb img))) (\<lambda>_.
     remove_blocks (sb img) dirnode name (i_size (n_inode dirnode)) 0))"

section \<open>New directories and parent links\<close>

definition new_directory_block :: "nat \<Rightarrow> nat \<Rightarrow> errno + byte list" where
  "new_directory_block self_ino parent_ino =
     (case nextufs__write_dirent_raw (replicate DIRBLKSIZ 0) 0 self_ino (u16 (nextufs__dirent_size 1)) [dot] of
        Inl e \<Rightarrow> Inl EINVAL
      | Inr dirblk \<Rightarrow>
          (case nextufs__write_dirent_raw dirblk (nextufs__dirent_size 1) parent_ino
                  (u16 (DIRBLKSIZ - nextufs__dirent_size 1)) [dot, dot] of
             Inl e \<Rightarrow> Inl EINVAL
           | Inr dirblk \<Rightarrow> Inr dirblk))"

definition nextufs__write_new_directory_block :: "nat \<Rightarrow> nat \<Rightarrow> nat \<Rightarrow> ('c nextufs_image, unit) io" where
  "nextufs__write_new_directory_block frag_addr self_ino parent_ino = bind_io get_io (\<lambda>img.
     bind_io (lift_res (new_directory_block self_ino parent_ino)) (\<lambda>dirblk.
     nextufs__write_exact dirblk (frag_off img frag_addr)))"

text \<open>\<open>None\<close> stands for \<open>return 0\<close>; otherwise the two flags.\<close>

function empty_scan :: "nat \<Rightarrow> nat \<Rightarrow> byte list \<Rightarrow> nat \<Rightarrow> bool \<Rightarrow> bool \<Rightarrow> (bool \<times> bool) option" where
  "empty_scan self_ino parent_ino block off seen_dot seen_dotdot =
     (if off < length block then
        case nextufs__read_dirent block off of
          None \<Rightarrow> None
        | Some ent \<Rightarrow>
            if d_ino ent = 0 then
              empty_scan self_ino parent_ino block (off + d_reclen ent) seen_dot seen_dotdot
            else if d_name ent = [dot] then
              if d_ino ent \<noteq> self_ino then None
              else empty_scan self_ino parent_ino block (off + d_reclen ent) True seen_dotdot
            else if d_name ent = [dot, dot] then
              if d_ino ent \<noteq> parent_ino then None
              else empty_scan self_ino parent_ino block (off + d_reclen ent) seen_dot True
            else None
      else Some (seen_dot, seen_dotdot))"
  by pat_completeness auto
termination
  by (relation "measure (\<lambda>(self_ino, parent_ino, block, off, seen_dot, seen_dotdot). length block - off)")
    (auto dest: read_dirent_reclen)

declare empty_scan.simps [simp del]

function empty_blocks ::
  "nextufs_superblock \<Rightarrow> nextufs_node \<Rightarrow> nat \<Rightarrow> nat \<Rightarrow> nat \<Rightarrow> bool \<Rightarrow> bool \<Rightarrow> ('c nextufs_image, bool) io" where
  "empty_blocks s dirnode parent_ino remaining block_index seen_dot seen_dotdot =
     (if 0 < remaining \<and> 0 < block_size s then
        let chunk_size = min remaining (block_size s) in
        bind_io (try_io (nextufs_inode_read_data (n_inode dirnode) (block_index * block_size s) chunk_size)) (\<lambda>r.
        case r of
          Inl e \<Rightarrow> ret False
        | Inr block \<Rightarrow>
            (case empty_scan (n_inode_no dirnode) parent_ino block 0 seen_dot seen_dotdot of
               None \<Rightarrow> ret False
             | Some (seen_dot, seen_dotdot) \<Rightarrow>
                 empty_blocks s dirnode parent_ino (remaining - chunk_size) (block_index + 1) seen_dot seen_dotdot))
      else ret (seen_dot \<and> seen_dotdot))"
  by pat_completeness auto
termination
  by (relation "measure (\<lambda>(s, dirnode, parent_ino, remaining, block_index, seen_dot, seen_dotdot). remaining)") auto

declare empty_blocks.simps [simp del]

definition nextufs__directory_is_empty :: "nextufs_node \<Rightarrow> nat \<Rightarrow> ('c nextufs_image, bool) io" where
  "nextufs__directory_is_empty dirnode parent_ino =
     (if \<not> nextufs_node_is_dir dirnode then ret False
      else bind_io get_io (\<lambda>img.
        bind_io (try_io (malloc_io (block_size (sb img)))) (\<lambda>m.
        case m of
          Inl e \<Rightarrow> ret False
        | Inr _ \<Rightarrow> empty_blocks (sb img) dirnode parent_ino (i_size (n_inode dirnode)) 0 False False)))"

definition nextufs__read_directory_parent_inode :: "nextufs_node \<Rightarrow> ('c nextufs_image, nat) io" where
  "nextufs__read_directory_parent_inode dirnode =
     (if \<not> nextufs_node_is_dir dirnode \<or> i_size (n_inode dirnode) < DIRBLKSIZ then fail ENOTDIR
      else bind_io (map_err EIO (nextufs_inode_read_data (n_inode dirnode) 0 DIRBLKSIZ)) (\<lambda>dirblk.
        lift_res (case nextufs__read_dirent dirblk 0 of
          None \<Rightarrow> Inl EINVAL
        | Some ent \<Rightarrow>
            if d_ino ent \<noteq> n_inode_no dirnode \<or> d_name ent \<noteq> [dot] then Inl EINVAL
            else (case nextufs__read_dirent dirblk (d_reclen ent) of
                None \<Rightarrow> Inl EINVAL
              | Some ent \<Rightarrow> if d_name ent \<noteq> [dot, dot] then Inl EINVAL else Inr (d_ino ent)))))"

definition nextufs__update_directory_parent_inode ::
  "nextufs_node \<Rightarrow> nat \<Rightarrow> ('c nextufs_image, nextufs_node) io" where
  "nextufs__update_directory_parent_inode dirnode parent_inode =
     (if \<not> nextufs_node_is_dir dirnode \<or> i_size (n_inode dirnode) < DIRBLKSIZ \<or>
         i_db (n_inode dirnode) ! 0 = 0
      then fail ENOTDIR
      else bind_io (map_err EIO (nextufs_inode_read_data (n_inode dirnode) 0 DIRBLKSIZ)) (\<lambda>dirblk.
        bind_io (lift_res (case nextufs__read_dirent dirblk 0 of
            None \<Rightarrow> Inl EINVAL
          | Some ent \<Rightarrow>
              (case nextufs__read_dirent dirblk (d_reclen ent) of
                 None \<Rightarrow> Inl EINVAL
               | Some ent2 \<Rightarrow>
                   if d_name ent2 \<noteq> [dot, dot] then Inl EINVAL
                   else Inr (nextufs__write_be32 dirblk (d_reclen ent) parent_inode)))) (\<lambda>dirblk.
        bind_io get_io (\<lambda>img.
        bind_io (nextufs__write_exact dirblk (frag_off img (i_db (n_inode dirnode) ! 0))) (\<lambda>_.
        nextufs__update_node_times dirnode)))))"

text \<open>The target has at most 60 bytes.\<close>

definition nextufs__store_inline_symlink :: "nextufs_inode \<Rightarrow> cstring \<Rightarrow> nextufs_inode" where
  "nextufs__store_inline_symlink ino target = (let raw = overlay 0 target (replicate 60 0) in
     ino\<lparr>i_db := map (\<lambda>i. nextufs__read_be32 raw (i * 4)) [0..<12],
         i_ib := map (\<lambda>i. nextufs__read_be32 raw (48 + i * 4)) [0..<3]\<rparr>)"

section \<open>Directory operations can be rolled back\<close>

context backend
begin

lemma dir_entries_tx:
  assumes "\<And>i n. keeps (tx_inv ops disk binv D) (cb i n)"
  shows "keeps (tx_inv ops disk binv D) (dir_entries cb buf off)"
proof (induction "length buf - off" arbitrary: off rule: less_induct)
  case less
  show ?case
  proof (cases "off < length buf \<and> nextufs__read_dirent buf off \<noteq> None")
    case True
    then obtain ent where ent: "nextufs__read_dirent buf off = Some ent" by auto
    from read_dirent_reclen [OF ent] have "length buf - (off + d_reclen ent) < length buf - off" by auto
    from less [OF this] True ent show ?thesis
      by (subst dir_entries.simps) (auto intro!: tx_rules assms)
  qed (subst dir_entries.simps, auto intro: keeps_rules)
qed

lemma dir_blocks_tx:
  assumes "\<And>i n. keeps (tx_inv ops disk binv D) (cb i n)"
  shows "keeps (tx_inv ops disk binv D) (dir_blocks s cb ino n b)"
proof (induction n arbitrary: b rule: less_induct)
  case (less n)
  show ?case
    by (subst dir_blocks.simps, cases "0 < n \<and> 0 < block_size s")
      (auto simp: Let_def intro!: file_tx_rules dir_entries_tx assms less)
qed

lemma iterate_tx:
  assumes "\<And>i n. keeps (tx_inv ops disk binv D) (cb i n)"
  shows "keeps (tx_inv ops disk binv D) (nextufs_directory_iterate ino cb)"
  unfolding nextufs_directory_iterate_def by (intro file_tx_rules dir_blocks_tx assms)

lemma find_name_tx: "keeps (tx_inv ops disk binv D) (nextufs__find_name_in_directory ino name)"
  unfolding nextufs__find_name_in_directory_def by (intro file_tx_rules iterate_tx)

lemma update_times_tx: "keeps (tx_inv ops disk binv D) (nextufs__update_node_times node)"
  unfolding nextufs__update_node_times_def by (intro file_tx_rules)

lemma grow_directory_tx: "keeps (tx_inv ops disk binv D) (nextufs__grow_directory_by_dirblk node)"
  unfolding nextufs__grow_directory_by_dirblk_def Let_def by (intro file_tx_rules)

lemma insert_blocks_tx: "keeps (tx_inv ops disk binv D) (insert_blocks s node name i n b)"
proof (induction n arbitrary: b rule: less_induct)
  case (less n)
  show ?case
    by (subst insert_blocks.simps, cases "0 < n \<and> 0 < block_size s")
      (auto simp: Let_def intro!: file_tx_rules update_times_tx less)
qed

lemma insert_dirent_tx: "keeps (tx_inv ops disk binv D) (nextufs__insert_dirent node name i)"
  unfolding nextufs__insert_dirent_def by (intro file_tx_rules insert_blocks_tx grow_directory_tx)

lemma remove_blocks_tx: "keeps (tx_inv ops disk binv D) (remove_blocks s node name n b)"
proof (induction n arbitrary: b rule: less_induct)
  case (less n)
  show ?case
    by (subst remove_blocks.simps, cases "0 < n \<and> 0 < block_size s")
      (auto simp: Let_def intro!: file_tx_rules update_times_tx less)
qed

lemma remove_dirent_tx: "keeps (tx_inv ops disk binv D) (nextufs__remove_dirent node name)"
  unfolding nextufs__remove_dirent_def by (intro file_tx_rules remove_blocks_tx)

lemma new_directory_block_tx:
  "keeps (tx_inv ops disk binv D) (nextufs__write_new_directory_block f i p)"
  unfolding nextufs__write_new_directory_block_def by (intro file_tx_rules)

lemma empty_blocks_tx: "keeps (tx_inv ops disk binv D) (empty_blocks s node p n b d dd)"
proof (induction n arbitrary: b d dd rule: less_induct)
  case (less n)
  show ?case
    by (subst empty_blocks.simps, cases "0 < n \<and> 0 < block_size s")
      (auto simp: Let_def intro!: file_tx_rules less)
qed

lemma is_empty_tx: "keeps (tx_inv ops disk binv D) (nextufs__directory_is_empty node p)"
  unfolding nextufs__directory_is_empty_def by (intro file_tx_rules empty_blocks_tx)

lemma read_parent_tx: "keeps (tx_inv ops disk binv D) (nextufs__read_directory_parent_inode node)"
  unfolding nextufs__read_directory_parent_inode_def by (intro file_tx_rules)

lemma update_parent_tx: "keeps (tx_inv ops disk binv D) (nextufs__update_directory_parent_inode node p)"
  unfolding nextufs__update_directory_parent_inode_def by (intro file_tx_rules update_times_tx)

lemmas dir_tx_rules = file_tx_rules find_name_tx update_times_tx insert_dirent_tx remove_dirent_tx
  new_directory_block_tx is_empty_tx read_parent_tx update_parent_tx

end

end
