(* ===== verification/Path.thy ===== *)
theory Path
  imports Directory
begin

text \<open>
  From names to inodes: the split of a path into parent and name (\<^verbatim>\<open>src/core/layout.c\<close>), the path
  lookup with its symbolic links and permission checks (\<^verbatim>\<open>src/core/path.c\<close>), and the operations on
  nodes and paths of \<^verbatim>\<open>src/core/node.c\<close> that read the image.
\<close>

section \<open>Paths\<close>

definition NEXTUFS_MAX_LOOKUP_DEPTH :: nat where "NEXTUFS_MAX_LOOKUP_DEPTH = 16"
definition NEXTUFS_MAX_PATH_LEN :: nat where "NEXTUFS_MAX_PATH_LEN = 4096"

definition nextufs__path_split :: "cstring \<Rightarrow> nat \<Rightarrow> nat \<Rightarrow> errno + cstring \<times> cstring" where
  "nextufs__path_split path parent_size name_size =
     (if path = [] \<or> hd path \<noteq> slash then Inl EINVAL
      else
        let name = rev (takeWhile (\<lambda>b. b \<noteq> slash) (rev path));
            parent_len = length path - length name - 1 in
        if name = [] then Inl EINVAL
        else if name_size \<le> length name then Inl ENAMETOOLONG
        else if parent_len = 0 then (if parent_size < 2 then Inl ENAMETOOLONG else Inr ([slash], name))
        else if parent_size < parent_len + 1 then Inl ENAMETOOLONG
        else Inr (take parent_len path, name))"

text \<open>The result is the new prefix, \<open>None\<close> when it does not fit.\<close>

definition append_path_component :: "cstring \<Rightarrow> nat \<Rightarrow> cstring \<Rightarrow> cstring option" where
  "append_path_component path path_size component =
     (let tmp = (if path = [slash] \<or> path = [] then slash # component else path @ slash # component) in
      if path_size \<le> length tmp then None else Some tmp)"

text \<open>\<open>strsep(&cursor, "/")\<close> on a cursor that is not \<open>NULL\<close>: the segment and the new cursor.\<close>

definition strsep_slash :: "cstring \<Rightarrow> cstring \<times> cstring option" where
  "strsep_slash cursor = (takeWhile (\<lambda>b. b \<noteq> slash) cursor,
     case dropWhile (\<lambda>b. b \<noteq> slash) cursor of [] \<Rightarrow> None | b # rest \<Rightarrow> Some rest)"

lemma strsep_shorter: "snd (strsep_slash c) = Some r \<Longrightarrow> length r < length c"
proof -
  assume "snd (strsep_slash c) = Some r"
  then obtain b where "dropWhile (\<lambda>b. b \<noteq> slash) c = b # r"
    by (auto simp: strsep_slash_def split: list.splits)
  with length_dropWhile_le [of "\<lambda>b. b \<noteq> slash" c] show ?thesis by simp
qed

text \<open>The path to go on with after a symbolic link, \<open>None\<close> when it does not fit.\<close>

definition link_path :: "cstring \<Rightarrow> cstring \<Rightarrow> cstring \<Rightarrow> cstring option" where
  "link_path prefix link_target remainder =
     (let base = (if link_target \<noteq> [] \<and> hd link_target = slash then link_target
                  else prefix @ slash # link_target);
          new_path = (if remainder \<noteq> [] then base @ slash # remainder else base) in
      if NEXTUFS_MAX_PATH_LEN \<le> length new_path then None else Some new_path)"

section \<open>Lookup\<close>

datatype nextufs_write_policy = NEXTUFS_WRITE_SU | NEXTUFS_WRITE_USER

text \<open>\<open>w_session\<close> says whether the context has a session; the session's state is passed apart.\<close>

record nextufs_write_ctx =
  w_policy :: nextufs_write_policy
  w_uid :: nat
  w_gid :: nat
  w_groups :: "nat list"
  w_session :: bool

definition search_allowed :: "nextufs_write_ctx option \<Rightarrow> nextufs_inode \<Rightarrow> errno + unit" where
  "search_allowed ctx ino = (case ctx of
     None \<Rightarrow> Inr ()
   | Some c \<Rightarrow>
       if w_policy c = NEXTUFS_WRITE_USER
       then nextufs__node_check_access
         \<lparr>n_sector_size = 0, n_inode_no = 0, n_inode_off = 0, n_inode = ino\<rparr>
         (w_uid c) (w_gid c) (w_groups c) X_OK True
       else Inr ())"

text \<open>
  The loop over the segments of a path, with the cursor as its last argument. \<open>again\<close> is the
  lookup to restart with when a symbolic link is followed.
\<close>

function lookup_walk ::
  "(cstring \<Rightarrow> ('c nextufs_image, nat \<times> nextufs_inode \<times> int) io) \<Rightarrow> bool \<Rightarrow> nextufs_write_ctx option \<Rightarrow>
   cstring \<Rightarrow> nat \<times> nextufs_inode \<times> int \<Rightarrow> cstring option \<Rightarrow>
   ('c nextufs_image, nat \<times> nextufs_inode \<times> int) io" where
  "lookup_walk again follow ctx prefix current None = ret current"
| "lookup_walk again follow ctx prefix current (Some c) =
     (let segment = fst (strsep_slash c); cursor = snd (strsep_slash c);
          remainder = (case cursor of None \<Rightarrow> [] | Some r \<Rightarrow> r);
          dirino = fst (snd current) in
      if segment = [] then lookup_walk again follow ctx prefix current cursor
      else if i_mode dirino AND NEXTUFS_IFMT \<noteq> NEXTUFS_IFDIR then fail ENOTDIR
      else bind_io (lift_res (search_allowed ctx dirino)) (\<lambda>_.
        bind_io (map_err EIO (nextufs__find_name_in_directory dirino segment)) (\<lambda>next_inode_no.
        if next_inode_no = 0 then fail ENOENT
        else bind_io (map_err EIO (nextufs_inode_read next_inode_no)) (\<lambda>(ino, ino_at).
        if NEXTUFS_MAX_PATH_LEN \<le> length remainder then fail ENAMETOOLONG
        else if i_mode ino AND NEXTUFS_IFMT = NEXTUFS_IFLNK \<and> (remainder = [] \<longrightarrow> follow) then
          bind_io (map_err EIO (nextufs_inode_readlink ino NEXTUFS_MAX_PATH_LEN)) (\<lambda>target.
          case link_path prefix (takeWhile (\<lambda>b. b \<noteq> 0) target) remainder of
            None \<Rightarrow> fail ENAMETOOLONG
          | Some new_path \<Rightarrow> again new_path)
        else
          case append_path_component prefix NEXTUFS_MAX_PATH_LEN segment of
            None \<Rightarrow> fail ENAMETOOLONG
          | Some prefix \<Rightarrow> lookup_walk again follow ctx prefix (next_inode_no, ino, ino_at) cursor))))"
  by pat_completeness auto
termination
  by (relation "measure (\<lambda>(again, follow, ctx, prefix, current, cursor).
        case cursor of None \<Rightarrow> 0 | Some c \<Rightarrow> Suc (length c))")
    (auto dest: strsep_shorter split: option.splits)

declare lookup_walk.simps [simp del]

text \<open>
  The first argument is the number of lookups that are left, \<open>NEXTUFS_MAX_LOOKUP_DEPTH + 1 - depth\<close>.
\<close>

primrec lookup_path_recursive ::
  "nat \<Rightarrow> bool \<Rightarrow> nextufs_write_ctx option \<Rightarrow> cstring \<Rightarrow>
   ('c nextufs_image, nat \<times> nextufs_inode \<times> int) io" where
  "lookup_path_recursive 0 = (\<lambda>follow ctx path. fail ELOOP)"
| "lookup_path_recursive (Suc left) = (\<lambda>follow ctx path.
     bind_io (map_err EIO (nextufs_inode_read NEXTUFS_ROOT_INODE)) (\<lambda>(ino, ino_at).
     let path = dropWhile (\<lambda>b. b = slash) path;
         root = (NEXTUFS_ROOT_INODE, ino, ino_at) in
     if path = [] then ret root
     else bind_io (malloc_io (length path + 1)) (\<lambda>_.
       lookup_walk (lookup_path_recursive left follow ctx) follow ctx [slash] root (Some path))))"

definition nextufs_path_lookup :: "cstring \<Rightarrow> ('c nextufs_image, nat \<times> nextufs_inode \<times> int) io" where
  "nextufs_path_lookup path = lookup_path_recursive (NEXTUFS_MAX_LOOKUP_DEPTH + 1) True None path"

definition nextufs_path_lookup_nofollow :: "cstring \<Rightarrow> ('c nextufs_image, nat \<times> nextufs_inode \<times> int) io" where
  "nextufs_path_lookup_nofollow path = lookup_path_recursive (NEXTUFS_MAX_LOOKUP_DEPTH + 1) False None path"

definition nextufs_node_lookup_as ::
  "nextufs_write_ctx \<Rightarrow> cstring \<Rightarrow> bool \<Rightarrow> ('c nextufs_image, nextufs_node) io" where
  "nextufs_node_lookup_as ctx path follow = bind_io get_io (\<lambda>img.
     bind_io (lookup_path_recursive (NEXTUFS_MAX_LOOKUP_DEPTH + 1) follow (Some ctx) path)
       (\<lambda>(ino_no, ino, ino_at).
     ret \<lparr>n_sector_size = node_sector_size (sb img), n_inode_no = ino_no, n_inode_off = ino_at,
          n_inode = ino\<rparr>))"

section \<open>Reading by path\<close>

definition nextufs_node_lookup :: "cstring \<Rightarrow> bool \<Rightarrow> ('c nextufs_image, nextufs_node) io" where
  "nextufs_node_lookup path follow_final_symlink = bind_io get_io (\<lambda>img.
     bind_io (if follow_final_symlink then nextufs_path_lookup path else nextufs_path_lookup_nofollow path)
       (\<lambda>(ino_no, ino, ino_at).
     ret \<lparr>n_sector_size = node_sector_size (sb img), n_inode_no = ino_no, n_inode_off = ino_at,
          n_inode = ino\<rparr>))"

definition nextufs_node_get_root :: "('c nextufs_image, nextufs_node) io" where
  "nextufs_node_get_root = nextufs_node_lookup [slash] True"

definition nextufs_path_readlink :: "cstring \<Rightarrow> nat \<Rightarrow> ('c nextufs_image, byte list) io" where
  "nextufs_path_readlink path out_size = bind_io (nextufs_node_lookup path False) (\<lambda>node.
     nextufs_inode_readlink (n_inode node) out_size)"

definition nextufs_directory_iterate_path ::
  "cstring \<Rightarrow> bool \<Rightarrow> (nat \<Rightarrow> cstring \<Rightarrow> ('c nextufs_image, 'a option) io) \<Rightarrow> ('c nextufs_image, 'a option) io" where
  "nextufs_directory_iterate_path path follow cb = bind_io (nextufs_node_lookup path follow) (\<lambda>node.
     if \<not> nextufs_node_is_dir node then fail ENOTDIR
     else nextufs_directory_iterate (n_inode node) cb)"

definition nextufs_directory_iterate_nodes_path ::
  "cstring \<Rightarrow> bool \<Rightarrow> (nextufs_node \<Rightarrow> cstring \<Rightarrow> ('c nextufs_image, 'a option) io) \<Rightarrow>
   ('c nextufs_image, 'a option) io" where
  "nextufs_directory_iterate_nodes_path path follow cb = bind_io (nextufs_node_lookup path follow) (\<lambda>node.
     if \<not> nextufs_node_is_dir node then fail ENOTDIR
     else nextufs_directory_iterate_nodes (n_inode node) cb)"

definition nextufs_path_read :: "cstring \<Rightarrow> nat \<Rightarrow> nat \<Rightarrow> ('c nextufs_image, byte list) io" where
  "nextufs_path_read path start buf_size = bind_io (nextufs_node_lookup path True) (\<lambda>node.
     if \<not> nextufs_node_is_reg node then fail EINVAL
     else nextufs_inode_read_data (n_inode node) start buf_size)"

section \<open>Lookups can be rolled back\<close>

context backend
begin

lemma lookup_walk_tx:
  assumes again: "\<And>p. keeps (tx_inv ops disk binv D) (again p)"
  shows "keeps (tx_inv ops disk binv D) (lookup_walk again follow ctx prefix current cursor)"
proof (induction "case cursor of None \<Rightarrow> 0 | Some c \<Rightarrow> Suc (length c)" arbitrary: cursor prefix current
    rule: less_induct)
  case less
  show ?case
  proof (cases cursor)
    case None
    then show ?thesis by (simp add: lookup_walk.simps keeps_ret)
  next
    case (Some c)
    have IH: "keeps (tx_inv ops disk binv D)
        (lookup_walk again follow ctx pre cur (snd (strsep_slash c)))" for pre cur
      using Some strsep_shorter [of c] by (intro less) (auto split: option.splits)
    show ?thesis
      unfolding Some by (simp only: lookup_walk.simps Let_def) (intro dir_tx_rules again IH)
  qed
qed

lemma lookup_tx: "keeps (tx_inv ops disk binv D) (lookup_path_recursive n follow ctx path)"
proof (induction n arbitrary: path)
  case 0
  show ?case by (simp add: keeps_fail)
next
  case (Suc n)
  show ?case
    by (simp only: lookup_path_recursive.simps Let_def) (intro dir_tx_rules lookup_walk_tx Suc)
qed

lemma lookup_as_tx: "keeps (tx_inv ops disk binv D) (nextufs_node_lookup_as ctx path follow)"
  unfolding nextufs_node_lookup_as_def by (intro dir_tx_rules lookup_tx)

lemmas path_tx_rules = dir_tx_rules lookup_as_tx

end

section \<open>Splitting a path\<close>

lemma rev_takeWhile_split:
  assumes "s \<in> set p"
  shows "p = take (length p - length (takeWhile (\<lambda>b. b \<noteq> s) (rev p)) - 1) p @
    s # rev (takeWhile (\<lambda>b. b \<noteq> s) (rev p))"
proof -
  from assms obtain xs ys where p: "p = xs @ s # ys" and s: "s \<notin> set ys"
    by (meson split_list_last)
  have "takeWhile (\<lambda>b. b \<noteq> s) (rev p) = rev ys"
    using s by (simp add: p takeWhile_append takeWhile_eq_all_conv)
  then show ?thesis by (simp add: p)
qed

text \<open>
  C31. Splitting a path succeeds exactly on the absolute paths that end in a name; the name is then
  the part after the last slash, not empty and without slashes, the parent is the part before it
  (the root for a name in the root), and both fit their buffers with the terminating zero.
\<close>

theorem path_split_correct:
  "nextufs__path_split path 4096 256 = Inr (parent, name) \<longleftrightarrow>
     name \<noteq> [] \<and> slash \<notin> set name \<and> length name < 256 \<and>
     (parent = [slash] \<and> path = slash # name \<or>
      parent \<noteq> [] \<and> hd parent = slash \<and> length parent < 4096 \<and> path = parent @ slash # name)"
  (is "?L \<longleftrightarrow> ?R")
proof
  define nm where "nm = rev (takeWhile (\<lambda>b. b \<noteq> slash) (rev path))"
  define pl where "pl = length path - length nm - 1"
  assume ?L
  then have p: "path \<noteq> []" "hd path = slash" and nm: "name = nm" "nm \<noteq> []" "length nm < 256"
    and pl: "(pl = 0 \<and> parent = [slash]) \<or> (pl \<noteq> 0 \<and> pl < 4096 \<and> parent = take pl path)"
    by (auto simp: nextufs__path_split_def nm_def pl_def Let_def split: if_splits)
  have s: "slash \<in> set path" using p by (cases path) auto
  have split: "path = take pl path @ slash # nm"
    using rev_takeWhile_split [OF s] by (simp add: nm_def pl_def)
  have "slash \<notin> set nm" unfolding nm_def by (auto dest: set_takeWhileD)
  moreover have "length (take pl path) = pl" by (simp add: pl_def)
  moreover have "hd (take pl path) = slash" if "pl \<noteq> 0" using p that by (cases path) (auto simp: take_Cons')
  ultimately show ?R using nm pl split by (cases "pl = 0") auto
next
  assume R: ?R
  then obtain pre where path: "path = pre @ slash # name" "slash \<notin> set name" "name \<noteq> []" "length name < 256"
    and pre: "pre = [] \<and> parent = [slash] \<or> pre \<noteq> [] \<and> parent = pre \<and> hd pre = slash \<and> length pre < 4096"
    by (metis append_Nil)
  have "takeWhile (\<lambda>b. b \<noteq> slash) (rev path) = rev name"
    using path by (simp add: takeWhile_append takeWhile_eq_all_conv)
  then show ?L
    using path pre by (auto simp: nextufs__path_split_def)
qed

end
