(* ===== verification/Mutate.thy ===== *)
theory Mutate
  imports Path
begin

text \<open>
  The mutations by path (\<^verbatim>\<open>src/mutate/mutate.c\<close>): the policy checks, the frame that every mutation
  shares (a write session or a one-shot open, the transaction, the state byte), and the operations.

  The state of a mutation is the write session. Without a session the code opens the image itself;
  the record then holds that image. \<open>image_path\<close> is what the path of the image gives: an error of
  \<open>stat\<close> or of the open, or whether it names the file of the session. The context is never \<open>NULL\<close>.
\<close>

section \<open>Policy\<close>

definition INT16_MAX :: nat where "INT16_MAX = 32767"
definition NO_ID :: nat where "NO_ID = 4294967295"

definition nextufs__ctx_is_root :: "nextufs_write_ctx \<Rightarrow> bool" where
  "nextufs__ctx_is_root ctx \<longleftrightarrow> w_uid ctx = 0"

definition nextufs__id_fits_nextstep :: "nat \<Rightarrow> bool" where
  "nextufs__id_fits_nextstep ident \<longleftrightarrow> ident \<le> INT16_MAX"

definition nextufs__require_ctx_ids_fit :: "nextufs_write_ctx \<Rightarrow> errno + unit" where
  "nextufs__require_ctx_ids_fit ctx =
     (if w_policy ctx \<noteq> NEXTUFS_WRITE_USER then Inr ()
      else if \<not> nextufs__id_fits_nextstep (w_uid ctx) \<or> \<not> nextufs__id_fits_nextstep (w_gid ctx)
      then Inl EOVERFLOW else Inr ())"

definition nextufs__require_owner_ids_fit :: "nat \<Rightarrow> nat \<Rightarrow> errno + unit" where
  "nextufs__require_owner_ids_fit uid gid =
     (if uid \<noteq> NO_ID \<and> \<not> nextufs__id_fits_nextstep uid then Inl EOVERFLOW
      else if gid \<noteq> NO_ID \<and> \<not> nextufs__id_fits_nextstep gid then Inl EOVERFLOW else Inr ())"

definition nextufs__ctx_in_group :: "nextufs_write_ctx \<Rightarrow> nat \<Rightarrow> bool" where
  "nextufs__ctx_in_group ctx gid \<longleftrightarrow> w_gid ctx = gid \<or> gid \<in> set (w_groups ctx)"

definition nextufs__require_user_access ::
  "nextufs_write_ctx \<Rightarrow> nextufs_node \<Rightarrow> nat \<Rightarrow> errno + unit" where
  "nextufs__require_user_access ctx node want =
     (if w_policy ctx \<noteq> NEXTUFS_WRITE_USER then Inr ()
      else nextufs__node_check_access node (w_uid ctx) (w_gid ctx) (w_groups ctx) want True)"

definition nextufs__require_parent_mutation :: "nextufs_write_ctx \<Rightarrow> nextufs_node \<Rightarrow> errno + unit" where
  "nextufs__require_parent_mutation ctx parent = nextufs__require_user_access ctx parent (W_OK OR X_OK)"

definition nextufs__check_sticky_parent ::
  "nextufs_write_ctx \<Rightarrow> nextufs_node \<Rightarrow> nextufs_node \<Rightarrow> errno + unit" where
  "nextufs__check_sticky_parent ctx parent target =
     (if w_policy ctx \<noteq> NEXTUFS_WRITE_USER \<or> i_mode (n_inode parent) AND 0x200 = 0 \<or>
         nextufs__ctx_is_root ctx \<or> w_uid ctx = i_uid (n_inode parent) \<or>
         w_uid ctx = i_uid (n_inode target)
      then Inr () else Inl EPERM)"

definition nextufs__set_new_inode_owner ::
  "nextufs_write_ctx \<Rightarrow> nextufs_node \<Rightarrow> nextufs_inode \<Rightarrow> nextufs_inode" where
  "nextufs__set_new_inode_owner ctx parent ino = ino\<lparr>
     i_uid := (if w_policy ctx = NEXTUFS_WRITE_USER then u16 (w_uid ctx) else 0),
     i_gid := i_gid (n_inode parent)\<rparr>"

definition nextufs__require_chmod_allowed :: "nextufs_write_ctx \<Rightarrow> nextufs_node \<Rightarrow> errno + unit" where
  "nextufs__require_chmod_allowed ctx node =
     (if w_policy ctx \<noteq> NEXTUFS_WRITE_USER then Inr ()
      else if nextufs__ctx_is_root ctx \<or> w_uid ctx = i_uid (n_inode node) then Inr () else Inl EPERM)"

definition nextufs__require_chown_allowed ::
  "nextufs_write_ctx \<Rightarrow> nextufs_node \<Rightarrow> nat \<Rightarrow> nat \<Rightarrow> errno + unit" where
  "nextufs__require_chown_allowed ctx node uid gid =
     (if w_policy ctx \<noteq> NEXTUFS_WRITE_USER then Inr ()
      else if nextufs__ctx_is_root ctx then Inr ()
      else if w_uid ctx \<noteq> i_uid (n_inode node) then Inl EPERM
      else if uid \<noteq> i_uid (n_inode node) then Inl EPERM
      else if nextufs__ctx_in_group ctx gid then Inr () else Inl EPERM)"

text \<open>The bits a user without privileges may not set.\<close>

definition clear_special :: "nextufs_write_ctx \<Rightarrow> nat \<Rightarrow> nat \<Rightarrow> nat" where
  "clear_special ctx gid mode =
     (let mode = (if mode AND NEXTUFS_IFMT \<noteq> NEXTUFS_IFDIR then mode AND u16_not 0x200 else mode)
      in if mode AND 0x400 \<noteq> 0 \<and> \<not> nextufs__ctx_in_group ctx gid then mode AND u16_not 0x400 else mode)"

definition nextufs__sanitize_new_inode_mode :: "nextufs_write_ctx \<Rightarrow> nextufs_inode \<Rightarrow> nextufs_inode" where
  "nextufs__sanitize_new_inode_mode ctx ino =
     (if w_policy ctx \<noteq> NEXTUFS_WRITE_USER \<or> nextufs__ctx_is_root ctx then ino
      else ino\<lparr>i_mode := clear_special ctx (i_gid ino) (i_mode ino)\<rparr>)"

definition nextufs__sanitize_chmod_mode :: "nextufs_write_ctx \<Rightarrow> nextufs_node \<Rightarrow> nat \<Rightarrow> nat" where
  "nextufs__sanitize_chmod_mode ctx node mode =
     (let new_mode = (i_mode (n_inode node) AND NEXTUFS_IFMT) OR (mode AND 0xfff) in
      if w_policy ctx \<noteq> NEXTUFS_WRITE_USER \<or> nextufs__ctx_is_root ctx then new_mode
      else clear_special ctx (i_gid (n_inode node)) new_mode)"

definition nextufs__name_is_dot_or_dotdot :: "cstring \<Rightarrow> bool" where
  "nextufs__name_is_dot_or_dotdot name \<longleftrightarrow> name = [dot] \<or> name = [dot, dot]"

definition nextufs__disallow_dot_names :: "cstring \<Rightarrow> errno + unit" where
  "nextufs__disallow_dot_names name = (if nextufs__name_is_dot_or_dotdot name then Inl EINVAL else Inr ())"

definition nextufs__disallow_target_dot_names :: "cstring \<Rightarrow> errno + unit" where
  "nextufs__disallow_target_dot_names name =
     (if nextufs__name_is_dot_or_dotdot name then Inl ENOTEMPTY else Inr ())"

section \<open>The frame of a mutation\<close>

record 'c nextufs_write_session =
  s_image :: "'c nextufs_image"
  s_failed :: bool

text \<open>
  The image of a running mutation is a copy of the session's, but the backend's context and the
  environment are shared.
\<close>

definition share_ctx :: "'c nextufs_image \<Rightarrow> 'c nextufs_write_session \<Rightarrow> 'c nextufs_write_session" where
  "share_ctx img s = s\<lparr>s_image := (s_image s)\<lparr>backend_ctx := backend_ctx img, mallocs := mallocs img,
     clock := clock img, tmpfile_errno := tmpfile_errno img, tmpfile_script := tmpfile_script img\<rparr>\<rparr>"

text \<open>The image that \<open>nextufs_image_open_rw\<close> gave is the one in the state.\<close>

definition nextufs_write_session_open :: "('c nextufs_write_session, unit) io" where
  "nextufs_write_session_open s = (case nextufs__write_begin (s_image s) of (r, img) \<Rightarrow>
     (r, \<lparr>s_image = img, s_failed = False\<rparr>))"

definition nextufs_write_session_close :: "('c nextufs_write_session, unit) io" where
  "nextufs_write_session_close s = (case nextufs__write_finish (\<not> s_failed s) (s_image s) of (r, img) \<Rightarrow>
     (r, \<lparr>s_image = img, s_failed = True\<rparr>))"

definition nextufs__open_image_rw ::
  "nextufs_write_ctx \<Rightarrow> errno + bool \<Rightarrow> ('c nextufs_write_session, 'c nextufs_image) io" where
  "nextufs__open_image_rw ctx image_path s =
     (let unpriv = (w_policy ctx = NEXTUFS_WRITE_USER \<and> w_uid ctx \<noteq> 0) in
      if w_session ctx \<and> s_failed s then (Inl EIO, s)
      else case image_path of
        Inl e \<Rightarrow> (Inl e, s)
      | Inr same \<Rightarrow>
          if w_session ctx then
            if \<not> same then (Inl ESTALE, s)
            else (case nextufs__transaction_begin ((s_image s)\<lparr>unprivileged := unpriv\<rparr>) of
                (Inl e, img) \<Rightarrow> (Inl e, share_ctx img s)
              | (Inr _, img) \<Rightarrow> (Inr img, share_ctx img s))
          else (case nextufs__write_begin (s_image s) of
              (Inl e, img) \<Rightarrow> (Inl e, s\<lparr>s_image := img\<rparr>)
            | (Inr _, img) \<Rightarrow>
                (case nextufs__transaction_begin (img\<lparr>unprivileged := unpriv\<rparr>) of
                   (Inl e, img) \<Rightarrow>
                     (case nextufs__write_finish True img of (_, img) \<Rightarrow> (Inl e, s\<lparr>s_image := img\<rparr>))
                 | (Inr _, img) \<Rightarrow> (Inr img, s\<lparr>s_image := img\<rparr>))))"

definition finish_in_session ::
  "errno + unit \<Rightarrow> 'c nextufs_image \<Rightarrow> ('c nextufs_write_session, unit) io" where
  "finish_in_session rc img s =
     (case nextufs__transaction_end rc img of (rc, img) \<Rightarrow>
       (case nextufs__image_refresh (s_image (share_ctx img s)) of (refresh, simg) \<Rightarrow>
         (if rc = Inr () then refresh else rc,
          s\<lparr>s_image := simg, s_failed := s_failed s \<or> rc = Inl EUCLEAN \<or> refresh \<noteq> Inr ()\<rparr>)))"

definition finish_one_shot ::
  "errno + unit \<Rightarrow> 'c nextufs_image \<Rightarrow> ('c nextufs_write_session, unit) io" where
  "finish_one_shot rc img s =
     (case (if rc = Inr () then
              (case nextufs__write_finish True (img\<lparr>transaction := None\<rparr>) of (rc, img') \<Rightarrow>
                (rc, img'\<lparr>transaction := transaction img\<rparr>))
            else (rc, img)) of (rc, img) \<Rightarrow>
       (case nextufs__transaction_end rc img of (rc, img) \<Rightarrow>
         (case nextufs__write_finish (rc \<noteq> Inl EUCLEAN) img of (finish, img) \<Rightarrow>
           (if finish = Inr () then rc else finish, s\<lparr>s_image := img\<rparr>))))"

definition finish_mutation ::
  "nextufs_write_ctx \<Rightarrow> errno + unit \<Rightarrow> 'c nextufs_image \<Rightarrow> ('c nextufs_write_session, unit) io" where
  "finish_mutation ctx rc img =
     (if w_session ctx then finish_in_session rc img else finish_one_shot rc img)"

text \<open>A whole mutation: open, the body up to the label \<open>out\<close>, and the end.\<close>

definition mutation ::
  "nextufs_write_ctx \<Rightarrow> errno + bool \<Rightarrow> ('c nextufs_image, unit) io \<Rightarrow> ('c nextufs_write_session, unit) io" where
  "mutation ctx image_path body = bind_io (nextufs__open_image_rw ctx image_path) (\<lambda>img s.
     case body img of (rc, img) \<Rightarrow> finish_mutation ctx rc img s)"

section \<open>Inodes that come and go\<close>

definition blank_inode :: "nat \<Rightarrow> nextufs_inode" where
  "blank_inode gen = \<lparr>i_mode = 0, i_nlink = 0, i_uid = 0, i_gid = 0, i_size = 0, i_atime = 0,
     i_mtime = 0, i_ctime = 0, i_db = replicate 12 0, i_ib = replicate 3 0, i_flags = 0,
     i_blocks = 0, i_gen = gen\<rparr>"

definition nextufs__remove_linked_inode :: "nextufs_node \<Rightarrow> ('c nextufs_image, unit) io" where
  "nextufs__remove_linked_inode target = (let ino = n_inode target in
     if i_nlink ino = 0 then fail EINVAL
     else
       let ino = ino\<lparr>i_nlink := i_nlink ino - 1\<rparr>; ifmt = file_type target in
       if i_nlink ino = 0 then
         bind_io (if ifmt \<noteq> NEXTUFS_IFIFO \<and> ifmt \<noteq> NEXTUFS_IFCHR \<and> ifmt \<noteq> NEXTUFS_IFBLK \<and> ifmt \<noteq> NEXTUFS_IFSOCK
                  then nextufs__free_file_storage ino else ret (Inr (), ino)) (\<lambda>(r, ino).
         bind_io (lift_res r) (\<lambda>_.
         bind_io (nextufs__write_inode_raw (n_inode_no target) (blank_inode (u32 (i_gen ino + 1)))) (\<lambda>_.
         nextufs__free_inode_in_group (n_inode_no target) (i_mode ino))))
       else bind_io time_io (\<lambda>now.
         nextufs__write_inode_raw (n_inode_no target) (ino\<lparr>i_ctime := now\<rparr>)))"

text \<open>A link count is a 16-bit integer; the decrement of 0 wraps. The result is the parent.\<close>

definition nextufs__remove_dir_inode ::
  "nextufs_node \<Rightarrow> nextufs_node \<Rightarrow> ('c nextufs_image, nextufs_node) io" where
  "nextufs__remove_dir_inode parent target =
     bind_io (nextufs__free_file_storage (n_inode target)) (\<lambda>(r, ino).
     bind_io (lift_res r) (\<lambda>_.
     bind_io (nextufs__write_inode_raw (n_inode_no target) (blank_inode (u32 (i_gen ino + 1)))) (\<lambda>_.
     bind_io (nextufs__free_inode_in_group (n_inode_no target) (i_mode ino)) (\<lambda>_.
     bind_io time_io (\<lambda>now.
     let p = n_inode parent;
         p = p\<lparr>i_nlink := u16 (i_nlink p + 65535), i_ctime := now, i_mtime := now\<rparr> in
     bind_io (nextufs__write_inode_raw (n_inode_no parent) p) (\<lambda>_.
     ret (parent\<lparr>n_inode := p\<rparr>)))))))"

text \<open>The first argument is the number of steps left of the 1024; every doubt counts as an ancestor.\<close>

primrec has_ancestor :: "nat \<Rightarrow> nat \<Rightarrow> nextufs_node \<Rightarrow> ('c nextufs_image, bool) io" where
  "has_ancestor 0 = (\<lambda>ancestor_inode cur. ret True)"
| "has_ancestor (Suc n) = (\<lambda>ancestor_inode cur.
     if n_inode_no cur = ancestor_inode then ret True
     else if n_inode_no cur = NEXTUFS_ROOT_INODE then ret False
     else bind_io (try_io (nextufs__read_directory_parent_inode cur)) (\<lambda>r.
       case r of
         Inl e \<Rightarrow> ret True
       | Inr parent_inode \<Rightarrow>
           if parent_inode = n_inode_no cur then ret True
           else bind_io (try_io (nextufs_node_get_by_inode parent_inode)) (\<lambda>r.
             case r of Inl e \<Rightarrow> ret True | Inr cur \<Rightarrow> has_ancestor n ancestor_inode cur)))"

definition nextufs__directory_has_ancestor :: "nextufs_node \<Rightarrow> nat \<Rightarrow> ('c nextufs_image, bool) io" where
  "nextufs__directory_has_ancestor dirnode ancestor_inode = has_ancestor 1024 ancestor_inode dirnode"

text \<open>The caller does not use the inode afterwards.\<close>

definition nextufs__discard_new_inode :: "nat \<Rightarrow> nextufs_inode \<Rightarrow> ('c nextufs_image, unit) io" where
  "nextufs__discard_new_inode inode_no ino =
     bind_io (nextufs__free_file_storage ino) (\<lambda>(r, ino).
     bind_io (lift_res r) (\<lambda>_.
     bind_io (nextufs__write_inode_raw inode_no (blank_inode (u32 (i_gen ino + 1)))) (\<lambda>_.
     nextufs__free_inode_in_group inode_no (i_mode ino))))"

text \<open>\<open>if (rc < 0) { (void)nextufs__discard_new_inode(...); goto out; }\<close>\<close>

definition or_discard ::
  "nat \<Rightarrow> nextufs_inode \<Rightarrow> ('c nextufs_image, 'a) io \<Rightarrow> ('c nextufs_image, 'a) io" where
  "or_discard inode_no ino m = bind_io (try_io m) (\<lambda>r.
     case r of
       Inr x \<Rightarrow> ret x
     | Inl e \<Rightarrow> bind_io (try_io (nextufs__discard_new_inode inode_no ino)) (\<lambda>_. fail e))"

text \<open>The fields that every new inode gets.\<close>

definition fresh_inode ::
  "nextufs_write_ctx \<Rightarrow> nextufs_node \<Rightarrow> nat \<Rightarrow> nat \<Rightarrow> nat \<Rightarrow> nat \<Rightarrow> nat \<Rightarrow> nextufs_inode" where
  "fresh_inode ctx parent gen mode nlink sz now =
     (let ino = (blank_inode gen)\<lparr>i_mode := mode, i_nlink := nlink\<rparr>;
          ino = nextufs__sanitize_new_inode_mode ctx (nextufs__set_new_inode_owner ctx parent ino)
      in ino\<lparr>i_size := sz, i_atime := now, i_mtime := now, i_ctime := now\<rparr>)"

text \<open>The lookup of a path that must not exist.\<close>

definition require_absent :: "nextufs_write_ctx \<Rightarrow> cstring \<Rightarrow> ('c nextufs_image, unit) io" where
  "require_absent ctx path = bind_io (try_io (nextufs_node_lookup_as ctx path False)) (\<lambda>r.
     case r of
       Inr _ \<Rightarrow> fail EEXIST
     | Inl e \<Rightarrow> if e \<noteq> ENOENT then fail e else ret ())"

text \<open>The parent of a new entry: it exists, is a directory and may be changed.\<close>

definition parent_directory :: "nextufs_write_ctx \<Rightarrow> cstring \<Rightarrow> ('c nextufs_image, nextufs_node) io" where
  "parent_directory ctx parent_path =
     bind_io (nextufs_node_lookup_as ctx parent_path True) (\<lambda>parent.
     bind_io (guard_io (nextufs_node_is_dir parent) ENOTDIR) (\<lambda>_.
     bind_io (lift_res (nextufs__require_parent_mutation ctx parent)) (\<lambda>_.
     ret parent)))"

text \<open>Without the test for a directory, as in \<open>rmdir\<close>, \<open>link\<close> and \<open>symlink\<close>.\<close>

definition parent_any :: "nextufs_write_ctx \<Rightarrow> cstring \<Rightarrow> ('c nextufs_image, nextufs_node) io" where
  "parent_any ctx parent_path =
     bind_io (nextufs_node_lookup_as ctx parent_path True) (\<lambda>parent.
     bind_io (lift_res (nextufs__require_parent_mutation ctx parent)) (\<lambda>_.
     ret parent))"

section \<open>Creating\<close>

text \<open>\<open>checks\<close> is what an operation tests before it opens the image.\<close>

definition checked :: "errno + 'a \<Rightarrow> ('a \<Rightarrow> ('s, unit) io) \<Rightarrow> ('s, unit) io" where
  "checked checks f = bind_io (lift_res checks) f"

definition ctx_and_path :: "nextufs_write_ctx \<Rightarrow> cstring \<Rightarrow> errno + cstring \<times> cstring" where
  "ctx_and_path ctx path = (case nextufs__require_ctx_ids_fit ctx of
     Inl e \<Rightarrow> Inl e
   | Inr _ \<Rightarrow> nextufs__path_split path NEXTUFS_MAX_PATH_LEN 256)"

definition ctx_and_name :: "nextufs_write_ctx \<Rightarrow> cstring \<Rightarrow> errno + cstring \<times> cstring" where
  "ctx_and_name ctx path = (case ctx_and_path ctx path of
     Inl e \<Rightarrow> Inl e
   | Inr (parent_path, name) \<Rightarrow>
       (case nextufs__disallow_dot_names name of Inl e \<Rightarrow> Inl e | Inr _ \<Rightarrow> Inr (parent_path, name)))"

definition create_file_body ::
  "nextufs_write_ctx \<Rightarrow> cstring \<Rightarrow> cstring \<Rightarrow> cstring \<Rightarrow> byte list \<Rightarrow> ('c nextufs_image, unit) io" where
  "create_file_body ctx path parent_path name data =
     bind_io (parent_directory ctx parent_path) (\<lambda>parent.
     bind_io (require_absent ctx path) (\<lambda>_.
     bind_io get_io (\<lambda>img.
     let parent_cg = n_inode_no parent div inodes_per_group (sb img) in
     bind_io (nextufs__allocate_inode_in_group parent_cg (NEXTUFS_IFREG OR 0x1a4)) (\<lambda>new_inode_no.
     bind_io (nextufs_inode_read new_inode_no) (\<lambda>(old, _).
     bind_io time_io (\<lambda>now.
     bind_io (nextufs__allocate_data_for_inode parent_cg data
       (fresh_inode ctx parent (i_gen old) (NEXTUFS_IFREG OR 0x1a4) 1 (length data) now)) (\<lambda>(r, ino).
     bind_io (or_discard new_inode_no ino (lift_res r)) (\<lambda>_.
     bind_io (or_discard new_inode_no ino (nextufs__write_inode_raw new_inode_no ino)) (\<lambda>_.
     bind_io (or_discard new_inode_no ino (nextufs__insert_dirent parent name new_inode_no)) (\<lambda>_.
     nextufs__image_fsync))))))))))"

definition nextufs_path_create_file ::
  "nextufs_write_ctx \<Rightarrow> errno + bool \<Rightarrow> cstring \<Rightarrow> byte list \<Rightarrow> ('c nextufs_write_session, unit) io" where
  "nextufs_path_create_file ctx image_path path data =
     checked (ctx_and_name ctx path) (\<lambda>(parent_path, name).
     mutation ctx image_path (create_file_body ctx path parent_path name data))"

definition mkdir_body ::
  "nextufs_write_ctx \<Rightarrow> cstring \<Rightarrow> cstring \<Rightarrow> cstring \<Rightarrow> nat \<Rightarrow> ('c nextufs_image, unit) io" where
  "mkdir_body ctx path parent_path name mode =
     bind_io (parent_directory ctx parent_path) (\<lambda>parent.
     bind_io (require_absent ctx path) (\<lambda>_.
     bind_io get_io (\<lambda>img.
     let parent_cg = n_inode_no parent div inodes_per_group (sb img);
         new_mode = NEXTUFS_IFDIR OR (mode AND 0x1ff) in
     bind_io (nextufs__allocate_inode_in_group parent_cg new_mode) (\<lambda>new_inode_no.
     bind_io (nextufs__allocate_frags_anycg parent_cg 1) (\<lambda>alloc_frag.
     bind_io (try_io (nextufs__write_new_directory_block alloc_frag new_inode_no (n_inode_no parent))) (\<lambda>r.
     bind_io (case r of
         Inr _ \<Rightarrow> ret ()
       | Inl e \<Rightarrow>
           bind_io (try_io (nextufs__free_fragment_run alloc_frag 1)) (\<lambda>_.
           bind_io (try_io (nextufs__free_inode_in_group new_inode_no new_mode)) (\<lambda>_. fail e))) (\<lambda>_.
     bind_io (nextufs_inode_read new_inode_no) (\<lambda>(old, _).
     bind_io time_io (\<lambda>now.
     let ino = fresh_inode ctx parent (i_gen old) new_mode 2 DIRBLKSIZ now;
         ino = ino\<lparr>i_db := (i_db ino)[0 := alloc_frag], i_blocks := sectors_per_frag (sb img)\<rparr> in
     bind_io (or_discard new_inode_no ino (nextufs__write_inode_raw new_inode_no ino)) (\<lambda>_.
     bind_io (or_discard new_inode_no ino (nextufs__insert_dirent parent name new_inode_no)) (\<lambda>parent.
     let p = n_inode parent in
     if INT16_MAX \<le> i_nlink p then fail EMLINK
     else bind_io (nextufs__write_inode_raw (n_inode_no parent)
         (p\<lparr>i_nlink := i_nlink p + 1, i_ctime := now, i_mtime := now\<rparr>)) (\<lambda>_.
       nextufs__image_fsync))))))))))))"

definition nextufs_path_mkdir ::
  "nextufs_write_ctx \<Rightarrow> errno + bool \<Rightarrow> cstring \<Rightarrow> nat \<Rightarrow> ('c nextufs_write_session, unit) io" where
  "nextufs_path_mkdir ctx image_path path mode =
     checked (ctx_and_name ctx path) (\<lambda>(parent_path, name).
     mutation ctx image_path (mkdir_body ctx path parent_path name mode))"

definition link_body ::
  "nextufs_write_ctx \<Rightarrow> cstring \<Rightarrow> cstring \<Rightarrow> cstring \<Rightarrow> cstring \<Rightarrow> ('c nextufs_image, unit) io" where
  "link_body ctx source_path target_path parent_path name =
     bind_io (parent_any ctx parent_path) (\<lambda>parent.
     bind_io (nextufs_node_lookup_as ctx source_path False) (\<lambda>source.
     bind_io (guard_io (\<not> nextufs_node_is_dir source) EPERM) (\<lambda>_.
     bind_io (require_absent ctx target_path) (\<lambda>_.
     let ino = n_inode source in
     if INT16_MAX \<le> i_nlink ino then fail EMLINK
     else bind_io time_io (\<lambda>now.
       bind_io (nextufs__write_inode_raw (n_inode_no source)
         (ino\<lparr>i_nlink := i_nlink ino + 1, i_ctime := now\<rparr>)) (\<lambda>_.
       bind_io (nextufs__insert_dirent parent name (n_inode_no source)) (\<lambda>_.
       nextufs__image_fsync)))))))"

definition nextufs_path_link ::
  "nextufs_write_ctx \<Rightarrow> errno + bool \<Rightarrow> cstring \<Rightarrow> cstring \<Rightarrow> ('c nextufs_write_session, unit) io" where
  "nextufs_path_link ctx image_path source_path target_path =
     checked (ctx_and_name ctx target_path) (\<lambda>(parent_path, name).
     mutation ctx image_path (link_body ctx source_path target_path parent_path name))"

definition symlink_body ::
  "nextufs_write_ctx \<Rightarrow> cstring \<Rightarrow> cstring \<Rightarrow> cstring \<Rightarrow> cstring \<Rightarrow> ('c nextufs_image, unit) io" where
  "symlink_body ctx target new_link parent_path name =
     bind_io (parent_any ctx parent_path) (\<lambda>parent.
     bind_io (require_absent ctx new_link) (\<lambda>_.
     bind_io get_io (\<lambda>img.
     let parent_cg = n_inode_no parent div inodes_per_group (sb img) in
     bind_io (nextufs__allocate_inode_in_group parent_cg (NEXTUFS_IFLNK OR 0x1ff)) (\<lambda>new_inode_no.
     bind_io (nextufs_inode_read new_inode_no) (\<lambda>(old, _).
     bind_io time_io (\<lambda>now.
     let ino = fresh_inode ctx parent (i_gen old) (NEXTUFS_IFLNK OR 0x1ff) 1 (length target) now in
     bind_io (if length target \<le> 60
              then ret (Inr (), nextufs__store_inline_symlink (ino\<lparr>i_flags := 1\<rparr>) target)
              else nextufs__allocate_data_for_inode parent_cg target ino) (\<lambda>(r, ino).
     bind_io (or_discard new_inode_no ino (lift_res r)) (\<lambda>_.
     bind_io (or_discard new_inode_no ino (nextufs__write_inode_raw new_inode_no ino)) (\<lambda>_.
     bind_io (or_discard new_inode_no ino (nextufs__insert_dirent parent name new_inode_no)) (\<lambda>_.
     nextufs__image_fsync))))))))))"

definition nextufs_path_symlink ::
  "nextufs_write_ctx \<Rightarrow> errno + bool \<Rightarrow> cstring \<Rightarrow> cstring \<Rightarrow> ('c nextufs_write_session, unit) io" where
  "nextufs_path_symlink ctx image_path target new_link =
     checked (ctx_and_name ctx new_link) (\<lambda>(parent_path, name).
     mutation ctx image_path (symlink_body ctx target new_link parent_path name))"

definition mknod_body ::
  "nextufs_write_ctx \<Rightarrow> cstring \<Rightarrow> cstring \<Rightarrow> cstring \<Rightarrow> nat \<Rightarrow> nat \<Rightarrow> ('c nextufs_image, unit) io" where
  "mknod_body ctx path parent_path name mode rdev =
     bind_io (parent_directory ctx parent_path) (\<lambda>parent.
     bind_io (require_absent ctx path) (\<lambda>_.
     bind_io get_io (\<lambda>img.
     let parent_cg = n_inode_no parent div inodes_per_group (sb img);
         ifmt = mode AND NEXTUFS_IFMT in
     bind_io (nextufs__allocate_inode_in_group parent_cg mode) (\<lambda>new_inode_no.
     bind_io (nextufs_inode_read new_inode_no) (\<lambda>(old, _).
     bind_io time_io (\<lambda>now.
     let ino = fresh_inode ctx parent (i_gen old) mode 1 0 now;
         ino = (if ifmt = NEXTUFS_IFCHR \<or> ifmt = NEXTUFS_IFBLK
                then ino\<lparr>i_db := (i_db ino)[0 := rdev]\<rparr> else ino) in
     bind_io (or_discard new_inode_no ino (nextufs__write_inode_raw new_inode_no ino)) (\<lambda>_.
     bind_io (or_discard new_inode_no ino (nextufs__insert_dirent parent name new_inode_no)) (\<lambda>_.
     nextufs__image_fsync))))))))"

definition mknod_checks :: "nextufs_write_ctx \<Rightarrow> cstring \<Rightarrow> nat \<Rightarrow> errno + cstring \<times> cstring" where
  "mknod_checks ctx path mode = (let ifmt = mode AND NEXTUFS_IFMT in
     if w_policy ctx = NEXTUFS_WRITE_USER \<and> w_uid ctx \<noteq> 0 \<and> ifmt \<noteq> NEXTUFS_IFREG \<and> ifmt \<noteq> NEXTUFS_IFIFO
     then Inl EPERM
     else if ifmt \<notin> {NEXTUFS_IFREG, NEXTUFS_IFIFO, NEXTUFS_IFCHR, NEXTUFS_IFBLK, NEXTUFS_IFSOCK}
     then Inl EINVAL
     else ctx_and_name ctx path)"

definition nextufs_path_mknod ::
  "nextufs_write_ctx \<Rightarrow> errno + bool \<Rightarrow> cstring \<Rightarrow> nat \<Rightarrow> nat \<Rightarrow> ('c nextufs_write_session, unit) io" where
  "nextufs_path_mknod ctx image_path path mode rdev =
     checked (mknod_checks ctx path mode) (\<lambda>(parent_path, name).
     mutation ctx image_path (mknod_body ctx path parent_path name mode rdev))"

section \<open>Removing\<close>

text \<open>The removal of a name that must have named the node.\<close>

definition remove_name :: "nextufs_node \<Rightarrow> cstring \<Rightarrow> nextufs_node \<Rightarrow> ('c nextufs_image, nextufs_node) io" where
  "remove_name parent name target =
     bind_io (nextufs__remove_dirent parent name) (\<lambda>(parent, removed_inode).
     if removed_inode \<noteq> n_inode_no target then fail EINVAL else ret parent)"

definition unlink_body ::
  "nextufs_write_ctx \<Rightarrow> cstring \<Rightarrow> cstring \<Rightarrow> cstring \<Rightarrow> ('c nextufs_image, unit) io" where
  "unlink_body ctx path parent_path name =
     bind_io (parent_directory ctx parent_path) (\<lambda>parent.
     bind_io (nextufs_node_lookup_as ctx path False) (\<lambda>target.
     bind_io (guard_io (\<not> nextufs_node_is_dir target) EISDIR) (\<lambda>_.
     bind_io (lift_res (nextufs__check_sticky_parent ctx parent target)) (\<lambda>_.
     bind_io (lift_res (nextufs__require_user_access ctx target W_OK)) (\<lambda>_.
     bind_io (remove_name parent name target) (\<lambda>_.
     bind_io (nextufs__remove_linked_inode target) (\<lambda>_.
     nextufs__image_fsync)))))))"

definition nextufs_path_unlink ::
  "nextufs_write_ctx \<Rightarrow> errno + bool \<Rightarrow> cstring \<Rightarrow> ('c nextufs_write_session, unit) io" where
  "nextufs_path_unlink ctx image_path path =
     checked (ctx_and_name ctx path) (\<lambda>(parent_path, name).
     mutation ctx image_path (unlink_body ctx path parent_path name))"

definition rmdir_body ::
  "nextufs_write_ctx \<Rightarrow> cstring \<Rightarrow> cstring \<Rightarrow> cstring \<Rightarrow> ('c nextufs_image, unit) io" where
  "rmdir_body ctx path parent_path name =
     bind_io (parent_any ctx parent_path) (\<lambda>parent.
     bind_io (nextufs_node_lookup_as ctx path False) (\<lambda>target.
     bind_io (guard_io (nextufs_node_is_dir target) ENOTDIR) (\<lambda>_.
     bind_io (lift_res (nextufs__check_sticky_parent ctx parent target)) (\<lambda>_.
     bind_io (if i_nlink (n_inode target) \<noteq> 2 then ret False
              else nextufs__directory_is_empty target (n_inode_no parent)) (\<lambda>empty.
     bind_io (guard_io empty ENOTEMPTY) (\<lambda>_.
     bind_io (remove_name parent name target) (\<lambda>parent.
     bind_io (nextufs__remove_dir_inode parent target) (\<lambda>_.
     nextufs__image_fsync))))))))"

definition nextufs_path_rmdir ::
  "nextufs_write_ctx \<Rightarrow> errno + bool \<Rightarrow> cstring \<Rightarrow> ('c nextufs_write_session, unit) io" where
  "nextufs_path_rmdir ctx image_path path =
     checked (ctx_and_path ctx path) (\<lambda>(parent_path, name).
     mutation ctx image_path (rmdir_body ctx path parent_path name))"

section \<open>File contents\<close>

definition rewrite_body ::
  "nextufs_write_ctx \<Rightarrow> cstring \<Rightarrow> byte list \<Rightarrow> bool \<Rightarrow> ('c nextufs_image, unit) io" where
  "rewrite_body ctx path data appending =
     bind_io (nextufs_node_lookup_as ctx path False) (\<lambda>target.
     bind_io (guard_io (nextufs_node_is_reg target) EISDIR) (\<lambda>_.
     bind_io (lift_res (nextufs__require_user_access ctx target W_OK)) (\<lambda>_.
     bind_io (if \<not> appending then nextufs__file_resize target (length data) else ret target) (\<lambda>target.
     bind_io (nextufs__file_write target data (if appending then i_size (n_inode target) else 0)) (\<lambda>_.
     nextufs__image_fsync)))))"

definition nextufs__rewrite_file_contents ::
  "nextufs_write_ctx \<Rightarrow> errno + bool \<Rightarrow> cstring \<Rightarrow> byte list \<Rightarrow> bool \<Rightarrow> ('c nextufs_write_session, unit) io" where
  "nextufs__rewrite_file_contents ctx image_path path data appending =
     checked (nextufs__require_ctx_ids_fit ctx) (\<lambda>_.
     mutation ctx image_path (rewrite_body ctx path data appending))"

definition nextufs_path_overwrite_file ::
  "nextufs_write_ctx \<Rightarrow> errno + bool \<Rightarrow> cstring \<Rightarrow> byte list \<Rightarrow> ('c nextufs_write_session, unit) io" where
  "nextufs_path_overwrite_file ctx image_path path data =
     nextufs__rewrite_file_contents ctx image_path path data False"

definition nextufs_path_append_file ::
  "nextufs_write_ctx \<Rightarrow> errno + bool \<Rightarrow> cstring \<Rightarrow> byte list \<Rightarrow> ('c nextufs_write_session, unit) io" where
  "nextufs_path_append_file ctx image_path path data =
     nextufs__rewrite_file_contents ctx image_path path data True"

text \<open>The target of \<open>nextufs_path_truncate\<close> and \<open>pwrite\<close>.\<close>

definition writable_file :: "nextufs_write_ctx \<Rightarrow> cstring \<Rightarrow> ('c nextufs_image, nextufs_node) io" where
  "writable_file ctx path =
     bind_io (nextufs_node_lookup_as ctx path False) (\<lambda>target.
     bind_io (guard_io (nextufs_node_is_reg target) EINVAL) (\<lambda>_.
     bind_io (lift_res (nextufs__require_user_access ctx target W_OK)) (\<lambda>_.
     ret target)))"

text \<open>A \<open>size_t\<close> has 64 bits, so that the first test of \<open>nextufs_path_truncate\<close> never fails.\<close>

definition nextufs_path_truncate ::
  "nextufs_write_ctx \<Rightarrow> errno + bool \<Rightarrow> cstring \<Rightarrow> nat \<Rightarrow> ('c nextufs_write_session, unit) io" where
  "nextufs_path_truncate ctx image_path path sz =
     checked (nextufs__require_ctx_ids_fit ctx) (\<lambda>_.
     mutation ctx image_path
       (bind_io (writable_file ctx path) (\<lambda>target.
        bind_io (nextufs__file_resize target sz) (\<lambda>_.
        nextufs__image_fsync))))"

definition nextufs_path_pwrite ::
  "nextufs_write_ctx \<Rightarrow> errno + bool \<Rightarrow> cstring \<Rightarrow> byte list \<Rightarrow> nat \<Rightarrow> ('c nextufs_write_session, unit) io" where
  "nextufs_path_pwrite ctx image_path path data offset =
     checked (if 2 ^ 64 - 1 < offset \<or> 2 ^ 64 - 1 - offset < length data then Inl EFBIG
              else nextufs__require_ctx_ids_fit ctx) (\<lambda>_.
     mutation ctx image_path
       (bind_io (writable_file ctx path) (\<lambda>target.
        bind_io (nextufs__file_write target data offset) (\<lambda>_.
        nextufs__image_fsync))))"

definition nextufs__opened_file_update ::
  "nextufs_write_ctx \<Rightarrow> errno + bool \<Rightarrow> nat \<Rightarrow> nat \<Rightarrow> byte list \<Rightarrow> nat \<Rightarrow> bool \<Rightarrow>
   ('c nextufs_write_session, unit) io" where
  "nextufs__opened_file_update ctx image_path ino gen data offset truncating =
     mutation ctx image_path
       (bind_io (nextufs_node_get_by_inode ino) (\<lambda>node.
        if i_gen (n_inode node) \<noteq> gen \<or> \<not> nextufs_node_is_reg node then fail ESTALE
        else bind_io (if truncating then nextufs__file_resize node offset
                      else nextufs__file_write node data offset) (\<lambda>_.
          nextufs__image_fsync)))"

section \<open>Renaming\<close>

text \<open>The part of \<open>rename\<close> that makes way at the target; the result is the new parent.\<close>

definition replace_target ::
  "nextufs_write_ctx \<Rightarrow> nextufs_node \<Rightarrow> cstring \<Rightarrow> nextufs_node \<Rightarrow> bool \<Rightarrow>
   ('c nextufs_image, nextufs_node) io" where
  "replace_target ctx new_parent new_name existing moving_dir =
     bind_io (guard_io (moving_dir = nextufs_node_is_dir existing) (if moving_dir then ENOTDIR else EISDIR)) (\<lambda>_.
     bind_io (lift_res (nextufs__check_sticky_parent ctx new_parent existing)) (\<lambda>_.
     bind_io (if \<not> moving_dir then ret True
              else if 2 < i_nlink (n_inode existing) then ret False
              else nextufs__directory_is_empty existing (n_inode_no new_parent)) (\<lambda>empty.
     bind_io (guard_io empty ENOTEMPTY) (\<lambda>_.
     bind_io (remove_name new_parent new_name existing) (\<lambda>new_parent.
     if moving_dir then nextufs__remove_dir_inode new_parent existing
     else bind_io (nextufs__remove_linked_inode existing) (\<lambda>_. ret new_parent))))))"

text \<open>
  The part that moves the name. \<open>old_parent\<close> is the node read at the start; when the parent does
  not change it is replaced by the updated one.
\<close>

definition move_name ::
  "nextufs_node \<Rightarrow> nextufs_node \<Rightarrow> nextufs_node \<Rightarrow> cstring \<Rightarrow> cstring \<Rightarrow> ('c nextufs_image, unit) io" where
  "move_name source old_parent new_parent old_name new_name =
     (let moving_dir = nextufs_node_is_dir source;
          changing_parent = (n_inode_no old_parent \<noteq> n_inode_no new_parent) in
      bind_io (nextufs__insert_dirent new_parent new_name (n_inode_no source)) (\<lambda>new_parent.
      let old_parent = (if \<not> changing_parent then new_parent else old_parent) in
      bind_io (remove_name old_parent old_name source) (\<lambda>old_parent.
      bind_io time_io (\<lambda>now.
      bind_io
        (if moving_dir \<and> changing_parent then
           bind_io (nextufs__update_directory_parent_inode source (n_inode_no new_parent)) (\<lambda>source.
           let op = n_inode old_parent; np = n_inode new_parent in
           bind_io (nextufs__write_inode_raw (n_inode_no old_parent)
             (op\<lparr>i_nlink := u16 (i_nlink op + 65535), i_ctime := now, i_mtime := now\<rparr>)) (\<lambda>_.
           if INT16_MAX \<le> i_nlink np then fail EMLINK
           else bind_io (nextufs__write_inode_raw (n_inode_no new_parent)
             (np\<lparr>i_nlink := i_nlink np + 1, i_ctime := now, i_mtime := now\<rparr>)) (\<lambda>_.
           ret source)))
         else ret source) (\<lambda>source.
      bind_io (nextufs__write_inode_raw (n_inode_no source) ((n_inode source)\<lparr>i_ctime := now\<rparr>)) (\<lambda>_.
      nextufs__image_fsync))))))"

definition rename_body ::
  "nextufs_write_ctx \<Rightarrow> cstring \<Rightarrow> cstring \<Rightarrow> cstring \<Rightarrow> cstring \<Rightarrow> cstring \<Rightarrow> cstring \<Rightarrow>
   ('c nextufs_image, unit) io" where
  "rename_body ctx source_path target_path old_parent_path old_name new_parent_path new_name =
     bind_io (nextufs_node_lookup_as ctx source_path False) (\<lambda>source.
     bind_io (parent_any ctx old_parent_path) (\<lambda>old_parent.
     bind_io (parent_directory ctx new_parent_path) (\<lambda>new_parent.
     let moving_dir = nextufs_node_is_dir source;
         changing_parent = (n_inode_no old_parent \<noteq> n_inode_no new_parent) in
     bind_io (lift_res (nextufs__check_sticky_parent ctx old_parent source)) (\<lambda>_.
     bind_io (if moving_dir \<and> changing_parent
              then lift_res (nextufs__require_user_access ctx source W_OK) else ret ()) (\<lambda>_.
     bind_io (if moving_dir then nextufs__directory_has_ancestor new_parent (n_inode_no source)
              else ret False) (\<lambda>inside.
     bind_io (guard_io (\<not> inside) EINVAL) (\<lambda>_.
     bind_io (try_io (nextufs_node_lookup_as ctx target_path False)) (\<lambda>r.
     case r of
       Inr existing \<Rightarrow>
         if n_inode_no existing = n_inode_no source then ret ()
         else bind_io (replace_target ctx new_parent new_name existing moving_dir) (\<lambda>new_parent.
           move_name source old_parent new_parent old_name new_name)
     | Inl e \<Rightarrow>
         if e \<noteq> ENOENT then fail e
         else move_name source old_parent new_parent old_name new_name))))))))"

definition rename_checks ::
  "nextufs_write_ctx \<Rightarrow> cstring \<Rightarrow> cstring \<Rightarrow> errno + (cstring \<times> cstring) \<times> (cstring \<times> cstring)" where
  "rename_checks ctx source_path target_path =
     (case ctx_and_name ctx source_path of
        Inl e \<Rightarrow> Inl e
      | Inr old \<Rightarrow>
          (case nextufs__path_split target_path NEXTUFS_MAX_PATH_LEN 256 of
             Inl e \<Rightarrow> Inl e
           | Inr new \<Rightarrow>
               (case nextufs__disallow_target_dot_names (snd new) of
                  Inl e \<Rightarrow> Inl e | Inr _ \<Rightarrow> Inr (old, new))))"

definition nextufs_path_rename ::
  "nextufs_write_ctx \<Rightarrow> errno + bool \<Rightarrow> cstring \<Rightarrow> cstring \<Rightarrow> ('c nextufs_write_session, unit) io" where
  "nextufs_path_rename ctx image_path source_path target_path =
     checked (rename_checks ctx source_path target_path) (\<lambda>((old_parent_path, old_name), (new_parent_path, new_name)).
     mutation ctx image_path
       (rename_body ctx source_path target_path old_parent_path old_name new_parent_path new_name))"

section \<open>Attributes\<close>

text \<open>The end that the three operations on attributes share.\<close>

definition store_attributes :: "nextufs_node \<Rightarrow> nextufs_inode \<Rightarrow> ('c nextufs_image, unit) io" where
  "store_attributes node ino = bind_io time_io (\<lambda>now.
     bind_io (nextufs__write_inode_raw (n_inode_no node) (ino\<lparr>i_ctime := now\<rparr>)) (\<lambda>_.
     nextufs__image_fsync))"

definition nextufs_path_chmod ::
  "nextufs_write_ctx \<Rightarrow> errno + bool \<Rightarrow> cstring \<Rightarrow> nat \<Rightarrow> ('c nextufs_write_session, unit) io" where
  "nextufs_path_chmod ctx image_path path mode =
     checked (nextufs__require_ctx_ids_fit ctx) (\<lambda>_.
     mutation ctx image_path
       (bind_io (nextufs_node_lookup_as ctx path False) (\<lambda>node.
        bind_io (lift_res (nextufs__require_chmod_allowed ctx node)) (\<lambda>_.
        store_attributes node ((n_inode node)\<lparr>i_mode := nextufs__sanitize_chmod_mode ctx node mode\<rparr>)))))"

definition nextufs_path_chown ::
  "nextufs_write_ctx \<Rightarrow> errno + bool \<Rightarrow> cstring \<Rightarrow> nat \<Rightarrow> nat \<Rightarrow> ('c nextufs_write_session, unit) io" where
  "nextufs_path_chown ctx image_path path uid gid =
     checked (case nextufs__require_ctx_ids_fit ctx of
                Inl e \<Rightarrow> Inl e | Inr _ \<Rightarrow> nextufs__require_owner_ids_fit uid gid) (\<lambda>_.
     mutation ctx image_path
       (bind_io (nextufs_node_lookup_as ctx path False) (\<lambda>node.
        let ino = n_inode node;
            new_uid = (if uid = NO_ID then i_uid ino else uid);
            new_gid = (if gid = NO_ID then i_gid ino else gid) in
        bind_io (lift_res (nextufs__require_chown_allowed ctx node new_uid new_gid)) (\<lambda>_.
        store_attributes node (ino\<lparr>i_uid := u16 new_uid, i_gid := u16 new_gid,
          i_mode := (if w_policy ctx = NEXTUFS_WRITE_USER \<and> \<not> nextufs__ctx_is_root ctx
                     then i_mode ino AND u16_not (0x800 OR 0x400) else i_mode ino)\<rparr>)))))"

definition nextufs_path_utimes ::
  "nextufs_write_ctx \<Rightarrow> errno + bool \<Rightarrow> cstring \<Rightarrow> nat \<Rightarrow> nat \<Rightarrow> ('c nextufs_write_session, unit) io" where
  "nextufs_path_utimes ctx image_path path atime mtime =
     checked (nextufs__require_ctx_ids_fit ctx) (\<lambda>_.
     mutation ctx image_path
       (bind_io (nextufs_node_lookup_as ctx path False) (\<lambda>node.
        bind_io (guard_io (\<not> (w_policy ctx = NEXTUFS_WRITE_USER \<and> \<not> nextufs__ctx_is_root ctx \<and>
          w_uid ctx \<noteq> i_uid (n_inode node))) EPERM) (\<lambda>_.
        store_attributes node ((n_inode node)\<lparr>i_atime := atime, i_mtime := mtime\<rparr>)))))"

end
