(* ===== verification/Atomicity.thy ===== *)
theory Atomicity
  imports Mutate
begin

text \<open>
  What the frame of a mutation guarantees, for every operation of \<^verbatim>\<open>include/nextufs_mutate.h\<close>: the
  operations as data, their runs over a write session, and the proof that an operation that reports
  an error leaves the bytes of the image as they were, unless it also reports that it could not, by
  \<open>EUCLEAN\<close> or by the failed mark of the session.
\<close>

section \<open>Every operation can be rolled back\<close>

context backend
begin

lemma remove_linked_tx: "keeps (tx_inv ops disk binv D) (nextufs__remove_linked_inode node)"
  unfolding nextufs__remove_linked_inode_def Let_def by (intro path_tx_rules)

lemma remove_dir_inode_tx: "keeps (tx_inv ops disk binv D) (nextufs__remove_dir_inode parent node)"
  unfolding nextufs__remove_dir_inode_def Let_def by (intro path_tx_rules)

lemma has_ancestor_tx: "keeps (tx_inv ops disk binv D) (has_ancestor n a node)"
proof (induction n arbitrary: node)
  case 0
  show ?case by (simp add: keeps_ret)
next
  case (Suc n)
  show ?case by (simp only: has_ancestor.simps) (intro path_tx_rules Suc)
qed

lemma directory_has_ancestor_tx:
  "keeps (tx_inv ops disk binv D) (nextufs__directory_has_ancestor node a)"
  unfolding nextufs__directory_has_ancestor_def by (rule has_ancestor_tx)

lemma discard_tx: "keeps (tx_inv ops disk binv D) (nextufs__discard_new_inode i ino)"
  unfolding nextufs__discard_new_inode_def by (intro path_tx_rules)

lemma or_discard_tx:
  "keeps (tx_inv ops disk binv D) m \<Longrightarrow> keeps (tx_inv ops disk binv D) (or_discard i ino m)"
  unfolding or_discard_def by (intro path_tx_rules discard_tx)

lemma require_absent_tx: "keeps (tx_inv ops disk binv D) (require_absent ctx path)"
  unfolding require_absent_def by (intro path_tx_rules)

lemma parent_directory_tx: "keeps (tx_inv ops disk binv D) (parent_directory ctx path)"
  unfolding parent_directory_def by (intro path_tx_rules)

lemma parent_any_tx: "keeps (tx_inv ops disk binv D) (parent_any ctx path)"
  unfolding parent_any_def by (intro path_tx_rules)

lemma remove_name_tx: "keeps (tx_inv ops disk binv D) (remove_name parent name target)"
  unfolding remove_name_def by (intro path_tx_rules)

lemma writable_file_tx: "keeps (tx_inv ops disk binv D) (writable_file ctx path)"
  unfolding writable_file_def by (intro path_tx_rules)

lemma store_attributes_tx: "keeps (tx_inv ops disk binv D) (store_attributes node ino)"
  unfolding store_attributes_def by (intro path_tx_rules)

lemmas op_tx_rules = path_tx_rules remove_linked_tx remove_dir_inode_tx directory_has_ancestor_tx
  or_discard_tx require_absent_tx parent_directory_tx parent_any_tx remove_name_tx writable_file_tx
  store_attributes_tx

lemma create_file_tx: "keeps (tx_inv ops disk binv D) (create_file_body ctx p pp n d)"
  unfolding create_file_body_def Let_def by (intro op_tx_rules)

lemma mkdir_tx: "keeps (tx_inv ops disk binv D) (mkdir_body ctx p pp n m)"
  unfolding mkdir_body_def Let_def by (intro op_tx_rules)

lemma link_tx: "keeps (tx_inv ops disk binv D) (link_body ctx s t pp n)"
  unfolding link_body_def Let_def by (intro op_tx_rules)

lemma symlink_tx: "keeps (tx_inv ops disk binv D) (symlink_body ctx t l pp n)"
  unfolding symlink_body_def Let_def by (intro op_tx_rules)

lemma mknod_tx: "keeps (tx_inv ops disk binv D) (mknod_body ctx p pp n m d)"
  unfolding mknod_body_def Let_def by (intro op_tx_rules)

lemma unlink_tx: "keeps (tx_inv ops disk binv D) (unlink_body ctx p pp n)"
  unfolding unlink_body_def by (intro op_tx_rules)

lemma rmdir_tx: "keeps (tx_inv ops disk binv D) (rmdir_body ctx p pp n)"
  unfolding rmdir_body_def by (intro op_tx_rules)

lemma rewrite_tx: "keeps (tx_inv ops disk binv D) (rewrite_body ctx p d a)"
  unfolding rewrite_body_def by (intro op_tx_rules)

lemma replace_target_tx: "keeps (tx_inv ops disk binv D) (replace_target ctx np n ex md)"
  unfolding replace_target_def by (intro op_tx_rules)

lemma move_name_tx: "keeps (tx_inv ops disk binv D) (move_name src op np on nn)"
  unfolding move_name_def Let_def by (intro op_tx_rules update_parent_tx)

lemma rename_tx: "keeps (tx_inv ops disk binv D) (rename_body ctx s t opp on npp nn)"
  unfolding rename_body_def Let_def by (intro op_tx_rules replace_target_tx move_name_tx)

end

section \<open>The operations as data\<close>

datatype nextufs_operation =
    Create_File cstring "byte list"
  | Unlink cstring
  | Mkdir cstring nat
  | Overwrite_File cstring "byte list"
  | Append_File cstring "byte list"
  | Rmdir cstring
  | Link cstring cstring
  | Rename cstring cstring
  | Symlink cstring cstring
  | Truncate cstring nat
  | Pwrite cstring "byte list" nat
  | Mknod cstring nat nat
  | Chmod cstring nat
  | Chown cstring nat nat
  | Utimes cstring nat nat
  | Opened_Update nat nat "byte list" nat bool

primrec run_operation ::
  "nextufs_write_ctx \<Rightarrow> errno + bool \<Rightarrow> nextufs_operation \<Rightarrow> ('c nextufs_write_session, unit) io" where
  "run_operation ctx ip (Create_File p d) = nextufs_path_create_file ctx ip p d"
| "run_operation ctx ip (Unlink p) = nextufs_path_unlink ctx ip p"
| "run_operation ctx ip (Mkdir p m) = nextufs_path_mkdir ctx ip p m"
| "run_operation ctx ip (Overwrite_File p d) = nextufs_path_overwrite_file ctx ip p d"
| "run_operation ctx ip (Append_File p d) = nextufs_path_append_file ctx ip p d"
| "run_operation ctx ip (Rmdir p) = nextufs_path_rmdir ctx ip p"
| "run_operation ctx ip (Link p q) = nextufs_path_link ctx ip p q"
| "run_operation ctx ip (Rename p q) = nextufs_path_rename ctx ip p q"
| "run_operation ctx ip (Symlink t p) = nextufs_path_symlink ctx ip t p"
| "run_operation ctx ip (Truncate p n) = nextufs_path_truncate ctx ip p n"
| "run_operation ctx ip (Pwrite p d off) = nextufs_path_pwrite ctx ip p d off"
| "run_operation ctx ip (Mknod p m dev) = nextufs_path_mknod ctx ip p m dev"
| "run_operation ctx ip (Chmod p m) = nextufs_path_chmod ctx ip p m"
| "run_operation ctx ip (Chown p u g) = nextufs_path_chown ctx ip p u g"
| "run_operation ctx ip (Utimes p a m) = nextufs_path_utimes ctx ip p a m"
| "run_operation ctx ip (Opened_Update i g d off tr) = nextufs__opened_file_update ctx ip i g d off tr"

lemmas operation_defs = run_operation.simps nextufs_path_create_file_def nextufs_path_unlink_def
      nextufs_path_mkdir_def nextufs_path_overwrite_file_def nextufs_path_append_file_def
      nextufs__rewrite_file_contents_def nextufs_path_rmdir_def nextufs_path_link_def
      nextufs_path_rename_def nextufs_path_symlink_def nextufs_path_truncate_def
      nextufs_path_pwrite_def nextufs_path_mknod_def nextufs_path_chmod_def nextufs_path_chown_def
      nextufs_path_utimes_def nextufs__opened_file_update_def Let_def

text \<open>Each operation is a test of its arguments and then a mutation of a body that can be rolled back.\<close>

definition rolls_back ::
  "'c nextufs_image_backend_ops \<Rightarrow> ('c \<Rightarrow> byte list) \<Rightarrow> ('c \<Rightarrow> bool) \<Rightarrow>
   nextufs_write_ctx \<Rightarrow> errno + bool \<Rightarrow> ('c nextufs_write_session, unit) io \<Rightarrow> bool" where
  "rolls_back ops disk binv ctx ip m \<longleftrightarrow> (\<forall>s. (\<exists>e. m s = (Inl e, s)) \<or>
     (\<exists>body. (\<forall>D. keeps (tx_inv ops disk binv D) body) \<and> m s = mutation ctx ip body s))"

context backend
begin

lemma rolls_back_mutation:
  "(\<And>D. keeps (tx_inv ops disk binv D) body) \<Longrightarrow> rolls_back ops disk binv ctx ip (mutation ctx ip body)"
  unfolding rolls_back_def by blast

lemma rolls_back_checked:
  "(\<And>x. rolls_back ops disk binv ctx ip (f x)) \<Longrightarrow> rolls_back ops disk binv ctx ip (checked c f)"
  unfolding rolls_back_def checked_def by (cases c) (simp_all add: bind_io_def lift_res_def)

lemma rolls_back_case_prod:
  "(\<And>a b. rolls_back ops disk binv ctx ip (f a b)) \<Longrightarrow> rolls_back ops disk binv ctx ip (case p of (a, b) \<Rightarrow> f a b)"
  by (cases p) simp

lemma rolls_back_case_prod_app:
  "(\<And>a b. rolls_back ops disk binv ctx ip (f a b x)) \<Longrightarrow>
   rolls_back ops disk binv ctx ip ((case p of (a, b) \<Rightarrow> f a b) x)"
  by (cases p) simp

lemmas rolls_back_rules = rolls_back_checked rolls_back_case_prod rolls_back_case_prod_app rolls_back_mutation

lemma operation_rolls_back: "rolls_back ops disk binv ctx ip (run_operation ctx ip oper)"
  by (cases oper)
    (simp_all only: operation_defs,
     (intro rolls_back_rules create_file_tx mkdir_tx link_tx symlink_tx mknod_tx unlink_tx rmdir_tx
       rewrite_tx rename_tx op_tx_rules)+)

end

section \<open>The end of a mutation\<close>

lemma undo_all_agree:
  "agree_outside p n d d' \<Longrightarrow> list_all (entry_ok (length d)) recs \<Longrightarrow>
   agree_outside p n (undo_all recs d) (undo_all recs d')"
proof (induction recs)
  case (Cons e recs)
  obtain off b where e: "e = (off, b)" by (cases e)
  let ?x = "undo_all recs d" and ?y = "undo_all recs d'"
  from Cons have ag: "agree_outside p n ?x ?y" by simp
  have len: "length ?x = length d" using Cons.prems(2) by (simp add: length_undo_all)
  then have len': "length ?y = length d" using agree_outside_length [OF ag] by simp
  have ok: "nat off + length b \<le> length d" using Cons.prems(2) e by simp
  have "agree_outside p n (overlay (nat off) b ?x) (overlay (nat off) b ?y)"
    using ag len len' ok by (auto simp: agree_outside_def nth_overlay)
  then show ?case by (simp add: e undo_all_def)
qed (simp add: undo_all_def)

definition byte_inv ::
  "'c nextufs_image_backend_ops \<Rightarrow> ('c \<Rightarrow> byte list) \<Rightarrow> ('c \<Rightarrow> bool) \<Rightarrow> nat \<Rightarrow> int \<Rightarrow> sysres list \<Rightarrow>
   byte list \<Rightarrow> 'c nextufs_image \<Rightarrow> bool" where
  "byte_inv ops disk binv p b ts d img \<longleftrightarrow> image_on ops disk binv img \<and> slice_base img = b \<and>
     tmpfile_script img = ts \<and> agree_outside p 1 (disk (backend_ctx img)) d"

lemma keepsD_get: "keeps I (f s) \<Longrightarrow> I s \<Longrightarrow> bind_io get_io f s = (r, t) \<Longrightarrow> I t"
  by (auto simp: bind_io_def get_io_def dest: keepsD)

lemma static_slots:
  assumes "static a = static b"
  shows "slice_base a = slice_base b" and "tmpfile_script a = tmpfile_script b"
    and "restore_clean a = restore_clean b"
  using arg_cong [OF assms, of slice_base] arg_cong [OF assms, of tmpfile_script]
    arg_cong [OF assms, of restore_clean] by (simp_all add: static_def)

context backend
begin

text \<open>A disk that differs in one place from the one the log belongs to.\<close>

lemma transaction_end_restores_outside:
  fixes r :: "errno + 'b"
  assumes "log_inv ops disk binv D img" and "image_on ops disk binv img'"
    and "transaction img' = transaction img"
    and "agree_outside p n (disk (backend_ctx img')) (disk (backend_ctx img))"
    and "nextufs__transaction_end (Inl e) img' = (r, img2)" and "r \<noteq> Inl EUCLEAN"
  shows "r = Inl e \<and> agree_outside p n (disk (backend_ctx img2)) D \<and> image_on ops disk binv img2 \<and>
    static img2 = static img'"
proof -
  from assms(1) obtain tx recs where
    tx: "transaction img = Some tx" "tx_script tx = []" "tx_log tx = log_of recs" "tx_end tx = int (length (log_of recs))"
    and ok: "list_all (entry_ok (length D)) recs" and len: "length D = length (disk (backend_ctx img))"
    and D: "undo_all recs (disk (backend_ctx img)) = D"
    by (auto simp: log_inv_def)
  let ?D = "undo_all recs (disk (backend_ctx img'))"
  note len' = agree_outside_length [OF assms(4)]
  have lenD: "length ?D = length (disk (backend_ctx img'))"
    using ok len len' by (simp add: length_undo_all)
  have inv: "log_inv ops disk binv ?D img'"
    unfolding log_inv_def using assms(2,3) tx ok lenD len len' by auto
  from transaction_end_restores [OF inv assms(5,6)]
  have r: "r = Inl e" "disk (backend_ctx img2) = ?D" "image_on ops disk binv img2" by auto
  moreover have "agree_outside p n ?D D"
    using undo_all_agree [OF assms(4), of recs] ok len len' D by simp
  moreover have "static img2 = static img'" using transaction_end_on [OF inv assms(5)] by blast
  ultimately show ?thesis by simp
qed

text \<open>The two operations on the state byte change at most that byte.\<close>

lemma fsync_byte: "keeps (byte_inv ops disk binv p b ts d) nextufs__image_fsync"
proof (rule keepsI)
  fix img r img'
  assume i: "byte_inv ops disk binv p b ts d img" and r: "nextufs__image_fsync img = (r, img')"
  then have "image_on ops disk binv img" by (simp add: byte_inv_def)
  note e = fsync_effect [OF this r]
  then have "static img' = static img" by blast
  from static_slots(1,2) [OF this] e i show "byte_inv ops disk binv p b ts d img'"
    by (simp add: byte_inv_def)
qed

lemma write_byte: "keeps (byte_inv ops disk binv (nat p) b ts d) (nextufs__write_exact [x] p)"
proof (rule keepsI)
  fix img r img'
  assume i: "byte_inv ops disk binv (nat p) b ts d img" and r: "nextufs__write_exact [x] p img = (r, img')"
  then have "image_on ops disk binv img" by (simp add: byte_inv_def)
  note e = write_exact_effect [OF this r]
  then have "static img' = static img"
    and "agree_outside (nat p) 1 (disk (backend_ctx img')) (disk (backend_ctx img))" by auto
  from static_slots(1,2) [OF this(1)] agree_outside_trans [OF this(2)] e i
  show "byte_inv ops disk binv (nat p) b ts d img'"
    by (simp add: byte_inv_def)
qed

lemma write_begin_byte:
  assumes "byte_inv ops disk binv (nat (state_off img)) b ts d img"
    and "nextufs__write_begin img = (r, img')"
  shows "byte_inv ops disk binv (nat (state_off img)) b ts d img'"
proof -
  let ?I = "byte_inv ops disk binv (nat (state_off img)) b ts d"
  have m: "keeps ?I (modify_io (\<lambda>img. img\<lparr>restore_clean := (state (sb img) = 1)\<rparr>))"
    and m2: "\<And>st. keeps ?I (modify_io (\<lambda>img. img\<lparr>sb := (sb img)\<lparr>state := st\<rparr>, fs_write_active := True\<rparr>))"
    by (auto simp: keeps_def modify_io_def byte_inv_def image_on_def)
  show ?thesis
    by (rule keepsD_get [where I = ?I, OF _ assms(1) assms(2) [unfolded nextufs__write_begin_def]])
      (intro keeps_rules fsync_byte write_byte m m2)
qed

lemma write_finish_byte:
  assumes "byte_inv ops disk binv (nat (state_off img)) b ts d img"
    and "nextufs__write_finish safe img = (r, img')"
  shows "byte_inv ops disk binv (nat (state_off img)) b ts d img' \<and>
    (safe \<and> r = Inr () \<longrightarrow> \<not> restore_clean img')"
proof -
  let ?I = "byte_inv ops disk binv (nat (state_off img)) b ts d"
  have m: "keeps ?I (modify_io (\<lambda>img. img\<lparr>sb := (sb img)\<lparr>state := 1\<rparr>, restore_clean := False\<rparr>))"
    by (auto simp: keeps_def modify_io_def byte_inv_def image_on_def)
  have "?I img'"
    by (rule keepsD_get [where I = ?I, OF _ assms(1) assms(2) [unfolded nextufs__write_finish_def]])
      (intro keeps_rules fsync_byte write_byte m)
  moreover have "safe \<and> r = Inr () \<longrightarrow> \<not> restore_clean img'"
    using assms(2) by (auto simp: nextufs__write_finish_def io_defs split: prod.splits sum.splits if_splits)
  ultimately show ?thesis by blast
qed

lemma refresh_effect:
  assumes "image_on ops disk binv img" and "nextufs__image_refresh img = (r, img')"
  shows "image_on ops disk binv img' \<and> disk (backend_ctx img') = disk (backend_ctx img) \<and>
    tmpfile_script img' = tmpfile_script img"
proof -
  obtain q img1 where q: "nextufs__read_exact 2048 (slice_base img + int UFS_SBLOCK_OFFSET) img = (q, img1)"
    by (cases "nextufs__read_exact 2048 (slice_base img + int UFS_SBLOCK_OFFSET) img")
  note e = read_exact_effect [OF assms(1) q]
  then have "static img1 = static img" by blast
  from e static_slots(2) [OF this] assms(2) q show ?thesis
    by (cases q) (auto simp: nextufs__image_refresh_def io_defs image_on_def split: sum.splits)
qed

lemma share_on:
  assumes "image_on ops disk binv img" and "image_on ops disk binv (s_image s)"
    and "length (disk (backend_ctx img)) = length (disk (backend_ctx (s_image s)))"
  shows "image_on ops disk binv (s_image (share_ctx img s))"
  using assms by (simp add: image_on_def share_ctx_def)

lemma unprivileged_on [simp]:
  "image_on ops disk binv (img\<lparr>unprivileged := u\<rparr>) = image_on ops disk binv img"
  by (simp add: image_on_def)

text \<open>The body of a mutation: it succeeds or fails, and the log stays complete.\<close>

lemma body_effect:
  assumes "image_on ops disk binv img" and "tmpfile_script img = []"
    and "nextufs__transaction_begin img = (Inr (), img1)"
    and "\<And>D. keeps (tx_inv ops disk binv D) body" and "body img1 = (rc, img2)"
  shows "log_inv ops disk binv (disk (backend_ctx img)) img2 \<and> image_on ops disk binv img2 \<and>
    static img2 = static img"
proof -
  from transaction_begin_tx [OF assms(1-3)]
  have "tx_inv ops disk binv (disk (backend_ctx img), static img) img1" .
  from keepsD [OF assms(4) this assms(5)] show ?thesis by (auto simp: tx_inv_def dest: log_inv_on)
qed

lemma session_mutation:
  assumes "\<And>D. keeps (tx_inv ops disk binv D) body" and "w_session ctx"
    and "image_on ops disk binv (s_image s)" and "tmpfile_script (s_image s) = []"
    and "mutation ctx ip body s = (r, s')"
  shows "image_on ops disk binv (s_image s') \<and> tmpfile_script (s_image s') = [] \<and>
    (r = Inr () \<or> disk (backend_ctx (s_image s')) = disk (backend_ctx (s_image s)) \<or> s_failed s')"
proof (cases "s_failed s \<or> (\<exists>e. ip = Inl e) \<or> ip = Inr False")
  case True
  with assms(2,5) have "(\<exists>e. r = Inl e) \<and> s' = s"
    by (cases ip) (auto simp: mutation_def bind_io_def nextufs__open_image_rw_def Let_def split: if_splits)
  with assms(3,4) show ?thesis by simp
next
  case False
  let ?u = "w_policy ctx = NEXTUFS_WRITE_USER \<and> w_uid ctx \<noteq> 0"
  let ?img = "(s_image s)\<lparr>unprivileged := ?u\<rparr>"
  from False have ip: "ip = Inr True" "\<not> s_failed s" by (cases ip; auto)+
  have on: "image_on ops disk binv ?img" using assms(3) by simp
  obtain q img1 where q: "nextufs__transaction_begin ?img = (q, img1)" by (cases "nextufs__transaction_begin ?img")
  show ?thesis
  proof (cases q)
    case (Inl e)
    from transaction_begin_fails [OF on q [unfolded Inl]]
    have i1: "image_on ops disk binv img1" "disk (backend_ctx img1) = disk (backend_ctx (s_image s))"
      "static img1 = static ?img" by simp_all
    have "s' = share_ctx img1 s"
      using assms(2,5) ip q Inl by (simp add: mutation_def bind_io_def nextufs__open_image_rw_def)
    with share_on [OF i1(1) assms(3)] i1(2) static_slots(2) [OF i1(3)] assms(4) show ?thesis
      by (simp add: share_ctx_def)
  next
    case (Inr u)
    let ?s = "share_ctx img1 s"
    obtain rc img2 where b: "body img1 = (rc, img2)" by (cases "body img1")
    have q': "nextufs__transaction_begin ?img = (Inr (), img1)" using q Inr by simp
    have ts: "tmpfile_script ?img = []" using assms(4) by simp
    from body_effect [OF on ts q' assms(1) b]
    have l2: "log_inv ops disk binv (disk (backend_ctx (s_image s))) img2" and s2: "static img2 = static ?img"
      by simp_all
    obtain rc' img3 where e: "nextufs__transaction_end rc img2 = (rc', img3)"
      by (cases "nextufs__transaction_end rc img2")
    from transaction_end_on [OF l2 e] have i3: "image_on ops disk binv img3"
      "length (disk (backend_ctx img3)) = length (disk (backend_ctx (s_image s)))" "static img3 = static ?img"
      using s2 by simp_all
    have sh: "s_image (share_ctx img3 ?s) = s_image (share_ctx img3 s)" by (simp add: share_ctx_def)
    obtain f simg where f: "nextufs__image_refresh (s_image (share_ctx img3 s)) = (f, simg)"
      by (cases "nextufs__image_refresh (s_image (share_ctx img3 s))")
    from refresh_effect [OF share_on [OF i3(1) assms(3) i3(2)] f] static_slots(2) [OF i3(3)] ts
    have on': "image_on ops disk binv simg" "tmpfile_script simg = []"
      "disk (backend_ctx simg) = disk (backend_ctx img3)" by (auto simp: share_ctx_def)
    have res: "r = (if rc' = Inr () then f else rc')"
      "s' = ?s\<lparr>s_image := simg, s_failed := s_failed ?s \<or> rc' = Inl EUCLEAN \<or> f \<noteq> Inr ()\<rparr>"
      using assms(2,5) ip q' b e f
      by (simp_all add: mutation_def bind_io_def nextufs__open_image_rw_def finish_mutation_def
          finish_in_session_def sh)
    show ?thesis
    proof (cases rc')
      case (Inr v)
      then show ?thesis using res on' by auto
    next
      case (Inl e')
      then obtain e0 where rc: "rc = Inl e0"
        using e l2 by (cases rc) (auto simp: nextufs__transaction_end_def log_inv_def)
      have "disk (backend_ctx img3) = disk (backend_ctx (s_image s))" if "e' \<noteq> EUCLEAN"
        using transaction_end_restores [OF l2 e [unfolded rc]] that Inl by auto
      then show ?thesis using res on' Inl by auto
    qed
  qed
qed

text \<open>The last act of a one-shot mutation, after the transaction.\<close>

lemma one_shot_end:
  assumes "byte_inv ops disk binv p b ts d img" and "p = nat (state_off img)"
    and "nextufs__write_finish safe img = (f, img')"
    and "r = (if f = Inr () then rc else f)" and "s' = s\<lparr>s_image := img'\<rparr>"
  shows "byte_inv ops disk binv p b ts d (s_image s')"
  using write_finish_byte [OF assms(1) [unfolded assms(2)] assms(3)] assms(2,5) by simp

lemma one_shot_mutation:
  assumes "\<And>D. keeps (tx_inv ops disk binv D) body" and "\<not> w_session ctx"
    and "image_on ops disk binv (s_image s)" and "tmpfile_script (s_image s) = []"
    and "mutation ctx ip body s = (r, s')"
  shows "r = Inr () \<or> r = Inl EUCLEAN \<or>
    agree_outside (nat (state_off (s_image s))) 1 (disk (backend_ctx (s_image s'))) (disk (backend_ctx (s_image s)))"
proof (cases ip)
  case (Inl e)
  with assms(2,5) show ?thesis by (simp add: mutation_def bind_io_def nextufs__open_image_rw_def)
next
  case (Inr same)
  let ?u = "w_policy ctx = NEXTUFS_WRITE_USER \<and> w_uid ctx \<noteq> 0"
  let ?p = "nat (state_off (s_image s))" and ?b = "slice_base (s_image s)"
    and ?d = "disk (backend_ctx (s_image s))"
  let ?B = "byte_inv ops disk binv ?p ?b [] ?d"
  have B0: "?B (s_image s)" using assms(3,4) by (simp add: byte_inv_def)
  have off: "nat (state_off i) = ?p" if "?B i" for i
    using that by (simp add: byte_inv_def state_off_def)
  obtain q img1 where q: "nextufs__write_begin (s_image s) = (q, img1)" by (cases "nextufs__write_begin (s_image s)")
  from write_begin_byte [OF B0 q] have B1: "?B img1" .
  show ?thesis
  proof (cases q)
    case (Inl e)
    with assms(2,5) Inr q have "s' = s\<lparr>s_image := img1\<rparr>"
      by (simp add: mutation_def bind_io_def nextufs__open_image_rw_def)
    with B1 show ?thesis by (simp add: byte_inv_def)
  next
    case q_ok: (Inr u)
    let ?img = "img1\<lparr>unprivileged := ?u\<rparr>"
    have on: "image_on ops disk binv ?img" and ts: "tmpfile_script ?img = []" and Bu: "?B ?img"
      using B1 by (simp_all add: byte_inv_def)
    obtain t img2 where t: "nextufs__transaction_begin ?img = (t, img2)" by (cases "nextufs__transaction_begin ?img")
    show ?thesis
    proof (cases t)
      case (Inl e)
      from transaction_begin_fails [OF on t [unfolded Inl]] static_slots Bu
      have B2: "?B img2" unfolding byte_inv_def by metis
      obtain f img3 where f: "nextufs__write_finish True img2 = (f, img3)" by (cases "nextufs__write_finish True img2")
      have "s' = s\<lparr>s_image := img3\<rparr>"
        using assms(2,5) Inr q q_ok t Inl f by (simp add: mutation_def bind_io_def nextufs__open_image_rw_def)
      with write_finish_byte [OF _ f] B2 off [OF B2] show ?thesis by (simp add: byte_inv_def)
    next
      case t_ok: (Inr v)
      have t': "nextufs__transaction_begin ?img = (Inr (), img2)" using t t_ok by simp
      obtain rc img3 where b: "body img2 = (rc, img3)" by (cases "body img2")
      from body_effect [OF on ts t' assms(1) b]
      have l3: "log_inv ops disk binv (disk (backend_ctx img1)) img3" and on3: "image_on ops disk binv img3"
        and s3: "static img3 = static ?img" by simp_all
      have fm: "finish_one_shot rc img3 (s\<lparr>s_image := img2\<rparr>) = (r, s')"
        using assms(2,5) Inr q q_ok t' b
        by (simp add: mutation_def bind_io_def nextufs__open_image_rw_def finish_mutation_def)
      have sb3: "slice_base img3 = ?b" "tmpfile_script img3 = []"
        using static_slots(1,2) [OF s3] B1 by (simp_all add: byte_inv_def)
      have rolled: ?thesis if e: "nextufs__transaction_end (Inl e0) img4 = (rc', img5)"
        and on4: "image_on ops disk binv img4" and tx4: "transaction img4 = transaction img3"
        and ag4: "agree_outside ?p 1 (disk (backend_ctx img4)) (disk (backend_ctx img3))"
        and base4: "slice_base img4 = ?b" "tmpfile_script img4 = []"
        and fin: "nextufs__write_finish (rc' \<noteq> Inl EUCLEAN) img5 = (f, img6)"
        and res: "r = (if f = Inr () then rc' else f)" "s' = s\<lparr>s_image := img6\<rparr>"
        for e0 f img4 img5 img6 and rc' :: "errno + unit"
      proof (cases "rc' = Inl EUCLEAN")
        case True
        then have "f = Inr ()" using fin by (simp add: nextufs__write_finish_def io_defs)
        then show ?thesis using res True by simp
      next
        case False
        from transaction_end_restores_outside [OF l3 on4 tx4 ag4 e False]
        have a5: "agree_outside ?p 1 (disk (backend_ctx img5)) (disk (backend_ctx img1))"
          and on5: "image_on ops disk binv img5" by auto
        have s5: "slice_base img5 = ?b" "tmpfile_script img5 = []"
          using transaction_end_restores_outside [OF l3 on4 tx4 ag4 e False] base4 static_slots(1,2) [of img5 img4]
          by simp_all
        have B5: "?B img5"
          using on5 s5 agree_outside_trans [OF a5] B1 by (simp add: byte_inv_def)
        from write_finish_byte [OF _ fin] B5 off [OF B5] have "?B img6" by simp
        then show ?thesis using res by (simp add: byte_inv_def)
      qed
      show ?thesis
      proof (cases rc)
        case (Inl e0)
        obtain rc' img5 where e: "nextufs__transaction_end (Inl e0 :: errno + unit) img3 = (rc', img5)"
          by (cases "nextufs__transaction_end (Inl e0 :: errno + unit) img3")
        obtain f img6 where fin: "nextufs__write_finish (rc' \<noteq> Inl EUCLEAN) img5 = (f, img6)"
          by (cases "nextufs__write_finish (rc' \<noteq> Inl EUCLEAN) img5")
        have "r = (if f = Inr () then rc' else f)" "s' = s\<lparr>s_image := img6\<rparr>"
          using fm Inl e fin by (simp_all add: finish_one_shot_def)
        from rolled [OF e on3 refl agree_outside_refl sb3 fin this] show ?thesis .
      next
        case (Inr v)
        let ?img3 = "img3\<lparr>transaction := None\<rparr>"
        have B3: "byte_inv ops disk binv ?p ?b [] (disk (backend_ctx img3)) ?img3"
          using on3 sb3 by (simp add: byte_inv_def)
        have off3: "nat (state_off ?img3) = ?p" using sb3 by (simp add: state_off_def)
        obtain f1 img4 where f1: "nextufs__write_finish True ?img3 = (f1, img4)"
          by (cases "nextufs__write_finish True ?img3")
        let ?img4 = "img4\<lparr>transaction := transaction img3\<rparr>"
        from write_finish_byte [OF B3 [folded off3] f1]
        have B4: "byte_inv ops disk binv ?p ?b [] (disk (backend_ctx img3)) img4"
          and rc4: "f1 = Inr () \<Longrightarrow> \<not> restore_clean img4" using off3 by auto
        then have on4: "image_on ops disk binv ?img4" and ag4:
          "agree_outside ?p 1 (disk (backend_ctx ?img4)) (disk (backend_ctx img3))"
          and b4: "slice_base ?img4 = ?b" "tmpfile_script ?img4 = []" by (simp_all add: byte_inv_def)
        have tx4: "transaction ?img4 = transaction img3" by simp
        obtain rc' img5 where e: "nextufs__transaction_end f1 ?img4 = (rc', img5)"
          by (cases "nextufs__transaction_end f1 ?img4")
        obtain f img6 where fin: "nextufs__write_finish (rc' \<noteq> Inl EUCLEAN) img5 = (f, img6)"
          by (cases "nextufs__write_finish (rc' \<noteq> Inl EUCLEAN) img5")
        have res: "r = (if f = Inr () then rc' else f)" "s' = s\<lparr>s_image := img6\<rparr>"
          using fm Inr f1 e fin by (simp_all add: finish_one_shot_def)
        show ?thesis
        proof (cases f1)
          case (Inl e0)
          from rolled [OF e [unfolded Inl] on4 tx4 ag4 b4 fin res] show ?thesis .
        next
          case (Inr w)
          then have "rc' = Inr ()" "\<not> restore_clean img5"
            using e rc4 by (auto simp: nextufs__transaction_end_def split: option.splits)
          with fin res have "r = Inr ()" by (simp add: nextufs__write_finish_def io_defs)
          then show ?thesis ..
        qed
      qed
    qed
  qed
qed

lemma operation_atomic:
  assumes "w_session ctx" and "image_on ops disk binv (s_image s)" and "tmpfile_script (s_image s) = []"
    and "run_operation ctx ip oper s = (r, s')"
  shows "image_on ops disk binv (s_image s') \<and> tmpfile_script (s_image s') = [] \<and>
    (r = Inr () \<or> disk (backend_ctx (s_image s')) = disk (backend_ctx (s_image s)) \<or> s_failed s')"
proof -
  from operation_rolls_back [of ctx ip oper] assms(4) consider
      (early) e where "r = Inl e" "s' = s"
    | (body) body where "\<And>D. keeps (tx_inv ops disk binv D) body" "mutation ctx ip body s = (r, s')"
    unfolding rolls_back_def by (metis prod.inject)
  then show ?thesis
  proof cases
    case body
    from session_mutation [OF body(1) assms(1-3) body(2)] show ?thesis .
  qed (use assms in simp)
qed

end

section \<open>Runs of a write session\<close>

text \<open>One call of an operation in a session, with any credentials, and a sequence of calls.\<close>

inductive session_step ::
  "'c nextufs_write_session \<Rightarrow> errno + unit \<Rightarrow> 'c nextufs_write_session \<Rightarrow> bool" where
  call: "w_session ctx \<Longrightarrow> run_operation ctx ip oper s = (r, s') \<Longrightarrow> session_step s r s'"

inductive session_run ::
  "'c nextufs_write_session \<Rightarrow> (errno + unit) list \<Rightarrow> 'c nextufs_write_session \<Rightarrow> bool" where
  none: "session_run s [] s"
| next_call: "session_step s r s' \<Longrightarrow> session_run s' rs t \<Longrightarrow> session_run s (r # rs) t"

inductive_cases session_step_call: "session_step s r s'"

definition session_ok :: "nextufs_raw_backend nextufs_write_session \<Rightarrow> bool" where
  "session_ok s \<longleftrightarrow> raw_on (s_image s) \<and> tmpfile_script (s_image s) = []"

definition session_bytes :: "nextufs_raw_backend nextufs_write_session \<Rightarrow> byte list" where
  "session_bytes s = content (backend_ctx (s_image s))"

lemma operation_cases:
  assumes "run_operation ctx ip oper s = (r, s')"
  obtains e where "r = Inl e" and "s' = s"
  | body where "\<And>D. keeps (tx_inv nextufs_raw_backend_ops content (\<lambda>_. True) D) body"
      and "mutation ctx ip body s = (r, s')"
  using raw.operation_rolls_back [of ctx ip oper] assms unfolding rolls_back_def
  by (metis prod.inject)

lemma session_operation:
  assumes "w_session ctx" and "session_ok s" and "run_operation ctx ip oper s = (r, s')"
  shows "session_ok s' \<and> (r = Inr () \<or> session_bytes s' = session_bytes s \<or> s_failed s')"
  using raw.operation_atomic [OF assms(1) _ _ assms(3)] assms(2) by (simp add: session_ok_def session_bytes_def)

text \<open>
  C1. Every operation of the interface, called in a write session with any credentials and whatever
  the calls on the image, \<open>malloc\<close> and the clock give (those on the temporary file of the log succeed), either succeeds, or leaves every byte of the image as it was, or leaves
  the session marked as failed; the image stays open.
\<close>

theorem session_atomic:
  assumes "w_session ctx" and "session_ok s"
  shows "case run_operation ctx ip oper s of (r, s') \<Rightarrow>
    session_ok s' \<and> (r = Inr () \<or> session_bytes s' = session_bytes s \<or> s_failed s')"
  using session_operation [OF assms] by (auto split: prod.split)

definition sample_session :: "nextufs_raw_backend nextufs_write_session" where
  "sample_session = \<lparr>s_image = sample_image (replicate 32768 0), s_failed = False\<rparr>"

definition sample_ctx :: "bool \<Rightarrow> nextufs_write_ctx" where
  "sample_ctx in_session = \<lparr>w_policy = NEXTUFS_WRITE_USER, w_uid = 20, w_gid = 20, w_groups = [1], w_session = in_session\<rparr>"

lemma sample_session_ok: "session_ok sample_session"
  using sample_calm [of "replicate 32768 0"] by (simp add: session_ok_def sample_session_def calm_image_def)

theorem session_atomic_witness:
  "case run_operation (sample_ctx True) (Inr True) (Rename [slash, 97] [slash, 98]) sample_session of (r, s') \<Rightarrow>
    session_ok s' \<and> (r = Inr () \<or> session_bytes s' = session_bytes sample_session \<or> s_failed s')"
  by (rule session_atomic) (simp_all add: sample_ctx_def sample_session_ok)

text \<open>
  C2. Without a session, where an operation opens the image, marks it as being written and restores
  the mark, an operation that neither succeeds nor reports \<open>EUCLEAN\<close> leaves every byte of the image
  but the state byte as it was.
\<close>

theorem one_shot_atomic:
  assumes "\<not> w_session ctx" and "session_ok s"
  shows "case run_operation ctx ip oper s of (r, s') \<Rightarrow>
    r = Inr () \<or> r = Inl EUCLEAN \<or>
    agree_outside (nat (state_off (s_image s))) 1 (session_bytes s') (session_bytes s)"
proof -
  obtain r s' where r: "run_operation ctx ip oper s = (r, s')" by (cases "run_operation ctx ip oper s")
  then have "r = Inr () \<or> r = Inl EUCLEAN \<or>
    agree_outside (nat (state_off (s_image s))) 1 (session_bytes s') (session_bytes s)"
  proof (cases rule: operation_cases)
    case (2 body)
    from raw.one_shot_mutation [OF 2(1) assms(1) _ _ 2(2)] assms(2) show ?thesis
      by (simp add: session_ok_def session_bytes_def)
  qed simp
  with r show ?thesis by simp
qed

theorem one_shot_atomic_witness:
  "case run_operation (sample_ctx False) (Inr False) (Mkdir [slash, 97] 0x1ed) sample_session of (r, s') \<Rightarrow>
    r = Inr () \<or> r = Inl EUCLEAN \<or>
    agree_outside (nat (state_off (s_image sample_session))) 1 (session_bytes s') (session_bytes sample_session)"
  by (rule one_shot_atomic) (simp_all add: sample_ctx_def sample_session_ok)

lemma checked_cases: "(\<And>x. \<exists>e. f x s = (Inl e, s)) \<Longrightarrow> \<exists>e. checked c f s = (Inl e, s)"
  by (cases c) (auto simp: checked_def bind_io_def lift_res_def)

lemma failed_mutation: "w_session ctx \<Longrightarrow> s_failed s \<Longrightarrow> mutation ctx ip body s = (Inl EIO, s)"
  by (simp add: mutation_def bind_io_def nextufs__open_image_rw_def)

lemma frozen:
  assumes "w_session ctx" and "s_failed s"
  shows "\<exists>e. run_operation ctx ip oper s = (Inl e, s)"
  using failed_mutation [OF assms]
  by (cases oper)
    (auto simp: operation_defs intro!: checked_cases split: prod.split)

text \<open>
  C4. A session that is marked as failed is frozen: every later operation returns an error and
  touches neither the image nor the session.
\<close>

theorem failed_session_frozen:
  assumes "w_session ctx" and "s_failed s"
  shows "\<exists>e. run_operation ctx ip oper s = (Inl e, s)"
  by (rule frozen [OF assms])

theorem failed_session_frozen_witness:
  "\<exists>e. run_operation (sample_ctx True) (Inr True) (Unlink [slash, 97]) (sample_session\<lparr>s_failed := True\<rparr>) =
    (Inl e, sample_session\<lparr>s_failed := True\<rparr>)"
  by (rule failed_session_frozen) (simp_all add: sample_ctx_def)

lemma step_stays_failed: "session_step s r s' \<Longrightarrow> s_failed s \<Longrightarrow> s_failed s'"
  by (erule session_step_call) (metis frozen prod.inject)

lemma run_stays_failed: "session_run s rs t \<Longrightarrow> s_failed s \<Longrightarrow> s_failed t"
  by (induction rule: session_run.induct) (auto dest: step_stays_failed)

lemma run_keeps_session: "session_run s rs t \<Longrightarrow> session_ok s \<Longrightarrow> session_ok t"
  by (induction rule: session_run.induct) (auto elim!: session_step_call dest: session_operation)

text \<open>
  C3. In a run of any length in which no operation succeeded and the session is not marked as failed
  at the end, no byte of the image has changed.
\<close>

theorem errors_invisible:
  assumes "session_run s rs t" and "session_ok s" and "\<forall>r \<in> set rs. r \<noteq> Inr ()" and "\<not> s_failed t"
  shows "session_bytes t = session_bytes s"
  using assms
proof (induction rule: session_run.induct)
  case (next_call s r s' rs t)
  then have "\<not> s_failed s'" using run_stays_failed by blast
  with next_call show ?case by (auto elim!: session_step_call dest: session_operation)
qed simp

theorem errors_invisible_witness:
  "session_run sample_session [Inl ENOENT, Inl ENOENT] sample_session \<and> session_bytes sample_session = replicate 32768 0"
proof
  have "session_step sample_session (Inl ENOENT) sample_session"
    by (rule session_step.call [of "sample_ctx True" "Inl ENOENT" "Truncate [slash, 97] 3"])
      (simp_all add: sample_ctx_def operation_defs checked_def bind_io_def lift_res_def mutation_def
        nextufs__open_image_rw_def nextufs__require_ctx_ids_fit_def nextufs__id_fits_nextstep_def
        INT16_MAX_def sample_session_def)
  then show run: "session_run sample_session [Inl ENOENT, Inl ENOENT] sample_session"
    by (auto intro: session_run.intros)
  from errors_invisible [OF run sample_session_ok] have "session_bytes sample_session = session_bytes sample_session"
    by (simp add: sample_session_def)
  then show "session_bytes sample_session = replicate 32768 0" by (simp add: session_bytes_def sample_session_def)
qed

end
