(* ===== verification/Vdi_Backend.thy ===== *)
theory Vdi_Backend
  imports Atomicity
begin

text \<open>
  The VirtualBox backend of \<^verbatim>\<open>src/core/image.c\<close>: a block map over a host file, with an optional
  read-only parent image. The type parameter is the context of the parent's backend. The backend
  keeps the contract of \<open>backend\<close> over any parent that keeps it, so every property of an image over a
  plain file holds over a dynamic image, a differencing image, and a chain of them.
\<close>

section \<open>Data\<close>

definition VDI_SIGNATURE :: nat where "VDI_SIGNATURE = 0xbeda107f"
definition VDI_TYPE_DYNAMIC :: nat where "VDI_TYPE_DYNAMIC = 1"
definition VDI_TYPE_DIFF :: nat where "VDI_TYPE_DIFF = 4"
definition VDI_MAP_UNALLOCATED :: nat where "VDI_MAP_UNALLOCATED = 0xffffffff"
definition VDI_MAP_ZERO :: nat where "VDI_MAP_ZERO = 0xfffffffe"
definition VDI_SIG_OFF :: nat where "VDI_SIG_OFF = 0x40"
definition VDI_BLOCKS_ALLOC_OFF :: nat where "VDI_BLOCKS_ALLOC_OFF = 0x184"
definition VDI_UUID_PARENT_OFF :: nat where "VDI_UUID_PARENT_OFF = 0x1a8"

text \<open>
  \<open>has_parent\<close> and \<open>parent\<close> are one optional image; the last field is the environment, whether the
  next allocations succeed.
\<close>

record 'p nextufs_vdi_backend =
  v_fd :: hostfile
  v_image_type :: nat
  v_map_offset :: nat
  v_data_offset :: nat
  v_sector_size :: nat
  v_block_size :: nat
  v_block_extra :: nat
  v_block_count :: nat
  v_blocks_allocated :: nat
  v_disk_size :: nat
  v_block_map :: "nat list"
  v_image_uuid :: "byte list"
  v_parent_uuid :: "byte list"
  v_failed :: bool
  v_parent :: "'p nextufs_image option"
  v_mallocs :: "bool list"

definition vdi_fd_io :: "(hostfile, 'a) io \<Rightarrow> ('p nextufs_vdi_backend, 'a) io" where
  "vdi_fd_io m v = (case m (v_fd v) of (r, f) \<Rightarrow> (r, v\<lparr>v_fd := f\<rparr>))"

definition vdi_malloc :: "('p nextufs_vdi_backend, unit) io" where
  "vdi_malloc v =
     (case v_mallocs v of
        [] \<Rightarrow> (Inr (), v)
      | ok # rest \<Rightarrow> (if ok then Inr () else Inl ENOMEM, v\<lparr>v_mallocs := rest\<rparr>))"

definition vdi_parent_read :: "nat \<Rightarrow> nat \<Rightarrow> 'p nextufs_image \<Rightarrow> ('p nextufs_vdi_backend, byte list) io" where
  "vdi_parent_read n guest_off p v =
     (case nextufs__read_exact n (int guest_off) p of (r, p) \<Rightarrow> (r, v\<lparr>v_parent := Some p\<rparr>))"

section \<open>Reading\<close>

definition vdi_stride :: "'p nextufs_vdi_backend \<Rightarrow> nat" where
  "vdi_stride v = v_block_size v + v_block_extra v"

definition vdi_file_off :: "'p nextufs_vdi_backend \<Rightarrow> nat \<Rightarrow> nat \<Rightarrow> int" where
  "vdi_file_off v map_entry block_off =
     int (v_data_offset v) + int (map_entry * vdi_stride v) + int (v_block_extra v) + int block_off"

text \<open>The bytes of the parent at \<open>guest_off\<close>, with zeros behind its end.\<close>

definition vdi_inherited :: "nat \<Rightarrow> nat \<Rightarrow> ('p nextufs_vdi_backend, byte list) io" where
  "vdi_inherited chunk guest_off = bind_io get_io (\<lambda>v.
     case v_parent v of
       None \<Rightarrow> ret (replicate chunk 0)
     | Some p \<Rightarrow>
         let parent_size = of_off (image_size p) in
         if parent_size \<le> guest_off then ret (replicate chunk 0)
         else let parent_chunk = min chunk (parent_size - guest_off) in
           bind_io (vdi_parent_read parent_chunk guest_off p) (\<lambda>bs.
           ret (bs @ replicate (chunk - parent_chunk) 0)))"

definition vdi_read_chunk :: "nat \<Rightarrow> nat \<Rightarrow> nat \<Rightarrow> nat \<Rightarrow> ('p nextufs_vdi_backend, byte list) io" where
  "vdi_read_chunk guest_off block_index block_off chunk = bind_io get_io (\<lambda>v.
     let map_entry = v_block_map v ! block_index in
     if map_entry = VDI_MAP_UNALLOCATED then
       (\<lambda>v. case vdi_inherited chunk guest_off v of (Inl e, v) \<Rightarrow> (Inl EIO, v) | (Inr bs, v) \<Rightarrow> (Inr bs, v))
     else if map_entry = VDI_MAP_ZERO then ret (replicate chunk 0)
     else
       (\<lambda>v. case vdi_fd_io (nextufs__read_exact_fd chunk (vdi_file_off v map_entry block_off)) v of
          (Inl e, v) \<Rightarrow> (Inl EIO, v) | (Inr bs, v) \<Rightarrow> (Inr bs, v)))"

lemma chunk_progress:
  assumes "0 < (bs :: nat)" and "pos < n"
  shows "n - (pos + bs - g mod bs) < n - pos"
  using mod_less_divisor [OF assms(1), of g] assms(2) by linarith

text \<open>
  \<open>done\<close> of the source is \<open>pos\<close>. The open code refuses a block size of zero, for which the division
  would trap; the test keeps the loop defined.
\<close>

function vdi_read_loop :: "nat \<Rightarrow> nat \<Rightarrow> nat \<Rightarrow> byte list \<Rightarrow> ('p nextufs_vdi_backend, byte list) io" where
  "vdi_read_loop n offset pos out v =
     (if pos < n then
        let guest_off = offset + pos;
            block_index = u32 (guest_off div v_block_size v);
            block_off = guest_off mod v_block_size v;
            chunk = min (v_block_size v - block_off) (n - pos) in
        if v_block_size v = 0 \<or> v_block_count v \<le> block_index then (Inl EIO, v)
        else case vdi_read_chunk guest_off block_index block_off chunk v of
          (Inl e, v) \<Rightarrow> (Inl e, v)
        | (Inr bs, v) \<Rightarrow> vdi_read_loop n offset (pos + chunk) (out @ bs) v
      else (Inr out, v))"
  by pat_completeness auto
termination
  by (relation "measure (\<lambda>(n, offset, pos, out, v). n - pos)") (auto simp: min_def chunk_progress)

declare vdi_read_loop.simps [simp del]

definition nextufs_vdi_backend_read :: "nat \<Rightarrow> int \<Rightarrow> ('p nextufs_vdi_backend, byte list) io" where
  "nextufs_vdi_backend_read n offset v =
     (if offset < 0 \<or> v_disk_size v < nat offset \<or> v_disk_size v - nat offset < n then (Inl EIO, v)
      else vdi_read_loop n (nat offset) 0 [] v)"

section \<open>Writing\<close>

definition nextufs_vdi_write_le32 :: "int \<Rightarrow> nat \<Rightarrow> (hostfile, unit) io" where
  "nextufs_vdi_write_le32 off v = nextufs__write_exact_fd (le32_bytes v) off"

text \<open>
  The count is published before the map entry that refers to it, and both are put back when one of
  the writes fails.
\<close>

definition vdi_publish :: "nat \<Rightarrow> nat \<Rightarrow> nat \<Rightarrow> ('p nextufs_vdi_backend, unit) io" where
  "vdi_publish block_index map_entry new_entry v =
     (let map_off = int (v_map_offset v) + int block_index * 4 in
      case vdi_fd_io (bind_io (nextufs_vdi_write_le32 (int VDI_BLOCKS_ALLOC_OFF) (new_entry + 1))
             (\<lambda>_. nextufs_vdi_write_le32 map_off new_entry)) v of
        (Inr _, v) \<Rightarrow> (Inr (), v\<lparr>v_block_map := (v_block_map v)[block_index := new_entry],
                             v_blocks_allocated := v_blocks_allocated v + 1\<rparr>)
      | (Inl e, v) \<Rightarrow>
          (case vdi_fd_io (nextufs_vdi_write_le32 map_off map_entry) v of (map_rc, v) \<Rightarrow>
           (case vdi_fd_io (nextufs_vdi_write_le32 (int VDI_BLOCKS_ALLOC_OFF) (v_blocks_allocated v)) v of
              (count_rc, v) \<Rightarrow>
                if map_rc \<noteq> Inr () \<or> count_rc \<noteq> Inr () then (Inl EUCLEAN, v\<lparr>v_failed := True\<rparr>)
                else (Inl e, v))))"

definition nextufs_vdi_materialize_block :: "nat \<Rightarrow> ('p nextufs_vdi_backend, unit) io" where
  "nextufs_vdi_materialize_block block_index = bind_io get_io (\<lambda>v.
     let map_entry = v_block_map v ! block_index; new_entry = v_blocks_allocated v;
         block_file_off = int (v_data_offset v) + int (new_entry * vdi_stride v) in
     if map_entry \<noteq> VDI_MAP_UNALLOCATED \<and> map_entry \<noteq> VDI_MAP_ZERO then ret ()
     else if v_block_count v \<le> v_blocks_allocated v then fail ENOSPC
     else bind_io vdi_malloc (\<lambda>_.
       bind_io (if map_entry = VDI_MAP_UNALLOCATED
                then vdi_inherited (v_block_size v) (block_index * v_block_size v)
                else ret (replicate (v_block_size v) 0)) (\<lambda>block_buf.
       bind_io (if v_block_extra v \<noteq> 0
                then bind_io vdi_malloc (\<lambda>_.
                  vdi_fd_io (nextufs__write_exact_fd (replicate (v_block_extra v) 0) block_file_off))
                else ret ()) (\<lambda>_.
       bind_io (vdi_fd_io (nextufs__write_exact_fd block_buf (block_file_off + int (v_block_extra v)))) (\<lambda>_.
       vdi_publish block_index map_entry new_entry)))))"

function vdi_write_loop :: "byte list \<Rightarrow> nat \<Rightarrow> nat \<Rightarrow> ('p nextufs_vdi_backend, unit) io" where
  "vdi_write_loop buf offset pos v =
     (if pos < length buf then
        let guest_off = offset + pos;
            block_index = u32 (guest_off div v_block_size v);
            block_off = guest_off mod v_block_size v;
            chunk = min (v_block_size v - block_off) (length buf - pos) in
        if v_block_size v = 0 \<or> v_block_count v \<le> block_index then (Inl EIO, v)
        else case nextufs_vdi_materialize_block block_index v of
          (Inl e, v) \<Rightarrow> (Inl e, v)
        | (Inr _, v) \<Rightarrow>
            let map_entry = v_block_map v ! block_index in
            if map_entry = VDI_MAP_UNALLOCATED \<or> map_entry = VDI_MAP_ZERO then (Inl EIO, v)
            else case vdi_fd_io (nextufs__write_exact_fd (bytes_at pos chunk buf)
                   (vdi_file_off v map_entry block_off)) v of
              (Inl e, v) \<Rightarrow> (Inl e, v)
            | (Inr _, v) \<Rightarrow> vdi_write_loop buf offset (pos + chunk) v
      else (Inr (), v))"
  by pat_completeness auto
termination
  by (relation "measure (\<lambda>(buf, offset, pos, v). length buf - pos)") (auto simp: min_def chunk_progress)

declare vdi_write_loop.simps [simp del]

definition nextufs_vdi_backend_write :: "byte list \<Rightarrow> int \<Rightarrow> ('p nextufs_vdi_backend, unit) io" where
  "nextufs_vdi_backend_write buf offset v =
     (if v_failed v then (Inl EUCLEAN, v)
      else if offset < 0 \<or> v_disk_size v < nat offset \<or> v_disk_size v - nat offset < length buf
      then (Inl EIO, v)
      else vdi_write_loop buf (nat offset) 0 v)"

definition nextufs_vdi_backend_fsync :: "('p nextufs_vdi_backend, unit) io" where
  "nextufs_vdi_backend_fsync = vdi_fd_io fsync_fd"

definition nextufs_vdi_backend_ops :: "'p nextufs_vdi_backend nextufs_image_backend_ops" where
  "nextufs_vdi_backend_ops = \<lparr>op_read = Some nextufs_vdi_backend_read,
     op_write = Some nextufs_vdi_backend_write, op_fsync = Some nextufs_vdi_backend_fsync\<rparr>"

section \<open>The guest disk\<close>

text \<open>What the guest sees at a position: a byte of the file, of the parent, or zero.\<close>

definition parent_byte :: "('p \<Rightarrow> byte list) \<Rightarrow> 'p nextufs_vdi_backend \<Rightarrow> nat \<Rightarrow> byte" where
  "parent_byte pdisk v i =
     (case v_parent v of
        None \<Rightarrow> 0
      | Some p \<Rightarrow> if i < length (pdisk (backend_ctx p)) then pdisk (backend_ctx p) ! i else 0)"

definition vdi_byte :: "('p \<Rightarrow> byte list) \<Rightarrow> 'p nextufs_vdi_backend \<Rightarrow> nat \<Rightarrow> byte" where
  "vdi_byte pdisk v i =
     (let map_entry = v_block_map v ! (i div v_block_size v) in
      if map_entry = VDI_MAP_UNALLOCATED then parent_byte pdisk v i
      else if map_entry = VDI_MAP_ZERO then 0
      else content (v_fd v) ! nat (vdi_file_off v map_entry (i mod v_block_size v)))"

definition vdi_disk :: "('p \<Rightarrow> byte list) \<Rightarrow> 'p nextufs_vdi_backend \<Rightarrow> byte list" where
  "vdi_disk pdisk v = map (vdi_byte pdisk v) [0..<v_disk_size v]"

text \<open>The geometry and the block map that the open code accepts.\<close>

definition vdi_geometry :: "'p nextufs_vdi_backend \<Rightarrow> bool" where
  "vdi_geometry v \<longleftrightarrow> 0 < v_block_size v \<and> length (v_block_map v) = v_block_count v \<and>
     v_block_count v = (v_disk_size v + v_block_size v - 1) div v_block_size v \<and>
     v_block_count v \<le> 2 ^ 24 \<and> v_disk_size v < 2 ^ 63 \<and> VDI_BLOCKS_ALLOC_OFF + 4 \<le> v_map_offset v \<and>
     v_map_offset v + 4 * v_block_count v \<le> v_data_offset v \<and> v_blocks_allocated v \<le> v_block_count v"

definition map_special :: "nat \<Rightarrow> bool" where
  "map_special e \<longleftrightarrow> e = VDI_MAP_UNALLOCATED \<or> e = VDI_MAP_ZERO"

definition vdi_map_ok :: "'p nextufs_vdi_backend \<Rightarrow> bool" where
  "vdi_map_ok v \<longleftrightarrow> (\<forall>i < v_block_count v. \<not> map_special (v_block_map v ! i) \<longrightarrow>
     v_block_map v ! i < v_blocks_allocated v \<and>
     (\<forall>j < v_block_count v. v_block_map v ! j = v_block_map v ! i \<longrightarrow> j = i))"

definition vdi_data_end :: "'p nextufs_vdi_backend \<Rightarrow> nat" where
  "vdi_data_end v = v_data_offset v + v_blocks_allocated v * vdi_stride v"

definition vdi_inv ::
  "'p nextufs_image_backend_ops \<Rightarrow> ('p \<Rightarrow> byte list) \<Rightarrow> ('p \<Rightarrow> bool) \<Rightarrow> 'p nextufs_vdi_backend \<Rightarrow> bool" where
  "vdi_inv pops pdisk pinv v \<longleftrightarrow> vdi_geometry v \<and> vdi_map_ok v \<and>
     vdi_data_end v \<le> length (content (v_fd v)) \<and>
     (\<forall>p. v_parent v = Some p \<longrightarrow> image_on pops pdisk pinv p)"

lemma length_vdi_disk [simp]: "length (vdi_disk pdisk v) = v_disk_size v"
  by (simp add: vdi_disk_def)

lemma nth_vdi_disk [simp]: "i < v_disk_size v \<Longrightarrow> vdi_disk pdisk v ! i = vdi_byte pdisk v i"
  by (simp add: vdi_disk_def)

text \<open>Where the block of a guest position starts in the file.\<close>

lemma vdi_file_off_nat: "nat (vdi_file_off v e k) = v_data_offset v + e * vdi_stride v + v_block_extra v + k"
  by (simp add: vdi_file_off_def nat_add_distrib nat_mult_distrib)

lemma vdi_block_of:
  assumes "vdi_geometry v" and "i < v_disk_size v"
  shows "i div v_block_size v < v_block_count v" and "u32 (i div v_block_size v) = i div v_block_size v"
proof -
  have bs: "0 < v_block_size v" using assms(1) by (simp add: vdi_geometry_def)
  have "i div v_block_size v < (v_disk_size v + v_block_size v - 1) div v_block_size v"
  proof -
    have "i + v_block_size v \<le> v_disk_size v + v_block_size v - 1" using assms(2) by simp
    then have "(i + v_block_size v) div v_block_size v \<le> (v_disk_size v + v_block_size v - 1) div v_block_size v"
      by (rule div_le_mono)
    moreover have "(i + v_block_size v) div v_block_size v = Suc (i div v_block_size v)"
      using div_add_self2 [of "v_block_size v" i] bs by linarith
    ultimately show ?thesis by linarith
  qed
  then show lt: "i div v_block_size v < v_block_count v" using assms(1) by (simp add: vdi_geometry_def)
  have "v_block_count v \<le> 2 ^ 24" using assms(1) by (simp add: vdi_geometry_def)
  with lt show "u32 (i div v_block_size v) = i div v_block_size v" by simp
qed

lemma used_entry_room:
  assumes "e < v_blocks_allocated v" and "k < v_block_size v"
  shows "v_data_offset v + e * vdi_stride v + v_block_extra v + k < vdi_data_end v"
proof -
  have "(e + 1) * vdi_stride v \<le> v_blocks_allocated v * vdi_stride v"
    using assms(1) by (intro mult_le_mono1) simp
  with assms(2) show ?thesis by (simp add: vdi_data_end_def vdi_stride_def algebra_simps)
qed

section \<open>Steps that the guest does not see\<close>

text \<open>
  Only the file outside the area of the allocated blocks, the parent's context and the environment
  have changed.
\<close>

definition parent_hidden ::
  "'p nextufs_image_backend_ops \<Rightarrow> ('p \<Rightarrow> byte list) \<Rightarrow> ('p \<Rightarrow> bool) \<Rightarrow>
   'p nextufs_image option \<Rightarrow> 'p nextufs_image option \<Rightarrow> bool" where
  "parent_hidden pops pdisk pinv p p' \<longleftrightarrow>
     (case p of None \<Rightarrow> p' = None
      | Some q \<Rightarrow> (\<exists>q'. p' = Some q' \<and> (image_on pops pdisk pinv q \<longrightarrow> image_on pops pdisk pinv q' \<and>
          image_size q' = image_size q \<and> pdisk (backend_ctx q') = pdisk (backend_ctx q))))"

lemma parent_hidden_refl [simp]: "parent_hidden pops pdisk pinv p p"
  by (auto simp: parent_hidden_def split: option.splits)

lemma parent_hidden_trans:
  "parent_hidden pops pdisk pinv p q \<Longrightarrow> parent_hidden pops pdisk pinv q r \<Longrightarrow> parent_hidden pops pdisk pinv p r"
  by (auto simp: parent_hidden_def split: option.splits)

definition vdi_hidden ::
  "'p nextufs_image_backend_ops \<Rightarrow> ('p \<Rightarrow> byte list) \<Rightarrow> ('p \<Rightarrow> bool) \<Rightarrow>
   'p nextufs_vdi_backend \<Rightarrow> 'p nextufs_vdi_backend \<Rightarrow> bool" where
  "vdi_hidden pops pdisk pinv v v' \<longleftrightarrow>
     (\<exists>f p ms b. v' = v\<lparr>v_fd := f, v_parent := p, v_mallocs := ms, v_failed := b\<rparr> \<and>
        length (content (v_fd v)) \<le> length (content f) \<and>
        (\<forall>k. v_data_offset v \<le> k \<and> k < vdi_data_end v \<longrightarrow> content f ! k = content (v_fd v) ! k) \<and>
        parent_hidden pops pdisk pinv (v_parent v) p)"

lemma vdi_hidden_refl [simp]: "vdi_hidden pops pdisk pinv v v"
  unfolding vdi_hidden_def
  by (intro exI [of _ "v_fd v"] exI [of _ "v_parent v"] exI [of _ "v_mallocs v"] exI [of _ "v_failed v"])
    (auto split: option.splits)

lemma vdi_data_end_update [simp]:
  "vdi_data_end (v\<lparr>v_fd := f, v_parent := p, v_mallocs := ms, v_failed := b\<rparr>) = vdi_data_end v"
  by (simp add: vdi_data_end_def vdi_stride_def)

lemma vdi_hidden_fields:
  assumes "vdi_hidden pops pdisk pinv v v'"
  shows "v_block_map v' = v_block_map v" and "v_block_size v' = v_block_size v"
    and "v_block_count v' = v_block_count v" and "v_blocks_allocated v' = v_blocks_allocated v"
    and "v_disk_size v' = v_disk_size v" and "v_data_offset v' = v_data_offset v"
    and "v_map_offset v' = v_map_offset v" and "v_block_extra v' = v_block_extra v"
    and "vdi_stride v' = vdi_stride v" and "vdi_data_end v' = vdi_data_end v"
  using assms by (auto simp: vdi_hidden_def vdi_stride_def)

lemma vdi_hidden_trans:
  assumes "vdi_hidden pops pdisk pinv u v" and "vdi_hidden pops pdisk pinv v w"
  shows "vdi_hidden pops pdisk pinv u w"
proof -
  from assms(1) obtain f p ms b where u: "v = u\<lparr>v_fd := f, v_parent := p, v_mallocs := ms, v_failed := b\<rparr>"
    "length (content (v_fd u)) \<le> length (content f)"
    "\<forall>k. v_data_offset u \<le> k \<and> k < vdi_data_end u \<longrightarrow> content f ! k = content (v_fd u) ! k"
    "parent_hidden pops pdisk pinv (v_parent u) p"
    unfolding vdi_hidden_def by blast
  from assms(2) obtain g q ns c where w: "w = v\<lparr>v_fd := g, v_parent := q, v_mallocs := ns, v_failed := c\<rparr>"
    "length (content (v_fd v)) \<le> length (content g)"
    "\<forall>k. v_data_offset v \<le> k \<and> k < vdi_data_end v \<longrightarrow> content g ! k = content (v_fd v) ! k"
    "parent_hidden pops pdisk pinv (v_parent v) q"
    unfolding vdi_hidden_def by blast
  show ?thesis
    unfolding vdi_hidden_def
  proof (intro exI conjI)
    show "w = u\<lparr>v_fd := g, v_parent := q, v_mallocs := ns, v_failed := c\<rparr>" using u(1) w(1) by simp
    show "length (content (v_fd u)) \<le> length (content g)" using u(1,2) w(2) by simp
    show "\<forall>k. v_data_offset u \<le> k \<and> k < vdi_data_end u \<longrightarrow> content g ! k = content (v_fd u) ! k"
      using u(1,3) w(3) by simp
    show "parent_hidden pops pdisk pinv (v_parent u) q"
      using u(1) w(4) by (intro parent_hidden_trans [OF u(4)]) simp
  qed
qed

lemma vdi_hidden_parent: "vdi_hidden pops pdisk pinv v v' \<Longrightarrow> parent_hidden pops pdisk pinv (v_parent v) (v_parent v')"
  by (auto simp: vdi_hidden_def)

lemma hidden_parent_byte:
  assumes "vdi_hidden pops pdisk pinv v v'" and "vdi_inv pops pdisk pinv v"
  shows "parent_byte pdisk v' i = parent_byte pdisk v i"
proof (cases "v_parent v")
  case (Some p)
  with assms(2) have "image_on pops pdisk pinv p" by (simp add: vdi_inv_def)
  with vdi_hidden_parent [OF assms(1)] Some show ?thesis by (auto simp: parent_hidden_def parent_byte_def)
qed (use vdi_hidden_parent [OF assms(1)] in \<open>simp add: parent_hidden_def parent_byte_def\<close>)

lemma hidden_inv:
  assumes "vdi_hidden pops pdisk pinv v v'" and "vdi_inv pops pdisk pinv v"
  shows "vdi_inv pops pdisk pinv v'"
proof -
  note f = vdi_hidden_fields [OF assms(1)]
  have "vdi_geometry v'" "vdi_map_ok v'"
    using assms(2) by (simp_all add: vdi_inv_def vdi_geometry_def vdi_map_ok_def f)
  moreover have "vdi_data_end v' \<le> length (content (v_fd v'))"
    using assms by (auto simp: vdi_inv_def vdi_hidden_def)
  moreover have "image_on pops pdisk pinv p" if "v_parent v' = Some p" for p
    using vdi_hidden_parent [OF assms(1)] assms(2) that
    by (cases "v_parent v") (auto simp: vdi_inv_def parent_hidden_def)
  ultimately show ?thesis by (simp add: vdi_inv_def)
qed

lemma hidden_byte:
  assumes "vdi_hidden pops pdisk pinv v v'" and "vdi_inv pops pdisk pinv v" and "i < v_disk_size v"
  shows "vdi_byte pdisk v' i = vdi_byte pdisk v i"
proof -
  note f = vdi_hidden_fields [OF assms(1)]
  let ?e = "v_block_map v ! (i div v_block_size v)"
  have g: "vdi_geometry v" "vdi_map_ok v" using assms(2) by (simp_all add: vdi_inv_def)
  have "content (v_fd v') ! nat (vdi_file_off v' ?e (i mod v_block_size v)) =
      content (v_fd v) ! nat (vdi_file_off v ?e (i mod v_block_size v))" if "\<not> map_special ?e"
  proof -
    have "?e < v_blocks_allocated v" using that g(2) vdi_block_of(1) [OF g(1) assms(3)] by (simp add: vdi_map_ok_def)
    from used_entry_room [OF this, of "i mod v_block_size v"] g(1) assms(1) show ?thesis
      by (auto simp: vdi_hidden_def vdi_file_off_nat f vdi_geometry_def)
  qed
  then show ?thesis
    using hidden_parent_byte [OF assms(1,2), of i] by (simp add: vdi_byte_def Let_def f map_special_def)
qed

lemma hidden_disk:
  "vdi_hidden pops pdisk pinv v v' \<Longrightarrow> vdi_inv pops pdisk pinv v \<Longrightarrow> vdi_disk pdisk v' = vdi_disk pdisk v"
  using hidden_byte vdi_hidden_fields(5) by (intro nth_equalityI) fastforce+

text \<open>The accesses that are hidden.\<close>

lemma nth_file_put:
  "i < length xs \<Longrightarrow> i < off \<or> off + length bs \<le> i \<Longrightarrow> file_put off bs xs ! i = xs ! i"
  by (cases "i < off") (auto simp: file_put_def overlay_def nth_append min_def)

lemma hidden_fdI:
  assumes "length (content (v_fd v)) \<le> length (content f)"
    and "\<And>k. v_data_offset v \<le> k \<Longrightarrow> k < vdi_data_end v \<Longrightarrow> content f ! k = content (v_fd v) ! k"
  shows "vdi_hidden pops pdisk pinv v (v\<lparr>v_fd := f\<rparr>)"
  unfolding vdi_hidden_def
  by (intro exI [of _ f] exI [of _ "v_parent v"] exI [of _ "v_mallocs v"] exI [of _ "v_failed v"])
    (use assms in auto)

lemma hidden_failed: "vdi_hidden pops pdisk pinv v (v\<lparr>v_failed := b\<rparr>)"
  unfolding vdi_hidden_def
  by (intro exI [of _ "v_fd v"] exI [of _ "v_parent v"] exI [of _ "v_mallocs v"] exI [of _ b]) auto

lemma hidden_malloc: "vdi_malloc v = (r, v') \<Longrightarrow> vdi_hidden pops pdisk pinv v v' \<and> v_fd v' = v_fd v"
  unfolding vdi_hidden_def
  by (intro conjI exI [of _ "v_fd v"] exI [of _ "v_parent v"] exI [of _ "v_mallocs v'"] exI [of _ "v_failed v"])
    (auto simp: vdi_malloc_def split: list.splits)

lemma hidden_fd_read:
  "vdi_fd_io (nextufs__read_exact_fd n off) v = (r, v') \<Longrightarrow>
   vdi_hidden pops pdisk pinv v v' \<and> content (v_fd v') = content (v_fd v) \<and>
   (\<forall>bs. r = Inr bs \<longrightarrow> bs = bytes_at (nat off) n (content (v_fd v)) \<and> length bs = n)"
  by (auto simp: vdi_fd_io_def split: prod.splits intro!: hidden_fdI dest: read_exact_fd_Inr
      dest: read_exact_fd_content)

text \<open>A write to the header, to the map, or behind the allocated blocks.\<close>

definition off_data :: "'p nextufs_vdi_backend \<Rightarrow> int \<Rightarrow> nat \<Rightarrow> bool" where
  "off_data v off n \<longleftrightarrow> 0 \<le> off \<and> (nat off + n \<le> v_data_offset v \<or> vdi_data_end v \<le> nat off)"

lemma hidden_fd_write:
  assumes "vdi_fd_io (nextufs__write_exact_fd bs off) v = (r, v')" and "off_data v off (length bs)"
    and "vdi_data_end v \<le> length (content (v_fd v))"
  shows "vdi_hidden pops pdisk pinv v v' \<and> (\<exists>k \<le> length bs. (r = Inr () \<longrightarrow> k = length bs) \<and>
      content (v_fd v') = file_put (nat off) (take k bs) (content (v_fd v)))"
proof -
  obtain f where f: "nextufs__write_exact_fd bs off (v_fd v) = (r, f)" and v': "v' = v\<lparr>v_fd := f\<rparr>"
    using assms(1) by (auto simp: vdi_fd_io_def split: prod.splits)
  from write_exact_fd_effect [OF f] obtain k where
    k: "k \<le> length bs" "r = Inr () \<longrightarrow> k = length bs"
      "content f = file_put (nat off) (take k bs) (content (v_fd v))" by blast
  have "vdi_hidden pops pdisk pinv v v'"
    unfolding v'
  proof (rule hidden_fdI)
    show "length (content (v_fd v)) \<le> length (content f)" by (simp add: k(3) length_file_put)
    fix j
    assume j: "v_data_offset v \<le> j" "j < vdi_data_end v"
    show "content f ! j = content (v_fd v) ! j"
      unfolding k(3) using j assms(2,3) k(1) by (intro nth_file_put) (auto simp: off_data_def)
  qed
  with k v' show ?thesis by auto
qed

text \<open>Reading the parent.\<close>

context backend
begin

lemma hidden_parent_read:
  assumes "v_parent v = Some p" and "image_on ops disk binv p" and "vdi_parent_read n g p v = (r, v')"
  shows "vdi_hidden ops disk binv v v' \<and> v_fd v' = v_fd v \<and>
    (\<forall>bs. r = Inr bs \<longrightarrow> bs = bytes_at g n (disk (backend_ctx p)) \<and> g + n \<le> length (disk (backend_ctx p)))"
proof -
  obtain p' where p': "nextufs__read_exact n (int g) p = (r, p')" and v': "v' = v\<lparr>v_parent := Some p'\<rparr>"
    using assms(3) by (auto simp: vdi_parent_read_def split: prod.splits)
  from read_exact_effect [OF assms(2) p'] have e: "image_on ops disk binv p'"
    "disk (backend_ctx p') = disk (backend_ctx p)" "static p' = static p"
    "\<forall>bs. r = Inr bs \<longrightarrow> bs = bytes_at g n (disk (backend_ctx p)) \<and> g + n \<le> length (disk (backend_ctx p))"
    by auto
  have "image_size p' = image_size p" using e assms(2) by (simp add: image_on_def)
  with e have "vdi_hidden ops disk binv v v'"
    unfolding vdi_hidden_def v'
    by (intro exI [of _ "v_fd v"] exI [of _ "Some p'"] exI [of _ "v_mallocs v"] exI [of _ "v_failed v"])
      (simp add: assms(1) parent_hidden_def)
  with e v' show ?thesis by simp
qed

lemma vdi_inherited_effect:
  assumes "vdi_inv ops disk binv v" and "vdi_inherited chunk g v = (r, v')"
  shows "vdi_hidden ops disk binv v v' \<and> v_fd v' = v_fd v \<and>
    (\<forall>bs. r = Inr bs \<longrightarrow> bs = map (\<lambda>j. parent_byte disk v (g + j)) [0..<chunk])"
proof (cases "v_parent v")
  case None
  with assms(2) show ?thesis
    by (auto simp: vdi_inherited_def io_defs parent_byte_def map_replicate_const)
next
  case (Some p)
  then have on: "image_on ops disk binv p" using assms(1) by (simp add: vdi_inv_def)
  let ?d = "disk (backend_ctx p)"
  have sz: "of_off (image_size p) = length ?d" using image_onD(3) [OF on] .
  show ?thesis
  proof (cases "length ?d \<le> g")
    case True
    have "map (\<lambda>j. parent_byte disk v (g + j)) [0..<chunk] = replicate chunk 0"
      using True Some by (intro nth_equalityI) (auto simp: parent_byte_def)
    with True assms(2) Some sz show ?thesis by (auto simp: vdi_inherited_def io_defs)
  next
    case False
    let ?n = "min chunk (length ?d - g)"
    obtain q v1 where q: "vdi_parent_read ?n g p v = (q, v1)" by (cases "vdi_parent_read ?n g p v")
    from hidden_parent_read [OF Some on q] have e: "vdi_hidden ops disk binv v v1" "v_fd v1 = v_fd v"
      "\<forall>bs. q = Inr bs \<longrightarrow> bs = bytes_at g ?n ?d" by auto
    have "bytes_at g ?n ?d @ replicate (chunk - ?n) 0 = map (\<lambda>j. parent_byte disk v (g + j)) [0..<chunk]"
      using False Some by (intro nth_equalityI) (auto simp: parent_byte_def nth_append)
    with assms(2) False Some sz q e show ?thesis
      by (cases q) (auto simp: vdi_inherited_def io_defs Let_def)
  qed
qed

end

text \<open>The positions of a chunk of one block.\<close>

lemma chunk_positions:
  assumes "j < min (bs - g mod bs) n" and "0 < (bs :: nat)"
  shows "(g + j) div bs = g div bs" and "(g + j) mod bs = g mod bs + j"
proof -
  have "g mod bs + j < bs" using assms(1) mod_less_divisor [OF assms(2), of g] by linarith
  moreover have "g + j = g div bs * bs + (g mod bs + j)" by (simp add: algebra_simps)
  ultimately show "(g + j) div bs = g div bs" "(g + j) mod bs = g mod bs + j"
    using assms(2) by (metis div_mult_self3 div_less add.right_neutral less_imp_neq neq0_conv,
      metis mod_mult_self3 mod_less)
qed

section \<open>Reading the guest disk\<close>

lemma map_marks [simp]: "VDI_MAP_ZERO \<noteq> VDI_MAP_UNALLOCATED" "VDI_MAP_UNALLOCATED \<noteq> VDI_MAP_ZERO"
  by (simp_all add: VDI_MAP_ZERO_def VDI_MAP_UNALLOCATED_def)

lemma map_upt_add: "map f [0..<m] @ map (\<lambda>j. f (m + j)) [0..<k] = map f [0..<m + k]"
  by (induction k) simp_all

context backend
begin

lemma vdi_read_chunk_effect:
  assumes "vdi_inv ops disk binv v" and "g < v_disk_size v" and "0 < n"
    and "chunk = min (v_block_size v - g mod v_block_size v) n" and "g + chunk \<le> v_disk_size v"
    and "vdi_read_chunk g (g div v_block_size v) (g mod v_block_size v) chunk v = (r, v')"
  shows "vdi_hidden ops disk binv v v' \<and>
    (\<forall>bs. r = Inr bs \<longrightarrow> bs = map (\<lambda>j. vdi_byte disk v (g + j)) [0..<chunk])"
proof -
  let ?e = "v_block_map v ! (g div v_block_size v)"
  have geo: "vdi_geometry v" "vdi_map_ok v" "0 < v_block_size v"
    using assms(1) by (simp_all add: vdi_inv_def vdi_geometry_def)
  have pos: "(g + j) div v_block_size v = g div v_block_size v"
    "(g + j) mod v_block_size v = g mod v_block_size v + j" if "j < chunk" for j
    using chunk_positions [of j "v_block_size v" g n] that assms(4) geo(3) by auto
  consider (parent) "?e = VDI_MAP_UNALLOCATED" | (zero) "?e = VDI_MAP_ZERO"
    | (used) "\<not> map_special ?e" by (auto simp: map_special_def)
  then show ?thesis
  proof cases
    case parent
    obtain q v1 where q: "vdi_inherited chunk g v = (q, v1)" by (cases "vdi_inherited chunk g v")
    have "map (\<lambda>j. vdi_byte disk v (g + j)) [0..<chunk] = map (\<lambda>j. parent_byte disk v (g + j)) [0..<chunk]"
      using pos parent by (simp add: vdi_byte_def)
    with vdi_inherited_effect [OF assms(1) q] assms(6) parent q show ?thesis
      by (cases q) (auto simp: vdi_read_chunk_def io_defs)
  next
    case zero
    have "map (\<lambda>j. vdi_byte disk v (g + j)) [0..<chunk] = replicate chunk 0"
      using pos zero by (intro nth_equalityI) (auto simp: vdi_byte_def)
    with assms(6) zero show ?thesis by (auto simp: vdi_read_chunk_def io_defs)
  next
    case used
    let ?off = "vdi_file_off v ?e (g mod v_block_size v)"
    obtain q v1 where q: "vdi_fd_io (nextufs__read_exact_fd chunk ?off) v = (q, v1)"
      by (cases "vdi_fd_io (nextufs__read_exact_fd chunk ?off) v")
    have "bytes_at (nat ?off) chunk (content (v_fd v)) = map (\<lambda>j. vdi_byte disk v (g + j)) [0..<chunk]"
      if "length (bytes_at (nat ?off) chunk (content (v_fd v))) = chunk"
    proof (intro nth_equalityI)
      fix j
      assume j: "j < length (bytes_at (nat ?off) chunk (content (v_fd v)))"
      then have "j < chunk" using that by simp
      moreover have "bytes_at (nat ?off) chunk (content (v_fd v)) ! j = content (v_fd v) ! (nat ?off + j)"
        using \<open>j < chunk\<close> j by (simp add: bytes_at_def)
      ultimately show "bytes_at (nat ?off) chunk (content (v_fd v)) ! j = map (\<lambda>j. vdi_byte disk v (g + j)) [0..<chunk] ! j"
        using used pos by (simp add: vdi_byte_def map_special_def vdi_file_off_nat add.assoc)
    qed (use that in simp)
    with hidden_fd_read [OF q, of ops disk binv] assms(6) used q show ?thesis
      by (cases q) (auto simp: vdi_read_chunk_def io_defs map_special_def)
  qed
qed

lemma vdi_read_loop_effect:
  assumes "vdi_read_loop n off pos out v = (r, v')" and "vdi_inv ops disk binv v"
    and "off + n \<le> v_disk_size v" and "pos \<le> n" and "out = map (\<lambda>j. vdi_byte disk v (off + j)) [0..<pos]"
  shows "vdi_hidden ops disk binv v v' \<and>
    (\<forall>bs. r = Inr bs \<longrightarrow> bs = map (\<lambda>j. vdi_byte disk v (off + j)) [0..<n])"
  using assms
proof (induction n off pos out v arbitrary: r v' rule: vdi_read_loop.induct)
  case (1 n off pos out v)
  show ?case
  proof (cases "pos < n")
    case False
    with "1.prems" show ?thesis by (auto simp: vdi_read_loop.simps)
  next
    case True
    let ?bs = "v_block_size v"
    let ?g = "off + pos"
    let ?chunk = "min (?bs - ?g mod ?bs) (n - pos)"
    have geo: "vdi_geometry v" "0 < ?bs" using "1.prems"(2) by (simp_all add: vdi_inv_def vdi_geometry_def)
    have g: "?g < v_disk_size v" using True "1.prems"(3) by simp
    note b = vdi_block_of [OF geo(1) g]
    have le: "pos + ?chunk \<le> n" using True by simp
    obtain q v1 where q: "vdi_read_chunk ?g (?g div ?bs) (?g mod ?bs) ?chunk v = (q, v1)"
      by (cases "vdi_read_chunk ?g (?g div ?bs) (?g mod ?bs) ?chunk v")
    have le2: "?g + ?chunk \<le> v_disk_size v" using le "1.prems"(3) by linarith
    from vdi_read_chunk_effect [OF "1.prems"(2) g _ refl le2 q] True
    have e: "vdi_hidden ops disk binv v v1"
      "\<forall>bs. q = Inr bs \<longrightarrow> bs = map (\<lambda>j. vdi_byte disk v (?g + j)) [0..<?chunk]" by auto
    show ?thesis
    proof (cases q)
      case (Inl e')
      with "1.prems"(1) True b geo(2) q have "v' = v1" "r = Inl e'"
        by (simp_all add: vdi_read_loop.simps Let_def)
      with e show ?thesis by simp
    next
      case (Inr bs)
      note bs = e(2) [rule_format, OF Inr]
      have step: "vdi_read_loop n off (pos + ?chunk) (out @ bs) v1 = (r, v')"
        using "1.prems"(1) True b geo(2) q Inr by (simp add: vdi_read_loop.simps [of n off pos] Let_def)
      note inv1 = hidden_inv [OF e(1) "1.prems"(2)]
      note f1 = vdi_hidden_fields [OF e(1)]
      have same: "vdi_byte disk v1 (off + j) = vdi_byte disk v (off + j)" if "j < n" for j
        using hidden_byte [OF e(1) "1.prems"(2)] that "1.prems"(3) by simp
      have out1: "out @ bs = map (\<lambda>j. vdi_byte disk v1 (off + j)) [0..<pos + ?chunk]"
      proof -
        have "out @ bs = map (\<lambda>j. vdi_byte disk v (off + j)) [0..<pos + ?chunk]"
          unfolding bs "1.prems"(5) by (simp add: map_upt_add [symmetric] add.assoc)
        with le same show ?thesis by simp
      qed
      have "vdi_hidden ops disk binv v1 v' \<and>
          (\<forall>bs. r = Inr bs \<longrightarrow> bs = map (\<lambda>j. vdi_byte disk v1 (off + j)) [0..<n])"
        by (rule "1.IH" [OF True refl refl refl refl _ _ Inr step inv1 _ le out1])
          (use b geo(2) q "1.prems"(3) f1 in auto)
      moreover have "map (\<lambda>j. vdi_byte disk v1 (off + j)) [0..<n] = map (\<lambda>j. vdi_byte disk v (off + j)) [0..<n]"
        using same by simp
      ultimately show ?thesis using vdi_hidden_trans [OF e(1)] by auto
    qed
  qed
qed

lemma vdi_read_effect:
  assumes "vdi_inv ops disk binv v" and "0 \<le> off" and "nat off + n \<le> length (vdi_disk disk v)"
    and "nextufs_vdi_backend_read n off v = (r, v')"
  shows "vdi_inv ops disk binv v' \<and> vdi_disk disk v' = vdi_disk disk v \<and>
    (\<forall>bs. r = Inr bs \<longrightarrow> bs = bytes_at (nat off) n (vdi_disk disk v))"
proof -
  have le: "nat off + n \<le> v_disk_size v" using assms(3) by simp
  then have "\<not> (v_disk_size v < nat off \<or> v_disk_size v - nat off < n)" by linarith
  then have "vdi_read_loop n (nat off) 0 [] v = (r, v')"
    using assms(2,4) by (simp add: nextufs_vdi_backend_read_def)
  from vdi_read_loop_effect [OF this assms(1) le] have e: "vdi_hidden ops disk binv v v'"
    "\<forall>bs. r = Inr bs \<longrightarrow> bs = map (\<lambda>j. vdi_byte disk v (nat off + j)) [0..<n]" by auto
  have "map (\<lambda>j. vdi_byte disk v (nat off + j)) [0..<n] = bytes_at (nat off) n (vdi_disk disk v)"
    using le by (intro nth_equalityI) auto
  with e hidden_inv [OF e(1) assms(1)] hidden_disk [OF e(1) assms(1)] show ?thesis by auto
qed

end

section \<open>Allocating a block\<close>

lemma vdi_fd_io_bind: "vdi_fd_io (bind_io a b) = bind_io (vdi_fd_io a) (\<lambda>x. vdi_fd_io (b x))"
  by (rule ext) (auto simp: vdi_fd_io_def bind_io_def split: prod.splits sum.splits)

text \<open>A write that ends before the data area.\<close>

definition low_step :: "'p nextufs_vdi_backend \<Rightarrow> 'p nextufs_vdi_backend \<Rightarrow> bool" where
  "low_step v v' \<longleftrightarrow> (\<exists>f. v' = v\<lparr>v_fd := f\<rparr> \<and> length (content (v_fd v)) \<le> length (content f) \<and>
     (\<forall>k. v_data_offset v \<le> k \<and> k < length (content (v_fd v)) \<longrightarrow> content f ! k = content (v_fd v) ! k))"

lemma low_step_refl: "low_step v v"
  by (auto simp: low_step_def intro: exI [of _ "v_fd v"])

lemma low_step_trans: "low_step u v \<Longrightarrow> low_step v w \<Longrightarrow> low_step u w"
  by (auto simp: low_step_def)

lemma low_step_hidden:
  "low_step v v' \<Longrightarrow> vdi_data_end v \<le> length (content (v_fd v)) \<Longrightarrow> vdi_hidden pops pdisk pinv v v'"
  by (auto simp: low_step_def intro!: hidden_fdI)

lemma low_write:
  assumes "vdi_fd_io (nextufs_vdi_write_le32 off x) v = (r, v')" and "0 \<le> off" and "nat off + 4 \<le> v_data_offset v"
  shows "low_step v v'"
proof -
  obtain f where f: "nextufs__write_exact_fd (le32_bytes x) off (v_fd v) = (r, f)" and v': "v' = v\<lparr>v_fd := f\<rparr>"
    using assms(1) by (auto simp: vdi_fd_io_def nextufs_vdi_write_le32_def split: prod.splits)
  from write_exact_fd_effect [OF f] obtain k where k: "k \<le> 4"
    "content f = file_put (nat off) (take k (le32_bytes x)) (content (v_fd v))" by auto
  then show ?thesis
    using assms(3) nth_file_put [of _ "content (v_fd v)" "nat off" "take k (le32_bytes x)"]
    by (auto simp: low_step_def v' length_file_put)
qed

definition same_shape :: "'p nextufs_vdi_backend \<Rightarrow> 'p nextufs_vdi_backend \<Rightarrow> bool" where
  "same_shape v v' \<longleftrightarrow> v_block_size v' = v_block_size v \<and> v_block_count v' = v_block_count v \<and>
     v_disk_size v' = v_disk_size v"

lemma hidden_shape: "vdi_hidden pops pdisk pinv v v' \<Longrightarrow> same_shape v v'"
  by (simp add: same_shape_def vdi_hidden_fields)

context backend
begin

text \<open>Referring to a filled block that no entry refers to changes nothing for the guest.\<close>

lemma new_entry_effect:
  assumes "vdi_inv ops disk binv v" and "i < v_block_count v" and "map_special (v_block_map v ! i)"
    and "v_blocks_allocated v < v_block_count v"
    and "vdi_data_end v + vdi_stride v \<le> length (content (v_fd v))"
    and "\<And>j. j < v_block_size v \<Longrightarrow> i * v_block_size v + j < v_disk_size v \<Longrightarrow>
      content (v_fd v) ! (vdi_data_end v + v_block_extra v + j) = vdi_byte disk v (i * v_block_size v + j)"
    and "v' = v\<lparr>v_block_map := (v_block_map v)[i := v_blocks_allocated v],
      v_blocks_allocated := v_blocks_allocated v + 1\<rparr>"
  shows "vdi_inv ops disk binv v' \<and> vdi_disk disk v' = vdi_disk disk v \<and> \<not> map_special (v_block_map v' ! i)"
proof -
  have geo: "vdi_geometry v" "vdi_map_ok v" using assms(1) by (simp_all add: vdi_inv_def)
  then have len: "length (v_block_map v) = v_block_count v" and cnt: "v_block_count v \<le> 2 ^ 24"
    and bs: "0 < v_block_size v" by (simp_all add: vdi_geometry_def)
  have plain: "\<not> map_special (v_blocks_allocated v)"
    using assms(4) cnt by (simp add: map_special_def VDI_MAP_ZERO_def VDI_MAP_UNALLOCATED_def)
  have "vdi_geometry v'" using geo(1) assms(4) by (simp add: assms(7) vdi_geometry_def)
  moreover have "vdi_map_ok v'"
    using geo(2) len assms(2,3) by (auto simp: assms(7) vdi_map_ok_def nth_list_update less_Suc_eq)
  moreover have "vdi_data_end v' \<le> length (content (v_fd v'))"
    using assms(5) by (simp add: assms(7) vdi_data_end_def vdi_stride_def algebra_simps)
  ultimately have inv: "vdi_inv ops disk binv v'" using assms(1) by (simp add: vdi_inv_def assms(7))
  have "vdi_byte disk v' k = vdi_byte disk v k" if k: "k < v_disk_size v" for k
  proof (cases "k div v_block_size v = i")
    case False
    have "parent_byte disk v' k = parent_byte disk v k" "vdi_file_off v' e j = vdi_file_off v e j" for e j
      by (simp_all add: assms(7) parent_byte_def vdi_file_off_def vdi_stride_def)
    with False show ?thesis unfolding vdi_byte_def Let_def by (simp add: assms(7))
  next
    case True
    let ?j = "k mod v_block_size v"
    have kj: "k = i * v_block_size v + ?j" using div_mult_mod_eq [of k "v_block_size v"] True by simp
    have "vdi_byte disk v' k = content (v_fd v) ! (vdi_data_end v + v_block_extra v + ?j)"
      using plain len assms(2) True
      by (simp add: vdi_byte_def assms(7) map_special_def vdi_file_off_nat vdi_data_end_def vdi_stride_def)
    also have "\<dots> = vdi_byte disk v (i * v_block_size v + ?j)"
      using assms(6) [of ?j] bs k kj by simp
    finally show ?thesis using kj by simp
  qed
  then have "vdi_disk disk v' = vdi_disk disk v"
    by (intro nth_equalityI) (auto simp: assms(7) vdi_disk_def)
  with inv plain len assms(2) show ?thesis by (simp add: assms(7))
qed

lemma vdi_publish_effect:
  assumes "vdi_inv ops disk binv v" and "i < v_block_count v" and "map_special (v_block_map v ! i)"
    and "v_blocks_allocated v < v_block_count v"
    and "vdi_data_end v + vdi_stride v \<le> length (content (v_fd v))"
    and "\<And>j. j < v_block_size v \<Longrightarrow> i * v_block_size v + j < v_disk_size v \<Longrightarrow>
      content (v_fd v) ! (vdi_data_end v + v_block_extra v + j) = vdi_byte disk v (i * v_block_size v + j)"
    and "vdi_publish i e (v_blocks_allocated v) v = (r, v')"
  shows "vdi_inv ops disk binv v' \<and> vdi_disk disk v' = vdi_disk disk v \<and> same_shape v v' \<and>
    (r = Inr () \<longrightarrow> \<not> map_special (v_block_map v' ! i))"
proof -
  let ?moff = "int (v_map_offset v) + int i * 4"
  let ?coff = "int VDI_BLOCKS_ALLOC_OFF"
  have geo: "vdi_geometry v" and fit: "vdi_data_end v \<le> length (content (v_fd v))"
    using assms(1) by (simp_all add: vdi_inv_def)
  have moff: "nat ?moff + 4 \<le> v_data_offset v" and coff: "nat ?coff + 4 \<le> v_data_offset v"
    using geo assms(2) by (auto simp: vdi_geometry_def nat_add_distrib)
  have low: "low_step u w" if "vdi_fd_io (nextufs_vdi_write_le32 ?moff x) u = (q, w) \<or>
      vdi_fd_io (nextufs_vdi_write_le32 ?coff x) u = (q, w)" "low_step v u" for x u q w
    using low_write [of ?moff x u q w] low_write [of ?coff x u q w] that moff coff by (auto simp: low_step_def)
  have quiet: ?thesis if "low_step v u" "v' = u \<or> v' = u\<lparr>v_failed := True\<rparr>" "r \<noteq> Inr ()" for u
  proof -
    have "vdi_hidden ops disk binv v v'"
      using low_step_hidden [OF that(1) fit] that(2) hidden_failed vdi_hidden_trans by blast
    with hidden_inv [OF this assms(1)] hidden_disk [OF this assms(1)] hidden_shape [OF this] that(3)
    show ?thesis by simp
  qed
  obtain q1 v1 where w1: "vdi_fd_io (nextufs_vdi_write_le32 ?coff (v_blocks_allocated v + 1)) v = (q1, v1)"
    by (cases "vdi_fd_io (nextufs_vdi_write_le32 ?coff (v_blocks_allocated v + 1)) v")
  obtain q2 v2 where w2: "vdi_fd_io (nextufs_vdi_write_le32 ?moff (v_blocks_allocated v)) v1 = (q2, v2)"
    by (cases "vdi_fd_io (nextufs_vdi_write_le32 ?moff (v_blocks_allocated v)) v1")
  have s1: "low_step v v1" using low [of _ v q1 v1] w1 low_step_refl by blast
  have s2: "low_step v v2" using low [of _ v1 q2 v2] w2 s1 low_step_trans by blast
  define rc u where "rc = (case q1 of Inl x \<Rightarrow> Inl x | Inr _ \<Rightarrow> q2)" and "u = (case q1 of Inl x \<Rightarrow> v1 | Inr _ \<Rightarrow> v2)"
  have both: "vdi_fd_io (bind_io (nextufs_vdi_write_le32 ?coff (v_blocks_allocated v + 1))
       (\<lambda>_. nextufs_vdi_write_le32 ?moff (v_blocks_allocated v))) v = (rc, u)"
    unfolding vdi_fd_io_bind using w1 w2 by (auto simp: bind_io_def rc_def u_def split: sum.splits)
  have su: "low_step v u" using s1 s2 by (auto simp: u_def split: sum.splits)
  show ?thesis
  proof (cases rc)
    case (Inl x)
    obtain q3 v3 where w3: "vdi_fd_io (nextufs_vdi_write_le32 ?moff e) u = (q3, v3)"
      by (cases "vdi_fd_io (nextufs_vdi_write_le32 ?moff e) u")
    obtain q4 v4 where w4: "vdi_fd_io (nextufs_vdi_write_le32 ?coff (v_blocks_allocated v3)) v3 = (q4, v4)"
      by (cases "vdi_fd_io (nextufs_vdi_write_le32 ?coff (v_blocks_allocated v3)) v3")
    have s3: "low_step v v3" using low [of _ u q3 v3] w3 su low_step_trans by blast
    have s4: "low_step v v4" using low [of _ v3 q4 v4] w4 s3 low_step_trans by blast
    have "(r = Inl EUCLEAN \<and> v' = v4\<lparr>v_failed := True\<rparr>) \<or> (r = Inl x \<and> v' = v4)"
      using assms(7) both Inl w3 w4 by (auto simp: vdi_publish_def Let_def split: if_splits)
    then show ?thesis using quiet [OF s4] by fastforce
  next
    case (Inr x)
    from su obtain f where f: "u = v\<lparr>v_fd := f\<rparr>" "length (content (v_fd v)) \<le> length (content f)"
      "\<forall>k. v_data_offset v \<le> k \<and> k < length (content (v_fd v)) \<longrightarrow> content f ! k = content (v_fd v) ! k"
      by (auto simp: low_step_def)
    have v': "v' = u\<lparr>v_block_map := (v_block_map u)[i := v_blocks_allocated u], v_blocks_allocated := v_blocks_allocated u + 1\<rparr>"
      and r: "r = Inr ()"
      using assms(7) both Inr f(1) by (simp_all add: vdi_publish_def Let_def)
    note hid = low_step_hidden [OF su fit, of ops disk binv]
    note ff = vdi_hidden_fields [OF hid]
    have "vdi_inv ops disk binv v' \<and> vdi_disk disk v' = vdi_disk disk u \<and> \<not> map_special (v_block_map v' ! i)"
    proof (rule new_entry_effect [OF hidden_inv [OF hid assms(1)] _ _ _ _ _ v'])
      fix j
      assume j: "j < v_block_size u" "i * v_block_size u + j < v_disk_size u"
      have "vdi_data_end v + v_block_extra v + j < length (content (v_fd v))"
        using j assms(5) by (simp add: ff vdi_stride_def)
      moreover have "v_data_offset v \<le> vdi_data_end v" by (simp add: vdi_data_end_def)
      ultimately have "content (v_fd u) ! (vdi_data_end v + v_block_extra v + j) =
          content (v_fd v) ! (vdi_data_end v + v_block_extra v + j)" using f by simp
      also have "\<dots> = vdi_byte disk v (i * v_block_size v + j)" using assms(6) j by (simp add: ff)
      finally show "content (v_fd u) ! (vdi_data_end u + v_block_extra u + j) = vdi_byte disk u (i * v_block_size u + j)"
        using hidden_byte [OF hid assms(1)] j by (simp add: ff)
    qed (use assms f ff in auto)
    moreover have "same_shape v v'" using hidden_shape [OF hid] by (simp add: v' same_shape_def)
    ultimately show ?thesis using hidden_disk [OF hid assms(1)] by simp
  qed
qed

end

lemma nth_file_put_in: "j < length bs \<Longrightarrow> file_put off bs xs ! (off + j) = bs ! j"
proof -
  have "min (length xs) off + (off - length xs) = off" by simp
  then show "j < length bs \<Longrightarrow> file_put off bs xs ! (off + j) = bs ! j"
    by (auto simp: file_put_def overlay_def nth_append)
qed

lemma bind_get_io: "bind_io get_io f s = f s s"
  by (simp add: bind_io_def get_io_def)

context backend
begin

lemma materialize_effect:
  assumes "vdi_inv ops disk binv v" and "i < v_block_count v"
    and "nextufs_vdi_materialize_block i v = (r, v')"
  shows "vdi_inv ops disk binv v' \<and> vdi_disk disk v' = vdi_disk disk v \<and> same_shape v v' \<and>
    (r = Inr () \<longrightarrow> \<not> map_special (v_block_map v' ! i))"
proof -
  let ?e = "v_block_map v ! i"
  let ?g = "i * v_block_size v"
  let ?off = "int (v_data_offset v) + int (v_blocks_allocated v * vdi_stride v)"
  have bs: "0 < v_block_size v" using assms(1) by (simp add: vdi_inv_def vdi_geometry_def)
  have off: "nat ?off = vdi_data_end v" by (simp add: vdi_data_end_def nat_add_distrib nat_mult_distrib)
  have quiet: ?thesis if "vdi_hidden ops disk binv v v'" "r \<noteq> Inr () \<or> \<not> map_special ?e"
    using hidden_inv [OF that(1) assms(1)] hidden_disk [OF that(1) assms(1)] hidden_shape [OF that(1)] that(2)
      vdi_hidden_fields(1) [OF that(1)] by auto
  show ?thesis
  proof (cases "map_special ?e \<and> v_blocks_allocated v < v_block_count v")
    case False
    then have "v' = v" "r \<noteq> Inr () \<or> \<not> map_special ?e"
      using assms(3) unfolding nextufs_vdi_materialize_block_def bind_get_io Let_def map_special_def
      by (auto simp: ret_def fail_def split: if_splits)
    then show ?thesis using quiet by simp
  next
    case True
    define fill where "fill = (if ?e = VDI_MAP_UNALLOCATED then vdi_inherited (v_block_size v) ?g
      else ret (replicate (v_block_size v) 0) :: ('c nextufs_vdi_backend, byte list) io)"
    define extra where "extra = (if v_block_extra v \<noteq> 0
      then bind_io vdi_malloc (\<lambda>_. vdi_fd_io (nextufs__write_exact_fd (replicate (v_block_extra v) 0) ?off))
      else ret () :: ('c nextufs_vdi_backend, unit) io)"
    define store where "store = (\<lambda>buf. vdi_fd_io (nextufs__write_exact_fd buf (?off + int (v_block_extra v)))
      :: ('c nextufs_vdi_backend, unit) io)"
    have run: "bind_io vdi_malloc (\<lambda>_. bind_io fill (\<lambda>buf. bind_io extra (\<lambda>_. bind_io (store buf)
        (\<lambda>_. vdi_publish i ?e (v_blocks_allocated v))))) v = (r, v')"
      using assms(3) True
      unfolding nextufs_vdi_materialize_block_def fill_def extra_def store_def bind_get_io Let_def map_special_def
      by (auto simp del: of_nat_mult)
    obtain q1 v1 where m1: "vdi_malloc v = (q1, v1)" by (cases "vdi_malloc v")
    from hidden_malloc [OF m1] have h1: "vdi_hidden ops disk binv v v1" "v_fd v1 = v_fd v" by blast+
    note inv1 = hidden_inv [OF h1(1) assms(1)] and f1 = vdi_hidden_fields [OF h1(1)]
    obtain q2 v2 where m2: "fill v1 = (q2, v2)" by (cases "fill v1")
    have h12: "vdi_hidden ops disk binv v1 v2 \<and>
        (\<forall>buf. q2 = Inr buf \<longrightarrow> length buf = v_block_size v \<and>
          (\<forall>j < v_block_size v. ?g + j < v_disk_size v \<longrightarrow> buf ! j = vdi_byte disk v (?g + j)))"
    proof -
      have byte: "vdi_byte disk v (?g + j) = (if ?e = VDI_MAP_UNALLOCATED then parent_byte disk v (?g + j) else 0)"
        if "j < v_block_size v" for j
        using that True bs by (auto simp: vdi_byte_def map_special_def)
      show ?thesis
      proof (cases "?e = VDI_MAP_UNALLOCATED")
        case e: True
        then have "vdi_inherited (v_block_size v) ?g v1 = (q2, v2)" using m2 by (simp add: fill_def)
        from vdi_inherited_effect [OF inv1 this] hidden_parent_byte [OF h1(1) assms(1)] byte e
        show ?thesis by auto
      next
        case e: False
        then show ?thesis using m2 byte by (auto simp: fill_def io_defs)
      qed
    qed
    then have h2: "vdi_hidden ops disk binv v v2" using vdi_hidden_trans [OF h1(1)] by blast
    obtain q3 v3 where m3: "extra v2 = (q3, v3)" by (cases "extra v2")
    have fit: "vdi_data_end u \<le> length (content (v_fd u))" if "vdi_hidden ops disk binv v u" for u
      using hidden_inv [OF that assms(1)] by (simp add: vdi_inv_def)
    have od: "off_data u ?off n" "off_data u (?off + int (v_block_extra v)) n" if "vdi_hidden ops disk binv v u" for u n
      using vdi_hidden_fields(10) [OF that] off by (auto simp: off_data_def nat_add_distrib)
    have h3: "vdi_hidden ops disk binv v v3"
    proof (cases "v_block_extra v = 0")
      case False
      obtain qm vm where mm: "vdi_malloc v2 = (qm, vm)" by (cases "vdi_malloc v2")
      have hm: "vdi_hidden ops disk binv v vm" using hidden_malloc [OF mm] vdi_hidden_trans [OF h2] by blast
      from m3 False mm consider "v3 = vm"
        | "vdi_fd_io (nextufs__write_exact_fd (replicate (v_block_extra v) 0) ?off) vm = (q3, v3)"
        by (cases qm) (auto simp: extra_def bind_io_def)
      then show ?thesis
        using hm hidden_fd_write [OF _ od(1) [OF hm] fit [OF hm]] vdi_hidden_trans [OF hm] by cases blast+
    qed (use m3 h2 in \<open>simp add: extra_def io_defs\<close>)
    obtain buf where buf: "q2 = Inr buf \<or> (\<exists>x. q2 = Inl x)" by (cases q2) auto
    obtain q4 v4 where m4: "store buf v3 = (q4, v4)" by (cases "store buf v3")
    from hidden_fd_write [OF m4 [unfolded store_def] od(2) [OF h3] fit [OF h3], of ops disk binv]
    obtain k where h34: "vdi_hidden ops disk binv v3 v4" and k: "k \<le> length buf" "q4 = Inr () \<longrightarrow> k = length buf"
      "content (v_fd v4) = file_put (nat (?off + int (v_block_extra v))) (take k buf) (content (v_fd v3))" by blast
    note h4 = vdi_hidden_trans [OF h3 h34]
    show ?thesis
    proof (cases "\<exists>x. q1 = Inl x \<or> q2 = Inl x \<or> q3 = Inl x \<or> q4 = Inl x")
      case bad: True
      then have "(v' = v1 \<or> v' = v2 \<or> v' = v3 \<or> v' = v4) \<and> r \<noteq> Inr ()"
        using run m1 m2 m3 m4 buf by (auto simp: bind_io_def split: sum.splits)
      then show ?thesis using quiet h1(1) h2 h3 h4 by blast
    next
      case False
      then have ok: "q1 = Inr ()" "q2 = Inr buf" "q3 = Inr ()" "q4 = Inr ()"
        using buf by (cases q1; cases q3; cases q4; auto)+
      then have pub: "vdi_publish i ?e (v_blocks_allocated v) v4 = (r, v')"
        using run m1 m2 m3 m4 by (simp add: bind_io_def)
      note f4 = vdi_hidden_fields [OF h4]
      from h12 ok(2) have b: "length buf = v_block_size v"
        "\<And>j. j < v_block_size v \<Longrightarrow> ?g + j < v_disk_size v \<Longrightarrow> buf ! j = vdi_byte disk v (?g + j)" by auto
      have c4: "content (v_fd v4) = file_put (vdi_data_end v + v_block_extra v) buf (content (v_fd v3))"
        using k ok(4) off by (simp add: nat_add_distrib)
      have len: "vdi_data_end v + vdi_stride v \<le> length (content (v_fd v4))"
        using b(1) bs by (auto simp: c4 length_file_put vdi_stride_def max_def)
      have "vdi_inv ops disk binv v' \<and> vdi_disk disk v' = vdi_disk disk v4 \<and> same_shape v4 v' \<and>
          (r = Inr () \<longrightarrow> \<not> map_special (v_block_map v' ! i))"
      proof (rule vdi_publish_effect [OF hidden_inv [OF h4 assms(1)]])
        show "vdi_publish i ?e (v_blocks_allocated v4) v4 = (r, v')" using pub f4 by simp
        fix j
        assume j: "j < v_block_size v4" "i * v_block_size v4 + j < v_disk_size v4"
        then have "content (v_fd v4) ! (vdi_data_end v + v_block_extra v + j) = buf ! j"
          using b(1) unfolding c4 by (intro nth_file_put_in) (simp add: f4)
        then show "content (v_fd v4) ! (vdi_data_end v4 + v_block_extra v4 + j) =
            vdi_byte disk v4 (i * v_block_size v4 + j)"
          using b(2) j hidden_byte [OF h4 assms(1)] by (simp add: f4)
      qed (use assms(2) True len f4 in auto)
      then show ?thesis using hidden_disk [OF h4 assms(1)] hidden_shape [OF h4] by (simp add: same_shape_def)
    qed
  qed
qed

end

section \<open>Writing the guest disk\<close>

text \<open>Blocks of different entries do not overlap in the file.\<close>

lemma entries_apart:
  assumes "e \<noteq> e'" and "j < bs" and "k < bs" and "bs \<le> s"
  shows "e * s + x + j \<noteq> e' * s + x + (k :: nat)"
proof
  assume eq: "e * s + x + j = e' * s + x + k"
  have "e * s + s \<le> e' * s \<or> e' * s + s \<le> e * s"
  proof (cases "e < e'")
    case True
    then have "(e + 1) * s \<le> e' * s" by (intro mult_le_mono1) simp
    then show ?thesis by simp
  next
    case False
    with assms(1) have "(e' + 1) * s \<le> e * s" by (intro mult_le_mono1) simp
    then show ?thesis by simp
  qed
  with eq assms(2-4) show False by linarith
qed

context backend
begin

lemma vdi_chunk_write:
  assumes "vdi_inv ops disk binv v" and "g < v_disk_size v"
    and "\<not> map_special (v_block_map v ! (g div v_block_size v))"
    and "length buf = min (v_block_size v - g mod v_block_size v) n" and "g + length buf \<le> v_disk_size v"
    and "vdi_fd_io (nextufs__write_exact_fd buf
      (vdi_file_off v (v_block_map v ! (g div v_block_size v)) (g mod v_block_size v))) v = (r, v')"
  shows "vdi_inv ops disk binv v' \<and> same_shape v v' \<and>
    (\<exists>k \<le> length buf. (r = Inr () \<longrightarrow> k = length buf) \<and>
      (\<forall>i < v_disk_size v. vdi_byte disk v' i = (if g \<le> i \<and> i < g + k then buf ! (i - g) else vdi_byte disk v i)))"
proof -
  let ?bs = "v_block_size v"
  let ?e = "v_block_map v ! (g div ?bs)"
  let ?loc = "v_data_offset v + ?e * vdi_stride v + v_block_extra v + g mod ?bs"
  have geo: "vdi_geometry v" "vdi_map_ok v" "0 < ?bs" and fit: "vdi_data_end v \<le> length (content (v_fd v))"
    using assms(1) by (simp_all add: vdi_inv_def vdi_geometry_def)
  note blk = vdi_block_of(1) [OF geo(1)]
  from assms(3) geo(2) blk [OF assms(2)] have e: "?e < v_blocks_allocated v"
    "\<And>j. j < v_block_count v \<Longrightarrow> v_block_map v ! j = ?e \<Longrightarrow> j = g div ?bs"
    by (auto simp: vdi_map_ok_def)
  obtain f where f: "nextufs__write_exact_fd buf (vdi_file_off v ?e (g mod ?bs)) (v_fd v) = (r, f)"
    and v': "v' = v\<lparr>v_fd := f\<rparr>"
    using assms(6) by (auto simp: vdi_fd_io_def split: prod.splits)
  from write_exact_fd_effect [OF f] obtain k where k: "k \<le> length buf" "r = Inr () \<longrightarrow> k = length buf"
    "content f = file_put ?loc (take k buf) (content (v_fd v))" by (auto simp: vdi_file_off_nat)
  have kb: "g mod ?bs + k \<le> ?bs" using k(1) assms(4) mod_less_divisor [OF geo(3), of g] by linarith
  have room: "?loc + k \<le> length (content (v_fd v))"
  proof (cases "k = 0")
    case True
    with used_entry_room [OF e(1), of "g mod ?bs"] geo(3) fit show ?thesis by simp
  next
    case False
    then have "g mod ?bs + (k - 1) < ?bs" using kb by linarith
    from used_entry_room [OF e(1) this] False fit show ?thesis by linarith
  qed
  have cf: "content f = overlay ?loc (take k buf) (content (v_fd v))"
    unfolding k(3) using room k(1) by (intro file_put_inside) simp
  have len: "length (content f) = length (content (v_fd v))" using room k(1) by (simp add: cf)
  have cn: "content f ! q = (if ?loc \<le> q \<and> q < ?loc + k then buf ! (q - ?loc) else content (v_fd v) ! q)"
    if "q < length (content (v_fd v))" for q
    using that room k(1) by (auto simp: cf nth_overlay)
  have inv': "vdi_inv ops disk binv v'"
    using assms(1) len by (simp add: v' vdi_inv_def vdi_geometry_def vdi_map_ok_def vdi_data_end_def vdi_stride_def)
  have inblk: "i div ?bs = g div ?bs" if "g \<le> i" "i < g + k" for i
  proof -
    have "i - g < min (?bs - g mod ?bs) n" using that k(1) assms(4) by linarith
    from chunk_positions(1) [OF this geo(3)] that(1) show ?thesis by simp
  qed
  have "vdi_byte disk v' i = (if g \<le> i \<and> i < g + k then buf ! (i - g) else vdi_byte disk v i)"
    if i: "i < v_disk_size v" for i
  proof -
    let ?ei = "v_block_map v ! (i div ?bs)"
    let ?li = "v_data_offset v + ?ei * vdi_stride v + v_block_extra v + i mod ?bs"
    have p: "parent_byte disk v' i = parent_byte disk v i" "vdi_file_off v' x y = vdi_file_off v x y" for x y
      by (simp_all add: v' parent_byte_def vdi_file_off_def vdi_stride_def)
    show ?thesis
    proof (cases "map_special ?ei")
      case True
      then have "\<not> (g \<le> i \<and> i < g + k)"
        using assms(3) inblk [of i] by auto
      moreover have "vdi_byte disk v' i = vdi_byte disk v i"
        using True p unfolding vdi_byte_def Let_def by (auto simp: v' map_special_def)
      ultimately show ?thesis by auto
    next
      case False
      then have ei: "?ei < v_blocks_allocated v" using geo(2) blk [OF i] by (simp add: vdi_map_ok_def)
      have li: "?li < length (content (v_fd v))"
        using used_entry_room [OF ei, of "i mod ?bs"] geo(3) fit by simp
      have b: "vdi_byte disk v i = content (v_fd v) ! ?li" "vdi_byte disk v' i = content f ! ?li"
        using False p unfolding vdi_byte_def Let_def by (auto simp: v' map_special_def vdi_file_off_nat)
      have "(?loc \<le> ?li \<and> ?li < ?loc + k) = (g \<le> i \<and> i < g + k) \<and> (g \<le> i \<and> i < g + k \<longrightarrow> ?li - ?loc = i - g)"
      proof (cases "i div ?bs = g div ?bs")
        case True
        have "i = i div ?bs * ?bs + i mod ?bs" "g = g div ?bs * ?bs + g mod ?bs"
          by (simp_all only: div_mult_mod_eq)
        moreover have "i div ?bs * ?bs = g div ?bs * ?bs" using True by simp
        ultimately have "i + g mod ?bs = g + i mod ?bs" by linarith
        with True show ?thesis by auto
      next
        case other: False
        have out: "\<not> (g \<le> i \<and> i < g + k)"
          using other inblk [of i] by auto
        have "?ei \<noteq> ?e" using e(2) [OF blk [OF i]] other by auto
        have "\<not> (?loc \<le> ?li \<and> ?li < ?loc + k)"
        proof
          assume a: "?loc \<le> ?li \<and> ?li < ?loc + k"
          then have "g mod ?bs + (?li - ?loc) < ?bs" using kb by linarith
          from entries_apart [OF \<open>?ei \<noteq> ?e\<close> _ this, of "i mod ?bs" "vdi_stride v" "v_block_extra v"] geo(3) a
          show False by (simp add: vdi_stride_def)
        qed
        with out show ?thesis by blast
      qed
      then show ?thesis using cn [OF li] b by auto
    qed
  qed
  with k(1,2) inv' show ?thesis by (auto simp: v' same_shape_def)
qed

lemma vdi_write_loop_effect:
  assumes "vdi_write_loop buf off pos v = (r, v')" and "vdi_inv ops disk binv v"
    and "off + length buf \<le> v_disk_size v" and "pos \<le> length buf"
  shows "vdi_inv ops disk binv v' \<and> v_disk_size v' = v_disk_size v \<and>
    (\<forall>i < v_disk_size v. i < off + pos \<or> off + length buf \<le> i \<longrightarrow> vdi_byte disk v' i = vdi_byte disk v i) \<and>
    (r = Inr () \<longrightarrow> (\<forall>i. off + pos \<le> i \<and> i < off + length buf \<longrightarrow> vdi_byte disk v' i = buf ! (i - off)))"
  using assms
proof (induction buf off pos v arbitrary: r v' rule: vdi_write_loop.induct)
  case (1 buf off pos v)
  show ?case
  proof (cases "pos < length buf")
    case False
    with "1.prems" show ?thesis by (auto simp: vdi_write_loop.simps)
  next
    case True
    let ?bs = "v_block_size v"
    let ?g = "off + pos"
    let ?chunk = "min (?bs - ?g mod ?bs) (length buf - pos)"
    have geo: "vdi_geometry v" "0 < ?bs" using "1.prems"(2) by (simp_all add: vdi_inv_def vdi_geometry_def)
    have g: "?g < v_disk_size v" using True "1.prems"(3) by simp
    note b = vdi_block_of [OF geo(1) g]
    have le: "pos + ?chunk \<le> length buf" using True by simp
    obtain q1 v1 where m: "nextufs_vdi_materialize_block (?g div ?bs) v = (q1, v1)"
      by (cases "nextufs_vdi_materialize_block (?g div ?bs) v")
    from materialize_effect [OF "1.prems"(2) b(1) m] have e1: "vdi_inv ops disk binv v1"
      "vdi_disk disk v1 = vdi_disk disk v" "v_block_size v1 = ?bs" "v_block_count v1 = v_block_count v"
      "v_disk_size v1 = v_disk_size v" "q1 = Inr () \<longrightarrow> \<not> map_special (v_block_map v1 ! (?g div ?bs))"
      by (auto simp: same_shape_def)
    have same1: "vdi_byte disk v1 i = vdi_byte disk v i" if "i < v_disk_size v" for i
      using arg_cong [OF e1(2), of "\<lambda>xs. xs ! i"] that e1(5) by simp
    have unf: "vdi_write_loop buf off pos v =
        (case (q1, v1) of (Inl e, v) \<Rightarrow> (Inl e, v)
         | (Inr u, v) \<Rightarrow>
            let map_entry = v_block_map v ! (?g div ?bs) in
            if map_entry = VDI_MAP_UNALLOCATED \<or> map_entry = VDI_MAP_ZERO then (Inl EIO, v)
            else case vdi_fd_io (nextufs__write_exact_fd (bytes_at pos ?chunk buf)
                   (vdi_file_off v map_entry (?g mod ?bs))) v of
              (Inl e, v) \<Rightarrow> (Inl e, v)
            | (Inr _, v) \<Rightarrow> vdi_write_loop buf off (pos + ?chunk) v)"
      unfolding vdi_write_loop.simps [of buf off pos v] m [symmetric] Let_def b(2) using True b(1) geo(2) by simp
    show ?thesis
    proof (cases q1)
      case (Inl x)
      with "1.prems"(1) have "v' = v1" "r = Inl x" by (simp_all add: unf)
      with e1 same1 show ?thesis by simp
    next
      case (Inr u)
      let ?e = "v_block_map v1 ! (?g div ?bs)"
      let ?buf = "bytes_at pos ?chunk buf"
      have plain: "\<not> map_special ?e" using e1(6) Inr by simp
      obtain q2 v2 where w: "vdi_fd_io (nextufs__write_exact_fd ?buf (vdi_file_off v1 ?e (?g mod ?bs))) v1 = (q2, v2)"
        by (cases "vdi_fd_io (nextufs__write_exact_fd ?buf (vdi_file_off v1 ?e (?g mod ?bs))) v1")
      have lb: "length ?buf = ?chunk" using le by simp
      have gc: "?g + ?chunk \<le> v_disk_size v" using le "1.prems"(3) by linarith
      from vdi_chunk_write [OF e1(1), of ?g ?buf "length buf - pos" q2 v2] plain w lb gc g e1(3,5)
      obtain k where e2: "vdi_inv ops disk binv v2" "same_shape v1 v2" "k \<le> ?chunk" "q2 = Inr () \<longrightarrow> k = ?chunk"
        and byte2: "\<And>i. i < v_disk_size v \<Longrightarrow> vdi_byte disk v2 i =
          (if ?g \<le> i \<and> i < ?g + k then ?buf ! (i - ?g) else vdi_byte disk v1 i)" by auto
      have ds: "v_disk_size v2 = v_disk_size v" using e2(2) e1(5) by (simp add: same_shape_def)
      show ?thesis
      proof (cases q2)
        case (Inl x)
        with "1.prems"(1) Inr w plain have "v' = v2" "r = Inl x"
          by (simp_all add: unf map_special_def)
        with e2 ds byte2 same1 le show ?thesis by auto
      next
        case inr2: (Inr u2)
        have step: "vdi_write_loop buf off (pos + ?chunk) v2 = (r, v')"
          using "1.prems"(1) Inr w plain inr2 by (simp add: unf map_special_def)
        have m': "(q1, v1) = nextufs_vdi_materialize_block (u32 (?g div ?bs)) v" unfolding b(2) by (simp add: m)
        have w': "(q2, v2) = vdi_fd_io (nextufs__write_exact_fd ?buf
            (vdi_file_off v1 (v_block_map v1 ! u32 (?g div ?bs)) (?g mod ?bs))) v1" unfolding b(2) by (simp add: w)
        have ih: "vdi_inv ops disk binv v' \<and> v_disk_size v' = v_disk_size v2 \<and>
            (\<forall>i < v_disk_size v2. i < off + (pos + ?chunk) \<or> off + length buf \<le> i \<longrightarrow> vdi_byte disk v' i = vdi_byte disk v2 i) \<and>
            (r = Inr () \<longrightarrow> (\<forall>i. off + (pos + ?chunk) \<le> i \<and> i < off + length buf \<longrightarrow> vdi_byte disk v' i = buf ! (i - off)))"
          by (rule "1.IH" [OF True refl refl refl refl _ m' Inr refl _ w' inr2 step e2(1)])
            (use b geo(2) Inr plain inr2 "1.prems"(3) ds le in \<open>auto simp: map_special_def\<close>)
        have k: "k = ?chunk" using e2(4) inr2 by simp
        show ?thesis
        proof (intro conjI allI impI)
          show "vdi_inv ops disk binv v'" using ih by blast
          show "v_disk_size v' = v_disk_size v" using ih ds by simp
          fix i
          assume "i < v_disk_size v" and out: "i < ?g \<or> off + length buf \<le> i"
          then have "vdi_byte disk v' i = vdi_byte disk v2 i" using ih ds by auto
          also have "\<dots> = vdi_byte disk v1 i" using byte2 [OF \<open>i < v_disk_size v\<close>] out k le by auto
          finally show "vdi_byte disk v' i = vdi_byte disk v i" using same1 [OF \<open>i < v_disk_size v\<close>] by simp
        next
          fix i
          assume r: "r = Inr ()" and i: "?g \<le> i \<and> i < off + length buf"
          show "vdi_byte disk v' i = buf ! (i - off)"
          proof (cases "i < ?g + ?chunk")
            case True
            have id: "i < v_disk_size v" using i "1.prems"(3) by linarith
            have "vdi_byte disk v' i = vdi_byte disk v2 i" using ih ds id True by (auto simp: add.assoc)
            also have "\<dots> = ?buf ! (i - ?g)" using byte2 [OF id] True i k by simp
            also have "\<dots> = buf ! (pos + (i - ?g))"
              by (rule nth_bytes_at) (use True i le in linarith)+
            also have "pos + (i - ?g) = i - off" using i by simp
            finally show ?thesis .
          qed (use ih r i in auto)
        qed
      qed
    qed
  qed
qed

end

context backend
begin

lemma vdi_write_effect:
  assumes "vdi_inv ops disk binv v" and "0 \<le> off" and "nat off + length buf \<le> length (vdi_disk disk v)"
    and "nextufs_vdi_backend_write buf off v = (r, v')"
  shows "vdi_inv ops disk binv v' \<and> agree_outside (nat off) (length buf) (vdi_disk disk v') (vdi_disk disk v) \<and>
    (r = Inr () \<longrightarrow> vdi_disk disk v' = overlay (nat off) buf (vdi_disk disk v))"
proof (cases "v_failed v")
  case True
  with assms show ?thesis by (auto simp: nextufs_vdi_backend_write_def)
next
  case False
  have le: "nat off + length buf \<le> v_disk_size v" using assms(3) by simp
  then have "\<not> (v_disk_size v < nat off \<or> v_disk_size v - nat off < length buf)" by linarith
  then have "vdi_write_loop buf (nat off) 0 v = (r, v')"
    using assms(2,4) False by (simp add: nextufs_vdi_backend_write_def)
  from vdi_write_loop_effect [OF this assms(1) le] have e: "vdi_inv ops disk binv v'"
    "v_disk_size v' = v_disk_size v"
    "\<And>i. i < v_disk_size v \<Longrightarrow> i < nat off \<or> nat off + length buf \<le> i \<Longrightarrow> vdi_byte disk v' i = vdi_byte disk v i"
    "\<And>i. r = Inr () \<Longrightarrow> nat off \<le> i \<Longrightarrow> i < nat off + length buf \<Longrightarrow> vdi_byte disk v' i = buf ! (i - nat off)"
    by auto
  have "agree_outside (nat off) (length buf) (vdi_disk disk v') (vdi_disk disk v)"
    using e(2,3) by (simp add: agree_outside_def)
  moreover have "vdi_disk disk v' = overlay (nat off) buf (vdi_disk disk v)" if "r = Inr ()"
    using e le that by (intro nth_equalityI) (auto simp: nth_overlay)
  ultimately show ?thesis using e(1) by blast
qed

lemma vdi_fsync_effect:
  assumes "vdi_inv ops disk binv v" and "nextufs_vdi_backend_fsync v = (r, v')"
  shows "vdi_inv ops disk binv v' \<and> vdi_disk disk v' = vdi_disk disk v"
proof -
  obtain f where f: "fsync_fd (v_fd v) = (r, f)" and v': "v' = v\<lparr>v_fd := f\<rparr>"
    using assms(2) by (auto simp: nextufs_vdi_backend_fsync_def vdi_fd_io_def split: prod.splits)
  have "vdi_hidden ops disk binv v v'"
    unfolding v' using fsync_fd_content [OF f] by (intro hidden_fdI) simp_all
  from hidden_inv [OF this assms(1)] hidden_disk [OF this assms(1)] show ?thesis by blast
qed

end

section \<open>The contract\<close>

text \<open>A block map over any backend that keeps the contract keeps it too.\<close>

locale vdi_over = backend ops rd wr sy disk binv
  for ops :: "'c nextufs_image_backend_ops"
    and rd :: "nat \<Rightarrow> int \<Rightarrow> ('c, byte list) io"
    and wr :: "byte list \<Rightarrow> int \<Rightarrow> ('c, unit) io"
    and sy :: "('c, unit) io"
    and disk :: "'c \<Rightarrow> byte list"
    and binv :: "'c \<Rightarrow> bool"

sublocale vdi_over \<subseteq> vdi: backend nextufs_vdi_backend_ops nextufs_vdi_backend_read nextufs_vdi_backend_write
  nextufs_vdi_backend_fsync "vdi_disk disk" "vdi_inv ops disk binv"
  by unfold_locales (rule nextufs_vdi_backend_ops_def, erule (3) vdi_read_effect, erule (3) vdi_write_effect,
    erule (1) vdi_fsync_effect)

text \<open>A dynamic or differencing image over plain files, and a differencing image over one of those.\<close>

interpretation raw_vdi: vdi_over nextufs_raw_backend_ops nextufs_raw_backend_read nextufs_raw_backend_write
  nextufs_raw_backend_fsync content "\<lambda>_. True"
  by unfold_locales

abbreviation vdi_contents :: "nextufs_raw_backend nextufs_vdi_backend \<Rightarrow> byte list" where
  "vdi_contents \<equiv> vdi_disk content"

abbreviation vdi_ok :: "nextufs_raw_backend nextufs_vdi_backend \<Rightarrow> bool" where
  "vdi_ok \<equiv> vdi_inv nextufs_raw_backend_ops content (\<lambda>_. True)"

interpretation vdi_vdi: vdi_over nextufs_vdi_backend_ops nextufs_vdi_backend_read nextufs_vdi_backend_write
  nextufs_vdi_backend_fsync vdi_contents vdi_ok
  by unfold_locales

section \<open>Opening\<close>

definition VDI_VERSION_OFF :: nat where "VDI_VERSION_OFF = 0x44"
definition VDI_HEADER_SIZE_OFF :: nat where "VDI_HEADER_SIZE_OFF = 0x48"
definition VDI_UUID_IMAGE_OFF :: nat where "VDI_UUID_IMAGE_OFF = 0x188"

definition vdi_of_header :: "byte list \<Rightarrow> bool list \<Rightarrow> hostfile \<Rightarrow> 'p nextufs_vdi_backend" where
  "vdi_of_header hdr ms f = \<lparr>v_fd = f,
     v_image_type = read_le32 hdr 0x4c, v_map_offset = read_le32 hdr 0x154,
     v_data_offset = read_le32 hdr 0x158, v_sector_size = read_le32 hdr 0x168,
     v_block_size = read_le32 hdr 0x178, v_block_extra = read_le32 hdr 0x17c,
     v_block_count = read_le32 hdr 0x180, v_blocks_allocated = read_le32 hdr VDI_BLOCKS_ALLOC_OFF,
     v_disk_size = read_le64 hdr 0x170, v_block_map = [],
     v_image_uuid = bytes_at VDI_UUID_IMAGE_OFF 16 hdr, v_parent_uuid = bytes_at VDI_UUID_PARENT_OFF 16 hdr,
     v_failed = False, v_parent = None, v_mallocs = ms\<rparr>"

definition vdi_header_bad :: "'p nextufs_vdi_backend \<Rightarrow> nat \<Rightarrow> nat \<Rightarrow> bool" where
  "vdi_header_bad vdi header_size file_size \<longleftrightarrow>
     v_image_type vdi \<noteq> VDI_TYPE_DYNAMIC \<and> v_image_type vdi \<noteq> VDI_TYPE_DIFF \<or>
     v_sector_size vdi = 0 \<or> v_block_size vdi = 0 \<or> v_block_count vdi = 0 \<or>
     16 * 1024 * 1024 < v_block_count vdi \<or> v_disk_size vdi = 0 \<or> 2 ^ 63 - 1 < v_disk_size vdi \<or>
     32 * 1024 * 1024 < v_block_size vdi \<or> 4096 < v_block_extra vdi \<or>
     v_block_count vdi < v_blocks_allocated vdi \<or>
     v_block_count vdi \<noteq> (v_disk_size vdi + v_block_size vdi - 1) div v_block_size vdi \<or>
     v_map_offset vdi < 0x48 + header_size \<or>
     v_data_offset vdi < v_map_offset vdi + v_block_count vdi * 4 \<or>
     file_size < v_data_offset vdi + v_blocks_allocated vdi * (v_block_size vdi + v_block_extra vdi)"

text \<open>The loop that rejects entries out of range or used twice; \<open>used\<close> is the array of the source.\<close>

fun vdi_check_map :: "bool list \<Rightarrow> nat list \<Rightarrow> bool" where
  "vdi_check_map used [] = True"
| "vdi_check_map used (entry # entries) =
     (if entry = VDI_MAP_ZERO \<or> entry = VDI_MAP_UNALLOCATED then vdi_check_map used entries
      else if length used \<le> entry \<or> used ! entry then False
      else vdi_check_map (used[entry := True]) entries)"

text \<open>
  The part of \<open>nextufs_init_backend\<close> for a source whose signature is that of a VDI file: \<open>hdr\<close> is its first
  512 bytes, \<open>file_size\<close> its length, and \<open>parent\<close> the result of finding and opening the parent of a
  differencing image.
\<close>

definition vdi_init :: "byte list \<Rightarrow> nat \<Rightarrow> bool list \<Rightarrow> errno + 'p nextufs_image \<Rightarrow> (hostfile, 'p nextufs_vdi_backend) io" where
  "vdi_init hdr file_size ms parent f =
     (let header_size = read_le32 hdr VDI_HEADER_SIZE_OFF in
      if VDI_SIG_OFF + header_size < VDI_UUID_PARENT_OFF + 16 \<or> read_le32 hdr VDI_VERSION_OFF \<noteq> 0x00010001
      then (Inl EINVAL, f)
      else case vdi_malloc (vdi_of_header hdr ms f) of
        (Inl e, vdi) \<Rightarrow> (Inl e, f)
      | (Inr _, vdi) \<Rightarrow>
          if vdi_header_bad vdi header_size file_size then (Inl EINVAL, f)
          else case vdi_malloc vdi of
            (Inl e, vdi) \<Rightarrow> (Inl e, f)
          | (Inr _, vdi) \<Rightarrow>
              (case nextufs__read_exact_fd (v_block_count vdi * 4) (int (v_map_offset vdi)) f of
                 (Inl e, f) \<Rightarrow> (Inl EIO, f)
               | (Inr raw, f) \<Rightarrow>
                   (case vdi_malloc (vdi\<lparr>v_fd := f\<rparr>) of
                      (Inl e, vdi) \<Rightarrow> (Inl e, f)
                    | (Inr _, vdi) \<Rightarrow>
                        let entries = map (\<lambda>i. read_le32 raw (i * 4)) [0..<v_block_count vdi];
                            vdi = vdi\<lparr>v_block_map := entries\<rparr> in
                        if \<not> vdi_check_map (replicate (v_blocks_allocated vdi) False) entries then (Inl EINVAL, f)
                        else if v_image_type vdi = VDI_TYPE_DIFF then
                          (case parent of Inl e \<Rightarrow> (Inl e, f) | Inr p \<Rightarrow> (Inr (vdi\<lparr>v_parent := Some p\<rparr>), f))
                        else (Inr vdi, f))))"

lemma vdi_check_map_range:
  "vdi_check_map used es \<Longrightarrow> \<forall>e \<in> set es. map_special e \<or> e < length used \<and> \<not> used ! e"
proof (induction used es rule: vdi_check_map.induct)
  case (2 used e es)
  show ?case
  proof (cases "map_special e")
    case False
    with 2 have e: "e < length used" "\<not> used ! e"
      and ih: "\<forall>x \<in> set es. map_special x \<or> x < length used \<and> \<not> used[e := True] ! x"
      by (auto simp: map_special_def split: if_splits)
    have "\<not> used ! x" if "x < length used" "\<not> used[e := True] ! x" for x
      using that by (cases "x = e") simp_all
    with e ih show ?thesis by auto
  qed (use 2 in \<open>auto simp: map_special_def\<close>)
qed simp

lemma vdi_check_map_distinct: "vdi_check_map used es \<Longrightarrow> distinct (filter (\<lambda>e. \<not> map_special e) es)"
proof (induction used es rule: vdi_check_map.induct)
  case (2 used e es)
  show ?case
  proof (cases "map_special e")
    case False
    then have ok: "e < length used" "vdi_check_map (used[e := True]) es"
      using 2(3) by (auto simp: map_special_def split: if_splits)
    have "e \<notin> set es" using vdi_check_map_range [OF ok(2)] ok(1) False by auto
    with 2(2) 2(3) False show ?thesis by (auto simp: map_special_def split: if_splits)
  qed (use 2 in \<open>auto simp: map_special_def\<close>)
qed simp

lemma distinct_filter_nth:
  "distinct (filter P es) \<Longrightarrow> i < length es \<Longrightarrow> j < length es \<Longrightarrow> P (es ! i) \<Longrightarrow> es ! j = es ! i \<Longrightarrow> j = i"
proof (induction es arbitrary: i j)
  case (Cons e es)
  have out: "es ! k \<noteq> e" if "k < length es" "P e" for k
    using Cons.prems(1) that nth_mem [OF that(1)] by auto
  have tail: "distinct (filter P es)" using Cons.prems(1) by (simp split: if_splits)
  show ?case
    using Cons.prems(2-5) out Cons.IH [OF tail] by (cases i; cases j) auto
qed simp

lemma vdi_malloc_fields:
  "vdi_malloc v = (r, v') \<Longrightarrow> \<exists>ms. v' = v\<lparr>v_mallocs := ms\<rparr>"
  by (auto simp: vdi_malloc_def split: list.splits intro: exI [of _ "v_mallocs v"])

text \<open>
  C11. Opening a VDI file succeeds only with a header, a block map and a file length that satisfy the
  invariant under which every later access is safe: entries inside the file and distinct, a map that
  ends before the data, a geometry that covers the disk.
\<close>

theorem vdi_init_valid:
  fixes vdi :: "'p nextufs_vdi_backend"
  assumes "vdi_init hdr (length (content f)) ms parent f = (Inr vdi, f')"
    and "\<And>p. parent = Inr p \<Longrightarrow> image_on pops pdisk pinv p"
  shows "vdi_inv pops pdisk pinv vdi \<and> content (v_fd vdi) = content f"
proof -
  let ?v = "vdi_of_header hdr ms f :: 'p nextufs_vdi_backend"
  let ?h = "read_le32 hdr VDI_HEADER_SIZE_OFF"
  obtain q1 w1 where m1: "vdi_malloc ?v = (q1, w1)" by (cases "vdi_malloc ?v")
  obtain q2 w2 where m2: "vdi_malloc w1 = (q2, w2)" by (cases "vdi_malloc w1")
  obtain q3 f1 where rd: "nextufs__read_exact_fd (v_block_count w2 * 4) (int (v_map_offset w2)) f = (q3, f1)"
    by (cases "nextufs__read_exact_fd (v_block_count w2 * 4) (int (v_map_offset w2)) f")
  obtain q4 w4 where m4: "vdi_malloc (w2\<lparr>v_fd := f1\<rparr>) = (q4, w4)" by (cases "vdi_malloc (w2\<lparr>v_fd := f1\<rparr>)")
  from vdi_malloc_fields [OF m1] vdi_malloc_fields [OF m2] vdi_malloc_fields [OF m4] obtain ms1 ms2 ms4
    where w: "w1 = ?v\<lparr>v_mallocs := ms1\<rparr>" "w2 = ?v\<lparr>v_mallocs := ms2\<rparr>" "w4 = ?v\<lparr>v_fd := f1, v_mallocs := ms4\<rparr>"
    by (auto simp: vdi_of_header_def)
  have hs: "VDI_UUID_PARENT_OFF + 16 \<le> VDI_SIG_OFF + ?h"
    using assms(1) unfolding vdi_init_def Let_def by (auto split: if_splits)
  have ok: "q1 = Inr ()" "\<not> vdi_header_bad w1 ?h (length (content f))" "q2 = Inr ()" "\<exists>raw. q3 = Inr raw" "q4 = Inr ()"
    using assms(1) m1 m2 rd m4 unfolding vdi_init_def Let_def
    by (auto split: if_splits prod.splits sum.splits)
  from ok(4) obtain raw where raw: "q3 = Inr raw" ..
  let ?es = "map (\<lambda>i. read_le32 raw (i * 4)) [0..<v_block_count w4]"
  have chk: "vdi_check_map (replicate (v_blocks_allocated w4) False) ?es"
    and vdi: "vdi = w4\<lparr>v_block_map := ?es\<rparr> \<or>
      (\<exists>p. parent = Inr p \<and> vdi = w4\<lparr>v_block_map := ?es, v_parent := Some p\<rparr>)"
    using assms(1) m1 m2 rd m4 ok raw unfolding vdi_init_def Let_def
    by (auto split: if_splits sum.splits)
  have none: "v_parent w4 = None" and fd: "v_fd w4 = f1" by (simp_all add: w vdi_of_header_def)
  have "w4\<lparr>v_block_map := ?es\<rparr> = w4\<lparr>v_block_map := ?es, v_parent := None\<rparr>" using none by simp
  with vdi obtain q where q: "vdi = w4\<lparr>v_block_map := ?es, v_parent := q\<rparr>" by metis
  have same: "vdi_geometry vdi = vdi_geometry (w4\<lparr>v_block_map := ?es\<rparr>)" "vdi_map_ok vdi = vdi_map_ok (w4\<lparr>v_block_map := ?es\<rparr>)"
    "vdi_data_end vdi = vdi_data_end w4" "v_fd vdi = f1"
    unfolding q by (simp_all add: vdi_geometry_def vdi_map_ok_def vdi_data_end_def vdi_stride_def fd)
  have bad: "\<not> vdi_header_bad w4 ?h (length (content f))" using ok(2) by (simp add: w vdi_header_bad_def)
  have "VDI_BLOCKS_ALLOC_OFF + 4 \<le> v_map_offset w4"
    using bad hs by (simp add: vdi_header_bad_def VDI_BLOCKS_ALLOC_OFF_def VDI_UUID_PARENT_OFF_def VDI_SIG_OFF_def)
  with bad have geo: "vdi_geometry vdi" unfolding same by (simp add: vdi_geometry_def vdi_header_bad_def)
  have "?es ! i < v_blocks_allocated w4 \<and> (\<forall>j < v_block_count w4. ?es ! j = ?es ! i \<longrightarrow> j = i)"
    if i: "i < v_block_count w4" and plain: "\<not> map_special (?es ! i)" for i
  proof -
    from i have "?es ! i \<in> set ?es" by (intro nth_mem) simp
    with vdi_check_map_range [OF chk] plain have "?es ! i < v_blocks_allocated w4" by fastforce
    moreover have "j = i" if "j < v_block_count w4" "?es ! j = ?es ! i" for j
      using distinct_filter_nth [OF vdi_check_map_distinct [OF chk] _ _ _ that(2)] i that(1) plain by simp
    ultimately show ?thesis by blast
  qed
  then have "vdi_map_ok vdi" unfolding same by (simp add: vdi_map_ok_def)
  moreover have cf: "content (v_fd vdi) = content f" using read_exact_fd_content [OF rd] same(4) by simp
  moreover have "vdi_data_end vdi \<le> length (content (v_fd vdi))"
    unfolding same(3) cf using bad by (simp add: vdi_header_bad_def vdi_data_end_def vdi_stride_def)
  moreover have "image_on pops pdisk pinv p" if "v_parent vdi = Some p" for p
    using that vdi none assms(2) by auto
  ultimately show ?thesis using geo by (simp add: vdi_inv_def)
qed

text \<open>A dynamic image of one block.\<close>

definition sample_vdi_header :: "byte list" where
  "sample_vdi_header = replicate 0x40 0 @ le32_bytes VDI_SIGNATURE @ le32_bytes 0x00010001 @ le32_bytes 0x178 @
     le32_bytes 1 @ replicate 0x104 0 @ le32_bytes 0x1c0 @ le32_bytes 0x200 @ replicate 12 0 @ le32_bytes 512 @
     replicate 4 0 @ le32_bytes 32768 @ replicate 4 0 @ le32_bytes 32768 @ replicate 4 0 @ le32_bytes 1 @ le32_bytes 1 @
     replicate 120 0"

lemma sample_vdi_fields:
  "length sample_vdi_header = 512"
  "read_le32 sample_vdi_header 0x44 = 0x00010001" "read_le32 sample_vdi_header 0x48 = 0x178"
  "read_le32 sample_vdi_header 0x4c = 1" "read_le32 sample_vdi_header 0x154 = 0x1c0"
  "read_le32 sample_vdi_header 0x158 = 0x200" "read_le32 sample_vdi_header 0x168 = 512"
  "read_le32 sample_vdi_header 0x170 = 32768" "read_le32 sample_vdi_header 0x174 = 0"
  "read_le32 sample_vdi_header 0x178 = 32768" "read_le32 sample_vdi_header 0x17c = 0"
  "read_le32 sample_vdi_header 0x180 = 1" "read_le32 sample_vdi_header 0x184 = 1"
  by (simp_all add: sample_vdi_header_def read_le32_eq nth_append le32_bytes_def byte_at_def drop_bit_eq_div)

definition sample_vdi_file :: hostfile where
  "sample_vdi_file = \<lparr>content = sample_vdi_header @ replicate 32768 0, script = []\<rparr>"

definition sample_vdi :: "nextufs_raw_backend nextufs_vdi_backend" where
  "sample_vdi = (vdi_of_header sample_vdi_header [] sample_vdi_file)\<lparr>v_block_map := [0]\<rparr>"

lemma sample_vdi_simps [simp]:
  "v_map_offset sample_vdi = 0x1c0" "v_data_offset sample_vdi = 0x200" "v_block_size sample_vdi = 32768"
  "v_block_extra sample_vdi = 0" "v_block_count sample_vdi = 1" "v_blocks_allocated sample_vdi = 1"
  "v_disk_size sample_vdi = 32768" "v_block_map sample_vdi = [0]" "v_parent sample_vdi = None"
  "v_fd sample_vdi = sample_vdi_file" "v_failed sample_vdi = False"
  by (simp_all add: sample_vdi_def vdi_of_header_def sample_vdi_fields read_le64_eq VDI_BLOCKS_ALLOC_OFF_def)

lemma sample_vdi_ok: "vdi_ok sample_vdi"
  by (simp add: vdi_inv_def vdi_geometry_def vdi_map_ok_def map_special_def VDI_MAP_ZERO_def VDI_MAP_UNALLOCATED_def
      VDI_BLOCKS_ALLOC_OFF_def vdi_data_end_def vdi_stride_def sample_vdi_file_def sample_vdi_fields)

lemma replicate_4: "replicate 4 x = [x, x, x, x]"
  by (simp add: numeral_eq_Suc)

lemma sample_vdi_map: "nextufs__read_exact_fd 4 0x1c0 sample_vdi_file = (Inr (replicate 4 0), sample_vdi_file)"
proof -
  have b: "bytes_at 448 4 (content sample_vdi_file) = replicate 4 0"
    by (simp add: sample_vdi_file_def sample_vdi_header_def bytes_at_def)
  have p: "pread 4 448 sample_vdi_file = (Inr (replicate 4 0), sample_vdi_file)"
    using b by (simp add: pread_def sample_vdi_file_def)
  show ?thesis
    unfolding nextufs__read_exact_fd_def
    by (simp add: read_fd_loop.simps [of 4 448 "[]"] read_fd_loop.simps [of 4 448 "replicate 4 0"] p)
qed

lemma sample_vdi_opens:
  "vdi_init sample_vdi_header 33280 [] (Inl ENOENT) sample_vdi_file = (Inr sample_vdi, sample_vdi_file)"
proof -
  let ?v = "vdi_of_header sample_vdi_header [] sample_vdi_file :: nextufs_raw_backend nextufs_vdi_backend"
  have f: "v_map_offset ?v = 0x1c0" "v_data_offset ?v = 0x200" "v_block_size ?v = 32768" "v_block_extra ?v = 0"
    "v_block_count ?v = 1" "v_blocks_allocated ?v = 1" "v_disk_size ?v = 32768" "v_image_type ?v = 1"
    "v_sector_size ?v = 512" "v_mallocs ?v = []" "v_fd ?v = sample_vdi_file"
    by (simp_all add: vdi_of_header_def sample_vdi_fields read_le64_eq VDI_BLOCKS_ALLOC_OFF_def)
  have m: "vdi_malloc ?v = (Inr (), ?v)" "vdi_malloc (?v\<lparr>v_fd := sample_vdi_file\<rparr>) = (Inr (), ?v)"
    by (simp_all add: vdi_malloc_def vdi_of_header_def)
  have g: "\<not> vdi_header_bad ?v 376 33280" by (simp add: vdi_header_bad_def f VDI_TYPE_DYNAMIC_def)
  have e: "read_le32 (replicate 4 0) 0 = 0" by (simp add: read_le32_eq)
  show ?thesis
    unfolding vdi_init_def Let_def
    by (simp add: m f g sample_vdi_map sample_vdi_fields VDI_HEADER_SIZE_OFF_def VDI_VERSION_OFF_def VDI_SIG_OFF_def
        VDI_UUID_PARENT_OFF_def e VDI_MAP_ZERO_def VDI_MAP_UNALLOCATED_def VDI_TYPE_DIFF_def sample_vdi_def)
qed

theorem vdi_init_valid_witness: "vdi_ok sample_vdi \<and> content (v_fd sample_vdi) = content sample_vdi_file"
proof -
  have len: "length (content sample_vdi_file) = 33280" by (simp add: sample_vdi_file_def sample_vdi_fields)
  show ?thesis
    by (rule vdi_init_valid [of sample_vdi_header sample_vdi_file "[]" "Inl ENOENT" sample_vdi sample_vdi_file])
      (use sample_vdi_opens len in simp_all)
qed

section \<open>Writes to the guest disk\<close>

text \<open>
  C8. On an opened VDI image, whatever the host does, a write changes no byte of the guest disk outside
  its range, allocation of blocks included; when it succeeds the range holds the data; and the image
  stays valid.
\<close>

theorem vdi_write_correct:
  assumes "vdi_ok v" and "0 \<le> off" and "nat off + length buf \<le> v_disk_size v"
    and "nextufs_vdi_backend_write buf off v = (r, v')"
  shows "vdi_ok v' \<and> agree_outside (nat off) (length buf) (vdi_contents v') (vdi_contents v) \<and>
    (r = Inr () \<longrightarrow> vdi_contents v' = overlay (nat off) buf (vdi_contents v))"
  using raw.vdi_write_effect [OF assms(1,2) _ assms(4)] assms(3) by simp

theorem vdi_write_correct_witness:
  "case nextufs_vdi_backend_write [1, 2] 3 sample_vdi of (r, v') \<Rightarrow>
    vdi_ok v' \<and> agree_outside (nat 3) (length [1, 2 :: byte]) (vdi_contents v') (vdi_contents sample_vdi) \<and>
    (r = Inr () \<longrightarrow> vdi_contents v' = overlay (nat 3) [1, 2] (vdi_contents sample_vdi))"
  using vdi_write_correct [OF sample_vdi_ok, of 3 "[1, 2]"] by (auto split: prod.split)

definition sparse_vdi :: "nextufs_raw_backend nextufs_vdi_backend" where
  "sparse_vdi = sample_vdi\<lparr>v_block_map := [VDI_MAP_UNALLOCATED], v_blocks_allocated := 0\<rparr>"

lemma sparse_vdi_ok: "vdi_ok sparse_vdi"
  by (simp add: sparse_vdi_def vdi_inv_def vdi_geometry_def vdi_map_ok_def map_special_def
      VDI_BLOCKS_ALLOC_OFF_def vdi_data_end_def sample_vdi_file_def sample_vdi_fields)

end
