(* ===== verification/Vdi_Session.thy ===== *)
theory Vdi_Session
  imports Vdi_Backend
begin

text \<open>
  The mutations of \<^verbatim>\<open>src/mutate/mutate.c\<close> over a VDI image: the atomicity of an operation was
  proved for every backend that keeps the contract, and the block map keeps it.
\<close>

definition vdi_image_of :: "nextufs_raw_backend nextufs_vdi_backend \<Rightarrow>
    nextufs_raw_backend nextufs_vdi_backend nextufs_image" where
  "vdi_image_of v = \<lparr>backend_ops = Some nextufs_vdi_backend_ops, backend_ctx = v, transaction = None,
     writable = True, unprivileged = False, restore_clean = False, fs_write_active = False,
     source_is_container = True, source_format = NEXTUFS_SOURCE_VDI,
     image_size = int (v_disk_size v), slice_base = 0, slice_size = int (v_disk_size v), label_off = 0,
     label_version = 0, label_secsize = 0, label_front = 0, label_name = [], rootpartition = 0,
     used_disk_label = False, sb = sample_superblock, mallocs = [], clock = 7,
     tmpfile_errno = None, tmpfile_script = []\<rparr>"

definition vdi_session_ok :: "nextufs_raw_backend nextufs_vdi_backend nextufs_write_session \<Rightarrow> bool" where
  "vdi_session_ok s \<longleftrightarrow> image_on nextufs_vdi_backend_ops vdi_contents vdi_ok (s_image s) \<and>
     tmpfile_script (s_image s) = []"

text \<open>
  C9. Over a dynamic or differencing VDI image an operation of a write session succeeds, or leaves
  every byte of the guest disk as it was although it may have allocated blocks, or leaves the session
  marked as failed; the block map stays valid in every case.
\<close>

theorem vdi_session_atomic:
  assumes "w_session ctx" and "vdi_session_ok s"
  shows "case run_operation ctx ip oper s of (r, s') \<Rightarrow>
    vdi_session_ok s' \<and> (r = Inr () \<or>
      vdi_contents (backend_ctx (s_image s')) = vdi_contents (backend_ctx (s_image s)) \<or> s_failed s')"
proof -
  obtain r s' where run: "run_operation ctx ip oper s = (r, s')" by (cases "run_operation ctx ip oper s")
  from raw_vdi.vdi.operation_atomic [OF assms(1) _ _ run] assms(2) show ?thesis
    unfolding run vdi_session_ok_def by simp
qed

theorem vdi_session_atomic_witness:
  "case run_operation (sample_ctx True) (Inr True) (Mkdir [slash, 97] 0x1ed)
      \<lparr>s_image = vdi_image_of sparse_vdi, s_failed = False\<rparr> of (r, s') \<Rightarrow>
    vdi_session_ok s' \<and> (r = Inr () \<or>
      vdi_contents (backend_ctx (s_image s')) = vdi_contents sparse_vdi \<or> s_failed s')"
proof -
  have "vdi_session_ok \<lparr>s_image = vdi_image_of sparse_vdi, s_failed = False\<rparr>"
    by (simp add: vdi_session_ok_def vdi_image_of_def image_on_def sparse_vdi_ok) (simp add: sparse_vdi_def)
  from vdi_session_atomic [OF _ this, of "sample_ctx True" "Inr True" "Mkdir [slash, 97] 0x1ed"]
  show ?thesis by (simp add: sample_ctx_def vdi_image_of_def del: run_operation.simps)
qed

end
