(* ===== verification/Vdi_Published.thy ===== *)
theory Vdi_Published
  imports Vdi_Session
begin

text \<open>
  The block count and the block map in the file. The operations of the backend read the map in memory;
  what is in the file matters to the next open. The code publishes the count and then the entry of
  a new block, and puts both back when one of the writes fails: the file agrees with the memory after
  every operation, unless the backend is marked as failed.
\<close>

section \<open>The map in the file\<close>

definition vdi_stored :: "'p nextufs_vdi_backend \<Rightarrow> bool" where
  "vdi_stored v \<longleftrightarrow> read_le32 (content (v_fd v)) VDI_BLOCKS_ALLOC_OFF = v_blocks_allocated v \<and>
     (\<forall>i < v_block_count v. read_le32 (content (v_fd v)) (v_map_offset v + i * 4) = v_block_map v ! i)"

definition vdi_published :: "'p nextufs_vdi_backend \<Rightarrow> bool" where
  "vdi_published v \<longleftrightarrow> v_failed v \<or> vdi_stored v"

lemma read_le32_cong:
  "(\<And>k. p \<le> k \<Longrightarrow> k < p + 4 \<Longrightarrow> b' ! k = b ! k) \<Longrightarrow> read_le32 b' p = read_le32 b p"
  by (simp add: read_le32_eq)

text \<open>Steps that stay behind the start of the data: they keep what is below.\<close>

definition low_kept :: "'p nextufs_vdi_backend \<Rightarrow> 'p nextufs_vdi_backend \<Rightarrow> bool" where
  "low_kept v u \<longleftrightarrow> v_map_offset u = v_map_offset v \<and> v_data_offset u = v_data_offset v \<and>
     v_block_count u = v_block_count v \<and> v_blocks_allocated u = v_blocks_allocated v \<and>
     v_block_map u = v_block_map v \<and> v_failed u = v_failed v \<and>
     length (content (v_fd v)) \<le> length (content (v_fd u)) \<and>
     (\<forall>k < v_data_offset v. k < length (content (v_fd v)) \<longrightarrow> content (v_fd u) ! k = content (v_fd v) ! k)"

lemma low_kept_refl: "low_kept v v"
  by (simp add: low_kept_def)

lemma low_kept_published:
  assumes "low_kept v u" and "vdi_geometry v" and "vdi_data_end v \<le> length (content (v_fd v))" and "vdi_published v"
  shows "vdi_published u"
proof -
  have geo: "VDI_BLOCKS_ALLOC_OFF + 4 \<le> v_map_offset v" "v_map_offset v + 4 * v_block_count v \<le> v_data_offset v"
    using assms(2) by (simp_all add: vdi_geometry_def)
  have "v_data_offset v \<le> length (content (v_fd v))" using assms(3) by (simp add: vdi_data_end_def)
  then have same: "read_le32 (content (v_fd u)) p = read_le32 (content (v_fd v)) p" if "p + 4 \<le> v_data_offset v" for p
    using that assms(1) by (intro read_le32_cong) (auto simp: low_kept_def)
  have "read_le32 (content (v_fd u)) VDI_BLOCKS_ALLOC_OFF = read_le32 (content (v_fd v)) VDI_BLOCKS_ALLOC_OFF"
    using geo by (intro same) linarith
  moreover have "read_le32 (content (v_fd u)) (v_map_offset v + i * 4) = read_le32 (content (v_fd v)) (v_map_offset v + i * 4)"
    if "i < v_block_count v" for i using geo that by (intro same) linarith
  ultimately show ?thesis using assms(1,4) by (simp add: vdi_published_def vdi_stored_def low_kept_def)
qed

lemma keeps_vdi_malloc: "keeps (low_kept v) vdi_malloc"
  by (rule keepsI) (auto simp: vdi_malloc_def low_kept_def split: list.splits)

lemma keeps_data_write: "v_data_offset v \<le> nat off \<Longrightarrow> keeps (low_kept v) (vdi_fd_io (nextufs__write_exact_fd bs off))"
proof (rule keepsI)
  fix u r t
  assume off: "v_data_offset v \<le> nat off" and u: "low_kept v u"
    and w: "vdi_fd_io (nextufs__write_exact_fd bs off) u = (r, t)"
  then obtain f where f: "nextufs__write_exact_fd bs off (v_fd u) = (r, f)" and t: "t = u\<lparr>v_fd := f\<rparr>"
    by (auto simp: vdi_fd_io_def split: prod.splits)
  from write_exact_fd_effect [OF f] obtain k where k: "content f = file_put (nat off) (take k bs) (content (v_fd u))" by blast
  have "content f ! j = content (v_fd u) ! j" if "j < v_data_offset v" "j < length (content (v_fd u))" for j
    unfolding k using that off by (intro nth_file_put) auto
  then show "low_kept v t" using u by (auto simp: low_kept_def t k length_file_put)
qed

lemma keeps_parent_read: "keeps (low_kept v) (vdi_parent_read n g p)"
  by (rule keepsI) (auto simp: vdi_parent_read_def low_kept_def split: prod.splits)

lemma keeps_inherited: "keeps (low_kept v) (vdi_inherited n g)"
  unfolding vdi_inherited_def Let_def by (intro keeps_rules keeps_parent_read)

section \<open>Publishing an entry\<close>

lemma le32_write_effect:
  assumes "vdi_fd_io (nextufs_vdi_write_le32 (int off) x) u = (r, u')"
  shows "\<exists>f. u' = u\<lparr>v_fd := f\<rparr> \<and> length (content (v_fd u)) \<le> length (content f) \<and>
    (\<forall>k < length (content (v_fd u)). k < off \<or> off + 4 \<le> k \<longrightarrow> content f ! k = content (v_fd u) ! k) \<and>
    (r = Inr () \<longrightarrow> read_le32 (content f) off = u32 x)"
proof -
  obtain f where f: "nextufs__write_exact_fd (le32_bytes x) (int off) (v_fd u) = (r, f)" and u': "u' = u\<lparr>v_fd := f\<rparr>"
    using assms by (auto simp: vdi_fd_io_def nextufs_vdi_write_le32_def split: prod.splits)
  from write_exact_fd_effect [OF f] obtain k where k: "k \<le> 4" "r = Inr () \<longrightarrow> k = 4"
    "content f = file_put off (take k (le32_bytes x)) (content (v_fd u))" by auto
  have "content f ! j = content (v_fd u) ! j" if "j < length (content (v_fd u))" "j < off \<or> off + 4 \<le> j" for j
    unfolding k(3) using that k(1) by (intro nth_file_put) auto
  moreover have "read_le32 (content f) off = u32 x" if "r = Inr ()"
  proof -
    have "content f ! (off + j) = le32_bytes x ! j" if "j < 4" for j
      using that k(2,3) \<open>r = Inr ()\<close> nth_file_put_in [of j "le32_bytes x"] by simp
    from this [of 0] this [of 1] this [of 2] this [of 3] have "read_le32 (content f) off = read_le32 (le32_bytes x) 0"
      unfolding read_le32_eq by (simp add: numeral_2_eq_2)
    then show ?thesis by simp
  qed
  ultimately show ?thesis using k(3) by (intro exI [of _ f]) (auto simp: u' length_file_put)
qed

text \<open>A file that differs from \<open>c\<close> at most in the count and in the entry at \<open>mo\<close>.\<close>

definition elsewhere :: "nat \<Rightarrow> byte list \<Rightarrow> byte list \<Rightarrow> bool" where
  "elsewhere mo c c' \<longleftrightarrow> length c \<le> length c' \<and>
     (\<forall>k < length c. (k < VDI_BLOCKS_ALLOC_OFF \<or> VDI_BLOCKS_ALLOC_OFF + 4 \<le> k) \<and> (k < mo \<or> mo + 4 \<le> k) \<longrightarrow> c' ! k = c ! k)"

lemma elsewhere_stored:
  assumes st: "vdi_stored v" and g: "vdi_geometry v" and len: "vdi_data_end v \<le> length (content (v_fd v))"
    and i: "i < v_block_count v" and el: "elsewhere (v_map_offset v + i * 4) (content (v_fd v)) (content (v_fd u))"
    and same: "v_map_offset u = v_map_offset v" "v_block_count u = v_block_count v"
    and e: "read_le32 (content (v_fd u)) (v_map_offset v + i * 4) = x" "v_block_map u = (v_block_map v)[i := x]"
    and n: "read_le32 (content (v_fd u)) VDI_BLOCKS_ALLOC_OFF = v_blocks_allocated u"
  shows "vdi_stored u"
proof -
  have geo: "VDI_BLOCKS_ALLOC_OFF + 4 \<le> v_map_offset v" "v_map_offset v + 4 * v_block_count v \<le> v_data_offset v"
    "length (v_block_map v) = v_block_count v" using g by (simp_all add: vdi_geometry_def)
  have lc: "v_data_offset v \<le> length (content (v_fd v))" using len by (simp add: vdi_data_end_def)
  have "read_le32 (content (v_fd u)) (v_map_offset v + j * 4) = v_block_map u ! j" if j: "j < v_block_count v" for j
  proof (cases "j = i")
    case False
    then have ne: "v_map_offset v + j * 4 + 4 \<le> v_map_offset v + i * 4 \<or> v_map_offset v + i * 4 + 4 \<le> v_map_offset v + j * 4"
      by linarith
    have "read_le32 (content (v_fd u)) (v_map_offset v + j * 4) = read_le32 (content (v_fd v)) (v_map_offset v + j * 4)"
    proof (rule read_le32_cong)
      fix k assume k: "v_map_offset v + j * 4 \<le> k" "k < v_map_offset v + j * 4 + 4"
      then have "k < length (content (v_fd v))" "VDI_BLOCKS_ALLOC_OFF + 4 \<le> k" using j geo lc by linarith+
      moreover have "k < v_map_offset v + i * 4 \<or> v_map_offset v + i * 4 + 4 \<le> k" using k ne by linarith
      ultimately show "content (v_fd u) ! k = content (v_fd v) ! k" using el by (simp add: elsewhere_def)
    qed
    then show ?thesis using st j False by (simp add: vdi_stored_def e(2))
  qed (use e i geo in simp)
  with n same show ?thesis by (simp add: vdi_stored_def)
qed

lemma publish_published:
  assumes g: "vdi_geometry v" and len: "vdi_data_end v \<le> length (content (v_fd v))" and i: "i < v_block_count v"
    and room: "v_blocks_allocated v < v_block_count v" and pub: "vdi_published v"
    and run: "vdi_publish i (v_block_map v ! i) (v_blocks_allocated v) v = (r, v')"
  shows "vdi_published v'"
proof -
  have st: "vdi_stored v" if "\<not> v_failed v" using pub that by (simp add: vdi_published_def)
  let ?mo = "v_map_offset v + i * 4" let ?co = "VDI_BLOCKS_ALLOC_OFF" let ?c = "content (v_fd v)"
  have geo: "?co + 4 \<le> v_map_offset v" "v_map_offset v + 4 * v_block_count v \<le> v_data_offset v"
    "v_block_count v \<le> 2 ^ 24" using g by (simp_all add: vdi_geometry_def)
  have lc: "v_data_offset v \<le> length ?c" using len by (simp add: vdi_data_end_def)
  have el: "elsewhere ?mo ?c ?c" by (simp add: elsewhere_def)
  have mo: "int (v_map_offset v) + int i * 4 = int ?mo" by simp
  let ?W = "bind_io (nextufs_vdi_write_le32 (int ?co) (v_blocks_allocated v + 1)) (\<lambda>_. nextufs_vdi_write_le32 (int ?mo) (v_blocks_allocated v))"
  obtain q1 u1 where w1: "vdi_fd_io (nextufs_vdi_write_le32 (int ?co) (v_blocks_allocated v + 1)) v = (q1, u1)"
    by (cases "vdi_fd_io (nextufs_vdi_write_le32 (int ?co) (v_blocks_allocated v + 1)) v")
  obtain q2 u2 where w2: "vdi_fd_io (nextufs_vdi_write_le32 (int ?mo) (v_blocks_allocated v)) u1 = (q2, u2)"
    by (cases "vdi_fd_io (nextufs_vdi_write_le32 (int ?mo) (v_blocks_allocated v)) u1")
  from le32_write_effect [OF w1] obtain f1 where u1: "u1 = v\<lparr>v_fd := f1\<rparr>" and l1: "length ?c \<le> length (content f1)"
    and k1: "\<And>k. k < length ?c \<Longrightarrow> k < ?co \<or> ?co + 4 \<le> k \<Longrightarrow> content f1 ! k = ?c ! k"
    and r1: "q1 = Inr () \<Longrightarrow> read_le32 (content f1) ?co = u32 (v_blocks_allocated v + 1)" by blast
  from le32_write_effect [OF w2] u1 obtain f2 where u2: "u2 = v\<lparr>v_fd := f2\<rparr>" and l2: "length (content f1) \<le> length (content f2)"
    and k2: "\<And>k. k < length (content f1) \<Longrightarrow> k < ?mo \<or> ?mo + 4 \<le> k \<Longrightarrow> content f2 ! k = content f1 ! k"
    and r2: "q2 = Inr () \<Longrightarrow> read_le32 (content f2) ?mo = u32 (v_blocks_allocated v)" by auto
  have e1: "elsewhere ?mo ?c (content f1)" using l1 k1 by (auto simp: elsewhere_def)
  have e2: "elsewhere ?mo ?c (content f2)"
  proof -
    have "content f2 ! k = ?c ! k" if "k < length ?c" "k < ?co \<or> ?co + 4 \<le> k" "k < ?mo \<or> ?mo + 4 \<le> k" for k
      using k1 [OF that(1,2)] k2 [of k] that l1 by simp
    with l1 l2 show ?thesis by (auto simp: elsewhere_def)
  qed
  have both: "vdi_fd_io ?W v = (case q1 of Inl e \<Rightarrow> (Inl e, u1) | Inr _ \<Rightarrow> (q2, u2))"
    using w1 w2 by (auto simp: vdi_fd_io_bind bind_io_def split: sum.splits)
  show ?thesis
  proof (cases "q1 = Inr () \<and> q2 = Inr ()")
    case True
    have cnt: "read_le32 (content f2) ?co = read_le32 (content f1) ?co"
      using k2 l1 lc geo i by (intro read_le32_cong) auto
    have small: "u32 (v_blocks_allocated v + 1) = v_blocks_allocated v + 1" "u32 (v_blocks_allocated v) = v_blocks_allocated v"
      using room geo(3) by (auto intro!: u32_id)
    have v': "v' = u2\<lparr>v_block_map := (v_block_map u2)[i := v_blocks_allocated v], v_blocks_allocated := v_blocks_allocated u2 + 1\<rparr>"
    proof -
      have "vdi_fd_io ?W v = (Inr (), u2)" using both True by simp
      from run [unfolded vdi_publish_def Let_def mo this prod.case sum.case] show ?thesis by simp
    qed
    have "vdi_stored v'" if "\<not> v_failed v"
      by (rule elsewhere_stored [OF st [OF that] g len i]) (use e2 r1 r2 True cnt small in \<open>simp_all add: v' u2\<close>)
    moreover have "v_failed v' = v_failed v" by (simp add: v' u2)
    ultimately show ?thesis by (auto simp: vdi_published_def)
  next
    case bad: False
    obtain x u where bw: "vdi_fd_io ?W v = (Inl x, u)" and u: "u = u1 \<or> u = u2"
      using both bad by (cases q1; cases q2) auto
    from u obtain f where uf: "u = v\<lparr>v_fd := f\<rparr>" and ef: "elsewhere ?mo ?c (content f)" using u1 u2 e1 e2 by auto
    obtain q3 v3 where w3: "vdi_fd_io (nextufs_vdi_write_le32 (int ?mo) (v_block_map v ! i)) u = (q3, v3)"
      by (cases "vdi_fd_io (nextufs_vdi_write_le32 (int ?mo) (v_block_map v ! i)) u")
    from le32_write_effect [OF w3] uf obtain f3 where v3: "v3 = v\<lparr>v_fd := f3\<rparr>" and l3: "length (content f) \<le> length (content f3)"
      and k3: "\<And>k. k < length (content f) \<Longrightarrow> k < ?mo \<or> ?mo + 4 \<le> k \<Longrightarrow> content f3 ! k = content f ! k"
      and r3: "q3 = Inr () \<Longrightarrow> read_le32 (content f3) ?mo = u32 (v_block_map v ! i)" by auto
    obtain q4 v4 where w4: "vdi_fd_io (nextufs_vdi_write_le32 (int ?co) (v_blocks_allocated v3)) v3 = (q4, v4)"
      by (cases "vdi_fd_io (nextufs_vdi_write_le32 (int ?co) (v_blocks_allocated v3)) v3")
    from le32_write_effect [OF w4] v3 obtain f4 where v4: "v4 = v\<lparr>v_fd := f4\<rparr>" and l4: "length (content f3) \<le> length (content f4)"
      and k4: "\<And>k. k < length (content f3) \<Longrightarrow> k < ?co \<or> ?co + 4 \<le> k \<Longrightarrow> content f4 ! k = content f3 ! k"
      and r4: "q4 = Inr () \<Longrightarrow> read_le32 (content f4) ?co = u32 (v_blocks_allocated v3)" by auto
    have pe: "vdi_publish i (v_block_map v ! i) (v_blocks_allocated v) v =
        (if q3 \<noteq> Inr () \<or> q4 \<noteq> Inr () then (Inl EUCLEAN, v4\<lparr>v_failed := True\<rparr>) else (Inl x, v4))"
      unfolding vdi_publish_def Let_def mo bw prod.case sum.case w3 w4 ..
    show ?thesis
    proof (cases "q3 = Inr () \<and> q4 = Inr ()")
      case False
      then have "v' = v4\<lparr>v_failed := True\<rparr>" using run unfolding pe by (auto split: if_splits)
      then show ?thesis by (simp add: vdi_published_def)
    next
      case True
      then have v': "v' = v4" using run unfolding pe by simp
      have lf: "length ?c \<le> length (content f)" using ef by (simp add: elsewhere_def)
      have ent: "read_le32 (content f4) ?mo = read_le32 (content f3) ?mo"
        using k4 l3 lf lc geo i by (intro read_le32_cong) auto
      have "content f4 ! k = ?c ! k" if "k < length ?c" "k < ?co \<or> ?co + 4 \<le> k" "k < ?mo \<or> ?mo + 4 \<le> k" for k
        using k4 [of k] k3 [of k] that lf l3 ef by (simp add: elsewhere_def)
      then have e4: "elsewhere ?mo ?c (content f4)" using lf l3 l4 by (auto simp: elsewhere_def)
      have "vdi_stored v4" if nf: "\<not> v_failed v"
      proof -
        note s = st [OF nf]
        have stv: "read_le32 ?c ?mo = v_block_map v ! i" "read_le32 ?c ?co = v_blocks_allocated v"
          using s i by (simp_all add: vdi_stored_def)
        have small: "u32 (v_block_map v ! i) = v_block_map v ! i" "u32 (v_blocks_allocated v) = v_blocks_allocated v"
          using read_le32_less [of ?c ?mo] read_le32_less [of ?c ?co] unfolding stv by (auto intro!: u32_id)
        show ?thesis
          by (rule elsewhere_stored [OF s g len i, where x = "v_block_map v ! i"]) (use e4 r3 r4 True ent small in \<open>simp_all add: v4 v3\<close>)
      qed
      moreover have "v_failed v4 = v_failed v" by (simp add: v4)
      ultimately show ?thesis by (auto simp: v' vdi_published_def)
    qed
  qed
qed

lemma materialize_published:
  fixes v :: "'p nextufs_vdi_backend"
  assumes g: "vdi_geometry v" and len: "vdi_data_end v \<le> length (content (v_fd v))" and i: "i < v_block_count v"
    and pub: "vdi_published v" and run: "nextufs_vdi_materialize_block i v = (r, v')"
  shows "vdi_published v'"
proof (cases "map_special (v_block_map v ! i) \<and> v_blocks_allocated v < v_block_count v")
  case False
  then have "v' = v" using run unfolding nextufs_vdi_materialize_block_def bind_get_io Let_def map_special_def
    by (auto simp: ret_def fail_def split: if_splits)
  with pub show ?thesis by simp
next
  case True
  let ?e = "v_block_map v ! i" let ?off = "int (v_data_offset v) + int (v_blocks_allocated v * vdi_stride v)"
  define pre :: "('p nextufs_vdi_backend, unit) io" where "pre = bind_io vdi_malloc (\<lambda>_. bind_io (if ?e = VDI_MAP_UNALLOCATED
      then vdi_inherited (v_block_size v) (i * v_block_size v) else ret (replicate (v_block_size v) 0)) (\<lambda>buf.
      bind_io (if v_block_extra v \<noteq> 0
                then bind_io vdi_malloc (\<lambda>_. vdi_fd_io (nextufs__write_exact_fd (replicate (v_block_extra v) 0) ?off))
                else ret ()) (\<lambda>_. vdi_fd_io (nextufs__write_exact_fd buf (?off + int (v_block_extra v))))))"
  have assoc: "bind_io (bind_io m f) h = bind_io m (\<lambda>x. bind_io (f x) h)"
    for m :: "('p nextufs_vdi_backend, 'x) io" and f :: "'x \<Rightarrow> ('p nextufs_vdi_backend, 'y) io" and h :: "'y \<Rightarrow> ('p nextufs_vdi_backend, 'z) io"
    by (rule ext) (auto simp: bind_io_def split: prod.splits sum.splits)
  have off: "v_data_offset v \<le> nat ?off" "v_data_offset v \<le> nat (?off + int (v_block_extra v))"
    by (simp_all add: nat_add_distrib)
  have keep: "keeps (low_kept v) pre"
    unfolding pre_def by (intro keeps_rules keeps_vdi_malloc keeps_inherited keeps_data_write off)
  have eq: "nextufs_vdi_materialize_block i v = bind_io pre (\<lambda>_. vdi_publish i ?e (v_blocks_allocated v)) v"
    using True unfolding nextufs_vdi_materialize_block_def pre_def bind_get_io Let_def map_special_def assoc
    by (auto simp del: of_nat_mult)
  obtain q u where p: "pre v = (q, u)" by (cases "pre v")
  have lk: "low_kept v u" by (rule keepsD [OF keep low_kept_refl p])
  note up = low_kept_published [OF lk g len pub]
  show ?thesis
  proof (cases q)
    case (Inl x)
    then have "v' = u" using run eq p by (simp add: bind_io_def)
    with up show ?thesis by simp
  next
    case (Inr x)
    then have pu: "vdi_publish i (v_block_map u ! i) (v_blocks_allocated u) u = (r, v')"
      using run eq p lk by (simp add: bind_io_def low_kept_def)
    have shape: "v_block_size u = v_block_size v \<and> v_disk_size u = v_disk_size v \<and> v_block_extra u = v_block_extra v"
    proof -
      have "keeps (\<lambda>u. v_block_size u = v_block_size v \<and> v_disk_size u = v_disk_size v \<and> v_block_extra u = v_block_extra v) pre"
        unfolding pre_def vdi_inherited_def Let_def
        by (intro keeps_rules; auto simp: keeps_def vdi_malloc_def vdi_parent_read_def vdi_fd_io_def split: list.splits prod.splits)
      from keepsD [OF this _ p] show ?thesis by simp
    qed
    show ?thesis
    proof (rule publish_published [OF _ _ _ _ up pu])
      show "vdi_geometry u" using g lk shape by (simp add: vdi_geometry_def low_kept_def)
      show "vdi_data_end u \<le> length (content (v_fd u))"
        using len lk shape by (simp add: vdi_data_end_def vdi_stride_def low_kept_def)
    qed (use i True lk in \<open>simp_all add: low_kept_def\<close>)
  qed
qed

context backend
begin

lemma write_loop_published:
  "vdi_write_loop buf off pos v = (r, v') \<Longrightarrow> vdi_inv ops disk binv v \<Longrightarrow> vdi_published v \<Longrightarrow>
   off + length buf \<le> v_disk_size v \<Longrightarrow> vdi_published v'"
proof (induction "length buf - pos" arbitrary: pos v rule: less_induct)
  case less
  show ?case
  proof (cases "pos < length buf")
    case False
    with less.prems show ?thesis by (simp add: vdi_write_loop.simps)
  next
    case True
    let ?bs = "v_block_size v" let ?g = "off + pos"
    let ?n = "min (?bs - ?g mod ?bs) (length buf - pos)" let ?buf = "bytes_at pos ?n buf"
    have geo: "vdi_geometry v" "0 < ?bs" "vdi_data_end v \<le> length (content (v_fd v))"
      using less.prems(2) by (simp_all add: vdi_inv_def vdi_geometry_def)
    have g: "?g < v_disk_size v" using True less.prems(4) by simp
    note b = vdi_block_of [OF geo(1) g]
    obtain q u where m: "nextufs_vdi_materialize_block (?g div ?bs) v = (q, u)"
      by (cases "nextufs_vdi_materialize_block (?g div ?bs) v")
    note pu = materialize_published [OF geo(1,3) b(1) less.prems(3) m]
    from materialize_effect [OF less.prems(2) b(1) m] have e: "vdi_inv ops disk binv u" "v_block_size u = ?bs"
      "v_block_count u = v_block_count v" "v_disk_size u = v_disk_size v"
      "q = Inr () \<longrightarrow> \<not> map_special (v_block_map u ! (?g div ?bs))" by (auto simp: same_shape_def)
    have gu: "vdi_geometry u" "vdi_data_end u \<le> length (content (v_fd u))" using e(1) by (simp_all add: vdi_inv_def)
    let ?w = "vdi_file_off u (v_block_map u ! (?g div ?bs)) (?g mod ?bs)"
    obtain p w where wr: "vdi_fd_io (nextufs__write_exact_fd ?buf ?w) u = (p, w)"
      by (cases "vdi_fd_io (nextufs__write_exact_fd ?buf ?w) u")
    have unf: "vdi_write_loop buf off pos v = (case q of Inl x \<Rightarrow> (Inl x, u)
        | Inr _ \<Rightarrow> case p of Inl x \<Rightarrow> (Inl x, w) | Inr _ \<Rightarrow> vdi_write_loop buf off (pos + ?n) w)"
      using True b(1) geo(2) e(5) wr m
      by (subst vdi_write_loop.simps) (auto simp: Let_def b(2) map_special_def split: sum.splits)
    have "v_data_offset u \<le> nat ?w" by (simp add: vdi_file_off_nat)
    from keepsD [OF keeps_data_write [OF this] low_kept_refl wr] have lk: "low_kept u w" .
    note pw = low_kept_published [OF lk gu pu]
    show ?thesis
    proof (cases "q = Inr () \<and> p = Inr ()")
      case False
      then have "v' = u \<or> v' = w" using less.prems(1) unfolding unf by (auto split: sum.splits)
      with pu pw show ?thesis by blast
    next
      case ok: True
      have n: "pos + ?n \<le> length buf" using True by simp
      have lb: "length ?buf = ?n" using n by simp
      have gc: "?g + ?n \<le> v_disk_size v" using n less.prems(4) by linarith
      from vdi_chunk_write [OF e(1), of ?g ?buf "length buf - pos" p w] ok wr lb gc g e(2,4,5)
      have w: "vdi_inv ops disk binv w" "same_shape u w" by auto
      have "0 < ?n" using True mod_less_divisor [OF geo(2), of ?g] by simp
      then have sm: "length buf - (pos + ?n) < length buf - pos" using True by linarith
      have "vdi_write_loop buf off (pos + ?n) w = (r, v')" using less.prems(1) ok unfolding unf by simp
      from less.hyps [OF sm this w(1) pw] less.prems(4) e(4) w(2) show ?thesis by (simp add: same_shape_def)
    qed
  qed
qed

lemma write_published:
  assumes "vdi_inv ops disk binv v" and "vdi_published v" and "nextufs_vdi_backend_write buf off v = (r, v')"
  shows "vdi_published v'"
proof (cases "v_failed v \<or> off < 0 \<or> v_disk_size v < nat off \<or> v_disk_size v - nat off < length buf")
  case True
  then have "v' = v" using assms(3) by (auto simp: nextufs_vdi_backend_write_def split: if_splits)
  with assms(2) show ?thesis by simp
next
  case False
  then have "vdi_write_loop buf (nat off) 0 v = (r, v')" using assms(3) by (auto simp: nextufs_vdi_backend_write_def)
  from write_loop_published [OF this assms(1,2)] False show ?thesis by auto
qed

end

text \<open>An image that was just opened has the map of its file.\<close>

lemma vdi_init_stored:
  fixes vdi :: "'p nextufs_vdi_backend"
  assumes "vdi_init hdr n ms parent f = (Inr vdi, f')" and "hdr = bytes_at 0 512 (content f)" and "512 \<le> length (content f)"
  shows "vdi_stored vdi \<and> \<not> v_failed vdi"
proof -
  let ?v = "vdi_of_header hdr ms f :: 'p nextufs_vdi_backend"
  obtain q1 w1 where m1: "vdi_malloc ?v = (q1, w1)" by (cases "vdi_malloc ?v")
  obtain q2 w2 where m2: "vdi_malloc w1 = (q2, w2)" by (cases "vdi_malloc w1")
  obtain q3 f1 where rd: "nextufs__read_exact_fd (v_block_count w2 * 4) (int (v_map_offset w2)) f = (q3, f1)"
    by (cases "nextufs__read_exact_fd (v_block_count w2 * 4) (int (v_map_offset w2)) f")
  obtain q4 w4 where m4: "vdi_malloc (w2\<lparr>v_fd := f1\<rparr>) = (q4, w4)" by (cases "vdi_malloc (w2\<lparr>v_fd := f1\<rparr>)")
  from vdi_malloc_fields [OF m1] vdi_malloc_fields [OF m2] vdi_malloc_fields [OF m4] obtain ms2 ms4
    where w: "w2 = ?v\<lparr>v_mallocs := ms2\<rparr>" "w4 = ?v\<lparr>v_fd := f1, v_mallocs := ms4\<rparr>"
    by (auto simp: vdi_of_header_def)
  from assms(1) m1 m2 rd m4 obtain raw where raw: "q3 = Inr raw"
    and vdi: "vdi = w4\<lparr>v_block_map := map (\<lambda>i. read_le32 raw (i * 4)) [0..<v_block_count w4]\<rparr> \<or>
      (\<exists>p. vdi = w4\<lparr>v_block_map := map (\<lambda>i. read_le32 raw (i * 4)) [0..<v_block_count w4], v_parent := Some p\<rparr>)"
    unfolding vdi_init_def Let_def by (auto split: if_splits prod.splits sum.splits)
  note cf = read_exact_fd_content [OF rd]
  from read_exact_fd_Inr [OF rd [unfolded raw]] have rb: "raw = bytes_at (v_map_offset w2) (v_block_count w2 * 4) (content f)"
    and rl: "length raw = v_block_count w2 * 4" unfolding nat_int by blast+
  have room: "v_map_offset w2 + v_block_count w2 * 4 \<le> length (content f)" if "0 < v_block_count w2"
    using read_exact_fd_Inr [OF rd [unfolded raw]] that by simp
  have hd: "read_le32 hdr p = read_le32 (content f) p" if "p + 4 \<le> 512" for p
    unfolding assms(2) using that assms(3) by (intro read_le32_cong) simp
  have en: "read_le32 raw (i * 4) = read_le32 (content f) (v_map_offset w2 + i * 4)" if "i < v_block_count w2" for i
  proof -
    have "raw ! (i * 4 + k) = content f ! (v_map_offset w2 + i * 4 + k)" if "k < 4" for k
    proof -
      have "i * 4 + k < v_block_count w2 * 4" using that \<open>i < v_block_count w2\<close> by linarith
      moreover have "v_map_offset w2 + v_block_count w2 * 4 \<le> length (content f)" using room that \<open>i < v_block_count w2\<close> by simp
      ultimately show ?thesis unfolding rb by (subst nth_bytes_at) (simp_all add: add.assoc)
    qed
    from this [of 0] this [of 1] this [of 2] this [of 3] show ?thesis by (simp add: read_le32_eq)
  qed
  show ?thesis
    using vdi en hd [of VDI_BLOCKS_ALLOC_OFF] cf w
    by (auto simp: vdi_stored_def vdi_of_header_def VDI_BLOCKS_ALLOC_OFF_def)
qed

section \<open>Properties\<close>

text \<open>The image of one unallocated block, with the count and the entry in its file.\<close>

definition sparse_stored :: "nextufs_raw_backend nextufs_vdi_backend" where
  "sparse_stored = sparse_vdi\<lparr>v_fd := \<lparr>content = overlay 0x184 (le32_bytes 0)
     (overlay 0x1c0 (le32_bytes VDI_MAP_UNALLOCATED) (content sample_vdi_file)), script = []\<rparr>\<rparr>"

lemma sparse_stored_ok: "vdi_ok sparse_stored" "vdi_published sparse_stored" "v_block_count sparse_stored = 1"
proof -
  show c: "v_block_count sparse_stored = 1" by (simp add: sparse_stored_def sparse_vdi_def)
  have len: "length (content sample_vdi_file) = 33280" by (simp add: sample_vdi_file_def sample_vdi_fields)
  then show "vdi_ok sparse_stored"
    using sparse_vdi_ok by (simp add: sparse_stored_def vdi_inv_def vdi_geometry_def vdi_map_ok_def vdi_data_end_def vdi_stride_def sparse_vdi_def)
  have f: "v_blocks_allocated sparse_stored = 0" "v_map_offset sparse_stored = 0x1c0" "v_block_map sparse_stored = [VDI_MAP_UNALLOCATED]"
    by (simp_all add: sparse_stored_def sparse_vdi_def)
  have "read_le32 (content (v_fd sparse_stored)) 0x184 = u32 0"
    unfolding sparse_stored_def using len by (simp add: read_le32_bytes)
  moreover have "read_le32 (content (v_fd sparse_stored)) 0x1c0 = u32 VDI_MAP_UNALLOCATED"
  proof -
    have "read_le32 (content (v_fd sparse_stored)) 0x1c0 =
        read_le32 (overlay 0x1c0 (le32_bytes VDI_MAP_UNALLOCATED) (content sample_vdi_file)) 0x1c0"
      unfolding sparse_stored_def using len by (intro read_le32_cong) (simp add: nth_overlay)
    then show ?thesis using len by (simp add: read_le32_bytes)
  qed
  ultimately show "vdi_published sparse_stored"
    by (simp add: vdi_published_def vdi_stored_def f c VDI_BLOCKS_ALLOC_OFF_def VDI_MAP_UNALLOCATED_def u32_def)
qed

text \<open>
  C10. Allocating a block, which writes a block of data, the block count and the map entry, is invisible
  to the guest however it ends: no byte of its disk changes, and the image stays valid. After a success
  the block has an entry of its own. And when the count and the map in the file were those in memory, they
  still are, unless the backend is marked as failed: on success the new count and entry are in the file, and
  on an error both are put back.
\<close>

theorem materialize_invisible:
  assumes "vdi_ok v" and "i < v_block_count v" and "nextufs_vdi_materialize_block i v = (r, v')"
  shows "vdi_ok v' \<and> vdi_contents v' = vdi_contents v \<and>
    (r = Inr () \<longrightarrow> v_block_map v' ! i \<noteq> VDI_MAP_UNALLOCATED \<and> v_block_map v' ! i \<noteq> VDI_MAP_ZERO) \<and>
    (vdi_published v \<longrightarrow> vdi_published v')"
  using raw.materialize_effect [OF assms] materialize_published [OF _ _ assms(2) _ assms(3)] assms(1)
  by (auto simp: map_special_def vdi_inv_def)

theorem materialize_invisible_witness:
  "case nextufs_vdi_materialize_block 0 sparse_stored of (r, v') \<Rightarrow>
    vdi_ok v' \<and> vdi_contents v' = vdi_contents sparse_stored \<and>
    (r = Inr () \<longrightarrow> v_block_map v' ! 0 \<noteq> VDI_MAP_UNALLOCATED \<and> v_block_map v' ! 0 \<noteq> VDI_MAP_ZERO) \<and> vdi_published v'"
  using materialize_invisible [OF sparse_stored_ok(1), of 0] sparse_stored_ok(2,3) by (auto split: prod.split)

text \<open>
  C39. A write to a VDI image, on any schedule of host calls and whatever blocks it allocates, leaves the
  block count and the block map in the file equal to those in memory, or the backend marked as failed, when
  they were equal before (as they are in an image just opened: \<open>vdi_init_stored\<close>).
\<close>

theorem vdi_write_published:
  assumes "vdi_ok v" and "vdi_published v" and "nextufs_vdi_backend_write buf off v = (r, v')"
  shows "vdi_published v'"
  by (rule raw.write_published [OF assms])

theorem vdi_write_published_witness:
  "vdi_published (snd (nextufs_vdi_backend_write [1, 2] 3 sparse_stored))"
  using vdi_write_published [OF sparse_stored_ok(1,2), of "[1, 2]" 3] by (cases "nextufs_vdi_backend_write [1, 2] 3 sparse_stored") auto

end
