(* ===== verification/Dir_Block.thy ===== *)
theory Dir_Block
  imports Directory
begin

text \<open>
  What the operations on one buffer of directory records do to the entries in it: the buffer is
  parsed into its records, and insertion, removal and search are related to the list of the used
  entries. The last section shows where the removal goes wrong.
\<close>

section \<open>Records as data\<close>

lemma and_3: "(x :: nat) AND 3 = x mod 4"
  using take_bit_eq_mask [of 2 x] by (simp add: take_bit_eq_mod mask_eq_exp_minus_1)

lemma and_clear_3: "x < 4294967296 \<Longrightarrow> (x :: nat) AND 0xfffffffc = 4 * (x div 4)"
proof -
  assume x: "x < 4294967296"
  have "0xfffffffc = push_bit 2 (mask 30 :: nat)" by (simp add: mask_eq_exp_minus_1 push_bit_eq_mult)
  moreover have "x AND push_bit 2 (mask 30) = push_bit 2 (drop_bit 2 x AND mask 30)"
    by (rule bit_eqI) (auto simp: bit_and_iff bit_push_bit_iff bit_drop_bit_eq simp del: add_2_eq_Suc)
  moreover have "drop_bit 2 x AND mask 30 = x div 4"
    using x by (simp flip: take_bit_eq_mask add: take_bit_eq_mod drop_bit_eq_div)
  ultimately show ?thesis by (simp add: push_bit_eq_mult)
qed

lemma dirent_size_eq: "n \<le> 255 \<Longrightarrow> nextufs__dirent_size n = 8 + 4 * ((n + 4) div 4)"
  by (simp add: nextufs__dirent_size_def and_clear_3)

lemma dirent_size_bounds:
  assumes "n \<le> 255"
  shows "n + 9 \<le> nextufs__dirent_size n" and "nextufs__dirent_size n mod 4 = 0"
    and "nextufs__dirent_size n \<le> 268"
proof -
  have m: "(n + 4) div 4 * 4 + (n + 4) mod 4 = n + 4" by (rule div_mult_mod_eq)
  have l: "(n + 4) mod 4 < 4" by simp
  show "n + 9 \<le> nextufs__dirent_size n" unfolding dirent_size_eq [OF assms] using m l by linarith
  show "nextufs__dirent_size n mod 4 = 0"
    unfolding dirent_size_eq [OF assms] by (simp add: mod_add_left_eq [symmetric])
  show "nextufs__dirent_size n \<le> 268" unfolding dirent_size_eq [OF assms] using m assms by linarith
qed

text \<open>
  What one record says: its length, and its inode number and name when it is used. An unused record
  may hold a stale name, which nothing reads.
\<close>

definition dirent_at :: "byte list \<Rightarrow> nat \<Rightarrow> (nat \<times> (nat \<times> cstring) option) option" where
  "dirent_at buf off = map_option (\<lambda>ent. (d_reclen ent,
     if d_ino ent = 0 then None else Some (d_ino ent, d_name ent))) (nextufs__read_dirent buf off)"

lemma dirent_at_reclen:
  "dirent_at buf off = Some (r, x) \<Longrightarrow> 8 \<le> r \<and> off + r \<le> length buf \<and> off < length buf"
  by (auto simp: dirent_at_def dest: read_dirent_reclen)

function dir_records :: "byte list \<Rightarrow> nat \<Rightarrow> (nat \<times> (nat \<times> cstring) option) list option" where
  "dir_records buf off =
     (if off < length buf then
        case dirent_at buf off of
          None \<Rightarrow> None
        | Some (r, x) \<Rightarrow> map_option ((#) (r, x)) (dir_records buf (off + r))
      else Some [])"
  by pat_completeness auto
termination
  by (relation "measure (\<lambda>(buf, off). length buf - off)") (auto dest!: dirent_at_reclen)

declare dir_records.simps [simp del]

definition live :: "(nat \<times> (nat \<times> cstring) option) list \<Rightarrow> (nat \<times> cstring) list" where
  "live recs = List.map_filter snd recs"

lemma live_simps [simp]:
  "live [] = []" "live ((r, None) # recs) = live recs" "live ((r, Some e) # recs) = e # live recs"
  by (simp_all add: live_def map_filter_simps)

lemma dir_records_end [simp]: "length buf \<le> off \<Longrightarrow> dir_records buf off = Some []"
  by (simp add: dir_records.simps)

lemma dir_records_step:
  "dirent_at buf off = Some (r, x) \<Longrightarrow> dir_records buf off = map_option ((#) (r, x)) (dir_records buf (off + r))"
  using dirent_at_reclen [of buf off r x] by (simp add: dir_records.simps [of buf off])

lemma dir_records_Cons:
  assumes "dir_records buf off = Some recs" and "off < length buf"
  obtains r x rest where "dirent_at buf off = Some (r, x)" and "recs = (r, x) # rest"
    and "dir_records buf (off + r) = Some rest"
  using assms by (auto simp: dir_records.simps [of buf off] split: option.splits)

section \<open>Reading after writing\<close>

text \<open>Two buffers agree on a range.\<close>

definition same_range :: "nat \<Rightarrow> nat \<Rightarrow> 'a list \<Rightarrow> 'a list \<Rightarrow> bool" where
  "same_range a b xs ys \<longleftrightarrow> length xs = length ys \<and> (\<forall>i. a \<le> i \<and> i < b \<longrightarrow> xs ! i = ys ! i)"

lemma same_range_sub: "same_range a b xs ys \<Longrightarrow> a \<le> a' \<Longrightarrow> b' \<le> b \<Longrightarrow> same_range a' b' xs ys"
  by (auto simp: same_range_def)

lemma dirent_at_unfold:
  "dirent_at buf off = Some (r, x) \<longleftrightarrow>
     off \<le> length buf \<and> 8 \<le> length buf - off \<and> r = nextufs__read_be16 buf (off + 4) \<and>
     8 \<le> r \<and> r mod 4 = 0 \<and> r \<le> length buf - off \<and> r \<le> DIRBLKSIZ - off mod DIRBLKSIZ \<and>
     (let ino = nextufs__read_be32 buf off; n = nextufs__read_be16 buf (off + 6);
          name = bytes_at (off + 8) n buf in
      if ino = 0 then x = None
      else x = Some (ino, name) \<and> n \<noteq> 0 \<and> n \<le> 255 \<and> nextufs__dirent_size n \<le> r \<and>
        0 \<notin> set name \<and> slash \<notin> set name \<and> buf ! (off + 8 + n) = 0)"
  by (auto simp: dirent_at_def nextufs__read_dirent_def Let_def not_less and_3 split: if_splits)

lemma bytes_at_same:
  assumes "same_range a b xs ys" and "a \<le> off" and "off + n \<le> b" and "b \<le> length xs"
  shows "bytes_at off n xs = bytes_at off n ys"
  using assms by (intro nth_equalityI) (auto simp: same_range_def)

lemma read_same:
  assumes "same_range a b xs ys" and "a \<le> off"
  shows "off + 2 \<le> b \<Longrightarrow> nextufs__read_be16 xs off = nextufs__read_be16 ys off"
    and "off + 4 \<le> b \<Longrightarrow> nextufs__read_be32 xs off = nextufs__read_be32 ys off"
  using assms by (auto simp: same_range_def read_be16_eq read_be32_eq)

lemma dirent_at_same:
  assumes "dirent_at xs off = Some (r, x)" and "same_range off (off + r) ys xs"
  shows "dirent_at ys off = Some (r, x)"
proof -
  note u = assms(1) [unfolded dirent_at_unfold]
  let ?n = "nextufs__read_be16 xs (off + 6)"
  have r: "8 \<le> r" "off + r \<le> length xs" using u by auto
  have len: "length ys = length xs" using assms(2) by (simp add: same_range_def)
  have f: "nextufs__read_be32 ys off = nextufs__read_be32 xs off"
    "nextufs__read_be16 ys (off + 4) = nextufs__read_be16 xs (off + 4)"
    "nextufs__read_be16 ys (off + 6) = ?n"
    using read_same [OF assms(2)] r by auto
  show ?thesis
  proof (cases "nextufs__read_be32 xs off = 0")
    case True
    with u f len show ?thesis unfolding dirent_at_unfold by (auto simp: Let_def)
  next
    case False
    with u have n: "?n \<le> 255" "nextufs__dirent_size ?n \<le> r" by (auto simp: Let_def)
    with dirent_size_bounds(1) [OF n(1)] have le: "off + 8 + ?n < off + r" by simp
    have nm: "bytes_at (off + 8) ?n ys = bytes_at (off + 8) ?n xs"
      using bytes_at_same [OF assms(2), of "off + 8" ?n] le r len by simp
    have z: "ys ! (off + 8 + ?n) = xs ! (off + 8 + ?n)"
      using assms(2) le by (simp add: same_range_def)
    show ?thesis using u False f len nm z unfolding dirent_at_unfold by (auto simp: Let_def)
  qed
qed

lemma dir_records_same:
  "dir_records xs off = Some recs \<Longrightarrow> same_range off (length xs) ys xs \<Longrightarrow> dir_records ys off = Some recs"
proof (induction xs off arbitrary: recs rule: dir_records.induct)
  case (1 buf off)
  have len: "length ys = length buf" using "1.prems"(2) by (simp add: same_range_def)
  show ?case
  proof (cases "off < length buf")
    case True
    from dir_records_Cons [OF "1.prems"(1) True] obtain r x rest
      where e: "dirent_at buf off = Some (r, x)" "recs = (r, x) # rest" "dir_records buf (off + r) = Some rest" .
    note b = dirent_at_reclen [OF e(1)]
    have "dirent_at ys off = Some (r, x)"
      using dirent_at_same [OF e(1)] same_range_sub [OF "1.prems"(2), of off "off + r"] b by simp
    moreover have "dir_records ys (off + r) = Some rest"
      using "1.IH" [OF True e(1) refl e(3)] same_range_sub [OF "1.prems"(2), of "off + r" "length buf"] by simp
    ultimately show ?thesis by (simp add: dir_records_step e(2))
  qed (use "1.prems" len in simp)
qed

text \<open>A record that was written reads back, and nothing outside it changes.\<close>

lemma write_dirent:
  assumes "nextufs__write_dirent_raw b p ino r name = Inr b'" and "p + r \<le> length b"
    and "r \<le> DIRBLKSIZ - p mod DIRBLKSIZ" and "0 < ino" and "ino < 2 ^ 32" and "name \<noteq> []" and "0 \<notin> set name"
  shows "dirent_at b' p = Some (r, Some (ino, name)) \<and> length b' = length b \<and>
    (\<forall>i. i < p \<or> p + r \<le> i \<longrightarrow> i < length b \<longrightarrow> b' ! i = b ! i)"
proof -
  let ?n = "length name"
  from assms(1) have n: "?n \<le> 255" and r: "r \<le> DIRBLKSIZ" "r mod 4 = 0" "nextufs__dirent_size ?n \<le> r"
    and sl: "slash \<notin> set name"
    by (auto simp: nextufs__write_dirent_raw_def and_3 split: if_splits)
  from dirent_size_bounds(1) [OF n] r(3) have nr: "?n + 9 \<le> r" by simp
  define z where "z = overlay p (replicate r 0) b"
  define h where "h = nextufs__write_be16 (nextufs__write_be16 (nextufs__write_be32 z p ino) (p + 4) r) (p + 6) (u16 ?n)"
  have b': "b' = overlay (p + 8) name h"
    using assms(1) n r sl by (simp add: nextufs__write_dirent_raw_def and_3 z_def h_def Let_def)
  have lz: "length z = length b" using assms(2) by (simp add: z_def)
  have lh: "length h = length b" using assms(2) nr lz by (simp add: h_def)
  have lb: "length b' = length b" using assms(2) nr lh by (simp add: b')
  have un: "u16 ?n = ?n" using n by (simp add: u16_def)
  have f: "nextufs__read_be32 h p = ino" "nextufs__read_be16 h (p + 4) = r" "nextufs__read_be16 h (p + 6) = ?n"
    using assms(2,5) nr lz r(1) n un by (simp_all add: h_def u16_def DIRBLKSIZ_def)
  have hb: "same_range p (p + 8) b' h"
    using lb lh nr assms(2) by (auto simp: same_range_def b' nth_overlay)
  have f': "nextufs__read_be32 b' p = ino" "nextufs__read_be16 b' (p + 4) = r" "nextufs__read_be16 b' (p + 6) = ?n"
    using read_same [OF hb] f by auto
  have nm: "bytes_at (p + 8) ?n b' = name"
    using nr assms(2) lh by (simp add: b')
  have "b' ! (p + 8 + ?n) = h ! (p + 8 + ?n)" using nr assms(2) lh by (simp add: b' nth_overlay)
  also have "\<dots> = z ! (p + 8 + ?n)"
    using nr assms(2) lz by (simp add: h_def nth_write_be16 nth_write_be32)
  also have "\<dots> = 0" using nr assms(2) by (simp add: z_def nth_overlay)
  finally have nul: "b' ! (p + 8 + ?n) = 0" .
  have le: "8 \<le> length b - p" "r \<le> length b - p" using nr assms(2) by linarith+
  have "dirent_at b' p = Some (r, Some (ino, name))"
    unfolding dirent_at_unfold using assms lb le nr f' nm nul n r sl by (simp add: Let_def)
  moreover have "b' ! i = b ! i" if "i < p \<or> p + r \<le> i" "i < length b" for i
  proof -
    have "b' ! i = h ! i" using that nr lh assms(2) by (auto simp: b' nth_overlay)
    also have "\<dots> = z ! i" using that nr lz assms(2) by (auto simp: h_def nth_write_be16 nth_write_be32)
    also have "\<dots> = b ! i" using that assms(2) by (auto simp: z_def nth_overlay)
    finally show ?thesis .
  qed
  ultimately show ?thesis using lb by simp
qed

lemma read_dirent_name:
  assumes "nextufs__read_dirent buf off = Some ent" and "d_ino ent \<noteq> 0"
  shows "length (d_name ent) = d_namlen ent" and "d_namlen ent \<le> 255" and "d_namlen ent \<noteq> 0"
    and "nextufs__dirent_size (d_namlen ent) \<le> d_reclen ent" and "d_ino ent < 4294967296"
    and "0 \<notin> set (d_name ent)" and "d_reclen ent mod 4 = 0"
proof -
  from assms have n: "d_namlen ent \<le> 255" "nextufs__dirent_size (d_namlen ent) \<le> d_reclen ent"
    and e: "d_name ent = bytes_at (off + 8) (d_namlen ent) buf"
    by (auto simp: nextufs__read_dirent_def Let_def split: if_splits)
  with dirent_size_bounds(1) [OF n(1)] read_dirent_reclen [OF assms(1)]
  show "length (d_name ent) = d_namlen ent" by simp
  from n show "d_namlen ent \<le> 255" "nextufs__dirent_size (d_namlen ent) \<le> d_reclen ent" .
  from assms show "d_namlen ent \<noteq> 0" "d_ino ent < 4294967296" "0 \<notin> set (d_name ent)" "d_reclen ent mod 4 = 0"
    by (auto simp: nextufs__read_dirent_def Let_def and_3 split: if_splits)
qed

lemma used_record:
  assumes "dirent_at buf off = Some (r, Some (i, n))"
  shows "0 < i" and "i < 4294967296" and "length n \<le> 255" and "n \<noteq> []" and "0 \<notin> set n"
    and "nextufs__dirent_size (length n) \<le> r" and "r mod 4 = 0"
  using assms read_dirent_name
  by (auto simp: dirent_at_def split: if_splits) fastforce+

section \<open>Insertion\<close>

definition name_ok :: "cstring \<Rightarrow> bool" where
  "name_ok name \<longleftrightarrow> name \<noteq> [] \<and> 0 \<notin> set name"

lemma dir_records_tail:
  assumes "dir_records b off = Some recs" and "same_range off (length b) b' b" and "length b' = length b"
  shows "dir_records b' off = Some recs"
  using dir_records_same [OF assms(1,2)] .

lemma insert_scan_step:
  assumes "insert_scan ino name b off = Inr (Some b')"
  obtains r x where "dirent_at b off = Some (r, x)" and
    "x = None \<and> nextufs__write_dirent_raw b off ino r name = Inr b'
     \<or> (\<exists>i n. x = Some (i, n) \<and> (let used = nextufs__dirent_size (length n) in
          nextufs__dirent_size (length name) \<le> r - used \<and>
          nextufs__write_dirent_raw (nextufs__write_be16 b (off + 4) (u16 used)) (off + used) ino (u16 (r - used)) name = Inr b'))
     \<or> insert_scan ino name b (off + r) = Inr (Some b')"
proof -
  from assms obtain ent where ent: "nextufs__read_dirent b off = Some ent"
    by (auto simp: insert_scan.simps [of ino name b off] split: if_splits option.splits)
  from assms have lt: "off < length b" by (auto simp: insert_scan.simps [of ino name b off] split: if_splits)
  have d: "dirent_at b off = Some (d_reclen ent, if d_ino ent = 0 then None else Some (d_ino ent, d_name ent))"
    using ent by (simp add: dirent_at_def)
  have nl: "length (d_name ent) = d_namlen ent" if "d_ino ent \<noteq> 0"
    by (rule read_dirent_name(1) [OF ent that])
  have e: "(if d_ino ent = 0 \<and> nextufs__dirent_size (length name) \<le> d_reclen ent then
       (case nextufs__write_dirent_raw b off ino (d_reclen ent) name of Inl e \<Rightarrow> Inl EINVAL | Inr b \<Rightarrow> Inr (Some b))
     else if d_ino ent \<noteq> 0 \<and> nextufs__dirent_size (length name) \<le> d_reclen ent - nextufs__dirent_size (d_namlen ent) then
       (case nextufs__write_dirent_raw (nextufs__write_be16 b (off + 4) (u16 (nextufs__dirent_size (d_namlen ent))))
          (off + nextufs__dirent_size (d_namlen ent)) ino (u16 (d_reclen ent - nextufs__dirent_size (d_namlen ent))) name of
          Inl e \<Rightarrow> Inl EINVAL | Inr b \<Rightarrow> Inr (Some b))
     else insert_scan ino name b (off + d_reclen ent)) = Inr (Some b')"
    using assms lt ent
    by (cases "d_ino ent = 0") (auto simp: insert_scan.simps [of ino name b off] Let_def split: if_splits)
  show ?thesis
    by (rule that [OF d]) (use e nl in \<open>auto simp: Let_def split: if_splits sum.splits\<close>)
qed

text \<open>Changing the length of a used record.\<close>

lemma resize_record:
  assumes d: "dirent_at b off = Some (r, Some (i, n))" and len: "length b' = length b"
    and r': "nextufs__read_be16 b' (off + 4) = r'" "r' mod 4 = 0" "nextufs__dirent_size (length n) \<le> r'"
      "off + r' \<le> length b" "r' \<le> DIRBLKSIZ - off mod DIRBLKSIZ"
    and s1: "same_range off (off + 4) b' b"
    and s2: "same_range (off + 6) (off + nextufs__dirent_size (length n)) b' b"
  shows "dirent_at b' off = Some (r', Some (i, n))"
proof -
  note us = used_record [OF d]
  note sz = dirent_size_bounds [OF us(3)]
  note u = d [unfolded dirent_at_unfold]
  have x: "nextufs__read_be32 b off = i" "n = bytes_at (off + 8) (nextufs__read_be16 b (off + 6)) b"
    "nextufs__read_be16 b (off + 6) \<le> 255" "nextufs__dirent_size (nextufs__read_be16 b (off + 6)) \<le> r"
    "b ! (off + 8 + nextufs__read_be16 b (off + 6)) = 0" "slash \<notin> set n"
    using u by (auto simp: Let_def split: if_splits)
  note b = dirent_at_reclen [OF d]
  from dirent_size_bounds(1) [OF x(3)] x(4) b have le: "off + 8 + nextufs__read_be16 b (off + 6) \<le> length b"
    by linarith
  have ln: "nextufs__read_be16 b (off + 6) = length n" unfolding x(2) using le by simp
  have f: "nextufs__read_be32 b' off = i" "nextufs__read_be16 b' (off + 6) = length n"
    using read_same [OF s1] read_same [OF s2] x(1) ln sz(1) by auto
  have nm: "bytes_at (off + 8) (length n) b' = n"
    using bytes_at_same [OF s2, of "off + 8" "length n"] sz(1) us(6) b x(2) [symmetric] len by (simp add: ln)
  have nul: "b' ! (off + 8 + length n) = 0"
    using s2 sz(1) x(5) by (simp add: same_range_def ln)
  have ge: "off \<le> length b'" "8 \<le> length b' - off" "8 \<le> r'" "r' \<le> length b' - off"
    using len r'(3,4) sz(1) by linarith+
  show ?thesis
    unfolding dirent_at_unfold r'(1) f Let_def nm
    using ge r' us(1,3,4,5) x(6) nul by simp
qed

lemma insert_scan_records:
  assumes "insert_scan ino name b off = Inr (Some b')" and "dir_records b off = Some recs"
    and "0 < ino" and "ino < 2 ^ 32" and "name_ok name"
  shows "length b' = length b \<and> (\<forall>i < off. b' ! i = b ! i) \<and>
    (\<exists>recs' as bs. dir_records b' off = Some recs' \<and> live recs = as @ bs \<and>
       live recs' = as @ (ino, name) # bs)"
  using assms(1,2)
proof (induction "length b - off" arbitrary: off recs rule: less_induct)
  case less
  note nm = assms(5) [unfolded name_ok_def]
  from less.prems(1) have lt: "off < length b"
    by (auto simp: insert_scan.simps [of ino name b off] split: if_splits)
  from less.prems(1) obtain r x where d: "dirent_at b off = Some (r, x)"
    and cases: "x = None \<and> nextufs__write_dirent_raw b off ino r name = Inr b'
     \<or> (\<exists>i n. x = Some (i, n) \<and> (let used = nextufs__dirent_size (length n) in
          nextufs__dirent_size (length name) \<le> r - used \<and>
          nextufs__write_dirent_raw (nextufs__write_be16 b (off + 4) (u16 used)) (off + used) ino (u16 (r - used)) name = Inr b'))
     \<or> insert_scan ino name b (off + r) = Inr (Some b')"
    by (rule insert_scan_step)
  from less.prems(2) lt obtain r0 x0 rest
    where "dirent_at b off = Some (r0, x0)" "recs = (r0, x0) # rest" "dir_records b (off + r0) = Some rest"
    by (rule dir_records_Cons)
  with d have recs: "recs = (r, x) # rest" and rest: "dir_records b (off + r) = Some rest" by simp_all
  note b = dirent_at_reclen [OF d]
  note u = d [unfolded dirent_at_unfold]
  from cases consider
      (free) "x = None" "nextufs__write_dirent_raw b off ino r name = Inr b'"
    | (slack) i n where "x = Some (i, n)"
        "nextufs__dirent_size (length name) \<le> r - nextufs__dirent_size (length n)"
        "nextufs__write_dirent_raw (nextufs__write_be16 b (off + 4) (u16 (nextufs__dirent_size (length n))))
           (off + nextufs__dirent_size (length n)) ino (u16 (r - nextufs__dirent_size (length n))) name = Inr b'"
    | (later) "insert_scan ino name b (off + r) = Inr (Some b')"
    by (auto simp: Let_def)
  then show ?case
  proof cases
    case free
    have "r \<le> DIRBLKSIZ - off mod DIRBLKSIZ" using u by auto
    from write_dirent [OF free(2) _ this assms(3,4)] nm b
    have w: "dirent_at b' off = Some (r, Some (ino, name))" "length b' = length b"
      "\<And>i. i < off \<or> off + r \<le> i \<Longrightarrow> i < length b \<Longrightarrow> b' ! i = b ! i" by auto
    have "dir_records b' (off + r) = Some rest"
      using w by (intro dir_records_tail [OF rest]) (auto simp: same_range_def)
    then have "dir_records b' off = Some ((r, Some (ino, name)) # rest)"
      by (simp add: dir_records_step [OF w(1)])
    then show ?thesis using w b recs free(1)
      by (intro conjI exI [of _ "(r, Some (ino, name)) # rest"] exI [of _ "[]"] exI [of _ "live rest"]) auto
  next
    case slack
    let ?used = "nextufs__dirent_size (length n)"
    note us = used_record [OF d [unfolded slack(1)]]
    note sz = dirent_size_bounds [OF us(3)]
    have len_name: "length name \<le> 255"
      using slack(3) by (auto simp: nextufs__write_dirent_raw_def split: if_splits)
    note szn = dirent_size_bounds [OF len_name]
    have rD: "r \<le> DIRBLKSIZ - off mod DIRBLKSIZ" using u by auto
    then have r1024: "r \<le> 1024" by (simp add: DIRBLKSIZ_def)
    have small: "u16 ?used = ?used" "u16 (r - ?used) = r - ?used"
      using sz r1024 by (simp_all add: u16_def)
    have ge: "9 \<le> r - ?used" and lt': "?used < r" using slack(2) szn(1) by linarith+
    define h where "h = nextufs__write_be16 b (off + 4) ?used"
    have lh: "length h = length b" using b by (simp add: h_def)
    have moff: "(off + ?used) mod DIRBLKSIZ = off mod DIRBLKSIZ + ?used"
    proof -
      have "off mod DIRBLKSIZ + ?used < DIRBLKSIZ" using rD lt' by linarith
      then show ?thesis by (metis mod_add_left_eq mod_less)
    qed
    have wr: "nextufs__write_dirent_raw h (off + ?used) ino (r - ?used) name = Inr b'"
      using slack(3) small by (simp add: h_def)
    have "off + ?used + (r - ?used) \<le> length h" and "r - ?used \<le> DIRBLKSIZ - (off + ?used) mod DIRBLKSIZ"
      using b lt' lh rD moff by linarith+
    from write_dirent [OF wr this assms(3,4)] nm
    have w: "dirent_at b' (off + ?used) = Some (r - ?used, Some (ino, name))" "length b' = length b"
      "\<And>i. i < off + ?used \<or> off + r \<le> i \<Longrightarrow> i < length b \<Longrightarrow> b' ! i = h ! i" using lh lt' by auto
    have hd': "b' ! i = b ! i" if "i < off + 4 \<or> off + 6 \<le> i" "i < off + ?used \<or> off + r \<le> i" "i < length b" for i
      using w(3) [of i] that b by (auto simp: h_def nth_write_be16)
    have "nextufs__read_be16 h (off + 4) = ?used" using b small by (simp add: h_def)
    moreover have s: "same_range off (off + ?used) b' h" using w b lt' lh by (auto simp: same_range_def)
    ultimately have r4: "nextufs__read_be16 b' (off + 4) = ?used" using read_same(1) [OF s, of "off + 4"] sz(1) by simp
    have "dirent_at b' off = Some (?used, Some (i, n))"
      by (rule resize_record [OF d [unfolded slack(1)] w(2) r4 sz(2) order_refl])
        (use b lt' rD hd' w(2) sz(1) in \<open>auto simp: same_range_def\<close>)
    moreover have "dir_records b' (off + r) = Some rest"
      using hd' w(2) b by (intro dir_records_tail [OF rest]) (auto simp: same_range_def)
    then have "dir_records b' (off + ?used) = Some ((r - ?used, Some (ino, name)) # rest)"
      using dir_records_step [OF w(1)] lt' by simp
    ultimately have "dir_records b' off = Some ((?used, Some (i, n)) # (r - ?used, Some (ino, name)) # rest)"
      by (simp add: dir_records_step)
    then show ?thesis using w(2) hd' b recs slack(1)
      by (intro conjI exI [of _ "(?used, Some (i, n)) # (r - ?used, Some (ino, name)) # rest"]
          exI [of _ "[(i, n)]"] exI [of _ "live rest"]) auto
  next
    case later
    have "length b - (off + r) < length b - off" using b by linarith
    from less.hyps [OF this later rest] obtain recs' as bs where
      ih: "length b' = length b" "\<And>i. i < off + r \<Longrightarrow> b' ! i = b ! i" "dir_records b' (off + r) = Some recs'"
        "live rest = as @ bs" "live recs' = as @ (ino, name) # bs" by auto
    have "dirent_at b' off = Some (r, x)"
      using ih by (intro dirent_at_same [OF d]) (auto simp: same_range_def)
    then have "dir_records b' off = Some ((r, x) # recs')" by (simp add: dir_records_step ih(3))
    then show ?thesis using ih recs b
      by (intro conjI exI [of _ "(r, x) # recs'"] exI [of _ "case x of None \<Rightarrow> as | Some e \<Rightarrow> e # as"]
          exI [of _ bs]) (auto split: option.splits)
  qed
qed

section \<open>Removal\<close>

text \<open>No unused record stands behind a used one: the shape in which removal is right.\<close>

fun gapless :: "(nat \<times> (nat \<times> cstring) option) list \<Rightarrow> bool" where
  "gapless [] = True"
| "gapless ((r, None) # recs) = gapless recs"
| "gapless ((r, Some e) # recs) = list_all (\<lambda>(r, x). x \<noteq> None) recs"

lemma remove_scan_step:
  assumes "remove_scan name b off prev = Inr (Some (ino, b'))"
  obtains r x where "dirent_at b off = Some (r, x)" and "off < length b" and
    "x = Some (ino, name) \<and> \<not> (name = [dot] \<or> name = [dot, dot]) \<and>
       (case prev of None \<Rightarrow> b' = nextufs__write_be32 b off 0
        | Some p \<Rightarrow> (\<exists>rp y. dirent_at b p = Some (rp, y) \<and> b' = nextufs__write_be16 b (p + 4) (u16 (rp + r))))
     \<or> (\<forall>i. x \<noteq> Some (i, name)) \<and>
       remove_scan name b (off + r) (if x = None then prev else Some off) = Inr (Some (ino, b'))"
proof -
  from assms obtain ent where ent: "nextufs__read_dirent b off = Some ent"
    by (auto simp: remove_scan.simps [of name b off prev] split: if_splits option.splits)
  from assms have lt: "off < length b" by (auto simp: remove_scan.simps [of name b off prev] split: if_splits)
  have d: "dirent_at b off = Some (d_reclen ent, if d_ino ent = 0 then None else Some (d_ino ent, d_name ent))"
    using ent by (simp add: dirent_at_def)
  show ?thesis
  proof (cases "d_ino ent \<noteq> 0 \<and> d_name ent = name")
    case True
    then have nl: "d_namlen ent = length name" using read_dirent_name(1) [OF ent] by simp
    have "\<not> (name = [dot] \<or> name = [dot, dot]) \<and> ino = d_ino ent \<and>
       (case prev of None \<Rightarrow> b' = nextufs__write_be32 b off 0
        | Some p \<Rightarrow> (\<exists>pe. nextufs__read_dirent b p = Some pe \<and>
            b' = nextufs__write_be16 b (p + 4) (u16 (d_reclen pe + d_reclen ent))))"
      using assms lt ent True nl
      by (auto simp: remove_scan.simps [of name b off prev] split: if_splits option.splits)
    with True show ?thesis
      by (intro that [OF d lt] disjI1) (auto simp: dirent_at_def split: option.splits)
  next
    case False
    then have "remove_scan name b (off + d_reclen ent) (if d_ino ent \<noteq> 0 then Some off else prev) = Inr (Some (ino, b'))"
      using assms lt ent read_dirent_name(1) [OF ent]
      by (auto simp: remove_scan.simps [of name b off prev] split: if_splits)
    with False show ?thesis
      by (intro that [OF d lt] disjI2) auto
  qed
qed

lemma write_be32_same:
  "off + 4 \<le> length b \<Longrightarrow> same_range (off + 4) (length b) (nextufs__write_be32 b off v) b \<and>
     same_range 0 off (nextufs__write_be32 b off v) b"
  by (auto simp: same_range_def nth_write_be32)

lemma write_be16_same:
  "p + 2 \<le> length b \<Longrightarrow> same_range (p + 2) (length b) (nextufs__write_be16 b p v) b \<and>
     same_range 0 p (nextufs__write_be16 b p v) b"
  by (auto simp: same_range_def nth_write_be16)

text \<open>Behind a used record that ends at \<open>off\<close>.\<close>

lemma remove_scan_behind:
  assumes "remove_scan name b off (Some p) = Inr (Some (ino, b'))" and "dir_records b off = Some recs"
    and "list_all (\<lambda>(r, x). x \<noteq> None) recs" and "dirent_at b p = Some (off - p, Some e)" and "p < off"
    and "length b \<le> DIRBLKSIZ"
  shows "length b' = length b \<and> same_range 0 p b' b \<and>
    (\<exists>recs' as bs. dir_records b' p = Some recs' \<and> live recs = as @ (ino, name) # bs \<and>
       live recs' = e # as @ bs \<and> name \<notin> snd ` set as)"
  using assms(1-5)
proof (induction "length b - off" arbitrary: off recs p e rule: less_induct)
  case less
  obtain i n where e: "e = (i, n)" by (cases e)
  from less.prems(1) obtain r x where d: "dirent_at b off = Some (r, x)" and lt: "off < length b"
    and cases: "x = Some (ino, name) \<and> \<not> (name = [dot] \<or> name = [dot, dot]) \<and>
       (\<exists>rp y. dirent_at b p = Some (rp, y) \<and> b' = nextufs__write_be16 b (p + 4) (u16 (rp + r)))
     \<or> (\<forall>i. x \<noteq> Some (i, name)) \<and>
       remove_scan name b (off + r) (if x = None then Some p else Some off) = Inr (Some (ino, b'))"
    by (rule remove_scan_step) auto
  from less.prems(2) lt obtain r0 x0 rest
    where "dirent_at b off = Some (r0, x0)" "recs = (r0, x0) # rest" "dir_records b (off + r0) = Some rest"
    by (rule dir_records_Cons)
  with d have recs: "recs = (r, x) # rest" and rest: "dir_records b (off + r) = Some rest" by simp_all
  note b = dirent_at_reclen [OF d] and bp = dirent_at_reclen [OF less.prems(4)]
  from less.prems(3) recs obtain y where x: "x = Some y" by auto
  from cases x consider
      (here) "x = Some (ino, name)" "b' = nextufs__write_be16 b (p + 4) (u16 (off - p + r))"
    | (later) "y = y" "snd y \<noteq> name" "remove_scan name b (off + r) (Some off) = Inr (Some (ino, b'))"
    using less.prems(4) by (cases y) auto
  then show ?case
  proof cases
    case here
    let ?R = "off - p + r"
    note us = used_record [OF less.prems(4) [unfolded e]] and uso = used_record [OF d [unfolded here(1)]]
    note sz = dirent_size_bounds [OF us(3)]
    have "?R mod 4 = 0" using us(7) uso(7) by presburger
    moreover have "off + r \<le> 1024" using b assms(6) by (simp add: DIRBLKSIZ_def)
    ultimately have R: "p + ?R \<le> length b" "?R \<le> 1024" "?R mod 4 = 0"
      using b less.prems(5) by linarith+
    have uR: "u16 ?R = ?R" using R(2) by (simp add: u16_def)
    have len: "length b' = length b" using bp here(2) by simp
    have s: "same_range (p + 6) (length b) b' b" "same_range 0 (p + 4) b' b"
      using write_be16_same [of "p + 4" b ?R] bp here(2) uR by (simp_all add: ac_simps)
    have pm: "?R \<le> DIRBLKSIZ - p mod DIRBLKSIZ"
    proof -
      have "p mod DIRBLKSIZ = p" using bp assms(6) by simp
      then show ?thesis using R(1) assms(6) by linarith
    qed
    have "dirent_at b' p = Some (?R, Some (i, n))"
      by (rule resize_record [OF less.prems(4) [unfolded e] len _ R(3) _ R(1) pm])
        (use here(2) uR bp us(6) same_range_sub [OF s(1)] same_range_sub [OF s(2)] sz R in auto)
    moreover have "dir_records b' (off + r) = Some rest"
      by (rule dir_records_same [OF rest same_range_sub [OF s(1)]]) (use b bp less.prems(5) in linarith)+
    then have "dir_records b' (p + ?R) = Some rest" using less.prems(5) by simp
    ultimately have "dir_records b' p = Some ((?R, Some e) # rest)" by (simp add: dir_records_step e)
    then show ?thesis
      using len same_range_sub [OF s(2), of 0 p] recs here(1)
      by (intro conjI exI [of _ "(?R, Some e) # rest"] exI [of _ "[]"] exI [of _ "live rest"]) auto
  next
    case later
    have "length b - (off + r) < length b - off" "off < off + r" using b by linarith+
    moreover have "dirent_at b off = Some (off + r - off, Some y)" using d x by simp
    moreover have "list_all (\<lambda>(r, x). x \<noteq> None) rest" using less.prems(3) recs by simp
    ultimately obtain recs' as bs where
      ih: "length b' = length b" "same_range 0 off b' b" "dir_records b' off = Some recs'"
        "live rest = as @ (ino, name) # bs" "live recs' = y # as @ bs" "name \<notin> snd ` set as"
      using less.hyps [OF _ later(3) rest] by blast
    have "dirent_at b' p = Some (off - p, Some e)"
      using less.prems(5) bp by (intro dirent_at_same [OF less.prems(4)] same_range_sub [OF ih(2)]) auto
    then have "dir_records b' p = Some ((off - p, Some e) # recs')"
      using dir_records_step [of b' p] ih(3) less.prems(5) by simp
    then show ?thesis
      using ih recs x later(2) less.prems(5) same_range_sub [OF ih(2), of 0 p]
      by (intro conjI exI [of _ "(off - p, Some e) # recs'"] exI [of _ "y # as"] exI [of _ bs]) auto
  qed
qed

lemma remove_scan_records:
  assumes "remove_scan name b off None = Inr (Some (ino, b'))" and "dir_records b off = Some recs"
    and "gapless recs" and "length b \<le> DIRBLKSIZ"
  shows "length b' = length b \<and> same_range 0 off b' b \<and>
    (\<exists>recs' as bs. dir_records b' off = Some recs' \<and> live recs = as @ (ino, name) # bs \<and>
       live recs' = as @ bs \<and> name \<notin> snd ` set as)"
  using assms(1-3)
proof (induction "length b - off" arbitrary: off recs rule: less_induct)
  case less
  from less.prems(1) obtain r x where d: "dirent_at b off = Some (r, x)" and lt: "off < length b"
    and cases: "x = Some (ino, name) \<and> \<not> (name = [dot] \<or> name = [dot, dot]) \<and> b' = nextufs__write_be32 b off 0
     \<or> (\<forall>i. x \<noteq> Some (i, name)) \<and>
       remove_scan name b (off + r) (if x = None then None else Some off) = Inr (Some (ino, b'))"
    by (rule remove_scan_step) auto
  from less.prems(2) lt obtain r0 x0 rest
    where "dirent_at b off = Some (r0, x0)" "recs = (r0, x0) # rest" "dir_records b (off + r0) = Some rest"
    by (rule dir_records_Cons)
  with d have recs: "recs = (r, x) # rest" and rest: "dir_records b (off + r) = Some rest" by simp_all
  note b = dirent_at_reclen [OF d]
  have mono: "length b - (off + r) < length b - off" using b by linarith
  from cases consider
      (here) "x = Some (ino, name)" "b' = nextufs__write_be32 b off 0"
    | (unused) "x = None" "remove_scan name b (off + r) None = Inr (Some (ino, b'))"
    | (used) y where "x = Some y" "snd y \<noteq> name" "remove_scan name b (off + r) (Some off) = Inr (Some (ino, b'))"
    by (cases x) auto
  then show ?case
  proof cases
    case here
    note s = write_be32_same [of off b 0]
    have len: "length b' = length b" using b here(2) by simp
    have f: "nextufs__read_be32 b' off = 0" "nextufs__read_be16 b' (off + 4) = nextufs__read_be16 b (off + 4)"
      using b here(2) by simp_all
    have "dirent_at b' off = Some (r, None)"
      using d len f unfolding dirent_at_unfold by (auto simp: Let_def)
    moreover have "dir_records b' (off + r) = Some rest"
      using s here(2) b by (intro dir_records_same [OF rest]) (auto intro: same_range_sub)
    ultimately have "dir_records b' off = Some ((r, None) # rest)" by (simp add: dir_records_step)
    then show ?thesis using len s here recs b
      by (intro conjI exI [of _ "(r, None) # rest"] exI [of _ "[]"] exI [of _ "live rest"]) auto
  next
    case unused
    have "gapless rest" using less.prems(3) recs unused(1) by simp
    from less.hyps [OF mono unused(2) rest this] obtain recs' as bs where
      ih: "length b' = length b" "same_range 0 (off + r) b' b" "dir_records b' (off + r) = Some recs'"
        "live rest = as @ (ino, name) # bs" "live recs' = as @ bs" "name \<notin> snd ` set as" by blast
    have "dirent_at b' off = Some (r, x)"
      by (intro dirent_at_same [OF d] same_range_sub [OF ih(2)]) auto
    then have "dir_records b' off = Some ((r, x) # recs')" by (simp add: dir_records_step ih(3))
    then show ?thesis using ih recs unused(1) same_range_sub [OF ih(2), of 0 off]
      by (intro conjI exI [of _ "(r, x) # recs'"] exI [of _ as] exI [of _ bs]) auto
  next
    case used
    have "list_all (\<lambda>(r, x). x \<noteq> None) rest" using less.prems(3) recs used(1) by simp
    moreover have "dirent_at b off = Some (off + r - off, Some y)" using d used(1) by simp
    moreover have "off < off + r" using b by linarith
    ultimately obtain recs' as bs where
      ih: "length b' = length b" "same_range 0 off b' b" "dir_records b' off = Some recs'"
        "live rest = as @ (ino, name) # bs" "live recs' = y # as @ bs" "name \<notin> snd ` set as"
      using remove_scan_behind [OF used(3) rest _ _ _ assms(4)] by blast
    then show ?thesis using recs used
      by (intro conjI exI [of _ recs'] exI [of _ "y # as"] exI [of _ bs]) auto
  qed
qed

section \<open>Search\<close>

definition first_ino :: "cstring \<Rightarrow> (nat \<times> cstring) list \<Rightarrow> nat option" where
  "first_ino name es = map_option fst (find (\<lambda>e. snd e = name) es)"

lemma first_ino_simps [simp]:
  "first_ino name [] = None"
  "first_ino name ((i, n) # es) = (if n = name then Some i else first_ino name es)"
  by (simp_all add: first_ino_def)

text \<open>The callback of \<open>nextufs__find_name_in_directory\<close>.\<close>

definition find_cb :: "cstring \<Rightarrow> nat \<Rightarrow> cstring \<Rightarrow> ('s, nat option) io" where
  "find_cb name = (\<lambda>ino n. ret (if n = name then Some ino else None))"

lemma find_cb_app: "find_cb name i n = ret (if n = name then Some i else None)"
  by (simp add: find_cb_def)

lemma bind_ret: "bind_io (ret x) f = f x"
  by (rule ext) (simp add: bind_io_def ret_def)

lemma dir_entries_find:
  "dir_records b off = Some recs \<Longrightarrow> dir_entries (find_cb name) b off s = (Inr (first_ino name (live recs)), s)"
proof (induction b off arbitrary: recs rule: dir_records.induct)
  case (1 b off)
  show ?case
  proof (cases "off < length b")
    case True
    with "1.prems" obtain r x rest where d: "dirent_at b off = Some (r, x)" and recs: "recs = (r, x) # rest"
      and rest: "dir_records b (off + r) = Some rest" by (rule dir_records_Cons)
    from d obtain ent where ent: "nextufs__read_dirent b off = Some ent" "r = d_reclen ent"
      "x = (if d_ino ent = 0 then None else Some (d_ino ent, d_name ent))"
      by (auto simp: dirent_at_def)
    note IH = "1.IH" [OF True d refl rest]
    show ?thesis
    proof (cases "d_ino ent = 0")
      case True
      with IH ent recs \<open>off < length b\<close> show ?thesis
        by (simp add: dir_entries.simps [of "find_cb name" b off] bind_ret)
    next
      case False
      have nm: "d_namlen ent \<noteq> 0" by (rule read_dirent_name(3) [OF ent(1) False])
      have "dir_entries (find_cb name) b off s = (if d_name ent = name then (Inr (Some (d_ino ent)), s)
          else dir_entries (find_cb name) b (off + r) s)"
        using nm False \<open>off < length b\<close> ent
        by (subst dir_entries.simps) (simp add: bind_ret find_cb_app, simp add: ret_def)
      then show ?thesis using IH ent(3) recs False by simp
    qed
  qed (use "1.prems" in \<open>simp add: dir_entries.simps ret_def\<close>)
qed

section \<open>The entries of a buffer as a map\<close>

lemma first_ino_append:
  "first_ino name (as @ bs) = (case first_ino name as of None \<Rightarrow> first_ino name bs | Some i \<Rightarrow> Some i)"
  by (induction as) auto

lemma first_ino_None: "first_ino name es = None \<longleftrightarrow> name \<notin> snd ` set es"
  by (induction es) (auto split: if_splits)

text \<open>
  C5. Putting an entry into a buffer of well-formed records, where the search for room succeeds,
  is an update of the map that the search for a name computes: the new name is found with its
  inode, every other name as before, and the buffer keeps its length and stays well-formed.
\<close>

theorem insert_entry_correct:
  assumes "dir_records block 0 = Some recs" and "insert_scan ino name block 0 = Inr (Some block')"
    and "0 < ino" and "ino < 2 ^ 32" and "name_ok name" and "name \<notin> snd ` set (live recs)"
  shows "length block' = length block \<and> dir_records block' 0 \<noteq> None \<and>
    dir_entries (find_cb n) block' 0 s =
      (if n = name then (Inr (Some ino), s) else dir_entries (find_cb n) block 0 s)"
proof -
  from insert_scan_records [OF assms(2,1,3-5)] obtain recs' as bs where
    r: "length block' = length block" "dir_records block' 0 = Some recs'" "live recs = as @ bs"
      "live recs' = as @ (ino, name) # bs" by auto
  have none: "first_ino name as = None" unfolding first_ino_None using assms(6) r(3) by auto
  have "first_ino n (live recs') = (if n = name then Some ino else first_ino n (live recs))"
    unfolding r(3,4) using none by (simp add: first_ino_append split: option.split)
  then show ?thesis
    by (simp add: r(1,2) dir_entries_find [OF assms(1)] dir_entries_find [OF r(2)] first_ino_None)
qed

text \<open>
  C6. Removing a name from a directory block in which no unused record stands behind a used one
  takes exactly that name out of the map that the search computes, and returns the inode the search
  found before.
\<close>

theorem remove_entry_correct:
  assumes "dir_records block 0 = Some recs" and "remove_scan name block 0 None = Inr (Some (ino, block'))"
    and "gapless recs" and "length block \<le> DIRBLKSIZ" and "distinct (map snd (live recs))"
  shows "length block' = length block \<and> dir_records block' 0 \<noteq> None \<and>
    dir_entries (find_cb name) block 0 s = (Inr (Some ino), s) \<and>
    dir_entries (find_cb n) block' 0 s =
      (if n = name then (Inr None, s) else dir_entries (find_cb n) block 0 s)"
proof -
  from remove_scan_records [OF assms(2,1,3,4)] obtain recs' as bs where
    r: "length block' = length block" "dir_records block' 0 = Some recs'" "live recs = as @ (ino, name) # bs"
      "live recs' = as @ bs" "name \<notin> snd ` set as" by auto
  have "name \<notin> snd ` set bs" using assms(5) r(3) by (auto simp: image_iff)
  with r(5) have none: "first_ino name as = None" "first_ino name bs = None" by (simp_all add: first_ino_None)
  have "first_ino n (live recs') = (if n = name then None else first_ino n (live recs))"
    "first_ino name (live recs) = Some ino"
    unfolding r(3,4) using none by (simp_all add: first_ino_append split: option.split)
  then show ?thesis
    by (simp add: r(1,2) dir_entries_find [OF assms(1)] dir_entries_find [OF r(2)])
qed

section \<open>Removal behind an unused record\<close>

lemma remove_scan_skip:
  assumes "dirent_at b off = Some (r, x)" and "\<forall>i. x \<noteq> Some (i, name)"
  shows "remove_scan name b off prev = remove_scan name b (off + r) (if x = None then prev else Some off)"
proof -
  from assms(1) obtain ent where ent: "nextufs__read_dirent b off = Some ent" "r = d_reclen ent"
    "x = (if d_ino ent = 0 then None else Some (d_ino ent, d_name ent))" by (auto simp: dirent_at_def)
  have "off < length b" using dirent_at_reclen [OF assms(1)] by blast
  with ent assms(2) show ?thesis
    by (auto simp: remove_scan.simps [of name b off prev] split: if_splits)
qed

lemma remove_scan_here:
  assumes "dirent_at b off = Some (r, Some (ino, name))" and "name \<noteq> [dot]" and "name \<noteq> [dot, dot]"
    and "dirent_at b p = Some (rp, y)"
  shows "remove_scan name b off (Some p) = Inr (Some (ino, nextufs__write_be16 b (p + 4) (u16 (rp + r))))"
proof -
  from assms(1) obtain ent where ent: "nextufs__read_dirent b off = Some ent" "r = d_reclen ent"
    "d_ino ent \<noteq> 0" "ino = d_ino ent" "name = d_name ent" by (auto simp: dirent_at_def split: if_splits)
  from assms(4) obtain pe where "nextufs__read_dirent b p = Some pe" "rp = d_reclen pe"
    by (auto simp: dirent_at_def)
  moreover have "off < length b" using dirent_at_reclen [OF assms(1)] by blast
  ultimately show ?thesis
    using ent assms(2,3) read_dirent_name(1) [OF ent(1,3)] by (simp add: remove_scan.simps [of "d_name ent" b off "Some p"])
qed

text \<open>Where a stretch of records ends.\<close>

abbreviation span :: "(nat \<times> (nat \<times> cstring) option) list \<Rightarrow> nat" where
  "span recs \<equiv> sum_list (map fst recs)"

lemma dir_records_split:
  "dir_records b off = Some (xs @ ys) \<Longrightarrow> dir_records b (off + span xs) = Some ys \<and> (xs \<noteq> [] \<longrightarrow> off + span xs \<le> length b)"
proof (induction xs arbitrary: off)
  case (Cons x xs)
  then have "off < length b" by (cases "off < length b") auto
  from dir_records_Cons [OF Cons.prems this] obtain r y rest where
    d: "dirent_at b off = Some (r, y)" "x # xs @ ys = (r, y) # rest" "dir_records b (off + r) = Some rest" by auto
  then have t: "dir_records b (off + r) = Some (xs @ ys)" and x: "x = (r, y)" by simp_all
  from Cons.IH [OF t] x dirent_at_reclen [OF d(1)] show ?case by (cases xs) (auto simp: add.assoc)
qed simp

lemma dir_records_first: "dir_records b off = Some ((r, x) # recs) \<Longrightarrow> dirent_at b off = Some (r, x)"
  by (cases "off < length b") (auto elim: dir_records_Cons)

lemma dir_records_join:
  "dir_records b off = Some (xs @ ys) \<Longrightarrow> same_range off (off + span xs) b' b \<Longrightarrow>
   dir_records b' (off + span xs) = Some zs \<Longrightarrow> dir_records b' off = Some (xs @ zs)"
proof (induction xs arbitrary: off)
  case (Cons x xs)
  obtain r y where x: "x = (r, y)" by (cases x)
  note d = dir_records_first [OF Cons.prems(1) [unfolded x append_Cons]]
  have t: "dir_records b (off + r) = Some (xs @ ys)" using dir_records_split [of b off "[x]"] Cons.prems(1) x by simp
  have d': "dirent_at b' off = Some (r, y)"
    using dirent_at_same [OF d] same_range_sub [OF Cons.prems(2), of off "off + r"] x dirent_at_reclen [OF d] by simp
  have "dir_records b' (off + r) = Some (xs @ zs)"
    using Cons.prems(2,3) x by (intro Cons.IH [OF t] same_range_sub [OF Cons.prems(2)]) (simp_all add: add.assoc)
  then show ?case using dir_records_step [OF d'] x by simp
qed simp

lemma remove_scan_over:
  "dir_records b off = Some (xs @ ys) \<Longrightarrow> name \<notin> snd ` set (live xs) \<Longrightarrow>
   \<exists>prev'. remove_scan name b off prev = remove_scan name b (off + span xs) prev' \<and>
     ((\<forall>x \<in> set xs. snd x = None) \<longrightarrow> prev' = prev)"
proof (induction xs arbitrary: off prev)
  case (Cons x xs)
  obtain r y where x: "x = (r, y)" by (cases x)
  note d = dir_records_first [OF Cons.prems(1) [unfolded x append_Cons]]
  have t: "dir_records b (off + r) = Some (xs @ ys)" using dir_records_split [of b off "[x]"] Cons.prems(1) x by simp
  have n: "\<forall>i. y \<noteq> Some (i, name)" "name \<notin> snd ` set (live xs)" using Cons.prems(2) x by (cases y; force)+
  from Cons.IH [OF t n(2), of "if y = None then prev else Some off"] obtain q where
    q: "remove_scan name b (off + r) (if y = None then prev else Some off) = remove_scan name b (off + r + span xs) q"
    "(\<forall>x \<in> set xs. snd x = None) \<longrightarrow> q = (if y = None then prev else Some off)" by blast
  show ?case
    using q remove_scan_skip [OF d n(1), of prev] x by (intro exI [of _ q]) (simp add: add.assoc)
qed auto

text \<open>
  C7. The removal takes the last used record as the one before the removed entry and adds the two
  lengths, without the unused records between them. When those begin with a stretch exactly as long as the
  removed record, \<open>remove_scan\<close> reports success and the inode, and every entry is still there: the records
  are the old ones with that stretch joined to the record before it, and the search still finds the name,
  with an inode that the caller then releases. Any records may stand before and after.
\<close>

theorem removal_behind_gap:
  assumes "dir_records block 0 = Some (pre @ (r1, Some (i1, n1)) # gap @ gap' @ (r, Some (ino, name)) # recs)"
    and "\<forall>x \<in> set (gap @ gap'). snd x = None" and "r = sum_list (map fst gap)"
    and "name \<notin> snd ` set (live pre)" and "n1 \<noteq> name" and "name \<noteq> [dot]" and "name \<noteq> [dot, dot]" and "length block \<le> DIRBLKSIZ"
  shows "\<exists>block'. remove_scan name block 0 None = Inr (Some (ino, block')) \<and>
    dir_records block' 0 = Some (pre @ (r1 + r, Some (i1, n1)) # gap' @ (r, Some (ino, name)) # recs) \<and>
    dir_entries (find_cb name) block' 0 s = (Inr (Some ino), s)"
proof -
  let ?p = "span pre" let ?E = "(r1, Some (i1, n1))" let ?R = "(r, Some (ino, name)) # recs"
  have t1: "dir_records block ?p = Some (?E # gap @ gap' @ ?R)" using dir_records_split [OF assms(1)] by simp
  note d1 = dir_records_first [OF t1]
  have t2: "dir_records block (?p + r1) = Some (gap @ gap' @ ?R)"
    using dir_records_split [of block ?p "[?E]"] t1 by simp
  have t3: "dir_records block (?p + r1 + r) = Some (gap' @ ?R)" using dir_records_split [OF t2] assms(3) by simp
  have t4: "dir_records block (?p + r1 + r + span gap') = Some ?R" using dir_records_split [OF t3] by simp
  note d4 = dir_records_first [OF t4]
  note l = dirent_at_reclen [OF d1] dirent_at_reclen [OF d4]
  let ?b = "nextufs__write_be16 block (?p + 4) (r1 + r)"
  have small: "u16 (r1 + r) = r1 + r" using l assms(8) by (simp add: u16_def DIRBLKSIZ_def)
  have rm: "remove_scan name block 0 None = Inr (Some (ino, ?b))"
  proof -
    from remove_scan_over [OF assms(1,4), of None] obtain q where
      "remove_scan name block 0 None = remove_scan name block ?p q" by auto
    also have "\<dots> = remove_scan name block (?p + r1) (Some ?p)"
      using remove_scan_skip [OF d1, of name q] assms(5) by simp
    also have "\<dots> = remove_scan name block (?p + r1 + r + span gap') (Some ?p)"
    proof -
      have "live (gap @ gap') = []" using assms(2) by (auto simp: live_def List.map_filter_def filter_empty_conv)
      then show ?thesis
        using remove_scan_over [of block "?p + r1" "gap @ gap'" ?R name "Some ?p"] t2 assms(2,3) by (auto simp: add.assoc)
    qed
    also have "\<dots> = Inr (Some (ino, ?b))" using remove_scan_here [OF d4 assms(6,7) d1] small by simp
    finally show ?thesis .
  qed
  have lb: "length ?b = length block" using l by simp
  have p4: "?p + 4 + 2 \<le> length block" using l by linarith
  note s = write_be16_same [OF p4, of "r1 + r"]
  note us = used_record [OF d1] and sz = dirent_size_bounds [OF used_record(3) [OF d1]]
  have m4: "(r1 + r) mod 4 = 0" using us(7) used_record(7) [OF d4] by presburger
  have pm: "?p mod DIRBLKSIZ = ?p" using l assms(8) by (simp add: DIRBLKSIZ_def)
  have "dirent_at ?b ?p = Some (r1 + r, Some (i1, n1))"
    by (rule resize_record [OF d1 lb _ m4])
      (use l us(6) p4 sz small assms(8) pm in \<open>auto intro: same_range_sub [OF conjunct1 [OF s]] same_range_sub [OF conjunct2 [OF s]]\<close>)
  moreover have "dir_records ?b (?p + r1 + r) = Some (gap' @ ?R)"
    by (rule dir_records_same [OF t3 same_range_sub [OF conjunct1 [OF s]]]) (use l in auto)
  ultimately have "dir_records ?b ?p = Some ((r1 + r, Some (i1, n1)) # gap' @ ?R)"
    by (simp add: dir_records_step add.assoc)
  then have D: "dir_records ?b 0 = Some (pre @ (r1 + r, Some (i1, n1)) # gap' @ ?R)"
    using dir_records_join [OF assms(1), of ?b] same_range_sub [OF conjunct2 [OF s], of 0 ?p] by simp
  have "first_ino name (live (pre @ (r1 + r, Some (i1, n1)) # gap' @ ?R)) = Some ino"
  proof -
    have "live gap' = []" using assms(2) by (auto simp: live_def List.map_filter_def filter_empty_conv)
    moreover have "live (xs @ ys) = live xs @ live ys" for xs ys by (simp add: live_def List.map_filter_def)
    ultimately show ?thesis using assms(4,5) by (simp add: first_ino_append first_ino_None [THEN iffD2])
  qed
  with rm D dir_entries_find [OF D, of name s] show ?thesis by auto
qed

text \<open>A directory block of four records of one-letter names, the second of them unused.\<close>

definition record_bytes :: "byte \<Rightarrow> byte \<Rightarrow> byte list" where
  "record_bytes i c = [0, 0, 0, i, 0, 12, 0, 1, c, 0, 0, 0]"

definition gap_block :: "byte list" where
  "gap_block = record_bytes 5 0x6e @ record_bytes 0 0x79 @ record_bytes 7 0x63 @ record_bytes 8 0x64"

lemma one_letter_record:
  assumes "off + 12 \<le> length b" and "off mod DIRBLKSIZ + 12 \<le> DIRBLKSIZ"
    and "bytes_at off 12 b = record_bytes i c" and "c \<noteq> 0" and "c \<noteq> slash"
  shows "dirent_at b off = Some (12, if i = 0 then None else Some (unat i, [c]))"
proof -
  have at: "b ! (off + k) = record_bytes i c ! k" if "k < 12" for k
    using assms(1) that nth_bytes_at [of off 12 b k] assms(3) by simp
  have bs: "b ! off = 0" "b ! (off + 1) = 0" "b ! (off + 2) = 0" "b ! (off + 3) = i" "b ! (off + 4) = 0"
    "b ! (off + 5) = 12" "b ! (off + 6) = 0" "b ! (off + 7) = 1" "b ! (off + 8) = c" "b ! (off + 9) = 0"
    using at [of 0] at [of 1] at [of 2] at [of 3] at [of 4] at [of 5] at [of 6] at [of 7] at [of 8] at [of 9]
    by (simp_all add: record_bytes_def)
  have f: "nextufs__read_be32 b off = unat i" "nextufs__read_be16 b (off + 4) = 12"
    "nextufs__read_be16 b (off + 6) = 1"
    unfolding read_be32_eq read_be16_eq add.assoc using bs by simp_all
  have nm: "bytes_at (off + 8) 1 b = [c]"
    using assms(1) bs by (intro nth_equalityI) auto
  have ge: "off \<le> length b" "8 \<le> length b - off" "12 \<le> length b - off" "12 \<le> DIRBLKSIZ - off mod DIRBLKSIZ"
    using assms(1,2) by linarith+
  show ?thesis
    unfolding dirent_at_unfold f Let_def nm
    using ge bs assms(4,5) dirent_size_eq [of 1] by (simp add: unat_eq_0 add.commute [of 9 off])
qed

lemma gap_block_records:
  "dir_records gap_block 0 = Some [(12, Some (5, [0x6e])), (12, None), (12, Some (7, [0x63])), (12, Some (8, [0x64]))]"
proof -
  have len: "length gap_block = 48" by (simp add: gap_block_def record_bytes_def)
  have b: "bytes_at 0 12 gap_block = record_bytes 5 0x6e" "bytes_at 12 12 gap_block = record_bytes 0 0x79"
    "bytes_at 24 12 gap_block = record_bytes 7 0x63" "bytes_at 36 12 gap_block = record_bytes 8 0x64"
    by (simp_all add: gap_block_def record_bytes_def bytes_at_def)
  have D: "dirent_at gap_block 0 = Some (12, Some (5, [0x6e]))" "dirent_at gap_block 12 = Some (12, None)"
    "dirent_at gap_block 24 = Some (12, Some (7, [0x63]))" "dirent_at gap_block 36 = Some (12, Some (8, [0x64]))"
    using one_letter_record [OF _ _ b(1)] one_letter_record [OF _ _ b(2)]
      one_letter_record [OF _ _ b(3)] one_letter_record [OF _ _ b(4)] len
    by (simp_all add: DIRBLKSIZ_def slash_def)
  show ?thesis
    using len dir_records_step [OF D(1)] dir_records_step [OF D(2)] dir_records_step [OF D(3)] dir_records_step [OF D(4)]
    by simp
qed

theorem removal_behind_gap_witness:
  "\<exists>block'. remove_scan [0x63] gap_block 0 None = Inr (Some (7, block')) \<and>
    dir_entries (find_cb [0x63]) block' 0 () = (Inr (Some 7), ())"
  using removal_behind_gap [where pre = "[]" and gap = "[(12, None)]" and gap' = "[]" and block = gap_block and name = "[0x63]"
      and s = "()"] gap_block_records
  by (auto simp: dot_def gap_block_def record_bytes_def DIRBLKSIZ_def)

lemma replicate_3: "replicate 3 x = [x, x, x]"
  by (simp add: numeral_3_eq_3)

lemmas record_eval = nextufs__read_dirent_def Let_def read_be32_eq read_be16_eq and_3 dirent_size_eq record_bytes_def
  DIRBLKSIZ_def slash_def bytes_at_def nextufs__write_dirent_raw_def nextufs__write_be16_def nextufs__write_be32_def
  overlay_def u16_def dot_def byte_at_def drop_bit_eq_div replicate_3

definition slot_block :: "byte list" where
  "slot_block = record_bytes 5 0x6e @ record_bytes 0 0x79"

definition pair_block :: "byte list" where
  "pair_block = record_bytes 5 0x6e @ record_bytes 7 0x63"

lemma slot_block_records: "dir_records slot_block 0 = Some [(12, Some (5, [0x6e])), (12, None)]"
proof -
  have len: "length slot_block = 24" by (simp add: slot_block_def record_bytes_def)
  have b: "bytes_at 0 12 slot_block = record_bytes 5 0x6e" "bytes_at 12 12 slot_block = record_bytes 0 0x79"
    by (simp_all add: slot_block_def record_bytes_def bytes_at_def)
  have D: "dirent_at slot_block 0 = Some (12, Some (5, [0x6e]))" "dirent_at slot_block 12 = Some (12, None)"
    using one_letter_record [OF _ _ b(1)] one_letter_record [OF _ _ b(2)] len
    by (simp_all add: DIRBLKSIZ_def slash_def)
  show ?thesis using len dir_records_step [OF D(1)] dir_records_step [OF D(2)] by simp
qed

lemma pair_block_records: "dir_records pair_block 0 = Some [(12, Some (5, [0x6e])), (12, Some (7, [0x63]))]"
proof -
  have len: "length pair_block = 24" by (simp add: pair_block_def record_bytes_def)
  have b: "bytes_at 0 12 pair_block = record_bytes 5 0x6e" "bytes_at 12 12 pair_block = record_bytes 7 0x63"
    by (simp_all add: pair_block_def record_bytes_def bytes_at_def)
  have D: "dirent_at pair_block 0 = Some (12, Some (5, [0x6e]))" "dirent_at pair_block 12 = Some (12, Some (7, [0x63]))"
    using one_letter_record [OF _ _ b(1)] one_letter_record [OF _ _ b(2)] len
    by (simp_all add: DIRBLKSIZ_def slash_def)
  show ?thesis using len dir_records_step [OF D(1)] dir_records_step [OF D(2)] by simp
qed

lemma slot_block_scan:
  "insert_scan 9 [0x65] slot_block 0 = Inr (Some (record_bytes 5 0x6e @ record_bytes 9 0x65))"
  unfolding slot_block_def
  by (simp add: insert_scan.simps [of _ _ _ 0] insert_scan.simps [of _ _ _ 12] record_eval)

lemma pair_block_scan:
  "remove_scan [0x63] pair_block 0 None = Inr (Some (7, [0, 0, 0, 5, 0, 24, 0, 1, 0x6e, 0, 0, 0] @ record_bytes 7 0x63))"
  unfolding pair_block_def
  by (simp add: remove_scan.simps [of _ _ 0] remove_scan.simps [of _ _ 12] record_eval)

theorem insert_entry_correct_witness:
  "dir_entries (find_cb [0x65]) (record_bytes 5 0x6e @ record_bytes 9 0x65) 0 () = (Inr (Some 9), ())"
  using insert_entry_correct [OF slot_block_records slot_block_scan, of "[0x65]" "()"]
  by (simp add: name_ok_def)

theorem remove_entry_correct_witness:
  "dir_entries (find_cb [0x63]) ([0, 0, 0, 5, 0, 24, 0, 1, 0x6e, 0, 0, 0] @ record_bytes 7 0x63) 0 () = (Inr None, ())"
  using remove_entry_correct [OF pair_block_records pair_block_scan, of "()" "[0x63]"]
  by (simp add: pair_block_def record_bytes_def DIRBLKSIZ_def)

end
