(* ===== verification/Qcow2.thy ===== *)
theory Qcow2
  imports Access
begin

text \<open>
  The qcow2 backend of \<^verbatim>\<open>src/core/qcow2.c\<close>: a header, a two-level table from guest clusters to host
  clusters, and reference counts of the host clusters. Clusters that are shared, or inherited from the
  parent, are copied before they are written. The parent is a layer of the same kind; it is a
  parameter, read through \<open>prd\<close>, of size \<open>psize\<close>. The fields \<open>l1\<close>, \<open>ref_table\<close>, \<open>refs\<close>, \<open>tags\<close> and
  \<open>ref_dirty\<close> are the arrays in memory; \<open>ref_entries\<close> and \<open>host_capacity\<close> are the lengths of
  \<open>q_ref_table\<close> and \<open>q_refs\<close>.
\<close>

section \<open>Data\<close>

definition QCOW_MAGIC :: nat where "QCOW_MAGIC = 0x514649fb"
definition QCOW_OFFSET :: nat where "QCOW_OFFSET = 0x00fffffffffffe00"
definition QCOW_COPIED :: nat where "QCOW_COPIED = 0x8000000000000000"
definition QCOW_COMPRESSED :: nat where "QCOW_COMPRESSED = 0x4000000000000000"
definition QCOW_ZERO :: nat where "QCOW_ZERO = 1"
definition QCOW_MAX_DEPTH :: nat where "QCOW_MAX_DEPTH = 32"
definition QCOW_MAX_CLUSTERS :: nat where "QCOW_MAX_CLUSTERS = 16777216"
definition QCOW_MAX_L1_BYTES :: nat where "QCOW_MAX_L1_BYTES = 33554432"
definition QCOW_MAX_REF_BYTES :: nat where "QCOW_MAX_REF_BYTES = 8388608"

record 'p qcow =
  q_fd :: hostfile
  q_raw :: bool
  q_writable :: bool
  q_failed :: bool
  q_changed :: bool
  q_table_dirty :: bool
  q_table_moved :: bool
  q_version :: nat
  q_cluster_bits :: nat
  q_cluster_size :: nat
  q_l1_size :: nat
  q_ref_clusters :: nat
  q_size :: nat
  q_file_size :: nat
  q_l1_offset :: nat
  q_ref_offset :: nat
  q_l1 :: "nat list"
  q_ref_table :: "nat list"
  q_host_count :: nat
  q_refs :: "nat list"
  q_tags :: "nat list"
  q_ref_dirty :: "bool list"
  q_parent :: "'p option"
  q_mallocs :: "bool list"

definition qcow_fd_io :: "(hostfile, 'a) io \<Rightarrow> ('p qcow, 'a) io" where
  "qcow_fd_io m q = (case m (q_fd q) of (r, f) \<Rightarrow> (r, q\<lparr>q_fd := f\<rparr>))"

definition qcow_malloc :: "('p qcow, unit) io" where
  "qcow_malloc q =
     (case q_mallocs q of
        [] \<Rightarrow> (Inr (), q)
      | ok # rest \<Rightarrow> (if ok then Inr () else Inl ENOMEM, q\<lparr>q_mallocs := rest\<rparr>))"

section \<open>Reading\<close>

definition range_valid :: "'p qcow \<Rightarrow> nat \<Rightarrow> nat \<Rightarrow> bool" where
  "range_valid q off n \<longleftrightarrow> off \<le> q_file_size q \<and> n \<le> q_file_size q - off"

definition read_at :: "nat \<Rightarrow> nat \<Rightarrow> ('p qcow, byte list) io" where
  "read_at n off = bind_io get_io (\<lambda>q.
     if \<not> range_valid q off n then fail EINVAL else qcow_fd_io (nextufs__read_exact_fd n (to_off off)))"

definition read_u64 :: "nat \<Rightarrow> ('p qcow, nat) io" where
  "read_u64 off = bind_io (read_at 8 off) (\<lambda>b. ret (read_be64 b 0))"

text \<open>The clusters that a table of the second level maps, \<open>cluster_size / 8\<close>.\<close>

abbreviation l2_count :: "'p qcow \<Rightarrow> nat" where
  "l2_count q \<equiv> q_cluster_size q div 8"

definition qcow_parent_read ::
  "(nat \<Rightarrow> int \<Rightarrow> ('p, byte list) io) \<Rightarrow> nat \<Rightarrow> nat \<Rightarrow> 'p \<Rightarrow> ('p qcow, byte list) io" where
  "qcow_parent_read prd n pos p q = (case prd n (int pos) p of (r, p') \<Rightarrow> (r, q\<lparr>q_parent := Some p'\<rparr>))"

definition qcow_inherited ::
  "(nat \<Rightarrow> int \<Rightarrow> ('p, byte list) io) \<Rightarrow> ('p \<Rightarrow> nat) \<Rightarrow> nat \<Rightarrow> nat \<Rightarrow> ('p qcow, byte list) io" where
  "qcow_inherited prd psize chunk pos = bind_io get_io (\<lambda>q.
     case q_parent q of
       None \<Rightarrow> ret (replicate chunk 0)
     | Some p \<Rightarrow>
         if psize p \<le> pos then ret (replicate chunk 0)
         else let inherited = min (psize p - pos) chunk in
           bind_io (qcow_parent_read prd inherited pos p) (\<lambda>bs. ret (bs @ replicate (chunk - inherited) 0)))"

definition qcow_read_chunk ::
  "(nat \<Rightarrow> int \<Rightarrow> ('p, byte list) io) \<Rightarrow> ('p \<Rightarrow> nat) \<Rightarrow> nat \<Rightarrow> nat \<Rightarrow> ('p qcow, byte list) io" where
  "qcow_read_chunk prd psize chunk pos = bind_io get_io (\<lambda>q.
     let guest = pos div q_cluster_size q;
         l2 = q_l1 q ! (guest div l2_count q) AND QCOW_OFFSET;
         within = pos mod q_cluster_size q in
     bind_io (if l2 \<noteq> 0 then read_u64 (l2 + guest mod l2_count q * 8) else ret 0) (\<lambda>entry.
     if entry AND QCOW_ZERO \<noteq> 0 then ret (replicate chunk 0)
     else if entry AND QCOW_OFFSET \<noteq> 0 then read_at chunk ((entry AND QCOW_OFFSET) + within)
     else qcow_inherited prd psize chunk pos))"

lemma cluster_progress:
  assumes "0 < (cs :: nat)" and "0 < n"
  shows "n - min (cs - pos mod cs) n < n"
  using mod_less_divisor [OF assms(1), of pos] assms(2) by (simp add: min_def)

text \<open>An open layer has clusters of at least 512 bytes; the test for zero keeps the loop defined.\<close>

function qcow_read_loop ::
  "(nat \<Rightarrow> int \<Rightarrow> ('p, byte list) io) \<Rightarrow> ('p \<Rightarrow> nat) \<Rightarrow> nat \<Rightarrow> nat \<Rightarrow> ('p qcow, byte list) io" where
  "qcow_read_loop prd psize n pos q =
     (if n = 0 \<or> q_cluster_size q = 0 then (Inr [], q)
      else let chunk = min (q_cluster_size q - pos mod q_cluster_size q) n in
        (case qcow_read_chunk prd psize chunk pos q of
           (Inl e, q') \<Rightarrow> (Inl e, q')
         | (Inr bs, q') \<Rightarrow>
             (case qcow_read_loop prd psize (n - chunk) (pos + chunk) q' of
                (Inl e, q'') \<Rightarrow> (Inl e, q'')
              | (Inr rest, q'') \<Rightarrow> (Inr (bs @ rest), q''))))"
  by pat_completeness auto
termination
  by (relation "measure (\<lambda>(prd, psize, n, pos, q). n)") (auto simp: cluster_progress)

declare qcow_read_loop.simps [simp del]

definition qcow_read ::
  "(nat \<Rightarrow> int \<Rightarrow> ('p, byte list) io) \<Rightarrow> ('p \<Rightarrow> nat) \<Rightarrow> nat \<Rightarrow> int \<Rightarrow> ('p qcow, byte list) io" where
  "qcow_read prd psize n offset = bind_io get_io (\<lambda>q.
     if offset < 0 \<or> q_size q < nat offset \<or> q_size q - nat offset < n then fail EINVAL
     else if q_raw q then read_at n (nat offset)
     else qcow_read_loop prd psize n (nat offset))"

section \<open>Writing to the file\<close>

text \<open>Any error of a write or of \<open>fsync\<close> marks the layer as failed.\<close>

definition mark_failed :: "('p qcow, 'a) io \<Rightarrow> ('p qcow, 'a) io" where
  "mark_failed m q = (case m q of (Inl e, q') \<Rightarrow> (Inl e, q'\<lparr>q_failed := True\<rparr>) | (Inr x, q') \<Rightarrow> (Inr x, q'))"

definition write_at :: "byte list \<Rightarrow> nat \<Rightarrow> ('p qcow, unit) io" where
  "write_at buf off = mark_failed (qcow_fd_io (nextufs__write_exact_fd buf (to_off off)))"

definition be64_bytes :: "nat \<Rightarrow> byte list" where
  "be64_bytes v = nextufs__write_be64 (replicate 8 0) 0 v"

definition write_u64 :: "nat \<Rightarrow> nat \<Rightarrow> ('p qcow, unit) io" where
  "write_u64 off v = write_at (be64_bytes v) off"

definition sync_fd :: "('p qcow, unit) io" where
  "sync_fd = mark_failed (qcow_fd_io fsync_fd)"

definition begin_write :: "('p qcow, unit) io" where
  "begin_write = bind_io get_io (\<lambda>q.
     if q_failed q then fail EIO
     else if q_changed q then ret ()
     else bind_io (if q_version q = 3 then bind_io (write_u64 72 1) (\<lambda>_. sync_fd) else ret ()) (\<lambda>_.
       modify_io (\<lambda>q. q\<lparr>q_changed := True\<rparr>)))"

section \<open>Host clusters and reference counts\<close>

text \<open>Reference counts per block of 16-bit counts.\<close>

abbreviation refs_per_block :: "'p qcow \<Rightarrow> nat" where
  "refs_per_block q \<equiv> q_cluster_size q div 2"

definition ref_changed :: "nat \<Rightarrow> 'p qcow \<Rightarrow> 'p qcow" where
  "ref_changed cluster q = (let block = cluster div refs_per_block q in
     if block < length (q_ref_table q) then q\<lparr>q_ref_dirty := (q_ref_dirty q)[block := True]\<rparr> else q)"

function grow_capacity :: "nat \<Rightarrow> nat \<Rightarrow> nat" where
  "grow_capacity count capacity =
     (if count \<le> capacity \<or> capacity = 0 \<or> QCOW_MAX_CLUSTERS \<le> capacity then capacity
      else grow_capacity count (if QCOW_MAX_CLUSTERS div 2 < capacity then QCOW_MAX_CLUSTERS else capacity * 2))"
  by pat_completeness auto
termination
  by (relation "measure (\<lambda>(count, capacity). QCOW_MAX_CLUSTERS - capacity)") (auto simp: QCOW_MAX_CLUSTERS_def)

declare grow_capacity.simps [simp del]

definition reserve_hosts :: "nat \<Rightarrow> ('p qcow, unit) io" where
  "reserve_hosts count = bind_io get_io (\<lambda>q.
     let old = length (q_refs q); capacity = grow_capacity count (if old = 0 then 16 else old) in
     if QCOW_MAX_CLUSTERS < count then fail EFBIG
     else if count \<le> old then ret ()
     else bind_io qcow_malloc (\<lambda>_. bind_io qcow_malloc (\<lambda>_.
       modify_io (\<lambda>q. q\<lparr>q_refs := q_refs q @ replicate (capacity - old) 0,
         q_tags := q_tags q @ replicate (capacity - old) 0\<rparr>))))"

definition set_hosts :: "nat \<Rightarrow> nat \<Rightarrow> nat \<Rightarrow> 'p qcow \<Rightarrow> 'p qcow" where
  "set_hosts first count tag q =
     fold (\<lambda>i q. ref_changed i (q\<lparr>q_refs := (q_refs q)[i := 1], q_tags := (q_tags q)[i := tag]\<rparr>))
       [first..<first + count] q"

definition append_hosts :: "nat \<Rightarrow> nat \<Rightarrow> ('p qcow, nat) io" where
  "append_hosts count tag = bind_io get_io (\<lambda>q.
     let first = q_host_count q; end_off = (first + count) * q_cluster_size q in
     if QCOW_MAX_CLUSTERS - first < count then fail EFBIG
     else bind_io (reserve_hosts (first + count)) (\<lambda>_.
       bind_io (if QCOW_OFFSET < end_off then mark_failed (fail EFBIG)
                else mark_failed (qcow_fd_io (ftruncate_fd end_off))) (\<lambda>_.
       bind_io (modify_io (\<lambda>q. set_hosts first count tag
         (q\<lparr>q_file_size := end_off, q_host_count := first + count\<rparr>))) (\<lambda>_.
       ret (first * q_cluster_size q)))))"

text \<open>The block of counts number \<open>i\<close>, and a run of table entries.\<close>

definition ref_block_bytes :: "'p qcow \<Rightarrow> nat \<Rightarrow> byte list" where
  "ref_block_bytes q i =
     fold (\<lambda>j buf. let n = i * refs_per_block q + j in
         if n < q_host_count q then nextufs__write_be16 buf (j * 2) (q_refs q ! n) else buf)
       [0..<refs_per_block q] (replicate (q_cluster_size q) 0)"

definition ref_table_bytes :: "'p qcow \<Rightarrow> nat \<Rightarrow> byte list \<Rightarrow> byte list" where
  "ref_table_bytes q i buf =
     fold (\<lambda>j buf. nextufs__write_be64 buf (j * 8) (q_ref_table q ! (i + j))) [0..<l2_count q] buf"

fun flush_ref_blocks :: "nat list \<Rightarrow> ('p qcow, unit) io" where
  "flush_ref_blocks [] = ret ()"
| "flush_ref_blocks (i # rest) = bind_io get_io (\<lambda>q.
     if \<not> q_ref_dirty q ! i then flush_ref_blocks rest
     else if q_ref_table q ! i = 0 then fail EINVAL
     else bind_io (write_at (ref_block_bytes q i) (q_ref_table q ! i)) (\<lambda>_.
       bind_io (modify_io (\<lambda>q. q\<lparr>q_ref_dirty := (q_ref_dirty q)[i := False]\<rparr>)) (\<lambda>_. flush_ref_blocks rest)))"

text \<open>The buffer holds what the last block left in it; every byte of it is overwritten.\<close>

fun flush_ref_table :: "nat list \<Rightarrow> ('p qcow, unit) io" where
  "flush_ref_table [] = ret ()"
| "flush_ref_table (k # rest) = bind_io get_io (\<lambda>q.
     let i = k * l2_count q in
     bind_io (write_at (ref_table_bytes q i (replicate (q_cluster_size q) 0)) (q_ref_offset q + i * 8))
       (\<lambda>_. flush_ref_table rest))"

definition flush_refcounts :: "('p qcow, unit) io" where
  "flush_refcounts = bind_io qcow_malloc (\<lambda>_.
     bind_io get_io (\<lambda>q.
     bind_io (flush_ref_blocks [0..<length (q_ref_table q)]) (\<lambda>_.
     bind_io (if q_table_dirty q
              then bind_io (flush_ref_table [0..<(length (q_ref_table q) + l2_count q - 1) div l2_count q])
                (\<lambda>_. modify_io (\<lambda>q. q\<lparr>q_table_dirty := False\<rparr>))
              else ret ()) (\<lambda>_.
     bind_io sync_fd (\<lambda>_.
     if q_table_moved q
     then bind_io (write_at (be64_bytes (q_ref_offset q) @ nextufs__write_be32 (replicate 4 0) 0 (q_ref_clusters q)) 48) (\<lambda>_.
       bind_io sync_fd (\<lambda>_. modify_io (\<lambda>q. q\<lparr>q_table_moved := False\<rparr>)))
     else ret ())))))"

text \<open>The number of blocks of counts that all host clusters and \<open>pending\<close> more need.\<close>

definition required_blocks :: "nat \<Rightarrow> 'p qcow \<Rightarrow> nat" where
  "required_blocks pending q = (q_host_count q + pending + refs_per_block q - 1) div refs_per_block q"

text \<open>An open layer has at least one entry; the test for zero keeps the loop defined.\<close>

function double_until :: "nat \<Rightarrow> nat \<Rightarrow> nat" where
  "double_until need entries = (if need \<le> entries \<or> entries = 0 then entries else double_until need (entries * 2))"
  by pat_completeness auto
termination by (relation "measure (\<lambda>(need, entries). need - entries)") auto

declare double_until.simps [simp del]

text \<open>A larger table at the end of the file; the clusters of the old one are released.\<close>

definition release_table :: "nat \<Rightarrow> nat \<Rightarrow> 'p qcow \<Rightarrow> 'p qcow" where
  "release_table first count q =
     fold (\<lambda>i q. ref_changed i (q\<lparr>q_refs := (q_refs q)[i := (q_refs q ! i + 65535) mod 65536],
         q_tags := (q_tags q)[i := 0]\<rparr>)) [first..<first + count] q"

definition grow_ref_table :: "nat \<Rightarrow> ('p qcow, unit) io" where
  "grow_ref_table required = bind_io get_io (\<lambda>q.
     let old = length (q_ref_table q); entries = double_until required old;
         old_first = q_ref_offset q div q_cluster_size q; old_clusters = q_ref_clusters q;
         clusters = entries div l2_count q in
     if QCOW_MAX_REF_BYTES < entries * 8 then fail EFBIG
     else bind_io qcow_malloc (\<lambda>_. bind_io qcow_malloc (\<lambda>_.
       bind_io (modify_io (\<lambda>q. q\<lparr>q_ref_table := q_ref_table q @ replicate (entries - old) 0,
         q_ref_dirty := q_ref_dirty q @ replicate (entries - old) False,
         q_ref_clusters := clusters\<rparr>)) (\<lambda>_.
       bind_io (append_hosts clusters 1) (\<lambda>off.
       modify_io (\<lambda>q. release_table old_first old_clusters
         (q\<lparr>q_ref_offset := off, q_table_dirty := True, q_table_moved := True\<rparr>)))))))"

text \<open>Blocks of counts for the table entries that have none.\<close>

fun add_ref_blocks :: "nat list \<Rightarrow> ('p qcow, unit) io" where
  "add_ref_blocks [] = ret ()"
| "add_ref_blocks (i # rest) = bind_io get_io (\<lambda>q.
     if q_ref_table q ! i \<noteq> 0 then add_ref_blocks rest
     else bind_io (append_hosts 1 1) (\<lambda>off.
       bind_io (modify_io (\<lambda>q. q\<lparr>q_ref_table := (q_ref_table q)[i := off],
         q_ref_dirty := (q_ref_dirty q)[i := True], q_table_dirty := True\<rparr>)) (\<lambda>_. add_ref_blocks rest)))"

text \<open>One turn of the loop; the result says whether it was the last one.\<close>

definition ensure_step :: "nat \<Rightarrow> ('p qcow, bool) io" where
  "ensure_step pending = bind_io get_io (\<lambda>q.
     let required = required_blocks pending q in
     if length (q_ref_table q) < required then bind_io (grow_ref_table required) (\<lambda>_. ret False)
     else bind_io (add_ref_blocks [0..<required]) (\<lambda>_.
       bind_io get_io (\<lambda>q. ret (required_blocks pending q = required))))"

lemma ref_changed_hosts [simp]:
  "q_host_count (ref_changed i q) = q_host_count q" "length (q_ref_table (ref_changed i q)) = length (q_ref_table q)"
  "q_cluster_size (ref_changed i q) = q_cluster_size q"
  by (simp_all add: ref_changed_def Let_def)

lemma set_hosts_counts [simp]:
  "q_host_count (set_hosts first count tag q) = q_host_count q"
  "length (q_ref_table (set_hosts first count tag q)) = length (q_ref_table q)"
  "q_cluster_size (set_hosts first count tag q) = q_cluster_size q"
proof -
  have "q_host_count (fold (\<lambda>i q. ref_changed i (q\<lparr>q_refs := (q_refs q)[i := 1], q_tags := (q_tags q)[i := tag]\<rparr>)) xs q) = q_host_count q \<and>
    length (q_ref_table (fold (\<lambda>i q. ref_changed i (q\<lparr>q_refs := (q_refs q)[i := 1], q_tags := (q_tags q)[i := tag]\<rparr>)) xs q)) = length (q_ref_table q) \<and>
    q_cluster_size (fold (\<lambda>i q. ref_changed i (q\<lparr>q_refs := (q_refs q)[i := 1], q_tags := (q_tags q)[i := tag]\<rparr>)) xs q) = q_cluster_size q"
    for xs by (induction xs arbitrary: q) simp_all
  then show "q_host_count (set_hosts first count tag q) = q_host_count q"
    "length (q_ref_table (set_hosts first count tag q)) = length (q_ref_table q)"
    "q_cluster_size (set_hosts first count tag q) = q_cluster_size q"
    by (simp_all add: set_hosts_def)
qed

lemma release_table_counts [simp]:
  "q_host_count (release_table first count q) = q_host_count q"
  "length (q_ref_table (release_table first count q)) = length (q_ref_table q)"
proof -
  have "q_host_count (fold (\<lambda>i q. ref_changed i (q\<lparr>q_refs := (q_refs q)[i := (q_refs q ! i + 65535) mod 65536], q_tags := (q_tags q)[i := 0]\<rparr>)) xs q) = q_host_count q \<and>
    length (q_ref_table (fold (\<lambda>i q. ref_changed i (q\<lparr>q_refs := (q_refs q)[i := (q_refs q ! i + 65535) mod 65536], q_tags := (q_tags q)[i := 0]\<rparr>)) xs q)) = length (q_ref_table q)"
    for xs by (induction xs arbitrary: q) simp_all
  then show "q_host_count (release_table first count q) = q_host_count q"
    "length (q_ref_table (release_table first count q)) = length (q_ref_table q)"
    by (simp_all add: release_table_def)
qed

lemma qcow_fd_io_frame: "qcow_fd_io m q = (r, q') \<Longrightarrow> \<exists>f. q' = q\<lparr>q_fd := f\<rparr>"
  by (auto simp: qcow_fd_io_def split: prod.splits)

lemma qcow_malloc_frame: "qcow_malloc q = (r, q') \<Longrightarrow> \<exists>ms. q' = q\<lparr>q_mallocs := ms\<rparr>"
  by (auto simp: qcow_malloc_def split: list.splits intro: exI [of _ "q_mallocs q"])

lemma mark_failed_Inr: "mark_failed m q = (Inr x, q') \<longleftrightarrow> m q = (Inr x, q')"
  by (auto simp: mark_failed_def split: prod.splits sum.splits)

lemma reserve_hosts_counts:
  "reserve_hosts n q = (Inr (), q') \<Longrightarrow> q_host_count q' = q_host_count q \<and> length (q_ref_table q') = length (q_ref_table q) \<and>
    q_cluster_size q' = q_cluster_size q"
  by (auto simp: reserve_hosts_def bind_io_Inr get_io_def fail_def ret_def modify_io_def Let_def split: if_splits
      dest!: qcow_malloc_frame)

lemma append_hosts_counts:
  assumes "append_hosts count tag q = (Inr off, q')"
  shows "q_host_count q' = q_host_count q + count \<and> q_host_count q + count \<le> max QCOW_MAX_CLUSTERS (q_host_count q) \<and>
    length (q_ref_table q') = length (q_ref_table q) \<and> q_cluster_size q' = q_cluster_size q"
  using assms
  by (auto simp: append_hosts_def bind_io_Inr get_io_def fail_def ret_def modify_io_def mark_failed_Inr Let_def split: if_splits
      dest!: reserve_hosts_counts qcow_fd_io_frame)

lemma double_until_larger: "entries \<noteq> 0 \<Longrightarrow> need \<le> double_until need entries"
proof (induction need entries rule: double_until.induct)
  case (1 need entries)
  then show ?case by (subst double_until.simps) auto
qed

lemma add_ref_blocks_counts:
  "add_ref_blocks is q = (Inr (), q') \<Longrightarrow> q_host_count q \<le> q_host_count q' \<and>
    (q_host_count q' \<le> max QCOW_MAX_CLUSTERS (q_host_count q)) \<and> length (q_ref_table q') = length (q_ref_table q) \<and>
    q_cluster_size q' = q_cluster_size q"
proof (induction "is" arbitrary: q)
  case (Cons i rest)
  show ?case
  proof (cases "q_ref_table q ! i = 0")
    case False
    with Cons show ?thesis by (simp add: bind_io_def get_io_def)
  next
    case True
    with Cons.prems obtain off q1 where a: "append_hosts 1 1 q = (Inr off, q1)"
      and r: "add_ref_blocks rest (q1\<lparr>q_ref_table := (q_ref_table q1)[i := off],
         q_ref_dirty := (q_ref_dirty q1)[i := True], q_table_dirty := True\<rparr>) = (Inr (), q')"
      by (auto simp: bind_io_Inr get_io_def modify_io_def)
    from append_hosts_counts [OF a] Cons.IH [OF r] show ?thesis by auto
  qed
qed (simp add: ret_def)

lemma grow_ref_table_counts:
  assumes "grow_ref_table required q = (Inr (), q')" and "length (q_ref_table q) < required" and "q_ref_table q \<noteq> []"
  shows "q_host_count q \<le> q_host_count q' \<and> q_host_count q' \<le> max QCOW_MAX_CLUSTERS (q_host_count q) \<and>
    length (q_ref_table q) < length (q_ref_table q') \<and> length (q_ref_table q') * 8 \<le> QCOW_MAX_REF_BYTES"
proof -
  let ?e = "double_until required (length (q_ref_table q))"
  have e: "required \<le> ?e" using assms(3) by (intro double_until_larger) simp
  from assms(1) have lim: "\<not> QCOW_MAX_REF_BYTES < ?e * 8"
    by (auto simp: grow_ref_table_def bind_io_def get_io_def fail_def Let_def split: if_splits)
  with assms(1) obtain q1 q2 off q3 where m: "qcow_malloc q = (Inr (), q1)" "qcow_malloc q1 = (Inr (), q2)"
    and a: "append_hosts (?e div l2_count q) 1 (q2\<lparr>q_ref_table := q_ref_table q2 @ replicate (?e - length (q_ref_table q)) 0,
         q_ref_dirty := q_ref_dirty q2 @ replicate (?e - length (q_ref_table q)) False,
         q_ref_clusters := ?e div l2_count q\<rparr>) = (Inr off, q3)"
    and q': "q' = release_table (q_ref_offset q div q_cluster_size q) (q_ref_clusters q)
         (q3\<lparr>q_ref_offset := off, q_table_dirty := True, q_table_moved := True\<rparr>)"
    unfolding grow_ref_table_def bind_io_Inr get_io_def modify_io_def Let_def
    by (simp add: bind_io_Inr del: One_nat_def) blast
  from qcow_malloc_frame [OF m(1)] qcow_malloc_frame [OF m(2)] obtain ms where q2: "q2 = q\<lparr>q_mallocs := ms\<rparr>" by auto
  from append_hosts_counts [OF a] assms(2) e lim show ?thesis by (auto simp: q' q2)
qed

lemma ensure_step_progress:
  assumes "ensure_step pending q = (Inr False, q')" and "q_ref_table q \<noteq> []"
  shows "QCOW_MAX_CLUSTERS - q_host_count q' < QCOW_MAX_CLUSTERS - q_host_count q \<or>
    QCOW_MAX_CLUSTERS - q_host_count q' = QCOW_MAX_CLUSTERS - q_host_count q \<and>
    QCOW_MAX_REF_BYTES - length (q_ref_table q') < QCOW_MAX_REF_BYTES - length (q_ref_table q)"
proof (cases "length (q_ref_table q) < required_blocks pending q")
  case True
  with assms(1) have g: "grow_ref_table (required_blocks pending q) q = (Inr (), q')"
    by (auto simp: ensure_step_def bind_io_Inr get_io_def ret_def Let_def)
  from grow_ref_table_counts [OF g True assms(2)] show ?thesis by auto
next
  case False
  let ?r = "required_blocks pending q"
  from assms(1) False have a: "add_ref_blocks [0..<?r] q = (Inr (), q')" and ne: "required_blocks pending q' \<noteq> ?r"
    by (auto simp: ensure_step_def bind_io_Inr get_io_def ret_def Let_def)
  note c = add_ref_blocks_counts [OF a]
  with ne have "q_host_count q' \<noteq> q_host_count q" by (auto simp: required_blocks_def)
  with c show ?thesis by auto
qed

function ensure_refcounts :: "nat \<Rightarrow> ('p qcow, unit) io" where
  "ensure_refcounts pending q =
     (if q_ref_table q = [] then (Inl EINVAL, q)
      else case ensure_step pending q of
        (Inl e, q') \<Rightarrow> (Inl e, q')
      | (Inr True, q') \<Rightarrow> (Inr (), q')
      | (Inr False, q') \<Rightarrow> ensure_refcounts pending q')"
  by pat_completeness auto
termination
  by (relation "measures [\<lambda>(pending, q). QCOW_MAX_CLUSTERS - q_host_count q,
      \<lambda>(pending, q). QCOW_MAX_REF_BYTES - length (q_ref_table q)]")
    (auto dest: ensure_step_progress [OF sym])

declare ensure_refcounts.simps [simp del]

definition allocate_cluster :: "byte list \<Rightarrow> nat \<Rightarrow> ('p qcow, nat) io" where
  "allocate_cluster buf tag = bind_io (ensure_refcounts 1) (\<lambda>_.
     bind_io (append_hosts 1 tag) (\<lambda>off.
     bind_io (write_at buf off) (\<lambda>_.
     bind_io flush_refcounts (\<lambda>_. ret off))))"

section \<open>Copy on write\<close>

text \<open>The flag of a cluster with one reference left is set in the entry that refers to it.\<close>

fun refresh_l2 :: "nat \<Rightarrow> nat \<Rightarrow> nat list \<Rightarrow> ('p qcow, unit) io" where
  "refresh_l2 off l2 [] = ret ()"
| "refresh_l2 off l2 (j # rest) = bind_io (read_u64 (l2 + j * 8)) (\<lambda>entry.
     bind_io (if entry AND QCOW_OFFSET = off then write_u64 (l2 + j * 8) (entry OR QCOW_COPIED) else ret ())
       (\<lambda>_. refresh_l2 off l2 rest))"

fun refresh_l1 :: "nat \<Rightarrow> nat \<Rightarrow> nat list \<Rightarrow> ('p qcow, unit) io" where
  "refresh_l1 off tag [] = sync_fd"
| "refresh_l1 off tag (i # rest) = bind_io get_io (\<lambda>q.
     let l2 = q_l1 q ! i AND QCOW_OFFSET in
     if l2 = 0 then refresh_l1 off tag rest
     else bind_io (if tag = 3 \<and> l2 = off
          then bind_io (write_u64 (q_l1_offset q + i * 8) (l2 OR QCOW_COPIED))
            (\<lambda>_. modify_io (\<lambda>q. q\<lparr>q_l1 := (q_l1 q)[i := l2 OR QCOW_COPIED]\<rparr>))
          else if tag = 2 then refresh_l2 off l2 [0..<l2_count q] else ret ())
       (\<lambda>_. refresh_l1 off tag rest))"

definition refresh_copied_flags :: "nat \<Rightarrow> nat \<Rightarrow> ('p qcow, unit) io" where
  "refresh_copied_flags off tag = bind_io get_io (\<lambda>q. refresh_l1 off tag [0..<q_l1_size q])"

definition drop_reference :: "nat \<Rightarrow> ('p qcow, unit) io" where
  "drop_reference off = bind_io get_io (\<lambda>q.
     let n = off div q_cluster_size q; tag = q_tags q ! n in
     if q_refs q ! n = 0 then fail EINVAL
     else bind_io (modify_io (\<lambda>q. ref_changed n (q\<lparr>q_refs := (q_refs q)[n := q_refs q ! n - 1],
         q_tags := (if q_refs q ! n = 1 then (q_tags q)[n := 0] else q_tags q)\<rparr>))) (\<lambda>_.
       bind_io flush_refcounts (\<lambda>_.
       bind_io get_io (\<lambda>q. if q_refs q ! n = 1 then refresh_copied_flags off tag else ret ()))))"

definition writable_l2 :: "nat \<Rightarrow> ('p qcow, nat) io" where
  "writable_l2 index = bind_io get_io (\<lambda>q.
     let old = q_l1 q ! index AND QCOW_OFFSET in
     if old \<noteq> 0 \<and> q_refs q ! (old div q_cluster_size q) = 1 then ret old
     else bind_io (if old \<noteq> 0 then read_at (q_cluster_size q) old else ret (replicate (q_cluster_size q) 0)) (\<lambda>buf.
       bind_io (allocate_cluster buf 3) (\<lambda>off.
       bind_io (bind_io (write_u64 (q_l1_offset q + index * 8) (off OR QCOW_COPIED)) (\<lambda>_. sync_fd)) (\<lambda>_.
       bind_io (modify_io (\<lambda>q. q\<lparr>q_l1 := (q_l1 q)[index := off OR QCOW_COPIED]\<rparr>)) (\<lambda>_.
       bind_io (if old \<noteq> 0 then drop_reference old else ret ()) (\<lambda>_. ret off))))))"

text \<open>One cluster of a write: \<open>data\<close> go to position \<open>pos\<close> and do not cross its cluster.\<close>

definition qcow_write_chunk ::
  "(nat \<Rightarrow> int \<Rightarrow> ('p, byte list) io) \<Rightarrow> ('p \<Rightarrow> nat) \<Rightarrow> byte list \<Rightarrow> nat \<Rightarrow> ('p qcow, unit) io" where
  "qcow_write_chunk prd psize bs pos = bind_io get_io (\<lambda>q.
     let guest = pos div q_cluster_size q; within = pos mod q_cluster_size q in
     bind_io (writable_l2 (guest div l2_count q)) (\<lambda>l2.
     let entry_off = l2 + guest mod l2_count q * 8 in
     bind_io (read_u64 entry_off) (\<lambda>entry.
     bind_io get_io (\<lambda>q.
     let data = entry AND QCOW_OFFSET; inherited = min (q_size q - guest * q_cluster_size q) (q_cluster_size q) in
     if data = 0 \<or> entry AND QCOW_ZERO \<noteq> 0 \<or> q_refs q ! (data div q_cluster_size q) \<noteq> 1
     then bind_io (qcow_read prd psize inherited (int (guest * q_cluster_size q))) (\<lambda>old.
       bind_io (allocate_cluster (overlay within bs (old @ replicate (q_cluster_size q - inherited) 0)) 2) (\<lambda>off.
       bind_io (bind_io (write_u64 entry_off (off OR QCOW_COPIED)) (\<lambda>_. sync_fd)) (\<lambda>_.
       if data \<noteq> 0 then drop_reference data else ret ())))
     else write_at bs (data + within)))))"

function qcow_write_loop ::
  "(nat \<Rightarrow> int \<Rightarrow> ('p, byte list) io) \<Rightarrow> ('p \<Rightarrow> nat) \<Rightarrow> byte list \<Rightarrow> nat \<Rightarrow> ('p qcow, unit) io" where
  "qcow_write_loop prd psize bs pos q =
     (if bs = [] \<or> q_cluster_size q = 0 then (Inr (), q)
      else let chunk = min (q_cluster_size q - pos mod q_cluster_size q) (length bs) in
        (case qcow_write_chunk prd psize (take chunk bs) pos q of
           (Inl e, q') \<Rightarrow> (Inl e, q')
         | (Inr _, q') \<Rightarrow> qcow_write_loop prd psize (drop chunk bs) (pos + chunk) q'))"
  by pat_completeness auto
termination
  by (relation "measure (\<lambda>(prd, psize, bs, pos, q). length bs)") (auto simp: cluster_progress)

declare qcow_write_loop.simps [simp del]

definition qcow_write ::
  "(nat \<Rightarrow> int \<Rightarrow> ('p, byte list) io) \<Rightarrow> ('p \<Rightarrow> nat) \<Rightarrow> byte list \<Rightarrow> int \<Rightarrow> ('p qcow, unit) io" where
  "qcow_write prd psize buf offset = bind_io get_io (\<lambda>q.
     if \<not> q_writable q then fail EROFS
     else if offset < 0 \<or> q_size q < nat offset \<or> q_size q - nat offset < length buf then fail EINVAL
     else if buf = [] then ret ()
     else bind_io qcow_malloc (\<lambda>_.
       mark_failed (bind_io begin_write (\<lambda>_. qcow_write_loop prd psize buf (nat offset)))))"

definition qcow_sync :: "('p qcow, unit) io" where
  "qcow_sync = bind_io get_io (\<lambda>q.
     if q_failed q then fail EIO
     else if \<not> q_changed q then ret ()
     else bind_io (mark_failed flush_refcounts) (\<lambda>_.
       bind_io (if q_version q = 3
         then bind_io (try_io (bind_io (write_u64 72 0) (\<lambda>_. sync_fd))) (\<lambda>rc. case rc of
             Inr _ \<Rightarrow> ret ()
           | Inl e \<Rightarrow> bind_io (try_io (write_u64 72 1)) (\<lambda>_. bind_io (try_io sync_fd) (\<lambda>_. fail e)))
         else ret ()) (\<lambda>_.
       modify_io (\<lambda>q. q\<lparr>q_changed := False\<rparr>))))"

text \<open>Closing a changed layer that has not failed writes its counts and the clean mark.\<close>

definition qcow_close :: "('p qcow, unit) io" where
  "qcow_close = bind_io get_io (\<lambda>q.
     if q_writable q \<and> q_changed q \<and> \<not> q_failed q then bind_io (try_io qcow_sync) (\<lambda>_. ret ()) else ret ())"

definition qcow_ops ::
  "(nat \<Rightarrow> int \<Rightarrow> ('p, byte list) io) \<Rightarrow> ('p \<Rightarrow> nat) \<Rightarrow> ('p qcow) nextufs_image_backend_ops" where
  "qcow_ops prd psize = \<lparr>op_read = Some (qcow_read prd psize), op_write = Some (qcow_write prd psize),
     op_fsync = Some qcow_sync\<rparr>"

section \<open>Opening\<close>

text \<open>
  Every metadata cluster is counted once; tables of the second level (tag 3) and data clusters (tag 2)
  may be shared. \<open>expected\<close> are the counts so far.
\<close>

fun mark_clusters :: "nat \<Rightarrow> nat list \<Rightarrow> nat list \<times> nat list \<Rightarrow> errno + nat list \<times> nat list" where
  "mark_clusters tag [] et = Inr et"
| "mark_clusters tag (i # rest) (expected, tags) =
     (if tags ! i \<noteq> 0 \<and> (tag \<noteq> tags ! i \<or> tag \<noteq> 2 \<and> tag \<noteq> 3) then Inl EINVAL
      else if expected ! i = 65535 then Inl EINVAL
      else mark_clusters tag rest (expected[i := expected ! i + 1], tags[i := tag]))"

definition mark_region :: "nat list \<Rightarrow> nat \<Rightarrow> nat \<Rightarrow> nat \<Rightarrow> ('p qcow, nat list) io" where
  "mark_region expected off bytes tag = bind_io get_io (\<lambda>q.
     let first = off div q_cluster_size q; count = (bytes + q_cluster_size q - 1) div q_cluster_size q in
     if off mod q_cluster_size q \<noteq> 0 \<or> \<not> range_valid q off bytes then fail EINVAL
     else if q_host_count q < first \<or> q_host_count q - first < count then fail EINVAL
     else case mark_clusters tag [first..<first + count] (expected, q_tags q) of
       Inl e \<Rightarrow> fail e
     | Inr (expected, tags) \<Rightarrow> bind_io (modify_io (\<lambda>q. q\<lparr>q_tags := tags\<rparr>)) (\<lambda>_. ret expected))"

text \<open>The counts of one block into \<open>refs\<close>; counts beyond the end of the file must be zero.\<close>

fun load_counts :: "nat \<Rightarrow> nat \<Rightarrow> byte list \<Rightarrow> nat list \<Rightarrow> nat list \<Rightarrow> nat list option" where
  "load_counts first host_count block [] refs = Some refs"
| "load_counts first host_count block (j # rest) refs =
     (let v = nextufs__read_be16 block (j * 2) in
      if first + j < host_count then load_counts first host_count block rest (refs[first + j := v])
      else if v \<noteq> 0 then None
      else load_counts first host_count block rest refs)"

fun load_ref_blocks :: "nat list \<Rightarrow> nat list \<Rightarrow> ('p qcow, nat list) io" where
  "load_ref_blocks expected [] = ret expected"
| "load_ref_blocks expected (i # rest) = bind_io get_io (\<lambda>q.
     let off = q_ref_table q ! i in
     if off = 0 then load_ref_blocks expected rest
     else bind_io (mark_region expected off (q_cluster_size q) 1) (\<lambda>expected.
       bind_io (read_at (q_cluster_size q) off) (\<lambda>block.
       bind_io get_io (\<lambda>q.
       case load_counts (i * refs_per_block q) (q_host_count q) block [0..<refs_per_block q] (q_refs q) of
         None \<Rightarrow> fail EINVAL
       | Some refs \<Rightarrow> bind_io (modify_io (\<lambda>q. q\<lparr>q_refs := refs\<rparr>)) (\<lambda>_. load_ref_blocks expected rest)))))"

text \<open>The copied flag says whether the cluster has exactly one reference.\<close>

definition entry_aligned :: "'p qcow \<Rightarrow> nat \<Rightarrow> nat \<Rightarrow> bool" where
  "entry_aligned q entry off \<longleftrightarrow> off mod q_cluster_size q = 0 \<and> range_valid q off (q_cluster_size q) \<and>
     (entry AND QCOW_COPIED \<noteq> 0) = (q_refs q ! (off div q_cluster_size q) = 1)"

fun check_l2 :: "nat list \<Rightarrow> byte list \<Rightarrow> nat list \<Rightarrow> ('p qcow, nat list) io" where
  "check_l2 expected block [] = ret expected"
| "check_l2 expected block (j # rest) = bind_io get_io (\<lambda>q.
     let e = read_be64 block (j * 8); data = e AND QCOW_OFFSET in
     if e AND QCOW_COMPRESSED \<noteq> 0 then fail ENOTSUP
     else if e AND (2 ^ 64 - 1 - (QCOW_OFFSET + QCOW_COPIED + QCOW_ZERO)) \<noteq> 0 \<or>
        q_version q = 2 \<and> e AND QCOW_ZERO \<noteq> 0 \<or> data = 0 \<and> e AND QCOW_COPIED \<noteq> 0 then fail EINVAL
     else if data = 0 then check_l2 expected block rest
     else if \<not> entry_aligned q e data then fail EINVAL
     else bind_io (mark_region expected data (q_cluster_size q) 2) (\<lambda>expected. check_l2 expected block rest))"

fun check_l1 :: "nat list \<Rightarrow> nat list \<Rightarrow> ('p qcow, nat list) io" where
  "check_l1 expected [] = ret expected"
| "check_l1 expected (i # rest) = bind_io get_io (\<lambda>q.
     let entry = q_l1 q ! i; off = entry AND QCOW_OFFSET in
     if entry AND (2 ^ 64 - 1 - (QCOW_OFFSET + QCOW_COPIED)) \<noteq> 0 \<or> off = 0 \<and> entry \<noteq> 0 then fail EINVAL
     else if off = 0 then check_l1 expected rest
     else if \<not> entry_aligned q entry off then fail EINVAL
     else bind_io (mark_region expected off (q_cluster_size q) 3) (\<lambda>expected.
       bind_io (read_at (q_cluster_size q) off) (\<lambda>block.
       bind_io (check_l2 expected block [0..<l2_count q]) (\<lambda>expected. check_l1 expected rest))))"

definition validate_tables :: "('p qcow, unit) io" where
  "validate_tables = bind_io get_io (\<lambda>q.
     bind_io qcow_malloc (\<lambda>_. bind_io qcow_malloc (\<lambda>_.
     bind_io (mark_region (replicate (q_host_count q) 0) 0 (q_cluster_size q) 1) (\<lambda>expected.
     bind_io (mark_region expected (q_l1_offset q) (q_l1_size q * 8) 1) (\<lambda>expected.
     bind_io (mark_region expected (q_ref_offset q) (q_ref_clusters q * q_cluster_size q) 1) (\<lambda>expected.
     bind_io (load_ref_blocks expected [0..<length (q_ref_table q)]) (\<lambda>expected.
     bind_io (check_l1 expected [0..<q_l1_size q]) (\<lambda>expected.
     bind_io get_io (\<lambda>q.
     if list_all (\<lambda>i. expected ! i = q_refs q ! i) [0..<q_host_count q] then ret () else fail EINVAL)))))))))"

fun load_table :: "nat \<Rightarrow> nat list \<Rightarrow> ('p qcow, nat list) io" where
  "load_table off [] = ret []"
| "load_table off (i # rest) = bind_io (read_u64 (u64 (off + i * 8))) (\<lambda>e.
     bind_io (load_table off rest) (\<lambda>es. ret (e # es)))"

text \<open>
  The header extensions; the result is the format of the parent, empty when none is given. The step
  is positive, which the function does not need to know to end: \<open>ext\<close> grows by at least 8.
\<close>

definition known_format :: "byte list \<Rightarrow> bool" where
  "known_format s \<longleftrightarrow> s = [0x72, 0x61, 0x77] \<or> s = [0x71, 0x63, 0x6f, 0x77, 0x32]"

function header_extensions :: "nat \<Rightarrow> nat \<Rightarrow> byte list \<Rightarrow> ('p qcow, byte list) io" where
  "header_extensions ext ext_end backing_format q =
     (if ext_end < ext + 8 then (Inr backing_format, q)
      else case read_at 8 ext q of
        (Inl e, q) \<Rightarrow> (Inl e, q)
      | (Inr e, q) \<Rightarrow>
          (let type = nextufs__read_be32 e 0; len = nextufs__read_be32 e 4; next_ext = ext + 8 + (len + 7) div 8 * 8 in
           if type = 0 then (Inr backing_format, q)
           else if ext_end - ext - 8 < len then (Inl EINVAL, q)
           else case (if type = 0xe2792aca
                      then if 8 \<le> len \<or> len = 0 \<or> backing_format \<noteq> [] then (Inl ENOTSUP, q)
                        else case read_at len (ext + 8) q of
                          (Inl e, q) \<Rightarrow> (Inl e, q)
                        | (Inr s, q) \<Rightarrow> if known_format s then (Inr s, q) else (Inl ENOTSUP, q)
                      else (Inr backing_format, q)) of
             (Inl e, q) \<Rightarrow> (Inl e, q)
           | (Inr backing_format, q) \<Rightarrow>
               if type = 0x23852875 \<or> type = 0x0537be77 \<or> type = 0x44415441 then (Inl ENOTSUP, q)
               else if ext_end < next_ext then (Inl EINVAL, q)
               else header_extensions next_ext ext_end backing_format q))"
  by pat_completeness auto
termination
  by (relation "measure (\<lambda>(ext, ext_end, backing_format, q). ext_end + 8 - ext)") (auto simp: Let_def)

declare header_extensions.simps [simp del]

definition qcow_blank :: "hostfile \<Rightarrow> nat \<Rightarrow> bool \<Rightarrow> bool list \<Rightarrow> 'p qcow" where
  "qcow_blank f st_sz rw ms = \<lparr>q_fd = f, q_raw = False, q_writable = rw, q_failed = False, q_changed = False,
     q_table_dirty = False, q_table_moved = False, q_version = 0, q_cluster_bits = 0, q_cluster_size = 0,
     q_l1_size = 0, q_ref_clusters = 0, q_size = 0, q_file_size = st_sz, q_l1_offset = 0, q_ref_offset = 0,
     q_l1 = [], q_ref_table = [], q_host_count = 0, q_refs = [], q_tags = [], q_ref_dirty = [], q_parent = None,
     q_mallocs = ms\<rparr>"

definition as_raw :: "'p qcow \<Rightarrow> 'p qcow" where
  "as_raw q = q\<lparr>q_raw := True, q_size := q_file_size q\<rparr>"

text \<open>The fields of the header, and the two groups of tests on them.\<close>

definition header_fields :: "byte list \<Rightarrow> 'p qcow \<Rightarrow> 'p qcow" where
  "header_fields hdr q = q\<lparr>q_version := nextufs__read_be32 hdr 4, q_cluster_bits := nextufs__read_be32 hdr 20,
     q_size := read_be64 hdr 24, q_l1_size := nextufs__read_be32 hdr 36, q_l1_offset := read_be64 hdr 40,
     q_ref_offset := read_be64 hdr 48, q_ref_clusters := nextufs__read_be32 hdr 56,
     q_cluster_size := u32 (2 ^ (nextufs__read_be32 hdr 20 mod 32))\<rparr>"

definition header_unsupported :: "byte list \<Rightarrow> 'p qcow \<Rightarrow> bool" where
  "header_unsupported hdr q \<longleftrightarrow> q_version q \<noteq> 2 \<and> q_version q \<noteq> 3 \<or> q_cluster_bits q < 9 \<or> 21 < q_cluster_bits q \<or>
     nextufs__read_be32 hdr 32 \<noteq> 0 \<or> nextufs__read_be32 hdr 60 \<noteq> 0 \<or>
     q_version q = 3 \<and> (read_be64 hdr 72 \<noteq> 0 \<or> read_be64 hdr 80 \<noteq> 0 \<or> read_be64 hdr 88 \<noteq> 0 \<or>
       nextufs__read_be32 hdr 96 \<noteq> 4)"

definition header_bad :: "byte list \<Rightarrow> 'p qcow \<Rightarrow> bool" where
  "header_bad hdr q =
     (let header_len = (if q_version q = 2 then 72 else nextufs__read_be32 hdr 100);
          backing_off = read_be64 hdr 8; backing_len = nextufs__read_be32 hdr 16 in
      q_size q = 0 \<or> 2 ^ 63 - 1 < q_size q \<or> q_l1_size q = 0 \<or> QCOW_MAX_L1_BYTES < q_l1_size q * 8 \<or>
      q_ref_clusters q = 0 \<or> QCOW_MAX_REF_BYTES < q_ref_clusters q * q_cluster_size q \<or>
      header_len < (if q_version q = 2 then 72 else 104) \<or> header_len mod 8 \<noteq> 0 \<or> q_cluster_size q < header_len \<or>
      \<not> range_valid q 0 (q_cluster_size q) \<or>
      q_l1_size q * l2_count q < q_size q div q_cluster_size q + (if q_size q mod q_cluster_size q = 0 then 0 else 1) \<or>
      backing_off \<noteq> 0 \<and> (backing_len = 0 \<or> 1023 < backing_len \<or> backing_off < header_len \<or>
        q_cluster_size q < backing_off \<or> q_cluster_size q - backing_off < backing_len))"

definition allocate_arrays :: "('p qcow, unit) io" where
  "allocate_arrays =
     bind_io (modify_io (\<lambda>q. q\<lparr>q_host_count := (q_file_size q + q_cluster_size q - 1) div q_cluster_size q\<rparr>)) (\<lambda>_.
     bind_io get_io (\<lambda>q.
     if QCOW_MAX_CLUSTERS < q_host_count q then fail ENOTSUP
     else let entries = q_ref_clusters q * l2_count q in
       bind_io qcow_malloc (\<lambda>_. bind_io qcow_malloc (\<lambda>_. bind_io qcow_malloc (\<lambda>_. bind_io qcow_malloc (\<lambda>_.
       bind_io qcow_malloc (\<lambda>_.
       modify_io (\<lambda>q. q\<lparr>q_l1 := replicate (q_l1_size q) 0, q_ref_table := replicate entries 0,
         q_refs := replicate (q_host_count q) 0, q_tags := replicate (q_host_count q) 0,
         q_ref_dirty := replicate entries False\<rparr>))))))))"

text \<open>A backing file is looked for next to the file that names it.\<close>

definition resolve_backing :: "byte list \<Rightarrow> byte list \<Rightarrow> errno + byte list" where
  "resolve_backing path name =
     (let prefix = (if hd name = 0x2f \<or> 0x2f \<notin> set path then []
        else rev (dropWhile (\<lambda>c. c \<noteq> 0x2f) (rev path)))
      in if 4096 \<le> length prefix + length name then Inl ENAMETOOLONG else Inr (prefix @ name))"

definition open_backing ::
  "(byte list \<Rightarrow> bool \<Rightarrow> errno + 'p \<times> bool) \<Rightarrow> byte list \<Rightarrow> nat \<Rightarrow> nat \<Rightarrow> byte list \<Rightarrow> ('p qcow, unit) io" where
  "open_backing parent path backing_off backing_len backing_format =
     bind_io (read_at backing_len backing_off) (\<lambda>name.
     if 0 \<in> set name then fail EINVAL
     else case resolve_backing path name of
       Inl e \<Rightarrow> fail e
     | Inr resolved \<Rightarrow>
         (case parent resolved (backing_format = [0x72, 0x61, 0x77]) of
            Inl e \<Rightarrow> fail e
          | Inr (p, parent_raw) \<Rightarrow>
              bind_io (modify_io (\<lambda>q. q\<lparr>q_parent := Some p\<rparr>)) (\<lambda>_.
              if backing_format = [0x71, 0x63, 0x6f, 0x77, 0x32] \<and> parent_raw then fail EINVAL else ret ())))"

definition read_table :: "nat \<Rightarrow> nat \<Rightarrow> ('p qcow, nat list) io" where
  "read_table off n = load_table off [0..<n]"

definition open_tables ::
  "(byte list \<Rightarrow> bool \<Rightarrow> errno + 'p \<times> bool) \<Rightarrow> byte list \<Rightarrow> byte list \<Rightarrow> ('p qcow, unit) io" where
  "open_tables parent path hdr =
     bind_io allocate_arrays (\<lambda>_.
     bind_io get_io (\<lambda>q.
     bind_io (read_table (q_l1_offset q) (q_l1_size q)) (\<lambda>l1.
     bind_io (modify_io (\<lambda>q. q\<lparr>q_l1 := l1\<rparr>)) (\<lambda>_.
     bind_io (read_table (q_ref_offset q) (length (q_ref_table q))) (\<lambda>table.
     bind_io (modify_io (\<lambda>q. q\<lparr>q_ref_table := table\<rparr>)) (\<lambda>_.
     let header_len = (if q_version q = 2 then 72 else nextufs__read_be32 hdr 100);
         backing_off = read_be64 hdr 8; backing_len = nextufs__read_be32 hdr 16 in
     bind_io (header_extensions header_len (if backing_off = 0 then q_cluster_size q else backing_off) []) (\<lambda>backing_format.
     bind_io validate_tables (\<lambda>_.
     if backing_off = 0 then ret ()
     else open_backing parent path backing_off backing_len backing_format))))))))"

text \<open>
  \<open>opened\<close> is what \<open>open\<close>, \<open>flock\<close>, \<open>fstat\<close> and the test against the files already open give: the size
  of the file. \<open>parent\<close> opens the parent at a path, as a raw layer or by its header; it also says
  whether the parent is raw. The depth and the files of the chain are the business of the caller.
\<close>

definition qcow_open ::
  "(byte list \<Rightarrow> bool \<Rightarrow> errno + 'p \<times> bool) \<Rightarrow> nat \<Rightarrow> errno + nat \<Rightarrow> bool \<Rightarrow> bool \<Rightarrow> bool list \<Rightarrow> byte list \<Rightarrow>
   hostfile \<Rightarrow> errno + 'p qcow" where
  "qcow_open parent depth opened rw force_raw ms path f =
     (if QCOW_MAX_DEPTH \<le> depth then Inl ELOOP
      else case qcow_malloc (qcow_blank f 0 rw ms) of
        (Inl e, _) \<Rightarrow> Inl e
      | (Inr _, q) \<Rightarrow> (case opened of
          Inl e \<Rightarrow> Inl e
        | Inr st_sz \<Rightarrow>
            if force_raw then Inr (as_raw (q\<lparr>q_file_size := st_sz\<rparr>))
            else case read_at (min st_sz 104) 0 (q\<lparr>q_file_size := st_sz\<rparr>) of
              (Inl e, _) \<Rightarrow> Inl e
            | (Inr bs, q) \<Rightarrow>
                (let hdr = bs @ replicate (104 - length bs) 0; q' = header_fields hdr q in
                 if nextufs__read_be32 hdr 0 \<noteq> QCOW_MAGIC then
                   (if 0x44 \<le> st_sz then (case read_at 4 0x40 q of
                        (Inr sig, q) \<Rightarrow> if sig = [0x7f, 0x10, 0xda, 0xbe] then Inl ENOTSUP else Inr (as_raw q)
                      | (Inl _, q) \<Rightarrow> Inr (as_raw q))
                    else Inr (as_raw q))
                 else if header_unsupported hdr q' then Inl ENOTSUP
                 else if header_bad hdr q' then Inl EINVAL
                 else case open_tables parent path hdr q' of (Inl e, _) \<Rightarrow> Inl e | (Inr _, q) \<Rightarrow> Inr q)))"

text \<open>The container branch of the image code; a raw file is refused here.\<close>

definition nextufs__qcow2_open :: "errno + 'p qcow \<Rightarrow> bool \<Rightarrow> ('p qcow nextufs_image_backend_ops) \<Rightarrow> (('p qcow) nextufs_image, unit) io" where
  "nextufs__qcow2_open opened rw ops =
     (case opened of
        Inl e \<Rightarrow> fail e
      | Inr q \<Rightarrow>
          if q_raw q then fail EINVAL
          else modify_io (\<lambda>img. img\<lparr>backend_ctx := q, backend_ops := Some ops, writable := rw, source_is_container := True,
            source_format := NEXTUFS_SOURCE_QCOW2, image_size := int (q_size q), slice_size := int (q_size q)\<rparr>))"

end
