(* ===== verification/Qcow2_Disk.thy ===== *)
theory Qcow2_Disk
  imports Qcow2
begin

text \<open>
  The disk that a qcow2 layer of \<^verbatim>\<open>src/core/qcow2.c\<close> shows its guest, as a function of the tables
  and of the file, and reading. The locale \<open>layer\<close> is what a layer needs of its parent; a qcow2 layer
  over a layer is a layer, so the facts hold for chains of any depth.
\<close>

section \<open>The guest disk\<close>

definition l1_off :: "'p qcow \<Rightarrow> nat \<Rightarrow> nat" where
  "l1_off q i = q_l1 q ! i AND QCOW_OFFSET"

text \<open>The entry of guest cluster \<open>j\<close> of table \<open>i\<close>, as it is in the file.\<close>

definition l2_entry :: "'p qcow \<Rightarrow> nat \<Rightarrow> nat \<Rightarrow> nat" where
  "l2_entry q i j = (if l1_off q i = 0 then 0 else read_be64 (content (q_fd q)) (l1_off q i + j * 8))"

definition qcow_parent_byte :: "('p \<Rightarrow> byte list) \<Rightarrow> 'p qcow \<Rightarrow> nat \<Rightarrow> byte" where
  "qcow_parent_byte pdisk q p =
     (case q_parent q of None \<Rightarrow> 0 | Some d \<Rightarrow> if p < length (pdisk d) then pdisk d ! p else 0)"

definition qcow_byte :: "('p \<Rightarrow> byte list) \<Rightarrow> 'p qcow \<Rightarrow> nat \<Rightarrow> byte" where
  "qcow_byte pdisk q p =
     (let guest = p div q_cluster_size q; e = l2_entry q (guest div l2_count q) (guest mod l2_count q) in
      if e AND QCOW_ZERO \<noteq> 0 then 0
      else if e AND QCOW_OFFSET \<noteq> 0 then content (q_fd q) ! ((e AND QCOW_OFFSET) + p mod q_cluster_size q)
      else qcow_parent_byte pdisk q p)"

definition qcow_disk :: "('p \<Rightarrow> byte list) \<Rightarrow> 'p qcow \<Rightarrow> byte list" where
  "qcow_disk pdisk q =
     (if q_raw q then take (q_size q) (content (q_fd q)) else map (qcow_byte pdisk q) [0..<q_size q])"

definition qcow_readable :: "('p \<Rightarrow> bool) \<Rightarrow> 'p qcow \<Rightarrow> bool" where
  "qcow_readable pinv q \<longleftrightarrow> q_size q < 2 ^ 63 \<and> q_file_size q < 2 ^ 63 \<and>
     (if q_raw q then q_size q \<le> length (content (q_fd q))
      else 0 < q_cluster_size q \<and> (\<forall>d. q_parent q = Some d \<longrightarrow> pinv d))"

lemma length_qcow_disk: "qcow_readable pinv q \<Longrightarrow> length (qcow_disk pdisk q) = q_size q"
  by (auto simp: qcow_disk_def qcow_readable_def split: if_splits)

section \<open>Reading a layer\<close>

text \<open>What a layer promises its child: a readable disk of a known size.\<close>

locale layer =
  fixes rd :: "nat \<Rightarrow> int \<Rightarrow> ('p, byte list) io"
    and sz :: "'p \<Rightarrow> nat"
    and disk :: "'p \<Rightarrow> byte list"
    and linv :: "'p \<Rightarrow> bool"
  assumes size_law: "linv d \<Longrightarrow> length (disk d) = sz d \<and> sz d < 2 ^ 63"
    and layer_read: "linv d \<Longrightarrow> rd n off d = (r, d') \<Longrightarrow> linv d' \<and> disk d' = disk d \<and> sz d' = sz d \<and>
      (\<forall>bs. r = Inr bs \<longrightarrow> 0 \<le> off \<and> nat off + n \<le> sz d \<and> bs = bytes_at (nat off) n (disk d))"

text \<open>What reading may change: the schedule of the file gets shorter, and the state inside the parent.\<close>

definition same_parent ::
  "('p \<Rightarrow> byte list) \<Rightarrow> ('p \<Rightarrow> nat) \<Rightarrow> ('p \<Rightarrow> bool) \<Rightarrow> 'p option \<Rightarrow> 'p option \<Rightarrow> bool" where
  "same_parent pdisk psize pinv d d' \<longleftrightarrow> (case d of None \<Rightarrow> d' = None
     | Some b \<Rightarrow> \<exists>a. d' = Some a \<and> pdisk a = pdisk b \<and> psize a = psize b \<and> (pinv b \<longrightarrow> pinv a))"

lemma same_parent_refl [simp]: "same_parent pdisk psize pinv d d"
  by (simp add: same_parent_def split: option.split)

lemma same_parent_trans:
  "same_parent pdisk psize pinv d d1 \<Longrightarrow> same_parent pdisk psize pinv d1 d2 \<Longrightarrow> same_parent pdisk psize pinv d d2"
  by (cases d) (auto simp: same_parent_def)

definition reads_from :: "('p \<Rightarrow> byte list) \<Rightarrow> ('p \<Rightarrow> nat) \<Rightarrow> ('p \<Rightarrow> bool) \<Rightarrow> 'p qcow \<Rightarrow> 'p qcow \<Rightarrow> bool" where
  "reads_from pdisk psize pinv q q' \<longleftrightarrow> (\<exists>f d. q' = q\<lparr>q_fd := f, q_parent := d\<rparr> \<and>
     content f = content (q_fd q) \<and> set (script f) \<subseteq> set (script (q_fd q)) \<and>
     same_parent pdisk psize pinv (q_parent q) d)"

lemma reads_from_refl: "reads_from pdisk psize pinv q q"
  unfolding reads_from_def by (intro exI [of _ "q_fd q"] exI [of _ "q_parent q"]) simp

lemma reads_from_trans:
  assumes "reads_from pdisk psize pinv q q1" and "reads_from pdisk psize pinv q1 q2"
  shows "reads_from pdisk psize pinv q q2"
proof -
  from assms(1) obtain f1 d1 where q1: "q1 = q\<lparr>q_fd := f1, q_parent := d1\<rparr>" "content f1 = content (q_fd q)"
    "set (script f1) \<subseteq> set (script (q_fd q))" "same_parent pdisk psize pinv (q_parent q) d1"
    unfolding reads_from_def by blast
  from assms(2) obtain f2 d2 where q2: "q2 = q1\<lparr>q_fd := f2, q_parent := d2\<rparr>" "content f2 = content (q_fd q1)"
    "set (script f2) \<subseteq> set (script (q_fd q1))" "same_parent pdisk psize pinv (q_parent q1) d2"
    unfolding reads_from_def by blast
  have "q2 = q\<lparr>q_fd := f2, q_parent := d2\<rparr>" by (simp add: q2(1) q1(1))
  moreover have "same_parent pdisk psize pinv (q_parent q) d2"
    using same_parent_trans [OF q1(4)] q2(4) by (simp add: q1(1))
  moreover have "content f2 = content (q_fd q)" "set (script f2) \<subseteq> set (script (q_fd q))"
    using q1 q2(2,3) by auto
  ultimately show ?thesis unfolding reads_from_def by blast
qed

lemma reads_from_view:
  assumes "reads_from pdisk psize pinv q q'"
  shows "qcow_disk pdisk q' = qcow_disk pdisk q" and "qcow_readable pinv q \<Longrightarrow> qcow_readable pinv q'"
    and "q_size q' = q_size q" and "q_cluster_size q' = q_cluster_size q" and "q_raw q' = q_raw q"
    and "q_file_size q' = q_file_size q" and "qcow_parent_byte pdisk q' p = qcow_parent_byte pdisk q p"
    and "qcow_byte pdisk q' p = qcow_byte pdisk q p"
proof -
  from assms obtain f d where q': "q' = q\<lparr>q_fd := f, q_parent := d\<rparr>" and c: "content f = content (q_fd q)"
    and d: "same_parent pdisk psize pinv (q_parent q) d"
    unfolding reads_from_def by blast
  have pb: "qcow_parent_byte pdisk q' p = qcow_parent_byte pdisk q p" for p
    using d by (cases "q_parent q") (auto simp: qcow_parent_byte_def q' same_parent_def)
  then show "qcow_parent_byte pdisk q' p = qcow_parent_byte pdisk q p" .
  have qb: "qcow_byte pdisk q' p = qcow_byte pdisk q p" for p
    using pb [of p] by (simp add: qcow_byte_def l2_entry_def l1_off_def q' c Let_def)
  then show "qcow_byte pdisk q' p = qcow_byte pdisk q p" .
  have "map (qcow_byte pdisk q') = map (qcow_byte pdisk q)" using qb by presburger
  then show "qcow_disk pdisk q' = qcow_disk pdisk q" by (simp add: qcow_disk_def q' c)
  show "qcow_readable pinv q \<Longrightarrow> qcow_readable pinv q'"
    using d by (cases "q_parent q") (auto simp: qcow_readable_def q' c same_parent_def split: if_splits)
qed (use assms in \<open>auto simp: reads_from_def\<close>)

definition sched_in :: "sysres set \<Rightarrow> hostfile \<Rightarrow> bool" where
  "sched_in S f \<longleftrightarrow> set (script f) \<subseteq> S"

lemma pread_sched: "pread n off f = (q, g) \<Longrightarrow> sched_in S f \<Longrightarrow> sched_in S g"
  by (auto simp: pread_def sched_in_def split: if_splits list.splits sysres.splits)

lemma read_fd_loop_sched: "read_fd_loop n off out f = (r, f') \<Longrightarrow> sched_in S f \<Longrightarrow> sched_in S f'"
proof (induction n off out f arbitrary: r f' rule: read_fd_loop.induct)
  case (1 sz off out f)
  then show ?case
    by (subst (asm) read_fd_loop.simps)
      (auto split: if_splits prod.splits sum.splits dest!: pread_sched)
qed

lemma read_exact_sched: "nextufs__read_exact_fd n off f = (r, f') \<Longrightarrow> set (script f') \<subseteq> set (script f)"
  using read_fd_loop_sched [of n off "[]" f r f' "set (script f)"]
  by (simp add: nextufs__read_exact_fd_def sched_in_def)

context layer
begin

abbreviation "reads \<equiv> reads_from disk sz linv"

lemma read_at_reads:
  assumes "read_at n off q = (r, q')" and "q_file_size q < 2 ^ 63"
  shows "reads q q' \<and> (\<forall>bs. r = Inr bs \<longrightarrow> bs = bytes_at off n (content (q_fd q)) \<and> length bs = n)"
proof (cases "range_valid q off n")
  case False
  with assms(1) reads_from_refl show ?thesis by (auto simp: read_at_def io_defs)
next
  case True
  obtain f where f: "nextufs__read_exact_fd n (to_off off) (q_fd q) = (r, f)" and q': "q' = q\<lparr>q_fd := f\<rparr>"
    using assms(1) True by (auto simp: read_at_def io_defs qcow_fd_io_def split: prod.splits)
  have "to_off off = int off" using True assms(2) by (intro to_off_id) (simp add: range_valid_def)
  with f read_exact_fd_Inr [of n "int off" "q_fd q"] have "\<forall>bs. r = Inr bs \<longrightarrow> bs = bytes_at off n (content (q_fd q)) \<and> length bs = n"
    by auto
  moreover have "reads q q'"
    unfolding reads_from_def q' using read_exact_fd_content [OF f] read_exact_sched [OF f]
    by - (rule exI [of _ f], rule exI [of _ "q_parent q"], simp)
  ultimately show ?thesis by blast
qed

lemma read_u64_reads:
  assumes "read_u64 off q = (r, q')" and "q_file_size q < 2 ^ 63"
  shows "reads q q' \<and> (\<forall>v. r = Inr v \<longrightarrow> v = read_be64 (content (q_fd q)) off)"
proof -
  obtain s q1 where s: "read_at 8 off q = (s, q1)" by (cases "read_at 8 off q")
  note e = read_at_reads [OF s assms(2)]
  show ?thesis
  proof (cases s)
    case (Inl x)
    with assms(1) s e show ?thesis by (auto simp: read_u64_def io_defs)
  next
    case (Inr bs)
    with e have "bs = bytes_at off 8 (content (q_fd q))" "length bs = 8" by auto
    then have "read_be64 bs 0 = read_be64 (content (q_fd q)) off"
      by (auto simp: read_be64_eq read_be32_eq bytes_at_def add.commute)
    with assms(1) s e Inr show ?thesis by (auto simp: read_u64_def io_defs)
  qed
qed

lemma inherited_reads:
  assumes "qcow_inherited rd sz chunk pos q = (r, q')" and "qcow_readable linv q" and "\<not> q_raw q"
  shows "reads q q' \<and> (\<forall>bs. r = Inr bs \<longrightarrow> bs = map (qcow_parent_byte disk q) [pos..<pos + chunk])"
proof (cases "q_parent q")
  case None
  with assms(1) have "q' = q" "r = Inr (replicate chunk 0)" by (simp_all add: qcow_inherited_def io_defs)
  moreover have "map (qcow_parent_byte disk q) [pos..<pos + chunk] = replicate chunk 0"
    by (rule nth_equalityI) (simp_all add: qcow_parent_byte_def None)
  ultimately show ?thesis using reads_from_refl by auto
next
  case (Some d)
  have inv: "linv d" using assms(2,3) Some by (simp add: qcow_readable_def)
  note sl = size_law [OF inv]
  show ?thesis
  proof (cases "sz d \<le> pos")
    case True
    with assms(1) Some have "q' = q" "r = Inr (replicate chunk 0)" by (simp_all add: qcow_inherited_def io_defs)
    moreover have "map (qcow_parent_byte disk q) [pos..<pos + chunk] = replicate chunk 0"
      using True sl by (intro nth_equalityI) (simp_all add: qcow_parent_byte_def Some)
    ultimately show ?thesis using reads_from_refl by auto
  next
    case False
    let ?n = "min (sz d - pos) chunk"
    obtain s d' where s: "rd ?n (int pos) d = (s, d')" by (cases "rd ?n (int pos) d")
    note l = layer_read [OF inv s]
    let ?q = "q\<lparr>q_parent := Some d'\<rparr>"
    have rd: "reads q ?q"
      unfolding reads_from_def using l Some
      by - (rule exI [of _ "q_fd q"], rule exI [of _ "Some d'"], simp add: same_parent_def)
    show ?thesis
    proof (cases s)
      case (Inl e)
      with assms(1) Some False s rd show ?thesis by (auto simp: qcow_inherited_def qcow_parent_read_def io_defs Let_def)
    next
      case (Inr bs)
      with assms(1) Some False s have r: "r = Inr (bs @ replicate (chunk - ?n) 0)" "q' = ?q"
        by (auto simp: qcow_inherited_def qcow_parent_read_def io_defs Let_def)
      from l Inr have "bs = bytes_at pos ?n (disk d)" by auto
      then have "bs @ replicate (chunk - ?n) 0 = map (qcow_parent_byte disk q) [pos..<pos + chunk]"
        using sl False by (intro nth_equalityI) (auto simp: qcow_parent_byte_def Some nth_append)
      with r rd show ?thesis by simp
    qed
  qed
qed

lemma bytes_at_nth: "length (bytes_at off n xs) = n \<Longrightarrow> t < n \<Longrightarrow> bytes_at off n xs ! t = xs ! (off + t)"
  by (auto simp: bytes_at_def)

lemma cluster_positions:
  fixes cs pos chunk t :: nat
  assumes "t < chunk" and "chunk \<le> cs - pos mod cs" and "0 < cs"
  shows "(pos + t) div cs = pos div cs \<and> (pos + t) mod cs = pos mod cs + t"
proof -
  have lt: "pos mod cs + t < cs" using assms mod_less_divisor [OF assms(3), of pos] by linarith
  have "pos + t = (pos mod cs + t) + cs * (pos div cs)" by simp
  then have "(pos + t) div cs = ((pos mod cs + t) + cs * (pos div cs)) div cs"
    "(pos + t) mod cs = ((pos mod cs + t) + cs * (pos div cs)) mod cs" by presburger+
  moreover have "((pos mod cs + t) + cs * k) div cs = k" "((pos mod cs + t) + cs * k) mod cs = pos mod cs + t" for k
    using lt assms(3) by simp_all
  ultimately show ?thesis by presburger
qed

lemma chunk_reads:
  assumes "qcow_read_chunk rd sz chunk pos q = (r, q')" and "qcow_readable linv q" and "\<not> q_raw q"
    and "chunk \<le> q_cluster_size q - pos mod q_cluster_size q"
  shows "reads q q' \<and> (\<forall>bs. r = Inr bs \<longrightarrow> bs = map (qcow_byte disk q) [pos..<pos + chunk])"
proof -
  let ?cs = "q_cluster_size q" and ?g = "pos div q_cluster_size q"
  let ?l2 = "l1_off q (?g div l2_count q)" and ?e = "l2_entry q (?g div l2_count q) (?g mod l2_count q)"
  have cs: "0 < ?cs" and fs: "q_file_size q < 2 ^ 63" using assms(2,3) by (simp_all add: qcow_readable_def)
  obtain s q1 where s: "(if ?l2 \<noteq> 0 then read_u64 (?l2 + ?g mod l2_count q * 8) else ret 0) q = (s, q1)"
    by (cases "(if ?l2 \<noteq> 0 then read_u64 (?l2 + ?g mod l2_count q * 8) else ret 0) q")
  have e1: "reads q q1" "\<forall>v. s = Inr v \<longrightarrow> v = ?e"
    using s read_u64_reads [OF _ fs, of "?l2 + ?g mod l2_count q * 8" s q1] reads_from_refl
    by (auto simp: l2_entry_def ret_def split: if_splits)
  note v1 = reads_from_view [OF e1(1)]
  have pos: "(pos + t) div ?cs = ?g \<and> (pos + t) mod ?cs = pos mod ?cs + t" if "t < chunk" for t
    using cluster_positions [OF that assms(4) cs] .
  have byte: "qcow_byte disk q (pos + t) = (if ?e AND QCOW_ZERO \<noteq> 0 then 0
      else if ?e AND QCOW_OFFSET \<noteq> 0 then content (q_fd q) ! ((?e AND QCOW_OFFSET) + (pos mod ?cs + t))
      else qcow_parent_byte disk q (pos + t))" if "t < chunk" for t
    using pos [OF that] by (simp add: qcow_byte_def Let_def)
  have unf: "qcow_read_chunk rd sz chunk pos q = bind_io (if ?l2 \<noteq> 0 then read_u64 (?l2 + ?g mod l2_count q * 8) else ret 0) (\<lambda>entry.
     if entry AND QCOW_ZERO \<noteq> 0 then ret (replicate chunk 0)
     else if entry AND QCOW_OFFSET \<noteq> 0 then read_at chunk ((entry AND QCOW_OFFSET) + pos mod ?cs)
     else qcow_inherited rd sz chunk pos) q"
    by (simp add: qcow_read_chunk_def bind_io_def get_io_def l1_off_def Let_def)
  show ?thesis
  proof (cases s)
    case (Inl x)
    with assms(1) s unf have "q' = q1" "r = Inl x" by (simp_all add: bind_io_def)
    with e1(1) show ?thesis by simp
  next
    case (Inr v)
    with e1 have v: "v = ?e" by simp
    have rest: "(if ?e AND QCOW_ZERO \<noteq> 0 then ret (replicate chunk 0)
       else if ?e AND QCOW_OFFSET \<noteq> 0 then read_at chunk ((?e AND QCOW_OFFSET) + pos mod ?cs)
       else qcow_inherited rd sz chunk pos) q1 = (r, q')"
      using assms(1) s Inr v unf by (simp add: bind_io_def)
    consider "?e AND QCOW_ZERO \<noteq> 0" | "?e AND QCOW_ZERO = 0" "?e AND QCOW_OFFSET \<noteq> 0" |
      "?e AND QCOW_ZERO = 0" "?e AND QCOW_OFFSET = 0" by blast
    then show ?thesis
    proof cases
      case 1
      with rest have r: "r = Inr (replicate chunk 0)" "q' = q1" by (simp_all add: ret_def)
      have "replicate chunk 0 = map (qcow_byte disk q) [pos..<pos + chunk]"
        using byte 1 by (intro nth_equalityI) simp_all
      with r e1(1) show ?thesis by simp
    next
      case 2
      with rest have r: "read_at chunk ((?e AND QCOW_OFFSET) + pos mod ?cs) q1 = (r, q')" by simp
      have "q_file_size q1 < 2 ^ 63" using v1(6) fs by simp
      note ra = read_at_reads [OF r this]
      have c1: "content (q_fd q1) = content (q_fd q)" using e1(1) by (auto simp: reads_from_def)
      have "bs = map (qcow_byte disk q) [pos..<pos + chunk]" if "r = Inr bs" for bs
      proof -
        from ra that have b: "bs = bytes_at ((?e AND QCOW_OFFSET) + pos mod ?cs) chunk (content (q_fd q))" "length bs = chunk"
          unfolding c1 by blast+
        show ?thesis
        proof (rule nth_equalityI)
          show "length bs = length (map (qcow_byte disk q) [pos..<pos + chunk])" using b(2) by simp
        next
          fix t assume "t < length bs"
          then have t: "t < chunk" using b(2) by simp
          have "bs ! t = content (q_fd q) ! ((?e AND QCOW_OFFSET) + pos mod ?cs + t)"
            using bytes_at_nth [of "(?e AND QCOW_OFFSET) + pos mod ?cs" chunk "content (q_fd q)" t] b t by simp
          with byte [OF t] 2 t show "bs ! t = map (qcow_byte disk q) [pos..<pos + chunk] ! t"
            by (simp add: add.assoc)
        qed
      qed
      with ra e1(1) reads_from_trans show ?thesis by blast
    next
      case 3
      with rest have r: "qcow_inherited rd sz chunk pos q1 = (r, q')" by simp
      have "qcow_readable linv q1" "\<not> q_raw q1" using v1(2,5) assms(2,3) by simp_all
      note ri = inherited_reads [OF r this]
      have "map (qcow_parent_byte disk q1) [pos..<pos + chunk] = map (qcow_byte disk q) [pos..<pos + chunk]"
        using byte 3 reads_from_view(7) [OF e1(1)] by (intro nth_equalityI) simp_all
      with ri e1(1) reads_from_trans show ?thesis by fastforce
    qed
  qed
qed

lemma read_loop_reads:
  "qcow_read_loop rd sz n pos q = (r, q') \<Longrightarrow> qcow_readable linv q \<Longrightarrow> \<not> q_raw q \<Longrightarrow>
   reads q q' \<and> (\<forall>bs. r = Inr bs \<longrightarrow> bs = map (qcow_byte disk q) [pos..<pos + n])"
proof (induction n arbitrary: pos q r q' rule: less_induct)
  case (less n)
  have cs: "0 < q_cluster_size q" using less.prems(2,3) by (simp add: qcow_readable_def)
  show ?case
  proof (cases "n = 0")
    case True
    from less.prems(1) have "q' = q" "r = Inr []" by (simp_all add: True qcow_read_loop.simps [of rd sz 0])
    with True reads_from_refl show ?thesis by simp
  next
    case False
    let ?k = "min (q_cluster_size q - pos mod q_cluster_size q) n"
    have k: "0 < ?k" "?k \<le> n" using cs False by simp_all
    obtain s q1 where s: "qcow_read_chunk rd sz ?k pos q = (s, q1)" by (cases "qcow_read_chunk rd sz ?k pos q")
    note c = chunk_reads [OF s less.prems(2,3)]
    show ?thesis
    proof (cases s)
      case (Inl e)
      with less.prems(1) False cs s have "r = Inl e" "q' = q1"
        by (simp_all add: qcow_read_loop.simps [of rd sz n] Let_def)
      with c show ?thesis by simp
    next
      case (Inr bs)
      obtain s2 q2 where s2: "qcow_read_loop rd sz (n - ?k) (pos + ?k) q1 = (s2, q2)"
        by (cases "qcow_read_loop rd sz (n - ?k) (pos + ?k) q1")
      have r1: "reads q q1" and bs: "bs = map (qcow_byte disk q) [pos..<pos + ?k]" using c Inr by simp_all
      have "n - ?k < n" using k by simp
      from less.IH [OF this s2] reads_from_view(2,5) [OF r1] less.prems(2,3)
      have i: "reads q1 q2" "\<forall>b. s2 = Inr b \<longrightarrow> b = map (qcow_byte disk q1) [pos + ?k..<pos + n]" using k by auto
      have r2: "reads q q2" using reads_from_trans [OF r1 i(1)] .
      have same: "qcow_byte disk q1 = qcow_byte disk q" using reads_from_view(8) [OF r1] by (rule ext)
      have app: "[pos..<pos + ?k] @ [pos + ?k..<pos + n] = [pos..<pos + n]"
        using upt_add_eq_append [of pos "pos + ?k" "n - ?k"] k by simp
      have "bs @ b = map (qcow_byte disk q) [pos..<pos + n]" if "s2 = Inr b" for b
        using i(2) that bs same app by (metis map_append)
      then show ?thesis
        using less.prems(1) False cs s Inr s2 r2
        by (auto simp: qcow_read_loop.simps [of rd sz n pos q] Let_def split: sum.splits)
    qed
  qed
qed

lemma qcow_read_reads:
  assumes "qcow_read rd sz n off q = (r, q')" and "qcow_readable linv q"
  shows "reads q q' \<and> (\<forall>bs. r = Inr bs \<longrightarrow> 0 \<le> off \<and> nat off + n \<le> q_size q \<and> bs = bytes_at (nat off) n (qcow_disk disk q))"
proof (cases "off < 0 \<or> q_size q < nat off \<or> q_size q - nat off < n")
  case True
  with assms(1) reads_from_refl show ?thesis by (auto simp: qcow_read_def io_defs)
next
  case False
  have fs: "q_file_size q < 2 ^ 63" using assms(2) by (simp add: qcow_readable_def)
  have rng: "0 \<le> off \<and> nat off + n \<le> q_size q" using False by linarith
  show ?thesis
  proof (cases "q_raw q")
    case True
    with assms(1) False have "read_at n (nat off) q = (r, q')" by (simp add: qcow_read_def io_defs)
    note rr = read_at_reads [OF this fs]
    have same: "bytes_at (nat off) n (content (q_fd q)) = bytes_at (nat off) n (qcow_disk disk q)"
      using rng True by (simp add: qcow_disk_def bytes_at_def drop_take min_absorb1 le_diff_conv2)
    show ?thesis unfolding same [symmetric] using rr rng by blast
  next
    case nr: False
    with assms(1) False have "qcow_read_loop rd sz n (nat off) q = (r, q')" by (simp add: qcow_read_def io_defs)
    note rr = read_loop_reads [OF this assms(2) nr]
    have same: "map (qcow_byte disk q) [nat off..<nat off + n] = bytes_at (nat off) n (qcow_disk disk q)"
      using rng nr by (simp add: qcow_disk_def bytes_at_def take_map drop_map)
    show ?thesis unfolding same [symmetric] using rr rng by blast
  qed
qed

lemma qcow_read_law:
  assumes "qcow_readable linv q" and "qcow_read rd sz n off q = (r, q')"
  shows "qcow_readable linv q' \<and> qcow_disk disk q' = qcow_disk disk q \<and> q_size q' = q_size q \<and>
      (\<forall>bs. r = Inr bs \<longrightarrow> 0 \<le> off \<and> nat off + n \<le> q_size q \<and> bs = bytes_at (nat off) n (qcow_disk disk q))"
proof -
  note rr = qcow_read_reads [OF assms(2,1)]
  note v = reads_from_view(1-3) [OF conjunct1 [OF rr]]
  show ?thesis
    by (intro conjI) (rule v(2) [OF assms(1)], rule v(1), rule v(3), rule conjunct2 [OF rr])
qed

lemma qcow_size_law: "qcow_readable linv q \<Longrightarrow> length (qcow_disk disk q) = q_size q \<and> q_size q < 2 ^ 63"
  by (simp add: length_qcow_disk) (simp add: qcow_readable_def)

lemma child_layer: "layer (qcow_read rd sz) q_size (qcow_disk disk) (qcow_readable linv)"
  by (rule layer.intro) (erule qcow_size_law, erule (1) qcow_read_law)

end

text \<open>The last layer of a chain has no parent; its parent type is never used.\<close>

interpretation bottom: layer "\<lambda>_ _. fail EIO" "\<lambda>_ :: unit. 0" "\<lambda>_. []" "\<lambda>_. False"
  by unfold_locales simp_all

interpretation lone: layer "qcow_read (\<lambda>_ _. fail EIO) (\<lambda>_ :: unit. 0)" q_size "qcow_disk (\<lambda>_. [])"
    "qcow_readable (\<lambda>_. False)"
  by (rule bottom.child_layer)

interpretation backed: layer
    "qcow_read (qcow_read (\<lambda>_ _. fail EIO) (\<lambda>_ :: unit. 0)) q_size" q_size "qcow_disk (qcow_disk (\<lambda>_. []))"
    "qcow_readable (qcow_readable (\<lambda>_. False))"
  by (rule lone.child_layer)

section \<open>Reading is faithful\<close>

text \<open>
  C20. Whatever short transfers, interrupts and errors the file and the parents meet, a read from a
  qcow2 layer leaves the disk the guest sees as it was; and when it succeeds it lies inside the disk and
  gives exactly its bytes, through zero clusters, clusters of the file, and the parent.
\<close>

theorem qcow_read_correct:
  assumes "layer rd sz disk linv" and "qcow_readable linv q" and "qcow_read rd sz n off q = (r, q')"
  shows "qcow_readable linv q' \<and> qcow_disk disk q' = qcow_disk disk q \<and>
    (\<forall>bs. r = Inr bs \<longrightarrow> 0 \<le> off \<and> nat off + n \<le> q_size q \<and> bs = bytes_at (nat off) n (qcow_disk disk q))"
  using layer.qcow_read_law [OF assms] by blast

definition sample_parent :: "unit qcow" where
  "sample_parent = as_raw (qcow_blank \<lparr>content = [1, 2, 3], script = [Fails EINTR, Xfer 1]\<rparr> 3 False [])"

definition sample_child :: "unit qcow qcow" where
  "sample_child = (qcow_blank \<lparr>content = [], script = []\<rparr> 0 False [])
     \<lparr>q_cluster_size := 512, q_size := 4, q_l1_size := 1, q_l1 := [0], q_parent := Some sample_parent\<rparr>"

lemma sample_child_readable: "qcow_readable (qcow_readable (\<lambda>_. False)) sample_child"
  by (simp add: qcow_readable_def sample_child_def sample_parent_def qcow_blank_def as_raw_def)

theorem qcow_read_correct_witness:
  "fst (qcow_read (qcow_read (\<lambda>_ _. fail EIO) (\<lambda>_ :: unit. 0)) q_size 4 0 sample_child) = Inr [1, 2, 3, 0] \<and>
   qcow_disk (qcow_disk (\<lambda>_. [])) (snd (qcow_read (qcow_read (\<lambda>_ _. fail EIO) (\<lambda>_ :: unit. 0)) q_size 4 0 sample_child))
     = [1, 2, 3, 0]"
proof -
  have d: "qcow_disk (qcow_disk (\<lambda>_. [])) sample_child = [1, 2, 3, 0]"
    by (simp add: qcow_disk_def qcow_byte_def l2_entry_def l1_off_def qcow_parent_byte_def sample_child_def
        sample_parent_def qcow_blank_def as_raw_def upt_rec)
  have "fst (qcow_read (qcow_read (\<lambda>_ _. fail EIO) (\<lambda>_ :: unit. 0)) q_size 4 0 sample_child) = Inr [1, 2, 3, 0]"
    by (simp add: qcow_read_def io_defs sample_child_def sample_parent_def as_raw_def qcow_blank_def qcow_read_loop.simps
        qcow_read_chunk_def qcow_inherited_def qcow_parent_read_def read_at_def range_valid_def qcow_fd_io_def
        nextufs__read_exact_fd_def read_fd_loop.simps pread_def bytes_at_def to_off_def)
  then show ?thesis
    using qcow_read_correct [OF lone.layer_axioms sample_child_readable prod.collapse [symmetric], of 4 0] d by simp
qed

end
