(* ===== verification/Qcow2_Alloc.thy ===== *)
theory Qcow2_Alloc
  imports Qcow2_Disk
begin

text \<open>
  The invariant of an open qcow2 layer, and what the operations on host clusters do to it: new
  clusters, the reference counts on the disk, and the bootstrap of the reference table. An operation
  \<open>carries\<close> the guest's part of the file over; the rules \<open>okat\<close> compose such operations.
\<close>

section \<open>The invariant of an open layer\<close>

text \<open>
  Host clusters with tag 2 hold guest data and those with tag 3 hold tables of the second level; all
  others are metadata of the container, or free. A range is hidden when no cluster of it has one of
  these two tags, so that the guest cannot see what is written there.
\<close>

definition guest_tag :: "'p qcow \<Rightarrow> nat \<Rightarrow> bool" where
  "guest_tag q n \<longleftrightarrow> q_tags q ! n = 2 \<or> q_tags q ! n = 3"

definition hidden :: "'p qcow \<Rightarrow> nat \<Rightarrow> nat \<Rightarrow> bool" where
  "hidden q off n \<longleftrightarrow> off + n \<le> q_file_size q \<and> (\<forall>k. off \<le> k \<longrightarrow> k < off + n \<longrightarrow> \<not> guest_tag q (k div q_cluster_size q))"

definition qcow_base :: "'p qcow \<Rightarrow> bool" where
  "qcow_base q \<longleftrightarrow> \<not> q_raw q \<and> 512 \<le> q_cluster_size q \<and> q_cluster_size q mod 512 = 0 \<and>
     q_cluster_size q \<le> 2 ^ 21 \<and> q_file_size q = length (content (q_fd q)) \<and>
     q_file_size q \<le> q_host_count q * q_cluster_size q \<and> q_host_count q \<le> QCOW_MAX_CLUSTERS \<and>
     q_host_count q \<le> length (q_refs q) \<and> length (q_tags q) = length (q_refs q) \<and>
     length (q_l1 q) = q_l1_size q \<and> q_ref_table q \<noteq> [] \<and>
     length (q_ref_table q) = q_ref_clusters q * l2_count q \<and> length (q_ref_dirty q) = length (q_ref_table q) \<and>
     q_size q < 2 ^ 63 \<and> q_size q \<le> q_l1_size q * l2_count q * q_cluster_size q \<and>
     hidden q 0 512 \<and> hidden q (q_l1_offset q) (q_l1_size q * 8) \<and>
     q_ref_offset q mod q_cluster_size q = 0 \<and>
     (\<forall>i < length (q_ref_table q). q_ref_table q ! i \<noteq> 0 \<longrightarrow> hidden q (q_ref_table q ! i) (q_cluster_size q))"

definition qcow_struct :: "'p qcow \<Rightarrow> bool" where
  "qcow_struct q \<longleftrightarrow> qcow_base q \<and> hidden q (q_ref_offset q) (q_ref_clusters q * q_cluster_size q)"

lemmas struct_defs = qcow_struct_def qcow_base_def

lemma struct_base: "qcow_struct q \<Longrightarrow> qcow_base q"
  by (simp add: qcow_struct_def)

text \<open>The clusters \<open>X\<close> apart, what the guest sees of the file is carried over.\<close>

definition carries :: "nat set \<Rightarrow> 'p qcow \<Rightarrow> 'p qcow \<Rightarrow> bool" where
  "carries X q q' \<longleftrightarrow> q_l1 q' = q_l1 q \<and> q_l1_size q' = q_l1_size q \<and> q_l1_offset q' = q_l1_offset q \<and>
     q_cluster_size q' = q_cluster_size q \<and> q_raw q' = q_raw q \<and> q_size q' = q_size q \<and>
     q_version q' = q_version q \<and> q_writable q' = q_writable q \<and> q_parent q' = q_parent q \<and>
     q_file_size q \<le> q_file_size q' \<and> q_host_count q \<le> q_host_count q' \<and>
     length (q_ref_table q) \<le> length (q_ref_table q') \<and>
     (\<forall>n < q_host_count q. (guest_tag q' n \<longrightarrow> guest_tag q n) \<and>
       (guest_tag q n \<longrightarrow> n \<notin> X \<longrightarrow> q_tags q' ! n = q_tags q ! n \<and> q_refs q' ! n = q_refs q ! n \<and>
         (\<forall>k < q_file_size q. k div q_cluster_size q = n \<longrightarrow> content (q_fd q') ! k = content (q_fd q) ! k)))"

lemma carries_refl [simp]: "carries X q q"
  by (simp add: carries_def)

lemma carries_trans:
  assumes "carries X q q1" and "carries X q1 q2"
  shows "carries X q q2"
proof -
  have "(guest_tag q2 n \<longrightarrow> guest_tag q n) \<and>
       (guest_tag q n \<longrightarrow> n \<notin> X \<longrightarrow> q_tags q2 ! n = q_tags q ! n \<and> q_refs q2 ! n = q_refs q ! n \<and>
         (\<forall>k < q_file_size q. k div q_cluster_size q = n \<longrightarrow> content (q_fd q2) ! k = content (q_fd q) ! k))"
    if n: "n < q_host_count q" for n
  proof -
    have n1: "n < q_host_count q1" using n assms(1) by (simp add: carries_def)
    have a: "(guest_tag q1 n \<longrightarrow> guest_tag q n)" "guest_tag q n \<Longrightarrow> n \<notin> X \<Longrightarrow> q_tags q1 ! n = q_tags q ! n \<and> q_refs q1 ! n = q_refs q ! n \<and>
         (\<forall>k < q_file_size q. k div q_cluster_size q = n \<longrightarrow> content (q_fd q1) ! k = content (q_fd q) ! k)"
      using n assms(1) unfolding carries_def by blast+
    have b: "(guest_tag q2 n \<longrightarrow> guest_tag q1 n)" "guest_tag q1 n \<Longrightarrow> n \<notin> X \<Longrightarrow> q_tags q2 ! n = q_tags q1 ! n \<and> q_refs q2 ! n = q_refs q1 ! n \<and>
         (\<forall>k < q_file_size q1. k div q_cluster_size q1 = n \<longrightarrow> content (q_fd q2) ! k = content (q_fd q1) ! k)"
      using n1 assms(2) unfolding carries_def by blast+
    have c: "q_file_size q \<le> q_file_size q1" "q_cluster_size q1 = q_cluster_size q" using assms(1) by (simp_all add: carries_def)
    show ?thesis
    proof (intro conjI impI)
      show "guest_tag q2 n \<Longrightarrow> guest_tag q n" using a b by blast
      assume g: "guest_tag q n" and x: "n \<notin> X"
      note a' = a(2) [OF g x]
      have "guest_tag q1 n" using g a' by (simp add: guest_tag_def)
      note b' = b(2) [OF this x]
      show "q_tags q2 ! n = q_tags q ! n" "q_refs q2 ! n = q_refs q ! n" using a' b' by simp_all
      show "\<forall>k < q_file_size q. k div q_cluster_size q = n \<longrightarrow> content (q_fd q2) ! k = content (q_fd q) ! k"
        using a' b' c by auto
    qed
  qed
  then show ?thesis using assms by (auto simp: carries_def)
qed

lemma carries_mono: "carries X q q' \<Longrightarrow> X \<subseteq> Y \<Longrightarrow> carries Y q q'"
  by (auto simp: carries_def)

lemma hidden_cluster:
  assumes "hidden q off n" and "qcow_base q" and "off \<le> k" and "k < off + n"
  shows "k div q_cluster_size q < q_host_count q" and "\<not> guest_tag q (k div q_cluster_size q)"
proof -
  have "k < q_host_count q * q_cluster_size q" using assms by (auto simp: hidden_def qcow_base_def)
  then show "k div q_cluster_size q < q_host_count q" by (simp add: less_mult_imp_div_less)
  show "\<not> guest_tag q (k div q_cluster_size q)" using assms by (simp add: hidden_def)
qed

lemma hidden_carries:
  assumes "hidden q off n" and "carries X q q'" and "qcow_base q"
  shows "hidden q' off n"
proof -
  have "\<not> guest_tag q' (k div q_cluster_size q')" if "off \<le> k" "k < off + n" for k
    using hidden_cluster [OF assms(1,3) that] assms(2) by (auto simp: carries_def)
  then show ?thesis using assms(1,2) by (auto simp: hidden_def carries_def)
qed

section \<open>What an operation that succeeds carries over\<close>

definition okat :: "nat set \<Rightarrow> ('p qcow, 'a) io \<Rightarrow> 'p qcow \<Rightarrow> bool" where
  "okat X m q \<longleftrightarrow> (\<forall>r q'. m q = (Inr r, q') \<longrightarrow> qcow_struct q' \<and> carries X q q')"

lemma okatD: "okat X m q \<Longrightarrow> m q = (Inr r, q') \<Longrightarrow> qcow_struct q' \<and> carries X q q'"
  by (simp add: okat_def)

lemma okat_bind:
  assumes "okat X m q"
    and "\<And>x q1. m q = (Inr x, q1) \<Longrightarrow> qcow_struct q1 \<Longrightarrow> carries X q q1 \<Longrightarrow> okat X (f x) q1"
  shows "okat X (bind_io m f) q"
proof -
  have "qcow_struct q' \<and> carries X q q'" if "bind_io m f q = (Inr r, q')" for r q'
  proof -
    from that obtain x q1 where m: "m q = (Inr x, q1)" and f: "f x q1 = (Inr r, q')" by (auto simp: bind_io_Inr)
    note a = okatD [OF assms(1) m]
    from okatD [OF assms(2) [OF m] f] a show ?thesis using carries_trans by blast
  qed
  then show ?thesis by (simp add: okat_def)
qed

lemma okat_get: "okat X (f q) q \<Longrightarrow> okat X (bind_io get_io f) q"
  by (simp add: okat_def bind_io_def get_io_def)

lemma okat_ret: "qcow_struct q \<Longrightarrow> okat X (ret x) q"
  by (simp add: okat_def ret_def)

lemma okat_fail: "okat X (fail e) q"
  by (simp add: okat_def fail_def)

lemma okat_mark: "okat X m q \<Longrightarrow> okat X (mark_failed m) q"
  by (auto simp: okat_def mark_failed_def split: prod.splits sum.splits)

lemma okat_modify: "qcow_struct (g q) \<Longrightarrow> carries X q (g q) \<Longrightarrow> okat X (modify_io g) q"
  by (simp add: okat_def modify_io_def)

lemma okat_if: "(b \<Longrightarrow> okat X m q) \<Longrightarrow> (\<not> b \<Longrightarrow> okat X n q) \<Longrightarrow> okat X (if b then m else n) q"
  by simp

lemmas okat_rules = okat_bind okat_get okat_ret okat_fail okat_mark okat_if

text \<open>Changes of fields that no part of the invariant mentions.\<close>

lemma struct_irrelevant [simp]:
  "qcow_base (q\<lparr>q_mallocs := ms\<rparr>) = qcow_base q" "qcow_struct (q\<lparr>q_mallocs := ms\<rparr>) = qcow_struct q" "carries X p (q\<lparr>q_mallocs := ms\<rparr>) = carries X p q"
  "qcow_struct (q\<lparr>q_changed := b\<rparr>) = qcow_struct q" "carries X p (q\<lparr>q_changed := b\<rparr>) = carries X p q"
  "qcow_struct (q\<lparr>q_table_dirty := b\<rparr>) = qcow_struct q" "carries X p (q\<lparr>q_table_dirty := b\<rparr>) = carries X p q"
  "qcow_struct (q\<lparr>q_table_moved := b\<rparr>) = qcow_struct q" "carries X p (q\<lparr>q_table_moved := b\<rparr>) = carries X p q"
  "carries X p (q\<lparr>q_ref_dirty := ds\<rparr>) = carries X p q"
  by (auto simp: struct_defs carries_def hidden_def guest_tag_def)

lemma struct_ref_dirty: "length ds = length (q_ref_dirty q) \<Longrightarrow> qcow_struct (q\<lparr>q_ref_dirty := ds\<rparr>) = qcow_struct q"
  by (auto simp: struct_defs hidden_def guest_tag_def)

lemma malloc_okat: "qcow_struct q \<Longrightarrow> okat X qcow_malloc q"
  by (auto simp: okat_def dest!: qcow_malloc_frame)

lemma struct_same_file:
  assumes "qcow_struct q" and "length (content f) = length (content (q_fd q))"
  shows "qcow_struct (q\<lparr>q_fd := f\<rparr>)"
  using assms by (auto simp: struct_defs hidden_def guest_tag_def)

lemma struct_file_size: "qcow_struct q \<Longrightarrow> q_file_size q = length (content (q_fd q)) \<and> q_file_size q < 2 ^ 46"
proof -
  assume s: "qcow_struct q"
  then have "q_file_size q \<le> q_host_count q * q_cluster_size q" "q_host_count q \<le> 2 ^ 24" "q_cluster_size q \<le> 2 ^ 21"
    by (simp_all add: struct_defs QCOW_MAX_CLUSTERS_def)
  moreover have "q_host_count q * q_cluster_size q \<le> 2 ^ 24 * 2 ^ 21" using calculation(2,3) by (rule mult_le_mono)
  ultimately show ?thesis using s by (simp add: struct_defs)
qed

lemma sync_fd_okat: "qcow_struct q \<Longrightarrow> okat X sync_fd q"
  unfolding sync_fd_def
  by (rule okat_mark)
    (auto simp: okat_def qcow_fd_io_def carries_def guest_tag_def split: prod.splits
      intro!: struct_same_file dest!: fsync_fd_content)

text \<open>A write inside the file.\<close>

lemma write_at_effect:
  assumes "write_at bs off q = (Inr u, q')" and "off + length bs \<le> q_file_size q" and "qcow_struct q"
  shows "\<exists>f. q' = q\<lparr>q_fd := f\<rparr> \<and> content f = overlay off bs (content (q_fd q))"
proof -
  note fs = struct_file_size [OF assms(3)]
  from assms(1) obtain f where w: "nextufs__write_exact_fd bs (to_off off) (q_fd q) = (Inr (), f)" and q': "q' = q\<lparr>q_fd := f\<rparr>"
    by (auto simp: write_at_def mark_failed_Inr qcow_fd_io_def split: prod.splits)
  have "to_off off = int off" using fs assms(2) by (intro to_off_id) simp
  with w have "nextufs__write_exact_fd bs (int off) (q_fd q) = (Inr (), f)" by simp
  from write_exact_fd_inside [OF this] assms(2) fs q' show ?thesis by auto
qed

lemma write_at_okat:
  assumes "off + length bs \<le> q_file_size q" and "qcow_struct q"
    and "\<And>k. off \<le> k \<Longrightarrow> k < off + length bs \<Longrightarrow> guest_tag q (k div q_cluster_size q) \<Longrightarrow> k div q_cluster_size q \<in> X"
  shows "okat X (write_at bs off) q"
proof -
  have "qcow_struct q' \<and> carries X q q'" if w: "write_at bs off q = (Inr u, q')" for u q'
  proof -
    from write_at_effect [OF w assms(1,2)] obtain f where q': "q' = q\<lparr>q_fd := f\<rparr>"
      and f: "content f = overlay off bs (content (q_fd q))" by blast
    note fs = struct_file_size [OF assms(2)]
    have len: "length (content f) = length (content (q_fd q))" using fs assms(1) by (simp add: f)
    have "content f ! k = content (q_fd q) ! k" if "k < q_file_size q" "guest_tag q (k div q_cluster_size q)"
      "k div q_cluster_size q \<notin> X" for k
      using assms(1) fs that assms(3) [of k] by (auto simp: f nth_overlay)
    then have "carries X q q'" by (auto simp: carries_def q' guest_tag_def)
    with struct_same_file [OF assms(2) len] q' show ?thesis by simp
  qed
  then show ?thesis by (simp add: okat_def)
qed

lemma write_hidden_okat: "hidden q off (length bs) \<Longrightarrow> qcow_struct q \<Longrightarrow> okat X (write_at bs off) q"
  by (rule write_at_okat) (auto simp: hidden_def)

lemma hidden_part: "hidden q off n \<Longrightarrow> off \<le> off' \<Longrightarrow> off' + m \<le> off + n \<Longrightarrow> hidden q off' m"
  by (auto simp: hidden_def)

section \<open>Host clusters\<close>

text \<open>What the loops over host clusters do to the arrays.\<close>

lemma set_hosts_effect:
  assumes "first + count \<le> length (q_refs q)" and "length (q_tags q) = length (q_refs q)"
  shows "\<exists>R T D. set_hosts first count tag q = q\<lparr>q_refs := R, q_tags := T, q_ref_dirty := D\<rparr> \<and>
    length R = length (q_refs q) \<and> length T = length (q_tags q) \<and> length D = length (q_ref_dirty q) \<and>
    (\<forall>i < length (q_refs q). R ! i = (if first \<le> i \<and> i < first + count then 1 else q_refs q ! i) \<and>
      T ! i = (if first \<le> i \<and> i < first + count then tag else q_tags q ! i))"
  using assms(1)
proof (induction count)
  case 0
  show ?case
    by (rule exI [of _ "q_refs q"], rule exI [of _ "q_tags q"], rule exI [of _ "q_ref_dirty q"])
      (simp add: set_hosts_def)
next
  case (Suc c)
  then obtain R T D where IH: "set_hosts first c tag q = q\<lparr>q_refs := R, q_tags := T, q_ref_dirty := D\<rparr>"
    "length R = length (q_refs q)" "length T = length (q_tags q)" "length D = length (q_ref_dirty q)"
    "\<forall>i < length (q_refs q). R ! i = (if first \<le> i \<and> i < first + c then 1 else q_refs q ! i) \<and>
      T ! i = (if first \<le> i \<and> i < first + c then tag else q_tags q ! i)" by auto
  have step: "set_hosts first (Suc c) tag q = ref_changed (first + c) (set_hosts first c tag q
      \<lparr>q_refs := (q_refs (set_hosts first c tag q))[first + c := 1], q_tags := (q_tags (set_hosts first c tag q))[first + c := tag]\<rparr>)"
    by (simp add: set_hosts_def)
  let ?D = "if (first + c) div refs_per_block q < length (q_ref_table q) then D[(first + c) div refs_per_block q := True] else D"
  have "set_hosts first (Suc c) tag q = q\<lparr>q_refs := R[first + c := 1], q_tags := T[first + c := tag], q_ref_dirty := ?D\<rparr>"
    unfolding step by (simp add: IH(1) ref_changed_def Let_def)
  moreover have "\<forall>i < length (q_refs q). R[first + c := 1] ! i = (if first \<le> i \<and> i < first + Suc c then 1 else q_refs q ! i) \<and>
      T[first + c := tag] ! i = (if first \<le> i \<and> i < first + Suc c then tag else q_tags q ! i)"
    using IH(2,3,5) assms(2) by (auto simp: nth_list_update less_Suc_eq)
  ultimately show ?case using IH(2-4)
    by - (rule exI [of _ "R[first + c := 1]"], rule exI [of _ "T[first + c := tag]"], rule exI [of _ ?D], simp)
qed

lemma release_table_effect:
  assumes "first + count \<le> length (q_refs q)" and "length (q_tags q) = length (q_refs q)"
  shows "\<exists>R T D. release_table first count q = q\<lparr>q_refs := R, q_tags := T, q_ref_dirty := D\<rparr> \<and>
    length R = length (q_refs q) \<and> length T = length (q_tags q) \<and> length D = length (q_ref_dirty q) \<and>
    (\<forall>i < length (q_refs q). (i < first \<or> first + count \<le> i \<longrightarrow> R ! i = q_refs q ! i) \<and>
      T ! i = (if first \<le> i \<and> i < first + count then 0 else q_tags q ! i))"
  using assms(1)
proof (induction count)
  case 0
  show ?case
    by (rule exI [of _ "q_refs q"], rule exI [of _ "q_tags q"], rule exI [of _ "q_ref_dirty q"])
      (simp add: release_table_def)
next
  case (Suc c)
  then obtain R T D where IH: "release_table first c q = q\<lparr>q_refs := R, q_tags := T, q_ref_dirty := D\<rparr>"
    "length R = length (q_refs q)" "length T = length (q_tags q)" "length D = length (q_ref_dirty q)"
    "\<forall>i < length (q_refs q). (i < first \<or> first + c \<le> i \<longrightarrow> R ! i = q_refs q ! i) \<and>
      T ! i = (if first \<le> i \<and> i < first + c then 0 else q_tags q ! i)" by auto
  have step: "release_table first (Suc c) q = ref_changed (first + c) (release_table first c q
      \<lparr>q_refs := (q_refs (release_table first c q))[first + c := (q_refs (release_table first c q) ! (first + c) + 65535) mod 65536],
       q_tags := (q_tags (release_table first c q))[first + c := 0]\<rparr>)"
    by (simp add: release_table_def)
  let ?D = "if (first + c) div refs_per_block q < length (q_ref_table q) then D[(first + c) div refs_per_block q := True] else D"
  let ?R = "R[first + c := (R ! (first + c) + 65535) mod 65536]"
  have "release_table first (Suc c) q = q\<lparr>q_refs := ?R, q_tags := T[first + c := 0], q_ref_dirty := ?D\<rparr>"
    unfolding step by (simp add: IH(1) ref_changed_def Let_def)
  moreover have "\<forall>i < length (q_refs q). (i < first \<or> first + Suc c \<le> i \<longrightarrow> ?R ! i = q_refs q ! i) \<and>
      T[first + c := 0] ! i = (if first \<le> i \<and> i < first + Suc c then 0 else q_tags q ! i)"
    using IH(2,3,5) assms(2) by (auto simp: nth_list_update less_Suc_eq)
  ultimately show ?case using IH(2-4)
    by - (rule exI [of _ ?R], rule exI [of _ "T[first + c := 0]"], rule exI [of _ ?D], simp)
qed

lemma grow_capacity_enough:
  "count \<le> QCOW_MAX_CLUSTERS \<Longrightarrow> 0 < capacity \<Longrightarrow> count \<le> grow_capacity count capacity"
proof (induction count capacity rule: grow_capacity.induct)
  case (1 count capacity)
  show ?case
    using 1 by (subst grow_capacity.simps) (auto simp: QCOW_MAX_CLUSTERS_def split: if_splits)
qed

lemma reserve_hosts_effect:
  assumes "reserve_hosts count q = (Inr u, q')" and "length (q_tags q) = length (q_refs q)"
  shows "\<exists>a ms. q' = q\<lparr>q_refs := q_refs q @ replicate a 0, q_tags := q_tags q @ replicate a 0, q_mallocs := ms\<rparr> \<and>
    count \<le> length (q_refs q) + a \<and> count \<le> QCOW_MAX_CLUSTERS"
proof (cases "count \<le> length (q_refs q)")
  case True
  with assms(1) have "q' = q" "count \<le> QCOW_MAX_CLUSTERS"
    by (auto simp: reserve_hosts_def bind_io_Inr get_io_def fail_def ret_def Let_def split: if_splits)
  with True show ?thesis by - (rule exI [of _ 0], rule exI [of _ "q_mallocs q"], simp)
next
  case False
  let ?cap = "grow_capacity count (if length (q_refs q) = 0 then 16 else length (q_refs q))"
  from assms(1) False obtain q1 q2 where c: "count \<le> QCOW_MAX_CLUSTERS" and m: "qcow_malloc q = (Inr (), q1)" "qcow_malloc q1 = (Inr (), q2)"
    and q': "q' = q2\<lparr>q_refs := q_refs q2 @ replicate (?cap - length (q_refs q)) 0,
         q_tags := q_tags q2 @ replicate (?cap - length (q_refs q)) 0\<rparr>"
    by (auto simp: reserve_hosts_def bind_io_Inr get_io_def fail_def ret_def modify_io_def Let_def split: if_splits)
  from qcow_malloc_frame [OF m(1)] qcow_malloc_frame [OF m(2)] obtain ms where q2: "q2 = q\<lparr>q_mallocs := ms\<rparr>" by auto
  have "count \<le> ?cap" using c by (intro grow_capacity_enough) simp_all
  with False c show ?thesis
    by - (rule exI [of _ "?cap - length (q_refs q)"], rule exI [of _ ms], simp add: q' q2)
qed

lemma struct_hidden:
  assumes "qcow_struct q"
  shows "hidden q 0 512" and "hidden q (q_l1_offset q) (q_l1_size q * 8)"
    and "hidden q (q_ref_offset q) (q_ref_clusters q * q_cluster_size q)"
    and "i < length (q_ref_table q) \<Longrightarrow> q_ref_table q ! i \<noteq> 0 \<Longrightarrow> hidden q (q_ref_table q ! i) (q_cluster_size q)"
  using assms by (simp_all add: struct_defs)

lemma base_hidden:
  assumes "qcow_base q"
  shows "hidden q 0 512" and "hidden q (q_l1_offset q) (q_l1_size q * 8)"
    and "i < length (q_ref_table q) \<Longrightarrow> q_ref_table q ! i \<noteq> 0 \<Longrightarrow> hidden q (q_ref_table q ! i) (q_cluster_size q)"
  using assms by (simp_all add: qcow_base_def)

text \<open>The new clusters at the end of the file.\<close>

lemma append_hosts_effect:
  assumes "append_hosts count tag q = (Inr off, q')" and "qcow_base q"
  shows "qcow_base q' \<and> carries {} q q' \<and> off = q_host_count q * q_cluster_size q \<and>
    q_host_count q' = q_host_count q + count \<and> q_file_size q' = q_host_count q' * q_cluster_size q \<and>
    q_ref_table q' = q_ref_table q \<and> q_ref_offset q' = q_ref_offset q \<and> q_ref_clusters q' = q_ref_clusters q \<and>
    (\<forall>i. q_host_count q \<le> i \<longrightarrow> i < q_host_count q' \<longrightarrow> q_tags q' ! i = tag \<and> q_refs q' ! i = 1)"
proof -
  let ?cs = "q_cluster_size q" and ?n = "q_host_count q"
  from assms(1) obtain q1 q2 where cl: "count \<le> QCOW_MAX_CLUSTERS - ?n"
    and r: "reserve_hosts (?n + count) q = (Inr (), q1)"
    and tr: "qcow_fd_io (ftruncate_fd ((?n + count) * ?cs)) q1 = (Inr (), q2)"
    and q': "q' = set_hosts ?n count tag (q2\<lparr>q_file_size := (?n + count) * ?cs, q_host_count := ?n + count\<rparr>)"
    and off: "off = ?n * ?cs"
    by (auto simp: append_hosts_def bind_io_Inr get_io_def fail_def ret_def modify_io_def mark_failed_Inr Let_def split: if_splits)
  have lens: "length (q_tags q) = length (q_refs q)" "?n \<le> length (q_refs q)" using assms(2) by (simp_all add: qcow_base_def)
  from reserve_hosts_effect [OF r lens(1)] obtain a ms where
    q1: "q1 = q\<lparr>q_refs := q_refs q @ replicate a 0, q_tags := q_tags q @ replicate a 0, q_mallocs := ms\<rparr>"
    and a: "?n + count \<le> length (q_refs q) + a" "?n + count \<le> QCOW_MAX_CLUSTERS" by blast
  from tr obtain f where f: "ftruncate_fd ((?n + count) * ?cs) (q_fd q1) = (Inr (), f)" and q2: "q2 = q1\<lparr>q_fd := f\<rparr>"
    by (auto simp: qcow_fd_io_def split: prod.splits)
  have cont: "content f = take ((?n + count) * ?cs) (content (q_fd q) @ replicate ((?n + count) * ?cs - length (content (q_fd q))) 0)"
    using f by (auto simp: ftruncate_fd_def q1 split: list.splits sysres.splits)
  let ?q2 = "q2\<lparr>q_file_size := (?n + count) * ?cs, q_host_count := ?n + count\<rparr>"
  have "?n + count \<le> length (q_refs ?q2)" "length (q_tags ?q2) = length (q_refs ?q2)" using a lens by (simp_all add: q2 q1)
  from set_hosts_effect [OF this, of tag] obtain R T D where
    sh: "q' = ?q2\<lparr>q_refs := R, q_tags := T, q_ref_dirty := D\<rparr>"
    "length R = length (q_refs ?q2)" "length T = length (q_tags ?q2)" "length D = length (q_ref_dirty ?q2)"
    "\<forall>i < length (q_refs ?q2). R ! i = (if ?n \<le> i \<and> i < ?n + count then 1 else q_refs ?q2 ! i) \<and>
      T ! i = (if ?n \<le> i \<and> i < ?n + count then tag else q_tags ?q2 ! i)"
    unfolding q' by blast
  have fs: "q_file_size q = length (content (q_fd q))" "q_file_size q \<le> ?n * ?cs" using assms(2) by (simp_all add: qcow_base_def)
  have grow: "?n * ?cs \<le> (?n + count) * ?cs" by (simp add: add_mult_distrib)
  have len: "length (content f) = (?n + count) * ?cs" using fs grow by (simp add: cont)
  have old: "content f ! k = content (q_fd q) ! k" if "k < q_file_size q" for k
  proof -
    have "k < (?n + count) * ?cs" using that fs(2) grow by linarith
    with that fs(1) show ?thesis by (simp add: cont nth_append)
  qed
  have arr: "q_refs q' ! i = q_refs q ! i" "q_tags q' ! i = q_tags q ! i" if "i < ?n" for i
    using sh that lens by (simp_all add: q2 q1 nth_append)
  have new: "q_tags q' ! i = tag \<and> q_refs q' ! i = 1" if "?n \<le> i" "i < ?n + count" for i
    using sh that a by (simp add: q2 q1)
  have car: "carries {} q q'"
    using arr old le_trans [OF fs(2) grow] by (auto simp: carries_def guest_tag_def sh(1) q2 q1)
  have flds: "q_file_size q' = (?n + count) * ?cs" "q_host_count q' = ?n + count" "q_ref_table q' = q_ref_table q"
    "q_ref_offset q' = q_ref_offset q" "q_ref_clusters q' = q_ref_clusters q" "q_cluster_size q' = ?cs"
    "q_fd q' = f" "q_l1 q' = q_l1 q" "q_size q' = q_size q" "q_l1_size q' = q_l1_size q" "q_l1_offset q' = q_l1_offset q"
    "q_raw q' = q_raw q" "length (q_refs q') = length (q_refs q) + a" "length (q_tags q') = length (q_refs q) + a"
    "length (q_ref_dirty q') = length (q_ref_dirty q)"
    using sh lens by (simp_all add: q2 q1)
  have "qcow_base q'"
    using assms(2) hidden_carries [OF _ car assms(2)] a base_hidden [OF assms(2)]
    by (auto simp: qcow_base_def flds len)
  with car off flds new show ?thesis by auto
qed

lemma append_hosts_okat:
  assumes "qcow_struct q"
  shows "okat X (append_hosts count tag) q"
proof -
  have "qcow_struct q' \<and> carries X q q'" if a: "append_hosts count tag q = (Inr off, q')" for off q'
  proof -
    note e = append_hosts_effect [OF a struct_base [OF assms]]
    then have "hidden q' (q_ref_offset q) (q_ref_clusters q * q_cluster_size q)"
      using hidden_carries [of q _ _ "{}" q'] assms by (simp add: qcow_struct_def)
    moreover have "q_cluster_size q' = q_cluster_size q" using e by (simp add: carries_def)
    ultimately show ?thesis using e carries_mono [of "{}" q q' X] by (simp add: qcow_struct_def)
  qed
  then show ?thesis by (simp add: okat_def)
qed

section \<open>Writing the reference counts\<close>

lemma cs_div8: "qcow_struct q \<Longrightarrow> l2_count q * 8 = q_cluster_size q \<and> 64 \<le> l2_count q"
proof -
  assume "qcow_struct q"
  then have "512 \<le> q_cluster_size q" "q_cluster_size q mod 512 = 0" by (simp_all add: struct_defs)
  then obtain m where "q_cluster_size q = 512 * m" "0 < m" by (auto simp: mod_eq_0_iff_dvd elim!: dvdE)
  then show ?thesis by simp
qed

lemma length_ref_block_bytes: "length (ref_block_bytes q i) = q_cluster_size q"
proof -
  have "length (fold (\<lambda>j buf. let n = i * refs_per_block q + j in
         if n < q_host_count q then nextufs__write_be16 buf (j * 2) (q_refs q ! n) else buf) js buf) = length buf"
    if "\<forall>j \<in> set js. j * 2 + 2 \<le> length buf" for js and buf :: "byte list"
    using that by (induction js arbitrary: buf) (simp_all add: Let_def)
  moreover have "\<forall>j \<in> set [0..<refs_per_block q]. j * 2 + 2 \<le> length (replicate (q_cluster_size q) (0 :: byte))"
    by auto
  ultimately show ?thesis by (simp add: ref_block_bytes_def)
qed

lemma length_ref_table_bytes: "length buf = q_cluster_size q \<Longrightarrow> length (ref_table_bytes q i buf) = q_cluster_size q"
proof -
  assume b: "length buf = q_cluster_size q"
  have "length (fold (\<lambda>j buf. nextufs__write_be64 buf (j * 8) (q_ref_table q ! (i + j))) js buf) = length buf"
    if "\<forall>j \<in> set js. j * 8 + 8 \<le> length buf" for js and buf :: "byte list"
    using that by (induction js arbitrary: buf) simp_all
  moreover have "\<forall>j \<in> set [0..<l2_count q]. j * 8 + 8 \<le> length buf"
    unfolding b by auto
  ultimately show ?thesis using b by (simp add: ref_table_bytes_def)
qed

lemma struct_dirty: "qcow_struct q \<Longrightarrow> qcow_struct (q\<lparr>q_ref_dirty := (q_ref_dirty q)[i := b]\<rparr>)"
  using struct_ref_dirty [of "(q_ref_dirty q)[i := b]" q] by simp

lemma flush_ref_blocks_okat:
  "qcow_struct q \<Longrightarrow> \<forall>i \<in> set is. i < length (q_ref_table q) \<Longrightarrow> okat X (flush_ref_blocks is) q"
proof (induction "is" arbitrary: q)
  case Nil
  then show ?case by (simp add: okat_ret)
next
  case (Cons i rest)
  have w: "okat X (write_at (ref_block_bytes q i) (q_ref_table q ! i)) q" if "q_ref_table q ! i \<noteq> 0"
    using struct_hidden(4) [OF Cons.prems(1), of i] Cons.prems that
    by (intro write_hidden_okat) (simp_all add: length_ref_block_bytes)
  show ?case
    using Cons.prems
    by (auto simp: carries_def [of X] intro!: okat_rules okat_modify struct_dirty Cons.IH w)
qed

lemma flush_ref_table_okat:
  "qcow_struct q \<Longrightarrow> \<forall>k \<in> set ks. k < q_ref_clusters q \<Longrightarrow> okat X (flush_ref_table ks) q"
proof (induction ks arbitrary: q)
  case Nil
  then show ?case by (simp add: okat_ret)
next
  case (Cons k rest)
  let ?b = "ref_table_bytes q (k * l2_count q) (replicate (q_cluster_size q) 0)"
  have "k * l2_count q * 8 + q_cluster_size q \<le> q_ref_clusters q * q_cluster_size q"
  proof -
    have "(k + 1) * q_cluster_size q \<le> q_ref_clusters q * q_cluster_size q" using Cons.prems(2) by (intro mult_le_mono1) simp
    then show ?thesis using cs_div8 [OF Cons.prems(1)] by (simp add: mult.assoc)
  qed
  then have h: "hidden q (q_ref_offset q + k * l2_count q * 8) (length ?b)"
    by (intro hidden_part [OF struct_hidden(3) [OF Cons.prems(1)]]) (simp_all add: length_ref_table_bytes)
  have "okat X (flush_ref_table rest) q1" if w: "write_at ?b (q_ref_offset q + k * l2_count q * 8) q = (Inr u, q1)" and s: "qcow_struct q1" for u q1
  proof -
    have "q_ref_clusters q1 = q_ref_clusters q"
      using write_at_effect [OF w _ Cons.prems(1)] h by (auto simp: hidden_def)
    with Cons.prems s show ?thesis by (intro Cons.IH) simp_all
  qed
  then show ?case
    using write_hidden_okat [OF h Cons.prems(1)] by (auto simp: Let_def intro!: okat_get okat_bind)
qed

lemma flush_ref_blocks_clusters: "flush_ref_blocks is q = (Inr u, q') \<Longrightarrow> q_ref_clusters q' = q_ref_clusters q \<and>
    length (q_ref_table q') = length (q_ref_table q) \<and> q_cluster_size q' = q_cluster_size q"
proof (induction "is" arbitrary: q)
  case (Cons i rest)
  then show ?case
    by (fastforce simp: bind_io_Inr get_io_def modify_io_def fail_def write_at_def mark_failed_Inr qcow_fd_io_def
        split: if_splits prod.splits)
qed (simp add: ret_def)

lemma be_lengths [simp]: "length (be64_bytes v) = 8" "length (nextufs__write_be32 (replicate 4 0) 0 v) = 4"
  by (simp_all add: be64_bytes_def)

lemma flush_refcounts_okat:
  assumes "qcow_struct q"
  shows "okat X flush_refcounts q"
proof -
  have fields: "okat X (write_at (be64_bytes a @ nextufs__write_be32 (replicate 4 0) 0 b) 48) p" if "qcow_struct p" for a b p
    using struct_hidden(1) [OF that] that by (intro write_hidden_okat) (auto elim!: hidden_part)
  have rest: "okat X (bind_io (if q_table_dirty p
              then bind_io (flush_ref_table [0..<(length (q_ref_table p) + l2_count p - 1) div l2_count p])
                (\<lambda>_. modify_io (\<lambda>q. q\<lparr>q_table_dirty := False\<rparr>))
              else ret ()) (\<lambda>_.
     bind_io sync_fd (\<lambda>_.
     if q_table_moved p
     then bind_io (write_at (be64_bytes (q_ref_offset p) @ nextufs__write_be32 (replicate 4 0) 0 (q_ref_clusters p)) 48) (\<lambda>_.
       bind_io sync_fd (\<lambda>_. modify_io (\<lambda>q. q\<lparr>q_table_moved := False\<rparr>)))
     else ret ()))) p1"
    if "qcow_struct p1" "\<forall>k < (length (q_ref_table p) + l2_count p - 1) div l2_count p. k < q_ref_clusters p1" for p p1
    using that by (auto intro!: okat_rules okat_modify flush_ref_table_okat sync_fd_okat fields)
  have num: "(length (q_ref_table p) + l2_count p - 1) div l2_count p = q_ref_clusters p" if "qcow_struct p" for p :: "'a qcow"
  proof -
    have "length (q_ref_table p) = q_ref_clusters p * l2_count p" using that by (simp add: struct_defs)
    moreover have "0 < l2_count p" using cs_div8 [OF that] by linarith
    moreover have "(a * m + m - 1) div m = a" if "0 < m" for a m :: nat
      using that div_mult_self1 [of m "m - 1" a] by (simp add: add.commute)
    ultimately show ?thesis by metis
  qed
  show ?thesis
    unfolding flush_refcounts_def
  proof (rule okat_bind [OF malloc_okat [OF assms]], rule okat_get, rule okat_bind)
    fix q1 assume s: "qcow_struct q1"
    then show "okat X (flush_ref_blocks [0..<length (q_ref_table q1)]) q1" by (intro flush_ref_blocks_okat) simp_all
  qed (rule rest, assumption, auto simp: num simp del: One_nat_def dest: flush_ref_blocks_clusters)
qed

section \<open>Room for more counts\<close>

lemma double_until_multiple: "m dvd entries \<Longrightarrow> m dvd double_until need entries"
proof (induction need entries rule: double_until.induct)
  case (1 need entries)
  then show ?case by (subst double_until.simps) auto
qed

lemma double_until_mono: "entries \<le> double_until need entries"
proof (induction need entries rule: double_until.induct)
  case (1 need entries)
  then show ?case by (subst double_until.simps) (auto intro: le_trans)
qed

text \<open>The larger table: the old one is free afterwards.\<close>

lemma grow_ref_table_okat:
  assumes "qcow_struct q"
  shows "okat X (grow_ref_table required) q"
proof -
  have "qcow_struct q' \<and> carries X q q'" if g: "grow_ref_table required q = (Inr u, q')" for u q'
  proof -
    define old where "old = length (q_ref_table q)"
    define e where "e = double_until required old"
    define cl where "cl = e div l2_count q"
    let ?cs = "q_cluster_size q"
    from g obtain q1 q2 off q3 where m: "qcow_malloc q = (Inr (), q1)" "qcow_malloc q1 = (Inr (), q2)"
      and a: "append_hosts cl 1 (q2\<lparr>q_ref_table := q_ref_table q2 @ replicate (e - old) 0,
           q_ref_dirty := q_ref_dirty q2 @ replicate (e - old) False, q_ref_clusters := cl\<rparr>) = (Inr off, q3)"
      and q': "q' = release_table (q_ref_offset q div ?cs) (q_ref_clusters q)
           (q3\<lparr>q_ref_offset := off, q_table_dirty := True, q_table_moved := True\<rparr>)"
      unfolding grow_ref_table_def bind_io_Inr get_io_def modify_io_def Let_def old_def e_def cl_def
      by (auto simp: bind_io_Inr fail_def split: if_splits)
    from qcow_malloc_frame [OF m(1)] qcow_malloc_frame [OF m(2)] obtain ms where q2: "q2 = q\<lparr>q_mallocs := ms\<rparr>" by auto
    define p where "p = q2\<lparr>q_ref_table := q_ref_table q2 @ replicate (e - old) 0,
           q_ref_dirty := q_ref_dirty q2 @ replicate (e - old) False, q_ref_clusters := cl\<rparr>"
    have bq: "qcow_base q" using struct_base [OF assms] .
    have "l2_count q dvd e" using assms by (simp add: struct_defs e_def old_def double_until_multiple)
    then have cl: "e = cl * l2_count q" by (simp add: cl_def)
    have old_e: "old \<le> e" unfolding e_def by (rule double_until_mono)
    have fields: "q_cluster_size p = ?cs" "q_ref_table p = q_ref_table q @ replicate (e - old) 0"
      "q_ref_clusters p = cl" "length (q_ref_dirty p) = length (q_ref_dirty q) + (e - old)"
      "q_host_count p = q_host_count q" "q_refs p = q_refs q" "q_tags p = q_tags q" "q_raw p = q_raw q"
      "q_file_size p = q_file_size q" "q_fd p = q_fd q" "q_l1 p = q_l1 q" "q_l1_size p = q_l1_size q" "q_size p = q_size q"
      "q_l1_offset p = q_l1_offset q" "q_ref_offset p = q_ref_offset q"
      by (simp_all add: p_def q2)
    have hid: "hidden p off n = hidden q off n" for off n by (simp add: hidden_def guest_tag_def fields)
    have "length (q_ref_table p) = cl * l2_count q" using old_e by (simp add: fields cl [symmetric] old_def [symmetric])
    moreover have "length (q_ref_dirty p) = length (q_ref_table p)" using bq by (simp add: fields qcow_base_def old_def)
    moreover have "hidden q (q_ref_table p ! i) ?cs" if "i < length (q_ref_table p)" "q_ref_table p ! i \<noteq> 0" for i
      using that base_hidden(3) [OF bq, of i] by (auto simp: fields nth_append split: if_splits)
    moreover have "q_ref_table p \<noteq> []" using bq by (simp add: fields qcow_base_def)
    ultimately have base: "qcow_base p"
      using bq unfolding qcow_base_def hid fields(1,3,5-) by blast
    have car0: "carries X q p" by (simp add: carries_def guest_tag_def p_def q2)
    note e = append_hosts_effect [OF a [folded p_def] base]
    have car1: "carries X q q3" using carries_trans [OF car0 carries_mono [of "{}" p q3 X]] e by blast
    have cs3: "q_cluster_size q3 = ?cs" using car1 by (simp add: carries_def)
    have b3: "qcow_base q3" using e by blast
    have old_h: "hidden q3 (q_ref_offset q) (q_ref_clusters q * ?cs)"
      using hidden_carries [OF _ car1 bq] assms by (simp add: qcow_struct_def)
    have "\<not> guest_tag q3 (k div ?cs)" if "off \<le> k" "k < off + cl * ?cs" for k
    proof -
      have "0 < ?cs" using bq by (simp add: qcow_base_def)
      have "q_host_count q * ?cs \<le> k" "k < (q_host_count q + cl) * ?cs" using that e fields by (simp_all add: add_mult_distrib)
      then have "q_host_count q \<le> k div ?cs" "k div ?cs < q_host_count q + cl"
        using \<open>0 < ?cs\<close> by (simp_all add: less_eq_div_iff_mult_less_eq less_mult_imp_div_less)
      with e fields have "q_tags q3 ! (k div ?cs) = 1" by simp
      then show ?thesis by (simp add: guest_tag_def)
    qed
    moreover have "off + cl * ?cs = q_file_size q3" using e fields by (simp add: add_mult_distrib)
    ultimately have new_h: "hidden q3 off (cl * ?cs)" by (simp add: hidden_def cs3)
    let ?q3 = "q3\<lparr>q_ref_offset := off, q_table_dirty := True, q_table_moved := True\<rparr>"
    let ?f = "q_ref_offset q div ?cs"
    have al: "q_ref_offset q = ?f * ?cs" using bq by (auto simp: qcow_base_def)
    have "(?f + q_ref_clusters q) * ?cs \<le> q_host_count q3 * ?cs"
      using old_h b3 al cs3 by (simp add: hidden_def qcow_base_def add_mult_distrib)
    moreover have "0 < ?cs" using bq by (simp add: qcow_base_def)
    ultimately have inside: "?f + q_ref_clusters q \<le> q_host_count q3" by (metis mult_le_cancel2)
    then have "?f + q_ref_clusters q \<le> length (q_refs ?q3)" "length (q_tags ?q3) = length (q_refs ?q3)"
      using b3 by (simp_all add: qcow_base_def)
    from release_table_effect [OF this] obtain R T D where rel: "q' = ?q3\<lparr>q_refs := R, q_tags := T, q_ref_dirty := D\<rparr>"
      "length R = length (q_refs q3)" "length T = length (q_tags q3)" "length D = length (q_ref_dirty q3)"
      "\<forall>i < length (q_refs q3). (i < ?f \<or> ?f + q_ref_clusters q \<le> i \<longrightarrow> R ! i = q_refs q3 ! i) \<and>
      T ! i = (if ?f \<le> i \<and> i < ?f + q_ref_clusters q then 0 else q_tags q3 ! i)"
      unfolding q' by auto
    have not_guest: "\<not> guest_tag q3 i" if "?f \<le> i" "i < ?f + q_ref_clusters q" for i
    proof -
      have "q_ref_offset q \<le> i * ?cs" using al that by (metis mult_le_mono1)
      moreover have "i * ?cs < q_ref_offset q + q_ref_clusters q * ?cs"
        using al that \<open>0 < ?cs\<close> by (metis add_mult_distrib mult_less_cancel2)
      ultimately have "\<not> guest_tag q3 (i * ?cs div ?cs)" using old_h by (simp only: hidden_def cs3) blast
      then show ?thesis using \<open>0 < ?cs\<close> by simp
    qed
    have tags: "guest_tag q' i = guest_tag q3 i" "guest_tag q3 i \<Longrightarrow> q_tags q' ! i = q_tags q3 ! i \<and> q_refs q' ! i = q_refs q3 ! i"
      if "i < q_host_count q3" for i
    proof -
      have i: "i < length (q_refs q3)" using that b3 by (simp add: qcow_base_def)
      show "guest_tag q' i = guest_tag q3 i"
        using rel(1,5) i not_guest [of i] by (cases "?f \<le> i \<and> i < ?f + q_ref_clusters q") (auto simp: guest_tag_def)
      show "guest_tag q3 i \<Longrightarrow> q_tags q' ! i = q_tags q3 ! i \<and> q_refs q' ! i = q_refs q3 ! i"
        using rel(1,5) i not_guest [of i] by auto
    qed
    have "carries X q3 q'" using tags by (simp add: carries_def rel(1))
    then have car: "carries X q q'" using carries_trans [OF car1] by blast
    have hq: "hidden q' o1 n" if "hidden q3 o1 n" for o1 n
      using hidden_carries [OF that \<open>carries X q3 q'\<close> b3] .
    have "off mod ?cs = 0" using e fields by simp
    then have "qcow_base q'"
      using b3 hq rel(2-4) unfolding qcow_base_def rel(1) by (auto simp: cs3)
    moreover have "hidden q' (q_ref_offset q') (q_ref_clusters q' * q_cluster_size q')"
      using hq [OF new_h] e fields by (simp add: rel(1) cs3)
    ultimately show ?thesis using car by (simp add: qcow_struct_def)
  qed
  then show ?thesis by (simp add: okat_def)
qed


text \<open>A new block of counts, and its entry in the table.\<close>

lemma new_clusters_hidden:
  assumes "append_hosts count tag q = (Inr off, q')" and "qcow_base q" and "tag = 1"
  shows "hidden q' off (count * q_cluster_size q)"
proof -
  let ?cs = "q_cluster_size q"
  note e = append_hosts_effect [OF assms(1,2)]
  have cs: "0 < ?cs" "q_cluster_size q' = ?cs" using assms(2) e by (simp_all add: qcow_base_def carries_def)
  have "\<not> guest_tag q' (k div ?cs)" if "off \<le> k" "k < off + count * ?cs" for k
  proof -
    have "q_host_count q * ?cs \<le> k" "k < (q_host_count q + count) * ?cs" using that e by (simp_all add: add_mult_distrib)
    then have "q_host_count q \<le> k div ?cs" "k div ?cs < q_host_count q + count"
      using cs by (simp_all add: less_eq_div_iff_mult_less_eq less_mult_imp_div_less)
    with e assms(3) have "q_tags q' ! (k div ?cs) = 1" by simp
    then show ?thesis by (simp add: guest_tag_def)
  qed
  moreover have "off + count * ?cs = q_file_size q'" using e by (simp add: add_mult_distrib)
  ultimately show ?thesis by (simp add: hidden_def cs)
qed

lemma struct_table_entry:
  assumes "qcow_struct q" and "hidden q off (q_cluster_size q)"
  shows "qcow_struct (q\<lparr>q_ref_table := (q_ref_table q)[i := off], q_ref_dirty := (q_ref_dirty q)[i := True], q_table_dirty := True\<rparr>)"
proof -
  let ?q = "q\<lparr>q_ref_table := (q_ref_table q)[i := off], q_ref_dirty := (q_ref_dirty q)[i := True], q_table_dirty := True\<rparr>"
  have hid: "hidden ?q o1 n = hidden q o1 n" for o1 n by (simp add: hidden_def guest_tag_def)
  have "hidden q ((q_ref_table q)[i := off] ! j) (q_cluster_size q)"
    if "j < length (q_ref_table q)" "(q_ref_table q)[i := off] ! j \<noteq> 0" for j
    using that assms(2) struct_hidden(4) [OF assms(1), of j] by (cases "j = i") simp_all
  then show ?thesis using assms(1) by (simp add: struct_defs hid)
qed

lemma add_ref_blocks_okat: "qcow_struct q \<Longrightarrow> okat X (add_ref_blocks is) q"
proof (induction "is" arbitrary: q)
  case Nil
  then show ?case by (simp add: okat_ret)
next
  case (Cons i rest)
  have "okat X (bind_io (modify_io (\<lambda>q. q\<lparr>q_ref_table := (q_ref_table q)[i := off],
         q_ref_dirty := (q_ref_dirty q)[i := True], q_table_dirty := True\<rparr>)) (\<lambda>_. add_ref_blocks rest)) q1"
    if a: "append_hosts 1 1 q = (Inr off, q1)" and s: "qcow_struct q1" for off q1
  proof (rule okat_bind [OF okat_modify])
    have "q_cluster_size q1 = q_cluster_size q"
      using append_hosts_effect [OF a struct_base [OF Cons.prems]] by (simp add: carries_def)
    then have "hidden q1 off (q_cluster_size q1)" using new_clusters_hidden [OF a struct_base [OF Cons.prems]] by simp
    from struct_table_entry [OF s this]
    show "qcow_struct (q1\<lparr>q_ref_table := (q_ref_table q1)[i := off], q_ref_dirty := (q_ref_dirty q1)[i := True], q_table_dirty := True\<rparr>)" .
    show "carries X q1 (q1\<lparr>q_ref_table := (q_ref_table q1)[i := off], q_ref_dirty := (q_ref_dirty q1)[i := True], q_table_dirty := True\<rparr>)"
      by (simp add: carries_def guest_tag_def)
  qed (rule Cons.IH)
  from okat_bind [OF append_hosts_okat [OF Cons.prems] this] Cons.IH [OF Cons.prems] show ?case
    by (simp add: okat_get okat_if)
qed

lemma ensure_refcounts_okat: "qcow_struct q \<Longrightarrow> okat X (ensure_refcounts pending) q"
proof (induction pending q rule: ensure_refcounts.induct)
  case (1 pending q)
  have step: "okat X (ensure_step pending) q"
    unfolding ensure_step_def
    by (auto simp: Let_def 1(2) intro!: okat_rules grow_ref_table_okat add_ref_blocks_okat)
  have "qcow_struct q' \<and> carries X q q'" if e: "ensure_refcounts pending q = (Inr r, q')" for r q'
  proof -
    from e obtain b q1 where s: "ensure_step pending q = (Inr b, q1)" and ne: "q_ref_table q \<noteq> []"
      by (subst (asm) ensure_refcounts.simps) (auto split: if_splits prod.splits sum.splits)
    note o1 = okatD [OF step s]
    show ?thesis
    proof (cases b)
      case True
      with e s ne have "q' = q1" by (subst (asm) ensure_refcounts.simps) simp
      with o1 show ?thesis by simp
    next
      case False
      with e s ne have e1: "ensure_refcounts pending q1 = (Inr r, q')" by (subst (asm) ensure_refcounts.simps) simp
      have "okat X (ensure_refcounts pending) q1" 
        by (rule 1(1) [OF ne s [symmetric] refl]) (use False o1 in simp_all)
      from okatD [OF this e1] o1 carries_trans show ?thesis by blast
    qed
  qed
  then show ?case by (simp add: okat_def)
qed

text \<open>A new cluster for the guest holds the bytes given, and has one reference.\<close>

lemma allocate_cluster_effect:
  assumes "allocate_cluster buf tag q = (Inr off, q')" and "qcow_struct q" and "length buf = q_cluster_size q"
    and "tag = 2 \<or> tag = 3"
  shows "qcow_struct q' \<and> carries {} q q' \<and> (\<exists>n. off = n * q_cluster_size q \<and> q_host_count q \<le> n \<and>
    n < q_host_count q' \<and> q_tags q' ! n = tag \<and> q_refs q' ! n = 1 \<and> off + q_cluster_size q \<le> q_file_size q' \<and>
    bytes_at off (q_cluster_size q) (content (q_fd q')) = buf)"
proof -
  let ?cs = "q_cluster_size q"
  from assms(1) obtain q1 q2 q3 where e: "ensure_refcounts 1 q = (Inr (), q1)" and a: "append_hosts 1 tag q1 = (Inr off, q2)"
    and w: "write_at buf off q2 = (Inr (), q3)" and f: "flush_refcounts q3 = (Inr (), q')"
    by (auto simp: allocate_cluster_def bind_io_Inr ret_def)
  have o1: "qcow_struct q1" "carries {} q q1" using okatD [OF ensure_refcounts_okat [OF assms(2), of "{}"] e] by auto
  have o2: "qcow_struct q2" "carries {} q1 q2" using okatD [OF append_hosts_okat [OF o1(1), of "{}"] a] by auto
  let ?n = "q_host_count q1"
  have cs: "q_cluster_size q1 = ?cs" "q_cluster_size q2 = ?cs" "0 < ?cs" using o1 o2 by (simp_all add: carries_def struct_defs)
  have n: "off = ?n * ?cs" "q_host_count q2 = ?n + 1" "q_file_size q2 = off + ?cs" "q_tags q2 ! ?n = tag" "q_refs q2 ! ?n = 1"
    using append_hosts_effect [OF a struct_base [OF o1(1)]] cs by simp_all
  have k: "k div ?cs = ?n" if "off \<le> k" "k < off + ?cs" for k
  proof -
    have "k div ?cs < ?n + 1" using that n(1) by (simp add: less_mult_imp_div_less)
    moreover have "?n \<le> k div ?cs" using that n(1) cs(3) by (simp add: less_eq_div_iff_mult_less_eq)
    ultimately show ?thesis by simp
  qed
  obtain g where q3: "q3 = q2\<lparr>q_fd := g\<rparr>" and g: "content g = overlay off buf (content (q_fd q2))"
    using write_at_effect [OF w _ o2(1)] n(3) assms(3) by auto
  have "okat {?n} (write_at buf off) q2"
    using k n(3) assms(3) cs by (intro write_at_okat [OF _ o2(1)]) simp_all
  from okatD [OF this w] have o3: "qcow_struct q3" "carries {?n} q2 q3" by auto
  have o4: "qcow_struct q'" "carries {} q3 q'" using okatD [OF flush_refcounts_okat [OF o3(1), of "{}"] f] by auto
  have host: "q_host_count q \<le> ?n" using o1 by (simp add: carries_def)
  have "carries {?n} q q'"
    using carries_trans [OF carries_mono [OF o1(2)] carries_trans [OF carries_mono [OF o2(2)]
      carries_trans [OF o3(2) carries_mono [OF o4(2)]]]] by blast
  then have "carries {} q q'" using host by (auto simp: carries_def)
  moreover have "bytes_at off ?cs (content (q_fd q')) = buf" and "q_tags q' ! ?n = tag" and "q_refs q' ! ?n = 1"
    and "?n < q_host_count q'" and "off + ?cs \<le> q_file_size q'"
  proof -
    have fs2: "q_file_size q2 = length (content (q_fd q2))" using o2(1) by (simp add: struct_defs)
    have g3: "guest_tag q3 ?n" using n assms(4) by (simp add: guest_tag_def q3)
    have h3: "?n < q_host_count q3" using n by (simp add: q3)
    have "q_tags q' ! ?n = q_tags q3 ! ?n" "q_refs q' ! ?n = q_refs q3 ! ?n"
      "\<forall>k < q_file_size q3. k div q_cluster_size q3 = ?n \<longrightarrow> content (q_fd q') ! k = content g ! k"
      using o4(2) g3 h3 unfolding carries_def by (simp_all add: q3)
    note c4 = this
    show "q_tags q' ! ?n = tag" "q_refs q' ! ?n = 1" using c4 n by (simp_all add: q3)
    show "?n < q_host_count q'" "off + ?cs \<le> q_file_size q'" using o4(2) n by (simp_all add: carries_def q3)
    then have len: "off + ?cs \<le> length (content (q_fd q'))" using o4(1) by (simp add: struct_defs)
    show "bytes_at off ?cs (content (q_fd q')) = buf"
    proof (rule nth_equalityI)
      show "length (bytes_at off ?cs (content (q_fd q'))) = length buf" using len assms(3) by simp
    next
      fix t assume "t < length (bytes_at off ?cs (content (q_fd q')))"
      then have t: "t < ?cs" using len by simp
      have "content (q_fd q') ! (off + t) = content g ! (off + t)"
        using c4(3) k [of "off + t"] t n(3) cs by (simp add: q3)
      also have "\<dots> = buf ! t" using t n(3) fs2 assms(3) by (simp add: g nth_overlay)
      finally show "bytes_at off ?cs (content (q_fd q')) ! t = buf ! t" using len t by simp
    qed
  qed
  ultimately show ?thesis using o4(1) n(1) host by blast
qed

end
