(* ===== verification/Qcow2_Map.thy ===== *)
theory Qcow2_Map
  imports Qcow2_Alloc
begin

text \<open>
  The references between the tables of a qcow2 layer and its host clusters: every reference is to a
  cluster of its kind, and the counts do not lack any. The lemmas say what becomes of the references,
  and of the disk the guest sees, when one entry of a table changes, when a reference is dropped, and
  when a table is copied.
\<close>

section \<open>Entries as bits\<close>

lemma offset_bits: "bit QCOW_OFFSET k \<longleftrightarrow> 9 \<le> k \<and> k < 56"
proof -
  have "QCOW_OFFSET = push_bit 9 (mask 47)" by (simp add: QCOW_OFFSET_def push_bit_eq_mult mask_eq_exp_minus_1)
  then have "bit QCOW_OFFSET k = bit (push_bit 9 (mask 47 :: nat)) k" by argo
  then show ?thesis by (auto simp: bit_push_bit_iff bit_mask_iff)
qed

lemma copied_bits: "bit QCOW_COPIED k \<longleftrightarrow> k = 63"
proof -
  have "QCOW_COPIED = 2 ^ 63" by (simp add: QCOW_COPIED_def)
  then have "bit QCOW_COPIED k = bit (2 ^ 63 :: nat) k" by argo
  then show ?thesis unfolding bit_exp_iff by simp
qed

lemma zero_bits: "bit QCOW_ZERO k \<longleftrightarrow> k = 0"
  using bit_1_iff [where ?'a = nat, of k] by (simp add: QCOW_ZERO_def)

lemma copied_offset [simp]: "(e OR QCOW_COPIED) AND QCOW_OFFSET = e AND QCOW_OFFSET"
  by (rule bit_eqI) (auto simp: bit_and_iff bit_or_iff offset_bits copied_bits)

lemma copied_zero [simp]: "(e OR QCOW_COPIED) AND QCOW_ZERO = e AND QCOW_ZERO"
  by (rule bit_eqI) (auto simp: bit_and_iff bit_or_iff zero_bits copied_bits)

lemma offset_and [simp]: "(e AND QCOW_OFFSET) AND QCOW_OFFSET = e AND QCOW_OFFSET"
  by (simp add: and.assoc)

lemma aligned_offset:
  assumes "off < 2 ^ 56" and "off mod 512 = 0"
  shows "off AND QCOW_OFFSET = off" and "off AND QCOW_ZERO = 0" and "off OR QCOW_COPIED < 2 ^ 64"
proof -
  from assms(2) obtain m where m: "off = push_bit 9 m" by (auto simp: push_bit_eq_mult mult.commute elim!: dvdE)
  have low: "bit off k \<Longrightarrow> 9 \<le> k" for k by (simp add: m bit_push_bit_iff_nat)
  have "take_bit 56 off = off" using assms(1) by (simp add: take_bit_nat_eq_self)
  then have high: "bit off k \<Longrightarrow> k < 56" for k by (metis bit_take_bit_iff)
  show "off AND QCOW_OFFSET = off" using low high by (intro bit_eqI) (auto simp: bit_and_iff offset_bits)
  have "\<not> bit off 0" using low [of 0] by auto
  then show "off AND QCOW_ZERO = 0" by (intro bit_eqI) (auto simp: bit_and_iff zero_bits intro!: gr0I)
  have "take_bit 64 (off OR QCOW_COPIED) = off OR QCOW_COPIED"
    using high by (intro bit_eqI) (fastforce simp: bit_take_bit_iff bit_or_iff copied_bits)
  then show "off OR QCOW_COPIED < 2 ^ 64" by (metis take_bit_nat_less_exp)
qed

lemma copied_less: "e < 2 ^ 64 \<Longrightarrow> e OR QCOW_COPIED < 2 ^ 64"
proof -
  assume "e < 2 ^ 64"
  then have "take_bit 64 e = e" by (simp add: take_bit_nat_eq_self)
  then have high: "bit e k \<Longrightarrow> k < 64" for k by (metis bit_take_bit_iff)
  have "take_bit 64 (e OR QCOW_COPIED) = e OR QCOW_COPIED"
    using high by (intro bit_eqI) (fastforce simp: bit_take_bit_iff bit_or_iff copied_bits)
  then show ?thesis by (metis take_bit_nat_less_exp)
qed

lemma read_be64_less: "read_be64 b p < 2 ^ 64"
proof -
  have "nextufs__read_be32 b p * 4294967296 + nextufs__read_be32 b (p + 4) < 18446744073709551616"
    using read_be32_less [of b p] read_be32_less [of b "p + 4"] by linarith
  then show ?thesis by (simp add: read_be64_eq)
qed

section \<open>References\<close>

text \<open>A cluster of the file that a table entry may refer to, and the entries that do.\<close>

definition mapped :: "'p qcow \<Rightarrow> nat \<Rightarrow> nat \<Rightarrow> bool" where
  "mapped q tag off \<longleftrightarrow> off mod q_cluster_size q = 0 \<and> off + q_cluster_size q \<le> q_file_size q \<and>
     q_tags q ! (off div q_cluster_size q) = tag"

definition l2_users :: "'p qcow \<Rightarrow> nat \<Rightarrow> nat set" where
  "l2_users q n = {i. i < q_l1_size q \<and> l1_off q i \<noteq> 0 \<and> l1_off q i div q_cluster_size q = n}"

abbreviation data_off :: "'p qcow \<Rightarrow> nat \<Rightarrow> nat \<Rightarrow> nat" where
  "data_off q i j \<equiv> l2_entry q i j AND QCOW_OFFSET"

definition data_users :: "'p qcow \<Rightarrow> nat \<Rightarrow> (nat \<times> nat) set" where
  "data_users q n = {(i, j). i < q_l1_size q \<and> j < l2_count q \<and> data_off q i j \<noteq> 0 \<and>
     data_off q i j div q_cluster_size q = n}"

text \<open>Every reference is to a cluster of its kind, and the counts do not lack any.\<close>

definition qcow_map :: "'p qcow \<Rightarrow> bool" where
  "qcow_map q \<longleftrightarrow> (\<forall>i < q_l1_size q. l1_off q i \<noteq> 0 \<longrightarrow> mapped q 3 (l1_off q i)) \<and>
     (\<forall>i < q_l1_size q. \<forall>j < l2_count q. data_off q i j \<noteq> 0 \<longrightarrow> mapped q 2 (data_off q i j)) \<and>
     (\<forall>n < q_host_count q. (q_tags q ! n = 3 \<longrightarrow> card (l2_users q n) \<le> q_refs q ! n) \<and>
        (q_tags q ! n = 2 \<longrightarrow> card (data_users q n) \<le> q_refs q ! n))"

lemma finite_users [simp]: "finite (l2_users q n)" "finite (data_users q n)"
proof -
  show "finite (l2_users q n)" by (simp add: l2_users_def)
  have "data_users q n \<subseteq> {..<q_l1_size q} \<times> {..<l2_count q}" by (auto simp: data_users_def)
  then show "finite (data_users q n)" by (rule finite_subset) simp
qed

lemma mapped_host:
  assumes "mapped q tag off" and "qcow_base q"
  shows "off div q_cluster_size q < q_host_count q"
proof -
  have "off + q_cluster_size q \<le> q_host_count q * q_cluster_size q" "0 < q_cluster_size q"
    using assms by (auto simp: mapped_def qcow_base_def)
  then have "off < q_host_count q * q_cluster_size q" by linarith
  then show ?thesis by (simp add: less_mult_imp_div_less)
qed

lemma mapped_within:
  assumes "mapped q tag off" and "t < q_cluster_size q"
  shows "(off + t) div q_cluster_size q = off div q_cluster_size q" and "off + t < q_file_size q"
proof -
  from assms obtain m where "off = q_cluster_size q * m" by (auto simp: mapped_def elim!: dvdE)
  then show "(off + t) div q_cluster_size q = off div q_cluster_size q" using assms(2) by simp
  show "off + t < q_file_size q" using assms by (simp add: mapped_def)
qed

lemma carries_mapped:
  assumes "carries X q q'" and "qcow_base q" and "mapped q tag off" and "tag = 2 \<or> tag = 3"
    and "off div q_cluster_size q \<notin> X"
  shows "mapped q' tag off" and "q_refs q' ! (off div q_cluster_size q) = q_refs q ! (off div q_cluster_size q)"
    and "t < q_cluster_size q \<Longrightarrow> content (q_fd q') ! (off + t) = content (q_fd q) ! (off + t)"
proof -
  let ?n = "off div q_cluster_size q"
  have n: "?n < q_host_count q" using mapped_host assms(2,3) by blast
  have g: "guest_tag q ?n" using assms(3,4) by (simp add: mapped_def guest_tag_def)
  from assms(1) n g assms(5) have c: "q_tags q' ! ?n = q_tags q ! ?n \<and> q_refs q' ! ?n = q_refs q ! ?n \<and>
    (\<forall>k < q_file_size q. k div q_cluster_size q = ?n \<longrightarrow> content (q_fd q') ! k = content (q_fd q) ! k)"
    unfolding carries_def by blast
  then show "q_refs q' ! ?n = q_refs q ! ?n" by blast
  show "mapped q' tag off" using c assms(1,3) by (simp add: mapped_def carries_def)
  show "content (q_fd q') ! (off + t) = content (q_fd q) ! (off + t)" if "t < q_cluster_size q"
    using c mapped_within [OF assms(3) that] by blast
qed

lemma read_be64_cong: "(\<And>i. i < 8 \<Longrightarrow> b ! (p + i) = c ! (r + i)) \<Longrightarrow> read_be64 b p = read_be64 c r"
proof -
  assume e: "\<And>i. i < 8 \<Longrightarrow> b ! (p + i) = c ! (r + i)"
  have "nextufs__read_be32 b p = nextufs__read_be32 c r" by (rule read_be32_cong) (simp add: e)
  moreover have "nextufs__read_be32 b (p + 4) = nextufs__read_be32 c (r + 4)"
    by (rule read_be32_cong) (use e [of "4 + _"] in \<open>simp add: add.assoc\<close>)
  ultimately show ?thesis by (simp add: read_be64_eq)
qed

text \<open>A table of the second level that is not changed.\<close>

lemma l2_entry_same:
  assumes "qcow_struct q" and "mapped q 3 (l1_off q i)" and "j < l2_count q" and "l1_off q' i' = l1_off q i"
    and "\<And>t. t < q_cluster_size q \<Longrightarrow> content (q_fd q') ! (l1_off q i + t) = content (q_fd q) ! (l1_off q i + t)"
  shows "l2_entry q' i' j = l2_entry q i j"
proof -
  have "read_be64 (content (q_fd q')) (l1_off q i + j * 8) = read_be64 (content (q_fd q)) (l1_off q i + j * 8)"
  proof (rule read_be64_cong)
    fix t :: nat assume t: "t < 8"
    have "j * 8 + t < q_cluster_size q" using cs_div8 [OF assms(1)] assms(3) t by linarith
    from assms(5) [OF this] show "content (q_fd q') ! (l1_off q i + j * 8 + t) = content (q_fd q) ! (l1_off q i + j * 8 + t)"
      by (simp add: add.assoc)
  qed
  then show ?thesis using assms(4) by (simp add: l2_entry_def)
qed

section \<open>What the guest sees\<close>

text \<open>Two states with the same geometry, entries that say the same, and the same data clusters.\<close>

definition same_view :: "'p qcow \<Rightarrow> 'p qcow \<Rightarrow> bool" where
  "same_view q q' \<longleftrightarrow> q_l1_size q' = q_l1_size q \<and> q_l1_offset q' = q_l1_offset q \<and>
     q_cluster_size q' = q_cluster_size q \<and> q_raw q' = q_raw q \<and> q_size q' = q_size q \<and>
     q_version q' = q_version q \<and> q_writable q' = q_writable q \<and> q_parent q' = q_parent q \<and>
     (\<forall>i < q_l1_size q. \<forall>j < l2_count q. data_off q' i j = data_off q i j \<and>
        l2_entry q' i j AND QCOW_ZERO = l2_entry q i j AND QCOW_ZERO \<and>
        (data_off q i j \<noteq> 0 \<longrightarrow> (\<forall>t < q_cluster_size q.
           content (q_fd q') ! (data_off q i j + t) = content (q_fd q) ! (data_off q i j + t))))"

definition same_l1 :: "'p qcow \<Rightarrow> 'p qcow \<Rightarrow> bool" where
  "same_l1 q q' \<longleftrightarrow> (\<forall>i < q_l1_size q. l1_off q' i = l1_off q i)"

lemma same_view_refl [simp]: "same_view q q" "same_l1 q q"
  by (simp_all add: same_view_def same_l1_def)

lemma same_view_trans: "same_view q q1 \<Longrightarrow> same_view q1 q2 \<Longrightarrow> same_view q q2"
  unfolding same_view_def by (intro conjI allI impI; simp)

lemma same_l1_trans: "same_l1 q q1 \<Longrightarrow> same_l1 q1 q2 \<Longrightarrow> same_view q q1 \<Longrightarrow> same_l1 q q2"
  by (simp add: same_l1_def same_view_def)

lemma guest_index:
  assumes "qcow_base q" and "p < q_size q"
  shows "p div q_cluster_size q div l2_count q < q_l1_size q" and "p div q_cluster_size q mod l2_count q < l2_count q"
proof -
  have s: "q_size q \<le> q_l1_size q * l2_count q * q_cluster_size q" using assms(1) by (simp add: qcow_base_def)
  then have "p < q_l1_size q * l2_count q * q_cluster_size q" using assms(2) by linarith
  then have "p div q_cluster_size q < q_l1_size q * l2_count q" by (simp add: less_mult_imp_div_less)
  then show "p div q_cluster_size q div l2_count q < q_l1_size q" by (simp add: less_mult_imp_div_less)
  have "l2_count q \<noteq> 0" using s assms(2) by (cases "l2_count q = 0") simp_all
  then show "p div q_cluster_size q mod l2_count q < l2_count q" by simp
qed

lemma same_view_byte:
  assumes "same_view q q'" and "qcow_base q" and "p < q_size q"
  shows "qcow_byte pdisk q' p = qcow_byte pdisk q p"
proof -
  let ?i = "p div q_cluster_size q div l2_count q" and ?j = "p div q_cluster_size q mod l2_count q"
  have v: "data_off q' ?i ?j = data_off q ?i ?j" "l2_entry q' ?i ?j AND QCOW_ZERO = l2_entry q ?i ?j AND QCOW_ZERO"
    "data_off q ?i ?j \<noteq> 0 \<Longrightarrow> t < q_cluster_size q \<Longrightarrow>
       content (q_fd q') ! (data_off q ?i ?j + t) = content (q_fd q) ! (data_off q ?i ?j + t)" for t
    using assms(1) guest_index [OF assms(2,3)] unfolding same_view_def by blast+
  have cs: "q_cluster_size q' = q_cluster_size q" "0 < q_cluster_size q" using assms(1,2) by (simp_all add: same_view_def qcow_base_def)
  have par: "qcow_parent_byte pdisk q' p = qcow_parent_byte pdisk q p" using assms(1) by (simp add: same_view_def qcow_parent_byte_def)
  show ?thesis
    using v(3) [of "p mod q_cluster_size q"] cs(2) by (simp add: qcow_byte_def Let_def cs(1) v(1,2) par)
qed

lemma same_view_disk: "same_view q q' \<Longrightarrow> qcow_base q \<Longrightarrow> qcow_disk pdisk q' = qcow_disk pdisk q"
  using same_view_byte [of q q' _ pdisk] by (auto simp: qcow_disk_def same_view_def qcow_base_def)

text \<open>The invariant of the tables depends on the references, the counts and the tags only.\<close>

lemma l2_entry_mapped:
  "qcow_map q \<Longrightarrow> i < q_l1_size q \<Longrightarrow> l1_off q i \<noteq> 0 \<Longrightarrow> mapped q 3 (l1_off q i)"
  "qcow_map q \<Longrightarrow> i < q_l1_size q \<Longrightarrow> j < l2_count q \<Longrightarrow> data_off q i j \<noteq> 0 \<Longrightarrow> mapped q 2 (data_off q i j)"
  by (simp_all add: qcow_map_def)

lemma carries_entry:
  assumes "qcow_struct q" and "qcow_map q" and "carries X q q'" and "i < q_l1_size q" and "j < l2_count q"
    and "l1_off q i \<noteq> 0 \<Longrightarrow> l1_off q i div q_cluster_size q \<notin> X"
  shows "l2_entry q' i j = l2_entry q i j"
proof (cases "l1_off q i = 0")
  case True
  with assms(3) show ?thesis by (simp add: l2_entry_def l1_off_def carries_def)
next
  case False
  note m = l2_entry_mapped(1) [OF assms(2,4) False]
  have "l1_off q' i = l1_off q i" using assms(3) by (simp add: carries_def l1_off_def)
  from l2_entry_same [OF assms(1) m assms(5) this]
    carries_mapped(3) [OF assms(3) struct_base [OF assms(1)] m _ assms(6) [OF False]] show ?thesis by simp
qed

lemma users_old:
  assumes "qcow_base q" and "qcow_map q" and "q_host_count q \<le> n"
  shows "l2_users q n = {}" and "data_users q n = {}"
proof -
  have "l1_off q i div q_cluster_size q \<noteq> n" if "i < q_l1_size q" "l1_off q i \<noteq> 0" for i
    using mapped_host [OF l2_entry_mapped(1) [OF assms(2) that] assms(1)] assms(3) by simp
  then show "l2_users q n = {}" by (auto simp: l2_users_def)
  have "data_off q i j div q_cluster_size q \<noteq> n" if "i < q_l1_size q" "j < l2_count q" "data_off q i j \<noteq> 0" for i j
    using mapped_host [OF l2_entry_mapped(2) [OF assms(2) that] assms(1)] assms(3) by simp
  then show "data_users q n = {}" by (auto simp: data_users_def)
qed

lemma same_users:
  assumes "same_view q q'" and "same_l1 q q'"
  shows "l2_users q' n = l2_users q n" and "data_users q' n = data_users q n"
  using assms by (auto simp: l2_users_def data_users_def same_view_def same_l1_def)

lemma carries_view:
  assumes "qcow_struct q" and "qcow_map q" and "carries {} q q'"
  shows "qcow_map q'" and "same_view q q'" and "same_l1 q q'"
proof -
  note b = struct_base [OF assms(1)]
  have e: "l2_entry q' i j = l2_entry q i j" if "i < q_l1_size q" "j < l2_count q" for i j
    using carries_entry [OF assms that] by simp
  show l: "same_l1 q q'" using assms(3) by (simp add: same_l1_def carries_def l1_off_def)
  show v: "same_view q q'"
    using assms(3) e carries_mapped(3) [OF assms(3) b l2_entry_mapped(2) [OF assms(2)]]
    by (simp add: same_view_def carries_def)
  have sz: "q_l1_size q' = q_l1_size q" "q_cluster_size q' = q_cluster_size q" using v by (simp_all add: same_view_def)
  have "mapped q' 3 (l1_off q' i)" if "i < q_l1_size q" "l1_off q' i \<noteq> 0" for i
  proof -
    have "l1_off q' i = l1_off q i" using l that by (simp add: same_l1_def)
    with carries_mapped(1) [OF assms(3) b l2_entry_mapped(1) [OF assms(2)], of i] that show ?thesis by simp
  qed
  moreover have "mapped q' 2 (data_off q' i j)" if "i < q_l1_size q" "j < l2_count q" "data_off q' i j \<noteq> 0" for i j
    using carries_mapped(1) [OF assms(3) b l2_entry_mapped(2) [OF assms(2)], of i j] that e by simp
  moreover have "card (l2_users q' n) \<le> q_refs q' ! n" if "q_tags q' ! n = 3" "n < q_host_count q'" for n
  proof (cases "n < q_host_count q")
    case True
    have "guest_tag q' n" using that by (simp add: guest_tag_def)
    then have "q_tags q' ! n = q_tags q ! n \<and> q_refs q' ! n = q_refs q ! n"
      using assms(3) True unfolding carries_def by blast
    then show ?thesis using assms(2) that True by (simp add: same_users [OF v l] qcow_map_def)
  qed (simp add: same_users [OF v l] users_old [OF b assms(2)])
  moreover have "card (data_users q' n) \<le> q_refs q' ! n" if "q_tags q' ! n = 2" "n < q_host_count q'" for n
  proof (cases "n < q_host_count q")
    case True
    have "guest_tag q' n" using that by (simp add: guest_tag_def)
    then have "q_tags q' ! n = q_tags q ! n \<and> q_refs q' ! n = q_refs q ! n"
      using assms(3) True unfolding carries_def by blast
    then show ?thesis using assms(2) that True by (simp add: same_users [OF v l] qcow_map_def)
  qed (simp add: same_users [OF v l] users_old [OF b assms(2)])
  ultimately show "qcow_map q'" by (simp add: qcow_map_def sz)
qed

text \<open>An operation between two states with the invariant that the guest does not notice.\<close>

definition silent :: "'p qcow \<Rightarrow> 'p qcow \<Rightarrow> bool" where
  "silent q q' \<longleftrightarrow> qcow_struct q' \<and> qcow_map q' \<and> same_view q q' \<and> same_l1 q q'"

lemma silent_trans: "silent q q1 \<Longrightarrow> silent q1 q2 \<Longrightarrow> silent q q2"
  using same_view_trans same_l1_trans unfolding silent_def by blast

lemma okat_silent: "okat {} m q \<Longrightarrow> qcow_struct q \<Longrightarrow> qcow_map q \<Longrightarrow> m q = (Inr r, q') \<Longrightarrow> silent q q'"
  using carries_view unfolding silent_def okat_def by blast

section \<open>Changing one entry of a table of the second level\<close>

lemma length_be64_bytes [simp]: "length (be64_bytes v) = 8"
  by (simp add: be64_bytes_def)

lemma read_be64_bytes: "v < 2 ^ 64 \<Longrightarrow> read_be64 (be64_bytes v) 0 = v"
  using read_write_be64 [of 0 "replicate 8 0" v] by (simp add: be64_bytes_def)

lemma other_cluster:
  fixes a b cs s t :: nat
  assumes "a mod cs = 0" and "b mod cs = 0" and "a \<noteq> b" and "s < cs" and "t < cs"
  shows "a + s \<noteq> b + t" and "a div cs \<noteq> b div cs"
proof -
  have ab: "a = cs * (a div cs)" "b = cs * (b div cs)" using assms(1,2) by (metis mult_div_mod_eq add_0_right)+
  with assms(3) show ne: "a div cs \<noteq> b div cs" by metis
  have "(cs * m + s) div cs = m" "(cs * m + t) div cs = m" for m using assms(4,5) by simp_all
  with ab have "(a + s) div cs = a div cs" "(b + t) div cs = b div cs" by metis+
  with ne show "a + s \<noteq> b + t" by metis
qed

lemma write_entry_effect:
  assumes "write_u64 (l1_off q i0 + j0 * 8) v q = (Inr u, q')" and "qcow_struct q" and "qcow_map q"
    and "i0 < q_l1_size q" and "j0 < l2_count q" and "l1_off q i0 \<noteq> 0" and "v < 2 ^ 64"
  shows "\<exists>f. q' = q\<lparr>q_fd := f\<rparr> \<and> qcow_struct q' \<and>
    (\<forall>i < q_l1_size q. \<forall>j < l2_count q. l2_entry q' i j = (if l1_off q i = l1_off q i0 \<and> j = j0 then v else l2_entry q i j)) \<and>
    (\<forall>k < q_file_size q. k div q_cluster_size q \<noteq> l1_off q i0 div q_cluster_size q \<longrightarrow> content f ! k = content (q_fd q) ! k)"
proof -
  let ?cs = "q_cluster_size q" and ?o = "l1_off q i0 + j0 * 8"
  note m0 = l2_entry_mapped(1) [OF assms(3,4,6)] and c8 = cs_div8 [OF assms(2)] and fs = struct_file_size [OF assms(2)]
  have j8: "j0 * 8 + 8 \<le> ?cs" using c8 assms(5) by linarith
  have inside: "?o + length (be64_bytes v) \<le> q_file_size q" using m0 j8 by (simp add: mapped_def)
  obtain f where q': "q' = q\<lparr>q_fd := f\<rparr>" and f: "content f = overlay ?o (be64_bytes v) (content (q_fd q))"
    using write_at_effect [OF assms(1) [unfolded write_u64_def] inside assms(2)] by blast
  have len: "?o + length (be64_bytes v) \<le> length (content (q_fd q))" using inside fs by simp
  have same: "content f ! k = content (q_fd q) ! k" if "k < q_file_size q" "k < ?o \<or> ?o + 8 \<le> k" for k
    using that len fs by (auto simp: f nth_overlay)
  have l1: "l1_off q' i = l1_off q i" for i by (simp add: l1_off_def q')
  have same_entry: "l2_entry q' i j = l2_entry q i j"
    if i: "i < q_l1_size q" "j < l2_count q" and d: "l1_off q i \<noteq> 0 \<Longrightarrow> l1_off q i \<noteq> l1_off q i0 \<or> j \<noteq> j0" for i j
  proof (cases "l1_off q i = 0")
    case False
    note m = l2_entry_mapped(1) [OF assms(3) i(1) False]
    have "content f ! (l1_off q i + j * 8 + t) = content (q_fd q) ! (l1_off q i + j * 8 + t)" if t: "t < 8" for t
    proof (rule same)
      have jt: "j * 8 + t < ?cs" using c8 i(2) t by linarith
      show "l1_off q i + j * 8 + t < q_file_size q" using mapped_within(2) [OF m jt] by (simp add: add.assoc)
      show "l1_off q i + j * 8 + t < ?o \<or> ?o + 8 \<le> l1_off q i + j * 8 + t"
      proof (cases "l1_off q i = l1_off q i0")
        case True
        with d False have "j \<noteq> j0" by blast
        with t True show ?thesis by linarith
      next
        case ne: False
        have "l1_off q i + (j * 8 + t) \<noteq> l1_off q i0 + (j0 * 8 + s)" if "s < 8" for s
          using other_cluster(1) [OF _ _ ne jt, of "j0 * 8 + s"] m m0 j8 that by (simp add: mapped_def)
        from this [of "l1_off q i + (j * 8 + t) - ?o"] show ?thesis by linarith
      qed
    qed
    then have "read_be64 (content f) (l1_off q i + j * 8) = read_be64 (content (q_fd q)) (l1_off q i + j * 8)"
      by (rule read_be64_cong)
    then show ?thesis by (simp add: l2_entry_def l1) (simp add: q')
  qed (simp add: l2_entry_def l1)
  have "l2_entry q' i j0 = v" if "l1_off q i = l1_off q i0" for i
  proof -
    have "read_be64 (content f) ?o = read_be64 (be64_bytes v) 0"
      using len by (intro read_be64_cong) (simp add: f nth_overlay)
    then show ?thesis using that assms(6) read_be64_bytes [OF assms(7)] by (simp add: l2_entry_def l1) (simp add: q')
  qed
  then have e: "\<forall>i < q_l1_size q. \<forall>j < l2_count q. l2_entry q' i j = (if l1_off q i = l1_off q i0 \<and> j = j0 then v else l2_entry q i j)"
    using same_entry by auto
  have c: "content f ! k = content (q_fd q) ! k" if "k < q_file_size q" "k div ?cs \<noteq> l1_off q i0 div ?cs" for k
  proof (rule same [OF that(1)], rule ccontr)
    assume "\<not> (k < ?o \<or> ?o + 8 \<le> k)"
    then obtain t where "k = l1_off q i0 + t" "t < ?cs"
      using j8 by (metis add.assoc le_add_diff_inverse less_diff_conv2 not_le not_less add_lessD1 le_add1 less_le_trans nat_add_left_cancel_less)
    with mapped_within(1) [OF m0] that(2) show False by simp
  qed
  have "qcow_struct q'" unfolding q' using len by (intro struct_same_file [OF assms(2)]) (simp add: f)
  with q' e c show ?thesis by blast
qed

text \<open>Setting the copied flag is silent.\<close>

lemma flag_entry_silent:
  assumes "write_u64 (l1_off q i0 + j0 * 8) (l2_entry q i0 j0 OR QCOW_COPIED) q = (Inr u, q')" and "qcow_struct q" and "qcow_map q"
    and "i0 < q_l1_size q" and "j0 < l2_count q" and "l1_off q i0 \<noteq> 0"
  shows "silent q q'"
proof -
  let ?cs = "q_cluster_size q"
  have "l2_entry q i0 j0 < 2 ^ 64" using read_be64_less by (simp add: l2_entry_def)
  from write_entry_effect [OF assms copied_less [OF this]] obtain f where q': "q' = q\<lparr>q_fd := f\<rparr>" and s: "qcow_struct q'"
    and e: "\<forall>i < q_l1_size q. \<forall>j < l2_count q. l2_entry q' i j = (if l1_off q i = l1_off q i0 \<and> j = j0 then l2_entry q i0 j0 OR QCOW_COPIED else l2_entry q i j)"
    and c: "\<forall>k < q_file_size q. k div ?cs \<noteq> l1_off q i0 div ?cs \<longrightarrow> content f ! k = content (q_fd q) ! k" by blast
  have eq: "l2_entry q i j0 = l2_entry q i0 j0" if "l1_off q i = l1_off q i0" for i using that by (simp add: l2_entry_def)
  have l: "same_l1 q q'" by (simp add: same_l1_def l1_off_def q')
  have d: "data_off q' i j = data_off q i j" "l2_entry q' i j AND QCOW_ZERO = l2_entry q i j AND QCOW_ZERO"
    if "i < q_l1_size q" "j < l2_count q" for i j
    using e that eq [of i] by auto
  have keep: "content f ! (data_off q i j + t) = content (q_fd q) ! (data_off q i j + t)"
    if ij: "i < q_l1_size q" "j < l2_count q" "data_off q i j \<noteq> 0" "t < ?cs" for i j t
  proof -
    note m = l2_entry_mapped(2) [OF assms(3) ij(1-3)] and m0 = l2_entry_mapped(1) [OF assms(3,4,6)]
    have "data_off q i j div ?cs \<noteq> l1_off q i0 div ?cs" using m m0 unfolding mapped_def by (metis numeral_eq_iff semiring_norm(86,88,89) verit_eq_simplify(12))
    then show ?thesis using c mapped_within [OF m ij(4)] by simp
  qed
  have v: "same_view q q'" using d keep by (simp add: same_view_def q')
  have "mapped q' tag off = mapped q tag off" for tag off by (simp add: mapped_def q')
  then have "qcow_map q'"
    using assms(3) d same_users [OF v l] l by (simp add: qcow_map_def same_l1_def q')
  with s v l show ?thesis by (simp add: silent_def)
qed

section \<open>Refreshing the copied flags\<close>

lemma silentD:
  assumes "silent q q'"
  shows "qcow_struct q'" and "qcow_map q'" and "same_view q q'" and "same_l1 q q'"
    and "q_l1_size q' = q_l1_size q" and "q_cluster_size q' = q_cluster_size q"
    and "i < q_l1_size q \<Longrightarrow> l1_off q' i = l1_off q i"
  using assms by (simp_all add: silent_def same_view_def same_l1_def)

lemma silent_refl: "qcow_struct q \<Longrightarrow> qcow_map q \<Longrightarrow> silent q q"
  by (simp add: silent_def)

text \<open>In a computation that succeeds, reading a table entry gives the entry.\<close>

definition file_known :: "'p qcow \<Rightarrow> bool" where
  "file_known q \<longleftrightarrow> q_file_size q = length (content (q_fd q)) \<and> q_file_size q < 2 ^ 63"

lemma struct_known: "qcow_struct q \<Longrightarrow> file_known q"
  using struct_file_size [of q] by (simp add: file_known_def)

lemma read_u64_Inr:
  assumes "read_u64 off q = (Inr v, q')" and "file_known q"
  shows "v = read_be64 (content (q_fd q)) off" and "\<exists>f. q' = q\<lparr>q_fd := f\<rparr> \<and> content f = content (q_fd q)"
proof -
  from assms(1) obtain bs where ra: "read_at 8 off q = (Inr bs, q')" and v: "v = read_be64 bs 0"
    by (auto simp: read_u64_def bind_io_Inr ret_def)
  from ra have rv: "range_valid q off 8" by (auto simp: read_at_def bind_io_Inr get_io_def fail_def split: if_splits)
  with ra obtain f where r: "nextufs__read_exact_fd 8 (to_off off) (q_fd q) = (Inr bs, f)" and q': "q' = q\<lparr>q_fd := f\<rparr>"
    by (auto simp: read_at_def bind_io_Inr get_io_def qcow_fd_io_def split: prod.splits)
  note re = read_exact_fd_Inr [OF r]
  note fs = assms(2) [unfolded file_known_def]
  have off: "off + 8 \<le> length (content (q_fd q))" using rv fs by (simp add: range_valid_def) linarith
  then have "to_off off = int off" using fs by (intro to_off_id) simp
  then have "v = read_be64 (bytes_at off 8 (content (q_fd q))) 0" using v re by simp
  also have "\<dots> = read_be64 (content (q_fd q)) off" using off by (intro read_be64_cong) simp
  finally show "v = read_be64 (content (q_fd q)) off" .
  show "\<exists>f. q' = q\<lparr>q_fd := f\<rparr> \<and> content f = content (q_fd q)"
    using q' re by blast
qed

lemma same_content_silent:
  assumes "qcow_struct q" and "qcow_map q" and "content f = content (q_fd q)"
  shows "silent q (q\<lparr>q_fd := f\<rparr>)"
proof -
  have "carries {} q (q\<lparr>q_fd := f\<rparr>)" using assms(3) by (simp add: carries_def guest_tag_def)
  from carries_view [OF assms(1,2) this] show ?thesis
    using struct_same_file [OF assms(1), of f] assms(3) by (simp add: silent_def)
qed

lemma refresh_l2_silent:
  "refresh_l2 off l2 js q = (Inr u, q') \<Longrightarrow> qcow_struct q \<Longrightarrow> qcow_map q \<Longrightarrow> i < q_l1_size q \<Longrightarrow> l1_off q i = l2 \<Longrightarrow>
   l2 \<noteq> 0 \<Longrightarrow> \<forall>j \<in> set js. j < l2_count q \<Longrightarrow> silent q q'"
proof (induction js arbitrary: q)
  case Nil
  then show ?case by (simp add: ret_def silent_refl)
next
  case (Cons j rest)
  from Cons.prems(1) obtain v q1 q2 where r: "read_u64 (l2 + j * 8) q = (Inr v, q1)"
    and w: "(if v AND QCOW_OFFSET = off then write_u64 (l2 + j * 8) (v OR QCOW_COPIED) else ret ()) q1 = (Inr (), q2)"
    and rest: "refresh_l2 off l2 rest q2 = (Inr u, q')"
    by (auto simp: bind_io_Inr)
  obtain f where q1: "q1 = q\<lparr>q_fd := f\<rparr>" and c: "content f = content (q_fd q)" and v: "v = read_be64 (content (q_fd q)) (l2 + j * 8)"
    using read_u64_Inr [OF r struct_known [OF Cons.prems(2)]] by blast
  have s1: "silent q q1" unfolding q1 using same_content_silent [OF Cons.prems(2,3) c] .
  have v1: "v = l2_entry q1 i j"
    using v c Cons.prems(5,6) by (simp add: l2_entry_def q1 l1_off_def)
  note d1 = silentD [OF s1]
  have "silent q1 q2"
  proof (cases "v AND QCOW_OFFSET = off")
    case True
    with w have "write_u64 (l1_off q1 i + j * 8) (l2_entry q1 i j OR QCOW_COPIED) q1 = (Inr (), q2)"
      using d1(7) [OF Cons.prems(4)] Cons.prems(5) v1 by simp
    then show ?thesis
      by (rule flag_entry_silent) (use d1 Cons.prems in auto)
  next
    case False
    with w d1 silent_refl show ?thesis by (auto simp: ret_def)
  qed
  then have s2: "silent q q2" using silent_trans [OF s1] by blast
  note d2 = silentD [OF s2]
  have "silent q2 q'"
    by (rule Cons.IH [OF rest d2(1,2)]) (use d2 Cons.prems in auto)
  then show ?case using silent_trans [OF s2] by blast
qed

lemma l1_off_and [simp]: "l1_off q i AND QCOW_OFFSET = l1_off q i"
  by (simp add: l1_off_def)

text \<open>A new value of an entry of the first table that maps the same table.\<close>

lemma l1_flag_silent:
  assumes "qcow_struct q" and "qcow_map q" and "v AND QCOW_OFFSET = l1_off q i"
  shows "silent q (q\<lparr>q_l1 := (q_l1 q)[i := v]\<rparr>)"
proof -
  let ?q = "q\<lparr>q_l1 := (q_l1 q)[i := v]\<rparr>"
  have l: "l1_off ?q k = l1_off q k" for k
    using assms(3) by (cases "k = i"; cases "i < length (q_l1 q)") (simp_all add: l1_off_def not_less list_update_beyond)
  have e: "l2_entry ?q k j = l2_entry q k j" for k j by (simp add: l2_entry_def l)
  have h: "hidden ?q o1 n = hidden q o1 n" for o1 n by (simp add: hidden_def guest_tag_def)
  have "qcow_struct ?q" using assms(1) by (simp add: struct_defs h)
  moreover have "same_view q ?q" "same_l1 q ?q" by (simp_all add: same_view_def same_l1_def e l)
  moreover have "mapped ?q t o1 = mapped q t o1" for t o1 by (simp add: mapped_def)
  then have "qcow_map ?q"
    using assms(2) same_users [OF \<open>same_view q ?q\<close> \<open>same_l1 q ?q\<close>] by (simp add: qcow_map_def l e)
  ultimately show ?thesis by (simp add: silent_def)
qed

lemma l1_write_okat:
  assumes "qcow_struct q" and "i < q_l1_size q"
  shows "okat X (write_u64 (q_l1_offset q + i * 8) v) q"
  unfolding write_u64_def using assms(2) struct_hidden(2) [OF assms(1)]
  by (intro write_hidden_okat [OF _ assms(1)]) (auto elim!: hidden_part)

lemma refresh_l1_silent:
  "refresh_l1 off tag is q = (Inr u, q') \<Longrightarrow> qcow_struct q \<Longrightarrow> qcow_map q \<Longrightarrow> \<forall>i \<in> set is. i < q_l1_size q \<Longrightarrow> silent q q'"
proof (induction "is" arbitrary: q)
  case Nil
  then show ?case using okat_silent [OF sync_fd_okat [of q "{}"]] by simp
next
  case (Cons i rest)
  let ?l2 = "q_l1 q ! i AND QCOW_OFFSET"
  have l2: "?l2 = l1_off q i" by (simp add: l1_off_def)
  show ?case
  proof (cases "?l2 = 0")
    case True
    with Cons show ?thesis by (simp add: bind_io_def get_io_def)
  next
    case False
    with Cons.prems(1) obtain q2 where w: "(if tag = 3 \<and> ?l2 = off
          then bind_io (write_u64 (q_l1_offset q + i * 8) (?l2 OR QCOW_COPIED))
            (\<lambda>_. modify_io (\<lambda>q. q\<lparr>q_l1 := (q_l1 q)[i := ?l2 OR QCOW_COPIED]\<rparr>))
          else if tag = 2 then refresh_l2 off ?l2 [0..<l2_count q] else ret ()) q = (Inr (), q2)"
      and rest: "refresh_l1 off tag rest q2 = (Inr u, q')"
      by (auto simp: bind_io_Inr get_io_def Let_def)
    have i: "i < q_l1_size q" using Cons.prems by simp
    have s2: "silent q q2"
    proof (cases "tag = 3 \<and> ?l2 = off")
      case True
      with w obtain q1 where w1: "write_u64 (q_l1_offset q + i * 8) (?l2 OR QCOW_COPIED) q = (Inr (), q1)"
        and q2: "q2 = q1\<lparr>q_l1 := (q_l1 q1)[i := ?l2 OR QCOW_COPIED]\<rparr>"
        by (auto simp: bind_io_Inr modify_io_def)
      have s1: "silent q q1" using okat_silent [OF l1_write_okat [OF Cons.prems(2) i] Cons.prems(2,3) w1] .
      have "l1_off q1 i = l1_off q i" using silentD(7) [OF s1 i] .
      then have "silent q1 q2" unfolding q2 using silentD(1,2) [OF s1] l2 by (intro l1_flag_silent) simp_all
      then show ?thesis using silent_trans [OF s1] by blast
    next
      case False
      show ?thesis
      proof (cases "tag = 2")
        case True
        with w False have "refresh_l2 off ?l2 [0..<l2_count q] q = (Inr (), q2)" by simp
        then show ?thesis by (rule refresh_l2_silent) (use Cons.prems i l2 \<open>?l2 \<noteq> 0\<close> in auto)
      next
        case f2: False
        with w False silent_refl [OF Cons.prems(2,3)] show ?thesis by (auto simp: ret_def)
      qed
    qed
    note d2 = silentD [OF s2]
    have "silent q2 q'" by (rule Cons.IH [OF rest d2(1,2)]) (use Cons.prems d2 in auto)
    then show ?thesis using silent_trans [OF s2] by blast
  qed
qed

section \<open>Dropping a reference\<close>

text \<open>The count of a cluster is one more than its references: the state after an entry was changed.\<close>

definition spare :: "'p qcow \<Rightarrow> nat \<Rightarrow> bool" where
  "spare q n \<longleftrightarrow> n < q_host_count q \<and> guest_tag q n \<and>
     (q_tags q ! n = 3 \<longrightarrow> card (l2_users q n) < q_refs q ! n) \<and>
     (q_tags q ! n = 2 \<longrightarrow> card (data_users q n) < q_refs q ! n)"

lemma drop_reference_silent:
  assumes "drop_reference off q = (Inr u, q')" and "qcow_struct q" and "qcow_map q"
    and "spare q (off div q_cluster_size q)"
  shows "silent q q'"
proof -
  let ?n = "off div q_cluster_size q"
  define T where "T = (if q_refs q ! ?n = 1 then (q_tags q)[?n := 0] else q_tags q)"
  define R where "R = (q_refs q)[?n := q_refs q ! ?n - 1]"
  from assms(1) obtain q2 where f: "flush_refcounts (ref_changed ?n (q\<lparr>q_refs := R, q_tags := T\<rparr>)) = (Inr (), q2)"
    and rest: "(if q_refs q2 ! ?n = 1 then refresh_copied_flags off (q_tags q ! ?n) else ret ()) q2 = (Inr u, q')"
    by (auto simp: drop_reference_def bind_io_Inr get_io_def modify_io_def fail_def Let_def T_def R_def split: if_splits)
  define D where "D = (if ?n div refs_per_block q < length (q_ref_table q)
    then (q_ref_dirty q)[?n div refs_per_block q := True] else q_ref_dirty q)"
  have q1: "ref_changed ?n (q\<lparr>q_refs := R, q_tags := T\<rparr>) = q\<lparr>q_refs := R, q_tags := T, q_ref_dirty := D\<rparr>"
    by (simp add: ref_changed_def Let_def D_def)
  have D: "length D = length (q_ref_dirty q)" by (simp add: D_def)
  let ?q1 = "q\<lparr>q_refs := R, q_tags := T, q_ref_dirty := D\<rparr>"
  have n: "?n < q_host_count q" using assms(4) by (simp add: spare_def)
  have len: "?n < length (q_refs q)" "length (q_tags q) = length (q_refs q)" "length R = length (q_refs q)" "length T = length (q_refs q)"
    using n assms(2) by (simp_all add: struct_defs R_def T_def)
  have gt: "guest_tag ?q1 k \<Longrightarrow> guest_tag q k" for k
    using len by (cases "k = ?n") (auto simp: guest_tag_def T_def split: if_splits)
  have hid: "hidden q o1 m \<Longrightarrow> hidden ?q1 o1 m" for o1 m using gt by (auto simp: hidden_def)
  have st: "qcow_struct ?q1"
    using assms(2) hid len D by (simp add: struct_defs)
  have l: "same_l1 q ?q1" by (simp add: same_l1_def l1_off_def)
  have e: "l2_entry ?q1 i j = l2_entry q i j" for i j by (simp add: l2_entry_def l1_off_def)
  have v: "same_view q ?q1" by (simp add: same_view_def e)
  note us = same_users [OF v l]
  have m: "mapped ?q1 t o1" if "mapped q t o1" "o1 div q_cluster_size q \<noteq> ?n \<or> q_refs q ! ?n \<noteq> 1" for t o1
    using that len by (auto simp: mapped_def T_def)
  have pos: "q_refs q ! ?n = 1 \<Longrightarrow> q_tags q ! ?n = 3 \<Longrightarrow> l2_users q ?n = {}"
    "q_refs q ! ?n = 1 \<Longrightarrow> q_tags q ! ?n = 2 \<Longrightarrow> data_users q ?n = {}"
    using assms(4) by (simp_all add: spare_def)
  have "mapped ?q1 3 (l1_off q i)" if "i < q_l1_size q" "l1_off q i \<noteq> 0" for i
  proof (rule m [OF l2_entry_mapped(1) [OF assms(3) that]], rule ccontr)
    assume "\<not> (l1_off q i div q_cluster_size q \<noteq> ?n \<or> q_refs q ! ?n \<noteq> 1)"
    then have "i \<in> l2_users q ?n" "q_refs q ! ?n = 1" "q_tags q ! ?n = 3"
      using that l2_entry_mapped(1) [OF assms(3) that] by (auto simp: l2_users_def mapped_def)
    with pos(1) show False by blast
  qed
  moreover have "mapped ?q1 2 (data_off q i j)" if "i < q_l1_size q" "j < l2_count q" "data_off q i j \<noteq> 0" for i j
  proof (rule m [OF l2_entry_mapped(2) [OF assms(3) that]], rule ccontr)
    assume "\<not> (data_off q i j div q_cluster_size q \<noteq> ?n \<or> q_refs q ! ?n \<noteq> 1)"
    then have "(i, j) \<in> data_users q ?n" "q_refs q ! ?n = 1" "q_tags q ! ?n = 2"
      using that l2_entry_mapped(2) [OF assms(3) that] by (auto simp: data_users_def mapped_def)
    with pos(2) show False by blast
  qed
  moreover have "(T ! k = 3 \<longrightarrow> card (l2_users q k) \<le> R ! k) \<and> (T ! k = 2 \<longrightarrow> card (data_users q k) \<le> R ! k)"
    if "k < q_host_count q" for k
  proof (cases "k = ?n")
    case True
    then show ?thesis using assms(4) len by (auto simp: spare_def R_def T_def)
  next
    case False
    then show ?thesis using assms(3) that by (simp add: qcow_map_def R_def T_def)
  qed
  moreover have "l1_off ?q1 i = l1_off q i" for i by (simp add: l1_off_def)
  ultimately have mp: "qcow_map ?q1" using e us by (simp add: qcow_map_def)
  have s1: "silent q ?q1" using st mp v l by (simp add: silent_def)
  have s2: "silent q q2"
    using silent_trans [OF s1 okat_silent [OF flush_refcounts_okat [OF st] st mp f [unfolded q1]]] .
  note d2 = silentD [OF s2]
  have "silent q2 q'"
  proof (cases "q_refs q2 ! ?n = 1")
    case True
    with rest have "refresh_l1 off (q_tags q ! ?n) [0..<q_l1_size q2] q2 = (Inr u, q')"
      by (simp add: refresh_copied_flags_def bind_io_def get_io_def)
    then show ?thesis by (rule refresh_l1_silent) (use d2 in auto)
  next
    case False
    with rest silent_refl [OF d2(1,2)] show ?thesis by (simp add: ret_def)
  qed
  then show ?thesis using silent_trans [OF s2] by blast
qed

section \<open>A table of its own for an entry of the first table\<close>

lemma new_offset:
  assumes "qcow_struct q" and "mapped q tag (n * q_cluster_size q)"
  shows "(n * q_cluster_size q) AND QCOW_OFFSET = n * q_cluster_size q"
    and "(n * q_cluster_size q) AND QCOW_ZERO = 0"
    and "(n * q_cluster_size q) OR QCOW_COPIED < 2 ^ 64"
    and "n * q_cluster_size q div q_cluster_size q = n"
proof -
  let ?o = "n * q_cluster_size q"
  have "?o < 2 ^ 56" using struct_file_size [OF assms(1)] assms(2) by (simp add: mapped_def)
  moreover have "?o mod 512 = 0" using assms(1) by (auto simp: struct_defs)
  ultimately show "?o AND QCOW_OFFSET = ?o" "?o AND QCOW_ZERO = 0" "?o OR QCOW_COPIED < 2 ^ 64"
    by (rule aligned_offset)+
  show "?o div q_cluster_size q = n" using assms(1) by (auto simp: struct_defs)
qed

lemma l1_switch:
  fixes q :: "'p qcow"
  defines "q' \<equiv> \<lambda>n. \<lambda>index. q\<lparr>q_l1 := (q_l1 q)[index := n * q_cluster_size q OR QCOW_COPIED]\<rparr>"
  assumes "qcow_struct q" and "qcow_map q" and "index < q_l1_size q" and "mapped q 3 (n * q_cluster_size q)" and "n \<noteq> 0"
    and "l2_users q n = {}" and "1 \<le> q_refs q ! n"
    and "\<And>j. j < l2_count q \<Longrightarrow> read_be64 (content (q_fd q)) (n * q_cluster_size q + j * 8) = l2_entry q index j"
  shows "qcow_struct (q' n index)" and "qcow_map (q' n index)" and "same_view q (q' n index)"
    and "l1_off (q' n index) index = n * q_cluster_size q" and "l2_users (q' n index) n = {index}"
    and "l1_off q index \<noteq> 0 \<Longrightarrow> spare (q' n index) (l1_off q index div q_cluster_size q)"
proof -
  let ?q = "q' n index" and ?cs = "q_cluster_size q"
  have qd: "?q = q\<lparr>q_l1 := (q_l1 q)[index := n * ?cs OR QCOW_COPIED]\<rparr>" by (simp add: q'_def)
  note no = new_offset [OF assms(2,5)]
  have cs: "0 < ?cs" using assms(2) by (simp add: struct_defs)
  have len: "index < length (q_l1 q)" using assms(2,4) by (simp add: struct_defs)
  have l: "l1_off ?q i = (if i = index then n * ?cs else l1_off q i)" for i
    using len no(1) by (simp add: l1_off_def qd)
  show "l1_off ?q index = n * ?cs" by (simp add: l)
  have fl: "q_l1_size ?q = q_l1_size q" "q_cluster_size ?q = ?cs" by (simp_all add: qd)
  have e: "l2_entry ?q i j = l2_entry q i j" if "j < l2_count q" for i j
    using assms(6) assms(9) [OF that] cs by (cases "i = index") (simp_all add: l2_entry_def [of ?q] l, simp_all add: qd l2_entry_def)
  have h: "hidden ?q o1 m = hidden q o1 m" for o1 m by (simp add: hidden_def guest_tag_def qd)
  show "qcow_struct ?q" using assms(2) by (simp add: struct_defs h) (simp add: qd)
  show v: "same_view q ?q" using e by (simp add: same_view_def) (simp add: qd)
  have mp: "mapped ?q t o1 = mapped q t o1" for t o1 by (simp add: mapped_def qd)
  have lu: "l2_users ?q m = (if m = n then {index} else l2_users q m - {index})" for m
  proof (cases "m = n")
    case True
    have "l2_users q n = {}" by (rule assms(7))
    then have "i = index" if "i \<in> l2_users ?q n" for i
      using that by (auto simp: l2_users_def l fl split: if_splits)
    moreover have "index \<in> l2_users ?q n" using assms(4,6) no(4) cs by (simp add: l2_users_def l fl)
    ultimately show ?thesis using True by auto
  next
    case False
    then show ?thesis using no(4) by (auto simp: l2_users_def l fl)
  qed
  then show "l2_users ?q n = {index}" by simp
  have du: "data_users ?q m = data_users q m" for m
    using e by (auto simp: data_users_def fl)
  have cards: "card (l2_users ?q m) \<le> q_refs q ! m" if "m < q_host_count q" "q_tags q ! m = 3" for m
  proof (cases "m = n")
    case True
    then show ?thesis using assms(8) by (simp add: lu)
  next
    case False
    have "card (l2_users q m - {index}) \<le> card (l2_users q m)" by (intro card_mono) auto
    with that assms(3) False show ?thesis by (simp add: lu qcow_map_def) (metis le_trans)
  qed
  have "mapped q 3 (l1_off ?q i)" if "i < q_l1_size q" "l1_off ?q i \<noteq> 0" for i
    using that assms(5) l2_entry_mapped(1) [OF assms(3), of i] by (simp add: l split: if_splits)
  then show "qcow_map ?q"
    using assms(3) cards e by (simp add: qcow_map_def mp du) (simp add: qd)
  show "spare ?q (l1_off q index div ?cs)" if o: "l1_off q index \<noteq> 0"
  proof -
    let ?m = "l1_off q index div ?cs"
    note m = l2_entry_mapped(1) [OF assms(3,4) o]
    have tag: "q_tags q ! ?m = 3" and hc: "?m < q_host_count q"
      using m mapped_host [OF m struct_base [OF assms(2)]] by (simp_all add: mapped_def)
    have i: "index \<in> l2_users q ?m" using assms(4) o by (simp add: l2_users_def)
    then have "?m \<noteq> n" using assms(7) by auto
    then have "card (l2_users ?q ?m) < card (l2_users q ?m)"
      using i card_Diff1_less [of "l2_users q ?m" index] by (simp add: lu)
    also have "\<dots> \<le> q_refs q ! ?m" using assms(3) hc tag by (simp add: qcow_map_def)
    finally show ?thesis using tag hc by (simp add: spare_def guest_tag_def) (simp add: qd)
  qed
qed

lemma mapped_count:
  assumes "qcow_map q" and "qcow_base q"
  shows "mapped q 3 off \<Longrightarrow> card (l2_users q (off div q_cluster_size q)) \<le> q_refs q ! (off div q_cluster_size q)"
    and "mapped q 2 off \<Longrightarrow> card (data_users q (off div q_cluster_size q)) \<le> q_refs q ! (off div q_cluster_size q)"
proof -
  show "mapped q 3 off \<Longrightarrow> card (l2_users q (off div q_cluster_size q)) \<le> q_refs q ! (off div q_cluster_size q)"
    using assms(1) mapped_host [of q 3 off] assms(2) by (simp add: qcow_map_def) (simp add: mapped_def)
  show "mapped q 2 off \<Longrightarrow> card (data_users q (off div q_cluster_size q)) \<le> q_refs q ! (off div q_cluster_size q)"
    using assms(1) mapped_host [of q 2 off] assms(2) by (simp add: qcow_map_def) (simp add: mapped_def)
qed

lemma only_user: "finite A \<Longrightarrow> card A \<le> Suc 0 \<Longrightarrow> x \<in> A \<Longrightarrow> A = {x}"
  using card_le_Suc0_iff_eq [of A] by auto

lemma read_at_Inr:
  assumes "read_at n off q = (Inr bs, q')" and "file_known q"
  shows "bs = bytes_at off n (content (q_fd q))" and "off + n \<le> length (content (q_fd q))" and "length bs = n"
    and "\<exists>f. q' = q\<lparr>q_fd := f\<rparr> \<and> content f = content (q_fd q)"
proof -
  from assms(1) have rv: "range_valid q off n" by (auto simp: read_at_def bind_io_Inr get_io_def fail_def split: if_splits)
  with assms(1) obtain f where r: "nextufs__read_exact_fd n (to_off off) (q_fd q) = (Inr bs, f)" and q': "q' = q\<lparr>q_fd := f\<rparr>"
    by (auto simp: read_at_def bind_io_Inr get_io_def qcow_fd_io_def split: prod.splits)
  note re = read_exact_fd_Inr [OF r] and fs = assms(2) [unfolded file_known_def]
  show off: "off + n \<le> length (content (q_fd q))" using rv fs by (simp add: range_valid_def) linarith
  then have "to_off off = int off" using fs by (intro to_off_id) simp
  then show "bs = bytes_at off n (content (q_fd q))" "length bs = n" "\<exists>f. q' = q\<lparr>q_fd := f\<rparr> \<and> content f = content (q_fd q)"
    using re unfolding q' by auto
qed

lemma read_be64_zeros: "p + 8 \<le> n \<Longrightarrow> read_be64 (replicate n 0) p = 0"
  by (simp add: read_be64_eq read_be32_eq)

lemma nth_of_bytes_at: "bytes_at off n xs = bs \<Longrightarrow> length bs = n \<Longrightarrow> t < n \<Longrightarrow> xs ! (off + t) = bs ! t"
  by (auto simp: bytes_at_def)

text \<open>The table that is made writable serves one entry only, and the guest sees the same disk.\<close>

lemma writable_l2_effect:
  assumes "writable_l2 index q = (Inr l2, q')" and "qcow_struct q" and "qcow_map q" and "index < q_l1_size q"
  shows "qcow_struct q' \<and> qcow_map q' \<and> same_view q q' \<and> l1_off q' index = l2 \<and> l2 \<noteq> 0 \<and>
    l2_users q' (l2 div q_cluster_size q) = {index}"
proof -
  let ?old = "l1_off q index" and ?cs = "q_cluster_size q"
  show ?thesis
  proof (cases "?old \<noteq> 0 \<and> q_refs q ! (?old div ?cs) = 1")
    case True
    with assms(1) have r: "l2 = ?old" "q' = q"
      by (auto simp: writable_l2_def bind_io_def get_io_def ret_def l1_off_def Let_def)
    note m = l2_entry_mapped(1) [OF assms(3,4) conjunct1 [OF True]]
    have "card (l2_users q (?old div ?cs)) \<le> Suc 0"
      using mapped_count(1) [OF assms(3) struct_base [OF assms(2)] m] True by simp
    moreover have "index \<in> l2_users q (?old div ?cs)" using assms(4) True by (simp add: l2_users_def)
    ultimately have "l2_users q (?old div ?cs) = {index}" by (intro only_user) simp_all
    then show ?thesis using r assms(2,3) True by simp
  next
    case False
    with assms(1) obtain buf q1 q2 q3 q4 where
      rd: "(if ?old \<noteq> 0 then read_at ?cs ?old else ret (replicate ?cs 0)) q = (Inr buf, q1)"
      and al: "allocate_cluster buf 3 q1 = (Inr l2, q2)"
      and wr: "write_u64 (q_l1_offset q + index * 8) (l2 OR QCOW_COPIED) q2 = (Inr (), q3)"
      and sy: "sync_fd q3 = (Inr (), q4)"
      and dr: "(if ?old \<noteq> 0 then drop_reference ?old else ret ()) (q4\<lparr>q_l1 := (q_l1 q4)[index := l2 OR QCOW_COPIED]\<rparr>) = (Inr (), q')"
      unfolding writable_l2_def bind_io_Inr get_io_def modify_io_def l1_off_def [symmetric] Let_def
      by (auto simp: bind_io_Inr ret_def)
    have rd': "length buf = ?cs" "(\<exists>f. q1 = q\<lparr>q_fd := f\<rparr> \<and> content f = content (q_fd q))"
      "\<And>j. j < l2_count q \<Longrightarrow> read_be64 buf (j * 8) = l2_entry q index j"
    proof -
      have "length buf = ?cs \<and> (\<exists>f. q1 = q\<lparr>q_fd := f\<rparr> \<and> content f = content (q_fd q)) \<and>
        (\<forall>j < l2_count q. read_be64 buf (j * 8) = l2_entry q index j)"
      proof (cases "?old = 0")
        case True
        with rd have "buf = replicate ?cs 0" "q1 = q" by (auto simp: ret_def)
        moreover have "j * 8 + 8 \<le> ?cs" if "j < l2_count q" for j using cs_div8 [OF assms(2)] that by linarith
        ultimately show ?thesis using True by (auto simp: read_be64_zeros l2_entry_def intro: exI [of _ "q_fd q"])
      next
        case o: False
        with rd have r: "read_at ?cs ?old q = (Inr buf, q1)" by simp
        note ra = read_at_Inr [OF r struct_known [OF assms(2)]]
        have "read_be64 buf (j * 8) = l2_entry q index j" if "j < l2_count q" for j
        proof -
          have "j * 8 + 8 \<le> ?cs" using cs_div8 [OF assms(2)] that by linarith
          then have "read_be64 buf (j * 8) = read_be64 (content (q_fd q)) (?old + j * 8)"
            using ra(2) by (intro read_be64_cong) (simp add: ra(1) add.assoc)
          then show ?thesis using o by (simp add: l2_entry_def)
        qed
        with ra(3,4) show ?thesis by blast
      qed
      then show "length buf = ?cs" "(\<exists>f. q1 = q\<lparr>q_fd := f\<rparr> \<and> content f = content (q_fd q))"
        "\<And>j. j < l2_count q \<Longrightarrow> read_be64 buf (j * 8) = l2_entry q index j" by blast+
    qed
    then obtain f where q1: "q1 = q\<lparr>q_fd := f\<rparr>" and f: "content f = content (q_fd q)" by blast
    have s1: "silent q q1" unfolding q1 using same_content_silent [OF assms(2,3) f] .
    note d1 = silentD [OF s1]
    have "length buf = q_cluster_size q1" using rd'(1) by (simp add: q1)
    note ae = allocate_cluster_effect [OF al d1(1) this]
    then obtain n where n: "qcow_struct q2" "carries {} q1 q2" "l2 = n * ?cs" "q_host_count q1 \<le> n" "n < q_host_count q2"
      "q_tags q2 ! n = 3" "q_refs q2 ! n = 1" "l2 + ?cs \<le> q_file_size q2" "bytes_at l2 ?cs (content (q_fd q2)) = buf"
      by (auto simp: q1)
    have i2: "index < q_l1_size q2" "q_l1_offset q2 = q_l1_offset q" using assms(4) n(2) by (simp_all add: carries_def q1)
    have o3: "qcow_struct q3" "carries {} q2 q3"
      using okatD [OF l1_write_okat [OF n(1) i2(1), of "{}"] wr [folded i2(2)]] by blast+
    have o4: "qcow_struct q4" "carries {} q3 q4" using okatD [OF sync_fd_okat [OF o3(1), of "{}"] sy] by blast+
    have c24: "carries {} q2 q4" using carries_trans [OF o3(2) o4(2)] .
    have c14: "carries {} q1 q4" using carries_trans [OF n(2) c24] .
    note v4 = carries_view [OF d1(1,2) c14]
    have cs2: "q_cluster_size q2 = ?cs" "q_cluster_size q4 = ?cs" using n(2) c14 by (simp_all add: carries_def q1)
    have cs0: "0 < ?cs" using assms(2) by (simp add: struct_defs)
    have m2: "mapped q2 3 l2" using n cs0 by (simp add: mapped_def cs2)
    have nd: "l2 div q_cluster_size q2 = n" using n(3) cs0 by (simp add: cs2)
    note c = carries_mapped [OF c24 struct_base [OF n(1)] m2, simplified nd, simplified]
    have s14: "silent q1 q4" using v4 o4(1) by (simp add: silent_def)
    have s4: "silent q q4" using silent_trans [OF s1 s14] .
    note d4 = silentD [OF s4]
    have "l2_users q4 n = {}"
      using users_old(1) [OF struct_base [OF d1(1)] d1(2) n(4)] same_users(1) [OF v4(2,3)] by simp
    note us = this
    have ent: "read_be64 (content (q_fd q4)) (n * q_cluster_size q4 + j * 8) = l2_entry q4 index j" if j: "j < l2_count q4" for j
    proof -
      have jj: "j < l2_count q" using j cs2 by simp
      have j8: "j * 8 + 8 \<le> ?cs" using cs_div8 [OF assms(2)] jj by linarith
      have "read_be64 (content (q_fd q4)) (l2 + j * 8) = read_be64 buf (j * 8)"
        using c(3) nth_of_bytes_at [OF n(9) rd'(1)] j8 by (intro read_be64_cong) (simp add: add.assoc cs2)
      also have "\<dots> = l2_entry q index j" using rd'(3) [OF jj] .
      also have "\<dots> = l2_entry q1 index j" by (simp add: l2_entry_def l1_off_def q1 f)
      also have "\<dots> = l2_entry q4 index j"
        using carries_entry [OF d1(1,2) c14, of index j] assms(4) jj by (simp add: q1)
      finally show ?thesis using n(3) cs2 by simp
    qed
    have n0: "n \<noteq> 0" using n(4) assms(2) cs0 by (auto simp: q1 struct_defs hidden_def intro!: gr0I)
    note sw = l1_switch [OF o4(1) d4(2) _ _ n0 us _ ent]
    have hyp: "index < q_l1_size q4" "mapped q4 3 (n * q_cluster_size q4)" "1 \<le> q_refs q4 ! n"
      using d4(5) assms(4) c(1,2) n(3,7) cs2 by simp_all
    let ?q5 = "q4\<lparr>q_l1 := (q_l1 q4)[index := l2 OR QCOW_COPIED]\<rparr>"
    have l2eq: "l2 = n * q_cluster_size q4" using n(3) cs2 by simp
    note sw' = sw [OF hyp, folded l2eq]
    have v5: "same_view q ?q5" using same_view_trans [OF d4(3) sw'(3)] .
    have "silent ?q5 q'"
    proof (cases "?old = 0")
      case True
      with dr silent_refl [OF sw'(1,2)] show ?thesis by (simp add: ret_def)
    next
      case o: False
      have "l1_off q4 index = ?old" using d4(7) [OF assms(4)] .
      with sw'(6) o have "spare ?q5 (?old div q_cluster_size ?q5)" by simp
      with dr o sw' show ?thesis by (intro drop_reference_silent) simp_all
    qed
    note s5 = this
    note d5 = silentD [OF s5]
    have "index < q_l1_size ?q5" using hyp(1) by simp
    from d5(7) [OF this] sw'(4) have "l1_off q' index = l2" by simp
    moreover have "l2_users q' n = {index}" using same_users(1) [OF d5(3,4)] sw'(5) by simp
    moreover have "l2 div ?cs = n" using n(3) cs0 by simp
    moreover have "l2 \<noteq> 0" using n(3) n0 cs0 by simp
    moreover have "same_view q q'" using same_view_trans [OF v5 d5(3)] .
    ultimately show ?thesis using d5(1,2) by simp
  qed
qed

section \<open>A data cluster of its own for a guest cluster\<close>

lemma data_switch:
  assumes "write_u64 (l1_off q i0 + j0 * 8) (n * q_cluster_size q OR QCOW_COPIED) q = (Inr u, q')"
    and "qcow_struct q" and "qcow_map q" and "i0 < q_l1_size q" and "j0 < l2_count q" and "l1_off q i0 \<noteq> 0"
    and "l2_users q (l1_off q i0 div q_cluster_size q) = {i0}"
    and "mapped q 2 (n * q_cluster_size q)" and "n \<noteq> 0" and "data_users q n = {}" and "1 \<le> q_refs q ! n"
  shows "qcow_struct q'" and "qcow_map q'" and "\<exists>f. q' = q\<lparr>q_fd := f\<rparr>"
    and "i < q_l1_size q \<Longrightarrow> j < l2_count q \<Longrightarrow>
      l2_entry q' i j = (if i = i0 \<and> j = j0 then n * q_cluster_size q OR QCOW_COPIED else l2_entry q i j)"
    and "mapped q 2 off \<Longrightarrow> t < q_cluster_size q \<Longrightarrow> content (q_fd q') ! (off + t) = content (q_fd q) ! (off + t)"
    and "data_off q i0 j0 \<noteq> 0 \<Longrightarrow> spare q' (data_off q i0 j0 div q_cluster_size q)"
proof -
  let ?cs = "q_cluster_size q"
  note no = new_offset [OF assms(2,8)]
  have cs: "0 < ?cs" using assms(2) by (simp add: struct_defs)
  obtain f where q': "q' = q\<lparr>q_fd := f\<rparr>" and s: "qcow_struct q'"
    and e0: "\<forall>i < q_l1_size q. \<forall>j < l2_count q. l2_entry q' i j =
      (if l1_off q i = l1_off q i0 \<and> j = j0 then n * ?cs OR QCOW_COPIED else l2_entry q i j)"
    and c: "\<forall>k < q_file_size q. k div ?cs \<noteq> l1_off q i0 div ?cs \<longrightarrow> content f ! k = content (q_fd q) ! k"
    using write_entry_effect [OF assms(1-6) no(3)] by blast
  show "qcow_struct q'" by (rule s)
  show "\<exists>f. q' = q\<lparr>q_fd := f\<rparr>" using q' by blast
  have one: "i = i0" if "i < q_l1_size q" "l1_off q i = l1_off q i0" for i
  proof -
    have "i \<in> l2_users q (l1_off q i0 div ?cs)" using that assms(6) by (simp add: l2_users_def)
    with assms(7) show ?thesis by simp
  qed
  have e: "l2_entry q' i j = (if i = i0 \<and> j = j0 then n * ?cs OR QCOW_COPIED else l2_entry q i j)"
    if "i < q_l1_size q" "j < l2_count q" for i j
    using e0 that one by auto
  then show "i < q_l1_size q \<Longrightarrow> j < l2_count q \<Longrightarrow>
      l2_entry q' i j = (if i = i0 \<and> j = j0 then n * ?cs OR QCOW_COPIED else l2_entry q i j)" by blast
  have "off div ?cs \<noteq> l1_off q i0 div ?cs" if "mapped q 2 off" for off
    using that l2_entry_mapped(1) [OF assms(3,4,6)] by (auto simp: mapped_def)
  then show "content (q_fd q') ! (off + t) = content (q_fd q) ! (off + t)" if "mapped q 2 off" "t < ?cs"
    using c mapped_within [OF that] that(1) by (simp add: q')
  have l: "l1_off q' i = l1_off q i" for i by (simp add: l1_off_def q')
  have mp: "mapped q' t o1 = mapped q t o1" for t o1 by (simp add: mapped_def q')
  have lu: "l2_users q' m = l2_users q m" for m unfolding l2_users_def l by (simp add: q')
  have d: "data_off q' i j = (if i = i0 \<and> j = j0 then n * ?cs else data_off q i j)"
    if "i < q_l1_size q" "j < l2_count q" for i j
    using e [OF that] no(1) by simp
  have mem: "(i, j) \<in> data_users q' m \<longleftrightarrow> i < q_l1_size q \<and> j < l2_count q \<and> data_off q' i j \<noteq> 0 \<and> data_off q' i j div ?cs = m"
    for i j m
  proof -
    have "q_l1_size q' = q_l1_size q" "q_cluster_size q' = ?cs" by (simp_all add: q')
    then show ?thesis by (simp add: data_users_def)
  qed
  have du: "data_users q' m = (if m = n then {(i0, j0)} else data_users q m - {(i0, j0)})" for m
  proof (cases "m = n")
    case True
    have "x = (i0, j0)" if x: "x \<in> data_users q' n" for x
    proof (rule ccontr)
      assume ne: "x \<noteq> (i0, j0)"
      obtain i j where ij: "x = (i, j)" by (cases x)
      with x have a: "i < q_l1_size q" "j < l2_count q" "data_off q' i j \<noteq> 0" "data_off q' i j div ?cs = n"
        using mem by blast+
      have "data_off q' i j = data_off q i j" using d [OF a(1,2)] ne ij by auto
      with a have "(i, j) \<in> data_users q n" by (simp add: data_users_def)
      with assms(10) show False by simp
    qed
    moreover have "(i0, j0) \<in> data_users q' n"
      using assms(4,5,9) d [OF assms(4,5)] no(4) cs by (simp add: mem)
    ultimately have "data_users q' n = {(i0, j0)}" by blast
    then show ?thesis using True by simp
  next
    case False
    have "(i, j) \<in> data_users q' m \<longleftrightarrow> (i, j) \<in> data_users q m - {(i0, j0)}" for i j
    proof (cases "i < q_l1_size q \<and> j < l2_count q")
      case True
      have "(i, j) \<in> data_users q m \<longleftrightarrow> data_off q i j \<noteq> 0 \<and> data_off q i j div ?cs = m"
        using True by (simp add: data_users_def)
      then show ?thesis using d [of i j] True False no(4) by (auto simp: mem)
    next
      case out: False
      then have "(i, j) \<notin> data_users q m" by (auto simp: data_users_def)
      with out show ?thesis using mem by blast
    qed
    then have "data_users q' m = data_users q m - {(i0, j0)}" by (intro set_eqI) (metis surj_pair)
    then show ?thesis using False by simp
  qed
  have "mapped q 2 (data_off q' i j)" if "i < q_l1_size q" "j < l2_count q" "data_off q' i j \<noteq> 0" for i j
    using that assms(8) l2_entry_mapped(2) [OF assms(3) that(1,2)] d [OF that(1,2)] by (simp split: if_splits)
  moreover have "card (data_users q' m) \<le> q_refs q ! m" if "m < q_host_count q" "q_tags q ! m = 2" for m
  proof (cases "m = n")
    case True
    then show ?thesis using assms(11) by (simp add: du)
  next
    case False
    have "card (data_users q m - {(i0, j0)}) \<le> card (data_users q m)" by (intro card_mono) auto
    moreover have "card (data_users q m) \<le> q_refs q ! m" using that assms(3) by (simp add: qcow_map_def)
    ultimately show ?thesis using False by (simp add: du)
  qed
  moreover have "q_l1_size q' = q_l1_size q" "l2_count q' = l2_count q" "q_host_count q' = q_host_count q"
    "q_tags q' = q_tags q" "q_refs q' = q_refs q" by (simp_all add: q')
  ultimately show "qcow_map q'" using assms(3) by (simp add: qcow_map_def mp l lu)
  show "spare q' (data_off q i0 j0 div ?cs)" if o: "data_off q i0 j0 \<noteq> 0"
  proof -
    let ?m = "data_off q i0 j0 div ?cs"
    note m = l2_entry_mapped(2) [OF assms(3,4,5) o]
    have tag: "q_tags q ! ?m = 2" and hc: "?m < q_host_count q"
      using m mapped_host [OF m struct_base [OF assms(2)]] by (simp_all add: mapped_def)
    have i: "(i0, j0) \<in> data_users q ?m" using assms(4,5) o by (simp add: data_users_def)
    then have "?m \<noteq> n" using assms(10) by auto
    then have "card (data_users q' ?m) < card (data_users q ?m)"
      using i card_Diff1_less [of "data_users q ?m" "(i0, j0)"] by (simp add: du)
    also have "\<dots> \<le> q_refs q ! ?m" using mapped_count(2) [OF assms(3) struct_base [OF assms(2)] m] .
    finally show ?thesis using tag hc by (simp add: spare_def guest_tag_def) (simp add: q')
  qed
qed

section \<open>Writing one cluster\<close>

lemma disk_overlay:
  assumes "qcow_base q" and "q_raw q' = q_raw q" and "q_size q' = q_size q" and "pos + length bs \<le> q_size q"
    and "\<And>p. p < q_size q \<Longrightarrow> qcow_byte pdisk q' p =
      (if pos \<le> p \<and> p < pos + length bs then bs ! (p - pos) else qcow_byte pdisk q p)"
  shows "qcow_disk pdisk q' = overlay pos bs (qcow_disk pdisk q)"
proof (rule nth_equalityI)
  have r: "\<not> q_raw q" using assms(1) by (simp add: qcow_base_def)
  have len: "length (qcow_disk pdisk q) = q_size q" using r by (simp add: qcow_disk_def)
  show "length (qcow_disk pdisk q') = length (overlay pos bs (qcow_disk pdisk q))"
    using r assms(2-4) len by (simp add: qcow_disk_def)
  fix p assume "p < length (qcow_disk pdisk q')"
  then have p: "p < q_size q" using r assms(2,3) by (simp add: qcow_disk_def)
  then show "qcow_disk pdisk q' ! p = overlay pos bs (qcow_disk pdisk q) ! p"
    using assms(2-5) r len by (simp add: nth_overlay) (simp add: qcow_disk_def)
qed

text \<open>The byte at a position of the guest, by the entry of its cluster.\<close>

lemma qcow_byte_entry:
  assumes "p div q_cluster_size q = g" and "g div l2_count q = i" and "g mod l2_count q = j"
  shows "qcow_byte pdisk q p = (if l2_entry q i j AND QCOW_ZERO \<noteq> 0 then 0
    else if data_off q i j \<noteq> 0 then content (q_fd q) ! (data_off q i j + p mod q_cluster_size q)
    else qcow_parent_byte pdisk q p)"
  using assms by (simp add: qcow_byte_def Let_def)

lemma same_guest_cluster:
  fixes a b m :: nat
  shows "a div m = b div m \<Longrightarrow> a mod m = b mod m \<Longrightarrow> a = b"
  by (metis mult_div_mod_eq)

text \<open>The guest cluster \<open>(i0, j0)\<close> has got the host cluster \<open>n\<close>; the rest of the disk is the same.\<close>

lemma switched_byte:
  assumes "qcow_struct q" and "qcow_map q" and "q_cluster_size q' = q_cluster_size q" and "q_parent q' = q_parent q"
    and "\<And>i j. i < q_l1_size q \<Longrightarrow> j < l2_count q \<Longrightarrow> l2_entry q' i j = (if i = i0 \<and> j = j0 then v else l2_entry q i j)"
    and "\<And>off t. mapped q 2 off \<Longrightarrow> t < q_cluster_size q \<Longrightarrow> content (q_fd q') ! (off + t) = content (q_fd q) ! (off + t)"
    and "v AND QCOW_ZERO = 0" and "v AND QCOW_OFFSET \<noteq> 0" and "mapped q 2 (v AND QCOW_OFFSET)"
    and "g div l2_count q = i0" and "g mod l2_count q = j0" and "p < q_size q"
  shows "qcow_byte pdisk q' p = (if p div q_cluster_size q = g
    then content (q_fd q) ! ((v AND QCOW_OFFSET) + p mod q_cluster_size q) else qcow_byte pdisk q p)"
proof -
  let ?cs = "q_cluster_size q"
  let ?i = "p div ?cs div l2_count q" and ?j = "p div ?cs mod l2_count q"
  note ij = guest_index [OF struct_base [OF assms(1)] assms(12)]
  have cs: "0 < ?cs" using assms(1) by (simp add: struct_defs)
  have t: "p mod ?cs < ?cs" using cs by simp
  have b': "qcow_byte pdisk q' p = (if l2_entry q' ?i ?j AND QCOW_ZERO \<noteq> 0 then 0
    else if data_off q' ?i ?j \<noteq> 0 then content (q_fd q') ! (data_off q' ?i ?j + p mod ?cs)
    else qcow_parent_byte pdisk q' p)"
    using qcow_byte_entry [of p q' "p div ?cs" ?i ?j pdisk] assms(3) by simp
  show ?thesis
  proof (cases "p div ?cs = g")
    case True
    with assms(10,11) have "l2_entry q' ?i ?j = v" using assms(5) [OF ij] by simp
    then show ?thesis using True b' assms(7,8) assms(6) [OF assms(9) t] by simp
  next
    case False
    have ne: "\<not> (?i = i0 \<and> ?j = j0)" using False assms(10,11) same_guest_cluster [of "p div ?cs" "l2_count q" g] by auto
    then have e: "l2_entry q' ?i ?j = l2_entry q ?i ?j" using assms(5) [OF ij] by argo
    have "qcow_parent_byte pdisk q' p = qcow_parent_byte pdisk q p" by (simp add: qcow_parent_byte_def assms(4))
    moreover have "data_off q ?i ?j \<noteq> 0 \<Longrightarrow> content (q_fd q') ! (data_off q ?i ?j + p mod ?cs) = content (q_fd q) ! (data_off q ?i ?j + p mod ?cs)"
      using assms(6) [OF l2_entry_mapped(2) [OF assms(2) ij] t] .
    ultimately show ?thesis using False b' e qcow_byte_entry [of p q "p div ?cs" ?i ?j pdisk] by simp
  qed
qed

end
