(* ===== verification/Qcow2_Write.thy ===== *)
theory Qcow2_Write
  imports Qcow2_Map
begin

text \<open>
  Writing to a qcow2 layer: the invariant \<open>qcow_ok\<close> of a layer with sound tables, one cluster of a
  write in each of its cases, the loop, and the theorem that a write that succeeds changes the disk of
  the guest by exactly its bytes.
\<close>

section \<open>A layer with sound tables\<close>

definition qcow_ok :: "('p \<Rightarrow> bool) \<Rightarrow> 'p qcow \<Rightarrow> bool" where
  "qcow_ok linv q \<longleftrightarrow> qcow_struct q \<and> qcow_map q \<and> (\<forall>d. q_parent q = Some d \<longrightarrow> linv d)"

lemma qcow_ok_readable: "qcow_ok linv q \<Longrightarrow> qcow_readable linv q"
proof -
  assume ok: "qcow_ok linv q"
  then have s: "qcow_struct q" by (simp add: qcow_ok_def)
  have "q_file_size q < 2 ^ 63" using struct_file_size [OF s] by simp
  moreover have "q_size q < 2 ^ 63" "\<not> q_raw q" "0 < q_cluster_size q" using s by (simp_all add: struct_defs)
  ultimately show ?thesis using ok by (simp add: qcow_ok_def qcow_readable_def)
qed

text \<open>Another descriptor with the same bytes, and another parent.\<close>

lemma swapped_file:
  fixes q :: "'p qcow" and d :: "'p option"
  assumes "content f = content (q_fd q)"
  defines "q' \<equiv> q\<lparr>q_fd := f, q_parent := d\<rparr>"
  shows "l1_off q' i = l1_off q i" and "l2_entry q' i j = l2_entry q i j" and "l2_users q' n = l2_users q n"
    and "qcow_struct q' = qcow_struct q" and "qcow_map q' = qcow_map q"
proof -
  have l: "l1_off q' i = l1_off q i" for i by (simp add: l1_off_def q'_def)
  have e: "l2_entry q' i j = l2_entry q i j" for i j unfolding l2_entry_def l by (simp add: q'_def assms(1))
  have lu: "l2_users q' n = l2_users q n" for n unfolding l2_users_def l by (simp add: q'_def)
  have du: "data_users q' n = data_users q n" for n unfolding data_users_def e by (simp add: q'_def)
  have mp: "mapped q' t o1 = mapped q t o1" for t o1 by (simp add: mapped_def q'_def)
  have h: "hidden q' o1 m = hidden q o1 m" for o1 m by (simp add: hidden_def guest_tag_def q'_def)
  show "l1_off q' i = l1_off q i" "l2_entry q' i j = l2_entry q i j" "l2_users q' n = l2_users q n" by (rule l e lu)+
  show "qcow_struct q' = qcow_struct q" unfolding struct_defs h by (simp add: q'_def assms(1))
  show "qcow_map q' = qcow_map q" unfolding qcow_map_def mp l e lu du by (simp add: q'_def)
qed

lemma reads_ok:
  assumes "reads_from pdisk psize linv q q'" and "qcow_ok linv q"
  shows "qcow_ok linv q'" and "l1_off q' i = l1_off q i" and "l2_entry q' i j = l2_entry q i j"
    and "l2_users q' n = l2_users q n" and "q_host_count q' = q_host_count q" and "q_l1_size q' = q_l1_size q"
proof -
  from assms(1) obtain f d where q': "q' = q\<lparr>q_fd := f, q_parent := d\<rparr>" and c: "content f = content (q_fd q)"
    and d: "same_parent pdisk psize linv (q_parent q) d" unfolding reads_from_def by blast
  note s = swapped_file [OF c, of d, folded q']
  show "l1_off q' i = l1_off q i" "l2_entry q' i j = l2_entry q i j" "l2_users q' n = l2_users q n" by (rule s)+
  show "q_host_count q' = q_host_count q" "q_l1_size q' = q_l1_size q" by (simp_all add: q')
  have "\<forall>a. q_parent q' = Some a \<longrightarrow> linv a"
    using assms(2) d by (cases "q_parent q") (auto simp: q' same_parent_def qcow_ok_def)
  then show "qcow_ok linv q'" using assms(2) s(4,5) by (simp add: qcow_ok_def)
qed

lemma spare_carries:
  assumes "spare q n" and "carries {} q q'" and "qcow_struct q" and "qcow_map q"
  shows "spare q' n"
proof -
  have n: "n < q_host_count q" "guest_tag q n" using assms(1) by (simp_all add: spare_def)
  with assms(2) have "q_tags q' ! n = q_tags q ! n \<and> q_refs q' ! n = q_refs q ! n" unfolding carries_def by blast
  moreover have "n < q_host_count q'" using n assms(2) by (simp add: carries_def)
  ultimately show ?thesis
    using assms(1) same_users [OF carries_view(2,3) [OF assms(3,4,2)]] by (simp add: spare_def guest_tag_def)
qed

text \<open>Positions of a write inside one cluster.\<close>

lemma in_chunk:
  fixes cs pos p len :: nat
  assumes "len \<le> cs - pos mod cs" and "0 < cs" and "p div cs = pos div cs"
  shows "pos \<le> p \<and> p < pos + len \<longleftrightarrow> pos mod cs \<le> p mod cs \<and> p mod cs < pos mod cs + len"
    and "p - pos = p mod cs - pos mod cs" and "p = pos div cs * cs + p mod cs"
proof -
  have a: "pos = cs * (pos div cs) + pos mod cs" "p = cs * (pos div cs) + p mod cs"
    using assms(3) mult_div_mod_eq [of cs pos] mult_div_mod_eq [of cs p] by simp_all
  have c: "pos div cs * cs = cs * (pos div cs)" by simp
  show "pos \<le> p \<and> p < pos + len \<longleftrightarrow> pos mod cs \<le> p mod cs \<and> p mod cs < pos mod cs + len"
    "p - pos = p mod cs - pos mod cs" "p = pos div cs * cs + p mod cs" using a unfolding c by linarith+
qed

context layer
begin

lemma chunk_cluster:
  fixes cs pos p len :: nat
  assumes "len \<le> cs - pos mod cs" and "0 < cs" and "pos \<le> p" and "p < pos + len"
  shows "p div cs = pos div cs"
  using cluster_positions [of "p - pos" len cs pos] assms by simp

lemma write_new_cluster:
  assumes "allocate_cluster block 2 q3 = (Inr off, q4)"
    and "write_u64 (l1_off q3 i0 + j0 * 8) (off OR QCOW_COPIED) q4 = (Inr (), q5)"
    and "sync_fd q5 = (Inr (), q6)"
    and "(if data_off q3 i0 j0 \<noteq> 0 then drop_reference (data_off q3 i0 j0) else ret ()) q6 = (Inr u, q')"
    and "qcow_ok linv q3" and "i0 < q_l1_size q3" and "j0 < l2_count q3" and "l1_off q3 i0 \<noteq> 0"
    and "l2_users q3 (l1_off q3 i0 div q_cluster_size q3) = {i0}" and "length block = q_cluster_size q3"
    and "g div l2_count q3 = i0" and "g mod l2_count q3 = j0"
  shows "qcow_ok linv q' \<and> q_size q' = q_size q3 \<and> q_cluster_size q' = q_cluster_size q3 \<and>
    (\<forall>p < q_size q3. qcow_byte disk q' p =
      (if p div q_cluster_size q3 = g then block ! (p mod q_cluster_size q3) else qcow_byte disk q3 p))"
proof -
  let ?cs = "q_cluster_size q3"
  have s3: "qcow_struct q3" "qcow_map q3" using assms(5) by (simp_all add: qcow_ok_def)
  have cs: "0 < ?cs" using s3 by (simp add: struct_defs)
  from allocate_cluster_effect [OF assms(1) s3(1) assms(10)] obtain n where
    n: "qcow_struct q4" "carries {} q3 q4" "off = n * ?cs" "q_host_count q3 \<le> n" "n < q_host_count q4" "q_tags q4 ! n = 2"
      "q_refs q4 ! n = 1" "off + ?cs \<le> q_file_size q4" "bytes_at off ?cs (content (q_fd q4)) = block" by blast
  note v4 = carries_view [OF s3 n(2)]
  have f4: "q_l1_size q4 = q_l1_size q3" "q_cluster_size q4 = ?cs" "q_size q4 = q_size q3" "q_parent q4 = q_parent q3"
    "l1_off q4 i0 = l1_off q3 i0"
    using v4 assms(6) by (simp_all add: same_view_def same_l1_def)
  have off: "off = n * q_cluster_size q4" using n(3) f4 by simp
  have m4: "mapped q4 2 (n * q_cluster_size q4)" using n cs by (simp add: mapped_def f4)
  have n0: "n \<noteq> 0" using n(4) s3 cs by (auto simp: struct_defs hidden_def intro!: gr0I)
  have us: "l2_users q4 (l1_off q4 i0 div q_cluster_size q4) = {i0}" "data_users q4 n = {}"
    using assms(9) same_users [OF v4(2,3)] users_old(2) [OF struct_base [OF s3(1)] s3(2) n(4)] by (simp_all add: f4)
  have w: "write_u64 (l1_off q4 i0 + j0 * 8) (n * q_cluster_size q4 OR QCOW_COPIED) q4 = (Inr (), q5)"
    using assms(2) off f4 by simp
  have j4: "j0 < l2_count q4" and i4: "i0 < q_l1_size q4" and l4: "l1_off q4 i0 \<noteq> 0" and r4: "1 \<le> q_refs q4 ! n"
    using assms(6-8) f4 n by simp_all
  note ds = data_switch [OF w n(1) v4(1) i4 j4 l4 us(1) m4 n0 us(2) r4]
  have o6: "qcow_struct q6" "carries {} q5 q6" using okatD [OF sync_fd_okat [OF ds(1), of "{}"] assms(3)] by blast+
  note v6 = carries_view [OF ds(1,2) o6(2)]
  have cs5: "q_cluster_size q5 = ?cs" "q_size q5 = q_size q3" "q_parent q5 = q_parent q3" using ds(3) f4 by auto
  have d43: "data_off q4 i0 j0 = data_off q3 i0 j0" using v4(2) assms(6,7) by (simp add: same_view_def)
  have "silent q6 q'"
  proof (cases "data_off q3 i0 j0 = 0")
    case True
    with assms(4) silent_refl [OF o6(1) v6(1)] show ?thesis by (simp add: ret_def)
  next
    case False
    have "spare q5 (data_off q3 i0 j0 div ?cs)" using ds(6) d43 False f4 by simp
    from spare_carries [OF this o6(2) ds(1,2)] v6(2) cs5 have "spare q6 (data_off q3 i0 j0 div q_cluster_size q6)"
      by (simp add: same_view_def)
    with assms(4) False show ?thesis by (intro drop_reference_silent [OF _ o6(1) v6(1)]) simp_all
  qed
  note s6 = this
  note d6 = silentD [OF s6]
  have v5: "same_view q5 q'" using same_view_trans [OF v6(2) d6(3)] .
  have flds: "q_size q' = q_size q3" "q_cluster_size q' = ?cs" "q_parent q' = q_parent q3"
    using v5 cs5 by (simp_all add: same_view_def)
  have par: "\<forall>d. q_parent q' = Some d \<longrightarrow> linv d" using assms(5) flds by (simp add: qcow_ok_def)
  have byte: "qcow_byte disk q' p = (if p div ?cs = g then block ! (p mod ?cs) else qcow_byte disk q3 p)" if p: "p < q_size q3" for p
  proof -
    note no = new_offset [OF n(1) m4]
    have "qcow_byte disk q' p = qcow_byte disk q5 p"
      using same_view_byte [OF v5 struct_base [OF ds(1)]] p cs5 by simp
    also have "\<dots> = (if p div q_cluster_size q4 = g
      then content (q_fd q4) ! (((n * q_cluster_size q4 OR QCOW_COPIED) AND QCOW_OFFSET) + p mod q_cluster_size q4) else qcow_byte disk q4 p)"
    proof (rule switched_byte [OF n(1) v4(1), of q5 i0 j0])
      show "q_cluster_size q5 = q_cluster_size q4" "q_parent q5 = q_parent q4" using cs5 f4 by simp_all
      show "(n * q_cluster_size q4 OR QCOW_COPIED) AND QCOW_ZERO = 0" "(n * q_cluster_size q4 OR QCOW_COPIED) AND QCOW_OFFSET \<noteq> 0"
        "mapped q4 2 ((n * q_cluster_size q4 OR QCOW_COPIED) AND QCOW_OFFSET)"
        using no n0 cs m4 f4 by simp_all
      show "g div l2_count q4 = i0" "g mod l2_count q4 = j0" "p < q_size q4" using assms(11,12) f4 p by simp_all
    qed (use ds(4,5) in simp_all)
    also have "\<dots> = (if p div ?cs = g then block ! (p mod ?cs) else qcow_byte disk q3 p)"
    proof -
      have "content (q_fd q4) ! (off + p mod ?cs) = block ! (p mod ?cs)"
        using nth_of_bytes_at [OF n(9) assms(10)] cs by simp
      moreover have "qcow_byte disk q4 p = qcow_byte disk q3 p" using same_view_byte [OF v4(2) struct_base [OF s3(1)] p] .
      ultimately show ?thesis using no(1) off f4 by simp
    qed
    finally show ?thesis .
  qed
  show ?thesis using d6(1,2) par flds byte by (simp add: qcow_ok_def)
qed

end

context layer
begin

text \<open>The state after the table was made writable and the entry was read.\<close>

lemma chunk_prepared:
  assumes "writable_l2 i0 q = (Inr l2, q1)" and "read_u64 (l2 + j0 * 8) q1 = (Inr v, q2)"
    and "qcow_ok linv q" and "i0 < q_l1_size q" and "j0 < l2_count q"
  shows "qcow_ok linv q2" and "same_view q q2" and "l1_off q2 i0 = l2" and "l2 \<noteq> 0"
    and "l2_users q2 (l2 div q_cluster_size q2) = {i0}" and "v = l2_entry q2 i0 j0"
proof -
  have s: "qcow_struct q" "qcow_map q" using assms(3) by (simp_all add: qcow_ok_def)
  from writable_l2_effect [OF assms(1) s assms(4)] have w: "qcow_struct q1" "qcow_map q1" "same_view q q1" "l1_off q1 i0 = l2"
    "l2 \<noteq> 0" "l2_users q1 (l2 div q_cluster_size q) = {i0}" by blast+
  obtain f where q2: "q2 = q1\<lparr>q_fd := f\<rparr>" and f: "content f = content (q_fd q1)" and v: "v = read_be64 (content (q_fd q1)) (l2 + j0 * 8)"
    using read_u64_Inr [OF assms(2) struct_known [OF w(1)]] by blast
  have s2: "silent q1 q2" unfolding q2 using same_content_silent [OF w(1,2) f] .
  note d = silentD [OF s2]
  show v2: "same_view q q2" using same_view_trans [OF w(3) d(3)] .
  have fl: "q_l1_size q1 = q_l1_size q" "q_cluster_size q2 = q_cluster_size q" using w(3) v2 by (simp_all add: same_view_def)
  show l: "l1_off q2 i0 = l2" using d(7) [of i0] w(4) assms(4) fl by simp
  show "l2 \<noteq> 0" by (rule w(5))
  show "l2_users q2 (l2 div q_cluster_size q2) = {i0}" using same_users(1) [OF d(3,4)] w(6) fl by simp
  show "v = l2_entry q2 i0 j0" using v l w(5) by (simp add: l2_entry_def q2 f)
  have "q_parent q2 = q_parent q" using v2 by (simp add: same_view_def)
  then show "qcow_ok linv q2" using d(1,2) assms(3) by (simp add: qcow_ok_def)
qed

text \<open>In place: the cluster has one reference, from the entry that is written through.\<close>

lemma write_in_place:
  assumes "write_at bs (data_off q i0 j0 + w) q = (Inr u, q')" and "qcow_ok linv q"
    and "i0 < q_l1_size q" and "j0 < l2_count q" and "data_off q i0 j0 \<noteq> 0" and "l2_entry q i0 j0 AND QCOW_ZERO = 0"
    and "q_refs q ! (data_off q i0 j0 div q_cluster_size q) = 1" and "w + length bs \<le> q_cluster_size q" and "bs \<noteq> []"
    and "g div l2_count q = i0" and "g mod l2_count q = j0"
  shows "qcow_ok linv q' \<and> q_size q' = q_size q \<and> q_cluster_size q' = q_cluster_size q \<and>
    (\<forall>p < q_size q. qcow_byte disk q' p =
      (if p div q_cluster_size q = g \<and> w \<le> p mod q_cluster_size q \<and> p mod q_cluster_size q < w + length bs
       then bs ! (p mod q_cluster_size q - w) else qcow_byte disk q p))"
proof -
  let ?cs = "q_cluster_size q" and ?o = "data_off q i0 j0"
  let ?n = "?o div ?cs"
  have s: "qcow_struct q" "qcow_map q" using assms(2) by (simp_all add: qcow_ok_def)
  have cs: "0 < ?cs" using s by (simp add: struct_defs)
  note m = l2_entry_mapped(2) [OF s(2) assms(3,4,5)]
  note fs = struct_file_size [OF s(1)]
  have inside: "?o + w + length bs \<le> q_file_size q" using m assms(8) by (simp add: mapped_def)
  obtain f where q': "q' = q\<lparr>q_fd := f\<rparr>" and f: "content f = overlay (?o + w) bs (content (q_fd q))"
    using write_at_effect [OF assms(1) inside s(1)] by blast
  have near: "k div ?cs = ?n" if "?o + w \<le> k" "k < ?o + w + length bs" for k
    using mapped_within(1) [OF m, of "k - ?o"] that assms(8) by simp
  have same: "content f ! k = content (q_fd q) ! k" if "k < q_file_size q" "k < ?o + w \<or> ?o + w + length bs \<le> k" for k
    using that inside fs by (auto simp: f nth_overlay)
  have o: "okat {?n} (write_at bs (?o + w)) q"
    using near inside s(1) by (intro write_at_okat) simp_all
  from okatD [OF o assms(1)] have st: "qcow_struct q'" "carries {?n} q q'" by blast+
  have one: "data_users q ?n = {(i0, j0)}"
  proof (rule only_user)
    show "card (data_users q ?n) \<le> Suc 0" using mapped_count(2) [OF s(2) struct_base [OF s(1)] m] assms(7) by simp
    show "(i0, j0) \<in> data_users q ?n" using assms(3-5) by (simp add: data_users_def)
  qed simp
  have l: "l1_off q' i = l1_off q i" for i by (simp add: l1_off_def q')
  have tag: "q_tags q ! ?n = 2" using m by (simp add: mapped_def)
  have e: "l2_entry q' i j = l2_entry q i j" if "i < q_l1_size q" "j < l2_count q" for i j
  proof (rule carries_entry [OF s st(2) that])
    assume "l1_off q i \<noteq> 0"
    from l2_entry_mapped(1) [OF s(2) that(1) this] tag show "l1_off q i div ?cs \<notin> {?n}" by (auto simp: mapped_def)
  qed
  have mp: "mapped q' t o1 = mapped q t o1" for t o1 by (simp add: mapped_def q')
  have lu: "l2_users q' n = l2_users q n" for n unfolding l2_users_def l by (simp add: q')
  have fl: "q_l1_size q' = q_l1_size q" "q_cluster_size q' = ?cs" "q_host_count q' = q_host_count q" "q_tags q' = q_tags q"
    "q_refs q' = q_refs q" "q_size q' = q_size q" "q_parent q' = q_parent q" "q_fd q' = f" by (simp_all add: q')
  have du: "data_users q' n = data_users q n" for n using e by (auto simp: data_users_def fl)
  have "qcow_map q'" using s(2) e by (simp add: qcow_map_def mp l lu du fl)
  then have ok: "qcow_ok linv q'" using st(1) assms(2) by (simp add: qcow_ok_def fl)
  have byte: "qcow_byte disk q' p = (if p div ?cs = g \<and> w \<le> p mod ?cs \<and> p mod ?cs < w + length bs
       then bs ! (p mod ?cs - w) else qcow_byte disk q p)" if p: "p < q_size q" for p
  proof -
    let ?i = "p div ?cs div l2_count q" and ?j = "p div ?cs mod l2_count q"
    note ij = guest_index [OF struct_base [OF s(1)] p]
    have t: "p mod ?cs < ?cs" using cs by simp
    have pb: "qcow_parent_byte disk q' p = qcow_parent_byte disk q p" by (simp add: qcow_parent_byte_def fl)
    note b = qcow_byte_entry [of p q "p div ?cs" ?i ?j disk, simplified]
    have b': "qcow_byte disk q' p = (if l2_entry q ?i ?j AND QCOW_ZERO \<noteq> 0 then 0
      else if data_off q ?i ?j \<noteq> 0 then content f ! (data_off q ?i ?j + p mod ?cs) else qcow_parent_byte disk q p)"
      using qcow_byte_entry [of p q' "p div ?cs" ?i ?j disk] e [OF ij] by (simp add: fl pb)
    show ?thesis
    proof (cases "p div ?cs = g")
      case True
      have bq: "qcow_byte disk q p = content (q_fd q) ! (?o + p mod ?cs)"
        using qcow_byte_entry [OF True assms(10,11)] assms(5,6) by simp
      have bq': "qcow_byte disk q' p = content f ! (?o + p mod ?cs)"
        using qcow_byte_entry [of p q' g i0 j0 disk] True assms(5,6,10,11) e [OF assms(3,4)] by (simp add: fl)
      have k: "?o + p mod ?cs < length (content (q_fd q))" using mapped_within(2) [OF m t] fs by simp
      have "content f ! (?o + p mod ?cs) = (if w \<le> p mod ?cs \<and> p mod ?cs < w + length bs then bs ! (p mod ?cs - w)
        else content (q_fd q) ! (?o + p mod ?cs))"
        using k inside fs by (simp add: f nth_overlay)
      then show ?thesis using True bq bq' by simp
    next
      case False
      have ne: "(?i, ?j) \<noteq> (i0, j0)" using False assms(10,11) same_guest_cluster [of "p div ?cs" "l2_count q" g] by auto
      have "content f ! (data_off q ?i ?j + p mod ?cs) = content (q_fd q) ! (data_off q ?i ?j + p mod ?cs)"
        if o2: "data_off q ?i ?j \<noteq> 0"
      proof (rule same)
        note m2 = l2_entry_mapped(2) [OF s(2) ij o2]
        show "data_off q ?i ?j + p mod ?cs < q_file_size q" using mapped_within(2) [OF m2 t] .
        have "(?i, ?j) \<notin> data_users q ?n" using one ne by simp
        then have "data_off q ?i ?j div ?cs \<noteq> ?n" using ij o2 by (simp add: data_users_def)
        with mapped_within(1) [OF m2 t] near [of "data_off q ?i ?j + p mod ?cs"]
        show "data_off q ?i ?j + p mod ?cs < ?o + w \<or> ?o + w + length bs \<le> data_off q ?i ?j + p mod ?cs" by force
      qed
      then show ?thesis using False b b' by simp
    qed
  qed
  with ok fl show ?thesis by simp
qed

lemma write_chunk_effect:
  assumes "qcow_write_chunk rd sz bs pos q = (Inr u, q')" and "qcow_ok linv q" and "bs \<noteq> []"
    and "length bs \<le> q_cluster_size q - pos mod q_cluster_size q" and "pos + length bs \<le> q_size q"
  shows "qcow_ok linv q' \<and> q_size q' = q_size q \<and> q_cluster_size q' = q_cluster_size q \<and>
    qcow_disk disk q' = overlay pos bs (qcow_disk disk q)"
proof -
  let ?cs = "q_cluster_size q"
  let ?g = "pos div ?cs" and ?w = "pos mod ?cs"
  let ?i = "?g div l2_count q" and ?j = "?g mod l2_count q"
  have s: "qcow_struct q" "qcow_map q" using assms(2) by (simp_all add: qcow_ok_def)
  have cs: "0 < ?cs" using s by (simp add: struct_defs)
  have "pos < q_size q" using assms(3,5) by (cases bs) simp_all
  note ij = guest_index [OF struct_base [OF s(1)] this]
  from assms(1) obtain l2 q1 v q2 where w: "writable_l2 ?i q = (Inr l2, q1)" and r: "read_u64 (l2 + ?j * 8) q1 = (Inr v, q2)"
    and rest: "(let data = v AND QCOW_OFFSET; inherited = min (q_size q2 - ?g * q_cluster_size q2) (q_cluster_size q2) in
     if data = 0 \<or> v AND QCOW_ZERO \<noteq> 0 \<or> q_refs q2 ! (data div q_cluster_size q2) \<noteq> 1
     then bind_io (qcow_read rd sz inherited (int (?g * q_cluster_size q2))) (\<lambda>old.
       bind_io (allocate_cluster (overlay ?w bs (old @ replicate (q_cluster_size q2 - inherited) 0)) 2) (\<lambda>off.
       bind_io (bind_io (write_u64 (l2 + ?j * 8) (off OR QCOW_COPIED)) (\<lambda>_. sync_fd)) (\<lambda>_.
       if data \<noteq> 0 then drop_reference data else ret ())))
     else write_at bs (data + ?w)) q2 = (Inr u, q')"
    unfolding qcow_write_chunk_def bind_io_Inr [of get_io] get_io_def Let_def
    by (auto simp: bind_io_Inr get_io_def)
  note pr = chunk_prepared [OF w r assms(2) ij]
  have f2: "q_size q2 = q_size q" "q_cluster_size q2 = ?cs" "q_l1_size q2 = q_l1_size q" "q_raw q2 = q_raw q"
    using pr(2) by (simp_all add: same_view_def)
  have s2: "qcow_struct q2" "qcow_map q2" using pr(1) by (simp_all add: qcow_ok_def)
  have byte2: "qcow_byte disk q2 p = qcow_byte disk q p" if "p < q_size q" for p
    using same_view_byte [OF pr(2) struct_base [OF s(1)] that] .
  have ij2: "?i < q_l1_size q2" "?j < l2_count q2" using ij f2 by simp_all
  have key: ?thesis if ok: "qcow_ok linv q'" and sz': "q_size q' = q_size q" "q_cluster_size q' = ?cs"
    and b: "\<And>p. p < q_size q \<Longrightarrow> qcow_byte disk q' p =
      (if p div ?cs = ?g \<and> ?w \<le> p mod ?cs \<and> p mod ?cs < ?w + length bs then bs ! (p mod ?cs - ?w) else qcow_byte disk q p)"
  proof -
    have raw: "q_raw q' = q_raw q" using ok s(1) by (simp add: qcow_ok_def struct_defs)
    have "qcow_disk disk q' = overlay pos bs (qcow_disk disk q)"
    proof (rule disk_overlay [OF struct_base [OF s(1)] raw sz'(1) assms(5)])
      fix p assume p: "p < q_size q"
      show "qcow_byte disk q' p = (if pos \<le> p \<and> p < pos + length bs then bs ! (p - pos) else qcow_byte disk q p)"
      proof (cases "p div ?cs = ?g")
        case True
        show ?thesis using b [OF p] True in_chunk [OF assms(4) cs True] by simp
      next
        case False
        then have "\<not> (pos \<le> p \<and> p < pos + length bs)" using chunk_cluster [OF assms(4) cs] by blast
        then show ?thesis using b [OF p] False by auto
      qed
    qed
    with ok sz' show ?thesis by simp
  qed
  show ?thesis
  proof (cases "v AND QCOW_OFFSET = 0 \<or> v AND QCOW_ZERO \<noteq> 0 \<or> q_refs q2 ! ((v AND QCOW_OFFSET) div ?cs) \<noteq> 1")
    case False
    with rest have wa: "write_at bs (data_off q2 ?i ?j + ?w) q2 = (Inr u, q')" by (simp add: pr(6) f2)
    have "?w + length bs \<le> q_cluster_size q2" using assms(4) mod_less_divisor [OF cs, of pos] f2 by simp
    from write_in_place [OF wa pr(1) ij2 _ _ _ this assms(3), of ?g] False
    have "qcow_ok linv q' \<and> q_size q' = q_size q \<and> q_cluster_size q' = ?cs \<and>
    (\<forall>p < q_size q. qcow_byte disk q' p =
      (if p div ?cs = ?g \<and> ?w \<le> p mod ?cs \<and> p mod ?cs < ?w + length bs
       then bs ! (p mod ?cs - ?w) else qcow_byte disk q2 p))" by (simp add: pr(6) f2)
    with byte2 show ?thesis by (intro key) auto
  next
    case True
    let ?inh = "min (q_size q - ?g * ?cs) ?cs"
    from rest True obtain old q3 off q4 q5 q6 where
      qr: "qcow_read rd sz ?inh (int (?g * ?cs)) q2 = (Inr old, q3)"
      and al: "allocate_cluster (overlay ?w bs (old @ replicate (?cs - ?inh) 0)) 2 q3 = (Inr off, q4)"
      and wr: "write_u64 (l2 + ?j * 8) (off OR QCOW_COPIED) q4 = (Inr (), q5)" and sy: "sync_fd q5 = (Inr (), q6)"
      and dr: "(if v AND QCOW_OFFSET \<noteq> 0 then drop_reference (v AND QCOW_OFFSET) else ret ()) q6 = (Inr u, q')"
      unfolding Let_def f2 by (auto simp: bind_io_Inr)
    from qcow_read_reads [OF qr qcow_ok_readable [OF pr(1)]] have rf: "reads q2 q3"
      and old: "?g * ?cs + ?inh \<le> q_size q" "old = bytes_at (?g * ?cs) ?inh (qcow_disk disk q2)"
      unfolding f2 nat_int by blast+
    note r3 = reads_ok [OF rf pr(1)] and rv = reads_from_view [OF rf]
    let ?block = "overlay ?w bs (old @ replicate (?cs - ?inh) 0)"
    have raw2: "\<not> q_raw q2" using s2 by (simp add: struct_defs)
    have oldl: "length old = ?inh" using old raw2 by (simp add: qcow_disk_def f2)
    have ol: "length (old @ replicate (?cs - ?inh) 0) = ?cs" using oldl by simp
    have wl: "?w + length bs \<le> ?cs" using assms(4) mod_less_divisor [OF cs, of pos] by simp
    have bl: "length ?block = q_cluster_size q3" using ol wl rv(4) f2 by simp
    have e3: "l1_off q3 ?i = l2" "data_off q3 ?i ?j = v AND QCOW_OFFSET" using r3(2,3) pr(3,6) by simp_all
    have "qcow_ok linv q' \<and> q_size q' = q_size q3 \<and> q_cluster_size q' = q_cluster_size q3 \<and>
      (\<forall>p < q_size q3. qcow_byte disk q' p =
        (if p div q_cluster_size q3 = ?g then ?block ! (p mod q_cluster_size q3) else qcow_byte disk q3 p))"
    proof (rule write_new_cluster [OF al _ sy _ r3(1), where ?i0.0 = ?i and ?j0.0 = ?j])
      show "write_u64 (l1_off q3 ?i + ?j * 8) (off OR QCOW_COPIED) q4 = (Inr (), q5)" using wr e3 by simp
      show "(if data_off q3 ?i ?j \<noteq> 0 then drop_reference (data_off q3 ?i ?j) else ret ()) q6 = (Inr u, q')" unfolding e3 by (rule dr)
      show "?i < q_l1_size q3" "?j < l2_count q3" using ij2 r3(6) rv(4) by simp_all
      show "l1_off q3 ?i \<noteq> 0" using e3 pr(4) by simp
      show "l2_users q3 (l1_off q3 ?i div q_cluster_size q3) = {?i}" using pr(5) r3(4) e3 rv(4) by simp
      show "length ?block = q_cluster_size q3" by (rule bl)
      show "?g div l2_count q3 = ?i" "?g mod l2_count q3 = ?j" using rv(4) f2 by simp_all
    qed
    then have res: "qcow_ok linv q'" "q_size q' = q_size q" "q_cluster_size q' = ?cs"
      "\<And>p. p < q_size q \<Longrightarrow> qcow_byte disk q' p = (if p div ?cs = ?g then ?block ! (p mod ?cs) else qcow_byte disk q3 p)"
      using rv(3,4) f2 by simp_all
    show ?thesis
    proof (rule key [OF res(1-3)])
      fix p assume p: "p < q_size q"
      have b3: "qcow_byte disk q3 p = qcow_byte disk q p" using rv(8) byte2 [OF p] by simp
      show "qcow_byte disk q' p = (if p div ?cs = ?g \<and> ?w \<le> p mod ?cs \<and> p mod ?cs < ?w + length bs
        then bs ! (p mod ?cs - ?w) else qcow_byte disk q p)"
      proof (cases "p div ?cs = ?g")
        case True
        have pp: "p = ?g * ?cs + p mod ?cs" using True mult_div_mod_eq [of ?cs p] by (simp add: mult.commute)
        have t: "p mod ?cs < ?inh" using pp p cs by (simp add: less_diff_conv2)
        have "old ! (p mod ?cs) = qcow_disk disk q2 ! p"
          using nth_of_bytes_at [OF old(2) [symmetric] oldl t] pp by simp
        also have "\<dots> = qcow_byte disk q p" using raw2 p byte2 f2 by (simp add: qcow_disk_def)
        finally have "(old @ replicate (?cs - ?inh) 0) ! (p mod ?cs) = qcow_byte disk q p" using t oldl by (simp add: nth_append)
        then show ?thesis using res(4) [OF p] True wl ol cs by (simp add: nth_overlay)
      next
        case False
        with res(4) [OF p] b3 show ?thesis by simp
      qed
    qed
  qed
qed

section \<open>Writing any range\<close>

lemma write_loop_effect:
  "qcow_write_loop rd sz bs pos q = (Inr u, q') \<Longrightarrow> qcow_ok linv q \<Longrightarrow> pos + length bs \<le> q_size q \<Longrightarrow>
   qcow_ok linv q' \<and> q_size q' = q_size q \<and> qcow_disk disk q' = overlay pos bs (qcow_disk disk q)"
proof (induction "length bs" arbitrary: bs pos q rule: less_induct)
  case less
  have st: "qcow_struct q" using less.prems(2) by (simp add: qcow_ok_def)
  have cs: "0 < q_cluster_size q" and raw: "\<not> q_raw q" using st by (simp_all add: struct_defs)
  have dl: "length (qcow_disk disk q) = q_size q" using raw by (simp add: qcow_disk_def)
  show ?case
  proof (cases "bs = []")
    case True
    with less.prems(1) have "q' = q" by (simp add: qcow_write_loop.simps [of rd sz "[]"])
    with True less.prems dl show ?thesis by simp
  next
    case False
    let ?k = "min (q_cluster_size q - pos mod q_cluster_size q) (length bs)"
    have k: "0 < ?k" "?k \<le> length bs" using mod_less_divisor [OF cs, of pos] False by simp_all
    from less.prems(1) False cs obtain q1 where c: "qcow_write_chunk rd sz (take ?k bs) pos q = (Inr (), q1)"
      and rest: "qcow_write_loop rd sz (drop ?k bs) (pos + ?k) q1 = (Inr u, q')"
      by (auto simp: qcow_write_loop.simps [of rd sz bs] Let_def split: prod.splits sum.splits)
    have tk: "length (take ?k bs) = ?k" by simp
    have "take ?k bs \<noteq> []" using k False by simp
    from write_chunk_effect [OF c less.prems(2) this] less.prems(3) have e: "qcow_ok linv q1" "q_size q1 = q_size q"
      "qcow_disk disk q1 = overlay pos (take ?k bs) (qcow_disk disk q)" by simp_all
    have "length (drop ?k bs) < length bs" using k False by simp
    from less.hyps [OF this rest e(1)] e(2) less.prems(3) k(2)
    have r: "qcow_ok linv q'" "q_size q' = q_size q1" "qcow_disk disk q' = overlay (pos + ?k) (drop ?k bs) (qcow_disk disk q1)"
      by simp_all
    have "overlay (pos + length (take ?k bs)) (drop ?k bs) (overlay pos (take ?k bs) (qcow_disk disk q))
      = overlay pos (take ?k bs @ drop ?k bs) (qcow_disk disk q)"
      using less.prems(3) dl by (intro overlay_append) simp
    then have "overlay (pos + ?k) (drop ?k bs) (overlay pos (take ?k bs) (qcow_disk disk q)) = overlay pos bs (qcow_disk disk q)"
      unfolding tk append_take_drop_id .
    with r e show ?thesis by simp
  qed
qed

lemma begin_write_okat:
  assumes "qcow_struct q"
  shows "okat X begin_write q"
proof -
  have w: "okat X (write_u64 72 1) q"
    unfolding write_u64_def using struct_hidden(1) [OF assms]
    by (intro write_hidden_okat [OF _ assms]) (auto elim!: hidden_part)
  show ?thesis
    unfolding begin_write_def using assms
    by (auto intro!: okat_rules okat_modify sync_fd_okat w)
qed

lemma qcow_write_effect:
  assumes "qcow_write rd sz bs off q = (Inr u, q')" and "qcow_ok linv q"
  shows "qcow_ok linv q' \<and> 0 \<le> off \<and> nat off + length bs \<le> q_size q \<and> q_size q' = q_size q \<and>
    qcow_disk disk q' = overlay (nat off) bs (qcow_disk disk q)"
proof -
  have s: "qcow_struct q" "qcow_map q" using assms(2) by (simp_all add: qcow_ok_def)
  have dl: "length (qcow_disk disk q) = q_size q" using s by (simp add: qcow_disk_def struct_defs)
  from assms(1) have range: "0 \<le> off" "nat off + length bs \<le> q_size q"
    by (auto simp: qcow_write_def bind_io_def get_io_def fail_def split: if_splits)
  show ?thesis
  proof (cases "bs = []")
    case True
    with assms(1) have "q' = q"
      by (auto simp: qcow_write_def bind_io_def get_io_def fail_def ret_def split: if_splits)
    with True range assms(2) dl show ?thesis by simp
  next
    case False
    with assms(1) obtain q1 q2 where m: "qcow_malloc q = (Inr (), q1)" and b: "begin_write q1 = (Inr (), q2)"
      and l: "qcow_write_loop rd sz bs (nat off) q2 = (Inr u, q')"
      by (auto simp: qcow_write_def bind_io_Inr get_io_def fail_def mark_failed_Inr split: if_splits)
    have s1: "silent q q1" using okat_silent [OF malloc_okat [OF s(1)] s m] .
    have s2: "silent q1 q2" using okat_silent [OF begin_write_okat silentD(1,2) [OF s1] b] silentD(1) [OF s1] by blast
    note s12 = silent_trans [OF s1 s2]
    note d = silentD [OF s12]
    have f: "q_parent q2 = q_parent q" "q_size q2 = q_size q" using d(3) by (simp_all add: same_view_def)
    have ok: "qcow_ok linv q2" using d(1,2) assms(2) f by (simp add: qcow_ok_def)
    have "qcow_disk disk q2 = qcow_disk disk q" using same_view_disk [OF d(3) struct_base [OF s(1)]] .
    with write_loop_effect [OF l ok] range f show ?thesis by simp
  qed
qed

end

text \<open>A write that fails after it began marks the layer, whatever it has done by then.\<close>

lemma mark_failed_Inl: "mark_failed m q = (Inl e, q') \<Longrightarrow> q_failed q'"
  by (auto simp: mark_failed_def split: prod.splits sum.splits)

lemma qcow_write_failed:
  assumes "qcow_write prd psize bs off q = (Inl e, q')"
  shows "q_failed q' \<or> (\<exists>ms. q' = q\<lparr>q_mallocs := ms\<rparr>)"
proof -
  from assms consider "q' = q" | q1 where "qcow_malloc q = (Inl e, q')"
    | q1 where "mark_failed (bind_io begin_write (\<lambda>_. qcow_write_loop prd psize bs (nat off))) q1 = (Inl e, q')"
    by (auto simp: qcow_write_def bind_io_def get_io_def fail_def ret_def split: if_splits prod.splits sum.splits)
  then show ?thesis
    by cases (auto dest: mark_failed_Inl qcow_malloc_frame intro: exI [of _ "q_mallocs q"])
qed

section \<open>Writing is faithful\<close>

text \<open>
  C19. A write to a qcow2 layer with sound tables, on any schedule of transfers, interrupts, errors and
  allocation failures: when it succeeds it lay inside the disk, the tables are sound again, and the disk
  of the guest has changed by exactly the bytes written, through in-place writes, copies of shared or
  inherited clusters and tables, new clusters, and growth of the reference table. When it fails it has
  either changed nothing or marked the layer as failed. Sound counts are those that are not too small; the
  first table and the counts are those of the open layer, not those in the file.
\<close>

theorem qcow_write_correct:
  assumes "layer rd sz disk linv" and "qcow_ok linv q" and "qcow_write rd sz bs off q = (r, q')"
  shows "case r of
      Inr _ \<Rightarrow> qcow_ok linv q' \<and> 0 \<le> off \<and> nat off + length bs \<le> q_size q \<and> q_size q' = q_size q \<and>
        qcow_disk disk q' = overlay (nat off) bs (qcow_disk disk q)
    | Inl _ \<Rightarrow> q_failed q' \<or> (\<exists>ms. q' = q\<lparr>q_mallocs := ms\<rparr>)"
proof (cases r)
  case (Inl e)
  with qcow_write_failed [of rd sz bs off q e q'] assms(3) show ?thesis by simp
next
  case (Inr u)
  with layer.qcow_write_effect [OF assms(1) _ assms(2), of bs off u q'] assms(3) show ?thesis by simp
qed

text \<open>A small file: header, first table, reference table, a table of the second level, one data cluster.\<close>

definition sample_bytes :: "byte list" where
  "sample_bytes = replicate 1536 0 @ be64_bytes (2048 OR QCOW_COPIED) @ replicate 504 0 @ replicate 512 9"

definition sample_layer :: "unit qcow" where
  "sample_layer = \<lparr>q_fd = \<lparr>content = sample_bytes, script = []\<rparr>, q_raw = False, q_writable = True, q_failed = False,
     q_changed = True, q_table_dirty = False, q_table_moved = False, q_version = 3, q_cluster_bits = 9, q_cluster_size = 512,
     q_l1_size = 1, q_ref_clusters = 1, q_size = 4, q_file_size = 2560, q_l1_offset = 512, q_ref_offset = 1024,
     q_l1 = [1536 OR QCOW_COPIED], q_ref_table = replicate 64 0, q_host_count = 5, q_refs = [1, 1, 1, 1, 1],
     q_tags = [1, 1, 1, 3, 2], q_ref_dirty = replicate 64 False, q_parent = None, q_mallocs = []\<rparr>"

lemma sample_layer_fields:
  "q_fd sample_layer = \<lparr>content = sample_bytes, script = []\<rparr>" "q_raw sample_layer = False" "q_writable sample_layer = True"
  "q_failed sample_layer = False" "q_changed sample_layer = True" "q_cluster_size sample_layer = 512" "q_l1_size sample_layer = 1"
  "q_ref_clusters sample_layer = 1" "q_size sample_layer = 4" "q_file_size sample_layer = 2560" "q_l1_offset sample_layer = 512"
  "q_ref_offset sample_layer = 1024" "q_l1 sample_layer = [1536 OR QCOW_COPIED]" "q_ref_table sample_layer = replicate 64 0"
  "q_host_count sample_layer = 5" "q_refs sample_layer = [1, 1, 1, 1, 1]" "q_tags sample_layer = [1, 1, 1, 3, 2]"
  "q_ref_dirty sample_layer = replicate 64 False" "q_parent sample_layer = None" "q_mallocs sample_layer = []"
  by (simp_all add: sample_layer_def)

lemma length_sample_bytes: "length sample_bytes = 2560"
  by (simp add: sample_bytes_def)

lemma sample_l1: "l1_off sample_layer 0 = 1536"
  using aligned_offset(1) [of 1536] by (simp add: l1_off_def sample_layer_fields)

lemma sample_entry: "l2_entry sample_layer 0 j = (if j = 0 then 2048 OR QCOW_COPIED else 0)" if "j < 64"
proof (cases "j = 0")
  case True
  have "read_be64 sample_bytes 1536 = read_be64 (be64_bytes (2048 OR QCOW_COPIED)) 0"
    by (rule read_be64_cong) (simp add: sample_bytes_def nth_append)
  then show ?thesis using True aligned_offset(3) [of 2048] by (simp add: l2_entry_def sample_l1 sample_layer_fields read_be64_bytes)
next
  case False
  have "read_be64 sample_bytes (1536 + j * 8) = read_be64 (replicate 512 0) (j * 8)"
    using False that by (intro read_be64_cong) (simp add: sample_bytes_def nth_append)
  moreover have "read_be64 (replicate 512 0) (j * 8) = 0" using that by (intro read_be64_zeros) simp
  ultimately show ?thesis using False by (simp add: l2_entry_def sample_l1 sample_layer_fields)
qed

lemma sample_data: "data_off sample_layer 0 j = (if j = 0 then 2048 else 0)" if "j < 64"
  using sample_entry [OF that] aligned_offset(1) [of 2048] by simp

lemma sample_layer_ok: "qcow_ok (\<lambda>_. False) sample_layer"
proof -
  have "\<not> guest_tag sample_layer (k div 512)" if "k < 1536" for k
  proof -
    have "k div 512 < 3" using that by simp
    then have "k div 512 = 0 \<or> k div 512 = 1 \<or> k div 512 = 2" by linarith
    then show ?thesis by (auto simp: guest_tag_def sample_layer_fields)
  qed
  then have h: "hidden sample_layer off n" if "off + n \<le> 1536" for off n
    using that by (auto simp: hidden_def sample_layer_fields)
  have st: "qcow_struct sample_layer"
    using h by (simp add: struct_defs sample_layer_fields length_sample_bytes QCOW_MAX_CLUSTERS_def)
  have lu: "l2_users sample_layer n = (if n = 3 then {0} else {})" for n
    by (auto simp: l2_users_def sample_layer_fields sample_l1)
  have du: "data_users sample_layer n = (if n = 4 then {(0, 0)} else {})" for n
    by (auto simp: data_users_def sample_layer_fields sample_data split: if_splits)
  have "qcow_map sample_layer"
    unfolding qcow_map_def lu du
    by (auto simp: sample_layer_fields sample_l1 sample_data mapped_def nth_Cons' split: if_splits)
  with st show ?thesis by (simp add: qcow_ok_def sample_layer_fields)
qed

lemma be64_bytes_nonempty [simp]: "be64_bytes v \<noteq> []"
  using length_be64_bytes [of v] by (metis list.size(3) zero_neq_numeral)

lemma sample_write_succeeds: "\<exists>q'. qcow_write (\<lambda>_ _. fail EIO) (\<lambda>_ :: unit. 0) [7] 1 sample_layer = (Inr (), q')"
proof -
  have r: "read_u64 1536 sample_layer = (Inr (2048 OR QCOW_COPIED), sample_layer)"
  proof -
    have "bytes_at 1536 8 sample_bytes = be64_bytes (2048 OR QCOW_COPIED)"
      by (simp add: bytes_at_def sample_bytes_def)
    then have "read_at 8 1536 sample_layer = (Inr (be64_bytes (2048 OR QCOW_COPIED)), sample_layer)"
      by (simp add: read_at_def io_defs range_valid_def qcow_fd_io_def nextufs__read_exact_fd_def read_fd_loop.simps pread_def
          to_off_def sample_layer_fields)
    then show ?thesis using aligned_offset(3) [of 2048] by (simp add: read_u64_def io_defs read_be64_bytes)
  qed
  have w: "writable_l2 0 sample_layer = (Inr 1536, sample_layer)"
    using sample_l1 by (simp add: writable_l2_def io_defs l1_off_def sample_layer_fields Let_def)
  have d: "write_at [7] 2049 sample_layer = (Inr (), sample_layer\<lparr>q_fd := \<lparr>content = overlay 2049 [7] sample_bytes, script = []\<rparr>\<rparr>)"
    by (simp add: write_at_def mark_failed_def qcow_fd_io_def nextufs__write_exact_fd_def write_fd_loop.simps pwrite_def
        to_off_def sample_layer_fields file_put_inside length_sample_bytes)
  have o: "(2048 :: nat) AND QCOW_OFFSET = 2048" "(2048 :: nat) AND QCOW_ZERO = 0" using aligned_offset [of 2048] by simp_all
  have "qcow_write_chunk (\<lambda>_ _. fail EIO) (\<lambda>_ :: unit. 0) [7] 1 sample_layer = (Inr (), snd (write_at [7] 2049 sample_layer))"
    using w r d o by (simp add: qcow_write_chunk_def io_defs Let_def sample_layer_fields)
  then show ?thesis
    by (simp add: qcow_write_def io_defs qcow_malloc_def mark_failed_def begin_write_def sample_layer_fields qcow_write_loop.simps Let_def)
qed

theorem qcow_write_correct_witness:
  "qcow_disk (\<lambda>_. []) (snd (qcow_write (\<lambda>_ _. fail EIO) (\<lambda>_ :: unit. 0) [7] 1 sample_layer)) = [9, 7, 9, 9]"
proof -
  obtain q' where q': "qcow_write (\<lambda>_ _. fail EIO) (\<lambda>_ :: unit. 0) [7] 1 sample_layer = (Inr (), q')"
    using sample_write_succeeds by blast
  have "qcow_byte (\<lambda>_. []) sample_layer p = 9" if "p < 4" for p
    using that aligned_offset(2) [of 2048] sample_entry [of 0] sample_data [of 0]
    by (simp add: qcow_byte_def sample_layer_fields sample_bytes_def nth_append)
  then have "qcow_disk (\<lambda>_. []) sample_layer = [9, 9, 9, 9]" by (simp add: qcow_disk_def sample_layer_fields upt_rec)
  with qcow_write_correct [OF bottom.layer_axioms sample_layer_ok q'] q' show ?thesis by (simp add: overlay_def)
qed

end
