(* ===== verification/Qcow2_Stored.thy ===== *)
theory Qcow2_Stored
  imports Qcow2_Write
begin

text \<open>
  What the tables of an open layer say of the file they were read from. The values that
  \<open>load_table\<close> and \<open>load_ref_blocks\<close> (\<open>src/src/core/qcow2.c\<close>) put into the arrays are the big-endian words of the
  file at the offsets of the header, and the checks after that leave them alone.
\<close>

section \<open>The words of the file\<close>

definition stored_count :: "'p qcow \<Rightarrow> nat \<Rightarrow> nat" where
  "stored_count q n = (let i = n div refs_per_block q; off = q_ref_table q ! i in
     if i < length (q_ref_table q) \<and> off \<noteq> 0
     then nextufs__read_be16 (content (q_fd q)) (off + n mod refs_per_block q * 2) else 0)"

definition tables_stored :: "'p qcow \<Rightarrow> bool" where
  "tables_stored q \<longleftrightarrow>
     q_l1 q = map (\<lambda>i. read_be64 (content (q_fd q)) (q_l1_offset q + i * 8)) [0..<q_l1_size q] \<and>
     q_ref_table q = map (\<lambda>i. read_be64 (content (q_fd q)) (q_ref_offset q + i * 8)) [0..<q_ref_clusters q * l2_count q] \<and>
     q_refs q = map (stored_count q) [0..<q_host_count q]"

definition header_stored :: "'p qcow \<Rightarrow> bool" where
  "header_stored q \<longleftrightarrow> (let c = content (q_fd q) in
     nextufs__read_be32 c 0 = QCOW_MAGIC \<and> q_version q = nextufs__read_be32 c 4 \<and> q_cluster_size q = 2 ^ nextufs__read_be32 c 20 \<and>
     q_size q = read_be64 c 24 \<and> q_l1_size q = nextufs__read_be32 c 36 \<and> q_l1_offset q = read_be64 c 40 \<and>
     q_ref_offset q = read_be64 c 48 \<and> q_ref_clusters q = nextufs__read_be32 c 56 \<and>
     q_file_size q = length c \<and> q_host_count q = (length c + q_cluster_size q - 1) div q_cluster_size q)"

text \<open>The clusters of a range, those of the metadata, and the counts there should be.\<close>

definition region :: "'p qcow \<Rightarrow> nat \<Rightarrow> nat \<Rightarrow> nat set" where
  "region q off bytes = {off div q_cluster_size q ..< off div q_cluster_size q + (bytes + q_cluster_size q - 1) div q_cluster_size q}"

definition metadata_clusters :: "'p qcow \<Rightarrow> nat set" where
  "metadata_clusters q = region q 0 (q_cluster_size q) \<union> region q (q_l1_offset q) (q_l1_size q * 8) \<union>
     region q (q_ref_offset q) (q_ref_clusters q * q_cluster_size q) \<union>
     (\<Union>i \<in> {i. i < length (q_ref_table q) \<and> q_ref_table q ! i \<noteq> 0}. region q (q_ref_table q ! i) (q_cluster_size q))"

definition counts_exact :: "'p qcow \<Rightarrow> bool" where
  "counts_exact q \<longleftrightarrow> (\<forall>n < q_host_count q.
     q_refs q ! n = (if n \<in> metadata_clusters q then 1 else 0) + card (l2_users q n) + card (data_users q n))"

section \<open>Reading them\<close>

lemma load_table_values:
  "load_table off is q = (Inr es, q') \<Longrightarrow> file_known q \<Longrightarrow> es = map (\<lambda>i. read_be64 (content (q_fd q)) (u64 (off + i * 8))) is"
proof (induction "is" arbitrary: q es)
  case (Cons i rest)
  then obtain e q1 es1 where r: "read_u64 (u64 (off + i * 8)) q = (Inr e, q1)" and l: "load_table off rest q1 = (Inr es1, q')"
    and es: "es = e # es1" by (auto simp: bind_io_Inr ret_def)
  obtain f where q1: "q1 = q\<lparr>q_fd := f\<rparr>" "content f = content (q_fd q)" using read_u64_Inr(2) [OF r Cons.prems(2)] by blast
  have "file_known q1" using Cons.prems(2) q1 by (simp add: file_known_def)
  from Cons.IH [OF l this] es read_u64_Inr(1) [OF r Cons.prems(2)] q1 show ?case by simp
qed (simp add: ret_def)

lemma load_counts_values:
  "load_counts first (length R) block js R = Some R' \<Longrightarrow>
   length R' = length R \<and> (\<forall>n < length R. R' ! n = (if \<exists>j \<in> set js. n = first + j then nextufs__read_be16 block ((n - first) * 2) else R ! n))"
proof (induction js arbitrary: R)
  case (Cons j rest)
  let ?v = "nextufs__read_be16 block (j * 2)"
  show ?case
  proof (cases "first + j < length R")
    case True
    with Cons.prems have "load_counts first (length (R[first + j := ?v])) block rest (R[first + j := ?v]) = Some R'" by (simp add: Let_def)
    from Cons.IH [OF this] True show ?thesis by (auto simp: nth_list_update)
  next
    case False
    with Cons.prems have "load_counts first (length R) block rest R = Some R'" by (simp add: Let_def split: if_splits)
    from Cons.IH [OF this] False show ?thesis by auto
  qed
qed simp

lemma in_block: "0 < (m :: nat) \<Longrightarrow> (\<exists>j \<in> set [0..<m]. n = i * m + j) \<longleftrightarrow> n div m = i"
proof
  assume m: "0 < m"
  show "\<exists>j \<in> set [0..<m]. n = i * m + j \<Longrightarrow> n div m = i" using m by auto
  assume "n div m = i"
  then have "n = i * m + n mod m" "n mod m < m" using m by auto
  then show "\<exists>j \<in> set [0..<m]. n = i * m + j" by (metis atLeast0LessThan lessThan_iff set_upt)
qed

lemma mark_region_frame: "mark_region E off bytes tag q = (Inr E', q') \<Longrightarrow> \<exists>T. q' = q\<lparr>q_tags := T\<rparr>"
  by (auto simp: mark_region_def bind_io_def get_io_def fail_def modify_io_def ret_def Let_def split: if_splits sum.splits prod.splits)

definition loads :: "'p qcow \<Rightarrow> 'p qcow \<Rightarrow> bool" where
  "loads q q' \<longleftrightarrow> q_ref_table q' = q_ref_table q \<and> q_cluster_size q' = q_cluster_size q \<and> q_host_count q' = q_host_count q \<and>
     content (q_fd q') = content (q_fd q) \<and> q_file_size q' = q_file_size q \<and> length (q_refs q') = length (q_refs q)"

lemma loads_refl: "loads q q" and loads_trans: "loads q q1 \<Longrightarrow> loads q1 q2 \<Longrightarrow> loads q q2"
  by (simp_all add: loads_def)

lemma loadsD:
  assumes "loads q q'"
  shows "q_ref_table q' = q_ref_table q" "q_cluster_size q' = q_cluster_size q" "q_host_count q' = q_host_count q"
    "content (q_fd q') = content (q_fd q)" "length (q_refs q') = length (q_refs q)" "file_known q' = file_known q"
    "stored_count q' n = stored_count q n"
  using assms unfolding loads_def file_known_def stored_count_def Let_def by simp_all

lemma load_ref_blocks_values:
  "load_ref_blocks E is q = (Inr E', q') \<Longrightarrow> file_known q \<Longrightarrow> 2 \<le> q_cluster_size q \<Longrightarrow> length (q_refs q) = q_host_count q \<Longrightarrow>
   \<forall>i \<in> set is. i < length (q_ref_table q) \<Longrightarrow>
   loads q q' \<and> (\<forall>n < q_host_count q. q_refs q' ! n =
     (if n div refs_per_block q \<in> set is \<and> q_ref_table q ! (n div refs_per_block q) \<noteq> 0 then stored_count q n else q_refs q ! n))"
proof (induction "is" arbitrary: E q)
  case Nil
  then show ?case using loads_refl by (simp add: ret_def)
next
  case (Cons i rest)
  let ?o = "q_ref_table q ! i" and ?m = "refs_per_block q"
  show ?case
  proof (cases "?o = 0")
    case True
    with Cons.prems(1) have "load_ref_blocks E rest q = (Inr E', q')" by (simp add: bind_io_def get_io_def Let_def)
    from Cons.IH [OF this Cons.prems(2-4)] Cons.prems(5) True show ?thesis by auto
  next
    case False
    with Cons.prems(1) obtain E1 q1 block q2 where mr: "mark_region E ?o (q_cluster_size q) 1 q = (Inr E1, q1)"
      and rd: "read_at (q_cluster_size q) ?o q1 = (Inr block, q2)"
      and ld: "(case load_counts (i * refs_per_block q2) (q_host_count q2) block [0..<refs_per_block q2] (q_refs q2) of
         None \<Rightarrow> fail EINVAL
       | Some refs \<Rightarrow> bind_io (modify_io (\<lambda>q. q\<lparr>q_refs := refs\<rparr>)) (\<lambda>_. load_ref_blocks E1 rest)) q2 = (Inr E', q')"
      by (auto simp: bind_io_Inr get_io_def Let_def)
    from ld obtain R where R: "load_counts (i * refs_per_block q2) (q_host_count q2) block [0..<refs_per_block q2] (q_refs q2) = Some R"
      and r: "load_ref_blocks E1 rest (q2\<lparr>q_refs := R\<rparr>) = (Inr E', q')"
      by (auto simp: fail_def bind_io_def modify_io_def split: option.splits)
    obtain T where q1: "q1 = q\<lparr>q_tags := T\<rparr>" using mark_region_frame [OF mr] by blast
    have "file_known q1" using Cons.prems(2) by (simp add: q1 file_known_def)
    note ra = read_at_Inr [OF rd this]
    obtain f where q2: "q2 = q1\<lparr>q_fd := f\<rparr>" "content f = content (q_fd q1)" using ra(4) by blast
    let ?q3 = "q2\<lparr>q_refs := R\<rparr>"
    have m: "0 < ?m" using Cons.prems(3) by simp
    from R have "load_counts (i * ?m) (length (q_refs q)) block [0..<?m] (q_refs q) = Some R"
      using Cons.prems(4) by (simp add: q2 q1)
    note lv = load_counts_values [OF this, unfolded in_block [OF m]]
    have lo: "loads q ?q3" using lv q2(2) by (simp add: loads_def q2(1) q1)
    note ld = loadsD [OF lo]
    have val: "R ! n = stored_count q n" if n: "n < q_host_count q" "n div ?m = i" for n
    proof -
      have "R ! n = nextufs__read_be16 block ((n - i * ?m) * 2)" using lv n Cons.prems(4) by simp
      also have "n - i * ?m = n mod ?m" using n(2) by (simp add: minus_div_mult_eq_mod [symmetric])
      also have "nextufs__read_be16 block (n mod ?m * 2) = nextufs__read_be16 (content (q_fd q)) (?o + n mod ?m * 2)"
      proof -
        have "n mod ?m < ?m" using m by simp
        then have "n mod ?m * 2 + 1 < q_cluster_size q" by linarith
        then show ?thesis using ra(1,2) by (simp add: read_be16_eq q1 add.assoc)
      qed
      finally show ?thesis using n(2) False Cons.prems(5) by (simp add: stored_count_def Let_def)
    qed
    have "file_known ?q3" "2 \<le> q_cluster_size ?q3" "length (q_refs ?q3) = q_host_count ?q3" "\<forall>i \<in> set rest. i < length (q_ref_table ?q3)"
      unfolding ld(1-3,5,6) using Cons.prems by simp_all
    from Cons.IH [OF r this] have ih: "loads ?q3 q'" "\<forall>n < q_host_count q. q_refs q' ! n =
      (if n div ?m \<in> set rest \<and> q_ref_table q ! (n div ?m) \<noteq> 0 then stored_count q n else R ! n)"
      unfolding ld(1-3,7) by simp_all
    have "q_refs q' ! n = (if n div ?m \<in> set (i # rest) \<and> q_ref_table q ! (n div ?m) \<noteq> 0 then stored_count q n else q_refs q ! n)"
      if n: "n < q_host_count q" for n
      using ih(2) val [OF n] lv n Cons.prems(4) False by auto
    with loads_trans [OF lo ih(1)] show ?thesis by blast
  qed
qed

section \<open>Checking them\<close>

text \<open>Checking references leaves the counts alone, and marks no more metadata.\<close>

definition marks :: "'p qcow \<Rightarrow> 'p qcow \<Rightarrow> bool" where
  "marks q q' \<longleftrightarrow> q_refs q' = q_refs q \<and> length (q_tags q') = length (q_tags q) \<and>
     (\<forall>n < length (q_tags q). q_tags q' ! n = 1 \<longrightarrow> q_tags q ! n = 1)"

lemma marks_refl: "marks q q" and marks_trans: "marks q q1 \<Longrightarrow> marks q1 q2 \<Longrightarrow> marks q q2"
  by (auto simp: marks_def)

lemma mark_clusters_others:
  "mark_clusters tag is (E, T) = Inr (E', T') \<Longrightarrow> tag \<noteq> 1 \<Longrightarrow> length T' = length T \<and> (\<forall>n < length T. T' ! n = 1 \<longrightarrow> T ! n = 1)"
proof (induction "is" arbitrary: E T)
  case (Cons k rest)
  from Cons.prems(1) have "mark_clusters tag rest (E[k := E ! k + 1], T[k := tag]) = Inr (E', T')" by (auto split: if_splits)
  note ih = Cons.IH [OF this Cons.prems(2)]
  have "T[k := tag] ! n = 1 \<longrightarrow> T ! n = 1" if "n < length T" for n
    using that Cons.prems(2) by (cases "k = n") simp_all
  with ih show ?case by simp
qed simp

lemma mark_region_marks: "mark_region E off bytes tag q = (Inr E', q') \<Longrightarrow> tag \<noteq> 1 \<Longrightarrow> marks q q'"
  by (auto simp: mark_region_def bind_io_def get_io_def fail_def modify_io_def ret_def Let_def marks_def
      dest!: mark_clusters_others split: if_splits sum.splits prod.splits)

lemma read_at_marks: "read_at n off q = (r, q') \<Longrightarrow> marks q q'"
  by (auto simp: read_at_def bind_io_def get_io_def qcow_fd_io_def fail_def marks_def split: if_splits prod.splits)

lemma check_l2_marks: "check_l2 E block js q = (Inr E', q') \<Longrightarrow> marks q q'"
proof (induction js arbitrary: E q)
  case (Cons j rest)
  let ?d = "read_be64 block (j * 8) AND QCOW_OFFSET"
  show ?case
  proof (cases "?d = 0")
    case True
    with Cons.prems have "check_l2 E block rest q = (Inr E', q')" by (auto simp: bind_io_def get_io_def fail_def Let_def split: if_splits)
    then show ?thesis by (rule Cons.IH)
  next
    case False
    with Cons.prems obtain E1 q1 where m: "mark_region E ?d (q_cluster_size q) 2 q = (Inr E1, q1)" and r: "check_l2 E1 block rest q1 = (Inr E', q')"
      by (auto simp: bind_io_Inr get_io_def fail_def Let_def split: if_splits)
    show ?thesis by (rule marks_trans [OF mark_region_marks [OF m] Cons.IH [OF r]]) simp
  qed
qed (simp add: ret_def marks_refl)

lemma check_l1_marks: "check_l1 E is q = (Inr E', q') \<Longrightarrow> marks q q'"
proof (induction "is" arbitrary: E q)
  case (Cons i rest)
  let ?o = "q_l1 q ! i AND QCOW_OFFSET"
  show ?case
  proof (cases "?o = 0")
    case True
    with Cons.prems have "check_l1 E rest q = (Inr E', q')" by (auto simp: bind_io_def get_io_def fail_def Let_def split: if_splits)
    then show ?thesis by (rule Cons.IH)
  next
    case False
    with Cons.prems obtain E1 q1 block q2 E2 q3 where m: "mark_region E ?o (q_cluster_size q) 3 q = (Inr E1, q1)"
      and rd: "read_at (q_cluster_size q) ?o q1 = (Inr block, q2)"
      and c2: "check_l2 E1 block [0..<l2_count q] q2 = (Inr E2, q3)" and r: "check_l1 E2 rest q3 = (Inr E', q')"
      by (auto simp: bind_io_Inr get_io_def fail_def Let_def split: if_splits)
    have "marks q q1" using mark_region_marks [OF m] by simp
    from marks_trans [OF marks_trans [OF this read_at_marks [OF rd]] marks_trans [OF check_l2_marks [OF c2] Cons.IH [OF r]]]
    show ?thesis .
  qed
qed (simp add: ret_def marks_refl)

end
