(* ===== verification/Qcow2_Open.thy ===== *)
theory Qcow2_Open
  imports Qcow2_Stored
begin

text \<open>
  Opening a qcow2 file (\<open>qcow_open\<close> with \<open>validate_tables\<close>, \<open>src/src/core/qcow2.c\<close>): the tables of a file that
  passes the checks satisfy the invariant which the theories \<open>Qcow2_Disk\<close> and \<open>Qcow2_Write\<close> start from. The
  first part follows the counting of references through \<open>mark_region\<close>, \<open>check_l1\<close> and \<open>check_l2\<close>; the second
  the header, the extensions and the parent; the last opens a file of four clusters.
\<close>

section \<open>Counting the references of a file that is opened\<close>

lemma mark_clusters_effect:
  assumes "mark_clusters tag is (E, T) = Inr (E', T')" and "distinct is" and "\<forall>i \<in> set is. i < length E" and "length T = length E"
  shows "length E' = length E \<and> length T' = length T \<and> (\<forall>i < length E.
    if i \<in> set is then (T ! i = 0 \<or> T ! i = tag \<and> (tag = 2 \<or> tag = 3)) \<and> T' ! i = tag \<and> E' ! i = E ! i + 1
    else T' ! i = T ! i \<and> E' ! i = E ! i)"
  using assms
proof (induction "is" arbitrary: E T)
  case (Cons k rest)
  from Cons.prems(1) have ok: "T ! k = 0 \<or> T ! k = tag \<and> (tag = 2 \<or> tag = 3)"
    and m: "mark_clusters tag rest (E[k := E ! k + 1], T[k := tag]) = Inr (E', T')"
    by (auto split: if_splits)
  have k: "k < length E" "k \<notin> set rest" using Cons.prems by auto
  from Cons.IH [OF m] Cons.prems have IH: "length E' = length E" "length T' = length T"
    "\<forall>i < length E. if i \<in> set rest then (T[k := tag] ! i = 0 \<or> T[k := tag] ! i = tag \<and> (tag = 2 \<or> tag = 3)) \<and> T' ! i = tag \<and> E' ! i = E[k := E ! k + 1] ! i + 1
    else T' ! i = T[k := tag] ! i \<and> E' ! i = E[k := E ! k + 1] ! i" by auto
  have "if i \<in> set (k # rest) then (T ! i = 0 \<or> T ! i = tag \<and> (tag = 2 \<or> tag = 3)) \<and> T' ! i = tag \<and> E' ! i = E ! i + 1
    else T' ! i = T ! i \<and> E' ! i = E ! i" if i: "i < length E" for i
  proof (cases "i = k")
    case True
    then show ?thesis using IH(3) [rule_format, OF i] ok k Cons.prems(4) by simp
  next
    case False
    then show ?thesis using IH(3) [rule_format, OF i] by (auto split: if_splits)
  qed
  with IH(1,2) show ?case by blast
qed simp

lemma mark_region_effect:
  assumes "mark_region E off bytes tag q = (Inr E', q')" and "length E = q_host_count q" and "length (q_tags q) = q_host_count q"
  shows "\<exists>T. q' = q\<lparr>q_tags := T\<rparr> \<and> length T = q_host_count q \<and> length E' = q_host_count q \<and>
    off mod q_cluster_size q = 0 \<and> range_valid q off bytes \<and> region q off bytes \<subseteq> {..<q_host_count q} \<and>
    (\<forall>i < q_host_count q. if i \<in> region q off bytes
      then (q_tags q ! i = 0 \<or> q_tags q ! i = tag \<and> (tag = 2 \<or> tag = 3)) \<and> T ! i = tag \<and> E' ! i = E ! i + 1
      else T ! i = q_tags q ! i \<and> E' ! i = E ! i)"
proof -
  let ?first = "off div q_cluster_size q" and ?count = "(bytes + q_cluster_size q - 1) div q_cluster_size q"
  from assms(1) obtain T where g: "off mod q_cluster_size q = 0" "range_valid q off bytes" "?first \<le> q_host_count q"
    "?count \<le> q_host_count q - ?first"
    and m: "mark_clusters tag [?first..<?first + ?count] (E, q_tags q) = Inr (E', T)" and q': "q' = q\<lparr>q_tags := T\<rparr>"
    by (auto simp: mark_region_def bind_io_def get_io_def fail_def modify_io_def ret_def Let_def
        split: if_splits sum.splits prod.splits)
  have "\<forall>i \<in> set [?first..<?first + ?count]. i < length E" using g assms(2) by auto
  from mark_clusters_effect [OF m _ this] assms(2,3) have e: "length E' = q_host_count q" "length T = q_host_count q"
    "\<forall>i < q_host_count q. if i \<in> set [?first..<?first + ?count]
      then (q_tags q ! i = 0 \<or> q_tags q ! i = tag \<and> (tag = 2 \<or> tag = 3)) \<and> T ! i = tag \<and> E' ! i = E ! i + 1
      else T ! i = q_tags q ! i \<and> E' ! i = E ! i" by simp_all
  have "set [?first..<?first + ?count] = region q off bytes" by (simp add: region_def)
  moreover have "region q off bytes \<subseteq> {..<q_host_count q}" unfolding region_def using g(3,4) by auto
  ultimately show ?thesis using e g(1,2) q' by - (rule exI [of _ T], simp)
qed

lemma region_one: "0 < q_cluster_size q \<Longrightarrow> region q off (q_cluster_size q) = {off div q_cluster_size q}"
proof -
  assume cs: "0 < q_cluster_size q"
  then have "(q_cluster_size q + q_cluster_size q - 1) div q_cluster_size q = 1"
    using div_mult_self1 [of "q_cluster_size q" "q_cluster_size q - 1" 1] by simp
  then show ?thesis by (auto simp: region_def)
qed

lemma region_covers:
  assumes "0 < q_cluster_size q" and "off mod q_cluster_size q = 0" and "off \<le> k" and "k < off + bytes"
  shows "k div q_cluster_size q \<in> region q off bytes"
proof -
  let ?cs = "q_cluster_size q"
  obtain m where m: "off = ?cs * m" using assms(2) by (auto elim!: dvdE)
  obtain t where t: "k = off + t" "t < bytes" using assms(3,4) by (metis le_add_diff_inverse nat_add_left_cancel_less)
  have d: "k div ?cs = m + t div ?cs" using assms(1) by (simp add: t(1) m)
  have "t div ?cs < (bytes + ?cs - 1) div ?cs"
  proof -
    have "t div ?cs + 1 = (t + ?cs) div ?cs" using div_mult_self1 [of ?cs t 1] assms(1) by simp
    also have "\<dots> \<le> (bytes + ?cs - 1) div ?cs" using t(2) by (intro div_le_mono) simp
    finally show ?thesis by simp
  qed
  then show ?thesis using d m assms(1) by (simp add: region_def)
qed

text \<open>What validation changes.\<close>

definition checks :: "'p qcow \<Rightarrow> 'p qcow \<Rightarrow> bool" where
  "checks q q' \<longleftrightarrow> (\<exists>f T R ms. q' = q\<lparr>q_fd := f, q_tags := T, q_refs := R, q_mallocs := ms\<rparr> \<and> content f = content (q_fd q) \<and>
     length T = length (q_tags q) \<and> length R = length (q_refs q) \<and>
     (\<forall>n < length T. q_tags q ! n \<noteq> 0 \<longrightarrow> T ! n = q_tags q ! n))"

lemma checks_refl [simp]: "checks q q"
  unfolding checks_def
  by (rule exI [of _ "q_fd q"], rule exI [of _ "q_tags q"], rule exI [of _ "q_refs q"], rule exI [of _ "q_mallocs q"]) simp

lemma checks_trans:
  assumes "checks q q1" and "checks q1 q2"
  shows "checks q q2"
proof -
  from assms(1) obtain f1 T1 R1 m1 where q1: "q1 = q\<lparr>q_fd := f1, q_tags := T1, q_refs := R1, q_mallocs := m1\<rparr>" "content f1 = content (q_fd q)"
     "length T1 = length (q_tags q)" "length R1 = length (q_refs q)" "\<forall>n < length T1. q_tags q ! n \<noteq> 0 \<longrightarrow> T1 ! n = q_tags q ! n"
    unfolding checks_def by blast
  from assms(2) obtain f2 T2 R2 m2 where q2: "q2 = q1\<lparr>q_fd := f2, q_tags := T2, q_refs := R2, q_mallocs := m2\<rparr>" "content f2 = content (q_fd q1)"
     "length T2 = length (q_tags q1)" "length R2 = length (q_refs q1)" "\<forall>n < length T2. q_tags q1 ! n \<noteq> 0 \<longrightarrow> T2 ! n = q_tags q1 ! n"
    unfolding checks_def by blast
  have "q2 = q\<lparr>q_fd := f2, q_tags := T2, q_refs := R2, q_mallocs := m2\<rparr>" by (simp add: q2(1) q1(1))
  moreover have "content f2 = content (q_fd q)" "length T2 = length (q_tags q)" "length R2 = length (q_refs q)"
    using q1 q2(2-4) by simp_all
  moreover have "\<forall>n < length T2. q_tags q ! n \<noteq> 0 \<longrightarrow> T2 ! n = q_tags q ! n" using q1 q2(3,5) by simp
  ultimately show ?thesis unfolding checks_def by blast
qed

lemma checks_tags:
  assumes "length T = length (q_tags q)" and "\<forall>n < length T. q_tags q ! n \<noteq> 0 \<longrightarrow> T ! n = q_tags q ! n"
  shows "checks q (q\<lparr>q_tags := T\<rparr>)"
  unfolding checks_def using assms
  by - (rule exI [of _ "q_fd q"], rule exI [of _ T], rule exI [of _ "q_refs q"], rule exI [of _ "q_mallocs q"], simp)

lemma checks_fd: "content f = content (q_fd q) \<Longrightarrow> checks q (q\<lparr>q_fd := f\<rparr>)"
  unfolding checks_def
  by (rule exI [of _ f], rule exI [of _ "q_tags q"], rule exI [of _ "q_refs q"], rule exI [of _ "q_mallocs q"]) simp

lemma checks_refs: "length R = length (q_refs q) \<Longrightarrow> checks q (q\<lparr>q_refs := R\<rparr>)"
  unfolding checks_def
  by (rule exI [of _ "q_fd q"], rule exI [of _ "q_tags q"], rule exI [of _ R], rule exI [of _ "q_mallocs q"]) simp

lemma checks_mallocs: "checks q (q\<lparr>q_mallocs := ms\<rparr>)"
  unfolding checks_def
  by (rule exI [of _ "q_fd q"], rule exI [of _ "q_tags q"], rule exI [of _ "q_refs q"], rule exI [of _ ms]) simp

lemma checksD:
  assumes "checks q q'"
  shows "l1_off q' i = l1_off q i" and "l2_entry q' i j = l2_entry q i j" and "q_l1_size q' = q_l1_size q"
    and "q_cluster_size q' = q_cluster_size q" and "q_host_count q' = q_host_count q" and "content (q_fd q') = content (q_fd q)"
    and "q_file_size q' = q_file_size q" and "length (q_tags q') = length (q_tags q)" and "length (q_refs q') = length (q_refs q)"
    and "n < length (q_tags q) \<Longrightarrow> q_tags q ! n \<noteq> 0 \<Longrightarrow> q_tags q' ! n = q_tags q ! n"
    and "q_ref_table q' = q_ref_table q" and "q_l1 q' = q_l1 q"
proof -
  from assms obtain f T R ms where q': "q' = q\<lparr>q_fd := f, q_tags := T, q_refs := R, q_mallocs := ms\<rparr>" and c: "content f = content (q_fd q)"
    and l: "length T = length (q_tags q)" "length R = length (q_refs q)" "\<forall>n < length T. q_tags q ! n \<noteq> 0 \<longrightarrow> T ! n = q_tags q ! n"
    unfolding checks_def by blast
  show lo: "l1_off q' i = l1_off q i" for i by (simp add: l1_off_def q')
  show "l2_entry q' i j = l2_entry q i j" unfolding l2_entry_def lo by (simp add: q' c)
  show "n < length (q_tags q) \<Longrightarrow> q_tags q ! n \<noteq> 0 \<Longrightarrow> q_tags q' ! n = q_tags q ! n" using l by (simp add: q')
qed (use assms in \<open>auto simp: checks_def\<close>)

text \<open>The counts so far, for the entries \<open>A\<close> of the first table and the entries \<open>B\<close> of its tables.\<close>

definition l2_seen :: "'p qcow \<Rightarrow> nat set \<Rightarrow> nat \<Rightarrow> nat set" where
  "l2_seen q A n = {i \<in> A. l1_off q i \<noteq> 0 \<and> l1_off q i div q_cluster_size q = n}"

definition data_seen :: "'p qcow \<Rightarrow> (nat \<times> nat) set \<Rightarrow> nat \<Rightarrow> (nat \<times> nat) set" where
  "data_seen q B n = {(i, j) \<in> B. data_off q i j \<noteq> 0 \<and> data_off q i j div q_cluster_size q = n}"

definition counted :: "'p qcow \<Rightarrow> nat list \<Rightarrow> nat set \<Rightarrow> (nat \<times> nat) set \<Rightarrow> bool" where
  "counted q E A B \<longleftrightarrow> 0 < q_cluster_size q \<and> q_file_size q \<le> q_host_count q * q_cluster_size q \<and> length E = q_host_count q \<and> length (q_tags q) = q_host_count q \<and>
     (\<forall>n < q_host_count q. q_tags q ! n \<le> 3 \<and> (q_tags q ! n = 0 \<longrightarrow> E ! n = 0) \<and> (q_tags q ! n = 1 \<longrightarrow> E ! n = 1) \<and>
       (q_tags q ! n = 3 \<longrightarrow> E ! n = card (l2_seen q A n)) \<and> (q_tags q ! n = 2 \<longrightarrow> E ! n = card (data_seen q B n))) \<and>
     (\<forall>i \<in> A. l1_off q i \<noteq> 0 \<longrightarrow> mapped q 3 (l1_off q i)) \<and>
     (\<forall>i j. (i, j) \<in> B \<longrightarrow> data_off q i j \<noteq> 0 \<longrightarrow> mapped q 2 (data_off q i j))"

lemma counted_host:
  assumes "counted q E A B" and "mapped q t off"
  shows "off div q_cluster_size q < q_host_count q"
proof -
  have "off + q_cluster_size q \<le> q_host_count q * q_cluster_size q" "0 < q_cluster_size q"
    using assms by (auto simp: mapped_def counted_def)
  then have "off < q_host_count q * q_cluster_size q" by linarith
  then show ?thesis by (simp add: less_mult_imp_div_less)
qed

lemma counted_same_tags:
  assumes "counted q E A B" and "checks q q'" and "q_tags q' = q_tags q"
  shows "counted q' E A B"
proof -
  note c = checksD [OF assms(2)]
  have "l2_seen q' A n = l2_seen q A n" "data_seen q' B n = data_seen q B n" for n
    unfolding l2_seen_def data_seen_def c(1,2,4) by (rule refl)+
  moreover have "mapped q' t o1 = mapped q t o1" for t o1 unfolding mapped_def c(4,7) assms(3) by (rule refl)
  ultimately show ?thesis using assms(1) unfolding counted_def c(1,2,4,5,7) assms(3) by simp
qed

lemma mark_metadata_counted:
  assumes "mark_region E off bytes 1 q = (Inr E', q')" and "counted q E A B"
  shows "counted q' E' A B" and "checks q q'" and "0 < q_cluster_size q \<Longrightarrow> off \<le> k \<Longrightarrow> k < off + bytes \<Longrightarrow> q_tags q' ! (k div q_cluster_size q) = 1"
    and "off mod q_cluster_size q = 0" and "range_valid q off bytes"
    and "0 < q_cluster_size q \<Longrightarrow> off \<le> k \<Longrightarrow> k < off + bytes \<Longrightarrow> k div q_cluster_size q < q_host_count q"
    and "n < q_host_count q \<Longrightarrow> (q_tags q' ! n = 1) = (n \<in> region q off bytes \<or> q_tags q ! n = 1)"
proof -
  have len: "length E = q_host_count q" "length (q_tags q) = q_host_count q" using assms(2) by (simp_all add: counted_def)
  from mark_region_effect [OF assms(1) len] obtain T where q': "q' = q\<lparr>q_tags := T\<rparr>"
    and T: "length T = q_host_count q" "length E' = q_host_count q" and al: "off mod q_cluster_size q = 0" "range_valid q off bytes"
    and sub: "region q off bytes \<subseteq> {..<q_host_count q}"
    and R0: "\<forall>i < q_host_count q. if i \<in> region q off bytes
      then (q_tags q ! i = 0 \<or> q_tags q ! i = 1 \<and> (1 = (2 :: nat) \<or> 1 = (3 :: nat))) \<and> T ! i = 1 \<and> E' ! i = E ! i + 1
      else T ! i = q_tags q ! i \<and> E' ! i = E ! i" by (elim exE conjE) (rule that)
  have R: "\<forall>i < q_host_count q. if i \<in> region q off bytes then q_tags q ! i = 0 \<and> T ! i = 1 \<and> E' ! i = E ! i + 1
      else T ! i = q_tags q ! i \<and> E' ! i = E ! i" using R0 by (simp cong: if_cong)
  have keep: "q_tags q ! n \<noteq> 0 \<Longrightarrow> T ! n = q_tags q ! n" if "n < q_host_count q" for n using R that by (auto split: if_splits)
  show c: "checks q q'" unfolding q' using T len keep by (intro checks_tags) auto
  show "off mod q_cluster_size q = 0" "range_valid q off bytes" by (rule al)+
  show "q_tags q' ! (k div q_cluster_size q) = 1" "k div q_cluster_size q < q_host_count q" if "0 < q_cluster_size q" "off \<le> k" "k < off + bytes"
    using region_covers [OF that(1) al(1) that(2,3)] R sub by (auto simp: q' split: if_splits)
  show "n < q_host_count q \<Longrightarrow> (q_tags q' ! n = 1) = (n \<in> region q off bytes \<or> q_tags q ! n = 1)"
    using R by (cases "n \<in> region q off bytes") (simp_all add: q')
  have lo: "l1_off q' i = l1_off q i" "l2_entry q' i j = l2_entry q i j" for i j using checksD(1,2) [OF c] by blast+
  have seen: "l2_seen q' A n = l2_seen q A n" "data_seen q' B n = data_seen q B n" for n
    unfolding l2_seen_def data_seen_def lo by (simp_all add: q')
  have mp: "mapped q' t o1" if "mapped q t o1" "t \<noteq> 0" for t o1
    using that keep counted_host [OF assms(2) that(1)] by (simp add: mapped_def q')
  have old: "q_tags q ! n = t \<and> E' ! n = E ! n" if "q_tags q' ! n = t" "t \<noteq> 1" "n < q_host_count q" for n t
    using R that by (auto simp: q' split: if_splits)
  have "q_tags q' ! n \<le> 3 \<and> (q_tags q' ! n = 0 \<longrightarrow> E' ! n = 0) \<and> (q_tags q' ! n = 1 \<longrightarrow> E' ! n = 1) \<and>
    (q_tags q' ! n = 3 \<longrightarrow> E' ! n = card (l2_seen q A n)) \<and> (q_tags q' ! n = 2 \<longrightarrow> E' ! n = card (data_seen q B n))"
    if n: "n < q_host_count q" for n
  proof -
    have o: "q_tags q ! n \<le> 3 \<and> (q_tags q ! n = 0 \<longrightarrow> E ! n = 0) \<and> (q_tags q ! n = 1 \<longrightarrow> E ! n = 1) \<and>
      (q_tags q ! n = 3 \<longrightarrow> E ! n = card (l2_seen q A n)) \<and> (q_tags q ! n = 2 \<longrightarrow> E ! n = card (data_seen q B n))"
      using assms(2) n unfolding counted_def by blast
    show ?thesis
    proof (cases "n \<in> region q off bytes")
      case True
      then have "q_tags q ! n = 0 \<and> T ! n = 1 \<and> E' ! n = E ! n + 1" using R n by simp
      with o show ?thesis by (simp add: q')
    next
      case False
      then have "T ! n = q_tags q ! n \<and> E' ! n = E ! n" using R n by simp
      with o show ?thesis by (simp add: q')
    qed
  qed
  moreover have "mapped q' 3 (l1_off q' i)" if "i \<in> A" "l1_off q' i \<noteq> 0" for i
    using that mp [of 3 "l1_off q i"] assms(2) lo by (auto simp: counted_def) 
  moreover have "mapped q' 2 (data_off q' i j)" if "(i, j) \<in> B" "data_off q' i j \<noteq> 0" for i j
    using that mp [of 2 "data_off q i j"] assms(2) lo by (auto simp: counted_def)
  moreover have "length E' = q_host_count q'" "length (q_tags q') = q_host_count q'" "q_host_count q' = q_host_count q"
    using T by (simp_all add: q')
  moreover have "0 < q_cluster_size q'" "q_file_size q' \<le> q_host_count q' * q_cluster_size q'"
    using assms(2) by (simp_all add: counted_def q')
  ultimately show "counted q' E' A B" using seen by (simp add: counted_def)
qed

section \<open>The two tables\<close>

text \<open>Marking a cluster for one more reference.\<close>

lemma mark_reference:
  assumes "mark_region E off (q_cluster_size q) tag q = (Inr E', q')" and "counted q E A B" and "tag = 2 \<or> tag = 3"
  shows "\<exists>T. q' = q\<lparr>q_tags := T\<rparr> \<and> length T = q_host_count q \<and> length E' = q_host_count q \<and>
    off div q_cluster_size q < q_host_count q \<and>
    (q_tags q ! (off div q_cluster_size q) = 0 \<or> q_tags q ! (off div q_cluster_size q) = tag) \<and>
    T = (q_tags q)[off div q_cluster_size q := tag] \<and>
    E' = E[off div q_cluster_size q := E ! (off div q_cluster_size q) + 1] \<and> mapped q' tag off \<and> checks q q'"
proof -
  let ?cs = "q_cluster_size q" and ?n = "off div q_cluster_size q"
  have len: "length E = q_host_count q" "length (q_tags q) = q_host_count q" and cs: "0 < ?cs"
    using assms(2) by (simp_all add: counted_def)
  have r: "region q off ?cs = {?n}" using region_one [OF cs] .
  from mark_region_effect [OF assms(1) len] obtain T where q': "q' = q\<lparr>q_tags := T\<rparr>"
    and T: "length T = q_host_count q" "length E' = q_host_count q" and al: "off mod ?cs = 0" "range_valid q off ?cs"
    and sub: "{?n} \<subseteq> {..<q_host_count q}"
    and R: "\<forall>i < q_host_count q. if i \<in> {?n}
      then (q_tags q ! i = 0 \<or> q_tags q ! i = tag \<and> (tag = 2 \<or> tag = 3)) \<and> T ! i = tag \<and> E' ! i = E ! i + 1
      else T ! i = q_tags q ! i \<and> E' ! i = E ! i"
    unfolding r by (elim exE conjE) (rule that)
  have n: "?n < q_host_count q" using sub by simp
  have Rn: "q_tags q ! ?n = 0 \<or> q_tags q ! ?n = tag" "T ! ?n = tag" "E' ! ?n = E ! ?n + 1"
    using R [rule_format, OF n] by (auto split: if_splits)
  have Ro: "T ! i = q_tags q ! i" "E' ! i = E ! i" if "i < q_host_count q" "i \<noteq> ?n" for i
    using R [rule_format, OF that(1)] that(2) by simp_all
  have "T = (q_tags q)[?n := tag]" using T len n Rn Ro by (intro nth_equalityI) (auto simp: nth_list_update)
  moreover have "E' = E[?n := E ! ?n + 1]" using T len n Rn Ro by (intro nth_equalityI) (auto simp: nth_list_update)
  moreover have "mapped q' tag off" using al Rn by (simp add: mapped_def q' range_valid_def) linarith
  moreover have "checks q q'" unfolding q' using T len Rn Ro by (intro checks_tags) (simp, metis)
  ultimately show ?thesis using q' T n Rn(1) by blast
qed

lemma checks_mapped: "checks q q' \<Longrightarrow> mapped q t off \<Longrightarrow> t \<noteq> 0 \<Longrightarrow> off div q_cluster_size q < length (q_tags q) \<Longrightarrow> mapped q' t off"
  using checksD(4,7) [of q q'] checksD(10) [of q q' "off div q_cluster_size q"] by (simp add: mapped_def)

lemma counted_data:
  assumes "mark_region E (data_off q i j) (q_cluster_size q) 2 q = (Inr E', q')" and "counted q E A B"
    and "(i, j) \<notin> B" and "finite B" and "data_off q i j \<noteq> 0"
  shows "counted q' E' A (insert (i, j) B)" and "checks q q'"
proof -
  let ?n = "data_off q i j div q_cluster_size q"
  from mark_reference [OF assms(1,2)] obtain T where q': "q' = q\<lparr>q_tags := T\<rparr>" and n: "?n < q_host_count q"
    and t: "q_tags q ! ?n = 0 \<or> q_tags q ! ?n = 2" and T: "T = (q_tags q)[?n := 2]" and E': "E' = E[?n := E ! ?n + 1]"
    and m: "mapped q' 2 (data_off q i j)" and c: "checks q q'" by auto
  show "checks q q'" by (rule c)
  note cd = checksD [OF c]
  have len: "length E = q_host_count q" "length (q_tags q) = q_host_count q" using assms(2) by (simp_all add: counted_def)
  have lo: "l1_off q' a = l1_off q a" "l2_entry q' a b = l2_entry q a b" for a b using cd(1,2) by blast+
  have fl: "q_cluster_size q' = q_cluster_size q" "q_host_count q' = q_host_count q" "q_tags q' = T" "q_file_size q' = q_file_size q"
    by (simp_all add: q')
  have ls: "l2_seen q' A k = l2_seen q A k" for k unfolding l2_seen_def lo fl by (rule refl)
  have dseen: "data_seen q' (insert (i, j) B) k = (if k = ?n then insert (i, j) (data_seen q B k) else data_seen q B k)" for k
    using assms(5) unfolding data_seen_def lo fl by auto
  have fin: "finite (data_seen q B k)" for k using assms(4) by (rule rev_finite_subset) (auto simp: data_seen_def)
  have nin: "(i, j) \<notin> data_seen q B k" for k using assms(3) by (simp add: data_seen_def)
  have mp: "mapped q' t o1" if "mapped q t o1" "t \<noteq> 0" for t o1
    using checks_mapped [OF c that] counted_host [OF assms(2) that(1)] len by simp
  have zero: "data_seen q B ?n = {}" if "q_tags q ! ?n = 0"
  proof -
    have "data_off q a b div q_cluster_size q \<noteq> ?n" if "(a, b) \<in> B" "data_off q a b \<noteq> 0" for a b
    proof -
      have "mapped q 2 (data_off q a b)" using assms(2) that unfolding counted_def by blast
      then show ?thesis using \<open>q_tags q ! ?n = 0\<close> by (auto simp: mapped_def)
    qed
    then show ?thesis by (auto simp: data_seen_def)
  qed
  have old: "q_tags q ! k \<le> 3 \<and> (q_tags q ! k = 0 \<longrightarrow> E ! k = 0) \<and> (q_tags q ! k = 1 \<longrightarrow> E ! k = 1) \<and> (q_tags q ! k = 3 \<longrightarrow> E ! k = card (l2_seen q A k)) \<and>
    (q_tags q ! k = 2 \<longrightarrow> E ! k = card (data_seen q B k))" if "k < q_host_count q" for k
    using assms(2) that unfolding counted_def by blast
  have "T ! k \<le> 3 \<and> (T ! k = 0 \<longrightarrow> E' ! k = 0) \<and> (T ! k = 1 \<longrightarrow> E' ! k = 1) \<and> (T ! k = 3 \<longrightarrow> E' ! k = card (l2_seen q' A k)) \<and>
    (T ! k = 2 \<longrightarrow> E' ! k = card (data_seen q' (insert (i, j) B) k))" if k: "k < q_host_count q" for k
  proof (cases "k = ?n")
    case True
    have "E ! ?n = card (data_seen q B ?n)" using t zero old [OF n] by auto
    then show ?thesis using True n len fin nin by (simp add: T E' dseen)
  next
    case False
    then show ?thesis using old [OF k] by (simp add: T E' dseen ls)
  qed
  moreover have "\<forall>a \<in> A. l1_off q' a \<noteq> 0 \<longrightarrow> mapped q' 3 (l1_off q' a)"
    using assms(2) mp [of 3] unfolding lo counted_def by simp
  moreover have "\<forall>a b. (a, b) \<in> insert (i, j) B \<longrightarrow> data_off q' a b \<noteq> 0 \<longrightarrow> mapped q' 2 (data_off q' a b)"
    using assms(2) mp [of 2] m unfolding lo counted_def by auto
  ultimately show "counted q' E' A (insert (i, j) B)"
    using assms(2) len by (simp add: counted_def fl) (simp add: T E')
qed

lemma counted_table:
  assumes "mark_region E (l1_off q i) (q_cluster_size q) 3 q = (Inr E', q')" and "counted q E A B"
    and "i \<notin> A" and "finite A" and "l1_off q i \<noteq> 0"
  shows "counted q' E' (insert i A) B" and "checks q q'"
proof -
  let ?n = "l1_off q i div q_cluster_size q"
  from mark_reference [OF assms(1,2)] obtain T where q': "q' = q\<lparr>q_tags := T\<rparr>" and n: "?n < q_host_count q"
    and t: "q_tags q ! ?n = 0 \<or> q_tags q ! ?n = 3" and T: "T = (q_tags q)[?n := 3]" and E': "E' = E[?n := E ! ?n + 1]"
    and m: "mapped q' 3 (l1_off q i)" and c: "checks q q'" by auto
  show "checks q q'" by (rule c)
  note cd = checksD [OF c]
  have len: "length E = q_host_count q" "length (q_tags q) = q_host_count q" using assms(2) by (simp_all add: counted_def)
  have lo: "l1_off q' a = l1_off q a" "l2_entry q' a b = l2_entry q a b" for a b using cd(1,2) by blast+
  have fl: "q_cluster_size q' = q_cluster_size q" "q_host_count q' = q_host_count q" "q_tags q' = T" "q_file_size q' = q_file_size q"
    by (simp_all add: q')
  have ds: "data_seen q' B k = data_seen q B k" for k unfolding data_seen_def lo fl by (rule refl)
  have lseen: "l2_seen q' (insert i A) k = (if k = ?n then insert i (l2_seen q A k) else l2_seen q A k)" for k
    using assms(5) unfolding l2_seen_def lo fl by auto
  have fin: "finite (l2_seen q A k)" for k using assms(4) by (simp add: l2_seen_def)
  have nin: "i \<notin> l2_seen q A k" for k using assms(3) by (simp add: l2_seen_def)
  have mp: "mapped q' t o1" if "mapped q t o1" "t \<noteq> 0" for t o1
    using checks_mapped [OF c that] counted_host [OF assms(2) that(1)] len by simp
  have zero: "l2_seen q A ?n = {}" if "q_tags q ! ?n = 0"
  proof -
    have "l1_off q a div q_cluster_size q \<noteq> ?n" if "a \<in> A" "l1_off q a \<noteq> 0" for a
    proof -
      have "mapped q 3 (l1_off q a)" using assms(2) that unfolding counted_def by blast
      then show ?thesis using \<open>q_tags q ! ?n = 0\<close> by (auto simp: mapped_def)
    qed
    then show ?thesis by (auto simp: l2_seen_def)
  qed
  have old: "q_tags q ! k \<le> 3 \<and> (q_tags q ! k = 0 \<longrightarrow> E ! k = 0) \<and> (q_tags q ! k = 1 \<longrightarrow> E ! k = 1) \<and> (q_tags q ! k = 3 \<longrightarrow> E ! k = card (l2_seen q A k)) \<and>
    (q_tags q ! k = 2 \<longrightarrow> E ! k = card (data_seen q B k))" if "k < q_host_count q" for k
    using assms(2) that unfolding counted_def by blast
  have "T ! k \<le> 3 \<and> (T ! k = 0 \<longrightarrow> E' ! k = 0) \<and> (T ! k = 1 \<longrightarrow> E' ! k = 1) \<and> (T ! k = 3 \<longrightarrow> E' ! k = card (l2_seen q' (insert i A) k)) \<and>
    (T ! k = 2 \<longrightarrow> E' ! k = card (data_seen q' B k))" if k: "k < q_host_count q" for k
  proof (cases "k = ?n")
    case True
    have "E ! ?n = card (l2_seen q A ?n)" using t zero old [OF n] by auto
    then show ?thesis using True n len fin nin by (simp add: T E' lseen)
  next
    case False
    then show ?thesis using old [OF k] by (simp add: T E' lseen ds)
  qed
  moreover have "\<forall>a \<in> insert i A. l1_off q' a \<noteq> 0 \<longrightarrow> mapped q' 3 (l1_off q' a)"
    using assms(2) mp [of 3] m unfolding lo counted_def by simp
  moreover have "\<forall>a b. (a, b) \<in> B \<longrightarrow> data_off q' a b \<noteq> 0 \<longrightarrow> mapped q' 2 (data_off q' a b)"
    using assms(2) mp [of 2] unfolding lo counted_def by auto
  ultimately show "counted q' E' (insert i A) B"
    using assms(2) len by (simp add: counted_def fl) (simp add: T E')
qed

lemma counted_skip_data: "counted q E A B \<Longrightarrow> data_off q i j = 0 \<Longrightarrow> counted q E A (insert (i, j) B)"
proof -
  assume c: "counted q E A B" and z: "data_off q i j = 0"
  have "data_seen q (insert (i, j) B) n = data_seen q B n" for n using z by (auto simp: data_seen_def)
  with c z show ?thesis by (auto simp: counted_def)
qed

lemma counted_skip_table:
  assumes "counted q E A B" and "l1_off q i = 0" and "B' = B \<union> {i} \<times> J"
  shows "counted q E (insert i A) B'"
proof -
  have e: "l2_entry q i j = 0" for j by (simp add: l2_entry_def assms(2))
  have "data_seen q B' n = data_seen q B n" for n by (auto simp: data_seen_def assms(3) e)
  moreover have "l2_seen q (insert i A) n = l2_seen q A n" for n by (auto simp: l2_seen_def assms(2))
  ultimately show ?thesis using assms(1,2) by (auto simp: counted_def assms(3) e)
qed

lemma check_l2_counted:
  "check_l2 E block js q = (Inr E', q') \<Longrightarrow> counted q E A B \<Longrightarrow> finite B \<Longrightarrow> distinct js \<Longrightarrow> \<forall>j \<in> set js. (i, j) \<notin> B \<Longrightarrow>
   \<forall>j \<in> set js. read_be64 block (j * 8) = l2_entry q i j \<Longrightarrow>
   counted q' E' A (B \<union> {i} \<times> set js) \<and> checks q q'"
proof (induction js arbitrary: E B q)
  case Nil
  then show ?case by (simp add: ret_def)
next
  case (Cons j rest)
  have ej: "read_be64 block (j * 8) = l2_entry q i j" using Cons.prems(6) by simp
  have un: "B \<union> {i} \<times> set (j # rest) = insert (i, j) B \<union> {i} \<times> set rest" by auto
  have fin: "finite (insert (i, j) B)" using Cons.prems(3) by simp
  have nin: "\<forall>k \<in> set rest. (i, k) \<notin> insert (i, j) B" using Cons.prems(4,5) by auto
  show ?case
  proof (cases "data_off q i j = 0")
    case True
    with Cons.prems(1) ej have r: "check_l2 E block rest q = (Inr E', q')"
      by (auto simp: bind_io_def get_io_def fail_def Let_def split: if_splits)
    from Cons.IH [OF r counted_skip_data [OF Cons.prems(2) True] fin _ nin] Cons.prems(4,6) show ?thesis
      unfolding un by simp
  next
    case False
    with Cons.prems(1) ej obtain E1 q1 where m: "mark_region E (data_off q i j) (q_cluster_size q) 2 q = (Inr E1, q1)"
      and r: "check_l2 E1 block rest q1 = (Inr E', q')"
      by (auto simp: bind_io_Inr get_io_def fail_def Let_def split: if_splits)
    have "(i, j) \<notin> B" using Cons.prems(5) by simp
    note cd = counted_data [OF m Cons.prems(2) this Cons.prems(3) False]
    have "\<forall>k \<in> set rest. read_be64 block (k * 8) = l2_entry q1 i k" using Cons.prems(6) checksD(2) [OF cd(2)] by simp
    from Cons.IH [OF r cd(1) fin _ nin this] Cons.prems(4) checks_trans [OF cd(2)] show ?thesis
      unfolding un by simp
  qed
qed

lemma read_at_frame: "read_at n off q = (r, q') \<Longrightarrow> \<exists>f. q' = q\<lparr>q_fd := f\<rparr> \<and> content f = content (q_fd q)"
proof (cases "range_valid q off n")
  case True
  assume "read_at n off q = (r, q')"
  with True obtain f where "nextufs__read_exact_fd n (to_off off) (q_fd q) = (r, f)" "q' = q\<lparr>q_fd := f\<rparr>"
    by (auto simp: read_at_def bind_io_def get_io_def qcow_fd_io_def split: prod.splits)
  with read_exact_fd_content show ?thesis by blast
next
  case False
  assume "read_at n off q = (r, q')"
  with False have "q' = q" by (auto simp: read_at_def bind_io_def get_io_def fail_def)
  then show ?thesis by (intro exI [of _ "q_fd q"]) simp
qed

lemma read_u64_frame: "read_u64 off q = (Inr v, q') \<Longrightarrow> \<exists>f. q' = q\<lparr>q_fd := f\<rparr> \<and> content f = content (q_fd q)"
  by (auto simp: read_u64_def bind_io_Inr ret_def dest!: read_at_frame)

lemma checks_known: "checks q q' \<Longrightarrow> file_known q \<Longrightarrow> file_known q'"
  using checksD(6,7) [of q q'] by (simp add: file_known_def)

lemma counted_fd:
  assumes "counted q E A B" and "content f = content (q_fd q)"
  shows "counted (q\<lparr>q_fd := f\<rparr>) E A B"
  using counted_same_tags [OF assms(1) checks_fd [OF assms(2)]] by simp

lemma check_l1_counted:
  "check_l1 E is q = (Inr E', q') \<Longrightarrow> counted q E A B \<Longrightarrow> finite A \<Longrightarrow> finite B \<Longrightarrow> distinct is \<Longrightarrow>
   \<forall>i \<in> set is. i \<notin> A \<and> (\<forall>j. (i, j) \<notin> B) \<Longrightarrow> file_known q \<Longrightarrow>
   counted q' E' (A \<union> set is) (B \<union> set is \<times> {..<l2_count q}) \<and> checks q q'"
proof (induction "is" arbitrary: E A B q)
  case Nil
  then show ?case by (simp add: ret_def)
next
  case (Cons i rest)
  have unA: "A \<union> set (i # rest) = insert i A \<union> set rest" by auto
  have unB: "B \<union> set (i # rest) \<times> {..<l2_count q} = (B \<union> {i} \<times> {..<l2_count q}) \<union> set rest \<times> {..<l2_count q}" by auto
  have nin: "\<forall>k \<in> set rest. k \<notin> insert i A \<and> (\<forall>j. (k, j) \<notin> B \<union> {i} \<times> {..<l2_count q})"
    using Cons.prems(5,6) by auto
  have fin: "finite (insert i A)" "finite (B \<union> {i} \<times> {..<l2_count q})" using Cons.prems(3,4) by simp_all
  have l1: "q_l1 q ! i AND QCOW_OFFSET = l1_off q i" by (simp add: l1_off_def)
  show ?case
  proof (cases "l1_off q i = 0")
    case True
    with Cons.prems(1) l1 have r: "check_l1 E rest q = (Inr E', q')"
      by (auto simp: bind_io_def get_io_def fail_def Let_def split: if_splits)
    from Cons.IH [OF r counted_skip_table [OF Cons.prems(2) True refl] fin _ nin Cons.prems(7)] Cons.prems(5)
    show ?thesis unfolding unA unB by simp
  next
    case False
    with Cons.prems(1) l1 obtain E1 q1 block q2 E2 q3 where m: "mark_region E (l1_off q i) (q_cluster_size q) 3 q = (Inr E1, q1)"
      and rd: "read_at (q_cluster_size q) (l1_off q i) q1 = (Inr block, q2)"
      and c2: "check_l2 E1 block [0..<l2_count q] q2 = (Inr E2, q3)" and r: "check_l1 E2 rest q3 = (Inr E', q')"
      by (auto simp: bind_io_Inr get_io_def fail_def Let_def split: if_splits)
    have iA: "i \<notin> A" using Cons.prems(6) by simp
    note c1 = counted_table [OF m Cons.prems(2) iA Cons.prems(3) False]
    note ra = read_at_Inr [OF rd checks_known [OF c1(2) Cons.prems(7)]]
    obtain f where q2: "q2 = q1\<lparr>q_fd := f\<rparr>" and f: "content f = content (q_fd q1)" using ra(4) by blast
    have c12: "checks q1 q2" unfolding q2 using checks_fd [OF f] .
    have ch: "checks q q2" using checks_trans [OF c1(2) c12] .
    have blk: "\<forall>j \<in> set [0..<l2_count q]. read_be64 block (j * 8) = l2_entry q2 i j"
    proof
      fix j assume "j \<in> set [0..<l2_count q]"
      then have "j < q_cluster_size q div 8" by simp
      then have "j * 8 + 8 \<le> q_cluster_size q" by linarith
      then have "read_be64 block (j * 8) = read_be64 (content (q_fd q)) (l1_off q i + j * 8)"
        using ra(2) checksD(6) [OF c1(2)] by (intro read_be64_cong) (simp add: ra(1) add.assoc)
      moreover have "l2_entry q2 i j = l2_entry q i j" using checksD(2) [OF ch] .
      ultimately show "read_be64 block (j * 8) = l2_entry q2 i j" using False by (simp add: l2_entry_def)
    qed
    have "\<forall>j \<in> set [0..<l2_count q]. (i, j) \<notin> B" using Cons.prems(6) by simp
    from check_l2_counted [OF c2 counted_fd [OF c1(1) f, folded q2] Cons.prems(4) distinct_upt this blk]
    have c3: "counted q3 E2 (insert i A) (B \<union> {i} \<times> {..<l2_count q})" and k3: "checks q2 q3" by (simp_all add: atLeast0LessThan)
    have k: "checks q q3" using checks_trans [OF ch k3] .
    have "l2_count q3 = l2_count q" using checksD(4) [OF k] by simp
    with Cons.IH [OF r c3 fin _ _ checks_known [OF k Cons.prems(7)]] nin Cons.prems(5) checks_trans [OF k]
    show ?thesis unfolding unA unB by simp
  qed
qed

text \<open>A range whose clusters are marked as metadata stays hidden.\<close>

definition metadata :: "'p qcow \<Rightarrow> nat \<Rightarrow> nat \<Rightarrow> bool" where
  "metadata q off n \<longleftrightarrow> off + n \<le> q_file_size q \<and>
     (\<forall>k. off \<le> k \<longrightarrow> k < off + n \<longrightarrow> k div q_cluster_size q < length (q_tags q) \<and> q_tags q ! (k div q_cluster_size q) = 1)"

lemma metadata_hidden: "metadata q off n \<Longrightarrow> hidden q off n"
  by (simp add: metadata_def hidden_def guest_tag_def)

lemma metadata_checks:
  assumes "checks q q'" and "metadata q off n"
  shows "metadata q' off n"
proof -
  note c = checksD [OF assms(1)]
  have "q_tags q' ! (k div q_cluster_size q) = 1" if "off \<le> k" "k < off + n" for k
    using c(10) [of "k div q_cluster_size q"] assms(2) that by (simp add: metadata_def)
  then show ?thesis using assms(2) unfolding metadata_def c(4,7,8) by blast
qed

lemma mark_metadata:
  assumes "mark_region E off bytes 1 q = (Inr E', q')" and "counted q E A B"
  shows "counted q' E' A B" and "checks q q'" and "metadata q' off bytes" and "off mod q_cluster_size q = 0"
    and "\<forall>n < q_host_count q. (q_tags q' ! n = 1) = (n \<in> region q off bytes \<or> q_tags q ! n = 1)"
proof -
  note m = mark_metadata_counted [OF assms]
  show "\<forall>n < q_host_count q. (q_tags q' ! n = 1) = (n \<in> region q off bytes \<or> q_tags q ! n = 1)" using m(7) by blast
  show "counted q' E' A B" "checks q q'" "off mod q_cluster_size q = 0" using m(1,2,4) by blast+
  have cs: "0 < q_cluster_size q" "length (q_tags q) = q_host_count q" using assms(2) by (simp_all add: counted_def)
  note c = checksD [OF m(2)]
  have "off + bytes \<le> q_file_size q" using m(5) by (simp add: range_valid_def) linarith
  then show "metadata q' off bytes" using m(3,6) [OF cs(1)] unfolding metadata_def c(4,7,8) cs(2) by blast
qed

lemma load_counts_length: "load_counts first hc block js R = Some R' \<Longrightarrow> length R' = length R"
proof (induction js arbitrary: R)
  case (Cons j rest)
  then show ?case by (auto simp: Let_def split: if_splits)
qed simp

lemma load_ref_blocks_counted:
  "load_ref_blocks E is q = (Inr E', q') \<Longrightarrow> counted q E {} {} \<Longrightarrow>
   counted q' E' {} {} \<and> checks q q' \<and> (\<forall>i \<in> set is. q_ref_table q ! i \<noteq> 0 \<longrightarrow> metadata q' (q_ref_table q ! i) (q_cluster_size q)) \<and>
   (\<forall>n < q_host_count q. (q_tags q' ! n = 1) =
     ((\<exists>i \<in> set is. q_ref_table q ! i \<noteq> 0 \<and> n \<in> region q (q_ref_table q ! i) (q_cluster_size q)) \<or> q_tags q ! n = 1))"
proof (induction "is" arbitrary: E q)
  case Nil
  then show ?case by (simp add: ret_def)
next
  case (Cons i rest)
  let ?o = "q_ref_table q ! i"
  show ?case
  proof (cases "?o = 0")
    case True
    with Cons.prems(1) have "load_ref_blocks E rest q = (Inr E', q')" by (simp add: bind_io_def get_io_def Let_def)
    from Cons.IH [OF this Cons.prems(2)] True show ?thesis by simp
  next
    case False
    with Cons.prems(1) obtain E1 q1 block q2 where m: "mark_region E ?o (q_cluster_size q) 1 q = (Inr E1, q1)"
      and rd: "read_at (q_cluster_size q) ?o q1 = (Inr block, q2)"
      and ld: "(case load_counts (i * refs_per_block q2) (q_host_count q2) block [0..<refs_per_block q2] (q_refs q2) of
         None \<Rightarrow> fail EINVAL
       | Some refs \<Rightarrow> bind_io (modify_io (\<lambda>q. q\<lparr>q_refs := refs\<rparr>)) (\<lambda>_. load_ref_blocks E1 rest)) q2 = (Inr E', q')"
      by (auto simp: bind_io_Inr get_io_def Let_def)
    from ld obtain R where R: "load_counts (i * refs_per_block q2) (q_host_count q2) block [0..<refs_per_block q2] (q_refs q2) = Some R"
      and r: "load_ref_blocks E1 rest (q2\<lparr>q_refs := R\<rparr>) = (Inr E', q')"
      by (auto simp: fail_def bind_io_def modify_io_def split: option.splits)
    note c1 = mark_metadata [OF m Cons.prems(2)]
    obtain f where q2: "q2 = q1\<lparr>q_fd := f\<rparr>" and f: "content f = content (q_fd q1)" using read_at_frame [OF rd] by blast
    have k2: "checks q2 (q2\<lparr>q_refs := R\<rparr>)" using load_counts_length [OF R] by (rule checks_refs)
    have k12: "checks q1 q2" unfolding q2 using checks_fd [OF f] .
    have k13: "checks q1 (q2\<lparr>q_refs := R\<rparr>)" using checks_trans [OF k12 k2] .
    have k: "checks q (q2\<lparr>q_refs := R\<rparr>)" using checks_trans [OF c1(2) k13] .
    have c3: "counted (q2\<lparr>q_refs := R\<rparr>) E1 {} {}" by (rule counted_same_tags [OF c1(1) k13]) (simp add: q2)
    from Cons.IH [OF r c3] have ih: "counted q' E' {} {}" "checks (q2\<lparr>q_refs := R\<rparr>) q'"
      "\<forall>i \<in> set rest. q_ref_table (q2\<lparr>q_refs := R\<rparr>) ! i \<noteq> 0 \<longrightarrow>
         metadata q' (q_ref_table (q2\<lparr>q_refs := R\<rparr>) ! i) (q_cluster_size (q2\<lparr>q_refs := R\<rparr>))"
      "\<forall>n < q_host_count (q2\<lparr>q_refs := R\<rparr>). (q_tags q' ! n = 1) =
        ((\<exists>i \<in> set rest. q_ref_table (q2\<lparr>q_refs := R\<rparr>) ! i \<noteq> 0 \<and>
           n \<in> region (q2\<lparr>q_refs := R\<rparr>) (q_ref_table (q2\<lparr>q_refs := R\<rparr>) ! i) (q_cluster_size (q2\<lparr>q_refs := R\<rparr>))) \<or>
         q_tags (q2\<lparr>q_refs := R\<rparr>) ! n = 1)" by blast+
    have eq: "q_ref_table (q2\<lparr>q_refs := R\<rparr>) = q_ref_table q" "q_cluster_size (q2\<lparr>q_refs := R\<rparr>) = q_cluster_size q"
      "q_host_count (q2\<lparr>q_refs := R\<rparr>) = q_host_count q"
      using checksD(4,5,11) [OF k] by blast+
    have rg: "region (q2\<lparr>q_refs := R\<rparr>) off n = region q off n" for off n unfolding region_def eq(2) by (rule refl)
    have tg: "q_tags (q2\<lparr>q_refs := R\<rparr>) = q_tags q1" by (simp add: q2)
    have "metadata q' ?o (q_cluster_size q)" using metadata_checks [OF checks_trans [OF k13 ih(2)] c1(3)] .
    moreover have "(q_tags q' ! n = 1) =
      ((\<exists>i \<in> set (i # rest). q_ref_table q ! i \<noteq> 0 \<and> n \<in> region q (q_ref_table q ! i) (q_cluster_size q)) \<or> q_tags q ! n = 1)"
      if "n < q_host_count q" for n
      using ih(4) [unfolded eq rg tg, rule_format, OF that] c1(5) [rule_format, OF that] False by auto
    ultimately show ?thesis using ih(1,3) checks_trans [OF k ih(2)] unfolding eq by simp
  qed
qed

text \<open>Validation is sound: every reference is to a cluster of its kind, and every count is exact.\<close>

lemma validate_tables_effect:
  assumes "validate_tables q = (Inr u, q')" and "file_known q" and "0 < q_cluster_size q"
    and "length (q_tags q) = q_host_count q" and "\<forall>n < q_host_count q. q_tags q ! n = 0"
    and "q_file_size q \<le> q_host_count q * q_cluster_size q"
  shows "checks q q'" and "counted q' (map ((!) (q_refs q')) [0..<q_host_count q]) {..<q_l1_size q} ({..<q_l1_size q} \<times> {..<l2_count q})"
    and "metadata q' 0 (q_cluster_size q)" and "metadata q' (q_l1_offset q) (q_l1_size q * 8)"
    and "metadata q' (q_ref_offset q) (q_ref_clusters q * q_cluster_size q)" and "q_ref_offset q mod q_cluster_size q = 0"
    and "\<forall>i < length (q_ref_table q). q_ref_table q ! i \<noteq> 0 \<longrightarrow> metadata q' (q_ref_table q ! i) (q_cluster_size q)"
    and "\<forall>n < q_host_count q. (q_tags q' ! n = 1) = (n \<in> metadata_clusters q)"
    and "2 \<le> q_cluster_size q \<Longrightarrow> q_refs q = replicate (q_host_count q) 0 \<Longrightarrow> q_refs q' = map (stored_count q) [0..<q_host_count q]"
proof -
  from assms(1) obtain q1 q2 E3 q3 E4 q4 E5 q5 E6 q6 E7 where m: "qcow_malloc q = (Inr (), q1)" "qcow_malloc q1 = (Inr (), q2)"
    and r3: "mark_region (replicate (q_host_count q) 0) 0 (q_cluster_size q) 1 q2 = (Inr E3, q3)"
    and r4: "mark_region E3 (q_l1_offset q) (q_l1_size q * 8) 1 q3 = (Inr E4, q4)"
    and r5: "mark_region E4 (q_ref_offset q) (q_ref_clusters q * q_cluster_size q) 1 q4 = (Inr E5, q5)"
    and r6: "load_ref_blocks E5 [0..<length (q_ref_table q)] q5 = (Inr E6, q6)"
    and r7: "check_l1 E6 [0..<q_l1_size q] q6 = (Inr E7, q')"
    and same: "list_all (\<lambda>i. E7 ! i = q_refs q' ! i) [0..<q_host_count q']"
    by (auto simp: validate_tables_def bind_io_Inr get_io_def fail_def ret_def split: if_splits)
  from qcow_malloc_frame [OF m(1)] qcow_malloc_frame [OF m(2)] obtain ms where q2: "q2 = q\<lparr>q_mallocs := ms\<rparr>" by auto
  have k2: "checks q q2" unfolding q2 by (rule checks_mallocs)
  have "counted q2 (replicate (q_host_count q) 0) {} {}"
    using assms(3-6) by (auto simp: counted_def q2)
  note c3 = mark_metadata [OF r3 this]
  note c4 = mark_metadata [OF r4 c3(1)]
  note c5 = mark_metadata [OF r5 c4(1)]
  from load_ref_blocks_counted [OF r6 c5(1)] have c6: "counted q6 E6 {} {}" "checks q5 q6"
    "\<forall>i \<in> set [0..<length (q_ref_table q)]. q_ref_table q5 ! i \<noteq> 0 \<longrightarrow> metadata q6 (q_ref_table q5 ! i) (q_cluster_size q5)"
    "\<forall>n < q_host_count q5. (q_tags q6 ! n = 1) = ((\<exists>i \<in> set [0..<length (q_ref_table q)].
       q_ref_table q5 ! i \<noteq> 0 \<and> n \<in> region q5 (q_ref_table q5 ! i) (q_cluster_size q5)) \<or> q_tags q5 ! n = 1)" by blast+
  have k3: "checks q q3" using checks_trans [OF k2 c3(2)] .
  have k4: "checks q q4" using checks_trans [OF k3 c4(2)] .
  have k5: "checks q q5" using checks_trans [OF k4 c5(2)] .
  have k6: "checks q q6" using checks_trans [OF k5 c6(2)] .
  from check_l1_counted [OF r7 c6(1) _ _ distinct_upt _ checks_known [OF k6 assms(2)]]
  have c7: "counted q' E7 {..<q_l1_size q} ({..<q_l1_size q} \<times> {..<l2_count q6})" "checks q6 q'"
    by (simp_all add: atLeast0LessThan)
  have k7: "checks q q'" using checks_trans [OF k6 c7(2)] .
  then show "checks q q'" .
  have hc: "q_host_count q' = q_host_count q" "q_cluster_size q6 = q_cluster_size q" using checksD(5) [OF k7] checksD(4) [OF k6] by simp_all
  have "length E7 = q_host_count q'" using c7(1) by (simp add: counted_def)
  then have "E7 = map ((!) (q_refs q')) [0..<q_host_count q]"
    using same hc by (intro nth_equalityI) (auto simp: list_all_iff)
  with c7(1) hc show "counted q' (map ((!) (q_refs q')) [0..<q_host_count q]) {..<q_l1_size q} ({..<q_l1_size q} \<times> {..<l2_count q})"
    by simp
  have k37: "checks q3 q'" using checks_trans [OF c4(2) checks_trans [OF c5(2) checks_trans [OF c6(2) c7(2)]]] .
  have k47: "checks q4 q'" using checks_trans [OF c5(2) checks_trans [OF c6(2) c7(2)]] .
  have k57: "checks q5 q'" using checks_trans [OF c6(2) c7(2)] .
  show "metadata q' 0 (q_cluster_size q)" using metadata_checks [OF k37 c3(3)] .
  show "metadata q' (q_l1_offset q) (q_l1_size q * 8)" using metadata_checks [OF k47 c4(3)] .
  show "metadata q' (q_ref_offset q) (q_ref_clusters q * q_cluster_size q)" using metadata_checks [OF k57 c5(3)] .
  show "q_ref_offset q mod q_cluster_size q = 0" using c5(4) checksD(4) [OF k4] by simp
  show "\<forall>i < length (q_ref_table q). q_ref_table q ! i \<noteq> 0 \<longrightarrow> metadata q' (q_ref_table q ! i) (q_cluster_size q)"
    using c6(3) metadata_checks [OF c7(2)] checksD(4,11) [OF k5] by simp
  have rg: "region q2 = region q" "region q3 = region q" "region q4 = region q" "region q5 = region q"
    using checksD(4) [OF k2] checksD(4) [OF k3] checksD(4) [OF k4] checksD(4) [OF k5] by (simp_all add: region_def fun_eq_iff)
  note mk = check_l1_marks [OF r7]
  show "\<forall>n < q_host_count q. (q_tags q' ! n = 1) = (n \<in> metadata_clusters q)"
  proof (intro allI impI)
    fix n assume n: "n < q_host_count q"
    have hcs: "q_host_count q2 = q_host_count q" "q_host_count q3 = q_host_count q" "q_host_count q4 = q_host_count q"
      "q_host_count q5 = q_host_count q" "length (q_tags q6) = q_host_count q"
      using checksD(5) [OF k2] checksD(5) [OF k3] checksD(5) [OF k4] checksD(5) [OF k5] checksD(8) [OF k6] assms(4) by simp_all
    have "(q_tags q' ! n = 1) = (q_tags q6 ! n = 1)"
      using mk checksD(10) [OF c7(2), of n] n hcs(5) by (auto simp: marks_def)
    also have "\<dots> = ((\<exists>i \<in> set [0..<length (q_ref_table q)].
       q_ref_table q ! i \<noteq> 0 \<and> n \<in> region q (q_ref_table q ! i) (q_cluster_size q)) \<or> q_tags q5 ! n = 1)"
      using c6(4) n unfolding hcs rg checksD(4,11) [OF k5] by blast
    also have "(q_tags q5 ! n = 1) = (n \<in> region q 0 (q_cluster_size q) \<or> n \<in> region q (q_l1_offset q) (q_l1_size q * 8) \<or>
       n \<in> region q (q_ref_offset q) (q_ref_clusters q * q_cluster_size q))"
      using c3(5) c4(5) c5(5) n assms(5) unfolding hcs rg by (auto simp: q2)
    finally show "(q_tags q' ! n = 1) = (n \<in> metadata_clusters q)" by (auto simp: metadata_clusters_def)
  qed
  show "q_refs q' = map (stored_count q) [0..<q_host_count q]"
    if cs2: "2 \<le> q_cluster_size q" and z: "q_refs q = replicate (q_host_count q) 0"
  proof -
    have q5: "q_refs q5 = q_refs q" "q_ref_table q5 = q_ref_table q" "content (q_fd q5) = content (q_fd q)"
      using mark_region_frame [OF r3] mark_region_frame [OF r4] mark_region_frame [OF r5] by (auto simp: q2)
    have c: "q_cluster_size q5 = q_cluster_size q" "q_host_count q5 = q_host_count q"
      using checksD(4,5) [OF k5] by blast+
    have sc: "stored_count q5 n = stored_count q n" for n unfolding stored_count_def q5 c by (rule refl)
    have "length (q_refs q5) = q_host_count q5" "\<forall>i \<in> set [0..<length (q_ref_table q)]. i < length (q_ref_table q5)"
      using z by (simp_all add: q5 c)
    from load_ref_blocks_values [OF r6 checks_known [OF k5 assms(2)] _ this] cs2
    have v: "loads q5 q6" "\<forall>n < q_host_count q. q_refs q6 ! n = (if n div refs_per_block q < length (q_ref_table q) \<and>
      q_ref_table q ! (n div refs_per_block q) \<noteq> 0 then stored_count q n else q_refs q ! n)" by (simp_all add: c q5 sc)
    have "q_refs q6 ! n = stored_count q n" if "n < q_host_count q" for n
      using v(2) that z by (auto simp: stored_count_def Let_def)
    moreover have "length (q_refs q6) = q_host_count q" using loadsD(5) [OF v(1)] z by (simp add: q5)
    moreover have "q_refs q' = q_refs q6" using mk by (simp add: marks_def)
    ultimately show ?thesis by (intro nth_equalityI) simp_all
  qed
qed

section \<open>Opening\<close>

lemma load_table_frame:
  "load_table off is q = (Inr es, q') \<Longrightarrow> length es = length is \<and> (\<exists>f. q' = q\<lparr>q_fd := f\<rparr> \<and> content f = content (q_fd q))"
proof (induction "is" arbitrary: q es)
  case Nil
  then show ?case by (auto simp: ret_def intro: exI [of _ "q_fd q"])
next
  case (Cons i rest)
  then obtain e q1 es1 where r: "read_u64 (u64 (off + i * 8)) q = (Inr e, q1)" and l: "load_table off rest q1 = (Inr es1, q')"
    and es: "es = e # es1" by (auto simp: bind_io_Inr ret_def)
  obtain f where "q1 = q\<lparr>q_fd := f\<rparr>" "content f = content (q_fd q)" using read_u64_frame [OF r] by blast
  with Cons.IH [OF l] es show ?case by auto
qed

lemma header_extensions_frame:
  "header_extensions ext ext_end b q = (Inr s, q') \<Longrightarrow> \<exists>f. q' = q\<lparr>q_fd := f\<rparr> \<and> content f = content (q_fd q)"
proof (induction "ext_end + 8 - ext" arbitrary: ext b q rule: less_induct)
  case less
  show ?case
  proof (cases "ext_end < ext + 8")
    case True
    with less.prems have "q' = q" by (subst (asm) header_extensions.simps) simp
    then show ?thesis by (intro exI [of _ "q_fd q"]) simp
  next
    case False
    with less.prems obtain e q1 where r: "read_at 8 ext q = (Inr e, q1)"
      by (subst (asm) header_extensions.simps) (auto split: prod.splits sum.splits)
    obtain f1 where q1: "q1 = q\<lparr>q_fd := f1\<rparr>" "content f1 = content (q_fd q)" using read_at_frame [OF r] by blast
    show ?thesis
    proof (cases "q' = q1")
      case True
      with q1 show ?thesis by blast
    next
      case ne: False
      let ?len = "nextufs__read_be32 e 4"
      let ?next = "ext + 8 + (?len + 7) div 8 * 8"
      let ?T = "nextufs__read_be32 e 0"
      have T: "?T \<noteq> 0" using less.prems False r ne by - (rule notI, subst (asm) header_extensions.simps, simp add: Let_def)
      have L: "\<not> ext_end - ext - 8 < ?len"
        using less.prems False r T by - (rule notI, subst (asm) header_extensions.simps, simp add: Let_def)
      have "\<exists>b2 q2. header_extensions ?next ext_end b2 q2 = (Inr s, q') \<and> (q2 = q1 \<or> (\<exists>n o1 x. read_at n o1 q1 = (Inr x, q2))) \<and> ?next \<le> ext_end"
      proof (cases "?T = 0xe2792aca")
        case True
        have ok: "\<not> (8 \<le> ?len \<or> ?len = 0 \<or> b \<noteq> [])"
          using less.prems False r T L True by - (rule notI, subst (asm) header_extensions.simps, simp add: Let_def)
        obtain x q2 where x: "read_at ?len (ext + 8) q1 = (x, q2)" by (cases "read_at ?len (ext + 8) q1")
        obtain y where y: "x = Inr y"
          using less.prems False r T L True ok x by (cases x) (subst (asm) header_extensions.simps, simp add: Let_def)+
        have k: "known_format y"
          using less.prems False r T L True ok x y by - (rule ccontr, subst (asm) header_extensions.simps, simp add: Let_def)
        have st: "\<not> ext_end < ?next"
          using less.prems False r T L True ok x y k by - (rule notI, subst (asm) header_extensions.simps, simp add: Let_def)
        have "header_extensions ?next ext_end y q2 = (Inr s, q')"
          using less.prems False r T L True ok x y k st by (subst (asm) header_extensions.simps) (simp add: Let_def)
        with x y st show ?thesis by (metis not_less)
      next
        case nb: False
        have k: "\<not> (?T = 0x23852875 \<or> ?T = 0x0537be77 \<or> ?T = 0x44415441)"
          using less.prems False r T L nb by - (rule notI, subst (asm) header_extensions.simps, simp add: Let_def)
        have st: "\<not> ext_end < ?next"
          using less.prems False r T L nb k by - (rule notI, subst (asm) header_extensions.simps, simp add: Let_def)
        have "header_extensions ?next ext_end b q1 = (Inr s, q')"
          using less.prems False r T L nb k st by (subst (asm) header_extensions.simps) (simp add: Let_def)
        with st show ?thesis by (metis not_less)
      qed
      then obtain b2 q2 where h: "header_extensions ?next ext_end b2 q2 = (Inr s, q')"
        and q2: "q2 = q1 \<or> (\<exists>n o1 x. read_at n o1 q1 = (Inr x, q2))" and step: "?next \<le> ext_end" by blast
      obtain f2 where f2: "q2 = q1\<lparr>q_fd := f2\<rparr>" "content f2 = content (q_fd q1)"
      proof -
        have "\<exists>f. q2 = q1\<lparr>q_fd := f\<rparr> \<and> content f = content (q_fd q1)"
          using q2 read_at_frame by (metis qcow.surjective qcow.update_convs(1))
        then show ?thesis using that by blast
      qed
      have "ext_end + 8 - ?next < ext_end + 8 - ext" using step by linarith
      from less.hyps [OF this h] f2 q1 show ?thesis by auto
    qed
  qed
qed

lemma open_backing_frame:
  assumes "open_backing parent path o1 n fmt q = (Inr u, q')" and "\<And>b raw p r. parent b raw = Inr (p, r) \<Longrightarrow> linv p"
  shows "\<exists>f p. q' = q\<lparr>q_fd := f, q_parent := Some p\<rparr> \<and> content f = content (q_fd q) \<and> linv p"
proof -
  from assms(1) obtain name q1 resolved p r where rd: "read_at n o1 q = (Inr name, q1)"
    and p: "parent resolved (fmt = [0x72, 0x61, 0x77]) = Inr (p, r)" and q': "q' = q1\<lparr>q_parent := Some p\<rparr>"
    by (auto simp: open_backing_def bind_io_Inr modify_io_def fail_def ret_def split: if_splits sum.splits)
  obtain f where "q1 = q\<lparr>q_fd := f\<rparr>" "content f = content (q_fd q)" using read_at_frame [OF rd] by blast
  with q' assms(2) [OF p] show ?thesis by auto
qed

text \<open>What the header must say, and what opening the tables makes of it.\<close>

definition header_ok :: "'p qcow \<Rightarrow> bool" where
  "header_ok q \<longleftrightarrow> \<not> q_raw q \<and> 512 \<le> q_cluster_size q \<and> q_cluster_size q mod 512 = 0 \<and> q_cluster_size q \<le> 2 ^ 21 \<and>
     q_size q < 2 ^ 63 \<and> q_size q \<le> q_l1_size q * l2_count q * q_cluster_size q \<and> 0 < q_ref_clusters q"

lemma allocate_arrays_effect:
  assumes "allocate_arrays q = (Inr u, q')"
  shows "let hc = (q_file_size q + q_cluster_size q - 1) div q_cluster_size q; n = q_ref_clusters q * l2_count q in
    hc \<le> QCOW_MAX_CLUSTERS \<and> (\<exists>ms. q' = q\<lparr>q_host_count := hc, q_l1 := replicate (q_l1_size q) 0,
      q_ref_table := replicate n 0, q_refs := replicate hc 0, q_tags := replicate hc 0, q_ref_dirty := replicate n False, q_mallocs := ms\<rparr>)"
proof -
  let ?hc = "(q_file_size q + q_cluster_size q - 1) div q_cluster_size q"
  let ?q = "q\<lparr>q_host_count := ?hc\<rparr>"
  from assms obtain q1 q2 q3 q4 q5 where hc: "\<not> QCOW_MAX_CLUSTERS < ?hc"
    and m: "qcow_malloc ?q = (Inr (), q1)" "qcow_malloc q1 = (Inr (), q2)" "qcow_malloc q2 = (Inr (), q3)"
      "qcow_malloc q3 = (Inr (), q4)" "qcow_malloc q4 = (Inr (), q5)"
    and q': "q' = q5\<lparr>q_l1 := replicate (q_l1_size q5) 0, q_ref_table := replicate (q_ref_clusters q * l2_count q) 0,
         q_refs := replicate (q_host_count q5) 0, q_tags := replicate (q_host_count q5) 0,
         q_ref_dirty := replicate (q_ref_clusters q * l2_count q) False\<rparr>"
    by (auto simp: allocate_arrays_def bind_io_Inr get_io_def modify_io_def fail_def Let_def split: if_splits)
  obtain ms where "q5 = ?q\<lparr>q_mallocs := ms\<rparr>"
    using qcow_malloc_frame [OF m(1)] qcow_malloc_frame [OF m(2)] qcow_malloc_frame [OF m(3)]
      qcow_malloc_frame [OF m(4)] qcow_malloc_frame [OF m(5)] by auto
  with hc q' show ?thesis by (simp add: Let_def) (rule exI [of _ ms], simp)
qed

lemma seen_users:
  "l2_seen q {..<q_l1_size q} n = l2_users q n" "data_seen q ({..<q_l1_size q} \<times> {..<l2_count q}) n = data_users q n"
  by (auto simp: l2_seen_def l2_users_def data_seen_def data_users_def)

lemma ceil_clusters:
  assumes "0 < (cs :: nat)"
  shows "n \<le> (n + cs - 1) div cs * cs"
proof -
  have "(n + cs - 1) mod cs \<le> cs - 1" using mod_less_divisor [OF assms, of "n + cs - 1"] by linarith
  moreover have "(n + cs - 1) div cs * cs + (n + cs - 1) mod cs = n + cs - 1" by simp
  ultimately show ?thesis using assms by linarith
qed

text \<open>The tables of a file that opens are sound.\<close>

lemma counts_of_counted:
  assumes "counted q (map ((!) (q_refs q)) [0..<q_host_count q]) {..<q_l1_size q} ({..<q_l1_size q} \<times> {..<l2_count q})"
    and "\<forall>n < q_host_count q. (q_tags q ! n = 1) = (n \<in> metadata_clusters q)"
  shows "counts_exact q"
  unfolding counts_exact_def
proof (intro allI impI)
  fix n assume n: "n < q_host_count q"
  have o: "q_tags q ! n \<le> 3 \<and> (q_tags q ! n = 0 \<longrightarrow> q_refs q ! n = 0) \<and> (q_tags q ! n = 1 \<longrightarrow> q_refs q ! n = 1) \<and>
      (q_tags q ! n = 3 \<longrightarrow> q_refs q ! n = card (l2_users q n)) \<and> (q_tags q ! n = 2 \<longrightarrow> q_refs q ! n = card (data_users q n))"
    using assms(1) n unfolding counted_def seen_users by simp
  have l: "l2_users q n = {}" if "q_tags q ! n \<noteq> 3"
    using assms(1) that by (auto simp: counted_def l2_users_def mapped_def)
  have d: "data_users q n = {}" if "q_tags q ! n \<noteq> 2"
    using assms(1) that by (auto simp: counted_def data_users_def mapped_def)
  consider "q_tags q ! n = 0" | "q_tags q ! n = 1" | "q_tags q ! n = 2" | "q_tags q ! n = 3" using o by linarith
  then show "q_refs q ! n = (if n \<in> metadata_clusters q then 1 else 0) + card (l2_users q n) + card (data_users q n)"
    unfolding assms(2) [rule_format, OF n, symmetric] using o l d by cases simp_all
qed

lemma open_tables_ok:
  assumes "open_tables parent path hdr q = (Inr u, q')" and "header_ok q" and "file_known q" and "q_parent q = None"
    and "\<And>b raw p r. parent b raw = Inr (p, r) \<Longrightarrow> linv p"
  shows "qcow_ok linv q' \<and> counts_exact q' \<and> tables_stored q' \<and> (\<exists>f l1 tab R T D p ms. q' = q\<lparr>q_fd := f, q_l1 := l1,
    q_ref_table := tab, q_refs := R, q_tags := T, q_ref_dirty := D, q_parent := p, q_mallocs := ms,
    q_host_count := (q_file_size q + q_cluster_size q - 1) div q_cluster_size q\<rparr> \<and> content f = content (q_fd q))"
proof -
  let ?cs = "q_cluster_size q"
  define hc where "hc = (q_file_size q + ?cs - 1) div ?cs"
  define n where "n = q_ref_clusters q * l2_count q"
  from assms(1) obtain q1 l1 q2 tab q3 ext bf q4 q5 bo o1 bl where a: "allocate_arrays q = (Inr (), q1)"
    and t1: "read_table (q_l1_offset q1) (q_l1_size q1) q1 = (Inr l1, q2)"
    and t2: "read_table (q_ref_offset q1) (length (q_ref_table q1)) (q2\<lparr>q_l1 := l1\<rparr>) = (Inr tab, q3)"
    and h: "header_extensions ext o1 [] (q3\<lparr>q_ref_table := tab\<rparr>) = (Inr bf, q4)"
    and v: "validate_tables q4 = (Inr (), q5)"
    and b: "(if bo = 0 then ret () else open_backing parent path bo bl bf) q5 = (Inr u, q')"
    by (auto simp: open_tables_def bind_io_Inr get_io_def modify_io_def Let_def)
  obtain ms where hcm: "hc \<le> QCOW_MAX_CLUSTERS" and q1: "q1 = q\<lparr>q_host_count := hc, q_l1 := replicate (q_l1_size q) 0,
      q_ref_table := replicate n 0, q_refs := replicate hc 0, q_tags := replicate hc 0, q_ref_dirty := replicate n False, q_mallocs := ms\<rparr>"
    using allocate_arrays_effect [OF a] by (auto simp: Let_def hc_def n_def)
  obtain f2 where q2: "q2 = q1\<lparr>q_fd := f2\<rparr>" "content f2 = content (q_fd q1)" and l1: "length l1 = q_l1_size q1"
    using load_table_frame [OF t1 [unfolded read_table_def]] by auto
  obtain f3 where q3: "q3 = q2\<lparr>q_l1 := l1, q_fd := f3\<rparr>" "content f3 = content (q_fd q2)" and tab: "length tab = n"
    using load_table_frame [OF t2 [unfolded read_table_def]] by (auto simp: q1)
  obtain f4 where f4: "q4 = q3\<lparr>q_ref_table := tab, q_fd := f4\<rparr>" "content f4 = content (q_fd q3)"
    using header_extensions_frame [OF h] by auto
  have q4: "q4 = q\<lparr>q_host_count := hc, q_l1 := l1, q_ref_table := tab, q_refs := replicate hc 0, q_tags := replicate hc 0,
      q_ref_dirty := replicate n False, q_mallocs := ms, q_fd := f4\<rparr>" and c4: "content f4 = content (q_fd q)"
    by (simp_all add: f4 q3 q2 q1)
  have cs: "0 < ?cs" using assms(2) by (simp add: header_ok_def)
  have fk: "file_known q4" using assms(3) by (simp add: file_known_def q4 c4)
  have "q_file_size q \<le> hc * ?cs" unfolding hc_def using ceil_clusters [OF cs] .
  then have fs: "q_file_size q4 \<le> q_host_count q4 * q_cluster_size q4" by (simp add: q4)
  have cs4: "0 < q_cluster_size q4" and lt: "length (q_tags q4) = q_host_count q4" and z: "\<forall>n < q_host_count q4. q_tags q4 ! n = 0"
    using cs by (simp_all add: q4)
  note ve = validate_tables_effect [OF v fk cs4 lt z fs]
  obtain f5 T R m5 where q5: "q5 = q4\<lparr>q_fd := f5, q_tags := T, q_refs := R, q_mallocs := m5\<rparr>" and c5: "content f5 = content (q_fd q4)"
    and lens: "length T = hc" "length R = hc"
    using ve(1) unfolding checks_def by (auto simp: q4)
  have fl: "q_cluster_size q5 = ?cs" "q_l1_size q5 = q_l1_size q" "q_l1_offset q5 = q_l1_offset q" "q_ref_offset q5 = q_ref_offset q"
    "q_ref_clusters q5 = q_ref_clusters q" "q_host_count q5 = hc" "q_raw q5 = q_raw q" "q_size q5 = q_size q" "q_file_size q5 = q_file_size q"
    "q_ref_table q5 = tab" "q_l1 q5 = l1" "q_refs q5 = R" "q_tags q5 = T" "length (q_ref_dirty q5) = n" "q_parent q5 = None" "q_fd q5 = f5"
    using assms(4) by (simp_all add: q5 q4)
  have hid: "hidden q5 0 ?cs" "hidden q5 (q_l1_offset q) (q_l1_size q * 8)" "hidden q5 (q_ref_offset q) (q_ref_clusters q * ?cs)"
    "\<forall>i < length tab. tab ! i \<noteq> 0 \<longrightarrow> hidden q5 (tab ! i) ?cs"
    using ve(3-5,7) by (auto intro: metadata_hidden simp: q4)
  have tab0: "tab \<noteq> []"
  proof -
    have "512 \<le> ?cs" "0 < q_ref_clusters q" using assms(2) by (simp_all add: header_ok_def)
    then have "0 < n" by (simp add: n_def)
    with tab show ?thesis by auto
  qed
  have st: "qcow_struct q5"
    unfolding struct_defs fl
    using assms(2,3) hcm fs lens tab tab0 l1 hid ve(6) hidden_part [OF hid(1), of 0 512]
    by (auto simp: header_ok_def file_known_def c5 c4 q4 q1 n_def)
  have ct: "counted q5 (map ((!) R) [0..<hc]) {..<q_l1_size q5} ({..<q_l1_size q5} \<times> {..<l2_count q5})"
    using ve(2) by (simp add: fl) (simp add: q4 fl)
  have "qcow_map q5"
    using ct lens unfolding counted_def qcow_map_def seen_users by (auto simp: fl)
  then have ok5: "qcow_ok linv q5" using st by (simp add: qcow_ok_def fl)
  have tg: "\<forall>n < q_host_count q5. (q_tags q5 ! n = 1) = (n \<in> metadata_clusters q5)"
  proof -
    have "metadata_clusters q5 = metadata_clusters q4" unfolding metadata_clusters_def region_def by (simp add: q5)
    then show ?thesis using ve(8) by (simp add: q5)
  qed
  have ex5: "counts_exact q5" using counts_of_counted [OF _ tg] ct by (simp add: fl)
  have "l1 = map (\<lambda>i. read_be64 (content (q_fd q1)) (u64 (q_l1_offset q + i * 8))) [0..<q_l1_size q]"
    using load_table_values [OF t1 [unfolded read_table_def]] assms(3) by (simp add: q1 file_known_def)
  moreover have "tab = map (\<lambda>i. read_be64 (content (q_fd q2)) (u64 (q_ref_offset q + i * 8))) [0..<n]"
    using load_table_values [OF t2 [unfolded read_table_def]] assms(3) q2(2) by (simp add: q2 q1 file_known_def)
  moreover have "u64 (q_l1_offset q + i * 8) = q_l1_offset q + i * 8" if "i < q_l1_size q" for i
  proof -
    have "q_l1_offset q + q_l1_size q * 8 \<le> q_file_size q" using hid(2) by (simp add: hidden_def fl)
    then show ?thesis using that assms(3) by (intro u64_id) (simp add: file_known_def)
  qed
  moreover have "u64 (q_ref_offset q + i * 8) = q_ref_offset q + i * 8" if "i < n" for i
  proof -
    have "q_ref_offset q + q_ref_clusters q * ?cs \<le> q_file_size q" using hid(3) by (simp add: hidden_def fl)
    moreover have "n * 8 \<le> q_ref_clusters q * ?cs" by (simp add: n_def mult.assoc)
    ultimately show ?thesis using that assms(3) by (intro u64_id) (simp add: file_known_def)
  qed
  moreover have "R = map (stored_count q5) [0..<hc]"
  proof -
    have "stored_count q5 k = stored_count q4 k" for k by (simp add: stored_count_def q5 c5 Let_def)
    moreover have "2 \<le> q_cluster_size q4" using assms(2) by (simp add: header_ok_def q4)
    ultimately show ?thesis using ve(9) by (simp add: fl q4)
  qed
  moreover have c2: "content (q_fd q1) = content (q_fd q)" "content (q_fd q2) = content (q_fd q)"
    using q2(2) unfolding q2(1) by (simp_all add: q1)
  moreover have "content (q_fd q5) = content (q_fd q)"
    using f4(2) q3(2) c2(2) c5 unfolding fl(16) f4(1) q3(1) by simp
  ultimately have ts5: "tables_stored q5"
    by (simp add: tables_stored_def fl n_def)
  have fr: "q5 = q\<lparr>q_fd := f5, q_l1 := l1, q_ref_table := tab, q_refs := R, q_tags := T, q_ref_dirty := replicate n False,
     q_parent := None, q_mallocs := m5, q_host_count := hc\<rparr>" using assms(4) by (simp add: q5 q4)
  have cf5: "content f5 = content (q_fd q)" using c4 by (simp add: c5 q4)
  show ?thesis
  proof (cases "bo = 0")
    case True
    with b have q': "q' = q5" by (simp add: ret_def)
    show ?thesis unfolding q' hc_def [symmetric] using ok5 ex5 ts5 fr cf5 by blast
  next
    case False
    with b have "open_backing parent path bo bl bf q5 = (Inr u, q')" by simp
    from open_backing_frame [OF this, of linv] assms(5) obtain f p where q': "q' = q5\<lparr>q_fd := f, q_parent := Some p\<rparr>"
      and f: "content f = content (q_fd q5)" and p: "linv p" by blast
    note s = swapped_file [OF f, of "Some p", folded q']
    have "q_parent q' = Some p" by (simp add: q')
    then have ok: "qcow_ok linv q'" using s(4,5) ok5 p by (simp add: qcow_ok_def)
    have us: "l2_users q' k = l2_users q5 k" "data_users q' k = data_users q5 k" "metadata_clusters q' = metadata_clusters q5" for k
      unfolding l2_users_def data_users_def metadata_clusters_def region_def l2_entry_def l1_off_def using f by (simp_all add: q')
    have ex: "counts_exact q'" using ex5 unfolding counts_exact_def us by (simp add: q')
    have "stored_count q' k = stored_count q5 k" for k using f by (simp add: stored_count_def q' Let_def)
    then have ts: "tables_stored q'" using ts5 f unfolding tables_stored_def by (simp add: q')
    have fr': "q' = q\<lparr>q_fd := f, q_l1 := l1, q_ref_table := tab, q_refs := R, q_tags := T, q_ref_dirty := replicate n False,
     q_parent := Some p, q_mallocs := m5, q_host_count := hc\<rparr>" unfolding q' fr by simp
    have "content f = content (q_fd q)" using f cf5 by (simp add: fl)
    with ok ex ts fr' show ?thesis unfolding hc_def [symmetric] by blast
  qed
qed

section \<open>Opening is sound\<close>

lemma header_checked:
  assumes "\<not> header_unsupported hdr (header_fields hdr q)" and "\<not> header_bad hdr (header_fields hdr q)" and "\<not> q_raw q"
  shows "header_ok (header_fields hdr q)"
proof -
  let ?q = "header_fields hdr q" and ?b = "nextufs__read_be32 hdr 20"
  have b: "9 \<le> ?b" "?b \<le> 21" using assms(1) by (simp_all add: header_unsupported_def header_fields_def)
  have "(2 :: nat) ^ ?b \<le> 2 ^ 21" using b by (intro power_increasing) simp_all
  then have cs: "q_cluster_size ?q = 2 ^ ?b" using b by (simp add: header_fields_def u32_def)
  have split: "(2 :: nat) ^ ?b = 512 * 2 ^ (?b - 9)" using b power_add [of "2 :: nat" 9 "?b - 9"] by simp
  have c: "512 \<le> q_cluster_size ?q" "q_cluster_size ?q mod 512 = 0" "q_cluster_size ?q \<le> 2 ^ 21"
    using \<open>(2 :: nat) ^ ?b \<le> 2 ^ 21\<close> unfolding cs by (simp_all add: split)
  have n: "\<not> q_l1_size ?q * l2_count ?q < q_size ?q div q_cluster_size ?q + (if q_size ?q mod q_cluster_size ?q = 0 then 0 else 1)"
    "\<not> 2 ^ 63 - 1 < q_size ?q" "q_ref_clusters ?q \<noteq> 0"
    using assms(2) by (simp_all add: header_bad_def Let_def)
  have "q_size ?q \<le> q_l1_size ?q * l2_count ?q * q_cluster_size ?q"
  proof -
    have ceil: "n \<le> (n div cs + (if n mod cs = 0 then 0 else 1)) * cs" if "0 < cs" for n cs :: nat
    proof -
      have a: "n mod cs < cs" "n = n div cs * cs + n mod cs" using that by simp_all
      have "n mod cs \<le> (if n mod cs = 0 then 0 else 1) * cs" using a(1) by simp
      then show ?thesis unfolding add_mult_distrib using a(2) by linarith
    qed
    have "0 < q_cluster_size ?q" using c(1) by linarith
    from ceil [OF this, of "q_size ?q"] mult_le_mono1 [OF n(1) [unfolded not_less], of "q_cluster_size ?q"]
    show ?thesis by linarith
  qed
  then show ?thesis using c n assms(3) by (simp add: header_ok_def header_fields_def)
qed

lemma qcow_open_cases:
  fixes parent :: "byte list \<Rightarrow> bool \<Rightarrow> errno + 'p \<times> bool"
  assumes "qcow_open parent depth opened rw force_raw ms path f = Inr q"
  obtains st ms' g where "opened = Inr st" and "content g = content f"
      and "q = as_raw ((qcow_blank g 0 rw ms')\<lparr>q_file_size := st\<rparr>)"
    | st ms' g hdr u where "opened = Inr st" and "content g = content f"
      and "nextufs__read_be32 hdr 0 = QCOW_MAGIC"
      and "st = length (content f) \<Longrightarrow> st < 2 ^ 63 \<Longrightarrow> hdr = bytes_at 0 (min st 104) (content f) @ replicate (104 - min st 104) 0"
      and "\<not> header_unsupported hdr (header_fields hdr ((qcow_blank g 0 rw ms' :: 'p qcow)\<lparr>q_file_size := st\<rparr>))"
      and "\<not> header_bad hdr (header_fields hdr ((qcow_blank g 0 rw ms' :: 'p qcow)\<lparr>q_file_size := st\<rparr>))"
      and "open_tables parent path hdr (header_fields hdr ((qcow_blank g 0 rw ms' :: 'p qcow)\<lparr>q_file_size := st\<rparr>)) = (Inr u, q)"
proof -
  let ?b = "\<lambda>g ms' st. (qcow_blank g 0 rw ms' :: 'p qcow)\<lparr>q_file_size := st\<rparr>"
  from assms obtain q0 st where m: "qcow_malloc (qcow_blank f 0 rw ms) = (Inr (), q0)" and st: "opened = Inr st"
    and rest: "(if force_raw then Inr (as_raw (q0\<lparr>q_file_size := st\<rparr>))
            else case read_at (min st 104) 0 (q0\<lparr>q_file_size := st\<rparr>) of
              (Inl e, _) \<Rightarrow> Inl e
            | (Inr bs, q) \<Rightarrow>
                (let hdr = bs @ replicate (104 - length bs) 0; q' = header_fields hdr q in
                 if nextufs__read_be32 hdr 0 \<noteq> QCOW_MAGIC then
                   (if 0x44 \<le> st then (case read_at 4 0x40 q of
                        (Inr sig, q) \<Rightarrow> if sig = [0x7f, 0x10, 0xda, 0xbe] then Inl ENOTSUP else Inr (as_raw q)
                      | (Inl _, q) \<Rightarrow> Inr (as_raw q))
                    else Inr (as_raw q))
                 else if header_unsupported hdr q' then Inl ENOTSUP
                 else if header_bad hdr q' then Inl EINVAL
                 else case open_tables parent path hdr q' of (Inl e, _) \<Rightarrow> Inl e | (Inr _, q) \<Rightarrow> Inr q)) = Inr q"
    unfolding qcow_open_def by (auto split: if_splits prod.splits sum.splits)
  obtain ms' where "q0 = (qcow_blank f 0 rw ms)\<lparr>q_mallocs := ms'\<rparr>" using qcow_malloc_frame [OF m] by blast
  then have q0: "q0\<lparr>q_file_size := st\<rparr> = ?b f ms' st" and fd: "\<And>g g'. (?b g ms' st)\<lparr>q_fd := g'\<rparr> = ?b g' ms' st"
    "\<And>g. q_fd (?b g ms' st) = g"
    by (simp_all add: qcow_blank_def)
  show thesis
  proof (cases force_raw)
    case True
    with rest q0 have "q = as_raw (?b f ms' st)" by simp
    then show thesis using that(1) [OF st refl] by blast
  next
    case False
    obtain r1 q1 where "read_at (min st 104) 0 (?b f ms' st) = (r1, q1)" by (cases "read_at (min st 104) 0 (?b f ms' st)")
    with rest False obtain bs where rd: "read_at (min st 104) 0 (?b f ms' st) = (Inr bs, q1)"
      unfolding q0 by (cases r1) simp_all
    from read_at_frame [OF this] obtain g where g: "q1 = ?b g ms' st" "content g = content f" unfolding fd by blast
    let ?h = "bs @ replicate (104 - length bs) 0"
    have hb: "?h = bytes_at 0 (min st 104) (content f) @ replicate (104 - min st 104) 0"
      if "st = length (content f)" "st < 2 ^ 63"
    proof -
      have "file_known (?b f ms' st)" using that by (simp add: file_known_def qcow_blank_def)
      from read_at_Inr(1,3) [OF rd this] show ?thesis unfolding fd by simp
    qed
    show thesis
    proof (cases "nextufs__read_be32 ?h 0 = QCOW_MAGIC")
      case True
      with rest False rd have u: "\<not> header_unsupported ?h (header_fields ?h q1)" "\<not> header_bad ?h (header_fields ?h q1)"
        and "\<exists>u. open_tables parent path ?h (header_fields ?h q1) = (Inr u, q)"
        unfolding q0 by (auto simp: Let_def split: if_splits prod.splits sum.splits)
      then obtain u where "open_tables parent path ?h (header_fields ?h q1) = (Inr u, q)" by blast
      then show thesis using that(2) [OF st g(2) True hb] u unfolding g(1) by blast
    next
      case nm: False
      obtain r q2 where r: "read_at 4 0x40 q1 = (r, q2)" by (cases "read_at 4 0x40 q1")
      obtain g2 where g2: "q2 = ?b g2 ms' st" "content g2 = content f"
        using read_at_frame [OF r] g(2) unfolding g(1) fd by auto
      have "q = as_raw q1 \<or> q = as_raw q2"
        using rest False rd nm r unfolding q0 by (auto simp: Let_def split: sum.splits if_splits)
      then show thesis using that(1) [OF st g(2)] that(1) [OF st g2(2)] unfolding g(1) g2(1) by blast
    qed
  qed
qed

lemma header_words_stored:
  assumes "hdr = bytes_at 0 (min st 104) c @ replicate (104 - min st 104) 0" and "st = length c" and "104 \<le> st"
  shows "p + 4 \<le> 104 \<Longrightarrow> nextufs__read_be32 hdr p = nextufs__read_be32 c p"
    and "p + 8 \<le> 104 \<Longrightarrow> read_be64 hdr p = read_be64 c p"
proof -
  have h: "hdr ! k = c ! k" if "k < 104" for k using that assms by simp
  show "p + 4 \<le> 104 \<Longrightarrow> nextufs__read_be32 hdr p = nextufs__read_be32 c p"
    by (simp add: read_be32_eq h)
  show "p + 8 \<le> 104 \<Longrightarrow> read_be64 hdr p = read_be64 c p" by (intro read_be64_cong) (simp add: h)
qed

text \<open>
  C21. A file that opens, as a qcow2 layer or as a raw one, can be read; opening does not change the file;
  and a qcow2 layer is what the file says. Its sizes and offsets are the words of the header, its first
  table, its reference table and its counts are the words at those offsets. Its tables are sound:
  every entry refers to a cluster of its kind inside the file, metadata overlaps neither guest data nor
  tables, and every count is exact, being the number of entries that refer to the cluster,
  and one more for a cluster of the header, the two tables or a block of counts. So reads and writes of it
  are faithful. The parents are any layers with the invariant \<open>linv\<close>; a qcow2 layer opened in
  this way is one.
\<close>

theorem qcow_open_sound:
  fixes linv :: "'p \<Rightarrow> bool"
  assumes "qcow_open parent depth opened rw force_raw ms path f = Inr q"
    and "\<And>sz. opened = Inr sz \<Longrightarrow> sz = length (content f) \<and> sz < 2 ^ 63"
    and "\<And>b raw p r. parent b raw = Inr (p, r) \<Longrightarrow> linv p"
  shows "qcow_readable linv q \<and> content (q_fd q) = content f \<and>
    (if q_raw q then q_size q = length (content f)
     else qcow_ok linv q \<and> header_stored q \<and> tables_stored q \<and> counts_exact q)"
proof (cases rule: qcow_open_cases [OF assms(1)])
  case (1 st ms' g)
  have "st = length (content f)" "st < 2 ^ 63" using assms(2) [OF 1(1)] by simp_all
  then show ?thesis using 1(2) unfolding 1(3) by (simp add: qcow_readable_def as_raw_def qcow_blank_def)
next
  case (2 st ms' g hdr u)
  let ?b = "(qcow_blank g 0 rw ms' :: 'p qcow)\<lparr>q_file_size := st\<rparr>"
  have st: "st = length (content f)" "st < 2 ^ 63" using assms(2) [OF 2(1)] by simp_all
  have "\<not> q_raw ?b" by (simp add: qcow_blank_def)
  note ho = header_checked [OF 2(5,6) this]
  have "file_known (header_fields hdr ?b)" "q_parent (header_fields hdr ?b) = None"
    using st 2(2) by (simp_all add: file_known_def header_fields_def qcow_blank_def)
  from open_tables_ok [OF 2(7) ho this, of linv] assms(3)
  have ok: "qcow_ok linv q" "counts_exact q" "tables_stored q" and "\<exists>f l1 tab R T D p ms. q = (header_fields hdr ?b)
    \<lparr>q_fd := f, q_l1 := l1, q_ref_table := tab, q_refs := R, q_tags := T, q_ref_dirty := D, q_parent := p, q_mallocs := ms,
     q_host_count := (q_file_size (header_fields hdr ?b) + q_cluster_size (header_fields hdr ?b) - 1) div q_cluster_size (header_fields hdr ?b)\<rparr> \<and>
    content f = content (q_fd (header_fields hdr ?b))" by blast+
  then obtain h l1 tab R T D p mm where q: "q = (header_fields hdr ?b)
    \<lparr>q_fd := h, q_l1 := l1, q_ref_table := tab, q_refs := R, q_tags := T, q_ref_dirty := D, q_parent := p, q_mallocs := mm,
     q_host_count := (q_file_size (header_fields hdr ?b) + q_cluster_size (header_fields hdr ?b) - 1) div q_cluster_size (header_fields hdr ?b)\<rparr>"
    and h: "content h = content (q_fd (header_fields hdr ?b))" by blast
  have c: "content (q_fd q) = content f" using h 2(2) by (simp add: q header_fields_def qcow_blank_def)
  have raw: "\<not> q_raw q" by (simp add: q header_fields_def qcow_blank_def)
  have "512 \<le> q_file_size q" using ok(1) raw by (auto simp: qcow_ok_def struct_defs hidden_def)
  then have "104 \<le> st" by (simp add: q header_fields_def qcow_blank_def)
  note w = header_words_stored [OF 2(4) [OF st] st(1) this]
  have cs: "u32 (2 ^ (nextufs__read_be32 hdr 20 mod 32)) = 2 ^ nextufs__read_be32 hdr 20"
  proof -
    have "nextufs__read_be32 hdr 20 \<le> 21" using 2(5) by (simp add: header_unsupported_def header_fields_def)
    moreover from this have "(2 :: nat) ^ nextufs__read_be32 hdr 20 \<le> 2 ^ 21" by (intro power_increasing) simp_all
    ultimately show ?thesis by (simp add: u32_def)
  qed
  have "header_stored q"
    unfolding header_stored_def Let_def c
    using 2(3) st(1) cs by (simp add: q header_fields_def qcow_blank_def w)
  then show ?thesis using ok c raw qcow_ok_readable by auto
qed

section \<open>A small file\<close>

lemma calm_read_at:
  assumes "script (q_fd q) = []" and "file_known q" and "off + n \<le> q_file_size q" and "0 < n"
  shows "read_at n off q = (Inr (bytes_at off n (content (q_fd q))), q)"
proof -
  have "range_valid q off n" using assms(3) by (simp add: range_valid_def)
  moreover have "to_off off = int off" using assms(2,3) by (intro to_off_id) (simp add: file_known_def)
  moreover have "nextufs__read_exact_fd n (int off) (q_fd q) = (Inr (bytes_at off n (content (q_fd q))), q_fd q)"
  proof -
    have "length (bytes_at off n (content (q_fd q))) = n" using assms(2,3) by (simp add: file_known_def)
    then show ?thesis using assms(1,4)
      by (auto simp: nextufs__read_exact_fd_def read_fd_loop.simps pread_def)
  qed
  ultimately show ?thesis by (simp add: read_at_def bind_io_def get_io_def qcow_fd_io_def)
qed

lemma calm_read_u64:
  assumes "script (q_fd q) = []" and "file_known q" and "off + 8 \<le> q_file_size q"
  shows "read_u64 off q = (Inr (read_be64 (content (q_fd q)) off), q)"
proof -
  have "read_be64 (bytes_at off 8 (content (q_fd q))) 0 = read_be64 (content (q_fd q)) off"
    using assms(2,3) by (intro read_be64_cong) (simp add: file_known_def)
  then show ?thesis using calm_read_at [OF assms(1,2,3)] by (simp add: read_u64_def bind_io_def ret_def)
qed

lemma calm_load_table:
  "script (q_fd q) = [] \<Longrightarrow> file_known q \<Longrightarrow> \<forall>i \<in> set is. off + i * 8 + 8 \<le> q_file_size q \<Longrightarrow>
   load_table off is q = (Inr (map (\<lambda>i. read_be64 (content (q_fd q)) (off + i * 8)) is), q)"
proof (induction "is")
  case (Cons i rest)
  have "u64 (off + i * 8) = off + i * 8" using Cons.prems(2,3) by (intro u64_id) (simp add: file_known_def)
  then show ?case using Cons calm_read_u64 [of q "off + i * 8"] by (simp add: bind_io_def ret_def)
qed (simp add: ret_def)

lemma load_counts_beyond:
  "\<forall>j \<in> set js. hc \<le> j \<and> nextufs__read_be16 block (j * 2) = 0 \<Longrightarrow> load_counts 0 hc block js R = Some R"
  by (induction js) (auto simp: Let_def)

lemma load_counts_append:
  "load_counts a hc block (xs @ ys) R = (case load_counts a hc block xs R of None \<Rightarrow> None | Some R' \<Rightarrow> load_counts a hc block ys R')"
  by (induction xs arbitrary: R) (auto simp: Let_def)

lemma load_ref_blocks_none:
  "\<forall>i \<in> set is. q_ref_table q ! i = 0 \<Longrightarrow> load_ref_blocks E is q = (Inr E, q)"
  by (induction "is") (simp_all add: ret_def bind_io_def get_io_def Let_def)

text \<open>Header, first table, reference table with one block, and the block: four clusters of 512 bytes.\<close>

definition sample_header :: "byte list" where
  "sample_header = [0x51, 0x46, 0x49, 0xfb, 0, 0, 0, 3, 0, 0, 0, 0, 0, 0, 0, 0, 0, 0, 0, 0, 0, 0, 0, 9, 0, 0, 0, 0, 0, 0, 0, 4,
     0, 0, 0, 0, 0, 0, 0, 1, 0, 0, 0, 0, 0, 0, 2, 0, 0, 0, 0, 0, 0, 0, 4, 0, 0, 0, 0, 1, 0, 0, 0, 0, 0, 0, 0, 0, 0, 0, 0, 0,
     0, 0, 0, 0, 0, 0, 0, 0, 0, 0, 0, 0, 0, 0, 0, 0, 0, 0, 0, 0, 0, 0, 0, 0, 0, 0, 0, 4, 0, 0, 0, 104]"

definition sample_ref_entry :: "byte list" where
  "sample_ref_entry = [0, 0, 0, 0, 0, 0, 6, 0]"

definition sample_ref_counts :: "byte list" where
  "sample_ref_counts = [0, 1, 0, 1, 0, 1, 0, 1]"

lemma length_sample_parts [simp]:
  "length sample_header = 104" "length sample_ref_entry = 8" "length sample_ref_counts = 8"
  by (simp_all add: sample_header_def sample_ref_entry_def sample_ref_counts_def)

definition sample_qcow_bytes :: "byte list" where
  "sample_qcow_bytes = sample_header @ replicate 408 0 @ replicate 512 0 @
     (sample_ref_entry @ replicate 504 0) @ (sample_ref_counts @ replicate 504 0)"

definition sample_fd :: hostfile where
  "sample_fd = \<lparr>content = sample_qcow_bytes, script = []\<rparr>"

lemma length_sample_qcow: "length sample_qcow_bytes = 2048"
  by (simp add: sample_qcow_bytes_def)

lemma sample_qcow_nth:
  "k < 104 \<Longrightarrow> sample_qcow_bytes ! k = sample_header ! k"
  "104 \<le> k \<Longrightarrow> k < 1024 \<Longrightarrow> sample_qcow_bytes ! k = 0"
  "k < 512 \<Longrightarrow> sample_qcow_bytes ! (1024 + k) = (sample_ref_entry @ replicate 504 0) ! k"
  "k < 512 \<Longrightarrow> sample_qcow_bytes ! (1536 + k) = (sample_ref_counts @ replicate 504 0) ! k"
proof -
  show "k < 104 \<Longrightarrow> sample_qcow_bytes ! k = sample_header ! k"
    by (simp add: sample_qcow_bytes_def nth_append)
  show "104 \<le> k \<Longrightarrow> k < 1024 \<Longrightarrow> sample_qcow_bytes ! k = 0"
    by (simp add: sample_qcow_bytes_def nth_append)
  show "k < 512 \<Longrightarrow> sample_qcow_bytes ! (1024 + k) = (sample_ref_entry @ replicate 504 0) ! k"
    by (auto simp: sample_qcow_bytes_def nth_append)
  show "k < 512 \<Longrightarrow> sample_qcow_bytes ! (1536 + k) = (sample_ref_counts @ replicate 504 0) ! k"
    by (simp add: sample_qcow_bytes_def nth_append)
qed

lemma sample_table: "map (\<lambda>i. read_be64 sample_qcow_bytes (1024 + i * 8)) [0..<64] = 1536 # replicate 63 0"
proof -
  have "read_be64 sample_qcow_bytes (1024 + i * 8) = (1536 # replicate 63 0) ! i" if "i < 64" for i
  proof (cases "i = 0")
    case True
    have "read_be64 sample_qcow_bytes 1024 = read_be64 (sample_ref_entry @ replicate 504 0) 0"
      using sample_qcow_nth(3) by (intro read_be64_cong) simp
    also have "\<dots> = 1536" by (simp add: sample_ref_entry_def read_be64_eq read_be32_eq)
    finally show ?thesis using True by simp
  next
    case False
    have "read_be64 sample_qcow_bytes (1024 + i * 8) = read_be64 (replicate 512 0) (i * 8)"
    proof (rule read_be64_cong)
      fix t :: nat assume t: "t < 8"
      have "8 \<le> i * 8 + t" "i * 8 + t < 512" using False that t by linarith+
      then show "sample_qcow_bytes ! (1024 + i * 8 + t) = replicate 512 0 ! (i * 8 + t)"
        using sample_qcow_nth(3) [of "i * 8 + t"] by (simp add: nth_append add.assoc)
    qed
    also have "\<dots> = 0" using that by (intro read_be64_zeros) simp
    finally show ?thesis using False that by (simp add: nth_Cons')
  qed
  then show ?thesis by (intro nth_equalityI) simp_all
qed

lemma sample_l1_table: "read_be64 sample_qcow_bytes 512 = 0"
proof -
  have "read_be64 sample_qcow_bytes 512 = read_be64 (replicate 8 0) 0"
    using sample_qcow_nth(2) by (intro read_be64_cong) simp
  then show ?thesis by (simp add: read_be64_zeros)
qed

lemma sample_counts: "load_counts 0 4 (bytes_at 1536 512 sample_qcow_bytes) [0..<256] [0, 0, 0, 0] = Some [1, 1, 1, 1]"
proof -
  let ?b = "bytes_at 1536 512 sample_qcow_bytes"
  have b: "?b ! k = (sample_ref_counts @ replicate 504 0) ! k" if "k < 512" for k
    using that sample_qcow_nth(4) by (simp add: length_sample_qcow)
  have z: "nextufs__read_be16 ?b (j * 2) = 0" if "4 \<le> j" "j < 256" for j
    using that b [of "j * 2"] b [of "j * 2 + 1"] by (simp add: read_be16_eq nth_append)
  have o: "nextufs__read_be16 ?b (j * 2) = 1" if "j < 4" for j
  proof -
    have "j = 0 \<or> j = 1 \<or> j = 2 \<or> j = 3" using that by linarith
    then show ?thesis using b [of "j * 2"] b [of "j * 2 + 1"] by (auto simp: read_be16_eq sample_ref_counts_def)
  qed
  have four: "[0..<4] = [0, 1, 2, 3 :: nat]" by (simp add: upt_rec)
  have "[0..<256] = [0..<4] @ [4..<256 :: nat]" using upt_add_eq_append [of 0 4 252] by simp
  then have sp: "[0..<256] = [0, 1, 2, 3] @ [4..<256 :: nat]" unfolding four .
  have first: "load_counts 0 4 ?b [0, 1, 2, 3] [0, 0, 0, 0] = Some [1, 1, 1, 1]"
    using o [of 0] o [of 1] o [of 2] o [of 3] by (simp add: Let_def)
  have "load_counts 0 4 ?b [4..<256] [1, 1, 1, 1] = Some [1, 1, 1, 1]"
  proof (rule load_counts_beyond)
    show "\<forall>j \<in> set [4..<256]. 4 \<le> j \<and> nextufs__read_be16 ?b (j * 2) = 0"
      unfolding set_upt using z by auto
  qed
  then show ?thesis unfolding sp load_counts_append first by simp
qed


lemma sample_header_words:
  "nextufs__read_be32 sample_header 0 = QCOW_MAGIC" "nextufs__read_be32 sample_header 4 = 3" "nextufs__read_be32 sample_header 16 = 0"
  "nextufs__read_be32 sample_header 20 = 9" "nextufs__read_be32 sample_header 32 = 0" "nextufs__read_be32 sample_header 36 = 1"
  "nextufs__read_be32 sample_header 56 = 1" "nextufs__read_be32 sample_header 60 = 0" "nextufs__read_be32 sample_header 96 = 4"
  "nextufs__read_be32 sample_header 100 = 104" "read_be64 sample_header 8 = 0" "read_be64 sample_header 24 = 4"
  "read_be64 sample_header 40 = 512" "read_be64 sample_header 48 = 1024" "read_be64 sample_header 72 = 0"
  "read_be64 sample_header 80 = 0" "read_be64 sample_header 88 = 0"
  by (simp_all add: sample_header_def read_be64_eq read_be32_eq QCOW_MAGIC_def)

definition sample_read :: "nat list \<Rightarrow> nat list \<Rightarrow> unit qcow" where
  "sample_read refs tags = (qcow_blank sample_fd 0 True [])\<lparr>q_file_size := 2048, q_version := 3, q_cluster_bits := 9, q_size := 4,
     q_l1_size := 1, q_l1_offset := 512, q_ref_offset := 1024, q_ref_clusters := 1, q_cluster_size := 512, q_host_count := 4,
     q_l1 := [0], q_ref_table := 1536 # replicate 63 0, q_refs := refs, q_tags := tags, q_ref_dirty := replicate 64 False\<rparr>"

lemma sample_read_fields:
  "q_fd (sample_read R T) = sample_fd" "q_file_size (sample_read R T) = 2048" "q_cluster_size (sample_read R T) = 512"
  "q_host_count (sample_read R T) = 4" "q_l1 (sample_read R T) = [0]" "q_l1_size (sample_read R T) = 1"
  "q_ref_table (sample_read R T) = 1536 # replicate 63 0" "q_refs (sample_read R T) = R" "q_tags (sample_read R T) = T"
  "q_mallocs (sample_read R T) = []" "q_l1_offset (sample_read R T) = 512" "q_ref_offset (sample_read R T) = 1024"
  "q_ref_clusters (sample_read R T) = 1" "q_version (sample_read R T) = 3" "q_raw (sample_read R T) = False"
  "(sample_read R T)\<lparr>q_tags := T'\<rparr> = sample_read R T'" "(sample_read R T)\<lparr>q_refs := R'\<rparr> = sample_read R' T"
  by (simp_all add: sample_read_def qcow_blank_def)

lemma sample_known: "file_known (sample_read R T)" "script (q_fd (sample_read R T)) = []"
  by (simp_all add: file_known_def sample_read_fields sample_fd_def length_sample_qcow)

lemma sample_validates: "validate_tables (sample_read (replicate 4 0) (replicate 4 0)) = (Inr (), sample_read [1, 1, 1, 1] [1, 1, 1, 1])"
proof -
  have m: "qcow_malloc (sample_read R T) = (Inr (), sample_read R T)" for R T by (simp add: qcow_malloc_def sample_read_fields)
  have r: "mark_region E off bytes tag (sample_read R T) = (if off mod 512 \<noteq> 0 \<or> \<not> (off \<le> 2048 \<and> bytes \<le> 2048 - off) then (Inl EINVAL, sample_read R T)
     else if 4 < off div 512 \<or> 4 - off div 512 < (bytes + 512 - 1) div 512 then (Inl EINVAL, sample_read R T)
     else case mark_clusters tag [off div 512..<off div 512 + (bytes + 512 - 1) div 512] (E, T) of
       Inl e \<Rightarrow> (Inl e, sample_read R T) | Inr (E', T') \<Rightarrow> (Inr E', sample_read R T'))" for E off bytes tag R T
    by (simp add: mark_region_def io_defs range_valid_def sample_read_fields Let_def split: sum.split prod.split)
  have f: "load_ref_blocks E [0..<64] (sample_read [0, 0, 0, 0] [1, 1, 1, 0]) = (Inr (E[3 := E ! 3 + 1]), sample_read [1, 1, 1, 1] [1, 1, 1, 1])"
    if "E ! 3 = 0" for E
  proof -
    have up: "[0..<64] = 0 # [1..<64 :: nat]" by (simp add: upt_conv_Cons)
    have rd: "read_at 512 1536 (sample_read [0, 0, 0, 0] [1, 1, 1, 1]) = (Inr (bytes_at 1536 512 sample_qcow_bytes), sample_read [0, 0, 0, 0] [1, 1, 1, 1])"
      using calm_read_at [OF sample_known(2,1), of 1536 512 "[0, 0, 0, 0]" "[1, 1, 1, 1]"] by (simp add: sample_read_fields sample_fd_def)
    have rest: "load_ref_blocks E' [1..<64] (sample_read [1, 1, 1, 1] [1, 1, 1, 1]) = (Inr E', sample_read [1, 1, 1, 1] [1, 1, 1, 1])" for E'
      by (rule load_ref_blocks_none) (auto simp: sample_read_fields nth_Cons')
    have m3: "mark_region E 1536 512 1 (sample_read [0, 0, 0, 0] [1, 1, 1, 0]) = (Inr (E[3 := E ! 3 + 1]), sample_read [0, 0, 0, 0] [1, 1, 1, 1])"
      using that by (simp add: r)
    show ?thesis
      unfolding up load_ref_blocks.simps
      by (simp add: bind_io_def get_io_def modify_io_def sample_read_fields m3 rd rest sample_counts Let_def del: One_nat_def)
  qed
  have u01: "[0..<1] = [0 :: nat]" and u12: "[1..<2] = [1 :: nat]" and u23: "[2..<3] = [2 :: nat]" by (simp_all add: upt_rec)
  have m0: "mark_region [0, 0, 0, 0] 0 512 1 (sample_read [0, 0, 0, 0] [0, 0, 0, 0]) = (Inr [1, 0, 0, 0], sample_read [0, 0, 0, 0] [1, 0, 0, 0])"
    using u01 by (simp add: r)
  have m1: "mark_region [1, 0, 0, 0] 512 8 1 (sample_read [0, 0, 0, 0] [1, 0, 0, 0]) = (Inr [1, 1, 0, 0], sample_read [0, 0, 0, 0] [1, 1, 0, 0])"
    using u12 by (simp add: r)
  have m2: "mark_region [1, 1, 0, 0] 1024 512 1 (sample_read [0, 0, 0, 0] [1, 1, 0, 0]) = (Inr [1, 1, 1, 0], sample_read [0, 0, 0, 0] [1, 1, 1, 0])"
    using u23 by (simp add: r)
  have z: "replicate 4 0 = [0, 0, 0, 0 :: nat]" by (simp add: numeral_eq_Suc)
  have l: "load_ref_blocks [1, 1, 1, 0] [0..<length (1536 # replicate 63 0 :: nat list)] (sample_read [0, 0, 0, 0] [1, 1, 1, 0]) =
      (Inr [1, 1, 1, 1], sample_read [1, 1, 1, 1] [1, 1, 1, 1])"
    using f [of "[1, 1, 1, 0]"] by simp
  have c: "check_l1 [1, 1, 1, 1] [0..<1] (sample_read [1, 1, 1, 1] [1, 1, 1, 1]) = (Inr [1, 1, 1, 1], sample_read [1, 1, 1, 1] [1, 1, 1, 1])"
    unfolding u01 by (simp add: bind_io_def get_io_def sample_read_fields ret_def Let_def)
  have e: "list_all (\<lambda>i. [1, 1, 1, 1 :: nat] ! i = [1, 1, 1, 1] ! i) [0..<4]" by (simp add: list_all_iff)
  show ?thesis
    unfolding validate_tables_def bind_io_def z
    by (simp only: get_io_def m sample_read_fields z m0 m1 m2 l c e sum.case prod.case if_True mult_1 mult_1_left ret_def)
qed


lemma sample_opens:
  "qcow_open (\<lambda>_ _. Inl ENOENT) 0 (Inr 2048) True False [] [] sample_fd = Inr (sample_read [1, 1, 1, 1] [1, 1, 1, 1] :: unit qcow)"
proof -
  let ?q0 = "(qcow_blank sample_fd 0 True [] :: unit qcow)\<lparr>q_file_size := 2048\<rparr>"
  have k: "file_known ?q0" "script (q_fd ?q0) = []"
    by (simp_all add: file_known_def qcow_blank_def sample_fd_def length_sample_qcow)
  have hdr: "bytes_at 0 104 sample_qcow_bytes = sample_header" by (simp add: bytes_at_def sample_qcow_bytes_def)
  have rd: "read_at 104 0 ?q0 = (Inr sample_header, ?q0)"
    using calm_read_at [OF k(2,1), of 0 104] hdr by (simp add: qcow_blank_def sample_fd_def)
  let ?q1 = "header_fields sample_header ?q0"
  have q1: "?q1 = ?q0\<lparr>q_version := 3, q_cluster_bits := 9, q_size := 4, q_l1_size := 1, q_l1_offset := 512, q_ref_offset := 1024,
     q_ref_clusters := 1, q_cluster_size := 512\<rparr>"
    by (simp add: header_fields_def sample_header_words u32_def)
  have u: "\<not> header_unsupported sample_header ?q1" unfolding q1
    by (simp add: header_unsupported_def sample_header_words)
  have b: "\<not> header_bad sample_header ?q1" unfolding q1
    by (simp add: header_bad_def sample_header_words Let_def range_valid_def QCOW_MAX_L1_BYTES_def QCOW_MAX_REF_BYTES_def)
  let ?q2 = "?q1\<lparr>q_host_count := 4, q_l1 := [0], q_ref_table := replicate 64 0, q_refs := replicate 4 0, q_tags := replicate 4 0,
     q_ref_dirty := replicate 64 False\<rparr>"
  have a: "allocate_arrays ?q1 = (Inr (), ?q2)"
    unfolding q1 by (simp add: allocate_arrays_def io_defs qcow_malloc_def qcow_blank_def QCOW_MAX_CLUSTERS_def Let_def)
  have k2: "file_known ?q2" "script (q_fd ?q2) = []" using k by (simp_all add: file_known_def header_fields_def)
  have f2: "q_file_size ?q2 = 2048" "q_fd ?q2 = sample_fd" "q_l1_offset ?q2 = 512" "q_l1_size ?q2 = 1" "q_ref_offset ?q2 = 1024"
    "length (q_ref_table ?q2) = 64" "q_version ?q2 = 3" "q_cluster_size ?q2 = 512" "?q2\<lparr>q_l1 := [0]\<rparr> = ?q2"
    unfolding q1 by (simp_all add: qcow_blank_def)
  have t1: "read_table 512 1 ?q2 = (Inr [0], ?q2)"
    unfolding read_table_def using calm_load_table [OF k2(2,1), of "[0..<1]" 512] f2(1,2) sample_l1_table by (simp add: sample_fd_def)
  have t2: "read_table 1024 64 ?q2 = (Inr (1536 # replicate 63 0), ?q2)"
    unfolding read_table_def using calm_load_table [OF k2(2,1), of "[0..<64]" 1024] f2(1,2) sample_table by (simp add: sample_fd_def)
  let ?q4 = "?q2\<lparr>q_ref_table := 1536 # replicate 63 0\<rparr>"
  have q4: "?q4 = sample_read (replicate 4 0) (replicate 4 0)" unfolding q1 by (simp add: sample_read_def)
  have "nextufs__read_be32 (bytes_at 104 8 sample_qcow_bytes) 0 = 0"
    using sample_qcow_nth(2) by (simp add: read_be32_eq length_sample_qcow)
  then have h: "header_extensions 104 512 [] ?q4 = (Inr [], ?q4)"
    unfolding q4 using calm_read_at [OF sample_known(2,1), of 104 8]
    by (subst header_extensions.simps) (simp add: sample_read_fields sample_fd_def Let_def)
  define q2 where "q2 = ?q2"
  have v: "q_version q2 = 3" "q_cluster_size q2 = 512" unfolding q2_def by (simp_all add: f2 del: One_nat_def)
  have g: "q_l1_offset q2 = 512" "q_l1_size q2 = 1" "q_ref_offset q2 = 1024" "length (q_ref_table q2) = 64"
    "q_l1_update (\<lambda>_. [0]) q2 = q2"
    "q_ref_table_update (\<lambda>_. 1536 # replicate 63 0) q2 = sample_read (replicate 4 0) (replicate 4 0)"
    unfolding q2_def q4 [symmetric] by (simp_all add: f2 del: One_nat_def)
  have "open_tables (\<lambda>_ _. Inl ENOENT) [] sample_header ?q1 = (Inr (), sample_read [1, 1, 1, 1] [1, 1, 1, 1])"
    unfolding open_tables_def bind_io_def a [folded q2_def]
    by (simp del: One_nat_def add: get_io_def modify_io_def g t1 [folded q2_def] t2 [folded q2_def] sample_header_words
        h [unfolded q4] sample_read_fields sample_validates ret_def Let_def v)
  then show ?thesis
    using rd u b by (simp add: qcow_open_def QCOW_MAX_DEPTH_def qcow_malloc_def qcow_blank_def sample_header_words Let_def)
qed

theorem qcow_open_sound_witness:
  "let q = (sample_read [1, 1, 1, 1] [1, 1, 1, 1] :: unit qcow) in
   qcow_ok (\<lambda>_. False) q \<and> header_stored q \<and> tables_stored q \<and> counts_exact q"
  using qcow_open_sound [OF sample_opens, of "\<lambda>_. False"]
  by (simp add: sample_read_fields sample_fd_def length_sample_qcow Let_def)

end
