(* ===== verification/Label.thy ===== *)
theory Label
  imports Image
begin

text \<open>
  The NeXT disk label of \<^verbatim>\<open>src/core/label.c\<close>: the checksum, decoding, the choice of the slice that
  holds the file system, writing the four copies of a fresh label, checking that a label describes a
  single slice, and changing the size of that slice in place.
\<close>

section \<open>Layout\<close>

abbreviation (input) DEV_SECTOR_SIZE :: nat where "DEV_SECTOR_SIZE \<equiv> 512"
abbreviation (input) LABEL_COPY_COUNT :: nat where "LABEL_COPY_COUNT \<equiv> 4"
abbreviation (input) LABEL_COPY_STRIDE :: nat where "LABEL_COPY_STRIDE \<equiv> 7680"
abbreviation (input) LABEL_VALIDATE_SIZE :: nat where "LABEL_VALIDATE_SIZE \<equiv> 0x660"
abbreviation (input) LABEL_WRITE_SIZE :: nat where "LABEL_WRITE_SIZE \<equiv> 0x300"
abbreviation (input) LABEL_CKSUM_SIZE :: nat where "LABEL_CKSUM_SIZE \<equiv> 0x230"
abbreviation (input) DL_V1 :: nat where "DL_V1 \<equiv> 0x4e655854"
abbreviation (input) DL_V2 :: nat where "DL_V2 \<equiv> 0x646c5632"
abbreviation (input) DL_V3 :: nat where "DL_V3 \<equiv> 0x646c5633"
abbreviation (input) DL_DISKTAB_OFF :: nat where "DL_DISKTAB_OFF \<equiv> 0x02c"
abbreviation (input) DL_V3_CKSUM_OFF :: nat where "DL_V3_CKSUM_OFF \<equiv> 0x22e"
abbreviation (input) DL_CKSUM_OFF :: nat where "DL_CKSUM_OFF \<equiv> 0x1c58"
abbreviation (input) DL_V3_CKSUM_SIZE :: nat where "DL_V3_CKSUM_SIZE \<equiv> 0x230"
abbreviation (input) DT_NAME_OFF :: nat where "DT_NAME_OFF \<equiv> 0x000"
abbreviation (input) DT_TYPE_OFF :: nat where "DT_TYPE_OFF \<equiv> 0x018"
abbreviation (input) DT_SECSIZE_OFF :: nat where "DT_SECSIZE_OFF \<equiv> 0x032"
abbreviation (input) DT_NTRACKS_OFF :: nat where "DT_NTRACKS_OFF \<equiv> 0x036"
abbreviation (input) DT_NSECTORS_OFF :: nat where "DT_NSECTORS_OFF \<equiv> 0x03a"
abbreviation (input) DT_NCYLINDERS_OFF :: nat where "DT_NCYLINDERS_OFF \<equiv> 0x03e"
abbreviation (input) DT_RPM_OFF :: nat where "DT_RPM_OFF \<equiv> 0x042"
abbreviation (input) DT_FRONT_OFF :: nat where "DT_FRONT_OFF \<equiv> 0x044"
abbreviation (input) DT_BACK_OFF :: nat where "DT_BACK_OFF \<equiv> 0x046"
abbreviation (input) DT_BOOT0_BLKNO_OFF :: nat where "DT_BOOT0_BLKNO_OFF \<equiv> 0x056"
abbreviation (input) DT_BOOTFILE_OFF :: nat where "DT_BOOTFILE_OFF \<equiv> 0x058"
abbreviation (input) DT_HOSTNAME_OFF :: nat where "DT_HOSTNAME_OFF \<equiv> 0x070"
abbreviation (input) DT_ROOTPART_OFF :: nat where "DT_ROOTPART_OFF \<equiv> 0x090"
abbreviation (input) DT_RWPART_OFF :: nat where "DT_RWPART_OFF \<equiv> 0x091"
abbreviation (input) DT_PARTITIONS_OFF :: nat where "DT_PARTITIONS_OFF \<equiv> 0x094"
abbreviation (input) DT_PARTITION_SIZE :: nat where "DT_PARTITION_SIZE \<equiv> 0x040"
abbreviation (input) PART_BASE_OFF :: nat where "PART_BASE_OFF \<equiv> 0x00"
abbreviation (input) PART_SIZE_OFF :: nat where "PART_SIZE_OFF \<equiv> 0x03"
abbreviation (input) PART_BSIZE_OFF :: nat where "PART_BSIZE_OFF \<equiv> 0x06"
abbreviation (input) PART_FSIZE_OFF :: nat where "PART_FSIZE_OFF \<equiv> 0x08"
abbreviation (input) PART_OPT_OFF :: nat where "PART_OPT_OFF \<equiv> 0x0a"
abbreviation (input) PART_CPG_OFF :: nat where "PART_CPG_OFF \<equiv> 0x0c"
abbreviation (input) PART_DENSITY_OFF :: nat where "PART_DENSITY_OFF \<equiv> 0x0e"
abbreviation (input) PART_MINFREE_OFF :: nat where "PART_MINFREE_OFF \<equiv> 0x10"
abbreviation (input) PART_NEWFS_OFF :: nat where "PART_NEWFS_OFF \<equiv> 0x11"
abbreviation (input) PART_AUTOMNT_OFF :: nat where "PART_AUTOMNT_OFF \<equiv> 0x22"
abbreviation (input) PART_TYPE_OFF :: nat where "PART_TYPE_OFF \<equiv> 0x23"
abbreviation (input) PART_UNUSED_BASE :: nat where "PART_UNUSED_BASE \<equiv> 0xffffff"
abbreviation (input) PART_UNUSED_SIZE :: nat where "PART_UNUSED_SIZE \<equiv> 0xffffff"
abbreviation (input) NEXTUFS_LABEL_FRONT_PORCH_BYTES :: nat where "NEXTUFS_LABEL_FRONT_PORCH_BYTES \<equiv> 163840"
abbreviation (input) NEXTUFS_LABEL_SECTOR_SIZE :: nat where "NEXTUFS_LABEL_SECTOR_SIZE \<equiv> 1024"
abbreviation (input) NEXTUFS_LABEL_DEV_SECTOR_SIZE :: nat where "NEXTUFS_LABEL_DEV_SECTOR_SIZE \<equiv> 512"
abbreviation (input) NEXTUFS_LABEL_SCAN_LIMIT :: nat where "NEXTUFS_LABEL_SCAN_LIMIT \<equiv> 131072"
abbreviation (input) NEXTUFS_LABEL_DECODE_SIZE :: nat where "NEXTUFS_LABEL_DECODE_SIZE \<equiv> 0x1c5a"
abbreviation (input) NEXTUFS_LABEL_PART_COUNT :: nat where "NEXTUFS_LABEL_PART_COUNT \<equiv> 8"
abbreviation (input) NEXTUFS_LABEL_NAME_LEN :: nat where "NEXTUFS_LABEL_NAME_LEN \<equiv> 24"
abbreviation (input) NEXTUFS_LABEL_FSTYPE_LEN :: nat where "NEXTUFS_LABEL_FSTYPE_LEN \<equiv> 8"

text \<open>A C string without its terminator.\<close>

record nextufs_label_partition =
  p_present :: bool
  p_base_blocks :: nat
  p_size_blocks :: nat
  p_block_size :: nat
  p_frag_size :: nat
  p_type :: "byte list"

record nextufs_disk_label =
  dl_label_off :: int
  dl_version :: nat
  dl_label_blkno :: nat
  dl_secsize :: nat
  dl_front :: nat
  dl_name :: "byte list"
  dl_rootpartition :: byte
  dl_part :: "nextufs_label_partition list"
  dl_checksum :: nat
  dl_checksum_valid :: bool
  dl_checksum_present :: bool

section \<open>Fields\<close>

definition checksum_be16 :: "byte list \<Rightarrow> nat \<Rightarrow> nat" where
  "checksum_be16 buf n = u16 (fold (\<lambda>i sum. let sum = sum + nextufs__read_be16 buf (2 * i) in
     if 65535 < sum then sum - 65535 else sum) [0..<n div 2] 0)"

definition put_string :: "byte list \<Rightarrow> nat \<Rightarrow> nat \<Rightarrow> byte list \<Rightarrow> byte list" where
  "put_string buf dst len s = overlay dst (take (len - 1) s) buf"

text \<open>\<open>memset\<close> of a range.\<close>

definition set_bytes :: "byte list \<Rightarrow> nat \<Rightarrow> byte \<Rightarrow> nat \<Rightarrow> byte list" where
  "set_bytes buf off b n = overlay off (replicate n b) buf"

definition copy_cstr_field :: "nat \<Rightarrow> byte list \<Rightarrow> byte list" where
  "copy_cstr_field dst_size src = take (dst_size - 1) (takeWhile (\<lambda>b. b \<noteq> 0) src)"

definition label_partition_present :: "byte list \<Rightarrow> nat \<Rightarrow> bool" where
  "label_partition_present label part =
     (let base = read_be24 label (part + PART_BASE_OFF);
          sz = read_be24 label (part + PART_SIZE_OFF);
          bsize = nextufs__read_be16 label (part + PART_BSIZE_OFF);
          fsize = nextufs__read_be16 label (part + PART_FSIZE_OFF);
          type_empty = list_all (\<lambda>b. b = 0) (bytes_at (part + PART_TYPE_OFF) NEXTUFS_LABEL_FSTYPE_LEN label)
      in \<not> (base = PART_UNUSED_BASE \<or> sz = 0 \<or> sz = PART_UNUSED_SIZE \<or>
             bsize = 0 \<or> bsize = 0xffff \<or> fsize = 0 \<or> fsize = 0xffff \<or> type_empty))"

definition nextufs_label_is_version :: "nat \<Rightarrow> bool" where
  "nextufs_label_is_version version \<longleftrightarrow> version = DL_V1 \<or> version = DL_V2 \<or> version = DL_V3"

definition decode_partition :: "byte list \<Rightarrow> nat \<Rightarrow> nextufs_label_partition" where
  "decode_partition buf p =
     (let raw = bytes_at p DT_PARTITION_SIZE buf;
          all_zero = list_all (\<lambda>b. b = 0) raw;
          all_ff = list_all (\<lambda>b. b = 0xff) raw;
          base = read_be24 buf (p + PART_BASE_OFF);
          sz = read_be24 buf (p + PART_SIZE_OFF);
          bsize = nextufs__read_be16 buf (p + PART_BSIZE_OFF);
          fsize = nextufs__read_be16 buf (p + PART_FSIZE_OFF);
          type = copy_cstr_field (NEXTUFS_LABEL_FSTYPE_LEN + 1)
            (bytes_at (p + PART_TYPE_OFF) NEXTUFS_LABEL_FSTYPE_LEN buf)
      in \<lparr>p_present = (\<not> all_zero \<and> \<not> all_ff \<and> base \<noteq> 0xffffff \<and> sz \<noteq> 0 \<and> sz \<noteq> 0xffffff \<and>
            bsize \<noteq> 0 \<and> bsize \<noteq> 0xffff \<and> fsize \<noteq> 0 \<and> fsize \<noteq> 0xffff \<and> fsize \<le> bsize \<and> type \<noteq> []),
          p_base_blocks = base, p_size_blocks = sz, p_block_size = bsize, p_frag_size = fsize, p_type = type\<rparr>)"

text \<open>The first \<open>DL_V3_CKSUM_SIZE\<close> bytes with the block number and the checksum cleared.\<close>

definition cksum_image :: "byte list \<Rightarrow> byte list" where
  "cksum_image buf = set_bytes (set_bytes (take DL_V3_CKSUM_SIZE buf) 0x04 0 4) DL_V3_CKSUM_OFF 0 2"

text \<open>The structure that the decoder fills in, before its checks.\<close>

definition label_fields :: "byte list \<Rightarrow> int \<Rightarrow> nextufs_disk_label" where
  "label_fields buf off =
     (let version = nextufs__read_be32 buf 0;
          dt = DL_DISKTAB_OFF;
          cksum = nextufs__read_be16 buf (if version = DL_V3 then DL_V3_CKSUM_OFF else DL_CKSUM_OFF)
      in \<lparr>dl_label_off = off, dl_version = version, dl_label_blkno = nextufs__read_be32 buf 4,
            dl_secsize = nextufs__read_be16 buf (dt + DT_SECSIZE_OFF),
            dl_front = nextufs__read_be16 buf (dt + DT_FRONT_OFF),
            dl_name = copy_cstr_field (NEXTUFS_LABEL_NAME_LEN + 1) (bytes_at 0x0c NEXTUFS_LABEL_NAME_LEN buf),
            dl_rootpartition = buf ! (dt + DT_ROOTPART_OFF),
            dl_part = map (\<lambda>i. decode_partition buf (dt + DT_PARTITIONS_OFF + i * DT_PARTITION_SIZE))
              [0..<NEXTUFS_LABEL_PART_COUNT],
            dl_checksum = cksum,
            dl_checksum_valid = (version = DL_V3 \<and> checksum_be16 (cksum_image buf) DL_V3_CKSUM_SIZE = cksum),
            dl_checksum_present = (cksum \<noteq> 0)\<rparr>)"

definition nextufs_label_decode :: "byte list \<Rightarrow> int \<Rightarrow> nextufs_disk_label option" where
  "nextufs_label_decode buf off =
     (let dl = label_fields buf off
      in if length buf < NEXTUFS_LABEL_DECODE_SIZE then None
         else if \<not> nextufs_label_is_version (dl_version dl) then None
         else if dl_secsize dl = 0 \<or> dl_secsize dl mod NEXTUFS_LABEL_DEV_SECTOR_SIZE \<noteq> 0 then None
         else if dl_label_blkno dl * NEXTUFS_LABEL_DEV_SECTOR_SIZE \<noteq> of_off off then None
         else if dl_checksum_present dl \<and> \<not> dl_checksum_valid dl then None
         else Some dl)"

text \<open>The string \<open>4.3BSD\<close>.\<close>

definition bsd_type :: "byte list" where
  "bsd_type = [0x34, 0x2e, 0x33, 0x42, 0x53, 0x44]"

definition part_slice :: "nextufs_disk_label \<Rightarrow> nextufs_label_partition \<Rightarrow> int \<times> int" where
  "part_slice dl part = (to_off (u64 ((dl_front dl + p_base_blocks part) * dl_secsize dl)),
     to_off (u64 (p_size_blocks part * dl_secsize dl)))"

definition nextufs_label_pick_slice :: "nextufs_disk_label \<Rightarrow> (int \<times> int) option" where
  "nextufs_label_pick_slice dl =
     (let root = unat (dl_rootpartition dl);
          usable = (\<lambda>part. p_present part \<and> p_size_blocks part \<noteq> 0) in
      if 97 \<le> root \<and> root < 97 + NEXTUFS_LABEL_PART_COUNT \<and> usable (dl_part dl ! (root - 97))
      then Some (part_slice dl (dl_part dl ! (root - 97)))
      else map_option (part_slice dl) (find (\<lambda>part. usable part \<and> p_type part = bsd_type) (dl_part dl)))"

section \<open>Writing a fresh label\<close>

text \<open>The strings that \<open>write_label_copy\<close> puts into every label.\<close>

definition nextufs_string :: "byte list" where
  "nextufs_string = [0x6e, 0x65, 0x78, 0x74, 0x75, 0x66, 0x73]"

definition fixed_rw_scsi :: "byte list" where
  "fixed_rw_scsi = [0x66, 0x69, 0x78, 0x65, 0x64, 0x5f, 0x72, 0x77, 0x5f, 0x73, 0x63, 0x73, 0x69]"

definition sdmach :: "byte list" where
  "sdmach = [0x73, 0x64, 0x6d, 0x61, 0x63, 0x68]"

definition localhost :: "byte list" where
  "localhost = [0x6c, 0x6f, 0x63, 0x61, 0x6c, 0x68, 0x6f, 0x73, 0x74]"

text \<open>The label before the block number and the checksum are filled in.\<close>

definition label_partition_bytes :: "byte list \<Rightarrow> nat \<Rightarrow> nat \<Rightarrow> byte list" where
  "label_partition_bytes buf part slice_blocks =
     (let buf = set_bytes buf part 0 DT_PARTITION_SIZE;
          buf = write_be24 buf (part + PART_BASE_OFF) 0;
          buf = write_be24 buf (part + PART_SIZE_OFF) slice_blocks;
          buf = nextufs__write_be16 buf (part + PART_BSIZE_OFF) 8192;
          buf = nextufs__write_be16 buf (part + PART_FSIZE_OFF) 1024;
          buf = buf[part + PART_OPT_OFF := 0x74];
          buf = nextufs__write_be16 buf (part + PART_CPG_OFF) 16;
          buf = nextufs__write_be16 buf (part + PART_DENSITY_OFF) 4096;
          buf = buf[part + PART_MINFREE_OFF := 10];
          buf = buf[part + PART_NEWFS_OFF := 1];
          buf = buf[part + PART_AUTOMNT_OFF := 1]
      in put_string buf (part + PART_TYPE_OFF) 8 bsd_type)"

definition label_disktab_bytes :: "byte list \<Rightarrow> nat \<Rightarrow> nat \<Rightarrow> byte list" where
  "label_disktab_bytes buf dt cyls =
     (let buf = put_string buf (dt + DT_NAME_OFF) 24 nextufs_string;
          buf = put_string buf (dt + DT_TYPE_OFF) 24 fixed_rw_scsi;
          buf = nextufs__write_be16 buf (dt + DT_SECSIZE_OFF) NEXTUFS_LABEL_SECTOR_SIZE;
          buf = nextufs__write_be16 buf (dt + DT_NTRACKS_OFF) 4;
          buf = nextufs__write_be16 buf (dt + DT_NSECTORS_OFF) 32;
          buf = nextufs__write_be16 buf (dt + DT_NCYLINDERS_OFF) cyls;
          buf = nextufs__write_be16 buf (dt + DT_RPM_OFF) 3600;
          buf = nextufs__write_be16 buf (dt + DT_FRONT_OFF)
            (NEXTUFS_LABEL_FRONT_PORCH_BYTES div NEXTUFS_LABEL_SECTOR_SIZE);
          buf = nextufs__write_be16 buf (dt + DT_BACK_OFF) 0;
          buf = nextufs__write_be32 buf (dt + DT_BOOT0_BLKNO_OFF) 32;
          buf = nextufs__write_be32 buf (dt + DT_BOOT0_BLKNO_OFF + 4) 96;
          buf = put_string buf (dt + DT_BOOTFILE_OFF) 24 sdmach;
          buf = put_string buf (dt + DT_HOSTNAME_OFF) 32 localhost;
          buf = buf[dt + DT_ROOTPART_OFF := 0x61]
      in buf[dt + DT_RWPART_OFF := 0x62])"

definition label_copy_bytes :: "nat \<Rightarrow> nat \<Rightarrow> nat \<Rightarrow> nat \<Rightarrow> byte list \<Rightarrow> byte list" where
  "label_copy_bytes off total_blocks slice_blocks cyls label =
     (let buf = replicate LABEL_WRITE_SIZE 0;
          buf = nextufs__write_be32 buf 0x00 DL_V3;
          buf = nextufs__write_be32 buf 0x04 (u32 (off div DEV_SECTOR_SIZE));
          buf = nextufs__write_be32 buf 0x08 total_blocks;
          buf = put_string buf 0x0c 24 label;
          dt = DL_DISKTAB_OFF;
          buf = label_disktab_bytes buf dt cyls;
          buf = set_bytes buf (dt + DT_PARTITIONS_OFF) 0xff (NEXTUFS_LABEL_PART_COUNT * DT_PARTITION_SIZE);
          buf = label_partition_bytes buf (dt + DT_PARTITIONS_OFF) slice_blocks;
          buf = set_bytes buf 0x04 0 4;
          buf = set_bytes buf DL_V3_CKSUM_OFF 0 2;
          buf = nextufs__write_be16 buf DL_V3_CKSUM_OFF (checksum_be16 buf LABEL_CKSUM_SIZE)
      in nextufs__write_be32 buf 0x04 (u32 (off div DEV_SECTOR_SIZE)))"

definition write_label_copy :: "nat \<Rightarrow> nat \<Rightarrow> nat \<Rightarrow> nat \<Rightarrow> byte list \<Rightarrow> (hostfile, unit) io" where
  "write_label_copy off total_blocks slice_blocks cyls label =
     nextufs__write_exact_fd (label_copy_bytes off total_blocks slice_blocks cyls label) (int off)"

fun write_label_copies :: "nat list \<Rightarrow> nat \<Rightarrow> nat \<Rightarrow> nat \<Rightarrow> byte list \<Rightarrow> (hostfile, unit) io" where
  "write_label_copies [] total_blocks slice_blocks cyls label = ret ()"
| "write_label_copies (i # is') total_blocks slice_blocks cyls label =
     bind_io (write_label_copy (i * LABEL_COPY_STRIDE) total_blocks slice_blocks cyls label)
       (\<lambda>_. write_label_copies is' total_blocks slice_blocks cyls label)"

text \<open>\<open>opened\<close> is the result of \<open>open\<close>; the state is the file it opened.\<close>

definition nextufs_label_write_path :: "errno + unit \<Rightarrow> nat \<Rightarrow> nat \<Rightarrow> byte list \<Rightarrow> (hostfile, unit) io" where
  "nextufs_label_write_path opened image_bytes slice_bytes label =
     (let total_blocks = u32 (image_bytes div NEXTUFS_LABEL_SECTOR_SIZE);
          slice_blocks = u32 (slice_bytes div NEXTUFS_LABEL_SECTOR_SIZE);
          cyls32 = total_blocks div (4 * 32) in
      if 0xffffff < total_blocks \<or> 0xffffff < slice_blocks then fail EFBIG
      else if 0xffff < cyls32 then fail EFBIG
      else case opened of
        Inl e \<Rightarrow> fail e
      | Inr _ \<Rightarrow> write_label_copies [0..<LABEL_COPY_COUNT] total_blocks slice_blocks (u16 cyls32) label)"

section \<open>Checking and changing a label on a device\<close>

definition label_offsets :: "nat list" where
  "label_offsets = filter (\<lambda>off. off + LABEL_VALIDATE_SIZE \<le> NEXTUFS_LABEL_SCAN_LIMIT)
     (map (\<lambda>k. k * DEV_SECTOR_SIZE) [0..<NEXTUFS_LABEL_SCAN_LIMIT div DEV_SECTOR_SIZE])"

definition partition_at :: "nat \<Rightarrow> nat" where
  "partition_at i = DL_DISKTAB_OFF + DT_PARTITIONS_OFF + i * DT_PARTITION_SIZE"

definition label_root :: "byte list \<Rightarrow> nat" where
  "label_root label = unat (label ! (DL_DISKTAB_OFF + DT_ROOTPART_OFF))"

definition label_slice_base :: "byte list \<Rightarrow> nat \<Rightarrow> nat" where
  "label_slice_base label part =
     u64 ((nextufs__read_be16 label (DL_DISKTAB_OFF + DT_FRONT_OFF) + read_be24 label (part + PART_BASE_OFF))
       * nextufs__read_be16 label (DL_DISKTAB_OFF + DT_SECSIZE_OFF))"

text \<open>The result is whether the copy matched; a label that is not one is skipped.\<close>

definition check_label_copy :: "byte list \<Rightarrow> nat \<Rightarrow> int \<Rightarrow> errno + bool" where
  "check_label_copy label copy_off fs_base =
     (let root = label_root label; root_part = partition_at (root - 97) in
      if \<not> nextufs_label_is_version (nextufs__read_be32 label 0) then Inr False
      else if nextufs__read_be32 label 4 * DEV_SECTOR_SIZE \<noteq> copy_off then Inr False
      else if root < 97 \<or> 97 + NEXTUFS_LABEL_PART_COUNT \<le> root then Inl EINVAL
      else if \<not> label_partition_present label root_part then Inl EINVAL
      else if length (filter (label_partition_present label) (map partition_at [0..<NEXTUFS_LABEL_PART_COUNT])) \<noteq> 1
      then Inl ENOTSUP
      else if bytes_at (root_part + PART_TYPE_OFF) 7 label \<noteq> bsd_type @ [0] then Inl ENOTSUP
      else if label_slice_base label root_part \<noteq> of_off fs_base then Inl EINVAL
      else Inr True)"

definition validate_one_label_copy :: "nat \<Rightarrow> int \<Rightarrow> (hostfile, bool) io" where
  "validate_one_label_copy copy_off fs_base =
     bind_io (nextufs__read_exact_fd LABEL_VALIDATE_SIZE (int copy_off)) (\<lambda>label.
     case check_label_copy label copy_off fs_base of Inl e \<Rightarrow> fail e | Inr m \<Rightarrow> ret m)"

fun validate_copies :: "nat list \<Rightarrow> int \<Rightarrow> nat \<Rightarrow> (hostfile, nat) io" where
  "validate_copies [] fs_base matched = ret matched"
| "validate_copies (off # offs) fs_base matched =
     bind_io (validate_one_label_copy off fs_base)
       (\<lambda>m. validate_copies offs fs_base (matched + (if m then 1 else 0)))"

definition nextufs_label_validate_single_slice_fd :: "int \<Rightarrow> (hostfile, unit) io" where
  "nextufs_label_validate_single_slice_fd fs_base =
     bind_io (validate_copies label_offsets fs_base 0)
       (\<lambda>matched. if matched = 0 then fail EINVAL else ret ())"

text \<open>\<open>None\<close> is a label that is left alone.\<close>

definition patched_label :: "byte list \<Rightarrow> nat \<Rightarrow> int \<Rightarrow> nat \<Rightarrow> errno + byte list option" where
  "patched_label label copy_off fs_base slice_bytes =
     (let version = nextufs__read_be32 label 0;
          root = label_root label;
          part = partition_at (root - 97);
          secsize = nextufs__read_be16 label (DL_DISKTAB_OFF + DT_SECSIZE_OFF);
          size_blocks = u32 (slice_bytes div secsize) in
      if \<not> nextufs_label_is_version version then Inr None
      else if nextufs__read_be32 label 4 * DEV_SECTOR_SIZE \<noteq> copy_off then Inr None
      else if root < 97 \<or> 97 + NEXTUFS_LABEL_PART_COUNT \<le> root \<or> secsize = 0 \<or> slice_bytes mod secsize \<noteq> 0
      then Inr None
      else if 0xffffff < size_blocks then Inl EFBIG
      else if label_slice_base label part \<noteq> of_off fs_base then Inr None
      else
        let label = write_be24 label (part + PART_SIZE_OFF) size_blocks in
        Inr (Some (if version = DL_V3
          then nextufs__write_be16 label DL_V3_CKSUM_OFF (checksum_be16 (cksum_image label) LABEL_CKSUM_SIZE)
          else label)))"

definition patch_one_label_partition_size :: "nat \<Rightarrow> int \<Rightarrow> nat \<Rightarrow> (hostfile, bool) io" where
  "patch_one_label_partition_size copy_off fs_base slice_bytes =
     bind_io (nextufs__read_exact_fd LABEL_VALIDATE_SIZE (int copy_off)) (\<lambda>label.
     case patched_label label copy_off fs_base slice_bytes of
       Inl e \<Rightarrow> fail e
     | Inr None \<Rightarrow> ret False
     | Inr (Some label) \<Rightarrow> bind_io (nextufs__write_exact_fd label (int copy_off)) (\<lambda>_. ret True))"

fun patch_copies :: "nat list \<Rightarrow> int \<Rightarrow> nat \<Rightarrow> nat \<Rightarrow> (hostfile, nat) io" where
  "patch_copies [] fs_base slice_bytes patched = ret patched"
| "patch_copies (off # offs) fs_base slice_bytes patched =
     bind_io (patch_one_label_partition_size off fs_base slice_bytes)
       (\<lambda>m. patch_copies offs fs_base slice_bytes (patched + (if m then 1 else 0)))"

definition nextufs_label_patch_slice_size_fd :: "int \<Rightarrow> nat \<Rightarrow> (hostfile, nat) io" where
  "nextufs_label_patch_slice_size_fd fs_base slice_bytes =
     bind_io (patch_copies label_offsets fs_base slice_bytes 0)
       (\<lambda>patched. if patched = 0 then fail EINVAL else ret patched)"

section \<open>The checksum\<close>

lemma ones_complement_fold:
  assumes "\<forall>w \<in> set ws. w \<le> 65535" and "s \<le> (65535 :: nat)"
  shows "fold (\<lambda>w sum. let sum = sum + w in if 65535 < sum then sum - 65535 else sum) ws s =
    (if s + sum_list ws = 0 then 0 else (s + sum_list ws - 1) mod 65535 + 1)"
  using assms
proof (induction ws arbitrary: s)
  case Nil
  then show ?case by simp
next
  case (Cons w ws)
  let ?s = "if 65535 < s + w then s + w - 65535 else s + w"
  have s: "?s \<le> 65535" using Cons.prems by auto
  have "fold (\<lambda>w sum. let sum = sum + w in if 65535 < sum then sum - 65535 else sum) (w # ws) s =
      fold (\<lambda>w sum. let sum = sum + w in if 65535 < sum then sum - 65535 else sum) ws ?s"
    by (simp add: Let_def)
  also have "\<dots> = (if ?s + sum_list ws = 0 then 0 else (?s + sum_list ws - 1) mod 65535 + 1)"
    using Cons.IH [OF _ s] Cons.prems(1) by simp
  also have "\<dots> = (if s + sum_list (w # ws) = 0 then 0 else (s + sum_list (w # ws) - 1) mod 65535 + 1)"
  proof (cases "65535 < s + w")
    case True
    then have p: "0 < ?s" by simp
    from True have e: "s + sum_list (w # ws) - 1 = (?s + sum_list ws - 1) + 65535" by simp
    have nz: "?s + sum_list ws \<noteq> 0" "s + sum_list (w # ws) \<noteq> 0" using p True by (linarith, simp, linarith)
    show ?thesis unfolding e using nz by (simp only: if_False mod_add_self2)
  qed (simp only: if_False sum_list.Cons add.assoc)
  finally show ?case .
qed

text \<open>
  C29. The checksum of a label is the ones' complement sum of its 16-bit words: zero for all zero
  words, and otherwise the representative between 1 and 65535 of the sum modulo 65535.
\<close>

theorem checksum_be16_correct:
  "checksum_be16 buf n = (let total = sum_list (map (\<lambda>i. nextufs__read_be16 buf (2 * i)) [0..<n div 2]) in
     if total = 0 then 0 else (total - 1) mod 65535 + 1)"
proof -
  let ?ws = "map (\<lambda>i. nextufs__read_be16 buf (2 * i)) [0..<n div 2]"
  have b: "\<forall>w \<in> set ?ws. w \<le> 65535" using read_be16_less [of buf] by (auto simp: less_Suc_eq_le [symmetric])
  have "fold (\<lambda>i sum. let sum = sum + nextufs__read_be16 buf (2 * i) in if 65535 < sum then sum - 65535 else sum)
      [0..<n div 2] 0 = fold (\<lambda>w sum. let sum = sum + w in if 65535 < sum then sum - 65535 else sum) ?ws 0"
    by (simp add: fold_map o_def)
  also have "\<dots> = (if sum_list ?ws = 0 then 0 else (sum_list ?ws - 1) mod 65535 + 1)"
    using ones_complement_fold [OF b, of 0] by simp
  finally show ?thesis
    by (simp add: checksum_be16_def u16_def Let_def)
qed

section \<open>A fresh label\<close>

lemma length_put_string [simp]: "off + (len - 1) \<le> length buf \<Longrightarrow> length (put_string buf off len s) = length buf"
  by (simp add: put_string_def)

lemma length_set_bytes [simp]: "off + n \<le> length buf \<Longrightarrow> length (set_bytes buf off b n) = length buf"
  by (simp add: set_bytes_def)

lemma nth_put_string:
  "off + (len - 1) \<le> length buf \<Longrightarrow> i < off \<or> off + (len - 1) \<le> i \<Longrightarrow> i < length buf \<Longrightarrow>
   put_string buf off len s ! i = buf ! i"
  by (auto simp: put_string_def nth_overlay)

lemma nth_put_string_in:
  "off + (len - 1) \<le> length buf \<Longrightarrow> i < length s \<Longrightarrow> i < len - 1 \<Longrightarrow> put_string buf off len s ! (off + i) = s ! i"
  by (auto simp: put_string_def nth_overlay)

lemma nth_set_bytes:
  "off + n \<le> length buf \<Longrightarrow> i < length buf \<Longrightarrow>
   set_bytes buf off b n ! i = (if off \<le> i \<and> i < off + n then b else buf ! i)"
  by (auto simp: set_bytes_def nth_overlay)

lemma read_be16_put_string:
  "off + (len - 1) \<le> length buf \<Longrightarrow> q + 2 \<le> length buf \<Longrightarrow> q + 2 \<le> off \<or> off + (len - 1) \<le> q \<Longrightarrow>
   nextufs__read_be16 (put_string buf off len s) q = nextufs__read_be16 buf q"
  by (auto simp: read_be16_eq nth_put_string)

lemma read_be16_list_update:
  "q + 2 \<le> length buf \<Longrightarrow> q + 2 \<le> i \<or> i < q \<Longrightarrow> nextufs__read_be16 (buf[i := x]) q = nextufs__read_be16 buf q"
  by (auto simp: read_be16_eq)

lemma read_be16_set_bytes:
  "off + n \<le> length buf \<Longrightarrow> q + 2 \<le> length buf \<Longrightarrow> q + 2 \<le> off \<or> off + n \<le> q \<Longrightarrow>
   nextufs__read_be16 (set_bytes buf off b n) q = nextufs__read_be16 buf q"
  by (auto simp: read_be16_eq nth_set_bytes)

lemma read_be24_put_string:
  "off + (len - 1) \<le> length buf \<Longrightarrow> q + 3 \<le> length buf \<Longrightarrow> q + 3 \<le> off \<or> off + (len - 1) \<le> q \<Longrightarrow>
   read_be24 (put_string buf off len s) q = read_be24 buf q"
  by (auto simp: read_be24_eq nth_put_string)

lemma read_be24_list_update:
  "q + 3 \<le> length buf \<Longrightarrow> q + 3 \<le> i \<or> i < q \<Longrightarrow> read_be24 (buf[i := x]) q = read_be24 buf q"
  by (auto simp: read_be24_eq)

lemma read_be24_write16:
  "p + 2 \<le> length buf \<Longrightarrow> q + 3 \<le> length buf \<Longrightarrow> q + 3 \<le> p \<or> p + 2 \<le> q \<Longrightarrow>
   read_be24 (nextufs__write_be16 buf p v) q = read_be24 buf q"
  by (auto simp: read_be24_eq nth_write_be16)

lemma read_be24_write24:
  "p + 3 \<le> length buf \<Longrightarrow> q + 3 \<le> length buf \<Longrightarrow> q + 3 \<le> p \<or> p + 3 \<le> q \<Longrightarrow>
   read_be24 (write_be24 buf p v) q = read_be24 buf q"
  by (auto simp: read_be24_eq nth_write_be24)

lemma read_be16_write24:
  "p + 3 \<le> length buf \<Longrightarrow> q + 2 \<le> length buf \<Longrightarrow> q + 2 \<le> p \<or> p + 3 \<le> q \<Longrightarrow>
   nextufs__read_be16 (write_be24 buf p v) q = nextufs__read_be16 buf q"
  by (auto simp: read_be16_eq nth_write_be24)

lemmas label_frame = read_be24_put_string read_be24_list_update read_be24_write16 read_be24_write24 read_be16_write24 nth_put_string nth_write_be16 nth_write_be32 nth_write_be24 nth_set_bytes read_be16_put_string
  read_be16_list_update read_be16_set_bytes

text \<open>The drive description, write by write: each buffer has the size of the one before.\<close>

lemma disktab_bytes:
  assumes "length buf = 0x300"
  shows "length (label_disktab_bytes buf 44 cyls) = 0x300"
    and "label_disktab_bytes buf 44 cyls ! 188 = 0x61"
    and "nextufs__read_be16 (label_disktab_bytes buf 44 cyls) 94 = 1024"
    and "nextufs__read_be16 (label_disktab_bytes buf 44 cyls) 112 = 160"
    and "nextufs__read_be32 (label_disktab_bytes buf 44 cyls) 130 = 0x7364"
    and "nextufs__read_be32 (label_disktab_bytes buf 44 cyls) 134 = 0x6d616368"
    and "\<And>i. i < 44 \<or> 192 \<le> i \<Longrightarrow> i < 0x300 \<Longrightarrow> label_disktab_bytes buf 44 cyls ! i = buf ! i"
proof -
  define b1 where "b1 = put_string buf 44 24 nextufs_string"
  define b2 where "b2 = put_string b1 68 24 fixed_rw_scsi"
  define b3 where "b3 = nextufs__write_be16 b2 94 1024"
  define b4 where "b4 = nextufs__write_be16 b3 98 4"
  define b5 where "b5 = nextufs__write_be16 b4 102 32"
  define b6 where "b6 = nextufs__write_be16 b5 106 cyls"
  define b7 where "b7 = nextufs__write_be16 b6 110 3600"
  define b8 where "b8 = nextufs__write_be16 b7 112 160"
  define b9 where "b9 = nextufs__write_be16 b8 114 0"
  define b10 where "b10 = nextufs__write_be32 b9 130 32"
  define b11 where "b11 = nextufs__write_be32 b10 134 96"
  define b12 where "b12 = put_string b11 132 24 sdmach"
  define b13 where "b13 = put_string b12 156 32 localhost"
  define b14 where "b14 = b13[188 := 0x61]"
  define b15 where "b15 = b14[189 := 0x62]"
  have eq: "label_disktab_bytes buf 44 cyls = b15"
    by (simp add: label_disktab_bytes_def Let_def b1_def b2_def b3_def b4_def b5_def b6_def b7_def b8_def b9_def b10_def b11_def b12_def b13_def b14_def b15_def)
  have l1: "length b1 = 0x300" using assms by (simp add: b1_def)
  have l2: "length b2 = 0x300" using l1 by (simp add: b2_def)
  have l3: "length b3 = 0x300" using l2 by (simp add: b3_def)
  have l4: "length b4 = 0x300" using l3 by (simp add: b4_def)
  have l5: "length b5 = 0x300" using l4 by (simp add: b5_def)
  have l6: "length b6 = 0x300" using l5 by (simp add: b6_def)
  have l7: "length b7 = 0x300" using l6 by (simp add: b7_def)
  have l8: "length b8 = 0x300" using l7 by (simp add: b8_def)
  have l9: "length b9 = 0x300" using l8 by (simp add: b9_def)
  have l10: "length b10 = 0x300" using l9 by (simp add: b10_def)
  have l11: "length b11 = 0x300" using l10 by (simp add: b11_def)
  have l12: "length b12 = 0x300" using l11 by (simp add: b12_def)
  have l13: "length b13 = 0x300" using l12 by (simp add: b13_def)
  have l14: "length b14 = 0x300" using l13 by (simp add: b14_def)
  have l15: "length b15 = 0x300" using l14 by (simp add: b15_def)
  note len = assms l1 l2 l3 l4 l5 l6 l7 l8 l9 l10 l11 l12 l13 l14 l15
  show "length (label_disktab_bytes buf 44 cyls) = 0x300" by (simp add: eq len)
  show "label_disktab_bytes buf 44 cyls ! 188 = 0x61" by (simp add: eq b15_def b14_def len)
  have "nextufs__read_be16 b15 94 = nextufs__read_be16 b3 94"
    by (simp add: label_frame len b15_def b14_def b13_def b12_def b11_def b10_def b9_def b8_def b7_def b6_def b5_def b4_def)
  then show "nextufs__read_be16 (label_disktab_bytes buf 44 cyls) 94 = 1024" by (simp add: eq b3_def len u16_def)
  have "nextufs__read_be16 b15 112 = nextufs__read_be16 b8 112"
    by (simp add: label_frame len b15_def b14_def b13_def b12_def b11_def b10_def b9_def)
  then show "nextufs__read_be16 (label_disktab_bytes buf 44 cyls) 112 = 160" by (simp add: eq b8_def len u16_def)
  have "b15 ! k = b12 ! k" "b12 ! k = (if k < 132 then 0 else sdmach ! (k - 132))" if "130 \<le> k" "k < 138" for k
  proof -
    show "b15 ! k = b12 ! k" using that by (simp add: label_frame len b15_def b14_def b13_def)
    have "k = 130 \<or> k = 131 \<or> k = 132 \<or> k = 133 \<or> k = 134 \<or> k = 135 \<or> k = 136 \<or> k = 137" using that by linarith
    then show "b12 ! k = (if k < 132 then 0 else sdmach ! (k - 132))"
      using len by (elim disjE) (simp_all add: b12_def put_string_def sdmach_def nth_overlay b11_def b10_def
          nextufs__write_be32_def byte_at_def)
  qed
  note boot = this
  show "nextufs__read_be32 (label_disktab_bytes buf 44 cyls) 130 = 0x7364"
    "nextufs__read_be32 (label_disktab_bytes buf 44 cyls) 134 = 0x6d616368"
    by (simp_all add: eq read_be32_eq boot sdmach_def)
  fix i :: nat
  assume i: "i < 44 \<or> 192 \<le> i" "i < 0x300"
  have "b7 ! i = buf ! i"
    using i by (auto simp: label_frame len b7_def b6_def b5_def b4_def b3_def b2_def b1_def)
  moreover have "b15 ! i = b7 ! i"
    using i by (auto simp: label_frame len b15_def b14_def b13_def b12_def b11_def b10_def b9_def b8_def)
  ultimately show "label_disktab_bytes buf 44 cyls ! i = buf ! i" by (simp add: eq)
qed

lemma partition_bytes:
  assumes "length buf = 0x300" and "slice_blocks < 16777216"
  shows "length (label_partition_bytes buf 192 slice_blocks) = 0x300"
    and "read_be24 (label_partition_bytes buf 192 slice_blocks) 192 = 0"
    and "read_be24 (label_partition_bytes buf 192 slice_blocks) 195 = slice_blocks"
    and "nextufs__read_be16 (label_partition_bytes buf 192 slice_blocks) 198 = 8192"
    and "nextufs__read_be16 (label_partition_bytes buf 192 slice_blocks) 200 = 1024"
    and "label_partition_bytes buf 192 slice_blocks ! 202 = 0x74"
  using assms
  by (simp_all add: label_partition_bytes_def Let_def label_frame u16_def bsd_type_def)

lemma partition_outside:
  assumes "length buf = 0x300" and "i < 192 \<or> 256 \<le> i" and "i < 0x300"
  shows "label_partition_bytes buf 192 slice_blocks ! i = buf ! i"
  using assms(2)
proof
  assume "i < 192"
  then show ?thesis using assms(1) by (simp add: label_partition_bytes_def Let_def label_frame)
next
  assume "256 \<le> i"
  then show ?thesis using assms(1,3) by (simp add: label_partition_bytes_def Let_def label_frame)
qed

lemma partition_type:
  assumes "length buf = 0x300" and "slice_blocks < 16777216"
  shows "bytes_at 227 8 (label_partition_bytes buf 192 slice_blocks) = bsd_type @ [0, 0]"
proof (rule nth_equalityI)
  fix i :: nat
  assume "i < length (bytes_at 227 8 (label_partition_bytes buf 192 slice_blocks))"
  then have i: "i < 8" using assms partition_bytes(1) [OF assms] by (simp add: bytes_at_def)
  define low where "low = (let buf = set_bytes buf 192 0 DT_PARTITION_SIZE;
          buf = write_be24 buf (192 + PART_BASE_OFF) 0;
          buf = write_be24 buf (192 + PART_SIZE_OFF) slice_blocks;
          buf = nextufs__write_be16 buf (192 + PART_BSIZE_OFF) 8192;
          buf = nextufs__write_be16 buf (192 + PART_FSIZE_OFF) 1024;
          buf = buf[192 + PART_OPT_OFF := 0x74];
          buf = nextufs__write_be16 buf (192 + PART_CPG_OFF) 16;
          buf = nextufs__write_be16 buf (192 + PART_DENSITY_OFF) 4096;
          buf = buf[192 + PART_MINFREE_OFF := 10];
          buf = buf[192 + PART_NEWFS_OFF := 1] in buf[192 + PART_AUTOMNT_OFF := 1])"
  have L: "label_partition_bytes buf 192 slice_blocks = put_string low 227 8 bsd_type"
    by (simp add: label_partition_bytes_def low_def Let_def)
  have len: "length low = 0x300" using assms by (simp add: low_def Let_def)
  have z: "low ! (227 + k) = 0" if "k < 8" for k
    using assms that by (simp add: low_def Let_def label_frame)
  have "bytes_at 227 8 (label_partition_bytes buf 192 slice_blocks) ! i = put_string low 227 8 bsd_type ! (227 + i)"
    using i len by (simp add: L)
  also have "\<dots> = (bsd_type @ [0, 0]) ! i"
  proof (cases "i < 6")
    case True
    then have "put_string low 227 8 bsd_type ! (227 + i) = bsd_type ! i"
      using nth_put_string_in [of 227 8 low i bsd_type] len by (simp add: bsd_type_def)
    with True show ?thesis by (simp only: nth_append) (simp add: bsd_type_def)
  next
    case False
    then have "put_string low 227 8 bsd_type ! (227 + i) = low ! (227 + i)"
      using len i by (simp add: put_string_def nth_overlay bsd_type_def)
    moreover have "i = 6 \<or> i = 7" using False i by linarith
    ultimately show ?thesis using z [OF i] by (auto simp: bsd_type_def)
  qed
  finally show "bytes_at 227 8 (label_partition_bytes buf 192 slice_blocks) ! i = (bsd_type @ [0, 0]) ! i" .
qed (use assms partition_bytes(1) [OF assms] in \<open>simp add: bsd_type_def\<close>)

text \<open>The label before its checksum.\<close>

definition label_head :: "nat \<Rightarrow> nat \<Rightarrow> byte list \<Rightarrow> byte list" where
  "label_head blkno total_blocks label =
     put_string (nextufs__write_be32 (nextufs__write_be32 (nextufs__write_be32 (replicate LABEL_WRITE_SIZE 0) 0 DL_V3)
       4 blkno) 8 total_blocks) 12 24 label"

definition label_body :: "nat \<Rightarrow> nat \<Rightarrow> nat \<Rightarrow> nat \<Rightarrow> byte list \<Rightarrow> byte list" where
  "label_body blkno total_blocks slice_blocks cyls label =
     label_partition_bytes (set_bytes (label_disktab_bytes (label_head blkno total_blocks label) 44 cyls) 192 0xff 512)
       192 slice_blocks"

lemma length_label_head [simp]: "length (label_head blkno total_blocks label) = 0x300"
  by (simp add: label_head_def)

lemma length_label_body [simp]: "length (label_body blkno total_blocks slice_blocks cyls label) = 0x300"
  using disktab_bytes(1) [of "label_head blkno total_blocks label" cyls]
  by (simp add: label_body_def label_partition_bytes_def Let_def)

lemma label_copy_bytes_body:
  "label_copy_bytes off total_blocks slice_blocks cyls label =
     (let blkno = u32 (off div DEV_SECTOR_SIZE);
          z = set_bytes (set_bytes (label_body blkno total_blocks slice_blocks cyls label) 4 0 4) 558 0 2
      in nextufs__write_be32 (nextufs__write_be16 z 558 (checksum_be16 z 560)) 4 blkno)"
  by (simp add: label_copy_bytes_def label_body_def label_head_def Let_def)

lemma body_nth:
  "i < 44 \<Longrightarrow> label_body blkno total_blocks slice_blocks cyls label ! i = label_head blkno total_blocks label ! i"
  "44 \<le> i \<Longrightarrow> i < 192 \<Longrightarrow> label_body blkno total_blocks slice_blocks cyls label ! i =
     label_disktab_bytes (label_head blkno total_blocks label) 44 cyls ! i"
  "256 \<le> i \<Longrightarrow> i < 704 \<Longrightarrow> label_body blkno total_blocks slice_blocks cyls label ! i = 0xff"
  using disktab_bytes(1) [of "label_head blkno total_blocks label" cyls]
  by (simp_all add: label_body_def partition_outside disktab_bytes(7) nth_set_bytes)

lemma head_fields:
  "nextufs__read_be32 (label_head blkno total_blocks label) 0 = DL_V3"
  "bytes_at 12 24 (label_head blkno total_blocks label) = take 23 label @ replicate (24 - min 23 (length label)) 0"
proof -
  show "nextufs__read_be32 (label_head blkno total_blocks label) 0 = DL_V3"
  proof -
    have "nextufs__read_be32 (label_head blkno total_blocks label) 0 =
      nextufs__read_be32 (nextufs__write_be32 (replicate LABEL_WRITE_SIZE 0) 0 DL_V3) 0"
      by (rule read_be32_cong) (simp add: label_head_def label_frame)
    then show ?thesis by simp
  qed
  let ?b = "nextufs__write_be32 (nextufs__write_be32 (nextufs__write_be32 (replicate LABEL_WRITE_SIZE 0) 0 DL_V3)
       4 blkno) 8 total_blocks"
  have len: "length ?b = 0x300" by simp
  have z: "?b ! i = 0" if "12 \<le> i" "i < 0x300" for i using that by (simp add: label_frame)
  show "bytes_at 12 24 (label_head blkno total_blocks label) = take 23 label @ replicate (24 - min 23 (length label)) 0"
  proof (rule nth_equalityI)
    fix i
    assume "i < length (bytes_at 12 24 (label_head blkno total_blocks label))"
    then have i: "i < 24" by (simp add: bytes_at_def)
    then have "bytes_at 12 24 (label_head blkno total_blocks label) ! i = put_string ?b 12 24 label ! (12 + i)"
      by (simp add: label_head_def)
    also have "\<dots> = (if i < min 23 (length label) then label ! i else 0)"
      using i z [of "12 + i"] len by (auto simp: put_string_def nth_overlay)
    finally show "bytes_at 12 24 (label_head blkno total_blocks label) ! i = (take 23 label @ replicate (24 - min 23 (length label)) 0) ! i"
      using i by (auto simp: nth_append)
  qed simp
qed

lemma body_partition:
  assumes "slice_blocks < 16777216"
  shows "read_be24 (label_body blkno total_blocks slice_blocks cyls label) 192 = 0"
    and "read_be24 (label_body blkno total_blocks slice_blocks cyls label) 195 = slice_blocks"
    and "nextufs__read_be16 (label_body blkno total_blocks slice_blocks cyls label) 198 = 8192"
    and "nextufs__read_be16 (label_body blkno total_blocks slice_blocks cyls label) 200 = 1024"
    and "label_body blkno total_blocks slice_blocks cyls label ! 202 = 0x74"
    and "bytes_at 227 8 (label_body blkno total_blocks slice_blocks cyls label) = bsd_type @ [0, 0]"
  using disktab_bytes(1) [of "label_head blkno total_blocks label" cyls] assms
  by (simp_all add: label_body_def partition_bytes partition_type)

lemma body_disktab:
  "label_body blkno total_blocks slice_blocks cyls label ! 188 = 0x61"
  "nextufs__read_be16 (label_body blkno total_blocks slice_blocks cyls label) 94 = 1024"
  "nextufs__read_be16 (label_body blkno total_blocks slice_blocks cyls label) 112 = 160"
  using disktab_bytes [of "label_head blkno total_blocks label" cyls]
  by (simp_all add: body_nth read_be16_eq)

text \<open>A finished copy differs from its body in the block number and the checksum only.\<close>

lemma copy_nth:
  assumes "i < 0x300" and "i < 4 \<or> 8 \<le> i" and "i < 558 \<or> 560 \<le> i"
  shows "label_copy_bytes off total_blocks slice_blocks cyls label ! i =
    label_body (u32 (off div DEV_SECTOR_SIZE)) total_blocks slice_blocks cyls label ! i"
  using assms by (auto simp: label_copy_bytes_body Let_def nth_write_be32 nth_write_be16 nth_set_bytes)

lemma length_label_copy [simp]: "length (label_copy_bytes off total_blocks slice_blocks cyls label) = 0x300"
  by (simp add: label_copy_bytes_body Let_def)

lemma copy_cksum_image:
  "cksum_image (label_copy_bytes off total_blocks slice_blocks cyls label) =
     take 560 (set_bytes (set_bytes (label_body (u32 (off div DEV_SECTOR_SIZE)) total_blocks slice_blocks cyls label) 4 0 4) 558 0 2)"
  (is "?l = ?r")
proof (rule nth_equalityI)
  fix i :: nat
  assume "i < length ?l"
  then have i: "i < 560" by (simp add: cksum_image_def)
  then show "?l ! i = ?r ! i"
    by (auto simp: cksum_image_def label_copy_bytes_body Let_def nth_set_bytes nth_write_be32 nth_write_be16)
qed (simp add: cksum_image_def)

lemma checksum_take: "n \<le> m \<Longrightarrow> m \<le> length buf \<Longrightarrow> checksum_be16 (take m buf) n = checksum_be16 buf n"
proof -
  assume "n \<le> m" "m \<le> length buf"
  then have "nextufs__read_be16 (take m buf) (2 * i) = nextufs__read_be16 buf (2 * i)" if "i < n div 2" for i
    using that by (simp add: read_be16_eq)
  then show ?thesis unfolding checksum_be16_def by (intro arg_cong [where f = u16] fold_cong) auto
qed

lemma checksum_less: "checksum_be16 buf n < 65536"
  by (simp add: checksum_be16_def)

lemma copy_fields:
  "nextufs__read_be32 (label_copy_bytes off total_blocks slice_blocks cyls label) 4 = u32 (off div DEV_SECTOR_SIZE)"
  "nextufs__read_be16 (label_copy_bytes off total_blocks slice_blocks cyls label) 558 =
     checksum_be16 (cksum_image (label_copy_bytes off total_blocks slice_blocks cyls label)) 560"
  using checksum_less
  by (simp_all add: copy_cksum_image checksum_take) (simp_all add: label_copy_bytes_body Let_def u16_def)

lemma fresh_label_fields:
  assumes "take 0x300 buf = label_copy_bytes off total_blocks slice_blocks cyls label"
    and "0x300 \<le> length buf" and "slice_blocks < 16777216"
  shows "nextufs__read_be32 buf 0 = DL_V3" and "nextufs__read_be32 buf 4 = u32 (off div DEV_SECTOR_SIZE)"
    and "nextufs__read_be16 buf 94 = 1024" and "nextufs__read_be16 buf 112 = 160" and "buf ! 188 = 0x61"
    and "bytes_at 12 24 buf = take 23 label @ replicate (24 - min 23 (length label)) 0"
    and "nextufs__read_be16 buf 558 = checksum_be16 (cksum_image buf) 560"
    and "read_be24 buf 192 = 0" and "read_be24 buf 195 = slice_blocks"
    and "nextufs__read_be16 buf 198 = 8192" and "nextufs__read_be16 buf 200 = 1024"
    and "buf ! 202 = 0x74" and "bytes_at 227 8 buf = bsd_type @ [0, 0]"
    and "\<And>i. 1 \<le> i \<Longrightarrow> i < 8 \<Longrightarrow> read_be24 buf (192 + i * 64) = 0xffffff"
proof -
  let ?c = "label_copy_bytes off total_blocks slice_blocks cyls label"
  let ?b = "label_body (u32 (off div DEV_SECTOR_SIZE)) total_blocks slice_blocks cyls label"
  let ?h = "label_head (u32 (off div DEV_SECTOR_SIZE)) total_blocks label"
  have n: "buf ! i = ?c ! i" if "i < 0x300" for i using arg_cong [OF assms(1), of "\<lambda>xs. xs ! i"] that by simp
  have c: "buf ! i = ?b ! i" if "i < 0x300" "i < 4 \<or> 8 \<le> i" "i < 558 \<or> 560 \<le> i" for i
    using n copy_nth that by simp
  show "nextufs__read_be32 buf 0 = DL_V3"
  proof -
    have "nextufs__read_be32 buf 0 = nextufs__read_be32 ?h 0"
      by (rule read_be32_cong) (simp add: c body_nth)
    then show ?thesis by (simp add: head_fields)
  qed
  show "nextufs__read_be32 buf 4 = u32 (off div DEV_SECTOR_SIZE)"
    unfolding copy_fields(1) [symmetric, of off total_blocks slice_blocks cyls label]
    by (rule read_be32_cong) (simp add: n)
  show "nextufs__read_be16 buf 94 = 1024" "nextufs__read_be16 buf 112 = 160" "buf ! 188 = 0x61"
    "read_be24 buf 192 = 0" "read_be24 buf 195 = slice_blocks"
    "nextufs__read_be16 buf 198 = 8192" "nextufs__read_be16 buf 200 = 1024" "buf ! 202 = 0x74"
    using body_disktab [of "u32 (off div DEV_SECTOR_SIZE)" total_blocks slice_blocks cyls label]
      body_partition [OF assms(3), of "u32 (off div DEV_SECTOR_SIZE)" total_blocks cyls label]
    by (simp_all add: read_be16_eq read_be24_eq c)
  show "bytes_at 12 24 buf = take 23 label @ replicate (24 - min 23 (length label)) 0"
    unfolding head_fields(2) [symmetric, of label "u32 (off div DEV_SECTOR_SIZE)" total_blocks]
    using assms(2) by (intro nth_equalityI) (auto simp: c body_nth)
  show "bytes_at 227 8 buf = bsd_type @ [0, 0]"
    unfolding body_partition(6) [symmetric, OF assms(3), of "u32 (off div DEV_SECTOR_SIZE)" total_blocks cyls label]
    using assms(2) by (intro nth_equalityI) (auto simp: c)
  have "take 560 buf = take 560 (take 0x300 buf)" by simp
  then have t: "take 560 buf = take 560 ?c" unfolding assms(1) .
  then have ci: "cksum_image buf = cksum_image ?c" by (simp add: cksum_image_def)
  show "nextufs__read_be16 buf 558 = checksum_be16 (cksum_image buf) 560"
    unfolding ci copy_fields(2) [symmetric] by (simp add: read_be16_eq n)
  fix i :: nat
  assume "1 \<le> i" "i < 8"
  then have "i = 1 \<or> i = 2 \<or> i = 3 \<or> i = 4 \<or> i = 5 \<or> i = 6 \<or> i = 7" by linarith
  then show "read_be24 buf (192 + i * 64) = 0xffffff"
    by (elim disjE) (simp_all add: read_be24_eq c body_nth)
qed

lemma decode_fresh_label:
  assumes "take 0x300 buf = label_copy_bytes off total_blocks slice_blocks cyls label"
    and "NEXTUFS_LABEL_DECODE_SIZE \<le> length buf" and "slice_blocks < 16777216"
    and "off mod DEV_SECTOR_SIZE = 0" and "off div DEV_SECTOR_SIZE < 2 ^ 32"
  shows "\<exists>dl. nextufs_label_decode buf (int off) = Some dl \<and> dl_version dl = DL_V3 \<and> dl_checksum_valid dl \<and>
    dl_name dl = takeWhile (\<lambda>b. b \<noteq> 0) (take 23 label) \<and> dl_secsize dl = 1024 \<and>
    p_present (dl_part dl ! 0) = (slice_blocks \<noteq> 0 \<and> slice_blocks \<noteq> 0xffffff) \<and>
    nextufs_label_pick_slice dl =
      (if slice_blocks = 0 \<or> slice_blocks = 0xffffff then None else Some (163840, int (slice_blocks * 1024)))"
proof -
  note f = fresh_label_fields [OF assms(1) _ assms(3)]
  have len: "0x300 \<le> length buf" using assms(2) by simp
  note f = f [OF len]
  have o: "off div 512 * 512 = off" using assms(4) div_mult_mod_eq [of off 512] by simp
  have ou: "of_off (int off) = off" using assms(4,5) o by simp
  have bt: "bsd_type \<noteq> []" "takeWhile (\<lambda>b. b \<noteq> 0) (bsd_type @ [0, 0]) = bsd_type" by (simp_all add: bsd_type_def)
  have nz: "\<not> list_all (\<lambda>b. b = 0) (bytes_at 192 64 buf)" "\<not> list_all (\<lambda>b. b = 0xff) (bytes_at 192 64 buf)"
  proof -
    have "bytes_at 192 64 buf ! 10 = 0x74" using len f(12) by simp
    moreover have "bytes_at 192 64 buf ! 10 \<in> set (bytes_at 192 64 buf)" using len by (intro nth_mem) simp
    ultimately show "\<not> list_all (\<lambda>b. b = 0) (bytes_at 192 64 buf)" "\<not> list_all (\<lambda>b. b = 0xff) (bytes_at 192 64 buf)"
      by (auto simp: list_all_iff intro!: bexI [of _ "0x74"])
  qed
  let ?p = "\<lambda>i. decode_partition buf (192 + i * 64)"
  have p0: "p_present (?p 0) = (slice_blocks \<noteq> 0 \<and> slice_blocks \<noteq> 0xffffff)" "p_base_blocks (?p 0) = 0"
    "p_size_blocks (?p 0) = slice_blocks" "p_type (?p 0) = bsd_type"
    using f nz bt by (simp_all add: decode_partition_def Let_def copy_cstr_field_def bsd_type_def)
  have pi: "\<not> p_present (?p i)" if "1 \<le> i" "i < 8" for i
    using f(14) [OF that] by (simp add: decode_partition_def Let_def)
  have nm: "copy_cstr_field 25 (bytes_at 12 24 buf) = takeWhile (\<lambda>b. b \<noteq> 0) (take 23 label)"
  proof -
    have "takeWhile (\<lambda>b. b \<noteq> 0) (take 23 label @ 0 # zs) = takeWhile (\<lambda>b. b \<noteq> 0) (take 23 label)" for zs
      by (rule takeWhile_tail) simp
    moreover have "take 23 label @ replicate (24 - min 23 (length label)) 0 = take 23 label @ 0 # replicate (23 - min 23 (length label)) 0"
      by (cases "24 - min 23 (length label)") auto
    moreover have "length (takeWhile (\<lambda>b. b \<noteq> 0) (take 23 label)) \<le> 24"
      using length_takeWhile_le [of "\<lambda>b. b \<noteq> 0" "take 23 label"] by simp
    ultimately show ?thesis using f(6) by (simp add: copy_cstr_field_def)
  qed
  have upt: "[0..<8] = [0, 1, 2, 3, 4, 5, 6, 7 :: nat]" by (simp add: upt_rec)
  obtain dl where dl: "nextufs_label_decode buf (int off) = Some dl" "dl_version dl = DL_V3" "dl_checksum_valid dl"
    "dl_name dl = takeWhile (\<lambda>b. b \<noteq> 0) (take 23 label)" "dl_rootpartition dl = 0x61" "dl_secsize dl = 1024"
    "dl_front dl = 160" "dl_part dl = map ?p [0..<8]"
    using f assms(2,5) o ou nm
    by (simp add: nextufs_label_decode_def label_fields_def Let_def nextufs_label_is_version_def)
  have "nextufs_label_pick_slice dl =
      (if slice_blocks = 0 \<or> slice_blocks = 0xffffff then None else Some (163840, int (slice_blocks * 1024)))"
  proof (cases "slice_blocks = 0 \<or> slice_blocks = 0xffffff")
    case True
    have "find (\<lambda>part. (p_present part \<and> p_size_blocks part \<noteq> 0) \<and> p_type part = bsd_type) (map ?p [0..<8]) = None"
    proof -
      have "\<not> p_present (?p i)" if "i < 8" for i
        using pi [of i] p0(1) True that by (cases "i = 0") auto
      then show ?thesis by (auto simp: find_None_iff)
    qed
    then show ?thesis using dl p0 True unfolding nextufs_label_pick_slice_def Let_def by auto
  next
    case False
    then show ?thesis
      using dl p0 assms(3) unfolding nextufs_label_pick_slice_def Let_def
      by (simp add: part_slice_def to_off_id)
  qed
  with dl p0(1) show ?thesis by (intro exI [of _ dl] conjI) simp_all
qed

text \<open>
  C12. A fresh label can be read back: from any of its copies the decoder takes the version, a valid
  checksum and the name, and the slice it picks starts behind the front porch and has the size that
  was asked for.
\<close>

theorem fresh_label_accepted:
  assumes "take LABEL_WRITE_SIZE buf = label_copy_bytes off total_blocks slice_blocks cyls label"
    and "NEXTUFS_LABEL_DECODE_SIZE \<le> length buf" and "0 < slice_blocks" and "slice_blocks < 0xffffff"
    and "off mod DEV_SECTOR_SIZE = 0" and "off div DEV_SECTOR_SIZE < 2 ^ 32"
  shows "\<exists>dl. nextufs_label_decode buf (int off) = Some dl \<and> dl_checksum_valid dl \<and>
    dl_name dl = takeWhile (\<lambda>b. b \<noteq> 0) (take 23 label) \<and>
    nextufs_label_pick_slice dl = Some (int NEXTUFS_LABEL_FRONT_PORCH_BYTES, int (slice_blocks * NEXTUFS_LABEL_SECTOR_SIZE))"
proof -
  have "slice_blocks < 16777216" using assms(4) by simp
  from decode_fresh_label [OF assms(1,2) this assms(5,6)] obtain dl where
    d: "nextufs_label_decode buf (int off) = Some dl" "dl_checksum_valid dl"
      "dl_name dl = takeWhile (\<lambda>b. b \<noteq> 0) (take 23 label)"
    and p: "nextufs_label_pick_slice dl =
      (if slice_blocks = 0 \<or> slice_blocks = 0xffffff then None else Some (163840, int (slice_blocks * 1024)))" by blast
  from p assms(3,4) have "nextufs_label_pick_slice dl = Some (163840, int (slice_blocks * 1024))" by simp
  with d show ?thesis by auto
qed

theorem fresh_label_accepted_witness:
  "\<exists>dl. nextufs_label_decode (label_copy_bytes LABEL_COPY_STRIDE 9000 8840 70 [0x64] @ replicate 6490 0) (int LABEL_COPY_STRIDE)
      = Some dl \<and> dl_checksum_valid dl \<and>
    dl_name dl = takeWhile (\<lambda>b. b \<noteq> 0) (take 23 [0x64]) \<and>
    nextufs_label_pick_slice dl = Some (int NEXTUFS_LABEL_FRONT_PORCH_BYTES, int (8840 * NEXTUFS_LABEL_SECTOR_SIZE))"
  by (rule fresh_label_accepted [of _ _ 9000 _ 70]) simp_all

section \<open>Changing the size of the slice\<close>

lemma bytes_all_be16:
  "list_all (\<lambda>b. b = x) (bytes_at p 64 buf) \<Longrightarrow> p + 64 \<le> length buf \<Longrightarrow>
   nextufs__read_be16 buf (p + 6) = unat x * 256 + unat x"
proof -
  assume a: "list_all (\<lambda>b. b = x) (bytes_at p 64 buf)" and l: "p + 64 \<le> length buf"
  have "buf ! (p + k) = x" if "k < 64" for k
  proof -
    have "bytes_at p 64 buf ! k \<in> set (bytes_at p 64 buf)" using that l by (intro nth_mem) simp
    with a that l show ?thesis by (simp add: list_all_iff)
  qed
  from this [of 6] this [of 7] show ?thesis by (simp add: read_be16_eq add.commute [of 7 p])
qed

lemma present_again:
  assumes "p_present (decode_partition buf p)" and "p + 64 \<le> length buf" and "length buf' = length buf"
    and "read_be24 buf' p = read_be24 buf p" and "read_be24 buf' (p + 3) = n" and "n \<noteq> 0" and "n \<noteq> 0xffffff"
    and "\<And>i. p + 6 \<le> i \<Longrightarrow> i < p + 0x2b \<Longrightarrow> buf' ! i = buf ! i"
  shows "p_present (decode_partition buf' p)" and "p_size_blocks (decode_partition buf' p) = n"
    and "p_base_blocks (decode_partition buf' p) = p_base_blocks (decode_partition buf p)"
proof -
  have b: "nextufs__read_be16 buf' (p + 6) = nextufs__read_be16 buf (p + 6)"
    "nextufs__read_be16 buf' (p + 8) = nextufs__read_be16 buf (p + 8)"
    by (simp_all add: read_be16_eq assms(8))
  have t: "bytes_at (p + 0x23) 8 buf' = bytes_at (p + 0x23) 8 buf"
    using assms(2,3) by (intro nth_equalityI) (auto simp: assms(8))
  have "nextufs__read_be16 buf (p + 6) \<noteq> 0" "nextufs__read_be16 buf (p + 6) \<noteq> 0xffff"
    using assms(1) by (simp_all add: decode_partition_def Let_def)
  then have "\<not> list_all (\<lambda>b. b = 0) (bytes_at p 64 buf')" "\<not> list_all (\<lambda>b. b = 0xff) (bytes_at p 64 buf')"
    using bytes_all_be16 [of 0 p buf'] bytes_all_be16 [of "0xff" p buf'] assms(2,3) b by auto
  then show "p_present (decode_partition buf' p)"
    using assms(1,4-7) b t by (simp add: decode_partition_def Let_def)
  show "p_size_blocks (decode_partition buf' p) = n"
    and "p_base_blocks (decode_partition buf' p) = p_base_blocks (decode_partition buf p)"
    using assms(4,5) by (simp_all add: decode_partition_def Let_def)
qed

lemma cksum_image_write: "560 \<le> length buf \<Longrightarrow> cksum_image (nextufs__write_be16 buf 558 x) = cksum_image buf"
  by (intro nth_equalityI) (auto simp: cksum_image_def nth_set_bytes nth_write_be16)

lemma cksum_image_append: "560 \<le> length buf \<Longrightarrow> cksum_image (buf @ rest) = cksum_image buf"
  by (simp add: cksum_image_def)

lemma read_append:
  "p + 2 \<le> length xs \<Longrightarrow> nextufs__read_be16 (xs @ ys) p = nextufs__read_be16 xs p"
  "p + 3 \<le> length xs \<Longrightarrow> read_be24 (xs @ ys) p = read_be24 xs p"
  "p + 4 \<le> length xs \<Longrightarrow> nextufs__read_be32 (xs @ ys) p = nextufs__read_be32 xs p"
  by (simp_all add: read_be16_eq read_be24_eq read_be32_eq nth_append)

lemma decode_SomeD:
  assumes "nextufs_label_decode buf off = Some dl"
  shows "dl = label_fields buf off" and "0x1c5a \<le> length buf" and "nextufs__read_be16 buf 94 \<noteq> 0"
    and "nextufs__read_be16 buf 94 mod 512 = 0" and "nextufs__read_be32 buf 4 * 512 = of_off off"
proof -
  have s: "dl_secsize (label_fields buf off) = nextufs__read_be16 buf 94"
    "dl_label_blkno (label_fields buf off) = nextufs__read_be32 buf 4"
    by (simp_all add: label_fields_def Let_def)
  show "dl = label_fields buf off" "0x1c5a \<le> length buf" "nextufs__read_be16 buf 94 \<noteq> 0"
    "nextufs__read_be16 buf 94 mod 512 = 0" "nextufs__read_be32 buf 4 * 512 = of_off off"
    using assms s unfolding nextufs_label_decode_def Let_def by (auto split: if_splits)
qed

lemma patched_labelD:
  assumes "patched_label label off fs_base slice_bytes = Inr (Some label')"
    and "nextufs__read_be32 label 0 = DL_V3"
    and "slice_bytes div nextufs__read_be16 label 94 < 0xffffff"
  shows "97 \<le> label_root label" and "label_root label < 105" and "slice_bytes mod nextufs__read_be16 label 94 = 0"
    and "label' = (let w = write_be24 label (192 + (label_root label - 97) * 64 + 3) (slice_bytes div nextufs__read_be16 label 94)
      in nextufs__write_be16 w 558 (checksum_be16 (cksum_image w) 560))"
proof -
  have u: "u32 (slice_bytes div nextufs__read_be16 label 94) = slice_bytes div nextufs__read_be16 label 94"
    using assms(3) by simp
  show "97 \<le> label_root label" and "label_root label < 105" and "slice_bytes mod nextufs__read_be16 label 94 = 0"
    and "label' = (let w = write_be24 label (192 + (label_root label - 97) * 64 + 3) (slice_bytes div nextufs__read_be16 label 94)
      in nextufs__write_be16 w 558 (checksum_be16 (cksum_image w) 560))"
    using assms(1,2) u unfolding patched_label_def Let_def partition_at_def
    by (auto simp: nextufs_label_is_version_def split: if_splits)
qed

text \<open>What a patch at partition \<open>r\<close> does to the bytes.\<close>

lemma patch_bytes:
  assumes "length label = 0x660" and "r < 8" and "n < 16777216"
    and "label' = (let w = write_be24 label (192 + r * 64 + 3) n in nextufs__write_be16 w 558 (checksum_be16 (cksum_image w) 560))"
  shows "length label' = 0x660"
    and "\<And>i. i < 0x660 \<Longrightarrow> i < 192 + r * 64 + 3 \<or> 192 + r * 64 + 6 \<le> i \<Longrightarrow> i < 558 \<or> 560 \<le> i \<Longrightarrow> label' ! i = label ! i"
    and "read_be24 label' (192 + r * 64 + 3) = n" and "read_be24 label' (192 + r * 64) = read_be24 label (192 + r * 64)"
    and "nextufs__read_be16 label' 558 = checksum_be16 (cksum_image label') 560"
proof -
  let ?p = "192 + r * 64"
  let ?w = "write_be24 label (?p + 3) n"
  have p: "?p + 64 \<le> 704" using assms(2) by simp
  have lw: "length ?w = 0x660" using assms(1) p by simp
  have w: "label' = nextufs__write_be16 ?w 558 (checksum_be16 (cksum_image ?w) 560)" using assms(4) by (simp add: Let_def)
  show "length label' = 0x660" using lw by (simp add: w)
  have away: "?p + k < 558 \<or> 560 \<le> ?p + k" if "k < 8" for k using that assms(2) by presburger
  have nw: "label' ! i = ?w ! i" if "i < 0x660" "i < 558 \<or> 560 \<le> i" for i
    using that lw unfolding w by (intro nth_write_be16) auto
  show same: "label' ! i = label ! i" if "i < 0x660" "i < ?p + 3 \<or> ?p + 6 \<le> i" "i < 558 \<or> 560 \<le> i" for i
    using nw [OF that(1,3)] nth_write_be24 [of "?p + 3" label i n] that p assms(1) by auto
  have "read_be24 label' (?p + 3) = read_be24 ?w (?p + 3)"
    using nw [of "?p + 3"] nw [of "?p + 4"] nw [of "?p + 5"] away [of 3] away [of 4] away [of 5] p
    by (simp add: read_be24_eq)
  also have "\<dots> = n" using assms(1,3) p by simp
  finally show "read_be24 label' (?p + 3) = n" .
  show "read_be24 label' ?p = read_be24 label ?p"
    using same [of ?p] same [of "?p + 1"] same [of "?p + 2"] away [of 0] away [of 1] away [of 2] p
    by (simp add: read_be24_eq)
  show "nextufs__read_be16 label' 558 = checksum_be16 (cksum_image label') 560"
    using lw checksum_less by (simp add: w cksum_image_write u16_def)
qed

lemma partition_misses_checksum:
  "r < 8 \<Longrightarrow> 192 + r * 64 + 6 \<le> i \<Longrightarrow> i < 192 + r * 64 + 0x2b \<Longrightarrow> i < 558 \<or> 560 \<le> (i :: nat)"
  by (cases "r \<le> 5") linarith+

text \<open>
  C13. Patching the slice size of a third-version label keeps the label valid: the decoder accepts the
  patched copy, checksum included, and picks the same slice base with the new size. The new size is of fewer
  than 0xffffff sectors.
\<close>

theorem patched_label_accepted:
  assumes "patched_label label off fs_base slice_bytes = Inr (Some label')"
    and "nextufs__read_be32 label 0 = DL_V3" and "length label = LABEL_VALIDATE_SIZE"
    and "nextufs_label_decode (label @ rest) (int off) = Some dl" and "p_present (dl_part dl ! (label_root label - 97))"
    and "nextufs_label_pick_slice dl = Some (fs_base, old_size)"
    and "0 < slice_bytes" and "slice_bytes < 2 ^ 63" and "slice_bytes div dl_secsize dl < 0xffffff"
  shows "\<exists>dl'. nextufs_label_decode (label' @ rest) (int off) = Some dl' \<and> dl_checksum_valid dl' \<and>
    nextufs_label_pick_slice dl' = Some (fs_base, int slice_bytes)"
proof -
  let ?r = "label_root label - 97"
  let ?p = "192 + ?r * 64"
  let ?sec = "nextufs__read_be16 label 94"
  let ?n = "slice_bytes div ?sec"
  note d = decode_SomeD [OF assms(4)]
  have sel: "dl_secsize dl = ?sec" "dl_part dl = map (\<lambda>i. decode_partition (label @ rest) (192 + i * 64)) [0..<8]"
    "dl_rootpartition dl = label ! 188" "dl_front dl = nextufs__read_be16 label 112"
    using assms(3) by (simp_all add: d(1) label_fields_def Let_def read_append nth_append)
  have sz: "?n < 0xffffff" using assms(9) by (simp add: sel)
  note pl = patched_labelD [OF assms(1,2) sz]
  have r: "?r < 8" using pl(1,2) by linarith
  have n24: "?n < 16777216" using sz by simp
  note pb = patch_bytes [OF assms(3) r n24 pl(4)]
  have exact: "?n * ?sec = slice_bytes" using pl(3) by (simp add: mod_eq_0_iff_dvd)
  have n0: "?n \<noteq> 0" using exact assms(7) by (cases "?n = 0") auto
  have low: "label' ! i = label ! i" if "i < 192" for i using pb(2) [of i] that by simp
  have pp: "p_present (decode_partition (label @ rest) ?p)" using assms(5) r by (simp add: sel)
  have part: "p_present (decode_partition (label' @ rest) ?p)" "p_size_blocks (decode_partition (label' @ rest) ?p) = ?n"
    "p_base_blocks (decode_partition (label' @ rest) ?p) = p_base_blocks (decode_partition (label @ rest) ?p)"
  proof -
    have mid: "(label' @ rest) ! i = (label @ rest) ! i" if "?p + 6 \<le> i" "i < ?p + 0x2b" for i
    proof -
      have "i < 558 \<or> 560 \<le> i" by (rule partition_misses_checksum [OF r that])
      moreover have "i < 0x660" using that(2) r by linarith
      ultimately have "label' ! i = label ! i" using that(1) by (intro pb(2)) auto
      with \<open>i < 0x660\<close> show ?thesis using pb(1) assms(3) by (simp only: nth_append)
    qed
    have rd: "read_be24 (label' @ rest) ?p = read_be24 (label @ rest) ?p" "read_be24 (label' @ rest) (?p + 3) = ?n"
      using pb(1,3,4) r assms(3) by (simp_all add: read_append)
    have l: "?p + 64 \<le> length (label @ rest)" "length (label' @ rest) = length (label @ rest)"
      using r assms(3) pb(1) by simp_all
    have "?n \<noteq> 0xffffff" using sz by simp
    from present_again [OF pp l rd n0 this mid]
    show "p_present (decode_partition (label' @ rest) ?p)" "p_size_blocks (decode_partition (label' @ rest) ?p) = ?n"
      "p_base_blocks (decode_partition (label' @ rest) ?p) = p_base_blocks (decode_partition (label @ rest) ?p)"
      by blast+
  qed
  have f': "nextufs__read_be32 label' 0 = DL_V3" "nextufs__read_be32 label' 4 = nextufs__read_be32 label 4"
    "nextufs__read_be16 label' 94 = ?sec" "nextufs__read_be16 label' 112 = nextufs__read_be16 label 112"
    "label' ! 188 = label ! 188"
    using assms(2) by (simp_all add: read_be32_eq read_be16_eq low)
  let ?dl = "label_fields (label' @ rest) (int off)"
  have sel': "dl_version ?dl = DL_V3" "dl_secsize ?dl = ?sec" "dl_front ?dl = nextufs__read_be16 label 112"
    "dl_part ?dl = map (\<lambda>i. decode_partition (label' @ rest) (192 + i * 64)) [0..<8]"
    "dl_rootpartition ?dl = label ! 188" "dl_label_blkno ?dl = nextufs__read_be32 label 4" "dl_checksum_valid ?dl"
    using f' pb(1,5) by (simp_all add: label_fields_def Let_def read_append nth_append cksum_image_append)
  have "nextufs_label_decode (label' @ rest) (int off) = Some ?dl"
    using d(2-5) sel' pb(1) assms(3)
    by (simp add: nextufs_label_decode_def Let_def nextufs_label_is_version_def read_append)
  moreover have "nextufs_label_pick_slice ?dl = Some (part_slice ?dl (decode_partition (label' @ rest) ?p))"
    using sel' part pl(1,2) r n0 unfolding nextufs_label_pick_slice_def Let_def label_root_def by simp
  moreover have "fs_base = fst (part_slice dl (decode_partition (label @ rest) ?p))"
  proof -
    have "p_size_blocks (decode_partition (label @ rest) ?p) \<noteq> 0" using pp by (simp add: decode_partition_def Let_def)
    then have "nextufs_label_pick_slice dl = Some (part_slice dl (decode_partition (label @ rest) ?p))"
      using pp pl(1,2) r sel unfolding nextufs_label_pick_slice_def Let_def by (simp add: label_root_def)
    with assms(6) show ?thesis by simp
  qed
  moreover have "part_slice ?dl (decode_partition (label' @ rest) ?p) =
      (fst (part_slice dl (decode_partition (label @ rest) ?p)), int slice_bytes)"
    using sel sel' part(2,3) exact assms(8) by (simp add: part_slice_def to_off_id)
  ultimately show ?thesis using sel'(7) by metis
qed

text \<open>A fresh label of 8840 blocks, as the device holds it.\<close>

definition sample_label :: "byte list" where
  "sample_label = label_copy_bytes 0 9000 8840 70 [] @ replicate 864 0"

lemma sample_label_patch:
  "patched_label sample_label 0 163840 8192000 =
     Inr (Some (let w = write_be24 sample_label 195 8000 in nextufs__write_be16 w 558 (checksum_be16 (cksum_image w) 560)))"
proof -
  have t: "take 0x300 sample_label = label_copy_bytes 0 9000 8840 70 []" by (simp add: sample_label_def)
  have l: "0x300 \<le> length sample_label" by (simp add: sample_label_def)
  note f = fresh_label_fields [OF t l]
  have r: "label_root sample_label = 97" using f(5) by (simp add: label_root_def)
  have b: "label_slice_base sample_label 192 = 163840" using f by (simp add: label_slice_base_def)
  show ?thesis
    using f r b unfolding patched_label_def Let_def partition_at_def by (simp add: nextufs_label_is_version_def)
qed

theorem patched_label_accepted_witness:
  "\<exists>label' dl'. patched_label sample_label 0 163840 8192000 = Inr (Some label') \<and>
    nextufs_label_decode (label' @ replicate 6000 0) 0 = Some dl' \<and> dl_checksum_valid dl' \<and>
    nextufs_label_pick_slice dl' = Some (163840, 8192000)"
proof -
  let ?buf = "sample_label @ replicate 6000 0"
  have t: "take 0x300 ?buf = label_copy_bytes 0 9000 8840 70 []" by (simp add: sample_label_def)
  have l: "0x1c5a \<le> length ?buf" "length sample_label = 0x660" by (simp_all add: sample_label_def)
  have ts: "take 0x300 sample_label = label_copy_bytes 0 9000 8840 70 []" by (simp add: sample_label_def)
  note f = fresh_label_fields [OF ts]
  from decode_fresh_label [OF t l(1), of] obtain dl where dl: "nextufs_label_decode ?buf (int 0) = Some dl"
    "nextufs_label_pick_slice dl = Some (163840, 9052160)" "dl_secsize dl = 1024" "p_present (dl_part dl ! 0)" by auto
  have root: "label_root sample_label - 97 = 0" using f(5) l by (simp add: label_root_def)
  have v: "nextufs__read_be32 sample_label 0 = DL_V3" using f(1) l by simp
  from patched_label_accepted [OF sample_label_patch v l(2) dl(1) _ dl(2), unfolded root, OF dl(4)] dl(3)
  obtain dl' where "nextufs_label_decode ((let w = write_be24 sample_label 195 8000 in
      nextufs__write_be16 w 558 (checksum_be16 (cksum_image w) 560)) @ replicate 6000 0) (int 0) = Some dl'"
    "dl_checksum_valid dl'" "nextufs_label_pick_slice dl' = Some (163840, int 8192000)" by auto
  then show ?thesis unfolding sample_label_patch by auto
qed

text \<open>
  C30. The offset of the boot block numbers lies six bytes too high, inside the boot file name: the
  name is written over both numbers, and a fresh label holds neither of them.
\<close>

theorem boot_blocks_overwritten:
  "nextufs__read_be32 (label_copy_bytes off total_blocks slice_blocks cyls label) (DL_DISKTAB_OFF + DT_BOOT0_BLKNO_OFF) = 0x7364 \<and>
   nextufs__read_be32 (label_copy_bytes off total_blocks slice_blocks cyls label) (DL_DISKTAB_OFF + DT_BOOT0_BLKNO_OFF + 4) = 0x6d616368"
proof -
  let ?c = "label_copy_bytes off total_blocks slice_blocks cyls label"
  let ?h = "label_head (u32 (off div DEV_SECTOR_SIZE)) total_blocks label"
  have "nextufs__read_be32 ?c p = nextufs__read_be32 (label_disktab_bytes ?h 44 cyls) p" if "p = 130 \<or> p = 134" for p
    by (rule read_be32_cong) (use that in \<open>auto simp: copy_nth body_nth\<close>)
  then show ?thesis using disktab_bytes(5,6) [of ?h cyls] by simp
qed

end
