(* ===== verification/Image_Open.thy ===== *)
theory Image_Open
  imports Label Atomicity
begin

text \<open>
  Opening and closing an image, and copying its slice out (\<^verbatim>\<open>src/core/image.c\<close>). The file system is
  looked for through the disk labels in the first 128 KiB; without one, by the magic number of a
  superblock in the first 32 MiB. With an explicit superblock offset only the label is used.
  What opens the file of the host is a parameter, \<open>init\<close>; for a plain file it is given by
  \<open>nextufs_init_backend\<close>, and the containers by the theories of their backends.
\<close>

section \<open>Opening the source file\<close>

abbreviation (input) DEFAULT_SCAN_LIMIT :: nat where "DEFAULT_SCAN_LIMIT \<equiv> 33554432"

text \<open>\<open>memset\<close> of the structure. The context, the clock and the outcomes of later calls are not part of it.\<close>

definition blank_image :: "'c nextufs_image \<Rightarrow> 'c nextufs_image" where
  "blank_image img = img\<lparr>backend_ops := None, transaction := None, writable := False, unprivileged := False,
     restore_clean := False, fs_write_active := False, source_is_container := False,
     source_format := NEXTUFS_SOURCE_RAW, image_size := 0, slice_base := 0, slice_size := 0, label_off := 0,
     label_version := 0, label_secsize := 0, label_front := 0, label_name := [], rootpartition := 0,
     used_disk_label := False, sb := decode_superblock (replicate 2048 0)\<rparr>"

text \<open>
  The steps before the header is read. \<open>seen\<close> are the device and inode numbers of the files opened
  on the way here, \<open>opened\<close> what \<open>open\<close> and \<open>fstat\<close> give (identity and size), \<open>locked\<close> what \<open>flock\<close> gives.
\<close>

type_synonym file_id = "nat \<times> nat"

definition source_guard ::
  "file_id list \<Rightarrow> errno + file_id \<times> nat \<Rightarrow> errno option \<Rightarrow> errno + file_id list \<times> nat" where
  "source_guard seen opened locked =
     (if 32 \<le> length seen then Inl ELOOP
      else case opened of
        Inl e \<Rightarrow> Inl e
      | Inr (i, sz) \<Rightarrow>
          if i \<in> set seen then Inl ELOOP
          else case locked of Some e \<Rightarrow> Inl e | None \<Rightarrow> Inr (seen @ [i], sz))"

definition detect_source :: "byte list \<Rightarrow> nextufs_source_format" where
  "detect_source hdr =
     (if nextufs__read_be32 hdr 0 = 0x514649fb then NEXTUFS_SOURCE_QCOW2
      else if read_le32 hdr 0x40 = 0xbeda107f then NEXTUFS_SOURCE_VDI
      else NEXTUFS_SOURCE_RAW)"

text \<open>
  A source opened as a plain file. \<open>container\<close> is what the branches of the two container formats do
  with the header.
\<close>

definition nextufs_init_backend ::
  "(nextufs_source_format \<Rightarrow> byte list \<Rightarrow> (nextufs_raw_backend nextufs_image, unit) io) \<Rightarrow>
   file_id list \<Rightarrow> errno + file_id \<times> nat \<Rightarrow> errno option \<Rightarrow> bool \<Rightarrow> (nextufs_raw_backend nextufs_image, unit) io" where
  "nextufs_init_backend container seen opened locked rw =
     (case source_guard seen opened locked of
        Inl e \<Rightarrow> fail e
      | Inr (_, st_sz) \<Rightarrow>
          bind_io (map_err EIO (ctx_io (nextufs__read_exact_fd 512 0))) (\<lambda>hdr.
          if detect_source hdr \<noteq> NEXTUFS_SOURCE_RAW then container (detect_source hdr) hdr
          else bind_io (malloc_io 4) (\<lambda>_.
            modify_io (\<lambda>img. img\<lparr>backend_ops := Some nextufs_raw_backend_ops, writable := rw,
              source_is_container := False, image_size := int st_sz\<rparr>))))"

text \<open>
  The recursion over the parents of differencing disks. \<open>look path\<close> is what opening the file at a path
  gives, with the path of its parent when it has one. The result lists the files that were opened.
\<close>

partial_function (option) open_chain ::
  "('path \<Rightarrow> (errno + file_id \<times> nat) \<times> errno option \<times> 'path option) \<Rightarrow> file_id list \<Rightarrow> 'path \<Rightarrow>
   (errno + file_id list) option" where
  "open_chain look seen path =
     (case look path of (opened, locked, parent) \<Rightarrow>
        (case source_guard seen opened locked of
           Inl e \<Rightarrow> Some (Inl e)
         | Inr (seen', _) \<Rightarrow>
             (case parent of None \<Rightarrow> Some (Inr seen') | Some p \<Rightarrow> open_chain look seen' p)))"

section \<open>Closing\<close>

text \<open>The backend's \<open>close\<close> releases what the context holds; the context counts as gone with \<open>backend_ops\<close>.\<close>

definition nextufs_image_close :: "('c nextufs_image, unit) io" where
  "nextufs_image_close = bind_io get_io (\<lambda>img.
     bind_io (if transaction img = None then ret ()
       else bind_io (try_io (nextufs__transaction_end (Inl ECANCELED :: errno + unit))) (\<lambda>rc.
         bind_io (try_io (nextufs__write_finish (rc \<noteq> Inl EUCLEAN))) (\<lambda>_. ret ()))) (\<lambda>_.
     modify_io (\<lambda>img. img\<lparr>backend_ops := None, writable := False, source_is_container := False,
       source_format := NEXTUFS_SOURCE_RAW\<rparr>)))"

definition close_with :: "errno \<Rightarrow> ('c nextufs_image, 'a) io" where
  "close_with e = bind_io nextufs_image_close (\<lambda>_. fail e)"

text \<open>\<open>m\<close>, or the image closed and the error that \<open>f\<close> makes of that of \<open>m\<close>.\<close>

definition or_close :: "(errno \<Rightarrow> errno) \<Rightarrow> ('c nextufs_image, 'a) io \<Rightarrow> ('c nextufs_image, 'a) io" where
  "or_close f m = bind_io (try_io m) (\<lambda>r. case r of Inl e \<Rightarrow> close_with (f e) | Inr x \<Rightarrow> ret x)"

section \<open>Finding the file system\<close>

definition superblock_unusable :: "nextufs_superblock \<Rightarrow> bool" where
  "superblock_unusable s \<longleftrightarrow> fs_magic s \<noteq> UFS_FS_MAGIC \<or> block_size s = 0 \<or> frag_size s = 0"

text \<open>The tests on a label at \<open>off\<close> that need the scanned bytes only.\<close>

definition label_candidate :: "byte list \<Rightarrow> int \<Rightarrow> int \<Rightarrow> nat \<Rightarrow> (nextufs_disk_label \<times> int \<times> int) option" where
  "label_candidate scanbuf img_size selected off =
     (if \<not> nextufs_label_is_version (nextufs__read_be32 scanbuf off) then None
      else case nextufs_label_decode (drop off scanbuf) (int off) of
        None \<Rightarrow> None
      | Some dl \<Rightarrow> (case nextufs_label_pick_slice dl of
          None \<Rightarrow> None
        | Some (base, len) \<Rightarrow>
            if base < 0 \<or> img_size \<le> base then None
            else if len \<le> 0 \<or> img_size - base < len \<or>
                0 \<le> selected \<and> (len < 2048 \<or> len - 2048 < selected) then None
            else (let magic_off = nat base + UFS_SBLOCK_OFFSET + UFS_SUPER_MAGIC_OFFSET in
              if selected < 0 \<and> length scanbuf < magic_off + 4 then None
              else if selected < 0 \<and> nextufs__read_be32 scanbuf magic_off \<noteq> UFS_FS_MAGIC then None
              else Some (dl, base, len))))"

definition adopt_label :: "nextufs_disk_label \<Rightarrow> int \<Rightarrow> int \<Rightarrow> 'c nextufs_image \<Rightarrow> 'c nextufs_image" where
  "adopt_label dl base len img = img\<lparr>slice_base := base, slice_size := len, label_off := dl_label_off dl,
     label_version := dl_version dl, label_secsize := dl_secsize dl, label_front := dl_front dl,
     label_name := dl_name dl, rootpartition := dl_rootpartition dl, used_disk_label := True\<rparr>"

text \<open>Reading a superblock into the image; an unreadable one leaves it alone.\<close>

definition try_superblock :: "int \<Rightarrow> ('c nextufs_image, bool) io" where
  "try_superblock off = bind_io (try_io (nextufs__read_exact 2048 off)) (\<lambda>r. case r of
       Inl _ \<Rightarrow> ret False
     | Inr sbuf \<Rightarrow> bind_io (modify_io (\<lambda>img. img\<lparr>sb := decode_superblock sbuf\<rparr>)) (\<lambda>_.
         ret (\<not> superblock_unusable (decode_superblock sbuf))))"

fun scan_labels :: "byte list \<Rightarrow> int \<Rightarrow> nat list \<Rightarrow> ('c nextufs_image, bool) io" where
  "scan_labels scanbuf selected [] = ret False"
| "scan_labels scanbuf selected (off # offs) = bind_io get_io (\<lambda>img.
     case label_candidate scanbuf (image_size img) selected off of
       None \<Rightarrow> scan_labels scanbuf selected offs
     | Some (dl, base, len) \<Rightarrow>
         bind_io (try_superblock (base + (if selected < 0 then int UFS_SBLOCK_OFFSET else selected))) (\<lambda>ok.
         if ok then bind_io (modify_io (adopt_label dl base len)) (\<lambda>_. ret True)
         else scan_labels scanbuf selected offs))"

fun scan_magic :: "byte list \<Rightarrow> nat list \<Rightarrow> ('c nextufs_image, bool) io" where
  "scan_magic scanbuf [] = ret False"
| "scan_magic scanbuf (off # offs) =
     (if nextufs__read_be32 scanbuf off \<noteq> UFS_FS_MAGIC \<or> off < UFS_SUPER_MAGIC_OFFSET
      then scan_magic scanbuf offs
      else let base = int off - int UFS_SUPER_MAGIC_OFFSET - int UFS_SBLOCK_OFFSET in
        bind_io (modify_io (\<lambda>img. img\<lparr>slice_base := base\<rparr>)) (\<lambda>_.
        if base < 0 then scan_magic scanbuf offs
        else bind_io (try_superblock (base + int UFS_SBLOCK_OFFSET)) (\<lambda>ok.
          if ok then bind_io (modify_io (\<lambda>img. img\<lparr>slice_size := image_size img - slice_base img\<rparr>)) (\<lambda>_. ret True)
          else scan_magic scanbuf offs)))"

text \<open>The offsets \<open>0, step, ...\<close> at which \<open>need\<close> more bytes are below \<open>limit\<close>.\<close>

definition scan_offsets :: "nat \<Rightarrow> nat \<Rightarrow> nat \<Rightarrow> nat list" where
  "scan_offsets step need limit = (if limit < need then [] else map (\<lambda>i. i * step) [0..<(limit - need) div step + 1])"

definition validate_opened :: "bool \<Rightarrow> ('c nextufs_image, unit) io" where
  "validate_opened rw = bind_io get_io (\<lambda>img.
     if rw \<and> nextufs_image_validate img \<noteq> Inr () then close_with EINVAL else ret ())"

definition open_unlabelled :: "int \<Rightarrow> ('c nextufs_image, unit) io" where
  "open_unlabelled selected =
     bind_io (modify_io (\<lambda>img. img\<lparr>slice_base := 0, slice_size := image_size img\<rparr>)) (\<lambda>_.
     or_close (\<lambda>e. e) (bind_io (nextufs__read_exact 2048 selected) (\<lambda>sbuf.
       bind_io (modify_io (\<lambda>img. img\<lparr>sb := decode_superblock sbuf\<rparr>)) (\<lambda>_.
       bind_io get_io (\<lambda>img. lift_res (nextufs_image_validate img))))))"

definition nextufs_open_with_mode ::
  "(bool \<Rightarrow> ('c nextufs_image, unit) io) \<Rightarrow> bool \<Rightarrow> int \<Rightarrow> ('c nextufs_image, unit) io" where
  "nextufs_open_with_mode init rw selected =
     bind_io (modify_io blank_image) (\<lambda>_.
     bind_io (init rw) (\<lambda>_.
     bind_io get_io (\<lambda>img.
     if 0 \<le> selected \<and> (image_size img < 2048 \<or> image_size img - 2048 < selected) then close_with EINVAL
     else let scan_size = min DEFAULT_SCAN_LIMIT (of_off (image_size img)) in
       bind_io (or_close (\<lambda>_. ENOMEM) (malloc_io scan_size)) (\<lambda>_.
       bind_io (or_close (\<lambda>_. EIO) (nextufs__read_exact scan_size 0)) (\<lambda>scanbuf.
       bind_io (scan_labels scanbuf selected (scan_offsets NEXTUFS_LABEL_DEV_SECTOR_SIZE NEXTUFS_LABEL_DECODE_SIZE
         (min scan_size NEXTUFS_LABEL_SCAN_LIMIT))) (\<lambda>labelled.
       if labelled then validate_opened rw
       else if 0 \<le> selected then open_unlabelled selected
       else bind_io (scan_magic scanbuf (scan_offsets 4 4 scan_size)) (\<lambda>found.
         if found then validate_opened rw else close_with EINVAL)))))))"

datatype nextufs_open_policy = NEXTUFS_OPEN_READ_ONLY | NEXTUFS_OPEN_READ_WRITE | NEXTUFS_OPEN_CREATE
  | NEXTUFS_OPEN_OVERWRITE

definition nextufs_image_open_source ::
  "(bool \<Rightarrow> ('c nextufs_image, unit) io) \<Rightarrow> nextufs_open_policy \<Rightarrow> ('c nextufs_image, unit) io" where
  "nextufs_image_open_source init policy = (case policy of
       NEXTUFS_OPEN_READ_ONLY \<Rightarrow> nextufs_open_with_mode init False (- 1)
     | NEXTUFS_OPEN_READ_WRITE \<Rightarrow> nextufs_open_with_mode init True (- 1)
     | _ \<Rightarrow> fail EINVAL)"

definition nextufs_image_open :: "(bool \<Rightarrow> ('c nextufs_image, unit) io) \<Rightarrow> ('c nextufs_image, unit) io" where
  "nextufs_image_open init = nextufs_image_open_source init NEXTUFS_OPEN_READ_ONLY"

definition nextufs_image_open_rw :: "(bool \<Rightarrow> ('c nextufs_image, unit) io) \<Rightarrow> ('c nextufs_image, unit) io" where
  "nextufs_image_open_rw init = nextufs_image_open_source init NEXTUFS_OPEN_READ_WRITE"

definition nextufs_image_open_super ::
  "(bool \<Rightarrow> ('c nextufs_image, unit) io) \<Rightarrow> bool \<Rightarrow> int \<Rightarrow> ('c nextufs_image, unit) io" where
  "nextufs_image_open_super init rw offset =
     (if offset < 0 then fail EINVAL else nextufs_open_with_mode init rw offset)"

section \<open>Copying the slice\<close>

text \<open>
  \<open>write\<close> on a descriptor is a \<open>pwrite\<close> at its position \<open>pos\<close>, which moves by what was written, so the
  retry loop of \<open>nextufs_write_out_fd\<close> is that of the exact write.
\<close>

definition nextufs_write_out_fd :: "byte list \<Rightarrow> nat \<Rightarrow> (hostfile, unit) io" where
  "nextufs_write_out_fd buf pos = write_fd_loop buf (int pos) 0"

text \<open>The state holds the image and the file that is written.\<close>

definition on_image :: "('c nextufs_image, 'a) io \<Rightarrow> ('c nextufs_image \<times> hostfile, 'a) io" where
  "on_image m = (\<lambda>(img, out). case m img of (r, img') \<Rightarrow> (r, (img', out)))"

definition on_out :: "(hostfile, 'a) io \<Rightarrow> ('c nextufs_image \<times> hostfile, 'a) io" where
  "on_out m = (\<lambda>(img, out). case m out of (r, out') \<Rightarrow> (r, (img, out')))"

text \<open>\<open>start\<close> is the position of the descriptor before the first write, \<open>left\<close> what is still to be copied.\<close>

function copy_slice :: "nat \<Rightarrow> nat \<Rightarrow> nat \<Rightarrow> nat \<Rightarrow> ('c nextufs_image \<times> hostfile, unit) io" where
  "copy_slice chunk_size start copied left st =
     (if left = 0 \<or> chunk_size = 0 then (Inr (), st)
      else let chunk = min chunk_size left in
        bind_io get_io (\<lambda>(img, out).
        bind_io (on_image (nextufs__read_exact chunk (slice_base img + int copied))) (\<lambda>buf.
        bind_io (on_out (nextufs_write_out_fd buf (start + copied)))
          (\<lambda>_. copy_slice chunk_size start (copied + chunk_size) (left - chunk)))) st)"
  by pat_completeness auto
termination
  by (relation "measure (\<lambda>(chunk_size, start, copied, left, st). left)") auto

declare copy_slice.simps [simp del]

definition nextufs_source_extract_slice ::
  "(bool \<Rightarrow> ('c nextufs_image, unit) io) \<Rightarrow> nat \<Rightarrow> ('c nextufs_image \<times> hostfile, unit) io" where
  "nextufs_source_extract_slice init pos =
     bind_io (on_image (nextufs_image_open_source init NEXTUFS_OPEN_READ_ONLY)) (\<lambda>_.
     bind_io get_io (\<lambda>(img, out).
     let len = of_off (slice_size img);
         chunk_size = (if len < 1048576 \<and> 0 < slice_size img then nat (slice_size img) else 1048576) in
     bind_io (on_image (or_close (\<lambda>_. ENOMEM) (malloc_io chunk_size))) (\<lambda>_.
     bind_io (try_io (copy_slice chunk_size pos 0 len)) (\<lambda>rc.
     bind_io (on_image nextufs_image_close) (\<lambda>_. lift_res rc)))))"

section \<open>What an opened image satisfies\<close>

text \<open>While an image is being opened, its disk does not change and no operation is running on it.\<close>

definition opening_on ::
  "'c nextufs_image_backend_ops \<Rightarrow> ('c \<Rightarrow> byte list) \<Rightarrow> ('c \<Rightarrow> bool) \<Rightarrow> byte list \<Rightarrow> bool \<Rightarrow> 'c nextufs_image \<Rightarrow> bool" where
  "opening_on ops disk binv D rw img \<longleftrightarrow> image_on ops disk binv img \<and> disk (backend_ctx img) = D \<and>
     transaction img = None \<and> writable img = rw"

text \<open>The slice lies inside the disk, and the superblock was read from it.\<close>

definition found_in :: "byte list \<Rightarrow> int \<Rightarrow> 'c nextufs_image \<Rightarrow> bool" where
  "found_in D off img \<longleftrightarrow> 0 \<le> slice_base img \<and> 0 \<le> slice_size img \<and>
     slice_base img + slice_size img \<le> int (length D) \<and>
     0 \<le> off \<and> slice_base img + off + 2048 \<le> int (length D) \<and>
     sb img = decode_superblock (bytes_at (nat (slice_base img + off)) 2048 D) \<and> \<not> superblock_unusable (sb img)"

lemma close_with_fails: "close_with e img \<noteq> (Inr x, img')"
proof -
  obtain r s where "nextufs_image_close img = (r, s)" by (cases "nextufs_image_close img")
  then show ?thesis by (cases r) (simp_all add: close_with_def io_defs)
qed

lemma or_close_Inr: "or_close f m img = (Inr x, img') \<longleftrightarrow> m img = (Inr x, img')"
  by (auto simp: or_close_def bind_io_def try_io_def ret_def close_with_fails split: prod.splits sum.splits)

lemma not_bad_usable: "\<not> superblock_bad s \<Longrightarrow> \<not> superblock_unusable s"
  by (auto simp: superblock_bad_def superblock_unusable_def)

lemma validate_usable: "nextufs_image_validate img = Inr () \<Longrightarrow> \<not> superblock_unusable (sb img)"
  using not_bad_usable by (auto simp: nextufs_image_validate_def Let_def split: if_splits)

context backend
begin

text \<open>The position of the slice and the superblock may change.\<close>

lemma opening_update [simp]:
  "opening_on ops disk binv D rw (img\<lparr>slice_base := b\<rparr>) = opening_on ops disk binv D rw img"
  "opening_on ops disk binv D rw (img\<lparr>slice_size := n\<rparr>) = opening_on ops disk binv D rw img"
  "opening_on ops disk binv D rw (img\<lparr>sb := s\<rparr>) = opening_on ops disk binv D rw img"
  "opening_on ops disk binv D rw (img\<lparr>mallocs := ms\<rparr>) = opening_on ops disk binv D rw img"
  "opening_on ops disk binv D rw (adopt_label dl base len img) = opening_on ops disk binv D rw img"
  unfolding opening_on_def image_on_def adopt_label_def by simp_all

lemma opening_size: "opening_on ops disk binv D rw img \<Longrightarrow> image_size img = int (length D)"
  by (auto simp: opening_on_def image_on_def)

lemma opening_read:
  assumes "opening_on ops disk binv D rw img" and "nextufs__read_exact n off img = (r, img')"
  shows "opening_on ops disk binv D rw img' \<and> static img' = static img \<and>
    (\<forall>bs. r = Inr bs \<longrightarrow> 0 \<le> off \<and> off + int n \<le> int (length D) \<and> bs = bytes_at (nat off) n D)"
proof -
  from assms(1) have on: "image_on ops disk binv img" and d: "disk (backend_ctx img) = D"
    and t: "transaction img = None" and w: "writable img = rw" by (simp_all add: opening_on_def)
  note e = read_exact_effect [OF on assms(2)]
  then have s: "static img' = static img" by blast
  have rng: "0 \<le> off \<and> off + int n \<le> int (length D)" if "r = Inr bs" for bs
  proof -
    have "\<not> range_bad img n off"
      using assms(2) that image_onD(1) [OF on] by (auto simp: nextufs__read_exact_def io_defs split: if_splits)
    then show ?thesis using on d by (auto simp: range_bad_def image_on_def)
  qed
  from e s staticD(5) [OF s] d t w rng show ?thesis by (auto simp: opening_on_def)
qed

lemma opening_superblock:
  assumes "opening_on ops disk binv D rw img" and "try_superblock off img = (r, img')"
  shows "\<exists>ok. r = Inr ok \<and> opening_on ops disk binv D rw img' \<and> slice_base img' = slice_base img \<and>
    slice_size img' = slice_size img \<and>
    (ok \<longrightarrow> 0 \<le> off \<and> off + 2048 \<le> int (length D) \<and> sb img' = decode_superblock (bytes_at (nat off) 2048 D) \<and>
      \<not> superblock_unusable (sb img'))"
proof -
  obtain q img1 where q: "nextufs__read_exact 2048 off img = (q, img1)" by (cases "nextufs__read_exact 2048 off img")
  note e = opening_read [OF assms(1) q]
  from e have "static img1 = static img" by blast
  note s = staticD(3,8) [OF this]
  show ?thesis
  proof (cases q)
    case (Inl x)
    with assms(2) q have "r = Inr False" "img' = img1" by (simp_all add: try_superblock_def io_defs)
    with e s show ?thesis by auto
  next
    case (Inr bs)
    with assms(2) q have "r = Inr (\<not> superblock_unusable (decode_superblock bs))" "img' = img1\<lparr>sb := decode_superblock bs\<rparr>"
      by (simp_all add: try_superblock_def io_defs)
    with e s Inr show ?thesis by simp
  qed
qed

lemma label_candidate_slice:
  "label_candidate scanbuf img_size selected off = Some (dl, base, len) \<Longrightarrow>
   0 \<le> base \<and> 0 < len \<and> base + len \<le> img_size"
  by (auto simp: label_candidate_def Let_def split: if_splits option.splits prod.splits)

lemma scan_labels_found:
  "opening_on ops disk binv D rw img \<Longrightarrow> scan_labels scanbuf selected offs img = (r, img') \<Longrightarrow>
   opening_on ops disk binv D rw img' \<and> (\<exists>ok. r = Inr ok \<and>
     (ok \<longrightarrow> found_in D (if selected < 0 then int UFS_SBLOCK_OFFSET else selected) img'))"
proof (induction offs arbitrary: img)
  case Nil
  then show ?case by (auto simp: io_defs)
next
  case (Cons off offs)
  show ?case
  proof (cases "label_candidate scanbuf (image_size img) selected off")
    case None
    with Cons show ?thesis by (simp add: io_defs)
  next
    case (Some c)
    obtain dl base len where c: "c = (dl, base, len)" by (cases c)
    let ?o = "if selected < 0 then int UFS_SBLOCK_OFFSET else selected"
    obtain q img1 where q: "try_superblock (base + ?o) img = (q, img1)" by (cases "try_superblock (base + ?o) img")
    from opening_superblock [OF Cons.prems(1) q] obtain ok where ok: "q = Inr ok" "opening_on ops disk binv D rw img1"
      "ok \<longrightarrow> 0 \<le> base + ?o \<and> base + ?o + 2048 \<le> int (length D) \<and>
        sb img1 = decode_superblock (bytes_at (nat (base + ?o)) 2048 D) \<and> \<not> superblock_unusable (sb img1)" by blast
    note sl = label_candidate_slice [OF Some [unfolded c]]
    have sz: "image_size img = int (length D)" using opening_size [OF Cons.prems(1)] .
    show ?thesis
    proof (cases ok)
      case True
      with Cons.prems(2) Some c q ok(1) have r: "r = Inr True" "img' = adopt_label dl base len img1"
        by (auto simp: io_defs)
      have "0 \<le> ?o" by simp
      then have "found_in D ?o img'"
        using ok(3) True sl sz by (auto simp: found_in_def r(2) adopt_label_def)
      with ok(2) r show ?thesis by auto
    next
      case False
      with Cons.prems(2) Some c q ok(1) have "scan_labels scanbuf selected offs img1 = (r, img')"
        by (auto simp: io_defs)
      from Cons.IH [OF ok(2) this] show ?thesis .
    qed
  qed
qed

lemma scan_magic_found:
  "opening_on ops disk binv D rw img \<Longrightarrow> scan_magic scanbuf offs img = (r, img') \<Longrightarrow>
   opening_on ops disk binv D rw img' \<and> (\<exists>ok. r = Inr ok \<and> (ok \<longrightarrow> found_in D (int UFS_SBLOCK_OFFSET) img'))"
proof (induction offs arbitrary: img)
  case Nil
  then show ?case by (auto simp: io_defs)
next
  case (Cons off offs)
  let ?base = "int off - int UFS_SUPER_MAGIC_OFFSET - int UFS_SBLOCK_OFFSET"
  let ?img = "img\<lparr>slice_base := ?base\<rparr>"
  have i: "opening_on ops disk binv D rw ?img" using Cons.prems(1) by simp
  show ?case
  proof (cases "nextufs__read_be32 scanbuf off \<noteq> UFS_FS_MAGIC \<or> off < UFS_SUPER_MAGIC_OFFSET")
    case True
    with Cons.prems Cons.IH [OF Cons.prems(1)] show ?thesis by auto
  next
    case skip: False
    show ?thesis
    proof (cases "?base < 0")
      case True
      with Cons.prems(2) skip have "scan_magic scanbuf offs ?img = (r, img')" by (auto simp: io_defs)
      from Cons.IH [OF i this] show ?thesis .
    next
      case False
      obtain q img1 where q: "try_superblock (?base + int UFS_SBLOCK_OFFSET) ?img = (q, img1)"
        by (cases "try_superblock (?base + int UFS_SBLOCK_OFFSET) ?img")
      from opening_superblock [OF i q] obtain ok where ok: "q = Inr ok" "opening_on ops disk binv D rw img1"
        "slice_base img1 = ?base"
        "ok \<longrightarrow> 0 \<le> ?base + int UFS_SBLOCK_OFFSET \<and> ?base + int UFS_SBLOCK_OFFSET + 2048 \<le> int (length D) \<and>
          sb img1 = decode_superblock (bytes_at (nat (?base + int UFS_SBLOCK_OFFSET)) 2048 D) \<and>
          \<not> superblock_unusable (sb img1)" by auto
      have sz: "image_size img1 = int (length D)" using opening_size [OF ok(2)] .
      show ?thesis
      proof (cases ok)
        case True
        with Cons.prems(2) skip False q ok(1) have r: "r = Inr True"
          "img' = img1\<lparr>slice_size := image_size img1 - slice_base img1\<rparr>"
          by (auto simp: io_defs Let_def)
        have "opening_on ops disk binv D rw img'" using ok(2) by (simp add: r)
        moreover have "found_in D (int UFS_SBLOCK_OFFSET) img'"
          using ok(3,4) True False sz by (auto simp: found_in_def r(2))
        ultimately show ?thesis using r by blast
      next
        case False2: False
        with Cons.prems(2) skip False q ok(1) have "scan_magic scanbuf offs img1 = (r, img')"
          by (auto simp: io_defs Let_def)
        from Cons.IH [OF ok(2) this] show ?thesis .
      qed
    qed
  qed
qed

lemma validate_opened_Inr:
  "validate_opened rw img = (Inr (), img') \<longleftrightarrow> img' = img \<and> (rw \<longrightarrow> nextufs_image_validate img = Inr ())"
  by (auto simp: validate_opened_def io_defs close_with_fails)

lemma open_unlabelled_found:
  assumes "opening_on ops disk binv D rw img" and "0 \<le> selected" and "open_unlabelled selected img = (Inr (), img')"
  shows "opening_on ops disk binv D rw img' \<and> found_in D selected img' \<and> nextufs_image_validate img' = Inr ()"
proof -
  let ?img = "img\<lparr>slice_base := 0, slice_size := image_size img\<rparr>"
  have i: "opening_on ops disk binv D rw ?img" using assms(1) by simp
  obtain q img1 where q: "nextufs__read_exact 2048 selected ?img = (q, img1)"
    by (cases "nextufs__read_exact 2048 selected ?img")
  note e = opening_read [OF i q]
  then have s: "static img1 = static ?img" by blast
  from staticD(3,8) [OF s] have sl: "slice_base img1 = 0" "slice_size img1 = image_size img" by simp_all
  from assms(3) q obtain bs where bs: "q = Inr bs" and r: "img' = img1\<lparr>sb := decode_superblock bs\<rparr>"
    and v: "nextufs_image_validate img' = Inr ()"
    by (cases q) (auto simp: open_unlabelled_def or_close_Inr bind_io_Inr modify_io_def get_io_def lift_res_def)
  have "image_size img = int (length D)" using opening_size [OF assms(1)] .
  with e bs sl assms(2) validate_usable [OF v] have "found_in D selected img'" by (auto simp: found_in_def r)
  moreover have "opening_on ops disk binv D rw img'" using e by (simp add: r)
  ultimately show ?thesis using v by blast
qed

lemma open_found:
  assumes init: "\<And>i'. init rw (blank_image img) = (Inr (), i') \<Longrightarrow> opening_on ops disk binv D rw i'"
    and run: "nextufs_open_with_mode init rw selected img = (Inr (), img')"
  shows "opening_on ops disk binv D rw img' \<and> (rw \<longrightarrow> nextufs_image_validate img' = Inr ()) \<and>
    found_in D (if selected < 0 then int UFS_SBLOCK_OFFSET else selected) img'"
proof -
  let ?n = "\<lambda>i. min DEFAULT_SCAN_LIMIT (of_off (image_size i))"
  let ?offs = "\<lambda>i. scan_offsets NEXTUFS_LABEL_DEV_SECTOR_SIZE NEXTUFS_LABEL_DECODE_SIZE
    (min (?n i) NEXTUFS_LABEL_SCAN_LIMIT)"
  from run obtain i1 where st1: "init rw (blank_image img) = (Inr (), i1)"
    and r1: "bind_io (or_close (\<lambda>_. ENOMEM) (malloc_io (?n i1))) (\<lambda>_.
       bind_io (or_close (\<lambda>_. EIO) (nextufs__read_exact (?n i1) 0)) (\<lambda>scanbuf.
       bind_io (scan_labels scanbuf selected (?offs i1)) (\<lambda>labelled.
       if labelled then validate_opened rw
       else if 0 \<le> selected then open_unlabelled selected
       else bind_io (scan_magic scanbuf (scan_offsets 4 4 (?n i1))) (\<lambda>found.
         if found then validate_opened rw else close_with EINVAL)))) i1 = (Inr (), img')"
    unfolding nextufs_open_with_mode_def bind_io_Inr [of "modify_io blank_image"] bind_io_Inr [of "init rw"]
      bind_io_Inr [of get_io] modify_io_def get_io_def Let_def
    by (auto simp: close_with_fails simp del: One_nat_def split: if_split_asm)
  from r1 obtain i2 buf i3 ok i4 where st: "malloc_io (?n i1) i1 = (Inr (), i2)"
    "nextufs__read_exact (?n i1) 0 i2 = (Inr buf, i3)" "scan_labels buf selected (?offs i1) i3 = (Inr ok, i4)"
    and rest: "(if ok then validate_opened rw else if 0 \<le> selected then open_unlabelled selected
       else bind_io (scan_magic buf (scan_offsets 4 4 (?n i1))) (\<lambda>found.
         if found then validate_opened rw else close_with EINVAL)) i4 = (Inr (), img')"
    unfolding bind_io_Inr [of "or_close f m" for f m] or_close_Inr bind_io_Inr [of "scan_labels b s l" for b s l]
    by (auto split del: if_split)
  have "opening_on ops disk binv D rw i1" using st1 by (rule init)
  moreover from malloc_frame [OF st(1)] obtain ms where "i2 = i1\<lparr>mallocs := ms\<rparr>" ..
  ultimately have "opening_on ops disk binv D rw i2" by simp
  then have "opening_on ops disk binv D rw i3" using opening_read [OF _ st(2)] by blast
  note l = scan_labels_found [OF this st(3)]
  then have o4: "opening_on ops disk binv D rw i4" by blast
  show ?thesis
  proof (cases ok)
    case True
    with rest l show ?thesis by (auto simp: validate_opened_Inr)
  next
    case False
    show ?thesis
    proof (cases "0 \<le> selected")
      case True
      with rest False open_unlabelled_found [OF o4 True] show ?thesis by auto
    next
      case False2: False
      from rest False False2 obtain found i5 where
        m: "scan_magic buf (scan_offsets 4 4 (?n i1)) i4 = (Inr found, i5)"
        and v: "(if found then validate_opened rw else close_with EINVAL) i5 = (Inr (), img')"
        by (auto simp: bind_io_Inr)
      from v have "found" by (auto simp: close_with_fails split: if_split_asm)
      with v scan_magic_found [OF o4 m] False2 show ?thesis by (auto simp: validate_opened_Inr)
    qed
  qed
qed

end

section \<open>Plain files\<close>

lemma raw_init_opening:
  assumes "nextufs_init_backend container seen opened locked rw (blank_image img) = (Inr (), img')"
    and "opened = Inr (i, length (content (backend_ctx img)))"
    and "length (content (backend_ctx img)) < 2 ^ 63"
    and "detect_source (take 512 (content (backend_ctx img))) = NEXTUFS_SOURCE_RAW"
  shows "opening_on nextufs_raw_backend_ops content (\<lambda>_. True) (content (backend_ctx img)) rw img'"
proof -
  let ?f = "backend_ctx img"
  obtain q f where q: "nextufs__read_exact_fd 512 0 ?f = (q, f)" by (cases "nextufs__read_exact_fd 512 0 ?f")
  have bc: "backend_ctx (blank_image img) = ?f" by (simp add: blank_image_def)
  from assms(1,2) obtain seen' where g: "source_guard seen opened locked = Inr (seen', length (content ?f))"
    by (auto simp: nextufs_init_backend_def source_guard_def fail_def split: if_splits option.splits)
  from assms(1) q bc obtain hdr where hdr: "q = Inr hdr"
    by (cases q) (auto simp: nextufs_init_backend_def g io_defs ctx_io_def)
  from read_exact_fd_Inr [OF q [unfolded hdr]] have h: "hdr = take 512 (content ?f)" "content f = content ?f"
    by (simp_all add: bytes_at_def)
  let ?i = "(blank_image img)\<lparr>backend_ctx := f\<rparr>"
  obtain m i2 where m: "malloc_io 4 ?i = (m, i2)" by (cases "malloc_io 4 ?i")
  from malloc_frame [OF m] obtain ms where i2: "i2 = ?i\<lparr>mallocs := ms\<rparr>" ..
  from assms(1,4) q hdr bc h m
  have "img' = i2\<lparr>backend_ops := Some nextufs_raw_backend_ops, writable := rw, source_is_container := False,
      image_size := int (length (content ?f))\<rparr>"
    by (cases m) (auto simp: nextufs_init_backend_def g io_defs ctx_io_def)
  then show ?thesis using assms(3) h(2) by (simp add: opening_on_def image_on_def i2 blank_image_def)
qed

text \<open>
  C14. When a plain file opens, by whatever sequence of short reads and interrupts, the image shows the
  bytes of the file, which are unchanged; the slice lies inside it; the superblock was read from the
  slice, at the usual or at the selected offset, and has the magic number and sizes; and an image
  opened for writing, the only one a mutation accepts, has passed the whole validation.
\<close>

theorem opened_image_inside:
  assumes "nextufs_open_with_mode (nextufs_init_backend container [] (Inr (i, length (content (backend_ctx img)))) locked)
      rw selected img = (Inr (), img')"
    and "length (content (backend_ctx img)) < 2 ^ 63"
    and "detect_source (take 512 (content (backend_ctx img))) = NEXTUFS_SOURCE_RAW"
  shows "raw_on img' \<and> content (backend_ctx img') = content (backend_ctx img) \<and> writable img' = rw \<and>
    found_in (content (backend_ctx img)) (if selected < 0 then int UFS_SBLOCK_OFFSET else selected) img' \<and>
    (rw \<longrightarrow> nextufs_image_validate img' = Inr () \<and> valid_image img')"
proof -
  let ?D = "content (backend_ctx img)"
  let ?init = "nextufs_init_backend container [] (Inr (i, length ?D)) locked"
  let ?img = "blank_image img"
  have init: "opening_on nextufs_raw_backend_ops content (\<lambda>_. True) ?D rw i'"
    if "?init rw ?img = (Inr (), i')" for i'
    using raw_init_opening [OF that refl assms(2,3)] .
  from raw.open_found [OF init assms(1)]
  have o: "opening_on nextufs_raw_backend_ops content (\<lambda>_. True) ?D rw img'"
    "rw \<longrightarrow> nextufs_image_validate img' = Inr ()"
    "found_in ?D (if selected < 0 then int UFS_SBLOCK_OFFSET else selected) img'"
    by blast+
  from o(2) have "rw \<longrightarrow> nextufs_image_validate img' = Inr () \<and> valid_image img'"
    using validate_valid_image by blast
  with o(1,3) show ?thesis by (auto simp: opening_on_def)
qed

section \<open>The chain of parents\<close>

text \<open>
  C18. Opening a differencing disk with all its parents ends, whatever files the paths lead to, loops
  included: every step adds a file that was not there before, or stops. What it opened are distinct
  files, at most 32.
\<close>

theorem open_chain_ends:
  assumes "distinct seen" and "length seen \<le> 32"
  shows "\<exists>r. open_chain look seen path = Some r \<and>
    (\<forall>ids. r = Inr ids \<longrightarrow> distinct ids \<and> length ids \<le> 32 \<and> take (length seen) ids = seen)"
  using assms
proof (induction "32 - length seen" arbitrary: seen path rule: less_induct)
  case less
  obtain opened locked parent where l: "look path = (opened, locked, parent)" by (cases "look path")
  show ?case
  proof (cases "source_guard seen opened locked")
    case (Inl e)
    with l show ?thesis by (simp add: open_chain.simps)
  next
    case (Inr s)
    then obtain i sz where s: "s = (seen @ [i], sz)" "i \<notin> set seen" "length seen < 32"
      by (auto simp: source_guard_def split: if_splits sum.splits option.splits)
    show ?thesis
    proof (cases parent)
      case None
      with l Inr s less.prems show ?thesis by (simp add: open_chain.simps)
    next
      case (Some p)
      have "32 - length (seen @ [i]) < 32 - length seen" using s(3) by simp
      from less.hyps [OF this, of p] s less.prems obtain r where r: "open_chain look (seen @ [i]) p = Some r"
        "\<forall>ids. r = Inr ids \<longrightarrow> distinct ids \<and> length ids \<le> 32 \<and> take (length (seen @ [i])) ids = seen @ [i]" by auto
      have "take (length seen) ids = seen" if "take (length (seen @ [i])) ids = seen @ [i]" for ids
      proof -
        have "take (length seen) ids = take (length seen) (take (length (seen @ [i])) ids)" by simp
        then show ?thesis unfolding that by simp
      qed
      with r l Inr s Some show ?thesis
        by (subst open_chain.simps) auto
    qed
  qed
qed

theorem open_chain_ends_witness:
  "\<exists>r. open_chain (\<lambda>n. (Inr ((1, n mod 3), 0), None, Some (n + 1))) [] (0 :: nat) = Some r \<and>
    (\<forall>ids. r = Inr ids \<longrightarrow> distinct ids \<and> length ids \<le> 32 \<and> take (length ([] :: file_id list)) ids = [])"
  by (rule open_chain_ends) simp_all

section \<open>A fresh image opens\<close>

lemma label_zero_byte: "label_disktab_bytes (label_head blkno total_blocks label) 44 cyls ! 67 = 0"
proof -
  have h: "label_head blkno total_blocks label ! 67 = 0"
    by (simp add: label_head_def nth_put_string label_frame)
  show ?thesis
    by (simp add: label_disktab_bytes_def Let_def label_frame nth_put_string nextufs_string_def fixed_rw_scsi_def
      sdmach_def localhost_def h)
qed

lemma fresh_label_is_raw:
  assumes "take 0x300 D = label_copy_bytes off total_blocks slice_blocks cyls label"
    and "0x300 \<le> length D" and "slice_blocks < 16777216"
  shows "detect_source (take 512 D) = NEXTUFS_SOURCE_RAW"
proof -
  have "nextufs__read_be32 (take 512 D) 0 = nextufs__read_be32 D 0" by (rule read_be32_cong) simp
  then have "nextufs__read_be32 (take 512 D) 0 = DL_V3" using fresh_label_fields(1) [OF assms] by simp
  moreover have "take 512 D ! 67 = 0"
  proof -
    have "take 512 D ! 67 = take 0x300 D ! 67" by simp
    also have "\<dots> = label_body (u32 (off div DEV_SECTOR_SIZE)) total_blocks slice_blocks cyls label ! 67"
      unfolding assms(1) by (rule copy_nth) simp_all
    finally show ?thesis by (simp add: body_nth label_zero_byte)
  qed
  then have "read_le32 (take 512 D) 0x40 = 65536 * unat (D ! 66) + unat (D ! 65) * 256 + unat (D ! 64)"
    unfolding read_le32_eq by simp
  then have "read_le32 (take 512 D) 0x40 < 16777216"
    using unat_byte_less [of "D ! 64"] unat_byte_less [of "D ! 65"] unat_byte_less [of "D ! 66"] by linarith
  ultimately show ?thesis by (auto simp: detect_source_def)
qed

lemma scan_offsets_zero: "need \<le> limit \<Longrightarrow> \<exists>rest. scan_offsets step need limit = 0 # rest"
  by (simp add: scan_offsets_def upt_rec)

lemma raw_init_calm:
  assumes "raw_calm (backend_ctx img)" and "mallocs img = []"
    and "512 \<le> length (content (backend_ctx img))" and "length (content (backend_ctx img)) < 2 ^ 63"
    and "detect_source (take 512 (content (backend_ctx img))) = NEXTUFS_SOURCE_RAW"
  shows "\<exists>img'. nextufs_init_backend container [] (Inr (i, length (content (backend_ctx img)))) None rw (blank_image img) = (Inr (), img') \<and>
    raw_image_calm img' \<and> content (backend_ctx img') = content (backend_ctx img) \<and> writable img' = rw"
proof -
  let ?f = "backend_ctx img"
  obtain q f where q: "nextufs_raw_backend_read 512 0 ?f = (q, f)" by (cases "nextufs_raw_backend_read 512 0 ?f")
  from raw.read_calm [OF _ assms(1) _ _ q] assms(3) obtain bs where f: "raw_calm f" "q = Inr bs" by auto
  from raw.read_law [OF _ _ _ q] assms(3) f(2) have c: "content f = content ?f" "bs = take 512 (content ?f)"
    by (simp_all add: bytes_at_def)
  let ?i = "(blank_image img)\<lparr>backend_ctx := f\<rparr>"
  have m: "malloc_io 4 ?i = (Inr (), ?i)" using assms(2) by (simp add: malloc_io_def blank_image_def)
  have bc: "backend_ctx (blank_image img) = ?f" by (simp add: blank_image_def)
  have "nextufs_init_backend container [] (Inr (i, length (content ?f))) None rw (blank_image img) =
     (Inr (), ?i\<lparr>backend_ops := Some nextufs_raw_backend_ops, writable := rw, source_is_container := False,
      image_size := int (length (content ?f))\<rparr>)"
    using q f(2) c assms(5) m bc
    by (simp add: nextufs_init_backend_def source_guard_def io_defs ctx_io_def nextufs_raw_backend_read_def)
  then show ?thesis
    using f(1) c(1) assms(2,4) by (simp add: calm_image_def image_on_def blank_image_def)
qed

context calm_backend
begin

lemma superblock_calm:
  assumes "calm_image ops disk binv calm img" and "0 \<le> off" and "nat off + 2048 \<le> length (disk (backend_ctx img))"
    and "\<not> superblock_unusable (decode_superblock (bytes_at (nat off) 2048 (disk (backend_ctx img))))"
  shows "\<exists>img'. try_superblock off img = (Inr True, img') \<and> calm_image ops disk binv calm img' \<and>
    disk (backend_ctx img') = disk (backend_ctx img) \<and> writable img' = writable img \<and>
    sb img' = decode_superblock (bytes_at (nat off) 2048 (disk (backend_ctx img)))"
proof -
  from read_exact_calm [OF assms(1-3)] obtain img1 where
    r: "nextufs__read_exact 2048 off img = (Inr (bytes_at (nat off) 2048 (disk (backend_ctx img))), img1)"
    and c: "calm_image ops disk binv calm img1" "disk (backend_ctx img1) = disk (backend_ctx img)" "static img1 = static img"
    by auto
  let ?img = "img1\<lparr>sb := decode_superblock (bytes_at (nat off) 2048 (disk (backend_ctx img)))\<rparr>"
  have "try_superblock off img = (Inr True, ?img)" using r assms(4) by (simp add: try_superblock_def io_defs)
  moreover have "calm_image ops disk binv calm ?img" using c(1) unfolding calm_image_def image_on_def by simp
  ultimately show ?thesis using c staticD(5) [OF c(3)] by auto
qed

end

lemma fresh_candidate:
  assumes "take 0x300 D = label_copy_bytes 0 total_blocks slice_blocks cyls label"
    and "16 \<le> slice_blocks" and "slice_blocks < 0xffffff" and "163840 + slice_blocks * 1024 \<le> length D"
    and "fs_magic (decode_superblock (bytes_at 172032 2048 D)) = UFS_FS_MAGIC"
  shows "\<exists>dl. label_candidate (take (min DEFAULT_SCAN_LIMIT (length D)) D) (int (length D)) (- 1) 0 =
      Some (dl, 163840, int (slice_blocks * 1024)) \<and> dl_name dl = takeWhile (\<lambda>b. b \<noteq> 0) (take 23 label)"
proof -
  let ?n = "min DEFAULT_SCAN_LIMIT (length D)"
  let ?buf = "take ?n D"
  have n: "173404 + 4 \<le> ?n" using assms(2,4) by simp
  have t: "take 0x300 ?buf = label_copy_bytes 0 total_blocks slice_blocks cyls label" using assms(1) n by simp
  have l: "NEXTUFS_LABEL_DECODE_SIZE \<le> length ?buf" using n by simp
  from decode_fresh_label [OF t l, of] assms(2,3) obtain dl where
    d: "nextufs_label_decode ?buf (int 0) = Some dl" "dl_name dl = takeWhile (\<lambda>b. b \<noteq> 0) (take 23 label)"
      "nextufs_label_pick_slice dl = Some (163840, int (slice_blocks * 1024))"
    by auto
  have v: "nextufs_label_is_version (nextufs__read_be32 ?buf 0)"
    using fresh_label_fields(1) [OF t] n assms(3) by (simp add: nextufs_label_is_version_def)
  have m: "nextufs__read_be32 ?buf 173404 = UFS_FS_MAGIC"
  proof -
    have "nextufs__read_be32 ?buf 173404 = nextufs__read_be32 D 173404" using n by (intro read_be32_cong) simp
    also have "\<dots> = nextufs__read_be32 (bytes_at 172032 2048 D) 0x55c"
      using n by (simp add: read_be32_eq bytes_at_def)
    finally show ?thesis using assms(5) by (simp add: decode_superblock_def UFS_SUPER_MAGIC_OFFSET_def)
  qed
  have "label_candidate ?buf (int (length D)) (- 1) 0 = Some (dl, 163840, int (slice_blocks * 1024))"
    using d v m n assms(2,4)
    by (simp add: label_candidate_def UFS_SBLOCK_OFFSET_def UFS_SUPER_MAGIC_OFFSET_def)
  with d(2) show ?thesis by blast
qed

lemma validate_same:
  "sb a = sb b \<Longrightarrow> slice_base a = slice_base b \<Longrightarrow> slice_size a = slice_size b \<Longrightarrow>
   nextufs_image_validate a = nextufs_image_validate b"
  unfolding nextufs_image_validate_def Let_def by simp

lemma fresh_open:
  assumes "raw_calm (backend_ctx img)" and "mallocs img = []" and "D = content (backend_ctx img)" and "length D < 2 ^ 63"
    and "take 0x300 D = label_copy_bytes 0 total_blocks slice_blocks cyls label"
    and "16 \<le> slice_blocks" and "slice_blocks < 0xffffff" and "163840 + slice_blocks * 1024 \<le> length D"
    and "nextufs_image_validate (img\<lparr>sb := decode_superblock (bytes_at 172032 2048 D), slice_base := 163840,
      slice_size := int (slice_blocks * 1024)\<rparr>) = Inr ()"
  shows "\<exists>img'. nextufs_open_with_mode (nextufs_init_backend container [] (Inr (i, length D)) None) rw (- 1) img = (Inr (), img') \<and>
    raw_image_calm img' \<and> content (backend_ctx img') = D \<and> writable img' = rw \<and> slice_base img' = 163840 \<and>
    slice_size img' = int (slice_blocks * 1024) \<and> label_name img' = takeWhile (\<lambda>b. b \<noteq> 0) (take 23 label) \<and>
    used_disk_label img' \<and> sb img' = decode_superblock (bytes_at 172032 2048 D)"
proof -
  have lD: "512 \<le> length D" "0x300 \<le> length D" "180000 \<le> length D" using assms(6,8) by simp_all
  have raw: "detect_source (take 512 D) = NEXTUFS_SOURCE_RAW"
    by (rule fresh_label_is_raw [OF assms(5) lD(2)]) (use assms(7) in simp)
  from raw_init_calm [OF assms(1,2), folded assms(3), OF lD(1) assms(4) raw, of container i rw] obtain i1 where
    i1: "nextufs_init_backend container [] (Inr (i, length D)) None rw (blank_image img) = (Inr (), i1)"
      "raw_image_calm i1" "content (backend_ctx i1) = D" "writable i1 = rw" by blast
  have sz: "image_size i1 = int (length D)" using i1(2,3) by (auto simp: calm_image_def image_on_def)
  let ?n = "min DEFAULT_SCAN_LIMIT (length D)"
  have n: "of_off (image_size i1) = length D" using sz assms(4) by simp
  have m: "malloc_io ?n i1 = (Inr (), i1)" by (rule raw.malloc_calm [OF i1(2)]) simp
  from raw.read_exact_calm [OF i1(2), of 0 ?n] i1(3) obtain i2 where
    i2: "nextufs__read_exact ?n 0 i1 = (Inr (take ?n D), i2)" "raw_image_calm i2"
      "content (backend_ctx i2) = D" "static i2 = static i1" by (auto simp: bytes_at_def)
  have i2f: "image_size i2 = int (length D)" "writable i2 = rw"
    using staticD(4,5) [OF i2(4)] sz i1(4) by simp_all
  let ?sb = "decode_superblock (bytes_at 172032 2048 D)"
  have v: "\<not> superblock_unusable ?sb" using validate_usable [OF assms(9)] by simp
  then have fm: "fs_magic ?sb = UFS_FS_MAGIC" by (simp add: superblock_unusable_def)
  from fresh_candidate [OF assms(5-8) fm] obtain dl where
    dl: "label_candidate (take ?n D) (int (length D)) (- 1) 0 = Some (dl, 163840, int (slice_blocks * 1024))"
      "dl_name dl = takeWhile (\<lambda>b. b \<noteq> 0) (take 23 label)" by blast
  have "\<not> superblock_unusable (decode_superblock (bytes_at (nat 172032) 2048 (content (backend_ctx i2))))"
    using v i2(3) by simp
  from raw.superblock_calm [OF i2(2) _ _ this] lD i2(3) i2f obtain i3 where
    i3: "try_superblock 172032 i2 = (Inr True, i3)" "raw_image_calm i3" "content (backend_ctx i3) = D"
      "writable i3 = rw" "sb i3 = ?sb" by auto
  let ?i4 = "adopt_label dl 163840 (int (slice_blocks * 1024)) i3"
  obtain rest where offs: "scan_offsets NEXTUFS_LABEL_DEV_SECTOR_SIZE NEXTUFS_LABEL_DECODE_SIZE
      (min ?n NEXTUFS_LABEL_SCAN_LIMIT) = 0 # rest"
    using scan_offsets_zero [of NEXTUFS_LABEL_DECODE_SIZE "min ?n NEXTUFS_LABEL_SCAN_LIMIT"] lD by auto
  have scan: "scan_labels (take ?n D) (- 1) (0 # rest) i2 = (Inr True, ?i4)"
    using dl(1) i3(1) i2f(1) by (simp add: io_defs UFS_SBLOCK_OFFSET_def)
  have "nextufs_image_validate ?i4 = Inr ()"
    using assms(9) i3(5) by (subst validate_same [of ?i4]) (simp_all add: adopt_label_def)
  then have vo: "validate_opened rw ?i4 = (Inr (), ?i4)" by (simp add: validate_opened_def io_defs)
  have "nextufs_open_with_mode (nextufs_init_backend container [] (Inr (i, length D)) None) rw (- 1) img = (Inr (), ?i4)"
    using i1(1) m i2(1) offs scan vo n
    by (simp add: nextufs_open_with_mode_def io_defs or_close_def Let_def)
  moreover have "raw_image_calm ?i4" using i3(2) by (simp add: calm_image_def image_on_def adopt_label_def)
  ultimately show ?thesis using i3(3-5) dl(2) by (auto simp: adopt_label_def)
qed

text \<open>
  C15. A label that was just written and a valid superblock behind it make an image that opens, for
  reading and for writing: the slice is the one the label describes, although nothing but the file is
  given, the name is that of the label, and the file is unchanged.
\<close>

theorem fresh_image_opens:
  assumes "raw_calm (backend_ctx img)" and "mallocs img = []" and "D = content (backend_ctx img)" and "length D < 2 ^ 63"
    and "take LABEL_WRITE_SIZE D = label_copy_bytes 0 total_blocks slice_blocks cyls label"
    and "16 \<le> slice_blocks" and "slice_blocks < 0xffffff"
    and "NEXTUFS_LABEL_FRONT_PORCH_BYTES + slice_blocks * NEXTUFS_LABEL_SECTOR_SIZE \<le> length D"
    and "nextufs_image_validate (img\<lparr>sb := decode_superblock (bytes_at 172032 2048 D),
      slice_base := int NEXTUFS_LABEL_FRONT_PORCH_BYTES,
      slice_size := int (slice_blocks * NEXTUFS_LABEL_SECTOR_SIZE)\<rparr>) = Inr ()"
    and "policy = NEXTUFS_OPEN_READ_ONLY \<or> policy = NEXTUFS_OPEN_READ_WRITE"
  shows "\<exists>img'. nextufs_image_open_source (nextufs_init_backend container [] (Inr (i, length D)) None) policy img = (Inr (), img') \<and>
    content (backend_ctx img') = D \<and> writable img' = (policy = NEXTUFS_OPEN_READ_WRITE) \<and>
    slice_base img' = int NEXTUFS_LABEL_FRONT_PORCH_BYTES \<and> slice_size img' = int (slice_blocks * NEXTUFS_LABEL_SECTOR_SIZE) \<and>
    label_name img' = takeWhile (\<lambda>b. b \<noteq> 0) (take 23 label) \<and> used_disk_label img'"
proof -
  have v: "nextufs_image_validate (img\<lparr>sb := decode_superblock (bytes_at 172032 2048 D), slice_base := 163840,
      slice_size := int (slice_blocks * 1024)\<rparr>) = Inr ()" using assms(9) by simp
  from fresh_open [OF assms(1-8) v, of container i "policy = NEXTUFS_OPEN_READ_WRITE"] assms(10) show ?thesis
    by (auto simp: nextufs_image_open_source_def)
qed

text \<open>A superblock as words, and a small labelled image.\<close>

definition words_bytes :: "nat list \<Rightarrow> byte list" where
  "words_bytes ws = concat (map be32_bytes ws)"

lemma length_words_bytes [simp]: "length (words_bytes ws) = 4 * length ws"
  by (induction ws) (simp_all add: words_bytes_def be32_bytes_def)

lemma words_nth:
  "k < length ws \<Longrightarrow> j < 4 \<Longrightarrow> words_bytes ws ! (4 * k + j) = be32_bytes (ws ! k) ! j"
proof (induction ws arbitrary: k)
  case (Cons w ws)
  have l: "length (be32_bytes w) = 4" by (simp add: be32_bytes_def)
  show ?case
  proof (cases k)
    case 0
    with Cons.prems l show ?thesis by (simp add: words_bytes_def nth_append)
  next
    case (Suc n)
    with Cons l show ?thesis by (simp add: words_bytes_def nth_append)
  qed
qed simp

lemma read_words:
  assumes "p mod 4 = 0" and "p div 4 < length ws" and "\<forall>w \<in> set ws. w < 4294967296"
  shows "nextufs__read_be32 (words_bytes ws) p = ws ! (p div 4)"
proof -
  let ?w = "ws ! (p div 4)"
  have w: "?w < 4294967296" using assms(2,3) by simp
  have p: "p + j = 4 * (p div 4) + j" for j using assms(1) by auto
  have "nextufs__read_be32 (words_bytes ws) p = nextufs__read_be32 (be32_bytes ?w) 0"
    unfolding add_0
    by (rule read_be32_cong) (use words_nth [OF assms(2)] p in simp)
  also have "\<dots> = ?w"
  proof -
    have "16777216 * (x div 16777216) + 65536 * (x div 65536 mod 256) + x div 256 mod 256 * 256 + x mod 256 = x" for x :: nat
    proof -
      have "x div 65536 = x div 256 div 256" "x div 16777216 = x div 65536 div 256" by (simp_all add: div_mult2_eq [symmetric])
      with mult_div_mod_eq [of 256 x] mult_div_mod_eq [of 256 "x div 256"] mult_div_mod_eq [of 256 "x div 65536"]
      show ?thesis by linarith
    qed
    with w show ?thesis by (simp add: read_be32_eq be32_bytes_def unat_byte_at)
  qed
  finally show ?thesis .
qed

definition sample_words :: "nat list" where
  "sample_words = [0, 0, 8, 12, 16, 20, 0, 0xffffffff, 0, 32, 12, 1, 4096, 1024, 4, 0, 0, 60, 0xfffff000, 0xfffffc00,
     12, 10, 1, 1, 2, 0, 2048, 0xffffff00, 8, 1024, 32, 1, 0, 0, 0, 0, 0, 0, 20, 1024, 1024, 1, 32, 32, 1, 1, 32, 32,
     1, 2, 29, 3, 0x10000] @ replicate 290 0 @ [0x11954] @ replicate 168 0"

lemma sample_words_props: "length sample_words = 512" "\<forall>w \<in> set sample_words. w < 4294967296"
  by (simp_all add: sample_words_def)

lemma sample_words_decode: "decode_superblock (words_bytes sample_words) = sample_superblock"
proof -
  have "sample_words ! 52 = 0x10000" by (simp add: sample_words_def nth_append)
  moreover have "words_bytes sample_words ! (4 * 52 + 1) = be32_bytes (sample_words ! 52) ! 1"
    by (rule words_nth) (simp_all add: sample_words_props)
  ultimately have "words_bytes sample_words ! 0xd1 = 1" by (simp add: be32_bytes_def byte_at_def)
  then have "decode_superblock (words_bytes sample_words) = \<lparr>sb_off = sample_words ! 2,
     cg_off = sample_words ! 3, ino_off = sample_words ! 4, data_off = sample_words ! 5, cg_delta = sample_words ! 6,
     cg_cyc_mask = sample_words ! 7, write_time = sample_words ! 8, frag_count = sample_words ! 9,
     data_frag_count = sample_words ! 10, cg_count = sample_words ! 11, block_size = sample_words ! 12,
     frag_size = sample_words ! 13, frags_per_block = sample_words ! 14, minfree = sample_words ! 15,
     rotdelay = sample_words ! 16, rps = sample_words ! 17, block_mask = sample_words ! 18,
     frag_mask = sample_words ! 19, block_shift = sample_words ! 20, frag_shift_calc = sample_words ! 21,
     maxcontig = sample_words ! 22, maxbpg = sample_words ! 23, frag_shift = sample_words ! 24,
     fsbtodb = sample_words ! 25, super_size = sample_words ! 26, csum_mask = sample_words ! 27,
     csum_shift = sample_words ! 28, nindir = sample_words ! 29, sectors_per_frag = sample_words ! 31,
     optim = sample_words ! 32, inodes_per_block = sample_words ! 30, cyl_summary_addr = sample_words ! 38,
     csum_size = sample_words ! 39, cg_size = sample_words ! 40, tracks_per_cyl = sample_words ! 41,
     sectors_per_track = sample_words ! 42, sectors_per_cyl = sample_words ! 43, ncyl = sample_words ! 44,
     cpg = sample_words ! 45, inodes_per_group = sample_words ! 46, frags_per_group = sample_words ! 47,
     dir_count = sample_words ! 48, free_block_count = sample_words ! 49, free_inode_count = sample_words ! 50,
     free_frag_count = sample_words ! 51, state = 1, fs_magic = sample_words ! 343\<rparr>"
    unfolding decode_superblock_def by (simp add: read_words sample_words_props UFS_SUPER_MAGIC_OFFSET_def)
  also have "\<dots> = sample_superblock"
    unfolding sample_superblock_def by (simp add: sample_words_def nth_append)
  finally show ?thesis .
qed

definition sample_labelled :: "byte list" where
  "sample_labelled = label_copy_bytes 0 192 32 1 [0x64] @ replicate 171264 0 @ words_bytes sample_words @
     replicate 22528 0"

lemma sample_labelled_facts:
  "length sample_labelled = 196608"
  "take 0x300 sample_labelled = label_copy_bytes 0 192 32 1 [0x64]"
  "bytes_at 172032 2048 sample_labelled = words_bytes sample_words"
  by (simp_all add: sample_labelled_def bytes_at_def sample_words_props)

lemma sample_labelled_valid:
  "nextufs_image_validate ((sample_image sample_labelled)\<lparr>sb := sample_superblock, slice_base := 163840,
     slice_size := 32768\<rparr>) = Inr ()"
  using sample_not_bad by (simp add: nextufs_image_validate_def nextufs__cgstart_def u32_add_def Let_def)

theorem fresh_image_opens_witness:
  "\<exists>img'. nextufs_image_open_source (nextufs_init_backend (\<lambda>_ _. fail EINVAL) [] (Inr ((3, 4), length sample_labelled)) None)
      NEXTUFS_OPEN_READ_WRITE (sample_image sample_labelled) = (Inr (), img') \<and>
    content (backend_ctx img') = sample_labelled \<and> writable img' = (NEXTUFS_OPEN_READ_WRITE = NEXTUFS_OPEN_READ_WRITE) \<and>
    slice_base img' = int NEXTUFS_LABEL_FRONT_PORCH_BYTES \<and> slice_size img' = int (32 * NEXTUFS_LABEL_SECTOR_SIZE) \<and>
    label_name img' = takeWhile (\<lambda>b. b \<noteq> 0) (take 23 [0x64]) \<and> used_disk_label img'"
  by (rule fresh_image_opens [where total_blocks = 192 and cyls = 1])
    (simp_all add: sample_labelled_facts sample_words_decode sample_labelled_valid raw_calm_def)

theorem opened_image_inside_witness:
  "\<exists>img'. raw_on img' \<and> content (backend_ctx img') = sample_labelled \<and> writable img' \<and>
    found_in sample_labelled (int UFS_SBLOCK_OFFSET) img' \<and> valid_image img'"
proof -
  let ?D = "content (backend_ctx (sample_image sample_labelled))"
  have D: "?D = sample_labelled" by simp
  have v: "nextufs_image_validate ((sample_image sample_labelled)\<lparr>sb := decode_superblock (bytes_at 172032 2048 sample_labelled),
      slice_base := 163840, slice_size := int (32 * 1024)\<rparr>) = Inr ()"
    using sample_labelled_valid by (simp add: sample_labelled_facts sample_words_decode)
  have "\<exists>img'. nextufs_open_with_mode (nextufs_init_backend (\<lambda>_ _. fail EINVAL) [] (Inr ((3, 4), length ?D)) None) True (- 1)
      (sample_image sample_labelled) = (Inr (), img')"
    using fresh_open [OF _ _ D [symmetric] _ sample_labelled_facts(2) _ _ _ v, of "\<lambda>_ _. fail EINVAL" "(3, 4)" True]
    by (auto simp: sample_labelled_facts raw_calm_def)
  then obtain img' where o: "nextufs_open_with_mode (nextufs_init_backend (\<lambda>_ _. fail EINVAL) [] (Inr ((3, 4), length ?D)) None)
      True (- 1) (sample_image sample_labelled) = (Inr (), img')" ..
  have "detect_source (take 512 ?D) = NEXTUFS_SOURCE_RAW"
    using fresh_label_is_raw [OF sample_labelled_facts(2)] by (simp add: sample_labelled_facts)
  from opened_image_inside [OF o _ this] show ?thesis by (auto simp: sample_labelled_facts)
qed

section \<open>Copying the slice out\<close>

lemma on_image_Inr:
  "on_image m st = (Inr x, st') \<longleftrightarrow> (\<exists>img'. m (fst st) = (Inr x, img') \<and> st' = (img', snd st))"
  by (auto simp: on_image_def split: prod.splits)

lemma on_out_Inr:
  "on_out m st = (Inr x, st') \<longleftrightarrow> (\<exists>out'. m (snd st) = (Inr x, out') \<and> st' = (fst st, out'))"
  by (auto simp: on_out_def split: prod.splits)

lemma try_io_Inr: "try_io m s = (Inr r, s') \<longleftrightarrow> m s = (r, s')"
  by (auto simp: try_io_def split: prod.splits)

lemma write_out_effect:
  assumes "nextufs_write_out_fd buf (length (content f)) f = (Inr (), f')"
  shows "content f' = content f @ buf"
proof -
  from assms write_exact_fd_effect [of buf "int (length (content f))" f "Inr ()" f'] have
    "content f' = file_put (length (content f)) buf (content f)"
    by (auto simp: nextufs_write_out_fd_def nextufs__write_exact_fd_def)
  then show ?thesis by (simp add: file_put_def overlay_def)
qed

context backend
begin

lemma copy_slice_exact:
  assumes "opening_on ops disk binv D rw img" and "copy_slice c start copied left (img, out) = (Inr (), (img', out'))"
    and "0 < c" and "0 \<le> slice_base img" and "nat (slice_base img) + copied + left \<le> length D"
    and "length (content out) = start + copied"
  shows "content out' = content out @ bytes_at (nat (slice_base img) + copied) left D \<and> opening_on ops disk binv D rw img'"
  using assms
proof (induction left arbitrary: copied img out rule: less_induct)
  case (less left)
  show ?case
  proof (cases "left = 0")
    case True
    with less.prems show ?thesis by (simp add: copy_slice.simps [of c start copied 0] bytes_at_def)
  next
    case False
    let ?k = "min c left" and ?b = "nat (slice_base img)"
    from less.prems(2,3) False obtain buf img1 out1 where
      r: "nextufs__read_exact ?k (slice_base img + int copied) img = (Inr buf, img1)"
      and w: "nextufs_write_out_fd buf (start + copied) out = (Inr (), out1)"
      and rest: "copy_slice c start (copied + c) (left - ?k) (img1, out1) = (Inr (), (img', out'))"
      by (auto simp: copy_slice.simps [of c start copied left] bind_io_Inr get_io_def on_image_Inr on_out_Inr Let_def)
    note e = opening_read [OF less.prems(1) r]
    have b: "buf = bytes_at (?b + copied) ?k D"
      using e less.prems(4) by (auto simp: nat_add_distrib)
    from e have "static img1 = static img" by blast
    then have sb: "slice_base img1 = slice_base img" by (rule staticD(3))
    have lb: "length buf = ?k" using less.prems(5) by (simp add: b)
    have out1: "content out1 = content out @ buf" using w write_out_effect less.prems(6) by metis
    show ?thesis
    proof (cases "c \<le> left")
      case True
      have "left - ?k < left" using False less.prems(3) by simp
      moreover have "?b + (copied + c) + (left - ?k) \<le> length D" using less.prems(5) True by simp
      moreover have "length (content out1) = start + (copied + c)" using out1 lb True less.prems(6) by simp
      ultimately have ih: "content out' = content out1 @ bytes_at (?b + (copied + c)) (left - ?k) D"
        "opening_on ops disk binv D rw img'"
        using less.IH [OF _ _ rest less.prems(3)] e sb less.prems(4) by auto
      have "bytes_at (?b + copied) c D @ bytes_at (?b + copied + c) (left - c) D = bytes_at (?b + copied) (c + (left - c)) D"
        using less.prems(5) True by (intro bytes_at_append_bytes_at) simp
      with ih out1 b True show ?thesis by (simp add: add.assoc)
    next
      case False2: False
      with rest have "img' = img1" "out' = out1" by (simp_all add: copy_slice.simps)
      with e out1 b False2 show ?thesis by simp
    qed
  qed
qed

lemma close_idle: "transaction img = None \<Longrightarrow> \<exists>img'. nextufs_image_close img = (Inr (), img') \<and> backend_ctx img' = backend_ctx img"
  by (simp add: nextufs_image_close_def io_defs)

end

text \<open>
  C16. The copy of a slice is complete or reported as failed: when the extraction returns 0, whatever
  short transfers it went through, the target has gained exactly the bytes of the slice of the opened
  image, and the source is unchanged.
\<close>

theorem extract_exact:
  assumes "nextufs_source_extract_slice (nextufs_init_backend container [] (Inr (i, length D)) locked)
      (length (content out)) (img, out) = (Inr (), (img', out'))"
    and "D = content (backend_ctx img)" and "length D < 2 ^ 63" and "detect_source (take 512 D) = NEXTUFS_SOURCE_RAW"
  shows "\<exists>img1. nextufs_image_open (nextufs_init_backend container [] (Inr (i, length D)) locked) img = (Inr (), img1) \<and>
    content out' = content out @ bytes_at (nat (slice_base img1)) (nat (slice_size img1)) D \<and>
    nat (slice_base img1) + nat (slice_size img1) \<le> length D \<and> content (backend_ctx img') = D"
proof -
  let ?init = "nextufs_init_backend container [] (Inr (i, length D)) locked"
  let ?start = "length (content out)"
  let ?chunk = "\<lambda>i1. if of_off (slice_size i1) < 1048576 \<and> 0 < slice_size i1 then nat (slice_size i1) else 1048576"
  from assms(1) obtain i1 i2 i3 out3 where op: "nextufs_open_with_mode ?init False (- 1) img = (Inr (), i1)"
    and ml: "malloc_io (?chunk i1) i1 = (Inr (), i2)"
    and cp: "copy_slice (?chunk i1) ?start 0 (of_off (slice_size i1)) (i2, out) = (Inr (), (i3, out3))"
    and cl: "on_image nextufs_image_close (i3, out3) = (Inr (), (img', out'))"
    unfolding nextufs_source_extract_slice_def bind_io_Inr on_image_Inr or_close_Inr get_io_def Let_def
        nextufs_image_open_source_def try_io_Inr lift_res_def
    by (auto simp: bind_io_Inr on_image_Inr or_close_Inr try_io_Inr)
  have init: "opening_on nextufs_raw_backend_ops content (\<lambda>_. True) D False i'"
    if "?init False (blank_image img) = (Inr (), i')" for i'
    using raw_init_opening [OF that] assms(2-4) by simp
  from raw.open_found [OF init op] have o: "opening_on nextufs_raw_backend_ops content (\<lambda>_. True) D False i1"
    and f: "0 \<le> slice_base i1" "0 \<le> slice_size i1" "slice_base i1 + slice_size i1 \<le> int (length D)"
    by (auto simp: found_in_def)
  from malloc_frame [OF ml] obtain ms where i2: "i2 = i1\<lparr>mallocs := ms\<rparr>" ..
  have sz: "of_off (slice_size i1) = nat (slice_size i1)" using f assms(3) by simp
  have "opening_on nextufs_raw_backend_ops content (\<lambda>_. True) D False i2" using o i2 by simp
  from raw.copy_slice_exact [OF this cp] f sz i2
  have c: "content out3 = content out @ bytes_at (nat (slice_base i1)) (nat (slice_size i1)) D"
    "opening_on nextufs_raw_backend_ops content (\<lambda>_. True) D False i3"
    by (auto split: if_splits)
  then have "transaction i3 = None" "content (backend_ctx i3) = D" by (auto simp: opening_on_def)
  with raw.close_idle [of i3] cl have "content (backend_ctx img') = D" "out' = out3"
    by (auto simp: on_image_def)
  moreover have "nextufs_image_open ?init img = (Inr (), i1)"
    using op by (simp add: nextufs_image_open_def nextufs_image_open_source_def)
  moreover have "nat (slice_base i1) + nat (slice_size i1) \<le> length D" using f by linarith
  ultimately show ?thesis using c(1) by blast
qed

section \<open>Closing an image in the middle of an operation\<close>

text \<open>
  C17. An image that is closed while an operation is running, whatever the operation has written so
  far, gets back every byte but the state byte; when the rollback itself is incomplete, closing leaves
  the state byte alone, so that the file system stays marked as damaged.
\<close>

theorem close_rolls_back:
  fixes rc :: "errno + unit"
  assumes "log_inv nextufs_raw_backend_ops content (\<lambda>_. True) D img"
    and "nextufs__transaction_end (Inl ECANCELED) img = (rc, img1)" and "nextufs_image_close img = (r, img')"
  shows "r = Inr () \<and> backend_ops img' = None \<and>
    (rc \<noteq> Inl EUCLEAN \<longrightarrow> agree_outside (nat (state_off img)) 1 (content (backend_ctx img')) D) \<and>
    (rc = Inl EUCLEAN \<longrightarrow> content (backend_ctx img') = content (backend_ctx img1))"
proof -
  from assms(1) obtain tx where t: "transaction img = Some tx" by (auto simp: log_inv_def)
  obtain q img2 where q: "nextufs__write_finish (rc \<noteq> Inl EUCLEAN) img1 = (q, img2)"
    by (cases "nextufs__write_finish (rc \<noteq> Inl EUCLEAN) img1")
  have img': "r = Inr ()" "img' = img2\<lparr>backend_ops := None, writable := False, source_is_container := False,
       source_format := NEXTUFS_SOURCE_RAW\<rparr>"
    using assms(2,3) t q by (auto simp: nextufs_image_close_def io_defs)
  note on = raw.transaction_end_on [OF assms(1,2)]
  show ?thesis
  proof (cases "rc = Inl EUCLEAN")
    case True
    with q have "img2 = img1" by (simp add: nextufs__write_finish_def io_defs)
    with img' True show ?thesis by simp
  next
    case False
    from raw.transaction_end_restores [OF assms(1,2) False] have d: "content (backend_ctx img1) = D" by blast
    have s: "state_off img1 = state_off img" using on staticD(3) by (auto simp: state_off_def)
    have "byte_inv nextufs_raw_backend_ops content (\<lambda>_. True) (nat (state_off img1)) (slice_base img1)
        (tmpfile_script img1) D img1"
      using on d by (simp add: byte_inv_def)
    from raw.write_finish_byte [OF this q]
    have "agree_outside (nat (state_off img)) 1 (content (backend_ctx img2)) D" by (simp add: byte_inv_def s)
    with img' False show ?thesis by simp
  qed
qed

lemma copy_one_chunk:
  assumes "raw_image_calm img" and "0 \<le> slice_base img" and "nat (slice_base img) + c \<le> length (content (backend_ctx img))"
    and "script out = []"
  shows "\<exists>img' out'. copy_slice c (length (content out)) 0 c (img, out) = (Inr (), (img', out')) \<and> transaction img' = None"
proof (cases "c = 0")
  case True
  with assms(1) show ?thesis by (simp add: copy_slice.simps [of 0] calm_image_def)
next
  case False
  from raw.read_exact_calm [OF assms(1,2,3)] obtain img1 where
    r: "nextufs__read_exact c (slice_base img) img = (Inr (bytes_at (nat (slice_base img)) c (content (backend_ctx img))), img1)"
    "raw_image_calm img1" by blast
  let ?buf = "bytes_at (nat (slice_base img)) c (content (backend_ctx img))"
  obtain q out1 where w: "nextufs_write_out_fd ?buf (length (content out)) out = (q, out1)"
    by (cases "nextufs_write_out_fd ?buf (length (content out)) out")
  have "q = Inr ()"
    using write_fd_loop_benign [of out "int (length (content out))" ?buf 0] w assms(4)
    by (simp add: nextufs_write_out_fd_def)
  with r w False have "copy_slice c (length (content out)) 0 c (img, out) = copy_slice c (length (content out)) c 0 (img1, out1)"
    by (simp add: copy_slice.simps [of c _ 0 c] io_defs on_image_def on_out_def)
  with r(2) show ?thesis by (simp add: copy_slice.simps [of c _ c 0] calm_image_def)
qed

theorem extract_exact_witness:
  "\<exists>(img' :: nextufs_raw_backend nextufs_image) (out' :: hostfile) img1. nextufs_image_open (nextufs_init_backend (\<lambda>_ _. fail EINVAL) [] (Inr ((3, 4), length sample_labelled)) None)
      (sample_image sample_labelled) = (Inr (), img1) \<and>
    content out' = [7] @ bytes_at (nat (slice_base img1)) (nat (slice_size img1)) sample_labelled \<and>
    nat (slice_base img1) + nat (slice_size img1) \<le> length sample_labelled \<and>
    content (backend_ctx img') = sample_labelled"
proof -
  let ?img = "sample_image sample_labelled" and ?out = "\<lparr>content = [7], script = []\<rparr>"
  let ?init = "nextufs_init_backend (\<lambda>_ _. fail EINVAL) [] (Inr ((3, 4), length sample_labelled)) None"
  have D: "sample_labelled = content (backend_ctx ?img)" by simp
  have v: "nextufs_image_validate (?img\<lparr>sb := decode_superblock (bytes_at 172032 2048 sample_labelled),
      slice_base := 163840, slice_size := int (32 * 1024)\<rparr>) = Inr ()"
    using sample_labelled_valid by (simp add: sample_labelled_facts sample_words_decode)
  from fresh_open [OF _ _ D _ sample_labelled_facts(2) _ _ _ v, of "\<lambda>_ _. fail EINVAL" "(3, 4)" False]
  obtain i1 where o: "nextufs_open_with_mode ?init False (- 1) ?img = (Inr (), i1)" "raw_image_calm i1"
    "content (backend_ctx i1) = sample_labelled" "slice_base i1 = 163840" "slice_size i1 = 32768"
    by (auto simp: sample_labelled_facts raw_calm_def)
  from copy_one_chunk [OF o(2), of 32768 ?out] o(3,4) obtain i2 out2 where
    c: "copy_slice 32768 1 0 32768 (i1, ?out) = (Inr (), (i2, out2))" "transaction i2 = None"
    by (auto simp: sample_labelled_facts)
  from raw.close_idle [OF c(2)] obtain i3 where cl: "nextufs_image_close i2 = (Inr (), i3)" by blast
  have m: "malloc_io 32768 i1 = (Inr (), i1)" by (rule raw.malloc_calm [OF o(2)]) simp
  have ex: "nextufs_source_extract_slice ?init (length (content ?out)) (?img, ?out) = (Inr (), (i3, out2))"
    using o(1,5) c(1) cl m
    by (simp add: nextufs_source_extract_slice_def nextufs_image_open_source_def io_defs on_image_def or_close_def Let_def)
  have ds: "detect_source (take 512 sample_labelled) = NEXTUFS_SOURCE_RAW"
    using fresh_label_is_raw [OF sample_labelled_facts(2)] by (simp add: sample_labelled_facts)
  have "length sample_labelled < 2 ^ 63" by (simp add: sample_labelled_facts)
  from extract_exact [OF ex D this ds] obtain img1 where "nextufs_image_open ?init ?img = (Inr (), img1)"
    "content out2 = content ?out @ bytes_at (nat (slice_base img1)) (nat (slice_size img1)) sample_labelled"
    "nat (slice_base img1) + nat (slice_size img1) \<le> length sample_labelled" "content (backend_ctx i3) = sample_labelled"
    by blast
  then show ?thesis by - (rule exI [of _ i3], rule exI [of _ out2], rule exI [of _ img1], simp)
qed

text \<open>An image whose first byte was changed by the operation that is running.\<close>

definition sample_running :: "nextufs_raw_backend nextufs_image" where
  "sample_running = (sample_image (2 # replicate 32767 0))\<lparr>transaction := Some \<lparr>tx_log = log_of [(0, [1])],
     tx_end = 17, tx_script = []\<rparr>\<rparr>"

lemma sample_running_log: "log_inv nextufs_raw_backend_ops content (\<lambda>_. True) (1 # replicate 32767 0) sample_running"
  unfolding log_inv_def sample_running_def
  by (auto simp: image_on_def log_of_def undo_all_def overlay_def intro!: exI [of _ "[(0, [1])]"])

lemma undo_loop_end: "tx_end tx \<le> 0 \<Longrightarrow> undo_loop tx img = (Inr False, img)"
  by (simp add: undo_loop.simps)

lemma sample_running_end:
  "fst (nextufs__transaction_end (Inl ECANCELED :: errno + unit) sample_running) = Inl ECANCELED"
proof -
  let ?tx = "\<lparr>tx_log = log_of [(0, [1])], tx_end = 17, tx_script = []\<rparr>"
  let ?i = "sample_image (2 # replicate 32767 0)"
  have r: "log_fread 1 16 ?tx = (Some (undo_record 0 1), ?tx)" "log_fread 0 1 ?tx = (Some [1], ?tx)"
    "log_fread 0 1 (?tx\<lparr>tx_end := 0\<rparr>) = (Some [1], ?tx\<lparr>tx_end := 0\<rparr>)"
    by (simp_all add: log_fread_def log_of_def bytes_at_def)
  have u: "to_off (read_le64 (undo_record 0 1) 0) = 0" "read_le64 (undo_record 0 1) 8 = 1"
    using undo_record_fields [of 0 1] by simp_all
  have w: "nextufs_raw_backend_write [1] 0 \<lparr>content = 2 # replicate 32767 0, script = []\<rparr> =
     (Inr (), \<lparr>content = 1 # replicate 32767 0, script = []\<rparr>)"
    by (simp add: nextufs_raw_backend_write_def nextufs__write_exact_fd_def write_fd_loop.simps pwrite_def
        file_put_def overlay_def)
  have "undo_loop ?tx ?i = (Inr False, ?i\<lparr>backend_ctx := \<lparr>content = 1 # replicate 32767 0, script = []\<rparr>\<rparr>)"
    using r u w
    by (simp add: undo_loop.simps [of ?tx] undo_loop_end undo_record_size_def malloc_io_def
        nextufs_raw_backend_ops_def ctx_io_def)
  moreover have n: "?i\<lparr>transaction := None\<rparr> = ?i" by (simp add: sample_image_def)
  ultimately show ?thesis
    by (simp add: n nextufs__transaction_end_def sample_running_def nextufs_raw_backend_ops_def ctx_io_def
        nextufs_raw_backend_fsync_def fsync_fd_def)
qed

theorem close_rolls_back_witness:
  "case nextufs_image_close sample_running of (r, img') \<Rightarrow> r = Inr () \<and> backend_ops img' = None \<and>
    agree_outside (nat (state_off sample_running)) 1 (content (backend_ctx img')) (1 # replicate 32767 0)"
proof -
  obtain rc img1 where e: "nextufs__transaction_end (Inl ECANCELED :: errno + unit) sample_running = (rc, img1)"
    by (cases "nextufs__transaction_end (Inl ECANCELED :: errno + unit) sample_running")
  obtain r img' where c: "nextufs_image_close sample_running = (r, img')" by (cases "nextufs_image_close sample_running")
  from e sample_running_end have "rc = Inl ECANCELED" by simp
  with close_rolls_back [OF sample_running_log e c] c show ?thesis by simp
qed

end
