(* ===== verification/Report.thy ===== *)
theory Report
  imports Superblock
begin

text \<open>
  What the command line reads and prints: numbers and sizes (\<^verbatim>\<open>src/core/size.c\<close>), the facts about an
  image (\<^verbatim>\<open>src/core/info.c\<close>) and their report as text and as JSON (\<^verbatim>\<open>src/core/report.c\<close>). A C string is
  the list of its bytes before the terminating zero; output is the list of the bytes written.
\<close>

section \<open>Numbers\<close>

definition isdigit :: "byte \<Rightarrow> bool" where
  "isdigit c \<longleftrightarrow> 48 \<le> unat c \<and> unat c \<le> 57"

text \<open>The value of a digit of any base; 36 for what is none.\<close>

definition digit_value :: "byte \<Rightarrow> nat" where
  "digit_value c = (let n = unat c in
     if 48 \<le> n \<and> n \<le> 57 then n - 48
     else if 97 \<le> n \<and> n \<le> 122 then n - 87
     else if 65 \<le> n \<and> n \<le> 90 then n - 55
     else 36)"

definition digits_value :: "nat \<Rightarrow> byte list \<Rightarrow> nat" where
  "digits_value base ds = foldl (\<lambda>v c. v * base + digit_value c) 0 ds"

text \<open>
  The base and the start of the digits. The functions below call \<open>strtoull\<close> only on a string that
  starts with a digit, so that it never skips blanks or a sign.
\<close>

definition strtoull_base :: "nat \<Rightarrow> byte list \<Rightarrow> nat \<times> byte list" where
  "strtoull_base base s =
     (if (base = 0 \<or> base = 16) \<and> 3 \<le> length s \<and> s ! 0 = 48 \<and> (s ! 1 = 120 \<or> s ! 1 = 88) \<and>
        digit_value (s ! 2) < 16 then (16, drop 2 s)
      else if base = 0 then (if s \<noteq> [] \<and> s ! 0 = 48 then 8 else 10, s)
      else (base, s))"

text \<open>The digits, what follows them, and whether the value exceeds \<open>ULLONG_MAX\<close>.\<close>

definition strtoull :: "nat \<Rightarrow> byte list \<Rightarrow> nat \<times> byte list \<times> byte list" where
  "strtoull base s = (case strtoull_base base s of (b, t) \<Rightarrow>
     let ds = takeWhile (\<lambda>c. digit_value c < b) t
     in (digits_value b ds, ds, dropWhile (\<lambda>c. digit_value c < b) t))"

definition nextufs_parse_number :: "byte list \<Rightarrow> nat \<Rightarrow> nat \<Rightarrow> nat option" where
  "nextufs_parse_number s base limit =
     (if s = [] \<or> \<not> isdigit (hd s) then None
      else case strtoull base s of (v, ds, end_ptr) \<Rightarrow>
        if 2 ^ 64 \<le> v \<or> ds = [] \<or> end_ptr \<noteq> [] \<or> limit < v then None else Some v)"

definition nextufs_parse_u64 :: "byte list \<Rightarrow> nat option" where
  "nextufs_parse_u64 s = nextufs_parse_number s 10 (2 ^ 64 - 1)"

datatype nextufs_bare_size_unit = NEXTUFS_BARE_SIZE_BYTES | NEXTUFS_BARE_SIZE_1K_SECTORS

abbreviation (input) NEXTUFS_KIB_BYTES :: nat where "NEXTUFS_KIB_BYTES \<equiv> 1024"

definition size_multiplier :: "nextufs_bare_size_unit \<Rightarrow> byte list \<Rightarrow> nat option" where
  "size_multiplier bare_unit end_ptr =
     (case end_ptr of
        [] \<Rightarrow> Some (if bare_unit = NEXTUFS_BARE_SIZE_1K_SECTORS then NEXTUFS_KIB_BYTES else 1)
      | c # rest \<Rightarrow>
          if rest \<noteq> [] then None
          else if c = 0x6b \<or> c = 0x4b then Some NEXTUFS_KIB_BYTES
          else if c = 0x6d \<or> c = 0x4d then Some (NEXTUFS_KIB_BYTES * NEXTUFS_KIB_BYTES)
          else if c = 0x67 \<or> c = 0x47 then Some (NEXTUFS_KIB_BYTES * NEXTUFS_KIB_BYTES * NEXTUFS_KIB_BYTES)
          else None)"

definition nextufs_parse_size_bytes :: "byte list \<Rightarrow> nextufs_bare_size_unit \<Rightarrow> nat option" where
  "nextufs_parse_size_bytes s bare_unit =
     (if s = [] \<or> \<not> isdigit (hd s) then None
      else case strtoull 10 s of (v, ds, end_ptr) \<Rightarrow>
        if 2 ^ 64 \<le> v \<or> ds = [] then None
        else case size_multiplier bare_unit end_ptr of
          None \<Rightarrow> None
        | Some mult \<Rightarrow> if v = 0 \<or> (2 ^ 64 - 1) div mult < v then None else Some (u64 (v * mult)))"

section \<open>Printing\<close>

definition digit_byte :: "nat \<Rightarrow> byte" where
  "digit_byte d = word_of_nat (if d < 10 then 48 + d else 87 + d)"

text \<open>\<open>PRIu64\<close>, \<open>PRIu32\<close>, \<open>PRIu16\<close>: decimal without leading zeros; and \<open>PRIx32\<close>, \<open>%jx\<close>.\<close>

fun print_base :: "nat \<Rightarrow> nat \<Rightarrow> byte list" where
  "print_base b n = (if b < 2 \<or> n < b then [digit_byte n] else print_base b (n div b) @ [digit_byte (n mod b)])"

declare print_base.simps [simp del]

definition print_u :: "nat \<Rightarrow> byte list" where
  "print_u = print_base 10"

definition print_x :: "nat \<Rightarrow> byte list" where
  "print_x = print_base 16"

definition zero_pad :: "nat \<Rightarrow> byte list \<Rightarrow> byte list" where
  "zero_pad w bs = replicate (w - length bs) 48 @ bs"

text \<open>The bytes of a string literal.\<close>

definition lit :: "string \<Rightarrow> byte list" where
  "lit s = map (\<lambda>c. word_of_nat (of_char c)) s"

section \<open>A JSON string\<close>

definition utf8_length :: "byte \<Rightarrow> nat" where
  "utf8_length c = (let v = unat c in
     if 0xc2 \<le> v \<and> v \<le> 0xdf then 2
     else if 0xe0 \<le> v \<and> v \<le> 0xef then 3
     else if 0xf0 \<le> v \<and> v \<le> 0xf4 then 4
     else 0)"

text \<open>The code's test for a multibyte character at the start of \<open>s\<close>.\<close>

definition utf8_start :: "byte list \<Rightarrow> bool" where
  "utf8_start s =
     (let c = s ! 0; n = utf8_length c in
      n \<noteq> 0 \<and> n \<le> length s \<and> list_all (\<lambda>j. s ! j AND 0xc0 = 0x80) [1..<n] \<and>
      \<not> (c = 0xe0 \<and> unat (s ! 1) < 0xa0 \<or> c = 0xed \<and> 0xa0 \<le> unat (s ! 1) \<or>
         c = 0xf0 \<and> unat (s ! 1) < 0x90 \<or> c = 0xf4 \<and> 0x90 \<le> unat (s ! 1)))"

function json_body :: "byte list \<Rightarrow> byte list" where
  "json_body [] = []"
| "json_body (c # rest) =
     (if c = 0x22 \<or> c = 0x5c then [0x5c, c] @ json_body rest
      else if c = 10 then lit [CHR 0x5c, CHR ''n''] @ json_body rest
      else if c = 13 then lit [CHR 0x5c, CHR ''r''] @ json_body rest
      else if c = 9 then lit [CHR 0x5c, CHR ''t''] @ json_body rest
      else if unat c < 32 then lit [CHR 0x5c, CHR ''u''] @ zero_pad 4 (print_x (unat c)) @ json_body rest
      else if unat c < 128 then c # json_body rest
      else if utf8_start (c # rest) then
        take (utf8_length c) (c # rest) @ json_body (drop (utf8_length c - 1) rest)
      else lit (CHR 0x5c # ''ufffd'') @ json_body rest)"
  by pat_completeness auto
termination by (relation "measure length") auto

definition nextufs_report_json_string :: "byte list \<Rightarrow> byte list" where
  "nextufs_report_json_string s = [0x22] @ json_body s @ [0x22]"

section \<open>The facts about an image\<close>

record nextufs_info =
  backing_bytes :: nat
  image_bytes :: nat
  info_slice_base :: nat
  slice_bytes :: nat
  superblock_base :: nat
  filesystem_bytes :: nat
  trailing_slice_slack :: nat
  csum_capacity_groups :: nat
  info_is_container :: bool
  info_format :: nextufs_source_format
  info_used_label :: bool
  info_label_version :: nat
  info_label_off :: nat
  info_label_secsize :: nat
  info_label_front :: nat
  info_label_name :: "byte list"
  info_rootpartition :: byte
  info_sb :: nextufs_superblock

text \<open>\<open>st_size\<close> is what \<open>fstat\<close> gives for the size of the source, if it succeeds.\<close>

definition nextufs_info_collect :: "'c nextufs_image \<Rightarrow> nat \<Rightarrow> int option \<Rightarrow> nextufs_info" where
  "nextufs_info_collect img backing st_sz =
     (let fs_bytes = frag_count (sb img) * frag_size (sb img);
          sl_bytes = of_off (slice_size img);
          im_bytes = of_off (image_size img)
      in \<lparr>backing_bytes = (if backing = 0 then case st_sz of Some n \<Rightarrow> of_off n | None \<Rightarrow> im_bytes else backing),
          image_bytes = im_bytes,
          info_slice_base = of_off (slice_base img),
          slice_bytes = sl_bytes,
          superblock_base = u64 (of_off (slice_base img) + UFS_SBLOCK_OFFSET),
          filesystem_bytes = u64 fs_bytes,
          trailing_slice_slack = (if u64 fs_bytes < sl_bytes then sl_bytes - u64 fs_bytes else 0),
          csum_capacity_groups = csum_size (sb img) div 16,
          info_is_container = source_is_container img,
          info_format = source_format img,
          info_used_label = used_disk_label img,
          info_label_version = label_version img,
          info_label_off = of_off (label_off img),
          info_label_secsize = label_secsize img,
          info_label_front = label_front img,
          info_label_name = label_name img,
          info_rootpartition = rootpartition img,
          info_sb = sb img\<rparr>)"

definition nextufs_info_source_kind :: "nextufs_info \<Rightarrow> byte list" where
  "nextufs_info_source_kind info =
     (if info_is_container info then lit ''container image''
      else if info_used_label info then lit ''labeled disk image''
      else lit ''raw filesystem image'')"

definition nextufs_info_source_format :: "nextufs_info \<Rightarrow> byte list" where
  "nextufs_info_source_format info = (case info_format info of
       NEXTUFS_SOURCE_VDI \<Rightarrow> lit ''vdi'' | NEXTUFS_SOURCE_QCOW2 \<Rightarrow> lit ''qcow2'' | NEXTUFS_SOURCE_RAW \<Rightarrow> lit ''raw'')"

section \<open>The report as text\<close>

definition newline :: "byte list" where
  "newline = [10]"

text \<open>\<open>"  %-30s "\<close>\<close>

definition label_column :: "string \<Rightarrow> byte list" where
  "label_column s = lit ''  '' @ lit s @ replicate (30 - length s) 32 @ [32]"

definition report_size_line :: "string \<Rightarrow> nat \<Rightarrow> byte list" where
  "report_size_line l n = label_column l @ print_u n @ lit '' bytes ('' @ print_u (n div 1024) @ lit '' 1K sectors)'' @ newline"

definition report_section :: "string \<Rightarrow> byte list" where
  "report_section s = lit s @ newline"

definition report_next_section :: "string \<Rightarrow> byte list" where
  "report_next_section s = newline @ lit s @ newline"

definition report_string_line :: "string \<Rightarrow> byte list \<Rightarrow> byte list" where
  "report_string_line l v = label_column l @ v @ newline"

definition report_u32_line :: "string \<Rightarrow> nat \<Rightarrow> byte list" where
  "report_u32_line l v = label_column l @ print_u v @ newline"

definition report_hex32_line :: "string \<Rightarrow> nat \<Rightarrow> byte list" where
  "report_hex32_line l v = label_column l @ lit ''0x'' @ zero_pad 8 (print_x v) @ newline"

definition report_offset_line :: "string \<Rightarrow> nat \<Rightarrow> byte list" where
  "report_offset_line l v = label_column l @ lit ''0x'' @ print_x v @ lit '' ('' @ print_u v @ lit '')'' @ newline"

definition report_superblock_text :: "nextufs_info \<Rightarrow> byte list" where
  "report_superblock_text info = (let s = info_sb info in
     report_hex32_line ''magic'' (fs_magic s) @ report_u32_line ''fsbtodb shift'' (fsbtodb s) @
     report_u32_line ''indirect entries/block'' (nindir s) @ report_u32_line ''inodes/block'' (inodes_per_block s) @
     label_column ''fragments total/data'' @ print_u (frag_count s) @ lit '' / '' @ print_u (data_frag_count s) @ newline @
     label_column ''optimization/state'' @ print_u (optim s) @ lit '' / '' @ print_u (state s) @ newline)"

definition report_geometry_text :: "nextufs_info \<Rightarrow> byte list" where
  "report_geometry_text info = (let s = info_sb info in
     report_u32_line ''block size'' (block_size s) @ report_u32_line ''fragment size'' (frag_size s) @
     report_u32_line ''fragments/block'' (frags_per_block s) @ report_u32_line ''fragments/group'' (frags_per_group s) @
     report_u32_line ''inodes/group'' (inodes_per_group s) @ report_u32_line ''cylinders/group'' (cpg s) @
     report_u32_line ''cylinders'' (ncyl s) @ report_u32_line ''cylinder groups'' (cg_count s) @
     label_column ''cylinder-summary capacity'' @ print_u (csum_capacity_groups info) @ lit '' groups'' @ newline)"

definition report_free_space_text :: "nextufs_info \<Rightarrow> byte list" where
  "report_free_space_text info = (let s = info_sb info in
     report_u32_line ''data fragments'' (data_frag_count s) @ report_u32_line ''free blocks'' (free_block_count s) @
     report_u32_line ''free fragments'' (free_frag_count s) @ report_u32_line ''free inodes'' (free_inode_count s))"

abbreviation (input) NEXTUFS_COMPAT_MAX_BYTES :: nat where "NEXTUFS_COMPAT_MAX_BYTES \<equiv> 4294836224"

definition report_label_text :: "nextufs_info \<Rightarrow> byte list" where
  "report_label_text info =
     (let root = (if info_rootpartition info = 0 then lit ''?'' else [info_rootpartition info]) in
     report_next_section ''Disk Label'' @
     report_string_line ''name'' (if info_label_name info = [] then lit ''(empty)'' else info_label_name info) @
     report_hex32_line ''version'' (info_label_version info) @ report_offset_line ''offset'' (info_label_off info) @
     report_u32_line ''sector size'' (info_label_secsize info) @
     report_u32_line ''front porch sectors'' (info_label_front info) @ report_string_line ''root partition'' root)"

definition nextufs_report_info_text :: "byte list \<Rightarrow> nextufs_info \<Rightarrow> byte list" where
  "nextufs_report_info_text source info =
     report_section ''Source'' @ report_string_line ''path'' source @
     report_string_line ''kind'' (nextufs_info_source_kind info) @
     report_string_line ''format'' (nextufs_info_source_format info) @
     report_size_line ''backing file size'' (backing_bytes info) @ report_size_line ''image size'' (image_bytes info) @
     (if info_used_label info then report_label_text info else []) @
     report_next_section ''Layout'' @ report_offset_line ''slice base'' (info_slice_base info) @
     report_size_line ''slice size'' (slice_bytes info) @ report_offset_line ''superblock base'' (superblock_base info) @
     report_size_line ''filesystem size'' (filesystem_bytes info) @
     report_size_line ''trailing unused slice space'' (trailing_slice_slack info) @
     report_size_line ''compatibility ceiling'' NEXTUFS_COMPAT_MAX_BYTES @
     report_next_section ''Geometry'' @ report_geometry_text info @
     report_next_section ''Free Space'' @ report_free_space_text info @
     report_next_section ''Superblock'' @ report_superblock_text info"

section \<open>The report as JSON\<close>

definition json_key :: "string \<Rightarrow> string \<Rightarrow> byte list" where
  "json_key indent k = lit indent @ [0x22] @ lit k @ [0x22] @ lit '': ''"

definition json_num :: "string \<Rightarrow> string \<Rightarrow> nat \<Rightarrow> byte list" where
  "json_num indent k v = json_key indent k @ print_u v @ lit '','' @ newline"

definition json_str :: "string \<Rightarrow> string \<Rightarrow> byte list \<Rightarrow> byte list" where
  "json_str indent k v = json_key indent k @ nextufs_report_json_string v @ lit '','' @ newline"

definition json_label :: "nextufs_info \<Rightarrow> byte list" where
  "json_label info =
     json_key ''  '' ''label'' @ lit ''{'' @ newline @
     json_str ''    '' ''name'' (info_label_name info) @
     json_num ''    '' ''version'' (info_label_version info) @
     json_num ''    '' ''offset'' (info_label_off info) @
     json_num ''    '' ''sector_size'' (info_label_secsize info) @
     json_num ''    '' ''front_porch_sectors'' (info_label_front info) @
     json_key ''    '' ''root_partition'' @
     (if info_rootpartition info \<noteq> 0 then nextufs_report_json_string [info_rootpartition info] else lit ''null'') @
     newline @ lit ''  },'' @ newline"

definition json_filesystem :: "nextufs_info \<Rightarrow> byte list" where
  "json_filesystem info = (let s = info_sb info; i = ''    '' in
     json_key ''  '' ''filesystem'' @ lit ''{'' @ newline @
     json_num i ''magic'' (fs_magic s) @ json_num i ''block_size'' (block_size s) @
     json_num i ''fragment_size'' (frag_size s) @ json_num i ''fragments_per_block'' (frags_per_block s) @
     json_num i ''fragment_count'' (frag_count s) @ json_num i ''data_fragment_count'' (data_frag_count s) @
     json_num i ''cylinder_groups'' (cg_count s) @ json_num i ''cylinders_per_group'' (cpg s) @
     json_num i ''inodes_per_group'' (inodes_per_group s) @ json_num i ''fragments_per_group'' (frags_per_group s) @
     json_num i ''free_blocks'' (free_block_count s) @ json_num i ''free_fragments'' (free_frag_count s) @
     json_key i ''free_inodes'' @ print_u (free_inode_count s) @ newline @ lit ''  }'' @ newline)"

definition nextufs_report_info_json :: "byte list \<Rightarrow> nextufs_info \<Rightarrow> byte list" where
  "nextufs_report_info_json source info =
     lit ''{'' @ newline @ json_str ''  '' ''source'' source @
     json_str ''  '' ''source_kind'' (nextufs_info_source_kind info) @
     json_str ''  '' ''source_format'' (nextufs_info_source_format info) @
     json_num ''  '' ''backing_bytes'' (backing_bytes info) @
     json_num ''  '' ''image_bytes'' (image_bytes info) @
     json_num ''  '' ''slice_base'' (info_slice_base info) @
     json_num ''  '' ''slice_bytes'' (slice_bytes info) @
     json_num ''  '' ''superblock_base'' (superblock_base info) @
     json_num ''  '' ''filesystem_bytes'' (filesystem_bytes info) @
     json_num ''  '' ''trailing_slice_slack'' (trailing_slice_slack info) @
     json_num ''  '' ''compatibility_ceiling_bytes'' NEXTUFS_COMPAT_MAX_BYTES @
     json_num ''  '' ''cylinder_summary_capacity_groups'' (csum_capacity_groups info) @
     json_key ''  '' ''used_disk_label'' @ (if info_used_label info then lit ''true'' else lit ''false'') @ lit '','' @ newline @
     json_label info @ json_filesystem info @ lit ''}'' @ newline"

section \<open>Printing and reading numbers\<close>

lemma unat_digit_byte: "d < 36 \<Longrightarrow> unat (digit_byte d) = (if d < 10 then 48 + d else 87 + d)"
  by (simp add: digit_byte_def unsigned_of_nat take_bit_eq_mod)

lemma digit_value_byte [simp]: "d < 36 \<Longrightarrow> digit_value (digit_byte d) = d"
  by (auto simp: digit_value_def unat_digit_byte)

lemma digits_value_append: "digits_value b (xs @ [d]) = digits_value b xs * b + digit_value d"
  by (simp add: digits_value_def)

lemma print_base_digits:
  "2 \<le> b \<Longrightarrow> b \<le> 36 \<Longrightarrow> print_base b n \<noteq> [] \<and> digits_value b (print_base b n) = n \<and>
    list_all (\<lambda>c. digit_value c < b) (print_base b n)"
proof (induction b n rule: print_base.induct)
  case (1 b n)
  show ?case
  proof (cases "n < b")
    case True
    with 1 show ?thesis by (simp add: print_base.simps [of b n] digits_value_def)
  next
    case False
    have m: "n mod b < b" using 1(2) by simp
    then have "n mod b < 36" using 1(3) by linarith
    with m False 1 show ?thesis by (simp add: print_base.simps [of b n] digits_value_append)
  qed
qed

lemma print_u_first: "isdigit (hd (print_u n))"
proof -
  have "isdigit c" if "digit_value c < 10" for c
    using that by (auto simp: isdigit_def digit_value_def Let_def split: if_splits)
  moreover have "print_u n \<noteq> []" "list_all (\<lambda>c. digit_value c < 10) (print_u n)"
    using print_base_digits [of 10 n] by (simp_all add: print_u_def)
  ultimately show ?thesis by (cases "print_u n") auto
qed

lemma strtoull_print:
  assumes "suf = [] \<or> \<not> digit_value (hd suf) < 10"
  shows "strtoull 10 (print_u n @ suf) = (n, print_u n, suf)"
proof -
  have p: "digits_value 10 (print_u n) = n" "list_all (\<lambda>c. digit_value c < 10) (print_u n)"
    using print_base_digits [of 10 n] by (simp_all add: print_u_def)
  then have "takeWhile (\<lambda>c. digit_value c < 10) (print_u n @ suf) = print_u n"
    "dropWhile (\<lambda>c. digit_value c < 10) (print_u n @ suf) = suf"
    using assms by (cases suf; auto simp: list_all_iff takeWhile_append dropWhile_append)+
  then show ?thesis using p by (simp add: strtoull_def strtoull_base_def)
qed

text \<open>
  C28. Numbers are read as they are printed: the decimal of the report is accepted by the number parser
  exactly when it fits 64 bits, with its value; and with the suffix \<open>k\<close> it is a size of that many KiB,
  rejected when it is zero or would not fit.
\<close>

theorem printed_number_parses:
  "nextufs_parse_u64 (print_u n) = (if n < 2 ^ 64 then Some n else None) \<and>
   nextufs_parse_size_bytes (print_u n @ [0x6b]) bare_unit =
     (if n = 0 \<or> 2 ^ 64 \<le> n * 1024 then None else Some (n * 1024))"
proof -
  have ne: "print_u n \<noteq> []" using print_base_digits [of 10 n] by (simp add: print_u_def)
  have k: "digit_value 0x6b = 20" by (simp add: digit_value_def)
  have a: "strtoull 10 (print_u n) = (n, print_u n, [])" using strtoull_print [of "[]" n] by simp
  have b: "strtoull 10 (print_u n @ [0x6b]) = (n, print_u n, [0x6b])" by (rule strtoull_print) (simp add: k)
  have "nextufs_parse_u64 (print_u n) = (if n < 2 ^ 64 then Some n else None)"
    using ne print_u_first [of n] a by (simp add: nextufs_parse_u64_def nextufs_parse_number_def)
  moreover have "nextufs_parse_size_bytes (print_u n @ [0x6b]) bare_unit =
     (if n = 0 \<or> 2 ^ 64 \<le> n * 1024 then None else Some (n * 1024))"
    using ne print_u_first [of n] b
    by (auto simp: nextufs_parse_size_bytes_def size_multiplier_def u64_def not_less)
  ultimately show ?thesis by blast
qed

section \<open>JSON strings are valid and faithful\<close>

text \<open>Unicode scalar values and their UTF-8 encoding.\<close>

definition scalar :: "nat \<Rightarrow> bool" where
  "scalar cp \<longleftrightarrow> cp < 0xd800 \<or> 0xe000 \<le> cp \<and> cp < 0x110000"

definition byte_of :: "nat \<Rightarrow> byte" where
  "byte_of n = word_of_nat n"

definition utf8_encode :: "nat \<Rightarrow> byte list" where
  "utf8_encode cp =
     (if cp < 0x80 then [byte_of cp]
      else if cp < 0x800 then [byte_of (0xc0 + cp div 64), byte_of (0x80 + cp mod 64)]
      else if cp < 0x10000 then
        [byte_of (0xe0 + cp div 64 div 64), byte_of (0x80 + cp div 64 mod 64), byte_of (0x80 + cp mod 64)]
      else [byte_of (0xf0 + cp div 64 div 64 div 64), byte_of (0x80 + cp div 64 div 64 mod 64),
        byte_of (0x80 + cp div 64 mod 64), byte_of (0x80 + cp mod 64)])"

definition utf8_text :: "nat list \<Rightarrow> byte list" where
  "utf8_text cps = concat (map utf8_encode cps)"

text \<open>A reader of JSON strings, after the opening quotation mark.\<close>

definition json_escape :: "byte \<Rightarrow> byte option" where
  "json_escape e =
     (if e = 0x22 \<or> e = 0x5c \<or> e = 0x2f then Some e
      else if e = 0x6e then Some 10 else if e = 0x72 then Some 13 else if e = 0x74 then Some 9
      else if e = 0x62 then Some 8 else if e = 0x66 then Some 12 else None)"

function json_read :: "byte list \<Rightarrow> byte list option" where
  "json_read [] = None"
| "json_read (c # s) =
     (if c = 0x22 then if s = [] then Some [] else None
      else if c = 0x5c then
        (case s of
           [] \<Rightarrow> None
         | e # t \<Rightarrow>
             if e = 0x75 then
               if 4 \<le> length t \<and> list_all (\<lambda>d. digit_value d < 16) (take 4 t)
               then map_option ((@) (utf8_encode (digits_value 16 (take 4 t)))) (json_read (drop 4 t)) else None
             else case json_escape e of None \<Rightarrow> None | Some b \<Rightarrow> map_option ((#) b) (json_read t))
      else if unat c < 32 then None
      else map_option ((#) c) (json_read s))"
  by pat_completeness auto
termination by (relation "measure length") auto

lemma unat_byte_of: "n < 256 \<Longrightarrow> unat (byte_of n) = n"
  by (simp add: byte_of_def unsigned_of_nat take_bit_eq_mod)

lemma byte_of_unat [simp]: "byte_of (unat c) = c"
  by (simp add: byte_of_def)

lemma byte_eq_unat: "(c :: byte) = d \<longleftrightarrow> unat c = unat d"
  by (metis byte_of_unat)

lemma and_push_bit: "(n :: nat) AND push_bit k m = push_bit k (drop_bit k n AND m)"
  by (rule bit_eqI) (auto simp: bit_and_iff bit_push_bit_iff bit_drop_bit_eq)

lemma and_c0: "n < 256 \<Longrightarrow> (n :: nat) AND 192 = 64 * (n div 64)"
proof -
  assume n: "n < 256"
  note and_push_bit [of n 6 3]
  moreover have "drop_bit 6 n AND 3 = take_bit 2 (drop_bit 6 n)"
    using take_bit_eq_mask [of 2 "drop_bit 6 n"] by (simp add: mask_eq_exp_minus_1)
  moreover have "take_bit 2 (drop_bit 6 n) = n div 64"
    using n by (simp add: drop_bit_eq_div take_bit_eq_mod less_mult_imp_div_less)
  ultimately show ?thesis by (simp add: push_bit_eq_mult)
qed

lemma continuation_byte: "(w :: byte) AND 0xc0 = 0x80 \<longleftrightarrow> 128 \<le> unat w \<and> unat w < 192"
proof -
  have "unat (w AND 0xc0) = unat w AND 192" by (simp add: unsigned_and_eq)
  also have "\<dots> = 64 * (unat w div 64)" by (rule and_c0) simp
  finally have "w AND 0xc0 = 0x80 \<longleftrightarrow> 64 * (unat w div 64) = 128" by (simp add: byte_eq_unat)
  also have "\<dots> \<longleftrightarrow> 128 \<le> unat w \<and> unat w < 192"
  proof -
    have "64 * q + r = x \<Longrightarrow> r < 64 \<Longrightarrow> (64 * q = 128) = (128 \<le> x \<and> x < 192)" for q r x :: nat by arith
    from this [OF mult_div_mod_eq] show ?thesis by simp
  qed
  finally show ?thesis .
qed

text \<open>The test over the numbers of the bytes.\<close>

lemma utf8_start_unat:
  "utf8_start s \<longleftrightarrow> (let v = unat (s ! 0); n = utf8_length (s ! 0); u = unat (s ! 1) in
     n \<noteq> 0 \<and> n \<le> length s \<and> (\<forall>j \<in> {1, 2, 3}. j < n \<longrightarrow> 128 \<le> unat (s ! j) \<and> unat (s ! j) < 192) \<and>
     \<not> (v = 0xe0 \<and> u < 0xa0 \<or> v = 0xed \<and> 0xa0 \<le> u \<or> v = 0xf0 \<and> u < 0x90 \<or> v = 0xf4 \<and> 0x90 \<le> u))"
proof -
  have e: "c = 0xe0 \<longleftrightarrow> unat c = 0xe0" "c = 0xed \<longleftrightarrow> unat c = 0xed" "c = 0xf0 \<longleftrightarrow> unat c = 0xf0"
    "c = 0xf4 \<longleftrightarrow> unat c = 0xf4" for c :: byte
    by (simp_all add: byte_eq_unat)
  have "{1..<utf8_length (s ! 0)} = {j \<in> {1, 2, 3}. j < utf8_length (s ! 0)}"
    by (auto simp: utf8_length_def Let_def)
  then have "set [1..<utf8_length (s ! 0)] = {j \<in> {1, 2, 3}. j < utf8_length (s ! 0)}" by simp
  then show ?thesis unfolding utf8_start_def Let_def continuation_byte list_all_iff e by auto
qed

lemma pack6: "b < 64 \<Longrightarrow> (a * 64 + b) div 64 = a \<and> (a * 64 + b) mod 64 = (b :: nat)"
  by simp

text \<open>The code's test accepts exactly the encodings of scalar values above 127.\<close>

lemma utf8_start_encode:
  assumes "scalar cp" and "0x80 \<le> cp"
  shows "utf8_start (utf8_encode cp @ r) \<and> utf8_length (hd (utf8_encode cp)) = length (utf8_encode cp) \<and>
    128 \<le> unat (hd (utf8_encode cp))"
proof -
  note w = unat_byte_of
  have m: "cp mod 64 < 64" "cp div 64 mod 64 < 64" "cp div 64 div 64 mod 64 < 64" by simp_all
  note d = mult_div_mod_eq [of 64 cp] mult_div_mod_eq [of 64 "cp div 64"] mult_div_mod_eq [of 64 "cp div 64 div 64"]
  consider "cp < 0x800" | "0x800 \<le> cp" "cp < 0x10000" | "0x10000 \<le> cp" by linarith
  then show ?thesis
  proof cases
    case 1
    then have "2 \<le> cp div 64" "cp div 64 < 32" using assms(2) by linarith+
    with 1 assms(2) m show ?thesis
      by (auto simp: utf8_encode_def utf8_start_unat utf8_length_def w Let_def)
  next
    case 2
    then have "cp div 64 div 64 < 16" by linarith
    moreover have "cp div 64 div 64 = 0 \<Longrightarrow> 32 \<le> cp div 64 mod 64" using 2 m d by linarith
    moreover have "cp div 64 div 64 = 13 \<Longrightarrow> cp div 64 mod 64 < 32" using 2 m d assms(1) unfolding scalar_def by linarith
    ultimately show ?thesis using 2 m
      by (auto simp: utf8_encode_def utf8_start_unat utf8_length_def w Let_def)
  next
    case 3
    then have "cp div 64 div 64 div 64 < 5" using m d assms(1) unfolding scalar_def by linarith
    moreover have "cp div 64 div 64 div 64 = 0 \<Longrightarrow> 16 \<le> cp div 64 div 64 mod 64" using 3 m d by linarith
    moreover have "cp div 64 div 64 div 64 = 4 \<Longrightarrow> cp div 64 div 64 mod 64 < 16"
      using 3 m d assms(1) unfolding scalar_def by linarith
    ultimately show ?thesis using 3 m
      by (auto simp: utf8_encode_def utf8_start_unat utf8_length_def w Let_def)
  qed
qed


lemma utf8_start_decode:
  assumes "utf8_start s" and "s \<noteq> []"
  shows "\<exists>cp. scalar cp \<and> 0x80 \<le> cp \<and> take (utf8_length (s ! 0)) s = utf8_encode cp"
proof -
  let ?v = "unat (s ! 0)" and ?u = "unat (s ! 1)" and ?t = "unat (s ! 2)" and ?w = "unat (s ! 3)" and ?n = "utf8_length (s ! 0)"
  note f = assms(1) [unfolded utf8_start_unat Let_def]
  have n: "?n = 2 \<or> ?n = 3 \<or> ?n = 4" using f by (auto simp: utf8_length_def Let_def split: if_splits)
  have sp: "take ?n s = map (\<lambda>i. s ! i) [0..<?n]"
    using f by (intro nth_equalityI) auto
  have b: "byte_of (unat (s ! i)) = s ! i" for i by simp
  from n show ?thesis
  proof (elim disjE)
    assume n: "?n = 2"
    then have v: "0xc2 \<le> ?v" "?v \<le> 0xdf" by (auto simp: utf8_length_def Let_def split: if_splits)
    from f n have u: "128 \<le> ?u" "?u < 192" by auto
    let ?cp = "(?v - 0xc0) * 64 + (?u - 128)"
    have "?u - 128 < 64" using u by simp
    note d = pack6 [OF this, of "?v - 0xc0"]
    have r: "0x80 \<le> ?cp" "?cp < 0x800" using v u by linarith+
    have "utf8_encode ?cp = [byte_of ?v, byte_of ?u]" using v u d r by (simp add: utf8_encode_def)
    moreover have "take ?n s = [s ! 0, s ! 1]" using sp [unfolded n] n by (simp add: upt_rec numeral_eq_Suc)
    moreover have "scalar ?cp" "0x80 \<le> ?cp" using v u by (auto simp: scalar_def)
    ultimately show ?thesis by (intro exI [of _ ?cp]) simp
  next
    assume n: "?n = 3"
    then have v: "0xe0 \<le> ?v" "?v \<le> 0xef" by (auto simp: utf8_length_def Let_def split: if_splits)
    from f n have u: "128 \<le> ?u" "?u < 192" "128 \<le> ?t" "?t < 192" "?v = 0xe0 \<Longrightarrow> 0xa0 \<le> ?u" "?v = 0xed \<Longrightarrow> ?u < 0xa0"
      by auto
    let ?a = "(?v - 0xe0) * 64 + (?u - 128)"
    let ?cp = "?a * 64 + (?t - 128)"
    have "?u - 128 < 64" "?t - 128 < 64" using u by simp_all
    note d = pack6 [OF this(1), of "?v - 0xe0"] pack6 [OF this(2), of ?a]
    have r: "0x800 \<le> ?cp" "?cp < 0x10000" "scalar ?cp"
    proof -
      show "0x800 \<le> ?cp" using v u by (cases "?v = 0xe0") auto
      show "?cp < 0x10000" using v u by simp
      show "scalar ?cp" using v u by (cases "?v = 0xed"; cases "?v < 0xed") (auto simp: scalar_def)
    qed
    have "utf8_encode ?cp = [byte_of ?v, byte_of ?u, byte_of ?t]" using v u d r by (simp add: utf8_encode_def)
    moreover have "take ?n s = [s ! 0, s ! 1, s ! 2]" using sp [unfolded n] n by (simp add: upt_rec numeral_eq_Suc)
    ultimately show ?thesis using r by (intro exI [of _ ?cp]) simp
  next
    assume n: "?n = 4"
    then have v: "0xf0 \<le> ?v" "?v \<le> 0xf4" by (auto simp: utf8_length_def Let_def split: if_splits)
    from f n have u: "128 \<le> ?u" "?u < 192" "128 \<le> ?t" "?t < 192" "128 \<le> ?w" "?w < 192"
      "?v = 0xf0 \<Longrightarrow> 0x90 \<le> ?u" "?v = 0xf4 \<Longrightarrow> ?u < 0x90"
      by auto
    let ?a = "(?v - 0xf0) * 64 + (?u - 128)"
    let ?b = "?a * 64 + (?t - 128)"
    let ?cp = "?b * 64 + (?w - 128)"
    have "?u - 128 < 64" "?t - 128 < 64" "?w - 128 < 64" using u by simp_all
    note d = pack6 [OF this(1), of "?v - 0xf0"] pack6 [OF this(2), of ?a] pack6 [OF this(3), of ?b]
    have r: "0x10000 \<le> ?cp" "?cp < 0x110000"
    proof -
      show "0x10000 \<le> ?cp" using v u by (cases "?v = 0xf0") auto
      show "?cp < 0x110000" using v u by (cases "?v = 0xf4") auto
    qed
    have "utf8_encode ?cp = [byte_of ?v, byte_of ?u, byte_of ?t, byte_of ?w]" using v u d r by (simp add: utf8_encode_def)
    moreover have "take ?n s = [s ! 0, s ! 1, s ! 2, s ! 3]" using sp [unfolded n] n by (simp add: upt_rec numeral_eq_Suc)
    ultimately show ?thesis using r by (intro exI [of _ ?cp]) (simp add: scalar_def)
  qed
qed

lemma json_read_high:
  "list_all (\<lambda>c. 128 \<le> unat c) xs \<Longrightarrow> json_read (xs @ t) = map_option ((@) xs) (json_read t)"
proof (induction xs)
  case Nil
  then show ?case by (cases "json_read t") simp_all
next
  case (Cons c xs)
  then have "c \<noteq> 0x22" "c \<noteq> 0x5c" "\<not> unat c < 32" by (auto simp: byte_eq_unat)
  with Cons show ?case by (cases "json_read t") simp_all
qed

lemma encode_high: "scalar cp \<Longrightarrow> 0x80 \<le> cp \<Longrightarrow> list_all (\<lambda>c. 128 \<le> unat c) (utf8_encode cp)"
proof -
  assume a: "scalar cp" "0x80 \<le> cp"
  have "unat (byte_of n) = n mod 256" for n by (simp add: byte_of_def unsigned_of_nat take_bit_eq_mod)
  have m: "cp mod 64 < 64" "cp div 64 mod 64 < 64" "cp div 64 div 64 mod 64 < 64" by simp_all
  have "cp div 64 < 32" if "cp < 0x800" using that by linarith
  moreover have "cp div 64 div 64 < 16" if "cp < 0x10000" using that by linarith
  moreover have "cp div 64 div 64 div 64 < 5" using a(1) unfolding scalar_def by linarith
  ultimately show ?thesis using a m by (auto simp: utf8_encode_def unat_byte_of)
qed


lemma digits_value_zeros: "digits_value b (replicate k 48 @ ds) = digits_value b ds"
proof -
  have "foldl (\<lambda>v c. v * b + digit_value c) 0 (replicate k 48) = 0"
    by (induction k) (simp_all add: digit_value_def)
  then show ?thesis by (simp add: digits_value_def)
qed

lemma json_read_control:
  assumes "n < 32"
  shows "json_read (lit [CHR 0x5c, CHR ''u''] @ zero_pad 4 (print_x n) @ t) = map_option ((#) (byte_of n)) (json_read t)"
proof -
  have "length (print_x n) \<le> 2"
  proof -
    have "n div 16 < 16" using assms by simp
    then show ?thesis
      by (simp add: print_x_def print_base.simps [of 16 n] print_base.simps [of 16 "n div 16"])
  qed
  then have l: "length (zero_pad 4 (print_x n)) = 4" by (simp add: zero_pad_def)
  have z: "digit_value 48 < 16" by (simp add: digit_value_def)
  have "digits_value 16 (zero_pad 4 (print_x n)) = n" "list_all (\<lambda>c. digit_value c < 16) (zero_pad 4 (print_x n))"
    using print_base_digits [of 16 n] z by (auto simp: zero_pad_def print_x_def digits_value_zeros list_all_iff)
  moreover have "utf8_encode n = [byte_of n]" using assms by (simp add: utf8_encode_def)
  ultimately show ?thesis using l by (cases "json_read t") (simp_all add: lit_def)
qed

lemma json_read_replacement: "json_read (lit (CHR 0x5c # ''ufffd'') @ t) = map_option ((@) (utf8_encode 0xfffd)) (json_read t)"
  by (simp add: lit_def digits_value_def digit_value_def)

lemma utf8_text_Cons: "utf8_text (cp # cps) = utf8_encode cp @ utf8_text cps"
  by (simp add: utf8_text_def)

lemma encode_Cons: "utf8_encode cp \<noteq> []"
  by (simp add: utf8_encode_def)

lemma encode_low: "scalar cp \<Longrightarrow> unat (hd (utf8_encode cp)) < 128 \<Longrightarrow> utf8_encode cp = [hd (utf8_encode cp)] \<and> cp < 0x80"
proof (cases "cp < 0x80")
  case False
  assume a: "scalar cp" "unat (hd (utf8_encode cp)) < 128"
  from False have "0x80 \<le> cp" by simp
  from encode_high [OF a(1) this] encode_Cons [of cp] a(2) have False by (cases "utf8_encode cp") auto
  then show ?thesis ..
qed (simp add: utf8_encode_def)

text \<open>What one step of the writer means to the reader: the character \<open>cp\<close>, then the rest.\<close>

definition json_denotes :: "byte list \<Rightarrow> nat list \<Rightarrow> bool" where
  "json_denotes s cps \<longleftrightarrow> list_all scalar cps \<and> json_read (json_body s @ [0x22]) = Some (utf8_text cps) \<and>
     (\<forall>ds. list_all scalar ds \<and> s = utf8_text ds \<longrightarrow> utf8_text cps = s)"

lemma json_denotes_ascii:
  assumes "json_denotes rest cps" and "unat c < 128"
    and "json_read (json_body (c # rest) @ [0x22]) = map_option ((#) c) (json_read (json_body rest @ [0x22]))"
  shows "json_denotes (c # rest) (unat c # cps)"
proof -
  have e: "utf8_encode (unat c) = [c]" using assms(2) by (simp add: utf8_encode_def)
  have "utf8_text (unat c # cps) = c # rest" if d: "list_all scalar ds" "c # rest = utf8_text ds" for ds
  proof -
    from d encode_Cons obtain cp ds' where ds: "ds = cp # ds'" by (cases ds) (auto simp: utf8_text_def)
    have h: "hd (utf8_encode cp) = c"
      using d(2) encode_Cons [of cp] unfolding ds utf8_text_Cons by (cases "utf8_encode cp") auto
    from encode_low [of cp] d(1) h assms(2) ds have "utf8_encode cp = [c]" by simp
    with d ds have "rest = utf8_text ds'" "list_all scalar ds'" by (simp_all add: utf8_text_Cons)
    with assms(1) show ?thesis unfolding json_denotes_def by (auto simp: utf8_text_Cons e)
  qed
  moreover have "scalar (unat c)" using assms(2) by (simp add: scalar_def)
  ultimately show ?thesis using assms(1,3) unfolding json_denotes_def by (auto simp: utf8_text_Cons e)
qed

lemma json_denotes_high:
  assumes "json_denotes (drop (utf8_length c - 1) rest) cps" and "utf8_start (c # rest)"
    and "json_body (c # rest) = take (utf8_length c) (c # rest) @ json_body (drop (utf8_length c - 1) rest)"
  shows "\<exists>cp. json_denotes (c # rest) (cp # cps)"
proof -
  from utf8_start_decode [OF assms(2)] obtain cp where
    cp: "scalar cp" "0x80 \<le> cp" "take (utf8_length c) (c # rest) = utf8_encode cp" by auto
  have ln: "utf8_length c = length (utf8_encode cp)" "0 < utf8_length c"
    using assms(2) arg_cong [OF cp(3), of length] by (auto simp: utf8_start_def Let_def)
  have split: "c # rest = utf8_encode cp @ drop (utf8_length c - 1) rest"
  proof -
    have "drop (utf8_length c) (c # rest) = drop (utf8_length c - 1) rest" using ln(2) by (simp add: drop_Cons')
    with append_take_drop_id [of "utf8_length c" "c # rest"] show ?thesis unfolding cp(3) by simp
  qed
  have read: "json_read (json_body (c # rest) @ [0x22]) = Some (utf8_text (cp # cps))"
    using assms(1) json_read_high [OF encode_high [OF cp(1,2)]]
    unfolding assms(3) cp(3) json_denotes_def by (simp add: utf8_text_Cons)
  have "utf8_text (cp # cps) = c # rest" if d: "list_all scalar ds" "c # rest = utf8_text ds" for ds
  proof -
    from d encode_Cons obtain x ds' where ds: "ds = x # ds'" by (cases ds) (auto simp: utf8_text_def)
    have x: "scalar x" using d(1) ds by simp
    have h: "hd (utf8_encode x) = c"
      using d(2) encode_Cons [of x] unfolding ds utf8_text_Cons by (cases "utf8_encode x") auto
    have "128 \<le> unat c"
      using encode_high [OF cp(1,2)] split encode_Cons [of cp] by (cases "utf8_encode cp") auto
    then have "0x80 \<le> x" using h by (cases "x < 0x80") (auto simp: utf8_encode_def unat_byte_of)
    from utf8_start_encode [OF x this] h have "utf8_length c = length (utf8_encode x)" by simp
    then have "drop (utf8_length c - 1) rest = utf8_text ds'"
      using d(2) ln(2) unfolding ds utf8_text_Cons by (cases "utf8_encode x") auto
    with assms(1) d(1) ds have "utf8_text cps = drop (utf8_length c - 1) rest" by (auto simp: json_denotes_def)
    then show ?thesis using split by (simp add: utf8_text_Cons)
  qed
  with cp(1) assms(1) read show ?thesis unfolding json_denotes_def by (intro exI [of _ cp]) simp
qed

lemma json_denotes_replaced:
  assumes "json_denotes rest cps" and "128 \<le> unat c" and "\<not> utf8_start (c # rest)"
    and "json_body (c # rest) = lit (CHR 0x5c # ''ufffd'') @ json_body rest"
  shows "json_denotes (c # rest) (0xfffd # cps)"
proof -
  have False if d: "list_all scalar ds" "c # rest = utf8_text ds" for ds
  proof -
    from d encode_Cons obtain x ds' where ds: "ds = x # ds'" by (cases ds) (auto simp: utf8_text_def)
    have x: "scalar x" using d(1) ds by simp
    have h: "hd (utf8_encode x) = c"
      using d(2) encode_Cons [of x] unfolding ds utf8_text_Cons by (cases "utf8_encode x") auto
    then have "0x80 \<le> x" using assms(2) by (cases "x < 0x80") (auto simp: utf8_encode_def unat_byte_of)
    from utf8_start_encode [OF x this] d(2) assms(3) show False by (simp add: ds utf8_text_Cons)
  qed
  moreover have "json_read (json_body (c # rest) @ [0x22]) = Some (utf8_text (0xfffd # cps))"
    using assms(1) unfolding assms(4) append_assoc json_read_replacement json_denotes_def
    by (simp add: utf8_text_Cons)
  moreover have "scalar 0xfffd" by (simp add: scalar_def)
  ultimately show ?thesis using assms(1) unfolding json_denotes_def by auto
qed

lemma json_body_denotes: "\<exists>cps. json_denotes s cps"
proof (induction s rule: json_body.induct)
  case 1
  have "json_denotes [] []" by (simp add: json_denotes_def utf8_text_def)
  then show ?case ..
next
  case (2 c rest)
  consider "c = 0x22 \<or> c = 0x5c" | "c = 10" | "c = 13" | "c = 9"
    | "c \<noteq> 10" "c \<noteq> 13" "c \<noteq> 9" "unat c < 32"
    | "c \<noteq> 0x22" "c \<noteq> 0x5c" "\<not> unat c < 32" "unat c < 128"
    | "128 \<le> unat c" by linarith
  then show ?case
  proof cases
    case 1
    with 2(1) obtain cps where "json_denotes rest cps" by blast
    from json_denotes_ascii [OF this, of c] 1 show ?thesis
      by (cases "json_read (json_body rest @ [0x22])") (auto simp: json_escape_def)
  next
    case 2
    then obtain cps where "json_denotes rest cps" using "2.IH"(2) by auto
    from json_denotes_ascii [OF this, of c] 2 show ?thesis
      by (cases "json_read (json_body rest @ [0x22])") (auto simp: json_escape_def lit_def)
  next
    case 3
    then obtain cps where "json_denotes rest cps" using "2.IH"(3) by auto
    from json_denotes_ascii [OF this, of c] 3 show ?thesis
      by (cases "json_read (json_body rest @ [0x22])") (auto simp: json_escape_def lit_def)
  next
    case 4
    then obtain cps where "json_denotes rest cps" using "2.IH"(4) by auto
    from json_denotes_ascii [OF this, of c] 4 show ?thesis
      by (cases "json_read (json_body rest @ [0x22])") (auto simp: json_escape_def lit_def)
  next
    case 5
    then have ne: "c \<noteq> 0x22" "c \<noteq> 0x5c" by auto
    with 5 obtain cps where d: "json_denotes rest cps" using "2.IH"(5) by auto
    have "json_body (c # rest) = lit [CHR 0x5c, CHR ''u''] @ zero_pad 4 (print_x (unat c)) @ json_body rest"
      using 5 ne by simp
    then have "json_read (json_body (c # rest) @ [0x22]) = map_option ((#) c) (json_read (json_body rest @ [0x22]))"
      using json_read_control [OF 5(4), of "json_body rest @ [0x22]"] by simp
    with json_denotes_ascii [OF d, of c] 5(4) show ?thesis by auto
  next
    case 6
    then have ne: "c \<noteq> 10" "c \<noteq> 13" "c \<noteq> 9" by auto
    with 6 obtain cps where "json_denotes rest cps" using "2.IH"(6) by auto
    from json_denotes_ascii [OF this, of c] 6 ne show ?thesis by auto
  next
    case 7
    then have ne: "c \<noteq> 0x22" "c \<noteq> 0x5c" "c \<noteq> 10" "c \<noteq> 13" "c \<noteq> 9" "\<not> unat c < 32" "\<not> unat c < 128" by auto
    show ?thesis
    proof (cases "utf8_start (c # rest)")
      case True
      with ne obtain cps where d: "json_denotes (drop (utf8_length c - 1) rest) cps" using "2.IH"(7) by auto
      have "json_body (c # rest) = take (utf8_length c) (c # rest) @ json_body (drop (utf8_length c - 1) rest)"
        using ne True by simp
      from json_denotes_high [OF d True this] show ?thesis by blast
    next
      case False
      with ne obtain cps where d: "json_denotes rest cps" using "2.IH"(8) by auto
      have "json_body (c # rest) = lit (CHR 0x5c # ''ufffd'') @ json_body rest" using ne False by simp
      from json_denotes_replaced [OF d 7 False this] show ?thesis by blast
    qed
  qed
qed

text \<open>
  C26. Whatever bytes a name or a path holds, what the report prints for it is a JSON string whose
  content is Unicode text; and when the bytes are UTF-8, the content is exactly these bytes.
\<close>

theorem json_string_faithful:
  "\<exists>cps. list_all scalar cps \<and> hd (nextufs_report_json_string s) = 0x22 \<and>
    json_read (tl (nextufs_report_json_string s)) = Some (utf8_text cps) \<and>
    (\<forall>ds. list_all scalar ds \<and> s = utf8_text ds \<longrightarrow> utf8_text cps = s)"
  using json_body_denotes [of s] by (auto simp: nextufs_report_json_string_def json_denotes_def)


theorem json_string_faithful_witness:
  "json_read (tl (nextufs_report_json_string (utf8_text [0x22, 0xe9, 0x20ac, 0x1f600, 7]))) =
     Some (utf8_text [0x22, 0xe9, 0x20ac, 0x1f600, 7])"
proof -
  have "list_all scalar [0x22, 0xe9, 0x20ac, 0x1f600, 7]" by (simp add: scalar_def)
  with json_string_faithful [of "utf8_text [0x22, 0xe9, 0x20ac, 0x1f600, 7]"] show ?thesis by auto
qed

section \<open>Sizes\<close>

lemma isdigit_value: "digit_value c < 10 \<longleftrightarrow> isdigit c"
  by (auto simp: isdigit_def digit_value_def Let_def)

lemma multiplier_positive: "size_multiplier u e = Some m \<Longrightarrow> 0 < m"
  by (auto simp: size_multiplier_def split: list.splits if_splits)

text \<open>
  C27. A size is accepted exactly when it is decimal digits followed by nothing or by one of the
  suffixes, is not zero, and its number of bytes fits 64 bits; the result is that number, no product
  wraps around.
\<close>

theorem parse_size_exact:
  "nextufs_parse_size_bytes s bare_unit = Some n \<longleftrightarrow>
     (\<exists>m. takeWhile isdigit s \<noteq> [] \<and> size_multiplier bare_unit (dropWhile isdigit s) = Some m \<and>
        n = digits_value 10 (takeWhile isdigit s) * m \<and> 0 < n \<and> n < 2 ^ 64)"
proof -
  let ?ds = "takeWhile isdigit s" and ?e = "dropWhile isdigit s"
  have st: "strtoull 10 s = (digits_value 10 ?ds, ?ds, ?e)"
    by (simp add: strtoull_def strtoull_base_def isdigit_value Let_def)
  have dig: "s = [] \<or> \<not> isdigit (hd s) \<longleftrightarrow> ?ds = []" by (cases s) auto
  have range: "(v = 0 \<or> (2 ^ 64 - 1) div m < v) = (\<not> (0 < v * m \<and> v * m < 2 ^ 64))" if "0 < m" for v m :: nat
    using that less_eq_div_iff_mult_less_eq [OF that, of v "2 ^ 64 - 1"] by auto
  show ?thesis
  proof (cases "size_multiplier bare_unit ?e")
    case None
    then show ?thesis by (simp add: nextufs_parse_size_bytes_def st)
  next
    case (Some m)
    from range [OF multiplier_positive [OF Some], of "digits_value 10 ?ds"]
    have "nextufs_parse_size_bytes s bare_unit = Some n \<longleftrightarrow> ?ds \<noteq> [] \<and> digits_value 10 ?ds < 2 ^ 64 \<and>
        0 < digits_value 10 ?ds * m \<and> digits_value 10 ?ds * m < 2 ^ 64 \<and> n = digits_value 10 ?ds * m"
      using Some unfolding nextufs_parse_size_bytes_def dig st by (auto simp: u64_def not_le)
    moreover have "v < 2 ^ 64" if "v * m < 2 ^ 64" for v
      using that multiplier_positive [OF Some] by (metis le_less_trans mult_le_mono2 nat_mult_1_right Suc_leI One_nat_def)
    ultimately show ?thesis using Some by auto
  qed
qed

end
