(* ===== verification/Resize.thy ===== *)
theory Resize
  imports Image_Open Report
begin

text \<open>
  The growth of a file system, \<^verbatim>\<open>src/commands/resize.c\<close>: the plan computed from the requested size,
  the evacuation of data from where the summary area has to grow, the cylinder groups that are
  extended, reserved from and built, the superblocks, and the frame that puts the file back when a
  step fails. What is printed is left out. The image is a plain file, the only kind the command
  accepts, so the state is that of the raw backend.
\<close>

section \<open>Addresses and counts\<close>

definition CSUM_SIZE :: nat where "CSUM_SIZE = 16"
definition SB_SIZE_OFF :: nat where "SB_SIZE_OFF = 0x24"
definition SB_DSIZE_OFF :: nat where "SB_DSIZE_OFF = 0x28"
definition SB_NCG_OFF :: nat where "SB_NCG_OFF = 0x2c"
definition SB_CSADDR_OFF :: nat where "SB_CSADDR_OFF = 0x98"
definition SB_CSSIZE_OFF :: nat where "SB_CSSIZE_OFF = 0x9c"
definition SB_NCYL_OFF :: nat where "SB_NCYL_OFF = 0xb0"
definition CG_CGX_OFF :: nat where "CG_CGX_OFF = 12"
definition CG_NCYL_OFF :: nat where "CG_NCYL_OFF = 16"
definition CG_NIBLK_OFF :: nat where "CG_NIBLK_OFF = 18"

definition u64_sub :: "nat \<Rightarrow> nat \<Rightarrow> nat" where
  "u64_sub v w = nat ((int v - int w) mod 2 ^ 64)"

definition int32_bits :: "int \<Rightarrow> nat" where
  "int32_bits x = nat (x mod 2 ^ 32)"

definition cgstart :: "nextufs_superblock \<Rightarrow> nat \<Rightarrow> nat" where
  "cgstart s cg = nextufs__cgstart s cg"

definition cgsblock :: "nextufs_superblock \<Rightarrow> nat \<Rightarrow> nat" where
  "cgsblock s cg = u64 (cgstart s cg + sb_off s)"

definition cgtod :: "nextufs_superblock \<Rightarrow> nat \<Rightarrow> nat" where
  "cgtod s cg = u64 (cgstart s cg + cg_off s)"

definition cgimin :: "nextufs_superblock \<Rightarrow> nat \<Rightarrow> nat" where
  "cgimin s cg = u64 (cgstart s cg + ino_off s)"

definition cgdmin :: "nextufs_superblock \<Rightarrow> nat \<Rightarrow> nat" where
  "cgdmin s cg = u64 (cgstart s cg + data_off s)"

definition cg_frag_count :: "nextufs_superblock \<Rightarrow> nat \<Rightarrow> nat \<Rightarrow> nat" where
  "cg_frag_count s cg fs_frags =
     (let remaining = u64_sub fs_frags (u64 (cg * frags_per_group s))
      in if remaining < frags_per_group s then u32 remaining else frags_per_group s)"

definition cg_cylinder_count :: "nextufs_superblock \<Rightarrow> nat \<Rightarrow> nat \<Rightarrow> nat \<Rightarrow> nat" where
  "cg_cylinder_count s cg ncg cyls = u16 (if cg = u32_sub ncg 1 then cyls mod cpg s else cpg s)"

definition cbtocylno :: "nextufs_superblock \<Rightarrow> nat \<Rightarrow> nat" where
  "cbtocylno s cg_local_frag = u32 (cg_local_frag * sectors_per_frag s) div sectors_per_cyl s"

definition cbtorpos :: "nextufs_superblock \<Rightarrow> nat \<Rightarrow> nat" where
  "cbtorpos s cg_local_frag =
     u32 (u32 (cg_local_frag * sectors_per_frag s) mod sectors_per_cyl s mod sectors_per_track s * NRPOS)
       div sectors_per_track s"

text \<open>The byte offset of a fragment address, as the calls cast it.\<close>

definition frag_bytes :: "nextufs_superblock \<Rightarrow> nat \<Rightarrow> int" where
  "frag_bytes s frag = to_off (u64 (frag * frag_size s))"

section \<open>The free map of a group\<close>

definition set_frag_bit :: "byte list \<Rightarrow> nat \<Rightarrow> byte list" where
  "set_frag_bit b frag = b[CG_FREE_OFF + frag div 8 := b ! (CG_FREE_OFF + frag div 8) OR push_bit (frag mod 8) 1]"

definition frag_bit_is_set :: "byte list \<Rightarrow> nat \<Rightarrow> bool" where
  "frag_bit_is_set b frag \<longleftrightarrow> b ! (CG_FREE_OFF + frag div 8) AND push_bit (frag mod 8) 1 \<noteq> 0"

definition clear_frag_bit :: "byte list \<Rightarrow> nat \<Rightarrow> byte list" where
  "clear_frag_bit b frag = b[CG_FREE_OFF + frag div 8 := b ! (CG_FREE_OFF + frag div 8) AND NOT (push_bit (frag mod 8) 1)]"

text \<open>The two loops are those of the allocator.\<close>

definition count_free_runs_in_block :: "byte list \<Rightarrow> nat \<Rightarrow> nat \<Rightarrow> nat list" where
  "count_free_runs_in_block b block_frag_base fpb =
     count_runs b CG_FREE_OFF block_frag_base fpb 0 (replicate (fpb + 1) 0)"

definition apply_frsum_delta :: "byte list \<Rightarrow> nat list \<Rightarrow> nat list \<Rightarrow> nat \<Rightarrow> byte list" where
  "apply_frsum_delta cg_buf before after fpb =
     fold (\<lambda>i buf. let frsum_off = 52 + i * 4; delta = int (after ! i) - int (before ! i) in
       if delta \<noteq> 0 then bump_be32 buf frsum_off delta else buf) [1..<fpb] cg_buf"

definition count_free_bits :: "byte list \<Rightarrow> nat \<Rightarrow> nat \<Rightarrow> nat" where
  "count_free_bits b start count = length (filter (\<lambda>i. frag_bit_is_set b (start + i)) [0..<count])"

text \<open>The rotational tables, moved by one block.\<close>

definition bump_tables :: "nextufs_superblock \<Rightarrow> byte list \<Rightarrow> nat \<Rightarrow> int \<Rightarrow> byte list" where
  "bump_tables s cg_buf block_base d =
     (let cylno = cbtocylno s block_base; rotpos = cbtorpos s block_base in
      if cylno < 32 \<and> rotpos < NRPOS
      then bump_be16 (bump_be32 cg_buf (CG_BTOT_OFF + cylno * 4) d) (CG_BPOS_OFF + (cylno * NRPOS + rotpos) * 2) d
      else cg_buf)"

fun set_frag_bits :: "byte list \<Rightarrow> nat list \<Rightarrow> byte list option" where
  "set_frag_bits b [] = Some b"
| "set_frag_bits b (i # rest) = (if frag_bit_is_set b i then None else set_frag_bits (set_frag_bit b i) rest)"

text \<open>
  The loop steps from block to block. A step has the buffer and the changes of the counts of whole
  blocks and of fragments, which the caller adds to the group in the end.
\<close>

definition next_block :: "nextufs_superblock \<Rightarrow> nat \<Rightarrow> nat \<Rightarrow> nat" where
  "next_block s end start = min end (start - start mod frags_per_block s + frags_per_block s)"

lemma next_block_greater: "0 < frags_per_block s \<Longrightarrow> start < end \<Longrightarrow> start < next_block s end start"
proof -
  assume "0 < frags_per_block s" "start < end"
  moreover from this have "start mod frags_per_block s < frags_per_block s" by simp
  moreover have "start mod frags_per_block s \<le> start" by simp
  ultimately show ?thesis unfolding next_block_def by linarith
qed

definition add_free_block ::
  "nextufs_superblock \<Rightarrow> nat \<Rightarrow> nat \<Rightarrow> byte list \<Rightarrow> errno + byte list \<times> int \<times> int" where
  "add_free_block s start add_end cg_buf =
     (let frags = frags_per_block s;
          block_base = start - start mod frags;
          before = count_free_runs_in_block cg_buf block_base frags in
      case set_frag_bits cg_buf [start..<add_end] of
        None \<Rightarrow> Inl EINVAL
      | Some buf \<Rightarrow>
          let after = count_free_runs_in_block buf block_base frags;
              buf = apply_frsum_delta buf before after frags;
              d_nffree = int (add_end - start) in
          if count_free_bits buf block_base frags = frags
          then Inr (bump_tables s buf block_base 1, 1, d_nffree - int frags)
          else Inr (buf, 0, d_nffree))"

function add_free_blocks ::
  "nextufs_superblock \<Rightarrow> nat \<Rightarrow> nat \<Rightarrow> byte list \<Rightarrow> int \<Rightarrow> int \<Rightarrow> errno + byte list \<times> int \<times> int" where
  "add_free_blocks s end start cg_buf d_nbfree d_nffree =
     (if end \<le> start \<or> frags_per_block s = 0 then Inr (cg_buf, d_nbfree, d_nffree)
      else case add_free_block s start (next_block s end start) cg_buf of
        Inl e \<Rightarrow> Inl e
      | Inr (cg_buf, nb, nf) \<Rightarrow> add_free_blocks s end (next_block s end start) cg_buf (d_nbfree + nb) (d_nffree + nf))"
  by pat_completeness auto
termination
proof (relation "measure (\<lambda>(s, end, start, cg_buf, nb, nf). end - start)", goal_cases)
  case (2 s "end" start)
  then show ?case using next_block_greater [of s start "end"] by auto
qed simp

declare add_free_blocks.simps [simp del]

definition add_free_frag_range ::
  "nextufs_superblock \<Rightarrow> byte list \<Rightarrow> nat \<Rightarrow> nat \<Rightarrow> errno + byte list \<times> int \<times> int" where
  "add_free_frag_range s cg_buf start end =
     (if end < start \<or> frags_per_group s < end then Inl EINVAL
      else if frags_per_block s = 0 \<or> 8 < frags_per_block s then Inl ENOTSUP
      else add_free_blocks s end start cg_buf 0 0)"

section \<open>Writes inside the slice\<close>

function write_zeroes_from :: "int \<Rightarrow> nat \<Rightarrow> nat \<Rightarrow> ('c nextufs_image, unit) io" where
  "write_zeroes_from offset len done img =
     (if len \<le> done then (Inr (), img)
      else let chunk = (if 8192 < len - done then 8192 else len - done) in
        bind_io (nextufs_image_pwrite (replicate chunk 0) (offset + int done))
          (\<lambda>_. write_zeroes_from offset len (done + chunk)) img)"
  by pat_completeness auto
termination
  by (relation "measure (\<lambda>(offset, len, done, img). len - done)") (auto split: if_splits)

declare write_zeroes_from.simps [simp del]

definition write_zeroes :: "int \<Rightarrow> nat \<Rightarrow> ('c nextufs_image, unit) io" where
  "write_zeroes offset len = write_zeroes_from offset len 0"

definition write_csum_entry_at :: "nat \<Rightarrow> nat \<Rightarrow> int \<Rightarrow> int \<Rightarrow> int \<Rightarrow> int \<Rightarrow> ('c nextufs_image, unit) io" where
  "write_csum_entry_at csum_addr cg ndir nbfree nifree nffree = bind_io get_io (\<lambda>img.
     let buf = replicate CSUM_SIZE 0;
         buf = nextufs__write_be32 buf 0 (int32_bits ndir);
         buf = nextufs__write_be32 buf 4 (int32_bits nbfree);
         buf = nextufs__write_be32 buf 8 (int32_bits nifree);
         buf = nextufs__write_be32 buf 12 (int32_bits nffree)
     in nextufs_image_pwrite buf (frag_bytes (sb img) csum_addr + int (cg * CSUM_SIZE)))"

definition write_csum_entry :: "nat \<Rightarrow> int \<Rightarrow> int \<Rightarrow> int \<Rightarrow> int \<Rightarrow> ('c nextufs_image, unit) io" where
  "write_csum_entry cg ndir nbfree nifree nffree = bind_io get_io (\<lambda>img.
     write_csum_entry_at (cyl_summary_addr (sb img)) cg ndir nbfree nifree nffree)"

text \<open>The group in the buffer and its entry in the summary area.\<close>

definition write_group :: "nat \<Rightarrow> byte list \<Rightarrow> ('c nextufs_image, unit) io" where
  "write_group cg cg_buf = bind_io get_io (\<lambda>img.
     bind_io (nextufs_image_pwrite cg_buf (frag_bytes (sb img) (cgtod (sb img) cg))) (\<lambda>_.
     write_csum_entry cg (int (nextufs__read_be32 cg_buf CG_CS_NDIR_OFF)) (int (nextufs__read_be32 cg_buf CG_CS_NBFREE_OFF))
       (int (nextufs__read_be32 cg_buf CG_CS_NIFREE_OFF)) (int (nextufs__read_be32 cg_buf CG_CS_NFFREE_OFF))))"

section \<open>Growing the summary area\<close>

definition summary_frags :: "nextufs_superblock \<Rightarrow> nat \<Rightarrow> nat" where
  "summary_frags s bytes = u32 (bytes + frag_size s - 1) div frag_size s"

text \<open>The loop that takes the fragments from \<open>pos\<close> to \<open>end\<close>, block by block, as long as they are free.\<close>

definition take_block ::
  "nextufs_superblock \<Rightarrow> nat \<Rightarrow> nat \<Rightarrow> byte list \<Rightarrow> errno + byte list \<times> int \<times> int" where
  "take_block s pos clear_end cg_buf =
     (let fpb = frags_per_block s; block_base = pos - pos mod fpb in
      if 8 < fpb then Inl ENOTSUP
      else if \<not> list_all (frag_bit_is_set cg_buf) [pos..<clear_end] then Inl ENOSPC
      else
        let before_free = count_free_bits cg_buf block_base fpb;
            before_runs = count_free_runs_in_block cg_buf block_base fpb;
            buf = fold (\<lambda>i b. clear_frag_bit b i) [pos..<clear_end] cg_buf;
            after_free = count_free_bits buf block_base fpb;
            after_runs = count_free_runs_in_block buf block_base fpb;
            buf = apply_frsum_delta buf before_runs after_runs fpb in
        if before_free = fpb \<and> after_free \<noteq> fpb
        then Inr (bump_tables s buf block_base (- 1), - 1, int after_free)
        else Inr (buf, 0, int after_free - int before_free))"

function take_blocks ::
  "nextufs_superblock \<Rightarrow> nat \<Rightarrow> nat \<Rightarrow> byte list \<Rightarrow> int \<Rightarrow> int \<Rightarrow> errno + byte list \<times> int \<times> int" where
  "take_blocks s end pos cg_buf d_nbfree d_nffree =
     (if end \<le> pos \<or> frags_per_block s = 0 then Inr (cg_buf, d_nbfree, d_nffree)
      else case take_block s pos (next_block s end pos) cg_buf of
        Inl e \<Rightarrow> Inl e
      | Inr (cg_buf, nb, nf) \<Rightarrow> take_blocks s end (next_block s end pos) cg_buf (d_nbfree + nb) (d_nffree + nf))"
  by pat_completeness auto
termination
proof (relation "measure (\<lambda>(s, end, pos, cg_buf, nb, nf). end - pos)", goal_cases)
  case (2 s "end" pos)
  then show ?case using next_block_greater [of s pos "end"] by auto
qed simp

declare take_blocks.simps [simp del]

definition cg_reserved :: "byte list \<Rightarrow> int \<Rightarrow> int \<Rightarrow> nat \<Rightarrow> byte list" where
  "cg_reserved cg_buf d_nbfree d_nffree now =
     (let cg_buf = bump_be32 cg_buf CG_CS_NBFREE_OFF d_nbfree;
          cg_buf = bump_be32 cg_buf CG_CS_NFFREE_OFF d_nffree
      in nextufs__write_be32 cg_buf CG_TIME_OFF now)"

definition reserve_summary_extension :: "nat \<Rightarrow> ('c nextufs_image, int \<times> int) io" where
  "reserve_summary_extension new_cssize = bind_io get_io (\<lambda>img.
     let s = sb img in
     if new_cssize \<le> csum_size s then ret (0, 0)
     else
       let pos = u32 (cyl_summary_addr s + summary_frags s (csum_size s));
           end = u32 (cyl_summary_addr s + summary_frags s new_cssize) in
       if frags_per_group s < end then fail ENOTSUP
       else
         bind_io (malloc_io (cg_size s)) (\<lambda>_.
         bind_io (nextufs_image_pread (cg_size s) (frag_bytes s (cgtod s 0))) (\<lambda>cg_buf.
         bind_io (lift_res (take_blocks s end pos cg_buf 0 0)) (\<lambda>(cg_buf, d_nbfree, d_nffree).
         bind_io time_io (\<lambda>now.
         bind_io (write_group 0 (cg_reserved cg_buf d_nbfree d_nffree now)) (\<lambda>_. ret (d_nbfree, d_nffree)))))))"

definition inode_direct_frags :: "nextufs_superblock \<Rightarrow> nextufs_inode \<Rightarrow> nat \<Rightarrow> nat" where
  "inode_direct_frags s ino slot =
     (let off = slot * block_size s in
      if i_size ino \<le> off then 0
      else let remaining = i_size ino - off; bytes = min remaining (block_size s)
        in (bytes + frag_size s - 1) div frag_size s)"

definition frag_ranges_overlap :: "nat \<Rightarrow> nat \<Rightarrow> nat \<Rightarrow> nat \<Rightarrow> bool" where
  "frag_ranges_overlap a_start a_frags b_start b_frags \<longleftrightarrow>
     a_start < u32 (b_start + b_frags) \<and> b_start < u32 (a_start + a_frags)"

text \<open>The result tells whether the run was moved, with the inode as it is then.\<close>

definition move_direct_fragment_run ::
  "nat \<Rightarrow> nextufs_inode \<Rightarrow> nat \<Rightarrow> nat \<Rightarrow> nat \<Rightarrow> nat \<Rightarrow> ('c nextufs_image, bool \<times> nextufs_inode) io" where
  "move_direct_fragment_run inode_no ino slot frags protect_start protect_frags = bind_io get_io (\<lambda>img.
     let s = sb img; old_frag = i_db ino ! slot; bytes = frags * frag_size s in
     if frags = 0 \<or> old_frag = 0 \<or> \<not> frag_ranges_overlap old_frag frags protect_start protect_frags
     then ret (False, ino)
     else
       bind_io (malloc_io bytes) (\<lambda>_.
       bind_io (nextufs_image_pread bytes (frag_bytes s old_frag)) (\<lambda>buf.
       let preferred_cg = old_frag div frags_per_group s;
           preferred_cg = (if 1 < cg_count s then (preferred_cg + 1) mod cg_count s else preferred_cg) in
       bind_io (nextufs__allocate_frags_anycg preferred_cg frags) (\<lambda>new_frag.
       if frag_ranges_overlap new_frag frags protect_start protect_frags
       then bind_io (try_io (nextufs__free_fragment_run new_frag frags)) (\<lambda>_. fail ENOSPC)
       else
         bind_io (try_io (nextufs_image_pwrite buf (frag_bytes s new_frag))) (\<lambda>rc. case rc of
           Inl e \<Rightarrow> bind_io (try_io (nextufs__free_fragment_run new_frag frags)) (\<lambda>_. fail e)
         | Inr _ \<Rightarrow>
             bind_io time_io (\<lambda>now.
             let ino = ino\<lparr>i_db := (i_db ino)[slot := new_frag], i_ctime := now\<rparr> in
             bind_io (nextufs__write_inode_raw inode_no ino) (\<lambda>_.
             bind_io (nextufs__free_fragment_run old_frag frags) (\<lambda>_.
             ret (True, ino)))))))))"

fun move_slots :: "nat \<Rightarrow> nat \<Rightarrow> nat \<Rightarrow> nat list \<Rightarrow> nextufs_inode \<Rightarrow> nat \<Rightarrow> ('c nextufs_image, nat) io" where
  "move_slots inode_no protect_start protect_frags [] ino moves = ret moves"
| "move_slots inode_no protect_start protect_frags (slot # slots) ino moves = bind_io get_io (\<lambda>img.
     bind_io (move_direct_fragment_run inode_no ino slot (inode_direct_frags (sb img) ino slot) protect_start protect_frags)
       (\<lambda>(moved, ino). move_slots inode_no protect_start protect_frags slots ino (if moved then u32 (moves + 1) else moves)))"

fun evacuate_inodes :: "nat \<Rightarrow> nat \<Rightarrow> nat list \<Rightarrow> nat \<Rightarrow> ('c nextufs_image, nat) io" where
  "evacuate_inodes protect_start protect_frags [] moves = ret moves"
| "evacuate_inodes protect_start protect_frags (inode_no # rest) moves = bind_io get_io (\<lambda>img.
     bind_io (nextufs_inode_read inode_no) (\<lambda>(ino, ino_off).
     if i_mode ino = 0 \<or> i_nlink ino = 0 then evacuate_inodes protect_start protect_frags rest moves
     else if list_ex (\<lambda>slot. i_ib ino ! slot \<noteq> 0 \<and>
         frag_ranges_overlap (i_ib ino ! slot) (frags_per_block (sb img)) protect_start protect_frags) [0..<3]
     then fail ENOTSUP
     else bind_io (move_slots inode_no protect_start protect_frags [0..<12] ino moves)
       (evacuate_inodes protect_start protect_frags rest)))"

definition evacuate_summary_extension_range :: "nat \<Rightarrow> ('c nextufs_image, nat) io" where
  "evacuate_summary_extension_range new_cssize = bind_io get_io (\<lambda>img.
     let s = sb img in
     if new_cssize \<le> csum_size s then ret 0
     else
       let old_summary_frags = summary_frags s (csum_size s);
           protect_start = u32 (cyl_summary_addr s + old_summary_frags);
           protect_frags = u32_sub (summary_frags s new_cssize) old_summary_frags in
       if frags_per_group s < u32 (protect_start + protect_frags) then fail ENOTSUP
       else evacuate_inodes protect_start protect_frags [0..<u32 (cg_count s * inodes_per_group s)] 0)"

section \<open>Groups\<close>

text \<open>The group that was the last one, whose end moves.\<close>

definition cg_extended :: "byte list \<Rightarrow> nat \<Rightarrow> nat \<Rightarrow> int \<Rightarrow> int \<Rightarrow> nat \<Rightarrow> byte list" where
  "cg_extended cg_buf cyls end nbfree nffree now =
     (let cg_buf = nextufs__write_be16 cg_buf CG_NCYL_OFF cyls;
          cg_buf = nextufs__write_be32 cg_buf CG_NDBLK_OFF end;
          cg_buf = bump_be32 cg_buf CG_CS_NBFREE_OFF nbfree;
          cg_buf = bump_be32 cg_buf CG_CS_NFFREE_OFF nffree
      in nextufs__write_be32 cg_buf CG_TIME_OFF now)"

definition expand_old_last_cg :: "nat \<Rightarrow> nat \<Rightarrow> nat \<Rightarrow> nat \<Rightarrow> ('c nextufs_image, int \<times> int \<times> nat) io" where
  "expand_old_last_cg cg old_frags target_frags cyls = bind_io get_io (\<lambda>img.
     let s = sb img; cbase = u64 (frags_per_group s * cg) in
     if old_frags \<le> cbase \<or> cbase + frags_per_group s < old_frags \<or> target_frags < old_frags then fail EINVAL
     else
       let start = u32 (old_frags - cbase); end = cg_frag_count s cg target_frags in
       bind_io (malloc_io (cg_size s)) (\<lambda>_.
       bind_io (nextufs_image_pread (cg_size s) (frag_bytes s (cgtod s cg))) (\<lambda>cg_buf.
       bind_io (lift_res (add_free_frag_range s cg_buf start end)) (\<lambda>(cg_buf, nbfree, nffree).
       bind_io time_io (\<lambda>now.
       bind_io (write_group cg (cg_extended cg_buf cyls end nbfree nffree now)) (\<lambda>_.
       ret (nbfree, nffree, u32_sub end start)))))))"

text \<open>A new group in the buffer, with its free blocks, free inodes and free fragments.\<close>

definition new_cg_header :: "nextufs_superblock \<Rightarrow> nat \<Rightarrow> nat \<Rightarrow> nat \<Rightarrow> nat \<Rightarrow> byte list" where
  "new_cg_header s cg cyls ndblk now =
     (let buf = replicate (cg_size s) 0;
          buf = nextufs__write_be32 buf CG_TIME_OFF now;
          buf = nextufs__write_be32 buf CG_CGX_OFF cg;
          buf = nextufs__write_be16 buf CG_NCYL_OFF cyls;
          buf = nextufs__write_be16 buf CG_NIBLK_OFF (u16 (inodes_per_group s));
          buf = nextufs__write_be32 buf CG_NDBLK_OFF ndblk;
          buf = nextufs__write_be32 buf CG_IROTOR_OFF 0
      in nextufs__write_be32 buf CG_MAGIC_OFF CG_MAGIC)"

definition build_new_cg ::
  "nextufs_superblock \<Rightarrow> nat \<Rightarrow> nat \<Rightarrow> nat \<Rightarrow> nat \<Rightarrow> errno + byte list \<times> int \<times> int \<times> int" where
  "build_new_cg s cg cyls ndblk now =
     (let cbase = u64 (frags_per_group s * cg);
          dlower = u32 (u64_sub (cgsblock s cg) cbase);
          dupper = u32 (u64_sub (cgdmin s cg) cbase) in
      if frags_per_group s < ndblk \<or> ndblk < dupper then Inl ENOSPC
      else case add_free_frag_range s (new_cg_header s cg cyls ndblk now) 0 dlower of
        Inl e \<Rightarrow> Inl e
      | Inr (buf, nbfree, nffree) \<Rightarrow> (case add_free_frag_range s buf dupper ndblk of
          Inl e \<Rightarrow> Inl e
        | Inr (buf, range_nbfree, range_nffree) \<Rightarrow>
            let nbfree = nbfree + range_nbfree; nffree = nffree + range_nffree;
                buf = nextufs__write_be32 buf CG_CS_NBFREE_OFF (int32_bits nbfree);
                buf = nextufs__write_be32 buf CG_CS_NIFREE_OFF (inodes_per_group s);
                buf = nextufs__write_be32 buf CG_CS_NFFREE_OFF (int32_bits nffree)
            in Inr (buf, nbfree, int (inodes_per_group s), nffree)))"
section \<open>The superblocks\<close>

definition patched_superblock ::
  "nextufs_superblock \<Rightarrow> byte list \<Rightarrow> nat \<Rightarrow> nat \<Rightarrow> nat \<Rightarrow> nat \<Rightarrow> nat \<Rightarrow> nat \<Rightarrow> nat \<Rightarrow> int \<Rightarrow> int \<Rightarrow> int \<Rightarrow> byte list" where
  "patched_superblock s old_sb now new_ncg new_ncyl new_frag_count new_dsize new_csum_addr new_cssize add_nbfree add_nifree add_nffree =
     (let sb = take (super_size s) old_sb;
          sb = nextufs__write_be32 sb SB_TIME_OFF now;
          sb = nextufs__write_be32 sb SB_SIZE_OFF new_frag_count;
          sb = nextufs__write_be32 sb SB_DSIZE_OFF new_dsize;
          sb = nextufs__write_be32 sb SB_NCG_OFF new_ncg;
          sb = nextufs__write_be32 sb SB_CSADDR_OFF new_csum_addr;
          sb = nextufs__write_be32 sb SB_CSSIZE_OFF new_cssize;
          sb = nextufs__write_be32 sb SB_NCYL_OFF new_ncyl;
          sb = nextufs__write_be32 sb SB_NBFREE_OFF (u32_add (free_block_count s) add_nbfree);
          sb = nextufs__write_be32 sb SB_NIFREE_OFF (u32_add (free_inode_count s) add_nifree);
          sb = nextufs__write_be32 sb SB_NFFREE_OFF (u32_add (free_frag_count s) add_nffree)
      in nextufs__write_be32 sb SB_NDIR_OFF (dir_count s))"

fun write_group_superblocks :: "byte list \<Rightarrow> nat list \<Rightarrow> ('c nextufs_image, unit) io" where
  "write_group_superblocks buf [] = ret ()"
| "write_group_superblocks buf (cg # rest) = bind_io get_io (\<lambda>img.
     bind_io (nextufs_image_pwrite buf (frag_bytes (sb img) (cgsblock (sb img) cg))) (\<lambda>_.
     write_group_superblocks buf rest))"

definition patch_and_write_superblocks ::
  "byte list \<Rightarrow> nat \<Rightarrow> nat \<Rightarrow> nat \<Rightarrow> nat \<Rightarrow> nat \<Rightarrow> nat \<Rightarrow> int \<Rightarrow> int \<Rightarrow> int \<Rightarrow> ('c nextufs_image, unit) io" where
  "patch_and_write_superblocks old_sb new_ncg new_ncyl new_frag_count new_dsize new_csum_addr new_cssize add_nbfree add_nifree add_nffree =
     bind_io get_io (\<lambda>img.
     bind_io (malloc_io (super_size (sb img))) (\<lambda>_.
     bind_io time_io (\<lambda>now.
     let buf = patched_superblock (sb img) old_sb now new_ncg new_ncyl new_frag_count new_dsize new_csum_addr new_cssize
                 add_nbfree add_nifree add_nffree in
     bind_io (nextufs_image_pwrite buf (int UFS_SBLOCK_OFFSET)) (\<lambda>_.
     write_group_superblocks buf [0..<new_ncg]))))"

section \<open>The plan\<close>

text \<open>
  \<open>stat\<close> of the path is a parameter, its size or an error. A container is closed again and refused.
\<close>

definition open_supported_image ::
  "(bool \<Rightarrow> ('c nextufs_image, unit) io) \<Rightarrow> errno + nat \<Rightarrow> bool \<Rightarrow> ('c nextufs_image, nat) io" where
  "open_supported_image init st rw = (case st of
       Inl e \<Rightarrow> fail e
     | Inr backing_size \<Rightarrow>
         bind_io (nextufs_image_open_source init (if rw then NEXTUFS_OPEN_READ_WRITE else NEXTUFS_OPEN_READ_ONLY)) (\<lambda>_.
         bind_io get_io (\<lambda>img.
         if source_is_container img then close_with ENOTSUP else ret backing_size)))"

definition validate_labeled_grow_layout :: "(nextufs_raw_backend nextufs_image, unit) io" where
  "validate_labeled_grow_layout = bind_io get_io (\<lambda>img.
     if \<not> used_disk_label img then ret ()
     else ctx_io (nextufs_label_validate_single_slice_fd (slice_base img)))"

definition patch_label_partition_size :: "nat \<Rightarrow> (nextufs_raw_backend nextufs_image, unit) io" where
  "patch_label_partition_size new_slice = bind_io get_io (\<lambda>img.
     if \<not> used_disk_label img then ret ()
     else bind_io (ctx_io (nextufs_label_patch_slice_size_fd (slice_base img) new_slice)) (\<lambda>_. ret ()))"

text \<open>The new size of the slice; the command stops when it is not larger than the present one.\<close>

definition grow_target :: "'c nextufs_image \<Rightarrow> nat \<Rightarrow> nat option" where
  "grow_target img target_backing =
     (if used_disk_label img \<and> target_backing \<le> of_off (slice_base img) then None
      else
        let target_slice = (if used_disk_label img then target_backing - of_off (slice_base img) else target_backing)
        in if target_slice \<le> of_off (slice_size img) then None else Some target_slice)"

record grow_plan =
  gp_frags :: nat
  gp_ncg :: nat
  gp_ncyl :: nat
  gp_cssize :: nat

definition plan_grow :: "nextufs_superblock \<Rightarrow> nat \<Rightarrow> grow_plan option" where
  "plan_grow s target_slice =
     (if target_slice mod frag_size s \<noteq> 0 then None
      else
        let target_frags = target_slice div frag_size s;
            new_ncg64 = (target_frags + frags_per_group s - 1) div frags_per_group s;
            new_ncyl64 = (target_frags * cpg s + frags_per_group s - 1) div frags_per_group s;
            new_cssize64 = (new_ncg64 * CSUM_SIZE + frag_size s - 1) div frag_size s * frag_size s in
        if 2 ^ 32 \<le> target_frags then None
        else if new_ncg64 < cg_count s \<or> 2 ^ 32 \<le> new_ncg64 then None
        else if new_ncyl64 = 0 \<or> 2 ^ 32 \<le> new_ncyl64 then None
        else if 2 ^ 32 \<le> new_cssize64 then None
        else if list_ex (\<lambda>cg. cg_frag_count s cg target_frags < u32 (u64_sub (cgdmin s cg) (u64 (frags_per_group s * cg))))
                 [cg_count s..<new_ncg64]
        then None
        else Some \<lparr>gp_frags = target_frags, gp_ncg = new_ncg64, gp_ncyl = new_ncyl64, gp_cssize = new_cssize64\<rparr>)"

section \<open>Growing\<close>

text \<open>The counts that the new superblock gets: data fragments, and the changes of the free counts.\<close>

record grow_totals =
  gt_dsize :: nat
  gt_nbfree :: int
  gt_nifree :: int
  gt_nffree :: int

definition extend_last_group :: "grow_plan \<Rightarrow> grow_totals \<Rightarrow> ('c nextufs_image, grow_totals) io" where
  "extend_last_group p t = bind_io get_io (\<lambda>img.
     let s = sb img; old_last_cg = u32_sub (cg_count s) 1;
         old_last_ncyl = cg_cylinder_count s old_last_cg (gp_ncg p) (gp_ncyl p) in
     bind_io (expand_old_last_cg old_last_cg (frag_count s) (gp_frags p) old_last_ncyl) (\<lambda>(nbfree, nffree, dsize).
     ret (t\<lparr>gt_nbfree := gt_nbfree t + nbfree, gt_nffree := gt_nffree t + nffree, gt_dsize := u32 (gt_dsize t + dsize)\<rparr>)))"

definition extend_summary :: "grow_plan \<Rightarrow> grow_totals \<Rightarrow> ('c nextufs_image, grow_totals) io" where
  "extend_summary p t = bind_io get_io (\<lambda>img.
     let s = sb img; new_cssize = gp_cssize p in
     if new_cssize \<le> csum_size s then ret t
     else
       bind_io (reserve_summary_extension new_cssize) (\<lambda>(reserve_nbfree, reserve_nffree).
       bind_io (write_zeroes (to_off (u64 (cyl_summary_addr s * frag_size s + csum_size s))) (new_cssize - csum_size s)) (\<lambda>_.
       ret (t\<lparr>gt_nbfree := gt_nbfree t + reserve_nbfree, gt_nffree := gt_nffree t + reserve_nffree,
              gt_dsize := u32_sub (gt_dsize t) (u32_sub (summary_frags s new_cssize) (summary_frags s (csum_size s)))\<rparr>))))"

definition add_group :: "grow_plan \<Rightarrow> nat \<Rightarrow> grow_totals \<Rightarrow> ('c nextufs_image, grow_totals) io" where
  "add_group p cg t = bind_io get_io (\<lambda>img.
     let s = sb img; cg_base = u64 (frags_per_group s * cg); cg_ndblk = cg_frag_count s cg (gp_frags p);
         cyls = cg_cylinder_count s cg (gp_ncg p) (gp_ncyl p) in
     bind_io time_io (\<lambda>now.
     bind_io (lift_res (build_new_cg s cg cyls cg_ndblk now)) (\<lambda>(cg_buf, cg_nbfree, cg_nifree, cg_nffree).
     bind_io (write_zeroes (frag_bytes s (cgimin s cg)) (inodes_per_group s * 128)) (\<lambda>_.
     bind_io (nextufs_image_pwrite cg_buf (frag_bytes s (cgtod s cg))) (\<lambda>_.
     bind_io (write_csum_entry cg 0 cg_nbfree cg_nifree cg_nffree) (\<lambda>_.
     let cg_dlower = u32 (u64_sub (cgsblock s cg) cg_base); cg_dupper = u32 (u64_sub (cgdmin s cg) cg_base) in
     ret (t\<lparr>gt_dsize := u32 (gt_dsize t + (cg_dlower + u32_sub cg_ndblk cg_dupper)), gt_nbfree := gt_nbfree t + cg_nbfree,
            gt_nifree := gt_nifree t + cg_nifree, gt_nffree := gt_nffree t + cg_nffree\<rparr>)))))))"

fun add_groups :: "grow_plan \<Rightarrow> nat list \<Rightarrow> grow_totals \<Rightarrow> ('c nextufs_image, grow_totals) io" where
  "add_groups p [] t = ret t"
| "add_groups p (cg # rest) t = bind_io (add_group p cg t) (add_groups p rest)"

text \<open>The clean mark is written with the undo log out of the way, so that a failure of it is still undone.\<close>

definition finish_under_log :: "('c nextufs_image, unit) io" where
  "finish_under_log = bind_io get_io (\<lambda>img.
     bind_io (modify_io (\<lambda>img. img\<lparr>transaction := None\<rparr>)) (\<lambda>_.
     bind_io (try_io (nextufs__write_finish True)) (\<lambda>rc.
     bind_io (modify_io (\<lambda>i. i\<lparr>transaction := transaction img\<rparr>)) (\<lambda>_. lift_res rc))))"

text \<open>The steps after the file has its new length, up to the first that fails.\<close>

definition record_label_area :: "('c nextufs_image, unit) io" where
  "record_label_area = bind_io get_io (\<lambda>img.
     if used_disk_label img then nextufs__transaction_record (of_off (slice_base img)) 0 else ret ())"

definition grow_groups :: "grow_plan \<Rightarrow> byte list \<Rightarrow> ('c nextufs_image, unit) io" where
  "grow_groups p old_sb = bind_io get_io (\<lambda>img.
     bind_io (extend_last_group p \<lparr>gt_dsize = data_frag_count (sb img), gt_nbfree = 0, gt_nifree = 0, gt_nffree = 0\<rparr>) (\<lambda>t.
     bind_io (extend_summary p t) (\<lambda>t.
     bind_io (add_groups p [cg_count (sb img)..<gp_ncg p] t) (\<lambda>t.
     bind_io (patch_and_write_superblocks old_sb (gp_ncg p) (gp_ncyl p) (u32 (gp_frags p)) (gt_dsize t)
       (cyl_summary_addr (sb img)) (gp_cssize p) (gt_nbfree t) (gt_nifree t) (gt_nffree t)) (\<lambda>_.
     nextufs__image_fsync)))))"

definition grow_steps :: "nat \<Rightarrow> grow_plan \<Rightarrow> byte list \<Rightarrow> (nextufs_raw_backend nextufs_image, unit) io" where
  "grow_steps target_slice p old_sb =
     bind_io record_label_area (\<lambda>_.
     bind_io (patch_label_partition_size target_slice) (\<lambda>_.
     bind_io (grow_groups p old_sb) (\<lambda>_.
     finish_under_log)))"

text \<open>
  How an attempt ends: the file system has grown; the command stops before the file has its new length;
  a later step failed, with the number that is printed; data was moved and the command begins anew, or stops
  because the file system cannot be marked as clean after the moves. The command does not print whether
  closing the image could undo what the log holds; the argument of \<open>Grow_refused\<close> keeps it for the proofs.
\<close>

datatype grow_exit = Grow_done | Grow_refused bool | Grow_failed errno | Grow_again | Grow_moved

definition rollback_incomplete :: "'c nextufs_image \<Rightarrow> bool" where
  "rollback_incomplete img \<longleftrightarrow> transaction img \<noteq> None \<and> fst (nextufs__transaction_end (Inl ECANCELED :: errno + unit) img) = Inl EUCLEAN"

definition refuse :: "('c nextufs_image, grow_exit) io" where
  "refuse = bind_io get_io (\<lambda>img. bind_io nextufs_image_close (\<lambda>_. ret (Grow_refused (rollback_incomplete img))))"

definition or_refuse :: "('c nextufs_image, 'a) io \<Rightarrow> ('a \<Rightarrow> ('c nextufs_image, grow_exit) io) \<Rightarrow> ('c nextufs_image, grow_exit) io" where
  "or_refuse m f = bind_io (try_io m) (\<lambda>r. case r of Inl e \<Rightarrow> refuse | Inr x \<Rightarrow> f x)"

definition grow_fail :: "errno \<Rightarrow> nat \<Rightarrow> (nextufs_raw_backend nextufs_image, grow_exit) io" where
  "grow_fail e backing_size =
     bind_io (try_io (nextufs__transaction_end (Inl e :: errno + unit))) (\<lambda>ended.
     let rc = (case ended of Inl e \<Rightarrow> e | Inr _ \<Rightarrow> e) in
     bind_io (if rc = EUCLEAN then ret (Inr ()) else try_io (ctx_io (ftruncate_fd backing_size))) (\<lambda>cut.
     let rc = (if cut = Inr () then rc else EUCLEAN) in
     bind_io (try_io nextufs__image_fsync) (\<lambda>synced.
     let rc = (if synced = Inr () then rc else EUCLEAN) in
     bind_io (try_io (nextufs__write_finish (rc \<noteq> EUCLEAN))) (\<lambda>_.
     bind_io nextufs_image_close (\<lambda>_. ret (Grow_failed rc))))))"

text \<open>From the superblock that is read before the file gets its new length to the end.\<close>

definition grow_file :: "nat \<Rightarrow> nat \<Rightarrow> nat \<Rightarrow> grow_plan \<Rightarrow> (nextufs_raw_backend nextufs_image, grow_exit) io" where
  "grow_file target_backing target_slice backing_size p = bind_io get_io (\<lambda>img.
     bind_io (try_io (malloc_io (super_size (sb img)))) (\<lambda>old_sb_room.
     bind_io (try_io (malloc_io (cg_size (sb img)))) (\<lambda>cg_buf_room.
     if old_sb_room \<noteq> Inr () \<or> cg_buf_room \<noteq> Inr () then refuse
     else
       or_refuse (nextufs_image_pread (super_size (sb img)) (int UFS_SBLOCK_OFFSET)) (\<lambda>old_sb.
       or_refuse (ctx_io (ftruncate_fd target_backing)) (\<lambda>_.
       bind_io (modify_io (\<lambda>img. img\<lparr>image_size := to_off target_backing, slice_size := to_off target_slice\<rparr>)) (\<lambda>_.
       bind_io (try_io (grow_steps target_slice p old_sb)) (\<lambda>rc. case rc of
         Inl e \<Rightarrow> grow_fail e backing_size
       | Inr _ \<Rightarrow>
           bind_io (try_io (nextufs__transaction_end (Inr () :: errno + unit))) (\<lambda>_.
           bind_io nextufs_image_close (\<lambda>_. ret Grow_done))))))))) "

text \<open>After data was moved, what was done is kept and the command begins anew.\<close>

definition restart_grow :: "('c nextufs_image, grow_exit) io" where
  "restart_grow =
     or_refuse nextufs__image_fsync (\<lambda>_.
     bind_io (try_io (nextufs__transaction_end (Inr () :: errno + unit))) (\<lambda>_.
     bind_io (try_io (nextufs__write_finish True)) (\<lambda>rc.
     bind_io nextufs_image_close (\<lambda>_. ret (case rc of Inl _ \<Rightarrow> Grow_moved | Inr _ \<Rightarrow> Grow_again)))))"

definition grow_image :: "nat \<Rightarrow> nat \<Rightarrow> nat \<Rightarrow> grow_plan \<Rightarrow> (nextufs_raw_backend nextufs_image, grow_exit) io" where
  "grow_image target_backing target_slice backing_size p =
     or_refuse (bind_io nextufs__write_begin (\<lambda>_. nextufs__transaction_begin)) (\<lambda>_.
     bind_io get_io (\<lambda>img.
     let s = sb img in
     or_refuse (if csum_size s < gp_cssize p then evacuate_summary_extension_range (gp_cssize p) else ret 0) (\<lambda>moves.
     if moves \<noteq> 0 then restart_grow
     else if csum_size s < gp_cssize p \<and> frags_per_group s < u32 (cyl_summary_addr s + gp_cssize p div frag_size s)
     then refuse
     else grow_file target_backing target_slice backing_size p)))"

definition grow_opened :: "nat \<Rightarrow> nat \<Rightarrow> (nextufs_raw_backend nextufs_image, grow_exit) io" where
  "grow_opened target_backing backing_size = bind_io get_io (\<lambda>img.
     case grow_target img target_backing of
       None \<Rightarrow> refuse
     | Some target_slice \<Rightarrow>
         or_refuse validate_labeled_grow_layout (\<lambda>_.
         case plan_grow (sb img) target_slice of
           None \<Rightarrow> refuse
         | Some p \<Rightarrow> grow_image target_backing target_slice backing_size p))"

definition resize_attempt ::
  "(bool \<Rightarrow> (nextufs_raw_backend nextufs_image, unit) io) \<Rightarrow> errno + nat \<Rightarrow> byte list \<Rightarrow> bool \<Rightarrow>
   (nextufs_raw_backend nextufs_image, grow_exit) io" where
  "resize_attempt init st sectors_arg force =
     (case nextufs_parse_size_bytes sectors_arg NEXTUFS_BARE_SIZE_1K_SECTORS of
        None \<Rightarrow> ret (Grow_refused False)
      | Some target_backing \<Rightarrow>
          if target_backing mod NEXTUFS_KIB_BYTES \<noteq> 0 then ret (Grow_refused False)
          else if \<not> force \<and> NEXTUFS_COMPAT_MAX_BYTES < target_backing then ret (Grow_refused False)
          else bind_io (try_io (open_supported_image init st True)) (\<lambda>r. case r of
            Inl _ \<Rightarrow> ret (Grow_refused False)
          | Inr backing_size \<Rightarrow> grow_opened target_backing backing_size))"

text \<open>
  The exit code. Each element of the list is the environment of one attempt, what opens the file and
  its \<open>stat\<close>; \<open>None\<close> when the list is shorter than the attempts made.
\<close>

fun grow_command ::
  "((bool \<Rightarrow> (nextufs_raw_backend nextufs_image, unit) io) \<times> (errno + nat)) list \<Rightarrow> byte list \<Rightarrow> bool \<Rightarrow>
   nextufs_raw_backend nextufs_image \<Rightarrow> nat option \<times> nextufs_raw_backend nextufs_image" where
  "grow_command [] sectors_arg force img = (None, img)"
| "grow_command ((init, st) # later) sectors_arg force img =
     (case resize_attempt init st sectors_arg force img of
        (Inr Grow_again, img) \<Rightarrow> grow_command later sectors_arg force img
      | (Inr Grow_done, img) \<Rightarrow> (Some 0, img)
      | (_, img) \<Rightarrow> (Some 1, img))"

text \<open>The arguments: an exit code at once, or what to grow, to which size, and whether \<open>--force-size\<close> was given.\<close>

definition nextufs_resize_main :: "byte list list \<Rightarrow> nat + byte list \<times> byte list \<times> bool" where
  "nextufs_resize_main argv =
     (let argc = length argv; help = (\<lambda>a. a = [0x2d, 0x68] \<or> a = [0x2d, 0x2d, 0x68, 0x65, 0x6c, 0x70]);
          force_size = [0x2d, 0x2d, 0x66, 0x6f, 0x72, 0x63, 0x65, 0x2d, 0x73, 0x69, 0x7a, 0x65] in
      if argc < 2 then Inl 2
      else if argc = 2 \<and> help (argv ! 1) then Inl 0
      else if argv ! 1 = [0x67, 0x72, 0x6f, 0x77]
      then if argc = 3 \<and> help (argv ! 2) then Inl 0
        else let force = (2 < argc \<and> argv ! 2 = force_size); argi = (if force then 3 else 2) in
          if argc \<noteq> argi + 2 then Inl 2 else Inr (argv ! argi, argv ! (argi + 1), force)
      else Inl 2)"

end
