(* ===== verification/Resize_Undo.thy ===== *)
theory Resize_Undo
  imports Resize
begin

text \<open>
  The growth of a file system is undone when it fails: every step goes through the undo log, the label
  copies are patched in an area that was recorded before, and after the rollback the file gets its old
  length. Inside the interface \<open>backend\<close> for the steps, over a plain file for the frame.
\<close>

section \<open>Every step can be rolled back\<close>

context backend
begin

lemma image_pread_tx: "keeps (tx_inv ops disk binv D) (nextufs_image_pread n off)"
  unfolding nextufs_image_pread_def by (intro tx_rules)

lemma image_pwrite_tx: "keeps (tx_inv ops disk binv D) (nextufs_image_pwrite buf off)"
  unfolding nextufs_image_pwrite_def by (intro tx_rules)

lemma image_pread_effect:
  assumes "image_on ops disk binv img" and "nextufs_image_pread n off img = (r, img')"
  shows "image_on ops disk binv img' \<and> disk (backend_ctx img') = disk (backend_ctx img) \<and> static img' = static img \<and>
    transaction img' = transaction img"
proof (cases "off < 0 \<or> of_off (slice_size img) < nat off \<or> of_off (slice_size img) - nat off < n")
  case True
  with assms show ?thesis by (auto simp: nextufs_image_pread_def io_defs split: if_splits)
next
  case False
  with assms(2) have "nextufs__read_exact n (slice_base img + off) img = (r, img')"
    by (simp add: nextufs_image_pread_def io_defs split: if_splits)
  from read_exact_effect [OF assms(1) this] show ?thesis by blast
qed

lemma write_zeroes_from_tx: "keeps (tx_inv ops disk binv D) (write_zeroes_from offset n done)"
proof (induction "n - done" arbitrary: "done" rule: less_induct)
  case less
  show ?case
  proof (cases "n \<le> done")
    case True
    then show ?thesis by (auto simp: keeps_def write_zeroes_from.simps)
  next
    case False
    let ?c = "if 8192 < n - done then 8192 else n - done"
    have eq: "write_zeroes_from offset n done =
        bind_io (nextufs_image_pwrite (replicate ?c 0) (offset + int done)) (\<lambda>_. write_zeroes_from offset n (done + ?c))"
      using False by (intro ext, subst write_zeroes_from.simps) (simp only: Let_def if_False)
    have "n - (done + ?c) < n - done" using False by auto
    from less.hyps [OF this] show ?thesis unfolding eq by (intro keeps_bind image_pwrite_tx)
  qed
qed

lemma write_zeroes_tx: "keeps (tx_inv ops disk binv D) (write_zeroes offset n)"
  unfolding write_zeroes_def by (rule write_zeroes_from_tx)

lemma write_csum_tx: "keeps (tx_inv ops disk binv D) (write_csum_entry cg a b c d)"
  unfolding write_csum_entry_def write_csum_entry_at_def Let_def by (intro tx_rules image_pwrite_tx)

lemma write_group_tx: "keeps (tx_inv ops disk binv D) (write_group cg buf)"
  unfolding write_group_def by (intro tx_rules image_pwrite_tx write_csum_tx)

lemmas grow_tx_rules = alloc_tx_rules image_pread_tx image_pwrite_tx write_zeroes_tx write_csum_tx write_group_tx

lemma reserve_extension_tx: "keeps (tx_inv ops disk binv D) (reserve_summary_extension n)"
  unfolding reserve_summary_extension_def Let_def by (intro grow_tx_rules)

lemma move_run_tx: "keeps (tx_inv ops disk binv D) (move_direct_fragment_run i ino slot n ps pf)"
  unfolding move_direct_fragment_run_def Let_def by (intro grow_tx_rules)

lemma move_slots_tx: "keeps (tx_inv ops disk binv D) (move_slots i ps pf slots ino moves)"
proof (induction slots arbitrary: ino moves)
  case (Cons slot slots)
  show ?case by (simp only: move_slots.simps) (intro grow_tx_rules move_run_tx Cons)
qed (simp only: move_slots.simps keeps_ret)

lemma evacuate_inodes_tx: "keeps (tx_inv ops disk binv D) (evacuate_inodes ps pf is moves)"
proof (induction "is" arbitrary: moves)
  case (Cons i "is")
  show ?case by (simp only: evacuate_inodes.simps) (intro grow_tx_rules move_slots_tx Cons)
qed (simp only: evacuate_inodes.simps keeps_ret)

lemma evacuate_tx: "keeps (tx_inv ops disk binv D) (evacuate_summary_extension_range n)"
  unfolding evacuate_summary_extension_range_def Let_def by (intro grow_tx_rules evacuate_inodes_tx)

lemma expand_tx: "keeps (tx_inv ops disk binv D) (expand_old_last_cg cg a b c)"
  unfolding expand_old_last_cg_def Let_def by (intro grow_tx_rules)

lemma extend_last_tx: "keeps (tx_inv ops disk binv D) (extend_last_group p t)"
  unfolding extend_last_group_def Let_def by (intro grow_tx_rules expand_tx)

lemma extend_summary_tx: "keeps (tx_inv ops disk binv D) (extend_summary p t)"
  unfolding extend_summary_def Let_def by (intro grow_tx_rules reserve_extension_tx)

lemma add_group_tx: "keeps (tx_inv ops disk binv D) (add_group p cg t)"
  unfolding add_group_def Let_def by (intro grow_tx_rules)

lemma add_groups_tx: "keeps (tx_inv ops disk binv D) (add_groups p cgs t)"
proof (induction cgs arbitrary: t)
  case (Cons cg cgs)
  show ?case by (simp only: add_groups.simps) (intro grow_tx_rules add_group_tx Cons)
qed (simp only: add_groups.simps keeps_ret)

lemma group_superblocks_tx: "keeps (tx_inv ops disk binv D) (write_group_superblocks buf cgs)"
proof (induction cgs)
  case (Cons cg cgs)
  show ?case by (simp only: write_group_superblocks.simps) (intro grow_tx_rules Cons)
qed (simp only: write_group_superblocks.simps keeps_ret)

lemma superblocks_tx: "keeps (tx_inv ops disk binv D) (patch_and_write_superblocks buf a b c d e f g h i)"
  unfolding patch_and_write_superblocks_def Let_def by (intro grow_tx_rules group_superblocks_tx)

lemma grow_groups_tx: "keeps (tx_inv ops disk binv D) (grow_groups p old_sb)"
  unfolding grow_groups_def by (intro grow_tx_rules extend_last_tx extend_summary_tx add_groups_tx superblocks_tx)

end

section \<open>The file gets longer\<close>

lemma overlay_extended: "off + length bs \<le> length xs \<Longrightarrow> overlay off bs (xs @ z) = overlay off bs xs @ z"
  by (simp add: overlay_def)

lemma undo_all_append:
  "list_all (entry_ok (length d)) recs \<Longrightarrow> undo_all recs (d @ z) = undo_all recs d @ z"
proof (induction recs)
  case (Cons e recs)
  obtain off b where e: "e = (off, b)" by (cases e)
  have "length (undo_all recs d) = length d" using Cons.prems by (intro length_undo_all) simp
  then show ?case using Cons e by (simp add: undo_all_def overlay_extended)
qed (simp add: undo_all_def)

text \<open>After \<open>ftruncate\<close> to a larger size the log undoes the same writes, of the longer file.\<close>

lemma truncate_log:
  assumes "log_inv nextufs_raw_backend_ops content (\<lambda>_. True) D img" and "length D \<le> n" and "n < 2 ^ 63"
    and "ctx_io (ftruncate_fd n) img = (Inr (), img')"
  shows "log_inv nextufs_raw_backend_ops content (\<lambda>_. True) (D @ replicate (n - length D) 0)
    (img'\<lparr>image_size := int n, slice_size := x\<rparr>)"
proof -
  from assms(1) obtain tx recs where on: "raw_on img" and tx: "transaction img = Some tx" "tx_script tx = []"
      "tx_log tx = log_of recs" "tx_end tx = int (length (log_of recs))"
    and ok: "list_all (entry_ok (length D)) recs" and len: "length D = length (content (backend_ctx img))"
    and D: "undo_all recs (content (backend_ctx img)) = D"
    by (auto simp: log_inv_def)
  let ?z = "replicate (n - length D) 0 :: byte list"
  from assms(4) obtain f where f: "ftruncate_fd n (backend_ctx img) = (Inr (), f)" "img' = img\<lparr>backend_ctx := f\<rparr>"
    by (auto simp: ctx_io_def split: prod.splits)
  from f(1) len assms(2) have c: "content f = content (backend_ctx img) @ ?z"
    by (auto simp: ftruncate_fd_def split: list.splits sysres.splits)
  have "list_all (entry_ok (length (D @ ?z))) recs"
    using ok by (rule list.pred_mono_strong) auto
  moreover have "undo_all recs (content f) = D @ ?z" using undo_all_append [of "content (backend_ctx img)" recs ?z] ok len D c by simp
  ultimately show ?thesis
    using on tx len c assms(2,3) unfolding log_inv_def image_on_def f(2) by auto
qed

section \<open>The label copies\<close>

lemma patched_label_length:
  "patched_label label off base n = Inr (Some label') \<Longrightarrow> length label = LABEL_VALIDATE_SIZE \<Longrightarrow> length label' = LABEL_VALIDATE_SIZE"
  by (auto simp: patched_label_def Let_def partition_at_def label_root_def split: if_splits)

lemma label_offsets_below: "off \<in> set label_offsets \<Longrightarrow> off + LABEL_VALIDATE_SIZE \<le> NEXTUFS_LABEL_SCAN_LIMIT"
  by (auto simp: label_offsets_def)

text \<open>The patch stays where the labels are looked for.\<close>

lemma patch_one_inside:
  assumes "patch_one_label_partition_size off base n f = (r, f')" and "off + LABEL_VALIDATE_SIZE \<le> L" and "L \<le> length (content f)"
  shows "agree_outside 0 L (content f') (content f)"
proof -
  obtain q f1 where q: "nextufs__read_exact_fd LABEL_VALIDATE_SIZE (int off) f = (q, f1)"
    by (cases "nextufs__read_exact_fd LABEL_VALIDATE_SIZE (int off) f")
  note c1 = read_exact_fd_content [OF q]
  show ?thesis
  proof (cases "\<exists>label label'. q = Inr label \<and> patched_label label off base n = Inr (Some label')")
    case False
    with assms(1) q have "f' = f1"
      by (auto simp: patch_one_label_partition_size_def io_defs split: sum.splits option.splits)
    with c1 show ?thesis by simp
  next
    case True
    then obtain label label' where l: "q = Inr label" "patched_label label off base n = Inr (Some label')" by blast
    from read_exact_fd_Inr [OF q [unfolded l(1)]] have "length label = LABEL_VALIDATE_SIZE" by blast
    from patched_label_length [OF l(2) this] have len: "length label' = LABEL_VALIDATE_SIZE" .
    from assms(1) q l obtain r' where w: "nextufs__write_exact_fd label' (int off) f1 = (r', f')"
      by (auto simp: patch_one_label_partition_size_def io_defs split: prod.splits sum.splits)
    have "nat (int off) + length label' \<le> length (content f1)" using len assms(2,3) c1 by simp
    from write_exact_fd_inside [OF w this] have "agree_outside off (length label') (content f') (content f1)" by simp
    then have "agree_outside 0 L (content f') (content f1)"
      by (rule agree_outside_mono) (use len assms(2) in simp_all)
    with c1 show ?thesis by simp
  qed
qed

lemma patch_copies_inside:
  "patch_copies offs base n k f = (r, f') \<Longrightarrow> \<forall>off \<in> set offs. off + LABEL_VALIDATE_SIZE \<le> L \<Longrightarrow> L \<le> length (content f) \<Longrightarrow>
   agree_outside 0 L (content f') (content f)"
proof (induction offs arbitrary: k f)
  case Nil
  then show ?case by (simp add: io_defs)
next
  case (Cons off offs)
  obtain q f1 where q: "patch_one_label_partition_size off base n f = (q, f1)"
    by (cases "patch_one_label_partition_size off base n f")
  have a1: "agree_outside 0 L (content f1) (content f)" using patch_one_inside [OF q] Cons.prems(2,3) by simp
  show ?case
  proof (cases q)
    case (Inl e)
    with Cons.prems(1) q a1 show ?thesis by (simp add: io_defs)
  next
    case (Inr m)
    with Cons.prems(1) q have r: "patch_copies offs base n (k + (if m then 1 else 0)) f1 = (r, f')" by (simp add: bind_io_def)
    have "L \<le> length (content f1)" using Cons.prems(3) agree_outside_length [OF a1] by simp
    from Cons.IH [OF r _ this] Cons.prems(2) a1 show ?thesis by (auto intro: agree_outside_trans)
  qed
qed

lemma label_patch_inside:
  assumes "ctx_io (nextufs_label_patch_slice_size_fd base n) img = (r, img')" and "NEXTUFS_LABEL_SCAN_LIMIT \<le> length (content (backend_ctx img))"
  shows "\<exists>f. img' = img\<lparr>backend_ctx := f\<rparr> \<and> agree_outside 0 NEXTUFS_LABEL_SCAN_LIMIT (content f) (content (backend_ctx img))"
proof -
  obtain q f where p: "patch_copies label_offsets base n 0 (backend_ctx img) = (q, f)"
    by (cases "patch_copies label_offsets base n 0 (backend_ctx img)")
  have "agree_outside 0 NEXTUFS_LABEL_SCAN_LIMIT (content f) (content (backend_ctx img))"
    by (rule patch_copies_inside [OF p _ assms(2)]) (blast intro: label_offsets_below)
  moreover from assms(1) p have "img' = img\<lparr>backend_ctx := f\<rparr>"
    by (cases q) (auto simp: ctx_io_def nextufs_label_patch_slice_size_fd_def io_defs split: if_splits)
  ultimately show ?thesis by blast
qed

section \<open>The steps after the length is set\<close>

text \<open>
  \<open>undoable D img\<close>: undoing the log gives \<open>D\<close> up to the state byte, which the last step may have written
  past the log.
\<close>

definition undoable :: "byte list \<Rightarrow> nextufs_raw_backend nextufs_image \<Rightarrow> bool" where
  "undoable D img \<longleftrightarrow> (\<exists>D'. log_inv nextufs_raw_backend_ops content (\<lambda>_. True) D' img \<and>
     agree_outside (nat (state_off img)) 1 D' D)"

lemma undoableI: "log_inv nextufs_raw_backend_ops content (\<lambda>_. True) D img \<Longrightarrow> undoable D img"
  unfolding undoable_def by (blast intro: agree_outside_refl)

lemma log_inv_agree:
  assumes "log_inv nextufs_raw_backend_ops content (\<lambda>_. True) D img" and "raw_on img'" and "transaction img' = transaction img"
    and "agree_outside p n (content (backend_ctx img')) (content (backend_ctx img))"
  shows "\<exists>D'. log_inv nextufs_raw_backend_ops content (\<lambda>_. True) D' img' \<and> agree_outside p n D' D"
proof -
  from assms(1) obtain tx recs where
    tx: "transaction img = Some tx" "tx_script tx = []" "tx_log tx = log_of recs" "tx_end tx = int (length (log_of recs))"
    and ok: "list_all (entry_ok (length D)) recs" and len: "length D = length (content (backend_ctx img))"
    and D: "undo_all recs (content (backend_ctx img)) = D"
    by (auto simp: log_inv_def)
  let ?D = "undo_all recs (content (backend_ctx img'))"
  note len' = agree_outside_length [OF assms(4)]
  have lenD: "length ?D = length (content (backend_ctx img'))" using ok len len' by (simp add: length_undo_all)
  have "log_inv nextufs_raw_backend_ops content (\<lambda>_. True) ?D img'"
    unfolding log_inv_def using assms(2,3) tx ok lenD len len' by auto
  moreover have "agree_outside p n ?D D" using undo_all_agree [OF assms(4), of recs] ok len len' D by simp
  ultimately show ?thesis by blast
qed

lemma finish_under_log_undoable:
  assumes "log_inv nextufs_raw_backend_ops content (\<lambda>_. True) D img" and "finish_under_log img = (r, img')"
  shows "undoable D img' \<and> slice_base img' = slice_base img"
proof -
  let ?i = "img\<lparr>transaction := None\<rparr>"
  obtain q i1 where q: "nextufs__write_finish True ?i = (q, i1)" by (cases "nextufs__write_finish True ?i")
  have img': "img' = i1\<lparr>transaction := transaction img\<rparr>" using assms(2) q by (auto simp: finish_under_log_def io_defs)
  have on: "raw_on img" using assms(1) raw.log_inv_on by blast
  have so: "state_off ?i = state_off img" by (simp add: state_off_def)
  have "byte_inv nextufs_raw_backend_ops content (\<lambda>_. True) (nat (state_off ?i)) (slice_base img) (tmpfile_script img)
      (content (backend_ctx img)) ?i"
    using on by (simp add: byte_inv_def)
  note b = raw.write_finish_byte [OF this q, THEN conjunct1, unfolded byte_inv_def so]
  then have "raw_on img'" "slice_base img' = slice_base img" "transaction img' = transaction img"
    "agree_outside (nat (state_off img')) 1 (content (backend_ctx img')) (content (backend_ctx img))"
    by (simp_all add: img' state_off_def image_on_def)
  with log_inv_agree [OF assms(1)] show ?thesis unfolding undoable_def by blast
qed

lemma bind_try: "m s = (r, t) \<Longrightarrow> bind_io (try_io m) f s = f r t"
  by (simp add: bind_io_def try_io_def)

lemma bind_ok: "m s = (Inr x, t) \<Longrightarrow> bind_io m f s = f x t"
  by (simp add: bind_io_def)

text \<open>The area before the slice is in the log when the label copies in it are patched.\<close>

lemma label_steps_log:
  assumes "log_inv nextufs_raw_backend_ops content (\<lambda>_. True) D img"
    and "used_disk_label img \<longrightarrow> int NEXTUFS_LABEL_SCAN_LIMIT \<le> slice_base img \<and> slice_base img \<le> int (length D)"
    and "bind_io record_label_area (\<lambda>_. patch_label_partition_size n) img = (r, img')"
  shows "log_inv nextufs_raw_backend_ops content (\<lambda>_. True) D img' \<and> static img' = static img"
proof (cases "used_disk_label img")
  case False
  with assms(1,3) show ?thesis by (simp add: record_label_area_def patch_label_partition_size_def io_defs)
next
  case True
  let ?n = "nat (slice_base img)"
  have on: "raw_on img" using assms(1) raw.log_inv_on by blast
  have L: "length D = length (content (backend_ctx img))" "length D < 2 ^ 63" "image_size img = int (length D)"
    using assms(1) on by (auto simp: log_inv_def image_on_def)
  from assms(2) True have sb: "0 \<le> slice_base img" "131072 \<le> ?n" "?n \<le> length D" by auto
  have "slice_base img \<le> int (length D)" "int (length D) < 9223372036854775808" using assms(2) True L(2) by simp_all
  with sb(1) have of: "of_off (slice_base img) = ?n" by (intro of_off_id) linarith+
  obtain q i1 where q: "nextufs__transaction_record ?n 0 img = (q, i1)" by (cases "nextufs__transaction_record ?n 0 img")
  have "\<not> range_bad img ?n 0" using sb(3) L by (simp add: range_bad_def)
  note rec = raw.transaction_record_effect [OF assms(1) this q]
  show ?thesis
  proof (cases q)
    case (Inl e)
    with assms(3) True q of have "img' = i1" by (simp add: record_label_area_def io_defs)
    with rec show ?thesis by simp
  next
    case (Inr u)
    have st: "static i1 = static img" using rec by blast
    have "used_disk_label (static i1) = used_disk_label (static img)" using st by simp
    then have ud: "used_disk_label i1" "slice_base i1 = slice_base img"
      using True staticD(3) [OF st] by (simp_all add: static_def)
    from rec Inr sb(2) obtain tx recs where tx: "transaction i1 = Some tx" "tx_script tx = []"
      "tx_log tx = log_of (recs @ [(0, bytes_at 0 ?n (content (backend_ctx img)))])" "tx_end tx = int (length (tx_log tx))"
      "list_all (entry_ok (length D)) recs" "undo_all recs (content (backend_ctx img)) = D" by auto
    from rec have c1: "content (backend_ctx i1) = content (backend_ctx img)" and l1: "raw_on i1"
      using raw.log_inv_on by blast+
    obtain q2 i2 where q2: "ctx_io (nextufs_label_patch_slice_size_fd (slice_base img) n) i1 = (q2, i2)"
      by (cases "ctx_io (nextufs_label_patch_slice_size_fd (slice_base img) n) i1")
    from assms(3) True q of Inr ud q2 have img': "img' = i2"
      by (cases q2) (auto simp: record_label_area_def patch_label_partition_size_def io_defs)
    have "131072 \<le> length (content (backend_ctx i1))" unfolding c1 L(1) [symmetric] using sb by linarith
    from label_patch_inside [OF q2 this] obtain f where f: "i2 = i1\<lparr>backend_ctx := f\<rparr>"
      "agree_outside 0 131072 (content f) (content (backend_ctx img))" using c1 by auto
    from f(2) have ag: "agree_outside 0 ?n (content f) (content (backend_ctx img))"
      by (rule agree_outside_mono) (use sb(2) in simp_all)
    note lenf = agree_outside_length [OF ag]
    let ?recs = "recs @ [(0, bytes_at 0 ?n (content (backend_ctx img)))]"
    have "undo_all ?recs (content f) = D"
      using overlay_restores [OF ag] sb(3) L(1) tx(6) by (simp add: undo_all_snoc)
    moreover have "list_all (entry_ok (length D)) ?recs" using tx(5) sb(3) L(1) by simp
    moreover have "raw_on i2" using l1 lenf c1 by (simp add: f(1) image_on_def)
    ultimately have "log_inv nextufs_raw_backend_ops content (\<lambda>_. True) D i2"
      using tx lenf L(1) unfolding log_inv_def f(1) by (auto intro!: exI [of _ ?recs])
    with img' st f(1) show ?thesis by simp
  qed
qed

lemma grow_steps_undoable:
  assumes "log_inv nextufs_raw_backend_ops content (\<lambda>_. True) D img"
    and "used_disk_label img \<longrightarrow> int NEXTUFS_LABEL_SCAN_LIMIT \<le> slice_base img \<and> slice_base img \<le> int (length D)"
    and "grow_steps n p old_sb img = (r, img')"
  shows "undoable D img' \<and> slice_base img' = slice_base img"
proof -
  obtain q i1 where q: "bind_io record_label_area (\<lambda>_. patch_label_partition_size n) img = (q, i1)"
    by (cases "bind_io record_label_area (\<lambda>_. patch_label_partition_size n) img")
  from label_steps_log [OF assms(1,2) q] have l1: "log_inv nextufs_raw_backend_ops content (\<lambda>_. True) D i1"
    and s1: "slice_base i1 = slice_base img" using staticD(3) by blast+
  have steps: "grow_steps n p old_sb img = bind_io (bind_io record_label_area (\<lambda>_. patch_label_partition_size n))
      (\<lambda>_. bind_io (grow_groups p old_sb) (\<lambda>_. finish_under_log)) img"
    by (simp add: grow_steps_def bind_io_def split: prod.split sum.split)
  show ?thesis
  proof (cases q)
    case (Inl e)
    with assms(3) q have "img' = i1" unfolding steps by (simp add: bind_io_def)
    with l1 s1 show ?thesis using undoableI by blast
  next
    case (Inr u)
    obtain q2 i2 where q2: "grow_groups p old_sb i1 = (q2, i2)" by (cases "grow_groups p old_sb i1")
    have "tx_inv nextufs_raw_backend_ops content (\<lambda>_. True) (D, static i1) i1" using l1 by (simp add: tx_inv_def)
    from keepsD [OF raw.grow_groups_tx this q2]
    have l2: "log_inv nextufs_raw_backend_ops content (\<lambda>_. True) D i2" and s2: "slice_base i2 = slice_base i1"
      using staticD(3) by (auto simp: tx_inv_def)
    show ?thesis
    proof (cases q2)
      case (Inl e)
      with assms(3) q Inr q2 have "img' = i2" unfolding steps by (simp add: bind_io_def)
      with l2 s1 s2 show ?thesis using undoableI by simp
    next
      case (Inr v)
      with assms(3) q \<open>q = Inr u\<close> q2 have "finish_under_log i2 = (r, img')" unfolding steps by (simp add: bind_io_def)
      from finish_under_log_undoable [OF l2 this] s1 s2 show ?thesis by simp
    qed
  qed
qed

section \<open>The failure of a step\<close>

text \<open>The state byte is all that changes once the file has its old length again; the recorded size is then stale.\<close>

definition only_state :: "nat \<Rightarrow> int \<Rightarrow> byte list \<Rightarrow> nextufs_raw_backend nextufs_image \<Rightarrow> bool" where
  "only_state p b D img \<longleftrightarrow> backend_ops img = Some nextufs_raw_backend_ops \<and> transaction img = None \<and> slice_base img = b \<and>
     p < length D \<and> agree_outside p 1 (content (backend_ctx img)) D"

lemma only_state_sync: "keeps (only_state p b D) nextufs__image_fsync"
  by (rule keepsI)
    (auto simp: only_state_def nextufs__image_fsync_def io_defs ctx_io_def nextufs_raw_backend_ops_def nextufs_raw_backend_fsync_def
      split: if_splits prod.splits dest: fsync_fd_content)

lemma only_state_write: "0 \<le> p \<Longrightarrow> keeps (only_state (nat p) b D) (nextufs__write_exact [x] p)"
proof (rule keepsI)
  fix img r img'
  assume p: "0 \<le> p" and i: "only_state (nat p) b D img" and r: "nextufs__write_exact [x] p img = (r, img')"
  show "only_state (nat p) b D img'"
  proof (cases "writable img \<and> \<not> range_bad img 1 p")
    case False
    with i r have "img' = img"
      by (auto simp: only_state_def nextufs__write_exact_def io_defs split: if_splits)
    with i show ?thesis by simp
  next
    case True
    obtain q f where w: "nextufs__write_exact_fd [x] p (backend_ctx img) = (q, f)"
      by (cases "nextufs__write_exact_fd [x] p (backend_ctx img)")
    from True i r w have img': "img' = img\<lparr>backend_ctx := f\<rparr>"
      by (auto simp: only_state_def nextufs__write_exact_def nextufs__transaction_record_def io_defs ctx_io_def
          nextufs_raw_backend_ops_def nextufs_raw_backend_write_def split: if_splits prod.splits)
    from i have ag: "agree_outside (nat p) 1 (content (backend_ctx img)) D" and len: "nat p < length D"
      by (simp_all add: only_state_def)
    have "nat p + length [x] \<le> length (content (backend_ctx img))" using len agree_outside_length [OF ag] by simp
    from write_exact_fd_inside [OF w this] ag have "agree_outside (nat p) 1 (content f) D"
      by (auto intro: agree_outside_trans)
    with i img' show ?thesis by (simp add: only_state_def)
  qed
qed

lemma only_state_finish:
  assumes "only_state (nat (state_off img)) b D img" and "0 \<le> state_off img" and "nextufs__write_finish safe img = (r, img')"
  shows "only_state (nat (state_off img)) b D img'"
proof -
  let ?I = "only_state (nat (state_off img)) b D"
  have m: "keeps ?I (modify_io (\<lambda>img. img\<lparr>sb := (sb img)\<lparr>state := 1\<rparr>, restore_clean := False\<rparr>))"
    by (auto simp: keeps_def modify_io_def only_state_def)
  show ?thesis
    by (rule keepsD_get [where I = ?I, OF _ assms(1) assms(3) [unfolded nextufs__write_finish_def]])
      (intro keeps_rules only_state_sync only_state_write assms(2) m)
qed

lemma close_succeeds: "nextufs_image_close img = (r, img') \<Longrightarrow> r = Inr ()"
  by (cases "transaction img = None")
    (auto simp: nextufs_image_close_def io_defs split: prod.splits)

lemma close_without_log:
  assumes "transaction img = None" and "nextufs_image_close img = (r, img')"
  shows "r = Inr () \<and> backend_ctx img' = backend_ctx img \<and> backend_ops img' = None"
  using assms by (auto simp: nextufs_image_close_def io_defs)

lemma truncate_back:
  assumes "agree_outside p 1 (content f) (D @ z)" and "p < length D" and "ftruncate_fd (length D) f = (Inr (), f')"
  shows "agree_outside p 1 (content f') D"
proof -
  have "length (content f) = length D + length z" using agree_outside_length [OF assms(1)] by simp
  then have "content f' = take (length D) (content f)"
    using assms(3) by (auto simp: ftruncate_fd_def split: list.splits sysres.splits)
  with assms(1,2) show ?thesis by (auto simp: agree_outside_def nth_append)
qed

lemma grow_fail_effect:
  assumes "undoable (D @ z) img" and "0 \<le> state_off img" and "nat (state_off img) < length D"
    and "grow_fail e (length D) img = (r, img')"
  shows "\<exists>rc. r = Inr (Grow_failed rc) \<and>
    (rc \<noteq> EUCLEAN \<longrightarrow> agree_outside (nat (state_off img)) 1 (content (backend_ctx img')) D)"
proof -
  from assms(1) obtain D' where l0: "log_inv nextufs_raw_backend_ops content (\<lambda>_. True) D' img"
    and ag0: "agree_outside (nat (state_off img)) 1 D' (D @ z)"
    unfolding undoable_def by blast
  obtain q i1 where q: "nextufs__transaction_end (Inl e :: errno + unit) img = (q, i1)"
    by (cases "nextufs__transaction_end (Inl e :: errno + unit) img")
  define rc1 where "rc1 = (case q of Inl e \<Rightarrow> e | Inr _ \<Rightarrow> e)"
  let ?cut = "if rc1 = EUCLEAN then ret (Inr ()) else try_io (ctx_io (ftruncate_fd (length D)))"
  obtain cut i2 where c: "?cut i1 = (Inr cut, i2)"
    by (cases "rc1 = EUCLEAN"; cases "ctx_io (ftruncate_fd (length D)) i1") (simp_all add: io_defs)
  define rc2 where "rc2 = (if cut = Inr () then rc1 else EUCLEAN)"
  obtain sy i3 where s: "nextufs__image_fsync i2 = (sy, i3)" by (cases "nextufs__image_fsync i2")
  define rc3 where "rc3 = (if sy = Inr () then rc2 else EUCLEAN)"
  obtain w i4 where w: "nextufs__write_finish (rc3 \<noteq> EUCLEAN) i3 = (w, i4)" by (cases "nextufs__write_finish (rc3 \<noteq> EUCLEAN) i3")
  obtain u i5 where u: "nextufs_image_close i4 = (u, i5)" by (cases "nextufs_image_close i4")
  note u0 = close_succeeds [OF u]
  have "grow_fail e (length D) img = (Inr (Grow_failed rc3), i5)"
    unfolding grow_fail_def bind_try [of "nextufs__transaction_end (Inl e :: errno + unit)" img, OF q] Let_def rc1_def [symmetric]
      bind_ok [of ?cut i1, OF c] rc2_def [symmetric] bind_try [of nextufs__image_fsync i2, OF s] rc3_def [symmetric]
      bind_try [of "nextufs__write_finish (rc3 \<noteq> EUCLEAN)" i3, OF w] bind_ok [of nextufs_image_close i4, OF u [unfolded u0]]
    by (simp add: ret_def)
  with assms(4) have res: "r = Inr (Grow_failed rc3)" "img' = i5" by simp_all
  show ?thesis
  proof (cases "rc3 = EUCLEAN")
    case True
    with res show ?thesis by simp
  next
    case False
    then have ok: "sy = Inr ()" "cut = Inr ()" "rc1 \<noteq> EUCLEAN" by (auto simp: rc3_def rc2_def split: if_splits)
    have "q \<noteq> Inl EUCLEAN" using ok(3) by (auto simp: rc1_def)
    from raw.transaction_end_restores [OF l0 q this] raw.transaction_end_on [OF l0 q] ag0
    have a1: "agree_outside (nat (state_off img)) 1 (content (backend_ctx i1)) (D @ z)" and on1: "raw_on i1"
      and st: "static i1 = static img" and t1: "transaction i1 = None" by auto
    have so: "state_off i1 = state_off img" using staticD(3) [OF st] by (simp add: state_off_def)
    obtain f where f: "ftruncate_fd (length D) (backend_ctx i1) = (Inr (), f)" "i2 = i1\<lparr>backend_ctx := f\<rparr>"
      using c ok by (auto simp: try_io_def ctx_io_def split: prod.splits)
    from truncate_back [OF a1 assms(3) f(1)] have "agree_outside (nat (state_off img)) 1 (content f) D" .
    with on1 t1 assms(3) so have "only_state (nat (state_off img)) (slice_base i1) D i2"
      by (simp add: only_state_def f(2) image_on_def)
    from keepsD [OF only_state_sync this s] have o3: "only_state (nat (state_off img)) (slice_base i1) D i3" .
    have "state_off i3 = state_off img" using o3 so by (simp add: only_state_def state_off_def)
    with o3 only_state_finish [of i3 "slice_base i1" D "rc3 \<noteq> EUCLEAN" w i4] w assms(2)
    have o4: "only_state (nat (state_off img)) (slice_base i1) D i4" by simp
    from close_without_log [OF _ u] o4 have "backend_ctx i5 = backend_ctx i4" by (simp add: only_state_def)
    with o4 res show ?thesis by (simp add: only_state_def)
  qed
qed

section \<open>An attempt\<close>

text \<open>Closing with an empty log changes at most the state byte.\<close>

definition log_empty :: "nextufs_raw_backend nextufs_image \<Rightarrow> bool" where
  "log_empty img \<longleftrightarrow> (\<forall>tx. transaction img = Some tx \<longrightarrow> tx_end tx = 0)"

lemma refuse_byte:
  assumes "raw_on img" and "log_empty img" and "refuse img = (r, img')"
  shows "(\<exists>b. r = Inr (Grow_refused b)) \<and> agree_outside (nat (state_off img)) 1 (content (backend_ctx img')) (content (backend_ctx img))"
proof -
  obtain q i1 where q: "nextufs_image_close img = (q, i1)" by (cases "nextufs_image_close img")
  from close_succeeds [OF q] assms(3) q have r: "\<exists>b. r = Inr (Grow_refused b)" "img' = i1" by (auto simp: refuse_def io_defs)
  show ?thesis
  proof (cases "transaction img")
    case None
    with close_without_log [OF None q] r show ?thesis by simp
  next
    case (Some tx)
    let ?i = "img\<lparr>transaction := None\<rparr>"
    have "tx_end tx = 0" using assms(2) Some by (simp add: log_empty_def)
    then have u: "undo_loop tx ?i = (Inr False, ?i)" by (simp add: undo_loop.simps)
    obtain sr f where s: "nextufs_raw_backend_fsync (backend_ctx img) = (sr, f)" by (cases "nextufs_raw_backend_fsync (backend_ctx img)")
    have bo: "backend_ops img = Some nextufs_raw_backend_ops" using assms(1) by (simp add: image_on_def)
    obtain rc i2 where e: "nextufs__transaction_end (Inl ECANCELED :: errno + unit) img = (rc, i2)"
      by (cases "nextufs__transaction_end (Inl ECANCELED :: errno + unit) img")
    have i2: "i2 = ?i\<lparr>backend_ctx := f\<rparr>"
      using e Some u s bo by (auto simp: nextufs__transaction_end_def Let_def ctx_io_def nextufs_raw_backend_ops_def)
    have c: "content f = content (backend_ctx img)" using s fsync_fd_content by (simp add: nextufs_raw_backend_fsync_def)
    obtain w i3 where w: "nextufs__write_finish (rc \<noteq> Inl EUCLEAN) i2 = (w, i3)" by (cases "nextufs__write_finish (rc \<noteq> Inl EUCLEAN) i2")
    have "byte_inv nextufs_raw_backend_ops content (\<lambda>_. True) (nat (state_off i2)) (slice_base i2) (tmpfile_script i2) (content (backend_ctx img)) i2"
      using assms(1) c by (simp add: byte_inv_def i2 image_on_def)
    from raw.write_finish_byte [OF this w] have "agree_outside (nat (state_off img)) 1 (content (backend_ctx i3)) (content (backend_ctx img))"
      by (simp add: byte_inv_def i2 state_off_def)
    moreover have "backend_ctx i1 = backend_ctx i3"
      using q Some e w by (auto simp: nextufs_image_close_def io_defs)
    ultimately show ?thesis using r by simp
  qed
qed

text \<open>Closing undoes what the log holds.\<close>

lemma refuse_undoes:
  assumes "log_inv nextufs_raw_backend_ops content (\<lambda>_. True) D img" and "refuse img = (r, img')"
  shows "\<exists>b. r = Inr (Grow_refused b) \<and> (\<not> b \<longrightarrow> agree_outside (nat (state_off img)) 1 (content (backend_ctx img')) D)"
proof -
  obtain tx where tx: "transaction img = Some tx" using assms(1) by (auto simp: log_inv_def)
  obtain rc i1 where e: "nextufs__transaction_end (Inl ECANCELED :: errno + unit) img = (rc, i1)"
    by (cases "nextufs__transaction_end (Inl ECANCELED :: errno + unit) img")
  obtain q i2 where w: "nextufs__write_finish (rc \<noteq> Inl EUCLEAN) i1 = (q, i2)"
    by (cases "nextufs__write_finish (rc \<noteq> Inl EUCLEAN) i1")
  have r: "r = Inr (Grow_refused (rc = Inl EUCLEAN))" "backend_ctx img' = backend_ctx i2"
    using assms(2) tx e w by (auto simp: refuse_def rollback_incomplete_def nextufs_image_close_def io_defs)
  have "agree_outside (nat (state_off img)) 1 (content (backend_ctx img')) D" if ok: "rc \<noteq> Inl EUCLEAN"
  proof -
    from raw.transaction_end_restores [OF assms(1) e ok] have d: "content (backend_ctx i1) = D" by blast
    note on = raw.transaction_end_on [OF assms(1) e]
    have so: "state_off i1 = state_off img" using on staticD(3) by (auto simp: state_off_def)
    have "byte_inv nextufs_raw_backend_ops content (\<lambda>_. True) (nat (state_off i1)) (slice_base i1) (tmpfile_script i1) D i1"
      using on d by (simp add: byte_inv_def)
    from raw.write_finish_byte [OF this w] show ?thesis by (simp add: byte_inv_def so r(2))
  qed
  with r(1) show ?thesis by simp
qed

lemma or_refuse_cases:
  assumes "or_refuse m f img = (r, img')" and "m img = (q, i1)"
  shows "(\<exists>e. q = Inl e) \<and> refuse i1 = (r, img') \<or> (\<exists>x. q = Inr x \<and> f x i1 = (r, img'))"
  using assms by (cases q) (simp_all add: or_refuse_def bind_io_def try_io_def)

text \<open>What an attempt may do to a file with the bytes \<open>D\<close>.\<close>

definition grow_result ::
  "byte list \<Rightarrow> nat \<Rightarrow> nat \<Rightarrow> bool \<Rightarrow> (errno + grow_exit) \<times> nextufs_raw_backend nextufs_image \<Rightarrow> bool" where
  "grow_result D p target larger = (\<lambda>(r, img'). \<exists>x. r = Inr x \<and>
     (\<forall>e. x = Grow_failed e \<longrightarrow> e \<noteq> EUCLEAN \<longrightarrow> agree_outside p 1 (content (backend_ctx img')) D) \<and>
     (x = Grow_refused False \<longrightarrow> agree_outside p 1 (content (backend_ctx img')) D) \<and>
     (x = Grow_done \<longrightarrow> length (content (backend_ctx img')) = target) \<and>
     (x = Grow_again \<or> x = Grow_moved \<longrightarrow> larger \<and> length (content (backend_ctx img')) = length D))"

lemma refuse_idle:
  assumes "raw_on img" and "log_empty img" and "agree_outside (nat (state_off img)) 1 (content (backend_ctx img)) D"
    and "refuse img = (r, img')"
  shows "grow_result D (nat (state_off img)) target larger (r, img')"
  using refuse_byte [OF assms(1,2,4)] agree_outside_trans [OF _ assms(3)] by (auto simp: grow_result_def)

lemma refuse_logged:
  assumes "log_inv nextufs_raw_backend_ops content (\<lambda>_. True) D img" and "refuse img = (r, img')" and "p = nat (state_off img)"
  shows "grow_result D p target larger (r, img')"
  using refuse_undoes [OF assms(1,2)] by (auto simp: grow_result_def assms(3))

lemma grow_result_trans:
  assumes "grow_result D p target larger ri" and "agree_outside p 1 D D0"
  shows "grow_result D0 p target larger ri"
  using assms(1) agree_outside_trans [OF _ assms(2)] agree_outside_length [OF assms(2)] unfolding grow_result_def by auto

lemma malloc_raw:
  assumes "malloc_io n img = (q, i1)" and "log_inv nextufs_raw_backend_ops content (\<lambda>_. True) D img"
  shows "log_inv nextufs_raw_backend_ops content (\<lambda>_. True) D i1 \<and> static i1 = static img \<and> transaction i1 = transaction img \<and>
    backend_ctx i1 = backend_ctx img"
proof -
  have "tx_inv nextufs_raw_backend_ops content (\<lambda>_. True) (D, static img) img" using assms(2) by (simp add: tx_inv_def)
  from keepsD [OF raw.malloc_tx this assms(1)] malloc_frame [OF assms(1)] show ?thesis by (auto simp: tx_inv_def)
qed

lemma static_state_off: "static a = static b \<Longrightarrow> state_off a = state_off b"
  using staticD(3) by (simp add: state_off_def)

lemma static_label: "static a = static b \<Longrightarrow> used_disk_label a = used_disk_label b"
proof -
  assume "static a = static b"
  then have "used_disk_label (static a) = used_disk_label (static b)" by simp
  then show ?thesis by (simp add: static_def)
qed

definition label_room :: "byte list \<Rightarrow> nextufs_raw_backend nextufs_image \<Rightarrow> bool" where
  "label_room D img \<longleftrightarrow> (used_disk_label img \<longrightarrow> int NEXTUFS_LABEL_SCAN_LIMIT \<le> slice_base img \<and> slice_base img \<le> int (length D))"

lemma static_label_room: "static a = static b \<Longrightarrow> label_room D a = label_room D b"
  using staticD(3) [of a b] static_label [of a b] by (simp add: label_room_def)

text \<open>After the file has its new length.\<close>

lemma grow_longer_result:
  assumes "log_inv nextufs_raw_backend_ops content (\<lambda>_. True) (D @ z) img" and "0 \<le> state_off img" and "nat (state_off img) < length D"
    and "label_room D img"
    and "bind_io (try_io (grow_steps n p old_sb)) (\<lambda>rc. case rc of Inl e \<Rightarrow> grow_fail e (length D)
       | Inr _ \<Rightarrow> bind_io (try_io (nextufs__transaction_end (Inr () :: errno + unit))) (\<lambda>_.
           bind_io nextufs_image_close (\<lambda>_. ret Grow_done))) img = (r, img')"
  shows "grow_result D (nat (state_off img)) (length (D @ z)) larger (r, img')"
proof -
  obtain q i1 where q: "grow_steps n p old_sb img = (q, i1)" by (cases "grow_steps n p old_sb img")
  from grow_steps_undoable [OF assms(1) _ q] assms(4) have u: "undoable (D @ z) i1" "slice_base i1 = slice_base img"
    by (auto simp: label_room_def)
  have so: "state_off i1 = state_off img" using u(2) by (simp add: state_off_def)
  show ?thesis
  proof (cases q)
    case (Inl e)
    with assms(5) q have "grow_fail e (length D) i1 = (r, img')" by (simp add: bind_io_def try_io_def)
    from grow_fail_effect [OF u(1) _ _ this] assms(2,3) so show ?thesis by (auto simp: grow_result_def)
  next
    case (Inr v)
    obtain t i2 where t: "nextufs__transaction_end (Inr () :: errno + unit) i1 = (t, i2)"
      by (cases "nextufs__transaction_end (Inr () :: errno + unit) i1")
    obtain c i3 where c: "nextufs_image_close i2 = (c, i3)" by (cases "nextufs_image_close i2")
    from u(1) obtain D' where l: "log_inv nextufs_raw_backend_ops content (\<lambda>_. True) D' i1" and ag: "agree_outside (nat (state_off i1)) 1 D' (D @ z)"
      unfolding undoable_def by blast
    have "transaction i2 = None" "backend_ctx i2 = backend_ctx i1"
      using t by (auto simp: nextufs__transaction_end_def split: option.splits)
    with close_without_log [OF _ c] have c0: "c = Inr ()" "backend_ctx i3 = backend_ctx i1" by auto
    have "r = Inr Grow_done" "img' = i3" using assms(5) q Inr t c c0(1) by (simp_all add: bind_io_def try_io_def ret_def)
    moreover have "length (content (backend_ctx i1)) = length (D @ z)"
      using l agree_outside_length [OF ag] by (simp add: log_inv_def)
    ultimately show ?thesis using c0(2) by (simp add: grow_result_def)
  qed
qed

lemma grow_file_result:
  assumes "log_inv nextufs_raw_backend_ops content (\<lambda>_. True) D img" and "0 \<le> state_off img" and "nat (state_off img) < length D"
    and "label_room D img" and "length D \<le> target" and "target < 2 ^ 63"
    and "grow_file target n (length D) p img = (r, img')"
  shows "grow_result D (nat (state_off img)) target larger (r, img')"
proof -
  let ?L = "log_inv nextufs_raw_backend_ops content (\<lambda>_. True) D"
  obtain a i1 where a: "malloc_io (super_size (sb img)) img = (a, i1)" by (cases "malloc_io (super_size (sb img)) img")
  obtain b i2 where b: "malloc_io (cg_size (sb img)) i1 = (b, i2)" by (cases "malloc_io (cg_size (sb img)) i1")
  note m1 = malloc_raw [OF a assms(1)]
  note m2 = malloc_raw [OF b, of D]
  have i2: "?L i2" "static i2 = static img" "transaction i2 = transaction img" "backend_ctx i2 = backend_ctx img"
    using m1 m2 by simp_all
  have refused: "grow_result D (nat (state_off img)) target larger (r, img')"
    if "?L i" "static i = static img" "refuse i = (r, img')" for i
    using refuse_logged [OF that(1,3)] static_state_off [OF that(2)] by simp
  let ?rest = "\<lambda>old_sb. or_refuse (ctx_io (ftruncate_fd target)) (\<lambda>_.
       bind_io (modify_io (\<lambda>img. img\<lparr>image_size := to_off target, slice_size := to_off n\<rparr>)) (\<lambda>_.
       bind_io (try_io (grow_steps n p old_sb)) (\<lambda>rc. case rc of
         Inl e \<Rightarrow> grow_fail e (length D)
       | Inr _ \<Rightarrow>
           bind_io (try_io (nextufs__transaction_end (Inr () :: errno + unit))) (\<lambda>_.
           bind_io nextufs_image_close (\<lambda>_. ret Grow_done)))))"
  have run: "(if a \<noteq> Inr () \<or> b \<noteq> Inr () then refuse
     else or_refuse (nextufs_image_pread (super_size (sb img)) (int UFS_SBLOCK_OFFSET)) ?rest) i2 = (r, img')"
    using assms(7) a b by (simp add: grow_file_def bind_io_def get_io_def try_io_def split del: if_split)
  show ?thesis
  proof (cases "a \<noteq> Inr () \<or> b \<noteq> Inr ()")
    case True
    with run refused [OF i2(1,2)] show ?thesis by simp
  next
    case False
    with run have run2: "or_refuse (nextufs_image_pread (super_size (sb img)) (int UFS_SBLOCK_OFFSET)) ?rest i2 = (r, img')" by simp
    obtain q i3 where q: "nextufs_image_pread (super_size (sb img)) (int UFS_SBLOCK_OFFSET) i2 = (q, i3)"
      by (cases "nextufs_image_pread (super_size (sb img)) (int UFS_SBLOCK_OFFSET) i2")
    have on2: "raw_on i2" using i2(1) raw.log_inv_on by blast
    from raw.image_pread_effect [OF on2 q] have i3: "raw_on i3" "content (backend_ctx i3) = content (backend_ctx i2)" "static i3 = static i2"
      "transaction i3 = transaction i2" by blast+
    then have l3: "?L i3" using i2(1) unfolding log_inv_def by metis
    from or_refuse_cases [OF run2 q] consider "refuse i3 = (r, img')" | old where "?rest old i3 = (r, img')" by blast
    then show ?thesis
    proof cases
      case 1
      then show ?thesis using refused [OF l3] i3 i2 by simp
    next
      case 2
      obtain t i4 where t: "ctx_io (ftruncate_fd target) i3 = (t, i4)" by (cases "ctx_io (ftruncate_fd target) i3")
      let ?i5 = "i4\<lparr>image_size := to_off target, slice_size := to_off n\<rparr>"
      show ?thesis
      proof (cases t)
        case (Inl e)
        with or_refuse_cases [OF 2 t] have rf: "refuse i4 = (r, img')" by auto
        from t Inl obtain f where f: "i4 = i3\<lparr>backend_ctx := f\<rparr>" "content f = content (backend_ctx i3)"
          by (auto simp: ctx_io_def ftruncate_fd_def split: prod.splits list.splits sysres.splits)
        have "?L i4" using l3 f by (auto simp: log_inv_def image_on_def)
        from refused [OF this _ rf] f i3 i2 show ?thesis by simp
      next
        case (Inr u)
        from or_refuse_cases [OF 2 t] Inr have go: "bind_io (try_io (grow_steps n p old)) (\<lambda>rc. case rc of
           Inl e \<Rightarrow> grow_fail e (length D)
         | Inr _ \<Rightarrow> bind_io (try_io (nextufs__transaction_end (Inr () :: errno + unit))) (\<lambda>_.
             bind_io nextufs_image_close (\<lambda>_. ret Grow_done))) ?i5 = (r, img')"
          by (auto simp: bind_io_def [of "modify_io f" for f] modify_io_def)
        have lt: "log_inv nextufs_raw_backend_ops content (\<lambda>_. True) (D @ replicate (target - length D) 0) ?i5"
          using truncate_log [OF l3 assms(5,6), of i4 "to_off n"] t Inr assms(6) to_off_id [of target] by simp
        have fl: "state_off ?i5 = state_off img" "label_room D ?i5 = label_room D img"
          using t i3(3) i2(2) static_state_off [of i3 img] static_label_room [of i3 img D]
          by (auto simp: state_off_def label_room_def ctx_io_def split: prod.splits)
        have "grow_result D (nat (state_off ?i5)) (length (D @ replicate (target - length D) 0)) larger (r, img')"
          by (rule grow_longer_result [OF lt _ _ _ go]) (use fl assms(2-4) in simp_all)
        then show ?thesis using fl(1) assms(5) by simp
      qed
    qed
  qed
qed

lemma read_copies_content:
  "validate_copies offs base k f = (r, f') \<Longrightarrow> content f' = content f"
proof (induction offs arbitrary: k f)
  case Nil
  then show ?case by (simp add: io_defs)
next
  case (Cons off offs)
  obtain q f1 where q: "validate_one_label_copy off base f = (q, f1)" by (cases "validate_one_label_copy off base f")
  have c1: "content f1 = content f"
    using q by (auto simp: validate_one_label_copy_def io_defs split: prod.splits sum.splits dest!: read_exact_fd_content)
  show ?case
  proof (cases q)
    case (Inl e)
    with Cons.prems q c1 show ?thesis by (simp add: bind_io_def)
  next
    case (Inr m)
    with Cons.prems q have "validate_copies offs base (k + (if m then 1 else 0)) f1 = (r, f')" by (simp add: bind_io_def)
    from Cons.IH [OF this] c1 show ?thesis by simp
  qed
qed

lemma validate_layout_effect:
  assumes "validate_labeled_grow_layout img = (r, img')"
  shows "\<exists>f. img' = img\<lparr>backend_ctx := f\<rparr> \<and> content f = content (backend_ctx img)"
proof (cases "used_disk_label img")
  case False
  with assms have "img' = img\<lparr>backend_ctx := backend_ctx img\<rparr>" by (auto simp: validate_labeled_grow_layout_def io_defs)
  then show ?thesis by blast
next
  case True
  obtain q f where q: "validate_copies label_offsets (slice_base img) 0 (backend_ctx img) = (q, f)"
    by (cases "validate_copies label_offsets (slice_base img) 0 (backend_ctx img)")
  with assms True have "img' = img\<lparr>backend_ctx := f\<rparr>"
    by (cases q) (auto simp: validate_labeled_grow_layout_def nextufs_label_validate_single_slice_fd_def io_defs ctx_io_def split: if_splits)
  with read_copies_content [OF q] show ?thesis by blast
qed

text \<open>The mark and the log.\<close>

lemma begin_grow:
  assumes "raw_on img" and "tmpfile_script img = []" and "transaction img = None"
    and "bind_io nextufs__write_begin (\<lambda>_. nextufs__transaction_begin) img = (q, i1)"
  shows "raw_on i1 \<and> agree_outside (nat (state_off img)) 1 (content (backend_ctx i1)) (content (backend_ctx img)) \<and>
    log_empty i1 \<and> slice_base i1 = slice_base img \<and> used_disk_label i1 = used_disk_label img \<and>
    csum_size (sb i1) = csum_size (sb img) \<and>
    (\<forall>u. q = Inr u \<longrightarrow> log_inv nextufs_raw_backend_ops content (\<lambda>_. True) (content (backend_ctx i1)) i1)"
proof -
  obtain w i0 where w: "nextufs__write_begin img = (w, i0)" by (cases "nextufs__write_begin img")
  have "byte_inv nextufs_raw_backend_ops content (\<lambda>_. True) (nat (state_off img)) (slice_base img) [] (content (backend_ctx img)) img"
    using assms(1,2) by (simp add: byte_inv_def)
  note b = raw.write_begin_byte [OF this w, unfolded byte_inv_def]
  have k: "keeps (\<lambda>i. transaction i = None \<and> used_disk_label i = used_disk_label img \<and> csum_size (sb i) = csum_size (sb img)) nextufs__write_begin"
    unfolding nextufs__write_begin_def Let_def
    by (intro keeps_rules) (auto simp: keeps_def modify_io_def nextufs__write_exact_def nextufs__transaction_record_def nextufs__image_fsync_def
        io_defs ctx_io_def split: option.splits if_splits prod.splits)
  from keepsD [OF k _ w] assms(3) have k0: "transaction i0 = None" "used_disk_label i0 = used_disk_label img" "csum_size (sb i0) = csum_size (sb img)"
    by simp_all
  show ?thesis
  proof (cases w)
    case (Inl e)
    with assms(4) w have "i1 = i0" "q = Inl e" by (simp_all add: bind_io_def)
    with b k0 show ?thesis by (simp add: log_empty_def)
  next
    case (Inr u)
    with assms(4) w have t: "nextufs__transaction_begin i0 = (q, i1)" by (simp add: bind_io_def)
    show ?thesis
    proof (cases q)
      case (Inl e)
      from raw.transaction_begin_fails [OF _ t [unfolded Inl]] b
      have e: "raw_on i1" "content (backend_ctx i1) = content (backend_ctx i0)" "static i1 = static i0" "transaction i1 = None"
        using k0(1) by simp_all
      with staticD(1,3) [OF e(3)] static_label [OF e(3)] b k0 Inl show ?thesis by (simp add: log_empty_def)
    next
      case (Inr v)
      then have q0: "q = Inr ()" by simp
      from raw.transaction_begin_tx [OF _ _ t [unfolded q0]] b
      have e: "log_inv nextufs_raw_backend_ops content (\<lambda>_. True) (content (backend_ctx i0)) i1" "static i1 = static i0"
        by (simp_all add: tx_inv_def)
      obtain m j where m: "malloc_io 16 i0 = (m, j)" by (cases "malloc_io 16 i0")
      from malloc_frame [OF m] obtain ms where j: "j = i0\<lparr>mallocs := ms\<rparr>" by blast
      from t Inr m j have "backend_ctx i1 = backend_ctx i0" "log_empty i1"
        by (cases m; auto simp: nextufs__transaction_begin_def io_defs log_empty_def split: option.splits)+
      with e staticD(1,3) [OF e(2)] static_label [OF e(2)] b k0 raw.log_inv_on [OF e(1)] show ?thesis by simp
    qed
  qed
qed

lemma restart_result:
  assumes "log_inv nextufs_raw_backend_ops content (\<lambda>_. True) D img" and "restart_grow img = (r, img')" and larger
  shows "grow_result D (nat (state_off img)) target larger (r, img')"
proof -
  obtain q i1 where q: "nextufs__image_fsync img = (q, i1)" by (cases "nextufs__image_fsync img")
  have "tx_inv nextufs_raw_backend_ops content (\<lambda>_. True) (D, static img) img" using assms(1) by (simp add: tx_inv_def)
  from keepsD [OF raw.fsync_tx this q] have l1: "log_inv nextufs_raw_backend_ops content (\<lambda>_. True) D i1" and st: "static i1 = static img"
    by (simp_all add: tx_inv_def)
  from or_refuse_cases [OF assms(2) [unfolded restart_grow_def] q] consider "refuse i1 = (r, img')"
    | "bind_io (try_io (nextufs__transaction_end (Inr () :: errno + unit))) (\<lambda>_. bind_io (try_io (nextufs__write_finish True)) (\<lambda>rc.
         bind_io nextufs_image_close (\<lambda>_. ret (case rc of Inl _ \<Rightarrow> Grow_moved | Inr _ \<Rightarrow> Grow_again)))) i1 = (r, img')" by blast
  then show ?thesis
  proof cases
    case 1
    with refuse_logged [OF l1] static_state_off [OF st] show ?thesis by simp
  next
    case 2
    let ?i = "i1\<lparr>transaction := None\<rparr>"
    obtain w i2 where w: "nextufs__write_finish True ?i = (w, i2)" by (cases "nextufs__write_finish True ?i")
    obtain c i3 where c: "nextufs_image_close i2 = (c, i3)" by (cases "nextufs_image_close i2")
    have on: "raw_on i1" using l1 raw.log_inv_on by blast
    obtain tx where tx: "transaction i1 = Some tx" using l1 by (auto simp: log_inv_def)
    have e: "nextufs__transaction_end (Inr () :: errno + unit) i1 = (Inr (), ?i)"
      by (simp add: nextufs__transaction_end_def tx)
    have r: "r = Inr (case w of Inl _ \<Rightarrow> Grow_moved | Inr _ \<Rightarrow> Grow_again)" "img' = i3"
      using 2 e w c close_succeeds [OF c] by (auto simp: bind_io_def try_io_def ret_def)
    have "byte_inv nextufs_raw_backend_ops content (\<lambda>_. True) (nat (state_off ?i)) (slice_base ?i) (tmpfile_script ?i) (content (backend_ctx ?i)) ?i"
      using on by (simp add: byte_inv_def image_on_def)
    note b = raw.write_finish_byte [OF this w, THEN conjunct1, unfolded byte_inv_def]
    have k: "keeps (\<lambda>i. transaction i = None) (nextufs__write_finish True)"
      unfolding nextufs__write_finish_def
      by (intro keeps_rules) (auto simp: keeps_def modify_io_def nextufs__write_exact_def nextufs__transaction_record_def
          nextufs__image_fsync_def io_defs ctx_io_def split: option.splits if_splits prod.splits)
    have "transaction i2 = None" by (rule keepsD [OF k _ w]) simp
    from close_without_log [OF this c] have "backend_ctx i3 = backend_ctx i2" by simp
    moreover have "length (content (backend_ctx i2)) = length (content (backend_ctx i1))"
      using b agree_outside_length by fastforce
    moreover have "length (content (backend_ctx i1)) = length D" using l1 by (simp add: log_inv_def)
    ultimately show ?thesis using r assms(3) by (cases w) (simp_all add: grow_result_def)
  qed
qed

lemma grow_image_result:
  assumes "raw_on img" and "tmpfile_script img = []" and "transaction img = None"
    and "0 \<le> state_off img" and "nat (state_off img) < length D" and "D = content (backend_ctx img)"
    and "label_room D img" and "length D \<le> target" and "target < 2 ^ 63"
    and "grow_image target n (length D) p img = (r, img')"
  shows "grow_result D (nat (state_off img)) target (csum_size (sb img) < gp_cssize p) (r, img')"
proof -
  let ?p = "nat (state_off img)" and ?lg = "csum_size (sb img) < gp_cssize p"
  obtain q i1 where q: "bind_io nextufs__write_begin (\<lambda>_. nextufs__transaction_begin) img = (q, i1)"
    by (cases "bind_io nextufs__write_begin (\<lambda>_. nextufs__transaction_begin) img")
  note b = begin_grow [OF assms(1-3) q]
  let ?D = "content (backend_ctx i1)"
  have ag: "agree_outside ?p 1 ?D D" and so: "state_off i1 = state_off img" and le: "log_empty i1"
    and on1: "raw_on i1" and cs: "csum_size (sb i1) = csum_size (sb img)"
    using b assms(6) by (simp_all add: state_off_def)
  have lD: "length ?D = length D" using agree_outside_length [OF ag] .
  have lr: "label_room ?D i1" using b assms(7) lD by (simp add: label_room_def)
  let ?go = "\<lambda>img moves. if moves \<noteq> 0 then restart_grow
     else if csum_size (sb img) < gp_cssize p \<and> frags_per_group (sb img) < u32 (cyl_summary_addr (sb img) + gp_cssize p div frag_size (sb img))
     then refuse else grow_file target n (length D) p"
  let ?ev = "if csum_size (sb i1) < gp_cssize p then evacuate_summary_extension_range (gp_cssize p) else ret 0"
  from or_refuse_cases [OF assms(10) [unfolded grow_image_def Let_def] q]
  consider "refuse i1 = (r, img')" | "q = Inr ()" "or_refuse ?ev (?go i1) i1 = (r, img')"
    by (auto simp: bind_io_def [of get_io] get_io_def)
  then show ?thesis
  proof cases
    case 1
    have "grow_result D (nat (state_off i1)) target ?lg (r, img')" by (rule refuse_idle [OF on1 le _ 1]) (use ag so in simp)
    then show ?thesis by (simp add: so)
  next
    case 2
    from b 2(1) have l1: "log_inv nextufs_raw_backend_ops content (\<lambda>_. True) ?D i1" by simp
    obtain e i2 where e: "?ev i1 = (e, i2)" by (cases "?ev i1")
    have "keeps (tx_inv nextufs_raw_backend_ops content (\<lambda>_. True) (?D, static i1)) ?ev"
      by (intro keeps_rules raw.evacuate_tx)
    from keepsD [OF this _ e] l1
    have l2: "log_inv nextufs_raw_backend_ops content (\<lambda>_. True) ?D i2" and st: "static i2 = static i1"
      by (simp_all add: tx_inv_def)
    have so2: "state_off i2 = state_off img" using static_state_off [OF st] so by simp
    have refused: "grow_result D ?p target ?lg (r, img')" if "refuse i2 = (r, img')"
      by (rule grow_result_trans [OF refuse_logged [OF l2 that] ag]) (simp add: so2)
    from or_refuse_cases [OF 2(2) e] consider "refuse i2 = (r, img')" | m where "e = Inr m" "?go i1 m i2 = (r, img')" by blast
    then show ?thesis
    proof cases
      case 1
      then show ?thesis by (rule refused)
    next
      case (2 m)
      show ?thesis
      proof (cases "m \<noteq> 0")
        case True
        with 2(2) have rs: "restart_grow i2 = (r, img')" by simp
        have ?lg using e 2(1) True cs by (auto simp: ret_def split: if_splits)
        from grow_result_trans [OF restart_result [OF l2 rs this, unfolded so2] ag] show ?thesis .
      next
        case False
        show ?thesis
        proof (cases "csum_size (sb i1) < gp_cssize p \<and> frags_per_group (sb i1) < u32 (cyl_summary_addr (sb i1) + gp_cssize p div frag_size (sb i1))")
          case True
          with 2(2) False refused show ?thesis by simp
        next
          case fits: False
          have gf: "grow_file target n (length ?D) p i2 = (r, img')"
            using 2(2) False lD unfolding if_not_P [OF fits] by simp
          have "grow_result ?D (nat (state_off i2)) target ?lg (r, img')"
            by (rule grow_file_result [OF l2 _ _ _ _ assms(9) gf])
              (use so2 assms(4,5,8) lD lr static_label_room [OF st] in auto)
          then show ?thesis using grow_result_trans [OF _ ag] so2 by simp
        qed
      qed
    qed
  qed
qed

text \<open>
  C22. The growth of a file system in a plain file, over any results of the system calls on it and of \<open>malloc\<close>.
  When a step after the change of the length fails and the command does not report an incomplete rollback,
  and when the growth is refused before that, be it after some of the data in the way of a larger summary
  area was moved, and the log could be undone, the file has its old length and every byte it had, except
  perhaps the state byte of the superblock. When the command succeeds the file has the requested length. Moves of
  data are kept only by an attempt that needs a larger summary area and either begins anew or cannot mark
  the file system as clean after them; the file then has its old length. The calls on the temporary file of the
  log succeed, the file is not longer than the requested size, and a label has its copies before the slice.
\<close>

theorem growth_all_or_nothing:
  assumes "raw_on img" and "tmpfile_script img = []" and "transaction img = None"
    and "0 \<le> state_off img" and "nat (state_off img) < length (content (backend_ctx img))"
    and "used_disk_label img \<longrightarrow> int NEXTUFS_LABEL_SCAN_LIMIT \<le> slice_base img \<and> slice_base img \<le> int (length (content (backend_ctx img)))"
    and "length (content (backend_ctx img)) \<le> target" and "target < 2 ^ 63"
    and "grow_opened target (length (content (backend_ctx img))) img = (r, img')"
  shows "\<exists>x. r = Inr x \<and>
    (\<forall>e. x = Grow_failed e \<longrightarrow> e \<noteq> EUCLEAN \<longrightarrow>
       agree_outside (nat (state_off img)) 1 (content (backend_ctx img')) (content (backend_ctx img))) \<and>
    (x = Grow_refused False \<longrightarrow>
       agree_outside (nat (state_off img)) 1 (content (backend_ctx img')) (content (backend_ctx img))) \<and>
    (x = Grow_done \<longrightarrow> length (content (backend_ctx img')) = target) \<and>
    (x = Grow_again \<or> x = Grow_moved \<longrightarrow>
       (\<exists>n p. grow_target img target = Some n \<and> plan_grow (sb img) n = Some p \<and> csum_size (sb img) < gp_cssize p) \<and>
       length (content (backend_ctx img')) = length (content (backend_ctx img)))"
proof -
  let ?D = "content (backend_ctx img)" let ?p = "nat (state_off img)"
  define larger where "larger = (\<exists>n p. grow_target img target = Some n \<and> plan_grow (sb img) n = Some p \<and> csum_size (sb img) < gp_cssize p)"
  have lr: "label_room ?D img" using assms(6) by (simp add: label_room_def)
  have "grow_result ?D ?p target larger (r, img')"
  proof (cases "grow_target img target")
    case None
    with assms(9) have rf: "refuse img = (r, img')" by (simp add: grow_opened_def bind_io_def get_io_def)
    show ?thesis by (rule refuse_idle [OF assms(1) _ _ rf]) (use assms(3) in \<open>simp_all add: log_empty_def\<close>)
  next
    case (Some n)
    obtain v i1 where v: "validate_labeled_grow_layout img = (v, i1)" by (cases "validate_labeled_grow_layout img")
    from validate_layout_effect [OF v] obtain f where f: "i1 = img\<lparr>backend_ctx := f\<rparr>" "content f = ?D" by blast
    have i1: "raw_on i1" "tmpfile_script i1 = []" "transaction i1 = None" "state_off i1 = state_off img"
      "content (backend_ctx i1) = ?D" "label_room ?D i1" "sb i1 = sb img"
      using assms(1-3) f lr by (simp_all add: image_on_def state_off_def label_room_def)
    have refused: "grow_result ?D ?p target larger (r, img')" if "refuse i1 = (r, img')"
      using refuse_idle [OF i1(1) _ _ that, of ?D target larger] i1 by (simp add: log_empty_def)
    have "or_refuse validate_labeled_grow_layout (\<lambda>_. case plan_grow (sb img) n of None \<Rightarrow> refuse
       | Some p \<Rightarrow> grow_image target n (length ?D) p) img = (r, img')"
      using assms(9) Some by (simp add: grow_opened_def bind_io_def get_io_def)
    from or_refuse_cases [OF this v] consider "refuse i1 = (r, img')"
      | "(case plan_grow (sb img) n of None \<Rightarrow> refuse | Some p \<Rightarrow> grow_image target n (length ?D) p) i1 = (r, img')" by blast
    then show ?thesis
    proof cases
      case 1
      then show ?thesis by (rule refused)
    next
      case 2
      show ?thesis
      proof (cases "plan_grow (sb img) n")
        case None
        with 2 refused show ?thesis by simp
      next
        case (Some p)
        with 2 have g: "grow_image target n (length ?D) p i1 = (r, img')" by simp
        have "larger = (csum_size (sb i1) < gp_cssize p)"
          using Some \<open>grow_target img target = Some n\<close> i1(7) by (simp add: larger_def)
        moreover have "grow_result ?D (nat (state_off i1)) target (csum_size (sb i1) < gp_cssize p) (r, img')"
          by (rule grow_image_result [OF i1(1-3) _ _ _ _ assms(7,8) g]) (use i1 assms(4,5) in auto)
        ultimately show ?thesis using i1(4) by simp
      qed
    qed
  qed
  then show ?thesis unfolding grow_result_def larger_def by auto
qed

text \<open>A growth from 32 to 64 KiB whose fifth system call, the read of the cylinder group, fails.\<close>

definition sample_blank :: "byte list" where
  "sample_blank = replicate 32768 0"

lemma length_sample_blank [simp]: "length sample_blank = 32768"
  by (simp add: sample_blank_def)

definition sample_growing :: "nextufs_raw_backend nextufs_image" where
  "sample_growing = (sample_image sample_blank)\<lparr>backend_ctx := \<lparr>content = sample_blank,
     script = [Xfer 1, Xfer 0, Xfer 2048, Xfer 0, Fails EIO]\<rparr>\<rparr>"

lemma sample_growing_on: "raw_on sample_growing"
  by (simp add: sample_growing_def image_on_def)

lemma sample_plan: "plan_grow sample_superblock 65536 = Some \<lparr>gp_frags = 64, gp_ncg = 2, gp_ncyl = 2, gp_cssize = 1024\<rparr>"
  by (simp add: plan_grow_def CSUM_SIZE_def cg_frag_count_def cgdmin_def cgstart_def nextufs__cgstart_def u64_sub_def u64_def u32_def
      u32_not_def upt_rec)

lemma sample_begin:
  "bind_io nextufs__write_begin (\<lambda>_. nextufs__transaction_begin) sample_growing =
   (Inr (), sample_growing\<lparr>backend_ctx := \<lparr>content = overlay 8401 [2] sample_blank, script = [Xfer 2048, Xfer 0, Fails EIO]\<rparr>,
      restore_clean := True, sb := sample_superblock\<lparr>state := 2\<rparr>, fs_write_active := True,
      transaction := Some \<lparr>tx_log = [], tx_end = 0, tx_script = []\<rparr>\<rparr>)"
  by (simp add: nextufs__write_begin_def nextufs__transaction_begin_def io_defs sample_growing_def state_off_def UFS_SBLOCK_OFFSET_def
      nextufs__write_exact_def nextufs__transaction_record_def range_bad_def nextufs__image_fsync_def ctx_io_def nextufs_raw_backend_ops_def
      nextufs_raw_backend_write_def nextufs_raw_backend_fsync_def fsync_fd_def nextufs__write_exact_fd_def write_fd_loop.simps pwrite_def
      file_put_def malloc_io_def sample_image_def Let_def)

definition sample_grown :: "byte list \<Rightarrow> sysres list \<Rightarrow> int \<Rightarrow> nextufs_raw_backend nextufs_image" where
  "sample_grown xs S n = sample_growing\<lparr>backend_ctx := \<lparr>content = xs, script = S\<rparr>,
      restore_clean := True, sb := sample_superblock\<lparr>state := 2\<rparr>, fs_write_active := True,
      transaction := Some \<lparr>tx_log = [], tx_end = 0, tx_script = []\<rparr>, image_size := n, slice_size := n\<rparr>"

lemma sample_read_old:
  "\<exists>old. nextufs_image_pread 2048 8192 (sample_grown (overlay 8401 [2] sample_blank) [Xfer 2048, Xfer 0, Fails EIO] 32768) =
     (Inr old, sample_grown (overlay 8401 [2] sample_blank) [Xfer 0, Fails EIO] 32768)"
  by (auto simp: sample_grown_def sample_growing_def nextufs_image_pread_def io_defs nextufs__read_exact_def range_bad_def ctx_io_def
      nextufs_raw_backend_ops_def nextufs_raw_backend_read_def nextufs__read_exact_fd_def read_fd_loop.simps pread_def sample_image_def
      bytes_at_def)

lemma sample_steps:
  "grow_steps 65536 \<lparr>gp_frags = 64, gp_ncg = 2, gp_ncyl = 2, gp_cssize = 1024\<rparr> old (sample_grown xs [Fails EIO] 65536) =
     (Inl EIO, sample_grown xs [] 65536)"
  by (simp add: sample_grown_def sample_growing_def sample_image_def grow_steps_def record_label_area_def patch_label_partition_size_def
      grow_groups_def extend_last_group_def expand_old_last_cg_def io_defs Let_def u32_def u64_def u32_add_def malloc_io_def
      nextufs_image_pread_def nextufs__read_exact_def range_bad_def ctx_io_def frag_bytes_def to_off_def cgtod_def cgstart_def
      nextufs__cgstart_def u32_not_def nextufs_raw_backend_ops_def nextufs_raw_backend_read_def nextufs__read_exact_fd_def
      read_fd_loop.simps pread_def)

lemma sample_fail:
  "\<exists>img. grow_fail EIO 32768 (sample_grown (overlay 8401 [2] sample_blank @ replicate 32768 0) [] 65536) = (Inr (Grow_failed EIO), img)"
  by (simp add: sample_grown_def sample_growing_def sample_image_def grow_fail_def nextufs__transaction_end_def undo_loop_end
      io_defs Let_def ctx_io_def nextufs_raw_backend_ops_def nextufs_raw_backend_fsync_def fsync_fd_def ftruncate_fd_def
      nextufs__write_finish_def nextufs__image_fsync_def state_off_def UFS_SBLOCK_OFFSET_def nextufs__write_exact_def
      nextufs__transaction_record_def range_bad_def nextufs_raw_backend_write_def nextufs__write_exact_fd_def write_fd_loop.simps
      pwrite_def file_put_def nextufs_image_close_def)

lemma sample_growth_fails: "\<exists>img'. grow_opened 65536 32768 sample_growing = (Inr (Grow_failed EIO), img')"
proof -
  let ?D = "overlay 8401 [2] sample_blank"
  let ?p = "\<lparr>gp_frags = 64, gp_ncg = 2, gp_ncyl = 2, gp_cssize = 1024\<rparr>"
  let ?g = "sample_grown ?D"
  have lD: "length ?D = 32768" by simp
  obtain old where r: "nextufs_image_pread 2048 8192 (?g [Xfer 2048, Xfer 0, Fails EIO] 32768) = (Inr old, ?g [Xfer 0, Fails EIO] 32768)"
    using sample_read_old by blast
  obtain img where f: "grow_fail EIO 32768 (sample_grown (?D @ replicate 32768 0) [] 65536) = (Inr (Grow_failed EIO), img)"
    using sample_fail by blast
  have t: "ctx_io (ftruncate_fd 65536) (?g [Xfer 0, Fails EIO] 32768) =
      (Inr (), sample_grown (?D @ replicate 32768 0) [Fails EIO] 32768)"
    using lD by (simp add: ctx_io_def ftruncate_fd_def sample_grown_def del: replicate_add)
  have u: "(sample_grown xs S 32768)\<lparr>image_size := to_off 65536, slice_size := to_off 65536\<rparr> = sample_grown xs S 65536" for xs S
    by (simp add: sample_grown_def to_off_def u64_def)
  have m: "malloc_io n (?g S k) = (Inr (), ?g S k)" if "n < 2 ^ 63" for n S k
    using that by (simp add: malloc_io_def sample_grown_def sample_growing_def sample_image_def)
  have s: "sb (?g S k) = sample_superblock\<lparr>state := 2\<rparr>" for S k by (simp add: sample_grown_def)
  have gf: "grow_file 65536 65536 32768 ?p (?g [Xfer 2048, Xfer 0, Fails EIO] 32768) = (Inr (Grow_failed EIO), img)"
    unfolding grow_file_def or_refuse_def
    by (simp add: bind_io_def get_io_def try_io_def modify_io_def m s r t u sample_steps f UFS_SBLOCK_OFFSET_def)
  have b: "bind_io nextufs__write_begin (\<lambda>_. nextufs__transaction_begin) sample_growing = (Inr (), ?g [Xfer 2048, Xfer 0, Fails EIO] 32768)"
    unfolding sample_begin by (simp add: sample_grown_def sample_growing_def sample_image_def)
  have gi: "grow_image 65536 65536 32768 ?p sample_growing = (Inr (Grow_failed EIO), img)"
    unfolding grow_image_def or_refuse_def bind_try [of "bind_io nextufs__write_begin (\<lambda>_. nextufs__transaction_begin)" sample_growing, OF b]
    by (simp add: bind_io_def get_io_def try_io_def ret_def s gf Let_def)
  have "grow_target sample_growing 65536 = Some 65536"
    by (simp add: grow_target_def sample_growing_def sample_image_def Let_def)
  moreover have "validate_labeled_grow_layout sample_growing = (Inr (), sample_growing)"
    by (simp add: validate_labeled_grow_layout_def io_defs sample_growing_def sample_image_def)
  moreover have "sb sample_growing = sample_superblock" by (simp add: sample_growing_def sample_image_def)
  ultimately show ?thesis
    using gi by (simp add: grow_opened_def or_refuse_def bind_io_def get_io_def try_io_def sample_plan)
qed

theorem growth_all_or_nothing_witness:
  "\<exists>img'. grow_opened 65536 32768 sample_growing = (Inr (Grow_failed EIO), img') \<and>
     agree_outside 8401 1 (content (backend_ctx img')) sample_blank"
proof -
  obtain img' where g: "grow_opened 65536 32768 sample_growing = (Inr (Grow_failed EIO), img')"
    using sample_growth_fails by blast
  have c: "content (backend_ctx sample_growing) = sample_blank" "state_off sample_growing = 8401" "tmpfile_script sample_growing = []"
    "transaction sample_growing = None" "\<not> used_disk_label sample_growing"
    by (simp_all add: sample_growing_def sample_image_def state_off_def UFS_SBLOCK_OFFSET_def)
  from growth_all_or_nothing [of sample_growing 65536, OF sample_growing_on c(3,4)] c g show ?thesis by auto
qed

end
