(* ===== verification/Rotational_Tables.thy ===== *)
theory Rotational_Tables
  imports Alloc
begin

text \<open>
  The tables of free blocks by cylinder and by rotational position in a cylinder group header:
  \<open>cg_btot\<close>, 32 counts of 32 bits at offset 84, and \<open>cg_b\<close>, 32 rows of 8 counts of 16 bits at offset 212.
  The code of \<^verbatim>\<open>src/core/alloc.c\<close> and \<^verbatim>\<open>src/core/resize.c\<close> moves one count of each when a block
  becomes free as a whole or stops being so; here is what the tables have to hold, and what such a move does.
\<close>

section \<open>Where a block counts\<close>

definition cg_blocks :: "nextufs_superblock \<Rightarrow> nat" where
  "cg_blocks s = frags_per_group s div frags_per_block s"

text \<open>The cylinder and the rotational position of block \<open>j\<close> of a group, in the arithmetic of the code.\<close>

definition block_sector :: "nextufs_superblock \<Rightarrow> nat \<Rightarrow> nat" where
  "block_sector s j = u32 (j * frags_per_block s * sectors_per_frag s)"

definition block_cyl :: "nextufs_superblock \<Rightarrow> nat \<Rightarrow> nat" where
  "block_cyl s j = block_sector s j div sectors_per_cyl s"

definition block_pos :: "nextufs_superblock \<Rightarrow> nat \<Rightarrow> nat" where
  "block_pos s j = u32 (block_sector s j mod sectors_per_cyl s mod sectors_per_track s * NRPOS) div sectors_per_track s"

definition in_cyl :: "nextufs_superblock \<Rightarrow> nat \<Rightarrow> nat \<Rightarrow> bool" where
  "in_cyl s c j \<longleftrightarrow> block_cyl s j = c \<and> block_pos s j < NRPOS"

definition at_pos :: "nextufs_superblock \<Rightarrow> nat \<Rightarrow> nat \<Rightarrow> nat \<Rightarrow> bool" where
  "at_pos s c r j \<longleftrightarrow> block_cyl s j = c \<and> block_pos s j = r"

text \<open>The count of a cylinder, and that of a rotational position in a cylinder.\<close>

definition cg_btot :: "byte list \<Rightarrow> nat \<Rightarrow> nat" where
  "cg_btot b c = nextufs__read_be32 b (84 + c * 4)"

definition cg_b :: "byte list \<Rightarrow> nat \<Rightarrow> nat \<Rightarrow> nat" where
  "cg_b b c r = nextufs__read_be16 b (212 + (c * 8 + r) * 2)"

text \<open>The number of blocks in a set that are free as a whole, and tables that hold these numbers.\<close>

definition free_among :: "(nat \<Rightarrow> bool) \<Rightarrow> (nat \<Rightarrow> bool) \<Rightarrow> nat \<Rightarrow> nat \<Rightarrow> nat" where
  "free_among A P fpb N = (\<Sum>j < N. if A j \<and> whole_free P fpb j then 1 else 0)"

definition tables_ok :: "nextufs_superblock \<Rightarrow> (nat \<Rightarrow> bool) \<Rightarrow> byte list \<Rightarrow> bool" where
  "tables_ok s P b \<longleftrightarrow>
     (\<forall>c < 32. cg_btot b c = free_among (in_cyl s c) P (frags_per_block s) (cg_blocks s)) \<and>
     (\<forall>c < 32. \<forall>r < 8. cg_b b c r =
        free_among (at_pos s c r) P (frags_per_block s) (cg_blocks s))"

lemma free_among_le: "free_among A P fpb N \<le> N"
proof -
  have "free_among A P fpb N \<le> (\<Sum>j < N. 1)" unfolding free_among_def by (rule sum_mono) simp
  then show ?thesis by simp
qed

lemma free_among_cong:
  assumes "\<And>j i. j < N \<Longrightarrow> i < fpb \<Longrightarrow> Q (j * fpb + i) = P (j * fpb + i)"
  shows "free_among A Q fpb N = free_among A P fpb N"
  unfolding free_among_def whole_free_def using assms by (intro sum.cong) auto

lemma free_among_change:
  assumes j: "j < N" and same: "\<And>k. k < j * fpb \<or> j * fpb + fpb \<le> k \<Longrightarrow> Q k = P k"
  shows "free_among A Q fpb N + (if A j \<and> whole_free P fpb j then 1 else 0) =
    free_among A P fpb N + (if A j \<and> whole_free Q fpb j then 1 else 0)"
proof -
  have eq: "Q (i * fpb + x) = P (i * fpb + x)" if "x < fpb" "i \<noteq> j" for x i
  proof (rule same, rule ccontr)
    assume "\<not> (i * fpb + x < j * fpb \<or> j * fpb + fpb \<le> i * fpb + x)"
    then have "j * fpb \<le> i * fpb + x" "i * fpb + x < j * fpb + fpb" by simp_all
    from block_of [OF that(1) this] that(2) show False by simp
  qed
  then have "whole_free Q fpb i = whole_free P fpb i" if "i \<noteq> j" for i
    using that by (auto simp: whole_free_def)
  then show ?thesis unfolding free_among_def by (intro sum_change [OF j]) simp
qed

section \<open>A move of the tables\<close>

definition u16_add :: "nat \<Rightarrow> int \<Rightarrow> nat" where
  "u16_add v d = nat ((int v + d) mod 2 ^ 16)"

lemma u16_add_eq: "int v + d = int w \<Longrightarrow> w < 65536 \<Longrightarrow> u16_add v d = w"
  by (simp add: u16_add_def)

lemma table_add_0 [simp]: "u32_add (cg_btot b c) 0 = cg_btot b c" "u16_add (cg_b b c r) 0 = cg_b b c r"
  using u16_add_eq [of "cg_b b c r" 0 "cg_b b c r"] by (simp_all add: cg_btot_def cg_b_def u32_add_def)

text \<open>\<open>tables_step\<close>: the counts of block \<open>j\<close> moved by \<open>d\<close>, and no other.\<close>

definition tables_step :: "nextufs_superblock \<Rightarrow> byte list \<Rightarrow> byte list \<Rightarrow> nat \<Rightarrow> int \<Rightarrow> bool" where
  "tables_step s b b' j d \<longleftrightarrow>
     (\<forall>c < 32. cg_btot b' c =
        u32_add (cg_btot b c) (if in_cyl s c j then d else 0)) \<and>
     (\<forall>c < 32. \<forall>r < 8. cg_b b' c r =
        u16_add (cg_b b c r) (if at_pos s c r j then d else 0))"

lemma rotational_bound: "c < 32 \<Longrightarrow> r < 8 \<Longrightarrow> 212 + (c * 8 + r) * 2 + 2 \<le> (724 :: nat)"
  by presburger

text \<open>The tables are read from the bytes 84 to 723.\<close>

lemma tables_reads_cong:
  assumes "\<And>i. 84 \<le> i \<Longrightarrow> i < 724 \<Longrightarrow> b' ! i = b ! i"
  shows "c < 32 \<Longrightarrow> cg_btot b' c = cg_btot b c" and "c < 32 \<Longrightarrow> r < 8 \<Longrightarrow> cg_b b' c r = cg_b b c r"
proof -
  show "cg_btot b' c = cg_btot b c" if "c < 32"
    using that assms unfolding cg_btot_def by (intro read_be32_cong) auto
  show "cg_b b' c r = cg_b b c r" if "c < 32" "r < 8"
  proof -
    have "b' ! (212 + (c * 8 + r) * 2) = b ! (212 + (c * 8 + r) * 2)"
      "b' ! (212 + (c * 8 + r) * 2 + 1) = b ! (212 + (c * 8 + r) * 2 + 1)"
      using rotational_bound [OF that] by (intro assms; linarith)+
    then show ?thesis unfolding cg_b_def read_be16_eq by (simp only:)
  qed
qed

lemma tables_ok_cong:
  assumes "tables_ok s P b" and "\<And>i. 84 \<le> i \<Longrightarrow> i < 724 \<Longrightarrow> b' ! i = b ! i"
    and "\<And>j i. j < cg_blocks s \<Longrightarrow> i < frags_per_block s \<Longrightarrow> Q (j * frags_per_block s + i) = P (j * frags_per_block s + i)"
  shows "tables_ok s Q b'"
  using assms(1) free_among_cong [where Q = Q and P = P and fpb = "frags_per_block s" and N = "cg_blocks s", OF assms(3)]
  unfolding tables_ok_def by (simp add: tables_reads_cong [OF assms(2)])

lemma tables_step_cong:
  assumes "tables_step s a a' j d" and "\<And>i. 84 \<le> i \<Longrightarrow> i < 724 \<Longrightarrow> b ! i = a ! i"
    and "\<And>i. 84 \<le> i \<Longrightarrow> i < 724 \<Longrightarrow> b' ! i = a' ! i"
  shows "tables_step s b b' j d"
  using assms(1) unfolding tables_step_def
  by (simp add: tables_reads_cong [OF assms(2)] tables_reads_cong [OF assms(3)])

lemma tables_kept:
  assumes "\<And>i. 84 \<le> i \<Longrightarrow> i < 724 \<Longrightarrow> b' ! i = b ! i"
  shows "tables_step s b b' j 0"
  unfolding tables_step_def by (simp add: tables_reads_cong [OF assms])

lemma tables_bumped:
  assumes "length b = n" and "984 \<le> n"
  shows "tables_step s b (bump_rotational s b (j * frags_per_block s) d) j d"
proof (cases "block_cyl s j < 32 \<and> block_pos s j < 8")
  case False
  then have "bump_rotational s b (j * frags_per_block s) d = b"
    by (auto simp: bump_rotational_def Let_def NRPOS_def block_cyl_def block_pos_def block_sector_def)
  moreover have "\<not> in_cyl s c j" "r < 8 \<Longrightarrow> \<not> at_pos s c r j" if "c < 32" for c r
    using False that by (auto simp: in_cyl_def at_pos_def NRPOS_def)
  ultimately show ?thesis by (simp add: tables_step_def)
next
  case True
  let ?c = "block_cyl s j" let ?r = "block_pos s j"
  let ?p = "84 + ?c * 4" let ?q = "212 + (?c * 8 + ?r) * 2"
  from True have C: "?c < 32" and R: "?r < 8" by simp_all
  define b1 where "b1 = bump_be32 b ?p d"
  define b2 where "b2 = bump_be16 b1 ?q d"
  have pq: "?p + 4 \<le> 212" "?q + 2 \<le> 724" using C rotational_bound [OF C R] by linarith+
  have l1: "length b1 = n" unfolding b1_def using assms pq by simp
  have l2: "length b2 = n" unfolding b2_def bump_be16_def using assms pq l1 by simp
  have eq: "bump_rotational s b (j * frags_per_block s) d = b2"
    using True by (simp add: bump_rotational_def Let_def NRPOS_def block_cyl_def block_pos_def block_sector_def
        b1_def b2_def cg_offsets)
  have r32: "cg_btot b2 c = u32_add (cg_btot b c) (if c = ?c then d else 0)"
    if c: "c < 32" for c
  proof -
    have "nextufs__read_be32 b2 (84 + c * 4) = nextufs__read_be32 b1 (84 + c * 4)"
      unfolding b2_def bump_be16_def using l1 assms(2) pq c by (intro read_be32_cong nth_write_be16) auto
    also have "\<dots> = u32_add (nextufs__read_be32 b (84 + c * 4)) (if c = ?c then d else 0)"
    proof (cases "c = ?c")
      case True
      then show ?thesis unfolding b1_def using assms pq by simp
    next
      case False
      then have "84 + c * 4 + 4 \<le> ?p \<or> ?p + 4 \<le> 84 + c * 4" by linarith
      with False show ?thesis unfolding b1_def using assms pq c by (simp add: u32_add_def)
    qed
    finally show ?thesis unfolding cg_btot_def .
  qed
  have r16: "cg_b b2 c r = u16_add (cg_b b c r) (if c = ?c \<and> r = ?r then d else 0)"
    if c: "c < 32" and r: "r < 8" for c r
  proof -
    let ?x = "212 + (c * 8 + r) * 2"
    have xb: "?x + 2 \<le> 724" by (rule rotational_bound [OF c r])
    have before: "?p + 4 \<le> ?x" using pq(1) by linarith
    have same: "nextufs__read_be16 b1 ?x = nextufs__read_be16 b ?x"
      unfolding b1_def bump_be32_def using assms before xb by (intro read_be16_frame32 disjI2) linarith+
    show ?thesis
    proof (cases "c = ?c \<and> r = ?r")
      case True
      then have x: "?x = ?q" by simp
      have "nextufs__read_be16 b2 ?q = u16 (nat ((int (nextufs__read_be16 b1 ?q) + d) mod 2 ^ 16))"
        unfolding b2_def bump_be16_def using l1 assms pq by (intro read_write_be16) linarith
      also have "\<dots> = u16_add (nextufs__read_be16 b1 ?q) d"
        by (simp add: u16_add_def u16_def nat_less_iff)
      finally show ?thesis using True same unfolding cg_b_def x by simp
    next
      case False
      then have "c * 8 + r \<noteq> ?c * 8 + ?r" using r R by presburger
      moreover have "212 + m * 2 + 2 \<le> 212 + k * 2 \<or> 212 + k * 2 + 2 \<le> 212 + m * 2" if "m \<noteq> k" for m k :: nat
        using that by arith
      ultimately have "?x + 2 \<le> ?q \<or> ?q + 2 \<le> ?x" by blast
      then have "nextufs__read_be16 b2 ?x = nextufs__read_be16 b1 ?x"
        unfolding b2_def bump_be16_def using l1 assms pq xb by (intro read_be16_frame) (linarith, linarith, assumption)
      with False same show ?thesis using table_add_0(2) [of b c r] unfolding cg_b_def by (simp only: if_False)
    qed
  qed
  show ?thesis
    unfolding tables_step_def eq
    using r32 r16 R by (auto simp: in_cyl_def at_pos_def NRPOS_def)
qed

text \<open>The tables stay those of the map when the move is that of the block.\<close>

lemma tables_ok_step:
  assumes ok: "tables_ok s P b" and N: "cg_blocks s \<le> 57664" and j: "j < cg_blocks s"
    and st: "tables_step s b b' j d"
    and same: "\<And>k. k < j * frags_per_block s \<or> j * frags_per_block s + frags_per_block s \<le> k \<Longrightarrow> Q k = P k"
    and d: "d = (if whole_free Q (frags_per_block s) j then 1 else 0) - (if whole_free P (frags_per_block s) j then 1 else 0)"
  shows "tables_ok s Q b'"
proof -
  let ?fpb = "frags_per_block s" let ?N = "cg_blocks s"
  have sum: "int (free_among A P ?fpb ?N) + (if A j then d else 0) = int (free_among A Q ?fpb ?N)" for A
    using free_among_change [OF j, of ?fpb Q P A, OF same] unfolding d by (cases "A j"; cases "whole_free Q ?fpb j"; cases "whole_free P ?fpb j") simp_all
  have small: "free_among A Q ?fpb ?N < 4294967296" "free_among A Q ?fpb ?N < 65536" for A
    using free_among_le [of A Q ?fpb ?N] N by linarith+
  have e32: "u32_add v x = w" if "int v + x = int w" "w < 4294967296" for v w x
    using that by (simp add: u32_add_def)
  show ?thesis
    using ok st unfolding tables_ok_def tables_step_def
    by (auto simp: e32 [OF sum small(1)] u16_add_eq [OF sum small(2)])
qed

end
