(* ===== verification/Group_Census.thy ===== *)
theory Group_Census
  imports Rotational_Tables
begin

text \<open>
  The counters of a cylinder group against its map. Each buffer operation of \<^verbatim>\<open>src/core/alloc.c\<close>
  moves the counters by the difference of the census of the one block it changes, so it keeps them
  exact; and the searches of the fragment allocator miss no free run.
\<close>

section \<open>What the buffer operations change\<close>

text \<open>
  The header as the fields the census is about, and the two maps. The length \<open>L\<close> of the buffer is
  fixed, so that a chain of writes is evaluated step by step.
\<close>

lemma bump_fixed:
  "length b = n \<Longrightarrow> p + 4 \<le> n \<Longrightarrow> length (bump_be32 b p d) = n"
  "length b = n \<Longrightarrow> p + 4 \<le> n \<Longrightarrow> nextufs__read_be32 (bump_be32 b p d) p = u32_add (nextufs__read_be32 b p) d"
  "length b = n \<Longrightarrow> p + 4 \<le> n \<Longrightarrow> q + 4 \<le> n \<Longrightarrow> q + 4 \<le> p \<or> p + 4 \<le> q \<Longrightarrow>
   nextufs__read_be32 (bump_be32 b p d) q = nextufs__read_be32 b q"
  by simp_all

lemma nth_fixed:
  "length b = n \<Longrightarrow> p + 4 \<le> n \<Longrightarrow> i < n \<Longrightarrow> i < p \<or> p + 4 \<le> i \<Longrightarrow> bump_be32 b p d ! i = b ! i"
  "length b = n \<Longrightarrow> p + 4 \<le> n \<Longrightarrow> i < n \<Longrightarrow> i < p \<or> p + 4 \<le> i \<Longrightarrow> nextufs__write_be32 b p v ! i = b ! i"
  by (auto simp: bump_be32_def nth_write_be32)

lemma rotational_frame:
  assumes "length b = n" and "984 \<le> n"
  shows "length (bump_rotational s b local_frag d) = n"
    and "\<And>i. i < n \<Longrightarrow> i < 84 \<or> 724 \<le> i \<Longrightarrow> bump_rotational s b local_frag d ! i = b ! i"
proof -
  let ?c = "u32 (local_frag * sectors_per_frag s) div sectors_per_cyl s"
  let ?r = "u32 (u32 (local_frag * sectors_per_frag s) mod sectors_per_cyl s mod sectors_per_track s * NRPOS)
    div sectors_per_track s"
  let ?b1 = "bump_be32 b (84 + ?c * 4) d"
  show "length (bump_rotational s b local_frag d) = n"
  proof (cases "?c < 32 \<and> ?r < 8")
    case True
    then have "84 + ?c * 4 + 4 \<le> 212" "212 + (?c * 8 + ?r) * 2 + 2 \<le> 724"
      by (linarith, blast intro: rotational_bound)
    then have "84 + ?c * 4 + 4 \<le> n" "212 + (?c * 8 + ?r) * 2 + 2 \<le> n" using assms(2) by linarith+
    with True assms show ?thesis
      by (simp add: bump_rotational_def Let_def NRPOS_def cg_offsets bump_be16_def)
  qed (use assms in \<open>auto simp: bump_rotational_def Let_def NRPOS_def\<close>)
  fix i assume i: "i < n" "i < 84 \<or> 724 \<le> i"
  show "bump_rotational s b local_frag d ! i = b ! i"
  proof (cases "?c < 32 \<and> ?r < 8")
    case True
    then have le: "84 + ?c * 4 + 4 \<le> 212" "212 + (?c * 8 + ?r) * 2 + 2 \<le> 724"
      by (linarith, blast intro: rotational_bound)
    have l1: "length ?b1 = n" using assms le by simp
    have "nextufs__write_be16 ?b1 (212 + (?c * 8 + ?r) * 2) v ! i = ?b1 ! i" for v
      using l1 le i assms(2) by (intro nth_write_be16) auto
    moreover have "?b1 ! i = b ! i" using assms le i by (intro nth_fixed) auto
    ultimately show ?thesis using True
      by (simp add: bump_rotational_def Let_def NRPOS_def cg_offsets bump_be16_def)
  qed (auto simp: bump_rotational_def Let_def NRPOS_def)
qed

lemma rotational_reads:
  assumes "length b = n" and "984 \<le> n"
  shows "q + 4 \<le> 84 \<Longrightarrow> nextufs__read_be32 (bump_rotational s b local_frag d) q = nextufs__read_be32 b q"
    and "980 \<le> q \<Longrightarrow> q + 4 \<le> n \<Longrightarrow>
      nextufs__read_be32 (bump_rotational s b local_frag d) q = nextufs__read_be32 b q"
  using assms by (auto intro!: read_be32_cong rotational_frame(2) [OF assms])

text \<open>
  \<open>group_step\<close>: a buffer operation replaced the free map bits as \<open>Q\<close> says and moved the counters
  by the given differences, and kept the size of the group, the magic number and the inode map.
\<close>

definition group_step ::
  "nat \<Rightarrow> byte list \<Rightarrow> byte list \<Rightarrow> (nat \<Rightarrow> bool) \<Rightarrow> int \<Rightarrow> int \<Rightarrow> (nat \<Rightarrow> int) \<Rightarrow> bool" where
  "group_step L b b' Q d_nbfree d_nffree d_frsum \<longleftrightarrow> length b' = L \<and>
     nextufs__read_be32 b' CG_NDBLK_OFF = nextufs__read_be32 b CG_NDBLK_OFF \<and>
     nextufs__read_be32 b' CG_MAGIC_OFF = nextufs__read_be32 b CG_MAGIC_OFF \<and>
     nextufs__read_be32 b' CG_CS_NIFREE_OFF = nextufs__read_be32 b CG_CS_NIFREE_OFF \<and>
     (\<forall>i. 724 \<le> i \<and> i < 984 \<longrightarrow> b' ! i = b ! i) \<and>
     (\<forall>k. CG_FREE_OFF + k div 8 < L \<longrightarrow> map_bit b' CG_FREE_OFF k = Q k) \<and>
     nextufs__read_be32 b' CG_CS_NBFREE_OFF = u32_add (nextufs__read_be32 b CG_CS_NBFREE_OFF) d_nbfree \<and>
     nextufs__read_be32 b' CG_CS_NFFREE_OFF = u32_add (nextufs__read_be32 b CG_CS_NFFREE_OFF) d_nffree \<and>
     (\<forall>k. 1 \<le> k \<and> k < 8 \<longrightarrow> nextufs__read_be32 b' (52 + k * 4) =
        u32_add (nextufs__read_be32 b (52 + k * 4)) (d_frsum k))"

lemma u32_add_0 [simp]: "u32_add (nextufs__read_be32 b p) 0 = nextufs__read_be32 b p"
  by (simp add: u32_add_exact)

lemma map_bit_header:
  assumes "\<And>i. 984 \<le> i \<Longrightarrow> i < L \<Longrightarrow> b' ! i = b ! i" and "984 + k div 8 < L"
  shows "map_bit b' 984 k = map_bit b 984 k"
  using assms by (intro map_bit_cong) simp

text \<open>Fields and lengths of a buffer of length \<open>L\<close> after any chain of the updates below.\<close>

lemmas fixed_rules = length_writes [where n = L] bump_fixed [where n = L] nth_fixed [where n = L]
  read_be32_writes [where n = L] rotational_frame [where n = L] rotational_reads [where n = L] for L

lemmas generic_rules = length_write_be32 length_bump read_bump read_bump_frame read_write_be32
  read_be32_frame map_bit_write_be32

lemma clear_reads:
  "q + 4 \<le> 984 \<Longrightarrow>
   nextufs__read_be32 (nextufs__clear_block_bits b 984 base n) q = nextufs__read_be32 b q"
  by (rule read_be32_clear_block_bits)

lemma cg_take_block_step:
  assumes L: "length b = L" "984 \<le> L" "984 + (local_frag + n + 7) div 8 \<le> L"
    and fpb: "frags_per_block s \<le> 8" and n: "n \<le> frags_per_block s" "0 < n"
  shows "group_step L b (cg_take_block s b local_frag n now)
    (\<lambda>k. map_bit b 984 k \<and> \<not> (local_frag \<le> k \<and> k < local_frag + n))
    (- 1) (int (frags_per_block s - n)) (\<lambda>k. if k = frags_per_block s - n then 1 else 0)"
    and "local_frag = j * frags_per_block s \<Longrightarrow> tables_step s b (cg_take_block s b local_frag n now) j (- 1)"
proof -
  let ?f = "frags_per_block s - n"
  define b1 where "b1 = nextufs__clear_block_bits b 984 local_frag n"
  define b2 where "b2 = bump_be32 (bump_be32 (nextufs__write_be32 b1 40 local_frag) 28 (- 1)) 36 (int ?f)"
  define b3 where "b3 = (if 0 < ?f then bump_be32 b2 (52 + ?f * 4) 1 else b2)"
  define b4 where "b4 = nextufs__write_be32 b3 8 now"
  have f8: "?f < 8" using fpb n by linarith
  then have f84: "52 + ?f * 4 + 4 \<le> 84" by linarith
  have l1: "length b1 = L" using L by (simp add: b1_def)
  have l2: "length b2 = L" using l1 L by (simp add: b2_def fixed_rules [where L = L] del: generic_rules)
  have l3: "length b3 = L" using l2 L f84 by (simp add: b3_def)
  have l4: "length b4 = L" using l3 L by (simp add: b4_def)
  have eq: "cg_take_block s b local_frag n now = bump_rotational s b4 local_frag (- 1)"
    by (simp add: cg_take_block_def Let_def b4_def b3_def b2_def b1_def cg_offsets)
  note rot = rotational_frame [OF l4 L(2), where s = s and local_frag = local_frag and d = "- 1"]
  note rrd = rotational_reads [OF l4 L(2), where s = s and local_frag = local_frag and d = "- 1"]
  have n4: "b4 ! i = b1 ! i" if "724 \<le> i" "i < L" for i
    using that l1 l2 l3 L f84 by (simp add: b4_def b3_def b2_def fixed_rules [where L = L] del: generic_rules)
  have r4: "nextufs__read_be32 b4 q = nextufs__read_be32 b2 q"
    if "q + 4 \<le> 52" "12 \<le> q" for q
    using that l2 l3 L f84 by (simp add: b4_def b3_def fixed_rules [where L = L] del: generic_rules)
  have r1: "nextufs__read_be32 b1 q = nextufs__read_be32 b q" if "q + 4 \<le> 984" for q
    using that by (simp add: b1_def clear_reads)
  have r2: "nextufs__read_be32 b2 20 = nextufs__read_be32 b 20" "nextufs__read_be32 b2 32 = nextufs__read_be32 b 32"
    "nextufs__read_be32 b2 28 = u32_add (nextufs__read_be32 b 28) (- 1)"
    "nextufs__read_be32 b2 36 = u32_add (nextufs__read_be32 b 36) (int ?f)"
    using l1 L r1 by (simp_all add: b2_def fixed_rules [where L = L] del: generic_rules)
  have r3: "nextufs__read_be32 b4 (52 + k * 4) = u32_add (nextufs__read_be32 b (52 + k * 4)) (if k = ?f then 1 else 0)"
    if k: "1 \<le> k" "k < 8" for k
  proof -
    have k84: "52 + k * 4 + 4 \<le> 84" using k by linarith
    have e2: "nextufs__read_be32 b2 (52 + k * 4) = nextufs__read_be32 b (52 + k * 4)"
      using k84 l1 L r1 by (simp add: b2_def fixed_rules [where L = L] del: generic_rules)
    have "nextufs__read_be32 b4 (52 + k * 4) = nextufs__read_be32 b3 (52 + k * 4)"
      using k84 l3 L by (simp add: b4_def fixed_rules [where L = L] del: generic_rules)
    also have "\<dots> = u32_add (nextufs__read_be32 b (52 + k * 4)) (if k = ?f then 1 else 0)"
    proof (cases "k = ?f")
      case True
      then have "0 < ?f" using k by simp
      then have "b3 = bump_be32 b2 (52 + ?f * 4) 1" by (simp add: b3_def)
      moreover have "52 + ?f * 4 + 4 \<le> length b2" using f84 L l2 by linarith
      ultimately show ?thesis using e2 unfolding True by simp
    next
      case False
      then have "52 + k * 4 + 4 \<le> 52 + ?f * 4 \<or> 52 + ?f * 4 + 4 \<le> 52 + k * 4" by linarith
      moreover have "52 + ?f * 4 + 4 \<le> length b2" "52 + k * 4 + 4 \<le> length b2" using f84 k84 L l2 by linarith+
      ultimately show ?thesis using e2 False by (simp add: b3_def)
    qed
    finally show ?thesis .
  qed
  have magic: "nextufs__read_be32 b4 980 = nextufs__read_be32 b 980"
    using n4 L r1 [of 980] read_be32_cong [of b4 980 b1 980] by simp
  have bits: "map_bit (bump_rotational s b4 local_frag (- 1)) 984 k \<longleftrightarrow>
      map_bit b 984 k \<and> \<not> (local_frag \<le> k \<and> k < local_frag + n)" if "984 + k div 8 < L" for k
  proof -
    have "map_bit (bump_rotational s b4 local_frag (- 1)) 984 k = map_bit b1 984 k"
      using rot(2) n4 that by (intro map_bit_header [where L = L]) auto
    then show ?thesis unfolding b1_def using L by (simp add: map_bit_clear_block_bits)
  qed
  have low: "b1 ! i = b ! i" if "i < 984" for i
    using that by (simp add: b1_def nth_clear_block_bits)
  show "group_step L b (cg_take_block s b local_frag n now)
    (\<lambda>k. map_bit b 984 k \<and> \<not> (local_frag \<le> k \<and> k < local_frag + n))
    (- 1) (int (frags_per_block s - n)) (\<lambda>k. if k = frags_per_block s - n then 1 else 0)"
    unfolding group_step_def eq cg_offsets
    using rot rrd r2 r3 r4 magic bits n4 low L by (intro conjI allI impI) simp_all
  have "b4 ! i = b ! i" if "84 \<le> i" "i < 724" for i
    using that l1 l2 l3 L f84 low by (simp add: b4_def b3_def b2_def fixed_rules [where L = L] del: generic_rules)
  then show "tables_step s b (cg_take_block s b local_frag n now) j (- 1)" if "local_frag = j * frags_per_block s"
    unfolding eq [unfolded that] that by (intro tables_step_cong [OF tables_bumped [OF l4 L(2)]]) simp_all
qed

definition run_delta :: "(nat \<Rightarrow> bool) \<Rightarrow> (nat \<Rightarrow> bool) \<Rightarrow> nat \<Rightarrow> nat \<Rightarrow> nat \<Rightarrow> int" where
  "run_delta P Q base fpb k =
     (if k < fpb then int (card (run_starts (\<lambda>i. Q (base + i)) fpb k)) -
        int (card (run_starts (\<lambda>i. P (base + i)) fpb k)) else 0)"

text \<open>The run-length summary after a change of the map, from the two counts of the block.\<close>

lemma frsum_step:
  assumes L: "length b1 = L" "984 \<le> L" and fpb: "fpb \<le> 8"
    and low: "\<And>i. i < 984 \<Longrightarrow> b1 ! i = b ! i"
    and Q: "\<And>i. i < fpb \<Longrightarrow> map_bit b1 984 (base + i) = Q (base + i)"
  defines "b2 \<equiv> nextufs__apply_cg_frsum_delta b1
      (nextufs__count_free_runs_in_block b 984 base fpb) (nextufs__count_free_runs_in_block b1 984 base fpb) fpb"
  shows "length b2 = L" "\<And>i. i < L \<Longrightarrow> i < 52 \<or> 84 \<le> i \<Longrightarrow> b2 ! i = b1 ! i"
    "\<And>k. 1 \<le> k \<Longrightarrow> k < 8 \<Longrightarrow> nextufs__read_be32 b2 (52 + k * 4) =
      u32_add (nextufs__read_be32 b (52 + k * 4)) (run_delta (map_bit b 984) Q base fpb k)"
proof -
  have L84: "84 \<le> length b1" using L by simp
  note d = frsum_delta_upto [OF fpb L84, of "nextufs__count_free_runs_in_block b1 984 base fpb"
      "nextufs__count_free_runs_in_block b 984 base fpb"]
  show "length b2 = L" "\<And>i. i < L \<Longrightarrow> i < 52 \<or> 84 \<le> i \<Longrightarrow> b2 ! i = b1 ! i"
    using d L(1) unfolding b2_def nextufs__apply_cg_frsum_delta_def by auto
  fix k :: nat assume k: "1 \<le> k" "k < 8"
  have "52 + k * 4 + 4 \<le> 984" using k by linarith
  then have rd: "nextufs__read_be32 b1 (52 + k * 4) = nextufs__read_be32 b (52 + k * 4)"
    by (intro read_be32_cong low) linarith
  have cnt: "nextufs__count_free_runs_in_block b1 984 base fpb ! k = card (run_starts (\<lambda>i. Q (base + i)) fpb k)"
    if "k < fpb" using k(1) that run_starts_cong [OF Q] by (simp add: count_free_runs_spec)
  have cnt0: "nextufs__count_free_runs_in_block b 984 base fpb ! k =
      card (run_starts (\<lambda>i. map_bit b 984 (base + i)) fpb k)"
    if "k < fpb" using k(1) that by (simp add: count_free_runs_spec)
  from d k have "nextufs__read_be32 b2 (52 + k * 4) =
    (if k < fpb then u32_add (nextufs__read_be32 b1 (52 + k * 4))
       (int (nextufs__count_free_runs_in_block b1 984 base fpb ! k) -
        int (nextufs__count_free_runs_in_block b 984 base fpb ! k))
     else nextufs__read_be32 b1 (52 + k * 4))"
    unfolding b2_def nextufs__apply_cg_frsum_delta_def by blast
  then show "nextufs__read_be32 b2 (52 + k * 4) =
      u32_add (nextufs__read_be32 b (52 + k * 4)) (run_delta (map_bit b 984) Q base fpb k)"
    using cnt cnt0 rd by (simp add: run_delta_def)
qed

text \<open>The common end of the operations on a partly used block.\<close>

lemma counters_step:
  assumes L: "length b1 = L" "984 \<le> L" and fpb: "fpb \<le> 8"
    and low: "\<And>i. i < 984 \<Longrightarrow> b1 ! i = b ! i"
    and Q: "\<And>k. 984 + k div 8 < L \<Longrightarrow> map_bit b1 984 k = Q k"
    and rng: "984 + (base + fpb + 7) div 8 \<le> L"
  defines "b2 \<equiv> nextufs__apply_cg_frsum_delta b1
      (nextufs__count_free_runs_in_block b 984 base fpb) (nextufs__count_free_runs_in_block b1 984 base fpb) fpb"
  shows "group_step L b (nextufs__write_be32 (bump_be32 b2 36 d) 8 now) Q 0 d
      (run_delta (map_bit b 984) Q base fpb)"
    and "tables_step s b (nextufs__write_be32 (bump_be32 b2 36 d) 8 now) j 0"
proof -
  have inL: "984 + (base + i) div 8 < L" if "i < fpb" for i using that rng by linarith
  note f = frsum_step [OF L fpb low, where Q = Q and base = base, folded b2_def, OF _ Q [OF inL]]
  have l2: "length b2 = L" using f(1) by blast
  have n2: "b2 ! i = b1 ! i" if "i < L" "i < 52 \<or> 84 \<le> i" for i using f(2) that by blast
  let ?b = "nextufs__write_be32 (bump_be32 b2 36 d) 8 now"
  have l3: "length ?b = L" using l2 L by (simp add: fixed_rules [where L = L] del: generic_rules)
  have n3: "?b ! i = b1 ! i" if "724 \<le> i" "i < L" for i
    using that l2 L n2 by (simp add: fixed_rules [where L = L] del: generic_rules)
  have r2: "nextufs__read_be32 b2 q = nextufs__read_be32 b q" if "q + 4 \<le> 52" for q
    using that L n2 low by (intro read_be32_cong) simp
  have r3: "nextufs__read_be32 ?b 20 = nextufs__read_be32 b 20" "nextufs__read_be32 ?b 32 = nextufs__read_be32 b 32"
    "nextufs__read_be32 ?b 28 = nextufs__read_be32 b 28"
    "nextufs__read_be32 ?b 36 = u32_add (nextufs__read_be32 b 36) d"
    using l2 L r2 by (simp_all add: fixed_rules [where L = L] del: generic_rules)
  have r4: "nextufs__read_be32 ?b (52 + k * 4) =
      u32_add (nextufs__read_be32 b (52 + k * 4)) (run_delta (map_bit b 984) Q base fpb k)"
    if k: "1 \<le> k" "k < 8" for k
  proof -
    have "52 + k * 4 + 4 \<le> 84" using k by linarith
    then have "nextufs__read_be32 ?b (52 + k * 4) = nextufs__read_be32 b2 (52 + k * 4)"
      using l2 L by (simp add: fixed_rules [where L = L] del: generic_rules)
    with f(3) k show ?thesis by simp
  qed
  have magic: "nextufs__read_be32 ?b 980 = nextufs__read_be32 b 980"
    using n3 low L by (intro read_be32_cong) simp
  have bits: "map_bit ?b 984 k = Q k" if "984 + k div 8 < L" for k
    using map_bit_header [where L = L, of ?b b1 k] n3 that Q [OF that] by simp
  show "group_step L b ?b Q 0 d (run_delta (map_bit b 984) Q base fpb)"
    unfolding group_step_def cg_offsets
    using l3 n3 r3 r4 magic bits low L by (intro conjI allI impI) simp_all
  show "tables_step s b ?b j 0"
    using l2 L n2 low by (intro tables_kept) (simp add: fixed_rules [where L = L] del: generic_rules)
qed

lemma cg_take_partial_step:
  assumes L: "length b = L" "984 \<le> L" "984 + (start + n + 7) div 8 \<le> L"
    and rng: "984 + (local_frag + frags_per_block s + 7) div 8 \<le> L" and fpb: "frags_per_block s \<le> 8"
  defines "Q \<equiv> \<lambda>k. map_bit b 984 k \<and> \<not> (start \<le> k \<and> k < start + n)"
  shows "group_step L b (cg_take_partial s b local_frag start n now) Q 0 (- int n)
      (run_delta (map_bit b 984) Q local_frag (frags_per_block s))"
    and "tables_step s b (cg_take_partial s b local_frag start n now) j 0"
proof -
  let ?b1 = "nextufs__clear_block_bits b 984 start n"
  have l1: "length ?b1 = L" using L by simp
  have low: "?b1 ! i = b ! i" if "i < 984" for i using that by (simp add: nth_clear_block_bits)
  have Q: "map_bit ?b1 984 k = Q k" for k
    using L by (simp add: Q_def map_bit_clear_block_bits)
  note st = counters_step [OF l1 L(2) fpb low Q rng, where d = "- int n" and now = now]
  show "group_step L b (cg_take_partial s b local_frag start n now) Q 0 (- int n)
      (run_delta (map_bit b 984) Q local_frag (frags_per_block s))"
    "tables_step s b (cg_take_partial s b local_frag start n now) j 0"
    using st by (simp_all add: cg_take_partial_def Let_def cg_offsets)
qed

lemma cg_extend_eq:
  "cg_extend s buf local_frag old_frags added now =
   cg_take_partial s buf (local_frag - local_frag mod frags_per_block s) (local_frag + old_frags) added now"
  by (simp add: cg_extend_def cg_take_partial_def Let_def)

lemma free_bits_Some:
  "free_bits b m ks = Some b' \<Longrightarrow> (\<And>k. k \<in> set ks \<Longrightarrow> m + k div 8 < length b) \<Longrightarrow>
   length b' = length b \<and> (\<forall>i < m. b' ! i = b ! i) \<and> (\<forall>k \<in> set ks. \<not> map_bit b m k) \<and>
   (\<forall>k. map_bit b' m k \<longleftrightarrow> map_bit b m k \<or> k \<in> set ks)"
proof (induction ks arbitrary: b)
  case (Cons k ks)
  from Cons.prems have nk: "\<not> map_bit b m k" and r: "free_bits (map_set b m k) m ks = Some b'"
    by (auto split: if_splits)
  have in_range: "m + k div 8 < length b" using Cons.prems(2) by simp
  from Cons.IH [OF r] Cons.prems(2) have
    IH: "length b' = length b" "\<forall>i < m. b' ! i = map_set b m k ! i"
    "\<forall>l \<in> set ks. \<not> map_bit (map_set b m k) m l"
    "\<forall>l. map_bit b' m l \<longleftrightarrow> map_bit (map_set b m k) m l \<or> l \<in> set ks" by auto
  then show ?case using nk map_bit_set [OF in_range] by (auto simp: nth_map_set)
qed simp

lemma free_bits_None:
  "free_bits b m ks = None \<Longrightarrow> distinct ks \<Longrightarrow> (\<And>k. k \<in> set ks \<Longrightarrow> m + k div 8 < length b) \<Longrightarrow>
   \<exists>k \<in> set ks. map_bit b m k"
proof (induction ks arbitrary: b)
  case (Cons k ks)
  show ?case
  proof (cases "map_bit b m k")
    case False
    with Cons.prems have r: "free_bits (map_set b m k) m ks = None" by simp
    from Cons.IH [OF r] Cons.prems obtain l where "l \<in> set ks" "map_bit (map_set b m k) m l" by auto
    with Cons.prems show ?thesis by (auto simp: map_bit_set)
  qed simp
qed simp

lemma block_given_back_step:
  assumes L: "length b1 = L" "984 \<le> L" and fpb: "fpb \<le> 8"
    and low: "\<And>i. i < 984 \<Longrightarrow> b1 ! i = b ! i"
    and Q: "\<And>k. 984 + k div 8 < L \<Longrightarrow> map_bit b1 984 k = Q k"
    and rng: "984 + (base + fpb + 7) div 8 \<le> L"
  defines "b2 \<equiv> nextufs__apply_cg_frsum_delta b1
      (nextufs__count_free_runs_in_block b 984 base fpb) (nextufs__count_free_runs_in_block b1 984 base fpb) fpb"
  shows "group_step L b (nextufs__write_be32 (bump_rotational s (bump_be32 (bump_be32 b2 36 d) 28 1) base 1) 8 now)
      Q 1 d (run_delta (map_bit b 984) Q base fpb)"
    and "base = j * frags_per_block s \<Longrightarrow>
      tables_step s b (nextufs__write_be32 (bump_rotational s (bump_be32 (bump_be32 b2 36 d) 28 1) base 1) 8 now) j 1"
proof -
  have inL: "984 + (base + i) div 8 < L" if "i < fpb" for i using that rng by linarith
  note f = frsum_step [OF L fpb low, where Q = Q and base = base, folded b2_def, OF _ Q [OF inL]]
  have l2: "length b2 = L" using f(1) by blast
  have n2: "b2 ! i = b1 ! i" if "i < L" "i < 52 \<or> 84 \<le> i" for i using f(2) that by blast
  define b3 where "b3 = bump_be32 (bump_be32 b2 36 d) 28 1"
  have l3: "length b3 = L" using l2 L by (simp add: b3_def fixed_rules [where L = L] del: generic_rules)
  note rot = rotational_frame [OF l3 L(2), where s = s and local_frag = base and d = 1]
  note rrd = rotational_reads [OF l3 L(2), where s = s and local_frag = base and d = 1]
  let ?b = "nextufs__write_be32 (bump_rotational s b3 base 1) 8 now"
  have l4: "length ?b = L" using rot(1) L by (simp add: fixed_rules [where L = L] del: generic_rules)
  have n4: "?b ! i = b1 ! i" if "724 \<le> i" "i < L" for i
    using that rot l2 L n2 by (simp add: b3_def fixed_rules [where L = L] del: generic_rules)
  have r2: "nextufs__read_be32 b2 q = nextufs__read_be32 b q" if "q + 4 \<le> 52" for q
    using that L n2 low by (intro read_be32_cong) simp
  have r4: "nextufs__read_be32 ?b q = nextufs__read_be32 b3 q" if "q + 4 \<le> 84" "12 \<le> q" for q
    using that rot(1) rrd(1) L by (simp add: fixed_rules [where L = L] del: generic_rules)
  have r3: "nextufs__read_be32 b3 20 = nextufs__read_be32 b 20" "nextufs__read_be32 b3 32 = nextufs__read_be32 b 32"
    "nextufs__read_be32 b3 28 = u32_add (nextufs__read_be32 b 28) 1"
    "nextufs__read_be32 b3 36 = u32_add (nextufs__read_be32 b 36) d"
    using l2 L r2 by (simp_all add: b3_def fixed_rules [where L = L] del: generic_rules)
  have rf: "nextufs__read_be32 ?b (52 + k * 4) =
      u32_add (nextufs__read_be32 b (52 + k * 4)) (run_delta (map_bit b 984) Q base fpb k)"
    if k: "1 \<le> k" "k < 8" for k
  proof -
    have k84: "52 + k * 4 + 4 \<le> 84" using k by linarith
    then have "nextufs__read_be32 b3 (52 + k * 4) = nextufs__read_be32 b2 (52 + k * 4)"
      using l2 L by (simp add: b3_def fixed_rules [where L = L] del: generic_rules)
    with f(3) k r4 [OF k84] show ?thesis by simp
  qed
  have magic: "nextufs__read_be32 ?b 980 = nextufs__read_be32 b 980"
    using n4 low L by (intro read_be32_cong) simp
  have bits: "map_bit ?b 984 k = Q k" if "984 + k div 8 < L" for k
    using map_bit_header [where L = L, of ?b b1 k] n4 that Q [OF that] by simp
  show "group_step L b (nextufs__write_be32 (bump_rotational s (bump_be32 (bump_be32 b2 36 d) 28 1) base 1) 8 now)
      Q 1 d (run_delta (map_bit b 984) Q base fpb)"
    unfolding group_step_def cg_offsets b3_def [symmetric]
    using l4 n4 r3 r4 rf magic bits low L by (intro conjI allI impI) simp_all
  have "b3 ! i = b ! i" if "84 \<le> i" "i < 724" for i
    using that l2 L n2 low by (simp add: b3_def fixed_rules [where L = L] del: generic_rules)
  moreover have "?b ! i = bump_rotational s b3 base 1 ! i" if "84 \<le> i" "i < 724" for i
    using that rot(1) L by (simp add: fixed_rules [where L = L] del: generic_rules)
  ultimately show "tables_step s b (nextufs__write_be32 (bump_rotational s (bump_be32 (bump_be32 b2 36 d) 28 1) base 1) 8 now) j 1"
    if "base = j * frags_per_block s"
    unfolding b3_def [symmetric] using tables_step_cong [OF tables_bumped [OF l3 L(2), of s j 1], of b ?b] that by simp
qed

lemma cg_free_run_step:
  assumes L: "length b = L" "984 \<le> L" and fpb: "frags_per_block s \<le> 8" "0 < frags_per_block s"
    and blk: "local_frag mod frags_per_block s + frags \<le> frags_per_block s"
    and rng: "984 + (local_frag - local_frag mod frags_per_block s + frags_per_block s + 7) div 8 \<le> L"
    and r: "cg_free_run s b local_frag frags now = Some (b', db, df)"
  defines "Q \<equiv> \<lambda>k. map_bit b 984 k \<or> (local_frag \<le> k \<and> k < local_frag + frags)"
    and "base \<equiv> local_frag - local_frag mod frags_per_block s"
  shows "(\<forall>k. local_frag \<le> k \<and> k < local_frag + frags \<longrightarrow> \<not> map_bit b 984 k) \<and>
    group_step L b b' Q db df (run_delta (map_bit b 984) Q base (frags_per_block s)) \<and>
    db = (if \<forall>i < frags_per_block s. Q (base + i) then 1 else 0) \<and>
    df = int frags - (if \<forall>i < frags_per_block s. Q (base + i) then int (frags_per_block s) else 0) \<and>
    tables_step s b b' (local_frag div frags_per_block s) db"
proof -
  let ?fpb = "frags_per_block s" let ?ks = "map (\<lambda>i. local_frag + i) [0..<frags]"
  from r obtain b1 where b1: "free_bits b 984 ?ks = Some b1"
    by (auto simp: cg_free_run_def Let_def cg_offsets split: option.splits)
  have ks: "k \<in> set ?ks \<longleftrightarrow> local_frag \<le> k \<and> k < local_frag + frags" for k
  proof
    assume "local_frag \<le> k \<and> k < local_frag + frags"
    then show "k \<in> set ?ks" by (auto intro!: image_eqI [of _ _ "k - local_frag"])
  qed auto
  have base: "base + local_frag mod ?fpb = local_frag" by (simp add: base_def)
  have bj: "base = local_frag div ?fpb * ?fpb" unfolding base_def by (rule minus_mod_eq_div_mult)
  have "984 + k div 8 < length b" if "k \<in> set ?ks" for k
  proof -
    from that ks have "k < local_frag + frags" by simp
    then have "k < base + ?fpb" using base blk by linarith
    then show ?thesis using rng L(1) unfolding base_def by linarith
  qed
  note fb = free_bits_Some [OF b1 this]
  have l1: "length b1 = L" and low: "\<And>i. i < 984 \<Longrightarrow> b1 ! i = b ! i"
    and none: "\<forall>k. local_frag \<le> k \<and> k < local_frag + frags \<longrightarrow> \<not> map_bit b 984 k"
    and Q: "\<And>k. map_bit b1 984 k = Q k" using fb ks L by (auto simp: Q_def)
  define b2 where "b2 = nextufs__apply_cg_frsum_delta b1
      (nextufs__count_free_runs_in_block b 984 base ?fpb) (nextufs__count_free_runs_in_block b1 984 base ?fpb) ?fpb"
  have inL: "984 + (base + i) div 8 < L" if "i < ?fpb" for i using that rng unfolding base_def by linarith
  have n2: "b2 ! i = b1 ! i" if "84 \<le> i" "i < L" for i
    using frsum_step(2) [OF l1 L(2) fpb(1) low, where Q = Q and base = base, folded b2_def] Q that by simp
  have "nextufs__block_is_free b2 984 base ?fpb \<longleftrightarrow> (\<forall>i < ?fpb. Q (base + i))"
    using map_bit_header [where L = L, of b2 b1] n2 inL Q by (auto simp: block_is_free_iff)
  note r' = r [unfolded cg_free_run_def Let_def cg_offsets b1 option.case base_def [symmetric] b2_def [symmetric] this]
  show ?thesis
  proof (cases "\<forall>i < ?fpb. Q (base + i)")
    case True
    with r' have "b' = nextufs__write_be32 (bump_rotational s (bump_be32 (bump_be32 b2 36 (int frags - int ?fpb)) 28 1) base 1) 8 now"
      and d: "db = 1" "df = int frags - int ?fpb" by auto
    with block_given_back_step [OF l1 L(2) fpb(1) low Q rng [folded base_def], folded b2_def] bj
    have "group_step L b b' Q db df (run_delta (map_bit b 984) Q base ?fpb)"
      "tables_step s b b' (local_frag div ?fpb) db" by simp_all
    with none d True show ?thesis by simp
  next
    case False
    with r' have "b' = nextufs__write_be32 (bump_be32 b2 36 (int frags)) 8 now"
      and d: "db = 0" "df = int frags" by (auto split: if_splits)
    with counters_step [OF l1 L(2) fpb(1) low Q rng [folded base_def], folded b2_def]
    have "group_step L b b' Q db df (run_delta (map_bit b 984) Q base ?fpb)"
      "tables_step s b b' (local_frag div ?fpb) db" by simp_all
    with none d False show ?thesis by simp
  qed
qed

section \<open>The counters are the census\<close>

text \<open>
  The invariant of a cylinder group: fragments past its end are not free, and every counter of free
  space in the header is the census of the map: the free blocks, the free fragments of partly used blocks,
  the free runs of each length, and the free blocks of each cylinder and rotational position. The blocks of a group are its \<open>frags_per_group\<close> fragments in runs of
  \<open>frags_per_block\<close>.
\<close>

definition cg_bits :: "byte list \<Rightarrow> nat \<Rightarrow> bool" where
  "cg_bits b = map_bit b CG_FREE_OFF"

definition cg_ok :: "nextufs_superblock \<Rightarrow> byte list \<Rightarrow> bool" where
  "cg_ok s b \<longleftrightarrow> length b = cg_size s \<and>
     nextufs__read_be32 b CG_NDBLK_OFF \<le> frags_per_group s \<and>
     (\<forall>k < frags_per_group s. cg_bits b k \<longrightarrow> k < nextufs__read_be32 b CG_NDBLK_OFF) \<and>
     nextufs__read_be32 b CG_CS_NBFREE_OFF = free_blocks (cg_bits b) (frags_per_block s) (cg_blocks s) \<and>
     nextufs__read_be32 b CG_CS_NFFREE_OFF = free_frags (cg_bits b) (frags_per_block s) (cg_blocks s) \<and>
     (\<forall>k. 1 \<le> k \<and> k < frags_per_block s \<longrightarrow> nextufs__read_be32 b (52 + k * 4) =
        free_runs (cg_bits b) (frags_per_block s) (cg_blocks s) k) \<and>
     tables_ok s (cg_bits b) b"

text \<open>A geometry whose groups are whole numbers of blocks.\<close>

definition block_geometry :: "nextufs_superblock \<Rightarrow> bool" where
  "block_geometry s \<longleftrightarrow> valid_geometry s \<and> frags_per_group s mod frags_per_block s = 0"

lemma block_geometryD:
  assumes "block_geometry s"
  shows "valid_geometry s" "0 < frags_per_block s" "frags_per_block s \<le> 8"
    "frags_per_group s = cg_blocks s * frags_per_block s" "cg_blocks s \<le> 57664" "984 \<le> cg_size s"
    "\<And>k. k < frags_per_group s \<Longrightarrow> 984 + k div 8 < cg_size s"
    "\<And>j n. j + n \<le> frags_per_group s \<Longrightarrow> 984 + (j + n + 7) div 8 \<le> cg_size s"
proof -
  from assms show g: "valid_geometry s" by (simp add: block_geometry_def)
  note v = valid_geometryD [OF g]
  show "0 < frags_per_block s" "frags_per_block s \<le> 8" "984 \<le> cg_size s" using v by blast+
  show eq: "frags_per_group s = cg_blocks s * frags_per_block s"
    using assms div_mult_mod_eq [of "frags_per_group s" "frags_per_block s"]
    by (simp add: block_geometry_def cg_blocks_def)
  have "cg_blocks s * 1 \<le> cg_blocks s * frags_per_block s" using v(6) by (intro mult_le_mono2) simp
  then show "cg_blocks s \<le> 57664" using eq v(15) by linarith
  fix k assume "k < frags_per_group s"
  then show "984 + k div 8 < cg_size s" using v(23) by linarith
next
  fix j n assume "j + n \<le> frags_per_group s"
  then show "984 + (j + n + 7) div 8 \<le> cg_size s"
    using valid_geometryD(23) [of s] assms by (simp add: block_geometry_def)
qed

lemma block_in_group:
  assumes "block_geometry s" and "j < cg_blocks s"
  shows "j * frags_per_block s + frags_per_block s \<le> frags_per_group s"
proof -
  have "(j + 1) * frags_per_block s \<le> cg_blocks s * frags_per_block s"
    using assms(2) by (intro mult_le_mono1) simp
  then show ?thesis using block_geometryD(4) [OF assms(1)] by simp
qed

lemma card_run_starts_le: "card (run_starts P fpb k) \<le> fpb + 1"
proof -
  have "run_starts P fpb k \<subseteq> {..fpb}" by (auto simp: run_starts_def)
  then show ?thesis using card_mono [of "{..fpb}" "run_starts P fpb k"] by simp
qed

lemma block_frags_le: "block_frags P fpb j \<le> fpb"
proof -
  have "{i. i < fpb \<and> P (j * fpb + i)} \<subseteq> {..<fpb}" by auto
  then show ?thesis using card_mono [of "{..<fpb}" "{i. i < fpb \<and> P (j * fpb + i)}"] by (simp add: block_frags_def)
qed

lemma census_bounds:
  "free_blocks P fpb N \<le> N" "free_frags P fpb N \<le> N * fpb" "free_runs P fpb N k \<le> N * (fpb + 1)"
proof -
  have le: "(\<Sum>j < N. f j) \<le> N * c" if "\<And>j. f j \<le> c" for f :: "nat \<Rightarrow> nat" and c
    using sum_bounded_above [of "{..<N}" f c] that by simp
  show "free_blocks P fpb N \<le> N"
    unfolding free_blocks_def using le [of "\<lambda>j. if whole_free P fpb j then 1 else 0" 1] by simp
  show "free_frags P fpb N \<le> N * fpb" unfolding free_frags_def by (rule le) (simp add: block_frags_le)
  show "free_runs P fpb N k \<le> N * (fpb + 1)" unfolding free_runs_def by (rule le) (rule card_run_starts_le)
qed

lemma census_small:
  assumes "N \<le> 57664" and "fpb \<le> 8"
  shows "free_blocks P fpb N < 4294967296" "free_frags P fpb N < 4294967296" "free_runs P fpb N k < 4294967296"
proof -
  have "N * fpb \<le> 57664 * 8" "N * (fpb + 1) \<le> 57664 * 9" using assms by (intro mult_le_mono; simp)+
  then show "free_blocks P fpb N < 4294967296" "free_frags P fpb N < 4294967296" "free_runs P fpb N k < 4294967296"
    using census_bounds [of P fpb N] census_bounds(3) [of P fpb N k] assms(1) by linarith+
qed

lemma u32_add_eq: "int v + d = int w \<Longrightarrow> w < 4294967296 \<Longrightarrow> u32_add v d = w"
  by (simp add: u32_add_exact)

text \<open>The counts of free blocks and of free fragments moved by exactly \<open>db\<close> and \<open>df\<close>.\<close>

definition counts_moved :: "byte list \<Rightarrow> byte list \<Rightarrow> int \<Rightarrow> int \<Rightarrow> bool" where
  "counts_moved b b' db df \<longleftrightarrow>
     int (nextufs__read_be32 b' CG_CS_NBFREE_OFF) = int (nextufs__read_be32 b CG_CS_NBFREE_OFF) + db \<and>
     int (nextufs__read_be32 b' CG_CS_NFFREE_OFF) = int (nextufs__read_be32 b CG_CS_NFFREE_OFF) + df"

text \<open>
  A step on block \<open>j\<close> keeps the invariant when the differences it applied to the counters are
  those of the block's census.
\<close>

lemma cg_ok_step:
  assumes g: "block_geometry s" and ok: "cg_ok s b" and j: "j < cg_blocks s"
    and st: "group_step (cg_size s) b b' Q db df (run_delta (map_bit b 984) Q (j * frags_per_block s) (frags_per_block s))"
    and same: "\<And>k. k < j * frags_per_block s \<or> j * frags_per_block s + frags_per_block s \<le> k \<Longrightarrow> Q k = cg_bits b k"
    and inside: "\<And>k. k < frags_per_group s \<Longrightarrow> Q k \<Longrightarrow> k < nextufs__read_be32 b CG_NDBLK_OFF"
    and db: "db = (if whole_free Q (frags_per_block s) j then 1 else 0) -
      (if whole_free (cg_bits b) (frags_per_block s) j then 1 else 0)"
    and df: "df = (if whole_free Q (frags_per_block s) j then 0 else int (block_frags Q (frags_per_block s) j)) -
      (if whole_free (cg_bits b) (frags_per_block s) j then 0 else int (block_frags (cg_bits b) (frags_per_block s) j))"
    and tb: "tables_step s b b' j db"
  shows "cg_ok s b' \<and> (\<forall>k < frags_per_group s. cg_bits b' k = Q k) \<and> counts_moved b b' db df"
proof -
  let ?fpb = "frags_per_block s" let ?N = "cg_blocks s" let ?P = "cg_bits b"
  note gd = block_geometryD [OF g]
  note sd = st [unfolded group_step_def]
  have bits: "cg_bits b' k = Q k" if "k < frags_per_group s" for k
    using sd gd(7) [OF that] by (simp add: cg_bits_def cg_offsets)
  have in_group: "j' * ?fpb + i < frags_per_group s" if "j' < ?N" "i < ?fpb" for j' i
    using block_in_group [OF g that(1)] that(2) by linarith
  have cong: "free_blocks (cg_bits b') ?fpb ?N = free_blocks Q ?fpb ?N"
    "free_frags (cg_bits b') ?fpb ?N = free_frags Q ?fpb ?N"
    "free_runs (cg_bits b') ?fpb ?N k = free_runs Q ?fpb ?N k" for k
  proof -
    have w: "whole_free (cg_bits b') ?fpb i = whole_free Q ?fpb i" if "i < ?N" for i
      using in_group [OF that] bits by (auto simp: whole_free_def)
    have f: "block_frags (cg_bits b') ?fpb i = block_frags Q ?fpb i" if "i < ?N" for i
      unfolding block_frags_def using in_group [OF that] bits by (intro arg_cong [where f = card]) auto
    have r: "run_starts (\<lambda>x. cg_bits b' (i * ?fpb + x)) ?fpb k = run_starts (\<lambda>x. Q (i * ?fpb + x)) ?fpb k"
      if "i < ?N" for i using in_group [OF that] bits by (intro run_starts_cong) simp
    show "free_blocks (cg_bits b') ?fpb ?N = free_blocks Q ?fpb ?N"
      "free_frags (cg_bits b') ?fpb ?N = free_frags Q ?fpb ?N"
      "free_runs (cg_bits b') ?fpb ?N k = free_runs Q ?fpb ?N k"
      unfolding free_blocks_def free_frags_def free_runs_def by (auto simp: w f r intro!: sum.cong)
  qed
  note ch = census_change [OF j, of ?fpb Q ?P, OF same]
  note small = census_small [OF gd(5,3), of Q]
  from ok have old: "nextufs__read_be32 b CG_CS_NBFREE_OFF = free_blocks ?P ?fpb ?N"
    "nextufs__read_be32 b CG_CS_NFFREE_OFF = free_frags ?P ?fpb ?N"
    "\<And>k. 1 \<le> k \<Longrightarrow> k < ?fpb \<Longrightarrow> nextufs__read_be32 b (52 + k * 4) = free_runs ?P ?fpb ?N k"
    by (simp_all add: cg_ok_def)
  have mb: "int (free_blocks ?P ?fpb ?N) + db = int (free_blocks Q ?fpb ?N)"
    using ch(1) unfolding db by (simp split: if_splits)
  from mb have nb: "nextufs__read_be32 b' CG_CS_NBFREE_OFF = free_blocks Q ?fpb ?N"
    using sd old(1) small(1) by (simp add: u32_add_eq)
  have mf: "int (free_frags ?P ?fpb ?N) + df = int (free_frags Q ?fpb ?N)"
    using ch(2) unfolding df by (simp split: if_splits)
  from mf have nf: "nextufs__read_be32 b' CG_CS_NFFREE_OFF = free_frags Q ?fpb ?N"
    using sd old(2) small(2) by (simp add: u32_add_eq)
  have nr: "nextufs__read_be32 b' (52 + k * 4) = free_runs Q ?fpb ?N k" if k: "1 \<le> k" "k < ?fpb" for k
  proof -
    have "int (free_runs ?P ?fpb ?N k) + run_delta ?P Q (j * ?fpb) ?fpb k = int (free_runs Q ?fpb ?N k)"
      using ch(3) [of k] k(2) by (simp add: run_delta_def)
    moreover have "nextufs__read_be32 b' (52 + k * 4) = u32_add (nextufs__read_be32 b (52 + k * 4))
        (run_delta ?P Q (j * ?fpb) ?fpb k)"
      using sd k gd(3) by (simp add: cg_bits_def cg_offsets)
    ultimately show ?thesis using old(3) [OF k] small(3) by (simp add: u32_add_eq)
  qed
  from ok have "tables_ok s ?P b" by (simp add: cg_ok_def)
  from tables_ok_step [OF this gd(5) j tb same db] have "tables_ok s Q b'" .
  then have tok: "tables_ok s (cg_bits b') b'" by (rule tables_ok_cong) (simp_all add: bits in_group)
  have "cg_ok s b'"
    using sd ok nb nf nr bits inside tok unfolding cg_ok_def cong by simp
  moreover have "counts_moved b b' db df"
    using mb mf nb nf old(1,2) by (simp add: counts_moved_def)
  ultimately show ?thesis using bits by blast
qed

section \<open>Allocation and release of a run\<close>

lemma first_some_Some: "first_some f xs = Some y \<Longrightarrow> \<exists>x \<in> set xs. f x = Some y"
  by (induction xs) (auto split: option.splits)

lemma first_some_None: "first_some f xs = None \<Longrightarrow> x \<in> set xs \<Longrightarrow> f x = None"
  by (induction xs) (auto split: option.splits)

text \<open>A run that lies in one block of the group and is free.\<close>

definition free_run :: "nextufs_superblock \<Rightarrow> byte list \<Rightarrow> nat \<Rightarrow> nat \<Rightarrow> bool" where
  "free_run s b start n \<longleftrightarrow> start mod frags_per_block s + n \<le> frags_per_block s \<and>
     start + n \<le> frags_per_group s \<and> (\<forall>k. start \<le> k \<and> k < start + n \<longrightarrow> cg_bits b k)"

lemma all_run: "(\<forall>i < n. P (start + i)) \<longleftrightarrow> (\<forall>k. start \<le> k \<and> k < start + n \<longrightarrow> P (k :: nat))"
  by (metis add_diff_inverse_nat le_add1 nat_add_left_cancel_less not_less)

lemma find_partial_Some:
  assumes "find_partial s b limit n = Some (local_frag, start)" and "0 < frags_per_block s"
  shows "\<exists>j. local_frag = j * frags_per_block s \<and> local_frag < limit \<and> local_frag \<le> start \<and>
    start + n \<le> local_frag + frags_per_block s \<and> start + n \<le> limit \<and>
    (\<forall>k. start \<le> k \<and> k < start + n \<longrightarrow> cg_bits b k) \<and>
    \<not> (local_frag + frags_per_block s \<le> limit \<and> whole_free (cg_bits b) (frags_per_block s) j)"
proof -
  let ?fpb = "frags_per_block s"
  from first_some_Some [OF assms(1) [unfolded find_partial_def Let_def]] obtain x where
    x: "x \<in> set (map (\<lambda>j. j * ?fpb) [0..<(limit + ?fpb - 1) div ?fpb])"
    and fx: "(if min (x + ?fpb) limit - x = ?fpb \<and> nextufs__block_is_free b CG_FREE_OFF x ?fpb then None
      else map_option (Pair x) (find (\<lambda>start. nextufs__set_run_bits b CG_FREE_OFF start n)
        [x..<min (x + ?fpb) limit + 1 - n])) = Some (local_frag, start)" by blast
  from fx have xl: "x = local_frag"
    and nw: "\<not> (min (local_frag + ?fpb) limit - local_frag = ?fpb \<and>
      nextufs__block_is_free b CG_FREE_OFF local_frag ?fpb)"
    and f: "find (\<lambda>start. nextufs__set_run_bits b CG_FREE_OFF start n)
      [local_frag..<min (local_frag + ?fpb) limit + 1 - n] = Some start"
    by (auto split: if_splits)
  from x xl obtain j where j: "j < (limit + ?fpb - 1) div ?fpb" and lf: "local_frag = j * ?fpb" by auto
  have "(j + 1) * ?fpb \<le> limit + ?fpb - 1"
    using j assms(2) by (metis Suc_eq_plus1 Suc_leI div_times_less_eq_dividend le_trans mult_le_mono1)
  then have lim: "local_frag < limit" using lf assms(2) by simp
  from f obtain i where i: "i < length [local_frag..<min (local_frag + ?fpb) limit + 1 - n]"
    "nextufs__set_run_bits b CG_FREE_OFF start n"
    "start = [local_frag..<min (local_frag + ?fpb) limit + 1 - n] ! i"
    by (auto simp: find_Some_iff)
  then have "local_frag \<le> start" "start + n \<le> min (local_frag + ?fpb) limit" by auto
  moreover have "\<forall>k. start \<le> k \<and> k < start + n \<longrightarrow> cg_bits b k"
    using i(2) by (simp add: set_run_bits_iff all_run cg_bits_def)
  moreover have "\<not> (local_frag + ?fpb \<le> limit \<and> whole_free (cg_bits b) ?fpb j)"
    using nw lf by (auto simp: whole_free_def block_is_free_iff cg_bits_def min_def)
  ultimately show ?thesis using lf lim by (intro exI [of _ j]) auto
qed

lemma find_whole_Some:
  assumes "find_whole s b limit = Some local_frag" and "0 < frags_per_block s"
  shows "\<exists>j. local_frag = j * frags_per_block s \<and> local_frag + frags_per_block s \<le> limit \<and>
    whole_free (cg_bits b) (frags_per_block s) j"
proof -
  let ?fpb = "frags_per_block s"
  from assms(1) obtain i where i: "i < limit div ?fpb" "local_frag = i * ?fpb"
    "nextufs__block_is_free b CG_FREE_OFF local_frag ?fpb"
    by (auto simp: find_whole_def find_Some_iff)
  have "(i + 1) * ?fpb \<le> limit div ?fpb * ?fpb" using i(1) by (intro mult_le_mono1) simp
  also have "\<dots> \<le> limit" by simp
  finally show ?thesis using i by (auto simp: whole_free_def block_is_free_iff cg_bits_def)
qed

text \<open>How the census of a block changes when a run inside it is taken.\<close>

lemma block_frags_split:
  assumes "\<And>k. Q k \<longleftrightarrow> P k \<and> \<not> (start \<le> k \<and> k < start + n)"
    and "\<And>k. start \<le> k \<Longrightarrow> k < start + n \<Longrightarrow> P k"
    and "j * fpb \<le> start" and "start + n \<le> j * fpb + fpb"
  shows "block_frags P fpb j = block_frags Q fpb j + n"
proof -
  let ?R = "{start - j * fpb..<start - j * fpb + n}"
  have R: "i \<in> ?R \<longleftrightarrow> start \<le> j * fpb + i \<and> j * fpb + i < start + n" for i using assms(3) by auto
  have "i < fpb \<and> P (j * fpb + i) \<longleftrightarrow> i < fpb \<and> Q (j * fpb + i) \<or> i \<in> ?R" for i
  proof (cases "i \<in> ?R")
    case True
    then have "start \<le> j * fpb + i" "j * fpb + i < start + n" using R by blast+
    with assms(2,4) True show ?thesis by simp
  next
    case False
    with R [of i] assms(1) [of "j * fpb + i"] show ?thesis by blast
  qed
  then have "{i. i < fpb \<and> P (j * fpb + i)} = {i. i < fpb \<and> Q (j * fpb + i)} \<union> ?R" by blast
  moreover have "{i. i < fpb \<and> Q (j * fpb + i)} \<inter> ?R = {}" using assms(1) R by blast
  ultimately show ?thesis unfolding block_frags_def by (simp add: card_Un_disjoint)
qed

lemma block_frags_whole: "whole_free P fpb j \<Longrightarrow> block_frags P fpb j = fpb"
proof -
  assume "whole_free P fpb j"
  then have "{i. i < fpb \<and> P (j * fpb + i)} = {..<fpb}" by (auto simp: whole_free_def)
  then show ?thesis by (simp add: block_frags_def)
qed

lemma not_whole_taken:
  "0 < n \<Longrightarrow> j * fpb \<le> start \<Longrightarrow> start + n \<le> j * fpb + fpb \<Longrightarrow>
   (\<And>k. start \<le> k \<Longrightarrow> k < start + n \<Longrightarrow> \<not> Q k) \<Longrightarrow> \<not> whole_free Q fpb j"
proof -
  assume n: "0 < n" and s: "j * fpb \<le> start" "start + n \<le> j * fpb + fpb"
    and Q: "\<And>k. start \<le> k \<Longrightarrow> k < start + n \<Longrightarrow> \<not> Q k"
  have "\<not> Q (j * fpb + (start - j * fpb))" using n s(1) Q [of start] by simp
  moreover have "start - j * fpb < fpb" using n s by linarith
  ultimately show ?thesis unfolding whole_free_def by blast
qed

text \<open>The run left of a free block after a prefix was taken.\<close>

lemma run_starts_whole:
  assumes "\<And>i. i < fpb \<Longrightarrow> P i" and "1 \<le> k" and "k < fpb"
  shows "run_starts P fpb k = {}"
proof -
  have False if i: "i \<in> run_starts P fpb k" for i
  proof (cases "i = 0")
    case True
    with i assms show False by (auto simp: run_starts_def)
  next
    case False
    with i assms(2) have "\<not> P (i - 1)" "i - 1 < fpb" by (auto simp: run_starts_def)
    with assms(1) show False by blast
  qed
  then show ?thesis by blast
qed

lemma run_starts_suffix:
  assumes "\<And>i. i < fpb \<Longrightarrow> P i \<longleftrightarrow> n \<le> i" and "0 < n" and "n \<le> fpb" and "1 \<le> k" and "k < fpb"
  shows "run_starts P fpb k = (if k = fpb - n then {n} else {})"
proof -
  have "i = n \<and> k = fpb - n" if i: "i \<in> run_starts P fpb k" for i
  proof -
    from i assms(4) have r: "i + k \<le> fpb" "P i" "0 < i \<Longrightarrow> \<not> P (i - 1)" "i + k < fpb \<Longrightarrow> \<not> P (i + k)"
    proof -
      from i have a: "i + k \<le> fpb" "\<forall>j < k. P (i + j)" "0 < i \<Longrightarrow> \<not> P (i - 1)" "i + k < fpb \<Longrightarrow> \<not> P (i + k)"
        by (simp_all add: run_starts_def)
      have "0 < k" using assms(4) by simp
      with a(2) have "P (i + 0)" by blast
      with a show "i + k \<le> fpb" "P i" "0 < i \<Longrightarrow> \<not> P (i - 1)" "i + k < fpb \<Longrightarrow> \<not> P (i + k)" by simp_all
    qed
    with assms(1) [of i] assms(4) have ni: "n \<le> i" by simp
    have "i = n"
    proof (rule ccontr)
      assume "i \<noteq> n"
      with ni have "n \<le> i - 1" "0 < i" by simp_all
      with r(1,3) assms(1) [of "i - 1"] assms(4) show False by simp
    qed
    moreover have "i + k = fpb" using r(1,4) assms(1) [of "i + k"] ni by (cases "i + k < fpb") auto
    ultimately show ?thesis by simp
  qed
  moreover have "n \<in> run_starts P fpb k" if k: "k = fpb - n"
  proof -
    have "P (n + j)" if "j < k" for j using assms(1) [of "n + j"] that k by simp
    moreover have "\<not> P (n - 1)" using assms(1) [of "n - 1"] assms(2,3) by simp
    ultimately show ?thesis using k assms(3) by (simp add: run_starts_def)
  qed
  ultimately show ?thesis by (cases "k = fpb - n") (simp_all, blast+)
qed

lemma block_index:
  assumes "j * fpb \<le> start" and "start + n \<le> j * fpb + fpb" and "0 < (n :: nat)"
  shows "start div fpb = j" and "start mod fpb = start - j * fpb"
proof -
  show d: "start div fpb = j" using assms by (intro div_nat_eqI) (simp_all add: mult.commute)
  show "start mod fpb = start - j * fpb" using d minus_div_mult_eq_mod [of start fpb] by simp
qed

lemma block_below:
  assumes "block_geometry s" and "j * frags_per_block s < frags_per_group s"
  shows "j < cg_blocks s"
  using assms block_geometryD(2,4) [OF assms(1)] by simp

definition taken :: "(nat \<Rightarrow> bool) \<Rightarrow> nat \<Rightarrow> nat \<Rightarrow> nat \<Rightarrow> bool" where
  "taken P start n k \<longleftrightarrow> P k \<and> \<not> (start \<le> k \<and> k < start + n)"

lemma taken_outside:
  "q \<le> start \<Longrightarrow> start + n \<le> q + m \<Longrightarrow> k < q \<or> q + m \<le> k \<Longrightarrow> taken P start n k = P k"
  by (auto simp: taken_def)

lemma take_partial_ok:
  fixes now :: nat
  assumes g: "block_geometry s" and ok: "cg_ok s b" and n: "0 < n"
    and f: "find_partial s b (nextufs__read_be32 b CG_NDBLK_OFF) n = Some (local_frag, start)"
  defines "b' \<equiv> cg_take_partial s b local_frag start n now"
  shows "free_run s b start n \<and> cg_ok s b' \<and>
    (\<forall>k < frags_per_group s. cg_bits b' k = taken (cg_bits b) start n k) \<and> counts_moved b b' 0 (- int n)"
proof -
  let ?fpb = "frags_per_block s" let ?lim = "nextufs__read_be32 b CG_NDBLK_OFF"
  note gd = block_geometryD [OF g]
  from find_partial_Some [OF f gd(2)] obtain j where j: "local_frag = j * ?fpb" "local_frag < ?lim"
    "local_frag \<le> start" "start + n \<le> local_frag + ?fpb" "start + n \<le> ?lim"
    "\<And>k. start \<le> k \<Longrightarrow> k < start + n \<Longrightarrow> cg_bits b k"
    "\<not> (local_frag + ?fpb \<le> ?lim \<and> whole_free (cg_bits b) ?fpb j)" by blast
  from ok have lim: "?lim \<le> frags_per_group s"
    and tail: "\<And>k. k < frags_per_group s \<Longrightarrow> cg_bits b k \<Longrightarrow> k < ?lim" and len: "length b = cg_size s"
    by (simp_all add: cg_ok_def)
  have jN: "j < cg_blocks s" using block_below [OF g] j(1,2) lim by simp
  note blk = block_in_group [OF g jN]
  have nw: "\<not> whole_free (cg_bits b) ?fpb j"
  proof
    assume w: "whole_free (cg_bits b) ?fpb j"
    moreover have "?fpb - 1 < ?fpb" using gd(2) by simp
    ultimately have "cg_bits b (j * ?fpb + (?fpb - 1))" unfolding whole_free_def by blast
    with tail blk gd(2) have "j * ?fpb + (?fpb - 1) < ?lim" by (meson add_less_cancel_left diff_less less_le_trans zero_less_one)
    with w j(1,7) gd(2) show False by simp
  qed
  let ?Q = "taken (cg_bits b) start n"
  have st: "group_step (cg_size s) b b' ?Q 0 (- int n)
      (run_delta (map_bit b 984) ?Q (j * ?fpb) ?fpb)"
    and tb: "tables_step s b b' j 0"
    using cg_take_partial_step [OF len gd(6), of start n local_frag s now] gd(8) [of start n] gd(8) [of local_frag ?fpb]
      gd(3) j(1,5) lim blk unfolding b'_def taken_def cg_bits_def cg_offsets by simp_all
  have nwQ: "\<not> whole_free ?Q ?fpb j"
    using j(1,3,4) by (intro not_whole_taken [OF n]) (auto simp: taken_def)
  have bf: "block_frags (cg_bits b) ?fpb j = block_frags ?Q ?fpb j + n"
    using j(1,3,4,6) by (intro block_frags_split) (auto simp: taken_def)
  have "cg_ok s b' \<and> (\<forall>k < frags_per_group s. cg_bits b' k = ?Q k) \<and> counts_moved b b' 0 (- int n)"
    using nw nwQ bf j(1,3,4) tail tb by (intro cg_ok_step [OF g ok jN st]) (auto simp: taken_def)
  moreover have "free_run s b start n"
    using block_index [of j ?fpb start n] j n lim by (simp add: free_run_def)
  ultimately show ?thesis by blast
qed

lemma take_block_ok:
  fixes now :: nat
  assumes g: "block_geometry s" and ok: "cg_ok s b" and n: "0 < n" "n \<le> frags_per_block s"
    and f: "find_whole s b (nextufs__read_be32 b CG_NDBLK_OFF) = Some local_frag"
  defines "b' \<equiv> cg_take_block s b local_frag n now"
  shows "free_run s b local_frag n \<and> cg_ok s b' \<and>
    (\<forall>k < frags_per_group s. cg_bits b' k = taken (cg_bits b) local_frag n k) \<and>
    counts_moved b b' (- 1) (int (frags_per_block s - n))"
proof -
  let ?fpb = "frags_per_block s" let ?lim = "nextufs__read_be32 b CG_NDBLK_OFF" let ?P = "cg_bits b"
  note gd = block_geometryD [OF g]
  from find_whole_Some [OF f gd(2)] obtain j where j: "local_frag = j * ?fpb" "local_frag + ?fpb \<le> ?lim"
    "whole_free ?P ?fpb j" by blast
  from ok have lim: "?lim \<le> frags_per_group s"
    and tail: "\<And>k. k < frags_per_group s \<Longrightarrow> ?P k \<Longrightarrow> k < ?lim" and len: "length b = cg_size s"
    by (simp_all add: cg_ok_def)
  have jN: "j < cg_blocks s" using block_below [OF g] j(1,2) lim gd(2) by simp
  let ?Q = "taken ?P local_frag n"
  have all: "?P (j * ?fpb + i)" if "i < ?fpb" for i using j(3) that by (simp add: whole_free_def)
  have rd: "run_delta (map_bit b 984) ?Q (j * ?fpb) ?fpb k = (if k = ?fpb - n then 1 else 0)"
    if k: "1 \<le> k" "k < 8" for k
  proof (cases "k < ?fpb")
    case True
    have "run_starts (\<lambda>i. ?P (j * ?fpb + i)) ?fpb k = {}" using all k(1) True by (intro run_starts_whole) auto
    moreover have "run_starts (\<lambda>i. ?Q (j * ?fpb + i)) ?fpb k = (if k = ?fpb - n then {n} else {})"
      using all n k(1) True j(1) by (intro run_starts_suffix) (auto simp: taken_def)
    ultimately show ?thesis using True by (simp add: run_delta_def cg_bits_def cg_offsets)
  next
    case False
    with n show ?thesis by (auto simp: run_delta_def)
  qed
  have st0: "group_step (cg_size s) b b' ?Q (- 1) (int (?fpb - n)) (\<lambda>k. if k = ?fpb - n then 1 else 0)"
    and tb: "tables_step s b b' j (- 1)"
    using cg_take_block_step(1) [OF len gd(6), of local_frag n s now]
      cg_take_block_step(2) [OF len gd(6), where local_frag = local_frag and n = n and s = s and now = now and j = j] gd(8) [of local_frag n] gd(3) n j(1,2) lim
    unfolding b'_def taken_def cg_bits_def cg_offsets by simp_all
  from st0 have st: "group_step (cg_size s) b b' ?Q (- 1) (int (?fpb - n))
      (run_delta (map_bit b 984) ?Q (j * ?fpb) ?fpb)"
    using rd unfolding group_step_def by simp
  have nwQ: "\<not> whole_free ?Q ?fpb j"
    using j(1) n by (intro not_whole_taken [OF n(1)]) (auto simp: taken_def)
  have "block_frags ?P ?fpb j = block_frags ?Q ?fpb j + n"
  proof (rule block_frags_split)
    fix k assume k: "local_frag \<le> k" "k < local_frag + n"
    then show "?P k" using all [of "k - local_frag"] n j(1) by simp
  qed (use j n in \<open>auto simp: taken_def\<close>)
  then have bf: "block_frags ?Q ?fpb j = ?fpb - n" using block_frags_whole [OF j(3)] by simp
  have "cg_ok s b' \<and> (\<forall>k < frags_per_group s. cg_bits b' k = ?Q k) \<and> counts_moved b b' (- 1) (int (?fpb - n))"
    using nwQ bf j n tail tb by (intro cg_ok_step [OF g ok jN st]) (auto simp: taken_def)
  moreover have "free_run s b local_frag n"
    unfolding free_run_def
  proof (intro conjI allI impI)
    show "local_frag mod ?fpb + n \<le> ?fpb" using j(1) n by simp
    show "local_frag + n \<le> frags_per_group s" using j(2) lim n by linarith
    fix k assume "local_frag \<le> k \<and> k < local_frag + n"
    then have "local_frag \<le> k" "k < local_frag + n" by simp_all
    then show "?P k" using all [of "k - local_frag"] n j(1) by simp
  qed
  ultimately show ?thesis by blast
qed

lemma extend_ok:
  fixes now :: nat
  assumes g: "block_geometry s" and ok: "cg_ok s b" and n: "0 < n"
    and run: "free_run s b start n"
  defines "b' \<equiv> cg_take_partial s b (start - start mod frags_per_block s) start n now"
  assumes nw: "\<not> whole_free (cg_bits b) (frags_per_block s) (start div frags_per_block s)"
  shows "cg_ok s b' \<and> (\<forall>k < frags_per_group s. cg_bits b' k = taken (cg_bits b) start n k) \<and>
    counts_moved b b' 0 (- int n)"
proof -
  let ?fpb = "frags_per_block s" let ?j = "start div ?fpb" let ?lim = "nextufs__read_be32 b CG_NDBLK_OFF"
  note gd = block_geometryD [OF g]
  from run have r: "start mod ?fpb + n \<le> ?fpb" "start + n \<le> frags_per_group s"
    "\<And>k. start \<le> k \<Longrightarrow> k < start + n \<Longrightarrow> cg_bits b k" by (auto simp: free_run_def)
  from ok have tail: "\<And>k. k < frags_per_group s \<Longrightarrow> cg_bits b k \<Longrightarrow> k < ?lim" and len: "length b = cg_size s"
    by (simp_all add: cg_ok_def)
  have eq: "?j * ?fpb + start mod ?fpb = start" by simp
  have jf: "start - start mod ?fpb = ?j * ?fpb" by (rule minus_mod_eq_div_mult)
  have "?j * ?fpb < frags_per_group s" using eq r(2) n by linarith
  then have jN: "?j < cg_blocks s" by (rule block_below [OF g])
  note blk = block_in_group [OF g jN]
  have in_blk: "?j * ?fpb \<le> start" "start + n \<le> ?j * ?fpb + ?fpb" using eq r(1) by linarith+
  let ?Q = "taken (cg_bits b) start n"
  have st: "group_step (cg_size s) b b' ?Q 0 (- int n) (run_delta (map_bit b 984) ?Q (?j * ?fpb) ?fpb)"
    and tb: "tables_step s b b' ?j 0"
    using cg_take_partial_step [OF len gd(6), of start n "?j * ?fpb" s now] gd(8) [of start n]
      gd(8) [of "?j * ?fpb" ?fpb] gd(3) r(2) blk unfolding b'_def jf taken_def cg_bits_def cg_offsets by simp_all
  have nwQ: "\<not> whole_free ?Q ?fpb ?j" using in_blk by (intro not_whole_taken [OF n]) (auto simp: taken_def)
  have bf: "block_frags (cg_bits b) ?fpb ?j = block_frags ?Q ?fpb ?j + n"
    using in_blk r(3) by (intro block_frags_split) (auto simp: taken_def)
  show ?thesis
  proof (rule cg_ok_step [OF g ok jN st])
    show "?Q k = cg_bits b k" if "k < ?j * ?fpb \<or> ?j * ?fpb + ?fpb \<le> k" for k
      by (rule taken_outside [OF in_blk that])
  qed (use nw nwQ bf tail tb in \<open>auto simp: taken_def\<close>)
qed

lemma free_run_ok:
  assumes g: "block_geometry s" and ok: "cg_ok s b" and n: "0 < n"
    and blk: "start mod frags_per_block s + n \<le> frags_per_block s"
    and lim: "start + n \<le> nextufs__read_be32 b CG_NDBLK_OFF"
    and r: "cg_free_run s b start n now = Some (b', db, df)"
  shows "(\<forall>k. start \<le> k \<and> k < start + n \<longrightarrow> \<not> cg_bits b k) \<and> cg_ok s b' \<and>
    (\<forall>k < frags_per_group s. cg_bits b' k \<longleftrightarrow> cg_bits b k \<or> start \<le> k \<and> k < start + n) \<and>
    db * int (frags_per_block s) + df = int n \<and> counts_moved b b' db df"
proof -
  let ?fpb = "frags_per_block s" let ?j = "start div ?fpb"
  let ?Q = "\<lambda>k. cg_bits b k \<or> start \<le> k \<and> k < start + n"
  note gd = block_geometryD [OF g]
  from ok have tail: "\<And>k. k < frags_per_group s \<Longrightarrow> cg_bits b k \<Longrightarrow> k < nextufs__read_be32 b CG_NDBLK_OFF"
    and len: "length b = cg_size s" and limle: "nextufs__read_be32 b CG_NDBLK_OFF \<le> frags_per_group s"
    by (simp_all add: cg_ok_def)
  have eq: "?j * ?fpb + start mod ?fpb = start" by simp
  have jf: "start - start mod ?fpb = ?j * ?fpb" by (rule minus_mod_eq_div_mult)
  have "?j * ?fpb < frags_per_group s" using eq lim limle n by linarith
  then have jN: "?j < cg_blocks s" by (rule block_below [OF g])
  note blkg = block_in_group [OF g jN]
  have in_blk: "?j * ?fpb \<le> start" "start + n \<le> ?j * ?fpb + ?fpb" using eq blk by linarith+
  have rng: "984 + (?j * ?fpb + ?fpb + 7) div 8 \<le> cg_size s" using gd(8) blkg by blast
  have "(\<forall>k. start \<le> k \<and> k < start + n \<longrightarrow> \<not> cg_bits b k) \<and>
      group_step (cg_size s) b b' ?Q db df (run_delta (cg_bits b) ?Q (?j * ?fpb) ?fpb) \<and>
      db = (if whole_free ?Q ?fpb ?j then 1 else 0) \<and> df = int n - (if whole_free ?Q ?fpb ?j then int ?fpb else 0) \<and>
      tables_step s b b' ?j db"
    using cg_free_run_step [OF len gd(6,3,2) blk _ r, unfolded jf, OF rng]
    unfolding cg_bits_def whole_free_def CG_FREE_OFF_def .
  then
  have nf: "\<forall>k. start \<le> k \<and> k < start + n \<longrightarrow> \<not> cg_bits b k"
    and st: "group_step (cg_size s) b b' ?Q db df (run_delta (cg_bits b) ?Q (?j * ?fpb) ?fpb)"
    and db: "db = (if whole_free ?Q ?fpb ?j then 1 else 0)"
    and df: "df = int n - (if whole_free ?Q ?fpb ?j then int ?fpb else 0)"
    and tb: "tables_step s b b' ?j db"
    by blast+
  have bf: "block_frags ?Q ?fpb ?j = block_frags (cg_bits b) ?fpb ?j + n"
    using in_blk nf by (intro block_frags_split) auto
  have nw: "\<not> whole_free (cg_bits b) ?fpb ?j"
    using in_blk nf by (intro not_whole_taken [OF n]) auto
  have st': "group_step (cg_size s) b b' ?Q db df (run_delta (map_bit b 984) ?Q (?j * ?fpb) ?fpb)"
    using st by (simp add: cg_bits_def cg_offsets)
  have df': "df = (if whole_free ?Q ?fpb ?j then 0 else int (block_frags ?Q ?fpb ?j)) - int (block_frags (cg_bits b) ?fpb ?j)"
    using df bf block_frags_whole [of ?Q ?fpb ?j] by auto
  have "cg_ok s b' \<and> (\<forall>k < frags_per_group s. cg_bits b' k = ?Q k) \<and> counts_moved b b' db df"
  proof (rule cg_ok_step [OF g ok jN st'])
    show "?Q k = cg_bits b k" if "k < ?j * ?fpb \<or> ?j * ?fpb + ?fpb \<le> k" for k
      using that in_blk by linarith
  qed (use nw db df' lim tail tb in auto)
  with nf db df show ?thesis by auto
qed

text \<open>The searches miss nothing: when they fail, the group has no free run of that length.\<close>

lemma term_le_sum: "(j :: nat) < N \<Longrightarrow> f j \<le> (\<Sum>i < N. f i :: nat)"
  by (intro member_le_sum) auto

lemma ceil_less:
  fixes j :: nat
  assumes "j * f < l" and "0 < f"
  shows "j < (l + f - 1) div f"
proof -
  have "(j + 1) * f \<le> l + f - 1" using assms by simp
  then have "j + 1 \<le> (l + f - 1) div f" using assms(2) by (simp add: less_eq_div_iff_mult_less_eq)
  then show ?thesis by simp
qed

lemma find_partial_None:
  assumes f: "find_partial s b limit n = None" and fpb: "0 < frags_per_block s" and n: "0 < n"
    and j: "j * frags_per_block s \<le> start" "start + n \<le> j * frags_per_block s + frags_per_block s" "start + n \<le> limit"
    and nw: "\<not> whole_free (cg_bits b) (frags_per_block s) j"
  shows "\<exists>k. start \<le> k \<and> k < start + n \<and> \<not> cg_bits b k"
proof -
  let ?fpb = "frags_per_block s" let ?x = "j * frags_per_block s"
  have "?x < limit" using j n by linarith
  then have "j < (limit + ?fpb - 1) div ?fpb" using fpb by (rule ceil_less)
  then have "?x \<in> set (map (\<lambda>j. j * ?fpb) [0..<(limit + ?fpb - 1) div ?fpb])" by auto
  from first_some_None [OF f [unfolded find_partial_def Let_def] this]
  have "find (\<lambda>start. nextufs__set_run_bits b CG_FREE_OFF start n) [?x..<min (?x + ?fpb) limit + 1 - n] = None"
    using nw by (auto simp: block_is_free_iff whole_free_def cg_bits_def split: if_splits)
  then have "\<forall>y \<in> set [?x..<min (?x + ?fpb) limit + 1 - n]. \<not> nextufs__set_run_bits b CG_FREE_OFF y n"
    by (simp add: find_None_iff)
  moreover have "start \<in> set [?x..<min (?x + ?fpb) limit + 1 - n]" using j by auto
  ultimately have "\<not> nextufs__set_run_bits b CG_FREE_OFF start n" by blast
  then show ?thesis by (simp add: set_run_bits_iff all_run cg_bits_def)
qed

lemma group_full:
  assumes g: "block_geometry s" and ok: "cg_ok s b" and n: "0 < n" "n \<le> frags_per_block s"
    and p: "n < frags_per_block s \<and> n \<le> nextufs__read_be32 b CG_CS_NFFREE_OFF \<longrightarrow>
      find_partial s b (nextufs__read_be32 b CG_NDBLK_OFF) n = None"
    and w: "nextufs__read_be32 b CG_CS_NBFREE_OFF = 0 \<or> find_whole s b (nextufs__read_be32 b CG_NDBLK_OFF) = None"
  shows "\<not> free_run s b start n"
proof
  let ?fpb = "frags_per_block s" let ?j = "start div ?fpb" let ?lim = "nextufs__read_be32 b CG_NDBLK_OFF"
  let ?P = "cg_bits b"
  assume "free_run s b start n"
  then have r: "start mod ?fpb + n \<le> ?fpb" "start + n \<le> frags_per_group s"
    "\<And>k. start \<le> k \<Longrightarrow> k < start + n \<Longrightarrow> ?P k" by (auto simp: free_run_def)
  note gd = block_geometryD [OF g]
  from ok have tail: "\<And>k. k < frags_per_group s \<Longrightarrow> ?P k \<Longrightarrow> k < ?lim"
    and nb: "nextufs__read_be32 b CG_CS_NBFREE_OFF = free_blocks ?P ?fpb (cg_blocks s)"
    and nf: "nextufs__read_be32 b CG_CS_NFFREE_OFF = free_frags ?P ?fpb (cg_blocks s)" by (simp_all add: cg_ok_def)
  have eq: "?j * ?fpb + start mod ?fpb = start" by simp
  have in_blk: "?j * ?fpb \<le> start" "start + n \<le> ?j * ?fpb + ?fpb" using eq r(1) by linarith+
  have jN: "?j < cg_blocks s" using block_below [OF g] in_blk(1) r(2) n by (meson le_trans less_add_same_cancel1 less_le_trans not_less)
  note blk = block_in_group [OF g jN]
  have last: "start + n \<le> ?lim"
    using tail [of "start + n - 1"] r(2) r(3) [of "start + n - 1"] n by simp linarith
  show False
  proof (cases "whole_free ?P ?fpb ?j")
    case True
    have "(if whole_free ?P ?fpb ?j then 1 else 0) \<le> free_blocks ?P ?fpb (cg_blocks s)"
      unfolding free_blocks_def by (rule term_le_sum [OF jN])
    then have "find_whole s b ?lim = None" using w nb True by simp
    moreover have "?fpb - 1 < ?fpb" using gd(2) by simp
    then have "?P (?j * ?fpb + (?fpb - 1))" using True unfolding whole_free_def by blast
    then have "?j * ?fpb + (?fpb - 1) < ?lim" using blk gd(2) by (intro tail) simp_all
    then have "(?j + 1) * ?fpb \<le> ?lim" using gd(2) by simp
    then have "?j + 1 \<le> ?lim div ?fpb" using gd(2) by (simp add: less_eq_div_iff_mult_less_eq)
    then have "?j * ?fpb \<in> set (map (\<lambda>j. j * ?fpb) [0..<?lim div ?fpb])" by auto
    ultimately have "\<not> nextufs__block_is_free b CG_FREE_OFF (?j * ?fpb) ?fpb"
      unfolding find_whole_def find_None_iff by blast
    with True show False by (simp add: block_is_free_iff whole_free_def cg_bits_def)
  next
    case False
    have nl: "n < ?fpb"
    proof (rule ccontr)
      assume "\<not> n < ?fpb"
      with n(2) in_blk have "n = ?fpb" "start = ?j * ?fpb" by linarith+
      with r(3) have "whole_free ?P ?fpb ?j" unfolding whole_free_def by (metis add_less_cancel_left le_add1)
      with False show False ..
    qed
    let ?Q = "taken ?P start n"
    have "block_frags ?P ?fpb ?j = block_frags ?Q ?fpb ?j + n"
      using in_blk r(3) by (intro block_frags_split) (auto simp: taken_def)
    moreover have "(if whole_free ?P ?fpb ?j then 0 else block_frags ?P ?fpb ?j) \<le> free_frags ?P ?fpb (cg_blocks s)"
      unfolding free_frags_def by (rule term_le_sum [OF jN])
    ultimately have "n \<le> nextufs__read_be32 b CG_CS_NFFREE_OFF" using nf False by simp
    with p nl have "find_partial s b ?lim n = None" by blast
    from find_partial_None [OF this gd(2) n(1) in_blk last False] r(3) show False by blast
  qed
qed

end
