(* ===== verification/Resize_Groups.thy ===== *)
theory Resize_Groups
  imports Resize Group_Census
begin

text \<open>
  The cylinder groups of a growing file system keep exact counters: the group that is extended, the group
  that gives fragments to the summary area, and the groups that are built. The loops work on the map
  and the run counts and leave the counts of blocks and fragments to the caller, so the invariant of a
  loop is that of the group with the changes so far added.
\<close>

section \<open>The operations on the map\<close>

lemma set_frag_bits_eq: "set_frag_bits b ks = free_bits b 984 ks"
  by (induction ks arbitrary: b) (simp_all add: frag_bit_is_set_def map_bit_def set_frag_bit_def map_set_def CG_FREE_OFF_def)

lemma map_ops_eq:
  "frag_bit_is_set b = map_bit b 984" "set_frag_bit b = map_set b 984" "clear_frag_bit b = map_clear b 984"
  "count_free_runs_in_block b = nextufs__count_free_runs_in_block b 984"
  "apply_frsum_delta = nextufs__apply_cg_frsum_delta" "bump_tables s b k d = bump_rotational s b k d"
  by (auto simp: frag_bit_is_set_def map_bit_def set_frag_bit_def map_set_def clear_frag_bit_def map_clear_def
      count_free_runs_in_block_def nextufs__count_free_runs_in_block_def apply_frsum_delta_def nextufs__apply_cg_frsum_delta_def
      bump_tables_def bump_rotational_def cbtocylno_def cbtorpos_def CG_FREE_OFF_def Let_def fun_eq_iff)

lemma count_free_bits_card: "count_free_bits b start n = card {i. i < n \<and> map_bit b 984 (start + i)}"
proof -
  have "{i. i < n \<and> map_bit b 984 (start + i)} = set (filter (\<lambda>i. map_bit b 984 (start + i)) [0..<n])" by auto
  then show ?thesis unfolding count_free_bits_def map_ops_eq by (simp only: distinct_card distinct_filter distinct_upt)
qed

lemma count_free_bits_all: "count_free_bits b start n = n \<longleftrightarrow> (\<forall>i < n. map_bit b 984 (start + i))"
proof -
  have "{i. i < n \<and> map_bit b 984 (start + i)} \<subseteq> {..<n}" by auto
  then have "card {i. i < n \<and> map_bit b 984 (start + i)} = n \<longleftrightarrow> {i. i < n \<and> map_bit b 984 (start + i)} = {..<n}"
    using card_subset_eq [of "{..<n}"] by auto
  then show ?thesis unfolding count_free_bits_card by auto
qed

section \<open>Steps with the counts left to the caller\<close>

text \<open>The loops keep the header of the group before the run counts, and the inode map with the magic number.\<close>

definition header_kept :: "byte list \<Rightarrow> byte list \<Rightarrow> bool" where
  "header_kept b b' \<longleftrightarrow> (\<forall>i. i < 52 \<or> 724 \<le> i \<and> i < 984 \<longrightarrow> b' ! i = b ! i)"

lemma header_kept_refl: "header_kept b b"
  by (simp add: header_kept_def)

lemma header_kept_trans: "header_kept a b \<Longrightarrow> header_kept b c \<Longrightarrow> header_kept a c"
  by (simp add: header_kept_def)

lemma header_kept_reads: "header_kept b b' \<Longrightarrow> q + 4 \<le> 52 \<or> q = 980 \<Longrightarrow> nextufs__read_be32 b' q = nextufs__read_be32 b q"
  by (intro read_be32_cong) (auto simp: header_kept_def)

lemma frsum_group_step:
  assumes L: "length b1 = L" "984 \<le> L" and fpb: "fpb \<le> 8"
    and low: "\<And>i. i < 984 \<Longrightarrow> b1 ! i = b ! i"
    and Q: "\<And>k. 984 + k div 8 < L \<Longrightarrow> map_bit b1 984 k = Q k"
    and rng: "984 + (base + fpb + 7) div 8 \<le> L"
  defines "b2 \<equiv> nextufs__apply_cg_frsum_delta b1
      (nextufs__count_free_runs_in_block b 984 base fpb) (nextufs__count_free_runs_in_block b1 984 base fpb) fpb"
  shows "group_step L b b2 Q 0 0 (run_delta (map_bit b 984) Q base fpb)"
    and "group_step L b (bump_rotational s b2 base' d) Q 0 0 (run_delta (map_bit b 984) Q base fpb)"
    and "header_kept b b2" and "header_kept b (bump_rotational s b2 base' d)"
    and "tables_step s b b2 j 0" and "base' = j * frags_per_block s \<Longrightarrow> tables_step s b (bump_rotational s b2 base' d) j d"
proof -
  have inL: "984 + (base + i) div 8 < L" if "i < fpb" for i using that rng by linarith
  note f = frsum_step [OF L fpb low, where Q = Q and base = base, folded b2_def, OF _ Q [OF inL]]
  have l2: "length b2 = L" using f(1) by blast
  have n2: "b2 ! i = b1 ! i" if "i < L" "i < 52 \<or> 84 \<le> i" for i using f(2) that by blast
  have r2: "nextufs__read_be32 b2 q = nextufs__read_be32 b q" if "q + 4 \<le> 52" for q
    using that L n2 low by (intro read_be32_cong) simp
  have magic: "nextufs__read_be32 b2 980 = nextufs__read_be32 b 980"
    using n2 low L by (intro read_be32_cong) simp
  have bits: "map_bit b2 984 k = Q k" if "984 + k div 8 < L" for k
    using map_bit_header [where L = L, of b2 b1 k] n2 that Q [OF that] by simp
  show "group_step L b b2 Q 0 0 (run_delta (map_bit b 984) Q base fpb)"
    unfolding group_step_def cg_offsets
    using l2 n2 r2 f(3) magic bits low L by (intro conjI allI impI) simp_all
  note rot = rotational_frame [OF l2 L(2), where s = s and local_frag = base' and d = d]
  note rrd = rotational_reads [OF l2 L(2), where s = s and local_frag = base' and d = d]
  have rf: "nextufs__read_be32 (bump_rotational s b2 base' d) (52 + k * 4) =
      u32_add (nextufs__read_be32 b (52 + k * 4)) (run_delta (map_bit b 984) Q base fpb k)" if k: "1 \<le> k" "k < 8" for k
  proof -
    have "52 + k * 4 + 4 \<le> 84" using k by linarith
    with f(3) k rrd(1) show ?thesis by simp
  qed
  have bits': "map_bit (bump_rotational s b2 base' d) 984 k = Q k" if "984 + k div 8 < L" for k
    using map_bit_header [where L = L, of "bump_rotational s b2 base' d" b1 k] rot n2 that Q [OF that] by simp
  show "group_step L b (bump_rotational s b2 base' d) Q 0 0 (run_delta (map_bit b 984) Q base fpb)"
    unfolding group_step_def cg_offsets
    using rot rrd r2 n2 rf magic bits' low L by (intro conjI allI impI) simp_all
  show "header_kept b b2" "header_kept b (bump_rotational s b2 base' d)"
    unfolding header_kept_def using rot(2) n2 low L(2) by auto
  have same: "b2 ! i = b ! i" if "84 \<le> i" "i < 724" for i using that n2 low L(2) by simp
  then show "tables_step s b b2 j 0" by (rule tables_kept)
  show "tables_step s b (bump_rotational s b2 base' d) j d" if "base' = j * frags_per_block s"
    unfolding that by (rule tables_step_cong [OF tables_bumped [OF l2 L(2)]]) (simp_all add: same)
qed

text \<open>
  What a stretch of a loop does besides the map: it keeps the header, and moves the counts that stand for the
  group by exactly what it adds to the changes so far.
\<close>

text \<open>The group with the changes of the counts added and another end.\<close>

definition with_counts :: "byte list \<Rightarrow> int \<Rightarrow> int \<Rightarrow> nat \<Rightarrow> byte list" where
  "with_counts b nb nf lim = nextufs__write_be32 (bump_be32 (bump_be32 b 28 nb) 36 nf) 20 lim"

lemma with_counts_fields:
  assumes "length b = L" and "984 \<le> L"
  shows "length (with_counts b nb nf lim) = L" "nextufs__read_be32 (with_counts b nb nf lim) 20 = u32 lim"
    "nextufs__read_be32 (with_counts b nb nf lim) 28 = u32_add (nextufs__read_be32 b 28) nb"
    "nextufs__read_be32 (with_counts b nb nf lim) 36 = u32_add (nextufs__read_be32 b 36) nf"
    "nextufs__read_be32 (with_counts b nb nf lim) 32 = nextufs__read_be32 b 32"
    "\<And>q. 40 \<le> q \<Longrightarrow> q + 4 \<le> L \<Longrightarrow> nextufs__read_be32 (with_counts b nb nf lim) q = nextufs__read_be32 b q"
    "\<And>i. 40 \<le> i \<Longrightarrow> i < L \<Longrightarrow> with_counts b nb nf lim ! i = b ! i"
    "\<And>k. 984 + k div 8 < L \<Longrightarrow> map_bit (with_counts b nb nf lim) 984 k = map_bit b 984 k"
proof -
  show l: "length (with_counts b nb nf lim) = L" "nextufs__read_be32 (with_counts b nb nf lim) 20 = u32 lim"
    "nextufs__read_be32 (with_counts b nb nf lim) 28 = u32_add (nextufs__read_be32 b 28) nb"
    "nextufs__read_be32 (with_counts b nb nf lim) 36 = u32_add (nextufs__read_be32 b 36) nf"
    "nextufs__read_be32 (with_counts b nb nf lim) 32 = nextufs__read_be32 b 32"
    using assms by (simp_all add: with_counts_def)
  show "\<And>q. 40 \<le> q \<Longrightarrow> q + 4 \<le> L \<Longrightarrow> nextufs__read_be32 (with_counts b nb nf lim) q = nextufs__read_be32 b q"
    using assms by (simp add: with_counts_def)
  show n: "\<And>i. 40 \<le> i \<Longrightarrow> i < L \<Longrightarrow> with_counts b nb nf lim ! i = b ! i"
    using assms unfolding with_counts_def bump_be32_def by (simp add: nth_write_be32)
  show "\<And>k. 984 + k div 8 < L \<Longrightarrow> map_bit (with_counts b nb nf lim) 984 k = map_bit b 984 k"
    using n by (intro map_bit_header) auto
qed

definition loop_kept :: "nat \<Rightarrow> byte list \<Rightarrow> int \<Rightarrow> int \<Rightarrow> byte list \<Rightarrow> int \<Rightarrow> int \<Rightarrow> bool" where
  "loop_kept lim b nb nf b' db df \<longleftrightarrow> header_kept b b' \<and>
     counts_moved (with_counts b nb nf lim) (with_counts b' (nb + db) (nf + df) lim) db df"

lemma loop_kept_refl: "loop_kept lim b nb nf b 0 0"
  by (simp add: loop_kept_def counts_moved_def header_kept_refl)

lemma loop_kept_trans:
  "loop_kept lim a nb nf b d e \<Longrightarrow> loop_kept lim b (nb + d) (nf + e) c d' e' \<Longrightarrow>
   loop_kept lim a nb nf c (d + d') (e + e')"
  unfolding loop_kept_def counts_moved_def by (auto simp: add.assoc intro: header_kept_trans)

lemma loop_kept_header: "loop_kept lim b nb nf b' db df \<Longrightarrow> header_kept b b'"
  by (simp add: loop_kept_def)

lemma loop_kept_counts:
  assumes "loop_kept lim b 0 0 b' db df" and "length b = L" and "length b' = L" and "984 \<le> L"
    and "nextufs__read_be32 c 28 = u32_add (nextufs__read_be32 b' 28) db"
    and "nextufs__read_be32 c 36 = u32_add (nextufs__read_be32 b' 36) df"
  shows "counts_moved b c db df"
  using assms with_counts_fields [OF assms(2,4), where nb = 0 and nf = 0 and lim = lim]
    with_counts_fields [OF assms(3,4), where nb = db and nf = df and lim = lim]
  by (simp add: loop_kept_def counts_moved_def cg_offsets)

lemma u32_add_add: "u32_add (u32_add v d) e = u32_add v (d + e)"
proof -
  have "(int (nat ((int v + d) mod 2 ^ 32)) + e) mod 2 ^ 32 = (int v + (d + e)) mod 2 ^ 32"
    by (simp add: mod_add_left_eq add.assoc)
  then show ?thesis by (simp only: u32_add_def)
qed

lemma with_counts_step:
  assumes st: "group_step L b b' Q 0 0 (run_delta (map_bit b 984) Q base fpb)" and L: "length b = L" "984 \<le> L"
    and rng: "984 + (base + fpb + 7) div 8 \<le> L"
  shows "group_step L (with_counts b nb nf lim) (with_counts b' (nb + db) (nf + df) lim) Q db df
     (run_delta (map_bit (with_counts b nb nf lim) 984) Q base fpb)"
proof -
  have L': "length b' = L" using st by (simp add: group_step_def)
  note f = with_counts_fields [OF L, where nb = nb and nf = nf and lim = lim]
    and f' = with_counts_fields [OF L' L(2), where nb = "nb + db" and nf = "nf + df" and lim = lim]
  note g = st [unfolded group_step_def cg_offsets]
  have inL: "984 + (base + i) div 8 < L" if "i < fpb" for i using that rng by linarith
  have "run_starts (\<lambda>i. map_bit (with_counts b nb nf lim) 984 (base + i)) fpb k = run_starts (\<lambda>i. map_bit b 984 (base + i)) fpb k" for k
    by (intro run_starts_cong f(8) inL)
  then have rd: "run_delta (map_bit (with_counts b nb nf lim) 984) Q base fpb = run_delta (map_bit b 984) Q base fpb"
    by (intro ext) (simp add: run_delta_def)
  have fr: "nextufs__read_be32 (with_counts b' (nb + db) (nf + df) lim) (52 + k * 4) =
      u32_add (nextufs__read_be32 (with_counts b nb nf lim) (52 + k * 4)) (run_delta (map_bit b 984) Q base fpb k)"
    if "1 \<le> k" "k < 8" for k
  proof -
    have "40 \<le> 52 + k * 4" "52 + k * 4 + 4 \<le> L" using that L by linarith+
    with f(6) f'(6) g that show ?thesis by simp
  qed
  have nth: "\<forall>i. 724 \<le> i \<and> i < 984 \<longrightarrow> with_counts b' (nb + db) (nf + df) lim ! i = with_counts b nb nf lim ! i"
    using f(7) f'(7) g L(2) by simp
  have bits: "\<forall>k. 984 + k div 8 < L \<longrightarrow> map_bit (with_counts b' (nb + db) (nf + df) lim) 984 k = Q k"
    using f'(8) g by blast
  show ?thesis
    unfolding group_step_def cg_offsets rd
    using f(2-6) f'(1-6) g nth bits fr L by (simp add: u32_add_add)
qed

text \<open>The invariant of a group depends on its length, three fields, the counters after them and the map.\<close>

lemma cg_ok_cong:
  assumes "cg_ok s b" and "length b' = length b"
    and "nextufs__read_be32 b' 20 \<le> frags_per_group s"
    and "\<And>k. k < frags_per_group s \<Longrightarrow> cg_bits b k \<Longrightarrow> k < nextufs__read_be32 b' 20"
    and "nextufs__read_be32 b' 28 = nextufs__read_be32 b 28"
    and "nextufs__read_be32 b' 36 = nextufs__read_be32 b 36"
    and "\<And>i. 52 \<le> i \<Longrightarrow> i < 724 \<Longrightarrow> b' ! i = b ! i" and "\<And>i. 984 \<le> i \<Longrightarrow> i < length b \<Longrightarrow> b' ! i = b ! i"
    and "block_geometry s"
  shows "cg_ok s b' \<and> (\<forall>k < frags_per_group s. cg_bits b' k = cg_bits b k)"
proof -
  note gd = block_geometryD [OF assms(9)]
  have len: "length b = cg_size s" using assms(1) by (simp add: cg_ok_def)
  have bits: "cg_bits b' k = cg_bits b k" if "k < frags_per_group s" for k
    using gd(7) [OF that] assms(8) len unfolding cg_bits_def CG_FREE_OFF_def by (intro map_bit_cong) simp
  have in_group: "j * frags_per_block s + i < frags_per_group s" if "j < cg_blocks s" "i < frags_per_block s" for j i
    using block_in_group [OF assms(9) that(1)] that(2) by linarith
  have w: "whole_free (cg_bits b') (frags_per_block s) i = whole_free (cg_bits b) (frags_per_block s) i" if "i < cg_blocks s" for i
    using in_group [OF that] bits by (auto simp: whole_free_def)
  have f: "block_frags (cg_bits b') (frags_per_block s) i = block_frags (cg_bits b) (frags_per_block s) i" if "i < cg_blocks s" for i
    unfolding block_frags_def using in_group [OF that] bits by (intro arg_cong [where f = card]) auto
  have r: "run_starts (\<lambda>x. cg_bits b' (i * frags_per_block s + x)) (frags_per_block s) k =
      run_starts (\<lambda>x. cg_bits b (i * frags_per_block s + x)) (frags_per_block s) k"
    if "i < cg_blocks s" for i k using in_group [OF that] bits by (intro run_starts_cong) simp
  have cong: "free_blocks (cg_bits b') (frags_per_block s) (cg_blocks s) = free_blocks (cg_bits b) (frags_per_block s) (cg_blocks s)"
    "free_frags (cg_bits b') (frags_per_block s) (cg_blocks s) = free_frags (cg_bits b) (frags_per_block s) (cg_blocks s)"
    "free_runs (cg_bits b') (frags_per_block s) (cg_blocks s) k = free_runs (cg_bits b) (frags_per_block s) (cg_blocks s) k" for k
    unfolding free_blocks_def free_frags_def free_runs_def by (auto simp: w f r intro!: sum.cong)
  have rr: "nextufs__read_be32 b' (52 + k * 4) = nextufs__read_be32 b (52 + k * 4)" if "k < frags_per_block s" for k
  proof -
    have "52 + k * 4 + 4 \<le> 84" using that gd(3) by linarith
    then show ?thesis using assms(7) by (intro read_be32_cong) simp
  qed
  have "tables_ok s (cg_bits b) b" using assms(1) by (simp add: cg_ok_def)
  then have "tables_ok s (cg_bits b') b'"
    by (rule tables_ok_cong) (use assms(7) bits in_group in simp_all)
  then have "cg_ok s b'"
    using assms(1,3,4) bits rr unfolding cg_ok_def cong cg_offsets assms(2,5,6) by simp
  with bits show ?thesis by blast
qed

section \<open>Adding free fragments\<close>

text \<open>What holds between two steps of the loops.\<close>

definition pending :: "nextufs_superblock \<Rightarrow> nat \<Rightarrow> int \<Rightarrow> int \<Rightarrow> byte list \<Rightarrow> bool" where
  "pending s lim nb nf b \<longleftrightarrow> block_geometry s \<and> length b = cg_size s \<and> lim \<le> frags_per_group s \<and> cg_ok s (with_counts b nb nf lim)"

lemma pendingD:
  assumes "pending s lim nb nf b"
  shows "block_geometry s" "length b = cg_size s" "lim \<le> frags_per_group s" "cg_ok s (with_counts b nb nf lim)"
    "u32 lim = lim" "\<And>k. k < frags_per_group s \<Longrightarrow> cg_bits (with_counts b nb nf lim) k = map_bit b 984 k"
    "\<And>k. k < frags_per_group s \<Longrightarrow> map_bit b 984 k \<Longrightarrow> k < lim"
proof -
  show g: "block_geometry s" and len: "length b = cg_size s" and lim: "lim \<le> frags_per_group s"
    and ok: "cg_ok s (with_counts b nb nf lim)" using assms by (simp_all add: pending_def)
  note gd = block_geometryD [OF g] and v = valid_geometryD [OF block_geometryD(1) [OF g]]
  show u: "u32 lim = lim" using lim v(15) by (intro u32_id) linarith
  note f = with_counts_fields [OF len gd(6), where nb = nb and nf = nf and lim = lim]
  show b: "\<And>k. k < frags_per_group s \<Longrightarrow> cg_bits (with_counts b nb nf lim) k = map_bit b 984 k"
    unfolding cg_bits_def CG_FREE_OFF_def by (rule f(8) [OF gd(7)])
  show "k < lim" if "k < frags_per_group s" "map_bit b 984 k" for k
    using ok that b [OF that(1)] f(2) u unfolding cg_ok_def cg_offsets by auto
qed

lemma pending_step:
  assumes p: "pending s lim nb nf b" and j: "j < cg_blocks s"
    and st: "group_step (cg_size s) b b' Q 0 0 (run_delta (map_bit b 984) Q (j * frags_per_block s) (frags_per_block s))"
    and same: "\<And>k. k < j * frags_per_block s \<or> j * frags_per_block s + frags_per_block s \<le> k \<Longrightarrow> Q k = cg_bits (with_counts b nb nf lim) k"
    and inside: "\<And>k. k < frags_per_group s \<Longrightarrow> Q k \<Longrightarrow> k < lim"
    and db: "db = (if whole_free Q (frags_per_block s) j then 1 else 0) -
      (if whole_free (map_bit b 984) (frags_per_block s) j then 1 else 0)"
    and df: "df = (if whole_free Q (frags_per_block s) j then 0 else int (block_frags Q (frags_per_block s) j)) -
      (if whole_free (map_bit b 984) (frags_per_block s) j then 0 else int (block_frags (map_bit b 984) (frags_per_block s) j))"
    and tb: "tables_step s b b' j db" and hk: "header_kept b b'"
  shows "pending s lim (nb + db) (nf + df) b' \<and> (\<forall>k < frags_per_group s. map_bit b' 984 k = Q k) \<and>
    loop_kept lim b nb nf b' db df"
proof -
  let ?fpb = "frags_per_block s"
  note pd = pendingD [OF p]
  note gd = block_geometryD [OF pd(1)]
  note blk = block_in_group [OF pd(1) j]
  note f = with_counts_fields [OF pd(2) gd(6), where nb = nb and nf = nf and lim = lim]
  have inb: "j * ?fpb + i < frags_per_group s" if "i < ?fpb" for i using blk that by linarith
  have w: "whole_free (cg_bits (with_counts b nb nf lim)) ?fpb j = whole_free (map_bit b 984) ?fpb j"
    using pd(6) inb by (auto simp: whole_free_def)
  have bf: "block_frags (cg_bits (with_counts b nb nf lim)) ?fpb j = block_frags (map_bit b 984) ?fpb j"
    unfolding block_frags_def using pd(6) inb by (intro arg_cong [where f = card]) auto
  have lim20: "nextufs__read_be32 (with_counts b nb nf lim) CG_NDBLK_OFF = lim" using f(2) pd(5) by (simp add: cg_offsets)
  have len': "length b' = cg_size s" using st by (simp add: group_step_def)
  note f' = with_counts_fields [OF len' gd(6), where nb = "nb + db" and nf = "nf + df" and lim = lim]
  have tb': "tables_step s (with_counts b nb nf lim) (with_counts b' (nb + db) (nf + df) lim) j db"
    by (rule tables_step_cong [OF tb]) (use f(7) f'(7) gd(6) in simp_all)
  have "cg_ok s (with_counts b' (nb + db) (nf + df) lim) \<and>
      (\<forall>k < frags_per_group s. cg_bits (with_counts b' (nb + db) (nf + df) lim) k = Q k) \<and>
      counts_moved (with_counts b nb nf lim) (with_counts b' (nb + db) (nf + df) lim) db df"
  proof (rule cg_ok_step [OF pd(1,4) j])
    show "group_step (cg_size s) (with_counts b nb nf lim) (with_counts b' (nb + db) (nf + df) lim) Q db df
      (run_delta (map_bit (with_counts b nb nf lim) 984) Q (j * ?fpb) ?fpb)"
      by (rule with_counts_step [OF st pd(2) gd(6)]) (use gd(8) blk in blast)
  qed (use same inside lim20 db df w bf tb' in simp_all)
  then have "pending s lim (nb + db) (nf + df) b'" "loop_kept lim b nb nf b' db df"
    using pd(1,3) len' hk by (simp_all add: pending_def loop_kept_def)
  moreover from st gd(7) have "\<forall>k < frags_per_group s. map_bit b' 984 k = Q k" by (simp add: group_step_def cg_offsets)
  ultimately show ?thesis by blast
qed

lemma add_free_block_ok:
  assumes p: "pending s lim nb nf b" and e: "start < e" "e \<le> start - start mod frags_per_block s + frags_per_block s" "e \<le> lim"
    and none: "\<And>k. start \<le> k \<Longrightarrow> k < e \<Longrightarrow> \<not> map_bit b 984 k"
  shows "\<exists>b' db df. add_free_block s start e b = Inr (b', db, df) \<and> pending s lim (nb + db) (nf + df) b' \<and> loop_kept lim b nb nf b' db df \<and>
    (\<forall>k < frags_per_group s. map_bit b' 984 k \<longleftrightarrow> map_bit b 984 k \<or> start \<le> k \<and> k < e) \<and>
    db * int (frags_per_block s) + df = int (e - start) \<and> 0 \<le> db \<and> db \<le> int (e - start)"
proof -
  let ?fpb = "frags_per_block s" let ?j = "start div ?fpb" let ?V = "with_counts b nb nf lim"
  let ?Q = "\<lambda>k. cg_bits ?V k \<or> start \<le> k \<and> k < e"
  note pd = pendingD [OF p]
  note gd = block_geometryD [OF pd(1)]
  have eq: "?j * ?fpb + start mod ?fpb = start" and jf: "start - start mod ?fpb = ?j * ?fpb" by (simp_all add: minus_mod_eq_div_mult)
  have jN: "?j < cg_blocks s" by (rule block_below [OF pd(1)]) (use eq e pd(3) in linarith)
  note blk = block_in_group [OF pd(1) jN]
  have in_blk: "?j * ?fpb \<le> start" "e \<le> ?j * ?fpb + ?fpb" using eq e jf by linarith+
  have rng: "984 + (?j * ?fpb + ?fpb + 7) div 8 \<le> cg_size s" using gd(8) blk by blast
  have ks: "984 + k div 8 < length b" if "k \<in> set [start..<e]" for k
    using that e(3) pd(2,3) gd(7) [of k] by simp
  obtain b1 where b1: "free_bits b 984 [start..<e] = Some b1"
    using free_bits_None [of b 984 "[start..<e]"] ks none by (cases "free_bits b 984 [start..<e]") auto
  note fb = free_bits_Some [OF b1 ks]
  have l1: "length b1 = cg_size s" and low: "\<And>i. i < 984 \<Longrightarrow> b1 ! i = b ! i" using fb pd(2) by auto
  have Vb: "cg_bits ?V k = map_bit b 984 k" if "984 + k div 8 < cg_size s" for k
    using with_counts_fields(8) [OF pd(2) gd(6)] that by (simp add: cg_bits_def cg_offsets)
  have Q: "map_bit b1 984 k = ?Q k" if "984 + k div 8 < cg_size s" for k using fb Vb [OF that] by auto
  define b2 where "b2 = nextufs__apply_cg_frsum_delta b1
      (nextufs__count_free_runs_in_block b 984 (?j * ?fpb) ?fpb) (nextufs__count_free_runs_in_block b1 984 (?j * ?fpb) ?fpb) ?fpb"
  note st = frsum_group_step [OF l1 gd(6,3) low Q rng, folded b2_def]
  have inb: "?j * ?fpb + i < frags_per_group s" if "i < ?fpb" for i using blk that by linarith
  have all2: "count_free_bits b2 (?j * ?fpb) ?fpb = ?fpb \<longleftrightarrow> whole_free ?Q ?fpb ?j"
    using st(1) gd(7) inb by (auto simp: count_free_bits_all whole_free_def group_step_def cg_offsets)
  have nf: "\<forall>k. start \<le> k \<and> k < e \<longrightarrow> \<not> cg_bits ?V k" using none Vb ks pd(2) by simp
  have ee: "start + (e - start) = e" using e(1) by simp
  have bf: "block_frags ?Q ?fpb ?j = block_frags (cg_bits ?V) ?fpb ?j + (e - start)"
    using in_blk nf e(1) by (intro block_frags_split [where start = start]) (auto simp: ee)
  have bfb: "block_frags (cg_bits ?V) ?fpb ?j = block_frags (map_bit b 984) ?fpb ?j"
    unfolding block_frags_def using pd(6) inb by (intro arg_cong [where f = card]) auto
  have nw: "\<not> whole_free (map_bit b 984) ?fpb ?j"
  proof
    assume w: "whole_free (map_bit b 984) ?fpb ?j"
    have "start mod ?fpb < ?fpb" using gd(2) by simp
    with w have "map_bit b 984 (?j * ?fpb + start mod ?fpb)" unfolding whole_free_def by blast
    then show False using eq none [of start] e(1) by simp
  qed
  define w where "w = whole_free ?Q ?fpb ?j"
  define b' where "b' = (if w then bump_rotational s b2 (?j * ?fpb) 1 else b2)"
  let ?db = "if w then 1 else 0 :: int" let ?df = "int (e - start) - (if w then int ?fpb else 0)"
  have run: "add_free_block s start e b = Inr (b', ?db, ?df)"
    using b1 all2 by (simp add: add_free_block_def Let_def set_frag_bits_eq map_ops_eq jf b2_def [symmetric] b'_def w_def)
  have st': "group_step (cg_size s) b b' ?Q 0 0 (run_delta (map_bit b 984) ?Q (?j * ?fpb) ?fpb)"
    using st(1,2) by (simp add: b'_def)
  have hk: "header_kept b b'" using st(3,4) by (simp add: b'_def)
  have tb: "tables_step s b b' ?j ?db" using st(5) [where s = s and j = ?j] st(6) [where s = s and base' = "?j * ?fpb" and j = ?j] by (simp add: b'_def)
  have df: "?df = (if whole_free ?Q ?fpb ?j then 0 else int (block_frags ?Q ?fpb ?j)) - int (block_frags (map_bit b 984) ?fpb ?j)"
    using bf bfb block_frags_whole [of ?Q ?fpb ?j] e(1) by (auto simp: w_def)
  have "pending s lim (nb + ?db) (nf + ?df) b' \<and> (\<forall>k < frags_per_group s. map_bit b' 984 k = ?Q k) \<and>
      loop_kept lim b nb nf b' ?db ?df"
  proof (rule pending_step [OF p jN st'])
    show "?Q k = cg_bits ?V k" if "k < ?j * ?fpb \<or> ?j * ?fpb + ?fpb \<le> k" for k
    proof -
      from that in_blk have "\<not> (start \<le> k \<and> k < e)" by linarith
      then show ?thesis by blast
    qed
    show "k < lim" if "k < frags_per_group s" "?Q k" for k using that pd(6,7) e(3) by auto
  qed (use nw df tb hk in \<open>simp_all add: w_def\<close>)
  with run pd(6) e(1) show ?thesis by (intro exI [of _ b'] exI [of _ ?db] exI [of _ ?df]) auto
qed

lemma next_block_bounds:
  assumes "0 < frags_per_block s" and "start < end"
  shows "start < next_block s end start" "next_block s end start \<le> start - start mod frags_per_block s + frags_per_block s"
    "next_block s end start \<le> end"
  using next_block_greater [OF assms] by (simp_all add: next_block_def)

lemma add_free_blocks_ok:
  assumes "pending s lim nb nf b" and "start \<le> end" and "end \<le> lim"
    and "\<And>k. start \<le> k \<Longrightarrow> k < end \<Longrightarrow> \<not> map_bit b 984 k"
  shows "\<exists>b' nb' nf'. add_free_blocks s end start b nb nf = Inr (b', nb', nf') \<and> pending s lim nb' nf' b' \<and> loop_kept lim b nb nf b' (nb' - nb) (nf' - nf) \<and>
    (\<forall>k < frags_per_group s. map_bit b' 984 k \<longleftrightarrow> map_bit b 984 k \<or> start \<le> k \<and> k < end) \<and>
    nb' * int (frags_per_block s) + nf' = nb * int (frags_per_block s) + nf + int (end - start) \<and>
    nb \<le> nb' \<and> nb' \<le> nb + int (end - start)"
  using assms
proof (induction "end - start" arbitrary: start b nb nf rule: less_induct)
  case less
  note pd = pendingD [OF less.prems(1)]
  have fpb: "0 < frags_per_block s" using block_geometryD(2) [OF pd(1)] .
  show ?case
  proof (cases "end \<le> start")
    case True
    then have "start = end" using less.prems(2) by simp
    then show ?thesis using less.prems(1) loop_kept_refl [of lim b nb nf] by (subst add_free_blocks.simps) auto
  next
    case False
    let ?e = "next_block s end start"
    from False have lt: "start < end" by simp
    note nb = next_block_bounds [OF fpb lt]
    have el: "?e \<le> lim" using nb(3) less.prems(3) by linarith
    have nn: "\<not> map_bit b 984 k" if "start \<le> k" "k < ?e" for k
      using less.prems(4) [OF that(1)] that(2) nb(3) by linarith
    from add_free_block_ok [OF less.prems(1) nb(1,2) el nn] obtain b1 db df where
      s1: "add_free_block s start ?e b = Inr (b1, db, df)" "pending s lim (nb + db) (nf + df) b1"
        "loop_kept lim b nb nf b1 db df"
        "\<forall>k < frags_per_group s. map_bit b1 984 k \<longleftrightarrow> map_bit b 984 k \<or> start \<le> k \<and> k < ?e"
        "db * int (frags_per_block s) + df = int (?e - start)" "0 \<le> db" "db \<le> int (?e - start)" by blast
    note hk1 = s1(3) and bd1 = s1(6,7)
    note s1 = s1(1,2,4,5)
    have none: "\<not> map_bit b1 984 k" if "?e \<le> k" "k < end" for k
    proof -
      have "k < frags_per_group s" using that(2) less.prems(3) pd(3) by linarith
      moreover have "start \<le> k" using that(1) nb(1) by linarith
      ultimately show ?thesis using s1(3) less.prems(4) that by auto
    qed
    have sm: "end - ?e < end - start" using nb(1) lt by linarith
    from less.hyps [OF sm s1(2) nb(3) less.prems(3) none] obtain b' nb' nf' where
      r: "add_free_blocks s end ?e b1 (nb + db) (nf + df) = Inr (b', nb', nf')" "pending s lim nb' nf' b'"
        "loop_kept lim b1 (nb + db) (nf + df) b' (nb' - (nb + db)) (nf' - (nf + df))"
        "\<forall>k < frags_per_group s. map_bit b' 984 k \<longleftrightarrow> map_bit b1 984 k \<or> ?e \<le> k \<and> k < end"
        "nb' * int (frags_per_block s) + nf' = (nb + db) * int (frags_per_block s) + (nf + df) + int (end - ?e)"
        "nb + db \<le> nb'" "nb' \<le> nb + db + int (end - ?e)" by auto
    have hk: "loop_kept lim b nb nf b' (nb' - nb) (nf' - nf)"
      using loop_kept_trans [OF hk1 r(3)] by simp
    have bd: "nb \<le> nb'" "nb' \<le> nb + int (end - start)" using bd1 r(6,7) nb lt by simp_all
    note r = r(1,2,4,5)
    have "add_free_blocks s end start b nb nf = Inr (b', nb', nf')"
      using False fpb s1(1) r(1) by (subst add_free_blocks.simps) simp
    moreover have "map_bit b' 984 k \<longleftrightarrow> map_bit b 984 k \<or> start \<le> k \<and> k < end" if "k < frags_per_group s" for k
      using r(3) s1(3) that nb by auto
    moreover have "nb' * int (frags_per_block s) + nf' = nb * int (frags_per_block s) + nf + int (end - start)"
    proof -
      have "int (end - ?e) + int (?e - start) = int (end - start)" using nb lt by simp
      then show ?thesis using r(4) s1(4) by (simp add: algebra_simps)
    qed
    ultimately show ?thesis using r(2) hk bd by blast
  qed
qed

lemma add_free_frag_range_ok:
  assumes "pending s lim nb nf b" and "start \<le> end" and "end \<le> lim"
    and "\<And>k. start \<le> k \<Longrightarrow> k < end \<Longrightarrow> \<not> map_bit b 984 k"
  shows "\<exists>b' db df. add_free_frag_range s b start end = Inr (b', db, df) \<and> pending s lim (nb + db) (nf + df) b' \<and> loop_kept lim b nb nf b' db df \<and>
    (\<forall>k < frags_per_group s. map_bit b' 984 k \<longleftrightarrow> map_bit b 984 k \<or> start \<le> k \<and> k < end) \<and>
    db * int (frags_per_block s) + df = int (end - start) \<and> 0 \<le> db \<and> db \<le> int (end - start)"
proof -
  note pd = pendingD [OF assms(1)]
  note gd = block_geometryD [OF pd(1)]
  have acc: "add_free_blocks s end start b (nb + x) (nf + y) =
      (case add_free_blocks s end start b x y of Inl e \<Rightarrow> Inl e | Inr (b', db, df) \<Rightarrow> Inr (b', nb + db, nf + df))"
    for x y nb nf start b
  proof (induction "end - start" arbitrary: start b x y rule: less_induct)
    case less
    show ?case
    proof (cases "end \<le> start \<or> frags_per_block s = 0")
      case True
      then show ?thesis by (subst (1 2) add_free_blocks.simps) simp
    next
      case False
      then have lt: "end - next_block s end start < end - start"
        using next_block_bounds(1) [of s start "end"] by auto
      show ?thesis
      proof (cases "add_free_block s start (next_block s end start) b")
        case (Inl e)
        then show ?thesis using False by (subst (1 2) add_free_blocks.simps) simp
      next
        case (Inr q)
        obtain b1 db df where q: "q = (b1, db, df)" by (cases q)
        show ?thesis
          using less.hyps [OF lt, of b1 "x + db" "y + df"] Inr q False
          by (subst (1 2) add_free_blocks.simps) (simp add: add.assoc)
      qed
    qed
  qed
  from add_free_blocks_ok [OF assms] obtain b' nb' nf' where
    r: "add_free_blocks s end start b nb nf = Inr (b', nb', nf')" "pending s lim nb' nf' b'"
      "loop_kept lim b nb nf b' (nb' - nb) (nf' - nf)"
      "\<forall>k < frags_per_group s. map_bit b' 984 k \<longleftrightarrow> map_bit b 984 k \<or> start \<le> k \<and> k < end"
      "nb' * int (frags_per_block s) + nf' = nb * int (frags_per_block s) + nf + int (end - start)"
      "nb \<le> nb'" "nb' \<le> nb + int (end - start)" by blast
  from acc [of start b nb 0 nf 0] r(1) obtain db df where z: "add_free_blocks s end start b 0 0 = Inr (b', db, df)"
    "nb' = nb + db" "nf' = nf + df" by (auto split: sum.splits)
  have "add_free_frag_range s b start end = Inr (b', db, df)"
    using assms(2,3) pd(3) gd(2,3) z(1) by (simp add: add_free_frag_range_def)
  moreover have "db * int (frags_per_block s) + df = int (end - start)"
    using r(5) z by (simp add: algebra_simps)
  ultimately show ?thesis using r(2-4,6,7) z by (intro exI [of _ b'] exI [of _ db] exI [of _ df]) simp
qed

text \<open>The group whose end moves, with the changes of its counts.\<close>

lemma pending_start:
  assumes "block_geometry s" and "cg_ok s b" and "nextufs__read_be32 b 20 \<le> end" and "end \<le> frags_per_group s"
  shows "pending s end 0 0 b"
proof -
  note gd = block_geometryD [OF assms(1)]
  have len: "length b = cg_size s" using assms(2) by (simp add: cg_ok_def)
  note f = with_counts_fields [OF len gd(6), where nb = 0 and nf = 0 and lim = "end"]
  have u: "u32 end = end" using assms(4) valid_geometryD(15) [OF gd(1)] by (intro u32_id) linarith
  have z: "u32_add (nextufs__read_be32 b q) 0 = nextufs__read_be32 b q" for q
    using read_be32_less [of b q] by (simp add: u32_add_def)
  have "cg_ok s (with_counts b 0 0 end) \<and> (\<forall>k < frags_per_group s. cg_bits (with_counts b 0 0 end) k = cg_bits b k)"
  proof (rule cg_ok_cong [OF assms(2) _ _ _ _ _ _ _ assms(1)])
    show "k < nextufs__read_be32 (with_counts b 0 0 end) 20" if "k < frags_per_group s" "cg_bits b k" for k
      using assms(2,3) that f(2) u unfolding cg_ok_def cg_offsets by fastforce
  qed (use f u z len assms(4) gd(6) in \<open>simp_all\<close>)
  with assms len show ?thesis by (simp add: pending_def)
qed

lemma pending_end:
  assumes "pending s lim nb nf b" and "length b' = cg_size s" and "nextufs__read_be32 b' 20 = lim"
    and "nextufs__read_be32 b' 28 = u32_add (nextufs__read_be32 b 28) nb"
    and "nextufs__read_be32 b' 36 = u32_add (nextufs__read_be32 b 36) nf"
    and "\<And>i. 52 \<le> i \<Longrightarrow> i < cg_size s \<Longrightarrow> b' ! i = b ! i"
  shows "cg_ok s b' \<and> (\<forall>k < frags_per_group s. cg_bits b' k = map_bit b 984 k)"
proof -
  note pd = pendingD [OF assms(1)]
  note gd = block_geometryD [OF pd(1)]
  note f = with_counts_fields [OF pd(2) gd(6), where nb = nb and nf = nf and lim = lim]
  have "cg_ok s b' \<and> (\<forall>k < frags_per_group s. cg_bits b' k = cg_bits (with_counts b nb nf lim) k)"
  proof (rule cg_ok_cong [OF pd(4) _ _ _ _ _ _ _ pd(1)])
    show "k < nextufs__read_be32 b' 20" if "k < frags_per_group s" "cg_bits (with_counts b nb nf lim) k" for k
      using pd(6,7) that assms(3) by blast
  qed (use f assms pd(3) gd(6) in \<open>simp_all\<close>)
  with pd(6) show ?thesis by simp
qed

lemma cg_extended_fields:
  assumes "length b = L" and "984 \<le> L"
  shows "length (cg_extended b cyls fin nb nf now) = L" "nextufs__read_be32 (cg_extended b cyls fin nb nf now) 20 = u32 fin"
    "nextufs__read_be32 (cg_extended b cyls fin nb nf now) 28 = u32_add (nextufs__read_be32 b 28) nb"
    "nextufs__read_be32 (cg_extended b cyls fin nb nf now) 36 = u32_add (nextufs__read_be32 b 36) nf"
    "nextufs__read_be32 (cg_extended b cyls fin nb nf now) 24 = nextufs__read_be32 b 24"
    "nextufs__read_be32 (cg_extended b cyls fin nb nf now) 32 = nextufs__read_be32 b 32"
    "\<And>i. 52 \<le> i \<Longrightarrow> i < L \<Longrightarrow> cg_extended b cyls fin nb nf now ! i = b ! i"
  using assms by (simp_all add: cg_extended_def Let_def cg_offsets CG_NCYL_OFF_def bump_be32_def nth_write_be32 nth_write_be16)

lemma group_extended_ok:
  assumes "block_geometry s" and "cg_ok s b" and "nextufs__read_be32 b 20 = start" and "start \<le> end" and "end \<le> frags_per_group s"
  shows "\<exists>b' nb nf. add_free_frag_range s b start end = Inr (b', nb, nf) \<and>
    cg_ok s (cg_extended b' cyls end nb nf now) \<and> nextufs__read_be32 (cg_extended b' cyls end nb nf now) 20 = end \<and>
    counts_moved b (cg_extended b' cyls end nb nf now) nb nf \<and> (\<forall>k < frags_per_group s. cg_bits (cg_extended b' cyls end nb nf now) k \<longleftrightarrow> cg_bits b k \<or> start \<le> k \<and> k < end) \<and>
    nb * int (frags_per_block s) + nf = int (end - start)"
proof -
  note gd = block_geometryD [OF assms(1)]
  have none: "\<not> map_bit b 984 k" if "start \<le> k" "k < end" for k
  proof -
    have "k < frags_per_group s" using that(2) assms(5) by linarith
    then show ?thesis using assms(2,3) that(1) unfolding cg_ok_def cg_bits_def cg_offsets by auto
  qed
  have p: "pending s end 0 0 b" by (rule pending_start [OF assms(1,2) _ assms(5)]) (simp add: assms(3,4))
  from add_free_frag_range_ok [OF p assms(4) le_refl none] obtain b' nb nf where
    r: "add_free_frag_range s b start end = Inr (b', nb, nf)" and p': "pending s end nb nf b'"
    and hk: "loop_kept end b 0 0 b' nb nf"
    and bits: "\<forall>k < frags_per_group s. map_bit b' 984 k \<longleftrightarrow> map_bit b 984 k \<or> start \<le> k \<and> k < end"
    and n: "nb * int (frags_per_block s) + nf = int (end - start)" by auto
  note pd = pendingD [OF p']
  note f = cg_extended_fields [OF pd(2) gd(6), where cyls = cyls and fin = "end" and nb = nb and nf = nf and now = now]
  have e: "nextufs__read_be32 (cg_extended b' cyls end nb nf now) 20 = end" using f(2) pd(5) by simp
  have "counts_moved b (cg_extended b' cyls end nb nf now) nb nf"
    by (rule loop_kept_counts [OF hk pendingD(2) [OF p] pd(2) gd(6) f(3,4)])
  with pending_end [OF p' f(1) e f(3,4,7)] bits r n e show ?thesis
    by (intro exI [of _ b'] exI [of _ nb] exI [of _ nf]) (simp add: cg_bits_def cg_offsets)
qed

section \<open>Taking free fragments\<close>

lemma fold_clear_bits:
  assumes "\<And>k. k \<in> set ks \<Longrightarrow> 984 + k div 8 < length b"
  shows "length (fold (\<lambda>i b. clear_frag_bit b i) ks b) = length b"
    and "\<And>i. i < 984 \<Longrightarrow> fold (\<lambda>i b. clear_frag_bit b i) ks b ! i = b ! i"
    and "\<And>k. map_bit (fold (\<lambda>i b. clear_frag_bit b i) ks b) 984 k \<longleftrightarrow> map_bit b 984 k \<and> k \<notin> set ks"
proof -
  have "length (fold (\<lambda>i b. clear_frag_bit b i) ks b) = length b \<and>
    (\<forall>i < 984. fold (\<lambda>i b. clear_frag_bit b i) ks b ! i = b ! i) \<and>
    (\<forall>k. map_bit (fold (\<lambda>i b. clear_frag_bit b i) ks b) 984 k \<longleftrightarrow> map_bit b 984 k \<and> k \<notin> set ks)"
    using assms
  proof (induction ks arbitrary: b)
    case (Cons k ks)
    have k: "984 + k div 8 < length b" using Cons.prems by simp
    have IH: "length (fold (\<lambda>i b. clear_frag_bit b i) ks (map_clear b 984 k)) = length b \<and>
      (\<forall>i < 984. fold (\<lambda>i b. clear_frag_bit b i) ks (map_clear b 984 k) ! i = map_clear b 984 k ! i) \<and>
      (\<forall>l. map_bit (fold (\<lambda>i b. clear_frag_bit b i) ks (map_clear b 984 k)) 984 l \<longleftrightarrow> map_bit (map_clear b 984 k) 984 l \<and> l \<notin> set ks)"
      using Cons.IH [of "map_clear b 984 k"] Cons.prems by simp
    show ?case using IH map_bit_clear [OF k] by (auto simp: map_ops_eq nth_map_clear)
  qed simp
  then show "length (fold (\<lambda>i b. clear_frag_bit b i) ks b) = length b"
    "\<And>i. i < 984 \<Longrightarrow> fold (\<lambda>i b. clear_frag_bit b i) ks b ! i = b ! i"
    "\<And>k. map_bit (fold (\<lambda>i b. clear_frag_bit b i) ks b) 984 k \<longleftrightarrow> map_bit b 984 k \<and> k \<notin> set ks" by blast+
qed

lemma count_free_bits_block: "count_free_bits b (j * fpb) fpb = block_frags (map_bit b 984) fpb j"
  by (simp add: count_free_bits_card block_frags_def)

lemma reserve_block_ok:
  assumes p: "pending s lim nb nf b" and e: "start < e" "e \<le> start - start mod frags_per_block s + frags_per_block s" "e \<le> frags_per_group s"
    and all: "\<And>k. start \<le> k \<Longrightarrow> k < e \<Longrightarrow> map_bit b 984 k"
  shows "\<exists>b' db df. take_block s start e b = Inr (b', db, df) \<and> pending s lim (nb + db) (nf + df) b' \<and> loop_kept lim b nb nf b' db df \<and>
    (\<forall>k < frags_per_group s. map_bit b' 984 k \<longleftrightarrow> map_bit b 984 k \<and> \<not> (start \<le> k \<and> k < e)) \<and>
    db * int (frags_per_block s) + df = - int (e - start)"
proof -
  let ?fpb = "frags_per_block s" let ?j = "start div frags_per_block s" let ?V = "with_counts b nb nf lim"
  let ?Q = "\<lambda>k. cg_bits ?V k \<and> \<not> (start \<le> k \<and> k < e)"
  note pd = pendingD [OF p]
  note gd = block_geometryD [OF pd(1)]
  have eq: "?j * ?fpb + start mod ?fpb = start" and jf: "start - start mod ?fpb = ?j * ?fpb" by (simp_all add: minus_mod_eq_div_mult)
  have jN: "?j < cg_blocks s" by (rule block_below [OF pd(1)]) (use eq e in linarith)
  note blk = block_in_group [OF pd(1) jN]
  have in_blk: "?j * ?fpb \<le> start" "e \<le> ?j * ?fpb + ?fpb" using eq e jf by linarith+
  have rng: "984 + (?j * ?fpb + ?fpb + 7) div 8 \<le> cg_size s" using gd(8) blk by blast
  have ks: "984 + k div 8 < length b" if "k \<in> set [start..<e]" for k
    using that e(3) pd(2) gd(7) [of k] by simp
  define b1 where "b1 = fold (\<lambda>i b. clear_frag_bit b i) [start..<e] b"
  note fb = fold_clear_bits [where ks = "[start..<e]" and b = b, OF ks, folded b1_def]
  have l1: "length b1 = cg_size s" using fb(1) pd(2) by simp
  have Vb: "cg_bits ?V k = map_bit b 984 k" if "984 + k div 8 < cg_size s" for k
    using with_counts_fields(8) [OF pd(2) gd(6)] that by (simp add: cg_bits_def cg_offsets)
  have Q: "map_bit b1 984 k = ?Q k" if "984 + k div 8 < cg_size s" for k using fb(3) Vb [OF that] by auto
  define b2 where "b2 = nextufs__apply_cg_frsum_delta b1
      (nextufs__count_free_runs_in_block b 984 (?j * ?fpb) ?fpb) (nextufs__count_free_runs_in_block b1 984 (?j * ?fpb) ?fpb) ?fpb"
  note st = frsum_group_step [OF l1 gd(6,3) fb(2) Q rng, folded b2_def]
  have inb: "?j * ?fpb + i < frags_per_group s" if "i < ?fpb" for i using blk that by linarith
  have cnt1: "count_free_bits b1 (?j * ?fpb) ?fpb = block_frags ?Q ?fpb ?j"
    unfolding count_free_bits_block block_frags_def using Q gd(7) inb by (intro arg_cong [where f = card]) auto
  have cnt: "count_free_bits b (?j * ?fpb) ?fpb = block_frags (map_bit b 984) ?fpb ?j" by (rule count_free_bits_block)
  have full: "block_frags (map_bit b 984) ?fpb ?j = ?fpb \<longleftrightarrow> whole_free (map_bit b 984) ?fpb ?j"
    unfolding count_free_bits_block [symmetric] count_free_bits_all whole_free_def ..
  have ee: "start + (e - start) = e" using e(1) by simp
  have bf: "block_frags (map_bit b 984) ?fpb ?j = block_frags (cg_bits ?V) ?fpb ?j"
    unfolding block_frags_def using pd(6) inb by (intro arg_cong [where f = card]) auto
  have av: "cg_bits ?V k" if "start \<le> k" "k < e" for k using that all Vb gd(7) e(3) by simp
  have bfV: "block_frags (cg_bits ?V) ?fpb ?j = block_frags ?Q ?fpb ?j + (e - start)"
    using in_blk av e(1) by (intro block_frags_split [where start = start]) (auto simp: ee)
  have nw: "\<not> whole_free ?Q ?fpb ?j"
    using e(1) in_blk by (intro not_whole_taken [of "e - start" ?j ?fpb start]) (auto simp: ee)
  define w where "w = whole_free (map_bit b 984) ?fpb ?j"
  define b' where "b' = (if w then bump_rotational s b2 (?j * ?fpb) (- 1) else b2)"
  let ?db = "if w then - 1 else 0 :: int"
  let ?df = "int (block_frags ?Q ?fpb ?j) - (if w then 0 else int (block_frags (map_bit b 984) ?fpb ?j))"
  have la: "list_all (frag_bit_is_set b) [start..<e]" using all by (simp add: map_ops_eq list_all_iff)
  have "count_free_bits b (?j * ?fpb) ?fpb \<le> ?fpb"
    unfolding count_free_bits_def by (rule order_trans [OF length_filter_le]) simp
  then have less: "block_frags ?Q ?fpb ?j \<noteq> ?fpb" using cnt bf bfV e(1) by linarith
  have m: "fold (\<lambda>i b. map_clear b 984 i) [start..<e] b = b1" by (simp add: b1_def map_ops_eq)
  have run: "take_block s start e b = Inr (b', ?db, ?df)"
    using la less gd(3) by (simp add: take_block_def Let_def map_ops_eq jf cnt full w_def [symmetric] m cnt1
        b2_def [symmetric] b'_def)
  have st': "group_step (cg_size s) b b' ?Q 0 0 (run_delta (map_bit b 984) ?Q (?j * ?fpb) ?fpb)"
    using st(1,2) by (simp add: b'_def)
  have hk: "header_kept b b'" using st(3,4) by (simp add: b'_def)
  have tb: "tables_step s b b' ?j ?db" using st(5) [where s = s and j = ?j] st(6) [where s = s and base' = "?j * ?fpb" and j = ?j] by (simp add: b'_def)
  have "pending s lim (nb + ?db) (nf + ?df) b' \<and> (\<forall>k < frags_per_group s. map_bit b' 984 k = ?Q k) \<and>
      loop_kept lim b nb nf b' ?db ?df"
  proof (rule pending_step [OF p jN st'])
    show "?Q k = cg_bits ?V k" if "k < ?j * ?fpb \<or> ?j * ?fpb + ?fpb \<le> k" for k
    proof -
      from that in_blk have "\<not> (start \<le> k \<and> k < e)" by linarith
      then show ?thesis by blast
    qed
    show "k < lim" if "k < frags_per_group s" "?Q k" for k using that pd(6,7) by auto
  qed (use nw tb hk in \<open>simp_all add: w_def\<close>)
  moreover have "?db * int ?fpb + ?df = - int (e - start)"
    using bf bfV block_frags_whole [of "map_bit b 984" ?fpb ?j] by (auto simp: w_def)
  ultimately show ?thesis using run pd(6) by (intro exI [of _ b'] exI [of _ ?db] exI [of _ ?df]) auto
qed

lemma take_blocks_ok:
  assumes "pending s lim nb nf b" and "start \<le> end" and "end \<le> frags_per_group s"
  shows "if \<forall>k. start \<le> k \<and> k < end \<longrightarrow> map_bit b 984 k
    then \<exists>b' db df. take_blocks s end start b x y = Inr (b', x + db, y + df) \<and> pending s lim (nb + db) (nf + df) b' \<and> loop_kept lim b nb nf b' db df \<and>
      (\<forall>k < frags_per_group s. map_bit b' 984 k \<longleftrightarrow> map_bit b 984 k \<and> \<not> (start \<le> k \<and> k < end)) \<and>
      db * int (frags_per_block s) + df = - int (end - start)
    else take_blocks s end start b x y = Inl ENOSPC"
  using assms
proof (induction "end - start" arbitrary: start b nb nf x y rule: less_induct)
  case less
  note pd = pendingD [OF less.prems(1)]
  note gd = block_geometryD [OF pd(1)]
  show ?case
  proof (cases "end \<le> start")
    case True
    then have none: "\<forall>k. start \<le> k \<and> k < end \<longrightarrow> map_bit b 984 k" by auto
    have "take_blocks s end start b x y = Inr (b, x, y)" using True by (subst take_blocks.simps) simp
    then have "take_blocks s end start b x y = Inr (b, x + 0, y + 0) \<and> pending s lim (nb + 0) (nf + 0) b \<and> loop_kept lim b nb nf b 0 0 \<and>
      (\<forall>k < frags_per_group s. map_bit b 984 k \<longleftrightarrow> map_bit b 984 k \<and> \<not> (start \<le> k \<and> k < end)) \<and>
      0 * int (frags_per_block s) + 0 = - int (end - start)" using True less.prems(1) loop_kept_refl [of lim b nb nf] by auto
    then show ?thesis unfolding if_P [OF none] by (intro exI)
  next
    case False
    let ?e = "next_block s end start"
    from False have lt: "start < end" by simp
    note nb = next_block_bounds [OF gd(2) lt]
    have el: "?e \<le> frags_per_group s" using nb(3) less.prems(3) by linarith
    have sm: "end - ?e < end - start" using nb(1) lt by linarith
    have unf: "take_blocks s end start b x y = (case take_block s start ?e b of Inl e \<Rightarrow> Inl e
        | Inr (b, db, df) \<Rightarrow> take_blocks s end ?e b (x + db) (y + df))"
      using False gd(2) by (subst take_blocks.simps) simp
    show ?thesis
    proof (cases "\<forall>k. start \<le> k \<and> k < ?e \<longrightarrow> map_bit b 984 k")
      case False
      then have "\<not> list_all (frag_bit_is_set b) [start..<?e]" by (auto simp: list_all_iff map_ops_eq)
      then have "take_block s start ?e b = Inl ENOSPC" using gd(3) by (simp add: take_block_def Let_def)
      moreover have "\<not> (\<forall>k. start \<le> k \<and> k < end \<longrightarrow> map_bit b 984 k)" using False nb(3) less_le_trans by blast
      ultimately show ?thesis using unf by simp
    next
      case True
      have al: "map_bit b 984 k" if "start \<le> k" "k < ?e" for k using True that by blast
      from reserve_block_ok [OF less.prems(1) nb(1,2) el al] obtain b1 db df where
        s1: "take_block s start ?e b = Inr (b1, db, df)" "pending s lim (nb + db) (nf + df) b1" "loop_kept lim b nb nf b1 db df"
          "\<forall>k < frags_per_group s. map_bit b1 984 k \<longleftrightarrow> map_bit b 984 k \<and> \<not> (start \<le> k \<and> k < ?e)"
          "db * int (frags_per_block s) + df = - int (?e - start)" by blast
      note hk1 = s1(3)
      note s1 = s1(1,2,4,5)
      have un: "take_blocks s end start b x y = take_blocks s end ?e b1 (x + db) (y + df)" using unf s1(1) by simp
      have same: "map_bit b1 984 k = map_bit b 984 k" if "?e \<le> k" "k < end" for k
        using s1(3) that less.prems(3) by (meson less_le_trans not_less)
      have cond: "(\<forall>k. ?e \<le> k \<and> k < end \<longrightarrow> map_bit b1 984 k) \<longleftrightarrow> (\<forall>k. start \<le> k \<and> k < end \<longrightarrow> map_bit b 984 k)"
        using same True nb(1) by (meson le_trans less_imp_le not_less)
      note IH = less.hyps [OF sm s1(2) nb(3) less.prems(3), of "x + db" "y + df"]
      show ?thesis
      proof (cases "\<forall>k. start \<le> k \<and> k < end \<longrightarrow> map_bit b 984 k")
        case False
        then show ?thesis using IH cond un by simp
      next
        case True
        with IH cond obtain b' db' df' where
          r: "take_blocks s end ?e b1 (x + db) (y + df) = Inr (b', x + db + db', y + df + df')"
            "pending s lim (nb + db + db') (nf + df + df') b'" "loop_kept lim b1 (nb + db) (nf + df) b' db' df'"
            "\<forall>k < frags_per_group s. map_bit b' 984 k \<longleftrightarrow> map_bit b1 984 k \<and> \<not> (?e \<le> k \<and> k < end)"
            "db' * int (frags_per_block s) + df' = - int (end - ?e)" by auto
        note hk = loop_kept_trans [OF hk1 r(3)]
        note r = r(1,2,4,5)
        have "int (end - ?e) + int (?e - start) = int (end - start)" using nb lt by simp
        then have "(db + db') * int (frags_per_block s) + (df + df') = - int (end - start)"
          using r(4) s1(4) by (simp add: algebra_simps)
        moreover have "map_bit b' 984 k \<longleftrightarrow> map_bit b 984 k \<and> \<not> (start \<le> k \<and> k < end)" if "k < frags_per_group s" for k
          using r(3) s1(3) that nb by auto
        ultimately show ?thesis
          using True un r(1,2) hk by (simp add: add.assoc)
      qed
    qed
  qed
qed

lemma cg_reserved_fields:
  assumes "length b = L" and "984 \<le> L"
  shows "length (cg_reserved b nb nf now) = L" "nextufs__read_be32 (cg_reserved b nb nf now) 20 = nextufs__read_be32 b 20"
    "nextufs__read_be32 (cg_reserved b nb nf now) 28 = u32_add (nextufs__read_be32 b 28) nb"
    "nextufs__read_be32 (cg_reserved b nb nf now) 36 = u32_add (nextufs__read_be32 b 36) nf"
    "nextufs__read_be32 (cg_reserved b nb nf now) 24 = nextufs__read_be32 b 24"
    "nextufs__read_be32 (cg_reserved b nb nf now) 32 = nextufs__read_be32 b 32"
    "\<And>i. 52 \<le> i \<Longrightarrow> i < L \<Longrightarrow> cg_reserved b nb nf now ! i = b ! i"
  using assms by (simp_all add: cg_reserved_def Let_def cg_offsets bump_be32_def nth_write_be32)

lemma group_reserved_ok:
  assumes "block_geometry s" and "cg_ok s b" and "start \<le> end" and "end \<le> frags_per_group s"
  shows "if \<forall>k. start \<le> k \<and> k < end \<longrightarrow> cg_bits b k
    then \<exists>b' nb nf. take_blocks s end start b 0 0 = Inr (b', nb, nf) \<and> counts_moved b (cg_reserved b' nb nf now) nb nf \<and>
      cg_ok s (cg_reserved b' nb nf now) \<and>
      (\<forall>k < frags_per_group s. cg_bits (cg_reserved b' nb nf now) k \<longleftrightarrow> cg_bits b k \<and> \<not> (start \<le> k \<and> k < end)) \<and>
      nb * int (frags_per_block s) + nf = - int (end - start)
    else take_blocks s end start b 0 0 = Inl ENOSPC"
proof -
  let ?lim = "nextufs__read_be32 b 20"
  note gd = block_geometryD [OF assms(1)]
  have p: "pending s ?lim 0 0 b"
    by (rule pending_start [OF assms(1,2) le_refl]) (use assms(2) in \<open>simp add: cg_ok_def cg_offsets\<close>)
  have cb: "cg_bits b k = map_bit b 984 k" for k by (simp add: cg_bits_def cg_offsets)
  note tb = take_blocks_ok [OF p assms(3,4), of 0 0, folded cb]
  show ?thesis
  proof (cases "\<forall>k. start \<le> k \<and> k < end \<longrightarrow> cg_bits b k")
    case True
    with tb obtain b' nb nf where r: "take_blocks s end start b 0 0 = Inr (b', nb, nf)" and p': "pending s ?lim nb nf b'"
      and hk: "loop_kept ?lim b 0 0 b' nb nf"
      and bits: "\<forall>k < frags_per_group s. map_bit b' 984 k \<longleftrightarrow> cg_bits b k \<and> \<not> (start \<le> k \<and> k < end)"
      and n: "nb * int (frags_per_block s) + nf = - int (end - start)" by auto
    note f = cg_reserved_fields [OF pendingD(2) [OF p'] gd(6), where nb = nb and nf = nf and now = now]
    have e: "nextufs__read_be32 (cg_reserved b' nb nf now) 20 = ?lim"
      using f(2) header_kept_reads [OF loop_kept_header [OF hk], of 20] by simp
    have "counts_moved b (cg_reserved b' nb nf now) nb nf"
      by (rule loop_kept_counts [OF hk pendingD(2) [OF p] pendingD(2) [OF p'] gd(6) f(3,4)])
    moreover have "cg_ok s (cg_reserved b' nb nf now) \<and>
      (\<forall>k < frags_per_group s. cg_bits (cg_reserved b' nb nf now) k \<longleftrightarrow> cg_bits b k \<and> \<not> (start \<le> k \<and> k < end))"
      using pending_end [OF p' f(1) e f(3,4,7)] bits by simp
    ultimately show ?thesis using r n True by auto
  next
    case False
    show ?thesis using tb unfolding if_not_P [OF False] .
  qed
qed

section \<open>New groups\<close>

text \<open>The addresses of a group relative to its first fragment, whether it exists already or not.\<close>

lemma cgstart_any:
  assumes g: "valid_geometry s" and cg: "cg < 2 ^ 32"
  defines "d \<equiv> cg_delta s * (cg AND u32_not (cg_cyc_mask s))"
  shows "nextufs__cgstart s cg = frags_per_group s * cg + d" "d + data_off s \<le> frags_per_group s"
    "u64 (frags_per_group s * cg) = frags_per_group s * cg" "frags_per_group s * cg + 57664 < 9223372036854775808"
proof -
  note v = valid_geometryD [OF g]
  have "d \<le> cg_delta s * u32_not (cg_cyc_mask s)" unfolding d_def by (intro mult_le_mono2 and_le_right_nat)
  then show d: "d + data_off s \<le> frags_per_group s" using v(26) by linarith
  have "frags_per_group s * cg \<le> 57664 * 2 ^ 32" using v(15) cg by (intro mult_le_mono) simp_all
  then show b: "frags_per_group s * cg + 57664 < 9223372036854775808" by simp
  have u1: "u64 (frags_per_group s * cg) = frags_per_group s * cg"
    and u2: "u64 d = d" and u3: "u64 (frags_per_group s * cg + d) = frags_per_group s * cg + d"
    using b d v(15) by (intro u64_id; linarith)+
  show "u64 (frags_per_group s * cg) = frags_per_group s * cg" by (rule u1)
  show "nextufs__cgstart s cg = frags_per_group s * cg + d"
    unfolding nextufs__cgstart_def Let_def u1 u2 [unfolded d_def] u3 [unfolded d_def] d_def ..
qed

lemma group_addresses:
  assumes g: "valid_geometry s" and cg: "cg < 2 ^ 32" and sd: "sb_off s \<le> data_off s"
  defines "d \<equiv> cg_delta s * (cg AND u32_not (cg_cyc_mask s))"
  shows "u32 (u64_sub (cgsblock s cg) (u64 (frags_per_group s * cg))) = d + sb_off s"
    "u32 (u64_sub (cgdmin s cg) (u64 (frags_per_group s * cg))) = d + data_off s" "d + data_off s \<le> frags_per_group s"
proof -
  note c = cgstart_any [OF g cg, folded d_def] and v = valid_geometryD [OF g]
  show "d + data_off s \<le> frags_per_group s" by (rule c(2))
  have "u64 (frags_per_group s * cg + d + x) = frags_per_group s * cg + d + x" if "x \<le> data_off s" for x
    using that c(2,4) v(15) by (intro u64_id) linarith
  moreover have "u64_sub (frags_per_group s * cg + d + x) (frags_per_group s * cg) = d + x" if "x \<le> data_off s" for x
  proof -
    have "int (frags_per_group s * cg + d + x) - int (frags_per_group s * cg) = int (d + x)" by simp
    moreover have "d + x < 18446744073709551616" using that c(2) v(15) by linarith
    then have "int (d + x) mod 2 ^ 64 = int (d + x)" by (intro mod_pos_pos_trivial) simp_all
    ultimately show ?thesis by (simp only: u64_sub_def nat_int)
  qed
  moreover have "u32 (d + x) = d + x" if "x \<le> data_off s" for x using that c(2) v(15) by (intro u32_id) linarith
  ultimately show "u32 (u64_sub (cgsblock s cg) (u64 (frags_per_group s * cg))) = d + sb_off s"
    "u32 (u64_sub (cgdmin s cg) (u64 (frags_per_group s * cg))) = d + data_off s"
    using sd by (simp_all add: cgsblock_def cgdmin_def cgstart_def c(1,3))
qed

lemma new_header_pending:
  assumes "block_geometry s" and "ndblk \<le> frags_per_group s"
  shows "pending s ndblk 0 0 (new_cg_header s cg cyls ndblk now)"
    "\<And>k. k < frags_per_group s \<Longrightarrow> \<not> map_bit (new_cg_header s cg cyls ndblk now) 984 k"
    "nextufs__read_be32 (new_cg_header s cg cyls ndblk now) 980 = CG_MAGIC"
    "nextufs__read_be32 (new_cg_header s cg cyls ndblk now) 20 = ndblk"
    "\<And>i. 724 \<le> i \<Longrightarrow> i < 980 \<Longrightarrow> new_cg_header s cg cyls ndblk now ! i = 0"
    "nextufs__read_be32 (new_cg_header s cg cyls ndblk now) 28 = 0"
    "nextufs__read_be32 (new_cg_header s cg cyls ndblk now) 36 = 0"
proof -
  let ?h = "new_cg_header s cg cyls ndblk now"
  note gd = block_geometryD [OF assms(1)]
  have u: "u32 ndblk = ndblk" using assms(2) valid_geometryD(15) [OF gd(1)] by (intro u32_id) linarith
  note h = new_cg_header_def Let_def cg_offsets CG_CGX_OFF_def CG_NCYL_OFF_def CG_NIBLK_OFF_def
  have len: "length ?h = cg_size s" using gd(6) by (simp add: h)
  have z: "?h ! i = 0" if "24 \<le> i" "i < cg_size s" "i < 48 \<or> 52 \<le> i" "i < 980 \<or> 984 \<le> i" for i
    using that gd(6) by (simp add: h nth_write_be32 nth_write_be16)
  have bits: "\<not> map_bit ?h 984 k" if "k < frags_per_group s" for k
    using z [of "984 + k div 8"] gd(7) [OF that] by (simp add: map_bit_def)
  then show "\<And>k. k < frags_per_group s \<Longrightarrow> \<not> map_bit ?h 984 k" by blast
  show "nextufs__read_be32 ?h 980 = CG_MAGIC" "nextufs__read_be32 ?h 20 = ndblk"
    using gd(6) u by (simp_all add: h CG_MAGIC_def)
  show "\<And>i. 724 \<le> i \<Longrightarrow> i < 980 \<Longrightarrow> ?h ! i = 0" using z gd(6) by simp
  have rz: "nextufs__read_be32 ?h q = 0" if "24 \<le> q" "q + 4 \<le> 48 \<or> 52 \<le> q \<and> q + 4 \<le> 980" for q
  proof -
    have "?h ! (q + j) = 0" if "j < 4" for j
      by (rule z) (use \<open>24 \<le> q\<close> \<open>q + 4 \<le> 48 \<or> 52 \<le> q \<and> q + 4 \<le> 980\<close> that gd(6) in auto)
    from this [of 0] this [of 1] this [of 2] this [of 3] show ?thesis by (simp add: read_be32_eq)
  qed
  show "nextufs__read_be32 ?h 28 = 0" "nextufs__read_be32 ?h 36 = 0" using rz by simp_all
  note f = with_counts_fields [OF len gd(6), where nb = 0 and nf = 0 and lim = ndblk]
  let ?V = "with_counts ?h 0 0 ndblk"
  have vb: "\<not> cg_bits ?V k" if "k < frags_per_group s" for k
    using f(8) gd(7) [OF that] bits [OF that] by (simp add: cg_bits_def cg_offsets)
  have inb: "j * frags_per_block s + i < frags_per_group s" if "j < cg_blocks s" "i < frags_per_block s" for i j
    using block_in_group [OF assms(1) that(1)] that(2) by linarith
  have nw: "\<not> whole_free (cg_bits ?V) (frags_per_block s) j" if "j < cg_blocks s" for j
    using vb inb [OF that] gd(2) by (auto simp: whole_free_def)
  have nf: "block_frags (cg_bits ?V) (frags_per_block s) j = 0" if "j < cg_blocks s" for j
    using vb inb [OF that] by (simp add: block_frags_def)
  have nr: "card (run_starts (\<lambda>i. cg_bits ?V (j * frags_per_block s + i)) (frags_per_block s) k) = 0"
    if "j < cg_blocks s" "1 \<le> k" "k < frags_per_block s" for j k
  proof -
    have "run_starts (\<lambda>i. cg_bits ?V (j * frags_per_block s + i)) (frags_per_block s) k = {}"
      using vb inb [OF that(1)] that(2,3) by (fastforce simp: run_starts_def)
    then show ?thesis by simp
  qed
  have tz: "?V ! i = 0" if "84 \<le> i" "i < 724" for i using f(7) [of i] z [of i] that gd(6) by simp
  have fz: "free_among A (cg_bits ?V) (frags_per_block s) (cg_blocks s) = 0" for A
    unfolding free_among_def using nw by simp
  have tok: "tables_ok s (cg_bits ?V) ?V"
    unfolding tables_ok_def fz cg_btot_def cg_b_def read_be32_eq read_be16_eq
    using tz rotational_bound by auto
  have "cg_ok s ?V"
    unfolding cg_ok_def cg_offsets
  proof (intro conjI allI impI)
    show "nextufs__read_be32 ?V 28 = free_blocks (cg_bits ?V) (frags_per_block s) (cg_blocks s)"
      "nextufs__read_be32 ?V 36 = free_frags (cg_bits ?V) (frags_per_block s) (cg_blocks s)"
      using f(3,4) rz by (simp_all add: free_blocks_def free_frags_def nw nf u32_add_def)
    show "nextufs__read_be32 ?V (52 + k * 4) = free_runs (cg_bits ?V) (frags_per_block s) (cg_blocks s) k"
      if "1 \<le> k \<and> k < frags_per_block s" for k
      using f(6) [of "52 + k * 4"] rz [of "52 + k * 4"] gd(3,6) that by (simp add: free_runs_def nr)
  qed (use f u assms(2) vb tok in auto)
  with assms len show "pending s ndblk 0 0 ?h" by (simp add: pending_def)
qed

definition new_group_ok :: "nextufs_superblock \<Rightarrow> byte list \<Rightarrow> nat \<Rightarrow> nat \<Rightarrow> nat \<Rightarrow> bool" where
  "new_group_ok s b lower upper ndblk \<longleftrightarrow> cg_ok s b \<and>
     nextufs__read_be32 b CG_MAGIC_OFF = CG_MAGIC \<and> nextufs__read_be32 b CG_NDBLK_OFF = ndblk \<and>
     nextufs__read_be32 b CG_CS_NIFREE_OFF = inodes_per_group s \<and>
     (\<forall>k < frags_per_group s. cg_bits b k \<longleftrightarrow> k < lower \<or> upper \<le> k \<and> k < ndblk) \<and>
     (\<forall>i. CG_IUSED_OFF \<le> i \<and> i < CG_MAGIC_OFF \<longrightarrow> b ! i = 0)"

lemma int32_bits_small: "int (int32_bits x) = y \<Longrightarrow> y < 2 ^ 31 \<Longrightarrow> - (2 ^ 31) < x \<Longrightarrow> x < 2 ^ 31 \<Longrightarrow> x = y"
proof -
  assume y: "int (int32_bits x) = y" "y < 2 ^ 31" and x: "- (2 ^ 31) < x" "x < 2 ^ 31"
  from y(1) have m: "x mod 2 ^ 32 = y" by (simp add: int32_bits_def)
  show "x = y"
  proof (cases "0 \<le> x")
    case True
    with x m show ?thesis by simp
  next
    case False
    then have "(x + 2 ^ 32) mod 2 ^ 32 = x + 2 ^ 32" using x by (intro mod_pos_pos_trivial) simp_all
    with m y(2) x(1) show ?thesis by simp
  qed
qed

lemma build_new_cg_ok:
  assumes g: "block_geometry s" and cg: "cg < 2 ^ 32" and sd: "sb_off s \<le> data_off s"
  defines "d \<equiv> cg_delta s * (cg AND u32_not (cg_cyc_mask s))"
  shows "if ndblk \<le> frags_per_group s \<and> d + data_off s \<le> ndblk
    then \<exists>b nb nf. build_new_cg s cg cyls ndblk now = Inr (b, nb, int (inodes_per_group s), nf) \<and>
      new_group_ok s b (d + sb_off s) (d + data_off s) ndblk \<and>
      int (nextufs__read_be32 b CG_CS_NBFREE_OFF) = nb \<and> int (nextufs__read_be32 b CG_CS_NFFREE_OFF) = nf \<and>
      nb * int (frags_per_block s) + nf = int (d + sb_off s + (ndblk - (d + data_off s)))
    else build_new_cg s cg cyls ndblk now = Inl ENOSPC"
proof -
  let ?lo = "d + sb_off s" let ?up = "d + data_off s"
  note gd = block_geometryD [OF g]
  note ad = group_addresses [OF gd(1) cg sd, folded d_def]
  show ?thesis
  proof (cases "ndblk \<le> frags_per_group s \<and> ?up \<le> ndblk")
    case False
    then show ?thesis using ad by (auto simp: build_new_cg_def Let_def)
  next
    case True
    let ?h = "new_cg_header s cg cyls ndblk now"
    from True have lim: "ndblk \<le> frags_per_group s" and up: "?up \<le> ndblk" by simp_all
    note h = new_header_pending [OF g lim, where cg = cg and cyls = cyls and now = now]
    have lo: "?lo \<le> ndblk" using sd up by simp
    have n1: "\<not> map_bit ?h 984 k" if "0 \<le> k" "k < ?lo" for k using h(2) that(2) lo lim by simp
    from add_free_frag_range_ok [OF h(1) le0 lo n1] obtain b1 n1b n1f where
      r1: "add_free_frag_range s ?h 0 ?lo = Inr (b1, n1b, n1f)" and p1: "pending s ndblk n1b n1f b1" and k1: "loop_kept ndblk ?h 0 0 b1 n1b n1f"
      and b1: "\<forall>k < frags_per_group s. map_bit b1 984 k \<longleftrightarrow> map_bit ?h 984 k \<or> 0 \<le> k \<and> k < ?lo"
      and s1: "n1b * int (frags_per_block s) + n1f = int ?lo" and bd1: "0 \<le> n1b" "n1b \<le> int ?lo" by auto
    have n2: "\<not> map_bit b1 984 k" if "?up \<le> k" "k < ndblk" for k
      using b1 h(2) [of k] that lim sd by simp
    from add_free_frag_range_ok [OF p1 up le_refl n2] obtain b2 n2b n2f where
      r2: "add_free_frag_range s b1 ?up ndblk = Inr (b2, n2b, n2f)" and p2: "pending s ndblk (n1b + n2b) (n1f + n2f) b2"
      and k2: "loop_kept ndblk b1 n1b n1f b2 n2b n2f"
      and b2: "\<forall>k < frags_per_group s. map_bit b2 984 k \<longleftrightarrow> map_bit b1 984 k \<or> ?up \<le> k \<and> k < ndblk"
      and s2: "n2b * int (frags_per_block s) + n2f = int (ndblk - ?up)" and bd2: "0 \<le> n2b" "n2b \<le> int (ndblk - ?up)" by auto
    note hk = header_kept_trans [OF loop_kept_header [OF k1] loop_kept_header [OF k2]]
    define b where "b = nextufs__write_be32 (nextufs__write_be32 (nextufs__write_be32 b2 CG_CS_NBFREE_OFF (int32_bits (n1b + n2b)))
      CG_CS_NIFREE_OFF (inodes_per_group s)) CG_CS_NFFREE_OFF (int32_bits (n1f + n2f))"
    have run: "build_new_cg s cg cyls ndblk now = Inr (b, n1b + n2b, int (inodes_per_group s), n1f + n2f)"
      using True r1 r2 ad by (simp add: build_new_cg_def Let_def b_def)
    note l2 = pendingD(2) [OF p2]
    have z: "nextufs__read_be32 b2 28 = 0" "nextufs__read_be32 b2 36 = 0"
      using header_kept_reads [OF hk, of 28] header_kept_reads [OF hk, of 36] h(6,7) by simp_all
    have ip: "inodes_per_group s < 4294967296" using valid_geometryD [OF gd(1)] by linarith
    have i32: "int32_bits x < 4294967296" for x by (simp add: int32_bits_def nat_less_iff)
    have f: "length b = cg_size s" "nextufs__read_be32 b 20 = nextufs__read_be32 b2 20"
      "nextufs__read_be32 b 28 = int32_bits (n1b + n2b)" "nextufs__read_be32 b 36 = int32_bits (n1f + n2f)"
      "nextufs__read_be32 b 32 = inodes_per_group s" "nextufs__read_be32 b 980 = nextufs__read_be32 b2 980"
      "\<And>i. 52 \<le> i \<Longrightarrow> i < cg_size s \<Longrightarrow> b ! i = b2 ! i"
      using l2 gd(6) ip i32 by (simp_all add: b_def cg_offsets nth_write_be32)
    have e: "nextufs__read_be32 b 20 = ndblk" using f(2) header_kept_reads [OF hk, of 20] h(4) by simp
    have c: "cg_ok s b \<and> (\<forall>k < frags_per_group s. cg_bits b k = map_bit b2 984 k)"
      by (rule pending_end [OF p2 f(1) e _ _ f(7)]) (use f(3,4) z in \<open>simp_all add: int32_bits_def u32_add_def\<close>)
    have sum: "(n1b + n2b) * int (frags_per_block s) + (n1f + n2f) = int (?lo + (ndblk - ?up))"
      using s1 s2 by (simp add: algebra_simps)
    have "int ?lo + int (ndblk - ?up) \<le> 57664" using lim up sd valid_geometryD(15) [OF gd(1)] by linarith
    then have nbb: "0 \<le> n1b + n2b" "n1b + n2b \<le> 57664" and tot: "int (?lo + (ndblk - ?up)) \<le> 57664" using bd1 bd2 by simp_all
    have "0 \<le> (n1b + n2b) * int (frags_per_block s)" "(n1b + n2b) * int (frags_per_block s) \<le> 57664 * 8"
      using nbb gd(3) by (simp, intro mult_mono) simp_all
    then have nfb: "- 461312 \<le> n1f + n2f" "n1f + n2f \<le> 57664" using sum tot by linarith+
    have small: "int (nextufs__read_be32 b 36) < 2 ^ 31"
    proof -
      have "nextufs__read_be32 b 36 = free_frags (cg_bits b) (frags_per_block s) (cg_blocks s)"
        using c by (simp add: cg_ok_def cg_offsets)
      moreover have "free_frags (cg_bits b) (frags_per_block s) (cg_blocks s) \<le> frags_per_group s"
        using census_bounds(2) gd(4) by simp
      ultimately show ?thesis using valid_geometryD(15) [OF gd(1)] by simp
    qed
    have cnt: "int (nextufs__read_be32 b 28) = n1b + n2b" "int (nextufs__read_be32 b 36) = n1f + n2f"
      using f(3,4) nbb nfb small int32_bits_small [of "n1f + n2f"] by (simp_all add: int32_bits_def)
    have iu: "b ! i = 0" if "724 \<le> i" "i < 980" for i
      using f(7) [of i] that gd(6) hk h(5) [of i] by (simp add: header_kept_def)
    have nb: "new_group_ok s b ?lo ?up ndblk"
      unfolding new_group_ok_def cg_offsets
      using c e f(5,6) header_kept_reads [OF hk, of 980] h(2,3) b1 b2 iu by (simp add: cg_offsets)
    show ?thesis
      unfolding if_P [OF True]
      using run nb cnt sum by (intro exI [of _ b] exI [of _ "n1b + n2b"] exI [of _ "n1f + n2f"]) (simp add: cg_offsets)
  qed
qed

end
