(* ===== verification/Alloc_Disk.thy ===== *)
theory Alloc_Disk
  imports Group_Census
begin

text \<open>
  The allocators on the disk. Over a calm environment and an image whose metadata areas do not
  overlap, an allocation or a release either succeeds, and then it has replaced the block of one
  cylinder group and moved the counters of the superblock and of that group's summary by the same
  amounts, or it fails for the documented reason and has written nothing.
\<close>

section \<open>Where the metadata is\<close>

text \<open>
  The byte ranges the allocators touch: the superblock copy, the summary entry and the block of a
  cylinder group, as offsets into the image.
\<close>

definition super_addr :: "'c nextufs_image \<Rightarrow> nat" where
  "super_addr img = nat (slice_base img + 0x2000)"

definition csum_addr :: "'c nextufs_image \<Rightarrow> nat \<Rightarrow> nat" where
  "csum_addr img cg = nat (slice_base img + int (cyl_summary_addr (sb img) * frag_size (sb img)) + int cg * 16)"

definition cg_addr :: "'c nextufs_image \<Rightarrow> nat \<Rightarrow> nat" where
  "cg_addr img cg = nat (nextufs__cg_block_offset img cg)"

text \<open>
  A laid-out image: it passes the validation, its groups are whole numbers of blocks, and the
  superblock copy, the summary area and the group blocks do not overlap.
\<close>

definition layout_ok :: "'c nextufs_image \<Rightarrow> bool" where
  "layout_ok img \<longleftrightarrow> nextufs_image_validate img = Inr () \<and> block_geometry (sb img) \<and> slice_inside img \<and>
     super_addr img + 2048 \<le> nat (image_size img) \<and>
     (\<forall>c < cg_count (sb img). super_addr img + 2048 \<le> csum_addr img c \<or> csum_addr img c + 16 \<le> super_addr img) \<and>
     (\<forall>c < cg_count (sb img).
        (super_addr img + 2048 \<le> cg_addr img c \<or> cg_addr img c + cg_size (sb img) \<le> super_addr img) \<and>
        (\<forall>c' < cg_count (sb img).
           csum_addr img c' + 16 \<le> cg_addr img c \<or> cg_addr img c + cg_size (sb img) \<le> csum_addr img c'))"

definition cg_bytes :: "'c nextufs_image \<Rightarrow> byte list \<Rightarrow> nat \<Rightarrow> byte list" where
  "cg_bytes img d cg = bytes_at (cg_addr img cg) (cg_size (sb img)) d"

definition super_bytes :: "'c nextufs_image \<Rightarrow> byte list \<Rightarrow> byte list" where
  "super_bytes img d = bytes_at (super_addr img) 2048 d"

lemma static_layout:
  assumes "static a = static b"
  shows "super_addr a = super_addr b" "csum_addr a = csum_addr b" "cg_addr a = cg_addr b"
    "layout_ok a = layout_ok b" "cg_bytes a = cg_bytes b" "super_bytes a = super_bytes b"
proof -
  show s: "super_addr a = super_addr b" and c: "csum_addr a = csum_addr b" and g: "cg_addr a = cg_addr b"
    unfolding super_addr_def csum_addr_def cg_addr_def static_geometry(6) [OF assms] staticD [OF assms]
    by (rule refl)+
  show "layout_ok a = layout_ok b"
    unfolding layout_ok_def s c g static_geometry [OF assms] staticD [OF assms] ..
  show "cg_bytes a = cg_bytes b" "super_bytes a = super_bytes b"
    unfolding cg_bytes_def super_bytes_def s g staticD [OF assms] by (rule refl)+
qed

lemma layout_okD:
  assumes l: "layout_ok img"
  shows "valid_image img" "block_geometry (sb img)" "slice_inside img"
    "super_addr img + 2048 \<le> nat (image_size img)" "0 \<le> slice_base img"
    "\<And>cg. cg < cg_count (sb img) \<Longrightarrow> super_addr img + 2048 \<le> csum_addr img cg \<or> csum_addr img cg + 16 \<le> super_addr img"
    "\<And>cg. cg < cg_count (sb img) \<Longrightarrow>
       super_addr img + 2048 \<le> cg_addr img cg \<or> cg_addr img cg + cg_size (sb img) \<le> super_addr img"
    "\<And>cg c. cg < cg_count (sb img) \<Longrightarrow> c < cg_count (sb img) \<Longrightarrow>
       csum_addr img c + 16 \<le> cg_addr img cg \<or> cg_addr img cg + cg_size (sb img) \<le> csum_addr img c"
  using l validate_valid_image by (auto simp: layout_ok_def slice_inside_def)

lemma csum_inside:
  assumes l: "layout_ok img" and cg: "cg < cg_count (sb img)"
  shows "csum_addr img cg + 16 \<le> nat (image_size img)"
    and "0 \<le> slice_base img + int (cyl_summary_addr (sb img) * frag_size (sb img)) + int cg * 16"
proof -
  note d = layout_okD [OF l]
  from d(1) have v: "cyl_summary_addr (sb img) * frag_size (sb img) + csum_size (sb img) \<le> frag_count (sb img) * frag_size (sb img)"
    "frag_count (sb img) * frag_size (sb img) \<le> of_off (slice_size img)" by (simp_all add: valid_image_def)
  have c: "cg_count (sb img) * 16 \<le> csum_size (sb img)"
    using d(2) by (simp add: block_geometry_def valid_geometry_def)
  from d(3) have s: "0 \<le> slice_size img" "slice_base img + slice_size img \<le> image_size img" "image_size img < 2 ^ 63"
    by (simp_all add: slice_inside_def)
  have "of_off (slice_size img) = nat (slice_size img)" using s d(5) by (intro of_off_id) simp_all
  moreover have "cg * 16 + 16 \<le> cg_count (sb img) * 16" using cg by simp
  ultimately have "cyl_summary_addr (sb img) * frag_size (sb img) + (cg * 16 + 16) \<le> nat (slice_size img)"
    using v c by linarith
  then have "int (cyl_summary_addr (sb img) * frag_size (sb img) + (cg * 16 + 16)) \<le> slice_size img"
    using s(1) by linarith
  then have "int (cyl_summary_addr (sb img) * frag_size (sb img)) + int cg * 16 + 16 \<le> slice_size img"
    by simp
  then show "csum_addr img cg + 16 \<le> nat (image_size img)"
    "0 \<le> slice_base img + int (cyl_summary_addr (sb img) * frag_size (sb img)) + int cg * 16"
    using s(2) d(5) unfolding csum_addr_def by linarith+
qed

lemma cg_block_inside:
  assumes l: "layout_ok img" and cg: "cg < cg_count (sb img)"
  shows "cg_addr img cg + cg_size (sb img) \<le> nat (image_size img)" and "0 \<le> nextufs__cg_block_offset img cg"
    and "nat (slice_base img) + frags_per_group (sb img) * cg * frag_size (sb img) \<le> cg_addr img cg"
    and "cg_addr img cg + cg_size (sb img) \<le>
      nat (slice_base img) + frags_per_group (sb img) * (cg + 1) * frag_size (sb img)"
proof -
  let ?s = "sb img"
  note d = layout_okD [OF l]
  from d(1) have g: "valid_geometry ?s" by (simp add: valid_image_def)
  note vg = valid_geometryD [OF g]
  note eq = cg_block_offset_exact [OF d(1) cg]
  let ?a = "(nextufs__cgstart ?s cg + cg_off ?s) * frag_size ?s"
  have "nextufs__cgstart ?s cg + cg_off ?s + frags_per_block ?s \<le> nextufs__cgstart ?s cg + data_off ?s"
    using inode_frags_before_data [OF g] vg(24) by linarith
  then have "(nextufs__cgstart ?s cg + cg_off ?s + frags_per_block ?s) * frag_size ?s
      \<le> (nextufs__cgstart ?s cg + data_off ?s) * frag_size ?s" by (rule mult_le_mono1)
  then have le: "?a + cg_size ?s \<le> (nextufs__cgstart ?s cg + data_off ?s) * frag_size ?s"
    using vg(3,22) unfolding distrib_right by linarith
  moreover have "(nextufs__cgstart ?s cg + data_off ?s) * frag_size ?s \<le> frag_count ?s * frag_size ?s"
    by (intro mult_le_mono1 cgstart_in_slice [OF d(1) cg])
  moreover have "frag_count ?s * frag_size ?s \<le> of_off (slice_size img)" using d(1) by (simp add: valid_image_def)
  ultimately have b: "?a + cg_size ?s \<le> of_off (slice_size img)" by linarith
  from d(3) have s: "0 \<le> slice_size img" "slice_base img + slice_size img \<le> image_size img" "image_size img < 2 ^ 63"
    by (simp_all add: slice_inside_def)
  have "of_off (slice_size img) = nat (slice_size img)" using s d(5) by (intro of_off_id) simp_all
  with b s(1) have "int ?a + int (cg_size ?s) \<le> slice_size img" by linarith
  with eq s(2) d(5) show "cg_addr img cg + cg_size ?s \<le> nat (image_size img)" "0 \<le> nextufs__cg_block_offset img cg"
    unfolding cg_addr_def by linarith+
  have ad: "cg_addr img cg = nat (slice_base img) + ?a" using eq d(5) unfolding cg_addr_def by linarith
  have "frags_per_group ?s * cg * frag_size ?s \<le> nextufs__cgstart ?s cg * frag_size ?s"
    by (intro mult_le_mono1 cgstart_exact(2) [OF g cg])
  then show "nat (slice_base img) + frags_per_group ?s * cg * frag_size ?s \<le> cg_addr img cg"
    unfolding ad distrib_right by linarith
  have "(nextufs__cgstart ?s cg + data_off ?s) * frag_size ?s \<le> frags_per_group ?s * (cg + 1) * frag_size ?s"
    by (intro mult_le_mono1 cgstart_exact(3) [OF g cg])
  then show "cg_addr img cg + cg_size ?s \<le> nat (slice_base img) + frags_per_group ?s * (cg + 1) * frag_size ?s"
    unfolding ad using le by linarith
qed

lemma cg_blocks_apart:
  assumes l: "layout_ok img" and c: "c < cg_count (sb img)" "c' < cg_count (sb img)" "c \<noteq> c'"
  shows "cg_addr img c + cg_size (sb img) \<le> cg_addr img c' \<or> cg_addr img c' + cg_size (sb img) \<le> cg_addr img c"
proof -
  have less: "cg_addr img x + cg_size (sb img) \<le> cg_addr img y"
    if "x < cg_count (sb img)" "y < cg_count (sb img)" "x < y" for x y
  proof -
    have "frags_per_group (sb img) * (x + 1) * frag_size (sb img) \<le> frags_per_group (sb img) * y * frag_size (sb img)"
      using that(3) by (intro mult_le_mono1 mult_le_mono2) simp
    with cg_block_inside(4) [OF l that(1)] cg_block_inside(3) [OF l that(2)] show ?thesis by linarith
  qed
  from c show ?thesis using less [of c c'] less [of c' c] by (cases "c < c'") auto
qed

section \<open>One group update on the disk\<close>

definition bump4 :: "byte list \<Rightarrow> nat \<Rightarrow> int \<Rightarrow> int \<Rightarrow> int \<Rightarrow> int \<Rightarrow> byte list" where
  "bump4 b p d1 d2 d3 d4 =
     bump_be32 (bump_be32 (bump_be32 (bump_be32 b p d1) (p + 4) d2) (p + 8) d3) (p + 12) d4"

lemma bump4_reads:
  assumes "length b = n" and "p + 16 \<le> n"
  shows "length (bump4 b p d1 d2 d3 d4) = n"
    "nextufs__read_be32 (bump4 b p d1 d2 d3 d4) p = u32_add (nextufs__read_be32 b p) d1"
    "nextufs__read_be32 (bump4 b p d1 d2 d3 d4) (p + 4) = u32_add (nextufs__read_be32 b (p + 4)) d2"
    "nextufs__read_be32 (bump4 b p d1 d2 d3 d4) (p + 8) = u32_add (nextufs__read_be32 b (p + 8)) d3"
    "nextufs__read_be32 (bump4 b p d1 d2 d3 d4) (p + 12) = u32_add (nextufs__read_be32 b (p + 12)) d4"
  using assms unfolding bump4_def
  by (simp_all add: fixed_rules [where L = n] del: generic_rules)

text \<open>
  \<open>group_updated\<close>: the disk \<open>D'\<close> is \<open>D\<close> with the block of group \<open>cg\<close> replaced and the four
  summary counters (directories, free blocks, free inodes, free fragments) moved, in the
  superblock and in the group's entry of the summary area; nothing else changed.
\<close>

definition group_updated ::
  "'c nextufs_image \<Rightarrow> byte list \<Rightarrow> byte list \<Rightarrow> nat \<Rightarrow> byte list \<Rightarrow> int \<Rightarrow> int \<Rightarrow> int \<Rightarrow> int \<Rightarrow> bool" where
  "group_updated img D D' cg buf d1 d2 d3 d4 \<longleftrightarrow> length D' = length D \<and>
     cg_bytes img D' cg = buf \<and>
     (\<forall>c < cg_count (sb img). c \<noteq> cg \<longrightarrow> cg_bytes img D' c = cg_bytes img D c) \<and>
     (let S = super_bytes img D; S' = super_bytes img D';
          C = bytes_at (csum_addr img cg) 16 D; C' = bytes_at (csum_addr img cg) 16 D' in
      nextufs__read_be32 S' SB_NDIR_OFF = u32_add (nextufs__read_be32 S SB_NDIR_OFF) d1 \<and>
      nextufs__read_be32 S' SB_NBFREE_OFF = u32_add (nextufs__read_be32 S SB_NBFREE_OFF) d2 \<and>
      nextufs__read_be32 S' SB_NIFREE_OFF = u32_add (nextufs__read_be32 S SB_NIFREE_OFF) d3 \<and>
      nextufs__read_be32 S' SB_NFFREE_OFF = u32_add (nextufs__read_be32 S SB_NFFREE_OFF) d4 \<and>
      nextufs__read_be32 C' 0 = u32_add (nextufs__read_be32 C 0) d1 \<and>
      nextufs__read_be32 C' 4 = u32_add (nextufs__read_be32 C 4) d2 \<and>
      nextufs__read_be32 C' 8 = u32_add (nextufs__read_be32 C 8) d3 \<and>
      nextufs__read_be32 C' 12 = u32_add (nextufs__read_be32 C 12) d4) \<and>
     (\<forall>i < length D. \<not> (super_addr img \<le> i \<and> i < super_addr img + 2048) \<and>
        \<not> (csum_addr img cg \<le> i \<and> i < csum_addr img cg + 16) \<and>
        \<not> (cg_addr img cg \<le> i \<and> i < cg_addr img cg + cg_size (sb img)) \<longrightarrow> D' ! i = D ! i)"

context calm_backend
begin

lemma disk_size: "image_on ops disk binv img \<Longrightarrow> nat (image_size img) = length (disk (backend_ctx img))"
  by (simp add: image_on_def)

lemma read_cg_calm:
  assumes c: "calm_image ops disk binv calm img" and l: "layout_ok img" and cg: "cg < cg_count (sb img)"
  defines "b \<equiv> cg_bytes img (disk (backend_ctx img)) cg"
  shows "\<exists>img'. read_cg cg img = (if nextufs__read_be32 b CG_MAGIC_OFF = CG_MAGIC then Inr b else Inl EINVAL, img') \<and>
    calm_image ops disk binv calm img' \<and> disk (backend_ctx img') = disk (backend_ctx img) \<and> static img' = static img"
proof -
  note ins = cg_block_inside [OF l cg]
  have "cg_size (sb img) < 2 ^ 63"
    using block_geometryD(1) [OF layout_okD(2) [OF l]] valid_geometryD(22,4) [of "sb img"] by fastforce
  from malloc_calm [OF c this] have m: "malloc_io (cg_size (sb img)) img = (Inr (), img)" .
  have "nat (nextufs__cg_block_offset img cg) + cg_size (sb img) \<le> length (disk (backend_ctx img))"
    using ins(1) disk_size [OF calm_image_on [OF c]] by (simp add: cg_addr_def)
  from read_exact_calm [OF c ins(2) this] m show ?thesis
    unfolding b_def by (auto simp: read_cg_def io_defs cg_bytes_def cg_addr_def)
qed

lemma write_cg_calm:
  assumes c: "calm_image ops disk binv calm img" and l: "layout_ok img" and cg: "cg < cg_count (sb img)"
    and w: "writable img" and len: "length buf = cg_size (sb img)"
  shows "\<exists>img'. write_cg cg buf img = (Inr (), img') \<and> calm_image ops disk binv calm img' \<and>
    disk (backend_ctx img') = overlay (cg_addr img cg) buf (disk (backend_ctx img)) \<and> static img' = static img"
proof -
  note ins = cg_block_inside [OF l cg]
  have "nat (nextufs__cg_block_offset img cg) + length buf \<le> length (disk (backend_ctx img))"
    using ins(1) disk_size [OF calm_image_on [OF c]] len by (simp add: cg_addr_def)
  from write_exact_calm [OF c w ins(2) this] show ?thesis
    by (auto simp: write_cg_def io_defs cg_addr_def)
qed

lemma summary_counts_calm:
  fixes d1 d2 d3 d4 :: int
  assumes c: "calm_image ops disk binv calm img" and l: "layout_ok img" and cg: "cg < cg_count (sb img)"
    and w: "writable img"
  defines "D \<equiv> disk (backend_ctx img)"
  defines "S \<equiv> nextufs__write_be32 (bump4 (super_bytes img D) SB_NDIR_OFF d1 d2 d3 d4) SB_TIME_OFF (u32 (clock img))"
  defines "D1 \<equiv> overlay (super_addr img) S D"
  shows "\<exists>img'. nextufs__update_summary_counts cg d1 d2 d3 d4 img = (Inr (), img') \<and>
    calm_image ops disk binv calm img' \<and> static img' = static img \<and>
    disk (backend_ctx img') = overlay (csum_addr img cg) (bump4 (bytes_at (csum_addr img cg) 16 D1) 0 d1 d2 d3 d4) D1"
proof -
  let ?so = "slice_base img + 0x2000"
  let ?co = "slice_base img + int (cyl_summary_addr (sb img) * frag_size (sb img)) + int cg * 16"
  note ld = layout_okD [OF l] and ci = csum_inside [OF l cg]
  have sz: "nat (image_size img) = length D" using disk_size [OF calm_image_on [OF c]] by (simp add: D_def)
  have so: "0 \<le> ?so" "nat ?so + 2048 \<le> length D" using ld(4,5) sz by (simp_all add: super_addr_def)
  have co: "0 \<le> ?co" "nat ?co + 16 \<le> length D" using ci sz by (simp_all add: csum_addr_def)
  have lS0: "length (super_bytes img D) = 2048" using so by (simp add: super_bytes_def super_addr_def)
  have lb4: "length (bump4 (super_bytes img D) SB_NDIR_OFF d1 d2 d3 d4) = 2048"
    by (rule bump4_reads(1) [OF lS0]) (simp add: sb_offsets)
  then have lS: "length S = 2048" unfolding S_def by (simp add: sb_offsets)
  have lD1: "length D1 = length D" using so lS by (simp add: D1_def super_addr_def)
  from read_exact_calm [OF c so(1), of 2048] so(2) obtain i1 where
    r1: "nextufs__read_exact 2048 ?so img = (Inr (super_bytes img D), i1)"
    and c1: "calm_image ops disk binv calm i1" and d1: "disk (backend_ctx i1) = D" and s1: "static i1 = static img"
    by (auto simp: D_def super_bytes_def super_addr_def)
  have w1: "writable i1" using w staticD(5) [OF s1] by simp
  have so1: "nat ?so + length S \<le> length (disk (backend_ctx i1))" using so(2) lS d1 by simp
  from write_exact_calm [OF c1 w1 so(1) so1] obtain i2 where
    r2: "nextufs__write_exact S ?so i1 = (Inr (), i2)" and c2: "calm_image ops disk binv calm i2"
    and d2: "disk (backend_ctx i2) = D1" and s2: "static i2 = static img"
    using d1 s1 by (auto simp: D1_def super_addr_def)
  have "nat ?co + 16 \<le> length (disk (backend_ctx i2))" using co(2) d2 lD1 by simp
  from read_exact_calm [OF c2 co(1) this] obtain i3 where
    r3: "nextufs__read_exact 16 ?co i2 = (Inr (bytes_at (csum_addr img cg) 16 D1), i3)"
    and c3: "calm_image ops disk binv calm i3" and d3: "disk (backend_ctx i3) = D1" and s3: "static i3 = static img"
    using d2 s2 by (auto simp: csum_addr_def)
  let ?C = "bump4 (bytes_at (csum_addr img cg) 16 D1) 0 d1 d2 d3 d4"
  have lC: "length ?C = 16" using co(2) lD1 by (intro bump4_reads(1)) (simp_all add: csum_addr_def)
  have w3: "writable i3" using w staticD(5) [OF s3] by simp
  have "nat ?co + length ?C \<le> length (disk (backend_ctx i3))" using co(2) d3 lD1 lC by simp
  from write_exact_calm [OF c3 w3 co(1) this] obtain i4 where
    r4: "nextufs__write_exact ?C ?co i3 = (Inr (), i4)" and c4: "calm_image ops disk binv calm i4"
    and d4: "disk (backend_ctx i4) = overlay (csum_addr img cg) ?C D1" and s4: "static i4 = static img"
    using d3 s3 by (auto simp: csum_addr_def)
  have ck: "clock i1 = clock img" by (rule staticD(6) [OF s1])
  have "nextufs__update_summary_counts cg d1 d2 d3 d4 img = (Inr (), i4)"
    using r1 r2 r3 r4 ck unfolding nextufs__update_summary_counts_def S_def bump4_def
    by (simp add: io_defs time_io_def Let_def sb_offsets)
  with c4 d4 s4 show ?thesis by blast
qed

lemma group_update_calm:
  assumes c: "calm_image ops disk binv calm img" and l: "layout_ok img" and cg: "cg < cg_count (sb img)"
    and w: "writable img" and len: "length buf = cg_size (sb img)"
  shows "\<exists>img1 img'. write_cg cg buf img = (Inr (), img1) \<and>
    nextufs__update_summary_counts cg d1 d2 d3 d4 img1 = (Inr (), img') \<and>
    calm_image ops disk binv calm img' \<and> static img' = static img \<and>
    group_updated img (disk (backend_ctx img)) (disk (backend_ctx img')) cg buf d1 d2 d3 d4"
proof -
  let ?D = "disk (backend_ctx img)"
  from write_cg_calm [OF c l cg w len] obtain i1 where
    r1: "write_cg cg buf img = (Inr (), i1)" and c1: "calm_image ops disk binv calm i1"
    and d1': "disk (backend_ctx i1) = overlay (cg_addr img cg) buf ?D" and s1: "static i1 = static img" by blast
  note st = static_layout [OF s1] and sd = staticD [OF s1]
  define D0 where "D0 = overlay (cg_addr img cg) buf ?D"
  define S where "S = nextufs__write_be32 (bump4 (super_bytes img D0) SB_NDIR_OFF d1 d2 d3 d4) SB_TIME_OFF (u32 (clock img))"
  define D1 where "D1 = overlay (super_addr img) S D0"
  define C where "C = bump4 (bytes_at (csum_addr img cg) 16 D1) 0 d1 d2 d3 d4"
  define D2 where "D2 = overlay (csum_addr img cg) C D1"
  have l1: "layout_ok i1" and cg1: "cg < cg_count (sb i1)" and w1: "writable i1"
    using l cg w st sd by simp_all
  from summary_counts_calm [OF c1 l1 cg1 w1, of d1 d2 d3 d4] obtain i2 where
    r2: "nextufs__update_summary_counts cg d1 d2 d3 d4 i1 = (Inr (), i2)" and c2: "calm_image ops disk binv calm i2"
    and s2: "static i2 = static img" and e2: "disk (backend_ctx i2) = D2"
    unfolding d1' st sd s1 D0_def [symmetric] S_def [symmetric] D1_def [symmetric] C_def [symmetric] D2_def [symmetric]
    by blast
  note ld = layout_okD [OF l]
  have sz: "nat (image_size img) = length ?D" by (rule disk_size [OF calm_image_on [OF c]])
  have in_cg: "cg_addr img c + cg_size (sb img) \<le> length ?D" if "c < cg_count (sb img)" for c
    using cg_block_inside(1) [OF l that] sz by simp
  have in_cs: "csum_addr img cg + 16 \<le> length ?D" using csum_inside(1) [OF l cg] sz by simp
  have in_s: "super_addr img + 2048 \<le> length ?D" using ld(4) sz by simp
  have lD0: "length D0 = length ?D" using in_cg [OF cg] len by (simp add: D0_def)
  have lS0: "length (super_bytes img D0) = 2048" using in_s lD0 by (simp add: super_bytes_def)
  note b4 = bump4_reads [OF lS0, of SB_NDIR_OFF d1 d2 d3 d4]
  have lb4: "length (bump4 (super_bytes img D0) SB_NDIR_OFF d1 d2 d3 d4) = 2048"
    by (rule b4(1)) (simp add: sb_offsets)
  then have lS: "length S = 2048" by (simp add: S_def sb_offsets)
  have lD1: "length D1 = length ?D" using in_s lS lD0 by (simp add: D1_def)
  have lC0: "length (bytes_at (csum_addr img cg) 16 D1) = 16" using in_cs lD1 by simp
  note c4 = bump4_reads [OF lC0, of 0 d1 d2 d3 d4]
  have lC: "length C = 16" unfolding C_def by (rule c4(1)) simp
  have lD2: "length D2 = length ?D" using in_cs lD1 lC by (simp add: D2_def)
  have frame: "bytes_at a n D2 = bytes_at a n D0"
    if "a + n \<le> length ?D" "a + n \<le> super_addr img \<or> super_addr img + 2048 \<le> a"
      "a + n \<le> csum_addr img cg \<or> csum_addr img cg + 16 \<le> a" for a n
  proof -
    have "bytes_at a n D2 = bytes_at a n D1"
      unfolding D2_def using that in_cs lD1 lC by (intro bytes_at_overlay_disjoint) auto
    also have "\<dots> = bytes_at a n D0"
      unfolding D1_def using that in_s lD0 lS by (intro bytes_at_overlay_disjoint) auto
    finally show ?thesis .
  qed
  have cgs: "cg_bytes img D2 c = (if c = cg then buf else cg_bytes img ?D c)" if cc: "c < cg_count (sb img)" for c
  proof -
    have "cg_bytes img D2 c = cg_bytes img D0 c"
      unfolding cg_bytes_def using in_cg [OF cc] ld(7) [OF cc] ld(8) [OF cc cg] by (intro frame) auto
    also have "\<dots> = (if c = cg then buf else cg_bytes img ?D c)"
    proof (cases "c = cg")
      case True
      then show ?thesis
        using in_cg [OF cg] len bytes_at_overlay_same [of "cg_addr img cg" buf ?D] by (simp add: cg_bytes_def D0_def)
    next
      case False
      then show ?thesis
        using in_cg [OF cc] in_cg [OF cg] len cg_blocks_apart [OF l cc cg]
        unfolding cg_bytes_def D0_def by (simp add: bytes_at_overlay_disjoint)
    qed
    finally show ?thesis .
  qed
  have sup0: "super_bytes img D0 = super_bytes img ?D"
    unfolding super_bytes_def D0_def using in_cg [OF cg] in_s ld(7) [OF cg] len by (intro bytes_at_overlay_disjoint) auto
  have "super_bytes img D2 = super_bytes img D1"
    unfolding super_bytes_def D2_def using in_cs in_s lD1 lC ld(6) [OF cg] by (intro bytes_at_overlay_disjoint) auto
  also have "\<dots> = S"
    unfolding super_bytes_def D1_def using bytes_at_overlay_same [of "super_addr img" S D0] in_s lD0 lS by simp
  finally have sup: "super_bytes img D2 = S" .
  have cs1: "bytes_at (csum_addr img cg) 16 D1 = bytes_at (csum_addr img cg) 16 ?D"
  proof -
    have "bytes_at (csum_addr img cg) 16 D1 = bytes_at (csum_addr img cg) 16 D0"
      unfolding D1_def using in_cs in_s lD0 lS ld(6) [OF cg] by (intro bytes_at_overlay_disjoint) auto
    also have "\<dots> = bytes_at (csum_addr img cg) 16 ?D"
      unfolding D0_def using in_cs in_cg [OF cg] len ld(8) [OF cg cg] by (intro bytes_at_overlay_disjoint) auto
    finally show ?thesis .
  qed
  have cs: "bytes_at (csum_addr img cg) 16 D2 = C"
    unfolding D2_def using bytes_at_overlay_same [of "csum_addr img cg" C D1] in_cs lD1 lC by simp
  have sr: "nextufs__read_be32 S SB_NDIR_OFF = u32_add (nextufs__read_be32 (super_bytes img ?D) SB_NDIR_OFF) d1"
    "nextufs__read_be32 S SB_NBFREE_OFF = u32_add (nextufs__read_be32 (super_bytes img ?D) SB_NBFREE_OFF) d2"
    "nextufs__read_be32 S SB_NIFREE_OFF = u32_add (nextufs__read_be32 (super_bytes img ?D) SB_NIFREE_OFF) d3"
    "nextufs__read_be32 S SB_NFFREE_OFF = u32_add (nextufs__read_be32 (super_bytes img ?D) SB_NFFREE_OFF) d4"
    using b4 lb4 unfolding sup0 by (simp_all add: S_def sb_offsets sup0)
  have cr: "nextufs__read_be32 C 0 = u32_add (nextufs__read_be32 (bytes_at (csum_addr img cg) 16 ?D) 0) d1"
    "nextufs__read_be32 C 4 = u32_add (nextufs__read_be32 (bytes_at (csum_addr img cg) 16 ?D) 4) d2"
    "nextufs__read_be32 C 8 = u32_add (nextufs__read_be32 (bytes_at (csum_addr img cg) 16 ?D) 8) d3"
    "nextufs__read_be32 C 12 = u32_add (nextufs__read_be32 (bytes_at (csum_addr img cg) 16 ?D) 12) d4"
    using c4 unfolding C_def cs1 by simp_all
  have rest: "D2 ! i = ?D ! i" if "i < length ?D" "\<not> (super_addr img \<le> i \<and> i < super_addr img + 2048)"
     "\<not> (csum_addr img cg \<le> i \<and> i < csum_addr img cg + 16)"
     "\<not> (cg_addr img cg \<le> i \<and> i < cg_addr img cg + cg_size (sb img))" for i
    using that in_cs in_s in_cg [OF cg] lD0 lD1 lS lC len unfolding D2_def D1_def D0_def
    by (auto simp: nth_overlay)
  have "group_updated img ?D D2 cg buf d1 d2 d3 d4"
    unfolding group_updated_def Let_def sup cs using lD2 cgs cg sr cr rest by simp
  with r1 r2 c2 s2 e2 show ?thesis by blast
qed

end

section \<open>Allocation and release on the disk\<close>

lemma group_limit_ok:
  assumes "block_geometry s" and "l \<le> frags_per_group s"
  shows "\<not> cg_size s < CG_FREE_OFF + u32 (l + 7) div 8"
proof -
  note v = valid_geometryD [OF block_geometryD(1) [OF assms(1)]]
  have "u32 (l + 7) = l + 7" using assms(2) v(15) by (intro u32_id) linarith
  then show ?thesis using block_geometryD(8) [OF assms(1), of 0 l] assms(2) by (simp add: CG_FREE_OFF_def)
qed

text \<open>
  \<open>run_taken\<close>: what a successful allocation of \<open>n\<close> fragments from group \<open>cg\<close> leaves on the disk,
  with the run starting at \<open>start\<close> in the group. The two free counts of the superblock and of the group's
  summary entry move by exactly the differences \<open>db\<close> and \<open>df\<close> by which those of the group moved.
\<close>

definition run_taken :: "'c nextufs_image \<Rightarrow> byte list \<Rightarrow> byte list \<Rightarrow> nat \<Rightarrow> nat \<Rightarrow> nat \<Rightarrow> bool" where
  "run_taken img D D' cg start n \<longleftrightarrow>
     free_run (sb img) (cg_bytes img D cg) start n \<and>
     cg_ok (sb img) (cg_bytes img D' cg) \<and>
     (\<forall>k < frags_per_group (sb img). cg_bits (cg_bytes img D' cg) k = taken (cg_bits (cg_bytes img D cg)) start n k) \<and>
     (\<exists>db df. group_updated img D D' cg (cg_bytes img D' cg) 0 db 0 df \<and>
        counts_moved (cg_bytes img D cg) (cg_bytes img D' cg) db df \<and>
        db * int (frags_per_block (sb img)) + df = - int n)"

definition run_released :: "'c nextufs_image \<Rightarrow> byte list \<Rightarrow> byte list \<Rightarrow> nat \<Rightarrow> nat \<Rightarrow> nat \<Rightarrow> bool" where
  "run_released img D D' cg start n \<longleftrightarrow>
     (\<forall>k. start \<le> k \<and> k < start + n \<longrightarrow> \<not> cg_bits (cg_bytes img D cg) k) \<and>
     cg_ok (sb img) (cg_bytes img D' cg) \<and>
     (\<forall>k < frags_per_group (sb img). cg_bits (cg_bytes img D' cg) k \<longleftrightarrow>
        cg_bits (cg_bytes img D cg) k \<or> start \<le> k \<and> k < start + n) \<and>
     (\<exists>db df. group_updated img D D' cg (cg_bytes img D' cg) 0 db 0 df \<and>
        counts_moved (cg_bytes img D cg) (cg_bytes img D' cg) db df \<and>
        db * int (frags_per_block (sb img)) + df = int n)"

lemma taken_length: "cg_ok s b \<Longrightarrow> length b = cg_size s"
  by (simp add: cg_ok_def)

context calm_backend
begin

lemma group_commit:
  assumes "calm_image ops disk binv calm img" and "layout_ok img" and "cg < cg_count (sb img)"
    and "writable img" and "cg_ok (sb img) buf"
  shows "\<exists>img1 img'. write_cg cg buf img = (Inr (), img1) \<and>
    nextufs__update_summary_counts cg d1 d2 d3 d4 img1 = (Inr (), img') \<and>
    calm_image ops disk binv calm img' \<and> static img' = static img \<and>
    cg_bytes img (disk (backend_ctx img')) cg = buf \<and>
    group_updated img (disk (backend_ctx img)) (disk (backend_ctx img')) cg
      (cg_bytes img (disk (backend_ctx img')) cg) d1 d2 d3 d4"
  using group_update_calm [OF assms(1-4) taken_length [OF assms(5)], of d1 d2 d3 d4]
  by (auto simp: group_updated_def)

lemma allocate_frags_in_group_calm:
  assumes c: "calm_image ops disk binv calm img" and l: "layout_ok img" and cg: "cg < cg_count (sb img)"
    and w: "writable img" and n: "0 < n" "n \<le> frags_per_block (sb img)"
  defines "D \<equiv> disk (backend_ctx img)"
  assumes magic: "nextufs__read_be32 (cg_bytes img D cg) CG_MAGIC_OFF = CG_MAGIC"
    and ok: "cg_ok (sb img) (cg_bytes img D cg)"
    and lim: "cg * frags_per_group (sb img) + nextufs__read_be32 (cg_bytes img D cg) CG_NDBLK_OFF \<le> frag_count (sb img)"
  shows "\<exists>r img'. nextufs__allocate_frags_in_group cg n img = (r, img') \<and>
    calm_image ops disk binv calm img' \<and> static img' = static img \<and>
    (case r of
       Inr f \<Rightarrow> \<exists>start. f = cg * frags_per_group (sb img) + start \<and> run_taken img D (disk (backend_ctx img')) cg start n
     | Inl e \<Rightarrow> e = ENOSPC \<and> disk (backend_ctx img') = D \<and> (\<forall>start. \<not> free_run (sb img) (cg_bytes img D cg) start n))"
proof -
  let ?s = "sb img" let ?b = "cg_bytes img D cg" let ?lim = "nextufs__read_be32 (cg_bytes img D cg) CG_NDBLK_OFF"
  note g = layout_okD(2) [OF l]
  note v = valid_geometryD [OF block_geometryD(1) [OF g]]
  from read_cg_calm [OF c l cg] magic obtain i1 where
    r1: "read_cg cg img = (Inr ?b, i1)" and c1: "calm_image ops disk binv calm i1"
    and d1: "disk (backend_ctx i1) = D" and s1: "static i1 = static img" by (auto simp: D_def)
  note st = static_layout [OF s1] and sd = staticD [OF s1]
  have l1: "layout_ok i1" "cg < cg_count (sb i1)" "writable i1" using l cg w st sd by simp_all
  from ok have limle: "?lim \<le> frags_per_group ?s" by (simp add: cg_ok_def)
  have guard: "\<not> (frags_per_group ?s < ?lim \<or> frag_count ?s < cg * frags_per_group ?s + ?lim \<or>
      cg_size ?s < CG_FREE_OFF + u32 (?lim + 7) div 8)"
    using limle lim group_limit_ok [OF g limle] by linarith
  have small: "u32 (cg * frags_per_group ?s + start) = cg * frags_per_group ?s + start"
    if "free_run ?s ?b start n" for start
  proof -
    from that n have "start + n \<le> frags_per_group ?s" "cg_bits ?b (start + n - 1)" by (simp_all add: free_run_def)
    then have "start + n - 1 < ?lim" using ok n by (auto simp: cg_ok_def)
    then show ?thesis using lim v(20) by (intro u32_id) linarith
  qed
  have commit: "\<exists>i2 i3. write_cg cg buf i1 = (Inr (), i2) \<and>
      nextufs__update_summary_counts cg 0 db 0 df i2 = (Inr (), i3) \<and> calm_image ops disk binv calm i3 \<and>
      static i3 = static img \<and> run_taken img D (disk (backend_ctx i3)) cg start n"
    if run: "free_run ?s ?b start n" and b: "cg_ok ?s buf"
      "\<forall>k < frags_per_group ?s. cg_bits buf k = taken (cg_bits ?b) start n k"
      and dd: "db * int (frags_per_block ?s) + df = - int n" "counts_moved ?b buf db df" for buf start db df
  proof -
    from group_commit [OF c1 l1, of buf 0 db 0 df] b(1) sd(1) obtain i2 i3 where
      "write_cg cg buf i1 = (Inr (), i2)" "nextufs__update_summary_counts cg 0 db 0 df i2 = (Inr (), i3)"
      "calm_image ops disk binv calm i3" "static i3 = static i1" "cg_bytes i1 (disk (backend_ctx i3)) cg = buf"
      "group_updated i1 D (disk (backend_ctx i3)) cg (cg_bytes i1 (disk (backend_ctx i3)) cg) 0 db 0 df"
      unfolding d1 by auto
    then show ?thesis using run b dd s1 st sd(1) unfolding run_taken_def group_updated_def by auto
  qed
  let ?p = "if n < frags_per_block ?s \<and> n \<le> nextufs__read_be32 ?b CG_CS_NFFREE_OFF
    then find_partial ?s ?b ?lim n else None"
  have unf: "nextufs__allocate_frags_in_group cg n img =
      (case ?p of
         Some (local_frag, start) \<Rightarrow>
           bind_io time_io (\<lambda>now.
           bind_io (write_cg cg (cg_take_partial ?s ?b local_frag start n now)) (\<lambda>_.
           bind_io (nextufs__update_summary_counts cg 0 0 0 (- int n)) (\<lambda>_.
           ret (u32 (cg * frags_per_group ?s + start)))))
       | None \<Rightarrow>
           if nextufs__read_be32 ?b CG_CS_NBFREE_OFF = 0 then fail ENOSPC
           else case find_whole ?s ?b ?lim of
             None \<Rightarrow> fail ENOSPC
           | Some local_frag \<Rightarrow>
               bind_io time_io (\<lambda>now.
               bind_io (write_cg cg (cg_take_block ?s ?b local_frag n now)) (\<lambda>_.
               bind_io (nextufs__update_summary_counts cg 0 (- 1) 0 (int (frags_per_block ?s - n))) (\<lambda>_.
               ret (u32 (cg * frags_per_group ?s + local_frag)))))) i1"
    using n r1 guard unfolding nextufs__allocate_frags_in_group_def Let_def
    by (simp add: bind_io_def get_io_def)
  show ?thesis
  proof (cases ?p)
    case (Some q)
    obtain lf start where q: "q = (lf, start)" by (cases q)
    from Some q have f: "find_partial ?s ?b ?lim n = Some (lf, start)" by (simp split: if_splits)
    note tp = take_partial_ok [OF g ok n(1) f, of "u32 (clock i1)"]
    from commit [of start "cg_take_partial ?s ?b lf start n (u32 (clock i1))" 0 "- int n"] tp
    obtain i2 i3 where w2: "write_cg cg (cg_take_partial ?s ?b lf start n (u32 (clock i1))) i1 = (Inr (), i2)"
      and u2: "nextufs__update_summary_counts cg 0 0 0 (- int n) i2 = (Inr (), i3)"
      and fin: "calm_image ops disk binv calm i3" "static i3 = static img"
        "run_taken img D (disk (backend_ctx i3)) cg start n" by auto
    have "nextufs__allocate_frags_in_group cg n img = (Inr (cg * frags_per_group ?s + start), i3)"
      unfolding unf Some q using w2 u2 small tp by (simp add: bind_io_def time_io_def ret_def)
    with fin show ?thesis by auto
  next
    case None
    then have np: "n < frags_per_block ?s \<and> n \<le> nextufs__read_be32 ?b CG_CS_NFFREE_OFF \<longrightarrow> find_partial ?s ?b ?lim n = None"
      by (auto split: if_splits)
    show ?thesis
    proof (cases "nextufs__read_be32 ?b CG_CS_NBFREE_OFF = 0 \<or> find_whole ?s ?b ?lim = None")
      case True
      then have "nextufs__allocate_frags_in_group cg n img = (Inl ENOSPC, i1)"
        unfolding unf None by (auto simp: fail_def)
      with group_full [OF g ok n np True] c1 s1 d1 show ?thesis by simp
    next
      case False
      then obtain lf where f: "find_whole ?s ?b ?lim = Some lf" and nz: "nextufs__read_be32 ?b CG_CS_NBFREE_OFF \<noteq> 0"
        by auto
      note tb = take_block_ok [OF g ok n f, of "u32 (clock i1)"]
      from commit [of lf "cg_take_block ?s ?b lf n (u32 (clock i1))" "- 1" "int (frags_per_block ?s - n)"] tb n(2)
      obtain i2 i3 where w2: "write_cg cg (cg_take_block ?s ?b lf n (u32 (clock i1))) i1 = (Inr (), i2)"
        and u2: "nextufs__update_summary_counts cg 0 (- 1) 0 (int (frags_per_block ?s - n)) i2 = (Inr (), i3)"
        and fin: "calm_image ops disk binv calm i3" "static i3 = static img"
          "run_taken img D (disk (backend_ctx i3)) cg lf n" by (auto simp: of_nat_diff)
      have "nextufs__allocate_frags_in_group cg n img = (Inr (cg * frags_per_group ?s + lf), i3)"
        unfolding unf None using f nz w2 u2 small tb by (simp add: bind_io_def time_io_def ret_def)
      with fin show ?thesis by auto
    qed
  qed
qed

lemma free_fragment_run_calm:
  assumes c: "calm_image ops disk binv calm img" and l: "layout_ok img" and cg: "cg < cg_count (sb img)"
    and w: "writable img" and n: "0 < n" "start mod frags_per_block (sb img) + n \<le> frags_per_block (sb img)"
    and start: "start < frags_per_group (sb img)"
  defines "D \<equiv> disk (backend_ctx img)"
  assumes magic: "nextufs__read_be32 (cg_bytes img D cg) CG_MAGIC_OFF = CG_MAGIC"
    and ok: "cg_ok (sb img) (cg_bytes img D cg)"
    and lim: "start + n \<le> nextufs__read_be32 (cg_bytes img D cg) CG_NDBLK_OFF"
  shows "\<exists>r img'. nextufs__free_fragment_run (cg * frags_per_group (sb img) + start) n img = (r, img') \<and>
    calm_image ops disk binv calm img' \<and> static img' = static img \<and>
    (if \<exists>k. start \<le> k \<and> k < start + n \<and> cg_bits (cg_bytes img D cg) k
     then r = Inl EINVAL \<and> disk (backend_ctx img') = D
     else r = Inr () \<and> run_released img D (disk (backend_ctx img')) cg start n)"
proof -
  let ?s = "sb img" let ?b = "cg_bytes img D cg"
  note g = layout_okD(2) [OF l]
  note gd = block_geometryD [OF g]
  from read_cg_calm [OF c l cg] magic obtain i1 where
    r1: "read_cg cg img = (Inr ?b, i1)" and c1: "calm_image ops disk binv calm i1"
    and d1: "disk (backend_ctx i1) = D" and s1: "static i1 = static img" by (auto simp: D_def)
  note st = static_layout [OF s1] and sd = staticD [OF s1]
  have l1: "layout_ok i1" "cg < cg_count (sb i1)" "writable i1" using l cg w st sd by simp_all
  have idx: "(cg * frags_per_group ?s + start) div frags_per_group ?s = cg"
    "(cg * frags_per_group ?s + start) mod frags_per_group ?s = start" using start by simp_all
  have unf: "nextufs__free_fragment_run (cg * frags_per_group ?s + start) n img =
      (case cg_free_run ?s ?b start n (u32 (clock i1)) of
         None \<Rightarrow> fail EINVAL
       | Some (buf, d_nbfree, d_nffree) \<Rightarrow>
           bind_io (write_cg cg buf) (\<lambda>_. nextufs__update_summary_counts cg 0 d_nbfree 0 d_nffree)) i1"
    using n r1 unfolding nextufs__free_fragment_run_def Let_def bind_io_def [of get_io] get_io_def prod.case
      sum.case idx by (simp add: bind_io_def time_io_def)
  show ?thesis
  proof (cases "cg_free_run ?s ?b start n (u32 (clock i1))")
    case None
    have "free_bits ?b 984 (map (\<lambda>i. start + i) [0..<n]) = None"
      using None by (auto simp: cg_free_run_def Let_def cg_offsets split: option.splits if_splits)
    moreover have "distinct (map (\<lambda>i. start + i) [0..<n])" by (simp add: distinct_map)
    moreover have "984 + k div 8 < length ?b" if "k \<in> set (map (\<lambda>i. start + i) [0..<n])" for k
      using that gd(7) [of k] lim ok by (auto simp: cg_ok_def)
    ultimately obtain k where "k \<in> set (map (\<lambda>i. start + i) [0..<n])" "map_bit ?b 984 k"
      using free_bits_None by blast
    then have "\<exists>k. start \<le> k \<and> k < start + n \<and> cg_bits ?b k" by (auto simp: cg_bits_def cg_offsets)
    moreover have "nextufs__free_fragment_run (cg * frags_per_group ?s + start) n img = (Inl EINVAL, i1)"
      unfolding unf None by (simp add: fail_def)
    ultimately show ?thesis using c1 s1 d1 by simp
  next
    case (Some q)
    obtain buf db df where q: "q = (buf, db, df)" by (cases q)
    note fr = free_run_ok [OF g ok n lim Some [unfolded q]]
    from group_commit [OF c1 l1, of buf 0 db 0 df] fr sd(1) obtain i2 i3 where
      w2: "write_cg cg buf i1 = (Inr (), i2)" "nextufs__update_summary_counts cg 0 db 0 df i2 = (Inr (), i3)"
      and fin: "calm_image ops disk binv calm i3" "static i3 = static i1" "cg_bytes i1 (disk (backend_ctx i3)) cg = buf"
      "group_updated i1 D (disk (backend_ctx i3)) cg (cg_bytes i1 (disk (backend_ctx i3)) cg) 0 db 0 df"
      unfolding d1 by auto
    have "nextufs__free_fragment_run (cg * frags_per_group ?s + start) n img = (Inr (), i3)"
      unfolding unf Some q using w2 by (simp add: bind_io_def)
    moreover have "run_released img D (disk (backend_ctx i3)) cg start n"
      using fr fin st sd(1) unfolding run_released_def group_updated_def by auto
    ultimately show ?thesis using fin(1,2) s1 fr by auto
  qed
qed

end

section \<open>A sample group\<close>

text \<open>
  Group 0 of the sample image, at byte 12288: fragments 21 to 31 are free, three in block 5 and
  the whole blocks 6 and 7, at the rotational positions 6 and 7 of cylinder 0; inodes 0 to 2 are used.
\<close>

definition sample_group :: "byte list" where
  "sample_group =
     (let b = replicate 1024 0;
          b = nextufs__write_be32 b CG_NDBLK_OFF 32;
          b = nextufs__write_be32 b CG_CS_NBFREE_OFF 2;
          b = nextufs__write_be32 b CG_CS_NIFREE_OFF 29;
          b = nextufs__write_be32 b CG_CS_NFFREE_OFF 3;
          b = nextufs__write_be32 b (52 + 3 * 4) 1;
          b = nextufs__write_be32 b CG_BTOT_OFF 2;
          b = nextufs__write_be16 b (CG_BPOS_OFF + 6 * 2) 1;
          b = nextufs__write_be16 b (CG_BPOS_OFF + 7 * 2) 1;
          b = nextufs__write_be32 b CG_MAGIC_OFF CG_MAGIC
      in overlay CG_FREE_OFF [0, 0, 224, 255] (overlay CG_IUSED_OFF [7] b))"

definition sample_disk :: "byte list" where
  "sample_disk = overlay 12288 sample_group (replicate 32768 0)"

lemma block_frags_code: "block_frags P fpb j = length (filter (\<lambda>i. P (j * fpb + i)) [0..<fpb])"
proof -
  have "{i. i < fpb \<and> P (j * fpb + i)} = set (filter (\<lambda>i. P (j * fpb + i)) [0..<fpb])" by auto
  then show ?thesis unfolding block_frags_def by (simp add: distinct_card del: set_filter)
qed

lemma run_starts_code:
  "card (run_starts P fpb k) = length (filter (\<lambda>i. list_all (\<lambda>j. P (i + j)) [0..<k] \<and>
     (0 < i \<longrightarrow> \<not> P (i - 1)) \<and> (i + k < fpb \<longrightarrow> \<not> P (i + k))) [0..<fpb + 1 - k])"
  (is "_ = length (filter ?p ?l)")
proof -
  have "run_starts P fpb k = set (filter ?p ?l)" by (auto simp: run_starts_def list_all_iff)
  then show ?thesis by (simp add: distinct_card del: set_filter)
qed

lemma whole_free_code: "whole_free P fpb j = list_all (\<lambda>i. P (j * fpb + i)) [0..<fpb]"
  by (auto simp: whole_free_def list_all_iff)

lemma length_sample_group [simp]: "length sample_group = 1024"
  by (simp add: sample_group_def cg_offsets Let_def)

lemma length_sample_disk [simp]: "length sample_disk = 32768"
  by (simp add: sample_disk_def)

lemma sample_group_fields [simp]:
  "nextufs__read_be32 sample_group CG_NDBLK_OFF = 32" "nextufs__read_be32 sample_group CG_CS_NBFREE_OFF = 2"
  "nextufs__read_be32 sample_group CG_CS_NIFREE_OFF = 29" "nextufs__read_be32 sample_group CG_CS_NFFREE_OFF = 3"
  "nextufs__read_be32 sample_group CG_MAGIC_OFF = CG_MAGIC" "nextufs__read_be32 sample_group 56 = 0"
  "nextufs__read_be32 sample_group 60 = 0" "nextufs__read_be32 sample_group 64 = 1"
proof -
  have ov: "nextufs__read_be32 (overlay p bs b) q = nextufs__read_be32 b q"
    if "p + length bs \<le> length b" "q + 4 \<le> p \<or> p + length bs \<le> q" "q + 4 \<le> length b" for p q bs and b :: "byte list"
    using that by (intro read_be32_cong) (auto simp: nth_overlay)
  show "nextufs__read_be32 sample_group CG_NDBLK_OFF = 32" "nextufs__read_be32 sample_group CG_CS_NBFREE_OFF = 2"
    "nextufs__read_be32 sample_group CG_CS_NIFREE_OFF = 29" "nextufs__read_be32 sample_group CG_CS_NFFREE_OFF = 3"
    "nextufs__read_be32 sample_group CG_MAGIC_OFF = CG_MAGIC" "nextufs__read_be32 sample_group 56 = 0"
    "nextufs__read_be32 sample_group 60 = 0" "nextufs__read_be32 sample_group 64 = 1"
    unfolding sample_group_def Let_def
    by (simp_all add: ov cg_offsets fixed_rules [where L = 1024] CG_MAGIC_def read_be32_eq [of "replicate n x" for n x]
        del: generic_rules)
qed

lemma sample_bits: "k < 32 \<Longrightarrow> cg_bits sample_group k \<longleftrightarrow> 21 \<le> k"
proof -
  assume k: "k < 32"
  have nth: "sample_group ! (984 + i) = [0, 0, 224, 255] ! i" if "i < 4" for i
    using that by (simp add: sample_group_def Let_def cg_offsets nth_overlay)
  have "k div 8 < 4" using k by (simp add: less_mult_imp_div_less)
  then have "cg_bits sample_group k = bit ([0, 0, 224, 255 :: byte] ! (k div 8)) (k mod 8)"
    by (simp add: cg_bits_def map_bit_iff cg_offsets nth)
  moreover have "list_all (\<lambda>k. bit ([0, 0, 224, 255 :: byte] ! (k div 8)) (k mod 8) \<longleftrightarrow> 21 \<le> k) [0..<32]"
    by code_simp
  ultimately show ?thesis using k by (simp add: list_all_iff)
qed

lemma sample_block_geometry: "block_geometry sample_superblock"
  using not_bad_geometry [OF sample_not_bad] by (simp add: block_geometry_def)

lemma sample_census:
  "free_blocks (cg_bits sample_group) 4 8 = 2" "free_frags (cg_bits sample_group) 4 8 = 3"
  "1 \<le> k \<Longrightarrow> k < 4 \<Longrightarrow> free_runs (cg_bits sample_group) 4 8 k = (if k = 3 then 1 else 0)"
proof -
  have ix: "j * 4 + i < 32" if "j < 8" "i < 4" for i j :: nat using that by linarith
  have w: "whole_free (cg_bits sample_group) 4 j = whole_free (\<lambda>k. 21 \<le> k) 4 j" if "j < 8" for j
    using ix [OF that] sample_bits by (auto simp: whole_free_def)
  have f: "block_frags (cg_bits sample_group) 4 j = block_frags (\<lambda>k. 21 \<le> k) 4 j" if "j < 8" for j
    unfolding block_frags_def using ix [OF that] sample_bits by (intro arg_cong [where f = card]) auto
  have r: "run_starts (\<lambda>i. cg_bits sample_group (j * 4 + i)) 4 k = run_starts (\<lambda>i. 21 \<le> j * 4 + i) 4 k"
    if "j < 8" for j k using ix [OF that] sample_bits by (intro run_starts_cong) auto
  have "free_blocks (cg_bits sample_group) 4 8 = free_blocks (\<lambda>k. 21 \<le> k) 4 8"
    "free_frags (cg_bits sample_group) 4 8 = free_frags (\<lambda>k. 21 \<le> k) 4 8"
    "free_runs (cg_bits sample_group) 4 8 k = free_runs (\<lambda>k. 21 \<le> k) 4 8 k" for k
    unfolding free_blocks_def free_frags_def free_runs_def by (auto simp: w f r intro!: sum.cong)
  moreover have "free_blocks (\<lambda>k. 21 \<le> k) 4 8 = 2"
    unfolding free_blocks_def whole_free_code by code_simp
  moreover have "free_frags (\<lambda>k. 21 \<le> k) 4 8 = 3"
    unfolding free_frags_def whole_free_code block_frags_code by code_simp
  moreover have "list_all (\<lambda>k. free_runs (\<lambda>k. 21 \<le> k) 4 8 k = (if k = 3 then 1 else 0)) [1..<4]"
    unfolding free_runs_def run_starts_code by code_simp
  ultimately show "free_blocks (cg_bits sample_group) 4 8 = 2" "free_frags (cg_bits sample_group) 4 8 = 3"
    "1 \<le> k \<Longrightarrow> k < 4 \<Longrightarrow> free_runs (cg_bits sample_group) 4 8 k = (if k = 3 then 1 else 0)"
    by (simp_all add: list_all_iff)
qed

text \<open>The two tables of the sample group: two free blocks in cylinder 0, at the positions 6 and 7.\<close>

lemma sample_tables:
  "c < 32 \<Longrightarrow> cg_btot sample_group c = (if c = 0 then 2 else 0)"
  "c < 32 \<Longrightarrow> r < 8 \<Longrightarrow> cg_b sample_group c r = (if c = 0 \<and> (r = 6 \<or> r = 7) then 1 else 0)"
proof -
  have nth: "sample_group ! i = (if i = 87 then 2 else if i = 225 \<or> i = 227 then 1 else 0)" if "84 \<le> i" "i < 724" for i
    using that unfolding sample_group_def Let_def cg_offsets
    by (simp add: nth_overlay nextufs__write_be32_def nextufs__write_be16_def byte_at_def nth_Cons' split: if_splits)
  show "cg_btot sample_group c = (if c = 0 then 2 else 0)" if "c < 32"
    using that by (simp add: cg_btot_def read_be32_eq nth)
  show "cg_b sample_group c r = (if c = 0 \<and> (r = 6 \<or> r = 7) then 1 else 0)" if "c < 32" "r < 8"
  proof -
    let ?x = "c * 8 + r"
    have "cg_b sample_group c r = (if ?x = 6 \<or> ?x = 7 then 1 else 0)"
      using rotational_bound [OF that] unfolding cg_b_def read_be16_eq by (simp add: nth)
    then show ?thesis using that by (cases "c = 0") auto
  qed
qed

lemma free_among_pair:
  assumes "\<And>j. j < N \<Longrightarrow> whole_free P fpb j \<longleftrightarrow> j = x \<or> j = y" and "x < N" "y < N" "x \<noteq> y"
  shows "free_among A P fpb N = (if A x then 1 else 0) + (if A y then 1 else 0)"
proof -
  have "free_among A P fpb N = card {j \<in> {..<N}. A j \<and> whole_free P fpb j}"
    unfolding free_among_def by (simp add: sum.If_cases Int_def conj_ac)
  also have "{j \<in> {..<N}. A j \<and> whole_free P fpb j} = {j \<in> {x, y}. A j}" using assms by auto
  also have "card \<dots> = (if A x then 1 else 0) + (if A y then 1 else 0)"
  proof -
    have "{j \<in> {x, y}. A j} = (if A x then {x} else {}) \<union> (if A y then {y} else {})" by auto
    then show ?thesis using assms(4) by simp
  qed
  finally show ?thesis .
qed

lemma sample_tables_ok: "tables_ok sample_superblock (cg_bits sample_group) sample_group"
proof -
  have w: "whole_free (cg_bits sample_group) 4 j \<longleftrightarrow> j = 6 \<or> j = 7" if "j < 8" for j
  proof -
    have "whole_free (cg_bits sample_group) 4 j = whole_free (\<lambda>k. 21 \<le> k) 4 j"
      using that sample_bits by (auto simp: whole_free_def)
    also have "\<dots> \<longleftrightarrow> 21 \<le> j * 4" unfolding whole_free_def by (metis add_0_right le_add1 le_trans zero_less_numeral)
    finally show ?thesis using that by linarith
  qed
  note fa = free_among_pair [of 8 "cg_bits sample_group" 4 6 7, OF w]
  have at: "block_cyl sample_superblock 6 = 0" "block_cyl sample_superblock 7 = 0"
    "block_pos sample_superblock 6 = 6" "block_pos sample_superblock 7 = 7"
    by (simp_all add: block_cyl_def block_pos_def block_sector_def NRPOS_def u32_def)
  show ?thesis
    unfolding tables_ok_def
    by (auto simp: sample_tables fa cg_blocks_def in_cyl_def at_pos_def at NRPOS_def)
qed

lemma sample_cg_ok: "cg_ok sample_superblock sample_group"
  unfolding cg_ok_def
proof (intro conjI allI impI)
  fix k :: nat assume "1 \<le> k \<and> k < frags_per_block sample_superblock"
  then have "k = 1 \<or> k = 2 \<or> k = 3" by (simp; linarith)
  then show "nextufs__read_be32 sample_group (52 + k * 4) = free_runs (cg_bits sample_group)
      (frags_per_block sample_superblock) (cg_blocks sample_superblock) k"
    using sample_census(3) [of k] by (auto simp: cg_blocks_def)
qed (simp_all add: cg_blocks_def sample_census sample_tables_ok)

lemma sample_addr:
  "super_addr (sample_image sample_disk) = 8192" "csum_addr (sample_image sample_disk) 0 = 20480"
  "cg_addr (sample_image sample_disk) 0 = 12288"
  by (simp_all add: super_addr_def csum_addr_def cg_addr_def nextufs__cg_block_offset_def nextufs__cgstart_def
      u64_def to_off_def)

lemma sample_cg_bytes: "cg_bytes (sample_image sample_disk) sample_disk 0 = sample_group"
  using bytes_at_overlay_same [of 12288 sample_group "replicate 32768 0"]
  unfolding cg_bytes_def sample_addr by (simp add: sample_disk_def)

lemma sample_layout: "layout_ok (sample_image sample_disk)"
  using sample_valid [of sample_disk] sample_block_geometry
  by (simp add: layout_ok_def slice_inside_def sample_addr)

section \<open>Properties\<close>

text \<open>
  C36. The run count of \<open>nextufs__count_free_runs_in_block\<close>, two nested loops, is for every length
  shorter than a block the number of maximal runs of exactly that many free fragments in the block.
\<close>

theorem count_free_runs_correct:
  assumes "1 \<le> k" and "k < fpb"
  shows "nextufs__count_free_runs_in_block b m base fpb ! k =
    card {i. i + k \<le> fpb \<and> (\<forall>j < k. map_bit b m (base + (i + j))) \<and>
      (0 < i \<longrightarrow> \<not> map_bit b m (base + (i - 1))) \<and> (i + k < fpb \<longrightarrow> \<not> map_bit b m (base + (i + k)))}"
  using count_free_runs_spec [OF assms, of b m base] by (simp add: run_starts_def)

theorem count_free_runs_correct_witness:
  "nextufs__count_free_runs_in_block sample_group 984 20 4 ! 3 =
    card {i. i + 3 \<le> 4 \<and> (\<forall>j < 3. map_bit sample_group 984 (20 + (i + j))) \<and>
      (0 < i \<longrightarrow> \<not> map_bit sample_group 984 (20 + (i - 1))) \<and>
      (i + 3 < 4 \<longrightarrow> \<not> map_bit sample_group 984 (20 + (i + 3)))}"
  using count_free_runs_correct [of 3 4 sample_group 984 20] by simp

text \<open>
  C32. Allocating \<open>n\<close> fragments from a group whose counters match its map: the call returns a run of
  \<open>n\<close> free fragments that lies in one block, takes exactly that run out of the map, and keeps the
  counters of free space in the group equal to the census of the new map: free blocks, free fragments, free
  runs of each length, free blocks of each cylinder and of each rotational position. The free blocks and the
  free fragments of the superblock and of the group's summary entry move each by exactly what the group's own
  count moved by, together \<open>- n\<close> fragments, and outside the superblock copy, that entry and the group no byte
  changes; or it returns \<open>ENOSPC\<close>,
  with nothing written, and then the group has no such run.
\<close>

theorem allocate_frags_correct:
  assumes "raw_image_calm img" and "layout_ok img" and "cg < cg_count (sb img)" and "writable img"
    and "0 < n" and "n \<le> frags_per_block (sb img)" and "content (backend_ctx img) = D"
    and "cg_bytes img D cg = b" and "nextufs__read_be32 b CG_MAGIC_OFF = CG_MAGIC"
    and "cg_ok (sb img) b"
    and "cg * frags_per_group (sb img) + nextufs__read_be32 b CG_NDBLK_OFF \<le> frag_count (sb img)"
  shows "\<exists>r img'. nextufs__allocate_frags_in_group cg n img = (r, img') \<and>
    (case r of
       Inr f \<Rightarrow> \<exists>start. f = cg * frags_per_group (sb img) + start \<and>
         run_taken img D (content (backend_ctx img')) cg start n
     | Inl e \<Rightarrow> e = ENOSPC \<and> content (backend_ctx img') = D \<and> (\<forall>start. \<not> free_run (sb img) b start n))"
  using raw.allocate_frags_in_group_calm [OF assms(1-6)] assms(7-11) by blast

theorem allocate_frags_correct_witness:
  "\<exists>r img'. nextufs__allocate_frags_in_group 0 2 (sample_image sample_disk) = (r, img') \<and>
    (case r of
       Inr f \<Rightarrow> \<exists>start. f = 0 * frags_per_group (sb (sample_image sample_disk)) + start \<and>
         run_taken (sample_image sample_disk) sample_disk (content (backend_ctx img')) 0 start 2
     | Inl e \<Rightarrow> e = ENOSPC \<and> content (backend_ctx img') = sample_disk \<and>
         (\<forall>start. \<not> free_run (sb (sample_image sample_disk)) sample_group start 2))"
  by (rule allocate_frags_correct)
    (simp_all add: sample_layout sample_calm sample_cg_bytes sample_cg_ok)

text \<open>
  C33. Releasing a run of one block in a group whose counters match its map: if a fragment of the run
  is already free the call returns \<open>EINVAL\<close> and writes nothing; otherwise it succeeds, the run
  joins the free fragments, the counters of free space in the group, those by cylinder and by rotational
  position with them, match the map again, and the free blocks and the free fragments of the superblock and of
  the group's summary entry move each by exactly what the group's own count moved by, together \<open>n\<close> fragments.
  The run lies inside one block and inside the group; the code does not test it.
\<close>

theorem free_run_correct:
  assumes "raw_image_calm img" and "layout_ok img" and "cg < cg_count (sb img)" and "writable img"
    and "0 < n" and "start mod frags_per_block (sb img) + n \<le> frags_per_block (sb img)"
    and "start < frags_per_group (sb img)" and "content (backend_ctx img) = D"
    and "cg_bytes img D cg = b" and "nextufs__read_be32 b CG_MAGIC_OFF = CG_MAGIC"
    and "cg_ok (sb img) b" and "start + n \<le> nextufs__read_be32 b CG_NDBLK_OFF"
  shows "\<exists>r img'. nextufs__free_fragment_run (cg * frags_per_group (sb img) + start) n img = (r, img') \<and>
    (if \<exists>k. start \<le> k \<and> k < start + n \<and> cg_bits b k
     then r = Inl EINVAL \<and> content (backend_ctx img') = D
     else r = Inr () \<and> run_released img D (content (backend_ctx img')) cg start n)"
  using raw.free_fragment_run_calm [OF assms(1-7)] assms(8-12) by blast

theorem free_run_correct_witness:
  "\<exists>r img'. nextufs__free_fragment_run (0 * frags_per_group sample_superblock + 17) 2 (sample_image sample_disk) = (r, img') \<and>
    r = Inr () \<and> run_released (sample_image sample_disk) sample_disk (content (backend_ctx img')) 0 17 2"
  using free_run_correct [of "sample_image sample_disk" 0 2 17 sample_disk sample_group]
    sample_layout sample_calm [of sample_disk] sample_cg_bytes sample_cg_ok sample_bits by auto

end
