(* ===== verification/Resize_Disk.thy ===== *)
theory Resize_Disk
  imports Resize_Groups Alloc_Disk
begin

text \<open>
  The group operations of a growth on the disk: over a calm environment and a laid-out image, the
  extension of the last group and the reservation for the summary area leave a group whose counters
  match its map, with its entry in the summary area, and touch no other byte.
\<close>

section \<open>Where a group and its summary entry are\<close>

lemma slice_room:
  assumes "layout_ok img"
  shows "frag_count (sb img) * frag_size (sb img) \<le> of_off (slice_size img)" "of_off (slice_size img) < 9223372036854775808"
proof -
  note d = layout_okD [OF assms]
  show "frag_count (sb img) * frag_size (sb img) \<le> of_off (slice_size img)" using d(1) by (simp add: valid_image_def)
  from d(3) have s: "0 \<le> slice_size img" "slice_base img + slice_size img \<le> image_size img" "image_size img < 2 ^ 63"
    by (simp_all add: slice_inside_def)
  have "of_off (slice_size img) = nat (slice_size img)" using s d(5) by (intro of_off_id) simp_all
  then show "of_off (slice_size img) < 9223372036854775808" using s d(5) by simp
qed

lemma group_in_slice:
  assumes l: "layout_ok img" and cg: "cg < cg_count (sb img)"
  defines "off \<equiv> frag_bytes (sb img) (cgtod (sb img) cg)"
  shows "slice_base img + off = nextufs__cg_block_offset img cg" "0 \<le> off"
    "nat off + cg_size (sb img) \<le> of_off (slice_size img)"
proof -
  let ?s = "sb img" let ?a = "(nextufs__cgstart ?s cg + cg_off ?s) * frag_size ?s"
  note d = layout_okD [OF l] and r = slice_room [OF l]
  from d(1) have g: "valid_geometry ?s" by (simp add: valid_image_def)
  note vg = valid_geometryD [OF g]
  have fr: "nextufs__cgstart ?s cg + cg_off ?s + frags_per_block ?s \<le> frag_count ?s"
    using cgstart_in_slice [OF d(1) cg] inode_frags_before_data [OF g] vg(24) by linarith
  have "(nextufs__cgstart ?s cg + cg_off ?s + frags_per_block ?s) * frag_size ?s \<le> frag_count ?s * frag_size ?s"
    by (intro mult_le_mono1 fr)
  then have b: "?a + cg_size ?s \<le> of_off (slice_size img)" using r(1) vg(3,22) unfolding distrib_right by linarith
  have "u64 (nextufs__cgstart ?s cg + cg_off ?s) = nextufs__cgstart ?s cg + cg_off ?s"
    using fr vg(20) by (intro u64_id) linarith
  moreover have "u64 ?a = ?a" using b r(2) by (intro u64_id) linarith
  moreover have "to_off ?a = int ?a" using b r(2) by (intro to_off_id) linarith
  ultimately have o: "off = int ?a" by (simp add: off_def frag_bytes_def cgtod_def cgstart_def)
  show "slice_base img + off = nextufs__cg_block_offset img cg" unfolding o cg_block_offset_exact [OF d(1) cg] ..
  show "0 \<le> off" "nat off + cg_size ?s \<le> of_off (slice_size img)" unfolding o nat_int using b by simp_all
qed

lemma entry_in_slice:
  assumes l: "layout_ok img" and cg: "cg < cg_count (sb img)"
  defines "off \<equiv> frag_bytes (sb img) (cyl_summary_addr (sb img)) + int (cg * CSUM_SIZE)"
  shows "nat (slice_base img + off) = csum_addr img cg" "0 \<le> off" "nat off + 16 \<le> of_off (slice_size img)"
proof -
  let ?s = "sb img" let ?a = "cyl_summary_addr ?s * frag_size ?s"
  note d = layout_okD [OF l] and r = slice_room [OF l]
  have v: "?a + csum_size ?s \<le> frag_count ?s * frag_size ?s" using d(1) by (simp add: valid_image_def)
  have c: "cg_count ?s * 16 \<le> csum_size ?s" using d(2) by (simp add: block_geometry_def valid_geometry_def)
  have e: "?a + (cg * 16 + 16) \<le> of_off (slice_size img)" using v c r(1) cg by linarith
  have "u64 ?a = ?a" using e r(2) by (intro u64_id) linarith
  moreover have "to_off ?a = int ?a" using e r(2) by (intro to_off_id) linarith
  ultimately have o: "off = int (?a + cg * 16)" by (simp add: off_def frag_bytes_def CSUM_SIZE_def)
  show "nat (slice_base img + off) = csum_addr img cg" unfolding o csum_addr_def by (simp add: add.assoc)
  show "0 \<le> off" "nat off + 16 \<le> of_off (slice_size img)" unfolding o nat_int using e by simp_all
qed

text \<open>
  \<open>group_written\<close>: the disk \<open>D'\<close> is \<open>D\<close> with \<open>buf\<close> as the block of group \<open>cg\<close> and the group's counters
  in its entry of the summary area; nothing else changed.
\<close>

definition group_written :: "'c nextufs_image \<Rightarrow> byte list \<Rightarrow> byte list \<Rightarrow> nat \<Rightarrow> byte list \<Rightarrow> bool" where
  "group_written img D D' cg buf \<longleftrightarrow> length D' = length D \<and> cg_bytes img D' cg = buf \<and>
     (let C = bytes_at (csum_addr img cg) 16 D' in
      nextufs__read_be32 C 0 = nextufs__read_be32 buf CG_CS_NDIR_OFF \<and>
      nextufs__read_be32 C 4 = nextufs__read_be32 buf CG_CS_NBFREE_OFF \<and>
      nextufs__read_be32 C 8 = nextufs__read_be32 buf CG_CS_NIFREE_OFF \<and>
      nextufs__read_be32 C 12 = nextufs__read_be32 buf CG_CS_NFFREE_OFF) \<and>
     (\<forall>i < length D. \<not> (csum_addr img cg \<le> i \<and> i < csum_addr img cg + 16) \<and>
        \<not> (cg_addr img cg \<le> i \<and> i < cg_addr img cg + cg_size (sb img)) \<longrightarrow> D' ! i = D ! i)"

context calm_backend
begin

lemma read_group_calm:
  assumes c: "calm_image ops disk binv calm img" and l: "layout_ok img" and cg: "cg < cg_count (sb img)"
  shows "\<exists>img'. nextufs_image_pread (cg_size (sb img)) (frag_bytes (sb img) (cgtod (sb img) cg)) img =
      (Inr (cg_bytes img (disk (backend_ctx img)) cg), img') \<and>
    calm_image ops disk binv calm img' \<and> disk (backend_ctx img') = disk (backend_ctx img) \<and> static img' = static img"
proof -
  note ins = cg_block_inside [OF l cg] and gs = group_in_slice [OF l cg]
  have "nat (nextufs__cg_block_offset img cg) + cg_size (sb img) \<le> length (disk (backend_ctx img))"
    using ins(1) disk_size [OF calm_image_on [OF c]] by (simp add: cg_addr_def)
  from read_exact_calm [OF c ins(2) this] gs show ?thesis
    by (auto simp: nextufs_image_pread_def io_defs cg_bytes_def cg_addr_def)
qed

lemma pwrite_calm:
  assumes c: "calm_image ops disk binv calm img" and w: "writable img" and l: "layout_ok img"
    and o: "0 \<le> off" "nat off + length buf \<le> of_off (slice_size img)"
  shows "\<exists>img'. nextufs_image_pwrite buf off img = (Inr (), img') \<and> calm_image ops disk binv calm img' \<and>
    disk (backend_ctx img') = overlay (nat (slice_base img + off)) buf (disk (backend_ctx img)) \<and> static img' = static img"
proof -
  note d = layout_okD [OF l]
  from d(3) have s: "0 \<le> slice_size img" "slice_base img + slice_size img \<le> image_size img" "image_size img < 2 ^ 63"
    by (simp_all add: slice_inside_def)
  have "of_off (slice_size img) = nat (slice_size img)" using s d(5) by (intro of_off_id) simp_all
  then have "nat (slice_base img + off) + length buf \<le> nat (image_size img)" using o s d(5) by linarith
  then have "nat (slice_base img + off) + length buf \<le> length (disk (backend_ctx img))"
    using disk_size [OF calm_image_on [OF c]] by simp
  from write_exact_calm [OF c w _ this] o d(5) show ?thesis by (auto simp: nextufs_image_pwrite_def io_defs)
qed

lemma write_group_calm:
  assumes c: "calm_image ops disk binv calm img" and l: "layout_ok img" and cg: "cg < cg_count (sb img)"
    and w: "writable img" and len: "length buf = cg_size (sb img)"
  shows "\<exists>img'. write_group cg buf img = (Inr (), img') \<and> calm_image ops disk binv calm img' \<and> static img' = static img \<and>
    group_written img (disk (backend_ctx img)) (disk (backend_ctx img')) cg buf"
proof -
  let ?D = "disk (backend_ctx img)"
  let ?C = "nextufs__write_be32 (nextufs__write_be32 (nextufs__write_be32 (nextufs__write_be32 (replicate 16 0) 0
      (nextufs__read_be32 buf CG_CS_NDIR_OFF)) 4 (nextufs__read_be32 buf CG_CS_NBFREE_OFF)) 8 (nextufs__read_be32 buf CG_CS_NIFREE_OFF))
      12 (nextufs__read_be32 buf CG_CS_NFFREE_OFF)"
  note gs = group_in_slice [OF l cg] and es = entry_in_slice [OF l cg] and ld = layout_okD [OF l]
  have sz: "nat (image_size img) = length ?D" using disk_size [OF calm_image_on [OF c]] by simp
  from pwrite_calm [OF c w l gs(2), of buf] gs(1,3) len obtain i1 where
    r1: "nextufs_image_pwrite buf (frag_bytes (sb img) (cgtod (sb img) cg)) img = (Inr (), i1)"
    and c1: "calm_image ops disk binv calm i1" and d1: "disk (backend_ctx i1) = overlay (cg_addr img cg) buf ?D"
    and s1: "static i1 = static img" by (auto simp: cg_addr_def)
  note sd = staticD [OF s1] and st = static_layout [OF s1] and sg = static_geometry [OF s1]
  have w1: "writable i1" and l1: "layout_ok i1" using w l sd st by simp_all
  have o1: "nat (frag_bytes (sb img) (cyl_summary_addr (sb img)) + int (cg * CSUM_SIZE)) + length ?C \<le> of_off (slice_size i1)"
    using entry_in_slice(3) [OF l1, of cg] cg sd by simp
  from pwrite_calm [OF c1 w1 l1 es(2) o1] obtain i2 where
    r2: "nextufs_image_pwrite ?C (frag_bytes (sb img) (cyl_summary_addr (sb img)) + int (cg * CSUM_SIZE)) i1 = (Inr (), i2)"
    and c2: "calm_image ops disk binv calm i2" and d2: "disk (backend_ctx i2) = overlay (csum_addr img cg) ?C (overlay (cg_addr img cg) buf ?D)"
    and s2: "static i2 = static img" using d1 s1 es(1) sd by auto
  have id: "int32_bits (int (nextufs__read_be32 buf q)) = nextufs__read_be32 buf q" for q
    by (simp add: int32_bits_def nat_mod_distrib)
  have "write_group cg buf img = (Inr (), i2)"
    using r1 r2 sd(1) by (simp add: write_group_def write_csum_entry_def write_csum_entry_at_def Let_def bind_io_def get_io_def id CSUM_SIZE_def)
  moreover have "group_written img ?D (disk (backend_ctx i2)) cg buf"
  proof -
    have in1: "cg_addr img cg + length buf \<le> length ?D" using cg_block_inside(1) [OF l cg] len sz by simp
    have in2: "csum_addr img cg + length ?C \<le> length (overlay (cg_addr img cg) buf ?D)"
      using csum_inside(1) [OF l cg] sz in1 by simp
    have apart: "cg_addr img cg + cg_size (sb img) \<le> csum_addr img cg \<or> csum_addr img cg + length ?C \<le> cg_addr img cg"
      using ld(8) [OF cg cg] by auto
    have "cg_bytes img (disk (backend_ctx i2)) cg = buf"
      using bytes_at_overlay_disjoint [OF in2 _ apart] bytes_at_overlay_same [OF in1] in1 len unfolding cg_bytes_def d2 by simp
    moreover have C: "bytes_at (csum_addr img cg) 16 (disk (backend_ctx i2)) = ?C"
      using bytes_at_overlay_same [OF in2] unfolding d2 by simp
    moreover have "length (disk (backend_ctx i2)) = length ?D" using in1 in2 unfolding d2 by simp
    moreover have "disk (backend_ctx i2) ! i = ?D ! i"
      if "i < length ?D" "\<not> (csum_addr img cg \<le> i \<and> i < csum_addr img cg + 16)"
        "\<not> (cg_addr img cg \<le> i \<and> i < cg_addr img cg + cg_size (sb img))" for i
      using that in1 in2 len unfolding d2 by (auto simp: nth_overlay)
    ultimately show ?thesis unfolding group_written_def Let_def C by simp
  qed
  ultimately show ?thesis using c2 s2 by blast
qed

lemma expand_last_group_calm:
  assumes c: "calm_image ops disk binv calm img" and l: "layout_ok img" and cg: "cg < cg_count (sb img)" and w: "writable img"
    and ok: "cg_ok (sb img) (cg_bytes img (disk (backend_ctx img)) cg)"
    and n: "nextufs__read_be32 (cg_bytes img (disk (backend_ctx img)) cg) CG_NDBLK_OFF = n" "0 < n"
    and t: "frags_per_group (sb img) * cg + n \<le> target" "target < 2 ^ 32"
  defines "e \<equiv> min (frags_per_group (sb img)) (target - frags_per_group (sb img) * cg)"
  shows "\<exists>nb nf img' b'. expand_old_last_cg cg (frags_per_group (sb img) * cg + n) target cyls img = (Inr (nb, nf, e - n), img') \<and>
    group_written img (disk (backend_ctx img)) (disk (backend_ctx img')) cg b' \<and> cg_ok (sb img) b' \<and>
    nextufs__read_be32 b' CG_NDBLK_OFF = e \<and>
    (\<forall>k < frags_per_group (sb img). cg_bits b' k \<longleftrightarrow>
       cg_bits (cg_bytes img (disk (backend_ctx img)) cg) k \<or> n \<le> k \<and> k < e) \<and>
    counts_moved (cg_bytes img (disk (backend_ctx img)) cg) b' nb nf \<and>
    nb * int (frags_per_block (sb img)) + nf = int (e - n)"
proof -
  let ?s = "sb img" let ?b = "cg_bytes img (disk (backend_ctx img)) cg" let ?base = "frags_per_group (sb img) * cg"
  note g = layout_okD(2) [OF l]
  note gd = block_geometryD [OF g] and v = valid_geometryD [OF block_geometryD(1) [OF g]]
  have nle: "n \<le> frags_per_group ?s" using ok n(1) by (simp add: cg_ok_def)
  have ne: "n \<le> e" and ef: "e \<le> frags_per_group ?s" using nle t(1) by (simp_all add: e_def)
  have n20: "nextufs__read_be32 ?b 20 = n" using n(1) by (simp add: cg_offsets)
  from read_group_calm [OF c l cg] obtain i1 where
    r1: "nextufs_image_pread (cg_size ?s) (frag_bytes ?s (cgtod ?s cg)) img = (Inr ?b, i1)"
    and c1: "calm_image ops disk binv calm i1" and d1: "disk (backend_ctx i1) = disk (backend_ctx img)" and s1: "static i1 = static img"
    by blast
  note sd = staticD [OF s1] and st = static_layout [OF s1]
  from group_extended_ok [OF g ok n20 ne ef, where cyls = cyls and now = "u32 (clock img)"] obtain b1 nb nf where
    a: "add_free_frag_range ?s ?b n e = Inr (b1, nb, nf)"
    and b': "cg_ok ?s (cg_extended b1 cyls e nb nf (u32 (clock img)))"
      "nextufs__read_be32 (cg_extended b1 cyls e nb nf (u32 (clock img))) 20 = e"
      "\<forall>k < frags_per_group ?s. cg_bits (cg_extended b1 cyls e nb nf (u32 (clock img))) k \<longleftrightarrow> cg_bits ?b k \<or> n \<le> k \<and> k < e"
    and sum: "nb * int (frags_per_block ?s) + nf = int (e - n)"
      "counts_moved ?b (cg_extended b1 cyls e nb nf (u32 (clock img))) nb nf" by blast
  let ?b' = "cg_extended b1 cyls e nb nf (u32 (clock img))"
  have len: "length ?b' = cg_size (sb i1)" using b'(1) sd(1) by (simp add: cg_ok_def)
  have l1: "layout_ok i1" "cg < cg_count (sb i1)" "writable i1" using l cg w st sd by simp_all
  from write_group_calm [OF c1 l1 len] obtain i2 where
    r2: "write_group cg ?b' i1 = (Inr (), i2)" and gw: "group_written i1 (disk (backend_ctx img)) (disk (backend_ctx i2)) cg ?b'"
    using d1 by auto
  have gw': "group_written img (disk (backend_ctx img)) (disk (backend_ctx i2)) cg ?b'"
    using gw unfolding group_written_def st sd(1) .
  have fpg: "0 < frags_per_group ?s" "frags_per_group ?s \<le> 57664" using v by blast+
  have "target < 4294967296" using t(2) by simp
  then have base: "u64 ?base = ?base" using t(1) by (intro u64_id) linarith
  have rem: "u64_sub target ?base = target - ?base"
  proof -
    have "int target - int ?base = int (target - ?base)" using t(1) by simp
    moreover have "int (target - ?base) mod 2 ^ 64 = int (target - ?base)" using t(2) by (intro mod_pos_pos_trivial) simp_all
    ultimately show ?thesis by (simp only: u64_sub_def nat_int)
  qed
  have cnt: "cg_frag_count ?s cg target = e"
  proof -
    have "u64 (cg * frags_per_group ?s) = ?base" using base by (simp add: mult.commute)
    moreover have "target - ?base < frags_per_group ?s \<Longrightarrow> u32 (target - ?base) = target - ?base" using fpg by (intro u32_id) linarith
    ultimately show ?thesis using rem by (simp add: cg_frag_count_def Let_def e_def min_def)
  qed
  have un: "u32 (?base + n - ?base) = n" unfolding diff_add_inverse using nle fpg(2) by (intro u32_id) linarith
  have ok': "\<not> (?base + n \<le> ?base \<or> ?base + frags_per_group ?s < ?base + n \<or> target < ?base + n)" using n(2) nle t(1) by simp
  have "cg_size ?s < 9223372036854775808" using v(4,5,6,22) by linarith
  then have small: "cg_size ?s < 2 ^ 63" by simp
  have m: "malloc_io (cg_size ?s) img = (Inr (), img)" by (rule malloc_calm [OF c small])
  have dn: "u32_sub e n = e - n"
    using ne ef fpg(2) by (intro u32_sub_exact) linarith+
  have ck: "clock i1 = clock img" by (rule sd(6))
  have "expand_old_last_cg cg (?base + n) target cyls img = (Inr (nb, nf, e - n), i2)"
    using ok' r1 r2 a m un by (simp add: expand_old_last_cg_def Let_def bind_io_def get_io_def base cnt lift_res_def time_io_def ck dn ret_def)
  with gw' b' sum show ?thesis unfolding cg_offsets by (intro exI conjI)
qed

lemma reserve_summary_calm:
  assumes c: "calm_image ops disk binv calm img" and l: "layout_ok img" and w: "writable img"
    and ok: "cg_ok (sb img) (cg_bytes img (disk (backend_ctx img)) 0)" and larger: "csum_size (sb img) < new"
    and st: "start = cyl_summary_addr (sb img) + summary_frags (sb img) (csum_size (sb img))"
    and en: "end = cyl_summary_addr (sb img) + summary_frags (sb img) new" and le: "start \<le> end" "end \<le> frags_per_group (sb img)"
  defines "b \<equiv> cg_bytes img (disk (backend_ctx img)) 0"
  shows "if \<forall>k. start \<le> k \<and> k < end \<longrightarrow> cg_bits b k
    then \<exists>nb nf img' b'. reserve_summary_extension new img = (Inr (nb, nf), img') \<and>
      group_written img (disk (backend_ctx img)) (disk (backend_ctx img')) 0 b' \<and> cg_ok (sb img) b' \<and>
      (\<forall>k < frags_per_group (sb img). cg_bits b' k \<longleftrightarrow> cg_bits b k \<and> \<not> (start \<le> k \<and> k < end)) \<and>
      counts_moved b b' nb nf \<and>
      nb * int (frags_per_block (sb img)) + nf = - int (end - start)
    else \<exists>img'. reserve_summary_extension new img = (Inl ENOSPC, img') \<and> disk (backend_ctx img') = disk (backend_ctx img)"
proof -
  let ?s = "sb img"
  note g = layout_okD(2) [OF l]
  note gd = block_geometryD [OF g] and v = valid_geometryD [OF block_geometryD(1) [OF g]]
  have cg: "0 < cg_count ?s" using v by blast
  from read_group_calm [OF c l cg] obtain i1 where
    r1: "nextufs_image_pread (cg_size ?s) (frag_bytes ?s (cgtod ?s 0)) img = (Inr b, i1)"
    and c1: "calm_image ops disk binv calm i1" and d1: "disk (backend_ctx i1) = disk (backend_ctx img)" and s1: "static i1 = static img"
    unfolding b_def by blast
  note sd = staticD [OF s1] and sl = static_layout [OF s1]
  have us: "u32 start = start" and ue: "u32 end = end" using le v(15) by (intro u32_id; linarith)+
  have "cg_size ?s < 9223372036854775808" using v(4,5,6,22) by linarith
  then have small: "cg_size ?s < 2 ^ 63" by simp
  have m: "malloc_io (cg_size ?s) img = (Inr (), img)" by (rule malloc_calm [OF c small])
  have unf: "reserve_summary_extension new img = (case take_blocks ?s end start b 0 0 of Inl e \<Rightarrow> (Inl e, i1)
      | Inr (b', nb, nf) \<Rightarrow> bind_io (write_group 0 (cg_reserved b' nb nf (u32 (clock i1)))) (\<lambda>_. ret (nb, nf)) i1)"
    using larger le(2) r1 m us ue
    by (simp add: reserve_summary_extension_def Let_def bind_io_def get_io_def st [symmetric] en [symmetric] lift_res_def time_io_def
        ret_def fail_def split: sum.splits prod.splits)
  note gr = group_reserved_ok [OF g ok le, where now = "u32 (clock i1)", folded b_def]
  show ?thesis
  proof (cases "\<forall>k. start \<le> k \<and> k < end \<longrightarrow> cg_bits b k")
    case False
    with gr unf d1 show ?thesis by auto
  next
    case True
    with gr obtain b' nb nf where r: "take_blocks ?s end start b 0 0 = Inr (b', nb, nf)"
      and b': "cg_ok ?s (cg_reserved b' nb nf (u32 (clock i1)))"
        "\<forall>k < frags_per_group ?s. cg_bits (cg_reserved b' nb nf (u32 (clock i1))) k \<longleftrightarrow> cg_bits b k \<and> \<not> (start \<le> k \<and> k < end)"
      and sum: "nb * int (frags_per_block ?s) + nf = - int (end - start)"
        "counts_moved b (cg_reserved b' nb nf (u32 (clock i1))) nb nf" by auto
    let ?b' = "cg_reserved b' nb nf (u32 (clock i1))"
    have len: "length ?b' = cg_size (sb i1)" using b'(1) sd(1) by (simp add: cg_ok_def)
    have l1: "layout_ok i1" "0 < cg_count (sb i1)" "writable i1" using l cg w sl sd by simp_all
    from write_group_calm [OF c1 l1 len] obtain i2 where
      r2: "write_group 0 ?b' i1 = (Inr (), i2)" and gw: "group_written i1 (disk (backend_ctx img)) (disk (backend_ctx i2)) 0 ?b'"
      using d1 by auto
    have gw': "group_written img (disk (backend_ctx img)) (disk (backend_ctx i2)) 0 ?b'"
      using gw unfolding group_written_def sl sd(1) .
    have run: "reserve_summary_extension new img = (Inr (nb, nf), i2)" using unf r r2 by (simp add: bind_io_def ret_def)
    show ?thesis unfolding if_P [OF True] using run gw' b' sum by (intro exI conjI)
  qed
qed

end

section \<open>A group that can grow\<close>

text \<open>The sample image with a last group of 20 fragments, none of them free.\<close>

definition sample_short_group :: "byte list" where
  "sample_short_group = new_cg_header sample_superblock 0 1 20 7"

definition sample_short_disk :: "byte list" where
  "sample_short_disk = overlay 12288 sample_short_group (replicate 32768 0)"

lemma sample_short_group_ok:
  "cg_ok sample_superblock sample_short_group" "nextufs__read_be32 sample_short_group CG_NDBLK_OFF = 20"
  "k < 32 \<Longrightarrow> \<not> cg_bits sample_short_group k"
proof -
  have n: "(20 :: nat) \<le> frags_per_group sample_superblock" by simp
  note h = new_header_pending [OF sample_block_geometry n, where cg = 0 and cyls = 1 and now = 7, folded sample_short_group_def]
  from pending_end [OF h(1) pendingD(2) [OF h(1)] h(4) _ _ refl]
  show "cg_ok sample_superblock sample_short_group" by simp
  show "nextufs__read_be32 sample_short_group CG_NDBLK_OFF = 20" using h(4) by (simp add: cg_offsets)
  show "k < 32 \<Longrightarrow> \<not> cg_bits sample_short_group k" using h(2) [of k] by (simp add: cg_bits_def cg_offsets)
qed

lemma sample_short_disk_facts:
  "length sample_short_disk = 32768" "layout_ok (sample_image sample_short_disk)"
  "cg_bytes (sample_image sample_short_disk) sample_short_disk 0 = sample_short_group"
proof -
  have len: "length sample_short_group = 1024" using sample_short_group_ok(1) by (simp add: cg_ok_def)
  then show l: "length sample_short_disk = 32768" by (simp add: sample_short_disk_def)
  have a: "super_addr (sample_image sample_short_disk) = 8192" "csum_addr (sample_image sample_short_disk) 0 = 20480"
    "cg_addr (sample_image sample_short_disk) 0 = 12288"
    by (simp_all add: super_addr_def csum_addr_def cg_addr_def nextufs__cg_block_offset_def nextufs__cgstart_def u64_def to_off_def)
  show "layout_ok (sample_image sample_short_disk)"
    using sample_valid [OF l] sample_block_geometry l by (simp add: layout_ok_def slice_inside_def a)
  show "cg_bytes (sample_image sample_short_disk) sample_short_disk 0 = sample_short_group"
    using bytes_at_overlay_same [of 12288 sample_short_group "replicate 32768 0"] len
    unfolding cg_bytes_def a by (simp add: sample_short_disk_def)
qed

section \<open>Properties\<close>

text \<open>
  C23. Extending the last group, when its counters match its map and the file system ends with it: the
  call succeeds; the group then has the fragments up to the new end of the file system or of the group,
  its old free fragments and the added ones are free and no others, its counters of free space, those by
  cylinder and by rotational position with them, match the new map again, its entry in the summary area has
  the same counts, the returned changes are those of its free blocks and of its free fragments and amount
  together to the added fragments, and no other byte is touched.
\<close>

theorem last_group_extended:
  assumes "raw_image_calm img" and "layout_ok img" and "cg < cg_count (sb img)" and "writable img"
    and "content (backend_ctx img) = D" and "cg_bytes img D cg = b" and "cg_ok (sb img) b"
    and "nextufs__read_be32 b CG_NDBLK_OFF = n" and "0 < n"
    and "frags_per_group (sb img) * cg + n \<le> target" and "target < 2 ^ 32"
    and "min (frags_per_group (sb img)) (target - frags_per_group (sb img) * cg) = e"
  shows "\<exists>nb nf img' b'. expand_old_last_cg cg (frags_per_group (sb img) * cg + n) target cyls img = (Inr (nb, nf, e - n), img') \<and>
    group_written img D (content (backend_ctx img')) cg b' \<and> cg_ok (sb img) b' \<and> nextufs__read_be32 b' CG_NDBLK_OFF = e \<and>
    (\<forall>k < frags_per_group (sb img). cg_bits b' k \<longleftrightarrow> cg_bits b k \<or> n \<le> k \<and> k < e) \<and>
    counts_moved b b' nb nf \<and>
    nb * int (frags_per_block (sb img)) + nf = int (e - n)"
  using raw.expand_last_group_calm [OF assms(1-4)] assms(5-12) by blast

theorem last_group_extended_witness:
  "\<exists>nb nf img' b'. expand_old_last_cg 0 (frags_per_group (sb (sample_image sample_short_disk)) * 0 + 20) 30 0
      (sample_image sample_short_disk) = (Inr (nb, nf, 30 - 20), img') \<and>
    group_written (sample_image sample_short_disk) sample_short_disk (content (backend_ctx img')) 0 b' \<and>
    cg_ok (sb (sample_image sample_short_disk)) b' \<and> nextufs__read_be32 b' CG_NDBLK_OFF = 30 \<and>
    (\<forall>k < frags_per_group (sb (sample_image sample_short_disk)). cg_bits b' k \<longleftrightarrow> cg_bits sample_short_group k \<or> 20 \<le> k \<and> k < 30) \<and>
    counts_moved sample_short_group b' nb nf \<and>
    nb * int (frags_per_block (sb (sample_image sample_short_disk))) + nf = int (30 - 20)"
  by (rule last_group_extended)
    (simp_all add: sample_short_disk_facts sample_short_group_ok sample_calm)

text \<open>
  C24. Reserving the fragments by which the summary area grows, from the first group: when all of them
  are free the call succeeds, takes exactly them out of the map, keeps the counters of free space of the
  group, those by cylinder and by rotational position with them, equal to the census of the map and its
  summary entry equal to its counters, and returns the changes of its free blocks and of its free fragments;
  when one is in use the call returns \<open>ENOSPC\<close> and writes nothing.
\<close>

theorem summary_extension_reserved:
  assumes "raw_image_calm img" and "layout_ok img" and "writable img"
    and "content (backend_ctx img) = D" and "cg_bytes img D 0 = b" and "cg_ok (sb img) b" and "csum_size (sb img) < new"
    and "cyl_summary_addr (sb img) + summary_frags (sb img) (csum_size (sb img)) = start"
    and "cyl_summary_addr (sb img) + summary_frags (sb img) new = end" and "start \<le> end" and "end \<le> frags_per_group (sb img)"
  shows "if \<forall>k. start \<le> k \<and> k < end \<longrightarrow> cg_bits b k
    then \<exists>nb nf img' b'. reserve_summary_extension new img = (Inr (nb, nf), img') \<and>
      group_written img D (content (backend_ctx img')) 0 b' \<and> cg_ok (sb img) b' \<and>
      (\<forall>k < frags_per_group (sb img). cg_bits b' k \<longleftrightarrow> cg_bits b k \<and> \<not> (start \<le> k \<and> k < end)) \<and>
      counts_moved b b' nb nf \<and>
      nb * int (frags_per_block (sb img)) + nf = - int (end - start)
    else \<exists>img'. reserve_summary_extension new img = (Inl ENOSPC, img') \<and> content (backend_ctx img') = D"
  by (rule raw.reserve_summary_calm [OF assms(1-3), unfolded assms(4,5), OF assms(6,7) assms(8,9) [symmetric] assms(10,11)])

theorem summary_extension_reserved_witness:
  "\<exists>nb nf img' b'. reserve_summary_extension 2048 (sample_image sample_disk) = (Inr (nb, nf), img') \<and>
     group_written (sample_image sample_disk) sample_disk (content (backend_ctx img')) 0 b' \<and> cg_ok sample_superblock b' \<and>
     (\<forall>k < 32. cg_bits b' k \<longleftrightarrow> 22 \<le> k) \<and> counts_moved sample_group b' nb nf \<and> nb * 4 + nf = - 1"
proof -
  have s: "summary_frags sample_superblock 1024 = 1" "summary_frags sample_superblock 2048 = 2"
    by (simp_all add: summary_frags_def)
  have all: "\<forall>k. 21 \<le> k \<and> k < 22 \<longrightarrow> cg_bits sample_group k" using sample_bits by simp
  from summary_extension_reserved [of "sample_image sample_disk" sample_disk sample_group 2048 21 22] all s
  obtain nb nf img' b' where
    "reserve_summary_extension 2048 (sample_image sample_disk) = (Inr (nb, nf), img')"
    "group_written (sample_image sample_disk) sample_disk (content (backend_ctx img')) 0 b'" "cg_ok sample_superblock b'"
    "\<forall>k < 32. cg_bits b' k \<longleftrightarrow> cg_bits sample_group k \<and> \<not> (21 \<le> k \<and> k < 22)" "nb * 4 + nf = - 1"
    "counts_moved sample_group b' nb nf"
    using sample_layout sample_calm [of sample_disk] sample_cg_bytes sample_cg_ok by auto
  moreover from this(4) have "\<forall>k < 32. cg_bits b' k \<longleftrightarrow> 22 \<le> k" using sample_bits by auto
  ultimately show ?thesis by blast
qed

text \<open>
  C25. A new group is built exactly when it is not longer than a group and has room for its metadata, and
  refused with \<open>ENOSPC\<close> otherwise. Its free fragments are those before the superblock copy and those from the
  data area to its end, the counters of free space, those by cylinder and by rotational position with them,
  match that map, every inode is free, the counts returned are those in the group, and together they amount
  to all fragments but those of the metadata.
\<close>

theorem new_group_census:
  assumes "block_geometry s" and "cg < 2 ^ 32" and "sb_off s \<le> data_off s"
    and "cg_delta s * (cg AND u32_not (cg_cyc_mask s)) = d"
  shows "if ndblk \<le> frags_per_group s \<and> d + data_off s \<le> ndblk
    then \<exists>b nb nf. build_new_cg s cg cyls ndblk now = Inr (b, nb, int (inodes_per_group s), nf) \<and>
      new_group_ok s b (d + sb_off s) (d + data_off s) ndblk \<and>
      int (nextufs__read_be32 b CG_CS_NBFREE_OFF) = nb \<and> int (nextufs__read_be32 b CG_CS_NFFREE_OFF) = nf \<and>
      nb * int (frags_per_block s) + nf = int (d + sb_off s + (ndblk - (d + data_off s)))
    else build_new_cg s cg cyls ndblk now = Inl ENOSPC"
  using build_new_cg_ok [OF assms(1-3)] assms(4) by blast

theorem new_group_census_witness:
  "\<exists>b nb nf. build_new_cg sample_superblock 1 1 32 7 = Inr (b, nb, 32, nf) \<and>
     new_group_ok sample_superblock b 8 20 32 \<and> nb * 4 + nf = 20"
  using new_group_census [OF sample_block_geometry, of 1 0 32 1 7] by (auto simp: u32_not_def)

end
