(* ===== verification/Spec2Isabelle.thy ===== *)
theory Spec2Isabelle
  imports Vdi_Published Dir_Block Qcow2_Open Resize_Undo Resize_Disk
begin

text \<open>
  \<^bold>\<open>A model of nextufs.\<close> The program reads and changes NeXT UFS file systems inside disk image
  files. An image is a file of the host, plain or in a container format; a disk label selects a
  slice of it; the slice holds a superblock, cylinder groups, inodes and data. Commands work on it
  by path, and a mutation runs under an undo log that puts every byte back when it fails.

  \<^bold>\<open>How the C code is rendered.\<close> A fallible function is a computation of the state-and-error monad
  of \<open>Prelude\<close>: \<open>Inl e\<close> is the return of \<open>-e\<close>, and the state an early return leaves behind is kept.
  Unsigned fields are natural numbers below the bound of their type, with the reductions \<open>u16\<close>,
  \<open>u32\<close>, \<open>u64\<close> written where the code can wrap; offsets of type \<open>off_t\<close> are integers. A buffer is a list of
  bytes, a pointer into it a buffer and an offset. System calls take their outcomes from a script
  in the state of the file (\<open>Posix_File\<close>), so that every schedule of short transfers, interrupts
  and errors is covered; allocation failures and the clock are further fields of the image.

  \<^bold>\<open>The theories, from the bottom.\<close>
  \<^item> \<open>Prelude\<close>, \<open>Bytes\<close>, \<open>Posix_File\<close>: the monad and its rules, the integer codecs, the exact
    transfers of \<^verbatim>\<open>src/core/layout.c\<close>.
  \<^item> \<open>Image\<close>, \<open>Undo_Log\<close>, \<open>Access\<close>, \<open>Raw_Backend\<close>: the structure of an open image, the checked
    accessors, the transaction of \<^verbatim>\<open>src/core/transaction.c\<close>. The locale \<open>backend\<close> is the contract
    of the backend operations, \<open>calm_backend\<close> adds that they do not fail; both are interpreted on
    the plain file (\<open>raw\<close>).
  \<^item> \<open>Superblock\<close>, \<open>Geometry\<close>: decoding and validation of the superblock and the address
    arithmetic of an accepted geometry.
  \<^item> \<open>Inode\<close>, \<open>Cg_Map\<close>, \<open>Alloc\<close>, \<open>Rotational_Tables\<close>, \<open>Group_Census\<close>, \<open>Alloc_Disk\<close>, \<open>Block_Map\<close>,
    \<open>Node\<close>, \<open>File_Mutate\<close>: inodes, the allocators of \<^verbatim>\<open>src/core/alloc.c\<close> with the census of the free map that
    their counters must match (\<open>cg_ok\<close>: free blocks, free fragments, free runs of each length, and the tables
    of free blocks by cylinder and by rotational position, \<open>tables_ok\<close>), file block maps, file resizing and
    writing.
  \<^item> \<open>Directory\<close>, \<open>Dir_Block\<close>, \<open>Path\<close>: directory records and what the operations on them do to the
    map from names to inodes; the path lookup.
  \<^item> \<open>Mutate\<close>, \<open>Atomicity\<close>: the operations of \<^verbatim>\<open>include/nextufs_mutate.h\<close> with their policy and
    the frame they share; every one of them is all or nothing over any backend.
  \<^item> \<open>Vdi_Backend\<close>, \<open>Vdi_Session\<close>, \<open>Vdi_Published\<close>: dynamic and differencing VDI images as a second
    provider of the contract, over any backend as parent, so that the atomicity holds over them too; the count
    and the map of blocks in the file stay those in memory unless the backend is marked as failed.
  \<^item> \<open>Qcow2\<close>, \<open>Qcow2_Disk\<close>, \<open>Qcow2_Alloc\<close>, \<open>Qcow2_Map\<close>, \<open>Qcow2_Write\<close>, \<open>Qcow2_Stored\<close>, \<open>Qcow2_Open\<close>:
    the qcow2 backend of \<^verbatim>\<open>src/core/qcow2.c\<close>. The locale \<open>layer\<close> is what a chain of parents promises; it is interpreted on
    the end of a chain (\<open>bottom\<close>), on a layer without a parent (\<open>lone\<close>) and on a layer with any such layer behind
    it (\<open>backed\<close>). Reading is faithful, allocation keeps tables and counts sound, a write is an overlay
    of the guest disk, and a file that opens has the tables that the file holds, sound and with exact counts; a
    write is only shown not to make a count too small, and the first table and the counts that it leaves in the
    file are not followed. It is not an instance of \<open>backend\<close>:
    that contract wants a failed write to change nothing outside its range, and an entry of a
    second table that reaches the file in part changes a whole guest cluster; such a layer is marked
    as failed instead.
  \<^item> \<open>Label\<close>, \<open>Image_Open\<close>: the NeXT disk label of \<^verbatim>\<open>src/core/label.c\<close>; the search for a label and
    a superblock, the extraction of a slice and the close with its rollback (\<^verbatim>\<open>src/core/image.c\<close>).
  \<^item> \<open>Report\<close>: numbers and sizes (\<^verbatim>\<open>src/core/size.c\<close>), the facts about an image and the text and JSON
    report (\<^verbatim>\<open>src/core/info.c\<close>, \<^verbatim>\<open>src/core/report.c\<close>).
  \<^item> \<open>Resize\<close>, \<open>Resize_Undo\<close>, \<open>Resize_Groups\<close>, \<open>Resize_Disk\<close>: the growth of a file system
    (\<^verbatim>\<open>src/commands/resize.c\<close>; \<open>grow_opened\<close> is \<^verbatim>\<open>resize_grow\<close> after the image is open). A growth that is refused or
    fails is undone together with the length of the file, except for moves of data that were finished before
    it begins anew; the groups it extends, reserves from and builds
    keep the census of their maps.

  \<^bold>\<open>Bounds and fuel.\<close> Loops are structural on lists or counters, or have a measure. The retry loops
  of the exact transfers shorten the script or the rest. The lookup of a path is bounded by the
  code's own limit of symbolic links; the walk to the root of a rename by the count of inodes,
  as in the code.

  \<^bold>\<open>Not modelled.\<close> The other command lines, the checker and the formatter, the FUSE
  callbacks, the creation of target files, the search for the parent file of a VDI image and the
  copy of a file of the host into an image. What the commands print besides the report.
  The results of \<open>open\<close>, \<open>flock\<close>, \<open>stat\<close> and \<open>fstat\<close> are parameters.
  The manifest lists each part with its reason. The temporary file of the undo log is a value
  with a script of results; the atomicity theorems assume that its calls succeed
  (\<open>tmpfile_script\<close> empty), which they need: a record of the log that is only partly written
  is not undone by the code. A failing \<open>ftello\<close> on it is not a case of its own.
\<close>

end
